(* ===== verification/Prelude.thy ===== *)
theory Prelude
  imports Main "HOL-Library.Word" "HOL-Library.Monad_Syntax"
begin

text \<open>
  Shared vocabulary of the development: bytes and C strings, guarded memory reads, and the
  generic lemmas on lists and on the option monad that the component theories use.

  A C string is modelled as the list of its bytes up to, and without, the terminating NUL.
  A read through a pointer is \<open>rd\<close>: it yields the byte in range, the NUL at the end, and
  \<open>None\<close> past the terminator.  A model function that returns \<open>None\<close> has therefore
  performed an access the C program may not perform.
\<close>

unbundle bit_operations_syntax

type_synonym byte = "8 word"
type_synonym cstr = "8 word list"
type_synonym u32 = "32 word"

named_theorems mem_simps "guarded memory accesses in range"

section \<open>Guarded reads\<close>

definition rd :: "cstr \<Rightarrow> nat \<Rightarrow> byte option" where
  "rd s i = (if i < length s then Some (s ! i) else if i = length s then Some 0 else None)"

definition at_nul :: "cstr \<Rightarrow> bool" where
  "at_nul s \<longleftrightarrow> s = [] \<or> hd s = 0"

definition c_string :: "cstr \<Rightarrow> bool" where
  "c_string s \<longleftrightarrow> 0 \<notin> set s"

lemma rd_in [mem_simps]: "i < length s \<Longrightarrow> rd s i = Some (s ! i)"
  by (simp add: rd_def)

lemma rd_end [mem_simps]: "rd s (length s) = Some 0"
  by (simp add: rd_def)

lemma rd_0 [simp]: "rd s 0 = Some (if s = [] then 0 else hd s)"
  by (cases s) (auto simp: rd_def)

lemma rd_nonzero: "rd s i = Some b \<Longrightarrow> b \<noteq> 0 \<Longrightarrow> i < length s \<and> b = s ! i"
  by (auto simp: rd_def split: if_splits)

lemma rd_le: "i \<le> length s \<Longrightarrow> \<exists>b. rd s i = Some b"
  by (auto simp: rd_def)

lemma at_nul_Nil [simp]: "at_nul []"
  by (simp add: at_nul_def)

lemma at_nul_Cons [simp]: "at_nul (b # s) \<longleftrightarrow> b = 0"
  by (simp add: at_nul_def)

lemma c_string_at_nul: "c_string s \<Longrightarrow> at_nul s \<longleftrightarrow> s = []"
  by (cases s) (auto simp: c_string_def)

lemma c_string_simps [simp]:
  "c_string []"
  "c_string (b # s) \<longleftrightarrow> b \<noteq> 0 \<and> c_string s"
  "c_string (s @ t) \<longleftrightarrow> c_string s \<and> c_string t"
  by (auto simp: c_string_def)

lemma c_string_drop [intro]: "c_string s \<Longrightarrow> c_string (drop n s)"
  by (auto simp: c_string_def dest: in_set_dropD)

lemma c_string_take [intro]: "c_string s \<Longrightarrow> c_string (take n s)"
  by (auto simp: c_string_def dest: in_set_takeD)

section \<open>Guarded writes\<close>

text \<open>\<open>wr d i bs\<close> stores the bytes \<open>bs\<close> at offset \<open>i\<close> of the buffer \<open>d\<close>, or is \<open>None\<close> when they
  do not fit.\<close>

definition wr :: "byte list \<Rightarrow> nat \<Rightarrow> byte list \<Rightarrow> byte list option" where
  "wr d i bs =
     (if i + length bs \<le> length d then Some (take i d @ bs @ drop (i + length bs) d) else None)"

lemma wr_in [mem_simps]:
  "i + length bs \<le> length d \<Longrightarrow> wr d i bs = Some (take i d @ bs @ drop (i + length bs) d)"
  by (simp add: wr_def)

lemma wr_append [simp]:
  "length p = i \<Longrightarrow> length bs \<le> length d \<Longrightarrow>
   wr (p @ d) i bs = Some (p @ bs @ drop (length bs) d)"
  by (auto simp: wr_def)

lemma wr_length: "wr d i bs = Some d' \<Longrightarrow> length d' = length d"
  by (auto simp: wr_def split: if_splits)

section \<open>Lists\<close>

lemma drop_less_length: "s \<noteq> [] \<Longrightarrow> 0 < n \<Longrightarrow> length (drop n s) < length s"
  by (cases s) auto

lemma nth_append_in [mem_simps]: "i < length s \<Longrightarrow> (s @ t) ! i = s ! i"
  by (simp add: nth_append)

lemma hd_last_split: "i \<in> set xs \<Longrightarrow> \<exists>as bs. xs = as @ i # bs"
  by (rule split_list)

end
