(* ===== verification/Links.thy ===== *)
theory Links
  imports Prelude
begin

text \<open>
  Doubly linked chains, shared by the intrusive lists of \<open>list.h\<close> (whose boundary is the list
  head) and the handler table (whose boundary is the invalid id).  \<open>dl nx pv p xs q\<close>: the nodes
  \<open>xs\<close> are linked forwards by \<open>nx\<close> and backwards by \<open>pv\<close>, between the boundaries \<open>p\<close> and \<open>q\<close>.
\<close>

definition first_of :: "'a \<Rightarrow> 'a list \<Rightarrow> 'a" where
  "first_of q xs = (if xs = [] then q else hd xs)"

definition last_of :: "'a \<Rightarrow> 'a list \<Rightarrow> 'a" where
  "last_of p xs = (if xs = [] then p else last xs)"

lemma first_of_simps [simp]:
  "first_of q [] = q" "first_of q (x # xs) = x" "first_of q (xs @ ys) = first_of (first_of q ys) xs"
  by (simp_all add: first_of_def hd_append)

lemma last_of_simps [simp]:
  "last_of p [] = p" "last_of p (xs @ [x]) = x" "last_of p (x # xs) = last_of x xs"
  "last_of p (xs @ ys) = last_of (last_of p xs) ys"
  by (simp_all add: last_of_def)

lemma first_of_rev: "first_of q (rev xs) = last_of q xs"
  by (simp add: first_of_def last_of_def hd_rev)

lemma first_of_in: "first_of q xs = x \<Longrightarrow> x \<noteq> q \<Longrightarrow> x \<in> set xs"
  by (auto simp: first_of_def split: if_splits)

lemma last_of_in: "last_of q xs = x \<Longrightarrow> x \<noteq> q \<Longrightarrow> x \<in> set xs"
  by (auto simp: last_of_def split: if_splits)

lemma first_of_eq: "q \<notin> set xs \<Longrightarrow> first_of q xs = q \<longleftrightarrow> xs = []"
  by (cases xs) auto

lemma last_of_eq: "q \<notin> set xs \<Longrightarrow> last_of q xs = q \<longleftrightarrow> xs = []"
  by (cases xs rule: rev_cases) auto

fun dl :: "('a \<Rightarrow> 'a) \<Rightarrow> ('a \<Rightarrow> 'a) \<Rightarrow> 'a \<Rightarrow> 'a list \<Rightarrow> 'a \<Rightarrow> bool" where
  "dl nx pv p [] q \<longleftrightarrow> True"
| "dl nx pv p (x # xs) q \<longleftrightarrow> pv x = p \<and> nx x = first_of q xs \<and> dl nx pv x xs q"

lemma dl_append:
  "dl nx pv p (xs @ ys) q \<longleftrightarrow> dl nx pv p xs (first_of q ys) \<and> dl nx pv (last_of p xs) ys q"
  by (induction xs arbitrary: p) auto

lemma dl_snoc [simp]:
  "dl nx pv p (xs @ [x]) q \<longleftrightarrow> dl nx pv p xs x \<and> pv x = last_of p xs \<and> nx x = q"
  by (simp add: dl_append)

lemma dl_cong:
  "(\<And>i. i \<in> set xs \<Longrightarrow> nx i = nx' i) \<Longrightarrow> (\<And>i. i \<in> set xs \<Longrightarrow> pv i = pv' i) \<Longrightarrow>
   dl nx pv p xs q \<longleftrightarrow> dl nx' pv' p xs q"
  by (induction xs arbitrary: p) auto

lemma dl_at:
  "dl nx pv p (xs @ x # ys) q \<Longrightarrow> pv x = last_of p xs \<and> nx x = first_of q ys"
  by (simp add: dl_append)

text \<open>Rewriting the link into or out of a chain.\<close>

lemma dl_relink_end:
  assumes "dl nx pv p xs q" and "distinct xs"
    and "\<And>i. i \<in> set xs \<Longrightarrow> nx' i = (if i = last_of p xs then q' else nx i)"
    and "\<And>i. i \<in> set xs \<Longrightarrow> pv' i = pv i"
  shows "dl nx' pv' p xs q'"
proof (cases xs rule: rev_cases)
  case (snoc ys y)
  with assms have "dl nx' pv' p ys y \<longleftrightarrow> dl nx pv p ys y"
    by (intro dl_cong) auto
  with assms snoc show ?thesis by auto
qed simp

lemma dl_relink_start:
  assumes "dl nx pv p xs q" and "distinct xs"
    and "\<And>i. i \<in> set xs \<Longrightarrow> nx' i = nx i"
    and "\<And>i. i \<in> set xs \<Longrightarrow> pv' i = (if i = first_of q xs then p' else pv i)"
  shows "dl nx' pv' p' xs q"
proof (cases xs)
  case (Cons y ys)
  with assms have "dl nx' pv' y ys q \<longleftrightarrow> dl nx pv y ys q"
    by (intro dl_cong) auto
  with assms Cons show ?thesis by auto
qed simp

lemma dl_insert:
  assumes dl: "dl nx pv p (xs @ ys) q" and dist: "distinct (xs @ ys)"
    and pq: "p \<notin> set ys" "q \<notin> set xs"
    and nx: "\<And>i. i \<in> set (xs @ ys) \<Longrightarrow> nx' i = (if i = last_of p xs then n else nx i)"
    and pv: "\<And>i. i \<in> set (xs @ ys) \<Longrightarrow> pv' i = (if i = first_of q ys then n else pv i)"
    and n: "nx' n = first_of q ys" "pv' n = last_of p xs"
  shows "dl nx' pv' p (xs @ n # ys) q"
proof -
  have "dl nx' pv' p xs n"
  proof (rule dl_relink_end)
    show "dl nx pv p xs (first_of q ys)" using dl by (simp add: dl_append)
    fix i assume "i \<in> set xs"
    then show "nx' i = (if i = last_of p xs then n else nx i)" by (simp add: nx)
    from \<open>i \<in> set xs\<close> have "i \<noteq> first_of q ys"
      using dist pq(2) by (cases ys) auto
    with \<open>i \<in> set xs\<close> show "pv' i = pv i" by (simp add: pv)
  qed (use dist in simp)
  moreover have "dl nx' pv' n ys q"
  proof (rule dl_relink_start)
    show "dl nx pv (last_of p xs) ys q" using dl by (simp add: dl_append)
    fix i assume "i \<in> set ys"
    then show "pv' i = (if i = first_of q ys then n else pv i)" by (simp add: pv)
    from \<open>i \<in> set ys\<close> have "i \<noteq> last_of p xs"
      using dist pq(1) by (cases xs rule: rev_cases) auto
    with \<open>i \<in> set ys\<close> show "nx' i = nx i" by (simp add: nx)
  qed (use dist in simp)
  ultimately show ?thesis
    using n by (simp add: dl_append)
qed

lemma dl_remove:
  assumes dl: "dl nx pv p (xs @ n # ys) q" and dist: "distinct (xs @ n # ys)"
    and pq: "p \<notin> set ys" "q \<notin> set xs"
    and nx: "\<And>i. i \<in> set (xs @ ys) \<Longrightarrow> nx' i = (if i = last_of p xs then first_of q ys else nx i)"
    and pv: "\<And>i. i \<in> set (xs @ ys) \<Longrightarrow> pv' i = (if i = first_of q ys then last_of p xs else pv i)"
  shows "dl nx' pv' p (xs @ ys) q"
proof -
  have "dl nx' pv' p xs (first_of q ys)"
  proof (rule dl_relink_end)
    show "dl nx pv p xs n" using dl by (simp add: dl_append)
    fix i assume "i \<in> set xs"
    then show "nx' i = (if i = last_of p xs then first_of q ys else nx i)" by (simp add: nx)
    from \<open>i \<in> set xs\<close> have "i \<noteq> first_of q ys"
      using dist pq(2) by (cases ys) auto
    with \<open>i \<in> set xs\<close> show "pv' i = pv i" by (simp add: pv)
  qed (use dist in simp)
  moreover have "dl nx' pv' (last_of p xs) ys q"
  proof (rule dl_relink_start)
    show "dl nx pv n ys q" using dl by (simp add: dl_append)
    fix i assume "i \<in> set ys"
    then show "pv' i = (if i = first_of q ys then last_of p xs else pv i)" by (simp add: pv)
    from \<open>i \<in> set ys\<close> have "i \<noteq> last_of p xs"
      using dist pq(1) by (cases xs rule: rev_cases) auto
    with \<open>i \<in> set ys\<close> show "nx' i = nx i" by (simp add: nx)
  qed (use dist in simp)
  ultimately show ?thesis by (simp add: dl_append)
qed

end
