(* ===== verification/LinkedList.thy ===== *)
theory LinkedList
  imports Links
begin

text \<open>
  The intrusive list of \<open>src/lib/fcitx-utils/list.h\<close>.  Nodes are addresses, 0 is NULL; the store
  holds the two link fields of every node.  An operation is \<open>None\<close> when it dereferences NULL.

  \<open>ring s h xs\<close> is the abstraction: \<open>h\<close> heads the cyclic list of the nodes \<open>xs\<close>.
\<close>

record links =
  nxt :: "nat \<Rightarrow> nat"
  prv :: "nat \<Rightarrow> nat"

section \<open>Operations\<close>

definition set_next :: "nat \<Rightarrow> nat \<Rightarrow> links \<Rightarrow> links option" where
  "set_next a v s = (if a = 0 then None else Some (s\<lparr>nxt := (nxt s)(a := v)\<rparr>))"

definition set_prev :: "nat \<Rightarrow> nat \<Rightarrow> links \<Rightarrow> links option" where
  "set_prev a v s = (if a = 0 then None else Some (s\<lparr>prv := (prv s)(a := v)\<rparr>))"

definition get_next :: "nat \<Rightarrow> links \<Rightarrow> nat option" where
  "get_next a s = (if a = 0 then None else Some (nxt s a))"

definition get_prev :: "nat \<Rightarrow> links \<Rightarrow> nat option" where
  "get_prev a s = (if a = 0 then None else Some (prv s a))"

lemmas link_access = set_next_def set_prev_def get_next_def get_prev_def

definition fcitx_list_init :: "nat \<Rightarrow> links \<Rightarrow> links option" where
  "fcitx_list_init pos s = do { s \<leftarrow> set_next pos pos s; set_prev pos pos s }"

definition fcitx_list_is_empty :: "nat \<Rightarrow> links \<Rightarrow> bool option" where
  "fcitx_list_is_empty pos s = do { n \<leftarrow> get_next pos s; Some (n = pos) }"

definition fcitx_list_insert_between :: "nat \<Rightarrow> nat \<Rightarrow> nat \<Rightarrow> links \<Rightarrow> links option" where
  "fcitx_list_insert_between add prev next s = do {
     s \<leftarrow> set_prev next add s;
     s \<leftarrow> set_next prev add s;
     s \<leftarrow> set_next add next s;
     set_prev add prev s }"

definition fcitx_list_prepend :: "nat \<Rightarrow> nat \<Rightarrow> links \<Rightarrow> links option" where
  "fcitx_list_prepend add pos s = do {
     n \<leftarrow> get_next pos s; fcitx_list_insert_between add pos n s }"

definition fcitx_list_append :: "nat \<Rightarrow> nat \<Rightarrow> links \<Rightarrow> links option" where
  "fcitx_list_append add pos s = do {
     p \<leftarrow> get_prev pos s; fcitx_list_insert_between add p pos s }"

definition fcitx_list_remove :: "nat \<Rightarrow> links \<Rightarrow> links option" where
  "fcitx_list_remove pos s = do {
     next \<leftarrow> get_next pos s;
     prev \<leftarrow> get_prev pos s;
     s \<leftarrow> set_next prev next s;
     s \<leftarrow> set_prev next prev s;
     s \<leftarrow> set_next pos 0 s;
     set_prev pos 0 s }"

text \<open>
  The loops.  \<open>fcitx_list_foreach\<close> threads an accumulator through its body; the safe form reads
  the successor before the body runs, so the body may unlink the current node.  Both take fuel,
  and are \<open>None\<close> when it runs out.
\<close>

fun foreach_from :: "nat \<Rightarrow> nat \<Rightarrow> (nat \<Rightarrow> 'b \<Rightarrow> 'b) \<Rightarrow> links \<Rightarrow> nat \<Rightarrow> 'b \<Rightarrow> 'b option" where
  "foreach_from 0 head body s key acc = None"
| "foreach_from (Suc n) head body s key acc =
     (if key = head then Some acc
      else do { k \<leftarrow> get_next key s; foreach_from n head body s k (body key acc) })"

definition fcitx_list_foreach :: "nat \<Rightarrow> nat \<Rightarrow> (nat \<Rightarrow> 'b \<Rightarrow> 'b) \<Rightarrow> links \<Rightarrow> 'b \<Rightarrow> 'b option" where
  "fcitx_list_foreach n head body s acc = do {
     k \<leftarrow> get_next head s; foreach_from n head body s k acc }"

fun foreach_safe_from ::
  "nat \<Rightarrow> nat \<Rightarrow> (nat \<Rightarrow> links \<Rightarrow> links option) \<Rightarrow> nat \<Rightarrow> nat \<Rightarrow> links \<Rightarrow> links option" where
  "foreach_safe_from 0 head body key nkey s = None"
| "foreach_safe_from (Suc n) head body key nkey s =
     (if key = head then Some s
      else do {
        s \<leftarrow> body key s;
        nn \<leftarrow> get_next nkey s;
        foreach_safe_from n head body nkey nn s })"

definition fcitx_list_foreach_safe ::
  "nat \<Rightarrow> nat \<Rightarrow> (nat \<Rightarrow> links \<Rightarrow> links option) \<Rightarrow> links \<Rightarrow> links option" where
  "fcitx_list_foreach_safe n head body s = do {
     k \<leftarrow> get_next head s;
     nn \<leftarrow> get_next k s;
     foreach_safe_from n head body k nn s }"

section \<open>Rings\<close>

definition ring :: "links \<Rightarrow> nat \<Rightarrow> nat list \<Rightarrow> bool" where
  "ring s h xs \<longleftrightarrow> distinct (h # xs) \<and> 0 \<notin> set (h # xs) \<and>
     nxt s h = first_of h xs \<and> prv s h = last_of h xs \<and> dl (nxt s) (prv s) h xs h"

lemma ring_nonzero: "ring s h xs \<Longrightarrow> h \<noteq> 0"
  by (simp add: ring_def)

lemma first_of_set: "first_of q xs \<in> insert q (set xs)"
  by (simp add: first_of_def)

lemma last_of_set: "last_of q xs \<in> insert q (set xs)"
  by (simp add: last_of_def)

lemma ring_frame:
  "ring s h xs \<Longrightarrow> (\<And>i. i \<in> set (h # xs) \<Longrightarrow> nxt s' i = nxt s i \<and> prv s' i = prv s i) \<Longrightarrow>
   ring s' h xs"
  using dl_cong [of xs "nxt s'" "nxt s" "prv s'" "prv s" h h] by (simp add: ring_def)

lemma ring_init: "h \<noteq> 0 \<Longrightarrow> \<exists>s'. fcitx_list_init h s = Some s' \<and> ring s' h []"
  by (simp add: fcitx_list_init_def link_access ring_def)

lemma ring_is_empty: "ring s h xs \<Longrightarrow> fcitx_list_is_empty h s = Some (xs = [])"
  using first_of_eq [of h xs] by (auto simp: fcitx_list_is_empty_def link_access ring_def)

text \<open>Linking a fresh node anywhere in the ring: both insertions are instances.\<close>

lemma ring_insert_between:
  assumes r: "ring s h (xs @ ys)" and n: "n \<noteq> 0" "n \<notin> set (h # xs @ ys)"
  shows "\<exists>s'. fcitx_list_insert_between n (last_of h xs) (first_of h ys) s = Some s' \<and>
     ring s' h (xs @ n # ys) \<and>
     (\<forall>i. i \<notin> set (h # xs @ n # ys) \<longrightarrow> nxt s' i = nxt s i \<and> prv s' i = prv s i)"
proof -
  let ?p = "last_of h xs" and ?q = "first_of h ys"
  let ?nx = "(nxt s)(?p := n, n := ?q)" and ?pv = "(prv s)(?q := n, n := ?p)"
  have pq: "?p \<in> insert h (set xs)" "?q \<in> insert h (set ys)"
    by (rule last_of_set first_of_set)+
  then have nz: "?p \<noteq> 0" "?q \<noteq> 0" "?p \<noteq> n" "?q \<noteq> n"
    using r n by (auto simp: ring_def)
  have "fcitx_list_insert_between n ?p ?q s = Some (s\<lparr>nxt := ?nx, prv := ?pv\<rparr>)"
    using nz n by (simp add: fcitx_list_insert_between_def link_access)
  moreover have "ring (s\<lparr>nxt := ?nx, prv := ?pv\<rparr>) h (xs @ n # ys)"
  proof -
    have "dl ?nx ?pv h (xs @ n # ys) h"
      using r n nz
      by (intro dl_insert [where nx = "nxt s" and pv = "prv s"]) (auto simp: ring_def)
    moreover have "?nx h = first_of h (xs @ n # ys)"
      using r n by (cases "xs = []") (auto simp: ring_def last_of_def first_of_def)
    moreover have "?pv h = last_of h (xs @ n # ys)"
      using r n by (cases "ys = []") (auto simp: ring_def last_of_def first_of_def)
    ultimately show ?thesis
      using r n by (auto simp: ring_def)
  qed
  moreover have "\<forall>i. i \<notin> set (h # xs @ n # ys) \<longrightarrow> ?nx i = nxt s i \<and> ?pv i = prv s i"
    using pq by auto
  ultimately show ?thesis by auto
qed

lemma ring_append:
  assumes "ring s h xs" and "n \<noteq> 0" "n \<notin> set (h # xs)"
  shows "\<exists>s'. fcitx_list_append n h s = Some s' \<and> ring s' h (xs @ [n]) \<and>
     (\<forall>i. i \<notin> set (h # n # xs) \<longrightarrow> nxt s' i = nxt s i \<and> prv s' i = prv s i)"
  using ring_insert_between [of s h xs "[]" n] assms
  by (auto simp: fcitx_list_append_def get_prev_def ring_def)

lemma ring_prepend:
  assumes "ring s h xs" and "n \<noteq> 0" "n \<notin> set (h # xs)"
  shows "\<exists>s'. fcitx_list_prepend n h s = Some s' \<and> ring s' h (n # xs) \<and>
     (\<forall>i. i \<notin> set (h # n # xs) \<longrightarrow> nxt s' i = nxt s i \<and> prv s' i = prv s i)"
  using ring_insert_between [of s h "[]" xs n] assms
  by (auto simp: fcitx_list_prepend_def get_next_def ring_def)

lemma ring_remove:
  assumes r: "ring s h (xs @ n # ys)"
  shows "\<exists>s'. fcitx_list_remove n s = Some s' \<and> ring s' h (xs @ ys) \<and> nxt s' n = 0 \<and> prv s' n = 0 \<and>
     (\<forall>i. i \<notin> set (h # xs @ n # ys) \<longrightarrow> nxt s' i = nxt s i \<and> prv s' i = prv s i)"
proof -
  let ?p = "last_of h xs" and ?q = "first_of h ys"
  let ?nx = "(nxt s)(?p := ?q, n := 0)" and ?pv = "(prv s)(?q := ?p, n := 0)"
  have pq: "?p \<in> insert h (set xs)" "?q \<in> insert h (set ys)"
    by (rule last_of_set first_of_set)+
  then have nz: "n \<noteq> 0" "?p \<noteq> 0" "?q \<noteq> 0" "?p \<noteq> n" "?q \<noteq> n"
    using r by (auto simp: ring_def)
  have "prv s n = ?p" "nxt s n = ?q"
    using r dl_at [of "nxt s" "prv s" h xs n ys h] by (auto simp: ring_def)
  then have "fcitx_list_remove n s = Some (s\<lparr>nxt := ?nx, prv := ?pv\<rparr>)"
    using nz by (simp add: fcitx_list_remove_def link_access)
  moreover have "ring (s\<lparr>nxt := ?nx, prv := ?pv\<rparr>) h (xs @ ys)"
  proof -
    have "dl ?nx ?pv h (xs @ ys) h"
    proof (rule dl_remove)
      show "dl (nxt s) (prv s) h (xs @ n # ys) h" and "distinct (xs @ n # ys)"
        and h: "h \<notin> set ys" "h \<notin> set xs"
        using r by (simp_all add: ring_def)
      fix i assume "i \<in> set (xs @ ys)"
      then have "i \<noteq> n" using r by (auto simp: ring_def)
      then show "?nx i = (if i = ?p then ?q else nxt s i)" "?pv i = (if i = ?q then ?p else prv s i)"
        by simp_all
    qed
    moreover have "?nx h = first_of h (xs @ ys)"
      using r by (cases "xs = []") (auto simp: ring_def last_of_def first_of_def)
    moreover have "?pv h = last_of h (xs @ ys)"
      using r by (cases "ys = []") (auto simp: ring_def last_of_def first_of_def)
    ultimately show ?thesis
      using r by (auto simp: ring_def)
  qed
  moreover have "\<forall>i. i \<notin> set (h # xs @ n # ys) \<longrightarrow> ?nx i = nxt s i \<and> ?pv i = prv s i"
    using pq by auto
  ultimately show ?thesis by auto
qed

section \<open>Loops\<close>

lemma ring_next:
  "ring s h (xs @ n # ys) \<Longrightarrow> get_next n s = Some (first_of h ys)"
  using dl_at [of "nxt s" "prv s" h xs n ys h] by (auto simp: ring_def get_next_def)

lemma foreach_from_ring:
  "ring s h (xs @ ys) \<Longrightarrow> length ys < n \<Longrightarrow>
   foreach_from n h body s (first_of h ys) acc = Some (fold body ys acc)"
proof (induction ys arbitrary: xs n acc)
  case Nil
  then show ?case by (cases n) auto
next
  case (Cons y ys)
  then obtain m where m: "n = Suc m" by (cases n) auto
  have "y \<noteq> h" using Cons.prems by (auto simp: ring_def)
  moreover have "ring s h ((xs @ [y]) @ ys)" using Cons.prems by simp
  ultimately show ?case
    using Cons.IH [of "xs @ [y]" m "body y acc"] Cons.prems m by (simp add: ring_next)
qed

lemma foreach_ring:
  "ring s h xs \<Longrightarrow> length xs < n \<Longrightarrow> fcitx_list_foreach n h body s acc = Some (fold body xs acc)"
  using foreach_from_ring [of s h "[]" xs n body acc]
  by (simp add: fcitx_list_foreach_def ring_def get_next_def)

text \<open>A body that may unlink the current node, as \<open>fcitx_list_entry_foreach_safe\<close> allows.\<close>

definition remove_if :: "(nat \<Rightarrow> bool) \<Rightarrow> nat \<Rightarrow> links \<Rightarrow> links option" where
  "remove_if P key s = (if P key then fcitx_list_remove key s else Some s)"

lemma foreach_safe_from_ring:
  "ring s h (xs @ ys) \<Longrightarrow> length ys < n \<Longrightarrow> (ys \<noteq> [] \<longrightarrow> nk = first_of h (tl ys)) \<Longrightarrow>
   \<exists>s'. foreach_safe_from n h (remove_if P) (first_of h ys) nk s = Some s' \<and>
     ring s' h (xs @ filter (\<lambda>y. \<not> P y) ys)"
proof (induction ys arbitrary: xs n nk s)
  case Nil
  then show ?case by (cases n) auto
next
  case (Cons y ys)
  then obtain m where m: "n = Suc m" by (cases n) auto
  have y: "y \<noteq> h" using Cons.prems by (auto simp: ring_def)
  have "\<exists>s1. remove_if P y s = Some s1 \<and> ring s1 h ((if P y then xs else xs @ [y]) @ ys)"
    using ring_remove [of s h xs y ys] Cons.prems by (auto simp: remove_if_def)
  then obtain s1 where s1: "remove_if P y s = Some s1"
    "ring s1 h ((if P y then xs else xs @ [y]) @ ys)" by blast
  have "\<exists>nn. get_next (first_of h ys) s1 = Some nn \<and> (ys \<noteq> [] \<longrightarrow> nn = first_of h (tl ys))"
  proof (cases ys)
    case Nil
    with s1(2) show ?thesis by (simp add: get_next_def ring_def)
  next
    case (Cons z zs)
    with ring_next [of s1 h _ z zs] s1(2) show ?thesis by auto
  qed
  then obtain nn where nn: "get_next (first_of h ys) s1 = Some nn"
    "ys \<noteq> [] \<longrightarrow> nn = first_of h (tl ys)" by blast
  from Cons.IH [OF s1(2) _ nn(2), of m] Cons.prems m obtain s' where
    "foreach_safe_from m h (remove_if P) (first_of h ys) nn s1 = Some s'"
    "ring s' h ((if P y then xs else xs @ [y]) @ filter (\<lambda>y. \<not> P y) ys)" by auto
  with m y s1 nn Cons.prems show ?case by auto
qed

section \<open>Properties\<close>

text \<open>On a well-formed list, inserting a node that is not in it at the back or at the front, and
  unlinking any node, never dereference NULL and yield the well-formed list of the expected
  sequence; the removed node ends with both links NULL.\<close>

theorem list_insert_remove:
  assumes "ring s h (xs @ x # ys)" and "n \<noteq> 0" and "n \<notin> set (h # xs @ x # ys)"
  shows "(\<exists>s'. fcitx_list_append n h s = Some s' \<and> ring s' h ((xs @ x # ys) @ [n])) \<and>
    (\<exists>s'. fcitx_list_prepend n h s = Some s' \<and> ring s' h (n # xs @ x # ys)) \<and>
    (\<exists>s'. fcitx_list_remove x s = Some s' \<and> ring s' h (xs @ ys) \<and> nxt s' x = 0 \<and> prv s' x = 0)"
  using ring_append [OF assms] ring_prepend [OF assms] ring_remove [OF assms(1)] by blast

theorem list_insert_remove_witness:
  "let s = \<lparr>nxt = (\<lambda>_. 0)(1 := 2, 2 := 1), prv = (\<lambda>_. 0)(1 := 2, 2 := 1)\<rparr> in
   (\<exists>s'. fcitx_list_append 3 1 s = Some s' \<and> ring s' 1 (([] @ 2 # []) @ [3])) \<and>
   (\<exists>s'. fcitx_list_prepend 3 1 s = Some s' \<and> ring s' 1 (3 # [] @ 2 # [])) \<and>
   (\<exists>s'. fcitx_list_remove 2 s = Some s' \<and> ring s' 1 ([] @ []) \<and> nxt s' 2 = 0 \<and> prv s' 2 = 0)"
  unfolding Let_def by (rule list_insert_remove) (simp_all add: ring_def)

text \<open>C4: A safe traversal may unlink the node it is at: it visits every node of the original list,
  in order, and leaves the well-formed list of the nodes it kept.\<close>

theorem list_foreach_safe_remove:
  assumes "ring s h xs" and "length xs < n"
  shows "\<exists>s'. fcitx_list_foreach_safe n h (remove_if P) s = Some s' \<and>
     ring s' h (filter (\<lambda>x. \<not> P x) xs)"
proof -
  have first: "get_next h s = Some (first_of h xs)"
    using assms(1) by (simp add: ring_def get_next_def)
  moreover have "\<exists>nn. get_next (first_of h xs) s = Some nn \<and> (xs \<noteq> [] \<longrightarrow> nn = first_of h (tl xs))"
    using assms(1) ring_next [of s h "[]" _ "tl xs"] first by (cases xs) auto
  then obtain nn where "get_next (first_of h xs) s = Some nn" "xs \<noteq> [] \<longrightarrow> nn = first_of h (tl xs)"
    by blast
  ultimately show ?thesis
    using foreach_safe_from_ring [of s h "[]" xs n nn P] assms
    by (simp add: fcitx_list_foreach_safe_def)
qed

theorem list_foreach_safe_remove_witness:
  "\<exists>s'. fcitx_list_foreach_safe 2 1 (remove_if (\<lambda>x. x = 2))
      \<lparr>nxt = (\<lambda>_. 0)(1 := 2, 2 := 1), prv = (\<lambda>_. 0)(1 := 2, 2 := 1)\<rparr> = Some s' \<and>
     ring s' 1 (filter (\<lambda>x. x \<noteq> 2) [2])"
  by (rule list_foreach_safe_remove) (simp_all add: ring_def)

end
