(* ===== verification/ObjPool.thy ===== *)
theory ObjPool
  imports Prelude
begin

text \<open>
  The object pool of \<open>src/lib/fcitx-utils/objpool.c\<close>: an array of slots, each with a status word in
  front of its object.  The status words of the free slots chain them; an allocated slot holds
  \<open>FCITX_OBJECT_POOL_ALLOCED_ID\<close>.  The model keeps the status words and the slot size, which the
  truncated offset of \<open>fcitx_obj_pool_free_id\<close> depends on; \<open>None\<close> is an access outside the array.
\<close>

definition FCITX_OBJECT_POOL_INVALID_ID :: int where "FCITX_OBJECT_POOL_INVALID_ID = - 1"
definition FCITX_OBJECT_POOL_ALLOCED_ID :: int where "FCITX_OBJECT_POOL_ALLOCED_ID = - 2"
definition FCITX_OBJ_POOL_INIT_SIZE :: nat where "FCITX_OBJ_POOL_INIT_SIZE = 4"

lemmas pool_ids = FCITX_OBJECT_POOL_INVALID_ID_def FCITX_OBJECT_POOL_ALLOCED_ID_def

record pool =
  heads :: "int list"
  ele_size :: nat
  next_free :: int

definition alloc_bytes :: "pool \<Rightarrow> nat" where
  "alloc_bytes p = length (heads p) * ele_size p"

text \<open>\<open>fcitx_utils_align_to(size + sizeof(int), sizeof(int))\<close> with a four-byte \<open>int\<close>.\<close>

definition align_to :: "nat \<Rightarrow> nat \<Rightarrow> nat" where
  "align_to len a = (let left = len mod a in if left \<noteq> 0 then len + a - left else len)"

text \<open>With \<open>prealloc = 0\<close> the bound \<open>prealloc - 1\<close> wraps around and the loop leaves the array.\<close>

definition fcitx_obj_pool_init_with_prealloc :: "nat \<Rightarrow> nat \<Rightarrow> pool option" where
  "fcitx_obj_pool_init_with_prealloc sz prealloc =
     (if prealloc = 0 then None
      else Some \<lparr>heads = map (\<lambda>i. int i + 1) [0..<prealloc - 1] @ [FCITX_OBJECT_POOL_INVALID_ID],
                 ele_size = align_to (sz + 4) 4, next_free = 0\<rparr>)"

definition fcitx_obj_pool_new :: "nat \<Rightarrow> pool option" where
  "fcitx_obj_pool_new sz = fcitx_obj_pool_init_with_prealloc sz FCITX_OBJ_POOL_INIT_SIZE"

text \<open>
  The growing branch: the array doubles, slot \<open>n\<close> is the new id, and the slots after it are chained
  up to the last one, whose status word is written after the loop.  With \<open>n < 2\<close> that write is
  past the end.
\<close>

definition fcitx_obj_pool_alloc_id :: "pool \<Rightarrow> (int \<times> pool) option" where
  "fcitx_obj_pool_alloc_id p =
     (let n = length (heads p); id = next_free p in
      if 0 \<le> id then
        if nat id < n then
          Some (id, p\<lparr>next_free := heads p ! nat id,
                      heads := (heads p)[nat id := FCITX_OBJECT_POOL_ALLOCED_ID]\<rparr>)
        else None
      else if n < 2 then None
      else Some (int n, p\<lparr>next_free := int n + 1,
             heads := heads p @ [FCITX_OBJECT_POOL_ALLOCED_ID] @
                      map (\<lambda>i. int i + 1) [n + 1..<2 * n - 1] @ [FCITX_OBJECT_POOL_INVALID_ID]\<rparr>))"

text \<open>
  \<open>offset\<close> is an \<open>unsigned int\<close>: the product is truncated to 32 bits before it is compared with the
  size of the array.
\<close>

definition fcitx_obj_pool_free_id :: "int \<Rightarrow> pool \<Rightarrow> (bool \<times> pool) option" where
  "fcitx_obj_pool_free_id i p =
     (let offset = nat (i * int (ele_size p) mod 2 ^ 32); slot = offset div ele_size p in
      if alloc_bytes p \<le> offset then Some (False, p)
      else if offset mod ele_size p \<noteq> 0 then None
      else if heads p ! slot \<noteq> FCITX_OBJECT_POOL_ALLOCED_ID then Some (False, p)
      else Some (True, p\<lparr>heads := (heads p)[slot := next_free p], next_free := i\<rparr>))"

section \<open>The interface\<close>

text \<open>
  What the handler table relies on: an allocated id is new, ids are live from their allocation to
  their release, and releasing a live id succeeds.  \<open>room\<close> bounds the size of the pool.
\<close>

locale id_pool =
  fixes alloc :: "'p \<Rightarrow> (int \<times> 'p) option"
    and release :: "int \<Rightarrow> 'p \<Rightarrow> (bool \<times> 'p) option"
    and live :: "'p \<Rightarrow> int set"
    and ok :: "'p \<Rightarrow> bool"
    and room :: "'p \<Rightarrow> bool"
  assumes alloc_law: "ok p \<Longrightarrow> room p \<Longrightarrow> \<exists>i p'. alloc p = Some (i, p') \<and> ok p' \<and> 0 \<le> i \<and>
        i \<notin> live p \<and> live p' = insert i (live p)"
    and release_law: "ok p \<Longrightarrow> i \<in> live p \<Longrightarrow>
        \<exists>p'. release i p = Some (True, p') \<and> ok p' \<and> live p' = live p - {i}"
    and live_nonneg: "ok p \<Longrightarrow> i \<in> live p \<Longrightarrow> 0 \<le> i"
begin

lemma alloc_release:
  assumes "ok p" "room p"
  shows "\<exists>i p' p''. alloc p = Some (i, p') \<and> release i p' = Some (True, p'') \<and> ok p'' \<and>
    live p'' = live p"
proof -
  obtain i p' where a: "alloc p = Some (i, p')" "ok p'" "i \<notin> live p" "live p' = insert i (live p)"
    using alloc_law [OF assms] by blast
  then obtain p'' where "release i p' = Some (True, p'')" "ok p''" "live p'' = live p' - {i}"
    using release_law [of p' i] by blast
  with a show ?thesis by auto
qed

lemma alloc_alloc:
  assumes "ok p" "room p" "alloc p = Some (i, p')" "room p'" "alloc p' = Some (j, p'')"
  shows "i \<noteq> j \<and> live p'' = {i, j} \<union> live p"
  using alloc_law [OF assms(1,2)] alloc_law [of p'] assms by auto

lemma release_all:
  "ok p \<Longrightarrow> distinct is \<Longrightarrow> set is \<subseteq> live p \<Longrightarrow>
   \<exists>p'. foldl (\<lambda>q i. Option.bind q (\<lambda>q. map_option snd (release i q))) (Some p) is = Some p' \<and>
     ok p' \<and> live p' = live p - set is"
proof (induction "is" arbitrary: p)
  case (Cons i "is")
  then obtain p1 where p1: "release i p = Some (True, p1)" "ok p1" "live p1 = live p - {i}"
    using release_law [of p i] by auto
  then have "set is \<subseteq> live p1" using Cons.prems by auto
  then obtain p2 where "foldl (\<lambda>q i. Option.bind q (\<lambda>q. map_option snd (release i q))) (Some p1) is
      = Some p2" "ok p2" "live p2 = live p1 - set is"
    using Cons.IH [of p1] Cons.prems p1 by auto
  with p1 show ?case by auto
qed auto

end

section \<open>The free chain\<close>

fun free_chain :: "int list \<Rightarrow> int \<Rightarrow> nat list \<Rightarrow> bool" where
  "free_chain hs nf [] \<longleftrightarrow> nf = FCITX_OBJECT_POOL_INVALID_ID"
| "free_chain hs nf (f # fs) \<longleftrightarrow> nf = int f \<and> f < length hs \<and> free_chain hs (hs ! f) fs"

definition pool_live :: "pool \<Rightarrow> int set" where
  "pool_live p = {int i |i. i < length (heads p) \<and> heads p ! i = FCITX_OBJECT_POOL_ALLOCED_ID}"

definition pool_room :: "pool \<Rightarrow> bool" where
  "pool_room p \<longleftrightarrow> 0 \<le> next_free p \<or> 2 * alloc_bytes p \<le> 2 ^ 32"

definition pool_ok :: "pool \<Rightarrow> bool" where
  "pool_ok p \<longleftrightarrow> (\<exists>fs. free_chain (heads p) (next_free p) fs \<and> distinct fs \<and>
       (\<forall>i < length (heads p). heads p ! i = FCITX_OBJECT_POOL_ALLOCED_ID \<longleftrightarrow> i \<notin> set fs)) \<and>
     2 \<le> length (heads p) \<and> 0 < ele_size p \<and> alloc_bytes p \<le> 2 ^ 32"

lemma pool_live_iff:
  "x \<in> pool_live p \<longleftrightarrow> 0 \<le> x \<and> nat x < length (heads p) \<and>
     heads p ! nat x = FCITX_OBJECT_POOL_ALLOCED_ID"
  by (auto simp: pool_live_def intro: exI [of _ "nat x"])

lemma free_chain_cong:
  "(\<And>i. i \<in> set fs \<Longrightarrow> i < length hs \<Longrightarrow> i < length hs' \<and> hs ! i = hs' ! i) \<Longrightarrow>
   free_chain hs nf fs \<Longrightarrow> free_chain hs' nf fs"
  by (induction fs arbitrary: nf) auto

lemma free_chain_set: "free_chain hs nf fs \<Longrightarrow> set fs \<subseteq> {..<length hs}"
  by (induction fs arbitrary: nf) auto

lemma free_chain_upt:
  "(\<And>i. a \<le> i \<Longrightarrow> Suc i < b \<Longrightarrow> hs ! i = int i + 1) \<Longrightarrow> hs ! (b - 1) = FCITX_OBJECT_POOL_INVALID_ID \<Longrightarrow>
   a < b \<Longrightarrow> b \<le> length hs \<Longrightarrow> free_chain hs (int a) [a..<b]"
proof (induction "b - a" arbitrary: a)
  case (Suc d)
  show ?case
  proof (cases "Suc a = b")
    case True
    with Suc.prems show ?thesis by (auto simp: upt_conv_Cons)
  next
    case False
    then have "free_chain hs (int (Suc a)) [Suc a..<b]"
      using Suc by (intro Suc.hyps(1)) auto
    moreover have "hs ! a = int (Suc a)" using Suc.prems(1) [of a] False Suc.prems(3) by simp
    moreover have "[a..<b] = a # [Suc a..<b]" using Suc.prems(3) by (rule upt_conv_Cons)
    ultimately show ?thesis using Suc.prems by simp
  qed
qed simp

lemma pool_okI:
  "free_chain (heads p) (next_free p) fs \<Longrightarrow> distinct fs \<Longrightarrow>
   (\<And>i. i < length (heads p) \<Longrightarrow>
      heads p ! i = FCITX_OBJECT_POOL_ALLOCED_ID \<longleftrightarrow> i \<notin> set fs) \<Longrightarrow>
   2 \<le> length (heads p) \<Longrightarrow> 0 < ele_size p \<Longrightarrow> alloc_bytes p \<le> 2 ^ 32 \<Longrightarrow> pool_ok p"
  unfolding pool_ok_def by blast

lemma pool_init_ok:
  assumes "2 \<le> prealloc" and "prealloc * align_to (sz + 4) 4 \<le> 2 ^ 32"
  shows "\<exists>p. fcitx_obj_pool_init_with_prealloc sz prealloc = Some p \<and> pool_ok p \<and>
    pool_live p = {} \<and> length (heads p) = prealloc \<and> next_free p = 0"
proof -
  define hs where "hs = map (\<lambda>i. int i + 1) [0..<prealloc - 1] @ [FCITX_OBJECT_POOL_INVALID_ID]"
  define p where "p = \<lparr>heads = hs, ele_size = align_to (sz + 4) 4, next_free = 0\<rparr>"
  have len: "length hs = prealloc"
    using assms(1) by (simp add: hs_def)
  have nth: "hs ! i = (if i = prealloc - 1 then FCITX_OBJECT_POOL_INVALID_ID else int i + 1)"
    if "i < prealloc" for i
    using that by (auto simp: hs_def nth_append)
  have "free_chain hs (int 0) [0..<prealloc]"
    using assms(1) len by (intro free_chain_upt) (auto simp: nth)
  moreover have never: "hs ! i \<noteq> FCITX_OBJECT_POOL_ALLOCED_ID" if "i < prealloc" for i
    using that by (simp add: nth pool_ids)
  moreover have "0 < align_to (sz + 4) 4"
    by (auto simp: align_to_def Let_def)
  ultimately have "pool_ok p"
    using assms len
    by (intro pool_okI [where fs = "[0..<prealloc]"]) (simp_all add: p_def alloc_bytes_def)
  moreover have "pool_live p = {}"
    using never len by (simp add: p_def pool_live_def)
  moreover have "fcitx_obj_pool_init_with_prealloc sz prealloc = Some p"
    using assms(1) by (simp add: fcitx_obj_pool_init_with_prealloc_def p_def hs_def)
  ultimately show ?thesis using len by (auto simp: p_def)
qed

lemma pool_alloc_reuse:
  assumes ok: "pool_ok p" and nf: "0 \<le> next_free p"
  shows "\<exists>i p'. fcitx_obj_pool_alloc_id p = Some (i, p') \<and> pool_ok p' \<and> 0 \<le> i \<and>
    i \<notin> pool_live p \<and> pool_live p' = insert i (pool_live p)"
proof -
  let ?A = FCITX_OBJECT_POOL_ALLOCED_ID
  from ok obtain fs where fs: "free_chain (heads p) (next_free p) fs" "distinct fs"
    "\<forall>i < length (heads p). heads p ! i = ?A \<longleftrightarrow> i \<notin> set fs"
    and sz: "2 \<le> length (heads p)" "0 < ele_size p" "alloc_bytes p \<le> 2 ^ 32"
    unfolding pool_ok_def by blast
  then obtain f fs' where f: "fs = f # fs'" using nf by (cases fs) (auto simp: pool_ids)
  define p' where "p' = p\<lparr>next_free := heads p ! f, heads := (heads p)[f := ?A]\<rparr>"
  have "free_chain ((heads p)[f := ?A]) (heads p ! f) fs'"
  proof (rule free_chain_cong)
    show "free_chain (heads p) (heads p ! f) fs'" using fs(1) f by simp
    fix i assume "i \<in> set fs'" "i < length (heads p)"
    moreover have "f \<noteq> i" using fs(2) f \<open>i \<in> set fs'\<close> by auto
    ultimately show "i < length ((heads p)[f := ?A]) \<and> heads p ! i = (heads p)[f := ?A] ! i" by simp
  qed
  moreover have lf: "f < length (heads p)" "next_free p = int f" "distinct fs'" "f \<notin> set fs'"
    using fs f by auto
  ultimately have "pool_ok p'"
    using fs(3) f sz
    by (intro pool_okI [where fs = fs']) (auto simp: p'_def alloc_bytes_def nth_list_update)
  moreover have "pool_live p' = insert (int f) (pool_live p)"
    using lf by (auto simp: p'_def pool_live_def nth_list_update)
  moreover have "int f \<notin> pool_live p"
    using fs(3) f by (auto simp: pool_live_def)
  moreover have "fcitx_obj_pool_alloc_id p = Some (int f, p')"
    using fs(1) f by (simp add: fcitx_obj_pool_alloc_id_def p'_def)
  ultimately show ?thesis by auto
qed

lemma pool_alloc_grow:
  assumes ok: "pool_ok p" and nf: "\<not> 0 \<le> next_free p" and room: "2 * alloc_bytes p \<le> 2 ^ 32"
  shows "\<exists>i p'. fcitx_obj_pool_alloc_id p = Some (i, p') \<and> pool_ok p' \<and> 0 \<le> i \<and>
    i \<notin> pool_live p \<and> pool_live p' = insert i (pool_live p)"
proof -
  let ?A = FCITX_OBJECT_POOL_ALLOCED_ID
  define n where "n = length (heads p)"
  from ok obtain fs where fs: "free_chain (heads p) (next_free p) fs"
    "\<forall>i < length (heads p). heads p ! i = ?A \<longleftrightarrow> i \<notin> set fs"
    and sz: "2 \<le> n" "0 < ele_size p" unfolding n_def pool_ok_def by blast
  then have "fs = []" using nf by (cases fs) auto
  then have all: "\<And>i. i < n \<Longrightarrow> heads p ! i = ?A" using fs by (simp add: n_def)
  define hs where "hs = heads p @ [?A] @ map (\<lambda>i. int i + 1) [n + 1..<2 * n - 1] @
      [FCITX_OBJECT_POOL_INVALID_ID]"
  define p' where "p' = p\<lparr>next_free := int n + 1, heads := hs\<rparr>"
  have len: "length hs = 2 * n" using sz by (simp add: hs_def n_def [symmetric])
  have nth: "hs ! i = (if i \<le> n then ?A else if i = 2 * n - 1 then FCITX_OBJECT_POOL_INVALID_ID
      else int i + 1)" if "i < 2 * n" for i
    using that all sz by (auto simp: hs_def nth_append nth_Cons n_def [symmetric] split: nat.splits)
  have "free_chain hs (int (n + 1)) [n + 1..<2 * n]"
    using sz len by (intro free_chain_upt) (auto simp: nth)
  moreover have "hs ! i = ?A \<longleftrightarrow> i \<notin> set [n + 1..<2 * n]" if "i < length hs" for i
    using that sz by (auto simp: len nth pool_ids)
  moreover have "length hs * ele_size p \<le> 2 ^ 32"
    using room by (simp add: len alloc_bytes_def n_def mult.assoc)
  ultimately have "pool_ok p'"
    using sz len
    by (intro pool_okI [where fs = "[n + 1..<2 * n]"]) (auto simp: p'_def alloc_bytes_def add.commute)
  moreover have "pool_live p' = insert (int n) (pool_live p)"
  proof -
    have "hs ! i = ?A \<longleftrightarrow> i \<le> n" if "i < 2 * n" for i
      using that by (auto simp: nth pool_ids)
    then have "pool_live p' = {int i |i. i \<le> n}"
      using sz unfolding pool_live_def p'_def by (auto simp: len)
    moreover have "pool_live p = {int i |i. i < n}" using all by (auto simp: pool_live_def n_def)
    ultimately show ?thesis by auto
  qed
  moreover have "int n \<notin> pool_live p" by (auto simp: pool_live_def n_def)
  moreover have "fcitx_obj_pool_alloc_id p = Some (int n, p')"
    using nf sz by (simp add: fcitx_obj_pool_alloc_id_def Let_def n_def p'_def hs_def)
  ultimately show ?thesis by auto
qed

lemma pool_free_in_range:
  assumes "pool_ok p" and "0 \<le> i" and "i * int (ele_size p) < 2 ^ 32"
  shows "fcitx_obj_pool_free_id i p = Some (if i \<in> pool_live p
     then (True, p\<lparr>heads := (heads p)[nat i := next_free p], next_free := i\<rparr>) else (False, p))"
proof -
  have e: "0 < ele_size p" using assms(1) by (simp add: pool_ok_def)
  have off: "nat (i * int (ele_size p) mod 2 ^ 32) = nat i * ele_size p"
    using assms(2,3) by (simp add: nat_mult_distrib)
  have "alloc_bytes p \<le> nat i * ele_size p \<longleftrightarrow> length (heads p) \<le> nat i"
    using e by (simp add: alloc_bytes_def)
  moreover have "i \<in> pool_live p \<longleftrightarrow> nat i < length (heads p) \<and>
      heads p ! nat i = FCITX_OBJECT_POOL_ALLOCED_ID"
    using assms(2) by (auto simp: pool_live_def intro: exI [of _ "nat i"])
  ultimately show ?thesis
    using e unfolding fcitx_obj_pool_free_id_def off by (auto simp: Let_def)
qed

lemma pool_live_bound:
  assumes "pool_ok p" and "i \<in> pool_live p"
  shows "0 \<le> i \<and> i * int (ele_size p) < 2 ^ 32 \<and> nat i < length (heads p)"
proof -
  obtain k where k: "i = int k" "k < length (heads p)"
    using assms(2) by (auto simp: pool_live_def)
  then have "k * ele_size p < length (heads p) * ele_size p"
    using assms(1) by (simp add: pool_ok_def)
  also have "\<dots> \<le> 2 ^ 32" using assms(1) by (simp add: pool_ok_def alloc_bytes_def)
  finally have "int (k * ele_size p) < int (2 ^ 32)" by (simp only: of_nat_less_iff)
  with k show ?thesis by simp
qed

lemma pool_free_live:
  assumes ok: "pool_ok p" and i: "i \<in> pool_live p"
  shows "\<exists>p'. fcitx_obj_pool_free_id i p = Some (True, p') \<and> pool_ok p' \<and>
    pool_live p' = pool_live p - {i}"
proof -
  let ?A = FCITX_OBJECT_POOL_ALLOCED_ID
  define p' where "p' = p\<lparr>heads := (heads p)[nat i := next_free p], next_free := i\<rparr>"
  note b = pool_live_bound [OF ok i]
  have free: "fcitx_obj_pool_free_id i p = Some (True, p')"
    using pool_free_in_range [OF ok] b i by (simp add: p'_def)
  from ok obtain fs where fs: "free_chain (heads p) (next_free p) fs" "distinct fs"
    "\<forall>i < length (heads p). heads p ! i = ?A \<longleftrightarrow> i \<notin> set fs"
    and sz: "2 \<le> length (heads p)" "0 < ele_size p" "alloc_bytes p \<le> 2 ^ 32"
    unfolding pool_ok_def by blast
  have new: "nat i \<notin> set fs" using fs(3) i by (auto simp: pool_live_def)
  have nf: "next_free p \<noteq> ?A" using fs(1) by (cases fs) (auto simp: pool_ids)
  have "free_chain (heads p') (next_free p) fs"
  proof (rule free_chain_cong [OF _ fs(1)])
    fix j assume "j \<in> set fs" "j < length (heads p)"
    moreover have "nat i \<noteq> j" using new \<open>j \<in> set fs\<close> by auto
    ultimately show "j < length (heads p') \<and> heads p ! j = heads p' ! j" by (simp add: p'_def)
  qed
  then have "free_chain (heads p') (next_free p') (nat i # fs)"
    using b by (simp add: p'_def)
  moreover have "heads p' ! j = ?A \<longleftrightarrow> j \<notin> set (nat i # fs)" if "j < length (heads p')" for j
    using that fs(3) nf new by (cases "j = nat i") (simp_all add: p'_def nth_list_update)
  ultimately have "pool_ok p'"
    using fs(2) new sz
    by (rule_tac pool_okI) (assumption | simp add: p'_def alloc_bytes_def)+
  moreover have "pool_live p' = pool_live p - {i}"
    using b nf by (intro set_eqI) (auto simp: pool_live_iff p'_def nth_list_update)
  ultimately show ?thesis using free by blast
qed

interpretation obj_pool: id_pool fcitx_obj_pool_alloc_id fcitx_obj_pool_free_id pool_live pool_ok
  pool_room
proof
  fix p assume "pool_ok p" and "pool_room p"
  then show "\<exists>i p'. fcitx_obj_pool_alloc_id p = Some (i, p') \<and> pool_ok p' \<and> 0 \<le> i \<and>
      i \<notin> pool_live p \<and> pool_live p' = insert i (pool_live p)"
    using pool_alloc_reuse [of p] pool_alloc_grow [of p] by (auto simp: pool_room_def)
next
  fix p i assume "pool_ok p" and "i \<in> pool_live p"
  then show "\<exists>p'. fcitx_obj_pool_free_id i p = Some (True, p') \<and> pool_ok p' \<and>
      pool_live p' = pool_live p - {i}"
    by (rule pool_free_live)
next
  fix p i assume "pool_ok p" and "i \<in> pool_live p"
  then show "0 \<le> i" using pool_live_bound by blast
qed

section \<open>Properties\<close>

text \<open>C3: While the pool stays below four gigabytes, \<open>fcitx_obj_pool_alloc_id\<close> never leaves its
  array and returns a non-negative id that is not in use, growing the pool when it has to; the
  other ids in use stay in use and the free chain stays well formed.\<close>

theorem pool_alloc_fresh:
  assumes "pool_ok p" and "pool_room p"
  shows "\<exists>i p'. fcitx_obj_pool_alloc_id p = Some (i, p') \<and> pool_ok p' \<and> 0 \<le> i \<and>
      i \<notin> pool_live p \<and> pool_live p' = insert i (pool_live p)"
  using assms by (rule obj_pool.alloc_law)

definition small_pool :: pool where
  "small_pool = \<lparr>heads = [- 2, - 2], ele_size = 8, next_free = - 1\<rparr>"

lemma small_pool_ok: "pool_ok small_pool"
  by (intro pool_okI [where fs = "[]"])
    (auto simp: small_pool_def alloc_bytes_def pool_ids less_Suc_eq)

theorem pool_alloc_fresh_witness:
  "\<exists>i p'. fcitx_obj_pool_alloc_id small_pool = Some (i, p') \<and> pool_ok p' \<and> 0 \<le> i \<and>
      i \<notin> pool_live small_pool \<and> pool_live p' = insert i (pool_live small_pool)"
  by (rule pool_alloc_fresh [OF small_pool_ok])
    (simp add: pool_room_def small_pool_def alloc_bytes_def)

text \<open>For an id whose offset does not wrap around 32 bits, \<open>fcitx_obj_pool_free_id\<close> answers
  whether the id was in use; it then is no longer in use, all others are as before, and a second
  release of it is refused.\<close>

theorem pool_free_exact:
  assumes "pool_ok p" and "0 \<le> i" and "i * int (ele_size p) < 2 ^ 32"
  shows "\<exists>p'. fcitx_obj_pool_free_id i p = Some (i \<in> pool_live p, p') \<and> pool_ok p' \<and>
      pool_live p' = pool_live p - {i} \<and> fcitx_obj_pool_free_id i p' = Some (False, p')"
proof (cases "i \<in> pool_live p")
  case True
  then obtain p' where p': "fcitx_obj_pool_free_id i p = Some (True, p')" "pool_ok p'"
    "pool_live p' = pool_live p - {i}"
    using obj_pool.release_law [OF assms(1)] by blast
  then have "p' = p\<lparr>heads := (heads p)[nat i := next_free p], next_free := i\<rparr>"
    using pool_free_in_range [OF assms] True by simp
  then have "ele_size p' = ele_size p" by simp
  with p' True pool_free_in_range [of p' i] assms show ?thesis by simp
next
  case False
  with pool_free_in_range [OF assms] assms(1) show ?thesis by simp
qed

theorem pool_free_exact_witness:
  "\<exists>p'. fcitx_obj_pool_free_id 1 small_pool = Some (1 \<in> pool_live small_pool, p') \<and> pool_ok p' \<and>
      pool_live p' = pool_live small_pool - {1} \<and> fcitx_obj_pool_free_id 1 p' = Some (False, p')"
  by (rule pool_free_exact [OF small_pool_ok]) (simp_all add: small_pool_def)

text \<open>A pool created with room for a single object writes past its array when it grows.\<close>

lemma prealloc_one_overflow:
  "fcitx_obj_pool_init_with_prealloc sz 1 = Some p \<Longrightarrow>
   \<exists>i p'. fcitx_obj_pool_alloc_id p = Some (i, p') \<and> fcitx_obj_pool_alloc_id p' = None"
  by (auto simp: fcitx_obj_pool_init_with_prealloc_def fcitx_obj_pool_alloc_id_def Let_def pool_ids)

end
