(* ===== verification/HandlerTable.thy ===== *)
theory HandlerTable
  imports ObjPool Links "HOL-Library.AList"
begin

text \<open>
  The handler table of \<open>src/lib/fcitx-utils/handler-table.c\<close>: a hash table of keys, each the head of
  a doubly linked chain of objects that live in one object pool and are named by their pool ids.

  A \<open>FcitxHandlerKey*\<close> is named by its key, since the table holds at most one such struct for each
  key; using a key that is not in the table any more is a dangling pointer, hence \<open>None\<close>.  The hash
  table is the list of its entries in insertion order, which is the order uthash iterates in.  The
  calls of the callbacks are logged in \<open>events\<close>.  Pointers to objects are named by their ids.
\<close>

section \<open>State\<close>

record handler_key =
  first_id :: int
  last_id :: int

record ('k, 'a) handler_obj =
  obj_prev :: int
  obj_next :: int
  obj_key :: 'k
  obj_data :: 'a

datatype ('k, 'a) handler_event = KeyInit 'k | KeyFree 'k | ObjFree 'a

record ('k, 'a) handler_table =
  keys :: "('k \<times> handler_key) list"
  objs :: pool
  cells :: "int \<Rightarrow> ('k, 'a) handler_obj option"
  has_free_func :: bool
  has_key_init :: bool
  has_key_free :: bool
  events :: "('k, 'a) handler_event list"

definition INVALID :: int where "INVALID = FCITX_OBJECT_POOL_INVALID_ID"

text \<open>Dereferencing a key struct or an object.\<close>

definition get_key :: "'k \<Rightarrow> ('k, 'a) handler_table \<Rightarrow> handler_key option" where
  "get_key k t = map_of (keys t) k"

definition put_key :: "'k \<Rightarrow> handler_key \<Rightarrow> ('k, 'a) handler_table \<Rightarrow> ('k, 'a) handler_table" where
  "put_key k h t = t\<lparr>keys := AList.update k h (keys t)\<rparr>"

definition fcitx_handler_table_get_obj ::
  "int \<Rightarrow> ('k, 'a) handler_table \<Rightarrow> ('k, 'a) handler_obj option" where
  "fcitx_handler_table_get_obj i t =
     (if 0 \<le> i \<and> nat i < length (heads (objs t)) then cells t i else None)"

definition put_obj ::
  "int \<Rightarrow> ('k, 'a) handler_obj \<Rightarrow> ('k, 'a) handler_table \<Rightarrow> ('k, 'a) handler_table" where
  "put_obj i ob t = t\<lparr>cells := (cells t)(i \<mapsto> ob)\<rparr>"

definition set_next_id :: "int \<Rightarrow> int \<Rightarrow> ('k, 'a) handler_table \<Rightarrow> ('k, 'a) handler_table option"
where
  "set_next_id i v t = do { ob \<leftarrow> fcitx_handler_table_get_obj i t; Some (put_obj i (ob\<lparr>obj_next := v\<rparr>) t) }"

definition set_prev_id :: "int \<Rightarrow> int \<Rightarrow> ('k, 'a) handler_table \<Rightarrow> ('k, 'a) handler_table option"
where
  "set_prev_id i v t = do { ob \<leftarrow> fcitx_handler_table_get_obj i t; Some (put_obj i (ob\<lparr>obj_prev := v\<rparr>) t) }"

definition set_first_id :: "'k \<Rightarrow> int \<Rightarrow> ('k, 'a) handler_table \<Rightarrow> ('k, 'a) handler_table option" where
  "set_first_id k v t = do { h \<leftarrow> get_key k t; Some (put_key k (h\<lparr>first_id := v\<rparr>) t) }"

definition set_last_id :: "'k \<Rightarrow> int \<Rightarrow> ('k, 'a) handler_table \<Rightarrow> ('k, 'a) handler_table option" where
  "set_last_id k v t = do { h \<leftarrow> get_key k t; Some (put_key k (h\<lparr>last_id := v\<rparr>) t) }"

definition log_event ::
  "bool \<Rightarrow> ('k, 'a) handler_event \<Rightarrow> ('k, 'a) handler_table \<Rightarrow> ('k, 'a) handler_table" where
  "log_event b e t = (if b then t\<lparr>events := events t @ [e]\<rparr> else t)"

section \<open>Operations\<close>

definition fcitx_handler_table_new_with_keydata ::
  "nat \<Rightarrow> bool \<Rightarrow> bool \<Rightarrow> bool \<Rightarrow> ('k, 'a) handler_table option" where
  "fcitx_handler_table_new_with_keydata sz ff ki kf = do {
     p \<leftarrow> fcitx_obj_pool_new (sz + 16);
     Some \<lparr>keys = [], objs = p, cells = (\<lambda>_. None), has_free_func = ff, has_key_init = ki,
           has_key_free = kf, events = []\<rparr> }"

definition fcitx_handler_table_new :: "nat \<Rightarrow> bool \<Rightarrow> ('k, 'a) handler_table option" where
  "fcitx_handler_table_new sz ff = fcitx_handler_table_new_with_keydata sz ff False False"

definition fcitx_handler_table_find_key ::
  "'k \<Rightarrow> bool \<Rightarrow> ('k, 'a) handler_table \<Rightarrow> 'k option \<times> ('k, 'a) handler_table" where
  "fcitx_handler_table_find_key k create t =
     (if get_key k t \<noteq> None then (Some k, t)
      else if \<not> create then (None, t)
      else (Some k, log_event (has_key_init t) (KeyInit k)
             (t\<lparr>keys := keys t @ [(k, \<lparr>first_id = INVALID, last_id = INVALID\<rparr>)]\<rparr>)))"

definition fcitx_handler_key_append ::
  "'k \<Rightarrow> 'a \<Rightarrow> ('k, 'a) handler_table \<Rightarrow> (int \<times> ('k, 'a) handler_table) option" where
  "fcitx_handler_key_append k ob t = do {
     (new_id, p) \<leftarrow> fcitx_obj_pool_alloc_id (objs t);
     let t = t\<lparr>objs := p\<rparr>;
     h \<leftarrow> get_key k t;
     let i = last_id h;
     if i = INVALID then
       Some (new_id,
         put_obj new_id \<lparr>obj_prev = INVALID, obj_next = INVALID, obj_key = k, obj_data = ob\<rparr>
           (put_key k \<lparr>first_id = new_id, last_id = new_id\<rparr> t))
     else do {
       t \<leftarrow> set_last_id k new_id t;
       let t = put_obj new_id \<lparr>obj_prev = i, obj_next = INVALID, obj_key = k, obj_data = ob\<rparr> t;
       t \<leftarrow> set_next_id i new_id t;
       Some (new_id, t) }}"

definition fcitx_handler_table_append ::
  "'k \<Rightarrow> 'a \<Rightarrow> ('k, 'a) handler_table \<Rightarrow> (int \<times> ('k, 'a) handler_table) option" where
  "fcitx_handler_table_append k ob t =
     (let (kp, t) = fcitx_handler_table_find_key k True t in
      do { k' \<leftarrow> kp; fcitx_handler_key_append k' ob t })"

definition fcitx_handler_key_prepend ::
  "'k \<Rightarrow> 'a \<Rightarrow> ('k, 'a) handler_table \<Rightarrow> (int \<times> ('k, 'a) handler_table) option" where
  "fcitx_handler_key_prepend k ob t = do {
     (new_id, p) \<leftarrow> fcitx_obj_pool_alloc_id (objs t);
     let t = t\<lparr>objs := p\<rparr>;
     h \<leftarrow> get_key k t;
     let i = first_id h;
     if i = INVALID then
       Some (new_id,
         put_obj new_id \<lparr>obj_prev = INVALID, obj_next = INVALID, obj_key = k, obj_data = ob\<rparr>
           (put_key k \<lparr>first_id = new_id, last_id = new_id\<rparr> t))
     else do {
       t \<leftarrow> set_first_id k new_id t;
       let t = put_obj new_id \<lparr>obj_prev = INVALID, obj_next = i, obj_key = k, obj_data = ob\<rparr> t;
       t \<leftarrow> set_prev_id i new_id t;
       Some (new_id, t) }}"

definition fcitx_handler_table_prepend ::
  "'k \<Rightarrow> 'a \<Rightarrow> ('k, 'a) handler_table \<Rightarrow> (int \<times> ('k, 'a) handler_table) option" where
  "fcitx_handler_table_prepend k ob t =
     (let (kp, t) = fcitx_handler_table_find_key k True t in
      do { k' \<leftarrow> kp; fcitx_handler_key_prepend k' ob t })"

definition fcitx_handler_key_is_empty :: "'k option \<Rightarrow> ('k, 'a) handler_table \<Rightarrow> bool option" where
  "fcitx_handler_key_is_empty kp t = do {
     k \<leftarrow> kp; h \<leftarrow> get_key k t; Some (last_id h = INVALID \<and> first_id h = INVALID) }"

definition fcitx_handler_table_foreach_key ::
  "('k \<Rightarrow> 'b \<Rightarrow> 'b) \<Rightarrow> ('k, 'a) handler_table \<Rightarrow> 'b \<Rightarrow> 'b" where
  "fcitx_handler_table_foreach_key callback t acc = fold (\<lambda>(k, _). callback k) (keys t) acc"

definition fcitx_handler_table_n_key :: "('k, 'a) handler_table \<Rightarrow> nat" where
  "fcitx_handler_table_n_key t = length (keys t)"

text \<open>The object pointer returned is the id again, NULL is \<open>None\<close>.\<close>

definition fcitx_handler_table_get_by_id :: "int \<Rightarrow> ('k, 'a) handler_table \<Rightarrow> int option" where
  "fcitx_handler_table_get_by_id i t = (if i = INVALID then None else Some i)"

text \<open>The key pointer of an object; the outer option is a bad access, the inner one NULL.\<close>

definition fcitx_handler_table_get_key_by_id :: "int \<Rightarrow> ('k, 'a) handler_table \<Rightarrow> 'k option option"
where
  "fcitx_handler_table_get_key_by_id i t =
     (if i = INVALID then Some None
      else do { ob \<leftarrow> fcitx_handler_table_get_obj i t; Some (Some (obj_key ob)) })"

definition fcitx_handler_key_first_id :: "'k option \<Rightarrow> ('k, 'a) handler_table \<Rightarrow> int option" where
  "fcitx_handler_key_first_id kp t =
     (case kp of None \<Rightarrow> Some INVALID | Some k \<Rightarrow> map_option first_id (get_key k t))"

definition fcitx_handler_key_last_id :: "'k option \<Rightarrow> ('k, 'a) handler_table \<Rightarrow> int option" where
  "fcitx_handler_key_last_id kp t =
     (case kp of None \<Rightarrow> Some INVALID | Some k \<Rightarrow> map_option last_id (get_key k t))"

definition fcitx_handler_key_first :: "'k option \<Rightarrow> ('k, 'a) handler_table \<Rightarrow> int option option" where
  "fcitx_handler_key_first kp t = do {
     i \<leftarrow> fcitx_handler_key_first_id kp t; Some (fcitx_handler_table_get_by_id i t) }"

definition fcitx_handler_key_last :: "'k option \<Rightarrow> ('k, 'a) handler_table \<Rightarrow> int option option" where
  "fcitx_handler_key_last kp t = do {
     i \<leftarrow> fcitx_handler_key_last_id kp t; Some (fcitx_handler_table_get_by_id i t) }"

definition fcitx_handler_table_first_id :: "'k \<Rightarrow> ('k, 'a) handler_table \<Rightarrow> int" where
  "fcitx_handler_table_first_id k t =
     (case get_key k t of None \<Rightarrow> INVALID | Some h \<Rightarrow> first_id h)"

definition fcitx_handler_table_last_id :: "'k \<Rightarrow> ('k, 'a) handler_table \<Rightarrow> int" where
  "fcitx_handler_table_last_id k t =
     (case get_key k t of None \<Rightarrow> INVALID | Some h \<Rightarrow> last_id h)"

definition fcitx_handler_table_next_id :: "int \<Rightarrow> ('k, 'a) handler_table \<Rightarrow> int option" where
  "fcitx_handler_table_next_id ob t = map_option obj_next (fcitx_handler_table_get_obj ob t)"

definition fcitx_handler_table_prev_id :: "int \<Rightarrow> ('k, 'a) handler_table \<Rightarrow> int option" where
  "fcitx_handler_table_prev_id ob t = map_option obj_prev (fcitx_handler_table_get_obj ob t)"

definition fcitx_handler_table_first :: "'k \<Rightarrow> ('k, 'a) handler_table \<Rightarrow> int option" where
  "fcitx_handler_table_first k t =
     fcitx_handler_table_get_by_id (fcitx_handler_table_first_id k t) t"

definition fcitx_handler_table_last :: "'k \<Rightarrow> ('k, 'a) handler_table \<Rightarrow> int option" where
  "fcitx_handler_table_last k t =
     fcitx_handler_table_get_by_id (fcitx_handler_table_last_id k t) t"

definition fcitx_handler_table_next :: "int \<Rightarrow> ('k, 'a) handler_table \<Rightarrow> int option option" where
  "fcitx_handler_table_next ob t = do {
     i \<leftarrow> fcitx_handler_table_next_id ob t; Some (fcitx_handler_table_get_by_id i t) }"

definition fcitx_handler_table_prev :: "int \<Rightarrow> ('k, 'a) handler_table \<Rightarrow> int option option" where
  "fcitx_handler_table_prev ob t = do {
     i \<leftarrow> fcitx_handler_table_prev_id ob t; Some (fcitx_handler_table_get_by_id i t) }"

definition pool_release :: "int \<Rightarrow> ('k, 'a) handler_table \<Rightarrow> ('k, 'a) handler_table option" where
  "pool_release i t = do {
     (_, p) \<leftarrow> fcitx_obj_pool_free_id i (objs t); Some (t\<lparr>objs := p\<rparr>) }"

definition fcitx_handler_table_remove_by_id ::
  "int \<Rightarrow> ('k, 'a) handler_table \<Rightarrow> ('k, 'a) handler_table option" where
  "fcitx_handler_table_remove_by_id i t =
     (if i = INVALID then Some t
      else do {
        ob \<leftarrow> fcitx_handler_table_get_obj i t;
        let p = obj_prev ob;
        let n = obj_next ob;
        t \<leftarrow> (if p = INVALID then set_first_id (obj_key ob) n t else set_next_id p n t);
        t \<leftarrow> (if n = INVALID then set_last_id (obj_key ob) p t else set_prev_id n p t);
        let t = log_event (has_free_func t) (ObjFree (obj_data ob)) t;
        pool_release i t })"

text \<open>The loop over the chain of a key; fuel bounds the length of the chain.\<close>

fun free_chain_loop :: "nat \<Rightarrow> int \<Rightarrow> ('k, 'a) handler_table \<Rightarrow> ('k, 'a) handler_table option" where
  "free_chain_loop 0 i t = None"
| "free_chain_loop (Suc n) i t =
     (if i = INVALID then Some t
      else do {
        ob \<leftarrow> fcitx_handler_table_get_obj i t;
        let t = log_event (has_free_func t) (ObjFree (obj_data ob)) t;
        t \<leftarrow> pool_release i t;
        free_chain_loop n (obj_next ob) t })"

definition fcitx_handler_table_free_key ::
  "nat \<Rightarrow> 'k \<Rightarrow> ('k, 'a) handler_table \<Rightarrow> ('k, 'a) handler_table option" where
  "fcitx_handler_table_free_key fuel k t = do {
     h \<leftarrow> get_key k t;
     t \<leftarrow> free_chain_loop fuel (first_id h) t;
     let t = t\<lparr>keys := AList.delete k (keys t)\<rparr>;
     Some (log_event (has_key_free t) (KeyFree k) t) }"

text \<open>The chain of a key is never longer than the pool.\<close>

definition chain_fuel :: "('k, 'a) handler_table \<Rightarrow> nat" where
  "chain_fuel t = length (heads (objs t)) + 1"

definition fcitx_handler_table_remove_by_id_full ::
  "int \<Rightarrow> ('k, 'a) handler_table \<Rightarrow> ('k, 'a) handler_table option" where
  "fcitx_handler_table_remove_by_id_full i t = do {
     kp \<leftarrow> fcitx_handler_table_get_key_by_id i t;
     t \<leftarrow> fcitx_handler_table_remove_by_id i t;
     empty \<leftarrow> fcitx_handler_key_is_empty kp t;
     if empty then do { k \<leftarrow> kp; fcitx_handler_table_free_key (chain_fuel t) k t } else Some t }"

definition fcitx_handler_table_remove_key ::
  "'k \<Rightarrow> ('k, 'a) handler_table \<Rightarrow> ('k, 'a) handler_table option" where
  "fcitx_handler_table_remove_key k t =
     (let (kp, t) = fcitx_handler_table_find_key k False t in
      case kp of None \<Rightarrow> Some t
      | Some k' \<Rightarrow> fcitx_handler_table_free_key (chain_fuel t) k' t)"

text \<open>\<open>fcitx_handler_table_free\<close> frees the keys in hash order; what is left is the callback log.\<close>

fun free_keys :: "'k list \<Rightarrow> ('k, 'a) handler_table \<Rightarrow> ('k, 'a) handler_table option" where
  "free_keys [] t = Some t"
| "free_keys (k # ks) t = do {
     t \<leftarrow> fcitx_handler_table_free_key (chain_fuel t) k t; free_keys ks t }"

definition fcitx_handler_table_free ::
  "('k, 'a) handler_table \<Rightarrow> ('k, 'a) handler_event list option" where
  "fcitx_handler_table_free t = map_option events (free_keys (map fst (keys t)) t)"

section \<open>Invariant\<close>

definition nx :: "('k, 'a) handler_table \<Rightarrow> int \<Rightarrow> int" where
  "nx t i = obj_next (the (cells t i))"

definition pv :: "('k, 'a) handler_table \<Rightarrow> int \<Rightarrow> int" where
  "pv t i = obj_prev (the (cells t i))"

definition data_of :: "('k, 'a) handler_table \<Rightarrow> int \<Rightarrow> 'a option" where
  "data_of t i = map_option obj_data (cells t i)"

definition ids_live :: "('k, 'a) handler_table \<Rightarrow> int set" where
  "ids_live t = pool_live (objs t)"

text \<open>\<open>handler_ok t c\<close>: the chain of key \<open>k\<close> is the list of ids \<open>c k\<close>.\<close>

definition key_ok :: "('k, 'a) handler_table \<Rightarrow> 'k \<Rightarrow> int list \<Rightarrow> bool" where
  "key_ok t k is \<longleftrightarrow>
     (case get_key k t of None \<Rightarrow> is = []
      | Some h \<Rightarrow> first_id h = first_of INVALID is \<and> last_id h = last_of INVALID is) \<and>
     distinct is \<and> dl (nx t) (pv t) INVALID is INVALID \<and>
     (\<forall>i \<in> set is. \<exists>ob. cells t i = Some ob \<and> obj_key ob = k)"

definition handler_ok :: "('k, 'a) handler_table \<Rightarrow> ('k \<Rightarrow> int list) \<Rightarrow> bool" where
  "handler_ok t c \<longleftrightarrow> pool_ok (objs t) \<and> distinct (map fst (keys t)) \<and> (\<forall>k. key_ok t k (c k)) \<and>
     (\<forall>i. i \<in> ids_live t \<longleftrightarrow> (\<exists>k. i \<in> set (c k)))"

lemma live_nonneg: "handler_ok t c \<Longrightarrow> i \<in> ids_live t \<Longrightarrow> 0 \<le> i \<and> i \<noteq> INVALID"
proof -
  assume "handler_ok t c" and "i \<in> ids_live t"
  then have "pool_ok (objs t)" "i \<in> pool_live (objs t)"
    unfolding handler_ok_def ids_live_def by blast+
  then have "0 \<le> i" by (rule obj_pool.live_nonneg)
  then show ?thesis by (auto simp: INVALID_def pool_ids)
qed

lemma chain_live: "handler_ok t c \<Longrightarrow> i \<in> set (c k) \<Longrightarrow> i \<in> ids_live t"
  by (auto simp: handler_ok_def)

lemma chain_no_invalid: "handler_ok t c \<Longrightarrow> INVALID \<notin> set (c k)"
  using live_nonneg [of t c INVALID] chain_live [of t c INVALID k] by blast

lemma chain_obj:
  assumes "handler_ok t c" and "i \<in> set (c k)"
  shows "\<exists>ob. fcitx_handler_table_get_obj i t = Some ob \<and> cells t i = Some ob \<and> obj_key ob = k"
proof -
  have "key_ok t k (c k)" using assms by (simp add: handler_ok_def)
  moreover have "i \<in> pool_live (objs t)" using chain_live [OF assms] by (simp add: ids_live_def)
  then have "0 \<le> i" "nat i < length (heads (objs t))"
    by (auto simp: pool_live_iff)
  ultimately show ?thesis
    using assms(2) by (auto simp: key_ok_def fcitx_handler_table_get_obj_def)
qed

lemma chains_upd:
  "(\<exists>k'. j \<in> set ((c(k := zs)) k')) \<longleftrightarrow> j \<in> set zs \<or> (\<exists>k'. k' \<noteq> k \<and> j \<in> set (c k'))"
  by (metis fun_upd_apply)

lemma ids_live_split:
  "handler_ok t c \<Longrightarrow>
   j \<in> ids_live t \<longleftrightarrow> j \<in> set (c k) \<or> (\<exists>k'. k' \<noteq> k \<and> j \<in> set (c k'))"
  by (metis handler_ok_def)

lemma chain_disjoint: "handler_ok t c \<Longrightarrow> i \<in> set (c k) \<Longrightarrow> i \<in> set (c k') \<Longrightarrow> k = k'"
  using chain_obj [of t c i k] chain_obj [of t c i k'] by auto

lemma key_ok_frame:
  assumes "key_ok t k is" and "get_key k t' = get_key k t" and "\<And>i. i \<in> set is \<Longrightarrow> cells t' i = cells t i"
  shows "key_ok t' k is"
proof -
  have "dl (nx t') (pv t') INVALID is INVALID = dl (nx t) (pv t) INVALID is INVALID"
    using assms(3) by (intro dl_cong) (simp_all add: nx_def pv_def)
  with assms show ?thesis by (simp add: key_ok_def)
qed

text \<open>Putting a new id \<open>i\<close> between \<open>xs\<close> and \<open>ys\<close> in the chain of \<open>k\<close>.\<close>

lemma handler_ok_insert:
  assumes ok: "handler_ok t c" and ck: "c k = xs @ ys"
    and pool: "pool_ok (objs t')" "i \<notin> ids_live t" "ids_live t' = insert i (ids_live t)" "0 \<le> i"
    and keys: "map fst (keys t') = map fst (keys t)"
      "\<And>k'. k' \<noteq> k \<Longrightarrow> get_key k' t' = get_key k' t"
      "\<exists>h. get_key k t' = Some h \<and> first_id h = first_of INVALID (xs @ i # ys) \<and>
        last_id h = last_of INVALID (xs @ i # ys)"
    and new: "\<exists>ob. cells t' i = Some ob \<and> obj_key ob = k \<and> obj_prev ob = last_of INVALID xs \<and>
        obj_next ob = first_of INVALID ys"
    and old: "\<And>j ob. j \<in> ids_live t \<Longrightarrow> cells t j = Some ob \<Longrightarrow> \<exists>ob'. cells t' j = Some ob' \<and>
        obj_key ob' = obj_key ob \<and>
        obj_next ob' = (if j = last_of INVALID xs then i else obj_next ob) \<and>
        obj_prev ob' = (if j = first_of INVALID ys then i else obj_prev ob) \<and>
        (obj_key ob \<noteq> k \<longrightarrow> ob' = ob)"
  shows "handler_ok t' (c(k := xs @ i # ys))"
proof -
  have k: "key_ok t k (xs @ ys)" using ok ck by (metis handler_ok_def)
  have inv: "INVALID \<notin> set (xs @ ys)" using chain_no_invalid [OF ok, of k] ck by simp
  have i: "i \<notin> set (xs @ ys)" using pool(2) chain_live [OF ok, of i k] ck by auto
  have cell: "\<exists>ob. cells t j = Some ob \<and> j \<in> ids_live t \<and> obj_key ob = k" if "j \<in> set (xs @ ys)" for j
    using chain_obj [OF ok, of j k] chain_live [OF ok, of j k] that ck by auto
  have link: "nx t' j = (if j = last_of INVALID xs then i else nx t j)"
    "pv t' j = (if j = first_of INVALID ys then i else pv t j)"
    "\<exists>ob. cells t' j = Some ob \<and> obj_key ob = k"
    if j: "j \<in> set (xs @ ys)" for j
  proof -
    obtain ob where ob: "cells t j = Some ob" "j \<in> ids_live t" "obj_key ob = k"
      using cell [OF j] by auto
    from old [OF ob(2,1)] ob show "nx t' j = (if j = last_of INVALID xs then i else nx t j)"
      "pv t' j = (if j = first_of INVALID ys then i else pv t j)"
      "\<exists>ob. cells t' j = Some ob \<and> obj_key ob = k"
      by (auto simp: nx_def pv_def)
  qed
  have new': "nx t' i = first_of INVALID ys" "pv t' i = last_of INVALID xs"
    using new by (auto simp: nx_def pv_def)
  have "dl (nx t') (pv t') INVALID (xs @ i # ys) INVALID"
    by (rule dl_insert [where nx = "nx t" and pv = "pv t"])
      (use k inv link(1,2) new' in \<open>auto simp: key_ok_def\<close>)
  then have "key_ok t' k (xs @ i # ys)"
    using k i link(3) new keys(3) by (auto simp: key_ok_def)
  moreover have "key_ok t' k' (c k')" if "k' \<noteq> k" for k'
  proof (rule key_ok_frame [of t])
    show "key_ok t k' (c k')" using ok by (simp add: handler_ok_def)
    show "get_key k' t' = get_key k' t" using that by (rule keys(2))
    fix j assume j: "j \<in> set (c k')"
    then obtain ob where "cells t j = Some ob" "obj_key ob = k'"
      using chain_obj [OF ok j] by auto
    with old [OF chain_live [OF ok j]] that show "cells t' j = cells t j" by fastforce
  qed
  moreover have "j \<in> ids_live t' \<longleftrightarrow> (\<exists>k'. j \<in> set ((c(k := xs @ i # ys)) k'))" for j
    unfolding pool(3) chains_upd insert_iff ids_live_split [OF ok, of j k] ck by auto
  ultimately show ?thesis
    using ok pool(1) keys(1) by (simp add: handler_ok_def)
qed

lemma handler_ok_remove:
  assumes ok: "handler_ok t c" and ck: "c k = xs @ i # ys"
    and pool: "pool_ok (objs t')" "ids_live t' = ids_live t - {i}"
    and keys: "map fst (keys t') = map fst (keys t)"
      "\<And>k'. k' \<noteq> k \<Longrightarrow> get_key k' t' = get_key k' t"
      "\<exists>h. get_key k t' = Some h \<and> first_id h = first_of INVALID (xs @ ys) \<and>
        last_id h = last_of INVALID (xs @ ys)"
    and old: "\<And>j ob. j \<in> ids_live t' \<Longrightarrow> cells t j = Some ob \<Longrightarrow> \<exists>ob'. cells t' j = Some ob' \<and>
        obj_key ob' = obj_key ob \<and>
        obj_next ob' = (if j = last_of INVALID xs then first_of INVALID ys else obj_next ob) \<and>
        obj_prev ob' = (if j = first_of INVALID ys then last_of INVALID xs else obj_prev ob) \<and>
        (obj_key ob \<noteq> k \<longrightarrow> ob' = ob)"
  shows "handler_ok t' (c(k := xs @ ys))"
proof -
  have k: "key_ok t k (xs @ i # ys)" using ok ck by (metis handler_ok_def)
  have inv: "INVALID \<notin> set (xs @ ys)" using chain_no_invalid [OF ok, of k] ck by simp
  have cell: "\<exists>ob. cells t j = Some ob \<and> j \<in> ids_live t' \<and> obj_key ob = k" if "j \<in> set (xs @ ys)" for j
  proof -
    have "j \<in> set (c k)" "j \<noteq> i" using that ck k by (auto simp: key_ok_def)
    then show ?thesis
      using chain_obj [OF ok, of j k] chain_live [OF ok, of j k] pool(2) by auto
  qed
  have link: "nx t' j = (if j = last_of INVALID xs then first_of INVALID ys else nx t j)"
    "pv t' j = (if j = first_of INVALID ys then last_of INVALID xs else pv t j)"
    "\<exists>ob. cells t' j = Some ob \<and> obj_key ob = k"
    if j: "j \<in> set (xs @ ys)" for j
  proof -
    obtain ob where ob: "cells t j = Some ob" "j \<in> ids_live t'" "obj_key ob = k"
      using cell [OF j] by auto
    from old [OF ob(2,1)] ob
    show "nx t' j = (if j = last_of INVALID xs then first_of INVALID ys else nx t j)"
      "pv t' j = (if j = first_of INVALID ys then last_of INVALID xs else pv t j)"
      "\<exists>ob. cells t' j = Some ob \<and> obj_key ob = k"
      by (auto simp: nx_def pv_def)
  qed
  have "dl (nx t') (pv t') INVALID (xs @ ys) INVALID"
    by (rule dl_remove [where nx = "nx t" and pv = "pv t" and n = i])
      (use k inv link(1,2) in \<open>auto simp: key_ok_def\<close>)
  then have "key_ok t' k (xs @ ys)"
    using k link(3) keys(3) by (auto simp: key_ok_def)
  moreover have "key_ok t' k' (c k')" if "k' \<noteq> k" for k'
  proof (rule key_ok_frame [of t])
    show "key_ok t k' (c k')" using ok by (simp add: handler_ok_def)
    show "get_key k' t' = get_key k' t" using that by (rule keys(2))
    fix j assume j: "j \<in> set (c k')"
    then have "j \<noteq> i" using chain_disjoint [OF ok, of i k k'] ck that by auto
    then have "j \<in> ids_live t'" using chain_live [OF ok j] pool(2) by simp
    moreover obtain ob where "cells t j = Some ob" "obj_key ob = k'"
      using chain_obj [OF ok j] by auto
    ultimately show "cells t' j = cells t j" using old that by fastforce
  qed
  moreover have "j \<in> ids_live t' \<longleftrightarrow> (\<exists>k'. j \<in> set ((c(k := xs @ ys)) k'))" for j
  proof -
    have "i \<notin> set (xs @ ys)" using k by (auto simp: key_ok_def)
    moreover have "i \<notin> set (c k')" if "k' \<noteq> k" for k'
      using chain_disjoint [OF ok, of i k k'] ck that by auto
    ultimately show ?thesis
      unfolding pool(2) chains_upd Diff_iff ids_live_split [OF ok, of j k] ck by auto
  qed
  ultimately show ?thesis
    using ok pool(1) keys(1) by (simp add: handler_ok_def)
qed

section \<open>Operations keep the invariant\<close>

definition same_env :: "('k, 'a) handler_table \<Rightarrow> ('k, 'a) handler_table \<Rightarrow> bool" where
  "same_env t t' \<longleftrightarrow> has_free_func t' = has_free_func t \<and> has_key_init t' = has_key_init t \<and>
     has_key_free t' = has_key_free t"

lemma get_obj_live: "i \<in> ids_live t \<Longrightarrow> fcitx_handler_table_get_obj i t = cells t i"
  by (simp add: fcitx_handler_table_get_obj_def ids_live_def pool_live_iff)

lemma get_key_put [simp]: "get_key k' (put_key k h t) = (if k' = k then Some h else get_key k' t)"
  by (simp add: get_key_def put_key_def AList.update_conv')

lemma put_key_fields [simp]:
  "objs (put_key k h t) = objs t" "cells (put_key k h t) = cells t"
  "events (put_key k h t) = events t" "same_env s (put_key k h t) = same_env s t"
  by (simp_all add: put_key_def same_env_def)

lemma put_key_keys: "get_key k t \<noteq> None \<Longrightarrow> map fst (keys (put_key k h t)) = map fst (keys t)"
  by (auto simp: put_key_def get_key_def AList.update_keys map_of_eq_None_iff)

lemma put_obj_fields [simp]:
  "objs (put_obj i ob t) = objs t" "cells (put_obj i ob t) = (cells t)(i \<mapsto> ob)"
  "events (put_obj i ob t) = events t" "same_env s (put_obj i ob t) = same_env s t"
  "keys (put_obj i ob t) = keys t" "get_key k (put_obj i ob t) = get_key k t"
  "ids_live (put_obj i ob t) = ids_live t"
  by (simp_all add: put_obj_def same_env_def get_key_def ids_live_def)

lemma ids_live_put_key [simp]: "ids_live (put_key k h t) = ids_live t"
  by (simp add: ids_live_def)

lemma objs_update_fields [simp]:
  "get_key k (t\<lparr>objs := p\<rparr>) = get_key k t" "ids_live (t\<lparr>objs := p\<rparr>) = pool_live p"
  "same_env s (t\<lparr>objs := p\<rparr>) = same_env s t"
  by (simp_all add: get_key_def ids_live_def same_env_def)

lemma same_env_refl [simp]: "same_env t t"
  by (simp add: same_env_def)

text \<open>The common form of the two insertions: the new object lies between \<open>xs\<close> and \<open>ys\<close>.\<close>

definition inserted ::
  "('k, 'a) handler_table \<Rightarrow> ('k \<Rightarrow> int list) \<Rightarrow> 'k \<Rightarrow> int \<Rightarrow> 'a \<Rightarrow> ('k \<Rightarrow> int list) \<Rightarrow>
   ('k, 'a) handler_table \<Rightarrow> bool" where
  "inserted t c k i a c' t' \<longleftrightarrow> i \<notin> ids_live t \<and> handler_ok t' c' \<and>
     map fst (keys t') = map fst (keys t) \<and> events t' = events t \<and> same_env t t' \<and>
     data_of t' i = Some a \<and> (\<forall>j \<in> ids_live t. data_of t' j = data_of t j)"

lemma key_first_last:
  assumes "handler_ok t c" and "get_key k t = Some h"
  shows "first_id h = first_of INVALID (c k)" "last_id h = last_of INVALID (c k)"
  using assms by (auto simp: handler_ok_def key_ok_def split: option.splits dest!: spec [of _ k])

lemma key_append_ok:
  assumes ok: "handler_ok t c" and room: "pool_room (objs t)" and key: "get_key k t = Some h"
  shows "\<exists>i t'. fcitx_handler_key_append k a t = Some (i, t') \<and> inserted t c k i a (c(k := c k @ [i])) t'"
proof -
  have "pool_ok (objs t)" using ok by (simp add: handler_ok_def)
  then obtain i p where p: "fcitx_obj_pool_alloc_id (objs t) = Some (i, p)" "pool_ok p" "0 \<le> i"
    "i \<notin> ids_live t" "pool_live p = insert i (ids_live t)"
    using obj_pool.alloc_law [OF _ room] by (auto simp: ids_live_def)
  note h = key_first_last [OF ok key]
  let ?l = "last_of INVALID (c k)"
  let ?ob = "\<lparr>obj_prev = ?l, obj_next = INVALID, obj_key = k, obj_data = a\<rparr>"
  show ?thesis
  proof (cases "c k = []")
    case True
    let ?t = "put_obj i ?ob (put_key k \<lparr>first_id = i, last_id = i\<rparr> (t\<lparr>objs := p\<rparr>))"
    have "fcitx_handler_key_append k a t = Some (i, ?t)"
      using True h key by (simp add: fcitx_handler_key_append_def p(1) Let_def)
    moreover have "handler_ok ?t (c(k := [] @ i # []))"
      by (rule handler_ok_insert [OF ok])
        (use True p key chain_live [OF ok, of INVALID k] live_nonneg [OF ok, of INVALID] in
          \<open>auto simp: put_key_keys dest: live_nonneg [OF ok]\<close>)
    ultimately show ?thesis
      using True p key by (auto simp: inserted_def put_key_keys data_of_def)
  next
    case False
    then have l: "?l \<in> set (c k)" by (simp add: last_of_def)
    then obtain ol where ol: "cells t ?l = Some ol" "obj_key ol = k"
      using chain_obj [OF ok] by blast
    have ll: "?l \<in> ids_live t" "?l \<noteq> INVALID" "?l \<noteq> i"
      using chain_live [OF ok l] live_nonneg [OF ok, of ?l] p(4) by auto
    let ?t1 = "put_obj i ?ob (put_key k (h\<lparr>last_id := i\<rparr>) (t\<lparr>objs := p\<rparr>))"
    let ?t = "put_obj ?l (ol\<lparr>obj_next := i\<rparr>) ?t1"
    have "fcitx_handler_table_get_obj ?l ?t1 = Some ol"
      using ll ol p by (subst get_obj_live) auto
    then have "fcitx_handler_key_append k a t = Some (i, ?t)"
      using ll h key
      by (simp add: fcitx_handler_key_append_def p(1) Let_def set_last_id_def set_next_id_def)
    moreover have "handler_ok ?t (c(k := c k @ i # []))"
    proof (rule handler_ok_insert [OF ok])
      show "\<exists>h. get_key k ?t = Some h \<and> first_id h = first_of INVALID (c k @ [i]) \<and>
          last_id h = last_of INVALID (c k @ [i])"
        using h key False by (auto simp: first_of_def)
    qed (use p key ll ol in \<open>auto simp: put_key_keys dest: live_nonneg [OF ok]\<close>)
    ultimately show ?thesis
      using p key ll ol by (auto simp: inserted_def put_key_keys data_of_def)
  qed
qed

lemma key_prepend_ok:
  assumes ok: "handler_ok t c" and room: "pool_room (objs t)" and key: "get_key k t = Some h"
  shows "\<exists>i t'. fcitx_handler_key_prepend k a t = Some (i, t') \<and> inserted t c k i a (c(k := i # c k)) t'"
proof -
  have "pool_ok (objs t)" using ok by (simp add: handler_ok_def)
  then obtain i p where p: "fcitx_obj_pool_alloc_id (objs t) = Some (i, p)" "pool_ok p" "0 \<le> i"
    "i \<notin> ids_live t" "pool_live p = insert i (ids_live t)"
    using obj_pool.alloc_law [OF _ room] by (auto simp: ids_live_def)
  note h = key_first_last [OF ok key]
  let ?l = "first_of INVALID (c k)"
  let ?ob = "\<lparr>obj_prev = INVALID, obj_next = ?l, obj_key = k, obj_data = a\<rparr>"
  show ?thesis
  proof (cases "c k = []")
    case True
    let ?t = "put_obj i ?ob (put_key k \<lparr>first_id = i, last_id = i\<rparr> (t\<lparr>objs := p\<rparr>))"
    have "fcitx_handler_key_prepend k a t = Some (i, ?t)"
      using True h key by (simp add: fcitx_handler_key_prepend_def p(1) Let_def)
    moreover have "handler_ok ?t (c(k := [] @ i # []))"
      by (rule handler_ok_insert [OF ok])
        (use True p key chain_live [OF ok, of INVALID k] live_nonneg [OF ok, of INVALID] in
          \<open>auto simp: put_key_keys dest: live_nonneg [OF ok]\<close>)
    ultimately show ?thesis
      using True p key by (auto simp: inserted_def put_key_keys data_of_def)
  next
    case False
    then have l: "?l \<in> set (c k)" by (simp add: first_of_def)
    then obtain ol where ol: "cells t ?l = Some ol" "obj_key ol = k"
      using chain_obj [OF ok] by blast
    have ll: "?l \<in> ids_live t" "?l \<noteq> INVALID" "?l \<noteq> i"
      using chain_live [OF ok l] live_nonneg [OF ok, of ?l] p(4) by auto
    let ?t1 = "put_obj i ?ob (put_key k (h\<lparr>first_id := i\<rparr>) (t\<lparr>objs := p\<rparr>))"
    let ?t = "put_obj ?l (ol\<lparr>obj_prev := i\<rparr>) ?t1"
    have "fcitx_handler_table_get_obj ?l ?t1 = Some ol"
      using ll ol p by (subst get_obj_live) auto
    then have "fcitx_handler_key_prepend k a t = Some (i, ?t)"
      using ll h key
      by (simp add: fcitx_handler_key_prepend_def p(1) Let_def set_first_id_def set_prev_id_def)
    moreover have "handler_ok ?t (c(k := [] @ i # c k))"
    proof (rule handler_ok_insert [OF ok])
      show "\<exists>h. get_key k ?t = Some h \<and> first_id h = first_of INVALID ([] @ i # c k) \<and>
          last_id h = last_of INVALID ([] @ i # c k)"
        using h key False by (auto simp: last_of_def)
    qed (use p key ll ol in \<open>auto simp: put_key_keys dest: live_nonneg [OF ok]\<close>)
    ultimately show ?thesis
      using p key ll ol by (auto simp: inserted_def put_key_keys data_of_def)
  qed
qed

lemma find_key_ok:
  assumes ok: "handler_ok t c"
  shows "\<exists>t' h. fcitx_handler_table_find_key k True t = (Some k, t') \<and> handler_ok t' c \<and>
    get_key k t' = Some h \<and> objs t' = objs t \<and> cells t' = cells t \<and> same_env t t' \<and>
    set (map fst (keys t')) = insert k (set (map fst (keys t)))"
proof (cases "get_key k t")
  case None
  let ?h = "\<lparr>first_id = INVALID, last_id = INVALID\<rparr>"
  let ?t = "log_event (has_key_init t) (KeyInit k) (t\<lparr>keys := keys t @ [(k, ?h)]\<rparr>)"
  have f: "cells ?t = cells t" "objs ?t = objs t" "keys ?t = keys t @ [(k, ?h)]" "same_env t ?t"
    "ids_live ?t = ids_live t"
    by (simp_all add: log_event_def same_env_def ids_live_def)
  have gk: "get_key k' ?t = (if k' = k then Some ?h else get_key k' t)" for k'
    using None by (auto simp: get_key_def f map_add_def split: option.splits)
  have "key_ok t k (c k)" using ok by (simp add: handler_ok_def)
  then have "c k = []" using None by (simp add: key_ok_def)
  have "key_ok ?t k' (c k')" for k'
  proof (cases "k' = k")
    case True
    then show ?thesis using \<open>c k = []\<close> by (simp add: key_ok_def gk)
  next
    case False
    have "key_ok t k' (c k')" using ok by (simp add: handler_ok_def)
    then show ?thesis
      by (rule key_ok_frame) (use False gk f(1) in simp_all)
  qed
  moreover have "k \<notin> set (map fst (keys t))"
    using None by (simp add: get_key_def map_of_eq_None_iff)
  ultimately have "handler_ok ?t c"
    using ok by (simp add: handler_ok_def f)
  moreover have "fcitx_handler_table_find_key k True t = (Some k, ?t)"
    using None by (simp add: fcitx_handler_table_find_key_def)
  ultimately show ?thesis
    using f gk [of k] by simp
next
  case (Some h)
  then have "k \<in> set (map fst (keys t))"
    by (force simp: get_key_def dest: map_of_SomeD)
  with Some ok show ?thesis
    by (simp add: fcitx_handler_table_find_key_def insert_absorb)
qed

lemma inserted_trans:
  assumes "inserted t1 c k i a c' t'" and "objs t1 = objs t" "cells t1 = cells t" "same_env t t1"
  shows "i \<notin> ids_live t \<and> handler_ok t' c' \<and> data_of t' i = Some a \<and>
    (\<forall>j \<in> ids_live t. data_of t' j = data_of t j) \<and> same_env t t'"
  using assms by (auto simp: inserted_def ids_live_def data_of_def same_env_def)

lemma table_append_ok:
  assumes ok: "handler_ok t c" and room: "pool_room (objs t)"
  shows "\<exists>i t'. fcitx_handler_table_append k a t = Some (i, t') \<and> i \<notin> ids_live t \<and>
    handler_ok t' (c(k := c k @ [i])) \<and> data_of t' i = Some a \<and>
    (\<forall>j \<in> ids_live t. data_of t' j = data_of t j)"
proof -
  obtain t1 h where t1: "fcitx_handler_table_find_key k True t = (Some k, t1)" "handler_ok t1 c"
    "get_key k t1 = Some h" "objs t1 = objs t" "cells t1 = cells t" "same_env t t1"
    using find_key_ok [OF ok, of k] by blast
  with key_append_ok [OF t1(2) _ t1(3), of a] room obtain i t' where
    "fcitx_handler_key_append k a t1 = Some (i, t')" "inserted t1 c k i a (c(k := c k @ [i])) t'"
    by auto
  with inserted_trans [OF this(2) t1(4,5,6)] t1(1) show ?thesis
    by (simp add: fcitx_handler_table_append_def)
qed

lemma table_prepend_ok:
  assumes ok: "handler_ok t c" and room: "pool_room (objs t)"
  shows "\<exists>i t'. fcitx_handler_table_prepend k a t = Some (i, t') \<and> i \<notin> ids_live t \<and>
    handler_ok t' (c(k := i # c k)) \<and> data_of t' i = Some a \<and>
    (\<forall>j \<in> ids_live t. data_of t' j = data_of t j)"
proof -
  obtain t1 h where t1: "fcitx_handler_table_find_key k True t = (Some k, t1)" "handler_ok t1 c"
    "get_key k t1 = Some h" "objs t1 = objs t" "cells t1 = cells t" "same_env t t1"
    using find_key_ok [OF ok, of k] by blast
  with key_prepend_ok [OF t1(2) _ t1(3), of a] room obtain i t' where
    "fcitx_handler_key_prepend k a t1 = Some (i, t')" "inserted t1 c k i a (c(k := i # c k)) t'"
    by auto
  with inserted_trans [OF this(2) t1(4,5,6)] t1(1) show ?thesis
    by (simp add: fcitx_handler_table_prepend_def)
qed

section \<open>Removal\<close>

lemma log_event_fields [simp]:
  "keys (log_event b e t) = keys t" "objs (log_event b e t) = objs t"
  "cells (log_event b e t) = cells t" "same_env s (log_event b e t) = same_env s t"
  "events (log_event b e t) = events t @ (if b then [e] else [])"
  "get_key k (log_event b e t) = get_key k t" "ids_live (log_event b e t) = ids_live t"
  "has_free_func (log_event b e t) = has_free_func t"
  "has_key_free (log_event b e t) = has_key_free t"
  "has_key_init (log_event b e t) = has_key_init t"
  by (simp_all add: log_event_def same_env_def get_key_def ids_live_def)

lemma pool_release_ok:
  assumes "pool_ok (objs t)" and "i \<in> ids_live t"
  shows "\<exists>p. pool_release i t = Some (t\<lparr>objs := p\<rparr>) \<and> pool_ok p \<and> pool_live p = ids_live t - {i}"
  using obj_pool.release_law [OF assms(1), of i] assms(2)
  by (auto simp: pool_release_def ids_live_def)

lemma get_key_chain:
  assumes ok: "handler_ok t c" and "i \<in> set (c k)"
  shows "\<exists>h. get_key k t = Some h"
proof -
  have "key_ok t k (c k)" using ok by (simp add: handler_ok_def)
  with assms(2) show ?thesis by (auto simp: key_ok_def split: option.splits)
qed

lemma set_next_live:
  "j \<in> ids_live t \<Longrightarrow> cells t j = Some oj \<Longrightarrow> set_next_id j v t = Some (put_obj j (oj\<lparr>obj_next := v\<rparr>) t)"
  by (simp add: set_next_id_def get_obj_live)

lemma set_prev_live:
  "j \<in> ids_live t \<Longrightarrow> cells t j = Some oj \<Longrightarrow> set_prev_id j v t = Some (put_obj j (oj\<lparr>obj_prev := v\<rparr>) t)"
  by (simp add: set_prev_id_def get_obj_live)

text \<open>Unlinking the object of id \<open>i\<close> from its neighbours, before it is released.\<close>

lemma unlink_ok:
  assumes ok: "handler_ok t c" and ck: "c k = xs @ i # ys" and h: "get_key k t = Some h"
  shows "\<exists>t2 h2. do {
       t \<leftarrow> (if last_of INVALID xs = INVALID then set_first_id k (first_of INVALID ys) t
            else set_next_id (last_of INVALID xs) (first_of INVALID ys) t);
       (if first_of INVALID ys = INVALID then set_last_id k (last_of INVALID xs) t
        else set_prev_id (first_of INVALID ys) (last_of INVALID xs) t) } = Some t2 \<and>
     objs t2 = objs t \<and> events t2 = events t \<and> same_env t t2 \<and>
     map fst (keys t2) = map fst (keys t) \<and> (\<forall>k'. k' \<noteq> k \<longrightarrow> get_key k' t2 = get_key k' t) \<and>
     get_key k t2 = Some h2 \<and> first_id h2 = first_of INVALID (xs @ ys) \<and>
     last_id h2 = last_of INVALID (xs @ ys) \<and>
     (\<forall>j ob. cells t j = Some ob \<longrightarrow> (\<exists>ob'. cells t2 j = Some ob' \<and> obj_data ob' = obj_data ob \<and>
        obj_key ob' = obj_key ob \<and>
        obj_next ob' = (if j = last_of INVALID xs \<and> xs \<noteq> [] then first_of INVALID ys else obj_next ob) \<and>
        obj_prev ob' = (if j = first_of INVALID ys \<and> ys \<noteq> [] then last_of INVALID xs else obj_prev ob) \<and>
        (obj_key ob \<noteq> k \<longrightarrow> ob' = ob)))"
proof -
  note hfl = key_first_last [OF ok h]
  have nin: "INVALID \<notin> set (c k)" using chain_no_invalid [OF ok] .
  have dist: "distinct (xs @ i # ys)" using ok ck by (metis handler_ok_def key_ok_def)
  have mem: "j \<in> ids_live t \<and> (\<exists>oj. cells t j = Some oj \<and> obj_key oj = k)" if "j \<in> set (c k)" for j
    using chain_obj [OF ok that] chain_live [OF ok that] by auto
  show ?thesis
  proof (cases xs rule: rev_cases)
    case Nil
    show ?thesis
    proof (cases ys)
      case ys: Nil
      show ?thesis
        using Nil ys h by (simp add: set_first_id_def set_last_id_def put_key_keys)
    next
      case (Cons y ys')
      then obtain oy where "y \<in> ids_live t" "cells t y = Some oy" "obj_key oy = k" "y \<noteq> INVALID"
        using mem [of y] nin ck by auto
      then show ?thesis
        using Nil Cons h hfl ck
        by (auto simp: set_first_id_def set_prev_live put_key_keys)
    qed
  next
    case (snoc xs' x)
    then obtain ox where x: "x \<in> ids_live t" "cells t x = Some ox" "obj_key ox = k" "x \<noteq> INVALID"
      using mem [of x] nin ck by auto
    show ?thesis
    proof (cases ys)
      case Nil
      then show ?thesis
        using snoc x h hfl ck by (auto simp: set_next_live set_last_id_def put_key_keys)
    next
      case (Cons y ys')
      then obtain oy where "y \<in> ids_live t" "cells t y = Some oy" "obj_key oy = k" "y \<noteq> INVALID"
        using mem [of y] nin ck by auto
      moreover have "x \<noteq> y" using dist snoc Cons by auto
      ultimately show ?thesis
        using Cons snoc x h hfl ck by (auto simp: set_next_live set_prev_live)
    qed
  qed
qed

lemma remove_by_id_ok:
  assumes ok: "handler_ok t c" and ck: "c k = xs @ i # ys"
  shows "\<exists>t'. fcitx_handler_table_remove_by_id i t = Some t' \<and> handler_ok t' (c(k := xs @ ys)) \<and>
    map fst (keys t') = map fst (keys t) \<and>
    events t' = events t @ (if has_free_func t then [ObjFree (the (data_of t i))] else []) \<and>
    ids_live t' = ids_live t - {i} \<and> (\<forall>j \<in> ids_live t'. data_of t' j = data_of t j) \<and> same_env t t'"
proof -
  have i: "i \<in> set (c k)" using ck by simp
  then obtain ob where ob: "fcitx_handler_table_get_obj i t = Some ob" "cells t i = Some ob"
    "obj_key ob = k" using chain_obj [OF ok] by blast
  have live: "i \<in> ids_live t" "i \<noteq> INVALID"
    using chain_live [OF ok i] live_nonneg [OF ok, of i] by auto
  have kk: "key_ok t k (xs @ i # ys)" using ok ck by (metis handler_ok_def)
  then have "pv t i = last_of INVALID xs" "nx t i = first_of INVALID ys"
    by (auto simp: key_ok_def dest: dl_at)
  then have links: "obj_prev ob = last_of INVALID xs" "obj_next ob = first_of INVALID ys"
    using ob(2) by (simp_all add: pv_def nx_def)
  obtain h where h: "get_key k t = Some h" using get_key_chain [OF ok i] by blast
  obtain t1 t2 h2 where t1: "(if obj_prev ob = INVALID then set_first_id (obj_key ob) (obj_next ob) t
      else set_next_id (obj_prev ob) (obj_next ob) t) = Some t1"
    and t2: "(if obj_next ob = INVALID then set_last_id (obj_key ob) (obj_prev ob) t1
      else set_prev_id (obj_next ob) (obj_prev ob) t1) = Some t2"
    and u: "objs t2 = objs t" "events t2 = events t" "same_env t t2"
      "map fst (keys t2) = map fst (keys t)" "\<forall>k'. k' \<noteq> k \<longrightarrow> get_key k' t2 = get_key k' t"
      "get_key k t2 = Some h2" "first_id h2 = first_of INVALID (xs @ ys)"
      "last_id h2 = last_of INVALID (xs @ ys)"
    and old: "\<forall>j ob. cells t j = Some ob \<longrightarrow> (\<exists>ob'. cells t2 j = Some ob' \<and>
        obj_data ob' = obj_data ob \<and> obj_key ob' = obj_key ob \<and>
        obj_next ob' = (if j = last_of INVALID xs \<and> xs \<noteq> [] then first_of INVALID ys else obj_next ob) \<and>
        obj_prev ob' = (if j = first_of INVALID ys \<and> ys \<noteq> [] then last_of INVALID xs else obj_prev ob) \<and>
        (obj_key ob \<noteq> k \<longrightarrow> ob' = ob))"
    using unlink_ok [OF ok ck h] unfolding links ob(3) Option.bind_eq_Some_conv by blast
  let ?t3 = "log_event (has_free_func t2) (ObjFree (obj_data ob)) t2"
  have live2: "ids_live ?t3 = ids_live t" using u(1) by (simp add: ids_live_def)
  have "pool_ok (objs ?t3)" using ok u(1) by (simp add: handler_ok_def)
  then obtain p where p: "pool_release i ?t3 = Some (?t3\<lparr>objs := p\<rparr>)" "pool_ok p"
    "pool_live p = ids_live t - {i}"
    using pool_release_ok [of ?t3 i] live live2 by auto
  let ?t = "?t3\<lparr>objs := p\<rparr>"
  have "fcitx_handler_table_remove_by_id i t = Some ?t"
    using live t1 t2 p(1) by (simp add: fcitx_handler_table_remove_by_id_def ob(1) Let_def)
  moreover have "handler_ok ?t (c(k := xs @ ys))"
  proof (rule handler_ok_remove [OF ok ck])
    fix j oj assume j: "j \<in> ids_live ?t" "cells t j = Some oj"
    then have "j \<noteq> INVALID" using p(3) live_nonneg [OF ok, of j] by simp
    then have "j = last_of INVALID xs \<Longrightarrow> xs \<noteq> []" "j = first_of INVALID ys \<Longrightarrow> ys \<noteq> []" by auto
    with old j show "\<exists>ob'. cells ?t j = Some ob' \<and> obj_key ob' = obj_key oj \<and>
        obj_next ob' = (if j = last_of INVALID xs then first_of INVALID ys else obj_next oj) \<and>
        obj_prev ob' = (if j = first_of INVALID ys then last_of INVALID xs else obj_prev oj) \<and>
        (obj_key oj \<noteq> k \<longrightarrow> ob' = oj)"
      by (fastforce simp del: first_of_simps last_of_simps)
  qed (use u p in simp_all)
  moreover have "data_of ?t j = data_of t j" if j: "j \<in> ids_live ?t" for j
  proof -
    have "j \<in> ids_live t" using j p(3) by simp
    then obtain k' where "j \<in> set (c k')" using ok by (auto simp: handler_ok_def)
    then obtain oj where "cells t j = Some oj" using chain_obj [OF ok] by blast
    with old show ?thesis by (fastforce simp: data_of_def)
  qed
  moreover have "has_free_func t2 = has_free_func t" using u(3) by (simp add: same_env_def)
  ultimately show ?thesis
    using u(2,3,4) p(3) ob(2) by (simp add: data_of_def)
qed

definition obj_events :: "('k, 'a) handler_table \<Rightarrow> int list \<Rightarrow> ('k, 'a) handler_event list" where
  "obj_events t is = (if has_free_func t then map (\<lambda>i. ObjFree (the (data_of t i))) is else [])"

lemma free_chain_loop_ok:
  assumes "pool_ok (objs t)" and "set is \<subseteq> ids_live t" and "INVALID \<notin> set is" and "distinct is"
    and "dl (nx t) (pv t) q is INVALID" and "\<forall>i \<in> set is. cells t i \<noteq> None" and "length is < n"
  shows "\<exists>p ev. free_chain_loop n (first_of INVALID is) t = Some (t\<lparr>objs := p, events := ev\<rparr>) \<and>
     pool_ok p \<and> pool_live p = ids_live t - set is \<and> ev = events t @ obj_events t is"
  using assms
proof (induction "is" arbitrary: n t q)
  case Nil
  then show ?case
    by (cases n) (auto simp: ids_live_def obj_events_def intro!: exI [of _ "objs t"])
next
  case (Cons i "is")
  then obtain m where m: "n = Suc m" by (cases n) auto
  obtain ob where ob: "cells t i = Some ob" "fcitx_handler_table_get_obj i t = Some ob"
    using Cons.prems by (auto simp: get_obj_live)
  have nxt: "obj_next ob = first_of INVALID is" using Cons.prems(5) ob by (simp add: nx_def)
  let ?t1 = "log_event (has_free_func t) (ObjFree (obj_data ob)) t"
  obtain p1 where p1: "pool_release i ?t1 = Some (?t1\<lparr>objs := p1\<rparr>)" "pool_ok p1"
    "pool_live p1 = ids_live t - {i}"
    using pool_release_ok [of ?t1 i] Cons.prems by auto
  let ?t2 = "?t1\<lparr>objs := p1\<rparr>"
  have same: "nx ?t2 = nx t" "pv ?t2 = pv t" "data_of ?t2 = data_of t"
    by (simp_all add: nx_def pv_def data_of_def fun_eq_iff)
  have "\<exists>p ev. free_chain_loop m (first_of INVALID is) ?t2 = Some (?t2\<lparr>objs := p, events := ev\<rparr>) \<and>
     pool_ok p \<and> pool_live p = ids_live ?t2 - set is \<and> ev = events ?t2 @ obj_events ?t2 is"
    using Cons.prems p1 m same by (intro Cons.IH [where q = i]) auto
  then obtain p where p: "free_chain_loop m (first_of INVALID is) ?t2 =
      Some (?t2\<lparr>objs := p, events := events ?t2 @ obj_events ?t2 is\<rparr>)"
    "pool_ok p" "pool_live p = ids_live t - {i} - set is" using p1 by auto
  have "free_chain_loop n (first_of INVALID (i # is)) t =
      Some (?t2\<lparr>objs := p, events := events ?t2 @ obj_events ?t2 is\<rparr>)"
    using Cons.prems(3) by (simp add: m ob(2) p1(1) nxt p(1))
  also have "?t2\<lparr>objs := p, events := events ?t2 @ obj_events ?t2 is\<rparr> =
      t\<lparr>objs := p, events := events t @ obj_events t (i # is)\<rparr>"
    using ob(1) by (simp add: log_event_def obj_events_def data_of_def)
  finally show ?case using p(2,3) by auto
qed

lemma chain_length:
  assumes "handler_ok t c"
  shows "length (c k) < chain_fuel t"
proof -
  have "set (c k) \<subseteq> int ` {..<length (heads (objs t))}"
  proof
    fix i assume "i \<in> set (c k)"
    then have "i \<in> pool_live (objs t)" using chain_live [OF assms] by (simp add: ids_live_def)
    then show "i \<in> int ` {..<length (heads (objs t))}" by (auto simp: pool_live_def)
  qed
  then have "card (set (c k)) \<le> length (heads (objs t))"
    by (metis card_image card_lessThan card_mono finite_imageI finite_lessThan inj_on_of_nat)
  moreover have "distinct (c k)" using assms by (auto simp: handler_ok_def key_ok_def)
  ultimately show ?thesis by (simp add: distinct_card chain_fuel_def)
qed

lemma free_key_ok:
  assumes ok: "handler_ok t c" and h: "get_key k t = Some h"
    and fuel: "length (c k) < n"
  shows "\<exists>t'. fcitx_handler_table_free_key n k t = Some t' \<and> handler_ok t' (c(k := [])) \<and>
    keys t' = AList.delete k (keys t) \<and> same_env t t' \<and>
    events t' = events t @ obj_events t (c k) @ (if has_key_free t then [KeyFree k] else []) \<and>
    ids_live t' = ids_live t - set (c k) \<and> data_of t' = data_of t"
proof -
  have kk: "key_ok t k (c k)" using ok by (simp add: handler_ok_def)
  obtain p where p: "free_chain_loop n (first_of INVALID (c k)) t =
      Some (t\<lparr>objs := p, events := events t @ obj_events t (c k)\<rparr>)"
    "pool_ok p" "pool_live p = ids_live t - set (c k)"
  proof -
    have "\<exists>p ev. free_chain_loop n (first_of INVALID (c k)) t = Some (t\<lparr>objs := p, events := ev\<rparr>) \<and>
       pool_ok p \<and> pool_live p = ids_live t - set (c k) \<and> ev = events t @ obj_events t (c k)"
    proof (rule free_chain_loop_ok)
      show "pool_ok (objs t)" using ok by (simp add: handler_ok_def)
      show "set (c k) \<subseteq> ids_live t" using chain_live [OF ok] by blast
      show "\<forall>i\<in>set (c k). cells t i \<noteq> None" using chain_obj [OF ok] by fastforce
    qed (use kk fuel chain_no_invalid [OF ok] in \<open>auto simp: key_ok_def\<close>)
    then show ?thesis using that by blast
  qed
  let ?t = "log_event (has_key_free t) (KeyFree k)
      (t\<lparr>objs := p, events := events t @ obj_events t (c k), keys := AList.delete k (keys t)\<rparr>)"
  have step: "fcitx_handler_table_free_key n k t = Some ?t"
    using h key_first_last(1) [OF ok h] p(1) by (simp add: fcitx_handler_table_free_key_def)
  have f: "cells ?t = cells t" "ids_live ?t = ids_live t - set (c k)" "objs ?t = p"
    "keys ?t = AList.delete k (keys t)" "same_env t ?t"
    using p(3) by (simp_all add: ids_live_def same_env_def)
  have gk: "get_key k' ?t = (if k' = k then None else get_key k' t)" for k'
    by (simp add: get_key_def f AList.delete_conv')
  have "key_ok ?t k' ((c(k := [])) k')" for k'
  proof (cases "k' = k")
    case True
    then show ?thesis using gk [of k] by (simp add: key_ok_def)
  next
    case False
    have "key_ok t k' (c k')" using ok by (simp add: handler_ok_def)
    then have "key_ok ?t k' (c k')"
      by (rule key_ok_frame) (use False gk f(1) in simp_all)
    with False show ?thesis by simp
  qed
  moreover have "j \<in> ids_live ?t \<longleftrightarrow> (\<exists>k'. j \<in> set ((c(k := [])) k'))" for j
    unfolding f(2) chains_upd Diff_iff ids_live_split [OF ok, of j k]
    using chain_disjoint [OF ok, of j k] by auto
  moreover have "distinct (map fst (AList.delete k (keys t)))"
    using ok by (simp add: handler_ok_def AList.distinct_delete)
  ultimately have "handler_ok ?t (c(k := []))"
    using p(2) f by (simp add: handler_ok_def)
  then show ?thesis
    using step f by (auto simp: data_of_def fun_eq_iff)
qed

lemma chain_of_no_key:
  assumes "handler_ok t c" and "get_key k t = None"
  shows "c k = []"
proof -
  have "key_ok t k (c k)" using assms(1) by (simp add: handler_ok_def)
  with assms(2) show ?thesis by (simp add: key_ok_def)
qed

lemma remove_key_ok:
  assumes ok: "handler_ok t c"
  shows "\<exists>t'. fcitx_handler_table_remove_key k t = Some t' \<and> handler_ok t' (c(k := [])) \<and>
    keys t' = AList.delete k (keys t) \<and>
    events t' = events t @ obj_events t (c k) @
      (if k \<in> set (map fst (keys t)) \<and> has_key_free t then [KeyFree k] else [])"
proof (cases "get_key k t")
  case None
  then have "k \<notin> set (map fst (keys t))" by (simp add: get_key_def map_of_eq_None_iff)
  moreover have "c k = []"
    using ok None by (rule chain_of_no_key)
  moreover have "c(k := []) = c" using calculation by (simp add: fun_upd_idem)
  ultimately show ?thesis
    using ok None
    by (simp add: fcitx_handler_table_remove_key_def fcitx_handler_table_find_key_def
        AList.delete_id obj_events_def)
next
  case (Some h)
  then have "k \<in> set (map fst (keys t))" by (force simp: get_key_def dest: map_of_SomeD)
  moreover obtain t' where "fcitx_handler_table_free_key (chain_fuel t) k t = Some t'"
    "handler_ok t' (c(k := []))" "keys t' = AList.delete k (keys t)"
    "events t' = events t @ obj_events t (c k) @ (if has_key_free t then [KeyFree k] else [])"
    using free_key_ok [OF ok Some chain_length [OF ok]] by blast
  ultimately show ?thesis
    using Some
    by (simp add: fcitx_handler_table_remove_key_def fcitx_handler_table_find_key_def)
qed

lemma map_fst_delete: "map fst (AList.delete k xs) = removeAll k (map fst xs)"
  by (induction xs) (auto simp: AList.delete_eq)

text \<open>Freeing a table ends.\<close>

lemma handler_free_ok:
  "handler_ok t c \<Longrightarrow> distinct ks \<Longrightarrow> set ks \<subseteq> set (map fst (keys t)) \<Longrightarrow> \<exists>t'. free_keys ks t = Some t'"
proof (induction ks arbitrary: t c)
  case (Cons k ks)
  then have "k \<in> set (map fst (keys t))" by simp
  then obtain h where h: "get_key k t = Some h" by (auto simp: get_key_def dest: weak_map_of_SomeI)
  obtain t' where t': "fcitx_handler_table_free_key (chain_fuel t) k t = Some t'" "handler_ok t' (c(k := []))"
    "keys t' = AList.delete k (keys t)"
    using free_key_ok [OF Cons.prems(1) h chain_length [OF Cons.prems(1)]] by blast
  have "set ks \<subseteq> set (map fst (keys t'))" using Cons.prems(2,3) unfolding t'(3) map_fst_delete by auto
  with Cons.IH [OF t'(2)] Cons.prems(2) show ?case by (simp add: t'(1))
qed simp

lemma table_free_ok: "handler_ok t c \<Longrightarrow> \<exists>evs. fcitx_handler_table_free t = Some evs"
  using handler_free_ok [of t c "map fst (keys t)"] by (auto simp: fcitx_handler_table_free_def handler_ok_def)

lemma remove_by_id_full_ok:
  assumes ok: "handler_ok t c" and ck: "c k = xs @ i # ys"
  shows "\<exists>t'. fcitx_handler_table_remove_by_id_full i t = Some t' \<and>
    handler_ok t' (c(k := xs @ ys)) \<and>
    map fst (keys t') = (if xs @ ys = [] then removeAll k (map fst (keys t)) else map fst (keys t)) \<and>
    events t' = events t @ obj_events t [i] @
      (if xs @ ys = [] \<and> has_key_free t then [KeyFree k] else [])"
proof -
  obtain t1 where t1: "fcitx_handler_table_remove_by_id i t = Some t1"
    "handler_ok t1 (c(k := xs @ ys))" "map fst (keys t1) = map fst (keys t)"
    "events t1 = events t @ (if has_free_func t then [ObjFree (the (data_of t i))] else [])"
    "same_env t t1"
    using remove_by_id_ok [OF ok ck] by blast
  have i: "i \<in> set (c k)" using ck by simp
  then have kp: "fcitx_handler_table_get_key_by_id i t = Some (Some k)"
    using chain_obj [OF ok i] live_nonneg [OF ok chain_live [OF ok i]]
    by (auto simp: fcitx_handler_table_get_key_by_id_def)
  have "k \<in> set (map fst (keys t))"
    using get_key_chain [OF ok i] by (force simp: get_key_def dest: map_of_SomeD)
  then obtain h where h: "get_key k t1 = Some h"
    using t1(3) by (metis get_key_def map_of_eq_None_iff not_Some_eq list.set_map)
  have ck1: "(c(k := xs @ ys)) k = xs @ ys" by simp
  have nin: "INVALID \<notin> set (xs @ ys)" using chain_no_invalid [OF t1(2), of k] by simp
  have "fcitx_handler_key_is_empty (Some k) t1 = Some (xs @ ys = [])"
    using h key_first_last [OF t1(2) h] first_of_eq [OF nin] last_of_eq [OF nin]
    by (auto simp: fcitx_handler_key_is_empty_def simp del: first_of_simps last_of_simps)
  then have full: "fcitx_handler_table_remove_by_id_full i t =
      (if xs @ ys = [] then fcitx_handler_table_free_key (chain_fuel t1) k t1 else Some t1)"
    using kp t1(1) by (simp add: fcitx_handler_table_remove_by_id_full_def)
  show ?thesis
  proof (cases "xs @ ys = []")
    case False
    with full t1 show ?thesis by (auto simp: obj_events_def)
  next
    case True
    obtain t2 where t2: "fcitx_handler_table_free_key (chain_fuel t1) k t1 = Some t2"
      "handler_ok t2 (c(k := xs @ ys, k := []))" "keys t2 = AList.delete k (keys t1)"
      "events t2 = events t1 @ obj_events t1 (xs @ ys) @ (if has_key_free t1 then [KeyFree k] else [])"
      using free_key_ok [OF t1(2) h chain_length [OF t1(2)]] unfolding ck1 by blast
    with True full t1 t2 show ?thesis
      by (simp add: obj_events_def same_env_def map_fst_delete)
  qed
qed

section \<open>Iteration\<close>

text \<open>Following \<open>fcitx_handler_table_next\<close> from an object; fuel bounds the walk.\<close>

fun walk_next :: "nat \<Rightarrow> int option \<Rightarrow> ('k, 'a) handler_table \<Rightarrow> int list option" where
  "walk_next 0 ob t = None"
| "walk_next (Suc n) None t = Some []"
| "walk_next (Suc n) (Some i) t = do {
     ob \<leftarrow> fcitx_handler_table_next i t; is \<leftarrow> walk_next n ob t; Some (i # is) }"

fun walk_prev :: "nat \<Rightarrow> int option \<Rightarrow> ('k, 'a) handler_table \<Rightarrow> int list option" where
  "walk_prev 0 ob t = None"
| "walk_prev (Suc n) None t = Some []"
| "walk_prev (Suc n) (Some i) t = do {
     ob \<leftarrow> fcitx_handler_table_prev i t; is \<leftarrow> walk_prev n ob t; Some (i # is) }"

lemma chain_dl:
  assumes "handler_ok t c"
  shows "dl (nx t) (pv t) INVALID (c k) INVALID"
  using assms by (simp add: handler_ok_def key_ok_def)

lemma walk_next_ok:
  assumes ok: "handler_ok t c"
  shows "c k = xs @ ys \<Longrightarrow> length ys < n \<Longrightarrow>
    walk_next n (fcitx_handler_table_get_by_id (first_of INVALID ys) t) t = Some ys"
proof (induction ys arbitrary: xs n)
  case Nil
  then show ?case by (cases n) (auto simp: fcitx_handler_table_get_by_id_def)
next
  case (Cons y ys)
  then obtain m where m: "n = Suc m" by (cases n) auto
  have y: "y \<in> set (c k)" using Cons.prems by simp
  obtain ob where ob: "fcitx_handler_table_get_obj y t = Some ob" "cells t y = Some ob"
    using chain_obj [OF ok y] by blast
  have "obj_next ob = first_of INVALID ys"
    using chain_dl [OF ok, of k] Cons.prems(1) ob(2) by (auto simp: nx_def dest: dl_at)
  then have "fcitx_handler_table_next y t =
      Some (fcitx_handler_table_get_by_id (first_of INVALID ys) t)"
    using ob by (simp add: fcitx_handler_table_next_def fcitx_handler_table_next_id_def)
  moreover have "y \<noteq> INVALID" using chain_no_invalid [OF ok, of k] y by auto
  ultimately show ?case
    using Cons.IH [of "xs @ [y]" m] Cons.prems m by (simp add: fcitx_handler_table_get_by_id_def)
qed

lemma walk_prev_ok:
  assumes ok: "handler_ok t c"
  shows "c k = xs @ ys \<Longrightarrow> length xs < n \<Longrightarrow>
    walk_prev n (fcitx_handler_table_get_by_id (last_of INVALID xs) t) t = Some (rev xs)"
proof (induction xs arbitrary: ys n rule: rev_induct)
  case Nil
  then show ?case by (cases n) (auto simp: fcitx_handler_table_get_by_id_def)
next
  case (snoc x xs)
  then obtain m where m: "n = Suc m" by (cases n) auto
  have x: "x \<in> set (c k)" using snoc.prems by simp
  obtain ob where ob: "fcitx_handler_table_get_obj x t = Some ob" "cells t x = Some ob"
    using chain_obj [OF ok x] by blast
  have "obj_prev ob = last_of INVALID xs"
    using chain_dl [OF ok, of k] snoc.prems(1) ob(2) by (auto simp: pv_def dest: dl_at)
  then have "fcitx_handler_table_prev x t =
      Some (fcitx_handler_table_get_by_id (last_of INVALID xs) t)"
    using ob by (simp add: fcitx_handler_table_prev_def fcitx_handler_table_prev_id_def)
  moreover have "x \<noteq> INVALID" using chain_no_invalid [OF ok, of k] x by auto
  ultimately show ?case
    using snoc.IH [of "x # ys" m] snoc.prems m by (simp add: fcitx_handler_table_get_by_id_def)
qed

lemma table_first_last:
  assumes ok: "handler_ok t c"
  shows "fcitx_handler_table_first_id k t = first_of INVALID (c k)"
    "fcitx_handler_table_last_id k t = last_of INVALID (c k)"
proof -
  have "key_ok t k (c k)" using ok by (simp add: handler_ok_def)
  then show "fcitx_handler_table_first_id k t = first_of INVALID (c k)"
    "fcitx_handler_table_last_id k t = last_of INVALID (c k)"
    by (auto simp: key_ok_def fcitx_handler_table_first_id_def fcitx_handler_table_last_id_def
        split: option.splits)
qed

section \<open>Destruction\<close>

lemma free_keys_ok:
  "handler_ok t c \<Longrightarrow> map fst (keys t) = ks \<Longrightarrow>
   \<exists>t'. free_keys ks t = Some t' \<and> ids_live t' = {} \<and>
     events t' = events t @ concat (map (\<lambda>k. obj_events t (c k) @
       (if has_key_free t then [KeyFree k] else [])) ks)"
proof (induction ks arbitrary: t c)
  case Nil
  then have "get_key k t = None" for k by (simp add: get_key_def)
  then have "c k = []" for k
    using Nil.prems(1) by (simp add: chain_of_no_key)
  then have "ids_live t = {}" using Nil.prems(1) by (auto simp: handler_ok_def)
  then show ?case by simp
next
  case (Cons k ks)
  then have dist: "distinct (k # ks)" by (metis handler_ok_def)
  have "k \<in> set (map fst (keys t))" using Cons.prems(2) by simp
  then obtain h where h: "get_key k t = Some h"
    by (metis get_key_def map_of_eq_None_iff not_Some_eq list.set_map)
  obtain t1 where t1: "fcitx_handler_table_free_key (chain_fuel t) k t = Some t1"
    "handler_ok t1 (c(k := []))" "keys t1 = AList.delete k (keys t)" "same_env t t1"
    "events t1 = events t @ obj_events t (c k) @ (if has_key_free t then [KeyFree k] else [])"
    "data_of t1 = data_of t"
    using free_key_ok [OF Cons.prems(1) h chain_length [OF Cons.prems(1)]] by blast
  have "map fst (keys t1) = ks"
    using Cons.prems(2) dist by (simp add: t1(3) map_fst_delete removeAll_id)
  from Cons.IH [OF t1(2) this] obtain t' where t': "free_keys ks t1 = Some t'" "ids_live t' = {}"
    "events t' = events t1 @ concat (map (\<lambda>k'. obj_events t1 ((c(k := [])) k') @
       (if has_key_free t1 then [KeyFree k'] else [])) ks)" by blast
  have maps: "map (\<lambda>k'. obj_events t1 ((c(k := [])) k') @ (if has_key_free t1 then [KeyFree k'] else [])) ks =
      map (\<lambda>k'. obj_events t (c k') @ (if has_key_free t then [KeyFree k'] else [])) ks"
    using dist t1(4,6) by (auto simp: obj_events_def same_env_def)
  with t1(1,5) t'(1,2) t'(3) [unfolded maps] show ?case by simp
qed


lemma new_ok:
  assumes "4 * align_to (sz + 20) 4 \<le> 2 ^ 32"
  shows "\<exists>t. fcitx_handler_table_new_with_keydata sz ff ki kf = Some t \<and> handler_ok t (\<lambda>_. []) \<and>
    keys t = [] \<and> events t = [] \<and> pool_room (objs t)"
proof -
  obtain p where p: "fcitx_obj_pool_init_with_prealloc (sz + 16) 4 = Some p" "pool_ok p"
    "pool_live p = {}" "next_free p = 0"
    using pool_init_ok [of 4 "sz + 16"] assms by (auto simp: add.commute)
  then show ?thesis
    by (simp add: fcitx_handler_table_new_with_keydata_def fcitx_obj_pool_new_def
        FCITX_OBJ_POOL_INIT_SIZE_def handler_ok_def key_ok_def get_key_def ids_live_def pool_room_def)
qed

section \<open>Properties\<close>

text \<open>C1: Adding an object under a key succeeds while the pool has room: it gets an id that no
  object of the table has, goes to the end (or, prepended, to the front) of the chain of its key,
  which is created when it is missing, and every other chain and object is as before.\<close>

theorem handler_table_add:
  assumes "handler_ok t c" and "pool_room (objs t)"
  shows "(\<exists>i t'. fcitx_handler_table_append k a t = Some (i, t') \<and> (\<forall>k'. i \<notin> set (c k')) \<and>
      handler_ok t' (c(k := c k @ [i])) \<and> data_of t' i = Some a \<and>
      (\<forall>j \<in> ids_live t. data_of t' j = data_of t j)) \<and>
    (\<exists>i t'. fcitx_handler_table_prepend k a t = Some (i, t') \<and> (\<forall>k'. i \<notin> set (c k')) \<and>
      handler_ok t' (c(k := i # c k)) \<and> data_of t' i = Some a \<and>
      (\<forall>j \<in> ids_live t. data_of t' j = data_of t j))"
  using table_append_ok [OF assms, of k a] table_prepend_ok [OF assms, of k a]
    chain_live [OF assms(1)] by blast

text \<open>A table with one key and one object, for the witnesses.\<close>

definition one_obj :: "(nat, nat) handler_table" where
  "one_obj = \<lparr>keys = [(7, \<lparr>first_id = 0, last_id = 0\<rparr>)],
     objs = \<lparr>heads = [- 2, 2, 3, - 1], ele_size = 24, next_free = 1\<rparr>,
     cells = [0 \<mapsto> \<lparr>obj_prev = - 1, obj_next = - 1, obj_key = 7, obj_data = 5\<rparr>],
     has_free_func = True, has_key_init = False, has_key_free = True, events = []\<rparr>"

definition one_chain :: "nat \<Rightarrow> int list" where
  "one_chain = (\<lambda>_. [])(7 := [0])"

lemma one_obj_ok: "handler_ok one_obj one_chain"
proof -
  have "pool_ok (objs one_obj)"
  proof (rule pool_okI [where fs = "[1, 2, 3]"])
    fix i assume "i < length (heads (objs one_obj))"
    then have "i = 0 \<or> i = 1 \<or> i = 2 \<or> i = 3" by (auto simp: one_obj_def)
    then show "heads (objs one_obj) ! i = FCITX_OBJECT_POOL_ALLOCED_ID \<longleftrightarrow> i \<notin> set [1, 2, 3]"
      by (auto simp: one_obj_def pool_ids)
  qed (simp_all add: one_obj_def alloc_bytes_def pool_ids)
  moreover have "i \<in> ids_live one_obj \<longleftrightarrow> i = 0" for i
  proof -
    have "nat i < 4 \<longleftrightarrow> nat i = 0 \<or> nat i = 1 \<or> nat i = 2 \<or> nat i = 3" by auto
    then show ?thesis by (auto simp: ids_live_def pool_live_iff one_obj_def pool_ids)
  qed
  moreover have "key_ok one_obj k (one_chain k)" for k
    by (cases "k = 7") (simp_all add: key_ok_def get_key_def one_obj_def one_chain_def
        INVALID_def pool_ids nx_def pv_def)
  moreover have "(\<exists>k. i \<in> set (one_chain k)) \<longleftrightarrow> i = 0" for i
    by (auto simp: one_chain_def split: if_splits)
  moreover have "distinct (map fst (keys one_obj))" by (simp add: one_obj_def)
  ultimately show ?thesis unfolding handler_ok_def by simp
qed

theorem handler_table_add_witness:
  "(\<exists>i t'. fcitx_handler_table_append 7 9 one_obj = Some (i, t') \<and>
      (\<forall>k'. i \<notin> set (one_chain k')) \<and>
      handler_ok t' (one_chain(7 := one_chain 7 @ [i])) \<and> data_of t' i = Some 9 \<and>
      (\<forall>j \<in> ids_live one_obj. data_of t' j = data_of one_obj j)) \<and>
    (\<exists>i t'. fcitx_handler_table_prepend 7 9 one_obj = Some (i, t') \<and>
      (\<forall>k'. i \<notin> set (one_chain k')) \<and>
      handler_ok t' (one_chain(7 := i # one_chain 7)) \<and> data_of t' i = Some 9 \<and>
      (\<forall>j \<in> ids_live one_obj. data_of t' j = data_of one_obj j))"
  by (rule handler_table_add [OF one_obj_ok]) (simp add: pool_room_def one_obj_def)

text \<open>C2: Removing an object by its id unlinks exactly that object, passes its data to the free
  function when there is one, and keeps the key; the full form drops the key as well when the chain
  becomes empty.\<close>

theorem handler_table_remove_obj:
  assumes "handler_ok t c" and "c k = xs @ i # ys"
  shows "(\<exists>t'. fcitx_handler_table_remove_by_id i t = Some t' \<and> handler_ok t' (c(k := xs @ ys)) \<and>
      map fst (keys t') = map fst (keys t) \<and> events t' = events t @ obj_events t [i]) \<and>
    (\<exists>t'. fcitx_handler_table_remove_by_id_full i t = Some t' \<and> handler_ok t' (c(k := xs @ ys)) \<and>
      map fst (keys t') = (if xs @ ys = [] then removeAll k (map fst (keys t)) else map fst (keys t)) \<and>
      events t' = events t @ obj_events t [i] @
        (if xs @ ys = [] \<and> has_key_free t then [KeyFree k] else []))"
proof -
  have "(if has_free_func t then [ObjFree (the (data_of t i))] else []) = obj_events t [i]"
    by (simp add: obj_events_def)
  note one = remove_by_id_ok [OF assms, unfolded this]
  show ?thesis
    using one remove_by_id_full_ok [OF assms] by blast
qed

theorem handler_table_remove_obj_witness:
  "(\<exists>t'. fcitx_handler_table_remove_by_id 0 one_obj = Some t' \<and>
      handler_ok t' (one_chain(7 := [] @ [])) \<and>
      map fst (keys t') = map fst (keys one_obj) \<and>
      events t' = events one_obj @ obj_events one_obj [0]) \<and>
    (\<exists>t'. fcitx_handler_table_remove_by_id_full 0 one_obj = Some t' \<and>
      handler_ok t' (one_chain(7 := [] @ [])) \<and>
      map fst (keys t') = (if [] @ [] = ([] :: int list) then removeAll 7 (map fst (keys one_obj))
        else map fst (keys one_obj)) \<and>
      events t' = events one_obj @ obj_events one_obj [0] @
        (if [] @ [] = ([] :: int list) \<and> has_key_free one_obj then [KeyFree 7] else []))"
  by (rule handler_table_remove_obj [OF one_obj_ok]) (simp add: one_chain_def)

text \<open>From the first object of a key, following \<open>next\<close> visits the chain of the key in order and
  ends; from the last one, following \<open>prev\<close> visits it backwards.\<close>

theorem handler_table_iterate:
  assumes "handler_ok t c"
  shows "walk_next (chain_fuel t) (fcitx_handler_table_first k t) t = Some (c k) \<and>
    walk_prev (chain_fuel t) (fcitx_handler_table_last k t) t = Some (rev (c k))"
  using walk_next_ok [OF assms, of k "[]" "c k"] walk_prev_ok [OF assms, of k "c k" "[]"]
    chain_length [OF assms, of k] table_first_last [OF assms, of k]
  by (simp add: fcitx_handler_table_first_def fcitx_handler_table_last_def)

theorem handler_table_iterate_witness:
  "walk_next (chain_fuel one_obj) (fcitx_handler_table_first 7 one_obj) one_obj =
      Some (one_chain 7) \<and>
    walk_prev (chain_fuel one_obj) (fcitx_handler_table_last 7 one_obj) one_obj =
      Some (rev (one_chain 7))"
  by (rule handler_table_iterate [OF one_obj_ok])

text \<open>Removing a key frees its objects in chain order and the key after them, and nothing else.
  Freeing the table does so for every key in insertion order: each live object is freed exactly once
  and none is left.\<close>

theorem handler_table_remove_and_free:
  assumes "handler_ok t c"
  shows "(\<exists>t'. fcitx_handler_table_remove_key k t = Some t' \<and> handler_ok t' (c(k := [])) \<and>
      events t' = events t @ obj_events t (c k) @
        (if k \<in> set (map fst (keys t)) \<and> has_key_free t then [KeyFree k] else [])) \<and>
    fcitx_handler_table_free t = Some (events t @ concat (map (\<lambda>k. obj_events t (c k) @
        (if has_key_free t then [KeyFree k] else [])) (map fst (keys t))))"
proof -
  obtain t' where "free_keys (map fst (keys t)) t = Some t'"
    "events t' = events t @ concat (map (\<lambda>k. obj_events t (c k) @
       (if has_key_free t then [KeyFree k] else [])) (map fst (keys t)))"
    using free_keys_ok [OF assms refl] by blast
  then have "fcitx_handler_table_free t = Some (events t @ concat (map (\<lambda>k. obj_events t (c k) @
        (if has_key_free t then [KeyFree k] else [])) (map fst (keys t))))"
    unfolding fcitx_handler_table_free_def by simp
  then show ?thesis
    using remove_key_ok [OF assms, of k] by blast
qed

theorem handler_table_remove_and_free_witness:
  "(\<exists>t'. fcitx_handler_table_remove_key 7 one_obj = Some t' \<and>
      handler_ok t' (one_chain(7 := [])) \<and>
      events t' = events one_obj @ obj_events one_obj (one_chain 7) @
        (if 7 \<in> set (map fst (keys one_obj)) \<and> has_key_free one_obj then [KeyFree 7] else [])) \<and>
    fcitx_handler_table_free one_obj = Some (events one_obj @ concat (map (\<lambda>k.
        obj_events one_obj (one_chain k) @
        (if has_key_free one_obj then [KeyFree k] else [])) (map fst (keys one_obj))))"
  by (rule handler_table_remove_and_free [OF one_obj_ok])

text \<open>The full removal of the invalid id dereferences the NULL key it was given.\<close>

lemma remove_invalid_full: "fcitx_handler_table_remove_by_id_full INVALID t = None"
  by (simp add: fcitx_handler_table_remove_by_id_full_def fcitx_handler_table_get_key_by_id_def
      fcitx_handler_table_remove_by_id_def fcitx_handler_key_is_empty_def)

end
