(* ===== verification/MainLoop.thy ===== *)
theory MainLoop
  imports LinkedList HandlerTable
begin

text \<open>
  The main loop, \<open>src/lib/fcitx-utils/mainloop.c\<close>: timeouts on an intrusive list, input and output events
  in a handler table, one iteration of prepare, poll and dispatch.

  Timeout events are named by their addresses, which are never used twice; the head of their list has the
  address 1.  An input event lies in the pool of the handler table, so its pointer is its id with the
  capacity of the pool at that time: the pool moves its objects when it grows, and a pointer from before
  is dangling.  \<open>now\<close> gives the answers of the clock, by the number of the request; the clock and the
  making of the pipe do not fail.
  \<open>None\<close> is the use of a dangling pointer.

  What a callback does is the argument \<open>call\<close>, from the call to the change of the loop.  Calls, and the
  destruction of user data, are logged in \<open>calls\<close>.  Destruction does not change the loop.
\<close>

section \<open>State\<close>

record poll_key =
  pk_fd :: int
  pk_flag :: u32

record io_event =
  ie_callback :: nat
  ie_fd :: int
  ie_destroy :: bool
  ie_userdata :: nat
  ie_id :: int
  ie_refcount :: int

record timeout_event =
  te_callback :: nat
  te_timeout :: u32
  te_repeat :: bool
  te_time :: int
  te_userdata :: nat
  te_destroy :: bool
  te_refcount :: int

record pollfd =
  pfd_fd :: int
  pfd_events :: u32
  pfd_revents :: u32

datatype loop_call =
    On_Timeout nat nat nat
  | On_IO "int \<times> nat" nat int u32 nat
  | Destroyed nat

record mainloop =
  ioHandler :: "(poll_key, io_event) handler_table"
  timers :: links
  timeouts :: "nat \<Rightarrow> timeout_event option"
  next_addr :: nat
  nextTimeout :: int
  rebuildPollfds :: bool
  pollfds :: "pollfd list"
  quit :: bool
  wakeups :: nat
  pollRet :: int
  now :: "nat \<Rightarrow> int"
  ticks :: nat
  calls :: "loop_call list"

definition log_call :: "loop_call \<Rightarrow> mainloop \<Rightarrow> mainloop" where
  "log_call c m = m\<lparr>calls := calls m @ [c]\<rparr>"

definition get_time :: "mainloop \<Rightarrow> int \<times> mainloop" where
  "get_time m = (now m (ticks m), m\<lparr>ticks := ticks m + 1\<rparr>)"

definition fcitx_mainloop_wakeup :: "mainloop \<Rightarrow> mainloop" where
  "fcitx_mainloop_wakeup m = m\<lparr>wakeups := wakeups m + 1\<rparr>"

section \<open>Flags\<close>

definition FIOEF_IN :: u32 where "FIOEF_IN = 1"
definition FIOEF_OUT :: u32 where "FIOEF_OUT = 2"
definition FIOEF_ERR :: u32 where "FIOEF_ERR = 4"
definition FIOEF_HUP :: u32 where "FIOEF_HUP = 8"

text \<open>The flags of \<open>poll\<close>.\<close>

definition POLLIN :: u32 where "POLLIN = 1"
definition POLLOUT :: u32 where "POLLOUT = 4"
definition POLLERR :: u32 where "POLLERR = 8"
definition POLLHUP :: u32 where "POLLHUP = 16"

lemmas loop_flags = FIOEF_IN_def FIOEF_OUT_def FIOEF_ERR_def FIOEF_HUP_def POLLIN_def POLLOUT_def POLLERR_def POLLHUP_def

definition fcitx_io_event_flag_to_libc_flag :: "u32 \<Rightarrow> u32" where
  "fcitx_io_event_flag_to_libc_flag flag =
     (if flag AND FIOEF_IN \<noteq> 0 then POLLIN else 0) OR (if flag AND FIOEF_OUT \<noteq> 0 then POLLOUT else 0) OR
     (if flag AND FIOEF_ERR \<noteq> 0 then POLLERR else 0) OR (if flag AND FIOEF_HUP \<noteq> 0 then POLLHUP else 0)"

definition fcitx_io_event_flag_from_libc_flag :: "u32 \<Rightarrow> u32" where
  "fcitx_io_event_flag_from_libc_flag flag =
     (if flag AND POLLIN \<noteq> 0 then FIOEF_IN else 0) OR (if flag AND POLLOUT \<noteq> 0 then FIOEF_OUT else 0) OR
     (if flag AND POLLERR \<noteq> 0 then FIOEF_ERR else 0) OR (if flag AND POLLHUP \<noteq> 0 then FIOEF_HUP else 0)"

section \<open>Timeout events\<close>

definition put_timeout :: "nat \<Rightarrow> timeout_event \<Rightarrow> mainloop \<Rightarrow> mainloop" where
  "put_timeout e ev m = m\<lparr>timeouts := (timeouts m)(e \<mapsto> ev)\<rparr>"

definition fcitx_timeout_event_ref :: "nat \<Rightarrow> mainloop \<Rightarrow> mainloop option" where
  "fcitx_timeout_event_ref e m = do {
     ev \<leftarrow> timeouts m e;
     Some (put_timeout e (ev\<lparr>te_refcount := te_refcount ev + 1\<rparr>) m) }"

text \<open>With the count before.\<close>

definition fcitx_timeout_event_unref :: "nat \<Rightarrow> mainloop \<Rightarrow> (int \<times> mainloop) option" where
  "fcitx_timeout_event_unref e m = do {
     ev \<leftarrow> timeouts m e;
     Some (te_refcount ev, put_timeout e (ev\<lparr>te_refcount := te_refcount ev - 1\<rparr>) m) }"

definition set_time_event :: "nat \<Rightarrow> mainloop \<Rightarrow> mainloop option" where
  "set_time_event e m = do {
     ev \<leftarrow> timeouts m e;
     if te_timeout ev = 0 then Some (put_timeout e (ev\<lparr>te_time := 0\<rparr>) m)
     else
       let (t, m) = get_time m
       in Some (put_timeout e (ev\<lparr>te_time := t + uint (te_timeout ev)\<rparr>) m) }"

text \<open>The successor in the list, read from the event.\<close>

definition next_timeout :: "nat \<Rightarrow> mainloop \<Rightarrow> nat option" where
  "next_timeout e m = (if e \<noteq> 1 \<and> timeouts m e = None then None else get_next e (timers m))"

definition fcitx_mainloop_register_timeout_event ::
  "u32 \<Rightarrow> bool \<Rightarrow> nat \<Rightarrow> bool \<Rightarrow> nat \<Rightarrow> mainloop \<Rightarrow> (nat \<times> mainloop) option" where
  "fcitx_mainloop_register_timeout_event timeout repeat callback freeFunc userdata m = do {
     let e = next_addr m;
     let m = put_timeout e \<lparr>te_callback = 0, te_timeout = timeout, te_repeat = False, te_time = 0, te_userdata = 0,
       te_destroy = False, te_refcount = 0\<rparr> (m\<lparr>next_addr := e + 1\<rparr>);
     m \<leftarrow> set_time_event e m;
     ev \<leftarrow> timeouts m e;
     let m = put_timeout e (ev\<lparr>te_repeat := repeat, te_destroy := freeFunc, te_userdata := userdata,
       te_callback := callback, te_refcount := 1\<rparr>) m;
     l \<leftarrow> fcitx_list_prepend e 1 (timers m);
     Some (e, fcitx_mainloop_wakeup (m\<lparr>timers := l\<rparr>)) }"

definition fcitx_mainloop_remove_timeout_event :: "nat \<Rightarrow> mainloop \<Rightarrow> mainloop option" where
  "fcitx_mainloop_remove_timeout_event e m = do {
     (count, m) \<leftarrow> fcitx_timeout_event_unref e m;
     if count \<noteq> 1 then Some m
     else do {
       l \<leftarrow> fcitx_list_remove e (timers m);
       let m = m\<lparr>timers := l\<rparr>;
       ev \<leftarrow> timeouts m e;
       let m = (if te_destroy ev then log_call (Destroyed (te_userdata ev)) m else m);
       Some (m\<lparr>timeouts := (timeouts m)(e := None)\<rparr>) }}"

type_synonym behaviour = "loop_call \<Rightarrow> mainloop \<Rightarrow> mainloop option"

text \<open>The loop over the list; the fuel bounds its length.\<close>

fun dispatch_timeout_loop :: "nat \<Rightarrow> behaviour \<Rightarrow> int \<Rightarrow> nat \<Rightarrow> mainloop \<Rightarrow> mainloop option" where
  "dispatch_timeout_loop 0 call t event m = None"
| "dispatch_timeout_loop (Suc n) call t event m =
     (if event = 1 then Some m
      else if quit m then Some m
      else do {
        ev \<leftarrow> timeouts m event;
        if te_time ev < t
        then do {
          m \<leftarrow> fcitx_timeout_event_ref event m;
          let c = On_Timeout event (te_callback ev) (te_userdata ev);
          m \<leftarrow> call c (log_call c m);
          succ \<leftarrow> next_timeout event m;
          (count, m) \<leftarrow> fcitx_timeout_event_unref event m;
          m \<leftarrow> (if count = 1
             then do {
               m \<leftarrow> fcitx_timeout_event_ref event m;
               fcitx_mainloop_remove_timeout_event event m }
             else do {
               ev \<leftarrow> timeouts m event;
               if te_repeat ev then set_time_event event m else fcitx_mainloop_remove_timeout_event event m });
          dispatch_timeout_loop n call t succ m }
        else do {
          succ \<leftarrow> next_timeout event m;
          dispatch_timeout_loop n call t succ m }})"

text \<open>The list is never longer than the number of addresses that were used, which is the bound.\<close>

definition fcitx_mainloop_dispatch_timeout :: "behaviour \<Rightarrow> mainloop \<Rightarrow> mainloop option" where
  "fcitx_mainloop_dispatch_timeout call m =
     (let (t, m) = get_time m in do {
        event \<leftarrow> next_timeout 1 m;
        dispatch_timeout_loop (next_addr m + 1) call t event m })"

section \<open>Input and output events\<close>

text \<open>A pointer into the pool, and what it points to.\<close>

definition io_pointer :: "int \<Rightarrow> mainloop \<Rightarrow> int \<times> nat" where
  "io_pointer i m = (i, length (heads (objs (ioHandler m))))"

definition io_get :: "int \<times> nat \<Rightarrow> mainloop \<Rightarrow> io_event option" where
  "io_get p m =
     (if snd p = length (heads (objs (ioHandler m)))
      then map_option obj_data (fcitx_handler_table_get_obj (fst p) (ioHandler m))
      else None)"

definition io_put :: "int \<times> nat \<Rightarrow> io_event \<Rightarrow> mainloop \<Rightarrow> mainloop option" where
  "io_put p ev m =
     (if snd p = length (heads (objs (ioHandler m)))
      then do {
        ob \<leftarrow> fcitx_handler_table_get_obj (fst p) (ioHandler m);
        Some (m\<lparr>ioHandler := put_obj (fst p) (ob\<lparr>obj_data := ev\<rparr>) (ioHandler m)\<rparr>) }
      else None)"

definition fcitx_io_event_ref :: "int \<times> nat \<Rightarrow> mainloop \<Rightarrow> mainloop option" where
  "fcitx_io_event_ref p m = do {
     ev \<leftarrow> io_get p m;
     io_put p (ev\<lparr>ie_refcount := ie_refcount ev + 1\<rparr>) m }"

definition fcitx_io_event_unref :: "int \<times> nat \<Rightarrow> mainloop \<Rightarrow> (int \<times> mainloop) option" where
  "fcitx_io_event_unref p m = do {
     ev \<leftarrow> io_get p m;
     m \<leftarrow> io_put p (ev\<lparr>ie_refcount := ie_refcount ev - 1\<rparr>) m;
     Some (ie_refcount ev, m) }"

text \<open>The callbacks of the handler table: a key that comes or goes asks for new poll descriptors, and an
  object that goes destroys its user data.\<close>

fun handler_callback :: "(poll_key, io_event) handler_event \<Rightarrow> mainloop \<Rightarrow> mainloop" where
  "handler_callback (KeyInit k) m = m\<lparr>rebuildPollfds := True\<rparr>"
| "handler_callback (KeyFree k) m = m\<lparr>rebuildPollfds := True\<rparr>"
| "handler_callback (ObjFree ev) m = (if ie_destroy ev then log_call (Destroyed (ie_userdata ev)) m else m)"

definition put_handler :: "(poll_key, io_event) handler_table \<Rightarrow> mainloop \<Rightarrow> mainloop" where
  "put_handler t m =
     (fold handler_callback (drop (length (events (ioHandler m))) (events t)) m)\<lparr>ioHandler := t\<rparr>"

definition fcitx_mainloop_register_io_event ::
  "int \<Rightarrow> u32 \<Rightarrow> nat \<Rightarrow> bool \<Rightarrow> nat \<Rightarrow> mainloop \<Rightarrow> ((int \<times> nat) \<times> mainloop) option" where
  "fcitx_mainloop_register_io_event fd flag callback freeFunc userdata m = do {
     let ev = \<lparr>ie_callback = callback, ie_fd = fd, ie_destroy = freeFunc, ie_userdata = userdata, ie_id = 0, ie_refcount = 1\<rparr>;
     let key = \<lparr>pk_fd = fd, pk_flag = fcitx_io_event_flag_to_libc_flag flag\<rparr>;
     (i, t) \<leftarrow> fcitx_handler_table_append key ev (ioHandler m);
     let m = put_handler t m;
     j \<leftarrow> fcitx_handler_table_get_by_id i t;
     let p = io_pointer j m;
     ev \<leftarrow> io_get p m;
     m \<leftarrow> io_put p (ev\<lparr>ie_id := i\<rparr>) m;
     Some (p, fcitx_mainloop_wakeup m) }"

definition fcitx_mainloop_remove_io_event :: "int \<times> nat \<Rightarrow> mainloop \<Rightarrow> mainloop option" where
  "fcitx_mainloop_remove_io_event p m = do {
     (count, m) \<leftarrow> fcitx_io_event_unref p m;
     if count \<noteq> 1 then Some m
     else do {
       ev \<leftarrow> io_get p m;
       t \<leftarrow> fcitx_handler_table_remove_by_id_full (ie_id ev) (ioHandler m);
       Some (put_handler t m) }}"

definition io_next :: "int \<times> nat \<Rightarrow> mainloop \<Rightarrow> (int \<times> nat) option option" where
  "io_next p m =
     (if snd p = length (heads (objs (ioHandler m)))
      then do {
        n \<leftarrow> fcitx_handler_table_next (fst p) (ioHandler m);
        Some (map_option (\<lambda>i. io_pointer i m) n) }
      else None)"

text \<open>The events of one descriptor; the fuel bounds them, and \<open>None\<close> is also that it was too small.\<close>

fun dispatch_events :: "nat \<Rightarrow> behaviour \<Rightarrow> u32 \<Rightarrow> (int \<times> nat) option \<Rightarrow> mainloop \<Rightarrow> mainloop option" where
  "dispatch_events 0 call revents event m = None"
| "dispatch_events (Suc n) call revents event m =
     (case event of
        None \<Rightarrow> Some m
      | Some p \<Rightarrow> do {
          m \<leftarrow> fcitx_io_event_ref p m;
          ev \<leftarrow> io_get p m;
          let c = On_IO p (ie_callback ev) (ie_fd ev) (fcitx_io_event_flag_from_libc_flag revents) (ie_userdata ev);
          m \<leftarrow> call c (log_call c m);
          (count, m) \<leftarrow> fcitx_io_event_unref p m;
          (succ, m) \<leftarrow> (if count = 1
             then do {
               m \<leftarrow> fcitx_io_event_ref p m;
               succ \<leftarrow> io_next p m;
               m \<leftarrow> fcitx_mainloop_remove_io_event p m;
               Some (succ, m) }
             else do {
               succ \<leftarrow> io_next p m;
               Some (succ, m) });
          if quit m then Some m else dispatch_events n call revents succ m })"

fun dispatch_fds :: "nat \<Rightarrow> behaviour \<Rightarrow> nat list \<Rightarrow> int \<Rightarrow> mainloop \<Rightarrow> mainloop option" where
  "dispatch_fds fuel call [] n m = Some m"
| "dispatch_fds fuel call (i # rest) n m =
     (if quit m \<or> n \<le> 0 then Some m
      else
        let pfd = pollfds m ! i in
        if pfd_revents pfd \<noteq> 0
        then do {
          let key = \<lparr>pk_fd = pfd_fd pfd, pk_flag = pfd_events pfd\<rparr>;
          let event = map_option (\<lambda>i. io_pointer i m) (fcitx_handler_table_first key (ioHandler m));
          m \<leftarrow> dispatch_events fuel call (pfd_revents pfd) event m;
          dispatch_fds fuel call rest (n - 1) (m\<lparr>pollfds := (pollfds m)[i := pfd\<lparr>pfd_revents := 0\<rparr>]\<rparr>) }
        else dispatch_fds fuel call rest n m)"

text \<open>A callback that registers an event for the descriptor it is called for makes the chain longer, so the
  bound of the chains is an argument.\<close>

definition fcitx_mainloop_dispatch_io :: "nat \<Rightarrow> behaviour \<Rightarrow> mainloop \<Rightarrow> mainloop option" where
  "fcitx_mainloop_dispatch_io fuel call m =
     (if pollRet m \<le> 0 then Some m
      else dispatch_fds fuel call [0..<length (pollfds m)] (pollRet m) m)"

section \<open>Iteration\<close>

definition fcitx_mainloop_new :: "(nat \<Rightarrow> int) \<Rightarrow> mainloop option" where
  "fcitx_mainloop_new clock = do {
     t \<leftarrow> fcitx_handler_table_new_with_keydata 40 True True True;
     l \<leftarrow> fcitx_list_init 1 \<lparr>nxt = (\<lambda>_. 0), prv = (\<lambda>_. 0)\<rparr>;
     Some \<lparr>ioHandler = t, timers = l, timeouts = (\<lambda>_. None), next_addr = 2, nextTimeout = 0, rebuildPollfds = True,
       pollfds = [], quit = False, wakeups = 0, pollRet = 0, now = clock, ticks = 1, calls = []\<rparr> }"

text \<open>The timeout timeout, over the list of events.\<close>

fun prepare_loop :: "nat \<Rightarrow> int \<Rightarrow> nat \<Rightarrow> int \<Rightarrow> mainloop \<Rightarrow> int option" where
  "prepare_loop 0 t event timeout m = None"
| "prepare_loop (Suc n) t event timeout m =
     (if event = 1 then Some timeout
      else do {
        ev \<leftarrow> timeouts m event;
        if te_time ev \<le> t then Some 0
        else if te_time ev = 0 then Some 0
        else do {
          let timeout = (if timeout = - 1 \<or> te_time ev - t < timeout then te_time ev - t else timeout);
          succ \<leftarrow> next_timeout event m;
          prepare_loop n t succ timeout m }})"

definition foreach_poll_key :: "poll_key \<Rightarrow> pollfd list \<Rightarrow> pollfd list" where
  "foreach_poll_key k fds = fds @ [\<lparr>pfd_fd = pk_fd k, pfd_events = pk_flag k, pfd_revents = 0\<rparr>]"

text \<open>\<open>wakeup_fd\<close> is the end of the pipe that is read.\<close>

definition fcitx_mainloop_prepare :: "int \<Rightarrow> mainloop \<Rightarrow> (int \<times> mainloop) option" where
  "fcitx_mainloop_prepare wakeup_fd m =
     (if quit m then Some (- 1, m)
      else do {
        let (t, m) = get_time m;
        let m = m\<lparr>wakeups := 0\<rparr>;
        first \<leftarrow> next_timeout 1 m;
        timeout \<leftarrow> prepare_loop (next_addr m + 1) t first (- 1) m;
        let m = m\<lparr>nextTimeout := timeout\<rparr>;
        Some (0, if rebuildPollfds m
          then m\<lparr>pollfds := fcitx_handler_table_foreach_key foreach_poll_key (ioHandler m)
                  [\<lparr>pfd_fd = wakeup_fd, pfd_events = POLLIN, pfd_revents = 0\<rparr>]\<rparr>
          else m) })"

text \<open>The answer of \<open>ppoll\<close>: the number of descriptors with events and the descriptors, an interruption, or
  another error.\<close>

datatype poll_answer = Polled int "pollfd list" | Interrupted | Poll_Error

definition fcitx_mainloop_poll :: "(pollfd list \<Rightarrow> int option \<Rightarrow> poll_answer) \<Rightarrow> mainloop \<Rightarrow> int \<times> mainloop" where
  "fcitx_mainloop_poll ppoll m =
     (let m = m\<lparr>pollRet := 0\<rparr> in
      if quit m then (- 1, m)
      else if nextTimeout m = 0 then (0, m)
      else
        let m = (case ppoll (pollfds m) (if nextTimeout m > 0 then Some (nextTimeout m) else None) of
              Polled n fds \<Rightarrow> m\<lparr>pollRet := n, pollfds := fds\<rparr>
            | Interrupted \<Rightarrow> m\<lparr>pollRet := 0\<rparr>
            | Poll_Error \<Rightarrow> m\<lparr>pollRet := - 1\<rparr>)
        in (pollRet m, m))"

definition fcitx_mainloop_dispatch :: "nat \<Rightarrow> behaviour \<Rightarrow> mainloop \<Rightarrow> (int \<times> mainloop) option" where
  "fcitx_mainloop_dispatch fuel call m =
     (if quit m then Some (- 1, m)
      else do {
        m \<leftarrow> fcitx_mainloop_dispatch_timeout call m;
        m \<leftarrow> fcitx_mainloop_dispatch_io fuel call m;
        Some (0, m) })"

definition fcitx_mainloop_iterate ::
  "nat \<Rightarrow> behaviour \<Rightarrow> int \<Rightarrow> (pollfd list \<Rightarrow> int option \<Rightarrow> poll_answer) \<Rightarrow> mainloop \<Rightarrow> (int \<times> mainloop) option" where
  "fcitx_mainloop_iterate fuel call wakeup_fd ppoll m = do {
     (r, m) \<leftarrow> fcitx_mainloop_prepare wakeup_fd m;
     let (r, m) = fcitx_mainloop_poll ppoll m;
     if r < 0 then Some (r, m)
     else fcitx_mainloop_dispatch fuel call m }"

text \<open>The iterations of a run, with the answers of \<open>ppoll\<close> one after the other; \<open>None\<close> in the result is that
  the loop is still running after them.\<close>

fun run_iterations ::
  "nat \<Rightarrow> behaviour \<Rightarrow> int \<Rightarrow> (pollfd list \<Rightarrow> int option \<Rightarrow> poll_answer) list \<Rightarrow> mainloop \<Rightarrow> (int option \<times> mainloop) option" where
  "run_iterations fuel call wakeup_fd [] m = Some (None, m)"
| "run_iterations fuel call wakeup_fd (ppoll # rest) m = do {
     (r, m) \<leftarrow> fcitx_mainloop_iterate fuel call wakeup_fd ppoll m;
     if r \<ge> 0 then run_iterations fuel call wakeup_fd rest m else Some (Some r, m) }"

definition fcitx_mainloop_run ::
  "nat \<Rightarrow> behaviour \<Rightarrow> int \<Rightarrow> (pollfd list \<Rightarrow> int option \<Rightarrow> poll_answer) list \<Rightarrow> mainloop \<Rightarrow> (int option \<times> mainloop) option" where
  "fcitx_mainloop_run fuel call wakeup_fd ppolls m = run_iterations fuel call wakeup_fd ppolls (m\<lparr>quit := False\<rparr>)"

definition fcitx_mainloop_quit :: "mainloop \<Rightarrow> mainloop" where
  "fcitx_mainloop_quit m = m\<lparr>quit := True\<rparr>"

text \<open>Freeing the loop; what is left is the log.\<close>

fun remove_all_timeouts :: "nat \<Rightarrow> nat \<Rightarrow> nat \<Rightarrow> mainloop \<Rightarrow> mainloop option" where
  "remove_all_timeouts 0 e succ m = None"
| "remove_all_timeouts (Suc n) e succ m =
     (if e = 1 then Some m
      else do {
        m \<leftarrow> fcitx_mainloop_remove_timeout_event e m;
        after \<leftarrow> next_timeout succ m;
        remove_all_timeouts n succ after m })"

definition fcitx_mainloop_free :: "mainloop \<Rightarrow> loop_call list option" where
  "fcitx_mainloop_free m = do {
     evs \<leftarrow> fcitx_handler_table_free (ioHandler m);
     let m = fold handler_callback (drop (length (events (ioHandler m))) evs) m;
     e \<leftarrow> next_timeout 1 m;
     succ \<leftarrow> next_timeout e m;
     m \<leftarrow> remove_all_timeouts (next_addr m + 1) e succ m;
     Some (calls m) }"

section \<open>The timers\<close>

text \<open>The events \<open>ts\<close> are on the list and nothing else is allocated; each is held once, and the one that is
  being called, if there is one, may be held twice.\<close>

definition timers_ok :: "nat option \<Rightarrow> nat list \<Rightarrow> mainloop \<Rightarrow> bool" where
  "timers_ok cur ts m \<longleftrightarrow> ring (timers m) 1 ts \<and> 1 < next_addr m \<and> (\<forall>e. timeouts m e \<noteq> None \<longleftrightarrow> e \<in> set ts) \<and>
     (\<forall>e ev. timeouts m e = Some ev \<longrightarrow> e < next_addr m \<and> (te_refcount ev = 1 \<or> cur = Some e \<and> te_refcount ev = 2))"

lemma timers_okD:
  assumes "timers_ok cur ts m"
  shows "ring (timers m) 1 ts" "distinct ts" "1 \<notin> set ts" "0 \<notin> set ts" "length ts \<le> next_addr m"
    "e \<in> set ts \<Longrightarrow> \<exists>ev. timeouts m e = Some ev"
proof -
  show "ring (timers m) 1 ts" using assms by (simp add: timers_ok_def)
  then show "distinct ts" "1 \<notin> set ts" "0 \<notin> set ts" by (simp_all add: ring_def)
  have "set ts \<subseteq> {..<next_addr m}" using assms by (auto simp: timers_ok_def)
  then have "card (set ts) \<le> next_addr m" using card_mono [of "{..<next_addr m}" "set ts"] by simp
  then show "length ts \<le> next_addr m" using \<open>distinct ts\<close> by (simp add: distinct_card)
  show "e \<in> set ts \<Longrightarrow> \<exists>ev. timeouts m e = Some ev" using assms by (auto simp: timers_ok_def)
qed

lemma timers_ok_frame:
  assumes "timers m' = timers m" "timeouts m' = timeouts m" "next_addr m' = next_addr m"
  shows "timers_ok cur ts m' = timers_ok cur ts m"
  by (simp add: timers_ok_def assms)

lemma put_timeout_fields [simp]:
  "timers (put_timeout e ev m) = timers m" "next_addr (put_timeout e ev m) = next_addr m"
  "timeouts (put_timeout e ev m) = (timeouts m)(e \<mapsto> ev)" "quit (put_timeout e ev m) = quit m"
  "calls (put_timeout e ev m) = calls m" "now (put_timeout e ev m) = now m" "ticks (put_timeout e ev m) = ticks m"
  "pollRet (put_timeout e ev m) = pollRet m"
  by (simp_all add: put_timeout_def)

lemma loop_log_fields [simp]:
  "timers (log_call c m) = timers m" "next_addr (log_call c m) = next_addr m" "timeouts (log_call c m) = timeouts m"
  "quit (log_call c m) = quit m" "calls (log_call c m) = calls m @ [c]" "now (log_call c m) = now m"
  "ticks (log_call c m) = ticks m" "pollRet (log_call c m) = pollRet m"
  by (simp_all add: log_call_def)

lemma timer_put_ok:
  assumes "timers_ok cur ts m" "e \<in> set ts" "te_refcount ev = 1 \<or> cur = Some e \<and> te_refcount ev = 2"
  shows "timers_ok cur ts (put_timeout e ev m)"
  using assms by (auto simp: timers_ok_def)

lemma set_time_ok:
  assumes "timeouts m e = Some ev"
  shows "\<exists>m' t. set_time_event e m = Some m' \<and> timers m' = timers m \<and> next_addr m' = next_addr m \<and> quit m' = quit m \<and>
    calls m' = calls m \<and> now m' = now m \<and> timeouts m' = (timeouts m)(e \<mapsto> ev\<lparr>te_time := t\<rparr>) \<and>
    (if te_timeout ev = 0 then t = 0 else t = now m (ticks m) + uint (te_timeout ev)) \<and> pollRet m' = pollRet m"
  using assms by (simp add: set_time_event_def get_time_def)

lemma timer_register_ok:
  assumes "timers_ok cur ts m"
  shows "\<exists>m'. fcitx_mainloop_register_timeout_event timeout r cb d u m = Some (next_addr m, m') \<and>
    timers_ok cur (next_addr m # ts) m'"
proof -
  let ?e = "next_addr m"
  have ok: "ring (timers m) 1 ts" "?e \<notin> set (1 # ts)" "?e \<noteq> 0" using assms by (auto simp: timers_ok_def)
  then obtain l where l: "fcitx_list_prepend ?e 1 (timers m) = Some l" "ring l 1 (?e # ts)"
    using ring_prepend [of "timers m" 1 ts ?e] by blast
  moreover have "\<forall>e\<in>set ts. e < Suc ?e"
  proof
    fix e assume "e \<in> set ts"
    then show "e < Suc ?e" using timers_okD(6) [OF assms] assms unfolding timers_ok_def by (meson less_SucI)
  qed
  ultimately show ?thesis using assms ok(2)
    by (auto simp: fcitx_mainloop_register_timeout_event_def set_time_event_def get_time_def timers_ok_def
        fcitx_mainloop_wakeup_def put_timeout_def Let_def)
qed

lemma timer_remove_ok:
  assumes "timers_ok cur (xs @ e # ys) m" "timeouts m e = Some ev" "te_refcount ev = 1"
  shows "\<exists>m'. fcitx_mainloop_remove_timeout_event e m = Some m' \<and> timers_ok cur (xs @ ys) m' \<and>
    timeouts m' = (timeouts m)(e := None) \<and> next_addr m' = next_addr m \<and> quit m' = quit m \<and>
    calls m' = calls m @ (if te_destroy ev then [Destroyed (te_userdata ev)] else []) \<and> now m' = now m \<and> pollRet m' = pollRet m"
proof -
  obtain l where l: "fcitx_list_remove e (timers m) = Some l" "ring l 1 (xs @ ys)"
    using ring_remove [of "timers m" 1 xs e ys] assms(1) by (auto simp: timers_ok_def)
  moreover have "e \<notin> set (xs @ ys)" using timers_okD(2) [OF assms(1)] by simp
  ultimately show ?thesis using assms
    by (auto simp: fcitx_mainloop_remove_timeout_event_def fcitx_timeout_event_unref_def timers_ok_def put_timeout_def
        log_call_def)
qed

lemma unref_twice_ok:
  assumes "timers_ok cur ts m" "timeouts m e = Some ev" "te_refcount ev = 2"
  shows "\<exists>m'. fcitx_mainloop_remove_timeout_event e m = Some m' \<and> timers_ok cur ts m'"
  using assms by (auto simp: fcitx_mainloop_remove_timeout_event_def fcitx_timeout_event_unref_def timers_ok_def put_timeout_def)

text \<open>What a callback of the event \<open>cur\<close> may do to the loop: register events, remove one that it may still
  use, once, and ask the loop to quit.\<close>

inductive api_step :: "nat option \<Rightarrow> mainloop \<Rightarrow> mainloop \<Rightarrow> bool" for cur :: "nat option" where
  Api_Register: "fcitx_mainloop_register_timeout_event timeout r cb d u m = Some (e, m') \<Longrightarrow> api_step cur m m'"
| Api_Remove: "timeouts m e = Some ev \<Longrightarrow> te_refcount ev = (if cur = Some e then 2 else 1) \<Longrightarrow>
    fcitx_mainloop_remove_timeout_event e m = Some m' \<Longrightarrow> api_step cur m m'"
| Api_Quit: "api_step cur m (fcitx_mainloop_quit m)"
| Api_Register_IO: "fcitx_mainloop_register_io_event fd flag cb d u m = Some (p, m') \<Longrightarrow> api_step cur m m'"
| Api_Remove_IO: "fcitx_mainloop_remove_io_event p m = Some m' \<Longrightarrow> api_step cur m m'"

lemma handler_callback_frame [simp]:
  "timers (fold handler_callback evs m) = timers m" "timeouts (fold handler_callback evs m) = timeouts m"
  "next_addr (fold handler_callback evs m) = next_addr m" "quit (fold handler_callback evs m) = quit m"
proof (induction evs arbitrary: m)
  case (Cons x xs)
  { case 1 show ?case by (cases x) (simp_all add: Cons.IH) }
  { case 2 show ?case by (cases x) (simp_all add: Cons.IH) }
  { case 3 show ?case by (cases x) (simp_all add: Cons.IH) }
  { case 4 show ?case by (cases x) (simp_all add: Cons.IH) }
qed simp_all

lemma io_frame:
  "io_put p ev m = Some m' \<Longrightarrow> timers m' = timers m \<and> timeouts m' = timeouts m \<and> next_addr m' = next_addr m"
  "fcitx_mainloop_register_io_event fd flag cb d u m = Some (p, m') \<Longrightarrow>
     timers m' = timers m \<and> timeouts m' = timeouts m \<and> next_addr m' = next_addr m"
  "fcitx_mainloop_remove_io_event p m = Some m' \<Longrightarrow>
     timers m' = timers m \<and> timeouts m' = timeouts m \<and> next_addr m' = next_addr m"
proof -
  have put: "timers m' = timers m \<and> timeouts m' = timeouts m \<and> next_addr m' = next_addr m" if "io_put p ev m = Some m'" for p ev m m'
    using that by (auto simp: io_put_def bind_eq_Some_conv split: if_splits)
  have handler: "timers (put_handler t m) = timers m \<and> timeouts (put_handler t m) = timeouts m \<and> next_addr (put_handler t m) = next_addr m" for t m
    by (simp add: put_handler_def)
  show "io_put p ev m = Some m' \<Longrightarrow> timers m' = timers m \<and> timeouts m' = timeouts m \<and> next_addr m' = next_addr m" by (rule put)
  show "timers m' = timers m \<and> timeouts m' = timeouts m \<and> next_addr m' = next_addr m"
    if r: "fcitx_mainloop_register_io_event fd flag cb d u m = Some (p, m')"
    using r handler by (auto simp: fcitx_mainloop_register_io_event_def bind_eq_Some_conv fcitx_mainloop_wakeup_def Let_def dest!: put)
  show "timers m' = timers m \<and> timeouts m' = timeouts m \<and> next_addr m' = next_addr m"
    if r: "fcitx_mainloop_remove_io_event p m = Some m'"
    using r handler by (auto simp: fcitx_mainloop_remove_io_event_def fcitx_io_event_unref_def bind_eq_Some_conv dest!: put split: if_splits)
qed

text \<open>Around the event that is called, what is behind it can only become less.\<close>

lemma api_step_keeps:
  assumes "api_step (Some e) m m'" "timers_ok (Some e) (xs @ e # ys) m"
  shows "\<exists>xs' ys'. timers_ok (Some e) (xs' @ e # ys') m' \<and> length ys' \<le> length ys"
  using assms
proof (cases rule: api_step.cases)
  case (Api_Register timeout r cb d u e')
  then show ?thesis using timer_register_ok [OF assms(2), of timeout r cb d u] by (metis append_Cons Pair_inject option.inject order_refl)
next
  case (Api_Remove f ev)
  show ?thesis
  proof (cases "f = e")
    case True
    then show ?thesis using unref_twice_ok [OF assms(2), of e ev] Api_Remove by force
  next
    case False
    then have "f \<in> set (xs @ ys)" using Api_Remove(1) assms(2) by (auto simp: timers_ok_def)
    then consider xs1 xs2 where "xs = xs1 @ f # xs2" | ys1 ys2 where "ys = ys1 @ f # ys2"
      by (auto dest: split_list)
    then show ?thesis
    proof cases
      case 1
      then have "timers_ok (Some e) (xs1 @ f # (xs2 @ e # ys)) m" using assms(2) by simp
      from timer_remove_ok [OF this Api_Remove(1)] Api_Remove False have "timers_ok (Some e) ((xs1 @ xs2) @ e # ys) m'" by auto
      then show ?thesis by blast
    next
      case 2
      then have "timers_ok (Some e) ((xs @ e # ys1) @ f # ys2) m" using assms(2) by simp
      from timer_remove_ok [OF this Api_Remove(1)] Api_Remove False have "timers_ok (Some e) (xs @ e # (ys1 @ ys2)) m'" by auto
      moreover have "length (ys1 @ ys2) \<le> length ys" using 2 by simp
      ultimately show ?thesis by blast
    qed
  qed
next
  case Api_Quit
  then have "timers_ok (Some e) (xs @ e # ys) m'" using assms(2) by (simp add: fcitx_mainloop_quit_def timers_ok_def)
  then show ?thesis by blast
next
  case (Api_Register_IO fd flag cb d u p)
  then have "timers_ok (Some e) (xs @ e # ys) m'" using assms(2) io_frame(2) timers_ok_frame by metis
  then show ?thesis by blast
next
  case (Api_Remove_IO p)
  then have "timers_ok (Some e) (xs @ e # ys) m'" using assms(2) io_frame(3) timers_ok_frame by metis
  then show ?thesis by blast
qed

lemma api_steps_keep:
  assumes "(api_step (Some e))\<^sup>*\<^sup>* m m'" "timers_ok (Some e) (xs @ e # ys) m"
  shows "\<exists>xs' ys'. timers_ok (Some e) (xs' @ e # ys') m' \<and> length ys' \<le> length ys"
  using assms
proof (induction rule: rtranclp_induct)
  case (step m1 m2)
  then show ?case using api_step_keeps by (meson order_trans)
qed blast

section \<open>Dispatching the timers\<close>

definition callbacks_ok :: "behaviour \<Rightarrow> bool" where
  "callbacks_ok call \<longleftrightarrow> (\<forall>e cb u m ts. timers_ok (Some e) ts m \<and> map_option te_refcount (timeouts m e) = Some 2 \<longrightarrow>
     (\<exists>m'. call (On_Timeout e cb u) m = Some m' \<and> (api_step (Some e))\<^sup>*\<^sup>* m m'))"

lemma timer_next_ok: "timers_ok cur (xs @ e # ys) m \<Longrightarrow> next_timeout e m = Some (first_of 1 ys)"
  using timers_okD(6) [of cur "xs @ e # ys" m e] ring_next [of "timers m" 1 xs e ys]
  by (auto simp: next_timeout_def timers_ok_def)

lemma timer_first_ok: "timers_ok cur ts m \<Longrightarrow> next_timeout 1 m = Some (first_of 1 ts)"
  by (simp add: next_timeout_def timers_ok_def ring_def get_next_def)

lemma timers_ok_mono: "timers_ok None ts m \<Longrightarrow> timers_ok cur ts m"
  by (auto simp: timers_ok_def)

lemma timer_ref_ok:
  assumes "timers_ok None ts m" "timeouts m e = Some ev"
  shows "\<exists>m'. fcitx_timeout_event_ref e m = Some m' \<and> timers_ok (Some e) ts m' \<and> quit m' = quit m \<and>
    map_option te_refcount (timeouts m' e) = Some 2"
  using assms by (auto simp: fcitx_timeout_event_ref_def timers_ok_def)

text \<open>After the callback the loop gives its reference back: a removed event, and one that fires once, goes.\<close>

lemma timer_after_call:
  assumes "timers_ok (Some e) (xs @ e # ys) m"
  shows "\<exists>count m1 m2 xs'. fcitx_timeout_event_unref e m = Some (count, m1) \<and>
    (if count = 1
     then do { m \<leftarrow> fcitx_timeout_event_ref e m1; fcitx_mainloop_remove_timeout_event e m }
     else do {
       ev \<leftarrow> timeouts m1 e;
       if te_repeat ev then set_time_event e m1 else fcitx_mainloop_remove_timeout_event e m1 }) = Some m2 \<and>
    timers_ok None (xs' @ ys) m2"
proof -
  obtain ev where ev: "timeouts m e = Some ev" using timers_okD(6) [OF assms] by auto
  have dist: "distinct (xs @ e # ys)" by (rule timers_okD(2) [OF assms])
  have others: "te_refcount ev' = 1" if "timeouts m f = Some ev'" "f \<noteq> e" for f ev'
    using that assms by (auto simp: timers_ok_def)
  have count: "te_refcount ev = 1 \<or> te_refcount ev = 2" using ev assms by (auto simp: timers_ok_def)
  define m1 where "m1 = put_timeout e (ev\<lparr>te_refcount := te_refcount ev - 1\<rparr>) m"
  have unref: "fcitx_timeout_event_unref e m = Some (te_refcount ev, m1)"
    by (simp add: fcitx_timeout_event_unref_def ev m1_def)
  show ?thesis
  proof (cases "te_refcount ev = 1")
    case True
    define m2 where "m2 = put_timeout e (ev\<lparr>te_refcount := 1\<rparr>) m1"
    have "fcitx_timeout_event_ref e m1 = Some m2"
      using True by (simp add: fcitx_timeout_event_ref_def m1_def m2_def)
    moreover have "timers_ok None (xs @ e # ys) m2"
      using assms ev True others by (auto simp: m1_def m2_def timers_ok_def)
    moreover have "timeouts m2 e = Some (ev\<lparr>te_refcount := 1\<rparr>)" by (simp add: m2_def)
    ultimately show ?thesis using timer_remove_ok [of None xs e ys m2 "ev\<lparr>te_refcount := 1\<rparr>"] unref True by auto
  next
    case False
    then have two: "te_refcount ev = 2" using count by simp
    have ok: "timers_ok None (xs @ e # ys) m1" using assms ev two others by (auto simp: m1_def timers_ok_def)
    have ev1: "timeouts m1 e = Some (ev\<lparr>te_refcount := 1\<rparr>)" by (simp add: m1_def two)
    show ?thesis
    proof (cases "te_repeat ev")
      case True
      obtain m2 t where m2: "set_time_event e m1 = Some m2" "timers m2 = timers m1" "next_addr m2 = next_addr m1"
          "timeouts m2 = (timeouts m1)(e \<mapsto> ev\<lparr>te_refcount := 1, te_time := t\<rparr>)"
        using set_time_ok [OF ev1] by auto
      have "timers_ok None ((xs @ [e]) @ ys) m2" using ok m2 by (auto simp: timers_ok_def)
      then show ?thesis using unref two ev1 True m2(1) by (intro exI [of _ "xs @ [e]"] exI [of _ m2] exI [of _ m1] exI [of _ 2]) simp
    next
      case False
      then show ?thesis using timer_remove_ok [OF ok ev1] unref two ev1 by auto
    qed
  qed
qed

declare dispatch_timeout_loop.simps [simp del]

lemma dispatch_due:
  assumes "e \<noteq> 1" "\<not> quit m" "timeouts m e = Some ev" "te_time ev < t" "fcitx_timeout_event_ref e m = Some m1"
    "call (On_Timeout e (te_callback ev) (te_userdata ev)) (log_call (On_Timeout e (te_callback ev) (te_userdata ev)) m1) = Some m2"
    "next_timeout e m2 = Some succ" "fcitx_timeout_event_unref e m2 = Some (count, m3)"
    "(if count = 1
      then do { m \<leftarrow> fcitx_timeout_event_ref e m3; fcitx_mainloop_remove_timeout_event e m }
      else do {
        ev \<leftarrow> timeouts m3 e;
        if te_repeat ev then set_time_event e m3 else fcitx_mainloop_remove_timeout_event e m3 }) = Some m4"
  shows "dispatch_timeout_loop (Suc n) call t e m = dispatch_timeout_loop n call t succ m4"
  using assms(1-8) unfolding dispatch_timeout_loop.simps Let_def by (simp add: assms(9))

lemma dispatch_loop_ok:
  assumes "callbacks_ok call"
  shows "timers_ok None (xs @ ys) m \<Longrightarrow> length ys < n \<Longrightarrow>
    \<exists>m' ts. dispatch_timeout_loop n call t (first_of 1 ys) m = Some m' \<and> timers_ok None ts m'"
proof (induction n arbitrary: xs ys m)
  case (Suc n)
  show ?case
  proof (cases ys)
    case Nil
    then show ?thesis using Suc.prems by (auto simp: dispatch_timeout_loop.simps)
  next
    case (Cons e zs)
    have ok: "timers_ok None (xs @ e # zs) m" using Suc.prems(1) Cons by simp
    have e1: "e \<noteq> 1" using timers_okD(3) [OF ok] by auto
    obtain ev where ev: "timeouts m e = Some ev" using timers_okD(6) [OF ok] by auto
    show ?thesis
    proof (cases "quit m \<or> \<not> te_time ev < t")
      case True
      show ?thesis
      proof (cases "quit m")
        case True
        then show ?thesis using ok e1 Cons by (auto simp: dispatch_timeout_loop.simps)
      next
        case False
        have "dispatch_timeout_loop (Suc n) call t e m = dispatch_timeout_loop n call t (first_of 1 zs) m"
          using True False ev e1 timer_next_ok [OF ok] by (simp add: dispatch_timeout_loop.simps)
        moreover have "timers_ok None ((xs @ [e]) @ zs) m" using ok by simp
        ultimately show ?thesis using Suc.IH [of "xs @ [e]" zs m] Suc.prems(2) Cons by simp
      qed
    next
      case False
      obtain m1 where m1: "fcitx_timeout_event_ref e m = Some m1" "timers_ok (Some e) (xs @ e # zs) m1"
          "map_option te_refcount (timeouts m1 e) = Some 2"
        using timer_ref_ok [OF ok ev] by blast
      let ?c = "On_Timeout e (te_callback ev) (te_userdata ev)"
      have logged: "timers_ok (Some e) (xs @ e # zs) (log_call ?c m1)" using m1(2) by (simp add: timers_ok_def)
      moreover have "map_option te_refcount (timeouts (log_call ?c m1) e) = Some 2" using m1(3) by simp
      ultimately obtain m2 where m2: "call ?c (log_call ?c m1) = Some m2" "(api_step (Some e))\<^sup>*\<^sup>* (log_call ?c m1) m2"
        using assms unfolding callbacks_ok_def by blast
      from api_steps_keep [OF m2(2) logged] obtain xs' zs' where zs': "timers_ok (Some e) (xs' @ e # zs') m2" "length zs' \<le> length zs"
        by blast
      have succ: "next_timeout e m2 = Some (first_of 1 zs')" by (rule timer_next_ok [OF zs'(1)])
      obtain count m3 m4 xs2 where m4: "fcitx_timeout_event_unref e m2 = Some (count, m3)"
          "(if count = 1
             then do { m \<leftarrow> fcitx_timeout_event_ref e m3; fcitx_mainloop_remove_timeout_event e m }
             else do {
               ev \<leftarrow> timeouts m3 e;
               if te_repeat ev then set_time_event e m3 else fcitx_mainloop_remove_timeout_event e m3 }) = Some m4"
          "timers_ok None (xs2 @ zs') m4"
        using timer_after_call [OF zs'(1)] by blast
      have "\<exists>m' ts. dispatch_timeout_loop n call t (first_of 1 zs') m4 = Some m' \<and> timers_ok None ts m'"
        using Suc.IH [OF m4(3)] zs'(2) Suc.prems(2) Cons by simp
      moreover have "dispatch_timeout_loop (Suc n) call t e m = dispatch_timeout_loop n call t (first_of 1 zs') m4"
        using False ev e1 m1(1) m2(1) succ m4(1,2) by (intro dispatch_due) simp_all
      ultimately show ?thesis using Cons by simp
    qed
  qed
qed simp

text \<open>C24: Dispatching the timeouts ends and uses no freed event, whatever the callbacks do with the loop:
  register events, remove events, their own and those that would be next included, and ask to quit.
  Afterwards exactly the events on the list are allocated, each held once.\<close>

theorem dispatch_timeouts_safe:
  assumes "timers_ok None ts m" "callbacks_ok call"
  shows "\<exists>m' ts'. fcitx_mainloop_dispatch_timeout call m = Some m' \<and> timers_ok None ts' m'"
proof -
  obtain t m1 where t: "get_time m = (t, m1)" "m1 = m\<lparr>ticks := ticks m + 1\<rparr>" by (simp add: get_time_def)
  have ok: "timers_ok None ([] @ ts) m1" using assms(1) t(2) by (simp add: timers_ok_def)
  have "length ts < next_addr m1 + 1" using timers_okD(5) [OF ok] by simp
  from dispatch_loop_ok [OF assms(2) ok this, of t] show ?thesis
    using timer_first_ok [OF ok] by (simp add: fcitx_mainloop_dispatch_timeout_def t)
qed

text \<open>A callback that removes its own event and registers another one.\<close>

definition renew :: behaviour where
  "renew c m = (case c of
       On_Timeout e cb u \<Rightarrow> do {
         m \<leftarrow> fcitx_mainloop_remove_timeout_event e m;
         map_option snd (fcitx_mainloop_register_timeout_event 10 False cb False u m) }
     | _ \<Rightarrow> Some m)"

definition loop2 :: "mainloop option" where
  "loop2 = do {
     m \<leftarrow> fcitx_mainloop_new (\<lambda>n. 100 + int n);
     (_, m) \<leftarrow> fcitx_mainloop_register_timeout_event 0 True 7 True 1 m;
     (_, m) \<leftarrow> fcitx_mainloop_register_timeout_event 50 False 8 True 2 m;
     Some m }"

lemma loop_new_ok: "\<exists>m. fcitx_mainloop_new clock = Some m \<and> timers_ok None [] m"
  by (simp add: fcitx_mainloop_new_def fcitx_handler_table_new_with_keydata_def fcitx_obj_pool_new_def
      fcitx_obj_pool_init_with_prealloc_def FCITX_OBJ_POOL_INIT_SIZE_def fcitx_list_init_def set_next_def set_prev_def
      timers_ok_def ring_def)

theorem dispatch_timeouts_safe_witness:
  "\<exists>m m' ts. loop2 = Some m \<and> fcitx_mainloop_dispatch_timeout renew m = Some m' \<and> timers_ok None ts m'"
proof -
  obtain m0 where m0: "fcitx_mainloop_new (\<lambda>n. 100 + int n) = Some m0" "timers_ok None [] m0" using loop_new_ok by blast
  obtain m1 where m1: "fcitx_mainloop_register_timeout_event 0 True 7 True 1 m0 = Some (next_addr m0, m1)"
      "timers_ok None [next_addr m0] m1" using timer_register_ok [OF m0(2)] by blast
  obtain m2 where m2: "fcitx_mainloop_register_timeout_event 50 False 8 True 2 m1 = Some (next_addr m1, m2)"
      "timers_ok None [next_addr m1, next_addr m0] m2" using timer_register_ok [OF m1(2)] by blast
  have "callbacks_ok renew"
    unfolding callbacks_ok_def
  proof (intro allI impI, elim conjE)
    fix e cb u ts and m :: mainloop
    assume ok: "timers_ok (Some e) ts m" and "map_option te_refcount (timeouts m e) = Some 2"
    then obtain ev where ev: "timeouts m e = Some ev" "te_refcount ev = 2" by auto
    obtain m1 where m1: "fcitx_mainloop_remove_timeout_event e m = Some m1" "timers_ok (Some e) ts m1"
      using unref_twice_ok [OF ok ev] by blast
    obtain m2 where m2: "fcitx_mainloop_register_timeout_event 10 False cb False u m1 = Some (next_addr m1, m2)"
      using timer_register_ok [OF m1(2)] by blast
    have "api_step (Some e) m m1" using Api_Remove [OF ev(1) _ m1(1), of "Some e"] ev(2) by simp
    then show "\<exists>m'. renew (On_Timeout e cb u) m = Some m' \<and> (api_step (Some e))\<^sup>*\<^sup>* m m'"
      using m1(1) m2 Api_Register [OF m2, of "Some e"] by (auto simp: renew_def)
  qed
  then show ?thesis using dispatch_timeouts_safe [OF m2(2)] m0(1) m1(1) m2(1) by (auto simp: loop2_def)
qed

text \<open>With callbacks that leave the loop alone: whether an event stays, what it adds to the log, and when it
  is due again.\<close>

definition quiet :: behaviour where
  "quiet c m = Some m"

definition due :: "int \<Rightarrow> mainloop \<Rightarrow> nat \<Rightarrow> bool" where
  "due t m e \<longleftrightarrow> te_time (the (timeouts m e)) < t"

definition stays :: "int \<Rightarrow> mainloop \<Rightarrow> nat \<Rightarrow> bool" where
  "stays t m e \<longleftrightarrow> \<not> due t m e \<or> te_repeat (the (timeouts m e))"

definition fire :: "int \<Rightarrow> mainloop \<Rightarrow> nat \<Rightarrow> loop_call list" where
  "fire t m e = (let ev = the (timeouts m e) in
     if \<not> due t m e then []
     else On_Timeout e (te_callback ev) (te_userdata ev) #
       (if \<not> te_repeat ev \<and> te_destroy ev then [Destroyed (te_userdata ev)] else []))"

definition rescheduled :: "int \<Rightarrow> mainloop \<Rightarrow> mainloop \<Rightarrow> nat \<Rightarrow> bool" where
  "rescheduled t m m' e \<longleftrightarrow> (\<exists>ev k. timeouts m e = Some ev \<and> timeouts m' e = Some (ev\<lparr>te_time :=
     if \<not> due t m e then te_time ev else if te_timeout ev = 0 then 0 else now m k + uint (te_timeout ev)\<rparr>))"

lemma quiet_step:
  assumes ok: "timers_ok None (xs @ e # ys) m" and ev: "timeouts m e = Some ev" and d: "due t m e" and q: "\<not> quit m"
  shows "\<exists>m'. dispatch_timeout_loop (Suc n) quiet t e m = dispatch_timeout_loop n quiet t (first_of 1 ys) m' \<and>
    timers_ok None ((if te_repeat ev then xs @ [e] else xs) @ ys) m' \<and> \<not> quit m' \<and> now m' = now m \<and> pollRet m' = pollRet m \<and>
    calls m' = calls m @ fire t m e \<and> (\<forall>f. f \<noteq> e \<longrightarrow> timeouts m' f = timeouts m f) \<and>
    (te_repeat ev \<longrightarrow> rescheduled t m m' e)"
proof -
  have e1: "e \<noteq> 1" using timers_okD(3) [OF ok] by auto
  have one: "te_refcount ev = 1" using ok ev by (auto simp: timers_ok_def)
  let ?c = "On_Timeout e (te_callback ev) (te_userdata ev)"
  define m1 where "m1 = put_timeout e (ev\<lparr>te_refcount := 2\<rparr>) m"
  define m2 where "m2 = log_call ?c m1"
  define m3 where "m3 = put_timeout e (ev\<lparr>te_refcount := 1\<rparr>) m2"
  have ref: "fcitx_timeout_event_ref e m = Some m1" using ev one by (simp add: fcitx_timeout_event_ref_def m1_def)
  have unref: "fcitx_timeout_event_unref e m2 = Some (2, m3)"
    by (simp add: fcitx_timeout_event_unref_def m1_def m2_def m3_def)
  have "timers_ok (Some e) (xs @ e # ys) m2" using ok ev by (auto simp: timers_ok_def m1_def m2_def)
  then have succ: "next_timeout e m2 = Some (first_of 1 ys)" by (rule timer_next_ok)
  have same: "ev\<lparr>te_refcount := 1\<rparr> = ev" using one by (cases ev) simp
  have ok3: "timers_ok None (xs @ e # ys) m3" using ok ev by (auto simp: timers_ok_def m1_def m2_def m3_def)
  have ev3: "timeouts m3 e = Some ev" by (simp add: m3_def same del: timeout_event.update_convs)
  have others: "timeouts m3 f = timeouts m f" if "f \<noteq> e" for f using that by (simp add: m1_def m2_def m3_def)
  have rest: "calls m3 = calls m @ [?c]" "now m3 = now m" "quit m3 = quit m" "pollRet m3 = pollRet m" by (simp_all add: m1_def m2_def m3_def)
  show ?thesis
  proof (cases "te_repeat ev")
    case True
    obtain m4 s where m4: "set_time_event e m3 = Some m4" "timers m4 = timers m3" "next_addr m4 = next_addr m3" "quit m4 = quit m3"
        "calls m4 = calls m3" "now m4 = now m3" "timeouts m4 = (timeouts m3)(e \<mapsto> ev\<lparr>te_time := s\<rparr>)"
        "if te_timeout ev = 0 then s = 0 else s = now m3 (ticks m3) + uint (te_timeout ev)" "pollRet m4 = pollRet m3"
      using set_time_ok [OF ev3] by blast
    have "dispatch_timeout_loop (Suc n) quiet t e m = dispatch_timeout_loop n quiet t (first_of 1 ys) m4"
      using e1 q ev d ref succ unref ev3 True m4(1)
      by (intro dispatch_due [where ?m1.0 = m1 and ?m2.0 = m2 and ?m3.0 = m3 and count = 2 and ev = ev])
        (simp_all add: due_def quiet_def m2_def)
    moreover have "timers_ok None ((xs @ [e]) @ ys) m4" using ok3 ev3 m4 by (auto simp: timers_ok_def)
    moreover have "rescheduled t m m4 e"
      unfolding rescheduled_def using ev m4(7,8) d rest(2)
      by (intro exI [of _ ev] exI [of _ "ticks m3"]) (auto split: if_splits)
    ultimately show ?thesis using True m4 rest q others ev d by (intro exI [of _ m4]) (auto simp: fire_def)
  next
    case False
    obtain m4 where m4: "fcitx_mainloop_remove_timeout_event e m3 = Some m4" "timers_ok None (xs @ ys) m4"
        "timeouts m4 = (timeouts m3)(e := None)" "quit m4 = quit m3" "now m4 = now m3"
        "calls m4 = calls m3 @ (if te_destroy ev then [Destroyed (te_userdata ev)] else [])" "pollRet m4 = pollRet m3"
      using timer_remove_ok [OF ok3 ev3 one] by blast
    have "dispatch_timeout_loop (Suc n) quiet t e m = dispatch_timeout_loop n quiet t (first_of 1 ys) m4"
      using e1 q ev d ref succ unref ev3 False m4(1)
      by (intro dispatch_due [where ?m1.0 = m1 and ?m2.0 = m2 and ?m3.0 = m3 and count = 2 and ev = ev])
        (simp_all add: due_def quiet_def m2_def)
    then show ?thesis using False m4 rest q others ev d by (intro exI [of _ m4]) (auto simp: fire_def)
  qed
qed

lemma dispatch_quiet:
  "timers_ok None (xs @ ys) m \<Longrightarrow> \<not> quit m \<Longrightarrow> length ys < n \<Longrightarrow>
   \<exists>m'. dispatch_timeout_loop n quiet t (first_of 1 ys) m = Some m' \<and>
     timers_ok None (xs @ filter (stays t m) ys) m' \<and> calls m' = calls m @ concat (map (fire t m) ys) \<and>
     now m' = now m \<and> pollRet m' = pollRet m \<and> \<not> quit m' \<and> (\<forall>e \<in> set xs. timeouts m' e = timeouts m e) \<and>
     (\<forall>e \<in> set ys. stays t m e \<longrightarrow> rescheduled t m m' e)"
proof (induction n arbitrary: xs ys m)
  case (Suc n)
  show ?case
  proof (cases ys)
    case Nil
    then show ?thesis using Suc.prems by (auto simp: dispatch_timeout_loop.simps)
  next
    case (Cons e zs)
    have ok: "timers_ok None (xs @ e # zs) m" using Suc.prems(1) Cons by simp
    have dist: "e \<notin> set zs" "e \<notin> set xs" "set xs \<inter> set zs = {}" using timers_okD(2) [OF ok] by auto
    have e1: "e \<noteq> 1" using timers_okD(3) [OF ok] by auto
    obtain ev where ev: "timeouts m e = Some ev" using timers_okD(6) [OF ok] by auto
    obtain m1 xs1 where m1: "dispatch_timeout_loop (Suc n) quiet t e m = dispatch_timeout_loop n quiet t (first_of 1 zs) m1"
        "timers_ok None (xs1 @ zs) m1" "\<not> quit m1" "now m1 = now m" "calls m1 = calls m @ fire t m e"
        "\<forall>f. f \<noteq> e \<longrightarrow> timeouts m1 f = timeouts m f" "xs1 = (if stays t m e then xs @ [e] else xs)"
        "stays t m e \<longrightarrow> rescheduled t m m1 e" "pollRet m1 = pollRet m"
    proof (cases "due t m e")
      case True
      then show thesis using quiet_step [OF ok ev True Suc.prems(2), of n] that ev by (fastforce simp: stays_def)
    next
      case False
      have "dispatch_timeout_loop (Suc n) quiet t e m = dispatch_timeout_loop n quiet t (first_of 1 zs) m"
        using False ev e1 timer_next_ok [OF ok] Suc.prems(2) by (simp add: dispatch_timeout_loop.simps due_def)
      moreover have "timers_ok None ((xs @ [e]) @ zs) m" using ok by simp
      ultimately show thesis using that [of m "xs @ [e]"] False ev Suc.prems(2)
        by (auto simp: stays_def fire_def rescheduled_def)
    qed
    have eq: "stays t m1 f = stays t m f" "fire t m1 f = fire t m f" "timeouts m1 f = timeouts m f" "due t m1 f = due t m f"
      if "f \<in> set zs" for f
    proof -
      have "timeouts m1 f = timeouts m f" using that dist(1) m1(6) by metis
      then show "stays t m1 f = stays t m f" "fire t m1 f = fire t m f" "timeouts m1 f = timeouts m f" "due t m1 f = due t m f"
        by (simp_all add: stays_def fire_def due_def)
    qed
    obtain m' where m': "dispatch_timeout_loop n quiet t (first_of 1 zs) m1 = Some m'"
        "timers_ok None (xs1 @ filter (stays t m1) zs) m'" "calls m' = calls m1 @ concat (map (fire t m1) zs)"
        "now m' = now m1" "\<forall>e \<in> set xs1. timeouts m' e = timeouts m1 e" "pollRet m' = pollRet m1" "\<not> quit m'"
        "\<forall>e \<in> set zs. stays t m1 e \<longrightarrow> rescheduled t m1 m' e"
      using Suc.IH [OF m1(2,3)] Suc.prems(3) Cons by auto
    have "filter (stays t m1) zs = filter (stays t m) zs" using eq by (auto intro: filter_cong)
    moreover have "map (fire t m1) zs = map (fire t m) zs" using eq by simp
    then have "concat (map (fire t m1) zs) = concat (map (fire t m) zs)" by (rule arg_cong)
    moreover have "rescheduled t m1 m' f = rescheduled t m m' f" if "f \<in> set zs" for f
      unfolding rescheduled_def m1(4) eq(3,4) [OF that] ..
    then have "\<forall>f \<in> set zs. stays t m f \<longrightarrow> rescheduled t m m' f" using m'(8) eq(1) by blast
    moreover have "stays t m e \<longrightarrow> rescheduled t m m' e"
      using m1(7,8) m'(5) by (auto simp: rescheduled_def)
    moreover have "\<forall>f \<in> set xs. timeouts m' f = timeouts m f"
      using m'(5) m1(6,7) dist(2) by (metis Un_iff set_append)
    ultimately show ?thesis using m1 m' Cons by (intro exI [of _ m']) auto
  qed
qed simp

text \<open>C25: When the callbacks leave the loop alone, dispatching calls exactly the events whose time is before
  now, in the order of the list, which is the latest registered first.  An event that does not repeat is
  removed and its data destroyed right after its call; one that repeats gets the time of the clock plus its
  timeout, or the time 0 when that is 0; the others stay as they are.\<close>

theorem dispatch_timeouts_effect:
  assumes "timers_ok None ts m" "\<not> quit m"
  shows "\<exists>m'. fcitx_mainloop_dispatch_timeout quiet m = Some m' \<and>
    timers_ok None (filter (stays (now m (ticks m)) m) ts) m' \<and>
    calls m' = calls m @ concat (map (fire (now m (ticks m)) m) ts) \<and>
    (\<forall>e \<in> set ts. stays (now m (ticks m)) m e \<longrightarrow> rescheduled (now m (ticks m)) m m' e)"
proof -
  let ?t = "now m (ticks m)" and ?m = "m\<lparr>ticks := ticks m + 1\<rparr>"
  have ok: "timers_ok None ([] @ ts) ?m" using assms(1) by (simp add: timers_ok_def)
  have "length ts < next_addr ?m + 1" using timers_okD(5) [OF ok] by simp
  moreover have "stays ?t ?m = stays ?t m" "fire ?t ?m = fire ?t m" "rescheduled ?t ?m = rescheduled ?t m"
    by (auto simp: fun_eq_iff stays_def fire_def rescheduled_def due_def)
  ultimately show ?thesis
    using dispatch_quiet [OF ok, of "next_addr ?m + 1" ?t] assms(2) timer_first_ok [OF ok]
    by (auto simp: fcitx_mainloop_dispatch_timeout_def get_time_def)
qed

theorem dispatch_timeouts_effect_witness:
  "\<exists>m m'. loop2 = Some m \<and> fcitx_mainloop_dispatch_timeout quiet m = Some m' \<and>
     calls m' = [On_Timeout 2 7 1] \<and> timers_ok None [3, 2] m'"
proof -
  obtain m where m: "loop2 = Some m" "timers_ok None [3, 2] m" "\<not> quit m" "calls m = []" "now m (ticks m) = 102"
      "timeouts m 2 = Some \<lparr>te_callback = 7, te_timeout = 0, te_repeat = True, te_time = 0, te_userdata = 1, te_destroy = True, te_refcount = 1\<rparr>"
      "timeouts m 3 = Some \<lparr>te_callback = 8, te_timeout = 50, te_repeat = False, te_time = 151, te_userdata = 2, te_destroy = True, te_refcount = 1\<rparr>"
    by (auto simp: loop2_def fcitx_mainloop_new_def fcitx_handler_table_new_with_keydata_def fcitx_obj_pool_new_def
        fcitx_obj_pool_init_with_prealloc_def FCITX_OBJ_POOL_INIT_SIZE_def fcitx_list_init_def set_next_def set_prev_def
        fcitx_mainloop_register_timeout_event_def set_time_event_def get_time_def fcitx_list_prepend_def get_next_def
        fcitx_list_insert_between_def put_timeout_def fcitx_mainloop_wakeup_def timers_ok_def ring_def Let_def)
  have "filter (stays 102 m) [3, 2] = [3, 2]" "concat (map (fire 102 m) [3, 2]) = [On_Timeout 2 7 1]"
    using m(6,7) by (simp_all add: stays_def due_def fire_def)
  then show ?thesis using dispatch_timeouts_effect [OF m(2,3)] m(1,4,5) by auto
qed

section \<open>Preparing\<close>

definition shorter :: "int \<Rightarrow> int \<Rightarrow> int \<Rightarrow> int" where
  "shorter t x n = (if n = - 1 \<or> x - t < n then x - t else n)"

definition timeout_times :: "mainloop \<Rightarrow> nat list \<Rightarrow> int list" where
  "timeout_times m ts = map (\<lambda>e. te_time (the (timeouts m e))) ts"

lemma prepare_loop_ok:
  "timers_ok None (xs @ ys) m \<Longrightarrow> length ys < n \<Longrightarrow>
   prepare_loop n t (first_of 1 ys) timeout m =
     Some (if \<exists>x \<in> set (timeout_times m ys). x \<le> t \<or> x = 0 then 0 else fold (shorter t) (timeout_times m ys) timeout)"
proof (induction ys arbitrary: xs n timeout)
  case Nil
  then show ?case by (cases n) (auto simp: timeout_times_def)
next
  case (Cons y ys)
  then obtain k where n: "n = Suc k" "length ys < k" by (cases n) auto
  obtain ev where ev: "timeouts m y = Some ev" using timers_okD(6) [OF Cons.prems(1)] by auto
  have y: "y \<noteq> 1" using timers_okD(3) [OF Cons.prems(1)] by auto
  have "timers_ok None ((xs @ [y]) @ ys) m" using Cons.prems(1) by simp
  from Cons.IH [OF this n(2), of "shorter t (te_time ev) timeout"] show ?case
    using ev y timer_next_ok [OF Cons.prems(1)] by (auto simp: n(1) timeout_times_def shorter_def Let_def)
qed

lemma shorter_min: "xs \<noteq> [] \<Longrightarrow> (\<And>x. x \<in> set xs \<Longrightarrow> t < x) \<Longrightarrow> n = - 1 \<or> 0 < n \<Longrightarrow>
  fold (shorter t) xs n = (if n = - 1 then Min ((\<lambda>x. x - t) ` set xs) else min n (Min ((\<lambda>x. x - t) ` set xs)))"
proof (induction xs arbitrary: n)
  case (Cons x xs)
  have pos: "0 < shorter t x n" using Cons.prems(2) [of x] Cons.prems(3) by (auto simp: shorter_def)
  show ?case
  proof (cases "xs = []")
    case True
    then show ?thesis by (simp add: shorter_def)
  next
    case False
    have "fold (shorter t) xs (shorter t x n) = min (shorter t x n) (Min ((\<lambda>x. x - t) ` set xs))"
      using Cons.IH [OF False, of "shorter t x n"] Cons.prems(2) pos by simp
    then have "fold (shorter t) (x # xs) n = min (shorter t x n) (Min ((\<lambda>x. x - t) ` set xs))" by simp
    moreover have "Min ((\<lambda>x. x - t) ` set (x # xs)) = min (x - t) (Min ((\<lambda>x. x - t) ` set xs))"
      using False by simp
    moreover have "shorter t x n = (if n = - 1 then x - t else min n (x - t))" by (auto simp: shorter_def)
    ultimately show ?thesis by (simp only: if_distrib [of "\<lambda>y. min y _"] min.assoc split: if_split)
  qed
qed simp

text \<open>Preparing computes how long the loop may wait: without a limit when there is no timeout, not at all
  when one is due or has the time 0, else the time to the next one; and it empties the pipe and lists the
  descriptor of the pipe and then those of the registered keys, in the order they came.\<close>

theorem prepare_timeout:
  assumes "timers_ok None ts m" "\<not> quit m" "rebuildPollfds m"
  shows "\<exists>m'. fcitx_mainloop_prepare fd m = Some (0, m') \<and> timers_ok None ts m' \<and> wakeups m' = 0 \<and>
    nextTimeout m' =
      (let t = now m (ticks m); times = timeout_times m ts in
       if ts = [] then - 1
       else if \<exists>x \<in> set times. x \<le> t \<or> x = 0 then 0
       else Min ((\<lambda>x. x - t) ` set times)) \<and>
    pollfds m' = \<lparr>pfd_fd = fd, pfd_events = POLLIN, pfd_revents = 0\<rparr> #
      map (\<lambda>(k, _). \<lparr>pfd_fd = pk_fd k, pfd_events = pk_flag k, pfd_revents = 0\<rparr>) (keys (ioHandler m))"
proof -
  let ?t = "now m (ticks m)" and ?m = "m\<lparr>ticks := ticks m + 1, wakeups := 0\<rparr>"
  have ok: "timers_ok None ([] @ ts) ?m" using assms(1) by (simp add: timers_ok_def)
  have fuel: "length ts < next_addr ?m + 1" using timers_okD(5) [OF ok] by simp
  have times: "timeout_times ?m ts = timeout_times m ts" by (simp add: timeout_times_def)
  have fds: "fold (\<lambda>(k, _). foreach_poll_key k) ks fds =
      fds @ map (\<lambda>(k, _). \<lparr>pfd_fd = pk_fd k, pfd_events = pk_flag k, pfd_revents = 0\<rparr>) ks" for ks :: "(poll_key \<times> handler_key) list" and fds
    by (induction ks arbitrary: fds) (auto simp: foreach_poll_key_def)
  have "timeout_times m ts = [] \<longleftrightarrow> ts = []" by (simp add: timeout_times_def)
  then have "fold (shorter ?t) (timeout_times m ts) (- 1) = Min ((\<lambda>x. x - ?t) ` set (timeout_times m ts))"
    if "ts \<noteq> []" "\<not> (\<exists>x \<in> set (timeout_times m ts). x \<le> ?t \<or> x = 0)"
    using that shorter_min [of "timeout_times m ts" ?t "- 1"] by force
  then show ?thesis
    using prepare_loop_ok [OF ok fuel, of ?t "- 1"] timer_first_ok [OF ok] assms ok
    unfolding times
    by (auto simp: fcitx_mainloop_prepare_def get_time_def fcitx_handler_table_foreach_key_def fds timers_ok_def Let_def
        timeout_times_def simp del: prepare_loop.simps)
qed

lemma loop2_facts:
  "\<exists>m. loop2 = Some m \<and> timers_ok None [3, 2] m \<and> \<not> quit m \<and> rebuildPollfds m \<and> calls m = [] \<and> now m (ticks m) = 102 \<and> (\<forall>k. 0 < now m k) \<and>
     timeouts m 2 = Some \<lparr>te_callback = 7, te_timeout = 0, te_repeat = True, te_time = 0, te_userdata = 1, te_destroy = True, te_refcount = 1\<rparr> \<and>
     timeouts m 3 = Some \<lparr>te_callback = 8, te_timeout = 50, te_repeat = False, te_time = 151, te_userdata = 2, te_destroy = True, te_refcount = 1\<rparr>"
  by (auto simp: loop2_def fcitx_mainloop_new_def fcitx_handler_table_new_with_keydata_def fcitx_obj_pool_new_def
      fcitx_obj_pool_init_with_prealloc_def FCITX_OBJ_POOL_INIT_SIZE_def fcitx_list_init_def set_next_def set_prev_def
      fcitx_mainloop_register_timeout_event_def set_time_event_def get_time_def fcitx_list_prepend_def get_next_def
      fcitx_list_insert_between_def put_timeout_def fcitx_mainloop_wakeup_def timers_ok_def ring_def Let_def)

theorem prepare_timeout_witness:
  "\<exists>m m'. loop2 = Some m \<and> fcitx_mainloop_prepare 5 m = Some (0, m') \<and> nextTimeout m' = 0"
proof -
  obtain m where m: "loop2 = Some m" "timers_ok None [3, 2] m" "\<not> quit m" "rebuildPollfds m" "now m (ticks m) = 102"
      "te_time (the (timeouts m 2)) = 0" "te_time (the (timeouts m 3)) = 151"
    using loop2_facts by auto
  have "timeout_times m [3, 2] = [151, 0]" by (simp add: timeout_times_def m)
  then show ?thesis using prepare_timeout [OF m(2,3,4), of 5] m(1,5) by auto
qed

section \<open>Dispatching the descriptors\<close>

text \<open>The events of a loop whose input events are each held once; \<open>c k\<close> are the ids of the key \<open>k\<close>.\<close>

definition io_ok :: "(poll_key \<Rightarrow> int list) \<Rightarrow> mainloop \<Rightarrow> bool" where
  "io_ok c m \<longleftrightarrow> handler_ok (ioHandler m) c \<and>
     (\<forall>k. \<forall>i \<in> set (c k). \<exists>ev. data_of (ioHandler m) i = Some ev \<and> ie_refcount ev = 1)"

definition io_event :: "mainloop \<Rightarrow> int \<Rightarrow> io_event" where
  "io_event m i = the (data_of (ioHandler m) i)"

definition io_call :: "mainloop \<Rightarrow> u32 \<Rightarrow> int \<Rightarrow> loop_call" where
  "io_call m revents i = On_IO (io_pointer i m) (ie_callback (io_event m i)) (ie_fd (io_event m i))
     (fcitx_io_event_flag_from_libc_flag revents) (ie_userdata (io_event m i))"

definition pfd_calls :: "(poll_key \<Rightarrow> int list) \<Rightarrow> mainloop \<Rightarrow> pollfd \<Rightarrow> loop_call list" where
  "pfd_calls c m pfd =
     (if pfd_revents pfd = 0 then []
      else map (io_call m (pfd_revents pfd)) (c \<lparr>pk_fd = pfd_fd pfd, pk_flag = pfd_events pfd\<rparr>))"

lemma io_get_chain:
  assumes "io_ok c m" "i \<in> set (c k)"
  shows "\<exists>ob. fcitx_handler_table_get_obj i (ioHandler m) = Some ob \<and> cells (ioHandler m) i = Some ob \<and>
    obj_data ob = io_event m i \<and> ie_refcount (io_event m i) = 1"
proof -
  obtain ob where ob: "fcitx_handler_table_get_obj i (ioHandler m) = Some ob" "cells (ioHandler m) i = Some ob"
    using chain_obj [of "ioHandler m" c i k] assms by (auto simp: io_ok_def)
  then show ?thesis using assms by (fastforce simp: io_ok_def io_event_def data_of_def)
qed

declare dispatch_events.simps [simp del]

lemma dispatch_event_quiet:
  assumes ok: "io_ok c m" and ck: "c k = xs @ i # ys" and q: "\<not> quit m"
  shows "dispatch_events (Suc n) quiet revents (Some (io_pointer i m)) m =
    dispatch_events n quiet revents (map_option (\<lambda>i. io_pointer i m) (fcitx_handler_table_get_by_id (first_of INVALID ys) (ioHandler m)))
      (m\<lparr>calls := calls m @ [io_call m revents i]\<rparr>)"
proof -
  let ?t = "ioHandler m" and ?p = "io_pointer i m"
  obtain ob where ob: "fcitx_handler_table_get_obj i ?t = Some ob" "cells ?t i = Some ob"
      "obj_data ob = io_event m i" "ie_refcount (io_event m i) = 1"
    using io_get_chain [OF ok, of i k] ck by auto
  have hok: "handler_ok ?t c" using ok by (simp add: io_ok_def)
  let ?ev = "io_event m i" and ?ev2 = "(io_event m i)\<lparr>ie_refcount := 2\<rparr>"
  define m1 where "m1 = m\<lparr>ioHandler := put_obj i (ob\<lparr>obj_data := ?ev2\<rparr>) ?t\<rparr>"
  define m2 where "m2 = m1\<lparr>calls := calls m @ [io_call m revents i]\<rparr>"
  define m3 where "m3 = m\<lparr>calls := calls m @ [io_call m revents i]\<rparr>"
  have obj: "fcitx_handler_table_get_obj i (put_obj i x ?t) = Some x" for x
    using ob(1) by (simp add: fcitx_handler_table_get_obj_def put_obj_def split: if_splits)
  have ref: "fcitx_io_event_ref ?p m = Some m1"
    using ob by (simp add: fcitx_io_event_ref_def io_get_def io_put_def io_pointer_def m1_def)
  have get: "io_get ?p m1 = Some ?ev2" by (simp add: io_get_def io_pointer_def m1_def obj)
  have call: "quiet (io_call m revents i) (log_call (io_call m revents i) m1) = Some m2"
    by (simp add: quiet_def log_call_def m1_def m2_def)
  have same: "?ev\<lparr>ie_refcount := 1\<rparr> = ?ev" using ob(4) by (cases ?ev) simp
  have "ob\<lparr>obj_data := ?ev\<rparr> = ob" using ob(3) by (cases ob) simp
  then have restored: "put_obj i (ob\<lparr>obj_data := ?ev\<rparr>) (put_obj i (ob\<lparr>obj_data := ?ev2\<rparr>) ?t) = ?t"
    using ob(2) by (simp add: put_obj_def fun_upd_idem)
  have "fcitx_io_event_unref ?p m2 = Some (2, m3)"
  proof -
    have "io_get ?p m2 = Some ?ev2" by (simp add: io_get_def io_pointer_def m1_def m2_def obj)
    moreover have "?ev2\<lparr>ie_refcount := 2 - 1\<rparr> = ?ev" using same by simp
    then have "io_put ?p (?ev2\<lparr>ie_refcount := ie_refcount ?ev2 - 1\<rparr>) m2 = Some m3"
      using restored by (simp add: io_put_def io_pointer_def m1_def m2_def m3_def obj)
    ultimately show ?thesis by (simp add: fcitx_io_event_unref_def)
  qed
  moreover have "io_next ?p m3 = Some (map_option (\<lambda>i. io_pointer i m3) (fcitx_handler_table_get_by_id (first_of INVALID ys) ?t))"
  proof -
    have "obj_next ob = first_of INVALID ys"
      using chain_dl [OF hok, of k] ck ob(2) by (auto simp: nx_def dest: dl_at)
    then have "fcitx_handler_table_next i ?t = Some (fcitx_handler_table_get_by_id (first_of INVALID ys) ?t)"
      using ob(1) by (simp add: fcitx_handler_table_next_def fcitx_handler_table_next_id_def)
    then show ?thesis by (simp add: io_next_def io_pointer_def m3_def)
  qed
  moreover have "io_pointer j m3 = io_pointer j m" for j by (simp add: io_pointer_def m3_def)
  moreover have "io_call m revents i = On_IO ?p (ie_callback ?ev2) (ie_fd ?ev2) (fcitx_io_event_flag_from_libc_flag revents) (ie_userdata ?ev2)"
    by (simp add: io_call_def)
  ultimately show ?thesis
    using ref get call q by (simp add: dispatch_events.simps Let_def m3_def)
qed

lemma io_ok_log: "io_ok c (m\<lparr>calls := x\<rparr>) = io_ok c m" "io_call (m\<lparr>calls := x\<rparr>) = io_call m"
  "io_ok c (m\<lparr>pollfds := y\<rparr>) = io_ok c m" "io_call (m\<lparr>pollfds := y\<rparr>) = io_call m"
  "pfd_calls c (m\<lparr>pollfds := y\<rparr>) = pfd_calls c m" "pfd_calls c (m\<lparr>calls := x\<rparr>) = pfd_calls c m"
  by (auto simp: io_ok_def io_call_def io_event_def io_pointer_def pfd_calls_def fun_eq_iff)

lemma dispatch_chain_quiet:
  "io_ok c m \<Longrightarrow> c k = xs @ ys \<Longrightarrow> length ys < n \<Longrightarrow> \<not> quit m \<Longrightarrow>
   dispatch_events n quiet revents (map_option (\<lambda>i. io_pointer i m) (fcitx_handler_table_get_by_id (first_of INVALID ys) (ioHandler m))) m =
     Some (m\<lparr>calls := calls m @ map (io_call m revents) ys\<rparr>)"
proof (induction ys arbitrary: xs n m)
  case Nil
  then show ?case by (cases n) (auto simp: fcitx_handler_table_get_by_id_def dispatch_events.simps)
next
  case (Cons y ys)
  then obtain k' where n: "n = Suc k'" "length ys < k'" by (cases n) auto
  let ?m = "m\<lparr>calls := calls m @ [io_call m revents y]\<rparr>"
  have "y \<noteq> INVALID" using chain_no_invalid [of "ioHandler m" c k] Cons.prems(1,2) by (auto simp: io_ok_def)
  then have id: "fcitx_handler_table_get_by_id y (ioHandler m) = Some y"
    by (simp add: fcitx_handler_table_get_by_id_def)
  have "io_pointer i ?m = io_pointer i m" for i by (simp add: io_pointer_def)
  moreover have "io_ok c ?m" using Cons.prems(1) by (simp add: io_ok_log)
  ultimately show ?case
    using dispatch_event_quiet [of c m k xs y ys k' revents] Cons.prems Cons.IH [of ?m "xs @ [y]" k'] n
    by (simp add: id io_ok_log)
qed

text \<open>The descriptors from one index on, when as many of them have events as are still to be found.\<close>

definition ready :: "pollfd list \<Rightarrow> int" where
  "ready fds = int (length (filter (\<lambda>pfd. pfd_revents pfd \<noteq> 0) fds))"

lemma ready_simps [simp]:
  "ready [] = 0" "ready (pfd # fds) = (if pfd_revents pfd \<noteq> 0 then 1 + ready fds else ready fds)" "0 \<le> ready fds"
  by (simp_all add: ready_def)

lemma ready_none: "ready fds \<le> 0 \<Longrightarrow> concat (map (pfd_calls c m) fds) = [] \<and> map (\<lambda>pfd. pfd\<lparr>pfd_revents := 0\<rparr>) fds = fds"
proof (induction fds)
  case (Cons pfd fds)
  have "0 \<le> ready fds" by (rule ready_simps(3))
  then have "pfd_revents pfd = 0" "ready fds \<le> 0" using Cons.prems by (simp_all del: ready_simps(3) split: if_splits)
  then show ?case using Cons.IH by (cases pfd) (auto simp: pfd_calls_def)
qed simp

lemma dispatch_fds_quiet:
  "io_ok c m \<Longrightarrow> \<not> quit m \<Longrightarrow> \<forall>k. length (c k) < fuel \<Longrightarrow> pollfds m = past @ fds \<Longrightarrow>
   dispatch_fds fuel quiet [length past..<length (past @ fds)] (ready fds) m =
     Some (m\<lparr>pollfds := past @ map (\<lambda>pfd. pfd\<lparr>pfd_revents := 0\<rparr>) fds,
             calls := calls m @ concat (map (pfd_calls c m) fds)\<rparr>)"
proof (induction fds arbitrary: past m)
  case Nil
  then show ?case by (cases m) simp
next
  case (Cons pfd fds)
  let ?i = "length past"
  have range: "[length past..<length (past @ pfd # fds)] = ?i # [length (past @ [pfd])..<length ((past @ [pfd]) @ fds)]"
    by (simp add: upt_conv_Cons del: upt_Suc)
  have at: "pollfds m ! ?i = pfd" using Cons.prems(4) by simp
  show ?case
  proof (cases "ready (pfd # fds) \<le> 0")
    case True
    then show ?thesis using ready_none [OF True, of c m] Cons.prems(4)
      unfolding range by (cases m) (simp del: ready_simps)
  next
    case pos: False
    show ?thesis
    proof (cases "pfd_revents pfd = 0")
      case True
      have "pfd\<lparr>pfd_revents := 0\<rparr> = pfd" "pfd_calls c m pfd = []" using True by (cases pfd; simp add: pfd_calls_def)+
      then show ?thesis
        using Cons.IH [of m "past @ [pfd]"] Cons.prems pos True at unfolding range by (simp del: upt_Suc)
    next
      case False
      let ?k = "\<lparr>pk_fd = pfd_fd pfd, pk_flag = pfd_events pfd\<rparr>"
      let ?m = "m\<lparr>calls := calls m @ pfd_calls c m pfd, pollfds := (pollfds m)[?i := pfd\<lparr>pfd_revents := 0\<rparr>]\<rparr>"
      have "fcitx_handler_table_first ?k (ioHandler m) = fcitx_handler_table_get_by_id (first_of INVALID (c ?k)) (ioHandler m)"
        using table_first_last(1) [of "ioHandler m" c ?k] Cons.prems(1) by (simp add: fcitx_handler_table_first_def io_ok_def)
      then have "dispatch_events fuel quiet (pfd_revents pfd) (map_option (\<lambda>i. io_pointer i m) (fcitx_handler_table_first ?k (ioHandler m))) m =
          Some (m\<lparr>calls := calls m @ pfd_calls c m pfd\<rparr>)"
        using dispatch_chain_quiet [of c m ?k "[]" "c ?k" fuel "pfd_revents pfd"] Cons.prems False by (simp add: pfd_calls_def)
      then have "dispatch_fds fuel quiet [length past..<length (past @ pfd # fds)] (ready (pfd # fds)) m =
          dispatch_fds fuel quiet [length (past @ [pfd])..<length ((past @ [pfd]) @ fds)] (ready fds) ?m"
        unfolding range using False pos Cons.prems(2) at by (simp add: Let_def del: upt_Suc)
      moreover have "(pollfds m)[?i := pfd\<lparr>pfd_revents := 0\<rparr>] = (past @ [pfd\<lparr>pfd_revents := 0\<rparr>]) @ fds"
        using Cons.prems(4) by simp
      ultimately show ?thesis
        using Cons.IH [of ?m "past @ [pfd\<lparr>pfd_revents := 0\<rparr>]"] Cons.prems by (simp add: io_ok_log del: upt_Suc)
    qed
  qed
qed

text \<open>C26: When the callbacks leave the loop alone and the answer of the poll counts the descriptors with
  events, dispatching calls every event of each of these descriptors, in the order of the descriptors and, for
  one descriptor, of the registration of its events; it clears what the poll found and changes nothing else.\<close>

theorem dispatch_io_effect:
  assumes "io_ok c m" "\<not> quit m" "pollRet m = ready (pollfds m)" "chain_fuel (ioHandler m) \<le> fuel"
  shows "fcitx_mainloop_dispatch_io fuel quiet m =
    Some (m\<lparr>pollfds := map (\<lambda>pfd. pfd\<lparr>pfd_revents := 0\<rparr>) (pollfds m),
            calls := calls m @ concat (map (pfd_calls c m) (pollfds m))\<rparr>)"
proof -
  have "handler_ok (ioHandler m) c" using assms(1) by (simp add: io_ok_def)
  from chain_length [OF this] have "\<forall>k. length (c k) < fuel" using assms(4) by (meson less_le_trans)
  then have "dispatch_fds fuel quiet [0..<length (pollfds m)] (ready (pollfds m)) m =
      Some (m\<lparr>pollfds := map (\<lambda>pfd. pfd\<lparr>pfd_revents := 0\<rparr>) (pollfds m),
              calls := calls m @ concat (map (pfd_calls c m) (pollfds m))\<rparr>)"
    using dispatch_fds_quiet [of c m fuel "[]" "pollfds m"] assms(1,2) by simp
  then show ?thesis
    using assms(3) ready_none [of "pollfds m" c m] by (cases m) (auto simp: fcitx_mainloop_dispatch_io_def)
qed

section \<open>Registering input events\<close>

lemma handler_ok_data:
  assumes ok: "handler_ok t c" and ob: "cells t i = Some ob"
  shows "handler_ok (put_obj i (ob\<lparr>obj_data := x\<rparr>) t) c"
proof -
  let ?t = "put_obj i (ob\<lparr>obj_data := x\<rparr>) t"
  have links: "nx ?t = nx t" "pv ?t = pv t" using ob by (auto simp: nx_def pv_def fun_eq_iff)
  have cell: "(\<exists>ob. cells ?t j = Some ob \<and> obj_key ob = k) \<longleftrightarrow> (\<exists>ob. cells t j = Some ob \<and> obj_key ob = k)" for j k
    using ob by auto
  have "get_key k ?t = get_key k t" for k by (simp add: get_key_def)
  then have "key_ok ?t k (c k) = key_ok t k (c k)" for k by (simp only: key_ok_def links cell)
  then show ?thesis using ok by (simp add: handler_ok_def ids_live_def)
qed

lemma register_io_ok:
  assumes ok: "io_ok c m" and room: "pool_room (objs (ioHandler m))"
  shows "\<exists>i p m'. fcitx_mainloop_register_io_event fd flag cb d u m = Some (p, m') \<and> p = io_pointer i m' \<and>
    (let k = \<lparr>pk_fd = fd, pk_flag = fcitx_io_event_flag_to_libc_flag flag\<rparr> in io_ok (c(k := c k @ [i])) m') \<and>
    io_get p m' = Some \<lparr>ie_callback = cb, ie_fd = fd, ie_destroy = d, ie_userdata = u, ie_id = i, ie_refcount = 1\<rparr> \<and>
    quit m' = quit m"
proof -
  let ?k = "\<lparr>pk_fd = fd, pk_flag = fcitx_io_event_flag_to_libc_flag flag\<rparr>"
  let ?ev = "\<lparr>ie_callback = cb, ie_fd = fd, ie_destroy = d, ie_userdata = u, ie_id = 0, ie_refcount = 1\<rparr>"
  have hok: "handler_ok (ioHandler m) c" using ok by (simp add: io_ok_def)
  obtain i t where t: "fcitx_handler_table_append ?k ?ev (ioHandler m) = Some (i, t)" "i \<notin> ids_live (ioHandler m)"
      "handler_ok t (c(?k := c ?k @ [i]))" "data_of t i = Some ?ev"
      "\<forall>j \<in> ids_live (ioHandler m). data_of t j = data_of (ioHandler m) j"
    using table_append_ok [OF hok room, of ?k ?ev] by blast
  let ?c = "c(?k := c ?k @ [i])"
  have i: "i \<in> set (?c ?k)" by simp
  obtain ob where ob: "fcitx_handler_table_get_obj i t = Some ob" "cells t i = Some ob" using chain_obj [OF t(3) i] by blast
  have data: "obj_data ob = ?ev" using t(4) ob(2) by (simp add: data_of_def)
  have "i \<noteq> INVALID" using live_nonneg [OF t(3) chain_live [OF t(3) i]] by simp
  then have id: "fcitx_handler_table_get_by_id i t = Some i" by (simp add: fcitx_handler_table_get_by_id_def)
  define t' where "t' = put_obj i (ob\<lparr>obj_data := ?ev\<lparr>ie_id := i\<rparr>\<rparr>) t"
  define m' where "m' = fcitx_mainloop_wakeup ((put_handler t m)\<lparr>ioHandler := t'\<rparr>)"
  have p: "io_pointer i (put_handler t m) = io_pointer i m'"
    by (simp add: io_pointer_def put_handler_def m'_def fcitx_mainloop_wakeup_def t'_def)
  have reg: "fcitx_mainloop_register_io_event fd flag cb d u m = Some (io_pointer i m', m')"
    using t(1) ob(1) id data
    by (simp add: fcitx_mainloop_register_io_event_def io_get_def io_put_def put_handler_def p [unfolded io_pointer_def put_handler_def]
        io_pointer_def m'_def t'_def fcitx_mainloop_wakeup_def Let_def)
  have m't: "ioHandler m' = t'" by (simp add: m'_def fcitx_mainloop_wakeup_def)
  have "handler_ok t' ?c" unfolding t'_def by (rule handler_ok_data [OF t(3) ob(2)])
  moreover have "\<exists>ev. data_of t' j = Some ev \<and> ie_refcount ev = 1" if "j \<in> set (?c k)" for k j
  proof (cases "j = i")
    case True
    then show ?thesis by (simp add: t'_def data_of_def)
  next
    case False
    then have "j \<in> set (c k)" using that by (auto split: if_splits)
    moreover from this have "j \<in> ids_live (ioHandler m)" by (rule chain_live [OF hok])
    ultimately show ?thesis using ok t(5) False by (auto simp: io_ok_def t'_def data_of_def)
  qed
  ultimately have "io_ok ?c m'" by (simp add: io_ok_def m't)
  moreover have "io_get (io_pointer i m') m' = Some (?ev\<lparr>ie_id := i\<rparr>)"
  proof -
    have "fcitx_handler_table_get_obj i t' = Some (ob\<lparr>obj_data := ?ev\<lparr>ie_id := i\<rparr>\<rparr>)"
      using ob(1) by (simp add: fcitx_handler_table_get_obj_def put_obj_def t'_def split: if_splits)
    then show ?thesis by (simp add: io_get_def io_pointer_def m't)
  qed
  moreover have "quit m' = quit m" by (simp add: m'_def fcitx_mainloop_wakeup_def put_handler_def)
  ultimately show ?thesis using reg by (intro exI [of _ i]) (simp add: Let_def)
qed

lemma append_grows:
  assumes "fcitx_handler_table_append k a t = Some (i, t')" "next_free (objs t) < 0"
  shows "length (heads (objs t')) = 2 * length (heads (objs t))"
proof -
  have find: "objs (snd (fcitx_handler_table_find_key k True t)) = objs t"
    by (simp add: fcitx_handler_table_find_key_def log_event_def)
  have alloc: "length (heads p) = 2 * length (heads q)" if "fcitx_obj_pool_alloc_id q = Some (j, p)" "next_free q < 0" for j p q
    using that by (auto simp: fcitx_obj_pool_alloc_id_def Let_def split: if_splits)
  have "length (heads (objs t')) = 2 * length (heads (objs s))"
    if "fcitx_handler_key_append k' a s = Some (i, t')" "next_free (objs s) < 0" for k' s
    using that by (auto simp: fcitx_handler_key_append_def bind_eq_Some_conv set_last_id_def set_next_id_def put_key_def put_obj_def
        Let_def dest!: alloc split: if_splits)
  then show ?thesis using assms find
    by (auto simp: fcitx_handler_table_append_def bind_eq_Some_conv case_prod_beta)
qed

text \<open>Registering an event when the pool is full moves all events: every pointer a caller has is dangling, and
  removing its event, or dispatching on from it, uses freed memory.\<close>

theorem io_pointer_dangles:
  assumes "next_free (objs (ioHandler m)) < 0" "fcitx_mainloop_register_io_event fd flag cb d u m = Some (q, m')"
    "io_get p m \<noteq> None"
  shows "io_get p m' = None \<and> fcitx_mainloop_remove_io_event p m' = None \<and> io_next p m' = None"
proof -
  have size: "length (heads (objs (ioHandler m'))) = 2 * length (heads (objs (ioHandler m)))"
    using assms(1,2)
    by (auto simp: fcitx_mainloop_register_io_event_def bind_eq_Some_conv io_put_def put_handler_def fcitx_mainloop_wakeup_def
        put_obj_def Let_def dest!: append_grows split: if_splits)
  have "snd p = length (heads (objs (ioHandler m)))" "heads (objs (ioHandler m)) \<noteq> []"
    using assms(3) by (auto simp: io_get_def fcitx_handler_table_get_obj_def split: if_splits)
  then have "snd p \<noteq> length (heads (objs (ioHandler m')))" using size by simp
  then show ?thesis
    by (simp add: io_get_def io_next_def fcitx_mainloop_remove_io_event_def fcitx_io_event_unref_def)
qed

definition loop_io :: "nat \<Rightarrow> mainloop option" where
  "loop_io n = foldl (\<lambda>m fd. do { m \<leftarrow> m; map_option snd (fcitx_mainloop_register_io_event (int fd) FIOEF_IN fd True 9 m) })
     (fcitx_mainloop_new (\<lambda>n. 100)) [0..<n]"

theorem io_pointer_dangles_witness:
  "case loop_io 4 of None \<Rightarrow> False
   | Some m \<Rightarrow> io_get (0, 4) m \<noteq> None \<and>
       (case fcitx_mainloop_register_io_event 4 FIOEF_IN 4 True 9 m of None \<Rightarrow> False
        | Some (q, m') \<Rightarrow> fcitx_mainloop_remove_io_event (0, 4) m' = None)"
proof -
  have "\<exists>m. loop_io 4 = Some m \<and> next_free (objs (ioHandler m)) < 0 \<and> io_get (0, 4) m \<noteq> None \<and>
      fcitx_mainloop_register_io_event 4 FIOEF_IN 4 True 9 m \<noteq> None"
    by (simp add: loop_io_def fcitx_mainloop_new_def fcitx_handler_table_new_with_keydata_def fcitx_obj_pool_new_def
        fcitx_obj_pool_init_with_prealloc_def FCITX_OBJ_POOL_INIT_SIZE_def fcitx_list_init_def set_next_def set_prev_def
        fcitx_mainloop_register_io_event_def fcitx_handler_table_append_def fcitx_handler_table_find_key_def
        fcitx_handler_key_append_def get_key_def fcitx_obj_pool_alloc_id_def put_key_def put_obj_def set_last_id_def
        set_next_id_def fcitx_handler_table_get_obj_def io_get_def io_put_def io_pointer_def put_handler_def log_event_def
        fcitx_handler_table_get_by_id_def INVALID_def pool_ids fcitx_mainloop_wakeup_def Let_def loop_flags
        fcitx_io_event_flag_to_libc_flag_def upt_rec numeral_eq_Suc)
  then obtain m q m' where m: "loop_io 4 = Some m" "next_free (objs (ioHandler m)) < 0" "io_get (0, 4) m \<noteq> None"
      "fcitx_mainloop_register_io_event 4 FIOEF_IN 4 True 9 m = Some (q, m')"
    by auto
  from io_pointer_dangles [OF m(2,4,3)] show ?thesis using m by simp
qed

text \<open>A loop between its iterations can be freed.\<close>

lemma remove_all_ok:
  "timers_ok None ts m \<Longrightarrow> length ts < n \<Longrightarrow>
   \<exists>m'. remove_all_timeouts n (first_of 1 ts) (if ts = [] then succ else first_of 1 (tl ts)) m = Some m'"
proof (induction ts arbitrary: n m succ)
  case Nil
  then show ?case by (cases n) simp_all
next
  case (Cons e ts)
  obtain k where n: "n = Suc k" "length ts < k" using Cons.prems(2) by (cases n) auto
  obtain ev where ev: "timeouts m e = Some ev" using timers_okD(6) [OF Cons.prems(1), of e] by auto
  then have "te_refcount ev = 1" using Cons.prems(1) by (auto simp: timers_ok_def)
  then obtain m1 where m1: "fcitx_mainloop_remove_timeout_event e m = Some m1" "timers_ok None ts m1"
    using timer_remove_ok [of None "[]" e ts m ev] Cons.prems(1) ev by auto
  have e1: "e \<noteq> 1" using timers_okD(3) [OF Cons.prems(1)] by auto
  obtain after where a: "next_timeout (first_of 1 ts) m1 = Some after" "ts \<noteq> [] \<longrightarrow> after = first_of 1 (tl ts)"
  proof (cases ts)
    case Nil
    then show ?thesis using that timer_first_ok [OF m1(2)] by simp
  next
    case (Cons f fs)
    then show ?thesis using that timer_next_ok [of None "[]" f fs m1] m1(2) by simp
  qed
  have "remove_all_timeouts n (first_of 1 (e # ts)) (first_of 1 ts) m = remove_all_timeouts k (first_of 1 ts) after m1"
    using e1 m1(1) a(1) by (simp add: n)
  then show ?case using Cons.IH [OF m1(2) n(2), of after] a(2) by (cases ts) auto
qed

lemma loop_free_ok:
  assumes "timers_ok None ts m" "io_ok c m"
  shows "\<exists>cs. fcitx_mainloop_free m = Some cs"
proof -
  obtain evs where evs: "fcitx_handler_table_free (ioHandler m) = Some evs"
    using table_free_ok assms(2) unfolding io_ok_def by blast
  define m1 where "m1 = fold handler_callback (drop (length (events (ioHandler m))) evs) m"
  have na: "next_addr m1 = next_addr m" by (simp add: m1_def)
  have ok: "timers_ok None ts m1" using assms(1) by (simp add: m1_def timers_ok_def)
  obtain e where e: "next_timeout 1 m1 = Some e" "e = first_of 1 ts" using timer_first_ok [OF ok] by simp
  obtain f where f: "next_timeout e m1 = Some f" "ts \<noteq> [] \<longrightarrow> f = first_of 1 (tl ts)"
  proof (cases ts)
    case Nil
    then show ?thesis using that e timer_first_ok [OF ok] by simp
  next
    case (Cons x xs)
    then show ?thesis using that e timer_next_ok [of None "[]" x xs m1] ok by simp
  qed
  have "length ts < next_addr m1 + 1" using timers_okD(5) [OF ok] by simp
  from remove_all_ok [OF ok this, of f] f(2) e(2) obtain m2 where
    "remove_all_timeouts (next_addr m1 + 1) e f m1 = Some m2" by (cases ts) auto
  then show ?thesis using evs e(1) f(1) na by (simp add: fcitx_mainloop_free_def m1_def [symmetric] Let_def del: remove_all_timeouts.simps)
qed

lemma register_timers:
  "timers_ok cur ts m \<Longrightarrow> fcitx_mainloop_register_io_event fd flag cb d u m = Some (p, m') \<Longrightarrow> timers_ok cur ts m'"
  using io_frame(2) [of fd flag cb d u m p m'] by (simp add: timers_ok_def)

lemma loop_new_io: "\<exists>m. fcitx_mainloop_new clock = Some m \<and> io_ok (\<lambda>_. []) m \<and> pool_room (objs (ioHandler m)) \<and> \<not> quit m"
proof -
  obtain t :: "(poll_key, io_event) handler_table" where
    "fcitx_handler_table_new_with_keydata 40 True True True = Some t" "handler_ok t (\<lambda>_. [])" "pool_room (objs t)"
    using new_ok [of 40 True True True] by (auto simp: align_to_def)
  then show ?thesis
    by (simp add: fcitx_mainloop_new_def fcitx_list_init_def set_next_def set_prev_def io_ok_def)
qed

theorem dispatch_io_effect_witness:
  "\<exists>m m'. fcitx_mainloop_dispatch_io 10 quiet m = Some m' \<and>
     calls m' = calls m @ [On_IO (0, 4) 7 3 FIOEF_IN 9] \<and> pollfds m' = [\<lparr>pfd_fd = 3, pfd_events = POLLIN, pfd_revents = 0\<rparr>]"
proof -
  let ?k = "\<lparr>pk_fd = 3, pk_flag = fcitx_io_event_flag_to_libc_flag FIOEF_IN\<rparr>"
  have k: "?k = \<lparr>pk_fd = 3, pk_flag = POLLIN\<rparr>" by (simp add: fcitx_io_event_flag_to_libc_flag_def loop_flags)
  have "\<exists>m0 m1. fcitx_mainloop_new (\<lambda>n. 100) = Some m0 \<and> fcitx_mainloop_register_io_event 3 FIOEF_IN 7 True 9 m0 = Some ((0, 4), m1) \<and>
      length (heads (objs (ioHandler m1))) = 4"
    by (simp add: fcitx_mainloop_new_def fcitx_handler_table_new_with_keydata_def fcitx_obj_pool_new_def
        fcitx_obj_pool_init_with_prealloc_def FCITX_OBJ_POOL_INIT_SIZE_def fcitx_list_init_def set_next_def set_prev_def
        fcitx_mainloop_register_io_event_def fcitx_handler_table_append_def fcitx_handler_table_find_key_def
        fcitx_handler_key_append_def get_key_def fcitx_obj_pool_alloc_id_def put_key_def put_obj_def
        fcitx_handler_table_get_obj_def io_get_def io_put_def io_pointer_def put_handler_def log_event_def
        fcitx_handler_table_get_by_id_def INVALID_def pool_ids fcitx_mainloop_wakeup_def Let_def loop_flags
        fcitx_io_event_flag_to_libc_flag_def upt_rec numeral_eq_Suc)
  then obtain m0 m1 where m1: "fcitx_mainloop_new (\<lambda>n. 100) = Some m0" "fcitx_mainloop_register_io_event 3 FIOEF_IN 7 True 9 m0 = Some ((0, 4), m1)"
      "length (heads (objs (ioHandler m1))) = 4" by blast
  obtain c where c: "io_ok (c(?k := c ?k @ [0])) m1" "c = (\<lambda>_. [])" "\<not> quit m1"
      "io_get (0, 4) m1 = Some \<lparr>ie_callback = 7, ie_fd = 3, ie_destroy = True, ie_userdata = 9, ie_id = 0, ie_refcount = 1\<rparr>"
    using loop_new_io [of "\<lambda>n. 100"] register_io_ok [of "\<lambda>_. []" m0 3 FIOEF_IN 7 True 9] m1 by (auto simp: io_pointer_def Let_def)
  let ?c = "c(?k := c ?k @ [0])"
  let ?m = "m1\<lparr>pollRet := 1, pollfds := [\<lparr>pfd_fd = 3, pfd_events = POLLIN, pfd_revents = POLLIN\<rparr>]\<rparr>"
  have "io_ok ?c ?m" using c(1) by (simp add: io_ok_def)
  moreover have "io_event ?m 0 = \<lparr>ie_callback = 7, ie_fd = 3, ie_destroy = True, ie_userdata = 9, ie_id = 0, ie_refcount = 1\<rparr>"
    using c(4) m1(3) by (auto simp: io_event_def data_of_def io_get_def fcitx_handler_table_get_obj_def split: if_splits)
  then have "concat (map (pfd_calls ?c ?m) (pollfds ?m)) = [On_IO (0, 4) 7 3 FIOEF_IN 9]"
    using m1(3) by (simp add: pfd_calls_def io_call_def k c(2) io_pointer_def fcitx_io_event_flag_to_libc_flag_def fcitx_io_event_flag_from_libc_flag_def loop_flags)
  moreover have "chain_fuel (ioHandler ?m) \<le> 10" using m1(3) by (simp add: chain_fuel_def)
  moreover have "pollRet ?m = ready (pollfds ?m)" by (simp add: loop_flags)
  moreover have "\<not> quit ?m" using c(3) by simp
  ultimately have "fcitx_mainloop_dispatch_io 10 quiet ?m =
      Some (?m\<lparr>pollfds := map (\<lambda>pfd. pfd\<lparr>pfd_revents := 0\<rparr>) (pollfds ?m), calls := calls ?m @ [On_IO (0, 4) 7 3 FIOEF_IN 9]\<rparr>)"
    using dispatch_io_effect [of ?c ?m 10] by metis
  then show ?thesis by (intro exI conjI) (assumption, simp_all)
qed

section \<open>Quitting and waiting\<close>

text \<open>Once the loop is asked to quit, dispatching calls nothing, and the next iteration ends the run.\<close>

theorem quit_ends_run:
  assumes "timers_ok None ts m" "quit m"
  shows "(\<exists>m'. fcitx_mainloop_dispatch_timeout call m = Some m' \<and> calls m' = calls m) \<and>
    (\<exists>m'. fcitx_mainloop_dispatch_io fuel call m = Some m' \<and> calls m' = calls m) \<and>
    (\<exists>m'. run_iterations fuel call fd (ppoll # rest) m = Some (Some (- 1), m') \<and> calls m' = calls m)"
proof -
  have "timers_ok None ts (m\<lparr>ticks := ticks m + 1\<rparr>)" using assms(1) by (simp add: timers_ok_def)
  from timer_first_ok [OF this] have "\<exists>m'. fcitx_mainloop_dispatch_timeout call m = Some m' \<and> calls m' = calls m"
    using assms(2) by (simp add: fcitx_mainloop_dispatch_timeout_def get_time_def dispatch_timeout_loop.simps)
  moreover have "dispatch_fds fuel call is n m = Some m" for "is" n using assms(2) by (cases "is") simp_all
  then have "fcitx_mainloop_dispatch_io fuel call m = Some m" by (simp add: fcitx_mainloop_dispatch_io_def)
  ultimately show ?thesis using assms(2)
    by (simp add: fcitx_mainloop_iterate_def fcitx_mainloop_prepare_def fcitx_mainloop_poll_def Let_def)
qed

theorem quit_ends_run_witness:
  "\<exists>m m'. loop2 = Some m \<and>
     run_iterations 5 renew 4 [\<lambda>_ _. Interrupted] (fcitx_mainloop_quit m) = Some (Some (- 1), m') \<and> calls m' = calls m"
proof -
  obtain m where m: "loop2 = Some m" "timers_ok None [3, 2] m" using loop2_facts by auto
  have "timers_ok None [3, 2] (fcitx_mainloop_quit m)" "quit (fcitx_mainloop_quit m)"
    using m(2) by (simp_all add: fcitx_mainloop_quit_def timers_ok_def)
  from quit_ends_run [OF this, of renew 5 4 "\<lambda>_ _. Interrupted" "[]"] m(1) show ?thesis
    by (auto simp: fcitx_mainloop_quit_def)
qed

text \<open>An event that repeats without a timeout has the time 0 and is due in every iteration, so the loop never
  polls, and the answers of \<open>ppoll\<close> do not matter.\<close>

definition always_due :: "nat \<Rightarrow> nat list \<Rightarrow> mainloop \<Rightarrow> bool" where
  "always_due e ts m \<longleftrightarrow> timers_ok None ts m \<and> e \<in> set ts \<and> \<not> quit m \<and> (\<forall>k. 0 < now m k) \<and>
     (\<exists>ev. timeouts m e = Some ev \<and> te_repeat ev \<and> te_timeout ev = 0 \<and> te_time ev = 0)"

definition no_io :: "loop_call list \<Rightarrow> bool" where
  "no_io cs \<longleftrightarrow> list_all (\<lambda>c. case c of On_IO p cb fd flags u \<Rightarrow> False | _ \<Rightarrow> True) cs"

lemma fire_no_io: "no_io (concat (map (fire t m) ts))"
  by (induction ts) (auto simp: no_io_def fire_def Let_def)

lemma iterate_starved:
  assumes "always_due e ts m"
  shows "\<exists>m' ts' cs. fcitx_mainloop_iterate fuel quiet fd ppoll m = Some (0, m') \<and> always_due e ts' m' \<and>
    calls m' = calls m @ cs \<and> no_io cs"
proof -
  let ?t = "now m (ticks m)" and ?m = "m\<lparr>ticks := ticks m + 1, wakeups := 0\<rparr>"
  obtain ev where ev: "timeouts m e = Some ev" "te_repeat ev" "te_timeout ev = 0" "te_time ev = 0"
    and m: "timers_ok None ts m" "e \<in> set ts" "\<not> quit m" "\<forall>k. 0 < now m k"
    using assms by (auto simp: always_due_def)
  have ok: "timers_ok None ([] @ ts) ?m" using m(1) by (simp add: timers_ok_def)
  have fuel: "length ts < next_addr ?m + 1" using timers_okD(5) [OF ok] by simp
  have "0 \<in> set (timeout_times ?m ts)" using ev m(2) by (force simp: timeout_times_def)
  then have zero: "\<exists>x \<in> set (timeout_times ?m ts). x \<le> ?t \<or> x = 0" by blast
  define m1 where "m1 = (let m = ?m\<lparr>nextTimeout := 0\<rparr> in if rebuildPollfds m
          then m\<lparr>pollfds := fcitx_handler_table_foreach_key foreach_poll_key (ioHandler m)
                  [\<lparr>pfd_fd = fd, pfd_events = POLLIN, pfd_revents = 0\<rparr>]\<rparr>
          else m)"
  have prep: "fcitx_mainloop_prepare fd m = Some (0, m1)"
    using prepare_loop_ok [OF ok fuel, of ?t "- 1"] timer_first_ok [OF ok] m(3) zero
    by (simp add: fcitx_mainloop_prepare_def get_time_def m1_def Let_def del: prepare_loop.simps)
  have m1: "timers m1 = timers m" "timeouts m1 = timeouts m" "next_addr m1 = next_addr m" "now m1 = now m" "quit m1 = quit m"
      "calls m1 = calls m" "nextTimeout m1 = 0"
    by (simp_all add: m1_def Let_def)
  let ?m1 = "m1\<lparr>pollRet := 0\<rparr>"
  have poll: "fcitx_mainloop_poll ppoll m1 = (0, ?m1)" using m(3) m1 by (simp add: fcitx_mainloop_poll_def Let_def)
  let ?t1 = "now m (ticks m1)" and ?m2 = "?m1\<lparr>ticks := ticks m1 + 1\<rparr>"
  have ok2: "timers_ok None ([] @ ts) ?m2" using m(1) m1 by (simp add: timers_ok_def)
  have q2: "\<not> quit ?m2" using m(3) m1 by simp
  have "length ts < next_addr ?m2 + 1" using timers_okD(5) [OF ok2] by simp
  from dispatch_quiet [OF ok2 q2 this, of ?t1] obtain m' where m':
      "dispatch_timeout_loop (next_addr ?m2 + 1) quiet ?t1 (first_of 1 ts) ?m2 = Some m'"
      "timers_ok None ([] @ filter (stays ?t1 ?m2) ts) m'" "calls m' = calls ?m2 @ concat (map (fire ?t1 ?m2) ts)"
      "now m' = now ?m2" "pollRet m' = pollRet ?m2" "\<not> quit m'" "\<forall>e \<in> set ts. stays ?t1 ?m2 e \<longrightarrow> rescheduled ?t1 ?m2 m' e"
    by blast
  have stay: "stays ?t1 ?m2 e" "due ?t1 ?m2 e" using ev m(4) m1 by (simp_all add: stays_def due_def)
  have "\<exists>ev. timeouts m' e = Some ev \<and> te_repeat ev \<and> te_timeout ev = 0 \<and> te_time ev = 0"
    using m'(7) m(2) stay ev m1 by (auto simp: rescheduled_def)
  then have "always_due e (filter (stays ?t1 ?m2) ts) m'" using m' m(2,4) stay m1 by (simp add: always_due_def)
  moreover have "fcitx_mainloop_dispatch fuel quiet ?m1 = Some (0, m')"
    using m'(1,5) m(3) m1 timer_first_ok [OF ok2]
    by (simp add: fcitx_mainloop_dispatch_def fcitx_mainloop_dispatch_timeout_def get_time_def fcitx_mainloop_dispatch_io_def)
  then have "fcitx_mainloop_iterate fuel quiet fd ppoll m = Some (0, m')"
    by (simp add: fcitx_mainloop_iterate_def prep poll)
  ultimately show ?thesis using m'(3) m1 fire_no_io by (intro exI [of _ m']) auto
qed

theorem loop_starves_io:
  assumes "always_due e ts m"
  shows "\<exists>m' cs. run_iterations fuel quiet fd ppolls m = Some (None, m') \<and> calls m' = calls m @ cs \<and> no_io cs"
  using assms
proof (induction ppolls arbitrary: m ts)
  case (Cons p ps)
  obtain m1 ts1 cs1 where m1: "fcitx_mainloop_iterate fuel quiet fd p m = Some (0, m1)" "always_due e ts1 m1"
      "calls m1 = calls m @ cs1" "no_io cs1"
    using iterate_starved [OF Cons.prems] by blast
  obtain m2 cs2 where "run_iterations fuel quiet fd ps m1 = Some (None, m2)" "calls m2 = calls m1 @ cs2" "no_io cs2"
    using Cons.IH [OF m1(2)] by blast
  then show ?case using m1 by (intro exI [of _ m2] exI [of _ "cs1 @ cs2"]) (simp add: no_io_def)
qed (simp add: no_io_def)

theorem loop_starves_io_witness:
  "\<exists>m m' cs. loop2 = Some m \<and> run_iterations 5 quiet 4 [\<lambda>fds _. Polled 1 fds, \<lambda>fds _. Polled 1 fds] m = Some (None, m') \<and>
     calls m' = calls m @ cs \<and> no_io cs"
proof -
  have "\<exists>m. loop2 = Some m \<and> always_due 2 [3, 2] m"
    using loop2_facts by (auto simp: always_due_def)
  then show ?thesis using loop_starves_io [of 2 "[3, 2]"] by blast
qed

end
