(* ===== verification/KeyData.thy ===== *)
theory KeyData
  imports Prelude
begin

text \<open>
  The two tables of \<open>src/lib/fcitx-utils/keydata.h\<close>, in pieces: keysym to code point, ordered by
  keysym, and keysym and code point ordered by code point.  An entry is (keysym, code point), both
  of type \<open>uint16_t\<close>.
\<close>

definition gdk_keysym_to_unicode_tab_0 :: "(nat \<times> nat) list" where
  "gdk_keysym_to_unicode_tab_0 =
  [(417, 260), (418, 728), (419, 321), (421, 317), (422, 346), (425, 352), (426, 350), (427, 356),
   (428, 377), (430, 381), (431, 379), (433, 261), (434, 731), (435, 322), (437, 318), (438, 347),
   (439, 711), (441, 353), (442, 351), (443, 357), (444, 378), (445, 733), (446, 382), (447, 380),
   (448, 340), (451, 258), (453, 313), (454, 262), (456, 268), (458, 280), (460, 282), (463, 270),
   (464, 272), (465, 323), (466, 327), (469, 336), (472, 344), (473, 366), (475, 368), (478, 354),
   (480, 341), (483, 259), (485, 314), (486, 263), (488, 269), (490, 281), (492, 283), (495, 271),
   (496, 273), (497, 324), (498, 328), (501, 337), (504, 345), (505, 367), (507, 369), (510, 355),
   (511, 729), (673, 294), (678, 292), (681, 304), (683, 286), (684, 308), (689, 295), (694, 293),
   (697, 305), (699, 287), (700, 309), (709, 266), (710, 264), (725, 288), (728, 284), (733, 364),
   (734, 348), (741, 267), (742, 265), (757, 289), (760, 285), (765, 365), (766, 349), (930, 312),
   (931, 342), (933, 296), (934, 315), (938, 274), (939, 290), (940, 358), (947, 343), (949, 297),
   (950, 316), (954, 275), (955, 291), (956, 359), (957, 330), (959, 331), (960, 256), (967, 302),
   (972, 278), (975, 298), (977, 325), (978, 332), (979, 310), (985, 370), (989, 360), (990, 362),
   (992, 257), (999, 303), (1004, 279), (1007, 299), (1009, 326), (1010, 333), (1011, 311),
   (1017, 371), (1021, 361), (1022, 363), (1150, 8254), (1185, 12290), (1186, 12300),
   (1187, 12301), (1188, 12289), (1189, 12539), (1190, 12530), (1191, 12449), (1192, 12451),
   (1193, 12453), (1194, 12455), (1195, 12457), (1196, 12515), (1197, 12517), (1198, 12519),
   (1199, 12483), (1200, 12540), (1201, 12450), (1202, 12452), (1203, 12454), (1204, 12456),
   (1205, 12458), (1206, 12459), (1207, 12461)]"

definition gdk_keysym_to_unicode_tab_1 :: "(nat \<times> nat) list" where
  "gdk_keysym_to_unicode_tab_1 =
  [(1208, 12463), (1209, 12465), (1210, 12467), (1211, 12469), (1212, 12471), (1213, 12473),
   (1214, 12475), (1215, 12477), (1216, 12479), (1217, 12481), (1218, 12484), (1219, 12486),
   (1220, 12488), (1221, 12490), (1222, 12491), (1223, 12492), (1224, 12493), (1225, 12494),
   (1226, 12495), (1227, 12498), (1228, 12501), (1229, 12504), (1230, 12507), (1231, 12510),
   (1232, 12511), (1233, 12512), (1234, 12513), (1235, 12514), (1236, 12516), (1237, 12518),
   (1238, 12520), (1239, 12521), (1240, 12522), (1241, 12523), (1242, 12524), (1243, 12525),
   (1244, 12527), (1245, 12531), (1246, 12443), (1247, 12444), (1452, 1548), (1467, 1563),
   (1471, 1567), (1473, 1569), (1474, 1570), (1475, 1571), (1476, 1572), (1477, 1573),
   (1478, 1574), (1479, 1575), (1480, 1576), (1481, 1577), (1482, 1578), (1483, 1579),
   (1484, 1580), (1485, 1581), (1486, 1582), (1487, 1583), (1488, 1584), (1489, 1585),
   (1490, 1586), (1491, 1587), (1492, 1588), (1493, 1589), (1494, 1590), (1495, 1591),
   (1496, 1592), (1497, 1593), (1498, 1594), (1504, 1600), (1505, 1601), (1506, 1602),
   (1507, 1603), (1508, 1604), (1509, 1605), (1510, 1606), (1511, 1607), (1512, 1608),
   (1513, 1609), (1514, 1610), (1515, 1611), (1516, 1612), (1517, 1613), (1518, 1614),
   (1519, 1615), (1520, 1616), (1521, 1617), (1522, 1618), (1697, 1106), (1698, 1107),
   (1699, 1105), (1700, 1108), (1701, 1109), (1702, 1110), (1703, 1111), (1704, 1112),
   (1705, 1113), (1706, 1114), (1707, 1115), (1708, 1116), (1709, 1169), (1710, 1118),
   (1711, 1119), (1712, 8470), (1713, 1026), (1714, 1027), (1715, 1025), (1716, 1028),
   (1717, 1029), (1718, 1030), (1719, 1031), (1720, 1032), (1721, 1033), (1722, 1034),
   (1723, 1035), (1724, 1036), (1725, 1168), (1726, 1038), (1727, 1039), (1728, 1102),
   (1729, 1072), (1730, 1073), (1731, 1094), (1732, 1076), (1733, 1077), (1734, 1092),
   (1735, 1075), (1736, 1093), (1737, 1080), (1738, 1081), (1739, 1082), (1740, 1083),
   (1741, 1084), (1742, 1085), (1743, 1086), (1744, 1087), (1745, 1103), (1746, 1088)]"

definition gdk_keysym_to_unicode_tab_2 :: "(nat \<times> nat) list" where
  "gdk_keysym_to_unicode_tab_2 =
  [(1747, 1089), (1748, 1090), (1749, 1091), (1750, 1078), (1751, 1074), (1752, 1100),
   (1753, 1099), (1754, 1079), (1755, 1096), (1756, 1101), (1757, 1097), (1758, 1095),
   (1759, 1098), (1760, 1070), (1761, 1040), (1762, 1041), (1763, 1062), (1764, 1044),
   (1765, 1045), (1766, 1060), (1767, 1043), (1768, 1061), (1769, 1048), (1770, 1049),
   (1771, 1050), (1772, 1051), (1773, 1052), (1774, 1053), (1775, 1054), (1776, 1055),
   (1777, 1071), (1778, 1056), (1779, 1057), (1780, 1058), (1781, 1059), (1782, 1046),
   (1783, 1042), (1784, 1068), (1785, 1067), (1786, 1047), (1787, 1064), (1788, 1069),
   (1789, 1065), (1790, 1063), (1791, 1066), (1953, 902), (1954, 904), (1955, 905), (1956, 906),
   (1957, 938), (1959, 908), (1960, 910), (1961, 939), (1963, 911), (1966, 901), (1967, 8213),
   (1969, 940), (1970, 941), (1971, 942), (1972, 943), (1973, 970), (1974, 912), (1975, 972),
   (1976, 973), (1977, 971), (1978, 944), (1979, 974), (1985, 913), (1986, 914), (1987, 915),
   (1988, 916), (1989, 917), (1990, 918), (1991, 919), (1992, 920), (1993, 921), (1994, 922),
   (1995, 923), (1996, 924), (1997, 925), (1998, 926), (1999, 927), (2000, 928), (2001, 929),
   (2002, 931), (2004, 932), (2005, 933), (2006, 934), (2007, 935), (2008, 936), (2009, 937),
   (2017, 945), (2018, 946), (2019, 947), (2020, 948), (2021, 949), (2022, 950), (2023, 951),
   (2024, 952), (2025, 953), (2026, 954), (2027, 955), (2028, 956), (2029, 957), (2030, 958),
   (2031, 959), (2032, 960), (2033, 961), (2034, 963), (2035, 962), (2036, 964), (2037, 965),
   (2038, 966), (2039, 967), (2040, 968), (2041, 969), (2212, 8992), (2213, 8993), (2214, 9474)]"

definition gdk_keysym_to_unicode_tab_3 :: "(nat \<times> nat) list" where
  "gdk_keysym_to_unicode_tab_3 =
  [(2236, 8804), (2237, 8800), (2238, 8805), (2239, 8747), (2240, 8756), (2241, 8733),
   (2242, 8734), (2245, 8711), (2248, 8773), (2253, 8660), (2254, 8658), (2255, 8801),
   (2262, 8730), (2266, 8834), (2267, 8835), (2268, 8745), (2269, 8746), (2270, 8743),
   (2271, 8744), (2287, 8706), (2294, 402), (2299, 8592), (2300, 8593), (2301, 8594),
   (2302, 8595), (2527, 9250), (2528, 9670), (2529, 9618), (2530, 9225), (2531, 9228),
   (2532, 9229), (2533, 9226), (2536, 9252), (2537, 9227), (2538, 9496), (2539, 9488),
   (2540, 9484), (2541, 9492), (2542, 9532), (2545, 9472), (2548, 9500), (2549, 9508),
   (2550, 9524), (2551, 9516), (2552, 9474), (2721, 8195), (2722, 8194), (2723, 8196),
   (2724, 8197), (2725, 8199), (2726, 8200), (2727, 8201), (2728, 8202), (2729, 8212),
   (2730, 8211), (2734, 8230), (2736, 8531), (2737, 8532), (2738, 8533), (2739, 8534),
   (2740, 8535), (2741, 8536), (2742, 8537), (2743, 8538), (2744, 8453), (2747, 8210),
   (2748, 9001), (2749, 46), (2750, 9002), (2755, 8539), (2756, 8540), (2757, 8541), (2758, 8542),
   (2761, 8482), (2762, 9747), (2764, 9665), (2765, 9655), (2766, 9675), (2767, 9633),
   (2768, 8216), (2769, 8217), (2770, 8220), (2771, 8221), (2772, 8478), (2774, 8242),
   (2775, 8243), (2777, 10013), (2779, 9644), (2780, 9664), (2781, 9654), (2782, 9679),
   (2783, 9632), (2784, 9702), (2785, 9643), (2786, 9645), (2787, 9651), (2788, 9661),
   (2789, 9734), (2790, 8226), (2791, 9642), (2792, 9650), (2793, 9660), (2794, 9756),
   (2795, 9758), (2796, 9827), (2797, 9830), (2798, 9829), (2800, 10016), (2801, 8224),
   (2802, 8225), (2803, 10003), (2804, 10007), (2805, 9839), (2806, 9837), (2807, 9794),
   (2808, 9792), (2809, 9742), (2810, 8981), (2811, 8471), (2812, 8248), (2813, 8218),
   (2814, 8222), (2979, 60), (2982, 62), (2984, 8744), (2985, 8743)]"

definition gdk_keysym_to_unicode_tab_4 :: "(nat \<times> nat) list" where
  "gdk_keysym_to_unicode_tab_4 =
  [(3008, 175), (3010, 8868), (3011, 8745), (3012, 8970), (3014, 95), (3018, 8728), (3020, 9109),
   (3022, 8869), (3023, 9675), (3027, 8968), (3030, 8746), (3032, 8835), (3034, 8834),
   (3036, 8867), (3068, 8866), (3295, 8215), (3296, 1488), (3297, 1489), (3298, 1490),
   (3299, 1491), (3300, 1492), (3301, 1493), (3302, 1494), (3303, 1495), (3304, 1496),
   (3305, 1497), (3306, 1498), (3307, 1499), (3308, 1500), (3309, 1501), (3310, 1502),
   (3311, 1503), (3312, 1504), (3313, 1505), (3314, 1506), (3315, 1507), (3316, 1508),
   (3317, 1509), (3318, 1510), (3319, 1511), (3320, 1512), (3321, 1513), (3322, 1514),
   (3489, 3585), (3490, 3586), (3491, 3587), (3492, 3588), (3493, 3589), (3494, 3590),
   (3495, 3591), (3496, 3592), (3497, 3593), (3498, 3594), (3499, 3595), (3500, 3596),
   (3501, 3597), (3502, 3598), (3503, 3599), (3504, 3600), (3505, 3601), (3506, 3602),
   (3507, 3603), (3508, 3604), (3509, 3605), (3510, 3606), (3511, 3607), (3512, 3608),
   (3513, 3609), (3514, 3610), (3515, 3611), (3516, 3612), (3517, 3613), (3518, 3614),
   (3519, 3615), (3520, 3616), (3521, 3617), (3522, 3618), (3523, 3619), (3524, 3620),
   (3525, 3621), (3526, 3622), (3527, 3623), (3528, 3624), (3529, 3625), (3530, 3626),
   (3531, 3627), (3532, 3628), (3533, 3629), (3534, 3630), (3535, 3631), (3536, 3632),
   (3537, 3633), (3538, 3634), (3539, 3635), (3540, 3636), (3541, 3637), (3542, 3638),
   (3543, 3639), (3544, 3640), (3545, 3641), (3546, 3642), (3550, 3646), (3551, 3647),
   (3552, 3648), (3553, 3649), (3554, 3650), (3555, 3651), (3556, 3652), (3557, 3653),
   (3558, 3654), (3559, 3655), (3560, 3656), (3561, 3657), (3562, 3658), (3563, 3659),
   (3564, 3660), (3565, 3661), (3568, 3664), (3569, 3665), (3570, 3666), (3571, 3667),
   (3572, 3668), (3573, 3669), (3574, 3670), (3575, 3671), (3576, 3672), (3577, 3673),
   (3745, 12593), (3746, 12594), (3747, 12595), (3748, 12596), (3749, 12597), (3750, 12598),
   (3751, 12599), (3752, 12600), (3753, 12601), (3754, 12602), (3755, 12603)]"

definition gdk_keysym_to_unicode_tab_5 :: "(nat \<times> nat) list" where
  "gdk_keysym_to_unicode_tab_5 =
  [(3756, 12604), (3757, 12605), (3758, 12606), (3759, 12607), (3760, 12608), (3761, 12609),
   (3762, 12610), (3763, 12611), (3764, 12612), (3765, 12613), (3766, 12614), (3767, 12615),
   (3768, 12616), (3769, 12617), (3770, 12618), (3771, 12619), (3772, 12620), (3773, 12621),
   (3774, 12622), (3775, 12623), (3776, 12624), (3777, 12625), (3778, 12626), (3779, 12627),
   (3780, 12628), (3781, 12629), (3782, 12630), (3783, 12631), (3784, 12632), (3785, 12633),
   (3786, 12634), (3787, 12635), (3788, 12636), (3789, 12637), (3790, 12638), (3791, 12639),
   (3792, 12640), (3793, 12641), (3794, 12642), (3795, 12643), (3796, 4520), (3797, 4521),
   (3798, 4522), (3799, 4523), (3800, 4524), (3801, 4525), (3802, 4526), (3803, 4527),
   (3804, 4528), (3805, 4529), (3806, 4530), (3807, 4531), (3808, 4532), (3809, 4533),
   (3810, 4534), (3811, 4535), (3812, 4536), (3813, 4537), (3814, 4538), (3815, 4539),
   (3816, 4540), (3817, 4541), (3818, 4542), (3819, 4543), (3820, 4544), (3821, 4545),
   (3822, 4546), (3823, 12653), (3824, 12657), (3825, 12664), (3826, 12671), (3828, 12676),
   (3829, 12678), (3830, 12685), (3831, 12686), (3832, 4587), (3834, 4601), (3839, 8361),
   (5052, 338), (5053, 339), (5054, 376), (8352, 8352), (8353, 8353), (8354, 8354), (8355, 8355),
   (8356, 8356), (8357, 8357), (8358, 8358), (8359, 8359), (8360, 8360), (8361, 8361),
   (8362, 8362), (8363, 8363), (8364, 8364), (65288, 8), (65289, 9), (65290, 10), (65291, 11),
   (65293, 13), (65307, 27), (65408, 32), (65450, 42), (65451, 43), (65452, 44), (65453, 45),
   (65454, 46), (65455, 47), (65456, 48), (65457, 49), (65458, 50), (65459, 51), (65460, 52),
   (65461, 53), (65462, 54), (65463, 55), (65464, 56), (65465, 57), (65469, 61), (65535, 127)]"

definition gdk_unicode_to_keysym_tab_0 :: "(nat \<times> nat) list" where
  "gdk_unicode_to_keysym_tab_0 =
  [(2749, 46), (2979, 60), (2982, 62), (3014, 95), (3008, 175), (960, 256), (992, 257), (451, 258),
   (483, 259), (417, 260), (433, 261), (454, 262), (486, 263), (710, 264), (742, 265), (709, 266),
   (741, 267), (456, 268), (488, 269), (463, 270), (495, 271), (464, 272), (496, 273), (938, 274),
   (954, 275), (972, 278), (1004, 279), (458, 280), (490, 281), (460, 282), (492, 283),
   (728, 284), (760, 285), (683, 286), (699, 287), (725, 288), (757, 289), (939, 290), (955, 291),
   (678, 292), (694, 293), (673, 294), (689, 295), (933, 296), (949, 297), (975, 298),
   (1007, 299), (967, 302), (999, 303), (681, 304), (697, 305), (684, 308), (700, 309),
   (979, 310), (1011, 311), (930, 312), (453, 313), (485, 314), (934, 315), (950, 316),
   (421, 317), (437, 318), (419, 321), (435, 322), (465, 323), (497, 324), (977, 325),
   (1009, 326), (466, 327), (498, 328), (957, 330), (959, 331), (978, 332), (1010, 333),
   (469, 336), (501, 337), (5052, 338), (5053, 339), (448, 340), (480, 341), (931, 342),
   (947, 343), (472, 344), (504, 345), (422, 346), (438, 347), (734, 348), (766, 349), (426, 350),
   (442, 351), (425, 352), (441, 353), (478, 354), (510, 355), (427, 356), (443, 357), (940, 358),
   (956, 359), (989, 360), (1021, 361), (990, 362), (1022, 363), (733, 364), (765, 365),
   (473, 366), (505, 367), (475, 368), (507, 369), (985, 370), (1017, 371), (5054, 376),
   (428, 377), (444, 378), (431, 379), (447, 380), (430, 381), (446, 382), (2294, 402),
   (439, 711), (418, 728), (511, 729), (434, 731), (445, 733), (1966, 901), (1953, 902)]"

definition gdk_unicode_to_keysym_tab_1 :: "(nat \<times> nat) list" where
  "gdk_unicode_to_keysym_tab_1 =
  [(1954, 904), (1955, 905), (1956, 906), (1959, 908), (1960, 910), (1963, 911), (1974, 912),
   (1985, 913), (1986, 914), (1987, 915), (1988, 916), (1989, 917), (1990, 918), (1991, 919),
   (1992, 920), (1993, 921), (1994, 922), (1995, 923), (1996, 924), (1997, 925), (1998, 926),
   (1999, 927), (2000, 928), (2001, 929), (2002, 931), (2004, 932), (2005, 933), (2006, 934),
   (2007, 935), (2008, 936), (2009, 937), (1957, 938), (1961, 939), (1969, 940), (1970, 941),
   (1971, 942), (1972, 943), (1978, 944), (2017, 945), (2018, 946), (2019, 947), (2020, 948),
   (2021, 949), (2022, 950), (2023, 951), (2024, 952), (2025, 953), (2026, 954), (2027, 955),
   (2028, 956), (2029, 957), (2030, 958), (2031, 959), (2032, 960), (2033, 961), (2035, 962),
   (2034, 963), (2036, 964), (2037, 965), (2038, 966), (2039, 967), (2040, 968), (2041, 969),
   (1973, 970), (1977, 971), (1975, 972), (1976, 973), (1979, 974), (1715, 1025), (1713, 1026),
   (1714, 1027), (1716, 1028), (1717, 1029), (1718, 1030), (1719, 1031), (1720, 1032),
   (1721, 1033), (1722, 1034), (1723, 1035), (1724, 1036), (1726, 1038), (1727, 1039),
   (1761, 1040), (1762, 1041), (1783, 1042), (1767, 1043), (1764, 1044), (1765, 1045),
   (1782, 1046), (1786, 1047), (1769, 1048), (1770, 1049), (1771, 1050), (1772, 1051),
   (1773, 1052), (1774, 1053), (1775, 1054), (1776, 1055), (1778, 1056), (1779, 1057),
   (1780, 1058), (1781, 1059), (1766, 1060), (1768, 1061), (1763, 1062), (1790, 1063),
   (1787, 1064), (1789, 1065), (1791, 1066), (1785, 1067), (1784, 1068), (1788, 1069),
   (1760, 1070), (1777, 1071), (1729, 1072), (1730, 1073), (1751, 1074), (1735, 1075),
   (1732, 1076), (1733, 1077), (1750, 1078), (1754, 1079), (1737, 1080), (1738, 1081),
   (1739, 1082)]"

definition gdk_unicode_to_keysym_tab_2 :: "(nat \<times> nat) list" where
  "gdk_unicode_to_keysym_tab_2 =
  [(1740, 1083), (1741, 1084), (1742, 1085), (1743, 1086), (1744, 1087), (1746, 1088),
   (1747, 1089), (1748, 1090), (1749, 1091), (1734, 1092), (1736, 1093), (1731, 1094),
   (1758, 1095), (1755, 1096), (1757, 1097), (1759, 1098), (1753, 1099), (1752, 1100),
   (1756, 1101), (1728, 1102), (1745, 1103), (1699, 1105), (1697, 1106), (1698, 1107),
   (1700, 1108), (1701, 1109), (1702, 1110), (1703, 1111), (1704, 1112), (1705, 1113),
   (1706, 1114), (1707, 1115), (1708, 1116), (1710, 1118), (1711, 1119), (3296, 1488),
   (3297, 1489), (3298, 1490), (3299, 1491), (3300, 1492), (3301, 1493), (3302, 1494),
   (3303, 1495), (3304, 1496), (3305, 1497), (3306, 1498), (3307, 1499), (3308, 1500),
   (3309, 1501), (3310, 1502), (3311, 1503), (3312, 1504), (3313, 1505), (3314, 1506),
   (3315, 1507), (3316, 1508), (3317, 1509), (3318, 1510), (3319, 1511), (3320, 1512),
   (3321, 1513), (3322, 1514), (1452, 1548), (1467, 1563), (1471, 1567), (1473, 1569),
   (1474, 1570), (1475, 1571), (1476, 1572), (1477, 1573), (1478, 1574), (1479, 1575),
   (1480, 1576), (1481, 1577), (1482, 1578), (1483, 1579), (1484, 1580), (1485, 1581),
   (1486, 1582), (1487, 1583), (1488, 1584), (1489, 1585), (1490, 1586), (1491, 1587),
   (1492, 1588), (1493, 1589), (1494, 1590), (1495, 1591), (1496, 1592), (1497, 1593),
   (1498, 1594), (1504, 1600), (1505, 1601), (1506, 1602), (1507, 1603), (1508, 1604),
   (1509, 1605), (1510, 1606), (1511, 1607), (1512, 1608), (1513, 1609), (1514, 1610),
   (1515, 1611), (1516, 1612), (1517, 1613), (1518, 1614), (1519, 1615), (1520, 1616),
   (1521, 1617), (1522, 1618), (3489, 3585), (3490, 3586), (3491, 3587), (3492, 3588),
   (3493, 3589), (3494, 3590), (3495, 3591), (3496, 3592), (3497, 3593), (3498, 3594),
   (3499, 3595), (3500, 3596), (3501, 3597), (3502, 3598), (3503, 3599)]"

definition gdk_unicode_to_keysym_tab_3 :: "(nat \<times> nat) list" where
  "gdk_unicode_to_keysym_tab_3 =
  [(3504, 3600), (3505, 3601), (3506, 3602), (3507, 3603), (3508, 3604), (3509, 3605),
   (3510, 3606), (3511, 3607), (3512, 3608), (3513, 3609), (3514, 3610), (3515, 3611),
   (3516, 3612), (3517, 3613), (3518, 3614), (3519, 3615), (3520, 3616), (3521, 3617),
   (3522, 3618), (3523, 3619), (3524, 3620), (3525, 3621), (3526, 3622), (3527, 3623),
   (3528, 3624), (3529, 3625), (3530, 3626), (3531, 3627), (3532, 3628), (3533, 3629),
   (3534, 3630), (3535, 3631), (3536, 3632), (3537, 3633), (3538, 3634), (3539, 3635),
   (3540, 3636), (3541, 3637), (3542, 3638), (3543, 3639), (3544, 3640), (3545, 3641),
   (3546, 3642), (3551, 3647), (3552, 3648), (3553, 3649), (3554, 3650), (3555, 3651),
   (3556, 3652), (3557, 3653), (3558, 3654), (3559, 3655), (3560, 3656), (3561, 3657),
   (3562, 3658), (3563, 3659), (3564, 3660), (3565, 3661), (3568, 3664), (3569, 3665),
   (3570, 3666), (3571, 3667), (3572, 3668), (3573, 3669), (3574, 3670), (3575, 3671),
   (3576, 3672), (3577, 3673), (3796, 4520), (3797, 4521), (3798, 4522), (3799, 4523),
   (3800, 4524), (3801, 4525), (3802, 4526), (3803, 4527), (3804, 4528), (3805, 4529),
   (3806, 4530), (3807, 4531), (3808, 4532), (3809, 4533), (3810, 4534), (3811, 4535),
   (3812, 4536), (3813, 4537), (3814, 4538), (3815, 4539), (3816, 4540), (3817, 4541),
   (3818, 4542), (3819, 4543), (3820, 4544), (3821, 4545), (3822, 4546), (3832, 4587),
   (3834, 4601), (2722, 8194), (2721, 8195), (2723, 8196), (2724, 8197), (2725, 8199),
   (2726, 8200), (2727, 8201), (2728, 8202), (2747, 8210), (2730, 8211), (2729, 8212),
   (1967, 8213), (3295, 8215), (2768, 8216), (2769, 8217), (2813, 8218), (2770, 8220),
   (2771, 8221), (2814, 8222), (2801, 8224), (2802, 8225), (2790, 8226), (2734, 8230),
   (2774, 8242), (2775, 8243), (2812, 8248), (1150, 8254), (8352, 8352)]"

definition gdk_unicode_to_keysym_tab_4 :: "(nat \<times> nat) list" where
  "gdk_unicode_to_keysym_tab_4 =
  [(8353, 8353), (8354, 8354), (8355, 8355), (8356, 8356), (8357, 8357), (8358, 8358),
   (8359, 8359), (8360, 8360), (3839, 8361), (8361, 8361), (8362, 8362), (8363, 8363),
   (8364, 8364), (2744, 8453), (1712, 8470), (2811, 8471), (2772, 8478), (2761, 8482),
   (2736, 8531), (2737, 8532), (2738, 8533), (2739, 8534), (2740, 8535), (2741, 8536),
   (2742, 8537), (2743, 8538), (2755, 8539), (2756, 8540), (2757, 8541), (2758, 8542),
   (2299, 8592), (2300, 8593), (2301, 8594), (2302, 8595), (2254, 8658), (2253, 8660),
   (2287, 8706), (2245, 8711), (3018, 8728), (2262, 8730), (2241, 8733), (2242, 8734),
   (2270, 8743), (2985, 8743), (2271, 8744), (2984, 8744), (2268, 8745), (3011, 8745),
   (2269, 8746), (3030, 8746), (2239, 8747), (2240, 8756), (2248, 8773), (2237, 8800),
   (2255, 8801), (2236, 8804), (2238, 8805), (2266, 8834), (3034, 8834), (2267, 8835),
   (3032, 8835), (3068, 8866), (3036, 8867), (3010, 8868), (3022, 8869), (3027, 8968),
   (3012, 8970), (2810, 8981), (2212, 8992), (2213, 8993), (2748, 9001), (2750, 9002),
   (3020, 9109), (2530, 9225), (2533, 9226), (2537, 9227), (2531, 9228), (2532, 9229),
   (2527, 9250), (2536, 9252), (2545, 9472), (2214, 9474), (2552, 9474), (2540, 9484),
   (2539, 9488), (2541, 9492), (2538, 9496), (2548, 9500), (2549, 9508), (2551, 9516),
   (2550, 9524), (2542, 9532), (2529, 9618), (2783, 9632), (2767, 9633), (2791, 9642),
   (2785, 9643), (2779, 9644), (2786, 9645), (2792, 9650), (2787, 9651), (2781, 9654),
   (2765, 9655), (2793, 9660), (2788, 9661), (2780, 9664), (2764, 9665), (2528, 9670),
   (2766, 9675), (3023, 9675), (2782, 9679), (2784, 9702), (2789, 9734), (2809, 9742),
   (2762, 9747), (2794, 9756), (2795, 9758), (2808, 9792), (2807, 9794), (2796, 9827),
   (2798, 9829), (2797, 9830), (2806, 9837), (2805, 9839), (2803, 10003)]"

definition gdk_unicode_to_keysym_tab_5 :: "(nat \<times> nat) list" where
  "gdk_unicode_to_keysym_tab_5 =
  [(2804, 10007), (2777, 10013), (2800, 10016), (1188, 12289), (1185, 12290), (1186, 12300),
   (1187, 12301), (1246, 12443), (1247, 12444), (1191, 12449), (1201, 12450), (1192, 12451),
   (1202, 12452), (1193, 12453), (1203, 12454), (1194, 12455), (1204, 12456), (1195, 12457),
   (1205, 12458), (1206, 12459), (1207, 12461), (1208, 12463), (1209, 12465), (1210, 12467),
   (1211, 12469), (1212, 12471), (1213, 12473), (1214, 12475), (1215, 12477), (1216, 12479),
   (1217, 12481), (1199, 12483), (1218, 12484), (1219, 12486), (1220, 12488), (1221, 12490),
   (1222, 12491), (1223, 12492), (1224, 12493), (1225, 12494), (1226, 12495), (1227, 12498),
   (1228, 12501), (1229, 12504), (1230, 12507), (1231, 12510), (1232, 12511), (1233, 12512),
   (1234, 12513), (1235, 12514), (1196, 12515), (1236, 12516), (1197, 12517), (1237, 12518),
   (1198, 12519), (1238, 12520), (1239, 12521), (1240, 12522), (1241, 12523), (1242, 12524),
   (1243, 12525), (1244, 12527), (1190, 12530), (1245, 12531), (1189, 12539), (1200, 12540),
   (3745, 12593), (3746, 12594), (3747, 12595), (3748, 12596), (3749, 12597), (3750, 12598),
   (3751, 12599), (3752, 12600), (3753, 12601), (3754, 12602), (3755, 12603), (3756, 12604),
   (3757, 12605), (3758, 12606), (3759, 12607), (3760, 12608), (3761, 12609), (3762, 12610),
   (3763, 12611), (3764, 12612), (3765, 12613), (3766, 12614), (3767, 12615), (3768, 12616),
   (3769, 12617), (3770, 12618), (3771, 12619), (3772, 12620), (3773, 12621), (3774, 12622),
   (3775, 12623), (3776, 12624), (3777, 12625), (3778, 12626), (3779, 12627), (3780, 12628),
   (3781, 12629), (3782, 12630), (3783, 12631), (3784, 12632), (3785, 12633), (3786, 12634),
   (3787, 12635), (3788, 12636), (3789, 12637), (3790, 12638), (3791, 12639), (3792, 12640),
   (3793, 12641), (3794, 12642), (3795, 12643), (3823, 12653), (3824, 12657), (3825, 12664),
   (3826, 12671), (3828, 12676), (3829, 12678), (3830, 12685), (3831, 12686)]"

definition gdk_keysym_to_unicode_tab :: "(nat \<times> nat) list" where
  "gdk_keysym_to_unicode_tab =
     gdk_keysym_to_unicode_tab_0 @
     gdk_keysym_to_unicode_tab_1 @
     gdk_keysym_to_unicode_tab_2 @
     gdk_keysym_to_unicode_tab_3 @
     gdk_keysym_to_unicode_tab_4 @
     gdk_keysym_to_unicode_tab_5"

definition gdk_unicode_to_keysym_tab :: "(nat \<times> nat) list" where
  "gdk_unicode_to_keysym_tab =
     gdk_unicode_to_keysym_tab_0 @
     gdk_unicode_to_keysym_tab_1 @
     gdk_unicode_to_keysym_tab_2 @
     gdk_unicode_to_keysym_tab_3 @
     gdk_unicode_to_keysym_tab_4 @
     gdk_unicode_to_keysym_tab_5"

lemmas gdk_keysym_to_unicode_tab_defs =
  gdk_keysym_to_unicode_tab_def gdk_keysym_to_unicode_tab_0_def
  gdk_keysym_to_unicode_tab_1_def
  gdk_keysym_to_unicode_tab_2_def
  gdk_keysym_to_unicode_tab_3_def
  gdk_keysym_to_unicode_tab_4_def
  gdk_keysym_to_unicode_tab_5_def

lemmas gdk_unicode_to_keysym_tab_defs =
  gdk_unicode_to_keysym_tab_def gdk_unicode_to_keysym_tab_0_def
  gdk_unicode_to_keysym_tab_1_def
  gdk_unicode_to_keysym_tab_2_def
  gdk_unicode_to_keysym_tab_3_def
  gdk_unicode_to_keysym_tab_4_def
  gdk_unicode_to_keysym_tab_5_def

section \<open>The tables are consistent\<close>

text \<open>The first table is strictly ordered, and every entry of the second is one of the first.\<close>

fun increasing :: "nat list \<Rightarrow> bool" where
  "increasing (x # y # zs) = (x < y \<and> increasing (y # zs))"
| "increasing _ = True"

lemma increasing_sorted: "increasing xs \<Longrightarrow> sorted_wrt (<) xs"
proof (induction xs rule: increasing.induct)
  case (1 x y zs)
  then show ?case using order_less_trans by fastforce
qed auto

lemma keysym_tab_increasing: "sorted_wrt (<) (map fst gdk_keysym_to_unicode_tab)"
  by (rule increasing_sorted) (simp add: gdk_keysym_to_unicode_tab_defs)

lemma unicode_tab_all:
  "list_all P gdk_keysym_to_unicode_tab \<Longrightarrow> list_all P gdk_unicode_to_keysym_tab"
  by (simp only: gdk_keysym_to_unicode_tab_defs gdk_unicode_to_keysym_tab_defs append.simps
        list.pred_inject simp_thms)

lemma unicode_tab_subset: "set gdk_unicode_to_keysym_tab \<subseteq> set gdk_keysym_to_unicode_tab"
  using unicode_tab_all [of "\<lambda>x. x \<in> set gdk_keysym_to_unicode_tab"]
  by (auto simp: list_all_iff)

lemma keysym_tab_range:
  "list_all (\<lambda>(k, u). 0x1a1 \<le> k \<and> k \<le> 0xffff \<and> k \<noteq> 0xfe20 \<and> u \<noteq> 0 \<and> u \<le> 0xffff) gdk_keysym_to_unicode_tab"
  by (simp add: gdk_keysym_to_unicode_tab_defs)

end
