(* ===== verification/CString.thy ===== *)
theory CString
  imports Prelude
begin

text \<open>
  The functions of the C library on strings and sorted arrays that the program calls: \<open>strcspn\<close>,
  \<open>strspn\<close>, \<open>strstr\<close>, \<open>strrchr\<close>, \<open>strcmp\<close>, \<open>strncmp\<close>, \<open>strtok_r\<close>, \<open>bsearch\<close>, and the conversions of numbers.
  \<open>bytes\<close> turns a string literal into the bytes it stands for.
\<close>

definition bytes :: "string \<Rightarrow> cstr" where
  "bytes s = map of_char s"

definition strcspn :: "cstr \<Rightarrow> cstr \<Rightarrow> nat" where
  "strcspn s reject = length (takeWhile (\<lambda>c. c \<notin> set reject) s)"

definition strspn :: "cstr \<Rightarrow> cstr \<Rightarrow> nat" where
  "strspn s accept = length (takeWhile (\<lambda>c. c \<in> set accept) s)"

text \<open>The offset of the first occurrence, of the last byte, and the comparisons.\<close>

fun strstr :: "cstr \<Rightarrow> cstr \<Rightarrow> nat option" where
  "strstr [] m = (if m = [] then Some 0 else None)"
| "strstr (c # s) m =
     (if take (length m) (c # s) = m then Some 0 else map_option Suc (strstr s m))"

fun strrchr :: "cstr \<Rightarrow> byte \<Rightarrow> nat option" where
  "strrchr [] c = (if c = 0 then Some 0 else None)"
| "strrchr (d # s) c =
     (case strrchr s c of Some i \<Rightarrow> Some (Suc i) | None \<Rightarrow> if d = c then Some 0 else None)"

fun strcmp :: "cstr \<Rightarrow> cstr \<Rightarrow> int" where
  "strcmp [] [] = 0"
| "strcmp [] (b # t) = - uint b"
| "strcmp (a # s) [] = uint a"
| "strcmp (a # s) (b # t) = (if a = b then strcmp s t else uint a - uint b)"

definition strncmp :: "cstr \<Rightarrow> cstr \<Rightarrow> nat \<Rightarrow> int" where
  "strncmp s t n = strcmp (take n s) (take n t)"

text \<open>The tokens \<open>strtok_r\<close> finds: the maximal runs of bytes that are no separators.\<close>

function strtok :: "cstr \<Rightarrow> cstr \<Rightarrow> cstr list" where
  "strtok seps s =
     (let s = dropWhile (\<lambda>c. c \<in> set seps) s in
      if s = [] then []
      else takeWhile (\<lambda>c. c \<notin> set seps) s # strtok seps (dropWhile (\<lambda>c. c \<notin> set seps) s))"
  by pat_completeness auto
termination
proof (relation "measure (length \<circ> snd)")
  fix seps s and x :: cstr
  assume x: "x = dropWhile (\<lambda>c. c \<in> set seps) s" and ne: "x \<noteq> []"
  have "hd x \<notin> set seps" using hd_dropWhile [of "\<lambda>c. c \<in> set seps" s] x ne by auto
  then have "dropWhile (\<lambda>c. c \<notin> set seps) x = dropWhile (\<lambda>c. c \<notin> set seps) (tl x)"
    using ne by (cases x) auto
  moreover have "length (dropWhile (\<lambda>c. c \<notin> set seps) (tl x)) < length x"
    using ne length_dropWhile_le [of "\<lambda>c. c \<notin> set seps" "tl x"] by (cases x) auto
  moreover have "length x \<le> length s" by (simp add: x length_dropWhile_le)
  ultimately show "((seps, dropWhile (\<lambda>c. c \<notin> set seps) x), (seps, s)) \<in> measure (length \<circ> snd)"
    by simp
qed simp

declare strtok.simps [simp del]

text \<open>The binary search of the library, over an array and a comparison of the key with an element.\<close>

function bsearch_range :: "('a \<Rightarrow> int) \<Rightarrow> 'a list \<Rightarrow> nat \<Rightarrow> nat \<Rightarrow> nat option" where
  "bsearch_range cmp base l u =
     (if l < u
      then let idx = (l + u) div 2; c = cmp (base ! idx) in
           if c < 0 then bsearch_range cmp base l idx
           else if c > 0 then bsearch_range cmp base (idx + 1) u
           else Some idx
      else None)"
  by pat_completeness auto
termination
  by (relation "measure (\<lambda>(cmp, base, l, u). u - l)") auto

declare bsearch_range.simps [simp del]

definition bsearch :: "('a \<Rightarrow> int) \<Rightarrow> 'a list \<Rightarrow> nat option" where
  "bsearch cmp base = bsearch_range cmp base 0 (length base)"

section \<open>Lemmas\<close>

lemma bytes_simps [simp]: "bytes [] = []" "bytes (c # s) = of_char c # bytes s"
  by (simp_all add: bytes_def)

lemma strcmp_eq_0 [simp]: "c_string s \<Longrightarrow> c_string t \<Longrightarrow> strcmp s t = 0 \<longleftrightarrow> s = t"
  by (induction s t rule: strcmp.induct) (auto simp: word_uint_eq_iff)

lemma strstr_Some: "strstr s m = Some i \<Longrightarrow> i + length m \<le> length s \<and> take (length m) (drop i s) = m"
proof (induction s m arbitrary: i rule: strstr.induct)
  case (2 c s m)
  show ?case
  proof (cases "take (length m) (c # s) = m")
    case True
    have "length (take (length m) (c # s)) = length m" by (simp only: True)
    then have "length m \<le> length (c # s)" by (simp only: length_take)
    with 2 True show ?thesis by simp
  next
    case False
    with 2 show ?thesis by auto
  qed
qed (auto split: if_splits)

lemma strstr_None: "strstr s m = None \<Longrightarrow> i \<le> length s \<Longrightarrow> take (length m) (drop i s) \<noteq> m"
proof (induction s m arbitrary: i rule: strstr.induct)
  case (2 c s m)
  then show ?case by (cases i) (auto split: if_splits)
qed (auto split: if_splits)

lemma strstr_first: "strstr s m = Some i \<Longrightarrow> j < i \<Longrightarrow> take (length m) (drop j s) \<noteq> m"
proof (induction s m arbitrary: i j rule: strstr.induct)
  case (2 c s m)
  then show ?case by (cases j) (auto split: if_splits)
qed (auto split: if_splits)

lemma bsearch_range_sound:
  "bsearch_range cmp base l u = Some i \<Longrightarrow> l \<le> i \<and> i < u \<and> cmp (base ! i) = 0"
proof (induction cmp base l u rule: bsearch_range.induct)
  case (1 cmp base l u)
  let ?idx = "(l + u) div 2"
  have lu: "l < u" using "1.prems" by (subst (asm) bsearch_range.simps) (auto split: if_splits)
  then have idx: "l \<le> ?idx" "?idx < u" by auto
  consider (less) "cmp (base ! ?idx) < 0" | (greater) "cmp (base ! ?idx) > 0"
    | (equal) "cmp (base ! ?idx) = 0" by linarith
  then show ?case
  proof cases
    case less
    then have "bsearch_range cmp base l ?idx = Some i"
      using "1.prems" lu by (subst (asm) bsearch_range.simps) simp
    from "1.IH"(1) [OF lu refl refl less this] idx show ?thesis by simp
  next
    case greater
    then have "bsearch_range cmp base (?idx + 1) u = Some i"
      using "1.prems" lu by (subst (asm) bsearch_range.simps) simp
    from "1.IH"(2) [OF lu refl refl _ greater this] greater idx show ?thesis by simp
  next
    case equal
    then have "i = ?idx" using "1.prems" lu by (subst (asm) bsearch_range.simps) simp
    with equal idx show ?thesis by simp
  qed
qed

lemma bsearch_sound: "bsearch cmp base = Some i \<Longrightarrow> i < length base \<and> cmp (base ! i) = 0"
  using bsearch_range_sound by (fastforce simp: bsearch_def)

text \<open>On an array ordered for the comparison it finds whatever is there.\<close>

definition ordered_for :: "('a \<Rightarrow> int) \<Rightarrow> 'a list \<Rightarrow> bool" where
  "ordered_for cmp base \<longleftrightarrow>
     (\<forall>i j. i < j \<longrightarrow> j < length base \<longrightarrow>
        (cmp (base ! j) > 0 \<longrightarrow> cmp (base ! i) > 0) \<and> (cmp (base ! i) < 0 \<longrightarrow> cmp (base ! j) < 0) \<and>
        (cmp (base ! j) = 0 \<longrightarrow> cmp (base ! i) \<ge> 0) \<and> (cmp (base ! i) = 0 \<longrightarrow> cmp (base ! j) \<le> 0))"

lemma bsearch_range_complete:
  "ordered_for cmp base \<Longrightarrow> u \<le> length base \<Longrightarrow> l \<le> i \<Longrightarrow> i < u \<Longrightarrow> cmp (base ! i) = 0 \<Longrightarrow>
   bsearch_range cmp base l u \<noteq> None"
proof (induction cmp base l u rule: bsearch_range.induct)
  case (1 cmp base l u)
  let ?idx = "(l + u) div 2"
  have lu: "l < u" using "1.prems" by simp
  have idx: "?idx < length base" "l \<le> ?idx" "?idx < u" using lu "1.prems"(2) by auto
  consider "cmp (base ! ?idx) < 0" | "cmp (base ! ?idx) > 0" | "cmp (base ! ?idx) = 0" by linarith
  then show ?case
  proof cases
    case 1
    have "i < ?idx"
      using "1.prems" 1 idx unfolding ordered_for_def
      by (metis less_irrefl linorder_neqE_nat order_less_le_trans)
    then have "bsearch_range cmp base l ?idx \<noteq> None"
      using "1.IH"(1) [OF lu refl refl 1] "1.prems" idx by simp
    then show ?thesis using lu 1 by (subst bsearch_range.simps) simp
  next
    case 2
    have "?idx < i"
      using "1.prems" 2 idx unfolding ordered_for_def
      by (metis less_irrefl linorder_neqE_nat)
    then have "bsearch_range cmp base (?idx + 1) u \<noteq> None"
      using "1.IH"(2) [OF lu refl refl _ 2] "1.prems" 2 by simp
    then show ?thesis using lu 2 by (subst bsearch_range.simps) simp
  next
    case 3
    then show ?thesis using lu by (subst bsearch_range.simps) simp
  qed
qed

lemma bsearch_complete:
  "ordered_for cmp base \<Longrightarrow> i < length base \<Longrightarrow> cmp (base ! i) = 0 \<Longrightarrow> bsearch cmp base \<noteq> None"
  unfolding bsearch_def by (rule bsearch_range_complete) auto

section \<open>Numbers\<close>

text \<open>The conversions of \<open>sprintf\<close> with \<open>%d\<close> or \<open>%u\<close>, of \<open>atoi\<close>, and of \<open>%d\<close> of \<open>sscanf\<close> with the rest of the
  input.  Numbers that do not fit an \<open>int\<close> are not used.\<close>

definition is_digit :: "byte \<Rightarrow> bool" where
  "is_digit c \<longleftrightarrow> 48 \<le> c \<and> c \<le> 57"

definition c_isspace :: "byte \<Rightarrow> bool" where
  "c_isspace c \<longleftrightarrow> c = 32 \<or> (9 \<le> c \<and> c \<le> 13)"

definition digits_value :: "cstr \<Rightarrow> int" where
  "digits_value s = fold (\<lambda>c n. 10 * n + (uint c - 48)) (takeWhile is_digit s) 0"

definition atoi :: "cstr \<Rightarrow> int" where
  "atoi s =
     (case dropWhile c_isspace s of
        [] \<Rightarrow> 0
      | c # t \<Rightarrow> if c = 45 then - digits_value t else if c = 43 then digits_value t else digits_value (c # t))"

definition scan_int :: "cstr \<Rightarrow> (int \<times> cstr) option" where
  "scan_int s =
     (let s = dropWhile c_isspace s;
          t = (if s \<noteq> [] \<and> (hd s = 45 \<or> hd s = 43) then tl s else s)
      in if t = [] \<or> \<not> is_digit (hd t) then None
         else Some ((if hd s = 45 then - digits_value t else digits_value t), dropWhile is_digit t))"

fun decimal_nat :: "nat \<Rightarrow> cstr" where
  "decimal_nat n = (if n < 10 then [48 + word_of_nat n] else decimal_nat (n div 10) @ [48 + word_of_nat (n mod 10)])"

declare decimal_nat.simps [simp del]

definition decimal :: "int \<Rightarrow> cstr" where
  "decimal i = (if i < 0 then 45 # decimal_nat (nat (- i)) else decimal_nat (nat i))"

lemma digit_byte:
  "n < 10 \<Longrightarrow> is_digit (48 + word_of_nat n) \<and> uint (48 + word_of_nat n :: byte) = 48 + int n"
proof -
  assume "n < 10"
  then have "n \<in> set [0..<10]" by simp
  then show ?thesis by (auto simp: upt_rec is_digit_def)
qed

lemma decimal_nat_digits: "list_all is_digit (decimal_nat n) \<and> decimal_nat n \<noteq> []"
proof (induction n rule: decimal_nat.induct)
  case (1 n)
  then show ?case by (subst (1 2) decimal_nat.simps) (auto simp: digit_byte)
qed

lemma fold_digits: "fold (\<lambda>c n. 10 * n + (uint c - 48)) (decimal_nat n) 0 = int n"
proof (induction n rule: decimal_nat.induct)
  case (1 n)
  show ?case
  proof (cases "n < 10")
    case True
    then show ?thesis by (subst decimal_nat.simps) (simp add: digit_byte)
  next
    case False
    then show ?thesis using 1 digit_byte [of "n mod 10"]
      by (subst decimal_nat.simps) (simp add: zdiv_int zmod_int)
  qed
qed

lemma digits_value_decimal: "rest = [] \<or> \<not> is_digit (hd rest) \<Longrightarrow> digits_value (decimal_nat n @ rest) = int n"
proof -
  assume r: "rest = [] \<or> \<not> is_digit (hd rest)"
  have "takeWhile is_digit (decimal_nat n @ rest) = decimal_nat n"
    using decimal_nat_digits [of n] r by (cases rest) (auto simp: takeWhile_append list_all_iff)
  then show ?thesis by (simp add: digits_value_def fold_digits)
qed

lemma digit_not_space: "is_digit c \<Longrightarrow> \<not> c_isspace c \<and> c \<noteq> 45 \<and> c \<noteq> 43 \<and> c \<noteq> 0 \<and> c \<noteq> 47 \<and> c \<noteq> 10"
  unfolding is_digit_def c_isspace_def by unat_arith

lemma atoi_decimal: "atoi (decimal i) = i"
proof -
  have d: "atoi (decimal_nat n) = int n" for n
  proof -
    obtain c t where c: "decimal_nat n = c # t" "is_digit c"
      using decimal_nat_digits [of n] by (cases "decimal_nat n") auto
    then have "dropWhile c_isspace (decimal_nat n) = c # t" by (simp add: digit_not_space)
    then show ?thesis using digits_value_decimal [of "[]" n] c digit_not_space [OF c(2)] by (simp add: atoi_def)
  qed
  have "atoi (45 # s) = - digits_value s" for s by (simp add: atoi_def c_isspace_def)
  then show ?thesis using d digits_value_decimal [of "[]"] by (simp add: decimal_def)
qed

lemma decimal_nat_inj: "decimal_nat m = decimal_nat n \<longleftrightarrow> m = n"
  by (metis fold_digits of_nat_eq_iff)
end
