(* ===== verification/Bits.thy ===== *)
theory Bits
  imports Prelude
begin

text \<open>
  Bit-level lemmas on machine words.  The simplifier reads the bits of a word literal from the
  bits of the integer literal; \<open>const_bits\<close> gives those for the masks and tags the C code uses,
  so that equations between masked and shifted words follow by extensionality on bits.
\<close>

named_theorems word_bits "bit-wise reading of words"

lemma int_masks:
  "(0xc0::int) = push_bit 6 (mask 2)"
  "(0xe0::int) = push_bit 5 (mask 3)"
  "(0xf0::int) = push_bit 4 (mask 4)"
  "(0x80::int) = push_bit 7 (mask 1)"
  "(0xf8::int) = push_bit 3 (mask 5)"
  "(0xfc::int) = push_bit 2 (mask 6)"
  "(0xfe::int) = push_bit 1 (mask 7)"
  "(0x3f::int) = push_bit 0 (mask 6)"
  "(0x1f::int) = push_bit 0 (mask 5)"
  "(0xf::int) = push_bit 0 (mask 4)"
  "(0x7::int) = push_bit 0 (mask 3)"
  "(0x3::int) = push_bit 0 (mask 2)"
  "(0xff::int) = push_bit 0 (mask 8)"
  by (simp_all add: mask_eq_exp_minus_1 push_bit_eq_mult)

lemma bit_shifted_mask:
  "bit (push_bit k (mask m) :: int) n \<longleftrightarrow> k \<le> n \<and> n < k + m"
  by (auto simp: bit_push_bit_iff bit_mask_iff possible_bit_def)

lemma const_bits [word_bits]:
  "bit (0xc0::int) n \<longleftrightarrow> 6 \<le> n \<and> n < 8"
  "bit (0xe0::int) n \<longleftrightarrow> 5 \<le> n \<and> n < 8"
  "bit (0xf0::int) n \<longleftrightarrow> 4 \<le> n \<and> n < 8"
  "bit (0x80::int) n \<longleftrightarrow> 7 \<le> n \<and> n < 8"
  "bit (0xf8::int) n \<longleftrightarrow> 3 \<le> n \<and> n < 8"
  "bit (0xfc::int) n \<longleftrightarrow> 2 \<le> n \<and> n < 8"
  "bit (0xfe::int) n \<longleftrightarrow> 1 \<le> n \<and> n < 8"
  "bit (0x3f::int) n \<longleftrightarrow> 0 \<le> n \<and> n < 6"
  "bit (0x1f::int) n \<longleftrightarrow> 0 \<le> n \<and> n < 5"
  "bit (0xf::int) n \<longleftrightarrow> 0 \<le> n \<and> n < 4"
  "bit (0x7::int) n \<longleftrightarrow> 0 \<le> n \<and> n < 3"
  "bit (0x3::int) n \<longleftrightarrow> 0 \<le> n \<and> n < 2"
  "bit (0xff::int) n \<longleftrightarrow> 0 \<le> n \<and> n < 8"
  unfolding int_masks bit_shifted_mask by auto

lemma bit_one_word [word_bits]: "bit (1::'a::len word) n \<longleftrightarrow> n = 0"
  by (simp add: bit_1_iff)

lemmas bit_ops [word_bits] =
  bit_and_iff bit_or_iff bit_push_bit_iff bit_drop_bit_eq bit_unsigned_iff

declare and_one_eq [simp del] one_and_eq [simp del] push_bit_and [simp del]

lemma word_bound_bit: "(c::'a::len word) < 2 ^ k \<Longrightarrow> bit c n \<Longrightarrow> n < k"
  by (metis bit_take_bit_iff less_mask_eq take_bit_eq_mask)

lemma word_bit_bound:
  assumes high: "\<And>n. k \<le> n \<Longrightarrow> \<not> bit (c::'a::len word) n" and k: "k < LENGTH('a)"
  shows "c < 2 ^ k"
proof -
  have "c AND mask k = c"
  proof (rule bit_word_eqI)
    fix n
    show "bit (c AND mask k) n = bit c n"
      using high [of n] by (cases "n < k") (auto simp: bit_and_iff bit_mask_iff dest: bit_imp_le_length)
  qed
  moreover have "c AND mask k < 2 ^ k"
    using k by (simp add: and_mask_less_size word_size)
  ultimately show ?thesis by simp
qed

end
