(* ===== verification/StringUtils.thy ===== *)
theory StringUtils
  imports CString Bits
begin

text \<open>
  The string routines of \<open>src/lib/fcitx-utils/stringutils.c\<close>: escaping and unescaping,
  concatenation into a buffer, trimming, backward search, replacement.  A returned string is the
  list of its bytes; \<open>None\<close> as the result of a fallible operation is an access outside a string or
  a buffer.
\<close>

section \<open>Copies and concatenation\<close>

definition fcitx_utils_set_str_with_len :: "cstr \<Rightarrow> nat \<Rightarrow> cstr option" where
  "fcitx_utils_set_str_with_len str len =
     (if len \<le> length str then Some (take len str)
      else if len = length str + 1 then Some str else None)"

definition fcitx_utils_strdup :: "cstr option \<Rightarrow> cstr option" where
  "fcitx_utils_strdup str = str"

definition fcitx_utils_string_swap :: "cstr option \<Rightarrow> cstr option \<Rightarrow> cstr option" where
  "fcitx_utils_string_swap obj str = (case str of Some s \<Rightarrow> Some s | None \<Rightarrow> None)"

text \<open>The sizes, and the number of bytes the concatenation needs with its terminator.\<close>

definition fcitx_utils_str_lens :: "cstr option list \<Rightarrow> nat list \<times> nat" where
  "fcitx_utils_str_lens strs =
     (let sizes = map (\<lambda>s. case s of Some s \<Rightarrow> length s | None \<Rightarrow> 0) strs
      in (sizes, sum_list sizes + 1))"

definition source_bytes :: "cstr option \<Rightarrow> nat \<Rightarrow> byte list option" where
  "source_bytes s n = do { s \<leftarrow> s; if n \<le> length s + 1 then Some (take n (s @ [0])) else None }"

fun cat_str_from :: "byte list \<Rightarrow> nat \<Rightarrow> (cstr option \<times> nat) list \<Rightarrow> byte list option" where
  "cat_str_from buf out [] = wr buf out [0]"
| "cat_str_from buf out ((s, n) # rest) =
     (if n = 0 then cat_str_from buf out rest
      else do { bs \<leftarrow> source_bytes s n; buf \<leftarrow> wr buf out bs; cat_str_from buf (out + n) rest })"

definition fcitx_utils_cat_str :: "byte list \<Rightarrow> cstr option list \<Rightarrow> nat list \<Rightarrow> byte list option" where
  "fcitx_utils_cat_str buf strs sizes = cat_str_from buf 0 (zip strs sizes)"

fun cat_str_until :: "nat \<Rightarrow> byte list \<Rightarrow> nat \<Rightarrow> (cstr option \<times> nat) list \<Rightarrow> byte list option" where
  "cat_str_until limit buf out [] = wr buf out [0]"
| "cat_str_until limit buf out ((s, n) # rest) =
     (if n = 0 then cat_str_until limit buf out rest
      else if out + n > limit
      then do { bs \<leftarrow> source_bytes s (limit - out); buf \<leftarrow> wr buf out bs; wr buf limit [0] }
      else do { bs \<leftarrow> source_bytes s n; buf \<leftarrow> wr buf out bs; cat_str_until limit buf (out + n) rest })"

text \<open>A length of 0 puts the limit before the buffer.\<close>

definition fcitx_utils_cat_str_with_len ::
  "byte list \<Rightarrow> nat \<Rightarrow> cstr option list \<Rightarrow> nat list \<Rightarrow> byte list option" where
  "fcitx_utils_cat_str_with_len buf len strs sizes =
     (if len = 0 then None else cat_str_until (len - 1) buf 0 (zip strs sizes))"

text \<open>The macro \<open>fcitx_utils_alloc_cat_str\<close>: the buffer is as long as the sizes ask for.\<close>

definition fcitx_utils_alloc_cat_str :: "cstr option list \<Rightarrow> byte list option" where
  "fcitx_utils_alloc_cat_str strs =
     (let (sizes, total) = fcitx_utils_str_lens strs
      in fcitx_utils_cat_str (replicate total 0) strs sizes)"

section \<open>Escapes\<close>

definition fcitx_utils_unescape_char :: "byte \<Rightarrow> byte" where
  "fcitx_utils_unescape_char c =
     (if c = 97 then 7 else if c = 98 then 8 else if c = 102 then 12 else if c = 110 then 10
      else if c = 114 then 13 else if c = 116 then 9 else if c = 101 then 27
      else if c = 118 then 11 else c)"

definition fcitx_utils_escape_char :: "byte \<Rightarrow> byte" where
  "fcitx_utils_escape_char c =
     (if c = 7 then 97 else if c = 8 then 98 else if c = 12 then 102 else if c = 10 then 110
      else if c = 13 then 114 else if c = 9 then 116 else if c = 27 then 101
      else if c = 11 then 118 else c)"

definition FCITX_CHAR_NEED_ESCAPE :: cstr where
  "FCITX_CHAR_NEED_ESCAPE = [7, 8, 12, 10, 13, 9, 27, 11, 39, 34, 92]"

text \<open>Every round copies the run before the next byte of the set and the escaped byte.\<close>

function escape_loop :: "cstr \<Rightarrow> cstr \<Rightarrow> cstr" where
  "escape_loop chars src =
     (let len = strcspn src chars in
      if len < length src
      then take len src @ [92, fcitx_utils_escape_char (src ! len)] @
           escape_loop chars (drop (len + 1) src)
      else take len src)"
  by pat_completeness auto
termination by (relation "measure (length \<circ> snd)") (auto simp: strcspn_def)

declare escape_loop.simps [simp del]

definition fcitx_utils_set_escape_str_with_set :: "cstr \<Rightarrow> cstr option \<Rightarrow> cstr" where
  "fcitx_utils_set_escape_str_with_set str chars =
     escape_loop (case chars of None \<Rightarrow> FCITX_CHAR_NEED_ESCAPE | Some s \<Rightarrow> s) str"

text \<open>
  Unescaping; after a backslash that ends the string the source pointer moves past the terminator
  and is read there.
\<close>

function fcitx_utils_set_unescape_str :: "cstr \<Rightarrow> cstr option" where
  "fcitx_utils_set_unescape_str src =
     (let len = strcspn src [92] in
      if len < length src
      then if len + 1 < length src
           then do {
             rest \<leftarrow> fcitx_utils_set_unescape_str (drop (len + 2) src);
             Some (take len src @ [fcitx_utils_unescape_char (src ! (len + 1))] @ rest) }
           else None
      else Some (take len src))"
  by pat_completeness auto
termination by (relation "measure length") auto

declare fcitx_utils_set_unescape_str.simps [simp del]

text \<open>In place: one buffer, \<open>memmove\<close> from \<open>src\<close> down to \<open>dest\<close>, both offsets.\<close>

definition memmove :: "byte list \<Rightarrow> nat \<Rightarrow> nat \<Rightarrow> nat \<Rightarrow> byte list option" where
  "memmove buf dest src n =
     (if src + n \<le> length buf then wr buf dest (take n (drop src buf)) else None)"

definition strend :: "byte list \<Rightarrow> cstr" where
  "strend buf = takeWhile (\<lambda>c. c \<noteq> 0) buf"

definition copy_run :: "byte list \<Rightarrow> nat \<Rightarrow> nat \<Rightarrow> nat \<Rightarrow> byte list option" where
  "copy_run buf dest src n = (if dest \<noteq> src \<and> n \<noteq> 0 then memmove buf dest src n else Some buf)"

function unescape_inplace_loop :: "byte list \<Rightarrow> nat \<Rightarrow> nat \<Rightarrow> byte list option" where
  "unescape_inplace_loop buf dest src =
     (if length buf \<le> src then None
      else
        let s = strend (drop src buf); len = strcspn s [92] in
        if len < length s
        then case copy_run buf dest src len of
            None \<Rightarrow> None
          | Some buf1 \<Rightarrow>
              if length buf \<le> src + len + 1 then None
              else case wr buf1 (dest + len) [fcitx_utils_unescape_char (buf1 ! (src + len + 1))] of
                  None \<Rightarrow> None
                | Some buf2 \<Rightarrow> unescape_inplace_loop buf2 (dest + len + 1) (src + len + 2)
        else do {
          buf \<leftarrow> copy_run buf dest src len;
          wr buf (dest + len) [0] })"
  by pat_completeness auto
termination
  by (relation "measure (\<lambda>(buf, dest, src). length buf - src)")
     (auto simp: copy_run_def memmove_def split: if_splits dest!: wr_length)

declare unescape_inplace_loop.simps [simp del]

definition fcitx_utils_unescape_str_inplace :: "byte list \<Rightarrow> byte list option" where
  "fcitx_utils_unescape_str_inplace buf = unescape_inplace_loop buf 0 0"

section \<open>Trimming\<close>

definition WHITE_SPACE :: cstr where
  "WHITE_SPACE = [12, 10, 13, 9, 11, 32]"

definition fcitx_utils_isspace :: "byte \<Rightarrow> bool" where
  "fcitx_utils_isspace c \<longleftrightarrow> c = 12 \<or> c = 10 \<or> c = 13 \<or> c = 9 \<or> c = 11 \<or> c = 32"

definition fcitx_utils_islower :: "byte \<Rightarrow> bool" where
  "fcitx_utils_islower c \<longleftrightarrow> 97 \<le> c \<and> c \<le> 122"

definition fcitx_utils_isupper :: "byte \<Rightarrow> bool" where
  "fcitx_utils_isupper c \<longleftrightarrow> 65 \<le> c \<and> c \<le> 90"

definition fcitx_utils_tolower :: "byte \<Rightarrow> byte" where
  "fcitx_utils_tolower c = (if fcitx_utils_isupper c then c - 65 + 97 else c)"

definition fcitx_utils_toupper :: "byte \<Rightarrow> byte" where
  "fcitx_utils_toupper c = (if fcitx_utils_islower c then c - 97 + 65 else c)"

definition fcitx_utils_isdigit :: "byte \<Rightarrow> bool" where
  "fcitx_utils_isdigit c \<longleftrightarrow> 48 \<le> c \<and> c \<le> 57"

text \<open>The loop that moves \<open>end\<close> back over spaces, and the two offsets the helper stores.\<close>

fun skip_trailing :: "cstr \<Rightarrow> nat \<Rightarrow> nat \<Rightarrow> nat" where
  "skip_trailing s start 0 = 0"
| "skip_trailing s start (Suc e) =
     (if start \<le> e \<and> fcitx_utils_isspace (s ! e) then skip_trailing s start e else Suc e)"

definition fcitx_utils_trim_helper :: "cstr \<Rightarrow> nat \<times> nat" where
  "fcitx_utils_trim_helper s =
     (let start = strspn s WHITE_SPACE in (start, skip_trailing s start (length s)))"

text \<open>\<open>fcitx_utils_trim\<close> copies from \<open>s\<close>, not from \<open>start\<close>.\<close>

definition fcitx_utils_trim :: "cstr \<Rightarrow> cstr" where
  "fcitx_utils_trim s = (let (start, end) = fcitx_utils_trim_helper s in take end s)"

text \<open>In place: the string left in the buffer and the offset of its start.\<close>

definition fcitx_utils_inplace_trim :: "cstr \<Rightarrow> cstr \<times> nat" where
  "fcitx_utils_inplace_trim s =
     (let (start, end) = fcitx_utils_trim_helper s in (take end s, start))"

section \<open>Search\<close>

text \<open>The bytes are of type \<open>char\<close>, which is signed; the sums wrap at 32 bits.\<close>

definition char_uint :: "byte \<Rightarrow> u32" where
  "char_uint c = scast c"

fun window_hash :: "cstr \<Rightarrow> u32" where
  "window_hash [] = 0"
| "window_hash (c # w) = push_bit 1 (window_hash w) + char_uint c"

definition REHASH :: "u32 \<Rightarrow> nat \<Rightarrow> byte \<Rightarrow> u32" where
  "REHASH h ol_minus_1 a =
     push_bit 1 (if ol_minus_1 < 32 then h - push_bit ol_minus_1 (char_uint a) else h)"

fun backward_loop :: "cstr \<Rightarrow> cstr \<Rightarrow> nat \<Rightarrow> u32 \<Rightarrow> nat option" where
  "backward_loop haystack needle h hash =
     (let hash = hash + char_uint ((haystack @ [0]) ! h) in
      if hash = window_hash needle \<and> take (length needle) (drop h haystack) = needle
      then Some h
      else case h of
          0 \<Rightarrow> None
        | Suc h' \<Rightarrow>
            backward_loop haystack needle h'
              (REHASH hash (length needle - 1) (haystack ! (h' + length needle))))"

declare backward_loop.simps [simp del]

definition fcitx_utils_backward_search :: "cstr \<Rightarrow> cstr \<Rightarrow> nat \<Rightarrow> nat option" where
  "fcitx_utils_backward_search haystack needle from =
     (let l = length haystack; ol = length needle in
      if ol > l then None
      else if from > l then None
      else
        let from = (if from > l - ol then l - ol else from);
            hash = window_hash (take ol (drop from haystack)) - char_uint ((haystack @ [0]) ! from)
        in backward_loop haystack needle from hash)"

definition fcitx_utils_strrstr :: "cstr \<Rightarrow> cstr \<Rightarrow> nat option" where
  "fcitx_utils_strrstr haystack needle =
     (case needle of
        [] \<Rightarrow> None
      | [c] \<Rightarrow> strrchr haystack c
      | _ \<Rightarrow> fcitx_utils_backward_search haystack needle 0)"

definition fcitx_utils_string_starts_with :: "cstr \<Rightarrow> cstr \<Rightarrow> bool" where
  "fcitx_utils_string_starts_with s needle \<longleftrightarrow> strncmp s needle (length needle) = 0"

definition fcitx_utils_string_ends_with :: "cstr \<Rightarrow> cstr \<Rightarrow> bool" where
  "fcitx_utils_string_ends_with s needle =
     (if length s < length needle then False
      else strncmp (drop (length s - length needle) s) needle (length needle) = 0)"

section \<open>Replacement\<close>

definition MAX_REPLACE_INDICES_NUM :: nat where
  "MAX_REPLACE_INDICES_NUM = 128"

text \<open>One batch of match offsets, and where the search stands; \<open>None\<close> when it found no more.\<close>

fun gather :: "nat \<Rightarrow> cstr \<Rightarrow> cstr \<Rightarrow> nat \<Rightarrow> nat list \<times> nat option" where
  "gather 0 s before pivot = ([], Some pivot)"
| "gather (Suc n) s before pivot =
     (case strstr (drop pivot s) before of
        None \<Rightarrow> ([], None)
      | Some i \<Rightarrow>
          let (is, p) = gather n s before (pivot + i + length before) in ((pivot + i) # is, p))"

text \<open>The copy of \<open>n\<close> bytes of \<open>s\<close> at an offset, the terminator being part of \<open>s\<close>.\<close>

definition copy_from :: "cstr \<Rightarrow> nat \<Rightarrow> nat \<Rightarrow> byte list option" where
  "copy_from s off n =
     (if n = 0 then Some []
      else if off + n \<le> length s + 1 then Some (take n (drop off (s @ [0]))) else None)"

fun copy_matches :: "cstr \<Rightarrow> nat \<Rightarrow> cstr \<Rightarrow> nat \<Rightarrow> nat list \<Rightarrow> byte list option" where
  "copy_matches s blen after prev [] = Some []"
| "copy_matches s blen after prev (i # is) = do {
     piece \<leftarrow> copy_from s (i + blen) (i - (prev + blen));
     rest \<leftarrow> copy_matches s blen after i is;
     Some (piece @ after @ rest) }"

text \<open>What one batch appends, and the offset in \<open>s\<close> after it.\<close>

definition copy_batch :: "cstr \<Rightarrow> nat \<Rightarrow> cstr \<Rightarrow> nat \<Rightarrow> nat list \<Rightarrow> (byte list \<times> nat) option" where
  "copy_batch s blen after old is =
     (case is of
        [] \<Rightarrow> Some ([], old)
      | i # rest \<Rightarrow> do {
          piece \<leftarrow> copy_from s old (i - old);
          more \<leftarrow> copy_matches s blen after i rest;
          Some (piece @ after @ more, last is + blen) })"

lemma gather_pos:
  "gather n s before p = (is, Some q) \<Longrightarrow> before \<noteq> [] \<Longrightarrow> p + n \<le> q \<and> (0 < n \<longrightarrow> q \<le> length s)"
proof (induction n arbitrary: p "is")
  case (Suc n)
  from Suc.prems obtain i is' where i: "strstr (drop p s) before = Some i"
    and g: "gather n s before (p + i + length before) = (is', Some q)"
    by (auto split: option.splits prod.splits)
  have "p + i + length before + n \<le> q \<and> (0 < n \<longrightarrow> q \<le> length s)"
    using Suc.IH [OF g Suc.prems(2)] .
  moreover obtain b where "length before = Suc b" using Suc.prems(2) by (cases before) auto
  moreover have "n = 0 \<Longrightarrow> q = p + i + length before" using g by simp
  moreover have "i + length before \<le> length s - p" using strstr_Some [OF i] by simp
  ultimately show ?case by (cases n) auto
qed auto

text \<open>The outer loop; it ends when a batch is not full.\<close>

function replace_loop ::
  "cstr \<Rightarrow> cstr \<Rightarrow> cstr \<Rightarrow> byte list option \<Rightarrow> nat \<Rightarrow> nat \<Rightarrow> (byte list option \<times> nat) option" where
  "replace_loop s before after newString old pivot =
     (if before = [] then None
      else case gather MAX_REPLACE_INDICES_NUM s before pivot of (is, p) \<Rightarrow>
        (case copy_batch s (length before) after old is of
           None \<Rightarrow> None
         | Some (bs, old') \<Rightarrow>
             let new' = (if is = [] then newString
                         else Some ((case newString of None \<Rightarrow> [] | Some n \<Rightarrow> n) @ bs))
             in case p of
                 None \<Rightarrow> Some (new', old')
               | Some q \<Rightarrow> replace_loop s before after new' old' q))"
  by pat_completeness auto
termination
  by (relation "measure (\<lambda>(s, before, after, newString, old, pivot). length s - pivot)")
     (auto simp: MAX_REPLACE_INDICES_NUM_def dest!: gather_pos [OF sym])

declare replace_loop.simps [simp del]

definition fcitx_utils_string_replace :: "cstr \<Rightarrow> cstr \<Rightarrow> cstr \<Rightarrow> bool \<Rightarrow> cstr option option" where
  "fcitx_utils_string_replace s before after nullIfNoMatch =
     (if before = [] then Some (if nullIfNoMatch then None else Some s)
      else do {
        (newString, old) \<leftarrow> replace_loop s before after None 0 0;
        case newString of
          None \<Rightarrow> Some (if nullIfNoMatch then None else Some s)
        | Some new \<Rightarrow> do {
            piece \<leftarrow> copy_from s old (length s - old);
            Some (Some (strend (new @ piece))) } })"

section \<open>Lemmas: escapes\<close>

lemma strcspn_simps [simp]:
  "strcspn [] r = 0"
  "c \<in> set r \<Longrightarrow> strcspn (c # s) r = 0"
  "c \<notin> set r \<Longrightarrow> strcspn (c # s) r = Suc (strcspn s r)"
  by (simp_all add: strcspn_def)

lemma strcspn_le [simp]: "strcspn s r \<le> length s"
  by (simp add: strcspn_def length_takeWhile_le)

lemma escape_loop_simps [simp]:
  "escape_loop chars [] = []"
  "escape_loop chars (c # s) =
     (if c \<in> set chars then [92, fcitx_utils_escape_char c] else [c]) @ escape_loop chars s"
proof -
  show "escape_loop chars [] = []" by (subst escape_loop.simps) simp
  show "escape_loop chars (c # s) =
     (if c \<in> set chars then [92, fcitx_utils_escape_char c] else [c]) @ escape_loop chars s"
  proof (cases "c \<in> set chars")
    case True
    then show ?thesis by (subst escape_loop.simps) simp
  next
    case False
    then show ?thesis
      by (subst escape_loop.simps, subst (2) escape_loop.simps) (simp add: Let_def)
  qed
qed

lemma unescape_simps [simp]:
  "fcitx_utils_set_unescape_str [] = Some []"
  "c \<noteq> 92 \<Longrightarrow> fcitx_utils_set_unescape_str (c # s) =
     map_option ((#) c) (fcitx_utils_set_unescape_str s)"
  "fcitx_utils_set_unescape_str [92] = None"
  "fcitx_utils_set_unescape_str (92 # d # t) =
     map_option ((#) (fcitx_utils_unescape_char d)) (fcitx_utils_set_unescape_str t)"
proof -
  show "fcitx_utils_set_unescape_str [] = Some []"
    by (subst fcitx_utils_set_unescape_str.simps) simp
  show "fcitx_utils_set_unescape_str [92] = None"
    by (subst fcitx_utils_set_unescape_str.simps) simp
  show "fcitx_utils_set_unescape_str (92 # d # t) =
     map_option ((#) (fcitx_utils_unescape_char d)) (fcitx_utils_set_unescape_str t)"
    by (subst fcitx_utils_set_unescape_str.simps) (simp add: map_option_case split: option.split)
  show "fcitx_utils_set_unescape_str (c # s) =
     map_option ((#) c) (fcitx_utils_set_unescape_str s)" if "c \<noteq> 92"
    using that
    by (subst fcitx_utils_set_unescape_str.simps, subst (2) fcitx_utils_set_unescape_str.simps)
       (auto simp: Let_def bind_eq_Some_conv split: Option.bind_split)
qed

lemma unescape_escape_char:
  "c \<notin> {97, 98, 101, 102, 110, 114, 116, 118} \<Longrightarrow>
   fcitx_utils_unescape_char (fcitx_utils_escape_char c) = c"
  by (simp add: fcitx_utils_escape_char_def fcitx_utils_unescape_char_def)

lemma unescape_escape_loop:
  "92 \<in> set chars \<Longrightarrow> set chars \<inter> {97, 98, 101, 102, 110, 114, 116, 118} = {} \<Longrightarrow>
   fcitx_utils_set_unescape_str (escape_loop chars s) = Some s"
proof (induction s)
  case (Cons a s)
  then show ?case
    by (cases "a = 92"; cases "a \<in> set chars") (auto simp: unescape_escape_char disjoint_iff)
qed simp

lemma escape_loop_length: "length s \<le> length (escape_loop chars s) \<and> length (escape_loop chars s) \<le> 2 * length s"
  by (induction s) auto

lemma escape_loop_c_string: "c_string s \<Longrightarrow> c_string (escape_loop chars s)"
  by (induction s) (auto simp: fcitx_utils_escape_char_def)

lemma unescape_c_string:
  "c_string s \<Longrightarrow> fcitx_utils_set_unescape_str s = Some t \<Longrightarrow> c_string t"
proof (induction s arbitrary: t rule: length_induct)
  case (1 s)
  show ?case
  proof (cases s)
    case (Cons c s')
    show ?thesis
    proof (cases "c = 92")
      case True
      then obtain d s'' where "s' = d # s''"
        using 1 Cons by (cases s') auto
      with 1(2,3) Cons True 1(1) [rule_format, of s''] show ?thesis
        by (auto simp: fcitx_utils_unescape_char_def)
    qed (use 1 Cons in auto)
  qed (use 1 in auto)
qed

lemma unescape_None_iff: "fcitx_utils_set_unescape_str s = None \<Longrightarrow> s \<noteq> [] \<and> last s = 92"
proof (induction s rule: length_induct)
  case (1 s)
  show ?case
  proof (cases s)
    case (Cons c s')
    show ?thesis
    proof (cases "c = 92")
      case True
      with 1 Cons show ?thesis by (cases s') auto
    qed (use 1 Cons in auto)
  qed (use 1 in auto)
qed

section \<open>Lemmas: unescaping in place\<close>

lemma strend_string [simp]: "c_string s \<Longrightarrow> strend (s @ 0 # r) = s"
  by (simp add: strend_def c_string_def takeWhile_append)

lemma copy_run_gap:
  "copy_run (t @ g @ run @ r) (length t) (length t + length g) (length run) =
   Some (t @ run @ drop (length run) (g @ run) @ r)"
  by (auto simp: copy_run_def memmove_def wr_def)

lemma strcspn_split: "strcspn s [c] < length s \<Longrightarrow> s = take (strcspn s [c]) s @ c # drop (Suc (strcspn s [c])) s"
proof (induction s)
  case (Cons d s)
  then show ?case by (cases "d = c") auto
qed simp

lemma unescape_run:
  "\<forall>c\<in>set run. c \<noteq> 92 \<Longrightarrow>
   fcitx_utils_set_unescape_str (run @ s) = map_option ((@) run) (fcitx_utils_set_unescape_str s)"
  by (induction run) (cases "fcitx_utils_set_unescape_str s"; simp)+

lemma strcspn_take: "c \<in> set (take (strcspn s [d]) s) \<Longrightarrow> c \<noteq> d"
  by (induction s) (auto simp: strcspn_def split: if_splits)

lemma unescape_inplace_gap:
  "c_string s \<Longrightarrow>
   (case fcitx_utils_set_unescape_str s of
      None \<Rightarrow> unescape_inplace_loop (t @ g @ s @ [0]) (length t) (length t + length g) = None
    | Some u \<Rightarrow> \<exists>r. unescape_inplace_loop (t @ g @ s @ [0]) (length t) (length t + length g) =
                   Some (t @ u @ 0 # r))"
proof (induction s arbitrary: t g rule: length_induct)
  case (1 s)
  let ?buf = "t @ g @ s @ [0]" and ?n = "strcspn s [92]"
  have sub: "strend (drop (length t + length g) ?buf) = s" using 1 by simp
  show ?case
  proof (cases "?n < length s")
    case False
    then have n: "?n = length s" using strcspn_le [of s "[92]"] by linarith
    have all: "\<forall>c\<in>set s. c \<noteq> 92" using strcspn_take [of _ s 92] n by auto
    have u: "fcitx_utils_set_unescape_str s = Some s" using unescape_run [OF all, of "[]"] by simp
    have "copy_run ?buf (length t) (length t + length g) (length s) =
          Some (t @ s @ drop (length s) (g @ s) @ [0])"
      using copy_run_gap [of t g s "[0]"] by simp
    then have "unescape_inplace_loop ?buf (length t) (length t + length g) =
        wr (t @ s @ drop (length s) (g @ s) @ [0]) (length t + length s) [0]"
      using sub n by (subst unescape_inplace_loop.simps) (simp add: Let_def)
    also have "\<dots> = Some (t @ s @ 0 # drop 1 (drop (length s) (g @ s) @ [0]))"
      using wr_append [of "t @ s" "length t + length s" "[0]" "drop (length s) (g @ s) @ [0]"] by simp
    finally show ?thesis using u by auto
  next
    case True
    define run where "run = take ?n s"
    define rest where "rest = drop (Suc ?n) s"
    have s: "s = run @ 92 # rest" using strcspn_split [OF True] by (simp add: run_def rest_def)
    have n: "?n = length run" using True by (simp add: run_def)
    have all: "\<forall>c\<in>set run. c \<noteq> 92" using strcspn_take [of _ s 92] by (auto simp: run_def)
    define g1 where "g1 = drop (length run) (g @ run)"
    have cp: "copy_run ?buf (length t) (length t + length g) ?n = Some (t @ run @ g1 @ 92 # rest @ [0])"
      using copy_run_gap [of t g run "92 # rest @ [0]"] unfolding n g1_def [symmetric] by (subst s) simp
    have lg: "length g1 = length g" by (simp add: g1_def)
    show ?thesis
    proof (cases rest)
      case Nil
      have nth: "(t @ run @ g1 @ [92, 0]) ! (length t + length g + length run + 1) = 0"
        using nth_append_length [of "t @ run @ g1 @ [92]" 0 "[]"] lg by (simp add: ac_simps)
      have "wr (t @ run @ g1 @ [92, 0]) (length t + length run) [fcitx_utils_unescape_char 0] \<noteq> None"
        by (simp add: wr_def)
      then obtain buf2 where b2: "wr (t @ run @ g1 @ [92, 0]) (length t + length run)
          [fcitx_utils_unescape_char 0] = Some buf2" by blast
      have l2: "length buf2 = length t + length run + length g + 2" using wr_length [OF b2] lg by simp
      have "unescape_inplace_loop ?buf (length t) (length t + length g) =
            unescape_inplace_loop buf2 (length t + length run + 1) (length t + length g + length run + 2)"
        using sub cp True Nil nth b2 n s by (subst unescape_inplace_loop.simps) (simp add: Let_def)
      also have "\<dots> = None" using l2 by (subst unescape_inplace_loop.simps) simp
      finally show ?thesis using unescape_run [OF all, of "[92]"] s Nil by simp
    next
      case (Cons d rest')
      let ?x = "fcitx_utils_unescape_char d"
      have nth: "(t @ run @ g1 @ 92 # d # rest' @ [0]) ! (length t + length g + length run + 1) = d"
        using nth_append_length [of "t @ run @ g1 @ [92]" d "rest' @ [0]"] lg by (simp add: ac_simps)
      define g' where "g' = drop 1 (g1 @ [92, d])"
      have b2: "wr (t @ run @ g1 @ 92 # d # rest' @ [0]) (length t + length run) [?x] =
                Some ((t @ run @ [?x]) @ g' @ rest' @ [0])"
        using wr_append [of "t @ run" "length t + length run" "[?x]" "g1 @ 92 # d # rest' @ [0]"]
        by (cases g1) (simp_all add: g'_def)
      have lg': "length g' = length g + 1" using lg by (cases g1) (simp_all add: g'_def)
      have step: "unescape_inplace_loop ?buf (length t) (length t + length g) =
            unescape_inplace_loop ((t @ run @ [?x]) @ g' @ rest' @ [0]) (length (t @ run @ [?x]))
              (length (t @ run @ [?x]) + length g')"
        using sub cp True Cons nth b2 n s lg'
        by (subst unescape_inplace_loop.simps) (simp add: Let_def ac_simps)
      have "length rest' < length s" "c_string rest'" using s Cons 1(2) by simp_all
      note IH = 1(1) [rule_format, OF this, of "t @ run @ [?x]" g']
      show ?thesis
        using IH unfolding step using unescape_run [OF all, of "92 # d # rest'"] s Cons
        by (auto split: option.splits)
    qed
  qed
qed
section \<open>Lemmas: trimming\<close>

lemma isspace_iff: "fcitx_utils_isspace c \<longleftrightarrow> c \<in> set WHITE_SPACE"
  by (auto simp: fcitx_utils_isspace_def WHITE_SPACE_def)

definition strip :: "cstr \<Rightarrow> cstr" where
  "strip s = rev (dropWhile fcitx_utils_isspace (rev (dropWhile fcitx_utils_isspace s)))"

lemma skip_trailing_append:
  "skip_trailing (p @ x) (length p) (length p + length x) =
   length p + length (dropWhile fcitx_utils_isspace (rev x))"
proof (induction x rule: rev_induct)
  case Nil
  then show ?case by (cases "length p") auto
next
  case (snoc c x)
  have nth: "(p @ x @ [c]) ! (length p + length x) = c"
    using nth_append_length [of "p @ x" c "[]"] by simp
  have ext: "skip_trailing (p @ x @ [c]) (length p) n = skip_trailing (p @ x) (length p) n"
    if "n \<le> length p + length x" for n
    using that by (induction n) (auto simp: nth_append)
  show ?case using snoc nth ext by simp
qed

lemma trim_helper:
  "fcitx_utils_trim_helper s =
   (length (takeWhile fcitx_utils_isspace s), length (takeWhile fcitx_utils_isspace s) + length (strip s))"
proof -
  let ?p = "takeWhile fcitx_utils_isspace s" and ?x = "dropWhile fcitx_utils_isspace s"
  have "length s = length ?p + length ?x" by (metis length_append takeWhile_dropWhile_id)
  then show ?thesis
    using skip_trailing_append [of ?p ?x]
    by (simp add: fcitx_utils_trim_helper_def strspn_def isspace_iff [symmetric] strip_def Let_def)
qed

lemma strip_prefix: "take (length (strip s)) (dropWhile fcitx_utils_isspace s) = strip s"
proof -
  let ?x = "dropWhile fcitx_utils_isspace s"
  have "rev ?x = takeWhile fcitx_utils_isspace (rev ?x) @ dropWhile fcitx_utils_isspace (rev ?x)" by simp
  then have "rev (rev ?x) = strip s @ rev (takeWhile fcitx_utils_isspace (rev ?x))"
    unfolding strip_def rev_append [symmetric] by simp
  then have "?x = strip s @ rev (takeWhile fcitx_utils_isspace (rev ?x))" by simp
  then show ?thesis by (metis append_eq_conv_conj)
qed

lemma trim_eq: "fcitx_utils_trim s = takeWhile fcitx_utils_isspace s @ strip s"
proof -
  let ?p = "takeWhile fcitx_utils_isspace s" and ?x = "dropWhile fcitx_utils_isspace s"
  have "take (length ?p + length (strip s)) (?p @ ?x) = ?p @ strip s"
    using strip_prefix [of s] by (simp del: takeWhile_dropWhile_id)
  then show ?thesis by (simp add: fcitx_utils_trim_def trim_helper)
qed

lemma inplace_trim_eq:
  "fcitx_utils_inplace_trim s =
   (takeWhile fcitx_utils_isspace s @ strip s, length (takeWhile fcitx_utils_isspace s))"
  using trim_eq [of s] by (simp add: fcitx_utils_trim_def fcitx_utils_inplace_trim_def trim_helper)

section \<open>Lemmas: backward search\<close>

lemma window_hash_snoc:
  "window_hash (w @ [c]) = window_hash w + push_bit (length w) (char_uint c)"
  by (induction w) (simp_all add: push_bit_add push_bit_push_bit add.assoc add.commute [of "char_uint _"]
        flip: push_bit_of_1)

lemma push_bit_32: "32 \<le> n \<Longrightarrow> push_bit n (x :: u32) = 0"
  by (rule bit_eqI) (auto simp: bit_push_bit_iff dest: bit_imp_le_length)

lemma rehash_window:
  "REHASH (window_hash (w @ [c])) (length w) c = push_bit 1 (window_hash w)"
  by (cases "length w < 32") (simp_all add: REHASH_def window_hash_snoc push_bit_32)

lemma backward_loop_correct:
  "needle \<noteq> [] \<Longrightarrow> h + length needle \<le> length haystack \<Longrightarrow>
   hash = window_hash (take (length needle) (drop h haystack)) - char_uint (haystack ! h) \<Longrightarrow>
   backward_loop haystack needle h hash =
   (if \<exists>i\<le>h. take (length needle) (drop i haystack) = needle
    then Some (GREATEST i. i \<le> h \<and> take (length needle) (drop i haystack) = needle) else None)"
proof (induction haystack needle h hash rule: backward_loop.induct)
  case (1 haystack needle h hash)
  let ?P = "\<lambda>i. take (length needle) (drop i haystack) = needle"
  let ?w = "take (length needle) (drop h haystack)"
  obtain n where n: "length needle = Suc n" using "1.prems"(1) by (cases needle) auto
  have hl: "h < length haystack" using "1.prems"(2) n by simp
  then have hash: "hash + char_uint ((haystack @ [0]) ! h) = window_hash ?w"
    using "1.prems"(3) by (simp add: nth_append)
  show ?case
  proof (cases "?P h")
    case True
    then have "(GREATEST i. i \<le> h \<and> ?P i) = h" by (intro Greatest_equality) auto
    then show ?thesis using True hash by (subst backward_loop.simps) auto
  next
    case False
    then have iff: "(i \<le> h \<and> ?P i) = (i < h \<and> ?P i)" for i by (metis order_le_less)
    show ?thesis
    proof (cases h)
      case 0
      then show ?thesis using False hash by (subst backward_loop.simps) auto
    next
      case (Suc h')
      let ?w' = "take (length needle) (drop h' haystack)"
      have w: "?w = take n (drop h haystack) @ [haystack ! (h + n)]"
        using "1.prems"(2) n by (simp add: take_Suc_conv_app_nth)
      have w': "?w' = haystack ! h' # take n (drop h haystack)"
        using hl Suc n by (simp add: Cons_nth_drop_Suc [symmetric])
      have len: "length (take n (drop h haystack)) = n" using "1.prems"(2) n by simp
      have "REHASH (window_hash ?w) n (haystack ! (h' + length needle)) =
            push_bit 1 (window_hash (take n (drop h haystack)))"
        unfolding w using rehash_window [of "take n (drop h haystack)" "haystack ! (h + n)"] len
        by (simp add: n Suc)
      moreover have "window_hash ?w' - char_uint (haystack ! h') =
            push_bit 1 (window_hash (take n (drop h haystack)))"
        unfolding w' by simp
      ultimately have re: "REHASH (window_hash ?w) (length needle - 1) (haystack ! (h' + length needle)) =
            window_hash ?w' - char_uint (haystack ! h')"
        by (simp add: n)
      have "backward_loop haystack needle h hash =
            backward_loop haystack needle h' (window_hash ?w' - char_uint (haystack ! h'))"
        using False hash Suc re by (subst backward_loop.simps) (simp add: Let_def)
      also have "\<dots> = (if \<exists>i\<le>h'. ?P i then Some (GREATEST i. i \<le> h' \<and> ?P i) else None)"
        using "1.IH" [OF refl _ Suc] False "1.prems" Suc re hash by simp
      also have "\<dots> = (if \<exists>i\<le>h. ?P i then Some (GREATEST i. i \<le> h \<and> ?P i) else None)"
        using iff Suc by (simp add: less_Suc_eq_le)
      finally show ?thesis .
    qed
  qed
qed
section \<open>Lemmas: replacement\<close>

lemma MAX_Suc: "\<exists>m. MAX_REPLACE_INDICES_NUM = Suc (Suc (Suc m))"
  by (rule exI [of _ 125]) (simp add: MAX_REPLACE_INDICES_NUM_def)

lemma replace_loop_once:
  "before \<noteq> [] \<Longrightarrow> gather MAX_REPLACE_INDICES_NUM s before p = (is, None) \<Longrightarrow>
   replace_loop s before after new old p =
   map_option (\<lambda>(bs, old'). (if is = [] then new
                       else Some ((case new of None \<Rightarrow> [] | Some n \<Rightarrow> n) @ bs), old'))
     (copy_batch s (length before) after old is)"
  by (subst replace_loop.simps) (auto simp: Let_def split: option.splits)

lemma copy_from_in [simp]: "off + n \<le> length s \<Longrightarrow> copy_from s off n = Some (take n (drop off s))"
  by (auto simp: copy_from_def)

lemma strend_c_string [simp]: "c_string s \<Longrightarrow> strend s = s"
  by (auto simp: strend_def c_string_def takeWhile_eq_all_conv)

lemma string_replace_none:
  "before \<noteq> [] \<Longrightarrow> strstr s before = None \<Longrightarrow>
   fcitx_utils_string_replace s before after b = Some (if b then None else Some s)"
proof -
  assume ne: "before \<noteq> []" and no: "strstr s before = None"
  obtain m where m: "MAX_REPLACE_INDICES_NUM = Suc (Suc (Suc m))" using MAX_Suc by blast
  have "gather MAX_REPLACE_INDICES_NUM s before 0 = ([], None)" by (simp add: m no)
  then show ?thesis using ne
    by (simp add: fcitx_utils_string_replace_def replace_loop_once copy_batch_def)
qed

lemma string_replace_one:
  assumes "before \<noteq> []" "c_string s" "c_string after" and i: "strstr s before = Some i"
    and no: "strstr (drop (i + length before) s) before = None"
  shows "fcitx_utils_string_replace s before after b =
         Some (Some (take i s @ after @ drop (i + length before) s))"
proof -
  obtain m where m: "MAX_REPLACE_INDICES_NUM = Suc (Suc (Suc m))" using MAX_Suc by blast
  have le: "i + length before \<le> length s" using strstr_Some [OF i] by simp
  have "gather MAX_REPLACE_INDICES_NUM s before 0 = ([i], None)" by (simp add: m i no)
  moreover have "c_string (take i s @ after @ drop (i + length before) s)"
    using assms by (simp add: c_string_take c_string_drop)
  ultimately show ?thesis using le assms(1)
    by (simp add: fcitx_utils_string_replace_def replace_loop_once copy_batch_def)
qed

lemma string_replace_two:
  assumes "before \<noteq> []" and i: "strstr s before = Some i"
    and j: "strstr (drop (i + length before) s) before = Some j"
    and k: "k = i + length before + j + length before"
    and no: "strstr (drop k s) before = None"
  shows "fcitx_utils_string_replace s before after b =
         map_option (\<lambda>gap. Some (strend (take i s @ after @ gap @ after @ drop k s))) (copy_from s k j)"
proof -
  obtain m where m: "MAX_REPLACE_INDICES_NUM = Suc (Suc (Suc m))" using MAX_Suc by blast
  have le: "k \<le> length s" "i \<le> length s" using strstr_Some [OF i] strstr_Some [OF j] k by auto
  have no': "strstr (drop (i + (length before + (j + length before))) s) before = None"
    using no k by (simp add: add.assoc)
  have "gather MAX_REPLACE_INDICES_NUM s before 0 = ([i, i + length before + j], None)"
    using j no' by (simp add: m i add.assoc)
  then show ?thesis using le assms(1) k
    by (cases "copy_from s k j")
       (simp_all add: fcitx_utils_string_replace_def replace_loop_once copy_batch_def add.commute
         add.left_commute)
qed

section \<open>Lemmas: concatenation into a buffer\<close>

definition str_of :: "cstr option \<Rightarrow> cstr" where
  "str_of s = (case s of Some s \<Rightarrow> s | None \<Rightarrow> [])"

lemma str_of_simps [simp]: "str_of None = []" "str_of (Some s) = s"
  by (simp_all add: str_of_def)

lemma str_lens:
  "fcitx_utils_str_lens strs =
   (map (length \<circ> str_of) strs, length (concat (map str_of strs)) + 1)"
proof -
  have "(\<lambda>s. case s of Some s \<Rightarrow> length s | None \<Rightarrow> 0) = length \<circ> str_of"
    by (simp add: fun_eq_iff str_of_def split: option.split)
  moreover have "(\<Sum>s\<leftarrow>strs. length (str_of s)) = length (concat (map str_of strs))"
    by (induction strs) auto
  ultimately show ?thesis by (simp add: fcitx_utils_str_lens_def Let_def)
qed

lemma zip_sizes: "zip strs (map (length \<circ> str_of) strs) = map (\<lambda>s. (s, length (str_of s))) strs"
  by (induction strs) auto

lemma source_bytes_full: "length (str_of s) \<noteq> 0 \<Longrightarrow> source_bytes s (length (str_of s)) = Some (str_of s)"
  by (cases s) (simp_all add: source_bytes_def)

lemma cat_str_from_correct:
  "length (concat (map str_of strs)) < length d \<Longrightarrow> length p = out \<Longrightarrow>
   cat_str_from (p @ d) out (map (\<lambda>s. (s, length (str_of s))) strs) =
   Some (p @ concat (map str_of strs) @ 0 # drop (length (concat (map str_of strs)) + 1) d)"
proof (induction strs arbitrary: p d out)
  case (Cons s strs)
  show ?case
  proof (cases "str_of s = []")
    case True
    then show ?thesis using Cons by simp
  next
    case False
    then have sb: "source_bytes s (length (str_of s)) = Some (str_of s)" by (intro source_bytes_full) simp
    have w: "wr (p @ d) out (str_of s) = Some ((p @ str_of s) @ drop (length (str_of s)) d)"
      using Cons.prems by simp
    have "cat_str_from ((p @ str_of s) @ drop (length (str_of s)) d) (out + length (str_of s))
        (map (\<lambda>s. (s, length (str_of s))) strs) =
      Some ((p @ str_of s) @ concat (map str_of strs) @
        0 # drop (length (concat (map str_of strs)) + 1) (drop (length (str_of s)) d))"
      using Cons.prems by (intro Cons.IH) auto
    then show ?thesis using sb w False by (simp add: ac_simps)
  qed
next
  case Nil
  then show ?case by (cases d) simp_all
qed

lemma cat_str_until_correct:
  "out \<le> limit \<Longrightarrow> length (p @ d) = limit + 1 \<Longrightarrow> length p = out \<Longrightarrow>
   \<exists>r. cat_str_until limit (p @ d) out (map (\<lambda>s. (s, length (str_of s))) strs) =
   Some (p @ take (limit - out) (concat (map str_of strs)) @ 0 # r)"
proof (induction strs arbitrary: p d out)
  case Nil
  then show ?case by (cases d) auto
next
  case (Cons s strs)
  show ?case
  proof (cases "str_of s = []")
    case True
    then show ?thesis using Cons by simp
  next
    case False
    show ?thesis
    proof (cases "out + length (str_of s) > limit")
      case True
      let ?t = "take (limit - out) (str_of s)"
      obtain t where t: "s = Some t" using False by (cases s) auto
      have lt: "length ?t = limit - out" using True by simp
      have sb: "source_bytes s (limit - out) = Some ?t"
        using True t by (simp add: source_bytes_def)
      have w: "wr (p @ d) out ?t = Some ((p @ ?t) @ drop (limit - out) d)"
        using Cons.prems lt wr_append [of p out ?t d] by simp
      obtain x where x: "drop (limit - out) d = [x]"
      proof -
        have "length (drop (limit - out) d) = Suc 0" using Cons.prems by simp
        with that show ?thesis by (cases "drop (limit - out) d") auto
      qed
      have w2: "wr ((p @ ?t) @ [x]) limit [0] = Some ((p @ ?t) @ [0])"
        using Cons.prems lt wr_append [of "p @ ?t" limit "[0]" "[x]"] by simp
      show ?thesis using True False sb w w2 x by (simp add: min_def)
    next
      case le: False
      have sb: "source_bytes s (length (str_of s)) = Some (str_of s)"
        using False by (intro source_bytes_full) simp
      have w: "wr (p @ d) out (str_of s) = Some ((p @ str_of s) @ drop (length (str_of s)) d)"
        using Cons.prems le by simp
      obtain r where "cat_str_until limit ((p @ str_of s) @ drop (length (str_of s)) d) (out + length (str_of s))
          (map (\<lambda>s. (s, length (str_of s))) strs) =
        Some ((p @ str_of s) @ take (limit - (out + length (str_of s))) (concat (map str_of strs)) @ 0 # r)"
        using Cons.IH [of "out + length (str_of s)" "p @ str_of s" "drop (length (str_of s)) d"]
          Cons.prems le by auto
      then show ?thesis using sb w False le by simp
    qed
  qed
qed
lemma backward_search:
  assumes ne: "needle \<noteq> []" and start: "start \<le> length haystack"
  shows "fcitx_utils_backward_search haystack needle start =
      (if \<exists>i \<le> start. take (length needle) (drop i haystack) = needle
       then Some (GREATEST i. i \<le> start \<and> take (length needle) (drop i haystack) = needle) else None)"
proof -
  let ?P = "\<lambda>i. take (length needle) (drop i haystack) = needle"
  have bound: "i + length needle \<le> length haystack" if "?P i" for i
  proof -
    have "length needle \<le> length haystack - i" using arg_cong [OF that, of length] by simp
    moreover have "0 < length needle" using ne by simp
    ultimately show ?thesis by linarith
  qed
  show ?thesis
  proof (cases "length needle \<le> length haystack")
    case True
    let ?f = "min start (length haystack - length needle)"
    have iff: "(i \<le> start \<and> ?P i) = (i \<le> ?f \<and> ?P i)" for i using bound [of i] by auto
    have nth: "(haystack @ [0]) ! ?f = haystack ! ?f"
      using True ne by (cases needle) (auto simp: nth_append)
    have f: "(if start > length haystack - length needle then length haystack - length needle else start) = ?f"
      by simp
    have "fcitx_utils_backward_search haystack needle start =
        backward_loop haystack needle ?f
          (window_hash (take (length needle) (drop ?f haystack)) - char_uint (haystack ! ?f))"
      unfolding fcitx_utils_backward_search_def Let_def f using True start nth by simp
    also have "\<dots> = (if \<exists>i\<le>?f. ?P i then Some (GREATEST i. i \<le> ?f \<and> ?P i) else None)"
      using True by (intro backward_loop_correct ne) auto
    also have "\<dots> = (if \<exists>i \<le> start. ?P i then Some (GREATEST i. i \<le> start \<and> ?P i) else None)"
      by (simp only: iff)
    finally show ?thesis .
  next
    case False
    have "\<not> ?P i" for i using bound [of i] False by auto
    with False show ?thesis by (simp add: fcitx_utils_backward_search_def)
  qed
qed

section \<open>Properties\<close>

text \<open>C11: Escaping with a set that contains the backslash and none of the letters of the escape
  codes, in particular with the default set, at most doubles the length, leaves no NUL, and is undone
  by unescaping, whether into a new string or in place.\<close>

theorem escape_roundtrip:
  "chars = (case cs of None \<Rightarrow> FCITX_CHAR_NEED_ESCAPE | Some x \<Rightarrow> x) \<Longrightarrow> c_string s \<Longrightarrow>
   92 \<in> set chars \<Longrightarrow> set chars \<inter> {97, 98, 101, 102, 110, 114, 116, 118} = {} \<Longrightarrow>
   fcitx_utils_set_unescape_str (fcitx_utils_set_escape_str_with_set s cs) = Some s \<and>
   (\<exists>r. fcitx_utils_unescape_str_inplace (fcitx_utils_set_escape_str_with_set s cs @ [0]) =
        Some (s @ 0 # r)) \<and>
   c_string (fcitx_utils_set_escape_str_with_set s cs) \<and>
   length (fcitx_utils_set_escape_str_with_set s cs) \<le> 2 * length s"
  using unescape_escape_loop [of chars s] escape_loop_c_string [of s chars]
    unescape_inplace_gap [of "escape_loop chars s" "[]" "[]"] escape_loop_length [of s chars]
  by (simp add: fcitx_utils_set_escape_str_with_set_def fcitx_utils_unescape_str_inplace_def)

theorem escape_roundtrip_witness:
  "fcitx_utils_set_unescape_str (fcitx_utils_set_escape_str_with_set [97, 10, 92] None) =
   Some [97, 10, 92]"
  using escape_roundtrip [of FCITX_CHAR_NEED_ESCAPE None "[97, 10, 92]"]
  by (simp add: FCITX_CHAR_NEED_ESCAPE_def)

text \<open>Unescaping in place, in a buffer that holds exactly the string, leaves there the string that
  unescaping into a new one returns; both leave their buffer only for a string that ends in a
  backslash.\<close>

theorem unescape_inplace_equiv:
  "c_string s \<Longrightarrow>
   (case fcitx_utils_set_unescape_str s of
      None \<Rightarrow> fcitx_utils_unescape_str_inplace (s @ [0]) = None \<and> s \<noteq> [] \<and> last s = 92
    | Some u \<Rightarrow> (\<exists>r. fcitx_utils_unescape_str_inplace (s @ [0]) = Some (u @ 0 # r)) \<and> c_string u)"
  using unescape_inplace_gap [of s "[]" "[]"] unescape_None_iff [of s] unescape_c_string [of s]
  by (auto simp: fcitx_utils_unescape_str_inplace_def split: option.splits)

theorem unescape_inplace_equiv_witness:
  "fcitx_utils_unescape_str_inplace [97, 92, 0] = None \<and>
   (\<exists>r. fcitx_utils_unescape_str_inplace [92, 110, 0] = Some (10 # 0 # r))"
  using unescape_inplace_equiv [of "[97, 92]"] unescape_inplace_equiv [of "[92, 110]"]
  by (simp add: fcitx_utils_unescape_char_def)

text \<open>Both trim functions drop the white space at the end.  The one in place returns the string
  without the white space at the start as well; the copying one keeps it.\<close>

theorem trim_keeps_leading_space:
  "(\<exists>left right. s = left @ strip s @ right \<and>
      (\<forall>c \<in> set left \<union> set right. fcitx_utils_isspace c) \<and>
      (strip s = [] \<or> (\<not> fcitx_utils_isspace (hd (strip s)) \<and> \<not> fcitx_utils_isspace (last (strip s)))) \<and>
      fcitx_utils_inplace_trim s = (left @ strip s, length left) \<and>
      fcitx_utils_trim s = left @ strip s)"
proof -
  let ?l = "takeWhile fcitx_utils_isspace s" and ?x = "dropWhile fcitx_utils_isspace s"
  let ?r = "rev (takeWhile fcitx_utils_isspace (rev ?x))"
  have "rev (rev ?x) = strip s @ ?r"
    unfolding strip_def rev_append [symmetric] by simp
  then have "s = ?l @ strip s @ ?r" by simp
  moreover have "\<forall>c \<in> set ?l \<union> set ?r. fcitx_utils_isspace c" by (auto dest: set_takeWhileD)
  moreover have "strip s = [] \<or> \<not> fcitx_utils_isspace (last (strip s))"
    using hd_dropWhile [of fcitx_utils_isspace "rev ?x"] by (auto simp: strip_def last_rev)
  moreover have "strip s = [] \<or> \<not> fcitx_utils_isspace (hd (strip s))"
  proof (cases "strip s")
    case (Cons c t)
    have "?x = strip s @ ?r" using \<open>rev (rev ?x) = strip s @ ?r\<close> by simp
    then obtain r where "?x = c # r" using Cons by auto
    with hd_dropWhile [of fcitx_utils_isspace s] Cons show ?thesis by simp
  qed simp
  ultimately show ?thesis using trim_eq [of s] inplace_trim_eq [of s] by blast
qed

theorem trim_keeps_leading_space_witness:
  "fcitx_utils_trim [32, 97, 32] = [32, 97] \<and> fcitx_utils_inplace_trim [32, 97, 32] = ([32, 97], 1)"
  using trim_keeps_leading_space [of "[32, 97, 32]"]
  by (simp add: fcitx_utils_inplace_trim_def fcitx_utils_trim_def fcitx_utils_trim_helper_def
      strspn_def WHITE_SPACE_def fcitx_utils_isspace_def numeral_3_eq_3)

text \<open>C12: The rolling hash never hides a match: the backward search returns the last occurrence
  that starts at or before the given offset.  The search from the end of the string asks it to start
  at offset 0, so for a needle of two bytes or more it only tests the start of the string.\<close>

theorem backward_search_correct:
  "needle \<noteq> [] \<Longrightarrow> start \<le> length haystack \<Longrightarrow>
   fcitx_utils_backward_search haystack needle start =
      (if \<exists>i \<le> start. take (length needle) (drop i haystack) = needle
       then Some (GREATEST i. i \<le> start \<and> take (length needle) (drop i haystack) = needle) else None) \<and>
   (2 \<le> length needle \<longrightarrow>
      fcitx_utils_strrstr haystack needle =
      (if take (length needle) haystack = needle then Some 0 else None))"
proof (intro conjI impI)
  assume ne: "needle \<noteq> []" and two: "2 \<le> length needle"
  have "fcitx_utils_strrstr haystack needle = fcitx_utils_backward_search haystack needle 0"
    using two by (auto simp: fcitx_utils_strrstr_def split: list.split)
  moreover have "(GREATEST i. i \<le> 0 \<and> take (length needle) (drop i haystack) = needle) = (0 :: nat)"
    if "take (length needle) haystack = needle"
    using that by (intro Greatest_equality) auto
  ultimately show "fcitx_utils_strrstr haystack needle =
      (if take (length needle) haystack = needle then Some 0 else None)"
    using backward_search [OF ne, of 0 haystack] by (simp del: le_zero_eq) simp
qed (rule backward_search)

theorem backward_search_correct_witness:
  "fcitx_utils_strrstr [97, 98, 97, 98, 97] [98, 97] = None \<and>
   fcitx_utils_backward_search [97, 98, 97, 98, 97] [98, 97] 5 = Some 3"
proof -
  have "(\<exists>i\<le>5. take (length [98, 97]) (drop i [97, 98, 97, 98, 97]) = [98, 97 :: byte])"
    by (intro exI [of _ 3]) simp
  moreover have "(GREATEST i. i \<le> 5 \<and> take (length [98, 97]) (drop i [97, 98, 97, 98, 97]) = [98, 97 :: byte]) = 3"
  proof (rule Greatest_equality)
    show "y \<le> 3" if y: "y \<le> 5 \<and> take (length [98, 97]) (drop y [97, 98, 97, 98, 97]) = [98, 97 :: byte]" for y
    proof (rule ccontr)
      assume "\<not> y \<le> 3"
      with y consider "y = 4" | "y = 5" by linarith
      then show False using y by cases simp_all
    qed
  qed simp
  ultimately show ?thesis
    using backward_search_correct [of "[98, 97]" 5 "[97, 98, 97, 98, 97]"]
    by simp
qed

text \<open>Replacement leaves a string without a match alone and replaces a single match.  With two
  matches, the text copied between them is not the text that was there, but as many bytes from behind
  the second match, which may reach outside the string.\<close>

theorem string_replace_matches:
  assumes "before \<noteq> []" "c_string s" "c_string after" and "i1 = strstr s before"
  shows "case i1 of
      None \<Rightarrow> fcitx_utils_string_replace s before after b = Some (if b then None else Some s)
    | Some i \<Rightarrow>
       (case strstr (drop (i + length before) s) before of
          None \<Rightarrow> fcitx_utils_string_replace s before after b =
            Some (Some (take i s @ after @ drop (i + length before) s))
        | Some j \<Rightarrow>
            let k = i + length before + j + length before in
            strstr (drop k s) before = None \<longrightarrow>
            fcitx_utils_string_replace s before after b =
            (if j = 0 \<or> k + j \<le> length s + 1
             then Some (Some (strend (take i s @ after @ take j (drop k (s @ [0])) @ after @ drop k s)))
             else None))"
  using assms
  by (auto simp: string_replace_none string_replace_one string_replace_two copy_from_def Let_def
      split: option.split)

theorem string_replace_matches_witness:
  "fcitx_utils_string_replace (bytes ''a-b-c'') (bytes ''-'') (bytes ''+'') False =
     Some (Some (bytes ''a+c+c'')) \<and>
   fcitx_utils_string_replace (bytes ''a-bb-'') (bytes ''-'') (bytes ''+'') False = None"
  using string_replace_matches [of "bytes ''-''" "bytes ''a-b-c''" "bytes ''+''" "Some 1" False]
    string_replace_matches [of "bytes ''-''" "bytes ''a-bb-''" "bytes ''+''" "Some 1" False]
  by (simp add: of_char_def strend_def)

text \<open>The allocating concatenation fills exactly the buffer it asks for with the strings, in
  order, a NULL string counting as empty, and a terminator; the bounded one writes as many whole bytes
  as leave room for the terminator and never leaves the buffer.\<close>

theorem cat_str_correct:
  "fcitx_utils_alloc_cat_str strs = Some (concat (map str_of strs) @ [0]) \<and>
   (length buf = len \<and> 0 < len \<longrightarrow>
     (\<exists>r. fcitx_utils_cat_str_with_len buf len strs (fst (fcitx_utils_str_lens strs)) =
          Some (take (len - 1) (concat (map str_of strs)) @ 0 # r)))"
proof (intro conjI impI)
  let ?n = "length (concat (map str_of strs))"
  show "fcitx_utils_alloc_cat_str strs = Some (concat (map str_of strs) @ [0])"
    using cat_str_from_correct [of strs "replicate (?n + 1) 0" "[]" 0]
    by (simp add: fcitx_utils_alloc_cat_str_def str_lens fcitx_utils_cat_str_def zip_sizes)
  assume "length buf = len \<and> 0 < len"
  then show "\<exists>r. fcitx_utils_cat_str_with_len buf len strs (fst (fcitx_utils_str_lens strs)) =
          Some (take (len - 1) (concat (map str_of strs)) @ 0 # r)"
    using cat_str_until_correct [of 0 "len - 1" "[]" buf strs]
    by (simp add: fcitx_utils_cat_str_with_len_def str_lens zip_sizes)
qed

theorem cat_str_correct_witness:
  "fcitx_utils_alloc_cat_str [Some [97], None, Some [98, 99]] = Some [97, 98, 99, 0] \<and>
   (\<exists>r. fcitx_utils_cat_str_with_len [1, 1, 1] 3 [Some [97], None, Some [98, 99]] [1, 0, 2] =
      Some ([97, 98] @ 0 # r))"
  using cat_str_correct [of "[Some [97], None, Some [98, 99]]" "[1, 1, 1]" 3]
  by (simp add: fcitx_utils_str_lens_def Let_def numeral_2_eq_2)

end
