(* ===== verification/StringList.thy ===== *)
theory StringList
  imports StringUtils
begin

text \<open>
  The string list of \<open>src/lib/fcitx-utils/stringlist.c\<close>: a growing array of owned strings, here the
  list of the strings.
\<close>

definition fcitx_utils_string_list_new :: "cstr list" where
  "fcitx_utils_string_list_new = []"

definition fcitx_utils_string_list_append_no_copy :: "cstr list \<Rightarrow> cstr \<Rightarrow> cstr list" where
  "fcitx_utils_string_list_append_no_copy xs str = xs @ [str]"

definition fcitx_utils_string_list_append_len :: "cstr list \<Rightarrow> cstr \<Rightarrow> nat \<Rightarrow> cstr list option" where
  "fcitx_utils_string_list_append_len xs str len = do {
     buff \<leftarrow> fcitx_utils_set_str_with_len str len;
     Some (fcitx_utils_string_list_append_no_copy xs buff) }"

text \<open>The formatted string comes from the C library.\<close>

definition fcitx_utils_string_list_printf_append :: "cstr list \<Rightarrow> cstr \<Rightarrow> cstr list" where
  "fcitx_utils_string_list_printf_append xs buffer = fcitx_utils_string_list_append_no_copy xs buffer"

text \<open>The loop stops at the end of the string; what is left is appended when it is not empty.\<close>

function fcitx_utils_string_list_append_split_full ::
  "cstr list \<Rightarrow> cstr \<Rightarrow> cstr \<Rightarrow> bool \<Rightarrow> cstr list option" where
  "fcitx_utils_string_list_append_split_full xs src delm keepEmpty =
     (let len = strcspn src delm in
      if len < length src
      then (case (if keepEmpty \<or> len \<noteq> 0 then fcitx_utils_string_list_append_len xs src len
                  else Some xs) of
              None \<Rightarrow> None
            | Some xs \<Rightarrow>
                fcitx_utils_string_list_append_split_full xs (drop (len + 1) src) delm keepEmpty)
      else if len \<noteq> 0 then fcitx_utils_string_list_append_len xs src len
      else Some xs)"
  by pat_completeness auto
termination
  by (relation "measure (\<lambda>(xs, src, delm, keepEmpty). length src)") auto

declare fcitx_utils_string_list_append_split_full.simps [simp del]

definition fcitx_utils_string_split_full :: "cstr \<Rightarrow> cstr \<Rightarrow> bool \<Rightarrow> cstr list option" where
  "fcitx_utils_string_split_full str delm keepEmpty =
     fcitx_utils_string_list_append_split_full fcitx_utils_string_list_new str delm keepEmpty"

text \<open>Every string is followed by the separator; the last one is overwritten by the terminator.\<close>

definition fcitx_utils_string_list_join :: "cstr list option \<Rightarrow> byte \<Rightarrow> cstr option" where
  "fcitx_utils_string_list_join xs delm =
     (case xs of
        None \<Rightarrow> None
      | Some [] \<Rightarrow> Some []
      | Some xs \<Rightarrow> Some (strend (butlast (concat (map (\<lambda>s. s @ [delm]) xs)) @ [0])))"

definition fcitx_utils_string_list_contains :: "cstr list \<Rightarrow> cstr \<Rightarrow> bool" where
  "fcitx_utils_string_list_contains xs scmp = list_ex (\<lambda>s. strcmp scmp s = 0) xs"

section \<open>Splitting\<close>

text \<open>The pieces, as a recursion over the bytes; \<open>cur\<close> is the piece under construction.\<close>

fun pieces :: "cstr \<Rightarrow> bool \<Rightarrow> cstr \<Rightarrow> cstr \<Rightarrow> cstr list" where
  "pieces delm keep cur [] = (if cur = [] then [] else [cur])"
| "pieces delm keep cur (c # s) =
     (if c \<in> set delm then (if keep \<or> cur \<noteq> [] then [cur] else []) @ pieces delm keep [] s
      else pieces delm keep (cur @ [c]) s)"

lemma pieces_run:
  "\<forall>c\<in>set run. c \<notin> set delm \<Longrightarrow> pieces delm keep cur (run @ s) = pieces delm keep (cur @ run) s"
  by (induction run arbitrary: cur) auto

lemma strcspn_run: "c \<in> set (take (strcspn s delm) s) \<Longrightarrow> c \<notin> set delm"
  by (induction s) (auto simp: strcspn_def split: if_splits)

lemma strcspn_hit: "strcspn s delm < length s \<Longrightarrow>
  \<exists>c. c \<in> set delm \<and> s = take (strcspn s delm) s @ c # drop (Suc (strcspn s delm)) s"
proof (induction s)
  case (Cons d s)
  then show ?case by (cases "d \<in> set delm") auto
qed simp

lemma split_pieces:
  "fcitx_utils_string_list_append_split_full xs src delm keep = Some (xs @ pieces delm keep [] src)"
proof (induction xs src delm keep rule: fcitx_utils_string_list_append_split_full.induct)
  case (1 xs src delm keep)
  let ?n = "strcspn src delm"
  let ?run = "take ?n src"
  have len [simp]: "fcitx_utils_string_list_append_len xs src ?n = Some (xs @ [?run])"
    by (simp add: fcitx_utils_string_list_append_len_def fcitx_utils_set_str_with_len_def
        fcitx_utils_string_list_append_no_copy_def)
  show ?case
  proof (cases "?n < length src")
    case True
    obtain c where c: "c \<in> set delm" "src = ?run @ c # drop (Suc ?n) src"
      using strcspn_hit [OF True] by blast
    have p: "pieces delm keep [] src =
        (if keep \<or> ?run \<noteq> [] then [?run] else []) @ pieces delm keep [] (drop (Suc ?n) src)"
      using c pieces_run [of ?run delm keep "[]" "c # drop (Suc ?n) src"] strcspn_run [of _ src delm]
      by (metis append_Nil pieces.simps(2))
    have ne: "?run \<noteq> [] \<longleftrightarrow> ?n \<noteq> 0" using True by auto
    have "fcitx_utils_string_list_append_split_full xs src delm keep =
        fcitx_utils_string_list_append_split_full
          (if keep \<or> ?n \<noteq> 0 then xs @ [?run] else xs) (drop (?n + 1) src) delm keep"
      using True by (subst fcitx_utils_string_list_append_split_full.simps) (simp add: Let_def)
    also have "\<dots> = Some ((if keep \<or> ?n \<noteq> 0 then xs @ [?run] else xs) @
        pieces delm keep [] (drop (?n + 1) src))"
      by (rule "1.IH" [OF refl True]) simp
    finally show ?thesis using p ne by simp
  next
    case False
    then have n: "?n = length src" using strcspn_le [of src delm] by linarith
    then have "pieces delm keep [] src = (if src = [] then [] else [src])"
      using pieces_run [of src delm keep "[]" "[]"] strcspn_run [of _ src delm] by simp
    then show ?thesis using n len
      by (subst fcitx_utils_string_list_append_split_full.simps) (auto simp: Let_def)
  qed
qed

lemma concat_pieces:
  "concat (map (\<lambda>p. p @ [d]) (pieces [d] True cur s)) =
   cur @ s @ (if cur @ s = [] \<or> (s \<noteq> [] \<and> last s = d) then [] else [d])"
  by (induction s arbitrary: cur) auto

lemma pieces_clean: "d \<notin> set cur \<Longrightarrow> \<forall>x \<in> set (pieces [d] True cur t). d \<notin> set x"
proof (induction t arbitrary: cur)
  case (Cons a t)
  from Cons.IH [of "[]"] Cons.IH [of "cur @ [a]"] Cons.prems show ?case by auto
qed simp

section \<open>Properties\<close>

text \<open>Joining what splitting at one separator returned, empty pieces kept, gives the string back,
  less a separator at its very end, for which no empty piece is kept.\<close>

theorem split_join:
  assumes "c_string s" "d \<noteq> 0"
  shows "\<exists>xs. fcitx_utils_string_split_full s [d] True = Some xs \<and>
     fcitx_utils_string_list_join (Some xs) d =
       Some (if s \<noteq> [] \<and> last s = d then butlast s else s) \<and>
     (\<forall>x \<in> set xs. d \<notin> set x)"
proof -
  let ?xs = "pieces [d] True [] s"
  have split: "fcitx_utils_string_split_full s [d] True = Some ?xs"
    by (simp add: fcitx_utils_string_split_full_def split_pieces fcitx_utils_string_list_new_def)
  have clean: "\<forall>x \<in> set ?xs. d \<notin> set x" using pieces_clean [of d "[]" s] by simp
  have cat: "concat (map (\<lambda>p. p @ [d]) ?xs) = s @ (if s = [] \<or> last s = d then [] else [d])"
    using concat_pieces [of d "[]" s] by auto
  have "fcitx_utils_string_list_join (Some ?xs) d =
      Some (if s \<noteq> [] \<and> last s = d then butlast s else s)"
  proof (cases "?xs = []")
    case True
    with cat have "s = []" by (auto split: if_splits)
    with True show ?thesis by (simp add: fcitx_utils_string_list_join_def)
  next
    case False
    then have "s \<noteq> []" by auto
    moreover have "c_string (butlast s)"
      using assms(1) by (auto simp: c_string_def dest: in_set_butlastD)
    moreover have "fcitx_utils_string_list_join (Some ?xs) d =
        Some (strend (butlast (concat (map (\<lambda>p. p @ [d]) ?xs)) @ [0]))"
      using False by (simp add: fcitx_utils_string_list_join_def split: list.split)
    ultimately show ?thesis using assms(1) unfolding cat by simp
  qed
  with split clean show ?thesis by auto
qed

theorem split_join_witness:
  "\<exists>xs. fcitx_utils_string_split_full [97, 44, 44, 98, 44] [44] True = Some xs \<and>
     fcitx_utils_string_list_join (Some xs) 44 = Some [97, 44, 44, 98]"
  using split_join [of "[97, 44, 44, 98, 44]" 44] by auto

end
