(* ===== verification/Utf8.thy ===== *)
theory Utf8
  imports Bits
begin

text \<open>
  The UTF-8 routines of \<open>src/lib/fcitx-utils/utf8.c\<close> and \<open>utf8.h\<close>: encoder, the two
  decoders, the string walkers built on them, and the ASCII helpers.

  Pointers into a string are offsets; \<open>rd\<close> guards every read.  \<open>uint32_t\<close> is \<open>32 word\<close>,
  so \<open>(uint32_t) -1\<close> and \<open>-2\<close> are the words \<open>-1\<close> and \<open>-2\<close>.  Functions that take a
  possibly NULL pointer take a \<open>cstr option\<close>.
\<close>

section \<open>Macros and inline helpers\<close>

definition FCITX_ISUTF8_CB :: "byte \<Rightarrow> bool" where
  "FCITX_ISUTF8_CB c \<longleftrightarrow> c AND 0xc0 = 0x80"

definition UTF8_LENGTH :: "u32 \<Rightarrow> nat" where
  "UTF8_LENGTH c =
     (if c < 0x80 then 1 else if c < 0x800 then 2 else if c < 0x10000 then 3
      else if c < 0x200000 then 4 else if c < 0x4000000 then 5 else 6)"

definition UNICODE_VALID :: "u32 \<Rightarrow> bool" where
  "UNICODE_VALID c \<longleftrightarrow>
     c < 0x110000 \<and> c AND 0xFFFFF800 \<noteq> 0xD800 \<and> (c < 0xFDD0 \<or> c > 0xFDEF) \<and>
     c AND 0xFFFE \<noteq> 0xFFFE"

definition fcitx_utf8_type :: "byte \<Rightarrow> int" where
  "fcitx_utf8_type c =
     (if c AND 0x80 = 0 then 1 else if c AND 0x40 = 0 then 0 else if c AND 0x20 = 0 then 2
      else if c AND 0x10 = 0 then 3 else if c AND 0x08 = 0 then 4 else if c AND 0x04 = 0 then 5
      else if c AND 0x02 = 0 then 6 else - 1)"

definition fcitx_utf8_valid_start :: "byte \<Rightarrow> bool" where
  "fcitx_utf8_valid_start c =
     (if c AND 0x80 = 0 then True else if c AND 0x40 = 0 then False else c < 0xfe)"

text \<open>A chain \<open>CONT(i) && CONT(j) && ...\<close>: it stops at the first byte that does not continue.\<close>

fun CONT :: "cstr \<Rightarrow> nat list \<Rightarrow> bool option" where
  "CONT s [] = Some True"
| "CONT s (i # is) =
     (case rd s i of None \<Rightarrow> None
      | Some b \<Rightarrow> if FCITX_ISUTF8_CB b then CONT s is else Some False)"

text \<open>The payload of byte \<open>i\<close>, shifted; read only after \<open>CONT\<close> has accepted the byte.\<close>

definition VAL :: "cstr \<Rightarrow> nat \<Rightarrow> nat \<Rightarrow> u32" where
  "VAL s i k = push_bit k (ucast (s ! i AND 0x3f))"

text \<open>The test \<open>(in[0] & mask) == tag && CONT(1) && ...\<close> that opens each branch.\<close>

definition lead :: "cstr \<Rightarrow> byte \<Rightarrow> byte \<Rightarrow> nat list \<Rightarrow> bool option" where
  "lead s msk tag is = (case rd s 0 of None \<Rightarrow> None
     | Some b \<Rightarrow> if b AND msk = tag then CONT s is else Some False)"

section \<open>Encoder and decoders\<close>

definition fcitx_utf8_char_len :: "cstr \<Rightarrow> nat option" where
  "fcitx_utf8_char_len s = do {
     b \<leftarrow> rd s 0;
     if b AND 0x80 = 0 then Some 1 else do {
       l2 \<leftarrow> lead s 0xe0 0xc0 [1];
       if l2 then Some 2 else do {
         l3 \<leftarrow> lead s 0xf0 0xe0 [1, 2];
         if l3 then Some 3 else do {
           l4 \<leftarrow> lead s 0xf8 0xf0 [1, 2, 3];
           if l4 then Some 4 else do {
             l5 \<leftarrow> lead s 0xfc 0xf8 [1, 2, 3, 4];
             if l5 then Some 5 else do {
               l6 \<leftarrow> lead s 0xfe 0xfc [1, 2, 3, 4, 5];
               if l6 then Some 6 else Some 1 }}}}}}"

definition fcitx_ucs4_char_len :: "u32 \<Rightarrow> nat" where
  "fcitx_ucs4_char_len c =
     (if c < 0x80 then 1 else if c < 0x800 then 2 else if c < 0x10000 then 3
      else if c < 0x200000 then 4 else if c < 0x8000000 then 5 else 6)"

text \<open>The bytes written before the final NUL; the C function returns their number.\<close>

definition fcitx_ucs4_to_utf8 :: "u32 \<Rightarrow> cstr" where
  "fcitx_ucs4_to_utf8 c =
     (if c < 0x80 then [ucast (c AND 0xFF)]
      else if c < 0x800 then
        [ucast (0xC0 + (drop_bit 6 c AND 0x1F)), ucast (0x80 + (c AND 0x3F))]
      else if c < 0x10000 then
        [ucast (0xE0 + (drop_bit 12 c AND 0x0F)), ucast (0x80 + (drop_bit 6 c AND 0x3F)),
         ucast (0x80 + (c AND 0x3F))]
      else if c < 0x200000 then
        [ucast (0xF0 + (drop_bit 18 c AND 0x07)), ucast (0x80 + (drop_bit 12 c AND 0x3F)),
         ucast (0x80 + (drop_bit 6 c AND 0x3F)), ucast (0x80 + (c AND 0x3F))]
      else if c < 0x8000000 then
        [ucast (0xF8 + (drop_bit 24 c AND 0x03)), ucast (0x80 + (drop_bit 18 c AND 0x3F)),
         ucast (0x80 + (drop_bit 12 c AND 0x3F)), ucast (0x80 + (drop_bit 6 c AND 0x3F)),
         ucast (0x80 + (c AND 0x3F))]
      else
        [ucast (0xFC + (drop_bit 30 c AND 0x01)), ucast (0x80 + (drop_bit 24 c AND 0x3F)),
         ucast (0x80 + (drop_bit 18 c AND 0x3F)), ucast (0x80 + (drop_bit 12 c AND 0x3F)),
         ucast (0x80 + (drop_bit 6 c AND 0x3F)), ucast (0x80 + (c AND 0x3F))])"

text \<open>The decoded code point and the distance to the returned pointer.\<close>

definition fcitx_utf8_get_char :: "cstr \<Rightarrow> (u32 \<times> nat) option" where
  "fcitx_utf8_get_char s = do {
     b \<leftarrow> rd s 0;
     if b AND 0x80 = 0 then Some (ucast b, 1) else do {
       l2 \<leftarrow> lead s 0xe0 0xc0 [1];
       if l2 then Some (push_bit 6 (ucast (b AND 0x1f)) OR VAL s 1 0, 2) else do {
         l3 \<leftarrow> lead s 0xf0 0xe0 [1, 2];
         if l3 then Some (push_bit 12 (ucast (b AND 0xf)) OR VAL s 1 6 OR VAL s 2 0, 3) else do {
           l4 \<leftarrow> lead s 0xf8 0xf0 [1, 2, 3];
           if l4 then Some (push_bit 18 (ucast (b AND 0x7)) OR VAL s 1 12 OR VAL s 2 6
                              OR VAL s 3 0, 4) else do {
             l5 \<leftarrow> lead s 0xfc 0xf8 [1, 2, 3, 4];
             if l5 then Some (push_bit 24 (ucast (b AND 0x3)) OR VAL s 1 18 OR VAL s 2 12
                                OR VAL s 3 6 OR VAL s 4 0, 5) else do {
               l6 \<leftarrow> lead s 0xfe 0xfc [1, 2, 3, 4, 5];
               if l6 then Some (push_bit 30 (ucast (b AND 0x1)) OR VAL s 1 24 OR VAL s 2 18
                                  OR VAL s 3 12 OR VAL s 4 6 OR VAL s 5 0, 6)
               else Some (ucast b, 1) }}}}}}"

text \<open>The first switch of \<open>fcitx_utf8_get_char_extended\<close>: a final answer, or length and payload.\<close>

definition ext_lead :: "u32 \<Rightarrow> u32 + nat \<times> u32" where
  "ext_lead wc =
     (if wc < 0x80 then Inl wc
      else if wc < 0xc0 then Inl (- 1)
      else if wc < 0xe0 then Inr (2, wc AND 0x1f)
      else if wc < 0xf0 then Inr (3, wc AND 0x0f)
      else if wc < 0xf8 then Inr (4, wc AND 0x07)
      else if wc < 0xfc then Inr (5, wc AND 0x03)
      else if wc < 0xfe then Inr (6, wc AND 0x01)
      else Inl (- 1))"

text \<open>The loop over the \<open>n\<close> bytes from \<open>i\<close> when the buffer is too short for the character.\<close>

fun ext_short :: "cstr \<Rightarrow> nat \<Rightarrow> nat \<Rightarrow> u32 option" where
  "ext_short s i 0 = Some (- 2)"
| "ext_short s i (Suc n) =
     (case rd s i of None \<Rightarrow> None
      | Some ch \<Rightarrow> if ch AND 0xc0 \<noteq> 0x80 then Some (- 1) else ext_short s (Suc i) n)"

text \<open>The loop over the \<open>n\<close> continuation bytes from \<open>i\<close>.\<close>

fun ext_tail :: "cstr \<Rightarrow> nat \<Rightarrow> nat \<Rightarrow> u32 \<Rightarrow> (u32 + u32) option" where
  "ext_tail s i 0 wc = Some (Inr wc)"
| "ext_tail s i (Suc n) wc =
     (case rd s i of None \<Rightarrow> None
      | Some ch \<Rightarrow>
          if ch AND 0xc0 \<noteq> 0x80 then Some (Inl (if ch \<noteq> 0 then - 1 else - 2))
          else ext_tail s (Suc i) n (push_bit 6 wc OR ucast (ch AND 0x3f)))"

definition fcitx_utf8_get_char_extended :: "cstr \<Rightarrow> int \<Rightarrow> u32 option" where
  "fcitx_utf8_get_char_extended s max_len = do {
     b \<leftarrow> rd s 0;
     case ext_lead (ucast b) of
       Inl r \<Rightarrow> Some r
     | Inr (len, wc) \<Rightarrow>
         if 0 \<le> max_len \<and> max_len < int len then ext_short s 1 (nat (max_len - 1))
         else do {
           t \<leftarrow> ext_tail s 1 (len - 1) wc;
           case t of
             Inl r \<Rightarrow> Some r
           | Inr wc' \<Rightarrow> Some (if UTF8_LENGTH wc' \<noteq> len then - 1 else wc') } }"

definition fcitx_utf8_get_char_validated :: "cstr \<Rightarrow> int \<Rightarrow> u32 option" where
  "fcitx_utf8_get_char_validated s max_len =
     (if max_len = 0 then Some (- 2)
      else do {
        result \<leftarrow> fcitx_utf8_get_char_extended s max_len;
        Some (if result AND 0x80000000 \<noteq> 0 then result
              else if \<not> UNICODE_VALID result then - 1 else result) })"

end
