(* ===== verification/Utf8_Codec.thy ===== *)
theory Utf8_Codec
  imports Utf8
begin

text \<open>
  The encoder against the decoder: how far a decode step advances, and what decoding returns on an
  encoded code point.
\<close>

section \<open>Bytes of an encoded character\<close>

lemma tag_plus_or:
  "0xC0 + (x AND 0x1F) = 0xC0 OR (x AND 0x1F :: u32)"
  "0xE0 + (x AND 0x0F) = 0xE0 OR (x AND 0x0F :: u32)"
  "0xF0 + (x AND 0x07) = 0xF0 OR (x AND 0x07 :: u32)"
  "0xF8 + (x AND 0x03) = 0xF8 OR (x AND 0x03 :: u32)"
  "0xFC + (x AND 0x01) = 0xFC OR (x AND 0x01 :: u32)"
  "0x80 + (x AND 0x3F) = 0x80 OR (x AND 0x3F :: u32)"
  by (rule disjunctive_add; auto simp: word_bits)+

text \<open>The lead byte of each length is told apart by the tests of the decoder.\<close>

lemma lead_byte_tests [simp]:
  "(ucast (0xC0 + (x AND 0x1F) :: u32) :: byte) AND 0x80 = 0x80"
  "(ucast (0xC0 + (x AND 0x1F) :: u32) :: byte) AND 0xe0 = 0xc0"
  "(ucast (0xE0 + (x AND 0x0F) :: u32) :: byte) AND 0x80 = 0x80"
  "(ucast (0xE0 + (x AND 0x0F) :: u32) :: byte) AND 0xe0 = 0xe0"
  "(ucast (0xE0 + (x AND 0x0F) :: u32) :: byte) AND 0xf0 = 0xe0"
  "(ucast (0xF0 + (x AND 0x07) :: u32) :: byte) AND 0x80 = 0x80"
  "(ucast (0xF0 + (x AND 0x07) :: u32) :: byte) AND 0xe0 = 0xe0"
  "(ucast (0xF0 + (x AND 0x07) :: u32) :: byte) AND 0xf0 = 0xf0"
  "(ucast (0xF0 + (x AND 0x07) :: u32) :: byte) AND 0xf8 = 0xf0"
  "(ucast (0xF8 + (x AND 0x03) :: u32) :: byte) AND 0x80 = 0x80"
  "(ucast (0xF8 + (x AND 0x03) :: u32) :: byte) AND 0xe0 = 0xe0"
  "(ucast (0xF8 + (x AND 0x03) :: u32) :: byte) AND 0xf0 = 0xf0"
  "(ucast (0xF8 + (x AND 0x03) :: u32) :: byte) AND 0xf8 = 0xf8"
  "(ucast (0xF8 + (x AND 0x03) :: u32) :: byte) AND 0xfc = 0xf8"
  "(ucast (0xFC + (x AND 0x01) :: u32) :: byte) AND 0x80 = 0x80"
  "(ucast (0xFC + (x AND 0x01) :: u32) :: byte) AND 0xe0 = 0xe0"
  "(ucast (0xFC + (x AND 0x01) :: u32) :: byte) AND 0xf0 = 0xf0"
  "(ucast (0xFC + (x AND 0x01) :: u32) :: byte) AND 0xf8 = 0xf8"
  "(ucast (0xFC + (x AND 0x01) :: u32) :: byte) AND 0xfc = 0xfc"
  "(ucast (0xFC + (x AND 0x01) :: u32) :: byte) AND 0xfe = 0xfc"
  unfolding tag_plus_or by (rule bit_word_eqI; auto simp: word_bits)+

lemma cont_byte_test [simp]: "FCITX_ISUTF8_CB (ucast (0x80 + (x AND 0x3F) :: u32))"
  unfolding FCITX_ISUTF8_CB_def tag_plus_or by (rule bit_word_eqI; auto simp: word_bits)

lemma payload_bits [simp]:
  "(ucast ((ucast (0xC0 + (x AND 0x1F) :: u32) :: byte) AND 0x1F) :: u32) = x AND 0x1F"
  "(ucast ((ucast (0xE0 + (x AND 0x0F) :: u32) :: byte) AND 0x0F) :: u32) = x AND 0x0F"
  "(ucast ((ucast (0xF0 + (x AND 0x07) :: u32) :: byte) AND 0x07) :: u32) = x AND 0x07"
  "(ucast ((ucast (0xF8 + (x AND 0x03) :: u32) :: byte) AND 0x03) :: u32) = x AND 0x03"
  "(ucast ((ucast (0xFC + (x AND 0x01) :: u32) :: byte) AND 0x01) :: u32) = x AND 0x01"
  "(ucast ((ucast (0x80 + (x AND 0x3F) :: u32) :: byte) AND 0x3F) :: u32) = x AND 0x3F"
  unfolding tag_plus_or by (rule bit_word_eqI; auto simp: word_bits)+

text \<open>
  Shifted fields of a word join to its low bits, from the last byte up; the five-byte form keeps
  26 bits and the six-byte form 31.
\<close>

lemma masks_as_mask: "(0x3F::u32) = mask 6" "(0x1F::u32) = mask 5" "(0x0F::u32) = mask 4"
  "(0x07::u32) = mask 3" "(0x03::u32) = mask 2" "(0x01::u32) = mask 1"
  by (simp_all add: mask_eq_exp_minus_1)

lemma join_field:
  "j = k + m \<Longrightarrow>
   push_bit k (drop_bit k c AND mask m) OR (c AND mask k) = (c AND mask j :: 'a::len word)"
  by (rule bit_word_eqI) (auto simp: word_bits bit_mask_iff dest: bit_imp_le_length)

lemma join_fields:
  "push_bit 6 (drop_bit 6 c AND 0x1F) OR (c AND 0x3F) = (take_bit 11 c :: u32)"
  "push_bit 6 (drop_bit 6 c AND 0x3F) OR (c AND 0x3F) = (take_bit 12 c :: u32)"
  "push_bit 12 (drop_bit 12 c AND 0x0F) OR take_bit 12 c = (take_bit 16 c :: u32)"
  "push_bit 12 (drop_bit 12 c AND 0x3F) OR take_bit 12 c = (take_bit 18 c :: u32)"
  "push_bit 18 (drop_bit 18 c AND 0x07) OR take_bit 18 c = (take_bit 21 c :: u32)"
  "push_bit 18 (drop_bit 18 c AND 0x3F) OR take_bit 18 c = (take_bit 24 c :: u32)"
  "push_bit 24 (drop_bit 24 c AND 0x03) OR take_bit 24 c = (take_bit 26 c :: u32)"
  "push_bit 24 (drop_bit 24 c AND 0x3F) OR take_bit 24 c = (take_bit 30 c :: u32)"
  "push_bit 30 (drop_bit 30 c AND 0x01) OR take_bit 30 c = (take_bit 31 c :: u32)"
  unfolding masks_as_mask take_bit_eq_mask by (rule join_field, simp)+

lemma take_bit_small: "(c::u32) < 2 ^ k \<Longrightarrow> k < 32 \<Longrightarrow> take_bit k c = c"
  by (metis take_bit_eq_mask less_mask_eq)

section \<open>Continuation chains and lead tests\<close>

lemma CONT_upt:
  "k \<le> n \<Longrightarrow> k \<le> length s \<Longrightarrow>
   CONT s [k..<n] = Some (\<forall>i\<in>{k..<n}. i < length s \<and> FCITX_ISUTF8_CB (s ! i))"
proof (induction "n - k" arbitrary: k)
  case 0
  then show ?case by simp
next
  case (Suc m)
  then have k: "k < n" by simp
  then have split: "{k..<n} = insert k {Suc k..<n}" by auto
  show ?case
  proof (cases "k < length s \<and> FCITX_ISUTF8_CB (s ! k)")
    case True
    with Suc k show ?thesis
      by (simp add: upt_conv_Cons split rd_in)
  next
    case False
    with Suc.prems have "rd s k = Some 0 \<and> k = length s \<or> k < length s \<and> rd s k = Some (s ! k)"
      by (auto simp: rd_def)
    with False k show ?thesis
      by (auto simp: upt_conv_Cons split FCITX_ISUTF8_CB_def)
  qed
qed

definition form :: "cstr \<Rightarrow> byte \<Rightarrow> byte \<Rightarrow> nat \<Rightarrow> bool" where
  "form s msk tag n \<longleftrightarrow> hd s AND msk = tag \<and> n \<le> length s \<and> (\<forall>i\<in>{1..<n}. FCITX_ISUTF8_CB (s ! i))"

lemma lead_form:
  assumes "s \<noteq> []" and "1 < n"
  shows "lead s msk tag [1..<n] = Some (form s msk tag n)"
proof -
  have "1 \<le> length s" using assms(1) by (cases s) auto
  moreover have "(\<forall>i\<in>{1..<n}. i < length s) \<longleftrightarrow> n \<le> length s"
    using assms(2) calculation by (auto simp: Suc_le_eq dest: bspec [where x = "n - 1"])
  ultimately show ?thesis
    using assms CONT_upt [of 1 n s] by (auto simp: lead_def form_def)
qed

lemma lead_literal:
  assumes "s \<noteq> []"
  shows "lead s msk tag [Suc 0] = Some (form s msk tag 2)"
    "lead s msk tag [Suc 0, 2] = Some (form s msk tag 3)"
    "lead s msk tag [Suc 0, 2, 3] = Some (form s msk tag 4)"
    "lead s msk tag [Suc 0, 2, 3, 4] = Some (form s msk tag 5)"
    "lead s msk tag [Suc 0, 2, 3, 4, 5] = Some (form s msk tag 6)"
  using lead_form [OF assms, of 2 msk tag] lead_form [OF assms, of 3 msk tag]
    lead_form [OF assms, of 4 msk tag] lead_form [OF assms, of 5 msk tag]
    lead_form [OF assms, of 6 msk tag]
  by (simp_all add: upt_rec numeral_eq_Suc)

lemma get_char_eq:
  assumes "s \<noteq> []"
  shows "fcitx_utf8_get_char s = Some (
     if hd s AND 0x80 = 0 then (ucast (hd s), 1)
     else if form s 0xe0 0xc0 2 then (push_bit 6 (ucast (hd s AND 0x1f)) OR VAL s 1 0, 2)
     else if form s 0xf0 0xe0 3 then
       (push_bit 12 (ucast (hd s AND 0xf)) OR VAL s 1 6 OR VAL s 2 0, 3)
     else if form s 0xf8 0xf0 4 then
       (push_bit 18 (ucast (hd s AND 0x7)) OR VAL s 1 12 OR VAL s 2 6 OR VAL s 3 0, 4)
     else if form s 0xfc 0xf8 5 then
       (push_bit 24 (ucast (hd s AND 0x3)) OR VAL s 1 18 OR VAL s 2 12 OR VAL s 3 6 OR VAL s 4 0, 5)
     else if form s 0xfe 0xfc 6 then
       (push_bit 30 (ucast (hd s AND 0x1)) OR VAL s 1 24 OR VAL s 2 18 OR VAL s 3 12
          OR VAL s 4 6 OR VAL s 5 0, 6)
     else (ucast (hd s), 1))"
  using assms by (simp add: fcitx_utf8_get_char_def lead_literal)

lemma char_len_eq:
  assumes "s \<noteq> []"
  shows "fcitx_utf8_char_len s = map_option snd (fcitx_utf8_get_char s)"
  using assms by (simp add: fcitx_utf8_char_len_def lead_literal get_char_eq)

lemma get_char_Nil [simp]: "fcitx_utf8_get_char [] = Some (0, 1)"
  by (simp add: fcitx_utf8_get_char_def)

lemma get_char_total:
  assumes "s \<noteq> []"
  obtains c k where "fcitx_utf8_get_char s = Some (c, k)" and "1 \<le> k" and "k \<le> 6"
    and "k \<le> length s"
proof -
  from assms have "1 \<le> length s" by (cases s) auto
  with assms that show ?thesis
    by (fastforce simp: get_char_eq form_def split: if_splits)
qed

lemma get_char_advance:
  "fcitx_utf8_get_char s = Some (c, k) \<Longrightarrow> s \<noteq> [] \<Longrightarrow> 1 \<le> k \<and> k \<le> 6 \<and> k \<le> length s"
  by (metis get_char_total option.inject prod.inject)

section \<open>Decoding an encoded character\<close>

lemma encode_nonempty [simp]: "fcitx_ucs4_to_utf8 c \<noteq> []"
  by (simp add: fcitx_ucs4_to_utf8_def)

lemma length_encode: "length (fcitx_ucs4_to_utf8 c) = fcitx_ucs4_char_len c"
  by (simp add: fcitx_ucs4_to_utf8_def fcitx_ucs4_char_len_def)

lemma all_upto_literal:
  "(\<forall>i\<in>{1..<2}. P i) \<longleftrightarrow> P (1::nat)"
  "(\<forall>i\<in>{1..<3}. P i) \<longleftrightarrow> P (1::nat) \<and> P 2"
  "(\<forall>i\<in>{1..<4}. P i) \<longleftrightarrow> P (1::nat) \<and> P 2 \<and> P 3"
  "(\<forall>i\<in>{1..<5}. P i) \<longleftrightarrow> P (1::nat) \<and> P 2 \<and> P 3 \<and> P 4"
  "(\<forall>i\<in>{1..<6}. P i) \<longleftrightarrow> P (1::nat) \<and> P 2 \<and> P 3 \<and> P 4 \<and> P 5"
  by (simp_all add: atLeastLessThan_nat_numeral numeral_eq_Suc ball_Un atLeastLessThanSuc)
     auto

lemma ascii_byte: "(c::u32) < 0x80 \<Longrightarrow> (ucast (c AND 0xFF) :: byte) AND 0x80 = 0"
  "(c::u32) < 0x80 \<Longrightarrow> ucast (ucast (c AND 0xFF) :: byte) = c"
proof -
  have b: "bit c n \<Longrightarrow> n < 7" if "c < 0x80" for n
    using word_bound_bit [of c 7 n] that by simp
  show "c < 0x80 \<Longrightarrow> (ucast (c AND 0xFF) :: byte) AND 0x80 = 0"
    by (rule bit_word_eqI) (auto simp: word_bits dest: b)
  show "c < 0x80 \<Longrightarrow> ucast (ucast (c AND 0xFF) :: byte) = c"
    by (rule bit_word_eqI) (auto simp: word_bits dest: b)
qed

lemma form_literal:
  "form (b0 # b1 # r) msk tag 2 \<longleftrightarrow> b0 AND msk = tag \<and> FCITX_ISUTF8_CB b1"
  "form (b0 # b1 # b2 # r) msk tag 3 \<longleftrightarrow>
     b0 AND msk = tag \<and> FCITX_ISUTF8_CB b1 \<and> FCITX_ISUTF8_CB b2"
  "form (b0 # b1 # b2 # b3 # r) msk tag 4 \<longleftrightarrow>
     b0 AND msk = tag \<and> FCITX_ISUTF8_CB b1 \<and> FCITX_ISUTF8_CB b2 \<and> FCITX_ISUTF8_CB b3"
  "form (b0 # b1 # b2 # b3 # b4 # r) msk tag 5 \<longleftrightarrow>
     b0 AND msk = tag \<and> FCITX_ISUTF8_CB b1 \<and> FCITX_ISUTF8_CB b2 \<and> FCITX_ISUTF8_CB b3 \<and>
     FCITX_ISUTF8_CB b4"
  "form (b0 # b1 # b2 # b3 # b4 # b5 # r) msk tag 6 \<longleftrightarrow>
     b0 AND msk = tag \<and> FCITX_ISUTF8_CB b1 \<and> FCITX_ISUTF8_CB b2 \<and> FCITX_ISUTF8_CB b3 \<and>
     FCITX_ISUTF8_CB b4 \<and> FCITX_ISUTF8_CB b5"
  unfolding form_def all_upto_literal by simp_all

lemma form_tag: "hd s AND msk \<noteq> tag \<Longrightarrow> \<not> form s msk tag n"
  by (simp add: form_def)

text \<open>What the decoder returns on an encoded code point followed by anything.\<close>

lemma get_char_encode:
  "fcitx_utf8_get_char (fcitx_ucs4_to_utf8 c @ r) = Some (
     (if c < 0x200000 then c else if c < 0x8000000 then take_bit 26 c else take_bit 31 c),
     fcitx_ucs4_char_len c)"
proof -
  consider (1) "c < 0x80" | (2) "\<not> c < 0x80" "c < 0x800" | (3) "\<not> c < 0x800" "c < 0x10000"
    | (4) "\<not> c < 0x10000" "c < 0x200000" | (5) "\<not> c < 0x200000" "c < 0x8000000"
    | (6) "\<not> c < 0x8000000"
    by blast
  then show ?thesis
  proof cases
    case 1
    then have "c < 0x200000" by (auto intro: less_trans)
    with 1 show ?thesis
      by (simp add: fcitx_ucs4_to_utf8_def fcitx_ucs4_char_len_def get_char_eq ascii_byte)
  next
    case 2
    then have "c < 0x200000" and "take_bit 11 c = c"
      by (auto intro: less_trans take_bit_small)
    with 2 show ?thesis
      by (simp add: fcitx_ucs4_to_utf8_def fcitx_ucs4_char_len_def get_char_eq form_literal VAL_def
          join_fields)
  next
    case 3
    then have "c < 0x200000" and "take_bit 16 c = c" and "\<not> c < 0x80"
      by (auto intro: less_trans take_bit_small)
    with 3 show ?thesis
      by (simp add: fcitx_ucs4_to_utf8_def fcitx_ucs4_char_len_def get_char_eq form_literal form_tag
          VAL_def join_fields)
  next
    case 4
    then have "take_bit 21 c = c" and "\<not> c < 0x80" and "\<not> c < 0x800"
      by (auto intro: less_trans take_bit_small)
    with 4 show ?thesis
      by (simp add: fcitx_ucs4_to_utf8_def fcitx_ucs4_char_len_def get_char_eq form_literal form_tag
          VAL_def join_fields)
  next
    case 5
    then have "\<not> c < 0x80" and "\<not> c < 0x800" and "\<not> c < 0x10000"
      by (auto intro: less_trans)
    with 5 show ?thesis
      by (simp add: fcitx_ucs4_to_utf8_def fcitx_ucs4_char_len_def get_char_eq form_literal form_tag
          VAL_def join_fields)
  next
    case 6
    then have "\<not> c < 0x80" and "\<not> c < 0x800" and "\<not> c < 0x10000" and "\<not> c < 0x200000"
      by (auto intro: less_trans)
    with 6 show ?thesis
      by (simp add: fcitx_ucs4_to_utf8_def fcitx_ucs4_char_len_def get_char_eq form_literal form_tag
          VAL_def join_fields)
  qed
qed

end
