(* ===== verification/Utf8_Validated.thy ===== *)
theory Utf8_Validated
  imports Utf8_Codec
begin

text \<open>
  The validating decoder accepts exactly the encodings of code points below \<open>0x200000\<close>
  (\<open>extended_encode\<close>, \<open>extended_sound\<close>), and after the \<open>UNICODE_VALID\<close> test the encodings of
  the valid code points.
\<close>

section \<open>The validating decoder\<close>

text \<open>The range tests of the validating decoder agree with the mask tests of the other one.\<close>

lemma unat_high_bits:
  fixes b :: byte
  assumes "k < 8"
  shows "unat (push_bit k (drop_bit k b)) = 2 ^ k * (unat b div 2 ^ k)"
proof -
  have b: "unat b < 256"
    using unsigned_less [of b] by simp
  have "2 ^ k * (unat b div 2 ^ k) \<le> unat b"
    by simp
  also note b
  finally have "2 ^ k * (unat b div 2 ^ k) < 256" .
  then show ?thesis
    using b by (simp only: unsigned_push_bit_eq unsigned_drop_bit_eq)
      (simp add: push_bit_eq_mult drop_bit_eq_div take_bit_eq_mod mult.commute)
qed

lemma high_maskI:
  fixes b :: byte
  assumes "\<And>n. n < 8 \<Longrightarrow> bit M n \<longleftrightarrow> k \<le> n"
  shows "b AND M = push_bit k (drop_bit k b)"
proof (rule bit_word_eqI)
  fix n assume "n < LENGTH(8)"
  then show "bit (b AND M) n = bit (push_bit k (drop_bit k b)) n"
    using assms [of n] by (auto simp: bit_ops)
qed

lemma high_mask:
  fixes b :: byte
  shows "b AND 0x80 = push_bit 7 (drop_bit 7 b)" "b AND 0xc0 = push_bit 6 (drop_bit 6 b)"
    "b AND 0xe0 = push_bit 5 (drop_bit 5 b)" "b AND 0xf0 = push_bit 4 (drop_bit 4 b)"
    "b AND 0xf8 = push_bit 3 (drop_bit 3 b)" "b AND 0xfc = push_bit 2 (drop_bit 2 b)"
    "b AND 0xfe = push_bit 1 (drop_bit 1 b)"
  by (rule high_maskI; simp add: word_bits)+

lemma mask_range:
  fixes b :: byte
  shows "b AND 0x80 = 0 \<longleftrightarrow> unat b < 0x80"
    "b AND 0xc0 = 0x80 \<longleftrightarrow> 0x80 \<le> unat b \<and> unat b < 0xc0"
    "b AND 0xe0 = 0xc0 \<longleftrightarrow> 0xc0 \<le> unat b \<and> unat b < 0xe0"
    "b AND 0xf0 = 0xe0 \<longleftrightarrow> 0xe0 \<le> unat b \<and> unat b < 0xf0"
    "b AND 0xf8 = 0xf0 \<longleftrightarrow> 0xf0 \<le> unat b \<and> unat b < 0xf8"
    "b AND 0xfc = 0xf8 \<longleftrightarrow> 0xf8 \<le> unat b \<and> unat b < 0xfc"
    "b AND 0xfe = 0xfc \<longleftrightarrow> 0xfc \<le> unat b \<and> unat b < 0xfe"
  unfolding high_mask word_unat_eq_iff
  using unat_high_bits [of 1 b] by (simp_all add: unat_high_bits) arith+

lemma unat_ucast32 [simp]: "unat (ucast (b::byte) :: u32) = unat b"
  by transfer (simp add: take_bit_nat_def)

lemma ext_lead_byte:
  fixes b :: byte
  shows "ext_lead (ucast b) =
     (if b AND 0x80 = 0 then Inl (ucast b)
      else if b AND 0xe0 = 0xc0 then Inr (2, ucast b AND 0x1f)
      else if b AND 0xf0 = 0xe0 then Inr (3, ucast b AND 0x0f)
      else if b AND 0xf8 = 0xf0 then Inr (4, ucast b AND 0x07)
      else if b AND 0xfc = 0xf8 then Inr (5, ucast b AND 0x03)
      else if b AND 0xfe = 0xfc then Inr (6, ucast b AND 0x01)
      else Inl (- 1))"
  unfolding mask_range ext_lead_def word_less_nat_alt
  by (simp add: unat_ucast32)

lemma rd_Cons [simp]: "rd (b # s) (Suc i) = rd s i"
  by (simp add: rd_def)

lemma rd_Cons_numeral [simp]: "rd (b # s) (numeral n) = rd s (pred_numeral n)"
  by (simp add: numeral_eq_Suc)

lemma cont_byte_test' [simp]: "(ucast (0x80 + (x AND 0x3F) :: u32) :: byte) AND 0xc0 = 0x80"
  using cont_byte_test [of x] by (simp add: FCITX_ISUTF8_CB_def)

lemma ext_tail_literal:
  "ext_tail s i (Suc 0) wc = (case rd s i of None \<Rightarrow> None | Some ch \<Rightarrow>
      if ch AND 0xc0 \<noteq> 0x80 then Some (Inl (if ch \<noteq> 0 then - 1 else - 2))
      else Some (Inr (push_bit 6 wc OR ucast (ch AND 0x3f))))"
  "ext_tail s i (numeral n) wc = (case rd s i of None \<Rightarrow> None | Some ch \<Rightarrow>
      if ch AND 0xc0 \<noteq> 0x80 then Some (Inl (if ch \<noteq> 0 then - 1 else - 2))
      else ext_tail s (Suc i) (pred_numeral n) (push_bit 6 wc OR ucast (ch AND 0x3f)))"
  by (simp_all add: numeral_eq_Suc split: option.splits)

lemma payload_bits' [simp]:
  "(ucast (ucast (0xC0 + (x AND 0x1F) :: u32) :: byte) :: u32) AND 0x1F = x AND 0x1F"
  "(ucast (ucast (0xE0 + (x AND 0x0F) :: u32) :: byte) :: u32) AND 0x0F = x AND 0x0F"
  "(ucast (ucast (0xF0 + (x AND 0x07) :: u32) :: byte) :: u32) AND 0x07 = x AND 0x07"
  unfolding tag_plus_or by (rule bit_word_eqI; auto simp: word_bits)+

lemma extended_encode:
  assumes c: "c < 0x200000" and n: "n < 0 \<or> 4 \<le> n"
  shows "fcitx_utf8_get_char_extended (fcitx_ucs4_to_utf8 c @ r) n = Some c"
proof -
  consider (1) "c < 0x80" | (2) "\<not> c < 0x80" "c < 0x800" | (3) "\<not> c < 0x800" "c < 0x10000"
    | (4) "\<not> c < 0x10000"
    by blast
  note cases = this
  from n have nn: "(0 \<le> n \<and> n < 2) = False" "(0 \<le> n \<and> n < 3) = False"
    "(0 \<le> n \<and> n < 4) = False"
    by auto
  from cases show ?thesis
  proof cases
    case 1
    then show ?thesis
      by (simp add: fcitx_ucs4_to_utf8_def fcitx_utf8_get_char_extended_def ext_lead_byte ascii_byte)
  next
    case 2
    then have "take_bit 11 c = c" by (auto intro: take_bit_small)
    with 2 show ?thesis
      by (simp add: fcitx_ucs4_to_utf8_def fcitx_utf8_get_char_extended_def ext_lead_byte
          ext_tail_literal join_fields UTF8_LENGTH_def nn)
  next
    case 3
    then have "take_bit 16 c = c" and "\<not> c < 0x80"
      by (auto intro: less_trans take_bit_small)
    with 3 show ?thesis
      by (simp add: fcitx_ucs4_to_utf8_def fcitx_utf8_get_char_extended_def ext_lead_byte
          ext_tail_literal join_fields UTF8_LENGTH_def nn or.assoc)
  next
    case 4
    with c have "take_bit 21 c = c" and "\<not> c < 0x80" and "\<not> c < 0x800"
      by (auto intro: less_trans take_bit_small)
    with 4 c show ?thesis
      by (simp add: fcitx_ucs4_to_utf8_def fcitx_utf8_get_char_extended_def ext_lead_byte
          ext_tail_literal join_fields UTF8_LENGTH_def nn or.assoc)
  qed
qed

text \<open>Conversely, an accepted character was encoded canonically.\<close>

lemma byte_from_parts:
  fixes b :: byte
  shows "b AND 0x80 = 0 \<Longrightarrow> ucast ((ucast b :: u32) AND 0xFF) = b"
    "b AND 0xe0 = 0xc0 \<Longrightarrow> ucast (0xC0 + (ucast b AND 0x1F) :: u32) = b"
    "b AND 0xf0 = 0xe0 \<Longrightarrow> ucast (0xE0 + (ucast b AND 0x0F) :: u32) = b"
    "b AND 0xf8 = 0xf0 \<Longrightarrow> ucast (0xF0 + (ucast b AND 0x07) :: u32) = b"
    "b AND 0xc0 = 0x80 \<Longrightarrow> ucast (0x80 + (ucast b AND 0x3F) :: u32) = b"
proof -
  have key: "bit b n \<and> bit M n \<longleftrightarrow> bit T n" if "b AND M = T" for M T n
    using that by (auto simp: bit_and_iff)
  show "b AND 0x80 = 0 \<Longrightarrow> ucast ((ucast b :: u32) AND 0xFF) = b"
    by (rule bit_word_eqI) (auto simp: word_bits)
  show "b AND 0xe0 = 0xc0 \<Longrightarrow> ucast (0xC0 + (ucast b AND 0x1F) :: u32) = b"
    unfolding tag_plus_or
    by (rule bit_word_eqI, frule_tac n=n in key) (auto simp: word_bits not_less)
  show "b AND 0xf0 = 0xe0 \<Longrightarrow> ucast (0xE0 + (ucast b AND 0x0F) :: u32) = b"
    unfolding tag_plus_or
    by (rule bit_word_eqI, frule_tac n=n in key) (auto simp: word_bits not_less)
  show "b AND 0xf8 = 0xf0 \<Longrightarrow> ucast (0xF0 + (ucast b AND 0x07) :: u32) = b"
    unfolding tag_plus_or
    by (rule bit_word_eqI, frule_tac n=n in key) (auto simp: word_bits not_less)
  show "b AND 0xc0 = 0x80 \<Longrightarrow> ucast (0x80 + (ucast b AND 0x3F) :: u32) = b"
    unfolding tag_plus_or
    by (rule bit_word_eqI, frule_tac n=n in key) (auto simp: word_bits not_less)
qed

lemma decoded_fields_2:
  fixes b0 b1 :: byte
  defines "c \<equiv> push_bit 6 (ucast b0 AND 0x1f) OR (ucast (b1 AND 0x3f) :: u32)"
  shows "drop_bit 6 c AND 0x1F = ucast b0 AND 0x1F" "c AND 0x3F = ucast b1 AND 0x3F"
  unfolding c_def by (rule bit_word_eqI; auto simp: word_bits)+

lemma decoded_fields_3:
  fixes b0 b1 b2 :: byte
  defines "c \<equiv> push_bit 6 (push_bit 6 (ucast b0 AND 0x0f) OR ucast (b1 AND 0x3f))
                 OR (ucast (b2 AND 0x3f) :: u32)"
  shows "drop_bit 12 c AND 0x0F = ucast b0 AND 0x0F" "drop_bit 6 c AND 0x3F = ucast b1 AND 0x3F"
    "c AND 0x3F = ucast b2 AND 0x3F"
  unfolding c_def by (rule bit_word_eqI; auto simp: word_bits)+

lemma decoded_fields_4:
  fixes b0 b1 b2 b3 :: byte
  defines "c \<equiv> push_bit 6 (push_bit 6 (push_bit 6 (ucast b0 AND 0x07) OR ucast (b1 AND 0x3f))
                 OR ucast (b2 AND 0x3f)) OR (ucast (b3 AND 0x3f) :: u32)"
  shows "drop_bit 18 c AND 0x07 = ucast b0 AND 0x07" "drop_bit 12 c AND 0x3F = ucast b1 AND 0x3F"
    "drop_bit 6 c AND 0x3F = ucast b2 AND 0x3F" "c AND 0x3F = ucast b3 AND 0x3F"
  unfolding c_def by (rule bit_word_eqI; auto simp: word_bits)+

lemma ext_tail_Suc_Inr:
  "ext_tail s i (Suc n) wc = Some (Inr wc') \<longleftrightarrow>
     i < length s \<and> s ! i AND 0xc0 = 0x80 \<and>
     ext_tail s (Suc i) n (push_bit 6 wc OR ucast (s ! i AND 0x3f)) = Some (Inr wc')"
  by (auto simp: rd_def split: if_splits)

lemma take_nths: "Suc i \<le> length s \<Longrightarrow> \<exists>r. drop i s = s ! i # r \<and> r = drop (Suc i) s"
  by (auto simp: Cons_nth_drop_Suc)

lemma ext_tail_Inl: "ext_tail s i n wc = Some (Inl r) \<Longrightarrow> r = - 1 \<or> r = - 2"
  by (induction s i n wc rule: ext_tail.induct) (auto split: option.splits if_splits)

lemma minus_literals: "(- 1 :: u32) = 0xFFFFFFFF" "(- 2 :: u32) = 0xFFFFFFFE"
  by simp_all

lemma extended_sound:
  assumes ext: "fcitx_utf8_get_char_extended s n = Some c" and n: "n < 0 \<or> 6 \<le> n"
    and ne: "s \<noteq> []" and c: "c < 0x200000"
  shows "\<exists>r. s = fcitx_ucs4_to_utf8 c @ r"
proof -
  obtain b0 s' where s: "s = b0 # s'" using ne by (cases s) auto
  have neg: "c \<noteq> - 1" "c \<noteq> - 2"
    using c by (auto simp: minus_literals)
  have tail: "ext_tail s 1 (len - 1) wc = Some (Inr c) \<and> UTF8_LENGTH c = len"
    if "ext_lead (ucast b0) = Inr (len, wc)" "len \<le> 6" for len wc
  proof -
    have long: "(0 \<le> n \<and> n < int len) = False" using n that(2) by auto
    from ext that(1) have e: "do { t \<leftarrow> ext_tail s 1 (len - 1) wc;
        case t of Inl r \<Rightarrow> Some r
        | Inr wc' \<Rightarrow> Some (if UTF8_LENGTH wc' \<noteq> len then - 1 else wc') } = Some c"
      unfolding fcitx_utf8_get_char_extended_def s by (simp add: long)
    then obtain t where t: "ext_tail s 1 (len - 1) wc = Some t"
      by (cases "ext_tail s 1 (len - 1) wc") auto
    show ?thesis
    proof (cases t)
      case (Inl r)
      with e t ext_tail_Inl [of s 1 "len - 1" wc r] neg show ?thesis by auto
    next
      case (Inr wc')
      with e t neg show ?thesis by (auto split: if_splits)
    qed
  qed
  consider (1) "b0 AND 0x80 = 0" | (2) "b0 AND 0xe0 = 0xc0" | (3) "b0 AND 0xf0 = 0xe0"
    | (4) "b0 AND 0xf8 = 0xf0" | (5) "b0 AND 0xfc = 0xf8" | (6) "b0 AND 0xfe = 0xfc"
    | (7) "ext_lead (ucast b0) = Inl (- 1)"
    by (metis ext_lead_byte)
  then show ?thesis
  proof cases
    case 1
    then have "c = ucast b0"
      using ext by (simp add: fcitx_utf8_get_char_extended_def s ext_lead_byte)
    moreover have "unat b0 < 128"
      using 1 by (simp add: mask_range)
    ultimately have "c < 0x80"
      by (simp add: word_less_nat_alt)
    then show ?thesis
      using 1 \<open>c = ucast b0\<close> by (simp add: s fcitx_ucs4_to_utf8_def byte_from_parts)
  next
    case 2
    then have e: "ext_lead (ucast b0) = Inr (2, ucast b0 AND 0x1f)"
      unfolding ext_lead_byte mask_range by auto
    note t = tail [OF e]
    then obtain b1 r where "s' = b1 # r" and b1: "b1 AND 0xc0 = 0x80"
      by (cases s') (auto simp: s ext_tail_Suc_Inr numeral_eq_Suc simp del: ext_tail.simps(2))
    with t have ceq: "c = push_bit 6 (ucast b0 AND 0x1f) OR ucast (b1 AND 0x3f)"
      and bnd: "c < 0x800" "\<not> c < 0x80"
      by (auto simp: s ext_tail_Suc_Inr UTF8_LENGTH_def numeral_eq_Suc simp del: ext_tail.simps(2) split: if_splits)
    from 2 b1 \<open>s' = b1 # r\<close> bnd decoded_fields_2 [of b0 b1, folded ceq] show ?thesis
      by (simp add: s fcitx_ucs4_to_utf8_def byte_from_parts)
  next
    case 3
    then have e: "ext_lead (ucast b0) = Inr (3, ucast b0 AND 0x0f)"
      unfolding ext_lead_byte mask_range by auto
    note t = tail [OF e]
    then obtain b1 b2 r where s': "s' = b1 # b2 # r" and b: "b1 AND 0xc0 = 0x80" "b2 AND 0xc0 = 0x80"
      by (cases s'; cases "tl s'") (auto simp: s ext_tail_Suc_Inr numeral_eq_Suc simp del: ext_tail.simps(2))
    with t have ceq: "c = push_bit 6 (push_bit 6 (ucast b0 AND 0x0f) OR ucast (b1 AND 0x3f))
                      OR ucast (b2 AND 0x3f)"
      and bnd: "c < 0x10000" "\<not> c < 0x80" "\<not> c < 0x800"
      by (auto simp: s ext_tail_Suc_Inr UTF8_LENGTH_def numeral_eq_Suc simp del: ext_tail.simps(2) split: if_splits)
    from 3 b s' bnd decoded_fields_3 [of b0 b1 b2, folded ceq] show ?thesis
      by (simp add: s fcitx_ucs4_to_utf8_def byte_from_parts)
  next
    case 4
    then have e: "ext_lead (ucast b0) = Inr (4, ucast b0 AND 0x07)"
      unfolding ext_lead_byte mask_range by auto
    note t = tail [OF e]
    then obtain b1 b2 b3 r where s': "s' = b1 # b2 # b3 # r"
      and b: "b1 AND 0xc0 = 0x80" "b2 AND 0xc0 = 0x80" "b3 AND 0xc0 = 0x80"
      by (cases s'; cases "tl s'"; cases "tl (tl s')")
        (auto simp: s ext_tail_Suc_Inr numeral_eq_Suc simp del: ext_tail.simps(2))
    with t have ceq: "c = push_bit 6 (push_bit 6 (push_bit 6 (ucast b0 AND 0x07) OR ucast (b1 AND 0x3f))
                      OR ucast (b2 AND 0x3f)) OR ucast (b3 AND 0x3f)"
      and bnd: "\<not> c < 0x80" "\<not> c < 0x800" "\<not> c < 0x10000"
      by (auto simp: s ext_tail_Suc_Inr UTF8_LENGTH_def numeral_eq_Suc simp del: ext_tail.simps(2) split: if_splits)
    from 4 b s' c bnd decoded_fields_4 [of b0 b1 b2 b3, folded ceq] show ?thesis
      by (simp add: s fcitx_ucs4_to_utf8_def byte_from_parts)
  next
    case 5
    then have e: "ext_lead (ucast b0) = Inr (5, ucast b0 AND 0x03)"
      unfolding ext_lead_byte mask_range by auto
    from tail [OF e] c show ?thesis
      by (auto simp: UTF8_LENGTH_def split: if_splits)
  next
    case 6
    then have e: "ext_lead (ucast b0) = Inr (6, ucast b0 AND 0x01)"
      unfolding ext_lead_byte mask_range by auto
    from tail [OF e] c show ?thesis
      by (auto simp: UTF8_LENGTH_def split: if_splits)
  next
    case 7
    with ext neg show ?thesis
      by (simp add: fcitx_utf8_get_char_extended_def s)
  qed
qed
end
