(* ===== verification/Utf8_Strings.thy ===== *)
theory Utf8_Strings
  imports Utf8_Validated
begin

text \<open>
  The routines of \<open>utf8.c\<close> that walk a string: lengths, comparison, bounded copy, validation, and
  the ASCII scanners.  A walk is a recursion on the rest of the string; it ends because a decode
  step always advances, and never past the terminator (\<open>get_char_advance\<close>).
\<close>

section \<open>Walkers\<close>

function fcitx_utf8_strlen :: "cstr \<Rightarrow> nat option" where
  "fcitx_utf8_strlen s =
     (if at_nul s then Some 0
      else case fcitx_utf8_get_char s of None \<Rightarrow> None
           | Some (_, k) \<Rightarrow> map_option Suc (fcitx_utf8_strlen (drop k s)))"
  by pat_completeness auto
termination
  by (relation "measure length") (auto dest: get_char_advance)

declare fcitx_utf8_strlen.simps [simp del]

text \<open>The offset of the \<open>n\<close>-th character.\<close>

fun fcitx_utf8_get_nth_char :: "cstr \<Rightarrow> nat \<Rightarrow> nat option" where
  "fcitx_utf8_get_nth_char s 0 = Some 0"
| "fcitx_utf8_get_nth_char s (Suc n) =
     (if at_nul s then Some 0
      else case fcitx_utf8_get_char s of None \<Rightarrow> None
           | Some (_, k) \<Rightarrow> map_option ((+) k) (fcitx_utf8_get_nth_char (drop k s) n))"

text \<open>
  A pointer that has moved past the terminator is \<open>None\<close>; it may be held but not read.
\<close>

definition advance :: "cstr \<Rightarrow> nat \<Rightarrow> cstr option" where
  "advance s k = (if k \<le> length s then Some (drop k s) else None)"

fun fcitx_utf8_strncmp_loop :: "cstr option \<Rightarrow> cstr option \<Rightarrow> nat \<Rightarrow> int option" where
  "fcitx_utf8_strncmp_loop p1 p2 0 = Some 0"
| "fcitx_utf8_strncmp_loop p1 p2 (Suc n) = do {
     s1 \<leftarrow> p1; s2 \<leftarrow> p2;
     b1 \<leftarrow> rd s1 0;
     if b1 AND 0x80 = 0 then do {
       b2 \<leftarrow> rd s2 0;
       if b1 \<noteq> b2 then Some 1
       else if b1 = 0 then Some 0
       else fcitx_utf8_strncmp_loop (advance s1 1) (advance s2 1) n }
     else do {
       (c1, k1) \<leftarrow> fcitx_utf8_get_char s1;
       (c2, k2) \<leftarrow> fcitx_utf8_get_char s2;
       if c1 \<noteq> c2 then Some 1
       else fcitx_utf8_strncmp_loop (advance s1 k1) (advance s2 k2) n } }"

definition fcitx_utf8_strncmp :: "cstr \<Rightarrow> cstr \<Rightarrow> int \<Rightarrow> int option" where
  "fcitx_utf8_strncmp s1 s2 n = fcitx_utf8_strncmp_loop (Some s1) (Some s2) (nat n)"

function fcitx_utf8_check_string :: "cstr \<Rightarrow> bool option" where
  "fcitx_utf8_check_string s =
     (if at_nul s then Some True
      else case fcitx_utf8_get_char_validated s 6 of None \<Rightarrow> None
           | Some chr \<Rightarrow>
               if chr = - 1 \<or> chr = - 2 then Some False
               else case fcitx_utf8_get_char s of None \<Rightarrow> None
                    | Some (_, k) \<Rightarrow> fcitx_utf8_check_string (drop k s))"
  by pat_completeness auto
termination
  by (relation "measure length") (auto dest: get_char_advance)

declare fcitx_utf8_check_string.simps [simp del]

text \<open>\<open>strncpy_loop d i s byte\<close>: destination buffer, write offset, rest of the source, room left.\<close>

function strncpy_loop :: "byte list \<Rightarrow> nat \<Rightarrow> cstr \<Rightarrow> nat \<Rightarrow> byte list option" where
  "strncpy_loop d i s n =
     (if at_nul s then wr d i (replicate n 0)
      else case fcitx_utf8_get_char s of None \<Rightarrow> None
           | Some (_, diff) \<Rightarrow>
               if n < diff then wr d i (replicate n 0)
               else case wr d i (take diff s) of None \<Rightarrow> None
                    | Some d' \<Rightarrow> strncpy_loop d' (i + diff) (drop diff s) (n - diff))"
  by pat_completeness auto
termination
  by (relation "measure (\<lambda>(d, i, s, n). length s)") (auto dest: get_char_advance)

declare strncpy_loop.simps [simp del]

definition fcitx_utf8_strncpy :: "byte list \<Rightarrow> cstr \<Rightarrow> nat \<Rightarrow> byte list option" where
  "fcitx_utf8_strncpy str s n = strncpy_loop str 0 s n"

function fcitx_utf8_strnlen :: "cstr \<Rightarrow> nat \<Rightarrow> nat option" where
  "fcitx_utf8_strnlen s n =
     (if at_nul s \<or> n = 0 then Some 0
      else case fcitx_utf8_get_char s of None \<Rightarrow> None
           | Some (_, diff) \<Rightarrow>
               if n < diff then Some 0
               else map_option Suc (fcitx_utf8_strnlen (drop diff s) (n - diff)))"
  by pat_completeness auto
termination
  by (relation "measure (\<lambda>(s, n). length s)") (auto dest: get_char_advance)

declare fcitx_utf8_strnlen.simps [simp del]

section \<open>ASCII scanners\<close>

definition is_valid_ascii :: "byte \<Rightarrow> bool" where
  "is_valid_ascii c \<longleftrightarrow> c AND 0x80 = 0 \<and> c \<noteq> 0"

text \<open>The backward scan: the offset where the maximal ASCII suffix of the first \<open>len\<close> bytes
  starts.\<close>

fun fcitx_utils_get_ascii_partn :: "cstr \<Rightarrow> nat \<Rightarrow> nat option" where
  "fcitx_utils_get_ascii_partn s 0 = Some 0"
| "fcitx_utils_get_ascii_partn s (Suc l) =
     (case rd s l of None \<Rightarrow> None
      | Some b \<Rightarrow> if b AND 0x80 = 0 then fcitx_utils_get_ascii_partn s l else Some (Suc l))"

definition fcitx_utils_get_ascii_part :: "cstr \<Rightarrow> nat option" where
  "fcitx_utils_get_ascii_part s = fcitx_utils_get_ascii_partn s (length s)"

fun fcitx_utils_get_ascii_endn :: "cstr \<Rightarrow> nat \<Rightarrow> nat" where
  "fcitx_utils_get_ascii_endn s 0 = 0"
| "fcitx_utils_get_ascii_endn [] (Suc n) = 0"
| "fcitx_utils_get_ascii_endn (b # s) (Suc n) =
     (if is_valid_ascii b then Suc (fcitx_utils_get_ascii_endn s n) else 0)"

fun fcitx_utils_get_ascii_end :: "cstr \<Rightarrow> nat" where
  "fcitx_utils_get_ascii_end [] = 0"
| "fcitx_utils_get_ascii_end (b # s) =
     (if is_valid_ascii b then Suc (fcitx_utils_get_ascii_end s) else 0)"

section \<open>Strings as sequences of encoded code points\<close>

text \<open>A code point of a valid string.\<close>

definition valid_cp :: "u32 \<Rightarrow> bool" where
  "valid_cp c \<longleftrightarrow> UNICODE_VALID c \<and> c \<noteq> 0"

definition utf8 :: "u32 list \<Rightarrow> cstr" where
  "utf8 cs = concat (map fcitx_ucs4_to_utf8 cs)"

lemma utf8_simps [simp]: "utf8 [] = []" "utf8 (c # cs) = fcitx_ucs4_to_utf8 c @ utf8 cs"
  by (simp_all add: utf8_def)

lemma valid_small: "UNICODE_VALID c \<Longrightarrow> c < 0x200000"
  by (auto simp: UNICODE_VALID_def intro: less_trans)

lemma bit_sign: "bit (0x80000000 :: u32) n \<longleftrightarrow> n = 31"
  using bit_exp_iff [of 31 n, where 'a = "32 word"] by auto

lemma sign_bit: "x AND 0x80000000 = (0 :: u32) \<longleftrightarrow> \<not> bit x 31"
  unfolding bit_eq_iff [of "x AND 0x80000000" 0] bit_and_iff bit_sign
  by (auto dest: spec [of _ 31])

lemma valid_positive: "c < 0x200000 \<Longrightarrow> c AND 0x80000000 = (0 :: u32)"
  using word_bound_bit [of c 21 31] by (auto simp: sign_bit)

lemma char_len_pos: "0 < fcitx_ucs4_char_len c"
  by (simp add: fcitx_ucs4_char_len_def)

lemma get_char_valid:
  "c < 0x200000 \<Longrightarrow>
   fcitx_utf8_get_char (fcitx_ucs4_to_utf8 c @ r) = Some (c, length (fcitx_ucs4_to_utf8 c))"
  by (simp add: get_char_encode length_encode)

lemma hd_encode: "c \<noteq> 0 \<Longrightarrow> c < 0x200000 \<Longrightarrow> \<not> at_nul (fcitx_ucs4_to_utf8 c @ r)"
proof
  assume c: "c \<noteq> 0" "c < 0x200000" and "at_nul (fcitx_ucs4_to_utf8 c @ r)"
  then have "hd (fcitx_ucs4_to_utf8 c) = 0"
    by (cases "fcitx_ucs4_to_utf8 c") (auto simp: at_nul_def)
  then have "fcitx_utf8_get_char (fcitx_ucs4_to_utf8 c @ r) = Some (0, 1)"
    by (simp add: get_char_eq)
  with c show False by (simp add: get_char_encode)
qed

lemma ext_lead_bound:
  "ext_lead w = Inr (n, wc) \<Longrightarrow> 2 \<le> n \<and> n \<le> 6 \<and> (bit wc m \<longrightarrow> m < 7 - n)"
  by (auto simp: ext_lead_def word_bits split: if_splits)

lemma ext_tail_bound:
  "ext_tail s i n wc = Some (Inr wc') \<Longrightarrow> (\<And>m. bit wc m \<Longrightarrow> m < k) \<Longrightarrow>
   bit wc' m \<Longrightarrow> m < k + 6 * n"
proof (induction s i n wc arbitrary: k m rule: ext_tail.induct)
  case (2 s i n wc)
  then obtain ch where ch: "rd s i = Some ch" "ch AND 0xc0 = 0x80"
    by (auto split: option.splits if_splits)
  have "m < (k + 6) + 6 * n"
  proof (rule "2.IH" [of ch])
    show "rd s i = Some ch" and "\<not> ch AND 0xc0 \<noteq> 0x80" by (rule ch(1), simp add: ch)
    show "ext_tail s (Suc i) n (push_bit 6 wc OR ucast (ch AND 0x3f)) = Some (Inr wc')"
      using 2 ch by simp
    show "bit wc' m" by fact
    fix l assume "bit (push_bit 6 wc OR ucast (ch AND 0x3f)) l"
    then show "l < k + 6"
      using "2.prems"(2) [of "l - 6"] by (auto simp: word_bits split: if_splits)
  qed
  then show ?case by simp
qed auto

section \<open>Validation\<close>

lemma extended_range:
  assumes "fcitx_utf8_get_char_extended s n = Some c"
  shows "c = - 1 \<or> c = - 2 \<or> \<not> bit c 31"
proof -
  obtain b where b: "rd s 0 = Some b" by simp
  show ?thesis
  proof (cases "ext_lead (ucast b)")
    case (Inl r)
    with assms b have "c = r" by (simp add: fcitx_utf8_get_char_extended_def)
    with Inl word_bound_bit [of r 7 31] show ?thesis
      by (auto simp: ext_lead_def split: if_splits)
  next
    case (Inr p)
    obtain len wc where p: "p = (len, wc)" by (cases p)
    have bound: "wc' = - 1 \<or> \<not> bit wc' 31" if "ext_tail s 1 (len - 1) wc = Some (Inr wc')" for wc'
    proof -
      have "2 \<le> len" "len \<le> 6" "\<And>m. bit wc m \<Longrightarrow> m < 7 - len"
        using ext_lead_bound [OF Inr [unfolded p]] by blast+
      with ext_tail_bound [OF that, of "7 - len" 31] show ?thesis by auto
    qed
    show ?thesis
    proof (cases "0 \<le> n \<and> n < int len")
      case True
      have "ext_short s i k = Some r \<Longrightarrow> r = - 1 \<or> r = - 2" for i k r
        by (induction s i k rule: ext_short.induct) (auto split: option.splits if_splits)
      with assms Inr True b show ?thesis
        by (auto simp add: fcitx_utf8_get_char_extended_def p)
    next
      case False
      with assms b have "do { t \<leftarrow> ext_tail s 1 (len - 1) wc;
          case t of Inl r \<Rightarrow> Some r
          | Inr wc' \<Rightarrow> Some (if UTF8_LENGTH wc' \<noteq> len then - 1 else wc') } = Some c"
        unfolding fcitx_utf8_get_char_extended_def b by (simp add: Inr p if_not_P)
      then obtain t where "ext_tail s 1 (len - 1) wc = Some t"
        and "(case t of Inl r \<Rightarrow> Some r
          | Inr wc' \<Rightarrow> Some (if UTF8_LENGTH wc' \<noteq> len then - 1 else wc')) = Some c"
        by (auto simp: bind_eq_Some_conv)
      then show ?thesis
        using bound by (cases t) (auto split: if_splits dest: ext_tail_Inl)
    qed
  qed
qed

lemma validated_encode:
  "UNICODE_VALID c \<Longrightarrow> n < 0 \<or> 4 \<le> n \<Longrightarrow>
   fcitx_utf8_get_char_validated (fcitx_ucs4_to_utf8 c @ r) n = Some c"
  using valid_small [of c]
  by (auto simp: fcitx_utf8_get_char_validated_def extended_encode valid_positive)

lemma validated_sound:
  assumes v: "fcitx_utf8_get_char_validated s n = Some c" and n: "n < 0 \<or> 6 \<le> n"
    and ne: "\<not> at_nul s" and c: "c \<noteq> - 1" "c \<noteq> - 2"
  shows "valid_cp c \<and> (\<exists>r. s = fcitx_ucs4_to_utf8 c @ r)"
proof -
  from n have "n \<noteq> 0" by auto
  with v obtain x where x: "fcitx_utf8_get_char_extended s n = Some x"
    and cx: "c = (if bit x 31 then x else if \<not> UNICODE_VALID x then - 1 else x)"
    by (auto simp: fcitx_utf8_get_char_validated_def sign_bit bind_eq_Some_conv)
  from extended_range [OF x] cx c have cc: "c = x" "UNICODE_VALID c"
    by (auto split: if_splits)
  from ne have "s \<noteq> []" by auto
  then obtain r where r: "s = fcitx_ucs4_to_utf8 c @ r"
    using extended_sound [OF x n] valid_small [OF cc(2)] cc(1) by auto
  have "c \<noteq> 0"
    using ne by (auto simp: r fcitx_ucs4_to_utf8_def)
  with cc r show ?thesis by (auto simp: valid_cp_def)
qed

lemma check_string_utf8:
  assumes "\<forall>c\<in>set cs. valid_cp c"
  shows "fcitx_utf8_check_string (utf8 cs) = Some True"
  using assms
proof (induction cs)
  case Nil
  then show ?case by (simp add: fcitx_utf8_check_string.simps)
next
  case (Cons c cs)
  then have "valid_cp c" by simp
  then have c: "UNICODE_VALID c" "c \<noteq> 0" "c < 0x200000" "c \<noteq> - 1" "c \<noteq> - 2"
    using valid_small [of c] by (auto simp: valid_cp_def UNICODE_VALID_def)
  with Cons show ?case
    by (subst fcitx_utf8_check_string.simps)
      (simp add: hd_encode validated_encode get_char_valid)
qed

lemma check_string_sound:
  "fcitx_utf8_check_string s = Some True \<Longrightarrow> c_string s \<Longrightarrow> \<exists>cs. s = utf8 cs \<and> (\<forall>c\<in>set cs. valid_cp c)"
proof (induction s rule: fcitx_utf8_check_string.induct)
  case (1 s)
  show ?case
  proof (cases "at_nul s")
    case True
    with 1 have "s = utf8 []" by (simp add: c_string_at_nul)
    then show ?thesis by (intro exI [of _ "[]"]) simp
  next
    case False
    with "1.prems" obtain v x k where v: "fcitx_utf8_get_char_validated s 6 = Some v"
      and vv: "v \<noteq> - 1" "v \<noteq> - 2" and k: "fcitx_utf8_get_char s = Some (x, k)"
      and rest: "fcitx_utf8_check_string (drop k s) = Some True"
      by (subst (asm) fcitx_utf8_check_string.simps) (auto split: option.splits if_splits)
    from validated_sound [OF v _ False vv] obtain r where "valid_cp v"
      and s: "s = fcitx_ucs4_to_utf8 v @ r" by auto
    moreover from this have "drop k s = r"
      using k by (auto simp: get_char_valid valid_cp_def valid_small)
    moreover from "1.IH" [OF False v _ k refl rest] obtain cs where "drop k s = utf8 cs"
      "\<forall>c\<in>set cs. valid_cp c"
      using vv "1.prems"(2) by auto
    ultimately have "s = utf8 (v # cs) \<and> (\<forall>c\<in>set (v # cs). valid_cp c)" by auto
    then show ?thesis by blast
  qed
qed

lemma ext_tail_total: "i \<le> length s \<Longrightarrow> \<exists>t. ext_tail s i n wc = Some t"
proof (induction s i n wc rule: ext_tail.induct)
  case (2 s i n wc)
  then show ?case by (cases "i < length s") (auto simp: rd_def)
qed auto

lemma ext_short_total: "i \<le> length s \<Longrightarrow> \<exists>t. ext_short s i n = Some t"
proof (induction s i n rule: ext_short.induct)
  case (2 s i n)
  then show ?case by (cases "i < length s") (auto simp: rd_def)
qed auto

lemma validated_total: "s \<noteq> [] \<Longrightarrow> \<exists>c. fcitx_utf8_get_char_validated s n = Some c"
proof -
  assume "s \<noteq> []"
  then have "1 \<le> length s" by (cases s) auto
  then obtain f g where "\<And>n wc. ext_tail s 1 n wc = Some (f n wc)"
    and "\<And>n. ext_short s 1 n = Some (g n)"
    using ext_tail_total [of 1 s] ext_short_total [of 1 s] by metis
  then show ?thesis
    by (auto simp: fcitx_utf8_get_char_validated_def fcitx_utf8_get_char_extended_def
        split: sum.splits)
qed

lemma check_string_total: "\<exists>b. fcitx_utf8_check_string s = Some b"
proof (induction s rule: fcitx_utf8_check_string.induct)
  case (1 s)
  show ?case
  proof (cases "at_nul s")
    case False
    then have "s \<noteq> []" by auto
    then obtain v c k where "fcitx_utf8_get_char_validated s 6 = Some v"
      and "fcitx_utf8_get_char s = Some (c, k)"
      using validated_total [of s 6] by (metis get_char_total)
    with 1 False show ?thesis
      by (subst fcitx_utf8_check_string.simps) auto
  qed (intro exI [of _ True], subst fcitx_utf8_check_string.simps, simp)
qed

section \<open>Walks over valid strings\<close>

lemma valid_cpD:
  assumes "valid_cp c"
  shows "fcitx_utf8_get_char (fcitx_ucs4_to_utf8 c @ r) = Some (c, length (fcitx_ucs4_to_utf8 c))"
    and "\<not> at_nul (fcitx_ucs4_to_utf8 c @ r)" and "0 < length (fcitx_ucs4_to_utf8 c)"
  using assms by (auto simp: valid_cp_def valid_small get_char_valid hd_encode)

lemma strlen_utf8: "\<forall>c\<in>set cs. valid_cp c \<Longrightarrow> fcitx_utf8_strlen (utf8 cs) = Some (length cs)"
  by (induction cs; subst fcitx_utf8_strlen.simps) (simp_all add: valid_cpD)

lemma nth_char_utf8:
  "\<forall>c\<in>set cs. valid_cp c \<Longrightarrow>
   fcitx_utf8_get_nth_char (utf8 cs) n = Some (length (utf8 (take n cs)))"
proof (induction cs arbitrary: n)
  case Nil
  then show ?case by (cases n) auto
next
  case (Cons c cs)
  then show ?case by (cases n) (auto simp: valid_cpD)
qed

text \<open>The longest prefix of whole characters that fits in \<open>n\<close> bytes.\<close>

fun fitting :: "u32 list \<Rightarrow> nat \<Rightarrow> u32 list" where
  "fitting [] n = []"
| "fitting (c # cs) n =
     (if length (fcitx_ucs4_to_utf8 c) \<le> n
      then c # fitting cs (n - length (fcitx_ucs4_to_utf8 c)) else [])"

lemma fitting_maximal:
  "\<exists>k. fitting cs n = take k cs \<and> length (utf8 (take k cs)) \<le> n \<and>
     (k < length cs \<longrightarrow> n < length (utf8 (take (Suc k) cs)))"
proof (induction cs arbitrary: n)
  case Nil
  then show ?case by simp
next
  case (Cons c cs)
  show ?case
  proof (cases "length (fcitx_ucs4_to_utf8 c) \<le> n")
    case True
    obtain k where "fitting cs (n - length (fcitx_ucs4_to_utf8 c)) = take k cs"
      "length (utf8 (take k cs)) \<le> n - length (fcitx_ucs4_to_utf8 c)"
      "k < length cs \<longrightarrow> n - length (fcitx_ucs4_to_utf8 c) < length (utf8 (take (Suc k) cs))"
      using Cons by blast
    with True show ?thesis by (intro exI [of _ "Suc k"]) auto
  next
    case False
    then show ?thesis by (intro exI [of _ 0]) auto
  qed
qed

lemma strncpy_loop_utf8:
  "\<forall>c\<in>set cs. valid_cp c \<Longrightarrow> n \<le> length d \<Longrightarrow>
   strncpy_loop (p @ d) (length p) (utf8 cs) n =
     Some (p @ utf8 (fitting cs n) @ replicate (n - length (utf8 (fitting cs n))) 0 @ drop n d)"
proof (induction cs arbitrary: p d n)
  case Nil
  then show ?case by (simp add: strncpy_loop.simps)
next
  case (Cons c cs)
  let ?e = "fcitx_ucs4_to_utf8 c"
  show ?case
  proof (cases "length ?e \<le> n")
    case True
    have "strncpy_loop (p @ d) (length p) (utf8 (c # cs)) n =
      strncpy_loop ((p @ ?e) @ drop (length ?e) d) (length (p @ ?e)) (utf8 cs) (n - length ?e)"
      using Cons.prems True by (subst strncpy_loop.simps) (simp add: valid_cpD)
    also have "\<dots> = Some ((p @ ?e) @ utf8 (fitting cs (n - length ?e)) @
      replicate (n - length ?e - length (utf8 (fitting cs (n - length ?e)))) 0 @
      drop (n - length ?e) (drop (length ?e) d))"
      using Cons.prems True by (intro Cons.IH) auto
    finally show ?thesis
      using True by simp
  next
    case False
    with Cons.prems show ?thesis
      by (subst strncpy_loop.simps) (simp add: valid_cpD)
  qed
qed

lemma strnlen_utf8:
  "\<forall>c\<in>set cs. valid_cp c \<Longrightarrow> fcitx_utf8_strnlen (utf8 cs) n = Some (length (fitting cs n))"
proof (induction cs arbitrary: n)
  case (Cons c cs)
  then show ?case
    by (subst fcitx_utf8_strnlen.simps) (auto simp: valid_cpD)
qed (simp add: fcitx_utf8_strnlen.simps)

lemma ascii_encode:
  assumes c: "valid_cp c" and a: "hd (fcitx_ucs4_to_utf8 c) AND 0x80 = 0"
  shows "fcitx_ucs4_to_utf8 c = [hd (fcitx_ucs4_to_utf8 c)]" "hd (fcitx_ucs4_to_utf8 c) \<noteq> 0"
    "c = ucast (hd (fcitx_ucs4_to_utf8 c))"
proof -
  have "fcitx_utf8_get_char (fcitx_ucs4_to_utf8 c) = Some (ucast (hd (fcitx_ucs4_to_utf8 c)), 1)"
    using a by (simp add: get_char_eq)
  with valid_cpD(1) [OF c, of "[]"]
  have "c = ucast (hd (fcitx_ucs4_to_utf8 c))" and l: "length (fcitx_ucs4_to_utf8 c) = 1"
    by simp_all
  then show "c = ucast (hd (fcitx_ucs4_to_utf8 c))" by simp
  from l show "fcitx_ucs4_to_utf8 c = [hd (fcitx_ucs4_to_utf8 c)]"
    by (cases "fcitx_ucs4_to_utf8 c") auto
  show "hd (fcitx_ucs4_to_utf8 c) \<noteq> 0"
    using valid_cpD(2) [OF c, of "[]"] by (auto simp: at_nul_def)
qed

lemma hd_utf8: "cs \<noteq> [] \<Longrightarrow> hd (utf8 cs) = hd (fcitx_ucs4_to_utf8 (hd cs))"
  by (cases cs) (auto simp: hd_append)

lemma utf8_eq_Nil [simp]: "utf8 cs = [] \<longleftrightarrow> cs = []"
  by (cases cs) auto

lemma advance_utf8 [simp]:
  "advance (fcitx_ucs4_to_utf8 c @ r) (length (fcitx_ucs4_to_utf8 c)) = Some r"
  by (simp add: advance_def)

lemma strncmp_utf8:
  "\<forall>c\<in>set cs. valid_cp c \<Longrightarrow> \<forall>c\<in>set ds. valid_cp c \<Longrightarrow>
   fcitx_utf8_strncmp_loop (Some (utf8 cs)) (Some (utf8 ds)) n =
     Some (if take n cs = take n ds then 0 else 1)"
proof (induction n arbitrary: cs ds)
  case (Suc n)
  show ?case
  proof (cases cs)
    case Nil
    show ?thesis
    proof (cases ds)
      case (Cons d ds')
      with Suc.prems have "hd (utf8 ds) \<noteq> 0"
        using ascii_encode(2) [of d] by (fastforce simp: hd_utf8)
      with Nil Cons show ?thesis by simp
    qed (simp add: Nil)
  next
    case (Cons c cs')
    let ?b = "hd (fcitx_ucs4_to_utf8 c)"
    from Cons Suc.prems have vc: "valid_cp c" "\<forall>c\<in>set cs'. valid_cp c" "c \<noteq> 0"
      by (auto simp: valid_cp_def)
    show ?thesis
    proof (cases "?b AND 0x80 = 0")
      case True
      note ac = ascii_encode [OF vc(1) True]
      then have adv: "advance (fcitx_ucs4_to_utf8 c @ r) (Suc 0) = Some r" for r
        using advance_utf8 [of c r] by (metis One_nat_def length_Cons list.size(3))
      show ?thesis
      proof (cases ds)
        case Nil
        with Cons True ac show ?thesis by (simp add: hd_append)
      next
        case ds: (Cons d ds')
        with Suc.prems have vd: "valid_cp d" "\<forall>c\<in>set ds'. valid_cp c" by auto
        show ?thesis
        proof (cases "?b = hd (fcitx_ucs4_to_utf8 d)")
          case eq: True
          then have "d = c" using ac(3) ascii_encode(3) [OF vd(1)] True by simp
          with Cons ds True ac(2) Suc.IH [OF vc(2) vd(2)] show ?thesis
            by (simp add: hd_append adv)
        next
          case False
          then have "c \<noteq> d" by auto
          with False Cons ds True show ?thesis by (simp add: hd_append)
        qed
      qed
    next
      case False
      show ?thesis
      proof (cases ds)
        case Nil
        with Cons False vc show ?thesis by (simp add: hd_append valid_cpD)
      next
        case ds: (Cons d ds')
        with Suc.prems have vd: "valid_cp d" "\<forall>c\<in>set ds'. valid_cp c" by auto
        with Cons ds False vc Suc.IH [OF vc(2) vd(2)] show ?thesis
          by (simp add: hd_append valid_cpD)
      qed
    qed
  qed
qed simp

lemma take_bit_small_iff: "k < 32 \<Longrightarrow> take_bit k (c :: u32) = c \<longleftrightarrow> c < 2 ^ k"
  using and_mask_less_size [of k c] take_bit_small [of c k]
  by (auto simp: take_bit_eq_mask word_size)

section \<open>Properties\<close>

text \<open>C6: \<open>fcitx_utf8_check_string\<close> always answers without reading past the terminator, and accepts
  exactly the strings that are a sequence of encoded valid, nonzero Unicode code points (no
  surrogates, no noncharacters, no overlong forms, nothing truncated).\<close>

theorem check_string_correct:
  assumes "c_string s"
  shows "fcitx_utf8_check_string s = Some (s \<in> utf8 ` {cs. \<forall>c\<in>set cs. valid_cp c})"
proof -
  obtain b where "fcitx_utf8_check_string s = Some b"
    using check_string_total by blast
  moreover have "b \<longleftrightarrow> s \<in> utf8 ` {cs. \<forall>c\<in>set cs. valid_cp c}"
    using calculation assms check_string_sound [of s] check_string_utf8 by (cases b) auto
  ultimately show ?thesis by simp
qed

theorem check_string_correct_witness:
  "fcitx_utf8_check_string [0x61, 0xC3, 0xA9] =
     Some ([0x61, 0xC3, 0xA9] \<in> utf8 ` {cs. \<forall>c\<in>set cs. valid_cp c})"
  by (rule check_string_correct) simp

text \<open>C7: Decoding inverts encoding, consuming exactly the encoded bytes, for every code point that
  Unicode has and all the 31-bit values outside one range: between \<open>0x4000000\<close> and \<open>0x8000000\<close>
  the encoder picks a five-byte form that drops bit 26.\<close>

theorem decode_encode_iff:
  "(fcitx_utf8_get_char (fcitx_ucs4_to_utf8 c @ r) = Some (c, fcitx_ucs4_char_len c)) =
     (c < 0x4000000 \<or> (0x8000000 \<le> c \<and> c < 0x80000000))"
proof -
  have "take_bit 26 c = c \<longleftrightarrow> c < 0x4000000" "take_bit 31 c = c \<longleftrightarrow> c < 0x80000000"
    using take_bit_small_iff [of 26 c] take_bit_small_iff [of 31 c] by auto
  moreover have "c < 0x200000 \<Longrightarrow> c < 0x4000000" "c < 0x4000000 \<Longrightarrow> c < 0x8000000"
    by (auto intro: less_trans)
  ultimately show ?thesis
    by (auto simp: get_char_encode)
qed

text \<open>C8: On a valid source and a destination with room for \<open>n\<close> bytes, \<open>fcitx_utf8_strncpy\<close> writes
  exactly \<open>n\<close> bytes: the longest prefix of whole characters that fits, then NULs; the rest of the
  destination keeps its bytes, and \<open>fcitx_utf8_strnlen\<close> counts the characters copied.\<close>

theorem strncpy_correct:
  assumes "\<forall>c\<in>set cs. valid_cp c" and "n \<le> length d"
  shows "\<exists>k. fcitx_utf8_strncpy d (utf8 cs) n =
       Some (utf8 (take k cs) @ replicate (n - length (utf8 (take k cs))) 0 @ drop n d) \<and>
     fcitx_utf8_strnlen (utf8 cs) n = Some k \<and>
     length (utf8 (take k cs)) \<le> n \<and>
     (k = length cs \<or> k < length cs \<and> n < length (utf8 (take (Suc k) cs)))"
proof -
  obtain k where k: "fitting cs n = take k cs" "length (utf8 (take k cs)) \<le> n"
    "k < length cs \<longrightarrow> n < length (utf8 (take (Suc k) cs))"
    using fitting_maximal by blast
  then have "fitting cs n = take (min k (length cs)) cs"
    by (simp add: min_def)
  with k assms strncpy_loop_utf8 [OF assms, of "[]"] strnlen_utf8 [OF assms(1), of n] show ?thesis
    by (intro exI [of _ "min k (length cs)"]) (auto simp: fcitx_utf8_strncpy_def min_def)
qed

theorem strncpy_correct_witness:
  "\<exists>k. fcitx_utf8_strncpy (replicate 4 1) (utf8 [0x61, 0xE9, 0xE9]) 4 =
       Some (utf8 (take k [0x61, 0xE9, 0xE9]) @
             replicate (4 - length (utf8 (take k [0x61, 0xE9, 0xE9]))) 0 @ drop 4 (replicate 4 1)) \<and>
     fcitx_utf8_strnlen (utf8 [0x61, 0xE9, 0xE9]) 4 = Some k \<and>
     length (utf8 (take k [0x61, 0xE9, 0xE9])) \<le> 4 \<and>
     (k = length [0x61, 0xE9, 0xE9 :: u32] \<or>
      k < length [0x61, 0xE9, 0xE9 :: u32] \<and> 4 < length (utf8 (take (Suc k) [0x61, 0xE9, 0xE9])))"
  by (rule strncpy_correct) (simp_all add: valid_cp_def UNICODE_VALID_def)

text \<open>On valid strings \<open>fcitx_utf8_strncmp\<close> stays inside both strings and is 0 exactly when the
  first \<open>n\<close> characters of the two agree; it is 1 otherwise.\<close>

theorem strncmp_correct:
  assumes "\<forall>c\<in>set cs. valid_cp c" and "\<forall>c\<in>set ds. valid_cp c"
  shows "fcitx_utf8_strncmp (utf8 cs) (utf8 ds) n =
     Some (if take (nat n) cs = take (nat n) ds then 0 else 1)"
  using assms by (simp add: fcitx_utf8_strncmp_def strncmp_utf8)

theorem strncmp_correct_witness:
  "fcitx_utf8_strncmp (utf8 [0x61, 0xE9]) (utf8 [0x61, 0x62]) 2 =
     Some (if take (nat 2) [0x61, 0xE9 :: u32] = take (nat 2) [0x61, 0x62] then 0 else 1)"
  by (rule strncmp_correct) (simp_all add: valid_cp_def UNICODE_VALID_def)

end
