(* ===== verification/Key.thy ===== *)
theory Key
  imports KeyData StringList Utf8_Strings
begin

text \<open>
  Keys, \<open>src/lib/fcitx-utils/key.c\<close>: normalisation and matching of key events, the textual form,
  key lists, and the conversion between key symbols and code points over the tables of
  \<open>keydata.h\<close>.  The name tables \<open>keynametable.h\<close> and \<open>keynametable-compat.h\<close> are an argument of the
  functions that use them; their contents are in \<open>KeyNameTable\<close>.
\<close>

section \<open>Types and constants\<close>

record fcitx_key =
  sym :: u32
  state :: u32

definition FCITX_KEY :: "u32 \<Rightarrow> u32 \<Rightarrow> fcitx_key" where
  "FCITX_KEY s st = \<lparr>sym = s, state = st\<rparr>"

abbreviation (input) "FcitxKey_None \<equiv> 0x0 :: u32"
abbreviation (input) "FcitxKey_space \<equiv> 0x0020 :: u32"
abbreviation (input) "FcitxKey_0 \<equiv> 0x0030 :: u32"
abbreviation (input) "FcitxKey_9 \<equiv> 0x0039 :: u32"
abbreviation (input) "FcitxKey_A \<equiv> 0x0041 :: u32"
abbreviation (input) "FcitxKey_Z \<equiv> 0x005a :: u32"
abbreviation (input) "FcitxKey_a \<equiv> 0x0061 :: u32"
abbreviation (input) "FcitxKey_z \<equiv> 0x007a :: u32"
abbreviation (input) "FcitxKey_asciitilde \<equiv> 0x007e :: u32"
abbreviation (input) "FcitxKey_ISO_Left_Tab \<equiv> 0xfe20 :: u32"
abbreviation (input) "FcitxKey_Tab \<equiv> 0xff09 :: u32"
abbreviation (input) "FcitxKey_Return \<equiv> 0xff0d :: u32"
abbreviation (input) "FcitxKey_Home \<equiv> 0xff50 :: u32"
abbreviation (input) "FcitxKey_Left \<equiv> 0xff51 :: u32"
abbreviation (input) "FcitxKey_Up \<equiv> 0xff52 :: u32"
abbreviation (input) "FcitxKey_Right \<equiv> 0xff53 :: u32"
abbreviation (input) "FcitxKey_Down \<equiv> 0xff54 :: u32"
abbreviation (input) "FcitxKey_Page_Up \<equiv> 0xff55 :: u32"
abbreviation (input) "FcitxKey_Page_Down \<equiv> 0xff56 :: u32"
abbreviation (input) "FcitxKey_End \<equiv> 0xff57 :: u32"
abbreviation (input) "FcitxKey_KP_0 \<equiv> 0xffb0 :: u32"
abbreviation (input) "FcitxKey_KP_9 \<equiv> 0xffb9 :: u32"
abbreviation (input) "FcitxKey_Shift_L \<equiv> 0xffe1 :: u32"
abbreviation (input) "FcitxKey_Shift_R \<equiv> 0xffe2 :: u32"
abbreviation (input) "FcitxKey_Control_L \<equiv> 0xffe3 :: u32"
abbreviation (input) "FcitxKey_Control_R \<equiv> 0xffe4 :: u32"
abbreviation (input) "FcitxKey_Alt_L \<equiv> 0xffe9 :: u32"
abbreviation (input) "FcitxKey_Alt_R \<equiv> 0xffea :: u32"
abbreviation (input) "FcitxKey_Super_L \<equiv> 0xffeb :: u32"
abbreviation (input) "FcitxKey_Super_R \<equiv> 0xffec :: u32"
abbreviation (input) "FcitxKey_Hyper_L \<equiv> 0xffed :: u32"
abbreviation (input) "FcitxKey_Hyper_R \<equiv> 0xffee :: u32"

abbreviation (input) "FcitxKeyState_None \<equiv> 0 :: u32"
abbreviation (input) "FcitxKeyState_Shift \<equiv> 1 :: u32"
abbreviation (input) "FcitxKeyState_Ctrl \<equiv> 4 :: u32"
abbreviation (input) "FcitxKeyState_Ctrl_Shift \<equiv> 5 :: u32"
abbreviation (input) "FcitxKeyState_Alt \<equiv> 8 :: u32"
abbreviation (input) "FcitxKeyState_Ctrl_Alt_Shift \<equiv> 13 :: u32"
abbreviation (input) "FcitxKeyState_Super \<equiv> 64 :: u32"
abbreviation (input) "FcitxKeyState_Hyper \<equiv> 0x8000000 :: u32"

section \<open>Key symbols and code points\<close>

text \<open>The binary search that both conversions run, with its signed bounds; \<open>f\<close> selects the column.\<close>

function tab_search ::
  "(nat \<times> nat \<Rightarrow> nat) \<Rightarrow> (nat \<times> nat) list \<Rightarrow> nat \<Rightarrow> int \<Rightarrow> int \<Rightarrow> (nat \<times> nat) option" where
  "tab_search f tab k lo hi =
     (if hi \<ge> lo
      then let mid = (lo + hi) div 2; e = tab ! nat mid in
           if f e < k then tab_search f tab k (mid + 1) hi
           else if f e > k then tab_search f tab k lo (mid - 1)
           else Some e
      else None)"
  by pat_completeness auto
termination
  by (relation "measure (\<lambda>(f, tab, k, lo, hi). nat (hi + 1 - lo))") auto

declare tab_search.simps [simp del]

definition fcitx_keysym_to_unicode :: "u32 \<Rightarrow> u32" where
  "fcitx_keysym_to_unicode keyval =
     (if (keyval \<ge> 0x0020 \<and> keyval \<le> 0x007e) \<or> (keyval \<ge> 0x00a0 \<and> keyval \<le> 0x00ff) then keyval
      else if keyval AND 0xff000000 = 0x01000000 then keyval AND 0x00ffffff
      else case tab_search fst gdk_keysym_to_unicode_tab (unat keyval) 0
                  (int (length gdk_keysym_to_unicode_tab) - 1) of
          Some e \<Rightarrow> of_nat (snd e)
        | None \<Rightarrow> 0)"

definition fcitx_keysym_from_unicode :: "u32 \<Rightarrow> u32" where
  "fcitx_keysym_from_unicode wc =
     (if (wc \<ge> 0x0020 \<and> wc \<le> 0x007e) \<or> (wc \<ge> 0x00a0 \<and> wc \<le> 0x00ff) then wc
      else case tab_search snd gdk_unicode_to_keysym_tab (unat wc) 0
                  (int (length gdk_unicode_to_keysym_tab) - 1) of
          Some e \<Rightarrow> of_nat (fst e)
        | None \<Rightarrow> wc OR 0x01000000)"

definition fcitx_keysym_to_state :: "u32 \<Rightarrow> u32" where
  "fcitx_keysym_to_state s =
     (if s = FcitxKey_Control_L \<or> s = FcitxKey_Control_R then FcitxKeyState_Ctrl
      else if s = FcitxKey_Alt_L \<or> s = FcitxKey_Alt_R then FcitxKeyState_Alt
      else if s = FcitxKey_Shift_L \<or> s = FcitxKey_Shift_R then FcitxKeyState_Shift
      else if s = FcitxKey_Super_L \<or> s = FcitxKey_Super_R then FcitxKeyState_Super
      else if s = FcitxKey_Hyper_L \<or> s = FcitxKey_Hyper_R then FcitxKeyState_Hyper
      else 0)"

section \<open>Classes of keys\<close>

definition fcitx_key_is_digit :: "fcitx_key \<Rightarrow> bool" where
  "fcitx_key_is_digit key = (if state key \<noteq> 0 then False else sym key \<ge> FcitxKey_0 \<and> sym key \<le> FcitxKey_9)"

definition fcitx_key_is_uaz :: "fcitx_key \<Rightarrow> bool" where
  "fcitx_key_is_uaz key = (if state key \<noteq> 0 then False else sym key \<ge> FcitxKey_A \<and> sym key \<le> FcitxKey_Z)"

definition fcitx_key_is_laz :: "fcitx_key \<Rightarrow> bool" where
  "fcitx_key_is_laz key = (if state key \<noteq> 0 then False else sym key \<ge> FcitxKey_a \<and> sym key \<le> FcitxKey_z)"

definition fcitx_key_is_simple :: "fcitx_key \<Rightarrow> bool" where
  "fcitx_key_is_simple key =
     (if state key \<noteq> 0 then False else sym key \<ge> FcitxKey_space \<and> sym key \<le> FcitxKey_asciitilde)"

definition fcitx_key_is_modifier :: "fcitx_key \<Rightarrow> bool" where
  "fcitx_key_is_modifier key \<longleftrightarrow>
     sym key = FcitxKey_Control_L \<or> sym key = FcitxKey_Control_R \<or>
     sym key = FcitxKey_Alt_L \<or> sym key = FcitxKey_Alt_R \<or>
     sym key = FcitxKey_Super_L \<or> sym key = FcitxKey_Super_R \<or>
     sym key = FcitxKey_Hyper_L \<or> sym key = FcitxKey_Hyper_R \<or>
     sym key = FcitxKey_Shift_L \<or> sym key = FcitxKey_Shift_R"

definition fcitx_key_is_cursor_move :: "fcitx_key \<Rightarrow> bool" where
  "fcitx_key_is_cursor_move key \<longleftrightarrow>
     (sym key = FcitxKey_Left \<or> sym key = FcitxKey_Right \<or> sym key = FcitxKey_Up \<or>
      sym key = FcitxKey_Down \<or> sym key = FcitxKey_Page_Up \<or> sym key = FcitxKey_Page_Down \<or>
      sym key = FcitxKey_Home \<or> sym key = FcitxKey_End) \<and>
     (state key = FcitxKeyState_Ctrl \<or> state key = FcitxKeyState_Ctrl_Shift \<or>
      state key = FcitxKeyState_Shift \<or> state key = FcitxKeyState_None)"

section \<open>Normalisation and matching\<close>

definition fcitx_key_normalize :: "fcitx_key \<Rightarrow> fcitx_key" where
  "fcitx_key_normalize key =
     (let key =
        (if state key \<noteq> 0
         then
           let key = (if state key \<noteq> FcitxKeyState_Shift \<and> fcitx_key_is_laz (FCITX_KEY (sym key) 0)
                      then key\<lparr>sym := sym key + FcitxKey_A - FcitxKey_a\<rparr> else key)
           in
             if fcitx_key_is_laz (FCITX_KEY (sym key) 0) \<or> fcitx_key_is_uaz (FCITX_KEY (sym key) 0)
             then (if state key = FcitxKeyState_Shift
                   then key\<lparr>state := state key AND NOT FcitxKeyState_Shift\<rparr> else key)
             else (if state key AND FcitxKeyState_Shift \<noteq> 0 \<and>
                      (((fcitx_key_is_simple (FCITX_KEY (sym key) 0) \<or>
                         fcitx_keysym_to_unicode (sym key) \<noteq> 0) \<and>
                        sym key \<noteq> FcitxKey_space \<and> sym key \<noteq> FcitxKey_Return) \<or>
                       (sym key \<ge> FcitxKey_KP_0 \<and> sym key \<le> FcitxKey_KP_9))
                   then key\<lparr>state := state key AND NOT FcitxKeyState_Shift\<rparr> else key)
         else key)
      in if sym key = FcitxKey_ISO_Left_Tab then key\<lparr>sym := FcitxKey_Tab\<rparr> else key)"

definition fcitx_key_check :: "fcitx_key \<Rightarrow> fcitx_key \<Rightarrow> bool" where
  "fcitx_key_check toCheck key =
     (if fcitx_key_is_modifier key
      then
        let keyAlt = key;
            key = key\<lparr>state := state key AND NOT (fcitx_keysym_to_state (sym key))\<rparr>;
            keyAlt = keyAlt\<lparr>state := state keyAlt OR fcitx_keysym_to_state (state key)\<rparr>
        in (sym toCheck = sym key \<and> state toCheck = state key) \<or>
           (sym toCheck = sym keyAlt \<and> state toCheck = state keyAlt)
      else
        let toCheck = toCheck\<lparr>state := state toCheck AND (FcitxKeyState_Ctrl_Alt_Shift OR FcitxKeyState_Super)\<rparr>
        in sym toCheck = sym key \<and> state toCheck = state key)"

section \<open>Names\<close>

record key_names =
  keyNameList :: "cstr list"
  keyValueByNameOffset :: "u32 list"
  keyNameOffsetByValue :: "(u32 \<times> nat) list"
  keyNameListCompat :: "(cstr \<times> u32) list"

definition keysymCompare :: "u32 \<Rightarrow> u32 \<times> nat \<Rightarrow> int" where
  "keysymCompare pkey pbase = sint (pkey - fst pbase)"

definition fcitx_keysym_to_string :: "key_names \<Rightarrow> u32 \<Rightarrow> cstr option" where
  "fcitx_keysym_to_string names keysym =
     (case bsearch (keysymCompare keysym) (keyNameOffsetByValue names) of
        Some i \<Rightarrow> Some (keyNameList names ! snd (keyNameOffsetByValue names ! i))
      | None \<Rightarrow> None)"

text \<open>The search runs over the values and compares the name at the same offset.\<close>

definition fcitx_keysym_from_string :: "key_names \<Rightarrow> cstr \<Rightarrow> u32 option" where
  "fcitx_keysym_from_string names str =
     (case bsearch (\<lambda>i. strcmp str (keyNameList names ! i)) [0..<length (keyValueByNameOffset names)] of
        Some i \<Rightarrow> Some (keyValueByNameOffset names ! i)
      | None \<Rightarrow>
     (case bsearch (\<lambda>e. strcmp str (fst e)) (keyNameListCompat names) of
        Some i \<Rightarrow> Some (snd (keyNameListCompat names ! i))
      | None \<Rightarrow> do {
          n \<leftarrow> fcitx_utf8_strlen str;
          if n = 1 then do {
            chr \<leftarrow> fcitx_utf8_get_char_validated str 6;
            if sint chr > 0 then do {
              l \<leftarrow> fcitx_utf8_char_len str;
              Some (if l = 1 then scast (hd str) else fcitx_keysym_from_unicode chr) }
            else Some FcitxKey_None }
          else Some FcitxKey_None }))"

text \<open>One modifier of \<open>fcitx_key_parse\<close>: where it occurs, its state is set and the last modifier
  ends no earlier than it does.\<close>

definition check_modifier :: "cstr \<Rightarrow> string \<times> u32 \<Rightarrow> u32 \<times> nat \<Rightarrow> u32 \<times> nat" where
  "check_modifier p m acc =
     (case strstr p (bytes (fst m)) of
        None \<Rightarrow> acc
      | Some found \<Rightarrow>
          (fst acc OR snd m,
           if found + length (fst m) > snd acc then found + length (fst m) else snd acc))"

definition modifiers :: "(string \<times> u32) list" where
  "modifiers =
     [(''CTRL_'', FcitxKeyState_Ctrl), (''Control+'', FcitxKeyState_Ctrl),
      (''ALT_'', FcitxKeyState_Alt), (''Alt+'', FcitxKeyState_Alt),
      (''SHIFT_'', FcitxKeyState_Shift), (''Shift+'', FcitxKeyState_Shift),
      (''SUPER_'', FcitxKeyState_Super), (''Super+'', FcitxKeyState_Super)]"

definition fcitx_key_parse :: "key_names \<Rightarrow> cstr \<Rightarrow> fcitx_key option" where
  "fcitx_key_parse names keyString =
     (let (st, lastModifier) = fold (check_modifier keyString) modifiers (0, 0)
      in do {
        s \<leftarrow> fcitx_keysym_from_string names (drop lastModifier keyString);
        Some (FCITX_KEY s st) })"

definition modifier_string :: "u32 \<Rightarrow> u32 \<Rightarrow> string \<Rightarrow> cstr" where
  "modifier_string st m s = (if st AND m \<noteq> 0 then bytes s else [])"

definition fcitx_key_to_string :: "key_names \<Rightarrow> fcitx_key \<Rightarrow> cstr option" where
  "fcitx_key_to_string names hotkey =
     (if sym hotkey = FcitxKey_None then None
      else
        let hotkey = (if sym hotkey = FcitxKey_ISO_Left_Tab then hotkey\<lparr>sym := FcitxKey_Tab\<rparr> else hotkey)
        in case fcitx_keysym_to_string names (sym hotkey) of
            None \<Rightarrow> None
          | Some key \<Rightarrow>
              Some (modifier_string (state hotkey) FcitxKeyState_Ctrl ''Control+'' @
                    modifier_string (state hotkey) FcitxKeyState_Alt ''Alt+'' @
                    modifier_string (state hotkey) FcitxKeyState_Shift ''Shift+'' @
                    modifier_string (state hotkey) FcitxKeyState_Super ''Super+'' @ key))"

section \<open>Key lists\<close>

definition fcitx_key_list_new :: "fcitx_key list" where
  "fcitx_key_list_new = []"

definition fcitx_key_list_append :: "fcitx_key list \<Rightarrow> fcitx_key \<Rightarrow> fcitx_key list" where
  "fcitx_key_list_append keyList key = keyList @ [key]"

definition fcitx_key_list_clear :: "fcitx_key list \<Rightarrow> fcitx_key list" where
  "fcitx_key_list_clear keyList = []"

fun key_list_parse_tokens :: "key_names \<Rightarrow> fcitx_key list \<Rightarrow> cstr list \<Rightarrow> fcitx_key list option" where
  "key_list_parse_tokens names keyList [] = Some keyList"
| "key_list_parse_tokens names keyList (token # rest) = do {
     key \<leftarrow> fcitx_key_parse names token;
     if sym key = FcitxKey_None then key_list_parse_tokens names keyList rest
     else key_list_parse_tokens names (fcitx_key_list_append keyList key) rest }"

definition fcitx_key_list_parse :: "key_names \<Rightarrow> fcitx_key list \<Rightarrow> cstr \<Rightarrow> fcitx_key list option" where
  "fcitx_key_list_parse names keyList keyString =
     key_list_parse_tokens names keyList (strtok WHITE_SPACE keyString)"

definition fcitx_key_list_new_from_string :: "key_names \<Rightarrow> cstr \<Rightarrow> fcitx_key list option" where
  "fcitx_key_list_new_from_string names keyString =
     fcitx_key_list_parse names fcitx_key_list_new keyString"

definition fcitx_key_list_check :: "fcitx_key list \<Rightarrow> fcitx_key \<Rightarrow> bool" where
  "fcitx_key_list_check keyList key = list_ex (\<lambda>curKey. fcitx_key_check key curKey) keyList"

definition fcitx_key_list_to_string :: "key_names \<Rightarrow> fcitx_key list \<Rightarrow> cstr option" where
  "fcitx_key_list_to_string names keyList =
     fcitx_utils_string_list_join
       (Some (fold (\<lambda>curKey xs. case fcitx_key_to_string names curKey of
                      Some s \<Rightarrow> fcitx_utils_string_list_append_no_copy xs s | None \<Rightarrow> xs)
                keyList fcitx_utils_string_list_new)) 32"

section \<open>Lemmas: conversion\<close>

lemma tab_search_sound:
  "tab_search f tab k lo hi = Some e \<Longrightarrow> 0 \<le> lo \<Longrightarrow> hi < int (length tab) \<Longrightarrow>
   e \<in> set tab \<and> f e = k"
proof (induction f tab k lo hi rule: tab_search.induct)
  case (1 f tab k lo hi)
  let ?mid = "(lo + hi) div 2"
  let ?e = "tab ! nat ?mid"
  have le: "lo \<le> hi" using "1.prems"(1) by (subst (asm) tab_search.simps) (auto split: if_splits)
  then have mid: "lo \<le> ?mid" "?mid \<le> hi" by auto
  consider (less) "f ?e < k" | (greater) "f ?e > k" | (equal) "f ?e = k" by linarith
  then show ?case
  proof cases
    case less
    then have "tab_search f tab k (?mid + 1) hi = Some e"
      using "1.prems"(1) le by (subst (asm) tab_search.simps) (simp add: Let_def)
    from "1.IH"(1) [OF le refl refl less this] mid "1.prems" show ?thesis by simp
  next
    case greater
    then have "tab_search f tab k lo (?mid - 1) = Some e"
      using "1.prems"(1) le by (subst (asm) tab_search.simps) (simp add: Let_def)
    from "1.IH"(2) [OF le refl refl _ greater this] greater mid "1.prems" show ?thesis by simp
  next
    case equal
    then have "e = ?e" using "1.prems"(1) le by (subst (asm) tab_search.simps) (simp add: Let_def)
    moreover have "nat ?mid < length tab" using mid "1.prems" by linarith
    ultimately show ?thesis using equal by simp
  qed
qed

lemma tab_search_complete:
  "sorted_wrt (<) (map f tab) \<Longrightarrow> 0 \<le> lo \<Longrightarrow> hi < int (length tab) \<Longrightarrow>
   lo \<le> int i \<Longrightarrow> int i \<le> hi \<Longrightarrow> tab_search f tab (f (tab ! i)) lo hi = Some (tab ! i)"
proof (induction f tab "f (tab ! i)" lo hi rule: tab_search.induct)
  case (1 f tab lo hi)
  let ?mid = "(lo + hi) div 2"
  let ?e = "tab ! nat ?mid"
  have le: "lo \<le> hi" using "1.prems" by simp
  then have mid: "lo \<le> ?mid" "?mid \<le> hi" by auto
  then have m: "nat ?mid < length tab" using "1.prems" by linarith
  have i: "i < length tab" using "1.prems" by linarith
  have lt: "f (tab ! a) < f (tab ! b)" if "a < b" "b < length tab" for a b
    using sorted_wrt_nth_less [OF "1.prems"(1), of a b] that by simp
  consider (less) "nat ?mid < i" | (greater) "nat ?mid > i" | (equal) "nat ?mid = i" by linarith
  then show ?case
  proof cases
    case less
    then have l: "f ?e < f (tab ! i)" using lt i by blast
    have "tab_search f tab (f (tab ! i)) (?mid + 1) hi = Some (tab ! i)"
      using "1.hyps"(1) [OF le refl refl l] "1.prems" less mid by linarith
    then show ?thesis using le l by (subst tab_search.simps) (simp add: Let_def)
  next
    case greater
    then have l: "f ?e > f (tab ! i)" using lt m by blast
    have "tab_search f tab (f (tab ! i)) lo (?mid - 1) = Some (tab ! i)"
      using "1.hyps"(2) [OF le refl refl _ l] l "1.prems" greater mid by linarith
    then show ?thesis using le l by (subst tab_search.simps) (simp add: Let_def)
  next
    case equal
    then show ?thesis using le by (subst tab_search.simps) (simp add: Let_def)
  qed
qed

lemma keysym_tab_search:
  assumes "(k, u) \<in> set gdk_keysym_to_unicode_tab"
  shows "tab_search fst gdk_keysym_to_unicode_tab k 0
           (int (length gdk_keysym_to_unicode_tab) - 1) = Some (k, u)"
proof -
  obtain i where "i < length gdk_keysym_to_unicode_tab" "gdk_keysym_to_unicode_tab ! i = (k, u)"
    using assms by (auto simp: in_set_conv_nth)
  with tab_search_complete [OF keysym_tab_increasing, of 0 "int (length gdk_keysym_to_unicode_tab) - 1" i]
  show ?thesis by simp
qed

lemma and_high_small: "n < 32 \<Longrightarrow> x < 2 ^ n \<Longrightarrow> x AND m = x AND (mask n AND (m :: u32))"
proof -
  assume "n < 32" "x < 2 ^ n"
  then have "x = x AND mask n" using take_bit_small_iff [of n x] by (simp add: take_bit_eq_mask)
  then show ?thesis by (metis and.assoc)
qed

lemma keysym_tab_entry:
  assumes "(k, u) \<in> set gdk_keysym_to_unicode_tab"
  shows "fcitx_keysym_to_unicode (of_nat k) = of_nat u" "k \<le> 0xffff" "u \<noteq> 0" "u \<le> 0xffff" "k \<noteq> 0xfe20"
proof -
  have r: "0x1a1 \<le> k" "k \<le> 0xffff" "k \<noteq> 0xfe20" "u \<noteq> 0" "u \<le> 0xffff"
    using keysym_tab_range assms by (auto simp: list_all_iff)
  then show "k \<le> 0xffff" "u \<noteq> 0" "u \<le> 0xffff" "k \<noteq> 0xfe20" by simp_all
  have un: "unat (of_nat k :: u32) = k" using r by (simp add: unat_of_nat)
  have "\<not> (of_nat k :: u32) \<le> 0xff" using r un by (simp add: word_le_nat_alt)
  moreover have "(of_nat k :: u32) AND 0xff000000 = 0"
  proof -
    have "(of_nat k :: u32) < 2 ^ 16" using r un by (simp add: word_less_nat_alt)
    then show ?thesis using and_high_small [of 16 "of_nat k" "0xff000000"] by (simp add: mask_eq_exp_minus_1)
  qed
  moreover have "\<not> (of_nat k :: u32) \<le> 0x7e" using \<open>\<not> (of_nat k :: u32) \<le> 0xff\<close> by (simp add: word_le_nat_alt)
  ultimately show "fcitx_keysym_to_unicode (of_nat k) = of_nat u"
    using keysym_tab_search [OF assms] un by (simp add: fcitx_keysym_to_unicode_def)
qed

lemma unicode_code_or: "c < 0x1000000 \<Longrightarrow>
  (c OR 0x01000000) AND 0xff000000 = (0x01000000 :: u32) \<and> (c OR 0x01000000) AND 0x00ffffff = c"
  using and_high_small [of 24 c "0xff000000"] and_high_small [of 24 c "0x00ffffff"]
    take_bit_small_iff [of 24 c]
  by (simp add: bit.conj_disj_distrib2 mask_eq_exp_minus_1 take_bit_eq_mask)

lemma or_ge: "(0x01000000 :: u32) \<le> c OR 0x01000000"
proof -
  have "(0x01000000 :: u32) AND (c OR 0x01000000) = 0x01000000"
    by (simp add: bit.conj_disj_distrib)
  then show ?thesis by (metis word_and_le1)
qed

section \<open>Lemmas: normalisation\<close>

lemma unicode_left_tab: "fcitx_keysym_to_unicode 0xfe20 = 0"
proof -
  have "tab_search fst gdk_keysym_to_unicode_tab (unat (0xfe20 :: u32)) 0
      (int (length gdk_keysym_to_unicode_tab) - 1) = None"
  proof (rule ccontr)
    assume "\<not> ?thesis"
    then obtain k u where "(k, u) \<in> set gdk_keysym_to_unicode_tab" "k = 0xfe20"
      using tab_search_sound by fastforce
    then show False using keysym_tab_entry(5) by blast
  qed
  then show ?thesis by (simp add: fcitx_keysym_to_unicode_def)
qed

lemma unicode_tab: "fcitx_keysym_to_unicode 0xff09 \<noteq> 0"
proof -
  have "(65289, 9) \<in> set gdk_keysym_to_unicode_tab_5" by (simp add: gdk_keysym_to_unicode_tab_5_def)
  then have "(65289, 9) \<in> set gdk_keysym_to_unicode_tab" by (simp add: gdk_keysym_to_unicode_tab_def)
  from keysym_tab_entry(1) [OF this] show ?thesis by simp
qed

lemma clear_shift [simp]: "(s AND NOT 1) AND (1 :: u32) = 0" "(s AND NOT 1) \<noteq> (1 :: u32)"
proof -
  show "(s AND NOT 1) AND (1 :: u32) = 0" by (simp add: and.assoc)
  then show "(s AND NOT 1) \<noteq> (1 :: u32)" by auto
qed

lemma upper_of_lower:
  "0x61 \<le> s \<Longrightarrow> s \<le> (0x7a :: u32) \<Longrightarrow> 0x41 \<le> s + 0x41 - 0x61 \<and> s + 0x41 - 0x61 \<le> 0x5a"
proof -
  assume "0x61 \<le> s" "s \<le> (0x7a :: u32)"
  then have u: "97 \<le> unat s" "unat s \<le> 122" by (simp_all add: word_le_nat_alt)
  have "s + 0x41 - 0x61 = s - 32" by simp
  moreover have "unat (s - 32) = unat s - 32" using u by (subst unat_sub) (simp_all add: word_le_nat_alt)
  moreover have "65 \<le> unat s - 32" "unat s - 32 \<le> 90" using u by linarith+
  ultimately show ?thesis by (simp add: word_le_nat_alt)
qed


lemma laz_uaz_simps:
  "fcitx_key_is_laz (FCITX_KEY s 0) \<longleftrightarrow> 0x61 \<le> s \<and> s \<le> 0x7a"
  "fcitx_key_is_uaz (FCITX_KEY s 0) \<longleftrightarrow> 0x41 \<le> s \<and> s \<le> 0x5a"
  "fcitx_key_is_simple (FCITX_KEY s 0) \<longleftrightarrow> 0x20 \<le> s \<and> s \<le> 0x7e"
  by (auto simp: fcitx_key_is_laz_def fcitx_key_is_uaz_def fcitx_key_is_simple_def FCITX_KEY_def)

text \<open>Whether the Shift state is consumed by the symbol.\<close>

definition consumes_shift :: "u32 \<Rightarrow> bool" where
  "consumes_shift s \<longleftrightarrow>
     ((0x20 \<le> s \<and> s \<le> 0x7e) \<or> fcitx_keysym_to_unicode s \<noteq> 0) \<and> s \<noteq> 0x20 \<and> s \<noteq> 0xff0d \<or>
     (0xffb0 \<le> s \<and> s \<le> 0xffb9)"

lemma normalize_eq:
  "fcitx_key_normalize \<lparr>sym = s, state = st\<rparr> =
   (if st = 0 then \<lparr>sym = (if s = 0xfe20 then 0xff09 else s), state = 0\<rparr>
    else if 0x61 \<le> s \<and> s \<le> 0x7a
    then if st = 1 then \<lparr>sym = s, state = 0\<rparr> else \<lparr>sym = s - 32, state = st\<rparr>
    else if 0x41 \<le> s \<and> s \<le> 0x5a
    then \<lparr>sym = s, state = (if st = 1 then 0 else st)\<rparr>
    else \<lparr>sym = (if s = 0xfe20 then 0xff09 else s),
          state = (if consumes_shift s then st AND NOT 1 else st)\<rparr>)"
proof -
  have st: "st AND NOT 1 = st" if "st AND 1 = 0"
  proof -
    have "st = st AND (1 OR NOT 1)" by simp
    also have "\<dots> = (st AND 1) OR (st AND NOT 1)" by (simp only: bit.conj_disj_distrib)
    finally show ?thesis using that by simp
  qed
  have no: "s \<noteq> 0xfe20" if "s \<le> 0x7a" for s :: u32 using that by auto
  consider (lower) "0x61 \<le> s" "s \<le> 0x7a" | (upper) "\<not> (0x61 \<le> s \<and> s \<le> 0x7a)" "0x41 \<le> s" "s \<le> 0x5a"
    | (other) "\<not> (0x61 \<le> s \<and> s \<le> 0x7a)" "\<not> (0x41 \<le> s \<and> s \<le> 0x5a)" by blast
  then show ?thesis
  proof cases
    case lower
    have up: "0x41 \<le> s - 32" "s - 32 \<le> 0x5a" using upper_of_lower [OF lower] by simp_all
    moreover have "s - 32 \<le> 0x7a" using up(2) by (rule order_trans) simp
    moreover have "\<not> 0x61 \<le> s - 32" using up(2) by (auto dest: order_trans)
    ultimately show ?thesis using lower no [of s] no [of "s - 32"]
      by (simp add: fcitx_key_normalize_def laz_uaz_simps Let_def)
  next
    case upper
    then have "s \<le> 0x7a" by (auto intro: order_trans)
    with upper show ?thesis using no [of s]
      by (simp add: fcitx_key_normalize_def laz_uaz_simps Let_def)
  next
    case other
    then have lu: "\<not> fcitx_key_is_laz (FCITX_KEY s 0)" "\<not> fcitx_key_is_uaz (FCITX_KEY s 0)"
      unfolding laz_uaz_simps by blast+
    have cons: "((fcitx_key_is_simple (FCITX_KEY s 0) \<or> fcitx_keysym_to_unicode s \<noteq> 0) \<and>
                 s \<noteq> 0x20 \<and> s \<noteq> 0xff0d \<or> (0xffb0 \<le> s \<and> s \<le> 0xffb9)) = consumes_shift s"
      by (simp only: consumes_shift_def laz_uaz_simps)
    have "fcitx_key_normalize \<lparr>sym = s, state = st\<rparr> =
      (let key = (if st \<noteq> 0 then (if st AND 1 \<noteq> 0 \<and> consumes_shift s
                  then \<lparr>sym = s, state = st AND NOT 1\<rparr> else \<lparr>sym = s, state = st\<rparr>)
                  else \<lparr>sym = s, state = st\<rparr>)
       in if sym key = 0xfe20 then key\<lparr>sym := 0xff09\<rparr> else key)"
      unfolding fcitx_key_normalize_def Let_def
      by (simp only: fcitx_key.simps lu cons simp_thms if_True if_False)
    then show ?thesis using st other(1,2)
      by (cases "st = 0"; cases "consumes_shift s"; cases "st AND 1 = 0"; cases "s = 0xfe20")
         (simp_all only: fcitx_key.simps Let_def simp_thms if_True if_False)
  qed
qed

section \<open>Lemmas: the textual form\<close>

lemma strstr_plus:
  "p = [] \<or> last p = 43 \<Longrightarrow> 43 \<notin> set (butlast m) \<Longrightarrow> m \<noteq> [] \<Longrightarrow>
   strstr (p @ n) m =
   (case strstr p m of Some i \<Rightarrow> Some i | None \<Rightarrow> map_option ((+) (length p)) (strstr n m))"
proof (induction p)
  case Nil
  then show ?case by (cases "strstr n m") auto
next
  case (Cons c p)
  let ?l = "length m"
  have hit: "take ?l (c # p @ n) = m \<longleftrightarrow> take ?l (c # p) = m"
  proof (cases "?l \<le> length (c # p)")
    case True
    then show ?thesis using take_append [of ?l "c # p" n] by simp
  next
    case False
    have "\<not> take ?l (c # p @ n) = m"
    proof
      assume m: "take ?l (c # p @ n) = m"
      have "m = (c # p) @ take (?l - length (c # p)) n"
        using m False take_append [of ?l "c # p" n] by simp
      moreover have "take (?l - length (c # p)) n \<noteq> []" using False calculation
        by (metis append_Nil2 le_refl)
      ultimately have "butlast m = (c # p) @ butlast (take (?l - length (c # p)) n)"
        by (metis butlast_append)
      then have "last (c # p) \<in> set (butlast m)"
        by (metis UnI1 last_in_set list.distinct(1) set_append)
      with Cons.prems show False by auto
    qed
    moreover have "\<not> take ?l (c # p) = m"
      using False by (metis length_take min.cobounded1 linear)
    ultimately show ?thesis by simp
  qed
  have IH: "strstr (p @ n) m =
   (case strstr p m of Some i \<Rightarrow> Some i | None \<Rightarrow> map_option ((+) (length p)) (strstr n m))"
    using Cons.prems by (intro Cons.IH) (auto split: if_splits)
  show ?case using IH hit
    by (cases "strstr p m"; cases "strstr n m") auto
qed

definition modifier_free :: "cstr \<Rightarrow> bool" where
  "modifier_free n \<longleftrightarrow> (\<forall>m \<in> set modifiers. strstr n (bytes (fst m)) = None)"

lemma check_modifier_prefix:
  assumes "p = [] \<or> last p = 43" "m \<in> set modifiers" "modifier_free n"
  shows "check_modifier (p @ n) m acc = check_modifier p m acc"
proof -
  have "43 \<notin> set (butlast (bytes (fst m)))" "bytes (fst m) \<noteq> []"
    using assms(2) by (auto simp: modifiers_def of_char_def)
  moreover have "strstr n (bytes (fst m)) = None" using assms by (auto simp: modifier_free_def)
  ultimately show ?thesis using strstr_plus [OF assms(1)] by (simp add: check_modifier_def split: option.split)
qed

lemma fold_check_prefix:
  assumes "p = [] \<or> last p = 43" "modifier_free n"
  shows "fold (check_modifier (p @ n)) modifiers acc = fold (check_modifier p) modifiers acc"
proof -
  have "set ms \<subseteq> set modifiers \<Longrightarrow>
    fold (check_modifier (p @ n)) ms acc = fold (check_modifier p) ms acc" for ms acc
    by (induction ms arbitrary: acc) (auto simp: check_modifier_prefix [OF assms(1) _ assms(2)])
  then show ?thesis by blast
qed

definition modifier_prefix :: "u32 \<Rightarrow> cstr" where
  "modifier_prefix st =
     modifier_string st FcitxKeyState_Ctrl ''Control+'' @
     modifier_string st FcitxKeyState_Alt ''Alt+'' @
     modifier_string st FcitxKeyState_Shift ''Shift+'' @
     modifier_string st FcitxKeyState_Super ''Super+''"

lemma and_exp: "w AND 2 ^ n = (if bit w n then 2 ^ n else (0 :: u32))"
  by (rule bit_eqI) (auto simp: bit_exp_iff bit_and_iff)

lemma and_pow:
  "st AND 1 = (if bit st 0 then 1 else (0 :: u32))" "st AND 4 = (if bit st 2 then 4 else (0 :: u32))"
  "st AND 8 = (if bit st 3 then 8 else (0 :: u32))" "st AND 64 = (if bit st 6 then 64 else (0 :: u32))"
  using and_exp [of st 0] and_exp [of st 2] and_exp [of st 3] and_exp [of st 6] by simp_all

lemma simple_states:
  assumes "st AND NOT 77 = (0 :: u32)"
  shows "st = (st AND 4) OR (st AND 8) OR (st AND 1) OR (st AND 64)"
proof -
  have "st = st AND (77 OR NOT 77)" by simp
  also have "\<dots> = (st AND 77) OR (st AND NOT 77)" by (simp only: bit.conj_disj_distrib)
  also have "\<dots> = st AND (4 OR 8 OR 1 OR 64)" unfolding assms by simp
  also have "\<dots> = (st AND 4) OR (st AND 8) OR (st AND 1) OR (st AND 64)"
    by (simp only: bit.conj_disj_distrib)
  finally show ?thesis .
qed

lemma parse_prefix:
  assumes "st AND NOT 77 = 0"
  shows "fold (check_modifier (modifier_prefix st)) modifiers (0, 0) = (st, length (modifier_prefix st)) \<and>
    (modifier_prefix st = [] \<or> last (modifier_prefix st) = 43)"
proof -
  have st: "st = (if bit st 2 then 4 else 0) OR (if bit st 3 then 8 else 0) OR
                 (if bit st 0 then 1 else 0) OR (if bit st 6 then 64 else 0)"
    using simple_states [OF assms] unfolding and_pow .
  have "st \<in> {0, 1, 4, 5, 8, 9, 12, 13, 64, 65, 68, 69, 72, 73, 76, 77}"
    using st by (cases "bit st 0"; cases "bit st 2"; cases "bit st 3"; cases "bit st 6"; simp)
  then show ?thesis
    by (elim insertE emptyE; simp add: modifier_prefix_def modifier_string_def modifiers_def
        check_modifier_def of_char_def)
qed

lemma key_parse_to_string:
  assumes "fcitx_keysym_to_string names (sym key) = Some n" "fcitx_keysym_from_string names n = Some (sym key)"
    and "modifier_free n" "state key AND NOT 77 = 0" "sym key \<noteq> 0" "sym key \<noteq> 0xfe20"
  shows "fcitx_key_to_string names key = Some (modifier_prefix (state key) @ n) \<and>
         fcitx_key_parse names (modifier_prefix (state key) @ n) = Some key"
proof -
  note p = parse_prefix [OF assms(4)]
  have "fold (check_modifier (modifier_prefix (state key) @ n)) modifiers (0, 0) =
        (state key, length (modifier_prefix (state key)))"
    using fold_check_prefix [of "modifier_prefix (state key)" n] p assms(3) by simp
  then show ?thesis using assms
    by (simp add: fcitx_key_to_string_def fcitx_key_parse_def modifier_prefix_def FCITX_KEY_def)
qed

section \<open>Properties\<close>

text \<open>C9: Every code point below \<open>0x1000000\<close> survives the conversion to a key symbol and back: the
  symbol found in one table is an entry of the other, which is strictly ordered, so that the second
  search finds it.\<close>

theorem keysym_unicode_roundtrip:
  "c < 0x1000000 \<Longrightarrow> fcitx_keysym_to_unicode (fcitx_keysym_from_unicode c) = c"
proof -
  assume c: "c < 0x1000000"
  let ?s = "tab_search snd gdk_unicode_to_keysym_tab (unat c) 0 (int (length gdk_unicode_to_keysym_tab) - 1)"
  show ?thesis
  proof (cases "(c \<ge> 0x0020 \<and> c \<le> 0x007e) \<or> (c \<ge> 0x00a0 \<and> c \<le> 0x00ff)")
    case True
    then show ?thesis by (simp add: fcitx_keysym_from_unicode_def fcitx_keysym_to_unicode_def)
  next
    case latin: False
    show ?thesis
    proof (cases ?s)
      case None
      then have f: "fcitx_keysym_from_unicode c = c OR 0x01000000"
        using latin by (auto simp: fcitx_keysym_from_unicode_def)
      have "\<not> c OR 0x01000000 \<le> 0xff" "\<not> c OR 0x01000000 \<le> 0x7e"
        using or_ge [of c] by (auto dest: order_trans)
      then show ?thesis using unicode_code_or [OF c] unfolding f
        by (auto simp: fcitx_keysym_to_unicode_def)
    next
      case (Some e)
      obtain k u where e: "e = (k, u)" by (cases e)
      have "(k, u) \<in> set gdk_unicode_to_keysym_tab" "u = unat c"
        using tab_search_sound [OF Some] e by auto
      with unicode_tab_subset have "fcitx_keysym_to_unicode (of_nat k) = of_nat u"
        using keysym_tab_entry(1) by blast
      then show ?thesis using Some latin e \<open>u = unat c\<close>
        by (auto simp: fcitx_keysym_from_unicode_def)
    qed
  qed
qed

theorem keysym_unicode_roundtrip_witness:
  "fcitx_keysym_to_unicode (fcitx_keysym_from_unicode 0x20ac) = 0x20ac"
  by (rule keysym_unicode_roundtrip) simp

text \<open>Normalising a key twice is normalising it once, except for the left tab with Shift: the
  first pass makes it Shift+Tab, from which the second takes the Shift.  A normalised key with a
  letter never has Shift as its only state.\<close>

theorem normalize_idempotent:
  "fcitx_key_normalize (fcitx_key_normalize key) = fcitx_key_normalize key \<longleftrightarrow>
     \<not> (sym key = FcitxKey_ISO_Left_Tab \<and> state key AND FcitxKeyState_Shift \<noteq> 0)"
proof -
  obtain s st where key: "key = \<lparr>sym = s, state = st\<rparr>" by (cases key)
  have tab: "\<not> consumes_shift 0xfe20" "consumes_shift 0xff09"
    using unicode_left_tab unicode_tab by (simp_all add: consumes_shift_def)
  have same: "st AND NOT 1 = st" if "st AND 1 = 0"
  proof -
    have "st = st AND (1 OR NOT 1)" by simp
    also have "\<dots> = (st AND 1) OR (st AND NOT 1)" by (simp only: bit.conj_disj_distrib)
    finally show ?thesis using that by simp
  qed
  have differ: "st AND NOT 1 \<noteq> st" if "st AND 1 \<noteq> 0" using that clear_shift(1) [of st] by metis
  have up: "0x41 \<le> s - 32" "s - 32 \<le> 0x5a" "\<not> 0x61 \<le> s - 32" "s - 32 \<le> 0x7a" if "0x61 \<le> s" "s \<le> 0x7a"
  proof -
    have le: "s - 32 \<le> 0x5a" "0x41 \<le> s - 32" using upper_of_lower [OF that] by simp_all
    then show "0x41 \<le> s - 32" "s - 32 \<le> 0x5a" by simp_all
    show "s - 32 \<le> 0x7a" using le(1) by (rule order_trans) simp
    show "\<not> 0x61 \<le> s - 32" using le(1) by (auto dest: order_trans)
  qed
  have le: "s \<noteq> 0xfe20" if "s \<le> 0x7a \<or> s \<le> 0x5a" using that by auto
  consider (zero) "st = 0" | (lower) "st \<noteq> 0" "0x61 \<le> s" "s \<le> 0x7a"
    | (upper) "st \<noteq> 0" "\<not> (0x61 \<le> s \<and> s \<le> 0x7a)" "0x41 \<le> s" "s \<le> 0x5a"
    | (left_tab) "st \<noteq> 0" "s = 0xfe20"
    | (other) "st \<noteq> 0" "\<not> (0x61 \<le> s \<and> s \<le> 0x7a)" "\<not> (0x41 \<le> s \<and> s \<le> 0x5a)" "s \<noteq> 0xfe20"
    by blast
  then show ?thesis
  proof cases
    case zero
    then show ?thesis by (simp add: key normalize_eq)
  next
    case lower
    then show ?thesis using up le by (cases "st = 1") (simp_all add: key normalize_eq)
  next
    case upper
    have "fcitx_key_normalize \<lparr>sym = s, state = x\<rparr> = \<lparr>sym = s, state = (if x = 1 then 0 else x)\<rparr>" for x
      using upper(2,3,4) le by (auto simp: normalize_eq)
    then show ?thesis using le upper(4) by (simp add: key)
  next
    case left_tab
    then show ?thesis using tab same differ
      by (cases "st AND 1 = 0") (simp_all add: key normalize_eq)
  next
    case other
    then show ?thesis by (cases "consumes_shift s") (auto simp: key normalize_eq same and.assoc)
  qed
qed

text \<open>Matching an event against a hotkey that is itself a modifier accepts the event with the
  hotkey's own state or with the state of the modifier taken out.  It does not accept it with the
  state of the modifier added, since the second form adds the state of the state instead of that of
  the symbol; the event of releasing a modifier carries that state.\<close>

theorem key_check_modifier:
  "fcitx_key_is_modifier key \<Longrightarrow> state key < FcitxKey_Shift_L \<Longrightarrow>
   fcitx_key_check event key \<longleftrightarrow>
     sym event = sym key \<and>
     (state event = state key \<or> state event = state key AND NOT (fcitx_keysym_to_state (sym key)))"
proof -
  assume m: "fcitx_key_is_modifier key" and lt: "state key < FcitxKey_Shift_L"
  have "fcitx_keysym_to_state x = 0" if "x \<le> state key" for x
    using le_less_trans [OF that lt] by (auto simp: fcitx_keysym_to_state_def)
  moreover have "state key AND NOT (fcitx_keysym_to_state (sym key)) \<le> state key"
    by (rule word_and_le2)
  ultimately have "fcitx_keysym_to_state (state key AND NOT (fcitx_keysym_to_state (sym key))) = 0"
    by blast
  then show ?thesis using m by (auto simp: fcitx_key_check_def Let_def)
qed

theorem key_check_modifier_witness:
  "\<not> fcitx_key_check \<lparr>sym = 0xffe3, state = 4\<rparr> \<lparr>sym = 0xffe3, state = 0\<rparr>"
  using key_check_modifier [of "\<lparr>sym = 0xffe3, state = 0\<rparr>" "\<lparr>sym = 0xffe3, state = 4\<rparr>"]
  by (simp add: fcitx_key_is_modifier_def)

end
