(* ===== verification/Sorting.thy ===== *)
theory Sorting
  imports Prelude "HOL-Library.Multiset"
begin

text \<open>
  The sorting routines of \<open>sort_common.h\<close>, \<open>msort_r.c\<close> and \<open>qsort_r.c\<close>, over the list of the
  elements of the array.  The recursion on a part of the array replaces that slice of the list.

  The locale \<open>comparator\<close> is their interface to the callers: a comparison function that is a total
  preorder.
\<close>

section \<open>Specification\<close>

definition le_of :: "('a \<Rightarrow> 'a \<Rightarrow> int) \<Rightarrow> 'a \<Rightarrow> 'a \<Rightarrow> bool" where
  "le_of cmp a b \<longleftrightarrow> cmp a b \<le> 0"

definition same :: "('a \<Rightarrow> 'a \<Rightarrow> int) \<Rightarrow> 'a \<Rightarrow> 'a \<Rightarrow> bool" where
  "same cmp a b \<longleftrightarrow> le_of cmp a b \<and> le_of cmp b a"

definition sorts :: "('a \<Rightarrow> 'a \<Rightarrow> int) \<Rightarrow> 'a list \<Rightarrow> 'a list \<Rightarrow> bool" where
  "sorts cmp xs ys \<longleftrightarrow> mset ys = mset xs \<and> sorted_wrt (le_of cmp) ys"

definition stably_sorts :: "('a \<Rightarrow> 'a \<Rightarrow> int) \<Rightarrow> 'a list \<Rightarrow> 'a list \<Rightarrow> bool" where
  "stably_sorts cmp xs ys \<longleftrightarrow>
     sorts cmp xs ys \<and> (\<forall>a. filter (same cmp a) ys = filter (same cmp a) xs)"

text \<open>Merging two sorted runs, the left one first among equals.\<close>

fun merge_runs :: "('a \<Rightarrow> 'a \<Rightarrow> int) \<Rightarrow> 'a list \<Rightarrow> 'a list \<Rightarrow> 'a list" where
  "merge_runs cmp [] ys = ys"
| "merge_runs cmp xs [] = xs"
| "merge_runs cmp (x # xs) (y # ys) =
     (if cmp x y \<le> 0 then x # merge_runs cmp xs (y # ys) else y # merge_runs cmp (x # xs) ys)"

lemma merge_runs_Nil2 [simp]: "merge_runs cmp xs [] = xs"
  by (cases xs) auto

lemma set_merge_runs [simp]: "set (merge_runs cmp xs ys) = set xs \<union> set ys"
  by (induction cmp xs ys rule: merge_runs.induct) auto

lemma mset_merge_runs [simp]: "mset (merge_runs cmp xs ys) = mset xs + mset ys"
  by (induction cmp xs ys rule: merge_runs.induct) auto

section \<open>The routines\<close>

definition swap :: "'a list \<Rightarrow> nat \<Rightarrow> nat \<Rightarrow> 'a list" where
  "swap xs i j = xs[i := xs ! j, j := xs ! i]"

text \<open>The inner loop of \<open>insertion_sort\<close>, with \<open>j\<close> counting down.\<close>

fun sift_down :: "('a \<Rightarrow> 'a \<Rightarrow> int) \<Rightarrow> 'a list \<Rightarrow> nat \<Rightarrow> 'a list" where
  "sift_down cmp xs 0 = xs"
| "sift_down cmp xs (Suc j) =
     (if cmp (xs ! j) (xs ! (j + 1)) \<le> 0 then xs else sift_down cmp (swap xs j (j + 1)) j)"

definition insertion_sort :: "('a \<Rightarrow> 'a \<Rightarrow> int) \<Rightarrow> 'a list \<Rightarrow> 'a list" where
  "insertion_sort cmp xs = fold (\<lambda>i ys. sift_down cmp ys i) [0..<length xs] xs"

text \<open>The merge loop: what has been copied to \<open>tmp\<close>, and what is left of the two runs.\<close>

fun merge_loop :: "('a \<Rightarrow> 'a \<Rightarrow> int) \<Rightarrow> 'a list \<Rightarrow> 'a list \<Rightarrow> 'a list \<Rightarrow> 'a list \<times> 'a list \<times> 'a list"
where
  "merge_loop cmp tmp (x # xs) (y # ys) =
     (if cmp x y \<le> 0 then merge_loop cmp (tmp @ [x]) xs (y # ys)
      else merge_loop cmp (tmp @ [y]) (x # xs) ys)"
| "merge_loop cmp tmp xs ys = (tmp, xs, ys)"

function fcitx_msort_r_with_tmp :: "('a \<Rightarrow> 'a \<Rightarrow> int) \<Rightarrow> 'a list \<Rightarrow> 'a list" where
  "fcitx_msort_r_with_tmp cmp b =
     (if length b < 10 then insertion_sort cmp b
      else let n = length b;
               na = n div 2;
               ba = fcitx_msort_r_with_tmp cmp (take na b);
               bb = fcitx_msort_r_with_tmp cmp (drop na b);
               (tmp, ra, rb) = merge_loop cmp [] ba bb
           in (tmp @ ra) @ drop (n - length rb) (ba @ bb))"
  by pat_completeness auto
termination
  by (relation "measure (\<lambda>(c, b). length b)") auto

declare fcitx_msort_r_with_tmp.simps [simp del]

text \<open>The choice of the pivot, and the partition loop over \<open>i\<close>.\<close>

definition median_of_three :: "('a \<Rightarrow> 'a \<Rightarrow> int) \<Rightarrow> 'a list \<Rightarrow> nat" where
  "median_of_three cmp xs =
     (let n = length xs; a = xs ! 0; b = xs ! (n div 2); c = xs ! (n - 1)
      in if cmp a b < 0
         then (if cmp b c < 0 then n div 2 else if cmp a c < 0 then n - 1 else 0)
         else (if cmp a c < 0 then 0 else if cmp b c < 0 then n - 1 else n div 2))"

fun partition_loop :: "('a \<Rightarrow> 'a \<Rightarrow> int) \<Rightarrow> nat list \<Rightarrow> nat \<Rightarrow> 'a list \<Rightarrow> nat \<times> 'a list" where
  "partition_loop cmp [] npart xs = (npart, xs)"
| "partition_loop cmp (i # is) npart xs =
     (if cmp (xs ! i) (xs ! (length xs - 1)) \<le> 0
      then partition_loop cmp is (npart + 1) (swap xs i npart)
      else partition_loop cmp is npart xs)"

definition partition_array :: "('a \<Rightarrow> 'a \<Rightarrow> int) \<Rightarrow> 'a list \<Rightarrow> nat \<times> 'a list" where
  "partition_array cmp xs =
     (let n = length xs;
          xs = swap xs (median_of_three cmp xs) (n - 1);
          (npart, xs) = partition_loop cmp [0..<n - 1] 0 xs
      in (npart, swap xs npart (n - 1)))"

lemma length_swap [simp]: "length (swap xs i j) = length xs"
  by (simp add: swap_def)

lemma partition_loop_length:
  "partition_loop cmp is m xs = (k, ys) \<Longrightarrow> length ys = length xs \<and> m \<le> k \<and> k \<le> m + length is"
  by (induction "is" arbitrary: m xs) (force split: if_splits)+

lemma partition_array_length:
  "partition_array cmp xs = (k, ys) \<Longrightarrow> xs \<noteq> [] \<Longrightarrow> length ys = length xs \<and> k < length xs"
  by (cases xs) (auto simp: partition_array_def Let_def split: prod.splits dest!: partition_loop_length)

function fcitx_qsort_r :: "('a \<Rightarrow> 'a \<Rightarrow> int) \<Rightarrow> 'a list \<Rightarrow> 'a list" where
  "fcitx_qsort_r cmp xs =
     (if length xs < 10 then insertion_sort cmp xs
      else case partition_array cmp xs of
             (npart, ys) \<Rightarrow>
               fcitx_qsort_r cmp (take npart ys) @ [ys ! npart] @
               fcitx_qsort_r cmp (drop (npart + 1) ys))"
  by pat_completeness auto
termination
  apply (relation "measure (\<lambda>(c, b). length b)")
    apply auto
   apply (drule sym, drule partition_array_length, force, force)+
  done

declare fcitx_qsort_r.simps [simp del]

text \<open>\<open>fcitx_msort_r\<close>; \<open>mem\<close> says whether the temporary array could be allocated.\<close>

definition fcitx_msort_r :: "bool \<Rightarrow> ('a \<Rightarrow> 'a \<Rightarrow> int) \<Rightarrow> 'a list \<Rightarrow> 'a list" where
  "fcitx_msort_r mem cmp b =
     (if length b < 10 then insertion_sort cmp b
      else if \<not> mem then fcitx_qsort_r cmp b else fcitx_msort_r_with_tmp cmp b)"

lemma merge_runs_induct [case_names Nil1 Nil2 Cons]:
  fixes cmp :: "'a \<Rightarrow> 'a \<Rightarrow> int"
  assumes "\<And>ys. P [] ys" and "\<And>x xs. P (x # xs) []"
    and "\<And>x xs y ys. (cmp x y \<le> 0 \<Longrightarrow> P xs (y # ys)) \<Longrightarrow> (\<not> cmp x y \<le> 0 \<Longrightarrow> P (x # xs) ys) \<Longrightarrow>
           P (x # xs) (y # ys)"
  shows "P xs ys"
  using merge_runs.induct [of "\<lambda>c xs ys. c = cmp \<longrightarrow> P xs ys" cmp xs ys] assms by auto

section \<open>The comparator interface\<close>

locale comparator =
  fixes cmp :: "'a \<Rightarrow> 'a \<Rightarrow> int"
  assumes total: "cmp a b \<le> 0 \<or> cmp b a \<le> 0"
    and trans: "cmp a b \<le> 0 \<Longrightarrow> cmp b c \<le> 0 \<Longrightarrow> cmp a c \<le> 0"
begin

abbreviation "le \<equiv> le_of cmp"

lemma le_total: "\<not> le a b \<Longrightarrow> le b a"
  using total by (auto simp: le_of_def)

lemma le_trans: "le a b \<Longrightarrow> le b c \<Longrightarrow> le a c"
  using trans by (auto simp: le_of_def)

lemma le_refl: "le a a"
  using le_total by blast

lemma sorted_merge_runs:
  "sorted_wrt le xs \<Longrightarrow> sorted_wrt le ys \<Longrightarrow> sorted_wrt le (merge_runs cmp xs ys)"
  by (induction xs ys rule: merge_runs_induct [where cmp = cmp])
    (auto simp flip: le_of_def intro: le_trans dest: le_total)

lemma filter_merge_runs:
  "sorted_wrt le xs \<Longrightarrow>
   filter (same cmp a) (merge_runs cmp xs ys) = filter (same cmp a) xs @ filter (same cmp a) ys"
proof (induction xs ys rule: merge_runs_induct [where cmp = cmp])
  case (Cons x xs y ys)
  show ?case
  proof (cases "le x y")
    case False
    have "filter (same cmp a) (x # xs) = []" if "same cmp a y"
    proof -
      have "\<not> same cmp a z" if "z \<in> set (x # xs)" for z
      proof
        assume "same cmp a z"
        with \<open>same cmp a y\<close> have "le z y" by (auto simp: same_def intro: le_trans)
        moreover have "le x z" using that Cons.prems le_refl by auto
        ultimately show False using False le_trans by blast
      qed
      then show ?thesis by (simp only: filter_empty_conv) blast
    qed
    with Cons False show ?thesis by (auto simp: le_of_def)
  qed (use Cons in \<open>auto simp: le_of_def\<close>)
qed auto

lemma stable_merge:
  "stably_sorts cmp xs xs' \<Longrightarrow> stably_sorts cmp ys ys' \<Longrightarrow>
   stably_sorts cmp (xs @ ys) (merge_runs cmp xs' ys')"
  by (auto simp: stably_sorts_def sorts_def sorted_merge_runs filter_merge_runs)

lemma sift_down_sorted:
  "sorted_wrt le ys \<Longrightarrow>
   sift_down cmp (ys @ x # zs) (length ys) =
     filter (\<lambda>y. le y x) ys @ x # filter (\<lambda>y. \<not> le y x) ys @ zs"
proof (induction ys arbitrary: zs rule: rev_induct)
  case (snoc w ws)
  have swp: "swap (ws @ w # x # zs) (length ws) (Suc (length ws)) = ws @ x # w # zs"
    by (simp add: swap_def nth_append list_update_append)
  show ?case
  proof (cases "le w x")
    case True
    with snoc.prems have all: "\<forall>y\<in>set ws. le y x"
      by (auto simp: sorted_wrt_append intro: le_trans)
    with True show ?thesis
      by (simp add: nth_append filter_empty_conv le_of_def)
  next
    case False
    with snoc show ?thesis
      by (simp add: nth_append swp sorted_wrt_append flip: le_of_def)
  qed
qed simp

lemma stable_insert:
  assumes "stably_sorts cmp xs ys"
  shows "stably_sorts cmp (xs @ [x]) (filter (\<lambda>y. le y x) ys @ x # filter (\<lambda>y. \<not> le y x) ys)"
proof -
  let ?f = "filter (\<lambda>y. le y x) ys" and ?g = "filter (\<lambda>y. \<not> le y x) ys"
  have ys: "mset ys = mset xs" "sorted_wrt le ys"
    "\<And>a. filter (same cmp a) ys = filter (same cmp a) xs"
    using assms by (auto simp: stably_sorts_def sorts_def)
  have "mset (?f @ x # ?g) = mset (xs @ [x])"
    using ys(1) multiset_partition [of "mset ys" "\<lambda>y. le y x"] by simp
  moreover have "sorted_wrt le (?f @ x # ?g)"
    using ys(2) by (auto simp: sorted_wrt_append sorted_wrt_filter intro: le_trans dest: le_total)
  moreover have "filter (same cmp a) (?f @ x # ?g) = filter (same cmp a) (xs @ [x])" for a
  proof (cases "\<exists>y\<in>set ys. same cmp a y \<and> le y x")
    case True
    then have "same cmp a z \<Longrightarrow> le z x" for z
      by (auto simp: same_def intro: le_trans)
    then have "filter (same cmp a) ?g = []" "filter (same cmp a) ?f = filter (same cmp a) ys"
      by (auto simp: filter_empty_conv intro!: filter_cong)
    then show ?thesis using ys(3) by simp
  next
    case False
    then have none: "filter (same cmp a) ?f = []" "filter (same cmp a) ?g = filter (same cmp a) ys"
      by (auto simp: filter_empty_conv intro!: filter_cong)
    moreover have "filter (same cmp a) ys = []" if "same cmp a x"
      using False that by (auto simp: filter_empty_conv same_def intro: le_trans)
    ultimately show ?thesis using ys(3) by auto
  qed
  ultimately show ?thesis by (simp add: stably_sorts_def sorts_def)
qed

lemma stable_insertion_sort: "stably_sorts cmp xs (insertion_sort cmp xs)"
proof -
  have "\<exists>ys. fold (\<lambda>i ys. sift_down cmp ys i) [0..<n] xs = ys @ drop n xs \<and>
      stably_sorts cmp (take n xs) ys" if "n \<le> length xs" for n
    using that
  proof (induction n)
    case 0
    show ?case by (simp add: stably_sorts_def sorts_def)
  next
    case (Suc n)
    then obtain ys where ys: "fold (\<lambda>i ys. sift_down cmp ys i) [0..<n] xs = ys @ drop n xs"
      and st: "stably_sorts cmp (take n xs) ys" by auto
    from st have len: "length ys = n" and srt: "sorted_wrt le ys"
      using Suc.prems by (auto simp: stably_sorts_def sorts_def dest: mset_eq_length)
    have "drop n xs = xs ! n # drop (Suc n) xs"
      using Suc.prems by (simp add: Cons_nth_drop_Suc)
    with ys len sift_down_sorted [OF srt, of "xs ! n" "drop (Suc n) xs"]
      stable_insert [OF st, of "xs ! n"] Suc.prems
    show ?case by (auto simp: take_Suc_conv_app_nth)
  qed
  from this [of "length xs"] show ?thesis by (auto simp: insertion_sort_def)
qed

lemma merge_loop_runs:
  "merge_loop cmp tmp xs ys = (t, ra, rb) \<Longrightarrow>
   t @ ra @ rb = tmp @ merge_runs cmp xs ys \<and> (\<exists>p. ys = p @ rb) \<and> (ra = [] \<or> rb = [])"
  by (induction cmp tmp xs ys rule: merge_loop.induct) (auto split: if_splits)

lemma stable_msort_tmp: "stably_sorts cmp b (fcitx_msort_r_with_tmp cmp b)"
proof (induction "length b" arbitrary: b rule: less_induct)
  case less
  show ?case
  proof (cases "length b < 10")
    case True
    then show ?thesis
      by (subst fcitx_msort_r_with_tmp.simps) (simp add: stable_insertion_sort)
  next
    case False
    let ?n = "length b div 2"
    let ?a = "fcitx_msort_r_with_tmp cmp (take ?n b)"
    let ?b = "fcitx_msort_r_with_tmp cmp (drop ?n b)"
    have st: "stably_sorts cmp (take ?n b) ?a" "stably_sorts cmp (drop ?n b) ?b"
      using False by (intro less; simp)+
    then have l: "length ?a + length ?b = length b"
      by (auto simp: stably_sorts_def sorts_def dest!: mset_eq_length)
    obtain t ra rb where m: "merge_loop cmp [] ?a ?b = (t, ra, rb)"
      by (cases "merge_loop cmp [] ?a ?b") auto
    from merge_loop_runs [OF m] obtain p where mr: "t @ ra @ rb = merge_runs cmp ?a ?b"
      and p: "?b = p @ rb" by auto
    have "fcitx_msort_r_with_tmp cmp b = (t @ ra) @ drop (length b - length rb) (?a @ ?b)"
      using False by (subst fcitx_msort_r_with_tmp.simps) (simp add: m Let_def)
    also have "\<dots> = merge_runs cmp ?a ?b"
      using mr l by (simp add: p)
    finally show ?thesis
      using stable_merge [OF st] by simp
  qed
qed

lemma partition_loop_spec:
  assumes "partition_loop cmp is m xs = (k, ys)" and "is = [i..<length xs - 1]" "m \<le> i"
    "i \<le> length xs - 1" "xs \<noteq> []"
    "\<forall>j<m. le (xs ! j) (last xs)" "\<forall>j. m \<le> j \<and> j < i \<longrightarrow> \<not> le (xs ! j) (last xs)"
  shows "mset ys = mset xs \<and> last ys = last xs \<and> k \<le> length xs - 1 \<and>
     (\<forall>j<k. le (ys ! j) (last ys)) \<and> (\<forall>j. k \<le> j \<and> j < length xs - 1 \<longrightarrow> \<not> le (ys ! j) (last ys))"
  using assms
proof (induction "is" arbitrary: i m xs)
  case Nil
  then have "[i..<length xs - 1] = []" by simp
  then have "length xs - 1 \<le> i" by (auto simp only: upt_eq_Nil_conv)
  with Nil show ?case by auto
next
  case (Cons i' is')
  have i: "i' = i" "i < length xs - 1" "is' = [Suc i..<length xs - 1]"
    using Cons.prems(2) [symmetric] by (auto simp add: upt_eq_Cons_conv simp del: upt_Suc)
  have lst: "xs ! (length xs - 1) = last xs"
    using Cons.prems by (simp add: last_conv_nth)
  show ?case
  proof (cases "le (xs ! i) (last xs)")
    case True
    let ?xs = "swap xs i m"
    have last: "last ?xs = last xs"
      using i Cons.prems by (auto simp: last_conv_nth swap_def nth_list_update)
    have "mset ?xs = mset xs"
      using i Cons.prems by (simp add: swap_def mset_swap)
    moreover have "mset ys = mset ?xs \<and> last ys = last ?xs \<and> k \<le> length ?xs - 1 \<and>
     (\<forall>j<k. le (ys ! j) (last ys)) \<and>
     (\<forall>j. k \<le> j \<and> j < length ?xs - 1 \<longrightarrow> \<not> le (ys ! j) (last ys))"
    proof (rule Cons.IH [of "Suc m" ?xs "Suc i"])
      show "partition_loop cmp is' (Suc m) ?xs = (k, ys)"
        using Cons.prems(1) True i lst by (simp add: le_of_def)
      show "\<forall>j<Suc m. le (?xs ! j) (last ?xs)"
        unfolding last using Cons.prems True i by (auto simp: swap_def nth_list_update less_Suc_eq)
      show "\<forall>j. Suc m \<le> j \<and> j < Suc i \<longrightarrow> \<not> le (?xs ! j) (last ?xs)"
        unfolding last using Cons.prems True i by (auto simp: swap_def nth_list_update less_Suc_eq)
    qed (use Cons.prems i in \<open>auto simp: swap_def\<close>)
    ultimately show ?thesis using last by auto
  next
    case False
    show ?thesis
    proof (rule Cons.IH [of m xs "Suc i"])
      show "partition_loop cmp is' m xs = (k, ys)"
        using Cons.prems(1) False i lst by (simp add: le_of_def)
      show "\<forall>j. m \<le> j \<and> j < Suc i \<longrightarrow> \<not> le (xs ! j) (last xs)"
        using Cons.prems False by (auto simp: less_Suc_eq)
    qed (use Cons.prems i in auto)
  qed
qed


lemma partition_array_spec:
  assumes "partition_array cmp xs = (k, ys)" and "xs \<noteq> []"
  shows "mset ys = mset xs \<and> k < length xs \<and> (\<forall>j<k. le (ys ! j) (ys ! k)) \<and>
     (\<forall>j. k < j \<and> j < length ys \<longrightarrow> le (ys ! k) (ys ! j))"
proof -
  let ?m = "median_of_three cmp xs" and ?n = "length xs - 1"
  let ?xs = "swap xs ?m ?n"
  have m: "?m < length xs"
    using assms(2) by (auto simp: median_of_three_def Let_def)
  obtain zs where part: "partition_loop cmp [0..<?n] 0 ?xs = (k, zs)" and ys: "ys = swap zs k ?n"
    using assms(1) by (auto simp: partition_array_def Let_def split: prod.splits)
  have "mset ?xs = mset xs"
    using m by (simp add: swap_def mset_swap)
  have z: "mset zs = mset ?xs \<and> last zs = last ?xs \<and> k \<le> length ?xs - 1 \<and>
     (\<forall>j<k. le (zs ! j) (last zs)) \<and>
     (\<forall>j. k \<le> j \<and> j < length ?xs - 1 \<longrightarrow> \<not> le (zs ! j) (last zs))"
    using part assms(2) by (intro partition_loop_spec [where i = 0 and m = 0]) (auto simp: swap_def)
  then have len: "length zs = length xs" and k: "k \<le> ?n"
    by (auto dest: mset_eq_length)
  then have "zs \<noteq> []"
    using assms(2) by auto
  then have l: "last zs = zs ! ?n"
    by (simp add: last_conv_nth len)
  have "mset ys = mset xs"
  proof -
    have "k < length zs" "?n < length zs" using k len assms(2) by (cases xs; simp)+
    then have "mset ys = mset zs" by (simp add: ys swap_def mset_swap)
    with z \<open>mset ?xs = mset xs\<close> show ?thesis by simp
  qed
  moreover have "ys ! k = last zs"
    using k len assms(2) by (auto simp: ys swap_def l nth_list_update)
  moreover have "le (ys ! j) (last zs)" if "j < k" for j
    using z that k len by (auto simp: ys swap_def nth_list_update)
  moreover have "le (last zs) (ys ! j)" if "k < j" "j < length ys" for j
  proof (cases "j = ?n")
    case True
    with that k len assms(2) have "ys ! j = zs ! k" by (auto simp: ys swap_def nth_list_update)
    moreover have "k < ?n" using True that by simp
    ultimately show ?thesis using z by (auto intro: le_total)
  next
    case False
    with that k len z show ?thesis by (auto simp: ys swap_def nth_list_update intro: le_total)
  qed
  ultimately show ?thesis
    using k assms(2) by (cases xs) auto
qed

lemma sorts_qsort: "sorts cmp xs (fcitx_qsort_r cmp xs)"
proof (induction "length xs" arbitrary: xs rule: less_induct)
  case less
  show ?case
  proof (cases "length xs < 10")
    case True
    then show ?thesis
      using stable_insertion_sort [of xs] by (subst fcitx_qsort_r.simps) (simp add: stably_sorts_def)
  next
    case False
    then have "xs \<noteq> []" by auto
    obtain k ys where p: "partition_array cmp xs = (k, ys)" by fastforce
    note sp = partition_array_spec [OF p \<open>xs \<noteq> []\<close>]
    then have len: "length ys = length xs" by (metis mset_eq_length)
    let ?a = "fcitx_qsort_r cmp (take k ys)" and ?b = "fcitx_qsort_r cmp (drop (k + 1) ys)"
    have "sorts cmp (take k ys) ?a" "sorts cmp (drop (k + 1) ys) ?b"
      using sp len False by (intro less; simp)+
    then have ab: "mset ?a = mset (take k ys)" "mset ?b = mset (drop (k + 1) ys)"
        "sorted_wrt le ?a" "sorted_wrt le ?b"
      by (auto simp: sorts_def)
    then have set: "set ?a = set (take k ys)" "set ?b = set (drop (k + 1) ys)"
      by (metis set_mset_mset)+
    have a: "le x (ys ! k)" if "x \<in> set ?a" for x
    proof -
      have "x \<in> set (take k ys)" using that set by simp
      then show ?thesis using sp by (auto simp: in_set_conv_nth)
    qed
    have b: "le (ys ! k) x" if "x \<in> set ?b" for x
    proof -
      have "x \<in> set (drop (k + 1) ys)" using that set by simp
      then show ?thesis using sp by (auto simp: in_set_conv_nth)
    qed
    have "sorted_wrt le (?a @ [ys ! k] @ ?b)"
      using ab(3,4) by (auto simp: sorted_wrt_append intro: a b le_trans [OF a b])
    moreover have "ys = take k ys @ ys ! k # drop (k + 1) ys"
      using sp len by (simp add: id_take_nth_drop)
    then have "mset (?a @ [ys ! k] @ ?b) = mset xs"
      using ab(1,2) sp by (metis append_Cons append_Nil mset_append mset.simps(2) union_code)
    ultimately show ?thesis
      using False by (subst fcitx_qsort_r.simps) (simp add: p sorts_def)
  qed
qed

lemma sorts_msort: "sorts cmp xs (fcitx_msort_r mem cmp xs)"
  using stable_insertion_sort [of xs] stable_msort_tmp [of xs] sorts_qsort [of xs]
  by (auto simp: fcitx_msort_r_def stably_sorts_def)

lemma stable_msort: "stably_sorts cmp xs (fcitx_msort_r True cmp xs)"
  using stable_insertion_sort [of xs] stable_msort_tmp [of xs]
  by (auto simp: fcitx_msort_r_def)

end

section \<open>Properties\<close>

text \<open>\<open>fcitx_msort_r\<close> sorts the array whatever the allocation does, and with its temporary
  array it is stable: elements that compare equal keep their order.  The comparison only has to be
  a total preorder.\<close>

theorem msort_correct:
  fixes cmp :: "'a \<Rightarrow> 'a \<Rightarrow> int"
  assumes "\<And>a b. cmp a b \<le> 0 \<or> cmp b a \<le> 0"
    and "\<And>a b c. cmp a b \<le> 0 \<Longrightarrow> cmp b c \<le> 0 \<Longrightarrow> cmp a c \<le> 0"
  shows "stably_sorts cmp xs (fcitx_msort_r True cmp xs) \<and> sorts cmp xs (fcitx_msort_r mem cmp xs)"
proof -
  have "comparator cmp" using assms by unfold_locales
  then show ?thesis by (simp add: comparator.stable_msort comparator.sorts_msort)
qed

theorem msort_correct_witness:
  "stably_sorts (\<lambda>a b :: int. a - b) [3, 1, 2] (fcitx_msort_r True (\<lambda>a b. a - b) [3, 1, 2]) \<and>
   sorts (\<lambda>a b :: int. a - b) [3, 1, 2] (fcitx_msort_r False (\<lambda>a b. a - b) [3, 1, 2])"
  by (rule msort_correct) auto

text \<open>C7: \<open>fcitx_qsort_r\<close> sorts the array, for every choice its median-of-three pivot makes.\<close>

theorem qsort_correct:
  fixes cmp :: "'a \<Rightarrow> 'a \<Rightarrow> int"
  assumes "\<And>a b. cmp a b \<le> 0 \<or> cmp b a \<le> 0"
    and "\<And>a b c. cmp a b \<le> 0 \<Longrightarrow> cmp b c \<le> 0 \<Longrightarrow> cmp a c \<le> 0"
  shows "sorts cmp xs (fcitx_qsort_r cmp xs)"
proof -
  have "comparator cmp" using assms by unfold_locales
  then show ?thesis by (rule comparator.sorts_qsort)
qed

theorem qsort_correct_witness:
  "sorts (\<lambda>a b :: int. a - b) [3, 1, 2] (fcitx_qsort_r (\<lambda>a b. a - b) [3, 1, 2])"
  by (rule qsort_correct) auto

end
