(* ===== verification/Dict.thy ===== *)
theory Dict
  imports Sorting "HOL-Library.AList"
begin

text \<open>
  \<open>FcitxDict\<close> of \<open>src/lib/fcitx-utils/dict.c\<close>, on the uthash table of \<open>uthash.h\<close>: the entries in
  the order of the hash's linked list (insertion order until sorted), the item counter the hash
  keeps beside it, and a log of the values passed to \<open>destroyNotify\<close>.  Keys are byte strings.

  A callback takes the key, the value it may replace, and the caller's data it threads along.
\<close>

section \<open>State and operations\<close>

record 'a dict =
  items :: "(cstr \<times> 'a) list"
  num_items :: u32
  has_notify :: bool
  destroyed :: "'a list"

type_synonym ('a, 'b) foreach_func = "cstr \<Rightarrow> 'a \<Rightarrow> 'b \<Rightarrow> bool \<times> 'a \<times> 'b"

definition fcitx_dict_new :: "bool \<Rightarrow> 'a dict" where
  "fcitx_dict_new freeFunc = \<lparr>items = [], num_items = 0, has_notify = freeFunc, destroyed = []\<rparr>"

text \<open>\<open>destroyNotify\<close> on one value, when there is one.\<close>

definition notify :: "'a \<Rightarrow> 'a dict \<Rightarrow> 'a dict" where
  "notify v d = (if has_notify d then d\<lparr>destroyed := destroyed d @ [v]\<rparr> else d)"

definition HASH_FIND :: "cstr \<Rightarrow> 'a dict \<Rightarrow> 'a option" where
  "HASH_FIND k d = map_of (items d) k"

definition HASH_ADD :: "cstr \<Rightarrow> 'a \<Rightarrow> 'a dict \<Rightarrow> 'a dict" where
  "HASH_ADD k v d = d\<lparr>items := items d @ [(k, v)], num_items := num_items d + 1\<rparr>"

text \<open>
  Deleting an entry unlinks it and counts down.  It is also what happens to an entry that was
  unlinked before: the links around it are the same afterwards, but the counter goes down again.
  Deleting from an empty table dereferences the NULL head.
\<close>

definition HASH_DEL :: "cstr \<Rightarrow> 'a dict \<Rightarrow> 'a dict option" where
  "HASH_DEL k d =
     (if items d = [] then None
      else Some (d\<lparr>items := AList.delete k (items d), num_items := num_items d - 1\<rparr>))"

definition fcitx_dict_insert :: "cstr \<Rightarrow> 'a \<Rightarrow> bool \<Rightarrow> 'a dict \<Rightarrow> bool \<times> 'a dict" where
  "fcitx_dict_insert key val replace d =
     (case HASH_FIND key d of
        Some old \<Rightarrow>
          if replace then
            let d = notify old d in (True, d\<lparr>items := AList.update key val (items d)\<rparr>)
          else (False, d)
      | None \<Rightarrow> (True, HASH_ADD key val d))"

definition fcitx_dict_lookup :: "cstr \<Rightarrow> 'a dict \<Rightarrow> 'a option" where
  "fcitx_dict_lookup key d = HASH_FIND key d"

definition fcitx_dict_size :: "'a dict \<Rightarrow> u32" where
  "fcitx_dict_size d = (if items d = [] then 0 else num_items d)"

text \<open>\<open>fcitx_dict_item_free\<close>; the flag says whether the dictionary was passed.\<close>

definition fcitx_dict_item_free :: "bool \<Rightarrow> 'a \<Rightarrow> 'a dict \<Rightarrow> 'a dict" where
  "fcitx_dict_item_free with_arg v d = (if with_arg then notify v d else d)"

text \<open>\<open>memcmp\<close> as the sign of the first difference of the unsigned bytes.\<close>

fun memcmp :: "cstr \<Rightarrow> cstr \<Rightarrow> nat \<Rightarrow> int" where
  "memcmp (a # s) (b # t) (Suc n) = (if a < b then - 1 else if b < a then 1 else memcmp s t n)"
| "memcmp s t n = 0"

definition fcitx_dict_item_default_compare :: "cstr \<Rightarrow> cstr \<Rightarrow> int" where
  "fcitx_dict_item_default_compare keyA keyB =
     (let size = (if length keyA < length keyB then length keyA else length keyB);
          result = memcmp keyA keyB size
      in if result = 0 then
           (if length keyA < length keyB then - 1 else if length keyA > length keyB then 1 else result)
         else result)"

definition fcitx_dict_item_compare :: "(cstr \<Rightarrow> cstr \<Rightarrow> int) \<Rightarrow> cstr \<times> 'a \<Rightarrow> cstr \<times> 'a \<Rightarrow> int" where
  "fcitx_dict_item_compare callback a b = callback (fst a) (fst b)"

text \<open>
  The bottom-up merge sort of \<open>HASH_SRT\<close>: each pass merges adjacent runs of \<open>insize\<close> items, and the
  last pass is the one with at most one merge.
\<close>

function hash_merge_pass :: "('b \<Rightarrow> 'b \<Rightarrow> int) \<Rightarrow> nat \<Rightarrow> 'b list \<Rightarrow> 'b list" where
  "hash_merge_pass cmp insize xs =
     (if xs = [] \<or> insize = 0 then xs
      else merge_runs cmp (take insize xs) (take insize (drop insize xs)) @
           hash_merge_pass cmp insize (drop (2 * insize) xs))"
  by pat_completeness auto
termination
  by (relation "measure (\<lambda>(c, k, xs). length xs)") auto

declare hash_merge_pass.simps [simp del]

function hash_srt_loop :: "('b \<Rightarrow> 'b \<Rightarrow> int) \<Rightarrow> nat \<Rightarrow> 'b list \<Rightarrow> 'b list" where
  "hash_srt_loop cmp insize xs =
     (let ys = hash_merge_pass cmp insize xs
      in if length xs \<le> 2 * insize \<or> insize = 0 then ys else hash_srt_loop cmp (2 * insize) ys)"
  by pat_completeness auto

lemma length_hash_merge_pass [simp]: "length (hash_merge_pass cmp k xs) = length xs"
proof (induction cmp k xs rule: hash_merge_pass.induct)
  case (1 cmp k xs)
  have "length (merge_runs cmp as bs) = length as + length bs" for as bs
    using mset_merge_runs [of cmp as bs] by (metis size_mset size_union)
  with 1 show ?case
    by (subst hash_merge_pass.simps) (auto simp: min_def)
qed

termination hash_srt_loop
  by (relation "measure (\<lambda>(c, k, xs). length xs - k)") auto

declare hash_srt_loop.simps [simp del]

definition HASH_SORT :: "('b \<Rightarrow> 'b \<Rightarrow> int) \<Rightarrow> 'b list \<Rightarrow> 'b list" where
  "HASH_SORT cmp xs = (if xs = [] then xs else hash_srt_loop cmp 1 xs)"

definition fcitx_dict_sort :: "(cstr \<Rightarrow> cstr \<Rightarrow> int) option \<Rightarrow> 'a dict \<Rightarrow> 'a dict" where
  "fcitx_dict_sort compare d =
     (let callback = (case compare of None \<Rightarrow> fcitx_dict_item_default_compare | Some c \<Rightarrow> c)
      in d\<lparr>items := HASH_SORT (fcitx_dict_item_compare callback) (items d)\<rparr>)"

text \<open>The loops that take the head off until the table is empty.\<close>

fun remove_all_loop :: "(cstr \<times> 'a) list \<Rightarrow> 'a dict \<Rightarrow> 'a dict option" where
  "remove_all_loop [] d = Some d"
| "remove_all_loop ((k, v) # rest) d = do {
     d \<leftarrow> HASH_DEL k d;
     remove_all_loop rest (fcitx_dict_item_free True v d) }"

definition fcitx_dict_remove_all :: "'a dict \<Rightarrow> 'a dict option" where
  "fcitx_dict_remove_all d = remove_all_loop (items d) d"

text \<open>The result, the value stored through \<open>dataOut\<close> when it is given, and the new dictionary.\<close>

definition fcitx_dict_remove :: "cstr \<Rightarrow> bool \<Rightarrow> 'a dict \<Rightarrow> (bool \<times> 'a option \<times> 'a dict) option" where
  "fcitx_dict_remove key dataOut d =
     (case HASH_FIND key d of
        None \<Rightarrow> Some (False, None, d)
      | Some v \<Rightarrow>
          if dataOut then do {
            d \<leftarrow> HASH_DEL key d; Some (True, Some v, fcitx_dict_item_free False v d) }
          else do {
            d \<leftarrow> HASH_DEL key d; Some (True, None, fcitx_dict_item_free True v d) })"

fun steal_all_loop ::
  "('a, 'b) foreach_func \<Rightarrow> (cstr \<times> 'a) list \<Rightarrow> 'a dict \<Rightarrow> 'b \<Rightarrow> ('a dict \<times> 'b) option" where
  "steal_all_loop f [] d s = Some (d, s)"
| "steal_all_loop f ((k, v) # rest) d s = do {
     d \<leftarrow> HASH_DEL k d;
     let (_, v', s) = f k v s;
     steal_all_loop f rest (fcitx_dict_item_free False v' d) s }"

definition fcitx_dict_steal_all :: "('a, 'b) foreach_func \<Rightarrow> 'a dict \<Rightarrow> 'b \<Rightarrow> ('a dict \<times> 'b) option"
where
  "fcitx_dict_steal_all f d s = steal_all_loop f (items d) d s"

text \<open>The iteration with early exit, over the entries that are left.\<close>

fun foreach_loop :: "('a, 'b) foreach_func \<Rightarrow> (cstr \<times> 'a) list \<Rightarrow> 'b \<Rightarrow> (cstr \<times> 'a) list \<times> 'b" where
  "foreach_loop f [] s = ([], s)"
| "foreach_loop f ((k, v) # rest) s =
     (let (stop, v', s) = f k v s in
      if stop then ((k, v') # rest, s)
      else let (rest', s) = foreach_loop f rest s in ((k, v') # rest', s))"

definition fcitx_dict_foreach :: "('a, 'b) foreach_func \<Rightarrow> 'a dict \<Rightarrow> 'b \<Rightarrow> 'a dict \<times> 'b" where
  "fcitx_dict_foreach f d s =
     (let (xs, s) = foreach_loop f (items d) s in (d\<lparr>items := xs\<rparr>, s))"

fun remove_if_loop ::
  "('a, 'b) foreach_func \<Rightarrow> (cstr \<times> 'a) list \<Rightarrow> 'a dict \<Rightarrow> 'b \<Rightarrow> ('a dict \<times> 'b) option" where
  "remove_if_loop f [] d s = Some (d, s)"
| "remove_if_loop f ((k, v) # rest) d s =
     (let (rm, v', s) = f k v s in
      if rm then do {
        d \<leftarrow> HASH_DEL k d;
        remove_if_loop f rest (fcitx_dict_item_free True v' d) s }
      else remove_if_loop f rest (d\<lparr>items := AList.update k v' (items d)\<rparr>) s)"

definition fcitx_dict_remove_if :: "('a, 'b) foreach_func \<Rightarrow> 'a dict \<Rightarrow> 'b \<Rightarrow> ('a dict \<times> 'b) option"
where
  "fcitx_dict_remove_if f d s = remove_if_loop f (items d) d s"

text \<open>
  \<open>fcitx_dict_remove_data\<close> takes a pointer to an entry, here its key.  It unlinks the entry twice.
\<close>

definition fcitx_dict_remove_data :: "cstr \<Rightarrow> bool \<Rightarrow> 'a dict \<Rightarrow> ('a option \<times> 'a dict) option" where
  "fcitx_dict_remove_data key dataOut d = do {
     v \<leftarrow> HASH_FIND key d;
     d \<leftarrow> HASH_DEL key d;
     if dataOut then do {
       d \<leftarrow> HASH_DEL key d; Some (Some v, fcitx_dict_item_free False v d) }
     else do {
       d \<leftarrow> HASH_DEL key d; Some (None, fcitx_dict_item_free True v d) } }"

text \<open>What remains of a freed dictionary is the log of destroyed values.\<close>

definition fcitx_dict_free :: "'a dict option \<Rightarrow> 'a list option" where
  "fcitx_dict_free d =
     (case d of None \<Rightarrow> Some [] | Some d \<Rightarrow> map_option destroyed (fcitx_dict_remove_all d))"

definition fcitx_dict_clone :: "('a \<Rightarrow> 'a) option \<Rightarrow> 'a dict \<Rightarrow> 'a dict" where
  "fcitx_dict_clone copyFunc other =
     fold (\<lambda>(k, v) d.
         let v' = (case copyFunc of Some f \<Rightarrow> f v | None \<Rightarrow> v)
         in snd (fcitx_dict_insert k v' False d))
       (items other) (fcitx_dict_new (has_notify other))"

definition fcitx_dict_first :: "'a dict \<Rightarrow> (cstr \<times> 'a) option" where
  "fcitx_dict_first d = (case items d of [] \<Rightarrow> None | e # _ \<Rightarrow> Some e)"

text \<open>The entry after that of a key; the outer option is a pointer to no entry.\<close>

fun next_entry :: "cstr \<Rightarrow> (cstr \<times> 'a) list \<Rightarrow> (cstr \<times> 'a) option option" where
  "next_entry k [] = None"
| "next_entry k ((k', v) # rest) =
     (if k' = k then Some (case rest of [] \<Rightarrow> None | e # _ \<Rightarrow> Some e) else next_entry k rest)"

definition fcitx_dict_data_next :: "cstr \<Rightarrow> 'a dict \<Rightarrow> (cstr \<times> 'a) option option" where
  "fcitx_dict_data_next k d = next_entry k (items d)"

section \<open>The key comparison\<close>

lemma default_compare_simps [simp]:
  "fcitx_dict_item_default_compare [] [] = 0"
  "fcitx_dict_item_default_compare [] (b # t) = - 1"
  "fcitx_dict_item_default_compare (a # s) [] = 1"
  "fcitx_dict_item_default_compare (a # s) (b # t) =
     (if a < b then - 1 else if b < a then 1 else fcitx_dict_item_default_compare s t)"
  by (simp_all add: fcitx_dict_item_default_compare_def Let_def)

lemma default_compare_total:
  "fcitx_dict_item_default_compare s t \<le> 0 \<or> fcitx_dict_item_default_compare t s \<le> 0"
proof (induction s arbitrary: t)
  case Nil
  then show ?case by (cases t) auto
next
  case (Cons a s)
  then show ?case by (cases t) auto
qed

lemma default_compare_trans:
  "fcitx_dict_item_default_compare s t \<le> 0 \<Longrightarrow> fcitx_dict_item_default_compare t u \<le> 0 \<Longrightarrow>
   fcitx_dict_item_default_compare s u \<le> 0"
proof (induction s arbitrary: t u)
  case Nil
  then show ?case by (cases u) auto
next
  case (Cons a s)
  then obtain b t' where t: "t = b # t'" by (cases t) auto
  with Cons.prems obtain c u' where u: "u = c # u'" by (cases u) auto
  from Cons.prems t u Cons.IH [of t' u'] show ?case
    by (auto split: if_splits)
qed

lemma default_compare_eq: "fcitx_dict_item_default_compare s t = 0 \<longleftrightarrow> s = t"
proof (induction s arbitrary: t)
  case Nil
  then show ?case by (cases t) auto
next
  case (Cons a s)
  then show ?case by (cases t) auto
qed

lemma default_compare_antisym:
  "fcitx_dict_item_default_compare s t \<le> 0 \<Longrightarrow> fcitx_dict_item_default_compare t s \<le> 0 \<Longrightarrow> s = t"
proof (induction s arbitrary: t)
  case Nil
  then show ?case by (cases t) auto
next
  case (Cons a s)
  then show ?case by (cases t) (auto split: if_splits)
qed

interpretation dict_order: comparator "fcitx_dict_item_compare fcitx_dict_item_default_compare"
  by unfold_locales
    (use default_compare_total default_compare_trans in
      \<open>auto simp: fcitx_dict_item_compare_def\<close>)

section \<open>The sort of the hash\<close>

text \<open>\<open>runs k xs ys\<close>: cut into runs of \<open>k\<close>, each run of \<open>ys\<close> stably sorts that of \<open>xs\<close>.\<close>

function runs :: "('b \<Rightarrow> 'b \<Rightarrow> int) \<Rightarrow> nat \<Rightarrow> 'b list \<Rightarrow> 'b list \<Rightarrow> bool" where
  "runs cmp k xs ys \<longleftrightarrow>
     (if xs = [] \<or> k = 0 then xs = [] \<and> ys = []
      else stably_sorts cmp (take k xs) (take k ys) \<and> runs cmp k (drop k xs) (drop k ys))"
  by pat_completeness auto
termination
  by (relation "measure (\<lambda>(c, k, xs, ys). length xs)") auto

declare runs.simps [simp del]

lemma runs_length: "runs cmp k xs ys \<Longrightarrow> length ys = length xs"
proof (induction cmp k xs ys rule: runs.induct)
  case (1 cmp k xs ys)
  show ?case
  proof (cases "xs = [] \<or> k = 0")
    case False
    then have "stably_sorts cmp (take k xs) (take k ys)" "length (drop k ys) = length (drop k xs)"
      using 1 by (auto simp: runs.simps [of cmp k xs ys])
    then have "length (take k ys) = length (take k xs)"
      by (auto simp: stably_sorts_def sorts_def dest: mset_eq_length)
    then show ?thesis
      using \<open>length (drop k ys) = length (drop k xs)\<close> False by (cases xs) (auto simp: min_def split: if_splits)
  qed (use 1 in \<open>auto simp: runs.simps [of cmp k xs ys]\<close>)
qed

lemma runs_one: "runs cmp 1 xs xs"
proof (induction xs)
  case (Cons x xs)
  then show ?case
    by (subst runs.simps) (simp add: stably_sorts_def sorts_def)
qed (simp add: runs.simps)

lemma runs_all:
  assumes "runs cmp k xs ys" and "length xs \<le> k"
  shows "stably_sorts cmp xs ys"
proof (cases "xs = []")
  case True
  with runs_length [OF assms(1)] have "ys = []" by simp
  with True show ?thesis by (simp add: stably_sorts_def sorts_def)
next
  case False
  with assms have "0 < k" by (cases k) auto
  with False assms runs_length [OF assms(1)] show ?thesis
    by (simp add: runs.simps [of cmp k xs ys])
qed

context comparator
begin

lemma runs_merge:
  "runs cmp k xs ys \<Longrightarrow> 0 < k \<Longrightarrow> runs cmp (2 * k) xs (hash_merge_pass cmp k ys)"
proof (induction "length xs" arbitrary: xs ys rule: less_induct)
  case less
  note len = runs_length [OF less.prems(1)]
  show ?case
  proof (cases "xs = []")
    case True
    with len show ?thesis by (simp add: runs.simps hash_merge_pass.simps)
  next
    case False
    then have ne: "ys \<noteq> []" using len by auto
    have s1: "stably_sorts cmp (take k xs) (take k ys)" and r1: "runs cmp k (drop k xs) (drop k ys)"
      using less.prems False by (auto simp: runs.simps [of cmp k xs ys])
    have s2: "stably_sorts cmp (take k (drop k xs)) (take k (drop k ys))"
      and r2: "runs cmp k (drop k (drop k xs)) (drop k (drop k ys))"
    proof -
      have Nil: "stably_sorts cmp [] []" "runs cmp k [] []"
        by (simp_all add: stably_sorts_def sorts_def runs.simps)
      show "stably_sorts cmp (take k (drop k xs)) (take k (drop k ys))"
        and "runs cmp k (drop k (drop k xs)) (drop k (drop k ys))"
        using r1 less.prems(2) runs_length [OF r1] Nil runs.simps [of cmp k "drop k xs" "drop k ys"]
        by (cases "drop k xs = []"; simp del: drop_drop drop_eq_Nil)+
    qed
    let ?m = "merge_runs cmp (take k ys) (take k (drop k ys))"
    have m: "stably_sorts cmp (take (2 * k) xs) ?m"
      using stable_merge [OF s1 s2] by (simp add: mult_2 take_add)
    then have lm: "length ?m = length (take (2 * k) xs)"
      unfolding stably_sorts_def sorts_def by (metis mset_eq_length)
    let ?r = "hash_merge_pass cmp k (drop (2 * k) ys)"
    have pass: "hash_merge_pass cmp k ys = ?m @ ?r"
      using ne less.prems(2) by (subst hash_merge_pass.simps) simp
    have "runs cmp (2 * k) (drop (2 * k) xs) ?r"
    proof (rule less.hyps)
      show "length (drop (2 * k) xs) < length xs" using False less.prems(2) by (cases xs) auto
      show "runs cmp k (drop (2 * k) xs) (drop (2 * k) ys)" using r2 by (simp add: mult_2)
    qed (rule less.prems(2))
    moreover have "take (2 * k) (?m @ ?r) = ?m \<and> drop (2 * k) (?m @ ?r) = ?r"
    proof (cases "length xs \<le> 2 * k")
      case True
      with len have "?r = []" by (subst hash_merge_pass.simps) simp
      with lm True show ?thesis by simp
    qed (use lm in simp)
    ultimately show ?thesis
      unfolding pass using m False less.prems(2) by (subst runs.simps) simp
  qed
qed

lemma stable_hash_srt_loop:
  "runs cmp k xs ys \<Longrightarrow> 0 < k \<Longrightarrow> stably_sorts cmp xs (hash_srt_loop cmp k ys)"
proof (induction "length xs - k" arbitrary: k ys rule: less_induct)
  case less
  note r = runs_merge [OF less.prems]
  have len: "length ys = length xs" using runs_length [OF less.prems(1)] .
  show ?case
  proof (cases "length ys \<le> 2 * k")
    case True
    with r len show ?thesis
      by (subst hash_srt_loop.simps) (simp add: runs_all)
  next
    case False
    have "stably_sorts cmp xs (hash_srt_loop cmp (2 * k) (hash_merge_pass cmp k ys))"
      using False len less.prems(2) by (intro less.hyps [OF _ r]) auto
    with False less.prems(2) show ?thesis
      by (subst hash_srt_loop.simps) simp
  qed
qed

lemma stable_HASH_SORT: "stably_sorts cmp xs (HASH_SORT cmp xs)"
  using stable_hash_srt_loop [OF runs_one] by (auto simp: HASH_SORT_def stably_sorts_def sorts_def)

end

section \<open>The invariant and the map it represents\<close>

definition dict_ok :: "'a dict \<Rightarrow> bool" where
  "dict_ok d \<longleftrightarrow> distinct (map fst (items d)) \<and> num_items d = of_nat (length (items d))"

definition dict_delete :: "cstr \<Rightarrow> 'a dict \<Rightarrow> 'a dict" where
  "dict_delete k d = (case fcitx_dict_remove k False d of Some (_, _, d') \<Rightarrow> d' | None \<Rightarrow> d)"

locale kv_store =
  fixes ok :: "'d \<Rightarrow> bool"
    and look :: "'k \<Rightarrow> 'd \<Rightarrow> 'v option"
    and ins :: "'k \<Rightarrow> 'v \<Rightarrow> bool \<Rightarrow> 'd \<Rightarrow> bool \<times> 'd"
    and del :: "'k \<Rightarrow> 'd \<Rightarrow> 'd"
  assumes ins_ok: "ok d \<Longrightarrow> ok (snd (ins k v r d))"
    and ins_result: "ok d \<Longrightarrow> fst (ins k v r d) \<longleftrightarrow> look k d = None \<or> r"
    and look_ins: "ok d \<Longrightarrow> look j (snd (ins k v r d)) =
        (if j = k \<and> (look k d = None \<or> r) then Some v else look j d)"
    and del_ok: "ok d \<Longrightarrow> ok (del k d)"
    and look_del: "ok d \<Longrightarrow> look j (del k d) = (if j = k then None else look j d)"
begin

lemma look_ins_del: "ok d \<Longrightarrow> look j (snd (ins k v r (del k d))) = (if j = k then Some v else look j d)"
  by (simp add: look_ins del_ok look_del)

lemma ins_all:
  "ok d \<Longrightarrow> distinct (map fst kvs) \<Longrightarrow>
   (let d' = fold (\<lambda>(k, v) d. snd (ins k v False d)) kvs d in
    ok d' \<and> (\<forall>j. look j d' = (case look j d of None \<Rightarrow> map_of kvs j | Some v \<Rightarrow> Some v)))"
proof (induction kvs arbitrary: d)
  case (Cons kv kvs)
  obtain k v where kv: "kv = (k, v)" by (cases kv)
  let ?d = "snd (ins k v False d)"
  have "ok ?d" using Cons.prems(1) by (rule ins_ok)
  with Cons.IH [of ?d] Cons.prems(2)
  have "ok (fold (\<lambda>(k, v) d. snd (ins k v False d)) kvs ?d)"
    and l: "\<And>j. look j (fold (\<lambda>(k, v) d. snd (ins k v False d)) kvs ?d) =
      (case look j ?d of None \<Rightarrow> map_of kvs j | Some v \<Rightarrow> Some v)"
    by (auto simp: Let_def)
  moreover have "map_of kvs k = None"
    using Cons.prems(2) kv by (simp add: map_of_eq_None_iff)
  ultimately show ?case
    using Cons.prems(1) kv by (auto simp: Let_def look_ins split: option.splits)
qed (simp add: split: option.splits)

end

lemma notify_fields [simp]:
  "items (notify v d) = items d" "num_items (notify v d) = num_items d"
  "has_notify (notify v d) = has_notify d"
  "destroyed (notify v d) = destroyed d @ (if has_notify d then [v] else [])"
  by (simp_all add: notify_def)

lemma dict_okD: "dict_ok d \<Longrightarrow> distinct (map fst (items d))"
  by (simp add: dict_ok_def)

lemma find_mem: "HASH_FIND k d = Some v \<Longrightarrow> (k, v) \<in> set (items d)"
  by (auto simp: HASH_FIND_def dest: map_of_SomeD)

lemma length_delete:
  "distinct (map fst xs) \<Longrightarrow> k \<in> fst ` set xs \<Longrightarrow> Suc (length (AList.delete k xs)) = length xs"
proof (induction xs)
  case (Cons x xs)
  show ?case
  proof (cases "fst x = k")
    case True
    then have "AList.delete k (x # xs) = AList.delete k xs" by (cases x) simp
    also have "\<dots> = xs" using Cons.prems(1) True by (intro AList.delete_id) auto
    finally show ?thesis by simp
  next
    case False
    with Cons show ?thesis by (cases x) auto
  qed
qed simp

lemma length_update:
  "k \<in> fst ` set xs \<Longrightarrow> length (AList.update k v xs) = length xs"
  by (induction xs) auto

lemma insert_ok:
  assumes "dict_ok d"
  shows "dict_ok (snd (fcitx_dict_insert k v r d)) \<and>
    fst (fcitx_dict_insert k v r d) = (fcitx_dict_lookup k d = None \<or> r) \<and>
    fcitx_dict_lookup j (snd (fcitx_dict_insert k v r d)) =
      (if j = k \<and> (fcitx_dict_lookup k d = None \<or> r) then Some v else fcitx_dict_lookup j d)"
proof (cases "HASH_FIND k d")
  case None
  then have "k \<notin> fst ` set (items d)" by (simp add: HASH_FIND_def map_of_eq_None_iff)
  with None assms show ?thesis
    by (auto simp: fcitx_dict_insert_def HASH_ADD_def dict_ok_def fcitx_dict_lookup_def HASH_FIND_def
        map_add_def split: option.splits)
next
  case (Some old)
  then have "k \<in> fst ` set (items d)" by (force dest: find_mem)
  with Some assms show ?thesis
    by (auto simp: fcitx_dict_insert_def dict_ok_def fcitx_dict_lookup_def HASH_FIND_def Let_def
        AList.distinct_update AList.update_conv' length_update)
qed

lemma hash_del_ok:
  assumes "dict_ok d" and "HASH_FIND k d = Some v"
  shows "\<exists>d'. HASH_DEL k d = Some d' \<and> dict_ok d' \<and> items d' = AList.delete k (items d) \<and>
    destroyed d' = destroyed d \<and> has_notify d' = has_notify d"
proof -
  have k: "k \<in> fst ` set (items d)" using assms(2) by (force dest: find_mem)
  then have "items d \<noteq> []" by auto
  moreover have "of_nat (length (items d)) - 1 = (of_nat (length (AList.delete k (items d))) :: u32)"
  proof -
    have "length (items d) = Suc (length (AList.delete k (items d)))"
      using length_delete [OF _ k] assms(1) by (simp add: dict_ok_def)
    then show ?thesis by (simp only: of_nat_Suc add_diff_cancel_left')
  qed
  ultimately show ?thesis
    using assms(1) by (auto simp: HASH_DEL_def dict_ok_def AList.distinct_delete)
qed

lemma remove_ok:
  assumes "dict_ok d" and "HASH_FIND k d = Some v"
  shows "\<exists>d'. fcitx_dict_remove k out d = Some (True, (if out then Some v else None), d') \<and> dict_ok d' \<and>
    items d' = AList.delete k (items d) \<and> has_notify d' = has_notify d \<and>
    destroyed d' = destroyed d @ (if out \<or> \<not> has_notify d then [] else [v])"
  using hash_del_ok [OF assms] assms(2)
  by (auto simp: fcitx_dict_remove_def fcitx_dict_item_free_def dict_ok_def)

lemma dict_delete_ok:
  assumes "dict_ok d"
  shows "dict_ok (dict_delete k d) \<and> items (dict_delete k d) = AList.delete k (items d)"
proof (cases "HASH_FIND k d")
  case None
  then have "k \<notin> fst ` set (items d)" by (simp add: HASH_FIND_def map_of_eq_None_iff)
  with None assms show ?thesis
    by (simp add: dict_delete_def fcitx_dict_remove_def AList.delete_id)
next
  case (Some v)
  from remove_ok [OF assms this, of False] show ?thesis by (auto simp: dict_delete_def)
qed

interpretation dict_map: kv_store dict_ok fcitx_dict_lookup fcitx_dict_insert dict_delete
proof
  fix d :: "'a dict" and k j :: cstr and v r assume ok: "dict_ok d"
  show "dict_ok (snd (fcitx_dict_insert k v r d))"
    "fst (fcitx_dict_insert k v r d) \<longleftrightarrow> fcitx_dict_lookup k d = None \<or> r"
    "fcitx_dict_lookup j (snd (fcitx_dict_insert k v r d)) =
       (if j = k \<and> (fcitx_dict_lookup k d = None \<or> r) then Some v else fcitx_dict_lookup j d)"
    using insert_ok [OF ok] by blast+
  show "dict_ok (dict_delete k d)" using dict_delete_ok [OF ok] by blast
  show "fcitx_dict_lookup j (dict_delete k d) = (if j = k then None else fcitx_dict_lookup j d)"
    using dict_delete_ok [OF ok]
    by (simp add: fcitx_dict_lookup_def HASH_FIND_def AList.delete_conv')
qed

section \<open>Loops over the entries\<close>

lemma update_mid:
  "distinct (map fst (xs @ (k, v) # ys)) \<Longrightarrow>
   AList.update k w (xs @ (k, v) # ys) = xs @ (k, w) # ys"
  by (induction xs) auto

lemma delete_mid:
  "distinct (map fst (xs @ (k, v) # ys)) \<Longrightarrow> AList.delete k (xs @ (k, v) # ys) = xs @ ys"
proof (induction xs)
  case Nil
  then show ?case by (simp add: AList.delete_id)
next
  case (Cons x xs)
  then show ?case by (cases x) auto
qed

lemma find_mid: "distinct (map fst (xs @ (k, v) # ys)) \<Longrightarrow> map_of (xs @ (k, v) # ys) k = Some v"
  by (induction xs) auto

text \<open>What the removing loop keeps and destroys, as a function of the entries alone.\<close>

fun remove_if_spec ::
  "('a, 'b) foreach_func \<Rightarrow> (cstr \<times> 'a) list \<Rightarrow> 'b \<Rightarrow> (cstr \<times> 'a) list \<times> 'a list \<times> 'b" where
  "remove_if_spec f [] s = ([], [], s)"
| "remove_if_spec f ((k, v) # rest) s =
     (let (rm, v', s) = f k v s; (kept, gone, s) = remove_if_spec f rest s
      in if rm then (kept, v' # gone, s) else ((k, v') # kept, gone, s))"

lemma item_free_ok:
  "dict_ok (fcitx_dict_item_free b v d) = dict_ok d" "items (fcitx_dict_item_free b v d) = items d"
  "has_notify (fcitx_dict_item_free b v d) = has_notify d"
  "destroyed (fcitx_dict_item_free b v d) = destroyed d @ (if b \<and> has_notify d then [v] else [])"
  by (auto simp: fcitx_dict_item_free_def dict_ok_def)

lemma remove_if_loop_ok:
  "dict_ok d \<Longrightarrow> items d = xs @ rest \<Longrightarrow> remove_if_spec f rest s = (kept, gone, s') \<Longrightarrow>
   \<exists>d'. remove_if_loop f rest d s = Some (d', s') \<and> dict_ok d' \<and> items d' = xs @ kept \<and>
     has_notify d' = has_notify d \<and>
     destroyed d' = destroyed d @ (if has_notify d then gone else [])"
proof (induction rest arbitrary: xs d s kept gone)
  case Nil
  then show ?case by auto
next
  case (Cons e rest)
  obtain k v where e: "e = (k, v)" by (cases e)
  obtain rm v' s1 where f: "f k v s = (rm, v', s1)" by (cases "f k v s") auto
  obtain kept1 gone1 s2 where r: "remove_if_spec f rest s1 = (kept1, gone1, s2)"
    by (cases "remove_if_spec f rest s1") auto
  have s2: "s2 = s'" using Cons.prems(3) e f r by (auto split: if_splits)
  have dist: "distinct (map fst (xs @ (k, v) # rest))"
    using Cons.prems(1,2) e by (simp add: dict_ok_def)
  show ?case
  proof (cases rm)
    case True
    have "HASH_FIND k d = Some v"
      unfolding HASH_FIND_def Cons.prems(2) e by (rule find_mid [OF dist])
    then obtain d1 where d1: "HASH_DEL k d = Some d1" "dict_ok d1" "items d1 = xs @ rest"
      "destroyed d1 = destroyed d" "has_notify d1 = has_notify d"
      using hash_del_ok [OF Cons.prems(1)] Cons.prems(2) e dist by (metis delete_mid)
    from Cons.IH [of "fcitx_dict_item_free True v' d1" xs s1] d1 r s2 obtain d' where
      "remove_if_loop f rest (fcitx_dict_item_free True v' d1) s1 = Some (d', s')" "dict_ok d'"
      "items d' = xs @ kept1" "has_notify d' = has_notify d"
      "destroyed d' = destroyed d @ (if has_notify d then v' # gone1 else [])"
      by (auto simp: item_free_ok split: if_splits)
    with True Cons.prems(3) e f r d1 show ?thesis by auto
  next
    case False
    let ?d = "d\<lparr>items := AList.update k v' (items d)\<rparr>"
    have it: "items ?d = (xs @ [(k, v')]) @ rest"
      using Cons.prems(2) e dist by (simp add: update_mid)
    have "dict_ok ?d"
      using Cons.prems(1,2) e dist it by (simp add: dict_ok_def)
    from Cons.IH [OF this it r [unfolded s2]] False Cons.prems(3) e f r show ?thesis by auto
  qed
qed

lemma remove_all_loop_ok:
  "dict_ok d \<Longrightarrow> items d = rest \<Longrightarrow>
   \<exists>d'. remove_all_loop rest d = Some d' \<and> dict_ok d' \<and> items d' = [] \<and>
     has_notify d' = has_notify d \<and>
     destroyed d' = destroyed d @ (if has_notify d then map snd rest else [])"
proof (induction rest arbitrary: d)
  case Nil
  then show ?case by auto
next
  case (Cons e rest)
  obtain k v where e: "e = (k, v)" by (cases e)
  have dist: "distinct (map fst ([] @ (k, v) # rest))"
    using Cons.prems e by (simp add: dict_ok_def)
  have find: "HASH_FIND k d = Some v" using Cons.prems(2) e by (simp add: HASH_FIND_def)
  obtain d1 where d1: "HASH_DEL k d = Some d1" "dict_ok d1" "items d1 = rest"
    "destroyed d1 = destroyed d" "has_notify d1 = has_notify d"
    using hash_del_ok [OF Cons.prems(1) find] Cons.prems(2) e delete_mid [OF dist] by auto
  from Cons.IH [of "fcitx_dict_item_free True v d1"] d1 e show ?case
    by (auto simp: item_free_ok)
qed

lemma strictly_sorted:
  "sorted_wrt (le_of (fcitx_dict_item_compare fcitx_dict_item_default_compare)) ys \<Longrightarrow>
   distinct (map fst ys) \<Longrightarrow>
   sorted_wrt (\<lambda>a b. fcitx_dict_item_default_compare (fst a) (fst b) < 0) ys"
proof (induction ys)
  case (Cons y ys)
  have "fcitx_dict_item_default_compare (fst y) (fst z) < 0" if "z \<in> set ys" for z
  proof -
    have "fcitx_dict_item_default_compare (fst y) (fst z) \<le> 0"
      using Cons.prems(1) that by (auto simp: le_of_def fcitx_dict_item_compare_def)
    moreover have "fst y \<noteq> fst z" using Cons.prems(2) that by auto
    ultimately show ?thesis using default_compare_eq [of "fst y" "fst z"] by simp
  qed
  with Cons show ?case by simp
qed simp

section \<open>Properties\<close>

text \<open>A dictionary is a map: inserting reports whether the key was new or replacement was allowed,
  changes the value of that key only and only then, destroys exactly a replaced value, appends a new
  key at the end, and the item count stays the number of entries.\<close>

theorem dict_insert_lookup:
  assumes "dict_ok d" and "fcitx_dict_insert k v r d = (b, d')"
  shows "dict_ok d' \<and> b = (fcitx_dict_lookup k d = None \<or> r) \<and>
    fcitx_dict_lookup j d' = (if j = k \<and> b then Some v else fcitx_dict_lookup j d) \<and>
    map fst (items d') = map fst (items d) @ (if fcitx_dict_lookup k d = None then [k] else []) \<and>
    destroyed d' = destroyed d @ (case fcitx_dict_lookup k d of
        Some old \<Rightarrow> if r \<and> has_notify d then [old] else [] | None \<Rightarrow> [])"
proof -
  have "dict_ok d'" "b = (fcitx_dict_lookup k d = None \<or> r)"
    "fcitx_dict_lookup j d' = (if j = k \<and> b then Some v else fcitx_dict_lookup j d)"
    using dict_map.ins_ok [OF assms(1), of k v r] dict_map.ins_result [OF assms(1), of k v r]
      dict_map.look_ins [OF assms(1), of j k v r] assms(2) by auto
  moreover have "map fst (items d') = map fst (items d) @ (if fcitx_dict_lookup k d = None then [k] else []) \<and>
    destroyed d' = destroyed d @ (case fcitx_dict_lookup k d of
        Some old \<Rightarrow> if r \<and> has_notify d then [old] else [] | None \<Rightarrow> [])"
  proof (cases "fcitx_dict_lookup k d")
    case None
    with assms(2) show ?thesis
      by (auto simp: fcitx_dict_insert_def fcitx_dict_lookup_def HASH_ADD_def)
  next
    case (Some old)
    then have "k \<in> fst ` set (items d)" by (force simp: fcitx_dict_lookup_def dest: find_mem)
    then have "map fst (AList.update k v (items d)) = map fst (items d)"
      by (simp add: AList.update_keys)
    with Some assms(2) show ?thesis
      by (auto simp: fcitx_dict_insert_def fcitx_dict_lookup_def Let_def split: if_splits)
  qed
  ultimately show ?thesis by blast
qed

definition dict2 :: "nat dict" where
  "dict2 = \<lparr>items = [([0x62], 1), ([0x61], 2)], num_items = 2, has_notify = True, destroyed = []\<rparr>"

lemma dict2_ok: "dict_ok dict2"
  by (simp add: dict_ok_def dict2_def)

theorem dict_insert_lookup_witness:
  "\<exists>d'. fcitx_dict_insert [0x61] 3 True dict2 = (True, d') \<and> dict_ok d' \<and>
     fcitx_dict_lookup [0x61] d' = Some 3 \<and> destroyed d' = [2]"
proof -
  obtain b d' where i: "fcitx_dict_insert [0x61] 3 True dict2 = (b, d')" by fastforce
  have "fcitx_dict_lookup [0x61] dict2 = Some 2"
    by (simp add: fcitx_dict_lookup_def HASH_FIND_def dict2_def)
  with dict_insert_lookup [OF dict2_ok i, of "[0x61]"] i show ?thesis
    by (auto simp: dict2_def)
qed

text \<open>Removing a key that is present reports success, removes that entry only, and hands the value
  out or destroys it, never both; removing a missing key changes nothing.\<close>

theorem dict_remove_exact:
  assumes "dict_ok d"
  shows "\<exists>d'. fcitx_dict_remove k out d =
       Some (fcitx_dict_lookup k d \<noteq> None, (if out then fcitx_dict_lookup k d else None), d') \<and>
     dict_ok d' \<and> fcitx_dict_lookup j d' = (if j = k then None else fcitx_dict_lookup j d) \<and>
     destroyed d' = destroyed d @ (case fcitx_dict_lookup k d of
        Some old \<Rightarrow> if out \<or> \<not> has_notify d then [] else [old] | None \<Rightarrow> [])"
proof (cases "HASH_FIND k d")
  case None
  then show ?thesis
    using assms by (simp add: fcitx_dict_remove_def fcitx_dict_lookup_def)
next
  case (Some v)
  from remove_ok [OF assms this, of out] Some show ?thesis
    by (auto simp: fcitx_dict_lookup_def HASH_FIND_def AList.delete_conv')
qed

theorem dict_remove_exact_witness:
  "\<exists>d'. fcitx_dict_remove [0x61] True dict2 =
       Some (fcitx_dict_lookup [0x61] dict2 \<noteq> None,
         (if True then fcitx_dict_lookup [0x61] dict2 else None), d') \<and>
     dict_ok d' \<and> fcitx_dict_lookup [0x62] d' =
       (if [0x62] = [0x61 :: byte] then None else fcitx_dict_lookup [0x62] dict2) \<and>
     destroyed d' = destroyed dict2 @ (case fcitx_dict_lookup [0x61] dict2 of
        Some old \<Rightarrow> if True \<or> \<not> has_notify dict2 then [] else [old] | None \<Rightarrow> [])"
  by (rule dict_remove_exact [OF dict2_ok])

text \<open>Sorting without a comparison function orders the entries strictly by their key bytes,
  shorter keys first among prefixes, and keeps the entries, the lookups and the count.\<close>

theorem dict_sort_default:
  assumes "dict_ok d"
  shows "dict_ok (fcitx_dict_sort None d) \<and>
    mset (items (fcitx_dict_sort None d)) = mset (items d) \<and>
    sorted_wrt (\<lambda>a b. fcitx_dict_item_default_compare (fst a) (fst b) < 0)
      (items (fcitx_dict_sort None d)) \<and>
    fcitx_dict_lookup k (fcitx_dict_sort None d) = fcitx_dict_lookup k d"
proof -
  let ?cmp = "fcitx_dict_item_compare fcitx_dict_item_default_compare"
  let ?ys = "HASH_SORT ?cmp (items d)"
  have it: "items (fcitx_dict_sort None d) = ?ys" by (simp add: fcitx_dict_sort_def)
  have s: "mset ?ys = mset (items d)" "sorted_wrt (le_of ?cmp) ?ys"
    using dict_order.stable_HASH_SORT [of "items d"] by (auto simp: stably_sorts_def sorts_def)
  have "mset (map fst ?ys) = mset (map fst (items d))" using s(1) by (metis mset_map)
  then have dist: "distinct (map fst ?ys)"
    using assms by (metis dict_ok_def mset_eq_imp_distinct_iff)
  have "sorted_wrt (\<lambda>a b. fcitx_dict_item_default_compare (fst a) (fst b) < 0) ?ys"
    using strictly_sorted [OF s(2) dist] .
  moreover have "map_of ?ys = map_of (items d)"
    using s(1) dist assms by (metis dict_okD map_of_eqI set_mset_mset map_of_inject_set)
  moreover have "length ?ys = length (items d)" using s(1) by (rule mset_eq_length)
  ultimately show ?thesis
    using s(1) dist assms
    by (simp add: it dict_ok_def fcitx_dict_lookup_def HASH_FIND_def fcitx_dict_sort_def)
qed

theorem dict_sort_default_witness:
  "dict_ok (fcitx_dict_sort None dict2) \<and>
    mset (items (fcitx_dict_sort None dict2)) = mset (items dict2) \<and>
    sorted_wrt (\<lambda>a b. fcitx_dict_item_default_compare (fst a) (fst b) < 0)
      (items (fcitx_dict_sort None dict2)) \<and>
    fcitx_dict_lookup [0x61] (fcitx_dict_sort None dict2) = fcitx_dict_lookup [0x61] dict2"
  by (rule dict_sort_default [OF dict2_ok])

text \<open>The removing traversal visits each entry once, in order, threading the caller's data;
  it keeps exactly the entries the callback keeps, with the values it stored, and destroys the
  others. Freeing the dictionary destroys each remaining value once, in order.\<close>

theorem dict_remove_if_and_free:
  assumes "dict_ok d" and "remove_if_spec f (items d) s = (kept, gone, s')"
  shows "(\<exists>d'. fcitx_dict_remove_if f d s = Some (d', s') \<and> dict_ok d' \<and> items d' = kept \<and>
      destroyed d' = destroyed d @ (if has_notify d then gone else [])) \<and>
    fcitx_dict_free (Some d) = Some (destroyed d @ (if has_notify d then map snd (items d) else []))"
  using remove_if_loop_ok [OF assms(1) _ assms(2), of "[]"] remove_all_loop_ok [OF assms(1) refl]
  by (auto simp: fcitx_dict_remove_if_def fcitx_dict_free_def fcitx_dict_remove_all_def)

theorem dict_remove_if_and_free_witness:
  "(\<exists>d'. fcitx_dict_remove_if (\<lambda>k v s. (v = 1, v + 1, s + 1)) dict2 (0 :: nat) = Some (d', 2) \<and>
      dict_ok d' \<and> items d' = [([0x61], 3)] \<and>
      destroyed d' = destroyed dict2 @ (if has_notify dict2 then [2] else [])) \<and>
    fcitx_dict_free (Some dict2) =
      Some (destroyed dict2 @ (if has_notify dict2 then map snd (items dict2) else []))"
  by (rule dict_remove_if_and_free [OF dict2_ok]) (simp add: dict2_def)

text \<open>C12: \<open>fcitx_dict_remove_data\<close> unlinks its entry twice: on the last entry it dereferences the
  NULL head, and otherwise the entry is gone but the reported size is one less than the number of
  entries left.\<close>

theorem dict_remove_data_miscounts:
  assumes "dict_ok d" and "fcitx_dict_lookup k d = Some v"
  shows "(if length (items d) = 1 then fcitx_dict_remove_data k out d = None
    else \<exists>o' d'. fcitx_dict_remove_data k out d = Some (o', d') \<and>
      items d' = AList.delete k (items d) \<and>
      fcitx_dict_size d' = of_nat (length (items d')) - 1)"
proof -
  have find: "HASH_FIND k d = Some v" using assms(2) by (simp add: fcitx_dict_lookup_def)
  obtain d1 where d1: "HASH_DEL k d = Some d1" "dict_ok d1" "items d1 = AList.delete k (items d)"
    using hash_del_ok [OF assms(1) find] by blast
  have "k \<in> fst ` set (items d)" using find by (force dest: find_mem)
  then have len: "Suc (length (items d1)) = length (items d)"
    unfolding d1(3) using assms(1) by (intro length_delete) (simp_all add: dict_ok_def)
  have idem: "AList.delete k (items d1) = items d1"
    by (simp add: d1(3) AList.delete_idem)
  show ?thesis
  proof (cases "length (items d) = 1")
    case True
    with len have "HASH_DEL k d1 = None" by (simp add: HASH_DEL_def)
    with True find d1(1) show ?thesis by (simp add: fcitx_dict_remove_data_def)
  next
    case False
    then have "items d1 \<noteq> []" using len by auto
    then have "HASH_DEL k d1 = Some (d1\<lparr>num_items := num_items d1 - 1\<rparr>)"
      by (simp add: HASH_DEL_def idem)
    with False find d1 \<open>items d1 \<noteq> []\<close> show ?thesis
      by (simp add: fcitx_dict_remove_data_def item_free_ok fcitx_dict_size_def
          fcitx_dict_item_free_def dict_ok_def)
  qed
qed

theorem dict_remove_data_miscounts_witness:
  "(if length (items dict2) = 1 then fcitx_dict_remove_data [0x61] True dict2 = None
    else \<exists>o' d'. fcitx_dict_remove_data [0x61] True dict2 = Some (o', d') \<and>
      items d' = AList.delete [0x61] (items dict2) \<and>
      fcitx_dict_size d' = of_nat (length (items d')) - 1)"
  by (rule dict_remove_data_miscounts [OF dict2_ok, of _ 2])
    (simp add: fcitx_dict_lookup_def HASH_FIND_def dict2_def)

end
