(* ===== verification/InputContext.thy ===== *)
theory InputContext
  imports Key Dict
begin

text \<open>
  The input context manager, \<open>src/lib/fcitx/inputcontext.c\<close>: contexts, focus groups, the events the
  manager posts, surrounding text, and the properties of contexts with the policies that share them.

  Contexts, focus groups and list heads are addressed by numbers; \<open>contexts\<close> and \<open>focus_groups\<close> are
  the store.  The lists are \<open>FcitxList\<close> rings, taken here as the list of their nodes (the
  correctness of the ring operations is in \<open>LinkedList\<close>).  The hash table \<open>ics\<close> is the list of its
  contexts in insertion order.  Events are logged in the order they are passed to the dispatcher,
  together with the calls of the caller's destroy functions; the callbacks are taken not to call back
  into the manager.  \<open>None\<close> is an access to freed memory or through NULL.

  The static functions that C names with a leading underscore end in \<open>_internal\<close> here.
\<close>

section \<open>State\<close>

datatype focus_group_type = FICFG_Global | FICFG_Local | FICFG_Independent

record key_event =
  ke_key :: fcitx_key
  rawKey :: fcitx_key
  keyCode :: int
  isRelease :: bool
  ke_time :: nat

datatype ic_event =
    InputContextCreated u32 nat
  | InputContextDestroyed u32 nat
  | InputContextFocusIn u32 nat
  | InputContextFocusOut u32 nat
  | InputContextKeyEvent u32 nat key_event
  | InputContextReset u32 nat
  | InputContextCapabilityChanged u32 nat
  | InputContextCursorRectChanged u32 nat
  | InputContextForwardKey u32 nat key_event
  | InputContextCommitString u32 nat cstr
  | InputContextDeleteSurroundingText u32 nat int u32
  | InputContextUpdatePreedit u32 nat
  | CallDestroyNotify nat
  | CallPropertyDestroy nat nat
  | CallSlotDestroy nat
  | CallPolicyDestroy nat
  | CallDispatcherDestroy

record fcitx_rect =
  x1 :: int
  y1 :: int
  x2 :: int
  y2 :: int

text \<open>A property of a context: its data and the list of the policy it is linked into.\<close>

record ic_property =
  prop_data :: nat
  prop_head :: "nat option"

record input_context =
  ic_id :: u32
  flags :: u32
  uuid :: "byte list"
  group :: "nat option"
  focused :: bool
  rect :: fcitx_rect
  surroundingText :: "cstr option"
  cursor :: u32
  anchor :: u32
  frontend :: u32
  properties :: "ic_property option list"
  ic_destroyNotify :: bool

record focus_group =
  inputContexts :: "nat list"
  focus :: "nat option"

record shared_policy =
  propertyKey :: "nat \<Rightarrow> cstr"
  policy_property :: nat
  propertyDict :: "nat dict"
  policy_destroyNotify :: bool

record property_slot =
  setProperty :: "(nat \<Rightarrow> nat \<Rightarrow> nat) option"
  copyProperty :: "(nat \<Rightarrow> nat \<Rightarrow> nat) option"
  propertyDestroyNotify :: bool
  slot_destroyNotify :: bool
  slot_policy :: "nat option"

record manager =
  icid :: u32
  freeList :: "nat list"
  ics :: "nat list"
  ics_by_uuid :: "nat list"
  globalGroup :: nat
  groups :: "nat list"
  has_callback :: bool
  mgr_destroyNotify :: bool
  policy :: "nat option"
  policies :: "shared_policy list"
  propertyNames :: "nat dict"
  propertySlots :: "property_slot list"
  contexts :: "nat \<Rightarrow> input_context"
  focus_groups :: "nat \<Rightarrow> focus_group"
  heads :: "nat \<Rightarrow> nat list option"
  next_context :: nat
  next_group :: nat
  next_head :: nat
  events :: "ic_event list"

section \<open>Events and updates\<close>

definition log_call :: "ic_event \<Rightarrow> manager \<Rightarrow> manager" where
  "log_call e m = m\<lparr>events := events m @ [e]\<rparr>"

definition post :: "ic_event \<Rightarrow> manager \<Rightarrow> manager" where
  "post e m = (if has_callback m then log_call e m else m)"

definition upd_ic :: "nat \<Rightarrow> (input_context \<Rightarrow> input_context) \<Rightarrow> manager \<Rightarrow> manager" where
  "upd_ic a f m = m\<lparr>contexts := (contexts m)(a := f (contexts m a))\<rparr>"

definition upd_group :: "nat \<Rightarrow> (focus_group \<Rightarrow> focus_group) \<Rightarrow> manager \<Rightarrow> manager" where
  "upd_group g f m = m\<lparr>focus_groups := (focus_groups m)(g := f (focus_groups m g))\<rparr>"

section \<open>Focus\<close>

definition fcitx_input_context_focus_in_internal :: "nat \<Rightarrow> manager \<Rightarrow> manager" where
  "fcitx_input_context_focus_in_internal ic m =
     post (InputContextFocusIn (ic_id (contexts m ic)) ic) (upd_ic ic (focused_update (\<lambda>_. True)) m)"

definition fcitx_input_context_focus_out_internal :: "nat \<Rightarrow> manager \<Rightarrow> manager" where
  "fcitx_input_context_focus_out_internal ic m =
     post (InputContextFocusOut (ic_id (contexts m ic)) ic) (upd_ic ic (focused_update (\<lambda>_. False)) m)"

definition fcitx_input_context_group_set_focus :: "nat \<Rightarrow> nat option \<Rightarrow> manager \<Rightarrow> manager" where
  "fcitx_input_context_group_set_focus g ic m =
     (let old = focus (focus_groups m g);
          m = upd_group g (focus_update (\<lambda>_. ic)) m;
          m = (case old of Some f \<Rightarrow> fcitx_input_context_focus_out_internal f m | None \<Rightarrow> m)
      in case ic of Some a \<Rightarrow> fcitx_input_context_focus_in_internal a m | None \<Rightarrow> m)"

definition fcitx_input_context_focus_in :: "nat \<Rightarrow> manager \<Rightarrow> manager" where
  "fcitx_input_context_focus_in ic m =
     (if group (contexts m ic) = Some (globalGroup m)
      then let m = fold (\<lambda>g. fcitx_input_context_group_set_focus g None) (groups m) m
           in fcitx_input_context_group_set_focus (globalGroup m) (Some ic) m
      else case group (contexts m ic) of
          Some g \<Rightarrow>
            let m = fcitx_input_context_group_set_focus (globalGroup m) None m
            in fcitx_input_context_group_set_focus g (Some ic) m
        | None \<Rightarrow>
            if \<not> focused (contexts m ic) then fcitx_input_context_focus_in_internal ic m else m)"

definition fcitx_input_context_focus_out :: "nat \<Rightarrow> manager \<Rightarrow> manager" where
  "fcitx_input_context_focus_out ic m =
     (case group (contexts m ic) of
        Some g \<Rightarrow>
          if focus (focus_groups m g) = Some ic then fcitx_input_context_group_set_focus g None m else m
      | None \<Rightarrow>
          if focused (contexts m ic) then fcitx_input_context_focus_out_internal ic m else m)"

definition fcitx_input_context_is_focused :: "nat \<Rightarrow> manager \<Rightarrow> bool" where
  "fcitx_input_context_is_focused ic m = focused (contexts m ic)"

section \<open>Groups\<close>

definition fcitx_input_context_focus_group_new_internal :: "manager \<Rightarrow> nat \<times> manager" where
  "fcitx_input_context_focus_group_new_internal m =
     (next_group m,
      (upd_group (next_group m) (\<lambda>_. \<lparr>inputContexts = [], focus = None\<rparr>) m)
        \<lparr>next_group := next_group m + 1\<rparr>)"

definition fcitx_input_context_focus_group_new :: "manager \<Rightarrow> nat \<times> manager" where
  "fcitx_input_context_focus_group_new m =
     (let (g, m) = fcitx_input_context_focus_group_new_internal m
      in (g, m\<lparr>groups := groups m @ [g]\<rparr>))"

definition fcitx_input_context_set_focus_group_internal :: "nat \<Rightarrow> nat option \<Rightarrow> manager \<Rightarrow> manager" where
  "fcitx_input_context_set_focus_group_internal ic g m =
     (if group (contexts m ic) = g then m
      else
        let oldFocus = focused (contexts m ic);
            m = (if oldFocus then fcitx_input_context_focus_out ic m else m);
            m = (case group (contexts m ic) of
                   Some old \<Rightarrow> upd_group old (inputContexts_update (remove1 ic)) m | None \<Rightarrow> m);
            m = (case g of
                   Some new \<Rightarrow> upd_group new (inputContexts_update (\<lambda>xs. xs @ [ic])) m | None \<Rightarrow> m);
            m = upd_ic ic (group_update (\<lambda>_. g)) m
        in if oldFocus then fcitx_input_context_focus_in ic m else m)"

definition fcitx_input_context_set_focus_group ::
  "nat \<Rightarrow> focus_group_type \<Rightarrow> nat option \<Rightarrow> manager \<Rightarrow> manager" where
  "fcitx_input_context_set_focus_group ic type g m =
     (if (type = FICFG_Local \<and> g = None) \<or> (type \<noteq> FICFG_Local \<and> g \<noteq> None) then m
      else fcitx_input_context_set_focus_group_internal ic
             (if type = FICFG_Global then Some (globalGroup m) else g) m)"

text \<open>The safe loop takes the members the group had when it started.\<close>

definition fcitx_input_context_focus_group_free :: "nat \<Rightarrow> manager \<Rightarrow> manager" where
  "fcitx_input_context_focus_group_free g m =
     (let m = (if g \<noteq> globalGroup m then m\<lparr>groups := remove1 g (groups m)\<rparr> else m)
      in fold (\<lambda>ic. fcitx_input_context_set_focus_group_internal ic None)
           (inputContexts (focus_groups m g)) m)"

section \<open>Lookup and creation\<close>

definition fcitx_input_context_manager_get_input_context :: "u32 \<Rightarrow> manager \<Rightarrow> nat option" where
  "fcitx_input_context_manager_get_input_context i m = find (\<lambda>a. ic_id (contexts m a) = i) (ics m)"

definition fcitx_input_context_manager_get_input_context_by_uuid ::
  "byte list \<Rightarrow> manager \<Rightarrow> nat option" where
  "fcitx_input_context_manager_get_input_context_by_uuid u m =
     find (\<lambda>a. uuid (contexts m a) = u) (ics_by_uuid m)"

definition zero_context :: "u32 \<Rightarrow> input_context" where
  "zero_context i =
     \<lparr>ic_id = i, flags = 0, uuid = replicate 16 0, group = None, focused = False,
      rect = \<lparr>x1 = 0, y1 = 0, x2 = 0, y2 = 0\<rparr>, surroundingText = None, cursor = 0, anchor = 0,
      frontend = 0, properties = [], ic_destroyNotify = False\<rparr>"

text \<open>The loop that skips the id 0.\<close>

definition next_icid :: "u32 \<Rightarrow> u32" where
  "next_icid i = (if i + 1 = 0 then i + 2 else i + 1)"

text \<open>\<open>u\<close> is what \<open>uuid_generate\<close> returns.\<close>

definition fcitx_input_context_new ::
  "u32 \<Rightarrow> bool \<Rightarrow> byte list \<Rightarrow> manager \<Rightarrow> nat option \<times> manager" where
  "fcitx_input_context_new fe destroyNotify u m =
     (let (found, m) =
        (case freeList m of
           a # rest \<Rightarrow>
             (Some a, upd_ic a (\<lambda>c. zero_context (ic_id c)) (m\<lparr>freeList := rest\<rparr>))
         | [] \<Rightarrow>
             let newid = next_icid (icid m); m = m\<lparr>icid := newid\<rparr> in
             (case fcitx_input_context_manager_get_input_context newid m of
                Some _ \<Rightarrow> (None, m)
              | None \<Rightarrow>
                  (Some (next_context m),
                   (upd_ic (next_context m) (\<lambda>_. zero_context newid) m)
                     \<lparr>next_context := next_context m + 1\<rparr>)))
      in case found of
          None \<Rightarrow> (None, m)
        | Some a \<Rightarrow>
            let m = upd_ic a (\<lambda>c. c\<lparr>frontend := fe, ic_destroyNotify := destroyNotify, uuid := u\<rparr>) m;
                m = m\<lparr>ics := ics m @ [a], ics_by_uuid := ics_by_uuid m @ [a]\<rparr>
            in (Some a, post (InputContextCreated (ic_id (contexts m a)) a) m))"

definition fcitx_input_context_manager_set_event_dispatcher :: "bool \<Rightarrow> bool \<Rightarrow> manager \<Rightarrow> manager" where
  "fcitx_input_context_manager_set_event_dispatcher callback destroyNotify m =
     (let m = (if mgr_destroyNotify m then log_call CallDispatcherDestroy m else m)
      in m\<lparr>has_callback := callback, mgr_destroyNotify := destroyNotify\<rparr>)"

fun foreach_ics :: "(nat \<Rightarrow> 's \<Rightarrow> bool \<times> 's) \<Rightarrow> nat list \<Rightarrow> 's \<Rightarrow> 's" where
  "foreach_ics callback [] s = s"
| "foreach_ics callback (ic # rest) s =
     (let (go, s) = callback ic s in if \<not> go then s else foreach_ics callback rest s)"

definition fcitx_input_context_manager_foreach :: "manager \<Rightarrow> (nat \<Rightarrow> 's \<Rightarrow> bool \<times> 's) \<Rightarrow> 's \<Rightarrow> 's" where
  "fcitx_input_context_manager_foreach m callback s = foreach_ics callback (ics m) s"

section \<open>Properties of contexts\<close>

text \<open>Unlinking a property from its policy list; an emptied list is dropped from the dictionary under
  the key of the property's present data, and freed.\<close>

definition upd_policy :: "nat \<Rightarrow> (shared_policy \<Rightarrow> shared_policy) \<Rightarrow> manager \<Rightarrow> manager" where
  "upd_policy p f m = m\<lparr>policies := (policies m)[p := f (policies m ! p)]\<rparr>"

definition policy_remove_key :: "nat \<Rightarrow> cstr \<Rightarrow> manager \<Rightarrow> manager option" where
  "policy_remove_key p key m =
     (let d = propertyDict (policies m ! p) in
      do {
        (_, _, d') \<leftarrow> fcitx_dict_remove key False d;
        let m' = upd_policy p (propertyDict_update (\<lambda>_. d')) m;
        Some (case fcitx_dict_lookup key d of
                Some h \<Rightarrow> m'\<lparr>heads := (heads m')(h := None)\<rparr> | None \<Rightarrow> m') })"

definition policy_unlink :: "nat \<Rightarrow> ic_property \<Rightarrow> nat option \<Rightarrow> manager \<Rightarrow> manager option" where
  "policy_unlink ic prop pol m =
     (case prop_head prop of
        None \<Rightarrow> Some m
      | Some h \<Rightarrow> do {
          members \<leftarrow> heads m h;
          let m = m\<lparr>heads := (heads m)(h := Some (remove1 ic members))\<rparr>;
          if remove1 ic members = [] then do {
            p \<leftarrow> pol;
            policy_remove_key p (propertyKey (policies m ! p) (prop_data prop)) m }
          else Some m })"

definition fcitx_input_context_property_free ::
  "nat \<Rightarrow> nat \<Rightarrow> ic_property option \<Rightarrow> manager \<Rightarrow> manager option" where
  "fcitx_input_context_property_free ic i prop m =
     (case prop of
        None \<Rightarrow> Some m
      | Some prop \<Rightarrow> do {
          let slot = propertySlots m ! i;
          m \<leftarrow> policy_unlink ic prop (slot_policy slot) m;
          Some (if propertyDestroyNotify slot then log_call (CallPropertyDestroy i (prop_data prop)) m
                else m) })"

text \<open>Freeing the array pops its elements, the last one first.\<close>

fun free_properties :: "nat \<Rightarrow> (nat \<times> ic_property option) list \<Rightarrow> manager \<Rightarrow> manager option" where
  "free_properties ic [] m = Some m"
| "free_properties ic ((i, prop) # rest) m = do {
     m \<leftarrow> fcitx_input_context_property_free ic i prop m;
     free_properties ic rest m }"

definition fcitx_input_context_manager_register_property ::
  "cstr \<Rightarrow> (nat \<Rightarrow> nat \<Rightarrow> nat) option \<Rightarrow> (nat \<Rightarrow> nat \<Rightarrow> nat) option \<Rightarrow> bool \<Rightarrow> bool \<Rightarrow> manager \<Rightarrow> nat \<times> manager"
where
  "fcitx_input_context_manager_register_property nm setp copy pdestroy destroyNotify m =
     (let slot = \<lparr>setProperty = setp, copyProperty = copy, propertyDestroyNotify = pdestroy,
                  slot_destroyNotify = destroyNotify, slot_policy = None\<rparr>;
          i = length (propertySlots m)
      in (i, m\<lparr>propertySlots := propertySlots m @ [slot],
               propertyNames := snd (fcitx_dict_insert nm i False (propertyNames m))\<rparr>))"

definition fcitx_input_context_manager_lookup_property :: "cstr \<Rightarrow> manager \<Rightarrow> int" where
  "fcitx_input_context_manager_lookup_property nm m =
     (case fcitx_dict_lookup nm (propertyNames m) of Some i \<Rightarrow> int i | None \<Rightarrow> - 1)"

definition fcitx_input_context_shared_state_policy_new ::
  "int \<Rightarrow> (nat \<Rightarrow> cstr) \<Rightarrow> bool \<Rightarrow> manager \<Rightarrow> nat option \<times> manager" where
  "fcitx_input_context_shared_state_policy_new propertyId key destroyNotify m =
     (if propertyId < 0 \<or> nat propertyId \<ge> length (propertySlots m) then (None, m)
      else
        let i = nat propertyId; slot = propertySlots m ! i in
        if slot_policy slot \<noteq> None then (None, m)
        else
          let p = length (policies m) in
          (Some p,
           m\<lparr>policies := policies m @ [\<lparr>propertyKey = key, policy_property = i,
               propertyDict = fcitx_dict_new True, policy_destroyNotify = destroyNotify\<rparr>],
             propertySlots := (propertySlots m)[i := slot\<lparr>slot_policy := Some p\<rparr>]\<rparr>))"

text \<open>The pointer must not be NULL: the manager it belongs to is read through it.\<close>

definition fcitx_input_context_manager_set_shared_state_policy :: "nat \<Rightarrow> manager \<Rightarrow> manager" where
  "fcitx_input_context_manager_set_shared_state_policy p m =
     (if p < length (policies m) then m\<lparr>policy := Some p\<rparr> else m)"

definition property_at :: "nat \<Rightarrow> nat \<Rightarrow> manager \<Rightarrow> ic_property option" where
  "property_at ic i m =
     (if i < length (properties (contexts m ic)) then properties (contexts m ic) ! i else None)"

definition put_property :: "nat \<Rightarrow> nat \<Rightarrow> ic_property \<Rightarrow> manager \<Rightarrow> manager" where
  "put_property ic i prop m = upd_ic ic (properties_update (\<lambda>ps. ps[i := Some prop])) m"

definition fcitx_input_context_get_property_entry :: "nat \<Rightarrow> nat \<Rightarrow> manager \<Rightarrow> ic_property \<times> manager" where
  "fcitx_input_context_get_property_entry ic i m =
     (let m = upd_ic ic (properties_update (\<lambda>ps. ps @ replicate (i + 1 - length ps) None)) m
      in case property_at ic i m of
          Some prop \<Rightarrow> (prop, m)
        | None \<Rightarrow>
            let prop = \<lparr>prop_data = 0, prop_head = None\<rparr> in (prop, put_property ic i prop m))"

definition copy_one :: "nat \<Rightarrow> nat \<Rightarrow> nat \<Rightarrow> manager \<Rightarrow> manager" where
  "copy_one ic source i m =
     (case copyProperty (propertySlots m ! i) of
        None \<Rightarrow> m
      | Some copy \<Rightarrow>
          let (sourceProp, m) = fcitx_input_context_get_property_entry source i m;
              (prop, m) = fcitx_input_context_get_property_entry ic i m
          in put_property ic i (prop\<lparr>prop_data := copy (prop_data prop) (prop_data sourceProp)\<rparr>) m)"

definition fcitx_input_context_copy_state :: "nat \<Rightarrow> nat \<Rightarrow> int \<Rightarrow> manager \<Rightarrow> manager" where
  "fcitx_input_context_copy_state ic source propertyId m =
     (let start = (if propertyId < 0 then 0 else nat propertyId);
          end = (if propertyId < 0 then length (propertySlots m) else nat (propertyId + 1))
      in fold (copy_one ic source) [start..<end] m)"

text \<open>Linking a property into the list of its key; an empty key is in no list.\<close>

definition policy_link :: "nat \<Rightarrow> nat \<Rightarrow> nat \<Rightarrow> manager \<Rightarrow> manager option" where
  "policy_link ic i p m =
     (case property_at ic i m of
        None \<Rightarrow> None
      | Some prop \<Rightarrow>
          let key = propertyKey (policies m ! p) (prop_data prop) in
          if key = [] then Some m
          else
            let (h, m) =
              (case fcitx_dict_lookup key (propertyDict (policies m ! p)) of
                 Some h \<Rightarrow> (h, m)
               | None \<Rightarrow>
                   (next_head m,
                    upd_policy p (propertyDict_update (\<lambda>d. snd (fcitx_dict_insert key (next_head m) False d)))
                      (m\<lparr>heads := (heads m)(next_head m := Some []), next_head := next_head m + 1\<rparr>)))
            in do {
              members \<leftarrow> heads m h;
              Some (put_property ic i (prop\<lparr>prop_head := Some h\<rparr>)
                     (m\<lparr>heads := (heads m)(h := Some (members @ [ic]))\<rparr>)) })"

definition share_state :: "nat \<Rightarrow> nat \<Rightarrow> manager \<Rightarrow> manager option" where
  "share_state ic i m =
     (case policy m of
        None \<Rightarrow> Some m
      | Some p \<Rightarrow>
          let pi = policy_property (policies m ! p) in
          (case property_at ic pi m of
             None \<Rightarrow> Some m
           | Some policyProperty \<Rightarrow>
               (case prop_head policyProperty of
                  None \<Rightarrow> Some m
                | Some h \<Rightarrow> do {
                    members \<leftarrow> heads m h;
                    Some (fold (\<lambda>a m. if a \<noteq> ic
                            then fcitx_input_context_copy_state a ic (if i = pi then - 1 else int i) m
                            else m) members m) })))"

definition fcitx_input_context_set_property :: "nat \<Rightarrow> int \<Rightarrow> nat \<Rightarrow> manager \<Rightarrow> (nat \<times> manager) option"
where
  "fcitx_input_context_set_property ic propertyId data m =
     (if propertyId < 0 \<or> nat propertyId \<ge> length (propertySlots m) then Some (0, m)
      else
        let i = nat propertyId; slot = propertySlots m ! i;
            (prop, m) = fcitx_input_context_get_property_entry ic i m
        in do {
          m \<leftarrow> (case slot_policy slot of None \<Rightarrow> Some m | Some p \<Rightarrow> policy_unlink ic prop (Some p) m);
          let prop = (if slot_policy slot \<noteq> None then prop\<lparr>prop_head := None\<rparr> else prop);
          let prop = prop\<lparr>prop_data := (case setProperty slot of
                Some f \<Rightarrow> f (prop_data prop) data | None \<Rightarrow> data)\<rparr>;
          let m = put_property ic i prop m;
          m \<leftarrow> (case slot_policy slot of None \<Rightarrow> Some m | Some p \<Rightarrow> policy_link ic i p m);
          m \<leftarrow> share_state ic i m;
          prop \<leftarrow> property_at ic i m;
          Some (prop_data prop, m) })"

definition fcitx_input_context_get_property :: "nat \<Rightarrow> int \<Rightarrow> manager \<Rightarrow> nat" where
  "fcitx_input_context_get_property ic propertyId m =
     (if propertyId < 0 \<or> nat propertyId \<ge> length (propertySlots m) then 0
      else case property_at ic (nat propertyId) m of Some prop \<Rightarrow> prop_data prop | None \<Rightarrow> 0)"

section \<open>Destruction\<close>

definition fcitx_input_context_destroy_internal :: "nat \<Rightarrow> manager \<Rightarrow> manager option" where
  "fcitx_input_context_destroy_internal ic m =
     (let m = post (InputContextDestroyed (ic_id (contexts m ic)) ic) m;
          m = (if ic_destroyNotify (contexts m ic) then log_call (CallDestroyNotify ic) m else m);
          ps = properties (contexts m ic)
      in free_properties ic (rev (zip [0..<length ps] ps)) m)"

definition fcitx_input_context_destroy :: "nat \<Rightarrow> manager \<Rightarrow> manager option" where
  "fcitx_input_context_destroy ic m =
     (if fcitx_input_context_manager_get_input_context (ic_id (contexts m ic)) m \<noteq> Some ic then Some m
      else do {
        let m = fcitx_input_context_focus_out ic m;
        let m = fcitx_input_context_set_focus_group_internal ic None m;
        m \<leftarrow> fcitx_input_context_destroy_internal ic m;
        Some (m\<lparr>ics := remove1 ic (ics m), ics_by_uuid := remove1 ic (ics_by_uuid m),
                freeList := ic # freeList m\<rparr>) })"

text \<open>The loop runs until the table is empty, which a failing \<open>destroy\<close> would prevent.\<close>

partial_function (option) fcitx_input_context_manager_destroy_all_input_context ::
  "manager \<Rightarrow> manager option" where
  "fcitx_input_context_manager_destroy_all_input_context m =
     (case ics m of
        [] \<Rightarrow> Some m
      | ic # _ \<Rightarrow> do {
          m \<leftarrow> fcitx_input_context_destroy ic m;
          fcitx_input_context_manager_destroy_all_input_context m })"

definition fcitx_input_context_property_slot_free :: "nat \<Rightarrow> manager \<Rightarrow> manager" where
  "fcitx_input_context_property_slot_free i m =
     (if slot_destroyNotify (propertySlots m ! i) then log_call (CallSlotDestroy i) m else m)"

definition fcitx_input_context_policy_free :: "nat \<Rightarrow> manager \<Rightarrow> manager" where
  "fcitx_input_context_policy_free p m =
     (if policy_destroyNotify (policies m ! p) then log_call (CallPolicyDestroy p) m else m)"

text \<open>What remains of a freed manager is the log.\<close>

definition fcitx_input_context_manager_free :: "manager \<Rightarrow> ic_event list option" where
  "fcitx_input_context_manager_free m = do {
     m \<leftarrow> fcitx_input_context_manager_destroy_all_input_context m;
     let m = fold fcitx_input_context_focus_group_free (groups m) m;
     let m = fcitx_input_context_focus_group_free (globalGroup m) m;
     let m = m\<lparr>freeList := []\<rparr>;
     let m = fold fcitx_input_context_property_slot_free (rev [0..<length (propertySlots m)]) m;
     let m = fold fcitx_input_context_policy_free (rev [0..<length (policies m)]) m;
     Some (events (if mgr_destroyNotify m then log_call CallDispatcherDestroy m else m)) }"

definition FCITX_FRONTEND_DATA_PROPERTY :: cstr where
  "FCITX_FRONTEND_DATA_PROPERTY = bytes ''frontend-data''"

definition fcitx_input_context_manager_new :: manager where
  "fcitx_input_context_manager_new =
     (let m = \<lparr>icid = 0, freeList = [], ics = [], ics_by_uuid = [], globalGroup = 0, groups = [],
               has_callback = False, mgr_destroyNotify = False, policy = None, policies = [],
               propertyNames = fcitx_dict_new False, propertySlots = [], contexts = (\<lambda>_. zero_context 0),
               focus_groups = (\<lambda>_. \<lparr>inputContexts = [], focus = None\<rparr>), heads = (\<lambda>_. None),
               next_context = 0, next_group = 0, next_head = 0, events = []\<rparr>;
          (g, m) = fcitx_input_context_focus_group_new_internal m;
          m = m\<lparr>globalGroup := g\<rparr>
      in snd (fcitx_input_context_manager_register_property FCITX_FRONTEND_DATA_PROPERTY None None
                False False m))"

section \<open>State of a context\<close>

definition CAPABILITY_SURROUNDING_TEXT :: u32 where
  "CAPABILITY_SURROUNDING_TEXT = 0x40"

definition fcitx_input_context_set_capability_flags :: "nat \<Rightarrow> u32 \<Rightarrow> manager \<Rightarrow> manager" where
  "fcitx_input_context_set_capability_flags ic fl m =
     (if flags (contexts m ic) \<noteq> fl
      then post (InputContextCapabilityChanged (ic_id (contexts m ic)) ic)
             (upd_ic ic (flags_update (\<lambda>_. fl)) m)
      else m)"

definition fcitx_input_context_set_cursor_rect :: "nat \<Rightarrow> fcitx_rect \<Rightarrow> manager \<Rightarrow> manager" where
  "fcitx_input_context_set_cursor_rect ic r m =
     (if x1 (rect (contexts m ic)) \<noteq> x1 r \<or> x2 (rect (contexts m ic)) \<noteq> x2 r \<or>
         y1 (rect (contexts m ic)) \<noteq> y1 r \<or> y2 (rect (contexts m ic)) \<noteq> y2 r
      then post (InputContextCursorRectChanged (ic_id (contexts m ic)) ic)
             (upd_ic ic (rect_update (\<lambda>_. r)) m)
      else m)"

definition fcitx_input_context_get_cursor_rect :: "nat \<Rightarrow> manager \<Rightarrow> fcitx_rect" where
  "fcitx_input_context_get_cursor_rect ic m = rect (contexts m ic)"

definition fcitx_input_context_reset :: "nat \<Rightarrow> manager \<Rightarrow> manager" where
  "fcitx_input_context_reset ic m = post (InputContextReset (ic_id (contexts m ic)) ic) m"

text \<open>The answer of the dispatcher is an argument.\<close>

definition fcitx_input_context_process_key_event ::
  "(ic_event \<Rightarrow> bool) \<Rightarrow> nat \<Rightarrow> key_event \<Rightarrow> manager \<Rightarrow> bool \<times> manager" where
  "fcitx_input_context_process_key_event callback ic key m =
     (if has_callback m
      then let e = InputContextKeyEvent (ic_id (contexts m ic)) ic
                     (key\<lparr>ke_key := fcitx_key_normalize (rawKey key)\<rparr>)
           in (callback e, post e m)
      else (False, m))"

definition fcitx_input_context_forward_key :: "nat \<Rightarrow> key_event \<Rightarrow> manager \<Rightarrow> manager" where
  "fcitx_input_context_forward_key ic key m =
     post (InputContextForwardKey (ic_id (contexts m ic)) ic key) m"

definition fcitx_input_context_commit_string :: "nat \<Rightarrow> cstr \<Rightarrow> manager \<Rightarrow> manager" where
  "fcitx_input_context_commit_string ic s m =
     post (InputContextCommitString (ic_id (contexts m ic)) ic s) m"

definition fcitx_input_context_update_preedit :: "nat \<Rightarrow> manager \<Rightarrow> manager" where
  "fcitx_input_context_update_preedit ic m =
     post (InputContextUpdatePreedit (ic_id (contexts m ic)) ic) m"

definition fcitx_input_context_get_surrounding_text :: "nat \<Rightarrow> manager \<Rightarrow> (cstr \<times> u32 \<times> u32) option" where
  "fcitx_input_context_get_surrounding_text ic m =
     (let c = contexts m ic in
      if flags c AND CAPABILITY_SURROUNDING_TEXT = 0 then None
      else case surroundingText c of None \<Rightarrow> None | Some s \<Rightarrow> Some (s, cursor c, anchor c))"

definition fcitx_input_context_set_surrounding_text ::
  "nat \<Rightarrow> cstr option \<Rightarrow> u32 \<Rightarrow> u32 \<Rightarrow> manager \<Rightarrow> manager" where
  "fcitx_input_context_set_surrounding_text ic str cur anc m =
     (let c = contexts m ic in
      if flags c AND CAPABILITY_SURROUNDING_TEXT = 0 then m
      else if (case surroundingText c of
                 None \<Rightarrow> True
               | Some old \<Rightarrow> (case str of Some s \<Rightarrow> strcmp old s \<noteq> 0 | None \<Rightarrow> False)) \<or>
              cur \<noteq> cursor c \<or> anc \<noteq> anchor c
      then
        let m = (case str of
                   Some s \<Rightarrow> upd_ic ic (surroundingText_update (\<lambda>t. fcitx_utils_string_swap t (Some s))) m
                 | None \<Rightarrow> m);
            m = upd_ic ic (\<lambda>c. c\<lparr>cursor := cur, anchor := anc\<rparr>) m
        in post (InputContextFocusIn (ic_id (contexts m ic)) ic) m
      else m)"

text \<open>\<open>cursor_pos\<close> is an \<open>int\<close>; \<open>len - cursor_pos\<close> is a \<open>size_t\<close>.\<close>

definition delete_from_text :: "cstr \<Rightarrow> u32 \<Rightarrow> int \<Rightarrow> u32 \<Rightarrow> (cstr \<times> u32) option" where
  "delete_from_text text cur offset len =
     (let cursor_pos = sint (cur + of_int offset) in
      do {
        n \<leftarrow> fcitx_utf8_strlen text;
        if cursor_pos \<ge> 0 \<and> (int n - cursor_pos) mod 2 ^ 64 \<ge> uint len then do {
          start \<leftarrow> fcitx_utf8_get_nth_char text (nat cursor_pos);
          k \<leftarrow> fcitx_utf8_get_nth_char (drop start text) (unat len);
          Some (take start text @ drop (start + k) text, of_int cursor_pos) }
        else Some ([], 0) })"

definition fcitx_input_context_delete_surrounding_text ::
  "nat \<Rightarrow> int \<Rightarrow> u32 \<Rightarrow> manager \<Rightarrow> manager option" where
  "fcitx_input_context_delete_surrounding_text ic offset len m =
     do {
       m \<leftarrow> (case surroundingText (contexts m ic) of
               None \<Rightarrow> Some m
             | Some text \<Rightarrow> do {
                 (text', cur) \<leftarrow> delete_from_text text (cursor (contexts m ic)) offset len;
                 Some (upd_ic ic (\<lambda>c. c\<lparr>surroundingText := Some text', cursor := cur, anchor := cur\<rparr>) m) });
       Some (post (InputContextDeleteSurroundingText (ic_id (contexts m ic)) ic offset len) m) }"

end
