(* ===== verification/InputContext_Focus.thy ===== *)
theory InputContext_Focus
  imports InputContext
begin

text \<open>
  The invariant of the input context manager that concerns identity and focus, kept by every
  operation on contexts and groups: ids are unique and never 0, the member lists of the groups agree
  with the contexts, a group's focus is its one focused member, and no local group has a focus while
  the global one has.
\<close>

named_theorems ic_frame "fields an operation leaves alone"

section \<open>Frames\<close>

lemma log_call_fields [ic_frame]:
  "contexts (log_call e m) = contexts m" "focus_groups (log_call e m) = focus_groups m"
  "ics (log_call e m) = ics m" "ics_by_uuid (log_call e m) = ics_by_uuid m"
  "freeList (log_call e m) = freeList m" "groups (log_call e m) = groups m"
  "globalGroup (log_call e m) = globalGroup m" "icid (log_call e m) = icid m"
  "next_context (log_call e m) = next_context m" "next_group (log_call e m) = next_group m"
  "has_callback (log_call e m) = has_callback m" "heads (log_call e m) = heads m"
  "policies (log_call e m) = policies m" "propertySlots (log_call e m) = propertySlots m"
  "policy (log_call e m) = policy m" "next_head (log_call e m) = next_head m"
  "events (log_call e m) = events m @ [e]"
  by (simp_all add: log_call_def)

lemma post_fields [ic_frame]:
  "contexts (post e m) = contexts m" "focus_groups (post e m) = focus_groups m"
  "ics (post e m) = ics m" "ics_by_uuid (post e m) = ics_by_uuid m"
  "freeList (post e m) = freeList m" "groups (post e m) = groups m"
  "globalGroup (post e m) = globalGroup m" "icid (post e m) = icid m"
  "next_context (post e m) = next_context m" "next_group (post e m) = next_group m"
  "has_callback (post e m) = has_callback m" "heads (post e m) = heads m"
  "policies (post e m) = policies m" "propertySlots (post e m) = propertySlots m"
  "policy (post e m) = policy m" "next_head (post e m) = next_head m"
  "events (post e m) = events m @ (if has_callback m then [e] else [])"
  by (simp_all add: post_def ic_frame)

lemma upd_ic_fields [ic_frame]:
  "contexts (upd_ic a f m) = (contexts m)(a := f (contexts m a))"
  "focus_groups (upd_ic a f m) = focus_groups m"
  "ics (upd_ic a f m) = ics m" "ics_by_uuid (upd_ic a f m) = ics_by_uuid m"
  "freeList (upd_ic a f m) = freeList m" "groups (upd_ic a f m) = groups m"
  "globalGroup (upd_ic a f m) = globalGroup m" "icid (upd_ic a f m) = icid m"
  "next_context (upd_ic a f m) = next_context m" "next_group (upd_ic a f m) = next_group m"
  "has_callback (upd_ic a f m) = has_callback m" "heads (upd_ic a f m) = heads m"
  "policies (upd_ic a f m) = policies m" "propertySlots (upd_ic a f m) = propertySlots m"
  "policy (upd_ic a f m) = policy m" "next_head (upd_ic a f m) = next_head m"
  "events (upd_ic a f m) = events m"
  by (simp_all add: upd_ic_def)

lemma upd_group_fields [ic_frame]:
  "focus_groups (upd_group g h m) = (focus_groups m)(g := h (focus_groups m g))"
  "contexts (upd_group g h m) = contexts m"
  "ics (upd_group g h m) = ics m" "ics_by_uuid (upd_group g h m) = ics_by_uuid m"
  "freeList (upd_group g h m) = freeList m" "groups (upd_group g h m) = groups m"
  "globalGroup (upd_group g h m) = globalGroup m" "icid (upd_group g h m) = icid m"
  "next_context (upd_group g h m) = next_context m" "next_group (upd_group g h m) = next_group m"
  "has_callback (upd_group g h m) = has_callback m" "heads (upd_group g h m) = heads m"
  "policies (upd_group g h m) = policies m" "propertySlots (upd_group g h m) = propertySlots m"
  "policy (upd_group g h m) = policy m" "next_head (upd_group g h m) = next_head m"
  "events (upd_group g h m) = events m"
  by (simp_all add: upd_group_def)

declare ic_frame [simp]

text \<open>What the focus operations leave alone, and what they may change.\<close>

definition same_identity :: "manager \<Rightarrow> manager \<Rightarrow> bool" where
  "same_identity m m' \<longleftrightarrow>
     ics m' = ics m \<and> ics_by_uuid m' = ics_by_uuid m \<and> freeList m' = freeList m \<and>
     groups m' = groups m \<and> globalGroup m' = globalGroup m \<and> icid m' = icid m \<and>
     next_context m' = next_context m \<and> next_group m' = next_group m \<and>
     has_callback m' = has_callback m \<and> heads m' = heads m \<and> policies m' = policies m \<and>
     propertySlots m' = propertySlots m \<and> policy m' = policy m \<and> next_head m' = next_head m \<and>
     (\<forall>a. ic_id (contexts m' a) = ic_id (contexts m a)) \<and>
     (\<forall>a. uuid (contexts m' a) = uuid (contexts m a)) \<and>
     (\<forall>a. ic_destroyNotify (contexts m' a) = ic_destroyNotify (contexts m a)) \<and>
     (\<forall>a. properties (contexts m' a) = properties (contexts m a))"

lemma same_identity_refl [simp]: "same_identity m m"
  by (simp add: same_identity_def)

lemma same_identity_trans: "same_identity m m' \<Longrightarrow> same_identity m' m'' \<Longrightarrow> same_identity m m''"
  by (simp add: same_identity_def)

definition same_membership :: "manager \<Rightarrow> manager \<Rightarrow> bool" where
  "same_membership m m' \<longleftrightarrow> same_identity m m' \<and>
     (\<forall>a. group (contexts m' a) = group (contexts m a)) \<and>
     (\<forall>g. inputContexts (focus_groups m' g) = inputContexts (focus_groups m g))"

lemma same_membership_refl [simp]: "same_membership m m"
  by (simp add: same_membership_def)

lemma same_membership_trans:
  "same_membership m m' \<Longrightarrow> same_membership m' m'' \<Longrightarrow> same_membership m m''"
  unfolding same_membership_def by (blast intro: same_identity_trans dest: trans)+

lemma same_membershipD:
  assumes "same_membership m m'"
  shows "ics m' = ics m" "freeList m' = freeList m" "groups m' = groups m"
    "globalGroup m' = globalGroup m" "group (contexts m' a) = group (contexts m a)"
    "ic_id (contexts m' a) = ic_id (contexts m a)"
    "inputContexts (focus_groups m' g) = inputContexts (focus_groups m g)"
    "next_context m' = next_context m" "next_group m' = next_group m" "ics_by_uuid m' = ics_by_uuid m"
    "has_callback m' = has_callback m"
  using assms by (simp_all add: same_membership_def same_identity_def)

lemma focus_primitives_membership:
  "same_membership m (fcitx_input_context_focus_in_internal a m)"
  "same_membership m (fcitx_input_context_focus_out_internal a m)"
  by (simp_all add: same_membership_def same_identity_def fcitx_input_context_focus_in_internal_def
      fcitx_input_context_focus_out_internal_def)

lemma group_set_focus_membership: "same_membership m (fcitx_input_context_group_set_focus g x m)"
proof -
  let ?m1 = "upd_group g (focus_update (\<lambda>_. x)) m"
  let ?m2 = "case focus (focus_groups m g) of
      Some f \<Rightarrow> fcitx_input_context_focus_out_internal f ?m1 | None \<Rightarrow> ?m1"
  have "same_membership m ?m1" by (simp add: same_membership_def same_identity_def)
  moreover have "same_membership ?m1 ?m2"
    by (simp add: focus_primitives_membership split: option.split)
  moreover have "same_membership ?m2 (fcitx_input_context_group_set_focus g x m)"
    by (simp add: fcitx_input_context_group_set_focus_def Let_def focus_primitives_membership
        split: option.split)
  ultimately show ?thesis by (blast intro: same_membership_trans)
qed

lemma fold_set_focus_membership:
  "same_membership m (fold (\<lambda>g. fcitx_input_context_group_set_focus g None) gs m)"
  by (induction gs arbitrary: m) (auto intro: same_membership_trans [OF group_set_focus_membership])

lemma focus_in_membership: "same_membership m (fcitx_input_context_focus_in a m)"
  unfolding fcitx_input_context_focus_in_def Let_def
  by (auto split: option.split
      intro: same_membership_trans [OF fold_set_focus_membership]
        same_membership_trans [OF group_set_focus_membership] group_set_focus_membership
        focus_primitives_membership)

lemma focus_out_membership: "same_membership m (fcitx_input_context_focus_out a m)"
  unfolding fcitx_input_context_focus_out_def
  by (auto split: option.split intro: group_set_focus_membership focus_primitives_membership)

section \<open>The invariant\<close>

definition live_groups :: "manager \<Rightarrow> nat list" where
  "live_groups m = globalGroup m # groups m"

definition identity_ok :: "manager \<Rightarrow> bool" where
  "identity_ok m \<longleftrightarrow>
     distinct (ics m @ freeList m) \<and> ics_by_uuid m = ics m \<and>
     (\<forall>a \<in> set (ics m @ freeList m). a < next_context m) \<and>
     distinct (map (\<lambda>a. ic_id (contexts m a)) (ics m @ freeList m)) \<and>
     (\<forall>a \<in> set (ics m @ freeList m). ic_id (contexts m a) \<noteq> 0)"

definition groups_ok :: "manager \<Rightarrow> bool" where
  "groups_ok m \<longleftrightarrow>
     distinct (live_groups m) \<and> (\<forall>g \<in> set (live_groups m). g < next_group m) \<and>
     (\<forall>a \<in> set (ics m). \<forall>g. group (contexts m a) = Some g \<longrightarrow> g \<in> set (live_groups m)) \<and>
     (\<forall>g \<in> set (live_groups m). distinct (inputContexts (focus_groups m g)) \<and>
        set (inputContexts (focus_groups m g)) = {a \<in> set (ics m). group (contexts m a) = Some g})"

definition focus_agrees :: "manager \<Rightarrow> bool" where
  "focus_agrees m \<longleftrightarrow>
     (\<forall>g \<in> set (live_groups m). \<forall>a. focus (focus_groups m g) = Some a \<longleftrightarrow>
        a \<in> set (ics m) \<and> group (contexts m a) = Some g \<and> focused (contexts m a))"

definition focus_exclusive :: "manager \<Rightarrow> bool" where
  "focus_exclusive m \<longleftrightarrow>
     focus (focus_groups m (globalGroup m)) = None \<or>
     (\<forall>g \<in> set (groups m). focus (focus_groups m g) = None)"

definition ic_inv :: "manager \<Rightarrow> bool" where
  "ic_inv m \<longleftrightarrow> identity_ok m \<and> groups_ok m \<and> focus_agrees m \<and> focus_exclusive m"

lemma same_membership_identity_ok: "same_membership m m' \<Longrightarrow> identity_ok m' = identity_ok m"
  by (simp add: identity_ok_def same_membershipD)

lemma same_membership_live: "same_membership m m' \<Longrightarrow> live_groups m' = live_groups m"
  by (simp add: live_groups_def same_membershipD)

lemma same_membership_groups_ok: "same_membership m m' \<Longrightarrow> groups_ok m' = groups_ok m"
  by (simp add: groups_ok_def same_membershipD same_membership_live)

section \<open>Setting the focus of a group\<close>

lemma focus_primitives_groups [simp]:
  "focus_groups (fcitx_input_context_focus_in_internal a m) = focus_groups m"
  "focus_groups (fcitx_input_context_focus_out_internal a m) = focus_groups m"
  "focused (contexts (fcitx_input_context_focus_in_internal a m) b) = (b = a \<or> focused (contexts m b))"
  "focused (contexts (fcitx_input_context_focus_out_internal a m) b) = (b \<noteq> a \<and> focused (contexts m b))"
  by (simp_all add: fcitx_input_context_focus_in_internal_def fcitx_input_context_focus_out_internal_def)

lemma group_set_focus_focus:
  "focus (focus_groups (fcitx_input_context_group_set_focus g x m) h) =
   (if h = g then x else focus (focus_groups m h))"
  by (simp add: fcitx_input_context_group_set_focus_def Let_def split: option.split)

lemma group_set_focus_focused:
  "focused (contexts (fcitx_input_context_group_set_focus g x m) b) =
   (x = Some b \<or> focus (focus_groups m g) \<noteq> Some b \<and> focused (contexts m b))"
  by (auto simp: fcitx_input_context_group_set_focus_def Let_def split: option.split)

lemma group_set_focus_agrees:
  assumes "focus_agrees m" "g \<in> set (live_groups m)"
    and "\<forall>a. x = Some a \<longrightarrow> a \<in> set (ics m) \<and> group (contexts m a) = Some g"
  shows "focus_agrees (fcitx_input_context_group_set_focus g x m)"
proof -
  note mem = group_set_focus_membership [of m g x]
  have old: "focus (focus_groups m h) = Some a \<longleftrightarrow>
        a \<in> set (ics m) \<and> group (contexts m a) = Some h \<and> focused (contexts m a)"
    if "h \<in> set (live_groups m)" for h a
    using assms(1) that by (simp add: focus_agrees_def)
  show ?thesis
    unfolding focus_agrees_def same_membership_live [OF mem] group_set_focus_focus
      group_set_focus_focused same_membershipD [OF mem]
    using old assms(2,3) by (auto split: if_splits)
qed

lemma fold_set_focus_focus:
  "focus (focus_groups (fold (\<lambda>g. fcitx_input_context_group_set_focus g None) gs m) h) =
   (if h \<in> set gs then None else focus (focus_groups m h))"
  by (induction gs arbitrary: m) (auto simp: group_set_focus_focus)

lemma fold_set_focus_agrees:
  "focus_agrees m \<Longrightarrow> set gs \<subseteq> set (live_groups m) \<Longrightarrow>
   focus_agrees (fold (\<lambda>g. fcitx_input_context_group_set_focus g None) gs m)"
proof (induction gs arbitrary: m)
  case (Cons g gs)
  have "focus_agrees (fcitx_input_context_group_set_focus g None m)"
    using Cons.prems by (intro group_set_focus_agrees) auto
  moreover have "set gs \<subseteq> set (live_groups (fcitx_input_context_group_set_focus g None m))"
    using Cons.prems by (simp add: same_membership_live [OF group_set_focus_membership])
  ultimately show ?case by (simp add: Cons.IH)
qed simp

section \<open>Focusing a context\<close>

lemma focus_in_global:
  assumes "group (contexts m a) = Some (globalGroup m)"
  shows "fcitx_input_context_focus_in a m =
    fcitx_input_context_group_set_focus (globalGroup m) (Some a)
      (fold (\<lambda>g. fcitx_input_context_group_set_focus g None) (groups m) m)"
  using assms same_membershipD(4) [OF fold_set_focus_membership [of m "groups m"]]
  by (simp add: fcitx_input_context_focus_in_def Let_def)

lemma focus_in_local:
  assumes "group (contexts m a) = Some g" "g \<noteq> globalGroup m"
  shows "fcitx_input_context_focus_in a m =
    fcitx_input_context_group_set_focus g (Some a)
      (fcitx_input_context_group_set_focus (globalGroup m) None m)"
  using assms by (simp add: fcitx_input_context_focus_in_def Let_def)

lemma focus_in_alone:
  assumes "group (contexts m a) = None"
  shows "fcitx_input_context_focus_in a m =
    (if focused (contexts m a) then m else fcitx_input_context_focus_in_internal a m)"
  using assms by (simp add: fcitx_input_context_focus_in_def)

lemma alone_agrees:
  assumes "focus_agrees m" "same_membership m m'" "focus_groups m' = focus_groups m"
    and "group (contexts m a) = None" "\<forall>b. b \<noteq> a \<longrightarrow> focused (contexts m' b) = focused (contexts m b)"
  shows "focus_agrees m'"
  using assms unfolding focus_agrees_def same_membershipD [OF assms(2)] same_membership_live [OF assms(2)]
  by (metis option.distinct(1))

lemma focus_in_agrees:
  assumes "focus_agrees m" "groups_ok m" "a \<in> set (ics m)"
  shows "focus_agrees (fcitx_input_context_focus_in a m)"
proof -
  consider (global) "group (contexts m a) = Some (globalGroup m)"
    | (local) g where "group (contexts m a) = Some g" "g \<noteq> globalGroup m"
    | (alone) "group (contexts m a) = None" by (cases "group (contexts m a)") auto
  then show ?thesis
  proof cases
    case global
    note mem = fold_set_focus_membership [of m "groups m"]
    have "focus_agrees (fold (\<lambda>g. fcitx_input_context_group_set_focus g None) (groups m) m)"
      by (rule fold_set_focus_agrees [OF assms(1)]) (auto simp: live_groups_def)
    then show ?thesis unfolding focus_in_global [OF global]
      by (rule group_set_focus_agrees)
         (use assms(3) global in \<open>auto simp: same_membershipD [OF mem] same_membership_live [OF mem] live_groups_def\<close>)
  next
    case (local g)
    note mem = group_set_focus_membership [of m "globalGroup m" None]
    have "g \<in> set (live_groups m)" using assms local by (auto simp: groups_ok_def)
    moreover have "focus_agrees (fcitx_input_context_group_set_focus (globalGroup m) None m)"
      by (rule group_set_focus_agrees [OF assms(1)]) (auto simp: live_groups_def)
    ultimately show ?thesis unfolding focus_in_local [OF local]
      by - (rule group_set_focus_agrees,
          use assms(3) local in \<open>auto simp: same_membershipD [OF mem] same_membership_live [OF mem]\<close>)
  next
    case alone
    then show ?thesis using assms(1)
      by (auto simp: focus_in_alone intro: alone_agrees [OF assms(1) focus_primitives_membership(1) _ alone])
  qed
qed

lemma focus_in_exclusive:
  assumes "focus_exclusive m" "groups_ok m"
  shows "focus_exclusive (fcitx_input_context_focus_in a m)"
proof -
  consider (global) "group (contexts m a) = Some (globalGroup m)"
    | (local) g where "group (contexts m a) = Some g" "g \<noteq> globalGroup m"
    | (alone) "group (contexts m a) = None" by (cases "group (contexts m a)") auto
  then show ?thesis
  proof cases
    case global
    note mem = focus_in_membership [of m a]
    show ?thesis
      unfolding focus_exclusive_def same_membershipD [OF mem]
      unfolding focus_in_global [OF global] group_set_focus_focus fold_set_focus_focus
      using assms by (auto simp: focus_exclusive_def groups_ok_def live_groups_def)
  next
    case (local g)
    note mem = focus_in_membership [of m a]
    show ?thesis
      unfolding focus_exclusive_def same_membershipD [OF mem]
      unfolding focus_in_local [OF local] group_set_focus_focus
      using local by auto
  next
    case alone
    then show ?thesis using assms
      by (simp add: focus_in_alone focus_exclusive_def same_membershipD [OF focus_primitives_membership(1)])
  qed
qed

lemma focus_out_agrees:
  assumes "focus_agrees m" "groups_ok m" "a \<in> set (ics m)"
  shows "focus_agrees (fcitx_input_context_focus_out a m)"
proof (cases "group (contexts m a)")
  case None
  then show ?thesis using assms(1)
    by (auto simp: fcitx_input_context_focus_out_def
        intro: alone_agrees [OF assms(1) focus_primitives_membership(2) _ None])
next
  case (Some g)
  then have "g \<in> set (live_groups m)" using assms by (auto simp: groups_ok_def)
  then show ?thesis using assms(1) Some
    by (simp add: fcitx_input_context_focus_out_def group_set_focus_agrees)
qed

lemma focus_out_focus:
  "focus (focus_groups (fcitx_input_context_focus_out a m) h) =
   (if group (contexts m a) = Some h \<and> focus (focus_groups m h) = Some a then None
    else focus (focus_groups m h))"
  by (auto simp: fcitx_input_context_focus_out_def group_set_focus_focus split: option.split)

lemma focus_out_exclusive:
  "focus_exclusive m \<Longrightarrow> focus_exclusive (fcitx_input_context_focus_out a m)"
  unfolding focus_exclusive_def same_membershipD [OF focus_out_membership] focus_out_focus by auto

lemma focus_out_focused:
  assumes "focus_agrees m" "groups_ok m" "a \<in> set (ics m)"
  shows "focused (contexts (fcitx_input_context_focus_out a m) b) = (b \<noteq> a \<and> focused (contexts m b))"
proof (cases "group (contexts m a)")
  case None
  then show ?thesis by (auto simp: fcitx_input_context_focus_out_def)
next
  case (Some g)
  then have "g \<in> set (live_groups m)" using assms by (auto simp: groups_ok_def)
  then have "focus (focus_groups m g) = Some a \<longleftrightarrow> focused (contexts m a)"
    using assms Some by (simp add: focus_agrees_def)
  then show ?thesis using Some
    by (auto simp: fcitx_input_context_focus_out_def group_set_focus_focused)
qed

lemma focus_in_inv: "ic_inv m \<Longrightarrow> a \<in> set (ics m) \<Longrightarrow> ic_inv (fcitx_input_context_focus_in a m)"
  using focus_in_membership [of m a]
  by (simp add: ic_inv_def focus_in_agrees focus_in_exclusive same_membership_identity_ok
      same_membership_groups_ok)

lemma focus_out_inv: "ic_inv m \<Longrightarrow> a \<in> set (ics m) \<Longrightarrow> ic_inv (fcitx_input_context_focus_out a m)"
  using focus_out_membership [of m a]
  by (simp add: ic_inv_def focus_out_agrees focus_out_exclusive same_membership_identity_ok
      same_membership_groups_ok)
section \<open>Moving a context between groups\<close>

definition relocate :: "nat \<Rightarrow> nat option \<Rightarrow> manager \<Rightarrow> manager" where
  "relocate a g m =
     (let m = (case group (contexts m a) of
                 Some old \<Rightarrow> upd_group old (inputContexts_update (remove1 a)) m | None \<Rightarrow> m);
          m = (case g of
                 Some new \<Rightarrow> upd_group new (inputContexts_update (\<lambda>xs. xs @ [a])) m | None \<Rightarrow> m)
      in upd_ic a (group_update (\<lambda>_. g)) m)"

lemma relocate_identity: "same_identity m (relocate a g m)"
  by (simp add: relocate_def same_identity_def Let_def split: option.split)

lemma relocate_live [simp]: "live_groups (relocate a g m) = live_groups m"
  by (simp add: relocate_def live_groups_def Let_def split: option.split)

lemma relocate_contexts:
  "focused (contexts (relocate a g m) b) = focused (contexts m b)"
  "group (contexts (relocate a g m) b) = (if b = a then g else group (contexts m b))"
  by (simp_all add: relocate_def Let_def split: option.split)

lemma relocate_groups:
  "focus (focus_groups (relocate a g m) h) = focus (focus_groups m h)"
  "inputContexts (focus_groups (relocate a g m) h) =
     (if group (contexts m a) = Some h then remove1 a (inputContexts (focus_groups m h))
      else inputContexts (focus_groups m h)) @ (if g = Some h then [a] else [])"
  by (auto simp: relocate_def Let_def split: option.split)

lemma same_identityD:
  assumes "same_identity m m'"
  shows "ics m' = ics m" "freeList m' = freeList m" "groups m' = groups m"
    "globalGroup m' = globalGroup m" "ic_id (contexts m' a) = ic_id (contexts m a)"
    "next_context m' = next_context m" "next_group m' = next_group m" "ics_by_uuid m' = ics_by_uuid m"
    "icid m' = icid m" "has_callback m' = has_callback m" "live_groups m' = live_groups m"
    "identity_ok m' = identity_ok m"
  using assms by (simp_all add: same_identity_def live_groups_def identity_ok_def)

lemma relocate_inv:
  assumes inv: "ic_inv m" and a: "a \<in> set (ics m)" and unf: "\<not> focused (contexts m a)"
    and new: "group (contexts m a) \<noteq> g" and g: "\<forall>h. g = Some h \<longrightarrow> h \<in> set (live_groups m)"
  shows "ic_inv (relocate a g m)"
proof -
  note idn = relocate_identity [of m a g]
  have gok: "groups_ok m" and fa: "focus_agrees m" and fe: "focus_exclusive m" and iok: "identity_ok m"
    using inv by (simp_all add: ic_inv_def)
  have mem: "distinct (inputContexts (focus_groups m h))"
    "set (inputContexts (focus_groups m h)) = {b \<in> set (ics m). group (contexts m b) = Some h}"
    if "h \<in> set (live_groups m)" for h
    using gok that by (simp_all add: groups_ok_def)
  have "groups_ok (relocate a g m)"
    unfolding groups_ok_def same_identityD [OF idn] relocate_contexts relocate_groups
  proof (intro conjI ballI allI impI)
    show "distinct (live_groups m)" "\<And>h. h \<in> set (live_groups m) \<Longrightarrow> h < next_group m"
      using gok by (simp_all add: groups_ok_def)
    show "h \<in> set (live_groups m)"
      if "b \<in> set (ics m)" "(if b = a then g else group (contexts m b)) = Some h" for b h
      using that g gok by (auto simp: groups_ok_def split: if_splits)
    fix h assume h: "h \<in> set (live_groups m)"
    let ?rm = "if group (contexts m a) = Some h then remove1 a (inputContexts (focus_groups m h))
      else inputContexts (focus_groups m h)"
    have rm: "distinct ?rm" "set ?rm = {b \<in> set (ics m). group (contexts m b) = Some h} - {a}"
      using mem [OF h] by auto
    then show "distinct (?rm @ (if g = Some h then [a] else []))" by auto
    show "set (?rm @ (if g = Some h then [a] else [])) =
        {b \<in> set (ics m). (if b = a then g else group (contexts m b)) = Some h}"
      unfolding set_append rm(2) using a by auto
  qed
  moreover have "focus_agrees (relocate a g m)"
    unfolding focus_agrees_def same_identityD [OF idn] relocate_contexts relocate_groups
    using fa unf by (simp add: focus_agrees_def)
  moreover have "focus_exclusive (relocate a g m)"
    using fe by (simp add: focus_exclusive_def same_identityD [OF idn] relocate_groups)
  moreover have "identity_ok (relocate a g m)" using iok same_identityD(12) [OF idn] by simp
  ultimately show ?thesis by (simp add: ic_inv_def)
qed

lemma set_focus_group_internal_eq:
  "fcitx_input_context_set_focus_group_internal a g m =
   (if group (contexts m a) = g then m
    else if focused (contexts m a)
    then fcitx_input_context_focus_in a (relocate a g (fcitx_input_context_focus_out a m))
    else relocate a g m)"
  by (simp add: fcitx_input_context_set_focus_group_internal_def relocate_def Let_def)

lemma set_focus_group_internal_identity:
  "same_identity m (fcitx_input_context_set_focus_group_internal a g m)"
proof -
  have out: "same_identity m (fcitx_input_context_focus_out a m)"
    using focus_out_membership [of m a] by (simp add: same_membership_def)
  have "in": "same_identity x (fcitx_input_context_focus_in a x)" for x
    using focus_in_membership [of x a] by (simp add: same_membership_def)
  show ?thesis unfolding set_focus_group_internal_eq
    using same_identity_trans [OF out same_identity_trans [OF relocate_identity "in"]]
      relocate_identity by simp
qed

lemma set_focus_group_internal_inv:
  assumes inv: "ic_inv m" and a: "a \<in> set (ics m)" and g: "\<forall>h. g = Some h \<longrightarrow> h \<in> set (live_groups m)"
  shows "ic_inv (fcitx_input_context_set_focus_group_internal a g m)"
proof -
  let ?m1 = "fcitx_input_context_focus_out a m"
  note mem = focus_out_membership [of m a]
  have inv1: "ic_inv ?m1" using inv a by (rule focus_out_inv)
  have unf: "\<not> focused (contexts ?m1 a)"
    using focus_out_focused [of m a a] inv a by (simp add: ic_inv_def)
  have "ic_inv (relocate a g ?m1)" if "group (contexts m a) \<noteq> g"
    using inv1 unf a g that
    by (intro relocate_inv) (simp_all add: same_membershipD [OF mem] same_membership_live [OF mem])
  moreover have "a \<in> set (ics (relocate a g ?m1))"
    using a by (simp add: same_identityD [OF relocate_identity] same_membershipD [OF mem])
  moreover have "ic_inv (relocate a g m)" if "group (contexts m a) \<noteq> g" "\<not> focused (contexts m a)"
    using relocate_inv inv a g that by blast
  ultimately show ?thesis using inv by (simp add: set_focus_group_internal_eq focus_in_inv)
qed

lemma focus_in_group:
  "group (contexts (fcitx_input_context_focus_in a m) b) = group (contexts m b)"
  "group (contexts (fcitx_input_context_focus_out a m) b) = group (contexts m b)"
  by (simp_all add: same_membershipD [OF focus_in_membership] same_membershipD [OF focus_out_membership])

lemma set_focus_group_internal_group:
  "group (contexts (fcitx_input_context_set_focus_group_internal a g m) b) =
   (if b = a then g else group (contexts m b))"
  by (simp add: set_focus_group_internal_eq focus_in_group relocate_contexts)

text \<open>Moving a context keeps whether it is focused.\<close>

lemma focus_in_focused_self: "focused (contexts (fcitx_input_context_focus_in a m) a)"
  by (auto simp: fcitx_input_context_focus_in_def Let_def group_set_focus_focused split: option.split)

lemma set_focus_group_internal_focused:
  "focused (contexts (fcitx_input_context_set_focus_group_internal a g m) a) = focused (contexts m a)"
  by (simp add: set_focus_group_internal_eq focus_in_focused_self relocate_contexts)

lemma set_focus_group_inv:
  assumes "ic_inv m" "a \<in> set (ics m)" "\<forall>h. g = Some h \<longrightarrow> h \<in> set (live_groups m)"
  shows "ic_inv (fcitx_input_context_set_focus_group a type g m)"
  unfolding fcitx_input_context_set_focus_group_def
  using assms by (auto simp: live_groups_def intro!: set_focus_group_internal_inv)

section \<open>Creating and freeing groups\<close>

lemma group_new_inv:
  assumes "ic_inv m" "fcitx_input_context_focus_group_new m = (g, m')"
  shows "ic_inv m' \<and> g \<notin> set (live_groups m) \<and> live_groups m' = live_groups m @ [g] \<and>
    inputContexts (focus_groups m' g) = [] \<and> focus (focus_groups m' g) = None"
proof -
  have g: "g = next_group m" and m': "m' = (upd_group g (\<lambda>_. \<lparr>inputContexts = [], focus = None\<rparr>) m)
      \<lparr>next_group := next_group m + 1, groups := groups m @ [g]\<rparr>"
    using assms(2) by (auto simp: fcitx_input_context_focus_group_new_def
        fcitx_input_context_focus_group_new_internal_def)
  have gok: "groups_ok m" and fa: "focus_agrees m" and fe: "focus_exclusive m" and iok: "identity_ok m"
    using assms(1) by (simp_all add: ic_inv_def)
  have fresh: "g \<notin> set (live_groups m)" using gok g by (auto simp: groups_ok_def)
  then have ne: "g \<noteq> globalGroup m" "g \<notin> set (groups m)" by (auto simp: live_groups_def)
  have none: "group (contexts m a) \<noteq> Some g" if "a \<in> set (ics m)" for a
    using gok that fresh by (auto simp: groups_ok_def)
  have live: "live_groups m' = live_groups m @ [g]" by (simp add: m' live_groups_def)
  have "groups_ok m'" using gok fresh none
    by (auto simp: groups_ok_def live) (auto simp: m' g less_Suc_eq)
  moreover have "focus_agrees m'" using fa fresh none
    unfolding focus_agrees_def live by (auto simp: m')
  moreover have "focus_exclusive m'" using fe ne by (auto simp: focus_exclusive_def m')
  moreover have "identity_ok m'" using iok by (simp add: identity_ok_def m')
  ultimately show ?thesis using fresh live by (simp add: ic_inv_def m')
qed

lemma drop_groups:
  "fcitx_input_context_set_focus_group_internal a None (m\<lparr>groups := gs\<rparr>) =
   (fcitx_input_context_set_focus_group_internal a None m)\<lparr>groups := gs\<rparr>"
proof -
  have upd: "upd_ic b f (x\<lparr>groups := gs\<rparr>) = (upd_ic b f x)\<lparr>groups := gs\<rparr>"
    "upd_group h k (x\<lparr>groups := gs\<rparr>) = (upd_group h k x)\<lparr>groups := gs\<rparr>"
    "post e (x\<lparr>groups := gs\<rparr>) = (post e x)\<lparr>groups := gs\<rparr>" for b f x h k e
    by (simp_all add: upd_ic_def upd_group_def post_def log_call_def)
  have prim: "fcitx_input_context_focus_in_internal b (x\<lparr>groups := gs\<rparr>) =
      (fcitx_input_context_focus_in_internal b x)\<lparr>groups := gs\<rparr>"
    "fcitx_input_context_focus_out_internal b (x\<lparr>groups := gs\<rparr>) =
      (fcitx_input_context_focus_out_internal b x)\<lparr>groups := gs\<rparr>" for b x
    by (simp_all add: upd fcitx_input_context_focus_in_internal_def fcitx_input_context_focus_out_internal_def)
  have gsf: "fcitx_input_context_group_set_focus h y (x\<lparr>groups := gs\<rparr>) =
      (fcitx_input_context_group_set_focus h y x)\<lparr>groups := gs\<rparr>" for h y x
    by (simp add: fcitx_input_context_group_set_focus_def Let_def upd prim split: option.split)
  have out: "fcitx_input_context_focus_out a (x\<lparr>groups := gs\<rparr>) =
      (fcitx_input_context_focus_out a x)\<lparr>groups := gs\<rparr>" for x
    by (simp add: fcitx_input_context_focus_out_def gsf prim split: option.split)
  have rel: "relocate a None (x\<lparr>groups := gs\<rparr>) = (relocate a None x)\<lparr>groups := gs\<rparr>" for x
    by (simp add: relocate_def Let_def upd split: option.split)
  have "in": "fcitx_input_context_focus_in a (relocate a None x\<lparr>groups := gs\<rparr>) =
      (fcitx_input_context_focus_in a (relocate a None x))\<lparr>groups := gs\<rparr>" for x
    by (simp add: focus_in_alone relocate_contexts prim)
  show ?thesis by (simp add: set_focus_group_internal_eq out rel "in")
qed

lemma fold_drop_groups:
  "fold (\<lambda>a. fcitx_input_context_set_focus_group_internal a None) as (m\<lparr>groups := gs\<rparr>) =
   (fold (\<lambda>a. fcitx_input_context_set_focus_group_internal a None) as m)\<lparr>groups := gs\<rparr>"
  by (induction as arbitrary: m) (simp_all add: drop_groups)

lemma fold_leave_group:
  "ic_inv m \<Longrightarrow> set as \<subseteq> set (ics m) \<Longrightarrow>
   (let m' = fold (\<lambda>a. fcitx_input_context_set_focus_group_internal a None) as m in
    ic_inv m' \<and> same_identity m m' \<and>
    (\<forall>b. group (contexts m' b) = (if b \<in> set as then None else group (contexts m b))))"
proof (induction as arbitrary: m)
  case (Cons a as)
  let ?m1 = "fcitx_input_context_set_focus_group_internal a None m"
  note idn = set_focus_group_internal_identity [of m a None]
  have "ic_inv ?m1" using Cons.prems by (intro set_focus_group_internal_inv) auto
  with Cons.IH [of ?m1] Cons.prems(2) idn show ?case
    by (auto simp: Let_def same_identityD [OF idn] set_focus_group_internal_group
        intro: same_identity_trans)
qed (simp add: Let_def)

lemma group_free_inv:
  assumes inv: "ic_inv m" and g: "g \<in> set (groups m)"
  shows "ic_inv (fcitx_input_context_focus_group_free g m)" and
    "group (contexts (fcitx_input_context_focus_group_free g m) b) =
       (if b \<in> set (inputContexts (focus_groups m g)) then None else group (contexts m b))"
    "groups (fcitx_input_context_focus_group_free g m) = remove1 g (groups m)"
    "ics (fcitx_input_context_focus_group_free g m) = ics m"
proof -
  have gok: "groups_ok m" using inv by (simp add: ic_inv_def)
  have ne: "g \<noteq> globalGroup m" using gok g by (auto simp: groups_ok_def live_groups_def)
  have gl: "g \<in> set (live_groups m)" using g by (simp add: live_groups_def)
  let ?as = "inputContexts (focus_groups m g)"
  have mem: "set ?as = {a \<in> set (ics m). group (contexts m a) = Some g}"
    using gok gl by (simp add: groups_ok_def)
  let ?m2 = "fold (\<lambda>a. fcitx_input_context_set_focus_group_internal a None) ?as m"
  have eq: "fcitx_input_context_focus_group_free g m = ?m2\<lparr>groups := remove1 g (groups m)\<rparr>"
    using ne by (simp add: fcitx_input_context_focus_group_free_def fold_drop_groups)
  have m2: "ic_inv ?m2" "same_identity m ?m2"
    "\<And>b. group (contexts ?m2 b) = (if b \<in> set ?as then None else group (contexts m b))"
    using fold_leave_group [OF inv, of ?as] mem by (auto simp: Let_def)
  note idn = same_identityD [OF m2(2)]
  have left: "group (contexts ?m2 a) \<noteq> Some g" if "a \<in> set (ics m)" for a
    using m2(3) mem that by auto
  have live: "set (live_groups (?m2\<lparr>groups := remove1 g (groups m)\<rparr>)) = set (live_groups ?m2) - {g}"
    using gok ne by (auto simp: live_groups_def idn groups_ok_def)
  have "groups_ok (?m2\<lparr>groups := remove1 g (groups m)\<rparr>)"
  proof -
    have "groups_ok ?m2" using m2(1) by (simp add: ic_inv_def)
    moreover have "distinct (live_groups (?m2\<lparr>groups := remove1 g (groups m)\<rparr>))"
      using gok by (auto simp: live_groups_def idn groups_ok_def dest: notin_set_remove1)
    ultimately show ?thesis unfolding groups_ok_def live using left by (auto simp: idn)
  qed
  moreover have "focus_agrees (?m2\<lparr>groups := remove1 g (groups m)\<rparr>)"
    using m2(1) unfolding ic_inv_def focus_agrees_def live by auto
  moreover have "focus_exclusive (?m2\<lparr>groups := remove1 g (groups m)\<rparr>)"
    using m2(1) unfolding ic_inv_def focus_exclusive_def
    by (auto simp: idn dest: notin_set_remove1)
  moreover have "identity_ok (?m2\<lparr>groups := remove1 g (groups m)\<rparr>)"
    using m2(1) by (simp add: ic_inv_def identity_ok_def)
  ultimately show "ic_inv (fcitx_input_context_focus_group_free g m)" unfolding eq by (simp add: ic_inv_def)
  show "group (contexts (fcitx_input_context_focus_group_free g m) b) =
       (if b \<in> set ?as then None else group (contexts m b))"
    "groups (fcitx_input_context_focus_group_free g m) = remove1 g (groups m)"
    "ics (fcitx_input_context_focus_group_free g m) = ics m"
    unfolding eq using m2(3) idn by simp_all
qed
section \<open>Creating and destroying contexts\<close>

lemma identity_inj:
  "identity_ok m \<Longrightarrow> inj_on (\<lambda>a. ic_id (contexts m a)) (set (ics m @ freeList m))"
  unfolding identity_ok_def distinct_map by blast

lemma get_input_context_iff:
  assumes "identity_ok m"
  shows "fcitx_input_context_manager_get_input_context i m = Some a \<longleftrightarrow>
    a \<in> set (ics m) \<and> ic_id (contexts m a) = i"
proof -
  have inj: "x = y" if "x \<in> set (ics m)" "y \<in> set (ics m)" "ic_id (contexts m x) = ic_id (contexts m y)" for x y
    using assms that by (auto simp: identity_ok_def distinct_map dest: inj_onD)
  show ?thesis
  proof
    assume "fcitx_input_context_manager_get_input_context i m = Some a"
    then show "a \<in> set (ics m) \<and> ic_id (contexts m a) = i"
      by (auto simp: fcitx_input_context_manager_get_input_context_def find_Some_iff)
  next
    assume a: "a \<in> set (ics m) \<and> ic_id (contexts m a) = i"
    then have "fcitx_input_context_manager_get_input_context i m \<noteq> None"
      by (auto simp: fcitx_input_context_manager_get_input_context_def find_None_iff)
    then obtain b where b: "fcitx_input_context_manager_get_input_context i m = Some b" by blast
    then have "b \<in> set (ics m) \<and> ic_id (contexts m b) = i"
      by (auto simp: fcitx_input_context_manager_get_input_context_def find_Some_iff)
    then show "fcitx_input_context_manager_get_input_context i m = Some a" using inj a b by auto
  qed
qed

text \<open>A context whose number was not in use is registered with a fresh record.\<close>

lemma register_inv:
  assumes inv: "ic_inv m" and a: "a \<notin> set (ics m)"
    and free: "freeList m' = remove1 a (freeList m)" and ics: "ics m' = ics m @ [a]" "ics_by_uuid m' = ics m @ [a]"
    and ctx: "\<forall>b. b \<noteq> a \<longrightarrow> contexts m' b = contexts m b" "group (contexts m' a) = None"
    and idn: "ic_id (contexts m' a) \<noteq> 0"
      "\<forall>b \<in> set (ics m) \<union> (set (freeList m) - {a}). ic_id (contexts m b) \<noteq> ic_id (contexts m' a)"
    and rest: "focus_groups m' = focus_groups m" "groups m' = groups m" "globalGroup m' = globalGroup m"
      "next_group m' = next_group m" "next_context m \<le> next_context m'" "a < next_context m'"
  shows "ic_inv m'"
proof -
  have iok: "identity_ok m" and gok: "groups_ok m" and fa: "focus_agrees m" and fe: "focus_exclusive m"
    using inv by (simp_all add: ic_inv_def)
  have live: "live_groups m' = live_groups m" by (simp add: live_groups_def rest)
  have df: "distinct (freeList m)" using iok by (simp add: identity_ok_def)
  have fr: "set (freeList m') = set (freeList m) - {a}" "distinct (freeList m')"
    using df by (simp_all add: free)
  have others: "contexts m' b = contexts m b" if "b \<in> set (ics m) \<union> set (freeList m')" for b
    using ctx(1) a that fr by auto
  have "identity_ok m'"
    unfolding identity_ok_def ics
  proof (intro conjI ballI)
    show "distinct ((ics m @ [a]) @ freeList m')"
      using iok a fr by (auto simp: identity_ok_def)
    show "ics m @ [a] = ics m @ [a]" by simp
    show "b < next_context m'" if "b \<in> set ((ics m @ [a]) @ freeList m')" for b
    proof (cases "b = a")
      case False
      then have "b \<in> set (ics m @ freeList m)" using that fr by auto
      then have "b < next_context m" using iok unfolding identity_ok_def by blast
      then show ?thesis using rest(5) by (rule less_le_trans)
    qed (use rest in simp)
    have "distinct (map (\<lambda>b. ic_id (contexts m b)) (ics m @ freeList m'))"
    proof -
      have "inj_on (\<lambda>b. ic_id (contexts m b)) (set (ics m @ freeList m))"
        using iok by (rule identity_inj)
      then have "inj_on (\<lambda>b. ic_id (contexts m b)) (set (ics m @ freeList m'))"
        by (rule inj_on_subset) (use fr in auto)
      moreover have "distinct (ics m @ freeList m')" using iok fr by (auto simp: identity_ok_def)
      ultimately show ?thesis unfolding distinct_map by blast
    qed
    moreover have eq: "map (\<lambda>b. ic_id (contexts m' b)) (ics m @ freeList m') =
        map (\<lambda>b. ic_id (contexts m b)) (ics m @ freeList m')"
      using others by (intro map_cong) auto
    ultimately have "distinct (map (\<lambda>b. ic_id (contexts m' b)) (ics m @ freeList m'))" by (simp only:)
    moreover have "ic_id (contexts m' a) \<notin> set (map (\<lambda>b. ic_id (contexts m' b)) (ics m @ freeList m'))"
      unfolding eq using idn(2) fr(1) by auto
    ultimately show "distinct (map (\<lambda>b. ic_id (contexts m' b)) ((ics m @ [a]) @ freeList m'))"
      by auto
    show "ic_id (contexts m' b) \<noteq> 0" if "b \<in> set ((ics m @ [a]) @ freeList m')" for b
      using that iok fr idn(1) others [of b] by (cases "b = a") (auto simp: identity_ok_def)
  qed
  moreover have same: "group (contexts m' b) = group (contexts m b)" "focused (contexts m' b) = focused (contexts m b)"
    if "b \<in> set (ics m)" for b using others that by auto
  have "groups_ok m'"
    using gok ctx(2) same a unfolding groups_ok_def live rest ics by auto
  moreover have "focus_agrees m'"
    using fa ctx(2) same a unfolding focus_agrees_def live rest ics by auto
  moreover have "focus_exclusive m'" using fe by (simp add: focus_exclusive_def rest)
  ultimately show ?thesis by (simp add: ic_inv_def)
qed

lemma next_icid_nonzero: "next_icid i \<noteq> 0"
proof -
  show ?thesis
  proof (cases "i + 1 = 0")
    case True
    have "i + 2 = (i + 1) + 1" by (simp add: add.assoc)
    also have "\<dots> = 1" unfolding True by (rule add_0)
    finally show ?thesis using True by (simp only: next_icid_def if_True) simp
  next
    case False
    then show ?thesis by (simp only: next_icid_def if_False simp_thms)
  qed
qed

lemma new_reuse:
  assumes "freeList m = a # rest"
  shows "fcitx_input_context_new fe d u m =
    (Some a, post (InputContextCreated (ic_id (contexts m a)) a)
       (upd_ic a (\<lambda>c. (zero_context (ic_id c))\<lparr>frontend := fe, ic_destroyNotify := d, uuid := u\<rparr>)
         (m\<lparr>freeList := rest, ics := ics m @ [a], ics_by_uuid := ics_by_uuid m @ [a]\<rparr>)))"
  using assms
  by (cases m) (simp add: fcitx_input_context_new_def Let_def upd_ic_def zero_context_def)

lemma new_fresh:
  assumes "freeList m = []"
    and "fcitx_input_context_manager_get_input_context (next_icid (icid m)) m = None"
  shows "fcitx_input_context_new fe d u m =
    (Some (next_context m), post (InputContextCreated (next_icid (icid m)) (next_context m))
       (upd_ic (next_context m) (\<lambda>c. (zero_context (next_icid (icid m)))\<lparr>frontend := fe, ic_destroyNotify := d, uuid := u\<rparr>)
         (m\<lparr>icid := next_icid (icid m), next_context := next_context m + 1,
            ics := ics m @ [next_context m], ics_by_uuid := ics_by_uuid m @ [next_context m]\<rparr>)))"
  using assms
  by (cases m) (simp add: fcitx_input_context_new_def Let_def upd_ic_def zero_context_def
      fcitx_input_context_manager_get_input_context_def)

lemma new_taken:
  assumes "freeList m = []"
    and "fcitx_input_context_manager_get_input_context (next_icid (icid m)) m = Some b"
  shows "fcitx_input_context_new fe d u m = (None, m\<lparr>icid := next_icid (icid m)\<rparr>)"
  using assms
  by (simp add: fcitx_input_context_new_def Let_def fcitx_input_context_manager_get_input_context_def)

lemma new_inv:
  assumes inv: "ic_inv m" and new: "fcitx_input_context_new fe d u m = (r, m')"
  shows "ic_inv m' \<and>
    (case r of
       None \<Rightarrow> freeList m = [] \<and> ics m' = ics m \<and>
         (\<exists>b \<in> set (ics m). ic_id (contexts m b) = next_icid (icid m))
     | Some a \<Rightarrow> a \<notin> set (ics m) \<and> ics m' = ics m @ [a] \<and> uuid (contexts m' a) = u \<and>
         (\<forall>b. b \<noteq> a \<longrightarrow> contexts m' b = contexts m b) \<and> group (contexts m' a) = None \<and>
         \<not> focused (contexts m' a) \<and> properties (contexts m' a) = [] \<and>
         fcitx_input_context_manager_get_input_context (ic_id (contexts m' a)) m = None)"
proof -
  have iok: "identity_ok m" using inv by (simp add: ic_inv_def)
  have uu: "ics_by_uuid m = ics m" using iok by (simp add: identity_ok_def)
  show ?thesis
  proof (cases "freeList m")
    case (Cons a rest)
    have a: "a \<notin> set (ics m)" "ic_id (contexts m a) \<noteq> 0" "a < next_context m" "a \<notin> set rest"
      using iok Cons by (auto simp: identity_ok_def)
    have ids: "\<forall>b \<in> set (ics m) \<union> set rest. ic_id (contexts m b) \<noteq> ic_id (contexts m a)"
    proof (intro ballI notI)
      fix b assume b: "b \<in> set (ics m) \<union> set rest" "ic_id (contexts m b) = ic_id (contexts m a)"
      then have "b = a" using inj_onD [OF identity_inj [OF iok] b(2)] Cons by simp
      with a b show False by auto
    qed
    note a = a ids
    have r: "r = Some a" and m': "m' = post (InputContextCreated (ic_id (contexts m a)) a)
       (upd_ic a (\<lambda>c. (zero_context (ic_id c))\<lparr>frontend := fe, ic_destroyNotify := d, uuid := u\<rparr>)
         (m\<lparr>freeList := rest, ics := ics m @ [a], ics_by_uuid := ics_by_uuid m @ [a]\<rparr>))"
      using new new_reuse [OF Cons, of fe d u] by auto
    have "ic_inv m'"
      by (rule register_inv [OF inv a(1)])
         (use a Cons uu in \<open>auto simp: m' zero_context_def\<close>)
    moreover have "fcitx_input_context_manager_get_input_context (ic_id (contexts m' a)) m = None"
      using a(5) by (auto simp: m' zero_context_def fcitx_input_context_manager_get_input_context_def find_None_iff)
    ultimately show ?thesis using a by (simp add: r) (simp add: m' zero_context_def)
  next
    case Nil
    let ?i = "next_icid (icid m)"
    show ?thesis
    proof (cases "fcitx_input_context_manager_get_input_context ?i m")
      case None
      let ?a = "next_context m"
      have r: "r = Some ?a" and m': "m' = post (InputContextCreated ?i ?a)
         (upd_ic ?a (\<lambda>c. (zero_context ?i)\<lparr>frontend := fe, ic_destroyNotify := d, uuid := u\<rparr>)
           (m\<lparr>icid := ?i, next_context := ?a + 1, ics := ics m @ [?a], ics_by_uuid := ics_by_uuid m @ [?a]\<rparr>))"
        using new new_fresh [OF Nil None, of fe d u] by auto
      have a: "?a \<notin> set (ics m)" using iok by (auto simp: identity_ok_def)
      have ids: "\<forall>b \<in> set (ics m). ic_id (contexts m b) \<noteq> ?i"
        using None by (auto simp: fcitx_input_context_manager_get_input_context_def find_None_iff)
      have "ic_inv m'"
        by (rule register_inv [OF inv a])
           (use a ids Nil uu next_icid_nonzero in \<open>auto simp: m' zero_context_def\<close>)
      then show ?thesis using a None by (simp add: r) (simp add: m' zero_context_def)
    next
      case (Some b)
      then have r: "r = None" and m': "m' = m\<lparr>icid := ?i\<rparr>" using new new_taken [OF Nil Some] by auto
      have "ic_inv m'" using inv
        by (simp add: m' ic_inv_def identity_ok_def groups_ok_def focus_agrees_def focus_exclusive_def live_groups_def)
      moreover have "b \<in> set (ics m)" "ic_id (contexts m b) = ?i" using Some get_input_context_iff [OF iok] by auto
      ultimately show ?thesis using Nil by (auto simp: r) (simp add: m')
    qed
  qed
qed
section \<open>Destroying a context\<close>

text \<open>What freeing properties leaves alone.\<close>

definition same_contexts :: "manager \<Rightarrow> manager \<Rightarrow> bool" where
  "same_contexts m m' \<longleftrightarrow>
     contexts m' = contexts m \<and> focus_groups m' = focus_groups m \<and> ics m' = ics m \<and>
     ics_by_uuid m' = ics_by_uuid m \<and> freeList m' = freeList m \<and> groups m' = groups m \<and>
     globalGroup m' = globalGroup m \<and> icid m' = icid m \<and> next_context m' = next_context m \<and>
     next_group m' = next_group m \<and> has_callback m' = has_callback m \<and>
     propertySlots m' = propertySlots m \<and> policy m' = policy m \<and> next_head m' = next_head m \<and>
     (\<exists>es. events m' = events m @ es \<and> (\<forall>e \<in> set es. \<exists>i d. e = CallPropertyDestroy i d))"

lemma same_contexts_refl [simp]: "same_contexts m m"
  by (simp add: same_contexts_def)

lemma same_contexts_trans: "same_contexts m m' \<Longrightarrow> same_contexts m' m'' \<Longrightarrow> same_contexts m m''"
proof -
  assume a: "same_contexts m m'" and b: "same_contexts m' m''"
  obtain es es' where "events m' = events m @ es" "\<forall>e \<in> set es. \<exists>i d. e = CallPropertyDestroy i d"
    "events m'' = events m' @ es'" "\<forall>e \<in> set es'. \<exists>i d. e = CallPropertyDestroy i d"
    using a b unfolding same_contexts_def by blast
  then have "\<exists>fs. events m'' = events m @ fs \<and> (\<forall>e \<in> set fs. \<exists>i d. e = CallPropertyDestroy i d)"
    by (intro exI [of _ "es @ es'"]) auto
  with a b show ?thesis by (simp add: same_contexts_def)
qed

lemma policy_remove_key_frame: "policy_remove_key p key m = Some m' \<Longrightarrow> same_contexts m m'"
  by (auto simp: policy_remove_key_def upd_policy_def same_contexts_def Let_def bind_eq_Some_conv
      split: option.splits)

lemma policy_unlink_frame:
  assumes "policy_unlink a prop pol m = Some m'" shows "same_contexts m m'"
proof (cases "prop_head prop")
  case (Some h)
  with assms obtain members where mem: "heads m h = Some members"
    by (auto simp: policy_unlink_def bind_eq_Some_conv)
  let ?m = "m\<lparr>heads := (heads m)(h \<mapsto> remove1 a members)\<rparr>"
  have "same_contexts m ?m" by (simp add: same_contexts_def)
  moreover have "same_contexts ?m m'"
    using assms Some mem policy_remove_key_frame
    by (auto simp: policy_unlink_def Let_def bind_eq_Some_conv split: if_splits)
  ultimately show ?thesis by (rule same_contexts_trans)
qed (use assms in \<open>simp add: policy_unlink_def\<close>)

lemma log_property_destroy: "same_contexts m (log_call (CallPropertyDestroy i d) m)"
  by (simp add: same_contexts_def)

lemma property_free_frame:
  "fcitx_input_context_property_free a i prop m = Some m' \<Longrightarrow> same_contexts m m'"
  by (auto simp: fcitx_input_context_property_free_def Let_def bind_eq_Some_conv
      split: option.splits if_splits
      intro: policy_unlink_frame same_contexts_trans [OF policy_unlink_frame log_property_destroy])

lemma free_properties_frame: "free_properties a ps m = Some m' \<Longrightarrow> same_contexts m m'"
proof (induction a ps m rule: free_properties.induct)
  case (2 a i q rest m)
  then show ?case
    by (auto simp: bind_eq_Some_conv intro: same_contexts_trans [OF property_free_frame])
qed simp

lemma same_contexts_inv: "same_contexts m m' \<Longrightarrow> ic_inv m' = ic_inv m"
  by (simp add: same_contexts_def ic_inv_def identity_ok_def groups_ok_def focus_agrees_def
      focus_exclusive_def live_groups_def)

lemma destroy_internal_frame:
  assumes "fcitx_input_context_destroy_internal a m = Some m'"
  shows "ic_inv m' = ic_inv m \<and> contexts m' = contexts m \<and> ics m' = ics m \<and> freeList m' = freeList m \<and>
    ics_by_uuid m' = ics_by_uuid m \<and> live_groups m' = live_groups m \<and> focus_groups m' = focus_groups m \<and>
    has_callback m' = has_callback m \<and> propertySlots m' = propertySlots m \<and>
    (\<exists>es. events m' = events m @ (if has_callback m then [InputContextDestroyed (ic_id (contexts m a)) a] else [])
        @ (if ic_destroyNotify (contexts m a) then [CallDestroyNotify a] else []) @ es \<and>
      (\<forall>e \<in> set es. \<exists>i d. e = CallPropertyDestroy i d))"
proof -
  let ?m1 = "post (InputContextDestroyed (ic_id (contexts m a)) a) m"
  let ?m2 = "if ic_destroyNotify (contexts m a) then log_call (CallDestroyNotify a) ?m1 else ?m1"
  have f: "same_contexts ?m2 m'"
    using assms by (auto simp: fcitx_input_context_destroy_internal_def Let_def intro: free_properties_frame)
  have "ic_inv ?m2 = ic_inv m"
    by (simp add: ic_inv_def identity_ok_def groups_ok_def focus_agrees_def
      focus_exclusive_def live_groups_def)
  then show ?thesis using f same_contexts_inv [OF f]
    by (auto simp: same_contexts_def live_groups_def)
qed

lemma unregister_inv:
  assumes inv: "ic_inv m" and a: "a \<in> set (ics m)" "group (contexts m a) = None"
  shows "ic_inv (m\<lparr>ics := remove1 a (ics m), ics_by_uuid := remove1 a (ics_by_uuid m), freeList := a # freeList m\<rparr>)"
    (is "ic_inv ?m")
proof -
  have iok: "identity_ok m" and gok: "groups_ok m" and fa: "focus_agrees m" and fe: "focus_exclusive m"
    using inv by (simp_all add: ic_inv_def)
  have d: "distinct (ics m)" "distinct (freeList m)" "a \<notin> set (freeList m)"
    "set (ics m) \<inter> set (freeList m) = {}" using iok a by (auto simp: identity_ok_def)
  then have set: "set (remove1 a (ics m)) = set (ics m) - {a}" by simp
  have un: "set (remove1 a (ics m) @ a # freeList m) = set (ics m @ freeList m)" using set a by auto
  have dist: "distinct (remove1 a (ics m) @ a # freeList m)" using d set by auto
  have "identity_ok ?m"
    unfolding identity_ok_def
  proof (intro conjI)
    show "distinct (map (\<lambda>a. ic_id (contexts ?m a)) (ics ?m @ freeList ?m))"
      unfolding distinct_map using dist un identity_inj [OF iok]
      by (simp del: set_append distinct_append)
  qed (use iok un dist in \<open>simp_all add: identity_ok_def del: set_append\<close>)
  moreover have "groups_ok ?m"
    using gok a(2) unfolding groups_ok_def live_groups_def by (auto simp: set)
  moreover have "focus_agrees ?m"
    using fa a(2) unfolding focus_agrees_def live_groups_def by (auto simp: set)
  moreover have "focus_exclusive ?m" using fe by (simp add: focus_exclusive_def)
  ultimately show ?thesis by (simp add: ic_inv_def)
qed

text \<open>The state in which the context is taken apart: out of focus and out of its group.\<close>

definition detached :: "nat \<Rightarrow> manager \<Rightarrow> manager" where
  "detached a m =
     fcitx_input_context_set_focus_group_internal a None (fcitx_input_context_focus_out a m)"

lemma detached_ok:
  assumes inv: "ic_inv m" and a: "a \<in> set (ics m)"
  shows "ic_inv (detached a m)" "same_identity m (detached a m)"
    "group (contexts (detached a m) b) = (if b = a then None else group (contexts m b))"
    "\<not> focused (contexts (detached a m) a)"
proof -
  let ?m1 = "fcitx_input_context_focus_out a m"
  note mem = focus_out_membership [of m a]
  have m1: "ic_inv ?m1" "a \<in> set (ics ?m1)"
    using focus_out_inv [OF inv a] a by (simp_all add: same_membershipD [OF mem])
  show "ic_inv (detached a m)"
    unfolding detached_def using m1 by (intro set_focus_group_internal_inv) auto
  show "same_identity m (detached a m)"
    unfolding detached_def
    using mem set_focus_group_internal_identity by (auto simp: same_membership_def intro: same_identity_trans)
  show "group (contexts (detached a m) b) = (if b = a then None else group (contexts m b))"
    by (simp add: detached_def set_focus_group_internal_group same_membershipD [OF mem])
  show "\<not> focused (contexts (detached a m) a)"
    using focus_out_focused [of m a a] inv a
    by (simp add: detached_def set_focus_group_internal_focused ic_inv_def)
qed

lemma destroy_eq:
  assumes "identity_ok m"
  shows "fcitx_input_context_destroy a m =
    (if a \<notin> set (ics m) then Some m
     else map_option (\<lambda>m. m\<lparr>ics := remove1 a (ics m), ics_by_uuid := remove1 a (ics_by_uuid m),
                            freeList := a # freeList m\<rparr>)
            (fcitx_input_context_destroy_internal a (detached a m)))"
  using get_input_context_iff [OF assms, of "ic_id (contexts m a)" a]
  by (cases "fcitx_input_context_destroy_internal a (detached a m)")
     (auto simp: fcitx_input_context_destroy_def detached_def Let_def)

lemma destroy_inv:
  assumes inv: "ic_inv m" and d: "fcitx_input_context_destroy a m = Some m'"
  shows "ic_inv m' \<and> ics m' = remove1 a (ics m) \<and> live_groups m' = live_groups m \<and>
    (\<forall>b. ic_id (contexts m' b) = ic_id (contexts m b)) \<and> has_callback m' = has_callback m"
proof -
  have iok: "identity_ok m" using inv by (simp add: ic_inv_def)
  show ?thesis
  proof (cases "a \<in> set (ics m)")
    case False
    then show ?thesis using d inv by (simp add: destroy_eq [OF iok] remove1_idem)
  next
    case True
    then obtain x where x: "fcitx_input_context_destroy_internal a (detached a m) = Some x"
      and m': "m' = x\<lparr>ics := remove1 a (ics x), ics_by_uuid := remove1 a (ics_by_uuid x), freeList := a # freeList x\<rparr>"
      using d by (auto simp: destroy_eq [OF iok])
    note det = detached_ok [OF inv True]
    note idn = same_identityD [OF det(2)]
    note fr = destroy_internal_frame [OF x]
    have "ic_inv x" using fr det(1) by blast
    moreover have "a \<in> set (ics x)" using fr True idn by simp
    moreover have "group (contexts x a) = None" using fr det(3) [of a] by simp
    ultimately have "ic_inv m'" unfolding m' by (rule unregister_inv)
    then show ?thesis using fr idn by (simp add: m' live_groups_def)
  qed
qed
end
