(* ===== verification/InputContext_Steps.thy ===== *)
theory InputContext_Steps
  imports InputContext_Focus
begin

text \<open>
  The operations of the input context manager as a step relation, its reachable states, and the
  properties of identity and focus that hold in all of them.
\<close>

section \<open>Operations that do not concern the focus\<close>

definition quiet :: "manager \<Rightarrow> manager \<Rightarrow> bool" where
  "quiet m m' \<longleftrightarrow>
     ics m' = ics m \<and> ics_by_uuid m' = ics_by_uuid m \<and> freeList m' = freeList m \<and>
     groups m' = groups m \<and> globalGroup m' = globalGroup m \<and>
     next_context m' = next_context m \<and> next_group m' = next_group m \<and>
     focus_groups m' = focus_groups m \<and>
     (\<forall>a. ic_id (contexts m' a) = ic_id (contexts m a) \<and> group (contexts m' a) = group (contexts m a) \<and>
          focused (contexts m' a) = focused (contexts m a) \<and> uuid (contexts m' a) = uuid (contexts m a))"

lemma quiet_refl [simp]: "quiet m m"
  by (simp add: quiet_def)

lemma quiet_trans: "quiet m m' \<Longrightarrow> quiet m' m'' \<Longrightarrow> quiet m m''"
  by (simp add: quiet_def)

lemma quiet_inv: "quiet m m' \<Longrightarrow> ic_inv m' = ic_inv m"
  by (simp add: quiet_def ic_inv_def identity_ok_def groups_ok_def focus_agrees_def
      focus_exclusive_def live_groups_def)

lemma quiet_simple [intro, simp]:
  "quiet m (log_call e m)" "quiet m (post e m)"
  "quiet m (upd_ic a (flags_update f1) m)" "quiet m (upd_ic a (rect_update f2) m)"
  "quiet m (upd_ic a (properties_update f3) m)" "quiet m (upd_ic a (surroundingText_update f4) m)"
  "quiet m (upd_ic a (\<lambda>c. c\<lparr>cursor := x, anchor := y\<rparr>) m)"
  "quiet m (upd_ic a (\<lambda>c. c\<lparr>surroundingText := t, cursor := x, anchor := y\<rparr>) m)"
  "quiet m (upd_policy p f5 m)" "quiet m (m\<lparr>heads := hs\<rparr>)"
  "quiet m (m\<lparr>heads := hs, next_head := n\<rparr>)" "quiet m (m\<lparr>policy := pol\<rparr>)"
  by (simp_all add: quiet_def upd_policy_def)

lemma quiet_post: "quiet m m' \<Longrightarrow> quiet m (post e m')"
  by (erule quiet_trans) simp

lemma same_contexts_quiet: "same_contexts m m' \<Longrightarrow> quiet m m'"
  by (simp add: same_contexts_def quiet_def)

lemma put_property_quiet [simp]: "quiet m (put_property a i q m)"
  by (simp add: put_property_def)

lemma quiet_put: "quiet m m' \<Longrightarrow> quiet m (put_property a i q m')"
  by (erule quiet_trans) simp

lemma get_property_entry_quiet:
  "fcitx_input_context_get_property_entry a i m = (q, m') \<Longrightarrow> quiet m m'"
  by (auto simp: fcitx_input_context_get_property_entry_def Let_def split: option.splits
      intro!: quiet_put)

lemma copy_one_quiet: "quiet m (copy_one a s i m)"
  by (auto simp: copy_one_def Let_def split: option.splits prod.splits
      intro: quiet_trans [OF get_property_entry_quiet quiet_trans [OF get_property_entry_quiet put_property_quiet]])

lemma fold_quiet: "(\<And>x m. quiet m (f x m)) \<Longrightarrow> quiet m (fold f xs m)"
proof (induction xs arbitrary: m)
  case (Cons x xs)
  from Cons.prems have "quiet m (f x m)" .
  moreover have "quiet (f x m) (fold f xs (f x m))" using Cons.prems by (rule Cons.IH)
  ultimately show ?case by (simp add: quiet_trans)
qed simp

lemma copy_state_quiet: "quiet m (fcitx_input_context_copy_state a s i m)"
  by (simp add: fcitx_input_context_copy_state_def Let_def fold_quiet copy_one_quiet)

lemma share_state_quiet: "share_state a i m = Some m' \<Longrightarrow> quiet m m'"
  by (auto simp: share_state_def Let_def bind_eq_Some_conv split: option.splits
      intro!: fold_quiet copy_state_quiet)

lemma policy_link_quiet:
  assumes "policy_link a i p m = Some m'" shows "quiet m m'"
proof -
  obtain q where q: "property_at a i m = Some q" using assms by (auto simp: policy_link_def split: option.splits)
  let ?key = "propertyKey (policies m ! p) (prop_data q)"
  show ?thesis
  proof (cases "?key = []")
    case True
    then show ?thesis using assms q by (simp add: policy_link_def)
  next
    case False
    define hm where "hm = (case fcitx_dict_lookup ?key (propertyDict (policies m ! p)) of
        Some h \<Rightarrow> (h, m)
      | None \<Rightarrow> (next_head m,
          upd_policy p (propertyDict_update (\<lambda>d. snd (fcitx_dict_insert ?key (next_head m) False d)))
            (m\<lparr>heads := (heads m)(next_head m := Some []), next_head := next_head m + 1\<rparr>)))"
    have "quiet m (snd hm)"
      by (auto simp: hm_def split: option.split intro: quiet_trans)
    moreover have "quiet (snd hm) m'"
      using assms q False
      by (auto simp: policy_link_def Let_def bind_eq_Some_conv split: prod.splits simp flip: hm_def
          intro!: quiet_put)
    ultimately show ?thesis by (rule quiet_trans)
  qed
qed

lemma set_property_quiet:
  assumes "fcitx_input_context_set_property a pid d m = Some (r, m')" shows "quiet m m'"
proof (cases "pid < 0 \<or> nat pid \<ge> length (propertySlots m)")
  case True
  then show ?thesis using assms by (auto simp: fcitx_input_context_set_property_def)
next
  case False
  let ?i = "nat pid"
  let ?slot = "propertySlots m ! ?i"
  obtain q m1 where e: "fcitx_input_context_get_property_entry a ?i m = (q, m1)" by fastforce
  let ?unlink = "case slot_policy ?slot of None \<Rightarrow> Some m1 | Some p \<Rightarrow> policy_unlink a q (Some p) m1"
  obtain m2 where m2: "?unlink = Some m2"
    using assms False e by (auto simp: fcitx_input_context_set_property_def Let_def bind_eq_Some_conv)
  define q1 where "q1 = (if slot_policy ?slot \<noteq> None then q\<lparr>prop_head := None\<rparr> else q)"
  define q2 where "q2 = q1\<lparr>prop_data := (case setProperty ?slot of Some f \<Rightarrow> f (prop_data q1) d | None \<Rightarrow> d)\<rparr>"
  define m3 where "m3 = put_property a ?i q2 m2"
  obtain m4 where m4: "(case slot_policy ?slot of None \<Rightarrow> Some m3 | Some p \<Rightarrow> policy_link a ?i p m3) = Some m4"
    and m5: "share_state a ?i m4 = Some m'"
    using assms False e m2 unfolding m3_def q2_def q1_def
    by (cases "slot_policy ?slot"; cases "setProperty ?slot")
       (auto simp: fcitx_input_context_set_property_def Let_def bind_eq_Some_conv)
  have "quiet m m1" using e by (rule get_property_entry_quiet)
  moreover have "quiet m1 m2" using m2
    by (auto split: option.splits intro: same_contexts_quiet policy_unlink_frame)
  moreover have "quiet m2 m3" by (simp add: m3_def)
  moreover have "quiet m3 m4" using m4 by (auto split: option.splits intro: policy_link_quiet)
  moreover have "quiet m4 m'" using m5 by (rule share_state_quiet)
  ultimately show ?thesis by (blast intro: quiet_trans)
qed

lemma set_surrounding_quiet: "quiet m (fcitx_input_context_set_surrounding_text a s c n m)"
  by (auto simp: fcitx_input_context_set_surrounding_text_def Let_def split: option.split
      intro!: quiet_post intro: quiet_trans)

lemma delete_surrounding_quiet:
  "fcitx_input_context_delete_surrounding_text a off n m = Some m' \<Longrightarrow> quiet m m'"
  by (auto simp: fcitx_input_context_delete_surrounding_text_def bind_eq_Some_conv split: option.splits
      intro!: quiet_post)

section \<open>Steps\<close>

text \<open>One rule per operation of the interface; a context is passed to it while it is registered, a
  group while it is live.\<close>

inductive ic_step :: "manager \<Rightarrow> manager \<Rightarrow> bool" where
  new: "fcitx_input_context_new fe d u m = (r, m') \<Longrightarrow> ic_step m m'"
| destroy: "fcitx_input_context_destroy a m = Some m' \<Longrightarrow> ic_step m m'"
| focus_in: "a \<in> set (ics m) \<Longrightarrow> ic_step m (fcitx_input_context_focus_in a m)"
| focus_out: "a \<in> set (ics m) \<Longrightarrow> ic_step m (fcitx_input_context_focus_out a m)"
| set_focus_group: "a \<in> set (ics m) \<Longrightarrow> \<forall>h. g = Some h \<longrightarrow> h \<in> set (live_groups m) \<Longrightarrow>
    ic_step m (fcitx_input_context_set_focus_group a type g m)"
| focus_group_new: "fcitx_input_context_focus_group_new m = (g, m') \<Longrightarrow> ic_step m m'"
| focus_group_free: "g \<in> set (groups m) \<Longrightarrow> ic_step m (fcitx_input_context_focus_group_free g m)"
| set_event_dispatcher: "ic_step m (fcitx_input_context_manager_set_event_dispatcher cb dn m)"
| register_property:
    "ic_step m (snd (fcitx_input_context_manager_register_property nm setp copy pd dn m))"
| policy_new: "ic_step m (snd (fcitx_input_context_shared_state_policy_new i key dn m))"
| set_policy: "ic_step m (fcitx_input_context_manager_set_shared_state_policy p m)"
| set_property: "a \<in> set (ics m) \<Longrightarrow> fcitx_input_context_set_property a i d m = Some (r, m') \<Longrightarrow> ic_step m m'"
| set_capability: "a \<in> set (ics m) \<Longrightarrow> ic_step m (fcitx_input_context_set_capability_flags a fl m)"
| set_rect: "a \<in> set (ics m) \<Longrightarrow> ic_step m (fcitx_input_context_set_cursor_rect a rc m)"
| set_surrounding: "a \<in> set (ics m) \<Longrightarrow> ic_step m (fcitx_input_context_set_surrounding_text a s c n m)"
| delete_surrounding: "a \<in> set (ics m) \<Longrightarrow>
    fcitx_input_context_delete_surrounding_text a off len m = Some m' \<Longrightarrow> ic_step m m'"
| reset: "a \<in> set (ics m) \<Longrightarrow> ic_step m (fcitx_input_context_reset a m)"
| key_event: "a \<in> set (ics m) \<Longrightarrow> ic_step m (snd (fcitx_input_context_process_key_event cbk a ke m))"
| forward_key: "a \<in> set (ics m) \<Longrightarrow> ic_step m (fcitx_input_context_forward_key a ke m)"
| commit_string: "a \<in> set (ics m) \<Longrightarrow> ic_step m (fcitx_input_context_commit_string a s' m)"
| update_preedit: "a \<in> set (ics m) \<Longrightarrow> ic_step m (fcitx_input_context_update_preedit a m)"

inductive ic_reachable :: "manager \<Rightarrow> bool" where
  start: "ic_reachable fcitx_input_context_manager_new"
| step: "ic_reachable m \<Longrightarrow> ic_step m m' \<Longrightarrow> ic_reachable m'"

lemma ic_step_inv: "ic_step m m' \<Longrightarrow> ic_inv m \<Longrightarrow> ic_inv m'"
proof (induction rule: ic_step.induct)
  case (new fe d u m r m')
  then show ?case using new_inv by blast
next
  case (destroy a m m')
  then show ?case using destroy_inv by blast
next
  case (focus_group_new m g m')
  then show ?case using group_new_inv by blast
next
  case (set_property a m i d r m')
  then show ?case using quiet_inv set_property_quiet by blast
next
  case (delete_surrounding a m off len m')
  then show ?case using quiet_inv delete_surrounding_quiet by blast
next
  case (set_surrounding a m s c n)
  then show ?case using quiet_inv set_surrounding_quiet by blast
next
  case (set_event_dispatcher m cb dn)
  then show ?case
    by (simp add: fcitx_input_context_manager_set_event_dispatcher_def Let_def ic_inv_def
        identity_ok_def groups_ok_def focus_agrees_def focus_exclusive_def live_groups_def)
next
  case (register_property m nm setp copy pd dn)
  then show ?case
    by (simp add: fcitx_input_context_manager_register_property_def Let_def ic_inv_def
        identity_ok_def groups_ok_def focus_agrees_def focus_exclusive_def live_groups_def)
next
  case (policy_new m i key dn)
  then show ?case
    by (simp add: fcitx_input_context_shared_state_policy_new_def Let_def ic_inv_def
        identity_ok_def groups_ok_def focus_agrees_def focus_exclusive_def live_groups_def)
next
  case (set_policy m p)
  then show ?case
    using quiet_inv [OF quiet_simple(12) [of m "Some p"]]
    by (simp add: fcitx_input_context_manager_set_shared_state_policy_def)
next
  case (set_capability a m fl)
  have "quiet m (fcitx_input_context_set_capability_flags a fl m)"
    by (auto simp: fcitx_input_context_set_capability_flags_def intro: quiet_post)
  with set_capability show ?case by (simp add: quiet_inv)
next
  case (set_rect a m rc)
  have "quiet m (fcitx_input_context_set_cursor_rect a rc m)"
    by (auto simp: fcitx_input_context_set_cursor_rect_def intro: quiet_post)
  with set_rect show ?case by (simp add: quiet_inv)
qed (simp_all add: focus_in_inv focus_out_inv set_focus_group_inv group_free_inv(1)
      quiet_inv [OF quiet_simple(2)]
      fcitx_input_context_reset_def fcitx_input_context_process_key_event_def Let_def
      fcitx_input_context_forward_key_def fcitx_input_context_commit_string_def
      fcitx_input_context_update_preedit_def)

lemma manager_new_inv: "ic_inv fcitx_input_context_manager_new"
  by (simp add: fcitx_input_context_manager_new_def fcitx_input_context_focus_group_new_internal_def
      fcitx_input_context_manager_register_property_def Let_def upd_group_def ic_inv_def
      identity_ok_def groups_ok_def focus_agrees_def focus_exclusive_def live_groups_def)

lemma ic_reachable_inv: "ic_reachable m \<Longrightarrow> ic_inv m"
  by (induction rule: ic_reachable.induct) (auto simp: manager_new_inv intro: ic_step_inv)

end
