(* ===== verification/InputContext_Events.thy ===== *)
theory InputContext_Events
  imports InputContext_Steps
begin

text \<open>
  What callers of the input context manager see in its reachable states: which contexts have the
  focus, the events each operation posts and their order, and the life of a context.
\<close>

section \<open>Identity and focus in every reachable state\<close>

text \<open>C13: in every state the operations of the manager can reach, the ids of the contexts are
  distinct and not 0, looking a context up by its id finds it, a group lists exactly its contexts,
  each once, the focus of a group is its one focused context, and no local group has a focus while
  the global group has one.\<close>

theorem reachable_focus:
  assumes "ic_reachable m"
  shows "distinct (map (\<lambda>a. ic_id (contexts m a)) (ics m)) \<and>
    (\<forall>a \<in> set (ics m). ic_id (contexts m a) \<noteq> 0 \<and>
      fcitx_input_context_manager_get_input_context (ic_id (contexts m a)) m = Some a) \<and>
    (\<forall>g \<in> set (globalGroup m # groups m).
      distinct (inputContexts (focus_groups m g)) \<and>
      set (inputContexts (focus_groups m g)) = {a \<in> set (ics m). group (contexts m a) = Some g} \<and>
      (\<forall>a. focus (focus_groups m g) = Some a \<longleftrightarrow>
        a \<in> set (ics m) \<and> group (contexts m a) = Some g \<and> fcitx_input_context_is_focused a m)) \<and>
    (focus (focus_groups m (globalGroup m)) \<noteq> None \<longrightarrow>
      (\<forall>g \<in> set (groups m). focus (focus_groups m g) = None))"
proof (intro conjI impI)
  have inv: "identity_ok m" "groups_ok m" "focus_agrees m" "focus_exclusive m"
    using ic_reachable_inv [OF assms] by (simp_all add: ic_inv_def)
  show "distinct (map (\<lambda>a. ic_id (contexts m a)) (ics m))" using inv(1) by (simp add: identity_ok_def)
  show "\<forall>a \<in> set (ics m). ic_id (contexts m a) \<noteq> 0 \<and>
      fcitx_input_context_manager_get_input_context (ic_id (contexts m a)) m = Some a"
    using inv(1) get_input_context_iff [OF inv(1)] by (auto simp: identity_ok_def)
  show "\<forall>g \<in> set (globalGroup m # groups m).
      distinct (inputContexts (focus_groups m g)) \<and>
      set (inputContexts (focus_groups m g)) = {a \<in> set (ics m). group (contexts m a) = Some g} \<and>
      (\<forall>a. focus (focus_groups m g) = Some a \<longleftrightarrow>
        a \<in> set (ics m) \<and> group (contexts m a) = Some g \<and> fcitx_input_context_is_focused a m)"
    using inv(2,3) unfolding groups_ok_def focus_agrees_def fcitx_input_context_is_focused_def
      live_groups_def by blast
  show "\<forall>g \<in> set (groups m). focus (focus_groups m g) = None"
    if "focus (focus_groups m (globalGroup m)) \<noteq> None"
    using inv(4) that by (simp add: focus_exclusive_def)
qed

text \<open>Two contexts, the first in the global group and focused, the second in a group of its own.\<close>

definition two_created :: manager where
  "two_created =
     (let m = fcitx_input_context_manager_set_event_dispatcher True False fcitx_input_context_manager_new;
          m = snd (fcitx_input_context_new 1 True (replicate 16 1) m)
      in snd (fcitx_input_context_new 1 True (replicate 16 2) m))"

definition two_contexts :: manager where
  "two_contexts =
     (let m = fcitx_input_context_set_focus_group 0 FICFG_Global None two_created;
          m = snd (fcitx_input_context_focus_group_new m);
          m = fcitx_input_context_set_focus_group 1 FICFG_Local (Some 1) m
      in fcitx_input_context_focus_in 0 m)"

lemmas ic_eval = fcitx_input_context_manager_new_def fcitx_input_context_focus_group_new_internal_def
  fcitx_input_context_focus_group_new_def fcitx_input_context_manager_register_property_def
  fcitx_input_context_manager_set_event_dispatcher_def fcitx_input_context_new_def
  fcitx_input_context_set_focus_group_def fcitx_input_context_set_focus_group_internal_def
  fcitx_input_context_focus_in_def fcitx_input_context_group_set_focus_def
  fcitx_input_context_focus_in_internal_def fcitx_input_context_focus_out_internal_def
  fcitx_input_context_focus_out_def
  fcitx_input_context_manager_get_input_context_def next_icid_def zero_context_def
  upd_ic_def upd_group_def post_def log_call_def Let_def

lemma two_created_fields:
  "ics two_created = [0, 1]" "groups two_created = []" "globalGroup two_created = 0"
  "has_callback two_created" "freeList two_created = []" "next_group two_created = Suc 0"
  "group (contexts two_created a) = None" "\<not> focused (contexts two_created a)"
  "focus_groups two_created g = \<lparr>inputContexts = [], focus = None\<rparr>"
  "ic_id (contexts two_created 0) = 1" "ic_id (contexts two_created (Suc 0)) = 2"
  "properties (contexts two_created a) = []"
  "ic_destroyNotify (contexts two_created 0)" "ic_destroyNotify (contexts two_created (Suc 0))"
  by (simp_all add: two_created_def ic_eval)

lemma ic_reachable_ops:
  assumes "ic_reachable m"
  shows "ic_reachable (snd (fcitx_input_context_new fe d u m))"
    "ic_reachable (snd (fcitx_input_context_focus_group_new m))"
    "ic_reachable (fcitx_input_context_manager_set_event_dispatcher cb dn m)"
    "0 \<in> set (ics m) \<Longrightarrow> ic_reachable (fcitx_input_context_focus_in 0 m)"
    "a \<in> set (ics m) \<Longrightarrow> \<forall>h. g = Some h \<longrightarrow> h \<in> set (live_groups m) \<Longrightarrow>
     ic_reachable (fcitx_input_context_set_focus_group a type g m)"
  using assms
  by (auto intro: ic_reachable.step ic_step.intros surjective_pairing)

lemma set_focus_group_identity: "same_identity m (fcitx_input_context_set_focus_group a type g m)"
  by (simp add: fcitx_input_context_set_focus_group_def set_focus_group_internal_identity)

lemma two_contexts_reachable: "ic_reachable two_contexts"
  unfolding two_contexts_def two_created_def Let_def
  by ((rule ic_reachable_ops)+, rule ic_reachable.start,
      simp_all add: same_identityD [OF set_focus_group_identity])
     (simp_all add: ic_eval live_groups_def)

lemmas two_contexts_eval = two_contexts_def fcitx_input_context_set_focus_group_def
      set_focus_group_internal_eq relocate_def fcitx_input_context_focus_group_new_def
      fcitx_input_context_focus_group_new_internal_def fcitx_input_context_focus_in_def
      fcitx_input_context_group_set_focus_def fcitx_input_context_focus_in_internal_def
      two_created_fields

lemma two_contexts_fields:
  "ics two_contexts = [0, 1]" "groups two_contexts = [1]" "globalGroup two_contexts = 0"
  "has_callback two_contexts" "freeList two_contexts = []"
  "group (contexts two_contexts 0) = Some 0" "group (contexts two_contexts (Suc 0)) = Some (Suc 0)"
  "focused (contexts two_contexts 0)" "\<not> focused (contexts two_contexts (Suc 0))"
  "focus (focus_groups two_contexts 0) = Some 0" "focus (focus_groups two_contexts (Suc 0)) = None"
  "ic_id (contexts two_contexts 0) = 1" "ic_id (contexts two_contexts (Suc 0)) = 2"
  "inputContexts (focus_groups two_contexts 0) = [0]" "inputContexts (focus_groups two_contexts (Suc 0)) = [1]"
  "properties (contexts two_contexts 0) = []" "properties (contexts two_contexts (Suc 0)) = []"
  "ic_destroyNotify (contexts two_contexts 0)" "ic_destroyNotify (contexts two_contexts (Suc 0))"
  by (simp_all add: two_contexts_eval)

theorem reachable_focus_witness:
  "focus (focus_groups two_contexts 0) \<noteq> None \<and>
   fcitx_input_context_manager_get_input_context 2 two_contexts = Some 1 \<and>
   focus (focus_groups two_contexts 1) = None"
  using conjunct1 [OF conjunct2 [OF reachable_focus [OF two_contexts_reachable]]]
    conjunct2 [OF conjunct2 [OF conjunct2 [OF reachable_focus [OF two_contexts_reachable]]]]
  by (auto simp: two_contexts_fields)

section \<open>Which contexts a focus takes the focus from\<close>

text \<open>The contexts that lose the focus when a context gets it, in the order they are told.\<close>

definition group_losers :: "nat list \<Rightarrow> manager \<Rightarrow> nat list" where
  "group_losers gs m = concat (map (\<lambda>g. case focus (focus_groups m g) of Some b \<Rightarrow> [b] | None \<Rightarrow> []) gs)"

definition focus_losers :: "nat \<Rightarrow> manager \<Rightarrow> nat list" where
  "focus_losers a m =
     (case group (contexts m a) of
        None \<Rightarrow> []
      | Some g \<Rightarrow> group_losers (if g = globalGroup m then groups m @ [g] else [globalGroup m, g]) m)"

definition out_event :: "manager \<Rightarrow> nat \<Rightarrow> ic_event" where
  "out_event m b = InputContextFocusOut (ic_id (contexts m b)) b"

definition in_event :: "manager \<Rightarrow> nat \<Rightarrow> ic_event" where
  "in_event m b = InputContextFocusIn (ic_id (contexts m b)) b"

lemma group_set_focus_events:
  "has_callback m \<Longrightarrow>
   events (fcitx_input_context_group_set_focus g x m) =
     events m @ map (out_event m) (group_losers [g] m) @
     (case x of Some a \<Rightarrow> [in_event m a] | None \<Rightarrow> [])"
  by (simp add: fcitx_input_context_group_set_focus_def Let_def group_losers_def out_event_def in_event_def
      fcitx_input_context_focus_in_internal_def fcitx_input_context_focus_out_internal_def
      split: option.split)

lemma same_membership_event:
  "same_membership m m' \<Longrightarrow> out_event m' = out_event m \<and> in_event m' = in_event m"
  by (simp add: out_event_def in_event_def fun_eq_iff same_membershipD)

lemma group_losers_other:
  "g \<notin> set gs \<Longrightarrow> group_losers gs (fcitx_input_context_group_set_focus g x m) = group_losers gs m"
  unfolding group_losers_def group_set_focus_focus by (induction gs) auto

lemma group_losers_append: "group_losers (gs @ hs) m = group_losers gs m @ group_losers hs m"
  by (simp add: group_losers_def)

lemma fold_set_focus_events:
  "has_callback m \<Longrightarrow> distinct gs \<Longrightarrow>
   events (fold (\<lambda>g. fcitx_input_context_group_set_focus g None) gs m) =
     events m @ map (out_event m) (group_losers gs m)"
proof (induction gs arbitrary: m)
  case Nil
  then show ?case by (simp add: group_losers_def)
next
  case (Cons g gs)
  let ?m = "fcitx_input_context_group_set_focus g None m"
  note mem = group_set_focus_membership [of m g None]
  have "events (fold (\<lambda>g. fcitx_input_context_group_set_focus g None) gs ?m) =
      events ?m @ map (out_event ?m) (group_losers gs ?m)"
    using Cons.prems by (intro Cons.IH) (simp_all add: same_membershipD [OF mem])
  then show ?case using Cons.prems group_losers_append [of "[g]" gs m]
    by (simp add: group_set_focus_events group_losers_other same_membership_event [OF mem])
qed

lemma fold_set_focus_focused:
  "distinct gs \<Longrightarrow> focused (contexts (fold (\<lambda>g. fcitx_input_context_group_set_focus g None) gs m) b) =
     (b \<notin> set (group_losers gs m) \<and> focused (contexts m b))"
proof (induction gs arbitrary: m)
  case (Cons g gs)
  then show ?case
    using group_losers_append [of "[g]" gs m]
    by (auto simp: group_losers_other group_set_focus_focused)
       (auto simp: group_losers_def split: option.splits)
qed (simp add: group_losers_def)

lemma focus_in_events:
  assumes cb: "has_callback m" and g: "group (contexts m a) = Some g" and d: "distinct (live_groups m)"
  shows "events (fcitx_input_context_focus_in a m) =
      events m @ map (out_event m) (focus_losers a m) @ [in_event m a]"
    and "focused (contexts (fcitx_input_context_focus_in a m) b) =
      (b = a \<or> focused (contexts m b) \<and> b \<notin> set (focus_losers a m))"
proof -
  let ?gs = "if g = globalGroup m then groups m else [globalGroup m]"
  let ?m = "fold (\<lambda>g. fcitx_input_context_group_set_focus g None) ?gs m"
  note mem = fold_set_focus_membership [of m ?gs]
  have eq: "fcitx_input_context_focus_in a m = fcitx_input_context_group_set_focus g (Some a) ?m"
    using g by (auto simp: focus_in_global focus_in_local)
  have dg: "distinct ?gs" "g \<notin> set ?gs" using d by (auto simp: live_groups_def)
  have los: "focus_losers a m = group_losers ?gs m @ group_losers [g] m"
    using g group_losers_append by (simp add: focus_losers_def flip: group_losers_append)
  have same: "focus (focus_groups ?m g) = focus (focus_groups m g)" "group_losers [g] ?m = group_losers [g] m"
    using dg(2) by (simp_all only: group_losers_def fold_set_focus_focus list.map if_False)
  show "events (fcitx_input_context_focus_in a m) =
      events m @ map (out_event m) (focus_losers a m) @ [in_event m a]"
    unfolding eq los using cb dg same(2)
    by (simp add: group_set_focus_events fold_set_focus_events same_membershipD [OF mem]
        same_membership_event [OF mem] del: fold.simps)
  show "focused (contexts (fcitx_input_context_focus_in a m) b) =
      (b = a \<or> focused (contexts m b) \<and> b \<notin> set (focus_losers a m))"
    unfolding eq los group_set_focus_focused same(1) fold_set_focus_focused [OF dg(1)]
    by (auto simp: group_losers_def split: option.split)
qed

text \<open>C14: giving a context the focus takes it from exactly the contexts that share its reach: for the
  global group all local groups and then the global one, for a local group the global one and then
  its own.  They are told in this order, then the context is told it has the focus (a context that
  already had it is told that it lost it first).  A context in no group is told only when it did not
  have the focus, and nobody loses it.\<close>

theorem focus_in_effect:
  assumes "ic_reachable m" and "a \<in> set (ics m)" and "has_callback m"
  shows "events (fcitx_input_context_focus_in a m) =
      events m @ map (out_event m) (focus_losers a m) @
      (if group (contexts m a) = None \<and> fcitx_input_context_is_focused a m then [] else [in_event m a]) \<and>
    (\<forall>b. fcitx_input_context_is_focused b (fcitx_input_context_focus_in a m) =
      (b = a \<or> fcitx_input_context_is_focused b m \<and> b \<notin> set (focus_losers a m)))"
proof -
  have d: "distinct (live_groups m)"
    using ic_reachable_inv [OF assms(1)] by (simp add: ic_inv_def groups_ok_def)
  show ?thesis
    unfolding fcitx_input_context_is_focused_def
  proof (cases "group (contexts m a)")
    case None
    then show "events (fcitx_input_context_focus_in a m) =
      events m @ map (out_event m) (focus_losers a m) @
      (if group (contexts m a) = None \<and> focused (contexts m a) then [] else [in_event m a]) \<and>
    (\<forall>b. focused (contexts (fcitx_input_context_focus_in a m) b) =
      (b = a \<or> focused (contexts m b) \<and> b \<notin> set (focus_losers a m)))"
      using assms(3)
      by (auto simp: focus_in_alone focus_losers_def in_event_def fcitx_input_context_focus_in_internal_def)
  next
    case (Some g)
    then show "events (fcitx_input_context_focus_in a m) =
      events m @ map (out_event m) (focus_losers a m) @
      (if group (contexts m a) = None \<and> focused (contexts m a) then [] else [in_event m a]) \<and>
    (\<forall>b. focused (contexts (fcitx_input_context_focus_in a m) b) =
      (b = a \<or> focused (contexts m b) \<and> b \<notin> set (focus_losers a m)))"
      using focus_in_events [OF assms(3) Some d] by auto
  qed
qed

theorem focus_in_effect_witness:
  "events (fcitx_input_context_focus_in 1 two_contexts) =
     events two_contexts @ [InputContextFocusOut 1 0, InputContextFocusIn 2 1] \<and>
   \<not> fcitx_input_context_is_focused 0 (fcitx_input_context_focus_in 1 two_contexts)"
  using focus_in_effect [OF two_contexts_reachable, of 1]
  by (simp add: two_contexts_fields focus_losers_def group_losers_def out_event_def in_event_def)

section \<open>The life of a context\<close>

lemma focus_out_events:
  assumes inv: "ic_inv m" and a: "a \<in> set (ics m)"
  shows "events (fcitx_input_context_focus_out a m) = events m @
      (if has_callback m \<and> focused (contexts m a) then [out_event m a] else [])"
proof (cases "group (contexts m a)")
  case None
  then show ?thesis
    by (simp add: fcitx_input_context_focus_out_def fcitx_input_context_focus_out_internal_def out_event_def)
next
  case (Some g)
  then have "focus (focus_groups m g) = Some a \<longleftrightarrow> focused (contexts m a)"
    using inv a by (auto simp: ic_inv_def groups_ok_def focus_agrees_def)
  then show ?thesis using Some
    by (cases "focused (contexts m a)")
       (simp_all add: fcitx_input_context_focus_out_def fcitx_input_context_group_set_focus_def Let_def
        fcitx_input_context_focus_out_internal_def out_event_def)
qed

lemma detached_events:
  assumes inv: "ic_inv m" and a: "a \<in> set (ics m)"
  shows "events (detached a m) = events m @
      (if has_callback m \<and> focused (contexts m a) then [out_event m a] else [])"
proof -
  let ?m = "fcitx_input_context_focus_out a m"
  have "\<not> focused (contexts ?m a)" using focus_out_focused [of m a a] inv a by (simp add: ic_inv_def)
  moreover have "events (relocate a None ?m) = events ?m"
    by (simp add: relocate_def Let_def split: option.split)
  ultimately show ?thesis
    by (simp add: detached_def set_focus_group_internal_eq focus_out_events [OF inv a])
qed

text \<open>Creating a context answers a number that is not in use and an id that no registered context
  has; the context is found by that id, starts without group, focus and properties, and only the
  creation is announced.  Creation fails only when no context is free for reuse and the next id of the
  counter is taken, and then changes the counter alone.\<close>

theorem new_context:
  assumes "ic_reachable m" and "fcitx_input_context_new fe d u m = (r, m')"
  shows "case r of
      Some a \<Rightarrow> a \<notin> set (ics m) \<and> ics m' = ics m @ [a] \<and>
        fcitx_input_context_manager_get_input_context (ic_id (contexts m' a)) m = None \<and>
        fcitx_input_context_manager_get_input_context (ic_id (contexts m' a)) m' = Some a \<and>
        group (contexts m' a) = None \<and> \<not> fcitx_input_context_is_focused a m' \<and>
        properties (contexts m' a) = [] \<and> uuid (contexts m' a) = u \<and>
        events m' = events m @
          (if has_callback m then [InputContextCreated (ic_id (contexts m' a)) a] else [])
    | None \<Rightarrow> m' = m\<lparr>icid := next_icid (icid m)\<rparr> \<and> freeList m = [] \<and>
        fcitx_input_context_manager_get_input_context (next_icid (icid m)) m \<noteq> None"
proof -
  have inv: "ic_inv m" using assms(1) by (rule ic_reachable_inv)
  note new = new_inv [OF inv assms(2)]
  show ?thesis
  proof (cases r)
    case None
    then have f: "freeList m = []" using new by simp
    have l: "fcitx_input_context_manager_get_input_context (next_icid (icid m)) m \<noteq> None"
      using assms(2) None new_fresh [OF f, of fe d u]
      by (cases "fcitx_input_context_manager_get_input_context (next_icid (icid m)) m") auto
    then show ?thesis using assms(2) new_taken [OF f] None f by auto
  next
    case (Some a)
    have "identity_ok m'" using new by (simp add: ic_inv_def)
    then have "fcitx_input_context_manager_get_input_context (ic_id (contexts m' a)) m' = Some a"
      using new Some by (simp add: get_input_context_iff)
    moreover have "events m' = events m @
          (if has_callback m then [InputContextCreated (ic_id (contexts m' a)) a] else [])"
    proof (cases "freeList m")
      case Nil
      then show ?thesis using assms(2) Some new_fresh [OF Nil, of fe d u] new_taken [OF Nil, of _ fe d u]
        by (cases "fcitx_input_context_manager_get_input_context (next_icid (icid m)) m")
           (auto simp: zero_context_def)
    next
      case (Cons b rest)
      then show ?thesis using assms(2) Some new_reuse [OF Cons, of fe d u] by (auto simp: zero_context_def)
    qed
    ultimately show ?thesis using new Some by (simp add: fcitx_input_context_is_focused_def)
  qed
qed

lemma two_contexts_icid: "icid two_contexts = 2" "next_context two_contexts = 2"
proof -
  have "icid two_created = 2" "next_context two_created = 2"
    by (simp_all add: two_created_def ic_eval)
  then show "icid two_contexts = 2" "next_context two_contexts = 2"
    by (simp_all add: two_contexts_eval)
qed

theorem new_context_witness:
  "fcitx_input_context_manager_get_input_context 3
     (snd (fcitx_input_context_new 7 False (replicate 16 3) two_contexts)) = Some 2"
proof -
  have new: "fst (fcitx_input_context_new 7 False (replicate 16 3) two_contexts) = Some 2 \<and>
      ic_id (contexts (snd (fcitx_input_context_new 7 False (replicate 16 3) two_contexts)) 2) = 3"
    by (simp add: fcitx_input_context_new_def two_contexts_fields two_contexts_icid Let_def next_icid_def
        fcitx_input_context_manager_get_input_context_def zero_context_def)
  show ?thesis
    using new_context [OF two_contexts_reachable surjective_pairing, of 7 False "replicate 16 3"] new by simp
qed

lemma destroy_events:
  assumes inv: "ic_inv m" and a: "a \<in> set (ics m)" and d: "fcitx_input_context_destroy a m = Some m'"
  shows "\<exists>es. events m' = events m @
        (if has_callback m then
           (if focused (contexts m a) then [InputContextFocusOut (ic_id (contexts m a)) a] else []) @
           [InputContextDestroyed (ic_id (contexts m a)) a] else []) @
        (if ic_destroyNotify (contexts m a) then [CallDestroyNotify a] else []) @ es \<and>
      (\<forall>e \<in> set es. \<exists>i v. e = CallPropertyDestroy i v)"
    and "propertySlots m' = propertySlots m"
proof -
  obtain x where x: "fcitx_input_context_destroy_internal a (detached a m) = Some x"
    and m': "events m' = events x" "propertySlots m' = propertySlots x"
    using inv a d by (auto simp: destroy_eq ic_inv_def)
  note det = detached_ok [OF inv a]
  note idn = same_identityD [OF det(2)]
  note fr = destroy_internal_frame [OF x]
  show "propertySlots m' = propertySlots m" using fr det(2) m' by (simp add: same_identity_def)
  have dn: "ic_destroyNotify (contexts (detached a m) a) = ic_destroyNotify (contexts m a)"
    using det(2) by (simp add: same_identity_def)
  obtain es where "events x = events (detached a m) @
      (if has_callback m then [InputContextDestroyed (ic_id (contexts m a)) a] else [])
      @ (if ic_destroyNotify (contexts m a) then [CallDestroyNotify a] else []) @ es"
    "\<forall>e \<in> set es. \<exists>i v. e = CallPropertyDestroy i v"
    using fr dn idn by auto
  then show "\<exists>es. events m' = events m @
        (if has_callback m then
           (if focused (contexts m a) then [InputContextFocusOut (ic_id (contexts m a)) a] else []) @
           [InputContextDestroyed (ic_id (contexts m a)) a] else []) @
        (if ic_destroyNotify (contexts m a) then [CallDestroyNotify a] else []) @ es \<and>
      (\<forall>e \<in> set es. \<exists>i v. e = CallPropertyDestroy i v)"
    by (intro exI [of _ es]) (auto simp: m' detached_events [OF inv a] out_event_def)
qed

text \<open>Destroying a registered context takes its focus and then announces the destruction, calls
  the destroy function of its owner and those of its properties; afterwards its id finds nothing, it
  is in no group, every other context keeps its id and group, destroying it again does nothing, and
  the next context created takes over its number and its id.\<close>

theorem destroy_context:
  assumes "ic_reachable m" and "a \<in> set (ics m)" and "fcitx_input_context_destroy a m = Some m'"
  shows "ics m' = remove1 a (ics m) \<and>
    fcitx_input_context_manager_get_input_context (ic_id (contexts m a)) m' = None \<and>
    (\<forall>b \<in> set (ics m'). ic_id (contexts m' b) = ic_id (contexts m b) \<and>
      group (contexts m' b) = group (contexts m b)) \<and>
    fcitx_input_context_destroy a m' = Some m' \<and>
    fst (fcitx_input_context_new fe d u m') = Some a \<and>
    (\<exists>es. events m' = events m @
        (if has_callback m then
           (if fcitx_input_context_is_focused a m then [InputContextFocusOut (ic_id (contexts m a)) a] else []) @
           [InputContextDestroyed (ic_id (contexts m a)) a] else []) @
        (if ic_destroyNotify (contexts m a) then [CallDestroyNotify a] else []) @ es \<and>
      (\<forall>e \<in> set es. \<exists>i v. e = CallPropertyDestroy i v))"
proof (intro conjI)
  have inv: "ic_inv m" using assms(1) by (rule ic_reachable_inv)
  have iok: "identity_ok m" using inv by (simp add: ic_inv_def)
  note dst = destroy_inv [OF inv assms(3)]
  have iok': "identity_ok m'" using dst by (simp add: ic_inv_def)
  obtain x where x: "fcitx_input_context_destroy_internal a (detached a m) = Some x"
    and m': "m' = x\<lparr>ics := remove1 a (ics x), ics_by_uuid := remove1 a (ics_by_uuid x), freeList := a # freeList x\<rparr>"
    using assms(2,3) by (auto simp: destroy_eq [OF iok])
  note det = detached_ok [OF inv assms(2)]
  note idn = same_identityD [OF det(2)]
  note fr = destroy_internal_frame [OF x]
  show ics: "ics m' = remove1 a (ics m)" using dst by simp
  have d: "distinct (ics m)" using iok by (simp add: identity_ok_def)
  have gone: "a \<notin> set (ics m')" using d by (simp add: ics)
  show "fcitx_input_context_destroy a m' = Some m'" using gone by (simp add: destroy_eq [OF iok'])
  show "fcitx_input_context_manager_get_input_context (ic_id (contexts m a)) m' = None"
  proof (rule ccontr)
    assume "\<not> ?thesis"
    then obtain b where b: "b \<in> set (ics m')" "ic_id (contexts m' b) = ic_id (contexts m a)"
      using get_input_context_iff [OF iok'] by auto
    then have "b = a" using dst ics assms(2) inj_onD [OF identity_inj [OF iok], of b a]
        set_remove1_subset [of a "ics m"]
      by auto
    with b gone show False by simp
  qed
  show "\<forall>b \<in> set (ics m'). ic_id (contexts m' b) = ic_id (contexts m b) \<and>
      group (contexts m' b) = group (contexts m b)"
    using gone fr idn det(3) by (auto simp: m')
  show "fst (fcitx_input_context_new fe d u m') = Some a"
    using new_reuse [of m' a "freeList x" fe d u] by (simp add: m')
  show "\<exists>es. events m' = events m @
        (if has_callback m then
           (if fcitx_input_context_is_focused a m then [InputContextFocusOut (ic_id (contexts m a)) a] else []) @
           [InputContextDestroyed (ic_id (contexts m a)) a] else []) @
        (if ic_destroyNotify (contexts m a) then [CallDestroyNotify a] else []) @ es \<and>
      (\<forall>e \<in> set es. \<exists>i v. e = CallPropertyDestroy i v)"
    unfolding fcitx_input_context_is_focused_def by (rule destroy_events(1) [OF inv assms(2,3)])
qed

theorem destroy_context_witness:
  "\<exists>m'. fcitx_input_context_destroy 0 two_contexts = Some m' \<and>
     fcitx_input_context_manager_get_input_context 1 m' = None \<and>
     fst (fcitx_input_context_new 1 False (replicate 16 4) m') = Some 0 \<and>
     (\<exists>es. events m' = events two_contexts @
        [InputContextFocusOut 1 0, InputContextDestroyed 1 0, CallDestroyNotify 0] @ es)"
proof -
  have inv: "ic_inv two_contexts" using two_contexts_reachable by (rule ic_reachable_inv)
  have "properties (contexts (detached 0 two_contexts) 0) = []"
    using detached_ok(2) [OF inv, of 0] by (simp add: two_contexts_fields same_identity_def)
  then obtain m' where m': "fcitx_input_context_destroy 0 two_contexts = Some m'"
    using inv by (auto simp: destroy_eq ic_inv_def two_contexts_fields fcitx_input_context_destroy_internal_def Let_def)
  have "0 \<in> set (ics two_contexts)" by (simp add: two_contexts_fields)
  note d = destroy_context [OF two_contexts_reachable this m', where fe = 1 and d = False and u = "replicate 16 4"]
  obtain es where "events m' = events two_contexts @
      [InputContextFocusOut 1 0, InputContextDestroyed 1 0, CallDestroyNotify 0] @ es"
    using d by (auto simp: two_contexts_fields fcitx_input_context_is_focused_def)
  then show ?thesis using d m' by (auto simp: two_contexts_fields)
qed

section \<open>Surrounding text\<close>

lemma utf8_append: "utf8 (cs @ ds) = utf8 cs @ utf8 ds"
  by (simp add: utf8_def)

lemma utf8_split: "utf8 cs = utf8 (take n cs) @ utf8 (drop n cs)"
  by (simp flip: utf8_append)

lemma cursor_offset:
  assumes "p = uint (cur :: u32) + off" and "- (2 ^ 31) \<le> p" and "p < 2 ^ 31"
  shows "sint (cur + of_int off) = p"
proof -
  have "cur + of_int off = of_int p" by (simp add: assms(1))
  then have "sint (cur + of_int off) = signed_take_bit 31 p" by (simp only: sint_sbintrunc') simp
  then show ?thesis using assms(2,3) by (simp add: signed_take_bit_int_eq_self)
qed

lemma delete_from_utf8:
  assumes cp: "\<forall>c \<in> set cs. valid_cp c" and n: "length cs < 2 ^ 63"
    and p: "p = uint cur + off" "- (2 ^ 31) \<le> p" "p < 2 ^ 31"
  shows "delete_from_text (utf8 cs) cur off len = Some
    (if 0 \<le> p \<and> int (length cs) < p then (utf8 cs, of_int p)
     else if 0 \<le> p \<and> p + uint len \<le> int (length cs)
     then (utf8 (take (nat p) cs @ drop (nat (p + uint len)) cs), of_int p)
     else ([], 0))"
proof -
  have len: "uint len < 2 ^ 32" using uint_lt2p [of len] by simp
  have wrap: "(int (length cs) - p) mod 2 ^ 64 =
      (if int (length cs) < p then 2 ^ 64 + (int (length cs) - p) else int (length cs) - p)" if "0 \<le> p"
  proof (cases "int (length cs) < p")
    case True
    have "(int (length cs) - p) mod 2 ^ 64 = (int (length cs) - p + 2 ^ 64) mod 2 ^ 64" by simp
    also have "\<dots> = int (length cs) - p + 2 ^ 64" using True p(3) by (intro mod_pos_pos_trivial) simp_all
    finally show ?thesis using True by simp
  next
    case False
    then show ?thesis using that n by (simp add: mod_pos_pos_trivial)
  qed
  have drop_utf8: "drop (length (utf8 (take i cs))) (utf8 cs) = utf8 (drop i cs)"
    "take (length (utf8 (take i cs))) (utf8 cs) = utf8 (take i cs)" for i
    by (simp_all add: utf8_split [of cs i])
  have cut: "drop (length (utf8 (take i cs)) + length (utf8 (take k (drop i cs)))) (utf8 cs) =
      utf8 (drop (i + k) cs)" for i k
  proof -
    have "drop (length (utf8 (take i cs)) + length (utf8 (take k (drop i cs)))) (utf8 cs) =
        drop (length (utf8 (take k (drop i cs)))) (utf8 (drop i cs))"
      by (subst add.commute) (simp add: drop_utf8 flip: drop_drop)
    also have "\<dots> = utf8 (drop (i + k) cs)"
      using utf8_split [of "drop i cs" k] by (simp add: add.commute)
    finally show ?thesis .
  qed
  have at: "fcitx_utf8_get_nth_char (utf8 (drop j cs)) i = Some (length (utf8 (take i (drop j cs))))" for i j
    using cp by (intro nth_char_utf8) (auto dest: in_set_dropD)
  note at0 = at [of 0, simplified]
  have nil: "fcitx_utf8_get_nth_char [] i = Some 0" for i by (cases i) (simp_all add: at_nul_def)
  note eval = nil delete_from_text_def Let_def cursor_offset [OF p] strlen_utf8 [OF cp] at0 at drop_utf8 cut
  consider (neg) "p < 0" | (past) "0 \<le> p" "int (length cs) < p"
    | (ok) "0 \<le> p" "p + uint len \<le> int (length cs)"
    | (short) "0 \<le> p" "p \<le> int (length cs)" "int (length cs) < p + uint len" by linarith
  then show ?thesis
  proof cases
    case neg
    then show ?thesis by (simp add: eval)
  next
    case past
    then have "nat p \<ge> length cs" by simp
    then have "take (nat p) cs = cs" "drop (nat p) cs = []" by simp_all
    moreover have "(int (length cs) - p) mod 2 ^ 64 \<ge> uint len" using past wrap len p(3) by simp
    ultimately show ?thesis using past
      by (simp add: nil delete_from_text_def cursor_offset [OF p] strlen_utf8 [OF cp] at0)
  next
    case ok
    have n: "nat (p + uint len) = nat p + unat len" by (simp only: nat_add_distrib [OF ok(1) uint_ge_0] nat_uint_eq)
    have "\<not> int (length cs) < p" using ok uint_ge_0 [of len] by linarith
    then show ?thesis using ok wrap by (simp add: eval n utf8_append)
  next
    case short
    then show ?thesis using wrap by (simp add: eval)
  qed
qed

text \<open>C16: deleting surrounding text removes exactly the asked characters of the text, counted from the
  cursor, and moves the cursor and the anchor to where they were; when the range begins before the
  text or ends behind it the whole text is cleared, except that a range that begins behind the text
  deletes nothing and leaves the cursor there, outside of the text.  The input method is told in every
  case, and no other context changes.\<close>

theorem delete_surrounding_effect:
  assumes "surroundingText (contexts m a) = Some (utf8 cs)" and "\<forall>c \<in> set cs. valid_cp c"
    and "length cs < 2 ^ 63" and "p = uint (cursor (contexts m a)) + off"
    and "- (2 ^ 31) \<le> p" and "p < 2 ^ 31"
  shows "\<exists>m'. fcitx_input_context_delete_surrounding_text a off len m = Some m' \<and>
    surroundingText (contexts m' a) = Some (utf8
      (if 0 \<le> p \<and> p + uint len \<le> int (length cs) then take (nat p) cs @ drop (nat (p + uint len)) cs
       else if int (length cs) < p then cs else [])) \<and>
    uint (cursor (contexts m' a)) = (if 0 \<le> p \<and> (p + uint len \<le> int (length cs) \<or> int (length cs) < p) then p else 0) \<and>
    anchor (contexts m' a) = cursor (contexts m' a) \<and> (\<forall>b. b \<noteq> a \<longrightarrow> contexts m' b = contexts m b) \<and>
    events m' = events m @ (if has_callback m
      then [InputContextDeleteSurroundingText (ic_id (contexts m a)) a off len] else [])"
proof -
  have up: "uint (of_int p :: u32) = p" if "0 \<le> p"
    using that assms(6) by (simp add: uint_word_of_int_eq take_bit_int_eq_self)
  have neg: "\<not> int (length cs) < p" if "p + uint len \<le> int (length cs)"
    using that uint_ge_0 [of len] by linarith
  show ?thesis
    using delete_from_utf8 [OF assms(2-6), of len] assms(1) up neg
    by (auto simp: fcitx_input_context_delete_surrounding_text_def)
qed

text \<open>The surrounding text a client sets is what is read back, with its cursor and anchor, on a
  context that supports it; the listener is told, as if the context had got the focus, exactly when
  something changed.\<close>

theorem set_surrounding_effect:
  assumes "flags (contexts m a) AND CAPABILITY_SURROUNDING_TEXT \<noteq> 0" and "c_string s"
    and "\<forall>t. surroundingText (contexts m a) = Some t \<longrightarrow> c_string t"
    and "m' = fcitx_input_context_set_surrounding_text a (Some s) cur anc m"
  shows "fcitx_input_context_get_surrounding_text a m' = Some (s, cur, anc) \<and>
    events m' = events m @
      (if has_callback m \<and> fcitx_input_context_get_surrounding_text a m \<noteq> Some (s, cur, anc)
       then [InputContextFocusIn (ic_id (contexts m a)) a] else []) \<and>
    fcitx_input_context_is_focused b m' = fcitx_input_context_is_focused b m"
  using assms
  by (cases "surroundingText (contexts m a)";
      auto simp: fcitx_input_context_set_surrounding_text_def fcitx_input_context_get_surrounding_text_def
        fcitx_utils_string_swap_def fcitx_input_context_is_focused_def Let_def)

lemma two_contexts_flags:
  "flags (contexts two_contexts 0) = 0" "surroundingText (contexts two_contexts 0) = None"
proof -
  have "flags (contexts two_created 0) = 0" "surroundingText (contexts two_created 0) = None"
    by (simp_all add: two_created_def ic_eval)
  then show "flags (contexts two_contexts 0) = 0" "surroundingText (contexts two_contexts 0) = None"
    by (simp_all add: two_contexts_eval)
qed

definition text_context :: manager where
  "text_context =
     (let m = fcitx_input_context_set_capability_flags 0 CAPABILITY_SURROUNDING_TEXT two_contexts
      in fcitx_input_context_set_surrounding_text 0 (Some (utf8 [0x61, 0xE9, 0x62, 0x63])) 1 1 m)"

lemma text_context_fields:
  "surroundingText (contexts text_context 0) = Some (utf8 [0x61, 0xE9, 0x62, 0x63])"
  "cursor (contexts text_context 0) = 1" "has_callback text_context" "ic_id (contexts text_context 0) = 1"
  "flags (contexts text_context 0) = CAPABILITY_SURROUNDING_TEXT" "anchor (contexts text_context 0) = 1"
  using two_contexts_fields
  by (simp_all add: text_context_def fcitx_input_context_set_capability_flags_def two_contexts_flags
      CAPABILITY_SURROUNDING_TEXT_def fcitx_input_context_set_surrounding_text_def
      fcitx_utils_string_swap_def Let_def del: utf8_simps)

theorem delete_surrounding_effect_witness:
  "\<exists>m'. fcitx_input_context_delete_surrounding_text 0 0 2 text_context = Some m' \<and>
    surroundingText (contexts m' 0) = Some (utf8 [0x61, 0x63]) \<and> uint (cursor (contexts m' 0)) = 1"
  using delete_surrounding_effect [OF text_context_fields(1), of 1 0 2]
  by (auto simp: text_context_fields valid_cp_def UNICODE_VALID_def)

theorem set_surrounding_effect_witness:
  "let m' = fcitx_input_context_set_surrounding_text 0 (Some [0x61]) 1 0 text_context in
   fcitx_input_context_get_surrounding_text 0 m' = Some ([0x61], 1, 0) \<and>
   events m' = events text_context @ [InputContextFocusIn 1 0]"
proof -
  have "c_string (utf8 [0x61, 0xE9, 0x62, 0x63])" unfolding c_string_def by code_simp
  then have "\<forall>t. surroundingText (contexts text_context 0) = Some t \<longrightarrow> c_string t"
    by (simp add: text_context_fields del: utf8_simps)
  moreover have "flags (contexts text_context 0) AND CAPABILITY_SURROUNDING_TEXT \<noteq> 0"
    by (simp add: text_context_fields CAPABILITY_SURROUNDING_TEXT_def)
  moreover have "fcitx_input_context_get_surrounding_text 0 text_context \<noteq> Some ([0x61], 1, 0)"
    by (simp add: text_context_fields fcitx_input_context_get_surrounding_text_def Let_def)
  ultimately show ?thesis
    using set_surrounding_effect [OF _ _ _ refl, of text_context 0 "[0x61]" 1 0]
    by (simp add: text_context_fields Let_def c_string_def)
qed

end
