(* ===== verification/InputContext_Policy.thy ===== *)
theory InputContext_Policy
  imports InputContext_Events
begin

text \<open>
  The shared state policies of the input context manager: every linked property is in the list its
  policy keeps for its key, so unlinking never follows a dangling list head, and a manager can always
  be taken down.
\<close>

section \<open>Links\<close>

text \<open>\<open>lk a i\<close> is the list the property \<open>i\<close> of the context \<open>a\<close> is in, with its key.\<close>

type_synonym link_table = "nat \<Rightarrow> nat \<Rightarrow> (nat \<times> cstr) option"

definition entry :: "manager \<Rightarrow> nat \<Rightarrow> cstr \<Rightarrow> nat option" where
  "entry m p k = fcitx_dict_lookup k (propertyDict (policies m ! p))"

definition slots_ok :: "manager \<Rightarrow> bool" where
  "slots_ok m \<longleftrightarrow>
     (\<forall>i < length (propertySlots m). \<forall>p. slot_policy (propertySlots m ! i) = Some p \<longrightarrow>
        p < length (policies m) \<and> policy_property (policies m ! p) = i) \<and>
     (\<forall>p < length (policies m). policy_property (policies m ! p) < length (propertySlots m) \<and>
        slot_policy (propertySlots m ! policy_property (policies m ! p)) = Some p \<and>
        dict_ok (propertyDict (policies m ! p)))"

definition links_listed :: "manager \<Rightarrow> link_table \<Rightarrow> bool" where
  "links_listed m lk \<longleftrightarrow>
     (\<forall>a i h k. lk a i = Some (h, k) \<longrightarrow> i < length (propertySlots m) \<and> k \<noteq> [] \<and>
        (\<exists>p. slot_policy (propertySlots m ! i) = Some p \<and> entry m p k = Some h) \<and>
        (\<exists>xs. heads m h = Some xs \<and> a \<in> set xs))"

definition lists_linked :: "manager \<Rightarrow> link_table \<Rightarrow> bool" where
  "lists_linked m lk \<longleftrightarrow>
     (\<forall>p < length (policies m). \<forall>k h. entry m p k = Some h \<longrightarrow> h < next_head m \<and>
        (\<exists>xs. heads m h = Some xs \<and> xs \<noteq> [] \<and> distinct xs \<and>
           (\<forall>a \<in> set xs. lk a (policy_property (policies m ! p)) = Some (h, k))))"

definition lists_unshared :: "manager \<Rightarrow> bool" where
  "lists_unshared m \<longleftrightarrow>
     (\<forall>p < length (policies m). \<forall>p' < length (policies m). \<forall>k k' h.
        entry m p k = Some h \<longrightarrow> entry m p' k' = Some h \<longrightarrow> p = p')"

definition links_ok :: "manager \<Rightarrow> link_table \<Rightarrow> bool" where
  "links_ok m lk \<longleftrightarrow> slots_ok m \<and> links_listed m lk \<and> lists_linked m lk \<and> lists_unshared m"

definition relink :: "nat \<Rightarrow> nat \<Rightarrow> (nat \<times> cstr) option \<Rightarrow> link_table \<Rightarrow> link_table" where
  "relink a i x lk = (\<lambda>b j. if b = a \<and> j = i then x else lk b j)"

lemma slots_okD:
  assumes "slots_ok m"
  shows "i < length (propertySlots m) \<Longrightarrow> slot_policy (propertySlots m ! i) = Some p \<Longrightarrow>
      p < length (policies m) \<and> policy_property (policies m ! p) = i"
    and "p < length (policies m) \<Longrightarrow> policy_property (policies m ! p) < length (propertySlots m) \<and>
        slot_policy (propertySlots m ! policy_property (policies m ! p)) = Some p \<and>
        dict_ok (propertyDict (policies m ! p))"
  using assms by (auto simp: slots_ok_def)

lemma links_listedD:
  assumes "links_listed m lk" and "lk a i = Some (h, k)"
  obtains p xs where "i < length (propertySlots m)" "k \<noteq> []" "slot_policy (propertySlots m ! i) = Some p"
    "entry m p k = Some h" "heads m h = Some xs" "a \<in> set xs"
  using assms unfolding links_listed_def by blast

lemma lists_linkedD:
  assumes "lists_linked m lk" and "p < length (policies m)" and "entry m p k = Some h"
  obtains xs where "h < next_head m" "heads m h = Some xs" "xs \<noteq> []" "distinct xs"
    "\<forall>a \<in> set xs. lk a (policy_property (policies m ! p)) = Some (h, k)"
  using assms unfolding lists_linked_def by blast

lemma lists_unsharedD:
  "lists_unshared m \<Longrightarrow> p < length (policies m) \<Longrightarrow> p' < length (policies m) \<Longrightarrow>
   entry m p k = Some h \<Longrightarrow> entry m p' k' = Some h \<Longrightarrow> p = p'"
  by (auto simp: lists_unshared_def)

text \<open>A list belongs to one policy and one key.\<close>

lemma entry_unique:
  assumes "links_ok m lk" "p < length (policies m)" "p' < length (policies m)"
    and "entry m p k = Some h" "entry m p' k' = Some h"
  shows "p' = p \<and> k' = k"
proof -
  have lok: "lists_linked m lk" "lists_unshared m" using assms(1) by (simp_all add: links_ok_def)
  have p: "p' = p" using lists_unsharedD [OF lok(2) assms(3,2,5,4)] .
  obtain xs where xs: "h < next_head m" "heads m h = Some xs" "xs \<noteq> []" "distinct xs"
    "\<forall>a \<in> set xs. lk a (policy_property (policies m ! p)) = Some (h, k)"
    using lists_linkedD [OF lok(1) assms(2,4)] .
  obtain ys where ys: "h < next_head m" "heads m h = Some ys" "ys \<noteq> []" "distinct ys"
    "\<forall>a \<in> set ys. lk a (policy_property (policies m ! p')) = Some (h, k')"
    using lists_linkedD [OF lok(1) assms(3,5)] .
  have hd: "hd xs \<in> set xs" "hd xs \<in> set ys" using xs(2,3) ys(2) by simp_all
  have "lk (hd xs) (policy_property (policies m ! p)) = Some (h, k')" using bspec [OF ys(5) hd(2)] p by simp
  with bspec [OF xs(5) hd(1)] p show ?thesis by simp
qed

lemma dict_remove_look:
  assumes "dict_ok d"
  shows "\<exists>b d'. fcitx_dict_remove k False d = Some (b, None, d') \<and> dict_ok d' \<and>
    (\<forall>j. fcitx_dict_lookup j d' = (if j = k then None else fcitx_dict_lookup j d))"
proof (cases "HASH_FIND k d")
  case None
  then show ?thesis using assms by (auto simp: fcitx_dict_remove_def fcitx_dict_lookup_def)
next
  case (Some v)
  from remove_ok [OF assms this, of False] show ?thesis
    by (auto simp: fcitx_dict_lookup_def HASH_FIND_def AList.delete_conv')
qed

lemma entry_upd_policy:
  "p < length (policies m) \<Longrightarrow>
   entry (upd_policy p f m) p' k = fcitx_dict_lookup k (propertyDict (if p' = p then f (policies m ! p) else policies m ! p'))"
  by (simp add: entry_def upd_policy_def)

section \<open>Unlinking and linking\<close>

lemma links_unlink_ok:
  assumes ok: "links_ok m lk" and l: "lk a i = Some (h, k)" and sp: "slot_policy (propertySlots m ! i) = Some p"
    and q: "prop_head q = Some h" "propertyKey (policies m ! p) (prop_data q) = k"
  shows "\<exists>m'. policy_unlink a q (Some p) m = Some m' \<and> links_ok m' (relink a i None lk) \<and>
    length (policies m') = length (policies m) \<and>
    (\<forall>p. propertyKey (policies m' ! p) = propertyKey (policies m ! p))"
proof -
  have sok: "slots_ok m" and ll: "links_listed m lk" and el: "lists_linked m lk" and un: "lists_unshared m"
    using ok by (simp_all add: links_ok_def)
  obtain p' xs where i: "i < length (propertySlots m)" "k \<noteq> []" "slot_policy (propertySlots m ! i) = Some p'"
    and e': "entry m p' k = Some h" and xs: "heads m h = Some xs" "a \<in> set xs"
    using links_listedD [OF ll l] .
  have p: "p < length (policies m)" "policy_property (policies m ! p) = i" and e: "entry m p k = Some h"
    using slots_okD(1) [OF sok i(1) sp] e' i(3) sp by simp_all
  have mem: "distinct xs" using lists_linkedD [OF el p(1) e] xs(1) by (metis option.inject)
  have only: "p' = p \<and> k' = k" if "p' < length (policies m)" "entry m p' k' = Some h" for p' k'
    using entry_unique [OF ok p(1) that(1) e that(2)] .
  let ?m1 = "m\<lparr>heads := (heads m)(h := Some (remove1 a xs))\<rparr>"
  have e1: "entry ?m1 p' k' = entry m p' k'" for p' k' by (simp add: entry_def)
  show ?thesis
  proof (cases "remove1 a xs = []")
    case False
    have "links_listed ?m1 (relink a i None lk)"
      unfolding links_listed_def
    proof (intro allI impI)
      fix b j h' k' assume "relink a i None lk b j = Some (h', k')"
      then have ne: "b \<noteq> a \<or> j \<noteq> i" and lb: "lk b j = Some (h', k')" by (auto simp: relink_def split: if_splits)
      obtain p' ys where j: "j < length (propertySlots m)" "k' \<noteq> []" "slot_policy (propertySlots m ! j) = Some p'"
        "entry m p' k' = Some h'" "heads m h' = Some ys" "b \<in> set ys" using links_listedD [OF ll lb] .
      have "b \<noteq> a" if "h' = h"
        using only [of p' k'] slots_okD(1) [OF sok j(1,3)] j(4) p(2) ne that by auto
      then have "\<exists>xs'. heads ?m1 h' = Some xs' \<and> b \<in> set xs'"
        using j(5,6) xs(1) by (cases "h' = h") auto
      then show "j < length (propertySlots ?m1) \<and> k' \<noteq> [] \<and>
          (\<exists>p. slot_policy (propertySlots ?m1 ! j) = Some p \<and> entry ?m1 p k' = Some h') \<and>
          (\<exists>xs. heads ?m1 h' = Some xs \<and> b \<in> set xs)"
        using j by (simp add: e1)
    qed
    moreover have "lists_linked ?m1 (relink a i None lk)"
      unfolding lists_linked_def e1
    proof (intro allI impI conjI)
      fix p' k' h' assume p': "p' < length (policies ?m1)" "entry m p' k' = Some h'"
      then have p'': "p' < length (policies m)" by simp
      obtain ys where ys: "h' < next_head m" "heads m h' = Some ys" "ys \<noteq> []" "distinct ys"
        "\<forall>b \<in> set ys. lk b (policy_property (policies m ! p')) = Some (h', k')"
        using lists_linkedD [OF el p'' p'(2)] .
      show "h' < next_head ?m1" using ys(1) by simp
      have keep: "b \<noteq> a \<or> policy_property (policies m ! p') \<noteq> i" if "b \<in> set ys" "h' \<noteq> h" for b
        using bspec [OF ys(5) that(1)] that(2) l by auto
      show "\<exists>xs. heads ?m1 h' = Some xs \<and> xs \<noteq> [] \<and> distinct xs \<and>
          (\<forall>b \<in> set xs. relink a i None lk b (policy_property (policies ?m1 ! p')) = Some (h', k'))"
      proof (cases "h' = h")
        case True
        then show ?thesis using False ys(2,5) xs(1) mem by (auto simp: relink_def)
      next
        case nh: False
        then show ?thesis using ys keep by (auto simp: relink_def)
      qed
    qed
    moreover have "slots_ok ?m1" "lists_unshared ?m1" using sok un by (simp_all add: slots_ok_def lists_unshared_def e1)
    ultimately show ?thesis using q xs False
      by (simp add: policy_unlink_def links_ok_def)
  next
    case True
    then have xs_a: "xs = [a]" using xs(2) by (cases xs) (auto split: if_splits)
    obtain b d' where d': "fcitx_dict_remove k False (propertyDict (policies m ! p)) = Some (b, None, d')"
      "dict_ok d'" "\<And>j. fcitx_dict_lookup j d' = (if j = k then None else entry m p j)"
      using dict_remove_look slots_okD(2) [OF sok p(1)] unfolding entry_def by blast
    let ?m2 = "(upd_policy p (propertyDict_update (\<lambda>_. d')) ?m1)\<lparr>heads := (heads m)(h := None)\<rparr>"
    have lk: "fcitx_dict_lookup k (propertyDict (policies m ! p)) = Some h" using e by (simp add: entry_def)
    have res: "policy_unlink a q (Some p) m = Some ?m2"
      using q xs True d'(1) lk
      by (simp add: policy_unlink_def policy_remove_key_def Let_def upd_policy_def)
    have e2: "entry ?m2 p' k' = (if p' = p \<and> k' = k then None else entry m p' k')" for p' k'
      using p(1) d'(3) by (auto simp: entry_def upd_policy_def nth_list_update)
    have other: "h' \<noteq> h" if "p' < length (policies m)" "entry ?m2 p' k' = Some h'" for p' k' h'
      using that only [of p' k'] by (auto simp: e2 split: if_splits)
    have pol: "policy_property (policies ?m2 ! p') = policy_property (policies m ! p')"
      "length (policies ?m2) = length (policies m)" "propertySlots ?m2 = propertySlots m"
      "propertyKey (policies ?m2 ! p') = propertyKey (policies m ! p')"
      "propertyDict (policies ?m2 ! p') = (if p' = p then d' else propertyDict (policies m ! p'))" for p'
      using p(1) by (auto simp: upd_policy_def nth_list_update)
    have "links_listed ?m2 (relink a i None lk)"
      unfolding links_listed_def
    proof (intro allI impI)
      fix b j h' k' assume "relink a i None lk b j = Some (h', k')"
      then have ne: "b \<noteq> a \<or> j \<noteq> i" and lb: "lk b j = Some (h', k')" by (auto simp: relink_def split: if_splits)
      obtain p' ys where j: "j < length (propertySlots m)" "k' \<noteq> []" "slot_policy (propertySlots m ! j) = Some p'"
        "entry m p' k' = Some h'" "heads m h' = Some ys" "b \<in> set ys" using links_listedD [OF ll lb] .
      have p': "p' < length (policies m)" "policy_property (policies m ! p') = j"
        using slots_okD(1) [OF sok j(1,3)] by simp_all
      have "h' \<noteq> h"
      proof
        assume "h' = h"
        then have "p' = p" "b = a" using only [OF p'(1)] j(4-6) xs(1) xs_a by auto
        then show False using p' p(2) ne by simp
      qed
      then have "\<not> (p' = p \<and> k' = k)" using j(4) e by auto
      then show "j < length (propertySlots ?m2) \<and> k' \<noteq> [] \<and>
          (\<exists>p. slot_policy (propertySlots ?m2 ! j) = Some p \<and> entry ?m2 p k' = Some h') \<and>
          (\<exists>xs. heads ?m2 h' = Some xs \<and> b \<in> set xs)"
        using j \<open>h' \<noteq> h\<close> unfolding e2 pol by auto
    qed
    moreover have "lists_linked ?m2 (relink a i None lk)"
      unfolding lists_linked_def
    proof (intro allI impI)
      fix p' k' h' assume p': "p' < length (policies ?m2)" "entry ?m2 p' k' = Some h'"
      have p'': "p' < length (policies m)" using p'(1) unfolding pol .
      have em: "entry m p' k' = Some h'" using p'(2) unfolding e2 by (auto split: if_splits)
      obtain ys where ys: "h' < next_head m" "heads m h' = Some ys" "ys \<noteq> []" "distinct ys"
        "\<forall>b \<in> set ys. lk b (policy_property (policies m ! p')) = Some (h', k')"
        using lists_linkedD [OF el p'' em] .
      have nh: "h' \<noteq> h" using other [OF p'' p'(2)] .
      have "relink a i None lk b (policy_property (policies m ! p')) = Some (h', k')" if "b \<in> set ys" for b
        using bspec [OF ys(5) that] l nh by (auto simp: relink_def)
      then show "h' < next_head ?m2 \<and> (\<exists>xs. heads ?m2 h' = Some xs \<and> xs \<noteq> [] \<and> distinct xs \<and>
          (\<forall>a' \<in> set xs. relink a i None lk a' (policy_property (policies ?m2 ! p')) = Some (h', k')))"
        unfolding pol using ys nh by (simp add: upd_policy_def)
    qed
    moreover have "slots_ok ?m2"
      using sok d'(2) unfolding slots_ok_def pol by simp
    moreover have "lists_unshared ?m2"
      unfolding lists_unshared_def pol
    proof (intro allI impI)
      fix p1 p2 k1 k2 h'
      assume a: "p1 < length (policies m)" "p2 < length (policies m)"
        "entry ?m2 p1 k1 = Some h'" "entry ?m2 p2 k2 = Some h'"
      have "entry m p1 k1 = Some h'" "entry m p2 k2 = Some h'"
        using a(3,4) unfolding e2 by (auto split: if_splits)
      then show "p1 = p2" using lists_unsharedD [OF un a(1,2)] by blast
    qed
    ultimately show ?thesis using res pol unfolding links_ok_def by auto
  qed
qed

lemma links_link_ok:
  assumes ok: "links_ok m lk" and l: "lk a i = None" and i: "i < length (propertySlots m)"
    and sp: "slot_policy (propertySlots m ! i) = Some p" and q: "property_at a i m = Some q"
    and k: "k = propertyKey (policies m ! p) (prop_data q)" "k \<noteq> []"
  shows "\<exists>m' h. policy_link a i p m = Some m' \<and> links_ok m' (relink a i (Some (h, k)) lk) \<and>
    contexts m' = contexts (put_property a i (q\<lparr>prop_head := Some h\<rparr>) m) \<and>
    length (policies m') = length (policies m) \<and>
    (\<forall>p. propertyKey (policies m' ! p) = propertyKey (policies m ! p))"
proof -
  have sok: "slots_ok m" and ll: "links_listed m lk" and el: "lists_linked m lk" and un: "lists_unshared m"
    using ok by (simp_all add: links_ok_def)
  have p: "p < length (policies m)" "policy_property (policies m ! p) = i"
    using slots_okD(1) [OF sok i sp] by simp_all
  have dok: "dict_ok (propertyDict (policies m ! p))" using slots_okD(2) [OF sok p(1)] by simp
  show ?thesis
  proof (cases "entry m p k")
    case (Some h)
    obtain xs where xs: "h < next_head m" "heads m h = Some xs" "xs \<noteq> []" "distinct xs"
      "\<forall>b \<in> set xs. lk b (policy_property (policies m ! p)) = Some (h, k)"
      using lists_linkedD [OF el p(1) Some] .
    have a: "a \<notin> set xs" using xs(5) l p(2) by auto
    let ?m1 = "put_property a i (q\<lparr>prop_head := Some h\<rparr>) (m\<lparr>heads := (heads m)(h := Some (xs @ [a]))\<rparr>)"
    have res: "policy_link a i p m = Some ?m1"
      using q k xs(2) Some by (simp add: policy_link_def entry_def Let_def)
    have e1: "entry ?m1 p' k' = entry m p' k'" for p' k' by (simp add: entry_def put_property_def)
    have f: "policies ?m1 = policies m" "propertySlots ?m1 = propertySlots m" "next_head ?m1 = next_head m"
      "heads ?m1 = (heads m)(h := Some (xs @ [a]))" by (simp_all add: put_property_def)
    have "links_listed ?m1 (relink a i (Some (h, k)) lk)"
      unfolding links_listed_def f e1
    proof (intro allI impI)
      fix b j h' k' assume r: "relink a i (Some (h, k)) lk b j = Some (h', k')"
      show "j < length (propertySlots m) \<and> k' \<noteq> [] \<and>
          (\<exists>p. slot_policy (propertySlots m ! j) = Some p \<and> entry m p k' = Some h') \<and>
          (\<exists>ys. ((heads m)(h := Some (xs @ [a]))) h' = Some ys \<and> b \<in> set ys)"
      proof (cases "b = a \<and> j = i")
        case True
        then show ?thesis using r i k(2) sp Some by (auto simp: relink_def)
      next
        case False
        then have lb: "lk b j = Some (h', k')" using r by (auto simp: relink_def split: if_splits)
        obtain p' ys where "j < length (propertySlots m)" "k' \<noteq> []" "slot_policy (propertySlots m ! j) = Some p'"
          "entry m p' k' = Some h'" "heads m h' = Some ys" "b \<in> set ys" using links_listedD [OF ll lb] .
        then show ?thesis using xs(2) by auto
      qed
    qed
    moreover have "lists_linked ?m1 (relink a i (Some (h, k)) lk)"
      unfolding lists_linked_def f e1
    proof (intro allI impI)
      fix p' k' h' assume p': "p' < length (policies m)" "entry m p' k' = Some h'"
      obtain ys where ys: "h' < next_head m" "heads m h' = Some ys" "ys \<noteq> []" "distinct ys"
        "\<forall>b \<in> set ys. lk b (policy_property (policies m ! p')) = Some (h', k')"
        using lists_linkedD [OF el p'] .
      have keep: "relink a i (Some (h, k)) lk b (policy_property (policies m ! p')) = Some (h', k')"
        if "b \<in> set ys" for b
        using bspec [OF ys(5) that] l by (auto simp: relink_def)
      show "h' < next_head m \<and> (\<exists>xs'. ((heads m)(h := Some (xs @ [a]))) h' = Some xs' \<and> xs' \<noteq> [] \<and>
          distinct xs' \<and> (\<forall>b \<in> set xs'. relink a i (Some (h, k)) lk b (policy_property (policies m ! p')) = Some (h', k')))"
      proof (cases "h' = h")
        case True
        then have "p' = p \<and> k' = k" using entry_unique [OF ok p(1) p'(1) Some] p'(2) by simp
        then show ?thesis using True ys keep a xs p by (auto simp: relink_def)
      qed (use ys keep in auto)
    qed
    moreover have "slots_ok ?m1" "lists_unshared ?m1"
      using sok un unfolding slots_ok_def lists_unshared_def f e1 by simp_all
    moreover have "contexts ?m1 = contexts (put_property a i (q\<lparr>prop_head := Some h\<rparr>) m)"
      by (simp add: put_property_def)
    ultimately show ?thesis using res f(1) unfolding links_ok_def by (intro exI [of _ ?m1] exI [of _ h]) simp
  next
    case None
    let ?h = "next_head m"
    let ?d = "snd (fcitx_dict_insert k ?h False (propertyDict (policies m ! p)))"
    let ?m0 = "upd_policy p (propertyDict_update (\<lambda>d. snd (fcitx_dict_insert k ?h False d)))
        (m\<lparr>heads := (heads m)(?h := Some []), next_head := ?h + 1\<rparr>)"
    let ?m1 = "put_property a i (q\<lparr>prop_head := Some ?h\<rparr>) (?m0\<lparr>heads := (heads m)(?h := Some [a])\<rparr>)"
    have res: "policy_link a i p m = Some ?m1"
      using q k None by (simp add: policy_link_def entry_def Let_def upd_policy_def put_property_def upd_ic_def)
    have look: "fcitx_dict_lookup k (propertyDict (policies m ! p)) = None" using None by (simp add: entry_def)
    note ins = insert_ok [OF dok, of k ?h False]
    have f: "policy_property (policies ?m1 ! p') = policy_property (policies m ! p')"
      "length (policies ?m1) = length (policies m)" "propertySlots ?m1 = propertySlots m"
      "propertyKey (policies ?m1 ! p') = propertyKey (policies m ! p')"
      "propertyDict (policies ?m1 ! p') = (if p' = p then ?d else propertyDict (policies m ! p'))"
      "next_head ?m1 = ?h + 1" "heads ?m1 = (heads m)(?h := Some [a])" for p'
      using p(1) by (auto simp: put_property_def upd_policy_def nth_list_update)
    have e1: "entry ?m1 p' k' = (if p' = p \<and> k' = k then Some ?h else entry m p' k')" for p' k'
      using ins look unfolding entry_def f by (auto simp: entry_def)
    have fresh: "h' < ?h" if "p' < length (policies m)" "entry m p' k' = Some h'" for p' k' h'
      using lists_linkedD [OF el that] by blast
    have freshl: "h' < ?h" if "lk b j = Some (h', k')" for b j h' k'
      using links_listedD [OF ll that] fresh slots_okD(1) [OF sok] by metis
    have "links_listed ?m1 (relink a i (Some (?h, k)) lk)"
      unfolding links_listed_def f e1
    proof (intro allI impI)
      fix b j h' k' assume r: "relink a i (Some (?h, k)) lk b j = Some (h', k')"
      show "j < length (propertySlots m) \<and> k' \<noteq> [] \<and>
          (\<exists>p'. slot_policy (propertySlots m ! j) = Some p' \<and>
             (if p' = p \<and> k' = k then Some ?h else entry m p' k') = Some h') \<and>
          (\<exists>ys. ((heads m)(?h := Some [a])) h' = Some ys \<and> b \<in> set ys)"
      proof (cases "b = a \<and> j = i")
        case True
        then show ?thesis using r i k(2) sp by (auto simp: relink_def)
      next
        case False
        then have lb: "lk b j = Some (h', k')" using r by (auto simp: relink_def split: if_splits)
        obtain p' ys where "j < length (propertySlots m)" "k' \<noteq> []" "slot_policy (propertySlots m ! j) = Some p'"
          "entry m p' k' = Some h'" "heads m h' = Some ys" "b \<in> set ys" using links_listedD [OF ll lb] .
        moreover have "h' \<noteq> ?h" using freshl [OF lb] by simp
        ultimately show ?thesis using None by auto
      qed
    qed
    moreover have "lists_linked ?m1 (relink a i (Some (?h, k)) lk)"
      unfolding lists_linked_def f e1
    proof (intro allI impI)
      fix p' k' h' assume p': "p' < length (policies m)"
        and e: "(if p' = p \<and> k' = k then Some ?h else entry m p' k') = Some h'"
      show "h' < ?h + 1 \<and> (\<exists>xs. ((heads m)(?h := Some [a])) h' = Some xs \<and> xs \<noteq> [] \<and> distinct xs \<and>
          (\<forall>b \<in> set xs. relink a i (Some (?h, k)) lk b (policy_property (policies m ! p')) = Some (h', k')))"
      proof (cases "p' = p \<and> k' = k")
        case True
        then show ?thesis using e p by (auto simp: relink_def)
      next
        case False
        then have em: "entry m p' k' = Some h'" using e by (auto split: if_splits)
        obtain ys where ys: "h' < next_head m" "heads m h' = Some ys" "ys \<noteq> []" "distinct ys"
          "\<forall>b \<in> set ys. lk b (policy_property (policies m ! p')) = Some (h', k')"
          using lists_linkedD [OF el p' em] .
        have "relink a i (Some (?h, k)) lk b (policy_property (policies m ! p')) = Some (h', k')"
          if "b \<in> set ys" for b
          using bspec [OF ys(5) that] l by (auto simp: relink_def)
        then show ?thesis using ys by auto
      qed
    qed
    moreover have "slots_ok ?m1"
      using sok ins unfolding slots_ok_def f by simp
    moreover have "lists_unshared ?m1"
      unfolding lists_unshared_def f
    proof (intro allI impI)
      fix p1 p2 k1 k2 h'
      assume x: "p1 < length (policies m)" "p2 < length (policies m)"
        "entry ?m1 p1 k1 = Some h'" "entry ?m1 p2 k2 = Some h'"
      show "p1 = p2"
        using x(3,4) fresh [OF x(1)] fresh [OF x(2)] lists_unsharedD [OF un x(1,2)]
        unfolding e1 by (auto split: if_splits)
    qed
    moreover have "contexts ?m1 = contexts (put_property a i (q\<lparr>prop_head := Some ?h\<rparr>) m)"
      by (simp add: put_property_def upd_policy_def)
    ultimately show ?thesis using res f(2,4) unfolding links_ok_def
      by (intro exI [of _ ?m1] exI [of _ ?h]) simp
  qed
qed

section \<open>The links of a state\<close>

definition prop_link :: "manager \<Rightarrow> nat \<Rightarrow> ic_property option \<Rightarrow> (nat \<times> cstr) option" where
  "prop_link m i x =
     (case x of None \<Rightarrow> None
      | Some q \<Rightarrow> map_option (\<lambda>h. (h, case slot_policy (propertySlots m ! i) of
            Some p \<Rightarrow> propertyKey (policies m ! p) (prop_data q) | None \<Rightarrow> [])) (prop_head q))"

definition link_of :: "manager \<Rightarrow> link_table" where
  "link_of m = (\<lambda>a i. if a \<in> set (ics m) then prop_link m i (property_at a i m) else None)"

definition props_ok :: "manager \<Rightarrow> bool" where
  "props_ok m \<longleftrightarrow> links_ok m (link_of m) \<and>
     (\<forall>a \<in> set (ics m). length (properties (contexts m a)) \<le> length (propertySlots m))"

text \<open>No property that has a policy is copied between contexts.\<close>

definition shared_uncopied :: "manager \<Rightarrow> bool" where
  "shared_uncopied m \<longleftrightarrow>
     (\<forall>i < length (propertySlots m). slot_policy (propertySlots m ! i) \<noteq> None \<longrightarrow>
        copyProperty (propertySlots m ! i) = None)"

definition same_links :: "manager \<Rightarrow> manager \<Rightarrow> bool" where
  "same_links m m' \<longleftrightarrow> propertySlots m' = propertySlots m \<and> policies m' = policies m \<and>
     heads m' = heads m \<and> next_head m' = next_head m"

lemma same_links_ok: "same_links m m' \<Longrightarrow> links_ok m' lk = links_ok m lk"
  by (simp add: same_links_def links_ok_def slots_ok_def links_listed_def lists_linked_def
      lists_unshared_def entry_def)

lemma prop_link_simps [simp]:
  "prop_link m i None = None"
  "prop_head q = None \<Longrightarrow> prop_link m i (Some q) = None"
  "prop_head q = Some h \<Longrightarrow> slot_policy (propertySlots m ! i) = Some p \<Longrightarrow>
   prop_link m i (Some q) = Some (h, propertyKey (policies m ! p) (prop_data q))"
  by (simp_all add: prop_link_def)

lemma prop_link_None: "prop_link m i x = None \<longleftrightarrow> (\<forall>q. x = Some q \<longrightarrow> prop_head q = None)"
  by (auto simp: prop_link_def split: option.split)

lemma prop_link_keys:
  assumes "slot_policy (propertySlots m' ! i) = slot_policy (propertySlots m ! i)"
    and "\<And>p. slot_policy (propertySlots m ! i) = Some p \<Longrightarrow>
      propertyKey (policies m' ! p) = propertyKey (policies m ! p)"
  shows "prop_link m' i x = prop_link m i x"
  using assms by (cases x; cases "slot_policy (propertySlots m ! i)") (simp_all add: prop_link_def)

lemma same_links_prop: "same_links m m' \<Longrightarrow> prop_link m' i x = prop_link m i x"
  by (rule prop_link_keys) (simp_all add: same_links_def)

lemma props_frame:
  assumes "same_links m m'" and "ics m' = ics m"
    and "\<And>a. a \<in> set (ics m) \<Longrightarrow> properties (contexts m' a) = properties (contexts m a)"
  shows "props_ok m' = props_ok m"
proof -
  have "link_of m' = link_of m"
    using assms by (auto simp: link_of_def same_links_prop [OF assms(1)] property_at_def fun_eq_iff)
  then show ?thesis
    using assms same_links_ok [OF assms(1)] by (simp add: props_ok_def same_links_def)
qed

lemma identity_props: "same_identity m m' \<Longrightarrow> props_ok m' = props_ok m"
  by (rule props_frame) (simp_all add: same_identity_def same_links_def)

lemma link_shared:
  assumes "links_ok m lk" "lk a i \<noteq> None"
  shows "slot_policy (propertySlots m ! i) \<noteq> None" "i < length (propertySlots m)"
proof -
  obtain h k where "lk a i = Some (h, k)" using assms(2) by auto
  moreover have "links_listed m lk" using assms(1) by (simp add: links_ok_def)
  ultimately show "slot_policy (propertySlots m ! i) \<noteq> None" "i < length (propertySlots m)"
    by (auto elim: links_listedD)
qed

section \<open>Entries and copies\<close>

lemma property_at_put:
  "property_at b j (put_property a i q m) =
   (if b = a \<and> j = i \<and> i < length (properties (contexts m a)) then Some q else property_at b j m)"
  by (auto simp: property_at_def put_property_def)

lemma property_at_pad:
  "property_at b j (upd_ic a (properties_update (\<lambda>ps. ps @ replicate n None)) m) = property_at b j m"
  by (auto simp: property_at_def nth_append)

lemma put_property_fields [simp]:
  "ics (put_property a i q m) = ics m" "propertySlots (put_property a i q m) = propertySlots m"
  "policies (put_property a i q m) = policies m" "policy (put_property a i q m) = policy m"
  "length (properties (contexts (put_property a i q m) b)) = length (properties (contexts m b))"
  "same_links m (put_property a i q m)"
  by (auto simp: put_property_def same_links_def)

lemma get_entry_ok:
  assumes "fcitx_input_context_get_property_entry a i m = (q, m1)"
  shows "ics m1 = ics m" "same_links m m1" "policy m1 = policy m" "i < length (properties (contexts m1 a))"
    "property_at a i m1 = Some q" "property_at a i m = Some q \<or> property_at a i m = None \<and> prop_head q = None"
    "(b, j) \<noteq> (a, i) \<Longrightarrow> property_at b j m1 = property_at b j m"
    "length (properties (contexts m1 b)) =
      (if b = a then max (i + 1) (length (properties (contexts m b))) else length (properties (contexts m b)))"
proof -
  let ?m0 = "upd_ic a (properties_update (\<lambda>ps. ps @ replicate (i + 1 - length ps) None)) m"
  have at: "property_at b j ?m0 = property_at b j m" for b j
    by (auto simp: property_at_def nth_append)
  have len: "length (properties (contexts ?m0 b)) =
      (if b = a then max (i + 1) (length (properties (contexts m b))) else length (properties (contexts m b)))" for b
    by auto
  have frame: "ics ?m0 = ics m" "same_links m ?m0" "policy ?m0 = policy m" by (simp_all add: same_links_def)
  have q: "property_at a i m = Some q \<and> m1 = ?m0 \<or>
      property_at a i m = None \<and> prop_head q = None \<and> m1 = put_property a i q ?m0"
    using assms unfolding fcitx_input_context_get_property_entry_def Let_def at
    by (cases "property_at a i m") (simp_all, auto)
  have tr: "same_links m (put_property a i q ?m0)"
    using put_property_fields(6) [of ?m0 a i q] by (simp add: same_links_def)
  show "ics m1 = ics m" "same_links m m1" "policy m1 = policy m" using q frame tr by auto
  show "length (properties (contexts m1 b)) =
      (if b = a then max (i + 1) (length (properties (contexts m b))) else length (properties (contexts m b)))" for b
    using q len [of b] by auto
  then show "i < length (properties (contexts m1 a))" by simp
  show "property_at a i m1 = Some q" using q at len [of a] by (auto simp: property_at_put simp del: upd_ic_fields)
  show "property_at a i m = Some q \<or> property_at a i m = None \<and> prop_head q = None" using q by blast
  show "property_at b j m1 = property_at b j m" if "(b, j) \<noteq> (a, i)"
    using q at that by (auto simp: property_at_put simp del: upd_ic_fields)
qed

lemma get_entry_links:
  assumes "fcitx_input_context_get_property_entry a i m = (q, m1)"
  shows "link_of m1 = link_of m"
proof -
  note e = get_entry_ok [OF assms]
  have "prop_link m j (property_at b j m1) = prop_link m j (property_at b j m)" for b j
  proof (cases "b = a \<and> j = i")
    case True
    then show ?thesis using e(5,6) by auto
  qed (use e(7) in auto)
  then show ?thesis
    by (simp add: link_of_def e(1) same_links_prop [OF e(2)] fun_eq_iff)
qed

section \<open>Operations on properties\<close>

lemma uncopied_None:
  assumes "props_ok m" "shared_uncopied m" "i < length (propertySlots m)"
    and "copyProperty (propertySlots m ! i) \<noteq> None" "a \<in> set (ics m)" "property_at a i m = Some q"
  shows "prop_head q = None"
proof -
  have "slot_policy (propertySlots m ! i) = None" using assms(2-4) by (auto simp: shared_uncopied_def)
  then have "link_of m a i = None"
    using link_shared(1) [of m "link_of m" a i] assms(1) unfolding props_ok_def by blast
  then show ?thesis using assms(5,6) by (simp add: link_of_def prop_link_None)
qed

lemma same_links_uncopied: "same_links m m' \<Longrightarrow> shared_uncopied m' = shared_uncopied m"
  by (simp add: same_links_def shared_uncopied_def)

lemma same_links_trans: "same_links m m' \<Longrightarrow> same_links m' m'' \<Longrightarrow> same_links m m''"
  by (simp add: same_links_def)

lemma get_entry_props:
  assumes "props_ok m" "fcitx_input_context_get_property_entry a i m = (q, m1)"
    and "i < length (propertySlots m)"
  shows "props_ok m1"
proof -
  note e = get_entry_ok [OF assms(2)]
  have "links_ok m1 (link_of m1)"
    using assms(1) by (simp add: get_entry_links [OF assms(2)] same_links_ok [OF e(2)] props_ok_def)
  moreover have "propertySlots m1 = propertySlots m" using e(2) by (simp add: same_links_def)
  ultimately show ?thesis using assms(1,3) by (auto simp: props_ok_def e(1,8))
qed

text \<open>What a copy keeps.\<close>

definition copy_frame :: "manager \<Rightarrow> manager \<Rightarrow> bool" where
  "copy_frame m m' \<longleftrightarrow> ics m' = ics m \<and> same_links m m' \<and> policy m' = policy m \<and>
     (props_ok m \<longrightarrow> props_ok m') \<and> (\<forall>b j. property_at b j m' = None \<longrightarrow> property_at b j m = None)"

lemma copy_frame_refl [simp]: "copy_frame m m"
  by (simp add: copy_frame_def same_links_def)

lemma copy_frame_trans: "copy_frame m m' \<Longrightarrow> copy_frame m' m'' \<Longrightarrow> copy_frame m m''"
  using same_links_trans [of m m' m''] by (simp add: copy_frame_def)

lemma put_data_frame:
  assumes "property_at a i m = Some q" "prop_head q = None" "prop_head q' = None"
  shows "copy_frame m (put_property a i q' m)"
proof -
  have "prop_link m j (property_at b j (put_property a i q' m)) = prop_link m j (property_at b j m)" for b j
    using assms by (auto simp: property_at_put)
  then have "link_of (put_property a i q' m) = link_of m"
    by (simp add: link_of_def fun_eq_iff same_links_prop [OF put_property_fields(6)])
  then show ?thesis
    by (simp add: copy_frame_def props_ok_def same_links_ok [OF put_property_fields(6)] property_at_put)
qed

lemma copy_one_frame:
  assumes un: "shared_uncopied m" and i: "i < length (propertySlots m)" and a: "a \<in> set (ics m)"
    and ok: "props_ok m"
  shows "copy_frame m (copy_one a s i m)"
proof (cases "copyProperty (propertySlots m ! i)")
  case None
  then show ?thesis by (simp add: copy_one_def)
next
  case (Some f)
  obtain sq m1 where e1: "fcitx_input_context_get_property_entry s i m = (sq, m1)" by fastforce
  obtain q m2 where e2: "fcitx_input_context_get_property_entry a i m1 = (q, m2)" by fastforce
  note g1 = get_entry_ok [OF e1] and g2 = get_entry_ok [OF e2]
  have sl: "same_links m m2" using g1(2) g2(2) by (rule same_links_trans)
  have s1: "propertySlots m1 = propertySlots m" using g1(2) by (simp add: same_links_def)
  have s2: "propertySlots m2 = propertySlots m" using sl by (simp add: same_links_def)
  have ok2: "props_ok m2" using get_entry_props [OF get_entry_props [OF ok e1 i] e2] i s1 by simp
  have "prop_head q = None"
    by (rule uncopied_None [OF ok2 _ _ _ _ g2(5)])
       (use un i a Some same_links_uncopied [OF sl] in \<open>simp_all add: s2 g1(1) g2(1)\<close>)
  then have "copy_frame m2 (put_property a i (q\<lparr>prop_data := f (prop_data q) (prop_data sq)\<rparr>) m2)"
    using g2(5) by (intro put_data_frame) simp_all
  moreover have "property_at b j m = None" if "property_at b j m2 = None" for b j
    using that g1(5) g1(7) [of b j] g2(5) g2(7) [of b j] by (cases "(b, j) = (s, i)"; cases "(b, j) = (a, i)") auto
  then have "copy_frame m m2" using ok2 sl by (simp add: copy_frame_def g1(1,3) g2(1,3))
  ultimately show ?thesis using Some e1 e2 by (simp add: copy_one_def copy_frame_trans)
qed

lemma fold_copy_frame:
  assumes "\<And>x m. P m \<Longrightarrow> x \<in> set xs \<Longrightarrow> copy_frame m (f x m)"
    and "\<And>m m'. P m \<Longrightarrow> copy_frame m m' \<Longrightarrow> P m'" and "P m"
  shows "copy_frame m (fold f xs m)"
  using assms(1,3)
proof (induction xs arbitrary: m)
  case (Cons x xs)
  have x: "copy_frame m (f x m)" using Cons.prems by simp
  then have "P (f x m)" using assms(2) Cons.prems(2) by blast
  then have "copy_frame (f x m) (fold f xs (f x m))" using Cons.prems(1) by (intro Cons.IH) auto
  with x show ?case by (simp add: copy_frame_trans)
qed simp

definition copy_pre :: "nat list \<Rightarrow> nat \<Rightarrow> manager \<Rightarrow> bool" where
  "copy_pre as n m \<longleftrightarrow> shared_uncopied m \<and> props_ok m \<and> set as \<subseteq> set (ics m) \<and> n = length (propertySlots m)"

lemma copy_pre_step: "copy_pre as n m \<Longrightarrow> copy_frame m m' \<Longrightarrow> copy_pre as n m'"
  using same_links_uncopied [of m m'] by (auto simp: copy_pre_def copy_frame_def same_links_def)

lemma copy_state_frame:
  assumes "copy_pre [a] n m" "i < int n"
  shows "copy_frame m (fcitx_input_context_copy_state a s i m)"
proof -
  let ?r = "[if i < 0 then 0 else nat i..<if i < 0 then n else nat (i + 1)]"
  have "copy_frame m (fold (copy_one a s) ?r m)"
  proof (rule fold_copy_frame [where P = "copy_pre [a] n"])
    show "copy_frame x (copy_one a s j x)" if "copy_pre [a] n x" "j \<in> set ?r" for x j
    proof -
      have "j < n" using that(2) assms(2) by (auto split: if_splits)
      then show ?thesis using that(1) by (intro copy_one_frame) (simp_all add: copy_pre_def)
    qed
  qed (use assms(1) copy_pre_step in blast)+
  then show ?thesis using assms(1)
    by (cases "i < 0") (simp_all add: fcitx_input_context_copy_state_def copy_pre_def)
qed

lemma fold_copies:
  assumes "set xs \<subseteq> set (ics m)" "shared_uncopied m" "props_ok m" "i < length (propertySlots m)"
  shows "copy_frame m (fold (\<lambda>b m. if b \<noteq> a
     then fcitx_input_context_copy_state b a (if c then - 1 else int i) m else m) xs m)"
proof (rule fold_copy_frame [where P = "copy_pre xs (length (propertySlots m))"])
  show "copy_pre xs (length (propertySlots m)) m" using assms by (simp add: copy_pre_def)
  show "copy_frame x (if b \<noteq> a then fcitx_input_context_copy_state b a (if c then - 1 else int i) x else x)"
    if "copy_pre xs (length (propertySlots m)) x" "b \<in> set xs" for b x
    using that assms(4)
    by (auto intro!: copy_state_frame [where n = "length (propertySlots m)"] simp: copy_pre_def)
qed (rule copy_pre_step)

lemma share_state_ok:
  assumes ok: "props_ok m" and un: "shared_uncopied m" and a: "a \<in> set (ics m)" "i < length (propertySlots m)"
  shows "\<exists>m'. share_state a i m = Some m' \<and> copy_frame m m'"
proof -
  consider "policy m = None" | p where "policy m = Some p" "property_at a (policy_property (policies m ! p)) m = None"
    | p q where "policy m = Some p" "property_at a (policy_property (policies m ! p)) m = Some q" "prop_head q = None"
    | p q h where "policy m = Some p" "property_at a (policy_property (policies m ! p)) m = Some q" "prop_head q = Some h"
    by (cases "policy m"; cases "property_at a (policy_property (policies m ! the (policy m))) m") force+
  then show ?thesis
  proof cases
    case (4 p q h)
    let ?j = "policy_property (policies m ! p)"
    obtain k where l: "link_of m a ?j = Some (h, k)" using 4 a by (simp add: link_of_def prop_link_def)
    have lo: "links_listed m (link_of m)" "lists_linked m (link_of m)" "slots_ok m"
      using ok by (simp_all add: props_ok_def links_ok_def)
    obtain p' xs where x: "?j < length (propertySlots m)" "k \<noteq> []" "slot_policy (propertySlots m ! ?j) = Some p'"
      "entry m p' k = Some h" "heads m h = Some xs" "a \<in> set xs" using links_listedD [OF lo(1) l] .
    have p': "p' < length (policies m)" using slots_okD(1) [OF lo(3) x(1,3)] by simp
    obtain ys where y: "h < next_head m" "heads m h = Some ys" "ys \<noteq> []" "distinct ys"
      "\<forall>b \<in> set ys. link_of m b (policy_property (policies m ! p')) = Some (h, k)"
      using lists_linkedD [OF lo(2) p' x(4)] .
    have "set xs \<subseteq> set (ics m)" using y(2,5) x(5) by (auto simp: link_of_def split: if_splits)
    then show ?thesis
      using 4 x(5) fold_copies [OF _ un ok a(2), of xs a "i = ?j"] by (simp add: share_state_def)
  qed (simp_all add: share_state_def)
qed

lemma relink_None: "lk a i = None \<Longrightarrow> relink a i None lk = lk"
  by (auto simp: relink_def fun_eq_iff)

lemma link_of_put:
  assumes "a \<in> set (ics m)" "i < length (properties (contexts m a))"
  shows "link_of (put_property a i q m) = relink a i (prop_link m i (Some q)) (link_of m)"
  using assms by (auto simp: link_of_def relink_def property_at_put fun_eq_iff same_links_prop [OF put_property_fields(6)])

lemma link_of_cong:
  assumes "ics m' = ics m" "propertySlots m' = propertySlots m"
    and "\<And>p. propertyKey (policies m' ! p) = propertyKey (policies m ! p)"
    and "\<And>b j. property_at b j m' = property_at b j m"
  shows "link_of m' = link_of m"
  using assms by (auto simp: link_of_def fun_eq_iff intro!: prop_link_keys)

lemma unlink_entry:
  assumes ok: "props_ok m" and a: "a \<in> set (ics m)" and q: "property_at a i m = Some q"
    and sp: "slot_policy (propertySlots m ! i) = Some p"
  shows "\<exists>m'. policy_unlink a q (Some p) m = Some m' \<and> links_ok m' (relink a i None (link_of m)) \<and>
    same_contexts m m' \<and> (\<forall>p. propertyKey (policies m' ! p) = propertyKey (policies m ! p))"
proof (cases "prop_head q")
  case None
  then have "link_of m a i = None" using a q by (simp add: link_of_def)
  then show ?thesis using ok None by (simp add: relink_None props_ok_def policy_unlink_def)
next
  case (Some h)
  then have "link_of m a i = Some (h, propertyKey (policies m ! p) (prop_data q))"
    using a q sp by (simp add: link_of_def)
  from links_unlink_ok [of m "link_of m", OF _ this sp Some] ok show ?thesis
    using policy_unlink_frame [of a q "Some p" m] by (auto simp: props_ok_def)
qed

lemma policy_link_frame:
  assumes "policy_link a i p m = Some m'"
  shows "ics m' = ics m \<and> propertySlots m' = propertySlots m \<and> policy m' = policy m"
  using assms
  by (auto simp: policy_link_def Let_def bind_eq_Some_conv put_property_def upd_policy_def
      split: option.splits if_splits)

lemma link_entry:
  assumes ok: "props_ok m" and a: "a \<in> set (ics m)" and i: "i < length (propertySlots m)"
    and q: "property_at a i m = Some q" "prop_head q = None" and sp: "slot_policy (propertySlots m ! i) = Some p"
  shows "\<exists>m'. policy_link a i p m = Some m' \<and> props_ok m' \<and> ics m' = ics m \<and>
    propertySlots m' = propertySlots m \<and> property_at a i m' \<noteq> None"
proof (cases "propertyKey (policies m ! p) (prop_data q) = []")
  case True
  then show ?thesis using ok q by (simp add: policy_link_def)
next
  case False
  let ?k = "propertyKey (policies m ! p) (prop_data q)"
  have l: "link_of m a i = None" using q by (simp add: link_of_def)
  have lo: "links_ok m (link_of m)" using ok by (simp add: props_ok_def)
  obtain m' h where m': "policy_link a i p m = Some m'" "links_ok m' (relink a i (Some (h, ?k)) (link_of m))"
    "contexts m' = contexts (put_property a i (q\<lparr>prop_head := Some h\<rparr>) m)"
    "\<forall>p. propertyKey (policies m' ! p) = propertyKey (policies m ! p)"
    using links_link_ok [OF lo l i sp q(1) refl False] by blast
  note fr = policy_link_frame [OF m'(1)]
  have len: "i < length (properties (contexts m a))"
    using q(1) by (auto simp: property_at_def split: if_splits)
  have at: "property_at b j m' = property_at b j (put_property a i (q\<lparr>prop_head := Some h\<rparr>) m)" for b j
    using m'(3) by (simp add: property_at_def)
  have "link_of m' = link_of (put_property a i (q\<lparr>prop_head := Some h\<rparr>) m)"
    using fr m'(4) at by (intro link_of_cong) simp_all
  also have "\<dots> = relink a i (Some (h, ?k)) (link_of m)"
    using sp by (simp add: link_of_put [OF a len])
  finally have "links_ok m' (link_of m')" using m'(2) by simp
  moreover have "\<forall>b \<in> set (ics m'). length (properties (contexts m' b)) \<le> length (propertySlots m')"
    using ok fr m'(3) put_property_fields(5) [of a i "q\<lparr>prop_head := Some h\<rparr>" m] by (simp add: props_ok_def)
  ultimately show ?thesis using m'(1) fr at len by (simp add: props_ok_def property_at_put)
qed

lemma unshared_None:
  assumes "props_ok m" "slot_policy (propertySlots m ! i) = None"
  shows "link_of m a i = None"
  using link_shared(1) [of m "link_of m" a i] assms unfolding props_ok_def by metis

lemma set_property_ok:
  assumes ok: "props_ok m" and un: "shared_uncopied m" and a: "a \<in> set (ics m)"
  shows "\<exists>r m'. fcitx_input_context_set_property a pid d m = Some (r, m') \<and> props_ok m' \<and> ics m' = ics m \<and>
    propertySlots m' = propertySlots m"
proof (cases "pid < 0 \<or> nat pid \<ge> length (propertySlots m)")
  case True
  then show ?thesis using ok by (simp add: fcitx_input_context_set_property_def)
next
  case False
  let ?i = "nat pid"
  let ?slot = "propertySlots m ! ?i"
  have i: "?i < length (propertySlots m)" using False by simp
  obtain q m1 where e: "fcitx_input_context_get_property_entry a ?i m = (q, m1)" by fastforce
  note g = get_entry_ok [OF e]
  have ok1: "props_ok m1" using get_entry_props [OF ok e i] .
  have s1: "propertySlots m1 = propertySlots m" using g(2) by (simp add: same_links_def)
  have a1: "a \<in> set (ics m1)" using a g(1) by simp
  define unlinked where "unlinked = (case slot_policy ?slot of None \<Rightarrow> Some m1 | Some p \<Rightarrow> policy_unlink a q (Some p) m1)"
  define q1 where "q1 = (if slot_policy ?slot \<noteq> None then q\<lparr>prop_head := None\<rparr> else q)"
  define q2 where "q2 = q1\<lparr>prop_data := (case setProperty ?slot of Some f \<Rightarrow> f (prop_data q1) d | None \<Rightarrow> d)\<rparr>"
  have unl: "link_of m1 a ?i = None" if "slot_policy ?slot = None"
    using unshared_None [OF ok1, of ?i a] that s1 by simp
  have h2: "prop_head q2 = None"
    using unl a1 g(5) by (cases "slot_policy ?slot") (simp_all add: q2_def q1_def link_of_def prop_link_None)
  obtain m2 where m2: "unlinked = Some m2" "links_ok m2 (relink a ?i None (link_of m1))" "same_contexts m1 m2"
    "\<forall>p. propertyKey (policies m2 ! p) = propertyKey (policies m1 ! p)"
  proof (cases "slot_policy ?slot")
    case None
    then show ?thesis using unl ok1 that [of m1] by (simp add: unlinked_def relink_None props_ok_def)
  next
    case (Some p)
    then show ?thesis using unlink_entry [OF ok1 a1 g(5), of p] s1 that by (auto simp: unlinked_def)
  qed
  have c2: "contexts m2 = contexts m1" "ics m2 = ics m1" "propertySlots m2 = propertySlots m1"
    using m2(3) by (simp_all add: same_contexts_def)
  have l2: "link_of m2 = link_of m1" using c2 m2(4) by (intro link_of_cong) (simp_all add: property_at_def)
  define m3 where "m3 = put_property a ?i q2 m2"
  have len: "?i < length (properties (contexts m2 a))" using g(4) c2 by simp
  have "link_of m3 = relink a ?i None (link_of m1)"
    using a1 c2 len h2 by (simp add: m3_def link_of_put l2)
  then have "links_ok m3 (link_of m3)"
    using m2(2) by (simp add: m3_def same_links_ok [OF put_property_fields(6)])
  then have ok3: "props_ok m3" using ok1 c2 by (simp add: props_ok_def m3_def)
  have p3: "property_at a ?i m3 = Some q2" using len by (simp add: m3_def property_at_put)
  have i3: "ics m3 = ics m" "propertySlots m3 = propertySlots m" using c2 s1 g(1) by (simp_all add: m3_def)
  obtain m4 where m4: "(case slot_policy ?slot of None \<Rightarrow> Some m3 | Some p \<Rightarrow> policy_link a ?i p m3) = Some m4"
    "props_ok m4" "ics m4 = ics m" "propertySlots m4 = propertySlots m" "property_at a ?i m4 \<noteq> None"
  proof (cases "slot_policy ?slot")
    case None
    then show ?thesis using ok3 i3 p3 that [of m3] by simp
  next
    case (Some p)
    then show ?thesis using link_entry [OF ok3 _ _ p3 h2] a i i3 that by auto
  qed
  have un4: "shared_uncopied m4" using un m4(4) by (simp add: shared_uncopied_def)
  obtain m5 where m5: "share_state a ?i m4 = Some m5" "copy_frame m4 m5"
    using share_state_ok [OF m4(2) un4, of a ?i] a i m4(3,4) by auto
  have "property_at a ?i m5 = None \<longrightarrow> property_at a ?i m4 = None" using m5(2) by (simp add: copy_frame_def)
  then obtain q5 where q5: "property_at a ?i m5 = Some q5" using m4(5) by fastforce
  have "fcitx_input_context_set_property a pid d m = Some (prop_data q5, m5)"
    using False e m2(1) m4(1) m5(1) q5 unfolding unlinked_def m3_def q2_def q1_def
    by (cases "slot_policy ?slot"; cases "setProperty ?slot")
       (simp_all add: fcitx_input_context_set_property_def Let_def)
  then show ?thesis using m5(2) m4(2,3,4) by (simp add: copy_frame_def same_links_def)
qed

section \<open>Freeing properties, destroying contexts\<close>

definition unlink_all :: "nat \<Rightarrow> nat set \<Rightarrow> link_table \<Rightarrow> link_table" where
  "unlink_all a I lk = (\<lambda>b j. if b = a \<and> j \<in> I then None else lk b j)"

lemma property_free_ok:
  assumes ok: "links_ok m lk" and i: "i < length (propertySlots m)" and l: "lk a i = prop_link m i x"
  shows "\<exists>m'. fcitx_input_context_property_free a i x m = Some m' \<and> links_ok m' (relink a i None lk) \<and>
    propertySlots m' = propertySlots m \<and> (\<forall>p. propertyKey (policies m' ! p) = propertyKey (policies m ! p))"
proof (cases x)
  case None
  then show ?thesis using ok l by (simp add: fcitx_input_context_property_free_def relink_None)
next
  case (Some q)
  let ?log = "\<lambda>m. if propertyDestroyNotify (propertySlots m ! i) then log_call (CallPropertyDestroy i (prop_data q)) m else m"
  have log: "links_ok (?log m') lk' = links_ok m' lk' \<and> propertySlots (?log m') = propertySlots m' \<and>
      policies (?log m') = policies m'" for m' lk'
    by (simp add: same_links_ok [of m' "log_call (CallPropertyDestroy i (prop_data q)) m'"] same_links_def)
  have "\<exists>m'. policy_unlink a q (slot_policy (propertySlots m ! i)) m = Some m' \<and> links_ok m' (relink a i None lk) \<and>
    propertySlots m' = propertySlots m \<and> (\<forall>p. propertyKey (policies m' ! p) = propertyKey (policies m ! p))"
  proof (cases "prop_head q")
    case None
    then show ?thesis using ok l Some by (simp add: policy_unlink_def relink_None)
  next
    case (Some h)
    then obtain k where k: "lk a i = Some (h, k)" using l \<open>x = Some q\<close> by (simp add: prop_link_def)
    then obtain p where p: "slot_policy (propertySlots m ! i) = Some p" using link_shared(1) [OF ok, of a i] by auto
    then have "k = propertyKey (policies m ! p) (prop_data q)" using k l \<open>x = Some q\<close> Some by simp
    with links_unlink_ok [OF ok k p Some] p policy_unlink_frame [of a q "Some p" m] show ?thesis
      by (auto simp: same_contexts_def)
  qed
  then obtain m' where m': "policy_unlink a q (slot_policy (propertySlots m ! i)) m = Some m'"
    "links_ok m' (relink a i None lk)" "propertySlots m' = propertySlots m"
    "\<forall>p. propertyKey (policies m' ! p) = propertyKey (policies m ! p)" by blast
  have "fcitx_input_context_property_free a i x m = Some (?log m')"
    using m'(1,3) Some by (simp add: fcitx_input_context_property_free_def)
  then show ?thesis using m' log [of m' "relink a i None lk"] by (intro exI [of _ "?log m'"]) auto
qed

lemma free_properties_ok:
  assumes "links_ok m lk" and "\<forall>(i, x) \<in> set ps. i < length (propertySlots m) \<and> lk a i = prop_link m i x"
    and "distinct (map fst ps)"
  shows "\<exists>m'. free_properties a ps m = Some m' \<and> links_ok m' (unlink_all a (fst ` set ps) lk) \<and>
    propertySlots m' = propertySlots m \<and> (\<forall>p. propertyKey (policies m' ! p) = propertyKey (policies m ! p))"
  using assms
proof (induction ps arbitrary: m lk)
  case Nil
  then show ?case by (simp add: unlink_all_def)
next
  case (Cons ix ps)
  obtain i x where ix: "ix = (i, x)" by fastforce
  obtain m1 where m1: "fcitx_input_context_property_free a i x m = Some m1"
    "links_ok m1 (relink a i None lk)" "propertySlots m1 = propertySlots m"
    "\<forall>p. propertyKey (policies m1 ! p) = propertyKey (policies m ! p)"
    using property_free_ok [OF Cons.prems(1), of i a x] Cons.prems(2) ix by auto
  have keys: "prop_link m1 j y = prop_link m j y" for j y
    using m1(3,4) by (intro prop_link_keys) simp_all
  have "\<forall>(j, y) \<in> set ps. j < length (propertySlots m1) \<and> relink a i None lk a j = prop_link m1 j y"
    using Cons.prems(2,3) m1(3) ix by (force simp: keys relink_def)
  then obtain m2 where m2: "free_properties a ps m1 = Some m2"
    "links_ok m2 (unlink_all a (fst ` set ps) (relink a i None lk))" "propertySlots m2 = propertySlots m1"
    "\<forall>p. propertyKey (policies m2 ! p) = propertyKey (policies m1 ! p)"
    using Cons.IH [OF m1(2)] Cons.prems(3) by auto
  have "unlink_all a (fst ` set ps) (relink a i None lk) = unlink_all a (fst ` set (ix # ps)) lk"
    by (auto simp: unlink_all_def relink_def ix fun_eq_iff)
  then show ?case using m1 m2 ix by simp
qed

lemma destroy_ok:
  assumes inv: "ic_inv m" and ok: "props_ok m"
  shows "\<exists>m'. fcitx_input_context_destroy a m = Some m' \<and> props_ok m'"
proof (cases "a \<in> set (ics m)")
  case False
  then show ?thesis using inv ok by (simp add: destroy_eq ic_inv_def)
next
  case True
  let ?d = "detached a m"
  note det = detached_ok [OF inv True]
  have okd: "props_ok ?d" using ok identity_props [OF det(2)] by simp
  have icsd: "ics ?d = ics m" "propertySlots ?d = propertySlots m" using det(2) by (simp_all add: same_identity_def)
  define l where "l = (let m = post (InputContextDestroyed (ic_id (contexts ?d a)) a) ?d in
    if ic_destroyNotify (contexts m a) then log_call (CallDestroyNotify a) m else m)"
  let ?ps = "properties (contexts ?d a)"
  let ?zs = "rev (zip [0..<length ?ps] ?ps)"
  have sl: "same_links ?d l" by (simp add: same_links_def l_def Let_def)
  have lk: "links_ok l (link_of ?d)"
    using okd by (simp only: same_links_ok [OF sl] props_ok_def)
  have len: "length ?ps \<le> length (propertySlots ?d)" using okd True icsd by (simp add: props_ok_def)
  have "\<forall>(i, x) \<in> set ?zs. i < length (propertySlots l) \<and> link_of ?d a i = prop_link l i x"
    using True icsd len sl
    by (auto simp: set_zip link_of_def property_at_def same_links_prop [OF sl] sl [unfolded same_links_def])
  moreover have "distinct (map fst ?zs)" by (simp add: rev_map [symmetric])
  ultimately obtain x where x: "free_properties a ?zs l = Some x"
    "links_ok x (unlink_all a (fst ` set ?zs) (link_of ?d))" "propertySlots x = propertySlots l"
    "\<forall>p. propertyKey (policies x ! p) = propertyKey (policies l ! p)"
    using free_properties_ok [OF lk] by blast
  have xi: "fcitx_input_context_destroy_internal a ?d = Some x"
    using x(1) unfolding l_def
    by (cases "ic_destroyNotify (contexts ?d a)") (simp_all add: fcitx_input_context_destroy_internal_def Let_def)
  note fr = destroy_internal_frame [OF xi]
  let ?m' = "x\<lparr>ics := remove1 a (ics x), ics_by_uuid := remove1 a (ics_by_uuid x), freeList := a # freeList x\<rparr>"
  have res: "fcitx_input_context_destroy a m = Some ?m'"
    using True inv xi by (simp add: destroy_eq ic_inv_def)
  have d: "distinct (ics m)" using inv by (simp add: ic_inv_def identity_ok_def)
  have icsx: "set (ics ?m') = set (ics m) - {a}" using d fr icsd by simp
  have keys: "prop_link ?m' j y = prop_link ?d j y" for j y
    using x(3,4) sl by (intro prop_link_keys) (simp_all add: same_links_def)
  have "fst ` set ?zs = {..<length ?ps}" by (force simp: set_zip)
  then have "unlink_all a (fst ` set ?zs) (link_of ?d) = link_of ?m'"
    using fr unfolding unlink_all_def link_of_def icsx keys
    by (auto simp: fun_eq_iff property_at_def icsd)
  moreover have "same_links x ?m'" by (simp add: same_links_def)
  ultimately have "links_ok ?m' (link_of ?m')" using x(2) by (simp only: same_links_ok)
  moreover have "\<forall>b \<in> set (ics ?m'). length (properties (contexts ?m' b)) \<le> length (propertySlots ?m')"
    using okd icsd icsx fr x(3) sl by (auto simp: props_ok_def same_links_def)
  ultimately show ?thesis using res by (simp add: props_ok_def)
qed

section \<open>Every reachable state\<close>

lemma new_links:
  assumes "fcitx_input_context_new fe d u m = (r, m')"
  shows "same_links m m'"
proof (cases "freeList m")
  case (Cons a rest)
  then show ?thesis using assms by (auto simp: new_reuse same_links_def)
next
  case Nil
  then show ?thesis using assms new_fresh [OF Nil, of fe d u] new_taken [OF Nil, of _ fe d u]
    by (cases "fcitx_input_context_manager_get_input_context (next_icid (icid m)) m")
       (auto simp: same_links_def)
qed

lemma new_props:
  assumes inv: "ic_inv m" and ok: "props_ok m" and new: "fcitx_input_context_new fe d u m = (r, m')"
  shows "props_ok m'"
proof (cases r)
  case None
  then have "freeList m = []" "fcitx_input_context_manager_get_input_context (next_icid (icid m)) m \<noteq> None"
    using new_inv [OF inv new] new new_fresh [of m fe d u]
    by (auto intro!: ccontr [of "fcitx_input_context_manager_get_input_context i m \<noteq> None" for i m])
  then have "m' = m\<lparr>icid := next_icid (icid m)\<rparr>" using new new_taken [of m _ fe d u] by auto
  then show ?thesis using ok props_frame [of m "m\<lparr>icid := next_icid (icid m)\<rparr>"] by (simp add: same_links_def)
next
  case (Some a)
  note n = new_inv [OF inv new, unfolded Some, simplified]
  note sl = new_links [OF new]
  have "link_of m' = link_of m"
    using n by (auto simp: link_of_def same_links_prop [OF sl] property_at_def fun_eq_iff)
  moreover have "length (properties (contexts m' b)) \<le> length (propertySlots m)" if "b \<in> set (ics m')" for b
    using that ok n by (cases "b = a") (auto simp: props_ok_def)
  ultimately show ?thesis using ok sl same_links_ok [OF sl] by (simp add: props_ok_def same_links_def)
qed

lemma get_entry_slots: "propertySlots (snd (fcitx_input_context_get_property_entry a i m)) = propertySlots m"
  using get_entry_ok(2) [OF surjective_pairing] by (simp add: same_links_def)

lemma copy_one_slots: "propertySlots (copy_one a s i m) = propertySlots m"
  using get_entry_slots by (auto simp: copy_one_def split: option.split prod.split) (metis snd_conv)

lemma fold_slots: "(\<And>x m. propertySlots (f x m) = propertySlots m) \<Longrightarrow> propertySlots (fold f xs m) = propertySlots m"
  by (induction xs arbitrary: m) simp_all

lemma share_state_slots: "share_state a i m = Some m' \<Longrightarrow> propertySlots m' = propertySlots m"
  by (auto simp: share_state_def Let_def fcitx_input_context_copy_state_def fold_slots copy_one_slots bind_eq_Some_conv
      split: option.splits)

lemma set_property_slots:
  assumes "fcitx_input_context_set_property a pid d m = Some (r, m')"
  shows "propertySlots m' = propertySlots m"
proof (cases "pid < 0 \<or> nat pid \<ge> length (propertySlots m)")
  case True
  then show ?thesis using assms by (auto simp: fcitx_input_context_set_property_def)
next
  case False
  obtain q m1 where e: "fcitx_input_context_get_property_entry a (nat pid) m = (q, m1)" by fastforce
  have m1: "propertySlots m1 = propertySlots m" using get_entry_slots [of a "nat pid" m] e by simp
  show ?thesis
  proof (cases "slot_policy (propertySlots m ! nat pid)")
    case None
    then show ?thesis using assms False e m1
      by (auto simp: fcitx_input_context_set_property_def Let_def bind_eq_Some_conv dest!: share_state_slots)
  next
    case (Some p)
    then show ?thesis using assms False e m1
      by (auto simp: fcitx_input_context_set_property_def Let_def bind_eq_Some_conv same_contexts_def
          dest!: share_state_slots policy_link_frame policy_unlink_frame)
  qed
qed

lemma register_props:
  assumes ok: "props_ok m"
  shows "props_ok (snd (fcitx_input_context_manager_register_property nm setp copy pd dn m))"
    (is "props_ok ?m")
proof -
  have lo: "links_ok m (link_of m)" using ok by (simp add: props_ok_def)
  let ?s = "\<lparr>setProperty = setp, copyProperty = copy, propertyDestroyNotify = pd, slot_destroyNotify = dn,
    slot_policy = None\<rparr>"
  have s: "slot_policy ?s = None" "propertySlots ?m = propertySlots m @ [?s]"
    by (simp_all add: fcitx_input_context_manager_register_property_def Let_def)
  have f: "policies ?m = policies m" "heads ?m = heads m" "next_head ?m = next_head m" "ics ?m = ics m"
    "contexts ?m = contexts m"
    by (simp_all add: fcitx_input_context_manager_register_property_def Let_def)
  have at: "property_at a i m = None" if "a \<in> set (ics m)" "\<not> i < length (propertySlots m)" for a i
    using ok that by (force simp: props_ok_def property_at_def)
  have link: "link_of ?m a i = link_of m a i" for a i
  proof (cases "i < length (propertySlots m)")
    case True
    then have "prop_link ?m i x = prop_link m i x" for x
      by (intro prop_link_keys) (simp_all add: f s nth_append)
    then show ?thesis by (simp add: link_of_def f property_at_def)
  next
    case False
    have "property_at a i ?m = property_at a i m" by (simp add: property_at_def f)
    with False show ?thesis by (auto simp: link_of_def f at)
  qed
  have "slots_ok ?m"
    using lo by (auto simp: links_ok_def slots_ok_def f s nth_append less_Suc_eq)
  moreover have "links_listed ?m (link_of m)"
    unfolding links_listed_def
  proof (intro allI impI)
    fix a i h k assume l: "link_of m a i = Some (h, k)"
    have "links_listed m (link_of m)" using lo by (simp add: links_ok_def)
    then obtain p xs where "i < length (propertySlots m)" "k \<noteq> []" "slot_policy (propertySlots m ! i) = Some p"
      "entry m p k = Some h" "heads m h = Some xs" "a \<in> set xs" using l by (rule links_listedD)
    then show "i < length (propertySlots ?m) \<and> k \<noteq> [] \<and>
        (\<exists>p. slot_policy (propertySlots ?m ! i) = Some p \<and> entry ?m p k = Some h) \<and>
        (\<exists>xs. heads ?m h = Some xs \<and> a \<in> set xs)"
      by (simp add: s f nth_append entry_def)
  qed
  moreover have "lists_linked ?m (link_of m)" "lists_unshared ?m"
    using lo by (simp_all add: links_ok_def lists_linked_def lists_unshared_def entry_def f)
  moreover have "link_of ?m = link_of m" using link by (simp add: fun_eq_iff)
  ultimately show ?thesis using ok by (auto simp: props_ok_def links_ok_def f s le_SucI)
qed

lemma policy_new_props:
  assumes ok: "props_ok m"
  shows "props_ok (snd (fcitx_input_context_shared_state_policy_new i key dn m))"
    (is "props_ok ?m")
proof (cases "i < 0 \<or> nat i \<ge> length (propertySlots m) \<or> slot_policy (propertySlots m ! nat i) \<noteq> None")
  case True
  then have "?m = m" by (auto simp: fcitx_input_context_shared_state_policy_new_def Let_def)
  then show ?thesis using ok by simp
next
  case False
  let ?n = "length (policies m)"
  have lo: "links_ok m (link_of m)" and sok: "slots_ok m" using ok by (simp_all add: props_ok_def links_ok_def)
  have i: "nat i < length (propertySlots m)" "slot_policy (propertySlots m ! nat i) = None" using False by simp_all
  obtain P S where P: "policies ?m = policies m @ [P]" "policy_property P = nat i" "propertyDict P = fcitx_dict_new True"
    and S: "propertySlots ?m = (propertySlots m)[nat i := S]" "slot_policy S = Some ?n"
    and f: "heads ?m = heads m" "next_head ?m = next_head m" "ics ?m = ics m" "contexts ?m = contexts m"
    using False by (simp add: fcitx_input_context_shared_state_policy_new_def Let_def)
  have pol: "slot_policy (propertySlots ?m ! j) = (if j = nat i then Some ?n else slot_policy (propertySlots m ! j))" for j
    using i S by (simp add: nth_list_update)
  have less: "p < ?n" if "j < length (propertySlots m)" "slot_policy (propertySlots m ! j) = Some p" for j p
    using slots_okD(1) [OF sok that] by simp
  have ent: "entry ?m p k = (if p < ?n then entry m p k else None)" if "p < length (policies ?m)" for p k
    using that P by (auto simp: entry_def nth_append fcitx_dict_new_def fcitx_dict_lookup_def HASH_FIND_def)
  have none: "link_of m a (nat i) = None" for a using unshared_None [OF ok i(2)] .
  have out: "link_of m a j = None" if "\<not> j < length (propertySlots m)" for a j
    using link_shared(2) [OF lo, of a j] that by blast
  have heads_None: "prop_link m j (property_at a j m) = None \<Longrightarrow> prop_link ?m j (property_at a j m) = None" for a j
    by (simp add: prop_link_None)
  have link: "link_of ?m = link_of m"
  proof (intro ext)
    fix a j
    show "link_of ?m a j = link_of m a j"
    proof (cases "link_of m a j")
      case None
      then show ?thesis using heads_None [of j a] by (auto simp: link_of_def f property_at_def split: if_splits)
    next
      case (Some hk)
      then have j: "j \<noteq> nat i" "j < length (propertySlots m)" using none out [of j a] by fastforce+
      then have "prop_link ?m j x = prop_link m j x" for x
        using less P by (intro prop_link_keys) (auto simp: pol nth_append)
      then show ?thesis by (simp add: link_of_def f property_at_def)
    qed
  qed
  have len: "length (propertySlots ?m) = length (propertySlots m)" using S by simp
  have pp: "policy_property (policies ?m ! p) = (if p = ?n then nat i else policy_property (policies m ! p))"
    if "p < length (policies ?m)" for p using that P by (auto simp: nth_append)
  have "slots_ok ?m"
    unfolding slots_ok_def
  proof (intro conjI allI impI)
    fix j p assume "j < length (propertySlots ?m)" "slot_policy (propertySlots ?m ! j) = Some p"
    then show "p < length (policies ?m)" "policy_property (policies ?m ! p) = j"
      using slots_okD(1) [OF sok, of j p] P by (auto simp: pol len nth_append split: if_splits)
  next
    fix p assume p: "p < length (policies ?m)"
    show "policy_property (policies ?m ! p) < length (propertySlots ?m)"
      "slot_policy (propertySlots ?m ! policy_property (policies ?m ! p)) = Some p"
      "dict_ok (propertyDict (policies ?m ! p))"
      using slots_okD(2) [OF sok, of p] p P i
      by (auto simp: pol len pp nth_append fcitx_dict_new_def dict_ok_def less_Suc_eq)
  qed
  moreover have "links_listed ?m (link_of m)"
    unfolding links_listed_def f len
  proof (intro allI impI)
    fix a j h k assume l: "link_of m a j = Some (h, k)"
    have "links_listed m (link_of m)" using lo by (simp add: links_ok_def)
    then obtain p xs where x: "j < length (propertySlots m)" "k \<noteq> []" "slot_policy (propertySlots m ! j) = Some p"
      "entry m p k = Some h" "heads m h = Some xs" "a \<in> set xs" using l by (rule links_listedD)
    have "j \<noteq> nat i" using x(3) i(2) by auto
    moreover have "p < ?n" using less x(1,3) by blast
    ultimately show "j < length (propertySlots m) \<and> k \<noteq> [] \<and>
        (\<exists>p. slot_policy (propertySlots ?m ! j) = Some p \<and> entry ?m p k = Some h) \<and>
        (\<exists>xs. heads m h = Some xs \<and> a \<in> set xs)"
      using x P by (simp add: pol ent)
  qed
  moreover have "lists_linked ?m (link_of m)"
    using lo unfolding links_ok_def lists_linked_def by (auto simp: ent pp f split: if_splits)
  moreover have "lists_unshared ?m"
    using lo unfolding links_ok_def lists_unshared_def by (auto simp: ent split: if_splits)
  ultimately show ?thesis using ok by (simp add: props_ok_def links_ok_def link f len)
qed

lemma group_free_identity:
  assumes inv: "ic_inv m" and g: "g \<in> set (groups m)"
  shows "\<exists>x. same_identity m x \<and> fcitx_input_context_focus_group_free g m = x\<lparr>groups := remove1 g (groups m)\<rparr>"
proof -
  let ?as = "inputContexts (focus_groups m g)"
  let ?x = "fold (\<lambda>a. fcitx_input_context_set_focus_group_internal a None) ?as m"
  have "g \<noteq> globalGroup m" "set ?as \<subseteq> set (ics m)"
    using inv g by (auto simp: ic_inv_def groups_ok_def live_groups_def)
  then have "fcitx_input_context_focus_group_free g m = ?x\<lparr>groups := remove1 g (groups m)\<rparr>" "same_identity m ?x"
    using fold_leave_group [OF inv, of ?as]
    by (simp_all add: fcitx_input_context_focus_group_free_def fold_drop_groups Let_def)
  then show ?thesis by blast
qed

text \<open>Which slots and policies a step keeps.\<close>

definition slots_kept :: "manager \<Rightarrow> manager \<Rightarrow> bool" where
  "slots_kept m m' \<longleftrightarrow> (shared_uncopied m' \<longrightarrow> shared_uncopied m)"

lemma slots_keptI: "propertySlots m' = propertySlots m \<Longrightarrow> slots_kept m m'"
  by (simp add: slots_kept_def shared_uncopied_def)

lemma slots_kept_identity: "same_identity m m' \<Longrightarrow> slots_kept m m'"
  by (intro slots_keptI) (simp add: same_identity_def)

lemma focus_identity:
  "same_identity m (fcitx_input_context_focus_in a m)" "same_identity m (fcitx_input_context_focus_out a m)"
  using focus_in_membership [of m a] focus_out_membership [of m a] by (simp_all add: same_membership_def)

lemma ic_step_slots: "ic_step m m' \<Longrightarrow> ic_inv m \<Longrightarrow> slots_kept m m'"
proof (induction rule: ic_step.induct)
  case (new fe d u m r m')
  then show ?case using new_links [of fe d u m r m'] by (intro slots_keptI) (simp add: same_links_def)
next
  case (destroy a m m')
  show ?case
  proof (cases "a \<in> set (ics m)")
    case False
    then show ?thesis using destroy by (simp add: destroy_eq ic_inv_def slots_kept_def)
  next
    case True
    then show ?thesis using destroy destroy_events(2) by (blast intro: slots_keptI)
  qed
next
  case (set_property a m i d r m')
  then show ?case using set_property_slots by (blast intro: slots_keptI)
next
  case (register_property m nm setp copy pd dn)
  then show ?case
    by (auto simp: slots_kept_def shared_uncopied_def fcitx_input_context_manager_register_property_def
        Let_def nth_append split: if_splits)
next
  case (policy_new m i key dn)
  then show ?case
    by (auto simp: slots_kept_def shared_uncopied_def fcitx_input_context_shared_state_policy_new_def
        Let_def nth_list_update split: if_splits)
next
  case (focus_group_free g m)
  then obtain x where "same_identity m x"
    "fcitx_input_context_focus_group_free g m = x\<lparr>groups := remove1 g (groups m)\<rparr>"
    using group_free_identity by blast
  then show ?case by (intro slots_keptI) (simp add: same_identity_def)
next
  case (delete_surrounding a m off len m')
  then show ?case
    by (intro slots_keptI) (auto simp: fcitx_input_context_delete_surrounding_text_def bind_eq_Some_conv
        split: option.splits)
next
  case (focus_in a m)
  show ?case using focus_identity(1) by (rule slots_kept_identity)
next
  case (focus_out a m)
  show ?case using focus_identity(2) by (rule slots_kept_identity)
next
  case (set_focus_group a m g type)
  show ?case using set_focus_group_identity by (rule slots_kept_identity)
qed (auto intro!: slots_keptI simp: fcitx_input_context_set_focus_group_def
      fcitx_input_context_focus_group_new_def fcitx_input_context_focus_group_new_internal_def
      fcitx_input_context_manager_set_event_dispatcher_def Let_def fcitx_input_context_set_capability_flags_def
      fcitx_input_context_set_cursor_rect_def fcitx_input_context_set_surrounding_text_def
      fcitx_input_context_manager_set_shared_state_policy_def
      fcitx_input_context_reset_def fcitx_input_context_process_key_event_def 
      fcitx_input_context_forward_key_def fcitx_input_context_commit_string_def
      fcitx_input_context_update_preedit_def split: option.split)

lemma props_kept:
  "props_ok m \<Longrightarrow> same_links m m' \<and> ics m' = ics m \<and> (\<forall>a. properties (contexts m' a) = properties (contexts m a)) \<Longrightarrow>
   props_ok m'"
  using props_frame [of m m'] by simp

lemma ic_step_props: "ic_step m m' \<Longrightarrow> ic_inv m \<Longrightarrow> shared_uncopied m \<Longrightarrow> props_ok m \<Longrightarrow> props_ok m'"
proof (induction rule: ic_step.induct)
  case (new fe d u m r m')
  then show ?case using new_props by blast
next
  case (destroy a m m')
  then show ?case using destroy_ok [of m a] by auto
next
  case (set_property a m i d r m')
  then show ?case using set_property_ok [of m a i d] by auto
next
  case (register_property m nm setp copy pd dn)
  then show ?case by (simp add: register_props)
next
  case (policy_new m i key dn)
  then show ?case by (simp add: policy_new_props)
next
  case (focus_group_free g m)
  then obtain x where x: "same_identity m x"
    "fcitx_input_context_focus_group_free g m = x\<lparr>groups := remove1 g (groups m)\<rparr>"
    using group_free_identity by blast
  have "props_ok (x\<lparr>groups := remove1 g (groups m)\<rparr>) = props_ok x"
    by (rule props_frame) (simp_all add: same_links_def)
  then show ?case using focus_group_free.prems x identity_props by simp
next
  case (delete_surrounding a m off len m')
  then have "same_links m m' \<and> ics m' = ics m \<and> (\<forall>b. properties (contexts m' b) = properties (contexts m b))"
    by (auto simp: fcitx_input_context_delete_surrounding_text_def bind_eq_Some_conv same_links_def
        split: option.splits)
  then have "props_ok m' = props_ok m" by (intro props_frame) simp_all
  then show ?case using delete_surrounding by simp
next
  case (focus_in a m)
  then show ?case using identity_props [OF focus_identity(1)] by simp
next
  case (focus_out a m)
  then show ?case using identity_props [OF focus_identity(2)] by simp
next
  case (set_focus_group a m g type)
  then show ?case using identity_props [OF set_focus_group_identity] by simp
qed (erule props_kept; simp add: same_links_def
      fcitx_input_context_focus_group_new_def fcitx_input_context_focus_group_new_internal_def
      fcitx_input_context_manager_set_event_dispatcher_def Let_def fcitx_input_context_set_capability_flags_def
      fcitx_input_context_set_cursor_rect_def fcitx_input_context_set_surrounding_text_def
      fcitx_input_context_manager_set_shared_state_policy_def
      fcitx_input_context_reset_def fcitx_input_context_process_key_event_def
      fcitx_input_context_forward_key_def fcitx_input_context_commit_string_def
      fcitx_input_context_update_preedit_def split: option.split)+

lemma manager_new_props: "props_ok fcitx_input_context_manager_new"
  by (simp add: props_ok_def links_ok_def slots_ok_def links_listed_def lists_linked_def lists_unshared_def
      link_of_def ic_eval)

lemma ic_reachable_props: "ic_reachable m \<Longrightarrow> shared_uncopied m \<Longrightarrow> props_ok m"
proof (induction rule: ic_reachable.induct)
  case start
  show ?case by (rule manager_new_props)
next
  case (step m m')
  have inv: "ic_inv m" using step(1) by (rule ic_reachable_inv)
  then have "shared_uncopied m" using ic_step_slots [OF step(2)] step.prems by (simp add: slots_kept_def)
  then show ?case using ic_step_props [OF step(2) inv] step.IH by simp
qed

section \<open>Taking a manager down\<close>

text \<open>The contexts whose destruction a log announces.\<close>

definition destroyed_in :: "ic_event list \<Rightarrow> (u32 \<times> nat) list" where
  "destroyed_in es = concat (map (\<lambda>e. case e of InputContextDestroyed i a \<Rightarrow> [(i, a)] | _ \<Rightarrow> []) es)"

lemma destroyed_in_simps [simp]:
  "destroyed_in [] = []" "destroyed_in (es @ fs) = destroyed_in es @ destroyed_in fs"
  "destroyed_in (InputContextDestroyed i a # es) = (i, a) # destroyed_in es"
  "destroyed_in (InputContextFocusOut i a # es) = destroyed_in es"
  "destroyed_in (CallDestroyNotify a # es) = destroyed_in es"
  "\<forall>e \<in> set es. \<exists>i v. e = CallPropertyDestroy i v \<Longrightarrow> destroyed_in es = []"
proof -
  show "\<forall>e \<in> set es. \<exists>i v. e = CallPropertyDestroy i v \<Longrightarrow> destroyed_in es = []"
    by (induction es) (auto simp: destroyed_in_def)
qed (simp_all add: destroyed_in_def)

lemma destroy_reachable:
  assumes "ic_reachable m" "shared_uncopied m" "fcitx_input_context_destroy a m = Some m'" "a \<in> set (ics m)"
  shows "ic_reachable m'" "shared_uncopied m'" "ics m' = remove1 a (ics m)"
    "ic_id (contexts m' b) = ic_id (contexts m b)"
    "has_callback m \<Longrightarrow> destroyed_in (events m') = destroyed_in (events m) @ [(ic_id (contexts m a), a)]"
    "has_callback m' = has_callback m"
proof -
  have inv: "ic_inv m" using assms(1) by (rule ic_reachable_inv)
  show "ic_reachable m'" using assms(1,3) by (blast intro: ic_reachable.step ic_step.destroy)
  show "shared_uncopied m'" using assms(2) destroy_events(2) [OF inv assms(4,3)] by (simp add: shared_uncopied_def)
  show "ics m' = remove1 a (ics m)" "ic_id (contexts m' b) = ic_id (contexts m b)"
    "has_callback m' = has_callback m"
    using destroy_inv [OF inv assms(3)] by simp_all
  show "destroyed_in (events m') = destroyed_in (events m) @ [(ic_id (contexts m a), a)]" if "has_callback m"
    using destroy_events(1) [OF inv assms(4,3)] that by (auto split: if_splits)
qed

lemma destroy_all_ok:
  assumes "ic_reachable m" "shared_uncopied m"
  shows "\<exists>m'. fcitx_input_context_manager_destroy_all_input_context m = Some m' \<and> ic_reachable m' \<and> ics m' = [] \<and>
    (has_callback m \<longrightarrow> destroyed_in (events m') =
       destroyed_in (events m) @ map (\<lambda>a. (ic_id (contexts m a), a)) (ics m))"
  using assms
proof (induction "ics m" arbitrary: m)
  case Nil
  then show ?case by (subst fcitx_input_context_manager_destroy_all_input_context.simps) simp
next
  case (Cons a as)
  have ics: "ics m = a # as" "a \<in> set (ics m)" using Cons(2) [symmetric] by simp_all
  obtain x where x: "fcitx_input_context_destroy a m = Some x"
    using destroy_ok [OF ic_reachable_inv ic_reachable_props, of m a] Cons.prems by auto
  note d = destroy_reachable [OF Cons.prems x ics(2)]
  have "as = ics x" using d(3) ics by simp
  from Cons.hyps(1) [OF this d(1,2)] obtain m' where m':
    "fcitx_input_context_manager_destroy_all_input_context x = Some m'" "ic_reachable m'" "ics m' = []"
    "has_callback x \<longrightarrow> destroyed_in (events m') =
       destroyed_in (events x) @ map (\<lambda>a. (ic_id (contexts x a), a)) (ics x)" by blast
  have "fcitx_input_context_manager_destroy_all_input_context m = Some m'"
    using x m'(1) ics by (subst fcitx_input_context_manager_destroy_all_input_context.simps) simp
  then show ?case using m' d(4-6) ics \<open>as = ics x\<close> [symmetric] by auto
qed

text \<open>C15: as long as no property that is shared by a policy is also copied between contexts, no
  reachable state lets the manager follow a freed list: every context can be destroyed and every
  property set, destroying all contexts ends, with each context announced once and in the order of
  creation, and freeing the manager succeeds.\<close>

theorem manager_takedown:
  assumes "ic_reachable m" and "shared_uncopied m"
  shows "fcitx_input_context_destroy a m \<noteq> None \<and>
    (a \<in> set (ics m) \<longrightarrow> fcitx_input_context_set_property a i d m \<noteq> None) \<and>
    (\<exists>m'. fcitx_input_context_manager_destroy_all_input_context m = Some m' \<and> ics m' = [] \<and>
      (has_callback m \<longrightarrow> destroyed_in (events m') =
         destroyed_in (events m) @ map (\<lambda>a. (ic_id (contexts m a), a)) (ics m))) \<and>
    fcitx_input_context_manager_free m \<noteq> None"
proof (intro conjI impI)
  have inv: "ic_inv m" and ok: "props_ok m"
    using assms ic_reachable_inv ic_reachable_props by blast+
  show "fcitx_input_context_destroy a m \<noteq> None" using destroy_ok [OF inv ok, of a] by auto
  show "fcitx_input_context_set_property a i d m \<noteq> None" if "a \<in> set (ics m)"
    using set_property_ok [OF ok assms(2) that, of i d] by auto
  show "\<exists>m'. fcitx_input_context_manager_destroy_all_input_context m = Some m' \<and> ics m' = [] \<and>
      (has_callback m \<longrightarrow> destroyed_in (events m') =
         destroyed_in (events m) @ map (\<lambda>a. (ic_id (contexts m a), a)) (ics m))"
    using destroy_all_ok [OF assms] by blast
  show "fcitx_input_context_manager_free m \<noteq> None"
    using destroy_all_ok [OF assms] by (auto simp: fcitx_input_context_manager_free_def Let_def)
qed


definition number_key :: "nat \<Rightarrow> cstr" where
  "number_key d = (if d = 0 then [] else [of_nat d])"

definition sharing_contexts :: "(nat \<Rightarrow> nat \<Rightarrow> nat) option \<Rightarrow> manager" where
  "sharing_contexts copy =
     (let m = snd (fcitx_input_context_manager_register_property (bytes ''lang'') None copy False False two_created);
          m = snd (fcitx_input_context_manager_register_property (bytes ''app'') None None False False m);
          m = snd (fcitx_input_context_shared_state_policy_new 1 number_key False m);
          m = snd (fcitx_input_context_shared_state_policy_new 2 number_key False m)
      in fcitx_input_context_manager_set_shared_state_policy 1 m)"

lemma two_created_reachable: "ic_reachable two_created"
  unfolding two_created_def Let_def by (intro ic_reachable_ops ic_reachable.start)

lemma sharing_reachable: "ic_reachable (sharing_contexts copy)"
  unfolding sharing_contexts_def Let_def
  by (rule two_created_reachable ic_reachable.step [OF _ ic_step.set_policy]
      ic_reachable.step [OF _ ic_step.policy_new] ic_reachable.step [OF _ ic_step.register_property])+

lemma sharing_ics: "ics (sharing_contexts copy) = [0, 1]"
  by (simp add: sharing_contexts_def two_created_fields fcitx_input_context_manager_register_property_def
      fcitx_input_context_shared_state_policy_new_def fcitx_input_context_manager_set_shared_state_policy_def Let_def)

lemma set_property_reachable:
  assumes "fcitx_input_context_set_property a i d m = Some (r, m')" "ic_reachable m" "a \<in> set (ics m)"
  shows "ic_reachable m' \<and> ics m' = ics m"
  using assms ic_reachable.step [OF _ ic_step.set_property] set_property_quiet by (auto simp: quiet_def)

theorem manager_takedown_witness:
  "fcitx_input_context_set_property 0 2 5 (sharing_contexts None) \<noteq> None \<and>
   fcitx_input_context_manager_free (sharing_contexts None) \<noteq> None"
proof -
  have "shared_uncopied (sharing_contexts None)" by code_simp
  then show ?thesis
    using manager_takedown [OF sharing_reachable] by (simp add: sharing_ics)
qed

text \<open>The run that shows the condition is needed: the language is copied between the contexts of one
  application and also listed by a policy of its own.\<close>

definition copied_language :: "manager option" where
  "copied_language = do {
     (_, m) \<leftarrow> fcitx_input_context_set_property 0 2 5 (sharing_contexts (Some (\<lambda>_ x. x)));
     (_, m) \<leftarrow> fcitx_input_context_set_property 1 2 5 m;
     (_, m) \<leftarrow> fcitx_input_context_set_property 0 1 7 m;
     (_, m) \<leftarrow> fcitx_input_context_set_property 1 1 8 m;
     Some m }"

text \<open>When a property that a policy shares is also copied between contexts, a copy changes its data
  without moving it to the list of its new key; unlinking it later drops the list of another key, and
  freeing the manager follows the freed list.\<close>

theorem shared_copy_dangles:
  "\<exists>m. copied_language = Some m \<and> ic_reachable m \<and> ics m = [0, 1] \<and>
     (\<exists>m'. fcitx_input_context_destroy 0 m = Some m' \<and> fcitx_input_context_destroy 1 m' = None) \<and>
     fcitx_input_context_manager_free m = None"
proof -
  let ?run = "do { m \<leftarrow> copied_language; m \<leftarrow> fcitx_input_context_destroy 0 m; Some m }"
  have run: "case ?run of Some m' \<Rightarrow> fcitx_input_context_destroy 1 m' = None | None \<Rightarrow> False"
    by code_simp
  then obtain m m' where m: "copied_language = Some m" "fcitx_input_context_destroy 0 m = Some m'"
    "fcitx_input_context_destroy 1 m' = None"
    by (auto simp: bind_eq_Some_conv split: option.splits)
  have "ic_reachable m \<and> ics m = [0, 1]"
    using m(1) sharing_reachable sharing_ics set_property_reachable
    by (simp add: copied_language_def bind_eq_Some_conv) (metis insertI1 insertI2 list.simps(15))
  moreover have "ics m' = [1]"
    using destroy_inv [OF ic_reachable_inv m(2)] calculation by simp
  then have "fcitx_input_context_manager_destroy_all_input_context m = None"
    using calculation m(2,3) fcitx_input_context_manager_destroy_all_input_context.simps [of m]
      fcitx_input_context_manager_destroy_all_input_context.simps [of m'] by simp
  then have "fcitx_input_context_manager_free m = None" by (simp add: fcitx_input_context_manager_free_def)
  ultimately show ?thesis using m by blast
qed

end
