(* ===== verification/XcbModule.thy ===== *)
theory XcbModule
  imports MainLoop InputContext_Policy
begin

text \<open>
  The module for X displays, \<open>src/module/xcb/xcbmodule.c\<close>: its connections, each with an event of the main
  loop and a focus group of the input context manager, the callbacks for connections and events, and the
  keymap of a display.  The X and keyboard libraries are an argument: what they answer and the events they
  deliver.  A connection has an address, which is an argument too; \<open>None\<close> is the use of a freed one or a
  read or write outside an array.
\<close>

section \<open>State\<close>

record xcb_connection =
  xc_conn :: nat
  xc_screen :: int
  xc_event :: "int \<times> nat"
  xc_name :: cstr
  xc_atom :: u32
  server_window :: u32
  xc_group :: "nat option"
  xkbRulesNamesAtom :: u32
  xc_root :: u32
  xkbFirstEvent :: byte
  hasXKB :: bool
  coreDeviceId :: int
  xkb_context :: "nat option"
  xkb_keymap :: "nat option"
  xkb_state :: "nat option"

record callback_closure =
  cc_callback :: nat
  cc_userData :: nat

text \<open>The keys of the table: the addresses of two static variables, or of a connection.\<close>

datatype xcb_key = ConnectionCreated | ConnectionClosed | ConnectionKey nat

datatype xcb_request =
    SetSelectionOwner nat u32 u32
  | UpdateMask nat
  | Disconnect nat

record fcitx_xcb =
  x_loop :: mainloop
  x_icManager :: manager
  x_conns :: "nat dict"
  x_table :: "(xcb_key, callback_closure) handler_table"
  x_store :: "nat \<Rightarrow> xcb_connection option"
  x_requests :: "xcb_request list"

text \<open>The answers of the libraries.  A property has a type, the bytes that are left, a format and its data.\<close>

record xcb_property =
  pr_type :: u32
  bytes_after :: u32
  pr_format :: nat
  pr_value :: "byte list"

record xcb_world =
  xw_display :: "cstr option"
  xw_connect :: "cstr \<Rightarrow> (nat \<times> int) option"
  xw_has_error :: "nat \<Rightarrow> bool"
  xw_intern_atom :: "nat \<Rightarrow> cstr \<Rightarrow> u32 option"
  xw_generate_id :: "nat \<Rightarrow> u32"
  xw_root :: "nat \<Rightarrow> int \<Rightarrow> u32"
  xw_fd :: "nat \<Rightarrow> int"
  xw_xkb :: "nat \<Rightarrow> byte option"
  xw_use_xkb :: "nat \<Rightarrow> bool"
  xw_device :: "nat \<Rightarrow> int"
  xw_select_error :: "nat \<Rightarrow> bool"
  xw_get_property :: "nat \<Rightarrow> u32 \<Rightarrow> u32 \<Rightarrow> xcb_property option"
  xw_context_new :: "nat option"
  xw_keymap_from_device :: "nat \<Rightarrow> nat \<Rightarrow> int \<Rightarrow> nat option"
  xw_state_from_device :: "nat \<Rightarrow> nat \<Rightarrow> int \<Rightarrow> nat option"
  xw_keymap_from_names :: "nat \<Rightarrow> cstr list \<Rightarrow> nat option"
  xw_state_new :: "nat \<Rightarrow> nat option"

definition XCB_ATOM_STRING :: u32 where "XCB_ATOM_STRING = 31"
definition XCB_CLIENT_MESSAGE :: byte where "XCB_CLIENT_MESSAGE = 33"
definition XCB_XKB_NEW_KEYBOARD_NOTIFY :: byte where "XCB_XKB_NEW_KEYBOARD_NOTIFY = 0"
definition XCB_XKB_MAP_NOTIFY :: byte where "XCB_XKB_MAP_NOTIFY = 1"
definition XCB_XKB_STATE_NOTIFY :: byte where "XCB_XKB_STATE_NOTIFY = 2"
definition XCB_XKB_NKN_DETAIL_KEYCODES :: "16 word" where "XCB_XKB_NKN_DETAIL_KEYCODES = 1"

text \<open>The callback registered with the loop, and the filter of the module.\<close>

definition io_callback_id :: nat where "io_callback_id = 4"
definition own_filter :: nat where "own_filter = 1"

section \<open>The names of the rules\<close>

text \<open>The loop that cuts the property into strings; \<open>p\<close> is the offset and \<open>names\<close> what is filled of the
  array of five.  \<open>strnlen\<close> gets the rest of the length, which is negative after the end, and then reads
  outside.\<close>

function names_loop :: "byte list \<Rightarrow> nat \<Rightarrow> nat list \<Rightarrow> nat list option" where
  "names_loop data p names =
     (if length data < p \<or> 5 \<le> length names then None
      else
        let len = length (takeWhile (\<lambda>c. c \<noteq> 0) (drop p data));
            names = names @ [p];
            p = p + len + 1
        in if p < length data \<or> length names < 5 then names_loop data p names else Some names)"
  by pat_completeness auto
termination by (relation "measure (\<lambda>(data, p, names). 5 - length names)") auto

declare names_loop.simps [simp del]

text \<open>The names as the strings they point to, as they are given to the keymap: the end of each must be in the
  data.\<close>

definition name_at :: "byte list \<Rightarrow> nat \<Rightarrow> cstr option" where
  "name_at data p =
     (if 0 \<in> set (drop p data) then Some (takeWhile (\<lambda>c. c \<noteq> 0) (drop p data)) else None)"

fun names_at :: "byte list \<Rightarrow> nat list \<Rightarrow> cstr list option" where
  "names_at data [] = Some []"
| "names_at data (p # ps) = do { n \<leftarrow> name_at data p; ns \<leftarrow> names_at data ps; Some (n # ns) }"

section \<open>Connections\<close>

definition put_connection :: "nat \<Rightarrow> (xcb_connection \<Rightarrow> xcb_connection) \<Rightarrow> 's fcitx_xcb_scheme \<Rightarrow> 's fcitx_xcb_scheme" where
  "put_connection a f s = s\<lparr>x_store := (x_store s)(a := map_option f (x_store s a))\<rparr>"

definition request :: "xcb_request \<Rightarrow> 's fcitx_xcb_scheme \<Rightarrow> 's fcitx_xcb_scheme" where
  "request r s = s\<lparr>x_requests := x_requests s @ [r]\<rparr>"

text \<open>The bytes of the property; the inner option is the result \<open>NULL\<close>.\<close>

definition fcitx_xcb_get_xkb_rules_names ::
  "xcb_world \<Rightarrow> cstr \<Rightarrow> 's fcitx_xcb_scheme \<Rightarrow> (byte list option \<times> 's fcitx_xcb_scheme) option" where
  "fcitx_xcb_get_xkb_rules_names w display s =
     (case fcitx_dict_lookup display (x_conns s) of
        None \<Rightarrow> Some (None, s)
      | Some a \<Rightarrow> do {
          fc \<leftarrow> x_store s a;
          let s = (if xkbRulesNamesAtom fc = 0
              then case xw_intern_atom w (xc_conn fc) (bytes ''_XKB_RULES_NAMES'') of
                  Some atom \<Rightarrow> put_connection a (xkbRulesNamesAtom_update (\<lambda>_. atom)) s
                | None \<Rightarrow> s
              else s);
          fc \<leftarrow> x_store s a;
          Some (if xkbRulesNamesAtom fc = 0 then None
            else case xw_get_property w (xc_conn fc) (xc_root fc) (xkbRulesNamesAtom fc) of
                None \<Rightarrow> None
              | Some reply \<Rightarrow>
                  if pr_type reply \<noteq> XCB_ATOM_STRING \<or> bytes_after reply > 0 \<or> pr_format reply \<noteq> 8 then None
                  else Some (pr_value reply), s) })"

text \<open>The log level is set on a new context before it is known to exist.\<close>

definition fcitx_xcb_update_keymap :: "xcb_world \<Rightarrow> nat \<Rightarrow> 's fcitx_xcb_scheme \<Rightarrow> 's fcitx_xcb_scheme option" where
  "fcitx_xcb_update_keymap w a s = do {
     fc \<leftarrow> x_store s a;
     context \<leftarrow> (case xkb_context fc of None \<Rightarrow> xw_context_new w | Some c \<Rightarrow> Some c);
     let s = put_connection a (\<lambda>fc. fc\<lparr>xkb_context := Some context, xkb_keymap := None\<rparr>) s;
     let keymap = (if hasXKB fc then xw_keymap_from_device w context (xc_conn fc) (coreDeviceId fc) else None);
     (keymap, new_state, s) \<leftarrow> (case keymap of
         Some k \<Rightarrow> Some (Some k, xw_state_from_device w k (xc_conn fc) (coreDeviceId fc), s)
       | None \<Rightarrow> do {
           (nameString, s) \<leftarrow> fcitx_xcb_get_xkb_rules_names w (xc_name fc) s;
           keymap \<leftarrow> (case nameString of
               None \<Rightarrow> Some None
             | Some data \<Rightarrow> do {
                 ps \<leftarrow> names_loop data 0 [];
                 names \<leftarrow> names_at data ps;
                 Some (xw_keymap_from_names w context names) });
           let keymap = (case keymap of None \<Rightarrow> xw_keymap_from_names w context [] | Some k \<Rightarrow> Some k);
           Some (keymap, Option.bind keymap (xw_state_new w), s) });
     Some (put_connection a (\<lambda>fc. fc\<lparr>xkb_keymap := keymap, xkb_state := new_state\<rparr>) s) }"

section \<open>Callbacks\<close>

text \<open>The loop over the callbacks of a key, which takes the next id before it calls; a callback that answers
  true ends it.  The fuel bounds the chain.\<close>

fun callback_loop ::
  "nat \<Rightarrow> (callback_closure \<Rightarrow> 's fcitx_xcb_scheme \<Rightarrow> (bool \<times> 's fcitx_xcb_scheme) option) \<Rightarrow> int \<Rightarrow> 's fcitx_xcb_scheme \<Rightarrow> 's fcitx_xcb_scheme option" where
  "callback_loop 0 f i s = None"
| "callback_loop (Suc n) f i s =
     (case fcitx_handler_table_get_by_id i (x_table s) of
        None \<Rightarrow> Some s
      | Some p \<Rightarrow> do {
          ob \<leftarrow> fcitx_handler_table_get_obj p (x_table s);
          nextid \<leftarrow> fcitx_handler_table_next_id p (x_table s);
          (stop, s) \<leftarrow> f (obj_data ob) s;
          if stop then Some s else callback_loop n f nextid s })"

definition for_callbacks ::
  "(callback_closure \<Rightarrow> 's fcitx_xcb_scheme \<Rightarrow> (bool \<times> 's fcitx_xcb_scheme) option) \<Rightarrow> xcb_key \<Rightarrow> 's fcitx_xcb_scheme \<Rightarrow> 's fcitx_xcb_scheme option" where
  "for_callbacks f k s = callback_loop (chain_fuel (x_table s)) f (fcitx_handler_table_first_id k (x_table s)) s"

text \<open>The callbacks of others: for a connection that was made or is closed, and for its events.\<close>

record 's xcb_callbacks =
  created_callback :: "callback_closure \<Rightarrow> cstr \<Rightarrow> nat \<Rightarrow> int \<Rightarrow> nat option \<Rightarrow> 's fcitx_xcb_scheme \<Rightarrow> 's fcitx_xcb_scheme option"
  closed_callback :: "callback_closure \<Rightarrow> cstr \<Rightarrow> nat \<Rightarrow> 's fcitx_xcb_scheme \<Rightarrow> 's fcitx_xcb_scheme option"

definition not_stopping :: "'s fcitx_xcb_scheme option \<Rightarrow> (bool \<times> 's fcitx_xcb_scheme) option" where
  "not_stopping r = map_option (Pair False) r"

definition fcitx_xcb_connection_close :: "'s xcb_callbacks \<Rightarrow> nat \<Rightarrow> 's fcitx_xcb_scheme \<Rightarrow> 's fcitx_xcb_scheme option" where
  "fcitx_xcb_connection_close cb a s = do {
     s \<leftarrow> for_callbacks (\<lambda>p s. do { fc \<leftarrow> x_store s a;
              not_stopping (closed_callback cb p (xc_name fc) (xc_conn fc) s) }) ConnectionClosed s;
     fc \<leftarrow> x_store s a;
     g \<leftarrow> xc_group fc;
     let s = put_connection a (xc_group_update (\<lambda>_. None)) s;
     let s = s\<lparr>x_icManager := fcitx_input_context_focus_group_free g (x_icManager s)\<rparr>;
     m \<leftarrow> fcitx_mainloop_remove_io_event (xc_event fc) (x_loop s);
     let s = request (Disconnect (xc_conn fc)) (s\<lparr>x_loop := m\<rparr>);
     Some (s\<lparr>x_store := (x_store s)(a := None)\<rparr>) }"

text \<open>Removing a connection from the dictionary closes it.\<close>

definition remove_connection :: "'s xcb_callbacks \<Rightarrow> cstr \<Rightarrow> 's fcitx_xcb_scheme \<Rightarrow> 's fcitx_xcb_scheme option" where
  "remove_connection cb name s =
     (case fcitx_dict_lookup name (x_conns s) of
        None \<Rightarrow> Some s
      | Some a \<Rightarrow> do {
          (_, _, d) \<leftarrow> fcitx_dict_remove name False (x_conns s);
          fcitx_xcb_connection_close cb a (s\<lparr>x_conns := d\<rparr>) })"

definition fcitx_xcb_add_event_filter ::
  "cstr \<Rightarrow> nat \<Rightarrow> nat \<Rightarrow> 's fcitx_xcb_scheme \<Rightarrow> (int \<times> 's fcitx_xcb_scheme) option" where
  "fcitx_xcb_add_event_filter name callback userdata s =
     (case fcitx_dict_lookup name (x_conns s) of
        None \<Rightarrow> Some (INVALID, s)
      | Some a \<Rightarrow> do {
          (i, t) \<leftarrow> fcitx_handler_table_append (ConnectionKey a) \<lparr>cc_callback = callback, cc_userData = userdata\<rparr> (x_table s);
          Some (i, s\<lparr>x_table := t\<rparr>) })"

definition fcitx_xcb_on_connection_closed :: "nat \<Rightarrow> nat \<Rightarrow> 's fcitx_xcb_scheme \<Rightarrow> (int \<times> 's fcitx_xcb_scheme) option" where
  "fcitx_xcb_on_connection_closed callback userdata s = do {
     (i, t) \<leftarrow> fcitx_handler_table_append ConnectionClosed \<lparr>cc_callback = callback, cc_userData = userdata\<rparr> (x_table s);
     Some (i, s\<lparr>x_table := t\<rparr>) }"

text \<open>The call for each connection there is; a callback leaves the connections as they are.\<close>

fun created_loop ::
  "(cstr \<Rightarrow> nat \<Rightarrow> int \<Rightarrow> nat option \<Rightarrow> 's fcitx_xcb_scheme \<Rightarrow> 's fcitx_xcb_scheme option) \<Rightarrow> (cstr \<times> nat) list \<Rightarrow> 's fcitx_xcb_scheme \<Rightarrow> 's fcitx_xcb_scheme option" where
  "created_loop f [] s = Some s"
| "created_loop f ((name, a) # rest) s = do {
     fc \<leftarrow> x_store s a;
     s' \<leftarrow> f (xc_name fc) (xc_conn fc) (xc_screen fc) (xc_group fc) s;
     if x_conns s' \<noteq> x_conns s then None else created_loop f rest s' }"

definition fcitx_xcb_on_connection_created ::
  "'s xcb_callbacks \<Rightarrow> nat \<Rightarrow> nat \<Rightarrow> 's fcitx_xcb_scheme \<Rightarrow> (int \<times> 's fcitx_xcb_scheme) option" where
  "fcitx_xcb_on_connection_created cb callback userdata s = do {
     let closure = \<lparr>cc_callback = callback, cc_userData = userdata\<rparr>;
     (i, t) \<leftarrow> fcitx_handler_table_append ConnectionCreated closure (x_table s);
     let s = s\<lparr>x_table := t\<rparr>;
     s \<leftarrow> created_loop (created_callback cb closure) (items (x_conns s)) s;
     Some (i, s) }"

definition fcitx_xcb_remove_watcher :: "int \<Rightarrow> 's fcitx_xcb_scheme \<Rightarrow> 's fcitx_xcb_scheme option" where
  "fcitx_xcb_remove_watcher i s = do {
     t \<leftarrow> fcitx_handler_table_remove_by_id_full i (x_table s);
     Some (s\<lparr>x_table := t\<rparr>) }"

text \<open>The connection of a display, or of the first one.\<close>

definition fcitx_xcb_get_connection :: "cstr option \<Rightarrow> 's fcitx_xcb_scheme \<Rightarrow> nat option option" where
  "fcitx_xcb_get_connection name s =
     (case name of
        None \<Rightarrow>
          (case items (x_conns s) of
             [] \<Rightarrow> Some None
           | (k, a) # rest \<Rightarrow> map_option (\<lambda>fc. Some (xc_conn fc)) (x_store s a))
      | Some name \<Rightarrow>
          (case fcitx_dict_lookup name (x_conns s) of
             None \<Rightarrow> Some None
           | Some a \<Rightarrow> map_option (\<lambda>fc. Some (xc_conn fc)) (x_store s a)))"

definition fcitx_xcb_get_xkb_state :: "cstr \<Rightarrow> 's fcitx_xcb_scheme \<Rightarrow> nat option option" where
  "fcitx_xcb_get_xkb_state display s =
     (case fcitx_dict_lookup display (x_conns s) of
        None \<Rightarrow> Some None
      | Some a \<Rightarrow> map_option xkb_state (x_store s a))"

section \<open>Events\<close>

text \<open>An event as its views: those of a client message and of the keyboard extension.\<close>

record xcb_event =
  response_type :: byte
  cm_window :: u32
  cm_format :: nat
  cm_type :: u32
  cm_data8 :: "byte list"
  xkbType :: byte
  deviceID :: byte
  nk_changed :: "16 word"

definition fcitx_xcb_fitler_event ::
  "xcb_world \<Rightarrow> nat \<Rightarrow> xcb_event \<Rightarrow> 's fcitx_xcb_scheme \<Rightarrow> (bool \<times> 's fcitx_xcb_scheme) option" where
  "fcitx_xcb_fitler_event w a event s = do {
     fc \<leftarrow> x_store s a;
     let rt = response_type event AND NOT 0x80;
     if rt = XCB_CLIENT_MESSAGE then
       Some (False,
         if cm_window event = server_window fc \<and> cm_format event = 8 \<and> cm_type event = xc_atom fc
         then case fcitx_input_context_manager_get_input_context_by_uuid (take 16 (cm_data8 event)) (x_icManager s) of
             Some ic \<Rightarrow> s\<lparr>x_icManager := fcitx_input_context_set_focus_group ic FICFG_Local (xc_group fc) (x_icManager s)\<rparr>
           | None \<Rightarrow> s
         else s)
     else if rt = xkbFirstEvent fc then
       if uint (deviceID event) = coreDeviceId fc then
         if xkbType event = XCB_XKB_STATE_NOTIFY then do {
           st \<leftarrow> xkb_state fc;
           Some (True, request (UpdateMask st) s) }
         else if xkbType event = XCB_XKB_MAP_NOTIFY then do {
           s \<leftarrow> fcitx_xcb_update_keymap w a s;
           Some (True, s) }
         else if xkbType event = XCB_XKB_NEW_KEYBOARD_NOTIFY then
           if nk_changed event AND XCB_XKB_NKN_DETAIL_KEYCODES \<noteq> 0 then do {
             s \<leftarrow> fcitx_xcb_update_keymap w a s;
             Some (False, s) }
           else Some (False, s)
         else Some (False, s)
       else Some (False, s)
     else Some (False, s) }"

text \<open>The filters of others get the connection and the event.\<close>

type_synonym 's event_filters = "callback_closure \<Rightarrow> nat \<Rightarrow> xcb_event \<Rightarrow> 's fcitx_xcb_scheme \<Rightarrow> (bool \<times> 's fcitx_xcb_scheme) option"

definition call_filter :: "xcb_world \<Rightarrow> 's event_filters \<Rightarrow> nat \<Rightarrow> xcb_event \<Rightarrow> callback_closure \<Rightarrow> 's fcitx_xcb_scheme \<Rightarrow> (bool \<times> 's fcitx_xcb_scheme) option" where
  "call_filter w filters a event p s = do {
     fc \<leftarrow> x_store s a;
     if cc_callback p = own_filter then fcitx_xcb_fitler_event w (cc_userData p) event s
     else filters p (xc_conn fc) event s }"

fun event_loop :: "xcb_world \<Rightarrow> 's event_filters \<Rightarrow> nat \<Rightarrow> xcb_event list \<Rightarrow> 's fcitx_xcb_scheme \<Rightarrow> 's fcitx_xcb_scheme option" where
  "event_loop w filters a [] s = Some s"
| "event_loop w filters a (event # rest) s = do {
     fc \<leftarrow> x_store s a;
     s \<leftarrow> for_callbacks (call_filter w filters a event) (ConnectionKey a) s;
     event_loop w filters a rest s }"

definition fcitx_xcb_io_callback ::
  "xcb_world \<Rightarrow> 's xcb_callbacks \<Rightarrow> 's event_filters \<Rightarrow> xcb_event list \<Rightarrow> nat \<Rightarrow> 's fcitx_xcb_scheme \<Rightarrow> 's fcitx_xcb_scheme option" where
  "fcitx_xcb_io_callback w cb filters queue a s = do {
     fc \<leftarrow> x_store s a;
     if xw_has_error w (xc_conn fc) then remove_connection cb (xc_name fc) s
     else event_loop w filters a queue s }"

section \<open>Opening and starting\<close>

text \<open>\<open>a\<close> is the address of the new connection.\<close>

definition fcitx_xcb_open_connection ::
  "xcb_world \<Rightarrow> 's xcb_callbacks \<Rightarrow> nat \<Rightarrow> cstr option \<Rightarrow> 's fcitx_xcb_scheme \<Rightarrow> 's fcitx_xcb_scheme option" where
  "fcitx_xcb_open_connection w cb a name s =
     (case (case name of None \<Rightarrow> xw_display w | Some n \<Rightarrow> Some n) of
        None \<Rightarrow> Some s
      | Some name \<Rightarrow>
          if fcitx_dict_lookup name (x_conns s) \<noteq> None then Some s
          else
            (case xw_connect w name of
               None \<Rightarrow> Some s
             | Some (conn, screenp) \<Rightarrow>
                 if xw_has_error w conn then Some (request (Disconnect conn) s)
                 else
                   (case xw_intern_atom w conn (bytes ''_FCITX_SERVER'') of
                      None \<Rightarrow> Some (request (Disconnect conn) s)
                    | Some atom \<Rightarrow> do {
                        let win = xw_generate_id w conn;
                        let s = request (SetSelectionOwner conn win atom) s;
                        (event, m) \<leftarrow> fcitx_mainloop_register_io_event (xw_fd w conn) FIOEF_IN io_callback_id False a (x_loop s);
                        let fc = \<lparr>xc_conn = conn, xc_screen = screenp, xc_event = event, xc_name = name, xc_atom = atom,
                              server_window = win, xc_group = None, xkbRulesNamesAtom = 0, xc_root = xw_root w conn screenp,
                              xkbFirstEvent = 0, hasXKB = False, coreDeviceId = 0, xkb_context = None, xkb_keymap = None,
                              xkb_state = None\<rparr>;
                        let s = s\<lparr>x_loop := m, x_store := (x_store s)(a \<mapsto> fc)\<rparr>;
                        s \<leftarrow> (case xw_xkb w conn of
                            None \<Rightarrow> Some s
                          | Some first \<Rightarrow>
                              let s = put_connection a (xkbFirstEvent_update (\<lambda>_. first)) s in
                              if \<not> xw_use_xkb w conn then Some s
                              else
                                let s = put_connection a (coreDeviceId_update (\<lambda>_. xw_device w conn)) s in
                                if xw_select_error w conn then Some s
                                else fcitx_xcb_update_keymap w a (put_connection a (hasXKB_update (\<lambda>_. True)) s));
                        let s = s\<lparr>x_conns := snd (fcitx_dict_insert name a False (x_conns s))\<rparr>;
                        let (g, im) = fcitx_input_context_focus_group_new (x_icManager s);
                        let s = put_connection a (xc_group_update (\<lambda>_. Some g)) (s\<lparr>x_icManager := im\<rparr>);
                        (_, s) \<leftarrow> fcitx_xcb_add_event_filter name own_filter a s;
                        for_callbacks (\<lambda>p s. do { fc \<leftarrow> x_store s a;
                            not_stopping (created_callback cb p (xc_name fc) (xc_conn fc) (xc_screen fc) (xc_group fc) s) })
                          ConnectionCreated s })))"

definition fcitx_xcb_init :: "xcb_world \<Rightarrow> unit xcb_callbacks \<Rightarrow> nat \<Rightarrow> mainloop \<Rightarrow> manager \<Rightarrow> fcitx_xcb option" where
  "fcitx_xcb_init w cb a loop icManager = do {
     t \<leftarrow> fcitx_handler_table_new 16 False;
     fcitx_xcb_open_connection w cb a None
       \<lparr>x_loop = loop, x_icManager = icManager, x_conns = fcitx_dict_new True, x_table = t,
        x_store = (\<lambda>_. None), x_requests = []\<rparr> }"

text \<open>Freeing the dictionary closes its connections, each after it is taken out.\<close>

fun close_all :: "'s xcb_callbacks \<Rightarrow> (cstr \<times> nat) list \<Rightarrow> 's fcitx_xcb_scheme \<Rightarrow> 's fcitx_xcb_scheme option" where
  "close_all cb [] s = Some s"
| "close_all cb ((k, a) # rest) s = do {
     d \<leftarrow> HASH_DEL k (x_conns s);
     s \<leftarrow> fcitx_xcb_connection_close cb a (s\<lparr>x_conns := d\<rparr>);
     close_all cb rest s }"

definition fcitx_xcb_destroy :: "'s xcb_callbacks \<Rightarrow> 's fcitx_xcb_scheme \<Rightarrow> 's fcitx_xcb_scheme option" where
  "fcitx_xcb_destroy cb s = do {
     s \<leftarrow> close_all cb (items (x_conns s)) s;
     _ \<leftarrow> fcitx_handler_table_free (x_table s);
     Some s }"

section \<open>The names\<close>

definition terminated :: "cstr list \<Rightarrow> byte list" where
  "terminated ns = concat (map (\<lambda>n. n @ [0]) ns)"

lemma terminated_simps [simp]: "terminated [] = []" "terminated (n # ns) = n @ 0 # terminated ns"
  by (simp_all add: terminated_def)

lemma take_name: "0 \<notin> set n \<Longrightarrow> takeWhile (\<lambda>c. c \<noteq> 0) (n @ 0 # rest) = (n :: cstr)"
  by (induction n) auto

lemma split_at_nul:
  "(0 :: byte) \<in> set xs \<Longrightarrow> xs = takeWhile (\<lambda>c. c \<noteq> 0) xs @ 0 # drop (Suc (length (takeWhile (\<lambda>c. c \<noteq> 0) xs))) xs"
  by (induction xs) auto

fun string_starts :: "nat \<Rightarrow> cstr list \<Rightarrow> nat list" where
  "string_starts p [] = []"
| "string_starts p (n # ns) = p # string_starts (p + length n + 1) ns"

lemma terminated_Nil [simp]: "terminated ns = [] \<longleftrightarrow> ns = []" "[] = terminated ns \<longleftrightarrow> ns = []"
  by (cases ns; simp)+

lemma nul_eq:
  "(0 :: byte) \<notin> set m \<Longrightarrow> 0 \<notin> set n \<Longrightarrow> m @ 0 # t = n @ 0 # y \<longleftrightarrow> m = n \<and> t = y"
proof (induction m arbitrary: n)
  case Nil
  then show ?case by (cases n) auto
next
  case (Cons c m)
  then show ?case by (cases n) auto
qed

text \<open>Data as strings, of which the last may miss its NUL; cutting off the first of them.\<close>

definition strings_of :: "byte list \<Rightarrow> cstr list \<Rightarrow> bool" where
  "strings_of xs ns \<longleftrightarrow> (\<forall>n \<in> set ns. 0 \<notin> set n) \<and> (xs = terminated ns \<or> xs @ [0] = terminated ns)"

lemma strings_of_Cons:
  fixes xs :: "byte list"
  defines "n \<equiv> takeWhile (\<lambda>c. c \<noteq> 0) xs"
  shows "strings_of xs (m # ms) \<longleftrightarrow> m = n \<and>
    (if ms = [] then length xs \<le> length n + 1 else length n + 1 \<le> length xs \<and> strings_of (drop (length n + 1) xs) ms)"
proof -
  have n: "0 \<notin> set n" unfolding n_def by (auto dest: set_takeWhileD)
  show ?thesis
  proof (cases "0 \<in> set xs")
    case True
    define y where "y = drop (length n + 1) xs"
    have xs: "xs = n @ 0 # y" unfolding y_def n_def using split_at_nul [OF True] by simp
    have "xs @ [0] = n @ 0 # (y @ [0])" by (simp add: xs)
    with xs show ?thesis using n by (auto simp: strings_of_def nul_eq simp flip: y_def)
  next
    case False
    then have "n = xs" unfolding n_def takeWhile_eq_all_conv by metis
    moreover have "xs \<noteq> m @ 0 # terminated ms" using False by auto
    moreover have "xs @ [0] = m @ 0 # terminated ms \<longleftrightarrow> m = xs \<and> ms = []" if "0 \<notin> set m"
      using nul_eq [OF that False, of "terminated ms" "[]"] by (metis terminated_Nil(1))
    ultimately show ?thesis using False unfolding strings_of_def terminated_simps by (cases ms) auto
  qed
qed

lemma names_loop_exact:
  "names_loop data p names = Some r \<longleftrightarrow>
   p \<le> length data \<and> (\<exists>ns. ns \<noteq> [] \<and> length names + length ns = 5 \<and> strings_of (drop p data) ns \<and> r = names @ string_starts p ns)"
proof (induction data p names rule: names_loop.induct)
  case (1 data p names)
  define n where "n = takeWhile (\<lambda>c. c \<noteq> 0) (drop p data)"
  let ?p = "p + length n + 1"
  show ?case
  proof (cases "length data < p \<or> 5 \<le> length names")
    case True
    then show ?thesis by (auto simp: names_loop.simps [of data p names] neq_Nil_conv)
  next
    case False
    have c: "strings_of (drop p data) (m # ms) \<longleftrightarrow> m = n \<and>
      (if ms = [] then length data \<le> ?p else ?p \<le> length data \<and> strings_of (drop ?p data) ms)" for m ms
    proof -
      have "drop (length n + 1) (drop p data) = drop ?p data" by (simp add: add.commute)
      moreover have "length (drop p data) \<le> length n + 1 \<longleftrightarrow> length data \<le> ?p"
        "length n + 1 \<le> length (drop p data) \<longleftrightarrow> ?p \<le> length data" using False by auto
      ultimately show ?thesis unfolding strings_of_Cons n_def [symmetric] by simp
    qed
    have ne: "(\<exists>ns. ns \<noteq> [] \<and> Q ns) \<longleftrightarrow> (\<exists>m ms. Q (m # ms))" for Q :: "cstr list \<Rightarrow> bool"
      by (metis neq_Nil_conv)
    show ?thesis
    proof (cases "?p < length data \<or> length (names @ [p]) < 5")
      case True
      have "names_loop data p names = names_loop data ?p (names @ [p])"
        using False True by (simp add: names_loop.simps [of data p names] n_def Let_def)
      moreover have "names_loop data ?p (names @ [p]) = Some r \<longleftrightarrow> ?p \<le> length data \<and>
          (\<exists>ns. ns \<noteq> [] \<and> length (names @ [p]) + length ns = 5 \<and> strings_of (drop ?p data) ns \<and> r = (names @ [p]) @ string_starts ?p ns)"
        using "1.IH" [of "length n" "names @ [p]" ?p] False True by (simp add: n_def)
      moreover have "(\<exists>m ms. length names + length (m # ms) = 5 \<and> (m = n \<and> (if ms = [] then length data \<le> ?p
          else ?p \<le> length data \<and> strings_of (drop ?p data) ms)) \<and> r = names @ string_starts p (m # ms)) \<longleftrightarrow>
        ?p \<le> length data \<and> (\<exists>ns. ns \<noteq> [] \<and> length (names @ [p]) + length ns = 5 \<and> strings_of (drop ?p data) ns \<and>
          r = (names @ [p]) @ string_starts ?p ns)" (is "?L = ?R")
      proof
        assume ?L
        then obtain ms where ms: "length names + length (n # ms) = 5" "r = names @ string_starts p (n # ms)"
          "if ms = [] then length data \<le> ?p else ?p \<le> length data \<and> strings_of (drop ?p data) ms" by blast
        then have "ms \<noteq> []" using True by auto
        then show ?R using ms by auto
      next
        assume ?R
        then obtain ns where "?p \<le> length data" "ns \<noteq> []" "length (names @ [p]) + length ns = 5"
          "strings_of (drop ?p data) ns" "r = (names @ [p]) @ string_starts ?p ns" by blast
        then show ?L by (intro exI [of _ n] exI [of _ ns]) simp
      qed
      ultimately show ?thesis using False unfolding ne c by simp
    next
      case last_one: False
      then have "names_loop data p names = Some (names @ [p])" "length names = 4"
        using False by (simp_all add: names_loop.simps [of data p names] n_def Let_def)
      then show ?thesis using False last_one unfolding ne c by auto
    qed
  qed
qed

lemma names_at_starts:
  "p \<le> length data \<Longrightarrow> strings_of (drop p data) ns \<Longrightarrow> ns \<noteq> [] \<Longrightarrow>
   names_at data (string_starts p ns) = (if drop p data = terminated ns then Some ns else None)"
proof (induction ns arbitrary: p)
  case (Cons m ms)
  let ?xs = "drop p data" and ?p = "p + length m + 1"
  from Cons.prems(2) have m: "m = takeWhile (\<lambda>c. c \<noteq> 0) ?xs"
    and r: "if ms = [] then length ?xs \<le> length m + 1 else length m + 1 \<le> length ?xs \<and> strings_of (drop (length m + 1) ?xs) ms"
    unfolding strings_of_Cons by auto
  have dd: "drop (length m + 1) ?xs = drop ?p data" by (simp add: add.commute)
  show ?case
  proof (cases "0 \<in> set ?xs")
    case True
    then have xs: "?xs = m @ 0 # drop ?p data" using split_at_nul [OF True] dd m by (simp add: add.commute)
    have na: "name_at data p = Some m" using True m by (simp add: name_at_def)
    show ?thesis
    proof (cases "ms = []")
      case True
      then show ?thesis using na xs r by (simp add: dd)
    next
      case False
      then have "?p \<le> length data" "strings_of (drop ?p data) ms" using r dd by auto
      from Cons.IH [OF this False] show ?thesis using na xs by simp
    qed
  next
    case False
    then show ?thesis by (auto simp: name_at_def)
  qed
qed simp

section \<open>Messages of a display\<close>

lemma set_local_group:
  "group (contexts (fcitx_input_context_set_focus_group a FICFG_Local (Some g) m) b) =
   (if b = a then Some g else group (contexts m b))"
proof -
  have i: "group (contexts (fcitx_input_context_focus_in x y) z) = group (contexts y z)" for x y z
    using focus_in_membership [of y x] by (simp add: same_membershipD)
  have o: "group (contexts (fcitx_input_context_focus_out x y) z) = group (contexts y z)" for x y z
    using focus_out_membership [of y x] by (simp add: same_membershipD)
  show ?thesis
    by (simp add: fcitx_input_context_set_focus_group_def set_focus_group_internal_eq relocate_contexts i o)
qed

text \<open>A message for the server window of the display, with the atom of the module.\<close>

definition for_display :: "xcb_event \<Rightarrow> xcb_connection \<Rightarrow> bool" where
  "for_display event fc \<longleftrightarrow> cm_window event = server_window fc \<and> cm_format event = 8 \<and> cm_type event = xc_atom fc"

lemma by_uuid_registered:
  "ic_inv m \<Longrightarrow> fcitx_input_context_manager_get_input_context_by_uuid u m = Some b \<Longrightarrow> b \<in> set (ics m) \<and> uuid (contexts m b) = u"
  by (auto simp: fcitx_input_context_manager_get_input_context_by_uuid_def ic_inv_def identity_ok_def find_Some_iff)

section \<open>Filters\<close>

text \<open>Offering an event to callbacks in order, up to the first that takes it.\<close>

fun offer :: "(callback_closure \<Rightarrow> 's fcitx_xcb_scheme \<Rightarrow> (bool \<times> 's fcitx_xcb_scheme) option) \<Rightarrow> callback_closure list \<Rightarrow> 's fcitx_xcb_scheme \<Rightarrow> 's fcitx_xcb_scheme option" where
  "offer f [] s = Some s"
| "offer f (p # ps) s = do { (stop, s) \<leftarrow> f p s; if stop then Some s else offer f ps s }"

definition keeps_table :: "(callback_closure \<Rightarrow> 's fcitx_xcb_scheme \<Rightarrow> (bool \<times> 's fcitx_xcb_scheme) option) \<Rightarrow> bool" where
  "keeps_table f \<longleftrightarrow> (\<forall>p s b s'. f p s = Some (b, s') \<longrightarrow> x_table s' = x_table s)"

lemma callback_loop_offer:
  assumes keep: "keeps_table f"
  shows "handler_ok (x_table s) c \<Longrightarrow> c k = xs @ ys \<Longrightarrow> length ys < n \<Longrightarrow>
    callback_loop n f (first_of INVALID ys) s = offer f (map (\<lambda>i. the (data_of (x_table s) i)) ys) s"
proof (induction ys arbitrary: xs n s)
  case Nil
  then show ?case by (cases n) (auto simp: fcitx_handler_table_get_by_id_def)
next
  case (Cons y ys)
  then obtain m where m: "n = Suc m" by (cases n) auto
  let ?t = "x_table s"
  have y: "y \<in> set (c k)" using Cons.prems by simp
  obtain ob where ob: "fcitx_handler_table_get_obj y ?t = Some ob" "cells ?t y = Some ob"
    using chain_obj [OF Cons.prems(1) y] by blast
  have nx: "obj_next ob = first_of INVALID ys"
    using chain_dl [OF Cons.prems(1), of k] Cons.prems(2) ob(2) by (auto simp: nx_def dest: dl_at)
  have "y \<noteq> INVALID" using chain_no_invalid [OF Cons.prems(1), of k] y by auto
  then have step: "callback_loop n f (first_of INVALID (y # ys)) s =
      do { (stop, s) \<leftarrow> f (obj_data ob) s; if stop then Some s else callback_loop m f (first_of INVALID ys) s }"
    using ob nx by (simp add: m fcitx_handler_table_get_by_id_def fcitx_handler_table_next_id_def)
  have d: "the (data_of ?t y) = obj_data ob" using ob(2) by (simp add: data_of_def)
  have rest: "callback_loop m f (first_of INVALID ys) s' = offer f (map (\<lambda>i. the (data_of ?t i)) ys) s'"
    if "f (obj_data ob) s = Some (False, s')" for s'
  proof -
    have t: "x_table s' = ?t" using keep that by (auto simp: keeps_table_def)
    show ?thesis using Cons.IH [of s' "xs @ [y]" m] Cons.prems m by (simp add: t)
  qed
  show ?case
    unfolding step using rest d by (cases "f (obj_data ob) s") (auto split: if_splits)
qed

lemma for_callbacks_offer:
  assumes "keeps_table f" and ok: "handler_ok (x_table s) c"
  shows "for_callbacks f k s = offer f (map (\<lambda>i. the (data_of (x_table s) i)) (c k)) s"
  using callback_loop_offer [OF assms, of k "[]" "c k"] chain_length [OF ok, of k] table_first_last(1) [OF ok, of k]
  by (simp add: for_callbacks_def)

text \<open>The filter of the module keeps the table.\<close>

lemma put_connection_fields [simp]:
  "x_table (put_connection a f s) = x_table s" "x_conns (put_connection a f s) = x_conns s"
  "x_icManager (put_connection a f s) = x_icManager s"
  by (simp_all add: put_connection_def)

lemma names_keep_table:
  assumes "fcitx_xcb_get_xkb_rules_names w d s = Some (r, s')" shows "x_table s' = x_table s"
proof (cases "fcitx_dict_lookup d (x_conns s)")
  case None
  then show ?thesis using assms by (simp add: fcitx_xcb_get_xkb_rules_names_def)
next
  case (Some a)
  obtain fc where fc: "x_store s a = Some fc"
    using assms Some by (auto simp: fcitx_xcb_get_xkb_rules_names_def bind_eq_Some_conv)
  define s1 where "s1 = (if xkbRulesNamesAtom fc = 0
      then case xw_intern_atom w (xc_conn fc) (bytes ''_XKB_RULES_NAMES'') of
          Some atom \<Rightarrow> put_connection a (xkbRulesNamesAtom_update (\<lambda>_. atom)) s
        | None \<Rightarrow> s
      else s)"
  have "s' = s1"
    using assms Some fc unfolding fcitx_xcb_get_xkb_rules_names_def by (auto simp: bind_eq_Some_conv Let_def simp flip: s1_def)
  moreover have "x_table s1 = x_table s" by (auto simp: s1_def split: option.split)
  ultimately show ?thesis by simp
qed

lemma keymap_keeps_table:
  assumes "fcitx_xcb_update_keymap w a s = Some s'" shows "x_table s' = x_table s"
proof -
  obtain fc ctx where fc: "x_store s a = Some fc" "(case xkb_context fc of None \<Rightarrow> xw_context_new w | Some c \<Rightarrow> Some c) = Some ctx"
    using assms by (auto simp: fcitx_xcb_update_keymap_def bind_eq_Some_conv)
  let ?s = "put_connection a (\<lambda>fc. fc\<lparr>xkb_context := Some ctx, xkb_keymap := None\<rparr>) s"
  define k where "k = (if hasXKB fc then xw_keymap_from_device w ctx (xc_conn fc) (coreDeviceId fc) else None)"
  show ?thesis
  proof (cases k)
    case (Some x)
    then show ?thesis
      using assms fc unfolding fcitx_xcb_update_keymap_def by (auto simp: bind_eq_Some_conv Let_def simp flip: k_def)
  next
    case None
    obtain r s1 where n: "fcitx_xcb_get_xkb_rules_names w (xc_name fc) ?s = Some (r, s1)"
      using assms fc None unfolding fcitx_xcb_update_keymap_def by (auto simp: bind_eq_Some_conv Let_def simp flip: k_def)
    then have t: "x_table s1 = x_table s" using names_keep_table [OF n] by simp
    obtain f where "s' = put_connection a f s1"
      using assms fc None n unfolding fcitx_xcb_update_keymap_def
      by (cases r) (auto simp: bind_eq_Some_conv Let_def simp flip: k_def)
    then show ?thesis using t by simp
  qed
qed

lemma own_filter_keeps_table:
  assumes "fcitx_xcb_fitler_event w a event s = Some (b, s')" shows "x_table s' = x_table s"
proof (cases "response_type event AND NOT 0x80 = XCB_CLIENT_MESSAGE")
  case True
  then show ?thesis
    using assms by (auto simp: fcitx_xcb_fitler_event_def bind_eq_Some_conv Let_def split: option.splits if_splits)
next
  case False
  then have "s' = s \<or> (\<exists>st. s' = request (UpdateMask st) s) \<or> fcitx_xcb_update_keymap w a s = Some s'"
    using assms by (auto simp: fcitx_xcb_fitler_event_def bind_eq_Some_conv Let_def split: if_splits)
  then show ?thesis by (auto simp: request_def keymap_keeps_table)
qed

lemma call_filter_keeps_table:
  assumes "\<And>p c s b s'. filters p c event s = Some (b, s') \<Longrightarrow> x_table s' = x_table s"
  shows "keeps_table (call_filter w filters a event)"
  unfolding keeps_table_def
proof (intro allI impI)
  fix p s b s' assume "call_filter w filters a event p s = Some (b, s')"
  then obtain fc :: xcb_connection where "(if cc_callback p = own_filter then fcitx_xcb_fitler_event w (cc_userData p) event s
      else filters p (xc_conn fc) event s) = Some (b, s')"
    unfolding call_filter_def bind_eq_Some_conv by blast
  then show "x_table s' = x_table s"
    using own_filter_keeps_table assms by (cases "cc_callback p = own_filter") simp_all
qed

section \<open>Properties\<close>

text \<open>C40: The loop over the rules of a display stays in its array of five names and in the data exactly when
  the data is five strings, of which the last may miss its NUL, and then the names are where the strings
  start.  Each of the names ends in the data exactly when the last string has its NUL too.\<close>

theorem rules_names_five:
  "(names_loop data 0 [] = Some ps \<longleftrightarrow>
      (\<exists>ns. length ns = 5 \<and> strings_of data ns \<and> ps = string_starts 0 ns)) \<and>
   ((\<exists>ps. names_loop data 0 [] = Some ps \<and> names_at data ps = Some ns) \<longleftrightarrow>
      length ns = 5 \<and> (\<forall>n \<in> set ns. 0 \<notin> set n) \<and> data = concat (map (\<lambda>n. n @ [0]) ns))"
proof -
  have l: "names_loop data 0 [] = Some ps \<longleftrightarrow> (\<exists>ns. length ns = 5 \<and> strings_of data ns \<and> ps = string_starts 0 ns)" for ps
  proof -
    have "ns \<noteq> []" if "length ns = 5" for ns :: "cstr list" using that by auto
    then show ?thesis unfolding names_loop_exact by (simp, blast)
  qed
  have n: "names_at data (string_starts 0 ms) = (if data = terminated ms then Some ms else None)"
    if "length ms = 5" "strings_of data ms" for ms
    using names_at_starts [of 0 data ms] that by fastforce
  have "(\<exists>ps. names_loop data 0 [] = Some ps \<and> names_at data ps = Some ns) \<longleftrightarrow>
      length ns = 5 \<and> (\<forall>n \<in> set ns. 0 \<notin> set n) \<and> data = terminated ns" (is "?L = ?R")
  proof
    assume ?L
    then obtain ms where ms: "length ms = 5" "strings_of data ms" "names_at data (string_starts 0 ms) = Some ns"
      unfolding l by blast
    then have "ns = ms" "data = terminated ms" using n [OF ms(1,2)] by (auto split: if_splits)
    then show ?R using ms by (simp add: strings_of_def)
  next
    assume R: ?R
    then have "strings_of data ns" by (simp add: strings_of_def)
    then show ?L using R n [of ns] l by auto
  qed
  then show ?thesis using l by (simp add: terminated_def)
qed

theorem rules_names_five_witness:
  "let data = bytes ''evdev'' @ 0 # bytes ''pc105'' @ 0 # bytes ''us'' @ [0, 0] in
   names_loop data 0 [] = Some [0, 6, 12, 15, 16] \<and>
   (\<exists>ps. names_loop (data @ [0]) 0 [] = Some ps \<and>
      names_at (data @ [0]) ps = Some [bytes ''evdev'', bytes ''pc105'', bytes ''us'', [], []])"
proof -
  let ?ns = "[bytes ''evdev'', bytes ''pc105'', bytes ''us'', [], []]"
  have "names_loop (bytes ''evdev'' @ 0 # bytes ''pc105'' @ 0 # bytes ''us'' @ [0, 0]) 0 [] = Some [0, 6, 12, 15, 16]"
    by (subst rules_names_five [THEN conjunct1], rule exI [of _ ?ns]) (simp add: strings_of_def)
  then show ?thesis unfolding Let_def rules_names_five [THEN conjunct2] by simp
qed

text \<open>C39: A client message of a display that names a context by its unique id moves that context, and no
  other, into the focus group of the display; every other client message leaves the contexts as they are.
  No client message is taken from the filters that follow.\<close>

theorem display_message:
  assumes "ic_reachable (x_icManager s)" and "x_store s a = Some fc" and "xc_group fc = Some g"
    and "g \<in> set (groups (x_icManager s))" and "response_type event AND NOT 0x80 = XCB_CLIENT_MESSAGE"
  shows "\<exists>s'. fcitx_xcb_fitler_event w a event s = Some (False, s') \<and> ic_reachable (x_icManager s') \<and>
    x_store s' = x_store s \<and> x_table s' = x_table s \<and> ics (x_icManager s') = ics (x_icManager s) \<and>
    (\<forall>b. group (contexts (x_icManager s') b) =
       (if for_display event fc \<and>
           fcitx_input_context_manager_get_input_context_by_uuid (take 16 (cm_data8 event)) (x_icManager s) = Some b
        then Some g else group (contexts (x_icManager s) b)))"
proof -
  let ?m = "x_icManager s"
  let ?u = "take 16 (cm_data8 event)"
  have run: "fcitx_xcb_fitler_event w a event s = Some (False,
      if for_display event fc
      then case fcitx_input_context_manager_get_input_context_by_uuid ?u ?m of
          Some ic \<Rightarrow> s\<lparr>x_icManager := fcitx_input_context_set_focus_group ic FICFG_Local (Some g) ?m\<rparr>
        | None \<Rightarrow> s
      else s)"
    using assms(2,3,5) by (simp add: fcitx_xcb_fitler_event_def for_display_def Let_def split: option.split)
  have inv: "ic_inv ?m" using assms(1) by (rule ic_reachable_inv)
  show ?thesis
  proof (cases "for_display event fc \<and> fcitx_input_context_manager_get_input_context_by_uuid ?u ?m \<noteq> None")
    case True
    then obtain b where b: "fcitx_input_context_manager_get_input_context_by_uuid ?u ?m = Some b" by blast
    have ics: "b \<in> set (ics ?m)" using by_uuid_registered [OF inv b] by simp
    let ?n = "fcitx_input_context_set_focus_group b FICFG_Local (Some g) ?m"
    have "ic_reachable ?n"
      by (rule ic_reachable.step [OF assms(1) ic_step.set_focus_group [OF ics]]) (simp add: live_groups_def assms(4))
    moreover have "ics ?n = ics ?m" using same_identityD [OF set_focus_group_identity] by simp
    ultimately show ?thesis using True b by (auto simp: run set_local_group)
  next
    case False
    then show ?thesis using assms(1) by (auto simp: run)
  qed
qed

text \<open>A display without answers, its connection, and a state with two contexts and a local group.\<close>

definition still_world :: xcb_world where
  "still_world = \<lparr>xw_display = None, xw_connect = (\<lambda>_. None), xw_has_error = (\<lambda>_. False), xw_intern_atom = (\<lambda>_ _. None),
     xw_generate_id = (\<lambda>_. 0), xw_root = (\<lambda>_ _. 0), xw_fd = (\<lambda>_. 0), xw_xkb = (\<lambda>_. None), xw_use_xkb = (\<lambda>_. False),
     xw_device = (\<lambda>_. 0), xw_select_error = (\<lambda>_. False), xw_get_property = (\<lambda>_ _ _. None), xw_context_new = None,
     xw_keymap_from_device = (\<lambda>_ _ _. None), xw_state_from_device = (\<lambda>_ _ _. None), xw_keymap_from_names = (\<lambda>_ _. None),
     xw_state_new = (\<lambda>_. None)\<rparr>"

definition example_connection :: xcb_connection where
  "example_connection = \<lparr>xc_conn = 3, xc_screen = 0, xc_event = (0, 0), xc_name = bytes '':0'', xc_atom = 70, server_window = 80,
     xc_group = Some 1, xkbRulesNamesAtom = 0, xc_root = 0, xkbFirstEvent = 0, hasXKB = False, coreDeviceId = 0,
     xkb_context = None, xkb_keymap = None, xkb_state = None\<rparr>"

definition display_state :: fcitx_xcb where
  "display_state = \<lparr>x_loop = the (fcitx_mainloop_new int), x_icManager = two_contexts, x_conns = fcitx_dict_new True,
     x_table = the (fcitx_handler_table_new 16 False), x_store = (\<lambda>_. None)(7 \<mapsto> example_connection), x_requests = []\<rparr>"

definition context_message :: xcb_event where
  "context_message = \<lparr>response_type = 0xa1, cm_window = 80, cm_format = 8, cm_type = 70,
     cm_data8 = replicate 16 1 @ replicate 4 0, xkbType = 0, deviceID = 0, nk_changed = 0\<rparr>"

theorem display_message_witness:
  "\<exists>s'. fcitx_xcb_fitler_event still_world 7 context_message display_state = Some (False, s') \<and>
     group (contexts (x_icManager display_state) 0) = Some 0 \<and> group (contexts (x_icManager s') 0) = Some 1"
proof -
  have f: "x_icManager display_state = two_contexts" "x_store display_state 7 = Some example_connection"
    "xc_group example_connection = Some 1" "1 \<in> set (groups two_contexts)"
    by (simp_all add: display_state_def example_connection_def two_contexts_fields)
  have e: "response_type context_message AND NOT 0x80 = XCB_CLIENT_MESSAGE" "for_display context_message example_connection"
    "take 16 (cm_data8 context_message) = replicate 16 1"
    by (simp_all add: context_message_def XCB_CLIENT_MESSAGE_def for_display_def example_connection_def)
  have u: "fcitx_input_context_manager_get_input_context_by_uuid (replicate 16 1) two_contexts = Some 0" by code_simp
  have r: "ic_reachable (x_icManager display_state)" "1 \<in> set (groups (x_icManager display_state))"
    unfolding f(1) by (rule two_contexts_reachable, rule f(4))
  obtain s' where s': "fcitx_xcb_fitler_event still_world 7 context_message display_state = Some (False, s')"
    "group (contexts (x_icManager s') 0) = Some 1"
    using display_message [OF r(1) f(2,3) r(2) e(1), of still_world] unfolding e(3) f(1) u by (auto simp: e(2))
  then show ?thesis using two_contexts_fields by (auto simp: f(1))
qed

text \<open>Each event of a display is offered to its filters in the order in which they were added, up to the
  first that takes it, when the filters leave the table of callbacks alone.\<close>

theorem filters_in_order:
  assumes "keeps_table (call_filter w filters a event)" and "handler_ok (x_table s) c"
  shows "event_loop w filters a (event # rest) s =
    (if x_store s a = None then None
     else do {
       s \<leftarrow> offer (call_filter w filters a event) (map (\<lambda>i. the (data_of (x_table s) i)) (c (ConnectionKey a))) s;
       event_loop w filters a rest s })"
  using for_callbacks_offer [OF assms] by (cases "x_store s a") simp_all

text \<open>A filter that takes every event.\<close>

definition taking_filter :: "'s event_filters" where
  "taking_filter p conn event s = Some (True, request (UpdateMask (cc_userData p)) s)"

theorem filters_in_order_witness:
  "\<exists>i t s'. fcitx_handler_table_append (ConnectionKey 7) \<lparr>cc_callback = 2, cc_userData = 30\<rparr> (x_table display_state) = Some (i, t) \<and>
     event_loop still_world taking_filter 7 [context_message] (display_state\<lparr>x_table := t\<rparr>) = Some s' \<and>
     x_requests s' = [UpdateMask 30]"
proof -
  obtain t :: "(xcb_key, callback_closure) handler_table" where
    t: "fcitx_handler_table_new 16 False = Some t" "handler_ok t (\<lambda>_. [])" "pool_room (objs t)"
    using new_ok [of 16 False False False] by (auto simp: fcitx_handler_table_new_def align_to_def)
  have x: "x_table display_state = t" using t(1) by (simp add: display_state_def)
  let ?p = "\<lparr>cc_callback = 2, cc_userData = 30\<rparr>"
  obtain i t1 where t1: "fcitx_handler_table_append (ConnectionKey 7) ?p t = Some (i, t1)"
    "handler_ok t1 ((\<lambda>_. [])(ConnectionKey 7 := [i]))" "data_of t1 i = Some ?p"
    using table_append_ok [OF t(2,3), of "ConnectionKey 7" ?p] by auto
  let ?s = "display_state\<lparr>x_table := t1\<rparr>"
  have keep: "keeps_table (call_filter still_world taking_filter 7 context_message)"
    by (rule call_filter_keeps_table) (simp add: taking_filter_def request_def)
  have st: "x_store ?s 7 = Some example_connection" "x_requests ?s = []" by (simp_all add: display_state_def)
  have ok: "handler_ok (x_table ?s) ((\<lambda>_. [])(ConnectionKey 7 := [i]))" using t1(2) by simp
  have "call_filter still_world taking_filter 7 context_message ?p ?s = Some (True, request (UpdateMask 30) ?s)"
    using st by (simp add: call_filter_def own_filter_def taking_filter_def)
  then have "event_loop still_world taking_filter 7 [context_message] ?s = Some (request (UpdateMask 30) ?s)"
    using filters_in_order [OF keep ok, of "[]"] st t1(3) by simp
  then show ?thesis using t1(1) x st(2) by (auto simp: request_def)
qed

section \<open>What goes wrong\<close>

text \<open>Without the keyboard extension its first event is 0, which is the response type of an error; an error
  of the display is then read as a change of the keyboard state, which there is none of.\<close>

lemma error_taken_for_keyboard:
  assumes "x_store s a = Some fc" and "xkbFirstEvent fc = 0" and "coreDeviceId fc = 0" and "xkb_state fc = None"
    and "response_type event = 0" and "deviceID event = 0" and "xkbType event = XCB_XKB_STATE_NOTIFY"
  shows "fcitx_xcb_fitler_event w a event s = None"
  using assms by (simp add: fcitx_xcb_fitler_event_def XCB_CLIENT_MESSAGE_def)

text \<open>A context of the keyboard library that cannot be made is used before it is checked.\<close>

lemma no_context_crashes:
  "x_store s a = Some fc \<Longrightarrow> xkb_context fc = None \<Longrightarrow> xw_context_new w = None \<Longrightarrow> fcitx_xcb_update_keymap w a s = None"
  by (simp add: fcitx_xcb_update_keymap_def)

text \<open>The keymap of a new connection is made before the connection is in the dictionary, so the names of its
  rules are not found.\<close>

lemma rules_not_found:
  "fcitx_dict_lookup display (x_conns s) = None \<Longrightarrow> fcitx_xcb_get_xkb_rules_names w display s = Some (None, s)"
  by (simp add: fcitx_xcb_get_xkb_rules_names_def)

text \<open>The filters of a connection are not removed with it: a later connection at the same address starts
  with them.\<close>

lemma filters_stay:
  assumes "fcitx_xcb_connection_close cb a s = Some s'"
    and "handler_ok (x_table s) c" and "c ConnectionClosed = []"
  shows "x_table s' = x_table s \<and> x_store s' a = None"
proof -
  have "for_callbacks f ConnectionClosed s = Some s" for f
    using table_first_last(1) [OF assms(2), of ConnectionClosed] assms(3)
    by (simp add: for_callbacks_def chain_fuel_def fcitx_handler_table_get_by_id_def)
  then show ?thesis
    using assms(1) by (auto simp: fcitx_xcb_connection_close_def bind_eq_Some_conv Let_def request_def put_connection_def)
qed

end
