(* ===== verification/UtArray.thy ===== *)
theory UtArray
  imports Prelude
begin

text \<open>
  \<open>src/lib/fcitx-utils/utarray.h\<close>, the growable array of values that the C code keeps its strings,
  its memory chunks and its tables in.  \<open>ut_d\<close> is the allocated block, one entry per slot, \<open>None\<close> a
  slot never written; its length is the capacity \<open>n\<close>.  \<open>ut_i\<close> is the number of elements.  The
  functions of \<open>UT_icd\<close> may have effects, which they make on a state of type \<open>'w\<close>; a NULL function
  is \<open>None\<close>.  An operation is \<open>None\<close> when it leaves the block, hands a NULL element to a function of
  the caller, or wraps the number of elements around.  A pointer to an element is its index.

  An element given by address is read when the operation starts: the callers pass no element of the
  array they change.  Memory is never exhausted (\<open>fcitx_utils_realloc\<close> aborts).
\<close>

section \<open>The array\<close>

record ('a, 'w) ut_icd =
  icd_init :: "('w \<Rightarrow> 'a \<times> 'w) option"
  icd_copy :: "('a \<Rightarrow> 'w \<Rightarrow> 'a \<times> 'w) option"
  icd_dtor :: "('a \<Rightarrow> 'w \<Rightarrow> 'w) option"

record ('a, 'w) ut_array =
  ut_i :: nat
  ut_d :: "'a option list"
  ut_icd :: "('a, 'w) ut_icd"

definition put_slot :: "'a option list \<Rightarrow> nat \<Rightarrow> 'a \<Rightarrow> 'a option list option" where
  "put_slot d j v = (if j < length d then Some (d[j := Some v]) else None)"

definition get_slot :: "'a option list \<Rightarrow> nat \<Rightarrow> 'a option" where
  "get_slot d j = (if j < length d then d ! j else None)"

text \<open>\<open>memmove\<close> of \<open>cnt\<close> slots from \<open>src\<close> to \<open>dst\<close>.\<close>

definition move_slots :: "'a option list \<Rightarrow> nat \<Rightarrow> nat \<Rightarrow> nat \<Rightarrow> 'a option list option" where
  "move_slots d dst src cnt =
     (if dst + cnt \<le> length d \<and> src + cnt \<le> length d
      then Some (take dst d @ take cnt (drop src d) @ drop (dst + cnt) d) else None)"

text \<open>Storing an element at a slot: through the copy function when there is one.\<close>

definition store_elt ::
  "('a, 'w) ut_icd \<Rightarrow> 'a option list \<Rightarrow> nat \<Rightarrow> 'a \<Rightarrow> 'w \<Rightarrow> ('a option list \<times> 'w) option" where
  "store_elt icd d j p w =
     (case icd_copy icd of
        Some copy \<Rightarrow> (case copy p w of (v, w) \<Rightarrow> do { d \<leftarrow> put_slot d j v; Some (d, w) })
      | None \<Rightarrow> do { d \<leftarrow> put_slot d j p; Some (d, w) })"

fun store_elts ::
  "('a, 'w) ut_icd \<Rightarrow> 'a option list \<Rightarrow> nat \<Rightarrow> 'a list \<Rightarrow> 'w \<Rightarrow> ('a option list \<times> 'w) option" where
  "store_elts icd d j [] w = Some (d, w)"
| "store_elts icd d j (p # ps) w =
     do { (d, w) \<leftarrow> store_elt icd d j p w; store_elts icd d (Suc j) ps w }"

text \<open>The destructor, when there is one, on each of the listed slots.\<close>

fun destroy_slots ::
  "('a, 'w) ut_icd \<Rightarrow> nat \<Rightarrow> 'a option list \<Rightarrow> nat list \<Rightarrow> 'w \<Rightarrow> 'w option" where
  "destroy_slots icd i d [] w = Some w"
| "destroy_slots icd i d (j # js) w =
     (case icd_dtor icd of
        None \<Rightarrow> Some w
      | Some dtor \<Rightarrow>
          if j < i then do { v \<leftarrow> get_slot d j; destroy_slots icd i d js (dtor v w) } else None)"

definition utarray_new :: "('a, 'w) ut_icd \<Rightarrow> ('a, 'w) ut_array" where
  "utarray_new icd = \<lparr>ut_i = 0, ut_d = [], ut_icd = icd\<rparr>"

definition utarray_new_alt ::
  "('w \<Rightarrow> 'a \<times> 'w) option \<Rightarrow> ('a \<Rightarrow> 'w \<Rightarrow> 'a \<times> 'w) option \<Rightarrow> ('a \<Rightarrow> 'w \<Rightarrow> 'w) option \<Rightarrow>
   ('a, 'w) ut_array" where
  "utarray_new_alt init copy dtor =
     utarray_new \<lparr>icd_init = init, icd_copy = copy, icd_dtor = dtor\<rparr>"

text \<open>The block is gone after \<open>utarray_done\<close>, the number of elements stays.\<close>

definition utarray_done :: "('a, 'w) ut_array \<Rightarrow> 'w \<Rightarrow> (('a, 'w) ut_array \<times> 'w) option" where
  "utarray_done a w =
     (if length (ut_d a) \<noteq> 0
      then do {
        w \<leftarrow> destroy_slots (ut_icd a) (ut_i a) (ut_d a) [0..<ut_i a] w;
        Some (a\<lparr>ut_d := []\<rparr>, w) }
      else Some (a\<lparr>ut_d := []\<rparr>, w))"

definition utarray_free :: "('a, 'w) ut_array option \<Rightarrow> 'w \<Rightarrow> 'w option" where
  "utarray_free a w = (case a of None \<Rightarrow> Some w | Some a \<Rightarrow> map_option snd (utarray_done a w))"

definition utarray_steal :: "('a, 'w) ut_array \<Rightarrow> 'a option list option \<times> ('a, 'w) ut_array" where
  "utarray_steal a =
     (if length (ut_d a) = 0 then (None, a)
      else (Some (ut_d a), a\<lparr>ut_i := 0, ut_d := []\<rparr>))"

function reserve_loop :: "nat \<Rightarrow> nat \<Rightarrow> nat" where
  "reserve_loop target n =
     (if n < target then reserve_loop target (if n \<noteq> 0 then 2 * n else 8) else n)"
  by auto
termination
  by (relation "measure (\<lambda>(t, n). t - n)") auto

declare reserve_loop.simps [simp del]

definition utarray_reserve :: "('a, 'w) ut_array \<Rightarrow> nat \<Rightarrow> ('a, 'w) ut_array" where
  "utarray_reserve a by_n =
     (if ut_i a + by_n > length (ut_d a)
      then a\<lparr>ut_d := ut_d a @
               replicate (reserve_loop (ut_i a + by_n) (length (ut_d a)) - length (ut_d a)) None\<rparr>
      else a)"

definition utarray_push_back ::
  "('a, 'w) ut_array \<Rightarrow> 'a \<Rightarrow> 'w \<Rightarrow> (('a, 'w) ut_array \<times> 'w) option" where
  "utarray_push_back a p w = do {
     let a = utarray_reserve a 1;
     (d, w) \<leftarrow> store_elt (ut_icd a) (ut_d a) (ut_i a) p w;
     Some (a\<lparr>ut_d := d, ut_i := ut_i a + 1\<rparr>, w) }"

definition utarray_pop_back ::
  "('a, 'w) ut_array \<Rightarrow> 'w \<Rightarrow> (('a, 'w) ut_array \<times> 'w) option" where
  "utarray_pop_back a w =
     (if ut_i a = 0 then None
      else case icd_dtor (ut_icd a) of
        Some dtor \<Rightarrow> do {
          v \<leftarrow> get_slot (ut_d a) (ut_i a - 1);
          Some (a\<lparr>ut_i := ut_i a - 1\<rparr>, dtor v w) }
      | None \<Rightarrow> Some (a\<lparr>ut_i := ut_i a - 1\<rparr>, w))"

text \<open>\<open>zero\<close> is the element whose bytes are all zero.\<close>

definition utarray_extend_back ::
  "'a \<Rightarrow> ('a, 'w) ut_array \<Rightarrow> 'w \<Rightarrow> (('a, 'w) ut_array \<times> 'w) option" where
  "utarray_extend_back zero a w =
     (let a = utarray_reserve a 1 in
      case (case icd_init (ut_icd a) of Some init \<Rightarrow> init w | None \<Rightarrow> (zero, w)) of
        (v, w) \<Rightarrow> do {
          d \<leftarrow> put_slot (ut_d a) (ut_i a) v;
          Some (a\<lparr>ut_d := d, ut_i := ut_i a + 1\<rparr>, w) })"

definition utarray_len :: "('a, 'w) ut_array \<Rightarrow> nat" where
  "utarray_len a = ut_i a"

definition utarray_push_front ::
  "('a, 'w) ut_array \<Rightarrow> 'a \<Rightarrow> 'w \<Rightarrow> (('a, 'w) ut_array \<times> 'w) option" where
  "utarray_push_front a p w = do {
     let a = utarray_reserve a 1;
     d \<leftarrow> (if 0 < ut_i a then move_slots (ut_d a) 1 0 (ut_i a) else Some (ut_d a));
     (d, w) \<leftarrow> store_elt (ut_icd a) d 0 p w;
     Some (a\<lparr>ut_d := d, ut_i := ut_i a + 1\<rparr>, w) }"

definition utarray_insert ::
  "('a, 'w) ut_array \<Rightarrow> 'a \<Rightarrow> nat \<Rightarrow> 'w \<Rightarrow> (('a, 'w) ut_array \<times> 'w) option" where
  "utarray_insert a p j w =
     (let a = utarray_reserve a 1 in
      if j > ut_i a then Some (a, w)
      else do {
        d \<leftarrow> (if j < ut_i a then move_slots (ut_d a) (j + 1) j (ut_i a - j) else Some (ut_d a));
        (d, w) \<leftarrow> store_elt (ut_icd a) d j p w;
        Some (a\<lparr>ut_d := d, ut_i := ut_i a + 1\<rparr>, w) })"

definition utarray_move ::
  "('a, 'w) ut_array \<Rightarrow> nat \<Rightarrow> nat \<Rightarrow> ('a, 'w) ut_array option" where
  "utarray_move a f t =
     (if f \<ge> ut_i a \<or> t \<ge> ut_i a \<or> f = t then Some a
      else do {
        temp \<leftarrow> get_slot (ut_d a) f;
        d \<leftarrow> (if f > t then move_slots (ut_d a) (t + 1) t (f - t)
              else move_slots (ut_d a) f (f + 1) (t - f));
        d \<leftarrow> put_slot d t temp;
        Some (a\<lparr>ut_d := d\<rparr>) })"

text \<open>\<open>memcpy\<close> of the slots of another array to the slots from \<open>j\<close> on.\<close>

definition copy_slots :: "'a option list \<Rightarrow> nat \<Rightarrow> 'a option list \<Rightarrow> 'a option list option" where
  "copy_slots d j src =
     (if j + length src \<le> length d then Some (take j d @ src @ drop (j + length src) d) else None)"

fun read_slots :: "'a option list \<Rightarrow> nat list \<Rightarrow> 'a list option" where
  "read_slots d [] = Some []"
| "read_slots d (j # js) = do { v \<leftarrow> get_slot d j; vs \<leftarrow> read_slots d js; Some (v # vs) }"

definition fill_slots ::
  "('a, 'w) ut_icd \<Rightarrow> 'a option list \<Rightarrow> nat \<Rightarrow> ('a, 'w) ut_array \<Rightarrow> 'w \<Rightarrow>
   ('a option list \<times> 'w) option" where
  "fill_slots icd d j src w =
     (if icd_copy icd \<noteq> None
      then do { vs \<leftarrow> read_slots (ut_d src) [0..<ut_i src]; store_elts icd d j vs w }
      else if ut_i src \<le> length (ut_d src)
        then do { d \<leftarrow> copy_slots d j (take (ut_i src) (ut_d src)); Some (d, w) }
        else None)"

definition utarray_inserta ::
  "('a, 'w) ut_array \<Rightarrow> ('a, 'w) ut_array \<Rightarrow> nat \<Rightarrow> 'w \<Rightarrow> (('a, 'w) ut_array \<times> 'w) option" where
  "utarray_inserta a src j w =
     (if utarray_len src = 0 \<or> j > ut_i a then Some (a, w)
      else do {
        let a = utarray_reserve a (utarray_len src);
        d \<leftarrow> (if j < ut_i a then move_slots (ut_d a) (j + utarray_len src) j (ut_i a - j)
              else Some (ut_d a));
        (d, w) \<leftarrow> fill_slots (ut_icd a) d j src w;
        Some (a\<lparr>ut_d := d, ut_i := ut_i a + utarray_len src\<rparr>, w) })"

definition utarray_concat ::
  "('a, 'w) ut_array \<Rightarrow> ('a, 'w) ut_array \<Rightarrow> 'w \<Rightarrow> (('a, 'w) ut_array \<times> 'w) option" where
  "utarray_concat dst src w = utarray_inserta dst src (utarray_len dst) w"

text \<open>
  Growing through \<open>utarray_resize\<close> asks \<open>utarray_eltptr\<close> for elements that are not there yet: the
  initialiser is called on NULL.
\<close>

definition utarray_eltptr :: "('a, 'w) ut_array \<Rightarrow> nat \<Rightarrow> nat option" where
  "utarray_eltptr a j = (if j < ut_i a then Some j else None)"

fun init_slots :: "('w \<Rightarrow> 'a \<times> 'w) \<Rightarrow> ('a, 'w) ut_array \<Rightarrow> nat list \<Rightarrow> 'w \<Rightarrow>
    (('a, 'w) ut_array \<times> 'w) option" where
  "init_slots init a [] w = Some (a, w)"
| "init_slots init a (j # js) w =
     (case utarray_eltptr a j of
        None \<Rightarrow> None
      | Some k \<Rightarrow> (case init w of (v, w) \<Rightarrow> do {
          d \<leftarrow> put_slot (ut_d a) k v;
          init_slots init (a\<lparr>ut_d := d\<rparr>) js w }))"

definition utarray_resize ::
  "'a \<Rightarrow> ('a, 'w) ut_array \<Rightarrow> nat \<Rightarrow> 'w \<Rightarrow> (('a, 'w) ut_array \<times> 'w) option" where
  "utarray_resize zero a num w = do {
     (a, w) \<leftarrow>
       (if ut_i a > num then do {
          w \<leftarrow> destroy_slots (ut_icd a) (ut_i a) (ut_d a) [num..<ut_i a] w;
          Some (a, w) }
        else if ut_i a < num then
          (let a = utarray_reserve a (num - ut_i a) in
           case icd_init (ut_icd a) of
             Some init \<Rightarrow> init_slots init a [ut_i a..<num] w
           | None \<Rightarrow> do {
               d \<leftarrow> copy_slots (ut_d a) (ut_i a) (replicate (num - ut_i a) (Some zero));
               Some (a\<lparr>ut_d := d\<rparr>, w) })
        else Some (a, w));
     Some (a\<lparr>ut_i := num\<rparr>, w) }"

definition utarray_erase ::
  "('a, 'w) ut_array \<Rightarrow> nat \<Rightarrow> nat \<Rightarrow> 'w \<Rightarrow> (('a, 'w) ut_array \<times> 'w) option" where
  "utarray_erase a pos cnt w = do {
     w \<leftarrow> destroy_slots (ut_icd a) (ut_i a) (ut_d a) [pos..<pos + cnt] w;
     d \<leftarrow> (if ut_i a > pos + cnt
           then move_slots (ut_d a) pos (pos + cnt) (ut_i a - (pos + cnt)) else Some (ut_d a));
     if ut_i a < cnt then None else Some (a\<lparr>ut_d := d, ut_i := ut_i a - cnt\<rparr>, w) }"

definition utarray_remove_quick :: "('a, 'w) ut_array \<Rightarrow> nat \<Rightarrow> ('a, 'w) ut_array option" where
  "utarray_remove_quick a pos =
     (if ut_i a = 0 then None
      else do {
        d \<leftarrow> (if ut_i a - 1 \<noteq> pos
              then do { v \<leftarrow> get_slot (ut_d a) (ut_i a - 1); put_slot (ut_d a) pos v }
              else Some (ut_d a));
        Some (a\<lparr>ut_d := d, ut_i := ut_i a - 1\<rparr>) })"

definition utarray_remove_quick_full ::
  "('a, 'w) ut_array \<Rightarrow> nat \<Rightarrow> 'w \<Rightarrow> (('a, 'w) ut_array \<times> 'w) option" where
  "utarray_remove_quick_full a pos w = do {
     w \<leftarrow> destroy_slots (ut_icd a) (ut_i a) (ut_d a) [pos] w;
     a \<leftarrow> utarray_remove_quick a pos;
     Some (a, w) }"

definition utarray_clear ::
  "('a, 'w) ut_array \<Rightarrow> 'w \<Rightarrow> (('a, 'w) ut_array \<times> 'w) option" where
  "utarray_clear a w =
     (if ut_i a > 0
      then do {
        w \<leftarrow> destroy_slots (ut_icd a) (ut_i a) (ut_d a) [0..<ut_i a] w;
        Some (a\<lparr>ut_i := 0\<rparr>, w) }
      else Some (a, w))"

text \<open>Sorting hands a part of the block to a sorting routine, a parameter.\<close>

definition utarray_sort_range ::
  "('a list \<Rightarrow> 'a list) \<Rightarrow> ('a, 'w) ut_array \<Rightarrow> nat \<Rightarrow> nat \<Rightarrow> ('a, 'w) ut_array option" where
  "utarray_sort_range qsort a from_i to_i =
     (if from_i \<ge> to_i \<or> from_i \<ge> ut_i a \<or> to_i > ut_i a then Some a
      else do {
        vs \<leftarrow> read_slots (ut_d a) [from_i..<to_i];
        d \<leftarrow> copy_slots (ut_d a) from_i (map Some (qsort vs));
        Some (a\<lparr>ut_d := d\<rparr>) })"

definition utarray_sort ::
  "('a list \<Rightarrow> 'a list) \<Rightarrow> ('a, 'w) ut_array \<Rightarrow> ('a, 'w) ut_array option" where
  "utarray_sort qsort a = do {
     vs \<leftarrow> read_slots (ut_d a) [0..<ut_i a];
     d \<leftarrow> copy_slots (ut_d a) 0 (map Some (qsort vs));
     Some (a\<lparr>ut_d := d\<rparr>) }"

definition utarray_front :: "('a, 'w) ut_array \<Rightarrow> nat option" where
  "utarray_front a = (if ut_i a \<noteq> 0 then Some 0 else None)"

definition utarray_back :: "('a, 'w) ut_array \<Rightarrow> nat option" where
  "utarray_back a = (if ut_i a \<noteq> 0 then Some (ut_i a - 1) else None)"

definition utarray_next :: "('a, 'w) ut_array \<Rightarrow> nat option \<Rightarrow> nat option" where
  "utarray_next a e =
     (case e of None \<Rightarrow> utarray_front a | Some k \<Rightarrow> if ut_i a > k + 1 then Some (k + 1) else None)"

definition utarray_prev :: "('a, 'w) ut_array \<Rightarrow> nat option \<Rightarrow> nat option" where
  "utarray_prev a e =
     (case e of None \<Rightarrow> utarray_back a | Some k \<Rightarrow> if k = 0 then None else Some (k - 1))"

text \<open>The loop \<open>utarray_foreach\<close> from a pointer on, over a body that does not change the array.\<close>

function foreach_elt ::
  "('a \<Rightarrow> 's \<Rightarrow> 's) \<Rightarrow> ('a, 'w) ut_array \<Rightarrow> nat option \<Rightarrow> 's \<Rightarrow> 's option" where
  "foreach_elt body a e s =
     (case e of
        None \<Rightarrow> Some s
      | Some k \<Rightarrow> do { v \<leftarrow> get_slot (ut_d a) k; foreach_elt body a (utarray_next a (Some k)) (body v s) })"
  by pat_completeness auto
termination
  by (relation "measure (\<lambda>(b, a, e, s). case e of None \<Rightarrow> 0 | Some k \<Rightarrow> Suc (ut_i a - k))")
    (auto simp: utarray_next_def)

declare foreach_elt.simps [simp del]

definition utarray_foreach ::
  "('a \<Rightarrow> 's \<Rightarrow> 's) \<Rightarrow> ('a, 'w) ut_array \<Rightarrow> 's \<Rightarrow> 's option" where
  "utarray_foreach body a s = foreach_elt body a (utarray_front a) s"

definition utarray_clone ::
  "('a, 'w) ut_array \<Rightarrow> 'w \<Rightarrow> (('a, 'w) ut_array \<times> 'w) option" where
  "utarray_clone src w =
     (let t = utarray_new (ut_icd src) in
      if utarray_len src = 0 then Some (t, w)
      else do {
        let t = utarray_reserve t (utarray_len src);
        (d, w) \<leftarrow> fill_slots (ut_icd t) (ut_d t) 0 src w;
        Some (t\<lparr>ut_d := d, ut_i := utarray_len src\<rparr>, w) })"

section \<open>The list an array holds\<close>

definition holds :: "('a, 'w) ut_array \<Rightarrow> 'a list \<Rightarrow> bool" where
  "holds a xs \<longleftrightarrow> ut_i a = length xs \<and> (\<exists>rest. ut_d a = map Some xs @ rest)"

definition copied :: "('a, 'w) ut_icd \<Rightarrow> 'a \<Rightarrow> 'w \<Rightarrow> 'a \<times> 'w" where
  "copied icd p w = (case icd_copy icd of Some copy \<Rightarrow> copy p w | None \<Rightarrow> (p, w))"

fun copied_all :: "('a, 'w) ut_icd \<Rightarrow> 'a list \<Rightarrow> 'w \<Rightarrow> 'a list \<times> 'w" where
  "copied_all icd [] w = ([], w)"
| "copied_all icd (p # ps) w =
     (case copied icd p w of (v, w) \<Rightarrow> case copied_all icd ps w of (vs, w) \<Rightarrow> (v # vs, w))"

definition destroyed :: "('a, 'w) ut_icd \<Rightarrow> 'a list \<Rightarrow> 'w \<Rightarrow> 'w" where
  "destroyed icd vs w = (case icd_dtor icd of Some dtor \<Rightarrow> fold dtor vs w | None \<Rightarrow> w)"

lemma holds_new [simp]: "holds (utarray_new icd) []"
  by (simp add: holds_def utarray_new_def)

lemma holds_rest:
  "holds a xs \<Longrightarrow> (\<And>rest. ut_i a = length xs \<Longrightarrow> ut_d a = map Some xs @ rest \<Longrightarrow> thesis) \<Longrightarrow> thesis"
  by (auto simp: holds_def)

lemma holds_make:
  "holds (a\<lparr>ut_d := map Some xs @ rest, ut_i := n\<rparr>) xs \<longleftrightarrow> n = length xs"
  "holds (a\<lparr>ut_i := n, ut_d := map Some xs @ rest\<rparr>) xs \<longleftrightarrow> n = length xs"
  by (auto simp: holds_def)

lemma reserve_loop_ge: "target \<le> reserve_loop target n"
  by (induction target n rule: reserve_loop.induct) (subst reserve_loop.simps, simp)

lemma reserve_loop_grows: "n \<le> reserve_loop target n"
proof (induction target n rule: reserve_loop.induct)
  case (1 target n)
  show ?case
    by (subst reserve_loop.simps) (use 1 in \<open>fastforce split: if_splits\<close>)
qed

lemma reserve_simps [simp]:
  "ut_i (utarray_reserve a k) = ut_i a" "ut_icd (utarray_reserve a k) = ut_icd a"
  by (simp_all add: utarray_reserve_def)

lemma reserve_room:
  assumes "holds a xs"
  obtains rest where "ut_d (utarray_reserve a k) = map Some xs @ rest" "k \<le> length rest"
proof -
  obtain rest where r: "ut_i a = length xs" "ut_d a = map Some xs @ rest"
    using assms by (auto simp: holds_def)
  show thesis
  proof (cases "ut_i a + k > length (ut_d a)")
    case True
    let ?n = "reserve_loop (ut_i a + k) (length (ut_d a))"
    have "ut_i a + k \<le> ?n" "length (ut_d a) \<le> ?n"
      by (rule reserve_loop_ge reserve_loop_grows)+
    then show thesis
      using r True that[of "rest @ replicate (?n - length (ut_d a)) None"]
      by (simp add: utarray_reserve_def)
  next
    case False
    then show thesis using r that[of rest] by (simp add: utarray_reserve_def)
  qed
qed

lemma holds_reserve [simp]: "holds a xs \<Longrightarrow> holds (utarray_reserve a k) xs"
  by (rule reserve_room[of a xs k]) (auto simp: holds_def)

lemma put_slot_at:
  "j = length us \<Longrightarrow> put_slot (us @ v # ws) j x = Some (us @ Some x # ws)"
  by (simp add: put_slot_def)

lemma get_slot_elt: "j < length xs \<Longrightarrow> get_slot (map Some xs @ rest) j = Some (xs ! j)"
  by (simp add: get_slot_def nth_append)

lemma move_slots_up:
  "dst = length us + m \<Longrightarrow> src = length us \<Longrightarrow> cnt = length vs \<Longrightarrow> m \<le> length ws \<Longrightarrow>
   move_slots (us @ vs @ ws) dst src cnt =
     Some (us @ take m (vs @ ws) @ vs @ drop m ws)"
  by (simp add: move_slots_def)

lemma move_slots_down:
  "dst = length us \<Longrightarrow> src = length us + length ts \<Longrightarrow> cnt = length vs \<Longrightarrow>
   move_slots (us @ ts @ vs @ ws) dst src cnt = Some (us @ vs @ drop (length vs) (ts @ vs) @ ws)"
  by (simp add: move_slots_def)

lemma store_elt_at:
  assumes "j = length us" and "copied icd p w = (v, w')"
  shows "store_elt icd (us @ y # ws) j p w = Some (us @ Some v # ws, w')"
  using assms by (simp add: store_elt_def copied_def put_slot_at split: option.splits)

lemma store_elts_at:
  "j = length us \<Longrightarrow> length vs \<le> length ws \<Longrightarrow>
   store_elts icd (us @ ws) j vs w =
     Some (us @ map Some (fst (copied_all icd vs w)) @ drop (length vs) ws, snd (copied_all icd vs w))"
proof (induction vs arbitrary: us ws j w)
  case Nil
  then show ?case by simp
next
  case (Cons p ps)
  then obtain y ys where ws: "ws = y # ys" by (cases ws) auto
  obtain v w' where c: "copied icd p w = (v, w')" by (cases "copied icd p w")
  have s: "store_elt icd (us @ ws) j p w = Some (us @ Some v # ys, w')"
    using store_elt_at[OF Cons.prems(1) c, of y ys] ws by simp
  show ?case
    using Cons.IH[of "Suc j" "us @ [Some v]" ys w'] Cons.prems s c ws
    by (simp add: s split: prod.splits)
qed

lemma length_copied_all [simp]: "length (fst (copied_all icd vs w)) = length vs"
  by (induction icd vs w rule: copied_all.induct) (auto split: prod.splits)

lemma copied_all_plain:
  "icd_copy icd = None \<Longrightarrow> copied_all icd vs w = (vs, w)"
  by (induction vs arbitrary: w) (auto simp: copied_def)

lemma destroy_slots_run:
  "i \<le> length xs \<Longrightarrow> \<forall>j \<in> set js. j < i \<Longrightarrow>
   destroy_slots icd i (map Some xs @ rest) js w = Some (destroyed icd (map ((!) xs) js) w)"
  by (induction js arbitrary: w)
    (auto simp: destroyed_def get_slot_elt split: option.splits)

lemma read_slots_run:
  "\<forall>j \<in> set js. j < length xs \<Longrightarrow> read_slots (map Some xs @ rest) js = Some (map ((!) xs) js)"
  by (induction js) (auto simp: get_slot_elt)

lemma map_nth_upt: "a \<le> b \<Longrightarrow> b \<le> length xs \<Longrightarrow> map ((!) xs) [a..<b] = take (b - a) (drop a xs)"
  by (rule nth_equalityI) auto

lemma fill_slots_run:
  assumes "holds src ys" and "j = length us" and "length ys \<le> length ws"
  shows "fill_slots icd (us @ ws) j src w =
    Some (us @ map Some (fst (copied_all icd ys w)) @ drop (length ys) ws, snd (copied_all icd ys w))"
proof -
  obtain rest where r: "ut_i src = length ys" "ut_d src = map Some ys @ rest"
    using assms(1) by (auto simp: holds_def)
  have "map ((!) ys) [0..<length ys] = ys" by (rule map_nth)
  then show ?thesis
    using assms r store_elts_at[OF assms(2,3)]
    by (auto simp: fill_slots_def read_slots_run copy_slots_def copied_all_plain)
qed

section \<open>Every operation on the list\<close>

lemma holds_get: "holds a xs \<Longrightarrow> j < length xs \<Longrightarrow> get_slot (ut_d a) j = Some (xs ! j)"
  by (auto simp: holds_def get_slot_elt)

lemma push_back_holds:
  assumes "holds a xs" and "copied (ut_icd a) p w = (v, w')"
  shows "\<exists>a'. utarray_push_back a p w = Some (a', w') \<and> holds a' (xs @ [v]) \<and> ut_icd a' = ut_icd a"
proof -
  obtain rest where r: "ut_d (utarray_reserve a 1) = map Some xs @ rest" "1 \<le> length rest"
    using reserve_room[OF assms(1)] .
  then obtain y ys where rest: "rest = y # ys" by (cases rest) auto
  have i: "ut_i a = length xs" using assms(1) by (simp add: holds_def)
  have "store_elt (ut_icd a) (map Some xs @ y # ys) (ut_i a) p w = Some (map Some xs @ Some v # ys, w')"
    using assms(2) i by (intro store_elt_at) auto
  then show ?thesis using r rest i by (auto simp: utarray_push_back_def holds_def)
qed

lemma pop_back_holds:
  assumes "holds a (xs @ [v])"
  shows "\<exists>a'. utarray_pop_back a w = Some (a', destroyed (ut_icd a) [v] w) \<and> holds a' xs \<and>
    ut_icd a' = ut_icd a"
proof -
  have "get_slot (ut_d a) (length xs) = Some v" using holds_get[OF assms, of "length xs"] by simp
  then show ?thesis
    using assms by (auto simp: utarray_pop_back_def holds_def destroyed_def split: option.splits)
qed

lemma extend_back_holds:
  assumes "holds a xs"
    and "(case icd_init (ut_icd a) of Some init \<Rightarrow> init w | None \<Rightarrow> (zero, w)) = (v, w')"
  shows "\<exists>a'. utarray_extend_back zero a w = Some (a', w') \<and> holds a' (xs @ [v]) \<and>
    ut_icd a' = ut_icd a"
proof -
  obtain rest where r: "ut_d (utarray_reserve a 1) = map Some xs @ rest" "1 \<le> length rest"
    using reserve_room[OF assms(1)] .
  then obtain y ys where rest: "rest = y # ys" by (cases rest) auto
  have i: "ut_i a = length xs" using assms(1) by (simp add: holds_def)
  have "put_slot (map Some xs @ y # ys) (ut_i a) v = Some (map Some xs @ Some v # ys)"
    using i by (intro put_slot_at) auto
  then show ?thesis using r rest i assms(2) by (auto simp: utarray_extend_back_def holds_def)
qed

lemma move_up1:
  "dst = Suc (length us) \<Longrightarrow> src = length us \<Longrightarrow> cnt = length vs \<Longrightarrow>
   \<exists>z. move_slots (us @ vs @ w # ws) dst src cnt = Some (us @ z # vs @ ws)"
  using move_slots_up[of dst us 1 src cnt vs "w # ws"] by (cases vs) auto

lemma split_at:
  assumes "j \<le> length xs"
  obtains us vs where "map Some xs = us @ vs" and "us = map Some (take j xs)"
    and "vs = map Some (drop j xs)" and "length us = j" and "length vs = length xs - j"
  using assms that[of "map Some (take j xs)" "map Some (drop j xs)"]
  by (metis append_take_drop_id length_drop length_map length_take map_append min.absorb2)

lemma insert_holds:
  assumes "holds a xs" and "copied (ut_icd a) p w = (v, w')" and "j \<le> length xs"
  shows "\<exists>a'. utarray_insert a p j w = Some (a', w') \<and> holds a' (take j xs @ v # drop j xs) \<and>
    ut_icd a' = ut_icd a"
proof -
  obtain rest where r: "ut_d (utarray_reserve a 1) = map Some xs @ rest" "1 \<le> length rest"
    using reserve_room[OF assms(1)] .
  then obtain y ys where rest: "rest = y # ys" by (cases rest) auto
  have i: "ut_i a = length xs" using assms(1) by (simp add: holds_def)
  obtain us vs where split: "map Some xs = us @ vs" and uv: "us = map Some (take j xs)"
      "vs = map Some (drop j xs)" and l: "length us = j" "length vs = length xs - j"
    using split_at[OF assms(3)] .
  obtain z where m: "move_slots (us @ vs @ y # ys) (j + 1) j (length xs - j) = Some (us @ z # vs @ ys)"
    using move_up1[of _ us _ _ vs y ys, OF refl refl refl] l by auto
  have st: "store_elt (ut_icd a) (us @ u # vs @ ys) j p w = Some (us @ Some v # vs @ ys, w')" for u
    using assms(2) l by (intro store_elt_at) auto
  have "utarray_insert a p j w =
      Some ((utarray_reserve a 1)\<lparr>ut_d := us @ Some v # vs @ ys, ut_i := length xs + 1\<rparr>, w')"
  proof (cases "j < length xs")
    case True
    then show ?thesis
      unfolding utarray_insert_def Let_def reserve_simps i r(1) rest split append.assoc
      by (simp add: m[simplified] st)
  next
    case False
    then have "vs = []" "j = length xs" using l assms(3) by auto
    then show ?thesis
      using st[of y]
      unfolding utarray_insert_def Let_def reserve_simps i r(1) rest split append.assoc
      by simp
  qed
  then show ?thesis using assms(3) uv by (auto simp: holds_def)
qed

lemma push_front_insert:
  "utarray_push_front a p w = utarray_insert a p 0 w"
  by (auto simp: utarray_push_front_def utarray_insert_def Let_def)

lemma insert_past: "holds a xs \<Longrightarrow> length xs < j \<Longrightarrow>
  utarray_insert a p j w = Some (utarray_reserve a 1, w)"
  by (simp add: utarray_insert_def holds_def)

lemma move_holds:
  assumes "holds a xs"
  shows "\<exists>a'. utarray_move a f t = Some a' \<and> ut_icd a' = ut_icd a \<and>
    holds a' (if f < length xs \<and> t < length xs
              then take t (take f xs @ drop (Suc f) xs) @ xs ! f # drop t (take f xs @ drop (Suc f) xs)
              else xs)"
proof (cases "f < length xs \<and> t < length xs \<and> f \<noteq> t")
  case False
  then show ?thesis
    using assms by (auto simp: utarray_move_def holds_def Cons_nth_drop_Suc)
next
  case True
  obtain rest where r: "ut_i a = length xs" "ut_d a = map Some xs @ rest"
    using assms by (auto simp: holds_def)
  have g: "get_slot (ut_d a) f = Some (xs ! f)" using True holds_get[OF assms] by simp
  consider "t < f" | "f < t" using True by linarith
  then show ?thesis
  proof cases
    case 1
    define us vs ws where "us = take t xs" and "vs = take (f - t) (drop t xs)" and "ws = drop (Suc f) xs"
    have xs: "xs = us @ vs @ xs ! f # ws"
      using True 1 unfolding us_def vs_def ws_def
      by (metis append.assoc append_take_drop_id Cons_nth_drop_Suc drop_drop le_add_diff_inverse2 less_imp_le)
    have l: "length us = t" "length vs = f - t" using True 1 by (auto simp: us_def vs_def)
    obtain z where "move_slots (map Some us @ map Some vs @ Some (xs ! f) # map Some ws @ rest) (t + 1) t (f - t)
        = Some (map Some us @ z # map Some vs @ map Some ws @ rest)"
      using move_up1[of _ "map Some us" _ _ "map Some vs" "Some (xs ! f)" "map Some ws @ rest",
          OF refl refl refl] l by auto
    moreover have "ut_d a = map Some us @ map Some vs @ Some (xs ! f) # map Some ws @ rest"
      unfolding r(2) by (subst xs) simp
    ultimately have m: "utarray_move a f t =
        Some (a\<lparr>ut_d := map Some us @ Some (xs ! f) # map Some vs @ map Some ws @ rest\<rparr>)"
      using True 1 r(1) g l put_slot_at[of t "map Some us"] by (simp add: utarray_move_def)
    have e: "take f xs @ drop (Suc f) xs = us @ vs @ ws"
      using 1 l by (subst (1 2) xs) simp
    have ll: "length xs = length us + length vs + 1 + length ws" by (subst xs) simp
    show ?thesis using True m l r(1) ll by (simp add: e holds_def)
  next
    case 2
    define us vs ws where "us = take f xs" and "vs = take (t - f) (drop (Suc f) xs)" and "ws = drop (Suc t) xs"
    have l: "length us = f" "length vs = t - f" using True 2 by (auto simp: us_def vs_def)
    have "drop (Suc f) xs = vs @ ws"
      using 2 unfolding vs_def ws_def
      by (metis append_take_drop_id drop_drop le_add_diff_inverse2 less_imp_le add_Suc_right)
    then have xs: "xs = us @ xs ! f # vs @ ws"
      using True unfolding us_def by (metis id_take_nth_drop)
    have "move_slots (map Some us @ [Some (xs ! f)] @ map Some vs @ map Some ws @ rest) f (f + 1) (t - f)
        = Some (map Some us @ map Some vs @ drop (length vs) (Some (xs ! f) # map Some vs) @ map Some ws @ rest)"
      using move_slots_down[of f "map Some us" "f + 1" "[Some (xs ! f)]" "t - f" "map Some vs"
          "map Some ws @ rest"] l by simp
    moreover have "ut_d a = map Some us @ [Some (xs ! f)] @ map Some vs @ map Some ws @ rest"
      unfolding r(2) by (subst xs) simp
    moreover obtain z where "drop (length vs) (Some (xs ! f) # map Some vs) = [z]"
      by (cases "drop (length vs) (Some (xs ! f) # map Some vs)")
        (auto dest: arg_cong[of _ _ length])
    ultimately have m: "utarray_move a f t =
        Some (a\<lparr>ut_d := map Some us @ map Some vs @ Some (xs ! f) # map Some ws @ rest\<rparr>)"
      using True 2 r(1) g l put_slot_at[of t "map Some us @ map Some vs" z]
      by (simp add: utarray_move_def)
    have e: "take f xs @ drop (Suc f) xs = us @ vs @ ws"
      using l by (subst (1 2) xs) simp
    have ll: "length xs = length us + length vs + 1 + length ws" by (subst xs) simp
    show ?thesis using True m l r(1) ll 2 by (simp add: e holds_def)
  qed
qed

lemma inserta_holds:
  assumes "holds a xs" and "holds b ys" and "copied_all (ut_icd a) ys w = (vs, w')" and "j \<le> length xs"
  shows "\<exists>a'. utarray_inserta a b j w = Some (a', w') \<and> ut_icd a' = ut_icd a \<and>
    holds a' (take j xs @ vs @ drop j xs)"
proof (cases "ys = []")
  case True
  then show ?thesis
    using assms by (auto simp: utarray_inserta_def utarray_len_def holds_def)
next
  case False
  obtain rest where r: "ut_d (utarray_reserve a (length ys)) = map Some xs @ rest" "length ys \<le> length rest"
    using reserve_room[OF assms(1)] .
  have i: "ut_i a = length xs" "ut_i b = length ys" using assms(1,2) by (auto simp: holds_def)
  have lv: "length vs = length ys" using assms(3) by (metis fst_conv length_copied_all)
  obtain us vs' where split: "map Some xs = us @ vs'" and uv: "us = map Some (take j xs)"
      "vs' = map Some (drop j xs)" and l: "length us = j" "length vs' = length xs - j"
    using split_at[OF assms(4)] .
  define gap where "gap = take (length ys) (vs' @ rest)"
  have gl: "length gap = length ys" using r(2) by (simp add: gap_def)
  have m: "(if j < length xs then move_slots (us @ vs' @ rest) (j + length ys) j (length xs - j)
         else Some (us @ vs' @ rest)) = Some (us @ gap @ vs' @ drop (length ys) rest)"
  proof (cases "j < length xs")
    case True
    then show ?thesis
      using move_slots_up[of _ us _ _ _ vs' rest, OF refl refl refl r(2)] l
      by (simp add: gap_def)
  next
    case False
    then have "vs' = []" using l by simp
    then show ?thesis using False r(2) by (simp add: gap_def)
  qed
  have fl: "fill_slots (ut_icd a) (us @ gap @ vs' @ drop (length ys) rest) j b w =
      Some (us @ map Some vs @ vs' @ drop (length ys) rest, w')"
    using fill_slots_run[OF assms(2), of j us "gap @ vs' @ drop (length ys) rest" "ut_icd a" w]
      assms(3) gl l by simp
  have "utarray_inserta a b j w = Some
      ((utarray_reserve a (length ys))\<lparr>ut_d := us @ map Some vs @ vs' @ drop (length ys) rest,
         ut_i := length xs + length ys\<rparr>, w')"
    using False assms(4)
    unfolding utarray_inserta_def utarray_len_def Let_def reserve_simps i r(1) split append.assoc m
    by (simp add: fl)
  then show ?thesis using lv uv assms(4) by (auto simp: holds_def)
qed

lemma concat_holds:
  assumes "holds a xs" and "holds b ys" and "copied_all (ut_icd a) ys w = (vs, w')"
  shows "\<exists>a'. utarray_concat a b w = Some (a', w') \<and> ut_icd a' = ut_icd a \<and> holds a' (xs @ vs)"
  using inserta_holds[OF assms, of "length xs"] assms(1)
  by (simp add: utarray_concat_def utarray_len_def holds_def)

lemma clone_holds:
  assumes "holds b ys" and "copied_all (ut_icd b) ys w = (vs, w')"
  shows "\<exists>a'. utarray_clone b w = Some (a', w') \<and> ut_icd a' = ut_icd b \<and> holds a' vs"
proof (cases "ys = []")
  case True
  then show ?thesis
    using assms by (auto simp: utarray_clone_def utarray_len_def holds_def utarray_new_def)
next
  case False
  obtain rest where r: "ut_d (utarray_reserve (utarray_new (ut_icd b)) (length ys)) = map Some [] @ rest"
    "length ys \<le> length rest"
    using reserve_room[OF holds_new] .
  have lv: "length vs = length ys" using assms(2) by (metis fst_conv length_copied_all)
  have i: "ut_i b = length ys" using assms(1) by (auto simp: holds_def)
  have "fill_slots (ut_icd b) rest 0 b w = Some (map Some vs @ drop (length ys) rest, w')"
    using fill_slots_run[OF assms(1), of 0 "[]" rest] assms(2) r(2) by simp
  then show ?thesis
    using False r(1) lv i by (auto simp: utarray_clone_def utarray_len_def holds_def utarray_new_def Let_def)
qed

lemma resize_shrink_holds:
  assumes "holds a xs" and "num \<le> length xs"
  shows "\<exists>a'. utarray_resize zero a num w = Some (a', destroyed (ut_icd a) (drop num xs) w) \<and>
    holds a' (take num xs) \<and> ut_icd a' = ut_icd a"
proof -
  obtain rest where r: "ut_i a = length xs" "ut_d a = map Some xs @ rest"
    using assms(1) by (auto simp: holds_def)
  have d: "destroy_slots (ut_icd a) (length xs) (ut_d a) [num..<length xs] w =
      Some (destroyed (ut_icd a) (drop num xs) w)"
    using assms(2) by (simp add: r(2) destroy_slots_run map_nth_upt)
  have h: "holds (a\<lparr>ut_i := num\<rparr>) (take num xs)"
    using r(2) assms(2)
    by (auto simp: holds_def intro!: exI[of _ "map Some (drop num xs) @ rest"])
      (metis append_take_drop_id map_append)
  show ?thesis
    using assms(2) d h r(1)
    by (cases "num = length xs") (auto simp: utarray_resize_def destroyed_def split: option.split)
qed

lemma resize_grow_holds:
  assumes "holds a xs" and "length xs \<le> num" and "icd_init (ut_icd a) = None"
  shows "\<exists>a'. utarray_resize zero a num w = Some (a', w) \<and>
    holds a' (xs @ replicate (num - length xs) zero) \<and> ut_icd a' = ut_icd a"
proof -
  obtain rest where r: "ut_d (utarray_reserve a (num - length xs)) = map Some xs @ rest"
    "num - length xs \<le> length rest"
    using reserve_room[OF assms(1)] .
  have i: "ut_i a = length xs" using assms(1) by (simp add: holds_def)
  show ?thesis
  proof (cases "num = length xs")
    case True
    then show ?thesis using assms(1) i by (auto simp: utarray_resize_def holds_def)
  next
    case False
    then show ?thesis
      using assms(2,3) i r by (auto simp: utarray_resize_def holds_def copy_slots_def Let_def)
  qed
qed

text \<open>An array whose elements have an initialiser cannot be grown this way.\<close>

lemma resize_grow_init:
  assumes "holds a xs" and "length xs < num" and "icd_init (ut_icd a) = Some f"
  shows "utarray_resize zero a num w = None"
proof -
  have i: "ut_i a = length xs" using assms(1) by (simp add: holds_def)
  obtain ks where "[length xs..<num] = length xs # ks" using assms(2) by (simp add: upt_rec)
  then show ?thesis
    using assms(2,3) i by (simp add: utarray_resize_def utarray_eltptr_def)
qed

lemma erase_holds:
  assumes "holds a xs" and "pos + cnt \<le> length xs"
  shows "\<exists>a'. utarray_erase a pos cnt w =
      Some (a', destroyed (ut_icd a) (take cnt (drop pos xs)) w) \<and>
    holds a' (take pos xs @ drop (pos + cnt) xs) \<and> ut_icd a' = ut_icd a"
proof -
  obtain rest where r: "ut_i a = length xs" "ut_d a = map Some xs @ rest"
    using assms(1) by (auto simp: holds_def)
  have d: "destroy_slots (ut_icd a) (length xs) (ut_d a) [pos..<pos + cnt] w =
      Some (destroyed (ut_icd a) (take cnt (drop pos xs)) w)"
    using assms(2) by (simp add: r(2) destroy_slots_run map_nth_upt)
  define us ts vs where "us = take pos xs" and "ts = take cnt (drop pos xs)" and "vs = drop (pos + cnt) xs"
  have xs: "xs = us @ ts @ vs"
    unfolding us_def ts_def vs_def by (metis add.commute append_take_drop_id drop_drop)
  have l: "length us = pos" "length ts = cnt" "length vs = length xs - (pos + cnt)"
    using assms(2) by (auto simp: us_def ts_def vs_def)
  have m: "move_slots (ut_d a) pos (pos + cnt) (length xs - (pos + cnt)) =
      Some (map Some us @ map Some vs @ drop (length vs) (map Some ts @ map Some vs) @ rest)"
    using move_slots_down[of _ "map Some us" _ "map Some ts" _ "map Some vs" rest, OF refl refl refl] l
    unfolding r(2) by (subst xs) simp
  have dd: "(if length xs > pos + cnt
        then move_slots (ut_d a) pos (pos + cnt) (length xs - (pos + cnt)) else Some (ut_d a)) =
      Some (map Some us @ map Some vs @ drop (length vs) (map Some ts @ map Some vs) @ rest)"
  proof (cases "length xs > pos + cnt")
    case False
    then have "vs = []" using l by simp
    then show ?thesis using False unfolding r(2) by (subst (3) xs) simp
  qed (simp add: m)
  have ul: "ut_i a - cnt = length us + length vs" using l assms(2) r(1) by simp
  show ?thesis
    using assms(2) ul
    unfolding utarray_erase_def r(1) d
    by (simp add: dd holds_def flip: us_def vs_def) 
qed

lemma remove_quick_holds:
  assumes "holds a (xs @ [v])" and "pos \<le> length xs"
  shows "\<exists>a'. utarray_remove_quick a pos = Some a' \<and> ut_icd a' = ut_icd a \<and>
    holds a' (if pos = length xs then xs else xs[pos := v])"
proof -
  obtain rest where r: "ut_i a = Suc (length xs)" "ut_d a = map Some xs @ Some v # rest"
    using assms(1) by (auto simp: holds_def)
  show ?thesis
    using assms(2) r
    by (auto simp: utarray_remove_quick_def holds_def get_slot_def put_slot_def nth_append
        list_update_append map_update)
qed

lemma remove_quick_full_holds:
  assumes "holds a (xs @ [v])" and "pos \<le> length xs"
  shows "\<exists>a'. utarray_remove_quick_full a pos w =
      Some (a', destroyed (ut_icd a) [(xs @ [v]) ! pos] w) \<and> ut_icd a' = ut_icd a \<and>
    holds a' (if pos = length xs then xs else xs[pos := v])"
proof -
  obtain rest where r: "ut_i a = length (xs @ [v])" "ut_d a = map Some (xs @ [v]) @ rest"
    using assms(1) by (auto simp: holds_def)
  have "destroy_slots (ut_icd a) (ut_i a) (ut_d a) [pos] w =
      Some (destroyed (ut_icd a) [(xs @ [v]) ! pos] w)"
    unfolding r using assms(2) by (subst destroy_slots_run) auto
  then show ?thesis
    using remove_quick_holds[OF assms] by (auto simp: utarray_remove_quick_full_def)
qed

lemma destroy_all:
  assumes "holds a xs"
  shows "destroy_slots (ut_icd a) (ut_i a) (ut_d a) [0..<ut_i a] w = Some (destroyed (ut_icd a) xs w)"
proof -
  obtain rest where r: "ut_i a = length xs" "ut_d a = map Some xs @ rest"
    using assms by (auto simp: holds_def)
  show ?thesis unfolding r by (subst destroy_slots_run) (auto simp: map_nth)
qed

lemma destroyed_Nil [simp]: "destroyed icd [] w = w"
  by (simp add: destroyed_def split: option.split)

lemma clear_holds:
  assumes "holds a xs"
  shows "\<exists>a'. utarray_clear a w = Some (a', destroyed (ut_icd a) xs w) \<and> holds a' [] \<and>
    ut_icd a' = ut_icd a"
  using assms destroy_all[OF assms, of w]
  by (cases "xs = []") (auto simp: utarray_clear_def holds_def)

lemma done_holds:
  assumes "holds a xs"
  shows "utarray_done a w = Some (a\<lparr>ut_d := []\<rparr>, destroyed (ut_icd a) xs w)"
proof (cases "ut_d a = []")
  case True
  then have "xs = []" using assms by (auto simp: holds_def)
  then show ?thesis using True by (simp add: utarray_done_def)
next
  case False
  then show ?thesis using destroy_all[OF assms, of w] by (simp add: utarray_done_def)
qed

lemma free_holds: "holds a xs \<Longrightarrow> utarray_free (Some a) w = Some (destroyed (ut_icd a) xs w)"
  by (simp add: utarray_free_def done_holds)

lemma sort_range_holds:
  assumes "holds a xs" and "i \<le> k" and "k \<le> length xs" and len: "\<And>vs. length (qsort vs) = length vs"
    and "qsort [] = []"
  shows "\<exists>a'. utarray_sort_range qsort a i k = Some a' \<and> ut_icd a' = ut_icd a \<and>
    holds a' (take i xs @ qsort (take (k - i) (drop i xs)) @ drop k xs)"
proof (cases "i = k")
  case True
  then show ?thesis using assms by (auto simp: utarray_sort_range_def)
next
  case False
  obtain rest where r: "ut_i a = length xs" "ut_d a = map Some xs @ rest"
    using assms(1) by (auto simp: holds_def)
  define ys where "ys = qsort (take (k - i) (drop i xs))"
  have ly: "length ys = k - i" using assms(2,3) by (simp add: ys_def len)
  have "read_slots (ut_d a) [i..<k] = Some (take (k - i) (drop i xs))"
    unfolding r(2) using assms(2,3) by (subst read_slots_run) (auto simp: map_nth_upt)
  moreover have "copy_slots (ut_d a) i (map Some ys) =
      Some (map Some (take i xs) @ map Some ys @ map Some (drop k xs) @ rest)"
    using assms(2,3) by (simp add: copy_slots_def r(2) ly take_map drop_map)
  ultimately show ?thesis
    using False assms(2,3) r(1) ly
    by (auto simp: utarray_sort_range_def holds_def simp flip: ys_def)
qed

lemma sort_holds:
  assumes "holds a xs" and len: "\<And>vs. length (qsort vs) = length vs"
  shows "\<exists>a'. utarray_sort qsort a = Some a' \<and> ut_icd a' = ut_icd a \<and> holds a' (qsort xs)"
proof -
  obtain rest where r: "ut_i a = length xs" "ut_d a = map Some xs @ rest"
    using assms(1) by (auto simp: holds_def)
  have "read_slots (ut_d a) [0..<ut_i a] = Some xs"
    unfolding r by (subst read_slots_run) (auto simp: map_nth)
  moreover have "copy_slots (ut_d a) 0 (map Some (qsort xs)) = Some (map Some (qsort xs) @ rest)"
    by (simp add: copy_slots_def r(2) len)
  ultimately show ?thesis using r(1) by (auto simp: utarray_sort_def holds_def len)
qed

section \<open>Traversal\<close>

lemma foreach_from:
  assumes "holds a xs" and "k < length xs"
  shows "foreach_elt body a (Some k) s = Some (fold body (drop k xs) s)"
  using assms(2)
proof (induction "length xs - k" arbitrary: k s)
  case 0
  then show ?case by simp
next
  case (Suc n)
  have i: "ut_i a = length xs" using assms(1) by (simp add: holds_def)
  have st: "foreach_elt body a (Some k) s =
      foreach_elt body a (utarray_next a (Some k)) (body (xs ! k) s)"
    using holds_get[OF assms(1) Suc.prems] by (subst foreach_elt.simps) simp
  show ?case
  proof (cases "Suc k < length xs")
    case True
    then show ?thesis
      using Suc st i by (simp add: utarray_next_def flip: Cons_nth_drop_Suc)
  next
    case False
    then show ?thesis
      using Suc.prems st i
      by (simp add: utarray_next_def foreach_elt.simps[of _ _ None] flip: Cons_nth_drop_Suc)
  qed
qed

lemma foreach_holds: "holds a xs \<Longrightarrow> utarray_foreach body a s = Some (fold body xs s)"
  using foreach_from[of a xs 0 body s]
  by (cases "xs = []")
    (auto simp: utarray_foreach_def utarray_front_def holds_def foreach_elt.simps[of _ _ None])

lemma next_prev:
  assumes "holds a xs" and "k < length xs"
  shows "utarray_next a (Some k) = (if Suc k < length xs then Some (Suc k) else None)"
    and "utarray_prev a (utarray_next a (Some k)) = Some k"
  using assms by (auto simp: utarray_next_def utarray_prev_def utarray_back_def holds_def)

end
