(* ===== verification/FormatText.thy ===== *)
theory FormatText
  imports UtArray StringUtils
begin

text \<open>
  Formatted text, \<open>src/lib/fcitx/ui.c\<close>: pieces of text with their format, in the generic array of
  \<open>UtArray\<close>.  The state of the array's functions is the list of the strings that have been freed.
\<close>

record fcitx_text_string =
  piece :: cstr
  format :: u32

record fcitx_text =
  refs :: int
  strings :: "(fcitx_text_string, cstr list) ut_array"

definition fcitx_text_string_free :: "fcitx_text_string \<Rightarrow> cstr list \<Rightarrow> cstr list" where
  "fcitx_text_string_free s freed = freed @ [piece s]"

definition text_string :: "(fcitx_text_string, cstr list) ut_icd" where
  "text_string = \<lparr>icd_init = None, icd_copy = None, icd_dtor = Some fcitx_text_string_free\<rparr>"

definition fcitx_text_new :: fcitx_text where
  "fcitx_text_new = \<lparr>refs = 1, strings = utarray_new text_string\<rparr>"

text \<open>Appending; the formatted variant gets its string from the C library.\<close>

definition fcitx_text_append :: "fcitx_text \<Rightarrow> u32 \<Rightarrow> cstr \<Rightarrow> cstr list \<Rightarrow> (fcitx_text \<times> cstr list) option" where
  "fcitx_text_append t flag str w = do {
     (a, w) \<leftarrow> utarray_push_back (strings t) \<lparr>piece = str, format = flag\<rparr> w;
     Some (t\<lparr>strings := a\<rparr>, w) }"

definition fcitx_text_append_sprintf ::
  "fcitx_text \<Rightarrow> u32 \<Rightarrow> cstr \<Rightarrow> cstr list \<Rightarrow> (fcitx_text \<times> cstr list) option" where
  "fcitx_text_append_sprintf t flag formatted w = do {
     (a, w) \<leftarrow> utarray_push_back (strings t) \<lparr>piece = formatted, format = flag\<rparr> w;
     Some (t\<lparr>strings := a\<rparr>, w) }"

definition fcitx_text_clear :: "fcitx_text \<Rightarrow> cstr list \<Rightarrow> (fcitx_text \<times> cstr list) option" where
  "fcitx_text_clear t w = do { (a, w) \<leftarrow> utarray_clear (strings t) w; Some (t\<lparr>strings := a\<rparr>, w) }"

definition fcitx_text_size :: "fcitx_text \<Rightarrow> nat" where
  "fcitx_text_size t = utarray_len (strings t)"

definition text_at :: "fcitx_text \<Rightarrow> nat \<Rightarrow> fcitx_text_string option" where
  "text_at t index = do { k \<leftarrow> utarray_eltptr (strings t) index; get_slot (ut_d (strings t)) k }"

definition fcitx_text_get_format :: "fcitx_text \<Rightarrow> nat \<Rightarrow> u32 option" where
  "fcitx_text_get_format t index = map_option format (text_at t index)"

definition fcitx_text_get_string :: "fcitx_text \<Rightarrow> nat \<Rightarrow> cstr option" where
  "fcitx_text_get_string t index = map_option piece (text_at t index)"

text \<open>The sum of the lengths, and the loop that copies each piece with its terminator.\<close>

fun text_length :: "fcitx_text \<Rightarrow> nat list \<Rightarrow> nat \<Rightarrow> nat option" where
  "text_length t [] n = Some n"
| "text_length t (i # is) n = do { s \<leftarrow> text_at t i; text_length t is (n + length (piece s)) }"

fun text_copy :: "fcitx_text \<Rightarrow> nat list \<Rightarrow> byte list \<Rightarrow> nat \<Rightarrow> byte list option" where
  "text_copy t [] buf p = Some buf"
| "text_copy t (i # is) buf p = do {
     s \<leftarrow> text_at t i;
     buf \<leftarrow> wr buf p (piece s @ [0]);
     text_copy t is buf (p + length (piece s)) }"

definition fcitx_text_to_string :: "fcitx_text \<Rightarrow> byte list option" where
  "fcitx_text_to_string t = do {
     n \<leftarrow> text_length t [0..<fcitx_text_size t] 0;
     text_copy t [0..<fcitx_text_size t] (replicate (n + 1) 0) 0 }"

text \<open>Dropping a reference; the last one frees the object, and none of its strings.\<close>

definition fcitx_text_free :: "fcitx_text \<Rightarrow> cstr list \<Rightarrow> cstr list" where
  "fcitx_text_free t w = w"

definition fcitx_text_ref :: "fcitx_text \<Rightarrow> fcitx_text" where
  "fcitx_text_ref t = t\<lparr>refs := refs t + 1\<rparr>"

definition fcitx_text_unref :: "fcitx_text \<Rightarrow> cstr list \<Rightarrow> fcitx_text option \<times> cstr list" where
  "fcitx_text_unref t w =
     (if refs t = 1 then (None, fcitx_text_free t w) else (Some (t\<lparr>refs := refs t - 1\<rparr>), w))"

section \<open>What a text holds\<close>

definition text_holds :: "fcitx_text \<Rightarrow> fcitx_text_string list \<Rightarrow> bool" where
  "text_holds t xs \<longleftrightarrow> holds (strings t) xs \<and> ut_icd (strings t) = text_string"

lemma text_string_simps [simp]:
  "icd_copy text_string = None" "icd_dtor text_string = Some fcitx_text_string_free"
  by (simp_all add: text_string_def)

lemma text_new_holds [simp]: "text_holds fcitx_text_new []"
  by (simp add: text_holds_def fcitx_text_new_def) (simp add: utarray_new_def)

lemma text_append_holds:
  assumes "text_holds t xs"
  shows "\<exists>t'. fcitx_text_append t flag str w = Some (t', w) \<and>
    text_holds t' (xs @ [\<lparr>piece = str, format = flag\<rparr>]) \<and> refs t' = refs t"
proof -
  let ?p = "\<lparr>piece = str, format = flag\<rparr>"
  have "copied (ut_icd (strings t)) ?p w = (?p, w)" using assms by (simp add: text_holds_def copied_def)
  from push_back_holds[OF _ this] assms obtain a where
    "utarray_push_back (strings t) ?p w = Some (a, w)" "holds a (xs @ [?p])" "ut_icd a = text_string"
    unfolding text_holds_def by metis
  then show ?thesis by (auto simp: text_holds_def fcitx_text_append_def)
qed

lemma text_clear_holds:
  assumes "text_holds t xs"
  shows "\<exists>t'. fcitx_text_clear t w = Some (t', w @ map piece xs) \<and> text_holds t' []"
proof -
  have "destroyed text_string xs w = w @ map piece xs" for xs
    by (simp add: destroyed_def, induction xs arbitrary: w) (simp_all add: fcitx_text_string_free_def)
  then show ?thesis
    using assms clear_holds[of "strings t" xs w] by (auto simp: text_holds_def fcitx_text_clear_def)
qed

lemma text_at_holds: "text_holds t xs \<Longrightarrow> text_at t i = (if i < length xs then Some (xs ! i) else None)"
  by (auto simp: text_holds_def text_at_def utarray_eltptr_def holds_get holds_def)

lemma text_length_holds:
  assumes "text_holds t xs"
  shows "\<forall>i \<in> set is. i < length xs \<Longrightarrow>
    text_length t is n = Some (n + sum_list (map (\<lambda>i. length (piece (xs ! i))) is))"
  by (induction "is" arbitrary: n) (auto simp: text_at_holds[OF assms])

lemma text_copy_holds:
  assumes "text_holds t xs"
  shows "\<forall>i \<in> set is. i < length xs \<Longrightarrow>
    length rest = sum_list (map (\<lambda>i. length (piece (xs ! i))) is) + 1 \<Longrightarrow> hd rest = 0 \<Longrightarrow> p = length out \<Longrightarrow>
    text_copy t is (out @ rest) p = Some (out @ concat (map (\<lambda>i. piece (xs ! i)) is) @ [0])"
proof (induction "is" arbitrary: out rest p)
  case Nil
  then show ?case by (cases rest) auto
next
  case (Cons i "is")
  let ?s = "piece (xs ! i)"
  have l: "length (?s @ [0]) \<le> length rest" using Cons.prems(2) by simp
  have w: "wr (out @ rest) p (?s @ [0]) = Some ((out @ ?s) @ 0 # drop (length ?s + 1) rest)"
    using wr_append[OF Cons.prems(4)[symmetric] l] by simp
  have "text_copy t is ((out @ ?s) @ 0 # drop (length ?s + 1) rest) (p + length ?s) =
      Some ((out @ ?s) @ concat (map (\<lambda>i. piece (xs ! i)) is) @ [0])"
    using Cons.prems by (intro Cons.IH) auto
  then show ?case using Cons.prems(1) w by (simp add: text_at_holds[OF assms])
qed

text \<open>The string of a text is its pieces, one after the other, with a terminator, in a buffer of
  exactly that size.\<close>

theorem text_to_string:
  assumes "text_holds t xs"
  shows "fcitx_text_to_string t = Some (concat (map piece xs) @ [0]) \<and> fcitx_text_size t = length xs"
proof -
  have s: "fcitx_text_size t = length xs"
    using assms by (simp add: fcitx_text_size_def utarray_len_def text_holds_def holds_def)
  have m: "map (\<lambda>i. piece (xs ! i)) [0..<length xs] = map piece xs"
    by (rule nth_equalityI) simp_all
  let ?n = "sum_list (map (\<lambda>i. length (piece (xs ! i))) [0..<length xs])"
  have "text_copy t [0..<length xs] ([] @ replicate (?n + 1) 0) 0 =
      Some ([] @ concat (map (\<lambda>i. piece (xs ! i)) [0..<length xs]) @ [0])"
    by (rule text_copy_holds[OF assms]) auto
  then show ?thesis
    using text_length_holds[OF assms, of "[0..<length xs]" 0] s by (simp add: fcitx_text_to_string_def m)
qed

theorem text_to_string_witness:
  "\<exists>t. fcitx_text_append fcitx_text_new 1 [97, 98] [] = Some (t, []) \<and>
     fcitx_text_to_string t = Some [97, 98, 0]"
proof -
  obtain t where t: "fcitx_text_append fcitx_text_new 1 [97, 98] [] = Some (t, [])"
      "text_holds t [\<lparr>piece = [97, 98], format = 1\<rparr>]"
    using text_append_holds[OF text_new_holds] by fastforce
  then show ?thesis using text_to_string[OF t(2)] by simp
qed

text \<open>Dropping the last reference leaks every string.\<close>

lemma text_unref_leaks: "refs t = 1 \<Longrightarrow> fcitx_text_unref t w = (None, w)"
  by (simp add: fcitx_text_unref_def fcitx_text_free_def)

end
