(* ===== verification/StringSets.thy ===== *)
theory StringSets
  imports StringList Dict
begin

text \<open>
  The string hash set of \<open>src/lib/fcitx-utils/stringhashset.c\<close>, a dictionary without values, and the
  string map of \<open>stringmap.c\<close>, a uthash table from strings to truth values; both are read from and
  written to separated text.  A buffer that is written and then terminated is the string in front of
  its first NUL.
\<close>

section \<open>The hash set\<close>

definition fcitx_string_hashset_new :: "unit dict" where
  "fcitx_string_hashset_new = fcitx_dict_new False"

definition fcitx_string_hashset_insert :: "unit dict \<Rightarrow> cstr \<Rightarrow> bool \<times> unit dict" where
  "fcitx_string_hashset_insert sset str = fcitx_dict_insert str () False sset"

definition fcitx_string_hashset_insert_len :: "unit dict \<Rightarrow> cstr \<Rightarrow> nat \<Rightarrow> bool \<times> unit dict" where
  "fcitx_string_hashset_insert_len sset str len = fcitx_dict_insert (take len str) () False sset"

definition fcitx_string_hashset_contains :: "unit dict \<Rightarrow> cstr \<Rightarrow> bool" where
  "fcitx_string_hashset_contains sset str = (fcitx_dict_lookup str sset \<noteq> None)"

definition fcitx_string_hashset_remove :: "unit dict \<Rightarrow> cstr \<Rightarrow> (bool \<times> unit dict) option" where
  "fcitx_string_hashset_remove sset str =
     map_option (\<lambda>(found, _, d). (found, d)) (fcitx_dict_remove str False sset)"

definition fcitx_string_hashset_clone :: "unit dict \<Rightarrow> unit dict" where
  "fcitx_string_hashset_clone sset = fcitx_dict_clone None sset"

definition add_length :: "(unit, nat) foreach_func" where
  "add_length key data len = (False, data, len + (length key + 1))"

definition copy_string :: "byte \<Rightarrow> (unit, byte list) foreach_func" where
  "copy_string delim key data p = (False, data, p @ key @ [delim])"

definition fcitx_string_hashset_join :: "unit dict option \<Rightarrow> byte \<Rightarrow> cstr option" where
  "fcitx_string_hashset_join sset delim =
     (case sset of
        None \<Rightarrow> None
      | Some sset \<Rightarrow>
          if fcitx_dict_size sset = 0 then Some []
          else
            let (sset, len) = fcitx_dict_foreach add_length sset 0;
                (sset, result) = fcitx_dict_foreach (copy_string delim) sset []
            in Some (strend (result[len - 1 := 0])))"

function hashset_parse_loop :: "byte \<Rightarrow> cstr \<Rightarrow> unit dict \<Rightarrow> unit dict" where
  "hashset_parse_loop delim src sset =
     (let len = strcspn src [delim] in
      if len < length src
      then hashset_parse_loop delim (drop (len + 1) src) (snd (fcitx_string_hashset_insert_len sset src len))
      else if len \<noteq> 0 then snd (fcitx_string_hashset_insert_len sset src len)
      else sset)"
  by pat_completeness auto
termination
  by (relation "measure (\<lambda>(d, src, s). length src)") auto

declare hashset_parse_loop.simps [simp del]

definition fcitx_string_hashset_parse :: "cstr \<Rightarrow> byte \<Rightarrow> unit dict" where
  "fcitx_string_hashset_parse str delim = hashset_parse_loop delim str fcitx_string_hashset_new"

section \<open>The string map\<close>

definition fcitx_string_map_get :: "bool dict \<Rightarrow> cstr \<Rightarrow> bool \<Rightarrow> bool" where
  "fcitx_string_map_get m key dflt = (case HASH_FIND key m of Some v \<Rightarrow> v | None \<Rightarrow> dflt)"

definition fcitx_string_map_set :: "cstr \<Rightarrow> bool \<Rightarrow> bool dict \<Rightarrow> bool dict" where
  "fcitx_string_map_set key value m =
     (case HASH_FIND key m of
        None \<Rightarrow> HASH_ADD key value m
      | Some _ \<Rightarrow> m\<lparr>items := AList.update key value (items m)\<rparr>)"

text \<open>The loop takes the head off until the table is empty.\<close>

fun map_clear_loop :: "(cstr \<times> bool) list \<Rightarrow> bool dict \<Rightarrow> bool dict option" where
  "map_clear_loop [] m = Some m"
| "map_clear_loop ((k, v) # rest) m = do { m \<leftarrow> HASH_DEL k m; map_clear_loop rest m }"

definition fcitx_string_map_clear :: "bool dict \<Rightarrow> bool dict option" where
  "fcitx_string_map_clear m = map_clear_loop (items m) m"

definition fcitx_string_map_remove :: "bool dict \<Rightarrow> cstr \<Rightarrow> bool dict option" where
  "fcitx_string_map_remove m key = (case HASH_FIND key m of None \<Rightarrow> Some m | Some _ \<Rightarrow> HASH_DEL key m)"

definition map_load_item :: "cstr \<Rightarrow> bool dict option \<Rightarrow> bool dict option" where
  "map_load_item s m = do {
     m \<leftarrow> m;
     item \<leftarrow> fcitx_utils_string_split_full s (bytes '':'') True;
     Some (case item of
         [key, value] \<Rightarrow> fcitx_string_map_set key (strcmp value (bytes ''true'') = 0) m
       | _ \<Rightarrow> m) }"

definition fcitx_string_map_from_string :: "bool dict \<Rightarrow> cstr \<Rightarrow> byte \<Rightarrow> bool dict option" where
  "fcitx_string_map_from_string m str delim = do {
     m \<leftarrow> fcitx_string_map_clear m;
     list \<leftarrow> fcitx_utils_string_split_full str [delim] True;
     fold map_load_item list (Some m) }"

definition fcitx_string_map_new :: "cstr option \<Rightarrow> byte \<Rightarrow> bool dict option" where
  "fcitx_string_map_new str delim =
     (let m = fcitx_dict_new False in
      case str of Some s \<Rightarrow> fcitx_string_map_from_string m s delim | None \<Rightarrow> Some m)"

definition map_entry :: "byte \<Rightarrow> cstr \<times> bool \<Rightarrow> byte list" where
  "map_entry delim = (\<lambda>(k, v). k @ bytes '':'' @ (if v then bytes ''true'' else bytes ''false'') @ [delim])"

definition map_entry_length :: "cstr \<times> bool \<Rightarrow> nat" where
  "map_entry_length = (\<lambda>(k, v).
     length k + 1 + (if v then length (bytes ''true'') else length (bytes ''false'')) + 1)"

definition fcitx_string_map_to_string :: "bool dict \<Rightarrow> byte \<Rightarrow> cstr" where
  "fcitx_string_map_to_string m delim =
     (if fcitx_dict_size m = 0 then []
      else
        let len = sum_list (map map_entry_length (items m));
            result = concat (map (map_entry delim) (items m))
        in strend (result[len - 1 := 0]))"

section \<open>Separated text\<close>

lemma split_full_pieces: "fcitx_utils_string_split_full s delm keep = Some (pieces delm keep [] s)"
  by (simp add: fcitx_utils_string_split_full_def split_pieces fcitx_utils_string_list_new_def)

lemma pieces_step: "d \<notin> set x \<Longrightarrow> pieces [d] True [] (x @ d # s) = x # pieces [d] True [] s"
  using pieces_run [of x "[d]" True "[]" "d # s"] by auto

lemma pieces_last: "d \<notin> set x \<Longrightarrow> pieces [d] True [] x = (if x = [] then [] else [x])"
  using pieces_run [of x "[d]" True "[]" "[]"] by (cases "x = []") force+

lemma pieces_joined:
  "xs \<noteq> [] \<Longrightarrow> \<forall>x \<in> set xs. d \<notin> set x \<Longrightarrow> last xs \<noteq> [] \<Longrightarrow>
   pieces [d] True [] (butlast (concat (map (\<lambda>x. x @ [d]) xs))) = xs"
proof (induction xs rule: induct_list012)
  case (2 x)
  then show ?case by (simp add: pieces_last)
next
  case (3 x y ys)
  have "butlast (concat (map (\<lambda>x. x @ [d]) (x # y # ys))) =
      x @ d # butlast (concat (map (\<lambda>x. x @ [d]) (y # ys)))"
    by (simp add: butlast_append)
  then show ?case using 3 by (simp add: pieces_step del: list.map concat.simps)
qed simp

lemma terminate_last: "bs \<noteq> [] \<Longrightarrow> c_string (butlast bs) \<Longrightarrow> strend (bs[length bs - 1 := 0]) = butlast bs"
proof -
  assume "bs \<noteq> []" "c_string (butlast bs)"
  then have "bs[length bs - 1 := 0] = butlast bs @ [0]"
    by (metis butlast_snoc append_butlast_last_id length_append_singleton diff_Suc_1 list_update_length)
  then show ?thesis using \<open>c_string (butlast bs)\<close> by simp
qed

section \<open>The set of the pieces\<close>

definition firsts :: "'a list \<Rightarrow> 'a list" where
  "firsts xs = rev (remdups (rev xs))"

lemma firsts_simps [simp]:
  "firsts [] = []" "firsts (xs @ [x]) = (if x \<in> set xs then firsts xs else firsts xs @ [x])"
  "set (firsts xs) = set xs" "distinct (firsts xs)" "distinct xs \<Longrightarrow> firsts xs = xs"
  by (simp_all add: firsts_def distinct_remdups_id)

definition add_piece :: "cstr \<Rightarrow> unit dict \<Rightarrow> unit dict" where
  "add_piece x s = snd (fcitx_string_hashset_insert s x)"

lemma parse_loop_fold: "hashset_parse_loop d src s = fold add_piece (pieces [d] True [] src) s"
proof (induction d src s rule: hashset_parse_loop.induct)
  case (1 d src s)
  let ?n = "strcspn src [d]"
  have ins: "snd (fcitx_string_hashset_insert_len s src ?n) = add_piece (take ?n src) s"
    by (simp add: fcitx_string_hashset_insert_len_def fcitx_string_hashset_insert_def add_piece_def)
  show ?case
  proof (cases "?n < length src")
    case True
    then have src: "src = take ?n src @ d # drop (Suc ?n) src" using strcspn_hit [OF True] by auto
    have "d \<notin> set (take ?n src)" using strcspn_run [of d src "[d]"] by auto
    then have "pieces [d] True [] src = take ?n src # pieces [d] True [] (drop (Suc ?n) src)"
      using src pieces_step by metis
    then show ?thesis using True 1 ins by (subst hashset_parse_loop.simps) (simp add: Let_def)
  next
    case False
    then have n: "?n = length src" using strcspn_le [of src "[d]"] by linarith
    then have "d \<notin> set src" using strcspn_run [of d src "[d]"] by auto
    then show ?thesis using n ins by (subst hashset_parse_loop.simps) (simp add: Let_def pieces_last)
  qed
qed

lemma fold_add_piece:
  "dict_ok s \<Longrightarrow> dict_ok (fold add_piece xs s) \<and>
   map fst (items (fold add_piece xs s)) = fold (\<lambda>x ys. if x \<in> set ys then ys else ys @ [x]) xs (map fst (items s))"
proof (induction xs arbitrary: s)
  case (Cons x xs)
  have "dict_ok (add_piece x s)" "map fst (items (add_piece x s)) =
      (if x \<in> set (map fst (items s)) then map fst (items s) else map fst (items s) @ [x])"
    using insert_ok [OF Cons.prems, of x "()" False] map_of_eq_None_iff [of "items s" x]
    by (auto simp: add_piece_def fcitx_string_hashset_insert_def fcitx_dict_insert_def HASH_FIND_def HASH_ADD_def
        split: option.splits)
  with Cons.IH [of "add_piece x s"] show ?case by simp
qed simp

lemma fold_firsts: "fold (\<lambda>x ys. if x \<in> set ys then ys else ys @ [x]) xs [] = firsts xs"
  by (induction xs rule: rev_induct) simp_all

lemma parse_keys:
  "dict_ok (fcitx_string_hashset_parse s d) \<and>
   map fst (items (fcitx_string_hashset_parse s d)) = firsts (pieces [d] True [] s)"
proof -
  have "dict_ok fcitx_string_hashset_new" "items fcitx_string_hashset_new = []"
    by (simp_all add: fcitx_string_hashset_new_def fcitx_dict_new_def dict_ok_def)
  then show ?thesis using fold_add_piece [of fcitx_string_hashset_new] fold_firsts
    by (simp add: fcitx_string_hashset_parse_def parse_loop_fold)
qed

lemma foreach_add_length: "foreach_loop add_length xs n = (xs, n + sum_list (map (\<lambda>(k, v). length k + 1) xs))"
  by (induction xs arbitrary: n) (auto simp: add_length_def Let_def)

lemma foreach_copy_string:
  "foreach_loop (copy_string d) xs p = (xs, p @ concat (map (\<lambda>(k, v). k @ [d]) xs))"
  by (induction xs arbitrary: p) (auto simp: copy_string_def)

lemma c_string_butlast: "c_string s \<Longrightarrow> c_string (butlast s)"
  unfolding c_string_def using in_set_butlastD by metis

lemma join_keys:
  assumes "dict_ok s" "length (items s) < 2 ^ 32" "\<forall>k \<in> set (map fst (items s)). c_string k" "d \<noteq> 0"
  shows "fcitx_string_hashset_join (Some s) d =
    Some (if items s = [] then [] else butlast (concat (map (\<lambda>x. x @ [d]) (map fst (items s)))))"
proof (cases "items s = []")
  case False
  let ?bs = "concat (map (\<lambda>(k, v). k @ [d]) (items s))"
  have sz: "fcitx_dict_size s \<noteq> 0"
    using False assms(1,2) unfolding fcitx_dict_size_def dict_ok_def
    by (auto simp: word_of_nat_eq_0_iff dest: nat_dvd_not_less)
  have bs: "?bs = concat (map (\<lambda>x. x @ [d]) (map fst (items s)))" by (simp add: comp_def case_prod_unfold)
  have len: "sum_list (map (\<lambda>(k, v). length k + 1) (items s)) = length ?bs"
    by (simp add: length_concat comp_def case_prod_unfold)
  have ne: "?bs \<noteq> []" using False by (cases "items s") auto
  have "c_string ?bs" using assms(3,4) by (auto simp: c_string_def)
  then have "c_string (butlast ?bs)" by (rule c_string_butlast)
  then have "strend (?bs[length ?bs - 1 := 0]) = butlast ?bs" using ne by (rule terminate_last [rotated])
  then have "fcitx_string_hashset_join (Some s) d = Some (butlast ?bs)" using False sz len
    by (simp add: fcitx_string_hashset_join_def fcitx_dict_foreach_def foreach_add_length
        foreach_copy_string Let_def)
  then show ?thesis using False by (simp only: bs if_False)
qed (simp add: fcitx_string_hashset_join_def fcitx_dict_size_def)

section \<open>Properties of the hash set\<close>

lemma pieces_c_string: "c_string s \<Longrightarrow> c_string cur \<Longrightarrow> \<forall>x \<in> set (pieces dl keep cur s). c_string x"
proof (induction dl keep cur s rule: pieces.induct)
  case (2 dl keep cur c s)
  have s: "c_string s" "c \<noteq> 0" using "2.prems"(1) by (auto simp: c_string_def)
  show ?case
  proof (cases "c \<in> set dl")
    case True
    have "c_string []" by (simp add: c_string_def)
    with 2(1) [OF True s(1)] True "2.prems"(2) show ?thesis by auto
  next
    case False
    have "c_string (cur @ [c])" using s "2.prems"(2) by (auto simp: c_string_def)
    with 2(2) [OF False s(1)] False show ?thesis by auto
  qed
qed auto

lemma length_firsts: "length (firsts xs) \<le> length xs"
  by (simp add: firsts_def) (metis length_rev length_remdups_leq)

lemma length_pieces: "length (pieces dl keep cur s) \<le> length s + 1"
  by (induction dl keep cur s rule: pieces.induct) auto

text \<open>Parsing separated text gives the set of the pieces that splitting it gives; joining the set
  gives the pieces back in the order they came first, so text without repeated pieces survives,
  except for one separator at its end.\<close>

theorem hashset_parse_join:
  assumes "c_string s" and "d \<noteq> 0" and "length s < 2 ^ 31"
    and "fcitx_utils_string_split_full s [d] True = Some xs"
  shows "fcitx_string_hashset_contains (fcitx_string_hashset_parse s d) k = (k \<in> set xs) \<and>
    fcitx_string_hashset_join (Some (fcitx_string_hashset_parse s d)) d =
      fcitx_utils_string_list_join (Some (firsts xs)) d"
proof -
  let ?p = "fcitx_string_hashset_parse s d"
  have xs: "xs = pieces [d] True [] s" using assms(4) by (simp add: split_full_pieces)
  have ok: "dict_ok ?p" and keys: "map fst (items ?p) = firsts xs"
    using parse_keys [of s d] xs by simp_all
  have "fcitx_string_hashset_contains ?p k = (k \<in> set (map fst (items ?p)))"
    by (simp add: fcitx_string_hashset_contains_def fcitx_dict_lookup_def HASH_FIND_def map_of_eq_None_iff del: not_None_eq)
  moreover have str: "\<forall>x \<in> set (firsts xs). c_string x"
    using pieces_c_string [of s "[]" "[d]" True] assms(1) by (simp add: xs c_string_def)
  have "length (items ?p) < 2 ^ 32"
    using arg_cong [OF keys, of length] length_firsts [of xs] length_pieces [of "[d]" True "[]" s] assms(3) xs by simp
  then have "fcitx_string_hashset_join (Some ?p) d =
      Some (if firsts xs = [] then [] else butlast (concat (map (\<lambda>x. x @ [d]) (firsts xs))))"
    using join_keys [OF ok _ _ assms(2), unfolded keys] str arg_cong [OF keys, of "\<lambda>l. l = []"] by simp
  moreover have "fcitx_utils_string_list_join (Some (firsts xs)) d =
      Some (if firsts xs = [] then [] else butlast (concat (map (\<lambda>x. x @ [d]) (firsts xs))))"
  proof (cases "firsts xs")
    case (Cons y ys)
    have "c_string (concat (map (\<lambda>x. x @ [d]) (firsts xs)))"
      using str assms(2) by (auto simp: c_string_def)
    then have "c_string (butlast (concat (map (\<lambda>x. x @ [d]) (firsts xs))))" by (rule c_string_butlast)
    then show ?thesis using Cons by (simp add: fcitx_utils_string_list_join_def)
  qed (simp add: fcitx_utils_string_list_join_def)
  ultimately show ?thesis using keys by simp
qed

theorem hashset_parse_join_witness:
  "fcitx_string_hashset_contains (fcitx_string_hashset_parse [97, 44, 98, 44, 97] 44) [98] \<and>
   fcitx_string_hashset_join (Some (fcitx_string_hashset_parse [97, 44, 98, 44, 97] 44)) 44 = Some [97, 44, 98]"
  using hashset_parse_join [of "[97, 44, 98, 44, 97]" 44 "[[97], [98], [97]]" "[98]"]
  by (simp add: c_string_def split_full_pieces firsts_def fcitx_utils_string_list_join_def strend_def)

section \<open>Properties of the string map\<close>

text \<open>Without a destroy function the map is a dictionary whose values are replaced.\<close>

definition map_ok :: "bool dict \<Rightarrow> bool" where
  "map_ok m \<longleftrightarrow> dict_ok m \<and> \<not> has_notify m"

lemma map_set_insert: "\<not> has_notify m \<Longrightarrow> fcitx_string_map_set k v m = snd (fcitx_dict_insert k v True m)"
  by (simp add: fcitx_string_map_set_def fcitx_dict_insert_def notify_def split: option.split)

lemma map_set_ok:
  assumes "map_ok m"
  shows "map_ok (fcitx_string_map_set k v m)" "HASH_FIND j (fcitx_string_map_set k v m) =
    (if j = k then Some v else HASH_FIND j m)"
    "HASH_FIND k m = None \<Longrightarrow> items (fcitx_string_map_set k v m) = items m @ [(k, v)]"
proof -
  have "has_notify (fcitx_string_map_set k v m) = has_notify m"
    by (simp add: fcitx_string_map_set_def HASH_ADD_def split: option.split)
  then show "map_ok (fcitx_string_map_set k v m)" "HASH_FIND j (fcitx_string_map_set k v m) =
    (if j = k then Some v else HASH_FIND j m)"
    using insert_ok [of m k v True] assms map_set_insert [of m k v]
    by (auto simp: map_ok_def fcitx_dict_lookup_def)
qed (simp add: fcitx_string_map_set_def HASH_ADD_def)

lemma map_clear_loop: "\<not> has_notify m \<Longrightarrow> map_clear_loop xs m = remove_all_loop xs m"
proof (induction xs m rule: map_clear_loop.induct)
  case (2 k v rest m)
  show ?case
  proof (cases "HASH_DEL k m")
    case (Some m')
    then have "\<not> has_notify m'" using 2(2) by (auto simp: HASH_DEL_def split: if_splits)
    then show ?thesis using Some 2(1) by (simp add: fcitx_dict_item_free_def notify_def)
  qed simp
qed simp

lemma map_clear_ok:
  assumes "map_ok m"
  shows "\<exists>m'. fcitx_string_map_clear m = Some m' \<and> items m' = [] \<and> map_ok m'"
  using remove_all_loop_ok [of m "items m"] assms
  by (auto simp: map_ok_def fcitx_string_map_clear_def map_clear_loop)

text \<open>The text of an entry, without the separator, and what loading it does.\<close>

definition entry_text :: "cstr \<times> bool \<Rightarrow> cstr" where
  "entry_text = (\<lambda>(k, v). k @ bytes '':'' @ (if v then bytes ''true'' else bytes ''false''))"

lemma byte_literals:
  "bytes '':'' = [58]" "bytes ''true'' = [116, 114, 117, 101]" "bytes ''false'' = [102, 97, 108, 115, 101]"
  by (simp_all add: bytes_def of_char_def)

lemma load_entry:
  assumes "58 \<notin> set k"
  shows "map_load_item (entry_text (k, v)) (Some m) = Some (fcitx_string_map_set k v m)"
proof -
  have "pieces [58] True [] (entry_text (k, v)) = [k, if v then bytes ''true'' else bytes ''false'']"
    using assms by (simp add: entry_text_def byte_literals pieces_step pieces_last)
  then show ?thesis
    by (simp add: map_load_item_def byte_literals split_full_pieces)
qed

lemma load_entries:
  "map_ok m \<Longrightarrow> distinct (map fst (items m @ es)) \<Longrightarrow> \<forall>e \<in> set es. 58 \<notin> set (fst e) \<Longrightarrow>
   \<exists>m'. fold map_load_item (map entry_text es) (Some m) = Some m' \<and> map_ok m' \<and> items m' = items m @ es"
proof (induction es arbitrary: m)
  case (Cons e es)
  obtain k v where e: "e = (k, v)" by fastforce
  have "HASH_FIND k m = None" using Cons.prems(2) e by (auto simp: HASH_FIND_def map_of_eq_None_iff)
  then have m1: "map_ok (fcitx_string_map_set k v m)" "items (fcitx_string_map_set k v m) = items m @ [e]"
    using map_set_ok [OF Cons.prems(1)] e by simp_all
  then show ?case using Cons.IH [of "fcitx_string_map_set k v m"] Cons.prems load_entry [of k v m] e by auto
qed simp

text \<open>A string map that is written as text and read back has the same entries in the same order,
  whatever the map it is read into held, unless a key holds the separator or a colon, or the
  separator is a byte of the values or the colon.\<close>

theorem string_map_roundtrip:
  assumes "dict_ok m" and "length (items m) < 2 ^ 32" and "dict_ok m0" and "\<not> has_notify m0"
    and "\<forall>k \<in> set (map fst (items m)). c_string k \<and> bytes '':'' ! 0 \<notin> set k \<and> d \<notin> set k"
    and "d \<notin> set (bytes ''true:false'')" and "d \<noteq> 0"
  shows "\<exists>m'. fcitx_string_map_from_string m0 (fcitx_string_map_to_string m d) d = Some m' \<and>
    items m' = items m"
proof -
  obtain m1 where m1: "fcitx_string_map_clear m0 = Some m1" "items m1 = []" "map_ok m1"
    using map_clear_ok [of m0] assms(3,4) by (auto simp: map_ok_def)
  let ?xs = "map entry_text (items m)"
  let ?bs = "concat (map (\<lambda>x. x @ [d]) ?xs)"
  have keys: "58 \<notin> set (fst e)" "d \<notin> set (fst e)" "c_string (fst e)" if "e \<in> set (items m)" for e
    using assms(5) that by (auto simp: byte_literals)
  have d: "d \<noteq> 58" "d \<notin> set (bytes ''true'')" "d \<notin> set (bytes ''false'')"
    using assms(6) by (simp_all add: bytes_def of_char_def)
  have clean: "\<forall>x \<in> set ?xs. d \<notin> set x \<and> c_string x \<and> x \<noteq> []"
    using keys d by (auto simp: entry_text_def c_string_def byte_literals)
  have "fcitx_utils_string_split_full (fcitx_string_map_to_string m d) [d] True = Some ?xs"
  proof (cases "items m = []")
    case True
    then show ?thesis by (simp add: fcitx_string_map_to_string_def fcitx_dict_size_def split_full_pieces)
  next
    case False
    have sz: "fcitx_dict_size m \<noteq> 0"
      using False assms(1,2) unfolding fcitx_dict_size_def dict_ok_def
      by (auto simp: word_of_nat_eq_0_iff dest: nat_dvd_not_less)
    have "concat (map (map_entry d) (items m)) = ?bs"
      by (simp add: map_entry_def entry_text_def comp_def case_prod_unfold)
    moreover have "map_entry_length = (\<lambda>e. length (entry_text e @ [d]))"
      by (auto simp: map_entry_length_def entry_text_def fun_eq_iff)
    then have "sum_list (map map_entry_length (items m)) = length ?bs"
      by (simp add: length_concat comp_def)
    moreover have "c_string ?bs" using clean assms(7) by (auto simp: c_string_def)
    moreover have "?bs \<noteq> []" using False by (cases "items m") auto
    ultimately have "fcitx_string_map_to_string m d = butlast ?bs"
      using sz terminate_last [of ?bs] c_string_butlast [of ?bs]
      by (simp add: fcitx_string_map_to_string_def Let_def)
    moreover have "last ?xs \<noteq> []" using False clean last_in_set [of ?xs] by blast
    then have "pieces [d] True [] (butlast ?bs) = ?xs"
      using pieces_joined [of ?xs d] False clean by simp
    ultimately show ?thesis by (simp add: split_full_pieces)
  qed
  moreover obtain m' where "fold map_load_item ?xs (Some m1) = Some m'" "items m' = items m"
    using load_entries [OF m1(3), of "items m"] m1(2) assms(1) keys by (auto simp: dict_ok_def)
  ultimately show ?thesis using m1(1) by (simp add: fcitx_string_map_from_string_def)
qed

definition two_flags :: "bool dict" where
  "two_flags = fcitx_string_map_set [98] False (fcitx_string_map_set [97] True (fcitx_dict_new False))"

theorem string_map_roundtrip_witness:
  "\<exists>m'. fcitx_string_map_from_string (fcitx_dict_new False) (fcitx_string_map_to_string two_flags 44) 44 = Some m' \<and>
     items m' = [([97], True), ([98], False)]"
proof -
  have items: "items two_flags = [([97], True), ([98], False)]" "num_items two_flags = 2"
    by (simp_all add: two_flags_def fcitx_string_map_set_def fcitx_dict_new_def HASH_ADD_def HASH_FIND_def)
  show ?thesis
    using string_map_roundtrip [of two_flags "fcitx_dict_new False" 44] items
    by (simp add: dict_ok_def fcitx_dict_new_def c_string_def bytes_def of_char_def)
qed

end
