(* ===== verification/AddonManager.thy ===== *)
theory AddonManager
  imports StringSets
begin

text \<open>
  The addon manager, \<open>src/lib/fcitx/addon.c\<close>: reading the metadata of the addons, loading them when
  their dependencies are loaded, unloading them, and checking the signature of a call.

  An addon is identified with its name, which is its key in the table.  Code that is not in the
  repository is an argument: what the generated parser gives for a metadata file is an
  \<open>addon_config\<close>, what the dynamic linker gives for a library is a \<open>shared_object\<close>, and what an
  addon's own functions return is in its \<open>addon_api\<close>; they are taken not to call back into the manager.
\<close>

section \<open>State\<close>

definition FAC_Frontend :: nat where "FAC_Frontend = 1"
definition FAC_InputMethod :: nat where "FAC_InputMethod = 0"
definition FAC_Last :: nat where "FAC_Last = 5"

record addon_config =
  addon_name :: cstr
  addon_type :: cstr
  category :: nat
  dependency :: cstr
  addon_library :: cstr
  enabled :: bool

text \<open>A function entry: whether its pointer is set, and its signature.\<close>

record addon_api =
  has_init :: bool
  has_destroy :: bool
  api_init :: "addon_config \<Rightarrow> nat option"
  registerCallback :: "(bool \<times> cstr) dict option"

datatype symbol = ABI_version int | Addon_api addon_api

record shared_object =
  loads :: bool
  symbols :: "cstr \<Rightarrow> symbol option"

record addon_instance =
  api :: "addon_api option"
  inst_data :: "nat option"
  inst_functions :: "(bool \<times> cstr) dict option"
  frontendId :: nat

record addon =
  config :: addon_config
  loaded :: bool
  dependencies :: "unit dict"
  inst :: addon_instance

datatype resolver =
    StaticLibrary "addon_api dict"
  | SharedLibrary "cstr \<Rightarrow> shared_object option"
  | OtherResolver "addon_config \<Rightarrow> addon_instance option"

datatype addon_event =
    AddonInit cstr nat
  | AddonDestroy cstr
  | AddonUnload cstr

record addon_manager =
  resolvers :: "resolver dict"
  addons :: "addon dict"
  enabledAddons :: "unit dict option"
  disabledAddons :: "unit dict option"
  disabledAllAddons :: bool
  loadedAddons :: "cstr list"
  mgr_loaded :: bool
  mgr_properties :: "nat dict"
  frontends :: "cstr list"
  ims :: "cstr list"
  mgr_log :: "addon_event list"

definition upd_addon :: "cstr \<Rightarrow> (addon \<Rightarrow> addon) \<Rightarrow> addon_manager \<Rightarrow> addon_manager" where
  "upd_addon k f m =
     m\<lparr>addons := (addons m)\<lparr>items := map (\<lambda>(n, a). (n, if n = k then f a else a)) (items (addons m))\<rparr>\<rparr>"

definition disable :: "cstr \<Rightarrow> addon_manager \<Rightarrow> addon_manager" where
  "disable k = upd_addon k (config_update (enabled_update (\<lambda>_. False)))"

definition addon_log :: "addon_event \<Rightarrow> addon_manager \<Rightarrow> addon_manager" where
  "addon_log e m = m\<lparr>mgr_log := mgr_log m @ [e]\<rparr>"

section \<open>The manager\<close>

definition fcitx_addon_manager_new :: addon_manager where
  "fcitx_addon_manager_new =
     \<lparr>resolvers = fcitx_dict_new True, addons = fcitx_dict_new True, enabledAddons = None,
      disabledAddons = None, disabledAllAddons = False, loadedAddons = [], mgr_loaded = False,
      mgr_properties = fcitx_dict_new False, frontends = [], ims = [], mgr_log = []\<rparr>"

definition fcitx_addon_manager_register_resolver :: "cstr \<Rightarrow> resolver \<Rightarrow> addon_manager \<Rightarrow> addon_manager" where
  "fcitx_addon_manager_register_resolver nm r m =
     m\<lparr>resolvers := snd (fcitx_dict_insert nm r False (resolvers m))\<rparr>"

definition fcitx_addon_manager_set_property :: "cstr \<Rightarrow> nat \<Rightarrow> addon_manager \<Rightarrow> addon_manager" where
  "fcitx_addon_manager_set_property nm data m =
     m\<lparr>mgr_properties := snd (fcitx_dict_insert nm data True (mgr_properties m))\<rparr>"

definition fcitx_addon_manager_get_property :: "cstr \<Rightarrow> addon_manager \<Rightarrow> nat option" where
  "fcitx_addon_manager_get_property nm m = fcitx_dict_lookup nm (mgr_properties m)"

definition comma :: byte where "comma = 44"

definition fcitx_addon_manager_set_override ::
  "cstr option \<Rightarrow> cstr option \<Rightarrow> addon_manager \<Rightarrow> addon_manager" where
  "fcitx_addon_manager_set_override en dis m =
     (let d = map_option (\<lambda>s. fcitx_string_hashset_parse s comma) dis in
      m\<lparr>enabledAddons := map_option (\<lambda>s. fcitx_string_hashset_parse s comma) en,
        disabledAddons := d,
        disabledAllAddons := (case d of
            Some d \<Rightarrow> fcitx_string_hashset_contains d (bytes ''all'') | None \<Rightarrow> False)\<rparr>)"

definition fcitx_addon_manager_register_default_resolver ::
  "(cstr \<Rightarrow> shared_object option) \<Rightarrow> (cstr \<times> addon_api) list \<Rightarrow> addon_manager \<Rightarrow> addon_manager" where
  "fcitx_addon_manager_register_default_resolver lib staticAddon m =
     (let d = fold (\<lambda>(nm, entry) d. snd (fcitx_dict_insert nm entry False d)) staticAddon (fcitx_dict_new False);
          m = fcitx_addon_manager_register_resolver (bytes ''StaticLibrary'') (StaticLibrary d) m
      in fcitx_addon_manager_register_resolver (bytes ''SharedLibrary'') (SharedLibrary lib) m)"

section \<open>Resolving an addon\<close>

definition fcitx_addon_init_general ::
  "addon_config \<Rightarrow> addon_api \<Rightarrow> addon_instance \<Rightarrow> addon_manager \<Rightarrow> bool \<times> addon_instance \<times> addon_manager" where
  "fcitx_addon_init_general cfg apiCommon i m =
     (if \<not> has_init apiCommon \<or> \<not> has_destroy apiCommon then (False, i, m)
      else
        let i = (if category cfg = FAC_Frontend then i\<lparr>frontendId := length (frontends m)\<rparr> else i);
            m = addon_log (AddonInit (addon_name cfg) (frontendId i)) m;
            i = i\<lparr>inst_data := api_init apiCommon cfg\<rparr>
        in if inst_data i = None then (False, i, m)
           else
             let m = (if category cfg = FAC_Frontend then m\<lparr>frontends := frontends m @ [addon_name cfg]\<rparr>
                      else if category cfg = FAC_InputMethod then m\<lparr>ims := ims m @ [addon_name cfg]\<rparr>
                      else m);
                 i = (case registerCallback apiCommon of Some f \<Rightarrow> i\<lparr>inst_functions := Some f\<rparr> | None \<Rightarrow> i)
             in (True, i, m))"

definition addonType :: "cstr list" where
  "addonType = [bytes ''inputmethod'', bytes ''frontend'', bytes ''module'', bytes ''ui'', bytes ''addonresolver'']"

definition fcitx_library_get_symbol :: "shared_object \<Rightarrow> cstr \<Rightarrow> cstr \<Rightarrow> symbol option" where
  "fcitx_library_get_symbol lib addonName symbolName =
     symbols lib (map (\<lambda>c. if c = 45 then 95 else c) (addonName @ [95] @ symbolName))"

definition FCITX_ABI_VERSION :: int where "FCITX_ABI_VERSION = 6"

text \<open>The library suffix is set by the build: an argument.\<close>

definition library_file :: "cstr \<Rightarrow> cstr \<Rightarrow> cstr" where
  "library_file suffix lib = (if fcitx_utils_string_ends_with lib suffix then lib else lib @ suffix)"

definition fcitx_shared_library_resolve ::
  "cstr \<Rightarrow> (cstr \<Rightarrow> shared_object option) \<Rightarrow> addon_config \<Rightarrow> addon_instance \<Rightarrow> addon_manager \<Rightarrow>
   bool \<times> addon_instance \<times> addon_manager" where
  "fcitx_shared_library_resolve suffix locate cfg i m =
     (case locate (library_file suffix (addon_library cfg)) of
        None \<Rightarrow> (False, i, m)
      | Some lib \<Rightarrow>
          if \<not> loads lib then (False, i, m)
          else if (case fcitx_library_get_symbol lib (addon_name cfg) (bytes ''ABI_VERSION'') of
              Some (ABI_version v) \<Rightarrow> v \<noteq> FCITX_ABI_VERSION | _ \<Rightarrow> True) then (False, i, m)
          else case fcitx_library_get_symbol lib (addon_name cfg) (addonType ! category cfg) of
              Some (Addon_api a) \<Rightarrow> fcitx_addon_init_general cfg a (i\<lparr>api := Some a\<rparr>) m
            | _ \<Rightarrow> (False, i\<lparr>api := None\<rparr>, m))"

definition fcitx_static_library_resolve ::
  "addon_api dict \<Rightarrow> addon_config \<Rightarrow> addon_instance \<Rightarrow> addon_manager \<Rightarrow> bool \<times> addon_instance \<times> addon_manager" where
  "fcitx_static_library_resolve d cfg i m =
     (let i = (case fcitx_dict_lookup (addon_name cfg) d of Some a \<Rightarrow> i\<lparr>api := Some a\<rparr> | None \<Rightarrow> i) in
      case api i of
        None \<Rightarrow> (False, i, m)
      | Some a \<Rightarrow> fcitx_addon_init_general cfg a i m)"

definition resolve ::
  "cstr \<Rightarrow> resolver \<Rightarrow> addon_config \<Rightarrow> addon_instance \<Rightarrow> addon_manager \<Rightarrow> bool \<times> addon_instance \<times> addon_manager" where
  "resolve suffix r cfg i m =
     (case r of
        StaticLibrary d \<Rightarrow> fcitx_static_library_resolve d cfg i m
      | SharedLibrary locate \<Rightarrow> fcitx_shared_library_resolve suffix locate cfg i m
      | OtherResolver f \<Rightarrow> (case f cfg of Some i \<Rightarrow> (True, i, m) | None \<Rightarrow> (False, i, m)))"

section \<open>Metadata\<close>

definition fcitx_addon_new :: "addon_config \<Rightarrow> addon" where
  "fcitx_addon_new cfg =
     \<lparr>config = cfg, loaded = False, dependencies = fcitx_dict_new False,
      inst = \<lparr>api = None, inst_data = None, inst_functions = None, frontendId = 0\<rparr>\<rparr>"

definition overridden :: "addon_manager \<Rightarrow> addon_config \<Rightarrow> bool" where
  "overridden m cfg =
     (let e = enabled cfg;
          e = (if disabledAllAddons m \<or>
                 (case disabledAddons m of Some d \<Rightarrow> fcitx_string_hashset_contains d (addon_name cfg) | None \<Rightarrow> False)
               then False else e)
      in if (case enabledAddons m of Some d \<Rightarrow> fcitx_string_hashset_contains d (addon_name cfg) | None \<Rightarrow> False)
         then True else e)"

definition fcitx_addon_load_metadata :: "addon_config \<Rightarrow> addon_manager \<Rightarrow> addon_manager" where
  "fcitx_addon_load_metadata cfg m =
     (if addon_name cfg = [] \<or> addon_type cfg = [] \<or> category cfg \<ge> FAC_Last then m
      else
        let k = addon_name cfg; cfg' = cfg\<lparr>enabled := overridden m cfg\<rparr>;
            deps = fcitx_string_hashset_parse (dependency cfg) comma
        in case fcitx_dict_lookup k (addons m) of
             Some a \<Rightarrow>
               if loaded a then m
               else upd_addon k (\<lambda>a. a\<lparr>config := cfg', dependencies := deps\<rparr>) m
           | None \<Rightarrow>
               m\<lparr>addons := snd (fcitx_dict_insert k
                    ((fcitx_addon_new cfg')\<lparr>dependencies := deps\<rparr>) False (addons m))\<rparr>)"

section \<open>Loading\<close>

definition fcitx_addon_manager_load_addon :: "cstr \<Rightarrow> cstr \<Rightarrow> addon_manager \<Rightarrow> addon_manager" where
  "fcitx_addon_manager_load_addon suffix k m =
     (case fcitx_dict_lookup k (addons m) of
        None \<Rightarrow> m
      | Some a \<Rightarrow>
          if loaded a then m
          else case fcitx_dict_lookup (addon_type (config a)) (resolvers m) of
              None \<Rightarrow> disable k m
            | Some r \<Rightarrow>
                let (ok, i, m) = resolve suffix r (config a) (inst a) m;
                    m = upd_addon k (inst_update (\<lambda>_. i)) m
                in if ok then (upd_addon k (loaded_update (\<lambda>_. True)) m)\<lparr>loadedAddons := loadedAddons m @ [k]\<rparr>
                   else disable k m)"

text \<open>Whether the loop over the dependencies breaks at a missing one, and otherwise whether all of
  them are loaded.\<close>

fun check_dependencies :: "addon dict \<Rightarrow> cstr list \<Rightarrow> bool \<Rightarrow> bool option" where
  "check_dependencies d [] allLoaded = Some allLoaded"
| "check_dependencies d (k # ks) allLoaded =
     (case fcitx_dict_lookup k d of
        None \<Rightarrow> None
      | Some a \<Rightarrow> check_dependencies d ks (if \<not> loaded a then False else allLoaded))"

definition load_step :: "cstr \<Rightarrow> cstr \<Rightarrow> bool \<times> addon_manager \<Rightarrow> bool \<times> addon_manager" where
  "load_step suffix k = (\<lambda>(update, m).
     case fcitx_dict_lookup k (addons m) of
       None \<Rightarrow> (update, m)
     | Some a \<Rightarrow>
         if \<not> enabled (config a) then (update, m)
         else case check_dependencies (addons m) (map fst (items (dependencies a))) True of
             None \<Rightarrow> (True, disable k m)
           | Some True \<Rightarrow> (update, fcitx_addon_manager_load_addon suffix k m)
           | Some False \<Rightarrow> (update, m))"

definition load_pass :: "cstr \<Rightarrow> addon_manager \<Rightarrow> bool \<times> addon_manager" where
  "load_pass suffix m = fold (load_step suffix) (map fst (items (addons m))) (False, m)"

function load_loop :: "cstr \<Rightarrow> addon_manager \<Rightarrow> addon_manager" where
  "load_loop suffix m =
     (let (update, m) = load_pass suffix m in if update then load_loop suffix m else m)"
  by pat_completeness auto

text \<open>The number of enabled addons, which a pass that asks for another one has lowered.\<close>

definition enabled_count :: "addon_manager \<Rightarrow> nat" where
  "enabled_count m = length (filter (\<lambda>(k, a). enabled (config a)) (items (addons m)))"

lemma init_general_frame:
  assumes "fcitx_addon_init_general cfg a i m = (ok, i', m')"
  shows "addons m' = addons m \<and> resolvers m' = resolvers m \<and> loadedAddons m' = loadedAddons m \<and>
    mgr_loaded m' = mgr_loaded m \<and>
    (category cfg = FAC_Frontend \<longrightarrow> frontendId i' = length (frontends m) \<or> \<not> ok) \<and>
    frontends m' = frontends m @ (if ok \<and> category cfg = FAC_Frontend then [addon_name cfg] else [])"
  using assms
  by (auto simp: fcitx_addon_init_general_def Let_def addon_log_def FAC_Frontend_def FAC_InputMethod_def
      split: if_splits option.splits)

text \<open>What a resolver leaves alone; one of another kind does not touch the manager.\<close>

lemma resolve_frame:
  assumes "resolve suffix r cfg i m = (ok, i', m')"
  shows "addons m' = addons m \<and> resolvers m' = resolvers m \<and> loadedAddons m' = loadedAddons m \<and>
    mgr_loaded m' = mgr_loaded m"
  using assms
  by (auto simp: resolve_def fcitx_static_library_resolve_def fcitx_shared_library_resolve_def Let_def
      dest!: init_general_frame split: resolver.splits option.splits if_splits symbol.splits)

lemma upd_addon_fields [simp]:
  "resolvers (upd_addon k f m) = resolvers m" "loadedAddons (upd_addon k f m) = loadedAddons m"
  "frontends (upd_addon k f m) = frontends m" "mgr_log (upd_addon k f m) = mgr_log m"
  "map fst (items (addons (upd_addon k f m))) = map fst (items (addons m))"
  "mgr_loaded (upd_addon k f m) = mgr_loaded m"
  by (auto simp: upd_addon_def)

lemma enabled_count_upd:
  "(\<And>a. enabled (config (f a)) = enabled (config a)) \<Longrightarrow> enabled_count (upd_addon k f m) = enabled_count m"
  by (auto simp: enabled_count_def upd_addon_def comp_def filter_map case_prod_unfold if_distrib
      intro!: arg_cong [of _ _ length] filter_cong)

lemma disable_count:
  "enabled_count (disable k m) \<le> enabled_count m"
  "(k, a) \<in> set (items (addons m)) \<Longrightarrow> enabled (config a) \<Longrightarrow> enabled_count (disable k m) < enabled_count m"
proof -
  let ?P = "\<lambda>(n, a). enabled (config a)" and ?Q = "\<lambda>(n, a). n \<noteq> k \<and> enabled (config a)"
  have eq: "enabled_count (disable k m) = length (filter ?Q (items (addons m)))"
    by (auto simp: enabled_count_def disable_def upd_addon_def filter_map comp_def case_prod_unfold
        intro!: arg_cong [of _ _ length] filter_cong)
  have sub: "filter ?Q xs = filter (\<lambda>(n, a). n \<noteq> k) (filter ?P xs)" for xs
    by (auto simp: case_prod_unfold conj_commute)
  show "enabled_count (disable k m) \<le> enabled_count m"
    unfolding eq sub unfolding enabled_count_def by (rule length_filter_le)
  show "enabled_count (disable k m) < enabled_count m" if "(k, a) \<in> set (items (addons m))" "enabled (config a)"
    unfolding eq sub unfolding enabled_count_def using that by (intro length_filter_less) auto
qed

lemma enabled_count_cong: "addons m' = addons m \<Longrightarrow> enabled_count m' = enabled_count m"
  by (simp add: enabled_count_def)

lemma enabled_count_loadedAddons: "enabled_count (m\<lparr>loadedAddons := l\<rparr>) = enabled_count m"
  by (simp add: enabled_count_def)

lemma load_addon_cases:
  obtains (same) "fcitx_addon_manager_load_addon suffix k m = m"
      "\<And>a. fcitx_dict_lookup k (addons m) = Some a \<Longrightarrow> loaded a"
  | (unresolved) "fcitx_addon_manager_load_addon suffix k m = disable k m"
  | (failed) a r i m1 where "fcitx_dict_lookup k (addons m) = Some a"
      "fcitx_dict_lookup (addon_type (config a)) (resolvers m) = Some r"
      "resolve suffix r (config a) (inst a) m = (False, i, m1)"
      "fcitx_addon_manager_load_addon suffix k m = disable k (upd_addon k (inst_update (\<lambda>_. i)) m1)"
  | (loads) a r i m1 where "fcitx_dict_lookup k (addons m) = Some a" "\<not> loaded a"
      "fcitx_dict_lookup (addon_type (config a)) (resolvers m) = Some r"
      "resolve suffix r (config a) (inst a) m = (True, i, m1)"
      "fcitx_addon_manager_load_addon suffix k m =
         (upd_addon k (loaded_update (\<lambda>_. True)) (upd_addon k (inst_update (\<lambda>_. i)) m1))
           \<lparr>loadedAddons := loadedAddons m @ [k]\<rparr>"
proof (cases "fcitx_dict_lookup k (addons m)")
  case None
  with same show ?thesis by (simp add: fcitx_addon_manager_load_addon_def)
next
  case (Some a)
  show ?thesis
  proof (cases "loaded a")
    case True
    with Some same show ?thesis by (simp add: fcitx_addon_manager_load_addon_def)
  next
    case False
    show ?thesis
    proof (cases "fcitx_dict_lookup (addon_type (config a)) (resolvers m)")
      case None
      with Some False unresolved show ?thesis by (simp add: fcitx_addon_manager_load_addon_def)
    next
      case r: (Some r)
      obtain ok i m1 where res: "resolve suffix r (config a) (inst a) m = (ok, i, m1)" by (rule prod_cases3)
      have "loadedAddons m1 = loadedAddons m" using resolve_frame [OF res] by simp
      with Some False r res failed [of a r i m1] loads [of a r i m1] show ?thesis
        by (cases ok) (simp_all add: fcitx_addon_manager_load_addon_def)
    qed
  qed
qed

lemma load_addon_count: "enabled_count (fcitx_addon_manager_load_addon suffix k m) \<le> enabled_count m"
proof (cases rule: load_addon_cases [of suffix k m])
  case (failed a r i m1)
  have "enabled_count (upd_addon k (inst_update (\<lambda>_. i)) m1) = enabled_count m"
    by (subst enabled_count_upd) (use resolve_frame [OF failed(3)] in \<open>simp_all add: enabled_count_def\<close>)
  with disable_count(1) [of k "upd_addon k (inst_update (\<lambda>_. i)) m1"] failed(4) show ?thesis by simp
next
  case (loads a r i m1)
  have "enabled_count (upd_addon k (loaded_update (\<lambda>_. True)) (upd_addon k (inst_update (\<lambda>_. i)) m1)) = enabled_count m"
    using resolve_frame [OF loads(4)] by (subst enabled_count_upd, simp)+ (simp add: enabled_count_def)
  then show ?thesis by (simp only: loads(5) enabled_count_loadedAddons)
qed (simp_all add: disable_count(1))

lemma load_step_count:
  assumes "load_step suffix k (u, m) = (u', m')"
  shows "enabled_count m' \<le> enabled_count m \<and> (u' \<and> \<not> u \<longrightarrow> enabled_count m' < enabled_count m)"
proof (cases "fcitx_dict_lookup k (addons m)")
  case (Some a)
  then have a: "(k, a) \<in> set (items (addons m))" by (simp add: fcitx_dict_lookup_def find_mem)
  show ?thesis
    using assms Some disable_count(1) [of k m] disable_count(2) [OF a] load_addon_count [of suffix k m]
    by (auto simp: load_step_def split: option.splits bool.splits if_splits)
qed (use assms in \<open>simp add: load_step_def\<close>)

lemma load_pass_count:
  assumes "load_pass suffix m = (u', m')"
  shows "enabled_count m' \<le> enabled_count m \<and> (u' \<longrightarrow> enabled_count m' < enabled_count m)"
proof -
  have "enabled_count m' \<le> enabled_count m \<and> (u' \<and> \<not> u \<longrightarrow> enabled_count m' < enabled_count m)"
    if "fold (load_step suffix) ks (u, m) = (u', m')" for ks u
    using that
  proof (induction ks arbitrary: u m)
    case (Cons k ks)
    obtain v x where x: "load_step suffix k (u, m) = (v, x)" by fastforce
    then have "fold (load_step suffix) ks (v, x) = (u', m')" using Cons.prems by simp
    with Cons.IH load_step_count [OF x] show ?case by fastforce
  qed simp
  then show ?thesis using assms by (auto simp: load_pass_def)
qed

termination load_loop
  by (relation "measure (\<lambda>(s, m). enabled_count m)") (auto dest: load_pass_count [OF sym])

declare load_loop.simps [simp del]

text \<open>The first loop removes the addons that are not loaded; the entry after the current one is
  fetched before.\<close>

fun remove_unloaded :: "(cstr \<times> addon) list \<Rightarrow> addon dict \<Rightarrow> addon dict option" where
  "remove_unloaded [] d = Some d"
| "remove_unloaded ((k, a) # rest) d =
     (if \<not> loaded a
      then do { (_, d) \<leftarrow> fcitx_dict_remove_data k False d; remove_unloaded rest d }
      else remove_unloaded rest d)"

text \<open>\<open>cfgs\<close> is the metadata of the files that were found, in their order.\<close>

definition fcitx_addon_manager_load ::
  "cstr \<Rightarrow> addon_config list \<Rightarrow> addon_manager \<Rightarrow> addon_manager option" where
  "fcitx_addon_manager_load suffix cfgs m = do {
     d \<leftarrow> remove_unloaded (items (addons m)) (addons m);
     let m = fold fcitx_addon_load_metadata cfgs (m\<lparr>addons := d\<rparr>);
     Some ((load_loop suffix m)\<lparr>mgr_loaded := True\<rparr>) }"

section \<open>Unloading\<close>

text \<open>\<open>None\<close> is a call through a missing entry.\<close>

definition fcitx_addon_manager_unload_addon :: "cstr \<Rightarrow> addon_manager \<Rightarrow> addon_manager option" where
  "fcitx_addon_manager_unload_addon k m = do {
     a \<leftarrow> fcitx_dict_lookup k (addons m);
     _ \<leftarrow> fcitx_dict_lookup (addon_type (config a)) (resolvers m);
     Some (addon_log (AddonUnload k) (addon_log (AddonDestroy k) m)) }"

fun unload_each :: "cstr list \<Rightarrow> addon_manager \<Rightarrow> addon_manager option" where
  "unload_each [] m = Some m"
| "unload_each (k # ks) m = do {
     m \<leftarrow> fcitx_addon_manager_unload_addon k m;
     unload_each ks (upd_addon k (loaded_update (\<lambda>_. False)) m) }"

definition fcitx_addon_manager_unload :: "addon_manager \<Rightarrow> addon_manager option" where
  "fcitx_addon_manager_unload m =
     (if \<not> mgr_loaded m then Some m
      else map_option (loadedAddons_update (\<lambda>_. [])) (unload_each (rev (loadedAddons m)) m))"

text \<open>What remains of a freed manager is its log.\<close>

definition fcitx_addon_manager_free :: "addon_manager \<Rightarrow> addon_event list option" where
  "fcitx_addon_manager_free m =
     map_option mgr_log (if mgr_loaded m then fcitx_addon_manager_unload m else Some m)"

section \<open>Calling a function of an addon\<close>

definition FCITX_ADDON_FUNCTION_MAX_ARG :: nat where "FCITX_ADDON_FUNCTION_MAX_ARG = 20"

definition signature_chars :: cstr where "signature_chars = bytes ''aynixzqutfdv''"

definition valid_signature :: "cstr \<Rightarrow> bool" where
  "valid_signature sig =
     (let siglen = length sig in
      \<not> (siglen = 0 \<or> siglen > FCITX_ADDON_FUNCTION_MAX_ARG + 1) \<and>
      list_all (\<lambda>i. \<not> (sig ! i = 118 \<and> i \<noteq> 0) \<and> sig ! i \<in> set signature_chars) [0..<siglen])"

text \<open>The call that is made: the data of the addon, the return type and the types of the arguments.
  The call itself is that of libffi.\<close>

definition fcitx_addon_manager_invoke ::
  "cstr \<Rightarrow> cstr \<Rightarrow> addon_manager \<Rightarrow> (nat option \<times> byte \<times> cstr) option" where
  "fcitx_addon_manager_invoke addonName functionName m = do {
     a \<leftarrow> fcitx_dict_lookup addonName (addons m);
     fs \<leftarrow> inst_functions (inst a);
     (function, sig) \<leftarrow> fcitx_dict_lookup functionName fs;
     if \<not> function then None
     else if \<not> valid_signature sig then None
     else Some (inst_data (inst a), sig ! 0, map (\<lambda>i. sig ! i) [1..<length sig]) }"

section \<open>What loading keeps\<close>

abbreviation find_addon :: "cstr \<Rightarrow> addon_manager \<Rightarrow> addon option" where
  "find_addon k m \<equiv> fcitx_dict_lookup k (addons m)"

definition dep_keys :: "addon \<Rightarrow> cstr set" where
  "dep_keys a = fst ` set (items (dependencies a))"

text \<open>The list of loaded addons has exactly the loaded entries, each once, each after its dependencies,
  and the resolver of each is known.\<close>

definition load_inv :: "addon_manager \<Rightarrow> bool" where
  "load_inv m \<longleftrightarrow>
     distinct (map fst (items (addons m))) \<and> distinct (loadedAddons m) \<and>
     (\<forall>k. k \<in> set (loadedAddons m) \<longleftrightarrow> (\<exists>a. find_addon k m = Some a \<and> loaded a)) \<and>
     (\<forall>k a. find_addon k m = Some a \<and> loaded a \<longrightarrow>
        fcitx_dict_lookup (addon_type (config a)) (resolvers m) \<noteq> None) \<and>
     (\<forall>k xs ys a. loadedAddons m = xs @ k # ys \<and> find_addon k m = Some a \<longrightarrow> dep_keys a \<subseteq> set xs)"

lemma find_upd [simp]:
  "find_addon j (upd_addon k f m) = (if j = k then map_option f (find_addon j m) else find_addon j m)"
proof -
  have "map_of (map (\<lambda>(n, a). (n, if n = k then f a else a)) xs) j =
      (if j = k then map_option f (map_of xs j) else map_of xs j)" for xs
    by (induction xs) auto
  then show ?thesis by (simp add: fcitx_dict_lookup_def HASH_FIND_def upd_addon_def)
qed

lemma load_inv_cong:
  assumes "load_inv m" and "addons m' = addons m" and "resolvers m' = resolvers m"
    and "loadedAddons m' = loadedAddons m"
  shows "load_inv m'"
  using assms(1) unfolding load_inv_def assms(2-4) .

lemma load_invI:
  assumes "distinct (map fst (items (addons m)))" and "distinct (loadedAddons m)"
    and "\<And>k. k \<in> set (loadedAddons m) \<longleftrightarrow> (\<exists>a. find_addon k m = Some a \<and> loaded a)"
    and "\<And>k a. find_addon k m = Some a \<Longrightarrow> loaded a \<Longrightarrow>
      fcitx_dict_lookup (addon_type (config a)) (resolvers m) \<noteq> None"
    and "\<And>k xs ys a. loadedAddons m = xs @ k # ys \<Longrightarrow> find_addon k m = Some a \<Longrightarrow> dep_keys a \<subseteq> set xs"
  shows "load_inv m"
  unfolding load_inv_def using assms by blast

lemma load_inv_upd:
  assumes "load_inv m"
    and "\<And>a. find_addon k m = Some a \<Longrightarrow> loaded (f a) = loaded a"
    and "\<And>a. find_addon k m = Some a \<Longrightarrow> loaded a \<Longrightarrow>
      dep_keys (f a) = dep_keys a \<and> addon_type (config (f a)) = addon_type (config a)"
  shows "load_inv (upd_addon k f m)"
proof -
  have loaded_mem: "j \<in> set (loadedAddons m) \<longleftrightarrow> (\<exists>a. find_addon j m = Some a \<and> loaded a)" for j
    using assms(1) by (simp add: load_inv_def)
  have "dep_keys a \<subseteq> set xs"
    if "loadedAddons m = xs @ j # ys" "find_addon j (upd_addon k f m) = Some a" for j xs ys a
  proof (cases "j = k")
    case True
    from that(1) loaded_mem [of j] obtain b where b: "find_addon j m = Some b" "loaded b" by auto
    then have "dep_keys b \<subseteq> set xs" using assms(1) that(1) unfolding load_inv_def by blast
    then show ?thesis using assms(3) [of b] b True that(2) by simp
  next
    case False
    then show ?thesis using assms(1) that unfolding load_inv_def by simp
  qed
  moreover have "fcitx_dict_lookup (addon_type (config a)) (resolvers m) \<noteq> None"
    if "find_addon j (upd_addon k f m) = Some a" "loaded a" for j a
    using that assms by (cases "j = k") (auto simp: load_inv_def)
  moreover have "j \<in> set (loadedAddons m) \<longleftrightarrow> (\<exists>a. find_addon j (upd_addon k f m) = Some a \<and> loaded a)" for j
    using assms(2) by (cases "j = k") (auto simp: loaded_mem)
  ultimately show ?thesis using assms(1) unfolding load_inv_def [of m]
    by (intro load_invI) (simp_all del: find_upd not_None_eq)
qed

lemma load_inv_loaded:
  assumes "load_inv m" and a: "find_addon k m = Some a" and "\<not> loaded a"
    and "dep_keys a \<subseteq> set (loadedAddons m)"
    and "fcitx_dict_lookup (addon_type (config a)) (resolvers m) \<noteq> None"
  shows "load_inv ((upd_addon k (loaded_update (\<lambda>_. True)) m)\<lparr>loadedAddons := loadedAddons m @ [k]\<rparr>)"
proof -
  have mem: "j \<in> set (loadedAddons m) \<longleftrightarrow> (\<exists>a. find_addon j m = Some a \<and> loaded a)" for j
    using assms(1) by (simp add: load_inv_def)
  have k: "k \<notin> set (loadedAddons m)" using assms(2,3) mem by simp
  have deps: "dep_keys b \<subseteq> set xs" if "loadedAddons m = xs @ j # ys" "find_addon j m = Some b" for j xs ys b
    using assms(1) that unfolding load_inv_def by blast
  have "dep_keys b \<subseteq> set xs"
    if x: "loadedAddons m @ [k] = xs @ j # ys"
      and b: "find_addon j (upd_addon k (loaded_update (\<lambda>_. True)) m) = Some b" for j xs ys b
  proof (cases "ys = []")
    case True
    with x have "j = k" "xs = loadedAddons m" by auto
    moreover from this b a have "dep_keys b = dep_keys a" by (auto simp: dep_keys_def)
    ultimately show ?thesis using assms(4) by simp
  next
    case False
    then obtain zs where zs: "ys = zs @ [k]" "loadedAddons m = xs @ j # zs" using x
      by (cases ys rule: rev_cases) auto
    then have "j \<noteq> k" using k by auto
    with b deps [OF zs(2)] show ?thesis by simp
  qed
  moreover have "fcitx_dict_lookup (addon_type (config b)) (resolvers m) \<noteq> None"
    if "find_addon j (upd_addon k (loaded_update (\<lambda>_. True)) m) = Some b" "loaded b" for j b
    using that a assms(1,5) by (cases "j = k") (auto simp: load_inv_def)
  moreover have "j \<in> set (loadedAddons m @ [k]) \<longleftrightarrow>
      (\<exists>b. find_addon j (upd_addon k (loaded_update (\<lambda>_. True)) m) = Some b \<and> loaded b)" for j
    using a by (auto simp: mem)
  ultimately show ?thesis using assms(1) k unfolding load_inv_def [of m]
    by (intro load_invI) (simp_all del: find_upd not_None_eq)
qed

lemma check_dependencies_iff:
  "check_dependencies d ks b =
     (if \<exists>k\<in>set ks. fcitx_dict_lookup k d = None then None
      else Some (b \<and> (\<forall>k\<in>set ks. loaded (the (fcitx_dict_lookup k d)))))"
  by (induction ks arbitrary: b) (auto split: option.split)

lemma load_inv_disable: "load_inv m \<Longrightarrow> load_inv (disable k m)"
  unfolding disable_def by (rule load_inv_upd) (auto simp: dep_keys_def)

lemma load_inv_load_addon:
  assumes "load_inv m" and "\<And>a. find_addon k m = Some a \<Longrightarrow> dep_keys a \<subseteq> set (loadedAddons m)"
  shows "load_inv (fcitx_addon_manager_load_addon suffix k m)"
proof (cases rule: load_addon_cases [of suffix k m])
  case (failed a r i m1)
  have "load_inv m1" by (rule load_inv_cong [OF assms(1)]) (use resolve_frame [OF failed(3)] in simp_all)
  then show ?thesis unfolding failed(4)
    by (intro load_inv_disable load_inv_upd) (auto simp: dep_keys_def)
next
  case (loads a r i m1)
  let ?m = "upd_addon k (inst_update (\<lambda>_. i)) m1"
  note frame = resolve_frame [OF loads(4)]
  have m1: "load_inv m1" by (rule load_inv_cong [OF assms(1)]) (use frame in simp_all)
  have "load_inv ((upd_addon k (loaded_update (\<lambda>_. True)) ?m)\<lparr>loadedAddons := loadedAddons ?m @ [k]\<rparr>)"
  proof (rule load_inv_loaded)
    show "load_inv ?m" by (rule load_inv_upd [OF m1]) (auto simp: dep_keys_def)
    show "find_addon k ?m = Some (inst_update (\<lambda>_. i) a)" using loads(1) frame by simp
    show "dep_keys (inst_update (\<lambda>_. i) a) \<subseteq> set (loadedAddons ?m)"
      using assms(2) [OF loads(1)] frame by (simp add: dep_keys_def)
  qed (use loads(2,3) frame in simp_all)
  then show ?thesis using loads(5) frame by simp
qed (use assms(1) load_inv_disable in simp_all)

lemma load_inv_step:
  assumes "load_inv m" shows "load_inv (snd (load_step suffix k (u, m)))"
proof (cases "find_addon k m")
  case (Some a)
  have "dep_keys a \<subseteq> set (loadedAddons m)"
    if "check_dependencies (addons m) (map fst (items (dependencies a))) True = Some True"
  proof
    fix d assume "d \<in> dep_keys a"
    with that have "find_addon d m \<noteq> None" "loaded (the (find_addon d m))"
      by (auto simp: check_dependencies_iff dep_keys_def split: if_splits)
    then show "d \<in> set (loadedAddons m)" using assms by (auto simp: load_inv_def)
  qed
  then show ?thesis using assms Some load_inv_disable [OF assms] load_inv_load_addon [OF assms, of k suffix]
    by (auto simp: load_step_def split: option.split bool.split)
qed (use assms in \<open>simp add: load_step_def\<close>)

lemma load_inv_pass:
  assumes "load_inv m" shows "load_inv (snd (load_pass suffix m))"
proof -
  have "load_inv (snd (fold (load_step suffix) ks um))" if "load_inv (snd um)" for ks um
    using that
  proof (induction ks arbitrary: um)
    case (Cons k ks)
    from load_inv_step [OF Cons.prems, of suffix k "fst um"] show ?case by (simp add: Cons.IH)
  qed simp
  then show ?thesis using assms by (simp add: load_pass_def)
qed

lemma load_inv_loop: "load_inv m \<Longrightarrow> load_inv (load_loop suffix m)"
proof (induction suffix m rule: load_loop.induct)
  case (1 suffix m)
  show ?case
    using 1 load_inv_pass [OF 1(2), of suffix]
    by (subst load_loop.simps) (auto split: prod.split)
qed
lemma load_inv_metadata: "load_inv m \<Longrightarrow> load_inv (fcitx_addon_load_metadata cfg m)"
proof -
  assume inv: "load_inv m"
  let ?k = "addon_name cfg"
  have upd: "load_inv (upd_addon ?k (\<lambda>a. a\<lparr>config := c, dependencies := d\<rparr>) m)"
    if "find_addon ?k m = Some a" "\<not> loaded a" for a c d
    by (rule load_inv_upd [OF inv]) (use that in auto)
  have ins: "load_inv (m\<lparr>addons := snd (fcitx_dict_insert ?k a False (addons m))\<rparr>)"
    if none: "find_addon ?k m = None" and "\<not> loaded a" for a
  proof -
    let ?m = "m\<lparr>addons := snd (fcitx_dict_insert ?k a False (addons m))\<rparr>"
    have nk: "?k \<notin> fst ` set (items (addons m))"
      using none by (simp add: fcitx_dict_lookup_def HASH_FIND_def map_of_eq_None_iff)
    have it: "items (addons ?m) = items (addons m) @ [(?k, a)]"
      using none by (simp add: fcitx_dict_lookup_def fcitx_dict_insert_def HASH_ADD_def)
    have find: "find_addon j ?m = (if j = ?k then Some a else find_addon j m)" for j
    proof -
      have "find_addon j ?m = map_of (items (addons m) @ [(?k, a)]) j"
        unfolding fcitx_dict_lookup_def HASH_FIND_def it ..
      also have "\<dots> = (if j = ?k then Some a else find_addon j m)"
        using nk by (auto simp: fcitx_dict_lookup_def HASH_FIND_def map_add_def map_of_eq_None_iff [symmetric]
            split: option.split)
      finally show ?thesis .
    qed
    have mem: "j \<in> set (loadedAddons m) \<longleftrightarrow> (\<exists>a. find_addon j m = Some a \<and> loaded a)" for j
      using inv by (simp add: load_inv_def)
    show ?thesis
    proof (rule load_invI)
      show "distinct (map fst (items (addons ?m)))" using inv nk unfolding it by (simp add: load_inv_def)
      show "distinct (loadedAddons ?m)" using inv by (simp add: load_inv_def)
      fix j
      show "j \<in> set (loadedAddons ?m) \<longleftrightarrow> (\<exists>a. find_addon j ?m = Some a \<and> loaded a)"
        unfolding find using that by (auto simp: mem)
      fix b assume "find_addon j ?m = Some b"
      then have b: "(if j = ?k then Some a else find_addon j m) = Some b" unfolding find .
      { assume "loaded b"
        with b that(2) have "find_addon j m = Some b" by (auto split: if_splits)
        with \<open>loaded b\<close> inv show "fcitx_dict_lookup (addon_type (config b)) (resolvers ?m) \<noteq> None"
          unfolding load_inv_def by simp }
      fix xs ys assume x: "loadedAddons ?m = xs @ j # ys"
      then have "j \<in> set (loadedAddons m)" by simp
      with mem none b have "find_addon j m = Some b" by (auto split: if_splits)
      with inv x show "dep_keys b \<subseteq> set xs" unfolding load_inv_def by simp
    qed
  qed
  show ?thesis
    using inv upd ins
    by (auto simp: fcitx_addon_load_metadata_def Let_def fcitx_addon_new_def split: option.split)
qed

lemma remove_data_items:
  "fcitx_dict_remove_data k False d = Some (v, d') \<Longrightarrow> items d' = AList.delete k (items d)"
  by (auto simp: fcitx_dict_remove_data_def HASH_DEL_def fcitx_dict_item_free_def notify_def delete_idem
      split: Option.bind_splits if_splits)

lemma load_inv_delete:
  assumes inv: "load_inv m" and a: "find_addon k m = Some a" "\<not> loaded a"
    and items: "items d = AList.delete k (items (addons m))"
  shows "load_inv (m\<lparr>addons := d\<rparr>)"
proof -
  have find: "find_addon j (m\<lparr>addons := d\<rparr>) = (if j = k then None else find_addon j m)" for j
    by (simp add: fcitx_dict_lookup_def HASH_FIND_def items delete_conv')
  have mem: "j \<in> set (loadedAddons m) \<longleftrightarrow> (\<exists>a. find_addon j m = Some a \<and> loaded a)" for j
    using inv by (simp add: load_inv_def)
  show ?thesis
  proof (rule load_invI)
    show "distinct (map fst (items (addons (m\<lparr>addons := d\<rparr>))))"
      using inv distinct_delete [of "items (addons m)" k] by (simp add: load_inv_def items)
    show "distinct (loadedAddons (m\<lparr>addons := d\<rparr>))" using inv by (simp add: load_inv_def)
    fix j
    show "j \<in> set (loadedAddons (m\<lparr>addons := d\<rparr>)) \<longleftrightarrow>
        (\<exists>a. find_addon j (m\<lparr>addons := d\<rparr>) = Some a \<and> loaded a)"
      unfolding find using a by (auto simp: mem)
    fix b assume b: "find_addon j (m\<lparr>addons := d\<rparr>) = Some b"
    then have b': "find_addon j m = Some b" unfolding find by (auto split: if_splits)
    show "fcitx_dict_lookup (addon_type (config b)) (resolvers (m\<lparr>addons := d\<rparr>)) \<noteq> None" if "loaded b"
      using that b' inv unfolding load_inv_def by simp
    fix xs ys assume "loadedAddons (m\<lparr>addons := d\<rparr>) = xs @ j # ys"
    then show "dep_keys b \<subseteq> set xs" using b' inv unfolding load_inv_def by simp
  qed
qed

lemma load_inv_remove_unloaded:
  assumes "load_inv (m\<lparr>addons := d\<rparr>)" and "remove_unloaded es d = Some d'"
    and "\<And>k a. (k, a) \<in> set es \<Longrightarrow> map_of (items d) k = Some a" and "distinct (map fst es)"
  shows "load_inv (m\<lparr>addons := d'\<rparr>)"
  using assms
proof (induction es d arbitrary: rule: remove_unloaded.induct)
  case (2 k a rest d)
  show ?case
  proof (cases "loaded a")
    case True
    with 2 show ?thesis by simp
  next
    case False
    with 2(4) obtain v x where x: "fcitx_dict_remove_data k False d = Some (v, x)"
      and rest: "remove_unloaded rest x = Some d'" by (auto split: Option.bind_splits)
    note it = remove_data_items [OF x]
    have k: "map_of (items d) k = Some a" using 2(5) [of k a] by simp
    have "load_inv ((m\<lparr>addons := d\<rparr>)\<lparr>addons := x\<rparr>)"
      by (rule load_inv_delete [OF 2(3), of k a]) (use k False it in \<open>simp_all add: fcitx_dict_lookup_def HASH_FIND_def\<close>)
    then have "load_inv (m\<lparr>addons := x\<rparr>)" by simp
    moreover have "map_of (items x) j = Some b" if "(j, b) \<in> set rest" for j b
      using 2(5) [of j b] 2(6) that by (force simp: it delete_conv')
    ultimately show ?thesis using 2(1) [OF False x refl _ rest] 2(6) by simp
  qed
qed simp
section \<open>What loading leaves out\<close>

definition is_loaded :: "addon_manager \<Rightarrow> cstr \<Rightarrow> bool" where
  "is_loaded m k \<longleftrightarrow> (\<exists>a. find_addon k m = Some a \<and> loaded a)"

text \<open>An enabled addon that is not loaded waits for a dependency that is not loaded, or comes after it in
  the table.\<close>

definition waits :: "addon_manager \<Rightarrow> cstr \<Rightarrow> bool" where
  "waits m k \<longleftrightarrow>
     (\<forall>a. find_addon k m = Some a \<and> enabled (config a) \<and> \<not> loaded a \<longrightarrow>
        (\<exists>d\<in>dep_keys a. \<not> is_loaded m d \<or>
           (\<exists>xs ys. map fst (items (addons m)) = xs @ k # ys \<and> d \<in> set ys)))"

lemma load_step_effect:
  assumes "load_step suffix k (u, m) = (u', m')"
  shows "(\<forall>j. j \<noteq> k \<longrightarrow> find_addon j m' = find_addon j m) \<and>
    map fst (items (addons m')) = map fst (items (addons m)) \<and> (u \<longrightarrow> u') \<and>
    (u' \<or> (\<forall>a. find_addon k m' = Some a \<and> enabled (config a) \<and> \<not> loaded a \<longrightarrow>
       (\<exists>d\<in>dep_keys a. \<not> is_loaded m' d)))"
proof (cases "find_addon k m")
  case None
  then show ?thesis using assms by (auto simp: load_step_def)
next
  case (Some a)
  have L: "(\<forall>j. j \<noteq> k \<longrightarrow> find_addon j (fcitx_addon_manager_load_addon suffix k m) = find_addon j m) \<and>
      map fst (items (addons (fcitx_addon_manager_load_addon suffix k m))) = map fst (items (addons m)) \<and>
      (\<forall>a. find_addon k (fcitx_addon_manager_load_addon suffix k m) = Some a \<longrightarrow> enabled (config a) \<longrightarrow> loaded a)"
  proof (cases rule: load_addon_cases [of suffix k m])
    case (failed a r i m1)
    then show ?thesis using resolve_frame [OF failed(3)] by (auto simp: disable_def)
  next
    case (loads a r i m1)
    show ?thesis using resolve_frame [OF loads(4)] unfolding loads(5) by auto
  qed (auto simp: disable_def)
  show ?thesis
  proof (cases "enabled (config a)")
    case False
    then show ?thesis using assms Some by (auto simp: load_step_def)
  next
    case True
    show ?thesis
    proof (cases "check_dependencies (addons m) (map fst (items (dependencies a))) True")
      case None
      then show ?thesis using assms Some True by (auto simp: load_step_def disable_def)
    next
      case (Some all)
      show ?thesis
      proof (cases all)
        case True
        then show ?thesis using assms Some \<open>find_addon k m = Some a\<close> \<open>enabled (config a)\<close> L
          by (auto simp: load_step_def)
      next
        case False
        then have "\<exists>d\<in>dep_keys a. \<not> is_loaded m d"
          using Some by (force simp: check_dependencies_iff is_loaded_def dep_keys_def split: if_splits)
        then show ?thesis using assms Some False \<open>find_addon k m = Some a\<close> \<open>enabled (config a)\<close>
          by (auto simp: load_step_def)
      qed
    qed
  qed
qed

lemma load_fold_waits:
  assumes "fold (load_step suffix) R (u, m) = (False, m')"
    and "map fst (items (addons m)) = P @ R" and "distinct (P @ R)" and "\<forall>k\<in>set P. waits m k"
  shows "(\<forall>k\<in>set (P @ R). waits m' k) \<and> map fst (items (addons m')) = P @ R"
  using assms
proof (induction R arbitrary: u m P)
  case (Cons r R)
  obtain v x where x: "load_step suffix r (u, m) = (v, x)" by fastforce
  note eff = load_step_effect [OF x]
  have f: "fold (load_step suffix) R (v, x) = (False, m')" using Cons.prems(1) x by simp
  have "fst (fold (load_step suffix) ks (True, y))" for ks y
  proof (induction ks arbitrary: y)
    case (Cons k ks)
    obtain w z where z: "load_step suffix k (True, y) = (w, z)" by fastforce
    with load_step_effect [OF z] have "w" by simp
    with z Cons.IH [of z] show ?case by simp
  qed simp
  from this [of R x] f have "\<not> v" by (cases v) auto
  have keys: "map fst (items (addons x)) = P @ r # R" using eff Cons.prems(2) by simp
  have "waits x k" if k: "k \<in> set (P @ [r])" for k
    unfolding waits_def
  proof (intro allI impI)
    fix a assume a: "find_addon k x = Some a \<and> enabled (config a) \<and> \<not> loaded a"
    show "\<exists>d\<in>dep_keys a. \<not> is_loaded x d \<or> (\<exists>xs ys. map fst (items (addons x)) = xs @ k # ys \<and> d \<in> set ys)"
    proof (cases "k = r")
      case True
      then show ?thesis using eff \<open>\<not> v\<close> a by blast
    next
      case False
      then have kP: "k \<in> set P" using k by simp
      have am: "find_addon k m = Some a" using eff False a by metis
      with kP Cons.prems(4) a obtain d where d: "d \<in> dep_keys a"
        "\<not> is_loaded m d \<or> (\<exists>xs ys. map fst (items (addons m)) = xs @ k # ys \<and> d \<in> set ys)"
        unfolding waits_def by blast
      show ?thesis
      proof (cases "d = r")
        case True
        from split_list [OF kP] obtain xs ys where "P = xs @ k # ys" by blast
        then have "map fst (items (addons x)) = xs @ k # (ys @ r # R)" by (simp add: keys)
        then show ?thesis using d(1) True by (intro bexI [of _ d] disjI2 exI [of _ xs] exI [of _ "ys @ r # R"]) auto
      next
        case False
        then have "is_loaded x d = is_loaded m d" using eff by (simp add: is_loaded_def)
        then show ?thesis using d eff by metis
      qed
    qed
  qed
  then show ?case using Cons.IH [OF f, of "P @ [r]"] keys Cons.prems(3) by simp
qed simp

lemma load_loop_waits:
  "distinct (map fst (items (addons m))) \<Longrightarrow> find_addon k (load_loop suffix m) = Some a \<Longrightarrow> waits (load_loop suffix m) k"
proof (induction suffix m rule: load_loop.induct)
  case (1 suffix m)
  obtain u x where x: "load_pass suffix m = (u, x)" by fastforce
  show ?case
  proof (cases u)
    case True
    have "map fst (items (addons (snd (fold (load_step suffix) ks um)))) = map fst (items (addons (snd um)))" for ks um
    proof (induction ks arbitrary: um)
      case (Cons k ks)
      obtain v y where "load_step suffix k (fst um, snd um) = (v, y)" by fastforce
      with Cons.IH [of "(v, y)"] load_step_effect show ?case by fastforce
    qed simp
    then have "map fst (items (addons x)) = map fst (items (addons m))"
      using x by (metis load_pass_def snd_conv)
    then show ?thesis using 1 x True by (subst load_loop.simps, subst (asm) (2) load_loop.simps) simp
  next
    case False
    then have ll: "load_loop suffix m = x" using x by (subst load_loop.simps) simp
    have "k \<in> set (map fst (items (addons x)))"
      using 1(3) unfolding ll by (auto simp: fcitx_dict_lookup_def HASH_FIND_def dest: map_of_SomeD intro: rev_image_eqI)
    moreover have "fold (load_step suffix) (map fst (items (addons m))) (False, m) = (False, x)"
      using x False by (simp add: load_pass_def)
    from load_fold_waits [OF this, of "[]"] 1(2)
    have "(\<forall>k\<in>set (map fst (items (addons m))). waits x k) \<and> map fst (items (addons x)) = map fst (items (addons m))"
      by simp
    ultimately show ?thesis unfolding ll by metis
  qed
qed
section \<open>Properties\<close>

lemma remove_unloaded_id: "list_all (loaded \<circ> snd) es \<Longrightarrow> remove_unloaded es d = Some d"
  by (induction es d rule: remove_unloaded.induct) auto

lemma load_inv_new: "load_inv (fcitx_addon_manager_register_default_resolver lib static fcitx_addon_manager_new)"
  by (rule load_invI)
    (simp_all add: fcitx_addon_manager_register_default_resolver_def fcitx_addon_manager_register_resolver_def
      fcitx_addon_manager_new_def fcitx_dict_new_def fcitx_dict_lookup_def HASH_FIND_def)

lemma load_inv_metadata_all: "load_inv m \<Longrightarrow> load_inv (fold fcitx_addon_load_metadata cfgs m)"
  by (induction cfgs arbitrary: m) (auto intro: load_inv_metadata)

definition ex_api :: addon_api where
  "ex_api = \<lparr>has_init = True, has_destroy = True, api_init = (\<lambda>_. Some 1), registerCallback = None\<rparr>"

definition ex_config :: "cstr \<Rightarrow> cstr \<Rightarrow> addon_config" where
  "ex_config nm dep = \<lparr>addon_name = nm, addon_type = bytes ''StaticLibrary'', category = 2, dependency = dep,
     addon_library = nm, enabled = True\<rparr>"

definition ex_manager :: addon_manager where
  "ex_manager = fcitx_addon_manager_register_default_resolver (\<lambda>_. None)
     [(bytes ''a'', ex_api), (bytes ''b'', ex_api)] fcitx_addon_manager_new"

lemma load_inv_load:
  assumes "load_inv m" and "fcitx_addon_manager_load suffix cfgs m = Some m'"
  shows "load_inv m'"
proof -
  from assms(2) obtain d where d: "remove_unloaded (items (addons m)) (addons m) = Some d"
    and m': "m' = (load_loop suffix (fold fcitx_addon_load_metadata cfgs (m\<lparr>addons := d\<rparr>)))\<lparr>mgr_loaded := True\<rparr>"
    by (auto simp: fcitx_addon_manager_load_def Let_def split: Option.bind_splits)
  have dist: "distinct (map fst (items (addons m)))" using assms(1) by (simp add: load_inv_def)
  have "load_inv (m\<lparr>addons := d\<rparr>)"
    by (rule load_inv_remove_unloaded [OF _ d]) (use assms(1) dist in simp_all)
  then have "load_inv (load_loop suffix (fold fcitx_addon_load_metadata cfgs (m\<lparr>addons := d\<rparr>)))"
    by (intro load_inv_loop load_inv_metadata_all)
  then show ?thesis unfolding m' by (rule load_inv_cong) simp_all
qed

definition ex_loaded :: addon_manager where
  "ex_loaded = the (fcitx_addon_manager_load [] [ex_config (bytes ''a'') [], ex_config (bytes ''b'') (bytes ''a'')] ex_manager)"

lemma ex_loaded: "fcitx_addon_manager_load [] [ex_config (bytes ''a'') [], ex_config (bytes ''b'') (bytes ''a'')] ex_manager
    = Some ex_loaded \<and> loadedAddons ex_loaded = [bytes ''a'', bytes ''b''] \<and> mgr_loaded ex_loaded"
proof -
  have "map_option (\<lambda>m. (loadedAddons m, mgr_loaded m))
     (fcitx_addon_manager_load [] [ex_config (bytes ''a'') [], ex_config (bytes ''b'') (bytes ''a'')] ex_manager)
     = Some ([bytes ''a'', bytes ''b''], True)"
    by code_simp
  then show ?thesis by (auto simp: ex_loaded_def)
qed

lemma ex_load_inv: "load_inv ex_loaded"
  using load_inv_load [OF load_inv_new, of "[]"] ex_loaded unfolding ex_manager_def by blast

lemma load_all_waits:
  assumes "load_inv m" and "list_all (loaded \<circ> snd) (items (addons m))"
  shows "\<exists>m'. fcitx_addon_manager_load suffix cfgs m = Some m' \<and> mgr_loaded m' \<and> (\<forall>k. waits m' k)"
proof -
  let ?m = "fold fcitx_addon_load_metadata cfgs m" and ?m' = "load_loop suffix (fold fcitx_addon_load_metadata cfgs m)"
  have "waits ?m' k" for k
  proof (cases "find_addon k ?m'")
    case (Some a)
    have "distinct (map fst (items (addons ?m)))"
      using load_inv_metadata_all [OF assms(1)] by (simp add: load_inv_def)
    from load_loop_waits [OF this Some] show ?thesis .
  qed (simp add: waits_def)
  then have "\<forall>k. waits (?m'\<lparr>mgr_loaded := True\<rparr>) k" by (simp add: waits_def is_loaded_def)
  moreover have "m\<lparr>addons := addons m\<rparr> = m" by simp
  ultimately show ?thesis
    by (simp add: fcitx_addon_manager_load_def remove_unloaded_id [OF assms(2)] Let_def)
qed

text \<open>C17: Loading addons keeps the list of loaded addons right: every loaded entry of the table is in
  it once, after all of its dependencies, whatever the files found and the addons' own functions say.\<close>

theorem load_keeps_order:
  assumes "load_inv m" and "fcitx_addon_manager_load suffix cfgs m = Some m'"
  shows "load_inv m'"
  using assms by (rule load_inv_load)

theorem load_keeps_order_witness: "load_inv ex_loaded \<and> loadedAddons ex_loaded = [bytes ''a'', bytes ''b'']"
  using load_keeps_order [OF load_inv_new, of "[]"] ex_loaded unfolding ex_manager_def by blast

text \<open>C18: Loading returns when no entry has to be removed first, and whatever is then left enabled and
  not loaded waits for a dependency that is not loaded, or that comes after it in the table.\<close>

theorem load_complete:
  assumes "load_inv m" and "list_all (loaded \<circ> snd) (items (addons m))"
  shows "\<exists>m'. fcitx_addon_manager_load suffix cfgs m = Some m' \<and> mgr_loaded m' \<and> (\<forall>k. waits m' k)"
  using assms by (rule load_all_waits)

lemma ex_manager_empty: "items (addons ex_manager) = []"
  by (simp add: ex_manager_def fcitx_addon_manager_register_default_resolver_def
      fcitx_addon_manager_register_resolver_def fcitx_addon_manager_new_def fcitx_dict_new_def)

theorem load_complete_witness:
  "\<exists>m'. fcitx_addon_manager_load [] [ex_config (bytes ''b'') (bytes ''a''), ex_config (bytes ''a'') []] ex_manager =
     Some m' \<and> mgr_loaded m' \<and> (\<forall>k. waits m' k)"
  by (rule load_complete) (simp_all add: ex_manager_empty, simp add: ex_manager_def load_inv_new)

text \<open>The loop that loads addons stops too early: with the metadata of \<open>b\<close>, which depends on \<open>a\<close>,
  found before that of \<open>a\<close>, loading ends with \<open>a\<close> loaded and \<open>b\<close> enabled and not loaded; and the same two
  files in the other order load both.\<close>

theorem load_misses_later:
  "map_option (\<lambda>m. (loadedAddons m, map_option (\<lambda>a. (enabled (config a), loaded a)) (find_addon (bytes ''b'') m)))
     (fcitx_addon_manager_load [] [ex_config (bytes ''b'') (bytes ''a''), ex_config (bytes ''a'') []] ex_manager) =
     Some ([bytes ''a''], Some (True, False)) \<and>
   map_option (\<lambda>m. (loadedAddons m, map_option (\<lambda>a. (enabled (config a), loaded a)) (find_addon (bytes ''b'') m)))
     (fcitx_addon_manager_load [] [ex_config (bytes ''a'') [], ex_config (bytes ''b'') (bytes ''a'')] ex_manager) =
     Some ([bytes ''a'', bytes ''b''], Some (True, True))"
  by code_simp

section \<open>Unloading\<close>

lemma unload_each_ok:
  assumes "distinct ks"
    and "\<And>k. k \<in> set ks \<Longrightarrow> \<exists>a. find_addon k m = Some a \<and> fcitx_dict_lookup (addon_type (config a)) (resolvers m) \<noteq> None"
  shows "\<exists>m'. unload_each ks m = Some m' \<and>
    mgr_log m' = mgr_log m @ concat (map (\<lambda>k. [AddonDestroy k, AddonUnload k]) ks) \<and>
    (\<forall>j. find_addon j m' = (if j \<in> set ks then map_option (loaded_update (\<lambda>_. False)) (find_addon j m)
                            else find_addon j m))"
  using assms
proof (induction ks arbitrary: m)
  case (Cons k ks)
  from Cons.prems(2) [of k] obtain a where a: "find_addon k m = Some a"
    "fcitx_dict_lookup (addon_type (config a)) (resolvers m) \<noteq> None" by auto
  define x where "x = upd_addon k (loaded_update (\<lambda>_. False)) (addon_log (AddonUnload k) (addon_log (AddonDestroy k) m))"
  have f: "find_addon j x = (if j = k then map_option (loaded_update (\<lambda>_. False)) (find_addon j m) else find_addon j m)" for j
    by (simp add: x_def) (simp add: addon_log_def)
  have "unload_each (k # ks) m = unload_each ks x"
    using a by (auto simp: fcitx_addon_manager_unload_addon_def x_def)
  moreover have "\<exists>m'. unload_each ks x = Some m' \<and>
      mgr_log m' = mgr_log x @ concat (map (\<lambda>k. [AddonDestroy k, AddonUnload k]) ks) \<and>
      (\<forall>j. find_addon j m' = (if j \<in> set ks then map_option (loaded_update (\<lambda>_. False)) (find_addon j x)
                              else find_addon j x))"
  proof (rule Cons.IH)
    fix j assume "j \<in> set ks"
    with Cons.prems(1) Cons.prems(2) [of j] f [of j]
    show "\<exists>a. find_addon j x = Some a \<and> fcitx_dict_lookup (addon_type (config a)) (resolvers x) \<noteq> None"
      by (auto simp: x_def addon_log_def)
  qed (use Cons.prems(1) in simp)
  then obtain m' where m': "unload_each ks x = Some m'"
    "mgr_log m' = mgr_log x @ concat (map (\<lambda>k. [AddonDestroy k, AddonUnload k]) ks)"
    "\<And>j. find_addon j m' = (if j \<in> set ks then map_option (loaded_update (\<lambda>_. False)) (find_addon j x)
                              else find_addon j x)" by blast
  have "mgr_log x = mgr_log m @ [AddonDestroy k, AddonUnload k]" by (simp add: x_def addon_log_def)
  ultimately show ?case using m' Cons.prems(1) by (intro exI [of _ m']) (auto simp: f)
qed simp

lemma unload_ok:
  assumes "load_inv m" and "mgr_loaded m"
  shows "\<exists>m'. fcitx_addon_manager_unload m = Some m' \<and> loadedAddons m' = [] \<and> \<not> (\<exists>k. is_loaded m' k) \<and>
    mgr_log m' = mgr_log m @ concat (map (\<lambda>k. [AddonDestroy k, AddonUnload k]) (rev (loadedAddons m)))"
proof -
  have mem: "k \<in> set (loadedAddons m) \<longleftrightarrow> is_loaded m k" for k
    using assms(1) by (simp add: load_inv_def is_loaded_def)
  have "\<exists>m'. unload_each (rev (loadedAddons m)) m = Some m' \<and>
      mgr_log m' = mgr_log m @ concat (map (\<lambda>k. [AddonDestroy k, AddonUnload k]) (rev (loadedAddons m))) \<and>
      (\<forall>j. find_addon j m' = (if j \<in> set (rev (loadedAddons m)) then map_option (loaded_update (\<lambda>_. False)) (find_addon j m)
                              else find_addon j m))"
    by (rule unload_each_ok) (use assms(1) in \<open>auto simp: load_inv_def\<close>)
  then obtain m' where m': "unload_each (rev (loadedAddons m)) m = Some m'"
    "mgr_log m' = mgr_log m @ concat (map (\<lambda>k. [AddonDestroy k, AddonUnload k]) (rev (loadedAddons m)))"
    "\<And>j. find_addon j m' = (if j \<in> set (rev (loadedAddons m)) then map_option (loaded_update (\<lambda>_. False)) (find_addon j m)
                              else find_addon j m)" by blast
  have "\<not> is_loaded m' k" for k
    using mem [of k] m'(3) [of k] by (auto simp: is_loaded_def)
  then show ?thesis using m'(1,2) assms(2)
    by (auto simp: fcitx_addon_manager_unload_def is_loaded_def)
qed

text \<open>Unloading a loaded manager never follows a missing entry: it destroys and unloads exactly the
  loaded addons, each once and in the reverse order of their loading, so before their dependencies,
  and leaves none loaded and the list of loaded addons empty.\<close>

theorem unload_order:
  assumes "load_inv m" and "mgr_loaded m"
  shows "\<exists>m'. fcitx_addon_manager_unload m = Some m' \<and> loadedAddons m' = [] \<and> \<not> (\<exists>k. is_loaded m' k) \<and>
    mgr_log m' = mgr_log m @ concat (map (\<lambda>k. [AddonDestroy k, AddonUnload k]) (rev (loadedAddons m)))"
  using assms by (rule unload_ok)

theorem unload_order_witness:
  "\<exists>m'. fcitx_addon_manager_unload ex_loaded = Some m' \<and> loadedAddons m' = [] \<and> \<not> (\<exists>k. is_loaded m' k) \<and>
     mgr_log m' = mgr_log ex_loaded @
       [AddonDestroy (bytes ''b''), AddonUnload (bytes ''b''), AddonDestroy (bytes ''a''), AddonUnload (bytes ''a'')]"
proof -
  have "load_inv ex_loaded" using ex_load_inv .
  with unload_order [of ex_loaded] ex_loaded show ?thesis by simp
qed
end
