(* ===== verification/InputMethod.thy ===== *)
theory InputMethod
  imports AddonManager
begin

text \<open>
  The input method manager, \<open>src/lib/fcitx/ime.c\<close>: the groups of input methods and the text form of
  their lists.  Loading the metadata of the input methods is not modelled: the code has no effect on the
  manager yet.

  A pointer into a list that \<open>fcitx_utils_string_list_free\<close> has freed is marked with the number of that
  list; \<open>None\<close> is a use of such a pointer, or of a missing group.
\<close>

section \<open>State\<close>

record im_item =
  item_name :: cstr
  item_layout :: "cstr option"
  item_variant :: "cstr option"
  item_index :: nat
  item_group :: nat
  item_key :: "byte list"

record im_group =
  g_layout :: "cstr option"
  g_variant :: "cstr option"
  g_items :: "im_item list"

record im_manager =
  im_groups :: "im_group list"
  im_callback :: bool
  im_destroyNotify :: bool
  im_destroyed :: nat
  registered_ims :: "nat dict"

definition fcitx_input_method_manager_new :: im_manager where
  "fcitx_input_method_manager_new =
     \<lparr>im_groups = [], im_callback = False, im_destroyNotify = False, im_destroyed = 0,
      registered_ims = fcitx_dict_new False\<rparr>"

text \<open>What remains of a freed manager is the number of calls of its destroy functions.\<close>

definition fcitx_input_method_manager_free :: "im_manager \<Rightarrow> nat" where
  "fcitx_input_method_manager_free m = (if im_destroyNotify m then im_destroyed m + 1 else im_destroyed m)"

definition fcitx_input_method_manager_set_event_dispatcher :: "bool \<Rightarrow> bool \<Rightarrow> im_manager \<Rightarrow> im_manager" where
  "fcitx_input_method_manager_set_event_dispatcher callback destroyNotify m =
     (let m = (if im_destroyNotify m then m\<lparr>im_destroyed := im_destroyed m + 1\<rparr> else m)
      in m\<lparr>im_callback := callback, im_destroyNotify := destroyNotify\<rparr>)"

section \<open>Groups\<close>

text \<open>The variable arguments, up to the \<open>NULL\<close> that ends them; \<open>None\<close> is a read behind the arguments.\<close>

fun group_arguments ::
  "cstr option list \<Rightarrow> cstr option \<Rightarrow> cstr option \<Rightarrow> (cstr option \<times> cstr option) option" where
  "group_arguments [] l v = None"
| "group_arguments (None # va) l v = Some (l, v)"
| "group_arguments (Some name # va) l v =
     (if name = bytes ''layout'' then
        case va of [] \<Rightarrow> None | l # va \<Rightarrow> group_arguments va l v
      else if name = bytes ''variant'' then
        case va of [] \<Rightarrow> None | v # va \<Rightarrow> group_arguments va l v
      else group_arguments va l v)"

definition fcitx_input_method_manager_create_group ::
  "cstr option list \<Rightarrow> im_manager \<Rightarrow> (int \<times> im_manager) option" where
  "fcitx_input_method_manager_create_group va m = do {
     (l, v) \<leftarrow> group_arguments va None None;
     Some (if l = None then (- 1, m)
       else
         let group = \<lparr>g_layout = fcitx_utils_strdup l, g_variant = fcitx_utils_strdup v, g_items = []\<rparr>;
             m = m\<lparr>im_groups := im_groups m @ [group]\<rparr>
         in (int (length (im_groups m)) - 1, m)) }"

definition fcitx_input_method_manager_reset_group :: "im_manager \<Rightarrow> im_manager" where
  "fcitx_input_method_manager_reset_group m = m\<lparr>im_groups := []\<rparr>"

definition fcitx_input_method_manager_group_count :: "im_manager \<Rightarrow> nat" where
  "fcitx_input_method_manager_group_count m = length (im_groups m)"

text \<open>The group that \<open>fcitx_ptr_array_index\<close> gives, \<open>NULL\<close> for an index that is no position.\<close>

definition group_at :: "im_manager \<Rightarrow> int \<Rightarrow> im_group option" where
  "group_at m groupId =
     (if groupId < 0 \<or> nat groupId \<ge> length (im_groups m) then None else Some (im_groups m ! nat groupId))"

definition fcitx_input_method_manager_is_group_empty :: "im_manager \<Rightarrow> int \<Rightarrow> bool option" where
  "fcitx_input_method_manager_is_group_empty m groupId = do {
     grp \<leftarrow> group_at m groupId;
     Some (length (g_items grp) = 0) }"

definition bad_group :: "im_manager \<Rightarrow> int \<Rightarrow> bool" where
  "bad_group m groupId \<longleftrightarrow> groupId < 0 \<or> groupId > int (length (im_groups m))"

definition fcitx_input_method_manager_get_group_item ::
  "im_manager \<Rightarrow> int \<Rightarrow> nat \<Rightarrow> im_item option option" where
  "fcitx_input_method_manager_get_group_item m groupId index =
     (if bad_group m groupId then Some None
      else do {
        grp \<leftarrow> group_at m groupId;
        Some (if index < length (g_items grp) then Some (g_items grp ! index) else None) })"

definition fcitx_input_method_manager_get_group_size :: "im_manager \<Rightarrow> int \<Rightarrow> nat option" where
  "fcitx_input_method_manager_get_group_size m groupId =
     (if bad_group m groupId then Some 0
      else do {
        grp \<leftarrow> group_at m groupId;
        Some (length (g_items grp)) })"

section \<open>The list of a group\<close>

text \<open>The item under construction: the text its pointers point to, with the number of the list.\<close>

record item_fields =
  f_name :: "(cstr \<times> nat) option"
  f_layout :: "(cstr \<times> nat) option"
  f_variant :: "(cstr \<times> nat) option"

definition item_field :: "nat \<Rightarrow> cstr \<Rightarrow> item_fields \<Rightarrow> item_fields" where
  "item_field n itemString f =
     (if 58 \<notin> set itemString then f
      else
        let key = takeWhile (\<lambda>c. c \<noteq> 58) itemString;
            colon = tl (dropWhile (\<lambda>c. c \<noteq> 58) itemString)
        in if key = bytes ''name'' then f\<lparr>f_name := Some (colon, n)\<rparr>
           else if key = bytes ''layout'' then f\<lparr>f_layout := Some (colon, n)\<rparr>
           else if key = bytes ''variant'' then f\<lparr>f_variant := Some (colon, n)\<rparr>
           else f)"

text \<open>Reading one of the pointers while list \<open>n\<close> is alive.\<close>

definition read_field :: "nat \<Rightarrow> (cstr \<times> nat) option \<Rightarrow> cstr option option" where
  "read_field n p = (case p of None \<Rightarrow> Some None | Some (s, k) \<Rightarrow> if k = n then Some (Some s) else None)"

text \<open>The text of the three strings, each with its terminator; one that is missing leaves a zero byte.\<close>

definition key_bytes :: "cstr option \<Rightarrow> byte list" where
  "key_bytes s = (case s of Some s \<Rightarrow> s | None \<Rightarrow> []) @ [0]"

definition make_item :: "cstr \<Rightarrow> cstr option \<Rightarrow> cstr option \<Rightarrow> nat \<Rightarrow> nat \<Rightarrow> im_item" where
  "make_item nm l v groupId i =
     \<lparr>item_name = nm, item_layout = l, item_variant = v, item_index = i, item_group = groupId,
      item_key = key_bytes (Some nm) @ key_bytes l @ key_bytes v\<rparr>"

fun set_list_loop ::
  "nat \<Rightarrow> nat \<Rightarrow> cstr list \<Rightarrow> item_fields \<Rightarrow> im_item list \<Rightarrow> im_item list option" where
  "set_list_loop groupId n [] f its = Some its"
| "set_list_loop groupId n (im # es) f its = do {
     list \<leftarrow> fcitx_utils_string_split_full im (bytes '','') True;
     let f = fold (item_field n) list f;
     its \<leftarrow> (case f_name f of
         None \<Rightarrow> Some its
       | Some _ \<Rightarrow> do {
           nm \<leftarrow> read_field n (f_name f);
           l \<leftarrow> read_field n (f_layout f);
           v \<leftarrow> read_field n (f_variant f);
           Some (its @ [make_item (the nm) l v groupId (length its)]) });
     set_list_loop groupId (n + 1) es f its }"

definition fcitx_input_method_manager_set_input_method_list ::
  "int \<Rightarrow> cstr list \<Rightarrow> im_manager \<Rightarrow> im_manager option" where
  "fcitx_input_method_manager_set_input_method_list groupId entries m =
     (if bad_group m groupId then Some m
      else
        let f = \<lparr>f_name = None, f_layout = None, f_variant = None\<rparr> in
        case group_at m groupId of
          None \<Rightarrow>
            \<comment> \<open>no group: the first item that is named is put into a missing group\<close>
            if list_all (\<lambda>im. case fcitx_utils_string_split_full im (bytes '','') True of
                 Some list \<Rightarrow> f_name (fold (item_field 0) list f) = None | None \<Rightarrow> False) entries
            then Some m else None
        | Some grp \<Rightarrow> do {
            its \<leftarrow> set_list_loop (nat groupId) 0 entries f (g_items grp);
            Some (m\<lparr>im_groups := (im_groups m)[nat groupId := grp\<lparr>g_items := its\<rparr>]\<rparr>) })"

section \<open>Items\<close>

datatype item_property = FIMIP_Name | FIMIP_Layout | FIMIP_Variant

fun fcitx_input_method_item_get_property :: "im_item \<Rightarrow> item_property \<Rightarrow> cstr option" where
  "fcitx_input_method_item_get_property item FIMIP_Name = Some (item_name item)"
| "fcitx_input_method_item_get_property item FIMIP_Layout = item_layout item"
| "fcitx_input_method_item_get_property item FIMIP_Variant = item_variant item"

definition fcitx_input_method_manager_get :: "im_manager \<Rightarrow> im_item \<Rightarrow> nat option" where
  "fcitx_input_method_manager_get m item = fcitx_dict_lookup (item_key item) (registered_ims m)"

section \<open>What a list becomes\<close>

definition encode_item :: "cstr \<times> cstr \<times> cstr \<Rightarrow> cstr" where
  "encode_item = (\<lambda>(nm, l, v). bytes ''name:'' @ nm @ bytes '',layout:'' @ l @ bytes '',variant:'' @ v)"

definition no_comma :: "cstr \<times> cstr \<times> cstr \<Rightarrow> bool" where
  "no_comma = (\<lambda>(nm, l, v). bytes '','' ! 0 \<notin> set (nm @ l @ v))"

definition names_item :: "cstr \<Rightarrow> bool" where
  "names_item im \<longleftrightarrow> list_ex (\<lambda>x. 58 \<in> set x \<and> takeWhile (\<lambda>c. c \<noteq> 58) x = bytes ''name'') (pieces [44] True [] im)"

lemma comma_byte: "bytes '','' = [44]"
  by (simp add: bytes_def of_char_def)

lemma pieces_encode:
  assumes "no_comma (nm, l, v)"
  shows "pieces [44] True [] (encode_item (nm, l, v)) =
    [bytes ''name:'' @ nm, bytes ''layout:'' @ l, bytes ''variant:'' @ v]"
proof -
  have c: "44 \<notin> set nm" "44 \<notin> set l" "44 \<notin> set v" using assms by (auto simp: no_comma_def comma_byte)
  have e: "encode_item (nm, l, v) =
      (bytes ''name:'' @ nm) @ 44 # (bytes ''layout:'' @ l) @ 44 # (bytes ''variant:'' @ v)"
    by (simp add: encode_item_def bytes_def of_char_def)
  have n: "44 \<notin> set (bytes ''name:'' @ nm)" "44 \<notin> set (bytes ''layout:'' @ l)" "44 \<notin> set (bytes ''variant:'' @ v)"
    using c by (simp_all add: bytes_def of_char_def)
  show ?thesis
    unfolding e pieces_step [OF n(1)] pieces_step [OF n(2)] pieces_last [OF n(3)]
    by (simp add: bytes_def)
qed

lemma item_field_encode:
  assumes "no_comma (nm, l, v)"
  shows "fold (item_field n) (pieces [44] True [] (encode_item (nm, l, v))) f =
    \<lparr>f_name = Some (nm, n), f_layout = Some (l, n), f_variant = Some (v, n)\<rparr>"
  unfolding pieces_encode [OF assms]
  by (cases f) (simp add: item_field_def bytes_def of_char_def)

lemma set_list_encode:
  "list_all no_comma ts \<Longrightarrow>
   set_list_loop g n (map encode_item ts) f its =
     Some (its @ map (\<lambda>(i, nm, l, v). make_item nm (Some l) (Some v) g i) (enumerate (length its) ts))"
proof (induction ts arbitrary: n f its)
  case (Cons t ts)
  obtain nm l v where t: "t = (nm, l, v)" by (cases t) auto
  have c: "no_comma (nm, l, v)" using Cons.prems t by simp
  have "set_list_loop g n (map encode_item (t # ts)) f its =
      set_list_loop g (n + 1) (map encode_item ts)
        \<lparr>f_name = Some (nm, n), f_layout = Some (l, n), f_variant = Some (v, n)\<rparr>
        (its @ [make_item nm (Some l) (Some v) g (length its)])"
    by (simp add: t split_full_pieces comma_byte item_field_encode [OF c] read_field_def Let_def)
  then show ?case using Cons.IH Cons.prems by (simp add: t)
qed simp

text \<open>A list of items that each give a name, a layout and a variant is put behind the items of the
  group: one item for each entry, in their order, with these three strings, the next indexes and a key
  that is the three strings with their terminators.  Nothing else changes.\<close>

theorem set_list_items:
  assumes "0 \<le> g" and "nat g < length (im_groups m)" and "list_all no_comma ts"
  shows "fcitx_input_method_manager_set_input_method_list g (map encode_item ts) m =
    Some (m\<lparr>im_groups := (im_groups m)[nat g := (im_groups m ! nat g)
      \<lparr>g_items := g_items (im_groups m ! nat g) @
         map (\<lambda>(i, nm, l, v). make_item nm (Some l) (Some v) (nat g) i)
           (enumerate (length (g_items (im_groups m ! nat g))) ts)\<rparr>]\<rparr>)"
proof -
  have "\<not> bad_group m g" "group_at m g = Some (im_groups m ! nat g)"
    using assms(1,2) by (auto simp: bad_group_def group_at_def)
  then show ?thesis
    by (simp add: fcitx_input_method_manager_set_input_method_list_def set_list_encode [OF assms(3)] Let_def)
qed

definition ex_ims :: im_manager where
  "ex_ims = snd (the (fcitx_input_method_manager_create_group [Some (bytes ''layout''), Some (bytes ''us''), None]
     fcitx_input_method_manager_new))"

theorem set_list_items_witness:
  "map_option (\<lambda>m. map item_key (g_items (im_groups m ! 0)))
     (fcitx_input_method_manager_set_input_method_list 0
       (map encode_item [(bytes ''a'', bytes ''us'', bytes ''b''), (bytes ''c'', [], [])]) ex_ims) =
   Some [bytes ''a'' @ [0] @ bytes ''us'' @ [0] @ bytes ''b'' @ [0], bytes ''c'' @ [0, 0, 0]]"
proof -
  have m: "ex_ims = fcitx_input_method_manager_new\<lparr>im_groups :=
      [\<lparr>g_layout = Some (bytes ''us''), g_variant = None, g_items = []\<rparr>]\<rparr>"
    by (simp add: ex_ims_def fcitx_input_method_manager_create_group_def fcitx_utils_strdup_def
        fcitx_input_method_manager_new_def)
  show ?thesis
    by (subst set_list_items)
      (simp_all add: m no_comma_def comma_byte bytes_def of_char_def make_item_def key_bytes_def
        enumerate_eq_zip)
qed

lemma item_field_name:
  "f_name (fold (item_field n) xs f) =
    (if list_ex (\<lambda>x. 58 \<in> set x \<and> takeWhile (\<lambda>c. c \<noteq> 58) x = bytes ''name'') xs
     then f_name (fold (item_field n) xs f) else f_name f)"
proof (induction xs arbitrary: f)
  case (Cons x xs)
  have "\<not> (58 \<in> set x \<and> takeWhile (\<lambda>c. c \<noteq> 58) x = bytes ''name'') \<Longrightarrow> f_name (item_field n x f) = f_name f"
    by (simp add: item_field_def Let_def)
  then show ?case using Cons.IH [of "item_field n x f"] by (auto split: if_splits)
qed simp

lemma item_field_named:
  "list_ex (\<lambda>x. 58 \<in> set x \<and> takeWhile (\<lambda>c. c \<noteq> 58) x = bytes ''name'') xs \<Longrightarrow>
   \<exists>s. f_name (fold (item_field n) xs f) = Some (s, n)"
proof (induction xs rule: rev_induct)
  case (snoc x xs)
  then show ?case by (auto simp: item_field_def Let_def bytes_def of_char_def)
qed simp

text \<open>An entry that gives no name, after one that gives a name, makes the code read a string that
  was freed with the list of the earlier entry, whatever else the two entries hold.\<close>

theorem set_list_dangling:
  assumes "0 \<le> g" and "nat g < length (im_groups m)" and "names_item e" and "\<not> names_item e'"
  shows "fcitx_input_method_manager_set_input_method_list g (e # e' # es) m = None"
proof -
  define f :: item_fields where "f = \<lparr>f_name = None, f_layout = None, f_variant = None\<rparr>"
  have g: "\<not> bad_group m g" "group_at m g = Some (im_groups m ! nat g)"
    using assms(1,2) by (auto simp: bad_group_def group_at_def)
  define f1 where "f1 = fold (item_field 0) (pieces [44] True [] e) f"
  obtain s where s: "f_name f1 = Some (s, 0)"
    using item_field_named assms(3) unfolding names_item_def f1_def by blast
  have "f_name (fold (item_field 1) (pieces [44] True [] e') f1) = Some (s, 0)"
    using item_field_name [of 1 "pieces [44] True [] e'" f1] assms(4) s by (simp add: names_item_def)
  then have "set_list_loop (nat g) 1 (e' # es) f1 its = None" for its
    by (simp add: split_full_pieces comma_byte read_field_def Let_def)
  then have "set_list_loop (nat g) 0 (e # e' # es) f its = None" for its
    by (simp add: split_full_pieces comma_byte f1_def [symmetric] s read_field_def Let_def
        split: Option.bind_split del: set_list_loop.simps(2) flip: One_nat_def add: set_list_loop.simps(2) [of _ 0])
  then show ?thesis
    using g unfolding fcitx_input_method_manager_set_input_method_list_def f_def [symmetric] Let_def by simp
qed

theorem set_list_dangling_witness:
  "fcitx_input_method_manager_set_input_method_list 0 [bytes ''name:a'', bytes ''layout:us''] ex_ims = None"
  by (rule set_list_dangling)
    (simp_all add: ex_ims_def fcitx_input_method_manager_create_group_def fcitx_input_method_manager_new_def
      names_item_def bytes_def of_char_def)

end
