(* ===== verification/Instance.thy ===== *)
theory Instance
  imports MainLoop InputMethod InputContext_Policy
begin

text \<open>
  The instance, \<open>src/lib/fcitx/instance.c\<close>: its arguments, the state of input methods it keeps for each
  context, its event dispatcher, running and shutting down.

  What \<open>getopt_long\<close> returns, the answers of the frontends and the addresses of new objects are arguments, and
  so is what happens while the main loop runs, since its callbacks may change all of the instance; the loop
  itself is that of \<open>MainLoop\<close>.  The state kept for a context is indexed by the context.  \<open>None\<close> is a call
  through \<open>NULL\<close> or a use of a missing group; for a new instance it is \<open>NULL\<close>.
\<close>

section \<open>Arguments\<close>

record arguments =
  tryReplace :: bool
  quietQuit :: bool
  enableList :: "cstr option"
  disableList :: "cstr option"
  uiname :: "cstr option"
  overrideDelay :: int
  runasdaemon :: bool

definition zero_arguments :: arguments where
  "zero_arguments = \<lparr>tryReplace = False, quietQuit = False, enableList = None, disableList = None,
     uiname = None, overrideDelay = 0, runasdaemon = False\<rparr>"

text \<open>One result of \<open>getopt_long\<close>: a long option with its index, or the character of a short one.\<close>

datatype option_result = Long nat "cstr option" | Short char "cstr option"

definition long_option :: "nat \<Rightarrow> cstr option \<Rightarrow> arguments \<Rightarrow> arguments" where
  "long_option optionIndex optarg arg =
     (if optionIndex = 0 then arg\<lparr>uiname := fcitx_utils_string_swap (uiname arg) optarg\<rparr>
      else if optionIndex = 1 then arg\<lparr>tryReplace := True\<rparr>
      else if optionIndex = 2 then arg\<lparr>enableList := fcitx_utils_string_swap (enableList arg) optarg\<rparr>
      else if optionIndex = 3 then arg\<lparr>disableList := fcitx_utils_string_swap (disableList arg) optarg\<rparr>
      else arg\<lparr>quietQuit := True\<rparr>)"

definition short_option :: "char \<Rightarrow> cstr option \<Rightarrow> arguments \<Rightarrow> arguments" where
  "short_option c optarg arg =
     (if c = CHR ''r'' then arg\<lparr>tryReplace := True\<rparr>
      else if c = CHR ''u'' then arg\<lparr>uiname := fcitx_utils_string_swap (uiname arg) optarg\<rparr>
      else if c = CHR ''d'' then arg\<lparr>runasdaemon := True\<rparr>
      else if c = CHR ''D'' then arg\<lparr>runasdaemon := False\<rparr>
      else if c = CHR ''s'' then arg\<lparr>overrideDelay := atoi (the optarg)\<rparr>
      else arg\<lparr>quietQuit := True\<rparr>)"

definition fcitx_instance_arugment_parse :: "option_result list \<Rightarrow> arguments \<Rightarrow> arguments" where
  "fcitx_instance_arugment_parse opts arg =
     fold (\<lambda>r. case r of Long i optarg \<Rightarrow> long_option i optarg | Short c optarg \<Rightarrow> short_option c optarg)
       opts (arg\<lparr>overrideDelay := - 1\<rparr>)"

section \<open>State\<close>

datatype last_released_key =
    LRK_None | LRK_Trigger | LRK_TriggerAlt | LRK_ScrollForward | LRK_ScrollBackward | LRK_Activate | LRK_Deactivate

record private_state =
  lastKeyPressedTime :: "64 word"
  releasedKey :: last_released_key

text \<open>The elements are pointers to items, \<open>None\<close> for \<open>NULL\<close>.\<close>

record im_state =
  localInputMethod :: "nat option list option"

record fcitx_instance =
  in_enableList :: "cstr option"
  in_disableList :: "cstr option"
  in_uiname :: "cstr option"
  in_tryReplace :: bool
  signalPipe :: int
  running :: bool
  shutdown :: bool
  mainLoop :: mainloop
  in_group :: int
  globalInputMethod :: "nat option list"
  triggerKey :: "fcitx_key list"
  inputMethodStateId :: nat
  inputMethodPrivateStateId :: nat
  appNamePolicy :: "nat option"
  addonManager :: addon_manager
  icManager :: manager
  imManager :: im_manager
  im_states :: "nat \<Rightarrow> im_state option"
  private_states :: "nat \<Rightarrow> private_state option"

text \<open>\<open>trigger\<close> is the default of the configured trigger keys.  Waiting and becoming a daemon have no
  effect on the state.  \<open>clock\<close> is the clock of the main loop.\<close>

definition fcitx_instance_new ::
  "(nat \<Rightarrow> int) \<Rightarrow> option_result list \<Rightarrow> fcitx_key list \<Rightarrow> fcitx_instance option" where
  "fcitx_instance_new clock opts trigger =
     (let arg = fcitx_instance_arugment_parse opts zero_arguments in
      if quietQuit arg then None
      else do {
        mainloop \<leftarrow> fcitx_mainloop_new clock;
        Some \<lparr>in_enableList = enableList arg, in_disableList = disableList arg, in_uiname = uiname arg,
         in_tryReplace = tryReplace arg, signalPipe = - 1, running = False, shutdown = False, mainLoop = mainloop,
         in_group = 0, globalInputMethod = [], triggerKey = trigger, inputMethodStateId = 0,
         inputMethodPrivateStateId = 0, appNamePolicy = None,
         addonManager = fcitx_addon_manager_new,
         icManager = fcitx_input_context_manager_set_event_dispatcher True False fcitx_input_context_manager_new,
         imManager = fcitx_input_method_manager_set_event_dispatcher True False fcitx_input_method_manager_new,
         im_states = (\<lambda>_. None), private_states = (\<lambda>_. None)\<rparr> })"

definition fcitx_instance_set_signal_pipe :: "int \<Rightarrow> fcitx_instance \<Rightarrow> fcitx_instance" where
  "fcitx_instance_set_signal_pipe fd s = s\<lparr>signalPipe := fd\<rparr>"

definition fcitx_instance_shutdown :: "fcitx_instance \<Rightarrow> fcitx_instance" where
  "fcitx_instance_shutdown s =
     (let s = s\<lparr>shutdown := True\<rparr> in if running s then s\<lparr>mainLoop := fcitx_mainloop_quit (mainLoop s)\<rparr> else s)"

definition fcitx_instance_get_try_replace :: "fcitx_instance \<Rightarrow> bool" where
  "fcitx_instance_get_try_replace s = in_tryReplace s"

text \<open>The numbers of \<open>SIGINT\<close>, \<open>SIGTERM\<close>, \<open>SIGQUIT\<close> and \<open>SIGXCPU\<close>; the bytes that \<open>read\<close> returns.\<close>

definition exit_signals :: "byte list" where
  "exit_signals = [2, 15, 3, 24]"

definition fcitx_instance_handle_signal :: "byte list \<Rightarrow> fcitx_instance \<Rightarrow> fcitx_instance" where
  "fcitx_instance_handle_signal signos s =
     fold (\<lambda>signo s. if signo \<in> set exit_signals then fcitx_instance_shutdown s else s) signos s"

section \<open>The state of a context\<close>

definition fcitx_input_context_app_name_set :: "cstr option \<Rightarrow> cstr option \<Rightarrow> cstr option" where
  "fcitx_input_context_app_name_set data value = fcitx_utils_string_swap data value"

definition fcitx_input_context_input_method_private_state_set :: "private_state option \<Rightarrow> private_state" where
  "fcitx_input_context_input_method_private_state_set data =
     (case data of None \<Rightarrow> \<lparr>lastKeyPressedTime = 0, releasedKey = LRK_None\<rparr> | Some st \<Rightarrow> st)"

text \<open>\<open>fcitx_ptr_array_set\<close> with an \<open>int\<close> as its index, which a negative one puts out of range.\<close>

definition array_set :: "nat option list \<Rightarrow> int \<Rightarrow> nat option \<Rightarrow> nat option list" where
  "array_set xs i x = (if i < 0 then xs else xs[nat i := x])"

definition fcitx_input_context_input_method_state_set ::
  "im_state option \<Rightarrow> bool \<Rightarrow> nat option \<Rightarrow> fcitx_instance \<Rightarrow> im_state \<times> fcitx_instance" where
  "fcitx_input_context_input_method_state_set data local imItem s =
     (let st = (case data of None \<Rightarrow> \<lparr>localInputMethod = None\<rparr> | Some st \<Rightarrow> st) in
      if local
      then
        let xs = (case localInputMethod st of
              None \<Rightarrow> replicate (length (globalInputMethod s)) None | Some xs \<Rightarrow> xs)
        in (st\<lparr>localInputMethod := Some (array_set xs (in_group s) imItem)\<rparr>, s)
      else if globalInputMethod s \<noteq> []
      then (st, s\<lparr>globalInputMethod := array_set (globalInputMethod s) (in_group s) imItem\<rparr>)
      else (st, s))"

text \<open>The answer is what remains of the state: nothing.\<close>

definition fcitx_input_context_input_method_state_free :: "im_state option \<Rightarrow> im_state option" where
  "fcitx_input_context_input_method_state_free data = None"

definition fcitx_input_context_input_method_state_copy ::
  "im_state option \<Rightarrow> im_state option \<Rightarrow> im_state option" where
  "fcitx_input_context_input_method_state_copy dst src =
     (case src of
        None \<Rightarrow> fcitx_input_context_input_method_state_free dst
      | Some srcState \<Rightarrow>
          let st = (case dst of None \<Rightarrow> \<lparr>localInputMethod = None\<rparr> | Some st \<Rightarrow> st) in
          case localInputMethod srcState of
            Some xs \<Rightarrow>
              if localInputMethod st = None
              then Some (st\<lparr>localInputMethod :=
                Some (fold (\<lambda>i ys. ys[i := xs ! i]) [0..<length xs] (replicate (length xs) None))\<rparr>)
              else Some st
          | None \<Rightarrow> Some (st\<lparr>localInputMethod := None\<rparr>))"

definition fcitx_app_name_property_key :: "cstr option \<Rightarrow> cstr" where
  "fcitx_app_name_property_key value = (case value of Some s \<Rightarrow> take (length s) s | None \<Rightarrow> [])"

definition fcitx_instance_input_context_get_private_state :: "nat \<Rightarrow> fcitx_instance \<Rightarrow> private_state" where
  "fcitx_instance_input_context_get_private_state ic s =
     fcitx_input_context_input_method_private_state_set (private_states s ic)"

section \<open>Groups of input methods\<close>

definition fcitx_instance_set_input_method_group :: "int \<Rightarrow> fcitx_instance \<Rightarrow> fcitx_instance" where
  "fcitx_instance_set_input_method_group g s =
     (if g \<ge> 0 \<and> nat g \<ge> length (globalInputMethod s) then s
      else if in_group s \<noteq> g then s\<lparr>in_group := g\<rparr> else s)"

definition fcitx_instance_get_input_method_group :: "fcitx_instance \<Rightarrow> int" where
  "fcitx_instance_get_input_method_group s = in_group s"

text \<open>No policy shares the states, which the instance never asks for.\<close>

definition fcitx_instance_set_input_method_for_input_context ::
  "nat \<Rightarrow> nat option \<Rightarrow> bool \<Rightarrow> fcitx_instance \<Rightarrow> fcitx_instance" where
  "fcitx_instance_set_input_method_for_input_context ic item local s =
     (let (st, s) = fcitx_input_context_input_method_state_set (im_states s ic) local item s
      in s\<lparr>im_states := (im_states s)(ic := Some st)\<rparr>)"

definition fcitx_instance_input_method_group_reset_foreach :: "nat \<Rightarrow> fcitx_instance \<Rightarrow> bool \<times> fcitx_instance" where
  "fcitx_instance_input_method_group_reset_foreach ic s =
     (case im_states s ic of
        Some st \<Rightarrow>
          if localInputMethod st \<noteq> None
          then (True, s\<lparr>im_states := (im_states s)(ic := Some (st\<lparr>localInputMethod := Some []\<rparr>))\<rparr>)
          else (True, s)
      | None \<Rightarrow> (True, s))"

section \<open>Events\<close>

definition ET_EventTypeFlag :: u32 where "ET_EventTypeFlag = 0xffff0000"
definition ET_InputContextEventFlag :: u32 where "ET_InputContextEventFlag = 0x1000"
definition ET_InputMethodEventFlag :: u32 where "ET_InputMethodEventFlag = 0x2000"
definition ET_InputMethodManagerEventFlag :: u32 where "ET_InputMethodManagerEventFlag = 0x4000"

definition ET_InputContextKeyEvent :: u32 where "ET_InputContextKeyEvent = ET_InputContextEventFlag OR 5"
definition ET_InputMethodGroupReset :: u32 where "ET_InputMethodGroupReset = ET_InputMethodManagerEventFlag OR 2"
definition ET_NewInputMethodGroup :: u32 where "ET_NewInputMethodGroup = ET_InputMethodManagerEventFlag OR 3"

record dispatch_event =
  event_type :: u32
  event_ic :: nat
  detail :: key_event

text \<open>The rows of \<open>keyHandle\<close>: all have the same keys and the same \<open>valid\<close>, and no callback.\<close>

definition keyHandle :: "last_released_key list" where
  "keyHandle = [LRK_Trigger, LRK_TriggerAlt, LRK_ScrollForward, LRK_ScrollBackward, LRK_Activate, LRK_Deactivate]"

definition find_handle :: "private_state \<Rightarrow> bool \<Rightarrow> fcitx_key \<Rightarrow> fcitx_instance \<Rightarrow> last_released_key option" where
  "find_handle p valid key s =
     find (\<lambda>k. releasedKey p = k \<and> valid \<and> fcitx_key_list_check (triggerKey s) key) keyHandle"

definition put_private :: "nat \<Rightarrow> private_state \<Rightarrow> fcitx_instance \<Rightarrow> fcitx_instance" where
  "put_private ic p s = s\<lparr>private_states := (private_states s)(ic := Some p)\<rparr>"

text \<open>The part of the dispatcher for key events.\<close>

definition handle_key_event :: "nat \<Rightarrow> key_event \<Rightarrow> fcitx_instance \<Rightarrow> (bool \<times> fcitx_instance) option" where
  "handle_key_event ic e s = do {
     n \<leftarrow> fcitx_input_method_manager_get_group_size (imManager s) (in_group s);
     let hasMoreThanOneIM = n > 0;
     let isModifier = fcitx_key_is_modifier (ke_key e);
     let p = fcitx_instance_input_context_get_private_state ic s;
     let time = word_of_nat (ke_time e);
     let tail = (\<lambda>p.
       if fcitx_key_list_check (triggerKey s) (ke_key e)
       then do { _ \<leftarrow> fcitx_input_method_manager_get_group_size (imManager s) (in_group s);
                 Some (False, put_private ic p s) }
       else Some (False, put_private ic p s));
     if \<not> isRelease e
     then
       let p = p\<lparr>lastKeyPressedTime := time\<rparr> in
       case find_handle p hasMoreThanOneIM (ke_key e) s of
         Some k \<Rightarrow> if isModifier then Some (True, put_private ic (p\<lparr>releasedKey := k\<rparr>) s) else None
       | None \<Rightarrow> tail (p\<lparr>releasedKey := LRK_None\<rparr>)
     else if isModifier \<and> time < lastKeyPressedTime p + 500 \<and> find_handle p hasMoreThanOneIM (ke_key e) s \<noteq> None
     then None
     else tail (p\<lparr>releasedKey := LRK_None\<rparr>) }"

text \<open>\<open>answer\<close> is what \<open>handleEvent\<close> of a frontend returns.\<close>

definition fcitx_instance_event_dispatch ::
  "(cstr \<Rightarrow> dispatch_event \<Rightarrow> bool) \<Rightarrow> dispatch_event \<Rightarrow> fcitx_instance \<Rightarrow> (bool \<times> fcitx_instance) option" where
  "fcitx_instance_event_dispatch answer e s =
     (let category = event_type e AND ET_EventTypeFlag in
      if category = ET_InputContextEventFlag
      then
        if event_type e = ET_InputContextKeyEvent then handle_key_event (event_ic e) (detail e) s
        else Some (False, s)
      else if category = ET_InputMethodEventFlag
      then
        let fe = unat (frontend (contexts (icManager s) (event_ic e))) in
        if length (frontends (addonManager s)) > fe
        then Some (answer (frontends (addonManager s) ! fe) e, s)
        else Some (False, s)
      else if category = ET_InputMethodManagerEventFlag
      then
        if event_type e = ET_InputMethodGroupReset
        then
          let s = s\<lparr>globalInputMethod := []\<rparr>;
              s = fcitx_input_context_manager_foreach (icManager s) fcitx_instance_input_method_group_reset_foreach s
          in Some (False, fcitx_instance_set_input_method_group (- 1) s)
        else if event_type e = ET_NewInputMethodGroup
        then
          let s = s\<lparr>globalInputMethod := globalInputMethod s @ [None]\<rparr>
          in Some (False, if in_group s < 0 then fcitx_instance_set_input_method_group 0 s else s)
        else Some (False, s)
      else Some (False, s))"

definition fcitx_instance_post_event :: "dispatch_event option \<Rightarrow> fcitx_instance \<Rightarrow> fcitx_instance" where
  "fcitx_instance_post_event e s = s"

section \<open>Running\<close>

definition FCITX_APPLICATION_NAME_PROPERTY :: cstr where
  "FCITX_APPLICATION_NAME_PROPERTY = bytes ''applicationName''"

text \<open>
  The functions of the properties on the addresses of their data.  \<open>fresh\<close> gives the address of a new state,
  which may depend on what it is made for, \<open>dup\<close> that of a copy of the string at an address, and \<open>string_at\<close> the
  string at an address; addresses are not zero.
\<close>

definition state_set_address :: "(nat \<Rightarrow> nat) \<Rightarrow> nat \<Rightarrow> nat \<Rightarrow> nat" where
  "state_set_address fresh data value = (if data = 0 then fresh value else data)"

definition state_copy_address :: "(nat \<Rightarrow> nat) \<Rightarrow> nat \<Rightarrow> nat \<Rightarrow> nat" where
  "state_copy_address fresh dst src = (if src = 0 then 0 else if dst = 0 then fresh src else dst)"

definition app_name_address :: "(nat \<Rightarrow> nat) \<Rightarrow> nat \<Rightarrow> nat \<Rightarrow> nat" where
  "app_name_address dup data value = (if value = 0 then 0 else dup value)"

text \<open>The three properties with the policy for application names, and what is set up for the addons; the
  addresses of the instance and of its managers are arguments.\<close>

definition setup_contexts ::
  "(nat \<Rightarrow> nat) \<Rightarrow> (nat \<Rightarrow> nat) \<Rightarrow> (nat \<Rightarrow> cstr) \<Rightarrow> fcitx_instance \<Rightarrow> fcitx_instance" where
  "setup_contexts fresh dup string_at s =
     (let (i, m) = fcitx_input_context_manager_register_property (bytes ''inputMethodState'')
            (Some (state_set_address fresh)) (Some (state_copy_address fresh)) True False (icManager s);
          (j, m) = fcitx_input_context_manager_register_property (bytes ''inputMethodPrivateState'')
            (Some (state_set_address fresh)) None True False m;
          (k, m) = fcitx_input_context_manager_register_property FCITX_APPLICATION_NAME_PROPERTY
            (Some (app_name_address dup)) None True False m;
          (p, m) = fcitx_input_context_shared_state_policy_new (int k)
            (\<lambda>value. fcitx_app_name_property_key (if value = 0 then None else Some (string_at value))) False m
      in s\<lparr>inputMethodStateId := i, inputMethodPrivateStateId := j, appNamePolicy := p, icManager := m\<rparr>)"

definition setup_addons ::
  "nat \<Rightarrow> nat \<Rightarrow> nat \<Rightarrow> (cstr \<Rightarrow> shared_object option) \<Rightarrow> fcitx_instance \<Rightarrow> addon_manager" where
  "setup_addons this icm imm lib s =
     (let a = fcitx_addon_manager_set_property (bytes ''instance'') this (addonManager s);
          a = fcitx_addon_manager_set_property (bytes ''icmanager'') icm a;
          a = fcitx_addon_manager_set_property (bytes ''immanager'') imm a;
          a = fcitx_addon_manager_register_default_resolver lib [] a
      in fcitx_addon_manager_set_override (in_enableList s) (in_disableList s) a)"

definition signal_callback :: nat where "signal_callback = 1"

text \<open>\<open>loop\<close> is \<open>fcitx_mainloop_run\<close> with all that its callbacks do to the instance; \<open>run_loop\<close> is the run in which
  they change the loop alone.\<close>

definition run_loop ::
  "nat \<Rightarrow> behaviour \<Rightarrow> int \<Rightarrow> (pollfd list \<Rightarrow> int option \<Rightarrow> poll_answer) list \<Rightarrow>
   fcitx_instance \<Rightarrow> (int \<times> fcitx_instance) option" where
  "run_loop fuel call wakeup_fd ppolls s = do {
     (r, m) \<leftarrow> fcitx_mainloop_run fuel call wakeup_fd ppolls (mainLoop s);
     r \<leftarrow> r;
     Some (r, s\<lparr>mainLoop := m\<rparr>) }"

definition fcitx_instance_run ::
  "(nat \<Rightarrow> nat) \<Rightarrow> (nat \<Rightarrow> nat) \<Rightarrow> (nat \<Rightarrow> cstr) \<Rightarrow> nat \<Rightarrow> nat \<Rightarrow> nat \<Rightarrow> (cstr \<Rightarrow> shared_object option) \<Rightarrow> cstr \<Rightarrow>
   addon_config list \<Rightarrow> (fcitx_instance \<Rightarrow> (int \<times> fcitx_instance) option) \<Rightarrow>
   fcitx_instance \<Rightarrow> (int \<times> fcitx_instance) option" where
  "fcitx_instance_run fresh dup string_at this icm imm lib suffix cfgs loop s = do {
     let s = setup_contexts fresh dup string_at s;
     a \<leftarrow> fcitx_addon_manager_load suffix cfgs (setup_addons this icm imm lib s);
     let s = s\<lparr>addonManager := a, running := True\<rparr>;
     if shutdown s then Some (1, s)
     else if signalPipe s \<noteq> - 1 then do {
       (_, m) \<leftarrow> fcitx_mainloop_register_io_event (signalPipe s) FIOEF_IN signal_callback False this (mainLoop s);
       loop (s\<lparr>mainLoop := m\<rparr>) }
     else loop s }"

text \<open>What remains is the log of the two managers and of the loop, which call back.\<close>

definition fcitx_instance_destroy ::
  "fcitx_instance \<Rightarrow> (addon_event list \<times> ic_event list \<times> loop_call list) option" where
  "fcitx_instance_destroy s = do {
     m \<leftarrow> fcitx_input_context_manager_destroy_all_input_context (icManager s);
     a \<leftarrow> fcitx_addon_manager_free (addonManager s);
     i \<leftarrow> fcitx_input_context_manager_free m;
     l \<leftarrow> fcitx_mainloop_free (mainLoop s);
     Some (a, i, l) }"

section \<open>Properties\<close>

lemma category_no_flag:
  "(t AND ET_EventTypeFlag) AND 0xffff = 0"
  by (simp add: ET_EventTypeFlag_def and.assoc)

text \<open>The dispatcher ignores every event: whatever its type, its context and its key, and whatever the
  frontends answer, it reports it as not handled and changes nothing.  The mask it applies to the type
  has no bit in common with the flags of the categories.\<close>

theorem dispatch_ignores_events: "fcitx_instance_event_dispatch answer e s = Some (False, s)"
proof -
  have "event_type e AND ET_EventTypeFlag \<noteq> f" if "f AND 0xffff \<noteq> 0" for f :: u32
    using category_no_flag [of "event_type e"] that by auto
  then have "event_type e AND ET_EventTypeFlag \<noteq> ET_InputContextEventFlag"
    "event_type e AND ET_EventTypeFlag \<noteq> ET_InputMethodEventFlag"
    "event_type e AND ET_EventTypeFlag \<noteq> ET_InputMethodManagerEventFlag"
    by (simp_all add: ET_InputContextEventFlag_def ET_InputMethodEventFlag_def ET_InputMethodManagerEventFlag_def)
  then show ?thesis by (simp add: fcitx_instance_event_dispatch_def)
qed

text \<open>Even on its own the part for key events never handles one: as long as no key is recorded as
  released for a context, each key event of the context is passed on and records none, however the
  trigger keys are set, and the only way to fail is a group of input methods that does not exist.\<close>

theorem key_event_never_handled:
  assumes "releasedKey (fcitx_instance_input_context_get_private_state ic s) = LRK_None"
  shows "case handle_key_event ic e s of
      None \<Rightarrow> in_group s = int (fcitx_input_method_manager_group_count (imManager s))
    | Some (handled, s') \<Rightarrow> \<not> handled \<and>
        releasedKey (fcitx_instance_input_context_get_private_state ic s') = LRK_None \<and>
        (\<exists>p. s' = put_private ic p s)"
proof -
  have f: "find_handle p b k s = None" if "releasedKey p = LRK_None" for p b k
    using that by (simp add: find_handle_def keyHandle_def)
  show ?thesis
  proof (cases "fcitx_input_method_manager_get_group_size (imManager s) (in_group s)")
    case None
    then show ?thesis
      by (auto simp: handle_key_event_def fcitx_input_method_manager_get_group_size_def bad_group_def group_at_def
          fcitx_input_method_manager_group_count_def split: if_splits)
  next
    case (Some n)
    then show ?thesis using assms
      by (auto simp: handle_key_event_def Let_def f fcitx_instance_input_context_get_private_state_def put_private_def
          fcitx_input_context_input_method_private_state_set_def)
  qed
qed

definition ex_instance :: fcitx_instance where
  "ex_instance = the (fcitx_instance_new int [] [])"

lemma ex_instance: "fcitx_instance_new int [] [] = Some ex_instance"
  using loop_new_ok [of int]
  by (auto simp: ex_instance_def fcitx_instance_new_def fcitx_instance_arugment_parse_def zero_arguments_def Let_def)

lemma ex_instance_fields:
  "private_states ex_instance = (\<lambda>_. None)" "im_states ex_instance = (\<lambda>_. None)" "in_group ex_instance = 0"
  "\<not> shutdown ex_instance" "addonManager ex_instance = fcitx_addon_manager_new"
  "in_enableList ex_instance = None" "in_disableList ex_instance = None" "Some (mainLoop ex_instance) = fcitx_mainloop_new int"
  using loop_new_ok [of int]
  by (auto simp: ex_instance_def fcitx_instance_new_def fcitx_instance_arugment_parse_def zero_arguments_def Let_def)

theorem key_event_never_handled_witness:
  "releasedKey (fcitx_instance_input_context_get_private_state 0 ex_instance) = LRK_None \<and>
   (\<forall>e. case handle_key_event 0 e ex_instance of
      None \<Rightarrow> in_group ex_instance = int (fcitx_input_method_manager_group_count (imManager ex_instance))
    | Some (handled, s') \<Rightarrow> \<not> handled \<and>
        releasedKey (fcitx_instance_input_context_get_private_state 0 s') = LRK_None \<and>
        (\<exists>p. s' = put_private 0 p ex_instance))"
proof -
  have "releasedKey (fcitx_instance_input_context_get_private_state 0 ex_instance) = LRK_None"
    by (simp add: ex_instance_fields
        fcitx_instance_input_context_get_private_state_def fcitx_input_context_input_method_private_state_set_def)
  then show ?thesis using key_event_never_handled by blast
qed

lemma copy_elements: "fold (\<lambda>i ys. ys[i := xs ! i]) [0..<length xs] (replicate (length xs) x) = xs"
proof -
  have "fold (\<lambda>i ys. ys[i := xs ! i]) [0..<n] (replicate (length xs) x) = take n xs @ replicate (length xs - n) x"
    if "n \<le> length xs" for n
    using that
  proof (induction n)
    case (Suc n)
    then have "replicate (length xs - n) x = x # replicate (length xs - Suc n) x"
      by (metis Suc_diff_Suc Suc_le_eq replicate_Suc)
    with Suc show ?case by (simp add: list_update_append take_Suc_conv_app_nth)
  qed simp
  from this [of "length xs"] show ?thesis by simp
qed

text \<open>What copying the state of input methods from one context to another gives: nothing from
  nothing, no list of its own from none, the source's list if the destination has none yet, and
  otherwise the destination as it was, so a list once copied is never brought up to date.\<close>

theorem state_copy_exact:
  "fcitx_input_context_input_method_state_copy dst src =
     (case src of
        None \<Rightarrow> None
      | Some a \<Rightarrow> Some (case localInputMethod a of
            None \<Rightarrow> a
          | Some xs \<Rightarrow> (case dst of
                None \<Rightarrow> a
              | Some d \<Rightarrow> if localInputMethod d = None then a else d)))"
  by (cases src; cases dst)
    (auto simp: fcitx_input_context_input_method_state_copy_def fcitx_input_context_input_method_state_free_def
      copy_elements Let_def split: option.split intro!: im_state.equality)

text \<open>After the groups of input methods were reset, the input method that a context keeps for itself
  cannot be set any more: the array of a context that had one stays empty, whatever groups are added and
  selected afterwards.\<close>

theorem local_lost_after_reset:
  assumes "im_states s ic = Some st" and "localInputMethod st \<noteq> None"
  shows "im_states (fcitx_instance_set_input_method_for_input_context ic item True
     ((snd (fcitx_instance_input_method_group_reset_foreach ic s))\<lparr>globalInputMethod := gs, in_group := g\<rparr>)) ic =
     Some \<lparr>localInputMethod = Some []\<rparr>"
  using assms
  by (auto simp: fcitx_instance_set_input_method_for_input_context_def Let_def array_set_def
      fcitx_instance_input_method_group_reset_foreach_def fcitx_input_context_input_method_state_set_def)

theorem local_lost_after_reset_witness:
  "let s = (fcitx_instance_set_input_method_for_input_context 3 (Some 5) True
       (ex_instance\<lparr>globalInputMethod := [None]\<rparr>)) in
   im_states s 3 = Some \<lparr>localInputMethod = Some [Some 5]\<rparr> \<and>
   im_states (fcitx_instance_set_input_method_for_input_context 3 (Some 7) True
     ((snd (fcitx_instance_input_method_group_reset_foreach 3 s))\<lparr>globalInputMethod := [None], in_group := 0\<rparr>)) 3 =
     Some \<lparr>localInputMethod = Some []\<rparr>"
proof -
  let ?s = "fcitx_instance_set_input_method_for_input_context 3 (Some 5) True (ex_instance\<lparr>globalInputMethod := [None]\<rparr>)"
  have "im_states ?s 3 = Some \<lparr>localInputMethod = Some [Some 5]\<rparr>"
    by (simp add: fcitx_instance_set_input_method_for_input_context_def fcitx_input_context_input_method_state_set_def
        Let_def array_set_def ex_instance_fields)
  then show ?thesis using local_lost_after_reset [of ?s 3] unfolding Let_def by simp
qed

section \<open>From the start to the end\<close>

lemma load_inv_empty: "items (addons m) = [] \<Longrightarrow> loadedAddons m = [] \<Longrightarrow> load_inv m"
  by (rule load_invI) (simp_all add: fcitx_dict_lookup_def HASH_FIND_def)

lemma register_uncopied:
  "shared_uncopied m \<Longrightarrow>
   shared_uncopied (snd (fcitx_input_context_manager_register_property nm setp copy pd dn m))"
  by (auto simp: shared_uncopied_def fcitx_input_context_manager_register_property_def Let_def nth_append)

lemma policy_new_uncopied:
  "shared_uncopied m \<Longrightarrow> nat i < length (propertySlots m) \<longrightarrow> copyProperty (propertySlots m ! nat i) = None \<Longrightarrow>
   shared_uncopied (snd (fcitx_input_context_shared_state_policy_new i key dn m))"
  by (auto simp: shared_uncopied_def fcitx_input_context_shared_state_policy_new_def Let_def nth_list_update)

lemma free_ok:
  assumes "ic_reachable m" "shared_uncopied m"
  shows "\<exists>m' es. fcitx_input_context_manager_destroy_all_input_context m = Some m' \<and>
    fcitx_input_context_manager_free m' = Some es"
proof -
  from destroy_all_ok [OF assms] obtain m' where m':
    "fcitx_input_context_manager_destroy_all_input_context m = Some m'" "ics m' = []" by blast
  have "fcitx_input_context_manager_destroy_all_input_context m' = Some m'"
    by (subst fcitx_input_context_manager_destroy_all_input_context.simps) (simp add: m'(2))
  then show ?thesis using m'(1) by (auto simp: fcitx_input_context_manager_free_def Let_def)
qed

lemma setup_contexts_ok:
  fixes fresh dup :: "nat \<Rightarrow> nat" and string_at :: "nat \<Rightarrow> cstr"
  assumes m: "icManager s = fcitx_input_context_manager_set_event_dispatcher True False fcitx_input_context_manager_new"
  defines "s' \<equiv> setup_contexts fresh dup string_at s"
  shows "ic_reachable (icManager s')" "shared_uncopied (icManager s')"
    "\<exists>i j p m. s' = s\<lparr>inputMethodStateId := i, inputMethodPrivateStateId := j, appNamePolicy := p, icManager := m\<rparr>"
proof -
  let ?key = "\<lambda>value. fcitx_app_name_property_key (if value = 0 then None else Some (string_at value))"
  obtain i m1 where m1: "fcitx_input_context_manager_register_property (bytes ''inputMethodState'')
      (Some (state_set_address fresh)) (Some (state_copy_address fresh)) True False (icManager s) = (i, m1)" by fastforce
  obtain j m2 where m2: "fcitx_input_context_manager_register_property (bytes ''inputMethodPrivateState'')
      (Some (state_set_address fresh)) None True False m1 = (j, m2)" by fastforce
  obtain k m3 where m3: "fcitx_input_context_manager_register_property FCITX_APPLICATION_NAME_PROPERTY
      (Some (app_name_address dup)) None True False m2 = (k, m3)" by fastforce
  obtain p m4 where m4: "fcitx_input_context_shared_state_policy_new (int k) ?key False m3 = (p, m4)" by fastforce
  have s': "s' = s\<lparr>inputMethodStateId := i, inputMethodPrivateStateId := j, appNamePolicy := p, icManager := m4\<rparr>"
    unfolding s'_def setup_contexts_def m1 m2 m3 m4 Let_def prod.case ..
  then show "\<exists>i j p m. s' = s\<lparr>inputMethodStateId := i, inputMethodPrivateStateId := j, appNamePolicy := p, icManager := m\<rparr>"
    by blast
  have "shared_uncopied (icManager s)"
    by (simp add: m shared_uncopied_def fcitx_input_context_manager_set_event_dispatcher_def Let_def
        fcitx_input_context_manager_new_def fcitx_input_context_focus_group_new_internal_def upd_group_def
        fcitx_input_context_manager_register_property_def)
  then have "shared_uncopied m3"
    using register_uncopied m1 m2 m3 by (metis snd_conv)
  moreover have "copyProperty (propertySlots m3 ! k) = None"
    using m3 by (auto simp: fcitx_input_context_manager_register_property_def Let_def)
  ultimately show "shared_uncopied (icManager s')"
    using policy_new_uncopied [of m3 "int k" ?key False] m4 by (simp add: s')
  have "ic_reachable (icManager s)" unfolding m by (intro ic_reachable_ops ic_reachable.start)
  then have "ic_reachable m1"
    using ic_reachable.step [OF _ ic_step.register_property [of "icManager s" "bytes ''inputMethodState''" "Some (state_set_address fresh)" "Some (state_copy_address fresh)" True False]] by (simp only: m1 snd_conv)
  then have "ic_reachable m2"
    using ic_reachable.step [OF _ ic_step.register_property [of "m1" "bytes ''inputMethodPrivateState''" "Some (state_set_address fresh)" "None" True False]] by (simp only: m2 snd_conv)
  then have "ic_reachable m3"
    using ic_reachable.step [OF _ ic_step.register_property [of "m2" "FCITX_APPLICATION_NAME_PROPERTY" "Some (app_name_address dup)" "None" True False]] by (simp only: m3 snd_conv)
  then have "ic_reachable m4"
    using ic_reachable.step [OF _ ic_step.policy_new [of m3 "int k" ?key False]] by (simp only: m4 snd_conv)
  then show "ic_reachable (icManager s')" by (simp add: s')
qed

lemma setup_addons_empty:
  assumes "addonManager s = fcitx_addon_manager_new"
  shows "items (addons (setup_addons this icm imm lib s)) = []" "loadedAddons (setup_addons this icm imm lib s) = []"
  by (simp_all add: assms setup_addons_def fcitx_addon_manager_set_override_def fcitx_addon_manager_set_property_def Let_def
      fcitx_addon_manager_register_default_resolver_def fcitx_addon_manager_register_resolver_def
      fcitx_addon_manager_new_def fcitx_dict_new_def)

lemma setup_addons_cong:
  "addonManager s' = addonManager s \<Longrightarrow> in_enableList s' = in_enableList s \<Longrightarrow> in_disableList s' = in_disableList s \<Longrightarrow>
   setup_addons this icm imm lib s' = setup_addons this icm imm lib s"
  by (simp add: setup_addons_def)

text \<open>The instance that enters the main loop.\<close>

lemma run_result:
  fixes fd :: int
  assumes "fcitx_instance_new clock opts trigger = Some s0"
  defines "s \<equiv> fcitx_instance_set_signal_pipe fd s0"
  shows "\<exists>s1. (\<forall>loop. fcitx_instance_run fresh dup string_at this icm imm lib suffix cfgs loop s = loop s1) \<and> running s1 \<and>
    icManager s1 = icManager (setup_contexts fresh dup string_at s) \<and>
    ic_reachable (icManager s1) \<and> shared_uncopied (icManager s1) \<and>
    fcitx_addon_manager_load suffix cfgs (setup_addons this icm imm lib s) = Some (addonManager s1) \<and>
    load_inv (addonManager s1) \<and> mgr_loaded (addonManager s1) \<and> (\<forall>k. waits (addonManager s1) k) \<and>
    (if fd = - 1 then mainLoop s1 = mainLoop s else \<exists>p.
       fcitx_mainloop_register_io_event fd FIOEF_IN signal_callback False this (mainLoop s) = Some (p, mainLoop s1)) \<and>
    timers_ok None [] (mainLoop s1) \<and> (\<exists>c. io_ok c (mainLoop s1))"
proof -
  obtain l where l: "fcitx_mainloop_new clock = Some l" "timers_ok None [] l" "io_ok (\<lambda>_. []) l" "pool_room (objs (ioHandler l))"
    using loop_new_ok [of clock] loop_new_io [of clock] by auto
  have s: "icManager s = fcitx_input_context_manager_set_event_dispatcher True False fcitx_input_context_manager_new"
    "addonManager s = fcitx_addon_manager_new" "\<not> shutdown s" "mainLoop s = l" "signalPipe s = fd"
    using assms l(1) by (auto simp: s_def fcitx_instance_new_def fcitx_instance_set_signal_pipe_def Let_def split: if_splits)
  let ?s = "setup_contexts fresh dup string_at s" and ?a = "setup_addons this icm imm lib s"
  note c = setup_contexts_ok [OF s(1), of fresh dup string_at]
  have f: "setup_addons this icm imm lib ?s = ?a" "\<not> shutdown ?s" "mainLoop ?s = l" "signalPipe ?s = fd"
    using c(3) s by (auto simp: setup_addons_def)
  have inv: "load_inv ?a" by (rule load_inv_empty) (simp_all add: setup_addons_empty s(2))
  obtain b where b: "fcitx_addon_manager_load suffix cfgs ?a = Some b" "mgr_loaded b" "\<forall>k. waits b k"
    using load_all_waits [OF inv, of suffix cfgs] by (auto simp: setup_addons_empty s(2))
  have binv: "load_inv b" using load_inv_load [OF inv b(1)] .
  obtain p l1 where l1: "fcitx_mainloop_register_io_event fd FIOEF_IN signal_callback False this l = Some (p, l1)"
      "\<exists>c. io_ok c l1"
    using register_io_ok [OF l(3,4), of fd FIOEF_IN signal_callback False this] unfolding Let_def by blast
  have t1: "timers_ok None [] l1" using register_timers [OF l(2) l1(1)] .
  define s1 where "s1 = (if fd = - 1 then ?s\<lparr>addonManager := b, running := True\<rparr>
      else ?s\<lparr>addonManager := b, running := True, mainLoop := l1\<rparr>)"
  have "fcitx_instance_run fresh dup string_at this icm imm lib suffix cfgs loop s = loop s1" for loop
    using f b(1) l1(1) by (cases "fd = - 1") (simp_all add: fcitx_instance_run_def Let_def s1_def)
  then show ?thesis
    using c(1,2) b binv l l1 t1 s(4) f(3) by (intro exI [of _ s1]) (auto simp: s1_def)
qed


definition ex_library :: "cstr \<Rightarrow> shared_object option" where
  "ex_library file = Some \<lparr>loads = True, symbols = (\<lambda>nm.
     if fcitx_utils_string_ends_with nm (bytes ''ABI_VERSION'') then Some (ABI_version FCITX_ABI_VERSION)
     else Some (Addon_api ex_api))\<rparr>"

definition ex_addons :: "addon_config list" where
  "ex_addons = [(ex_config (bytes ''a'') [])\<lparr>addon_type := bytes ''SharedLibrary''\<rparr>,
     (ex_config (bytes ''b'') (bytes ''a''))\<lparr>addon_type := bytes ''SharedLibrary''\<rparr>]"

definition ex_piped :: fcitx_instance where
  "ex_piped = fcitx_instance_set_signal_pipe 9 ex_instance"

lemma ex_addons_load:
  "map_option loadedAddons (fcitx_addon_manager_load [] ex_addons (setup_addons 1 2 3 ex_library ex_piped)) =
     Some [bytes ''a'', bytes ''b'']"
proof -
  have eq: "setup_addons 1 2 3 ex_library ex_piped = setup_addons 1 2 3 ex_library
      (ex_instance\<lparr>addonManager := fcitx_addon_manager_new, in_enableList := None, in_disableList := None\<rparr>)"
    by (simp add: setup_addons_def ex_piped_def fcitx_instance_set_signal_pipe_def ex_instance_fields)
  show ?thesis unfolding eq by code_simp
qed

lemma ex_loop_run:
  "fcitx_mainloop_register_io_event 9 FIOEF_IN signal_callback False 1 (mainLoop ex_piped) = Some (p, l) \<Longrightarrow>
   \<exists>l'. fcitx_mainloop_run 5 (\<lambda>_. Some) 4 [\<lambda>_ _. Poll_Error] l = Some (Some (- 1), l')"
proof -
  have "(case fcitx_mainloop_new int of None \<Rightarrow> None | Some l \<Rightarrow>
      (case fcitx_mainloop_register_io_event 9 FIOEF_IN signal_callback False 1 l of None \<Rightarrow> None | Some (p, l) \<Rightarrow>
       (case fcitx_mainloop_run 5 (\<lambda>_. Some) 4 [\<lambda>_ _. Poll_Error] l of None \<Rightarrow> None | Some (r, l) \<Rightarrow> r))) = Some (- 1)"
    by code_simp
  moreover have "fcitx_mainloop_new int = Some (mainLoop ex_piped)"
    by (simp add: ex_piped_def fcitx_instance_set_signal_pipe_def ex_instance_fields)
  ultimately show "fcitx_mainloop_register_io_event 9 FIOEF_IN signal_callback False 1 (mainLoop ex_piped) = Some (p, l) \<Longrightarrow> ?thesis"
    by (auto split: option.splits)
qed

lemma new_keeps_slots: "propertySlots (snd (fcitx_input_context_new fe d u m)) = propertySlots m"
  by (auto simp: fcitx_input_context_new_def Let_def upd_ic_def post_def InputContext.log_call_def
      split: list.split option.split)

lemma ex_context:
  "ics (snd (fcitx_input_context_new 7 False [1] (icManager (setup_contexts Suc Suc (\<lambda>_. []) ex_piped)))) \<noteq> []"
proof -
  have "icManager ex_piped = fcitx_input_context_manager_set_event_dispatcher True False fcitx_input_context_manager_new"
    using loop_new_ok [of int]
    by (auto simp: ex_piped_def fcitx_instance_set_signal_pipe_def ex_instance_def fcitx_instance_new_def
        fcitx_instance_arugment_parse_def zero_arguments_def Let_def)
  then have eq: "icManager (setup_contexts Suc Suc (\<lambda>_. []) ex_piped) = icManager (setup_contexts Suc Suc (\<lambda>_. [])
      (ex_instance\<lparr>icManager := fcitx_input_context_manager_set_event_dispatcher True False fcitx_input_context_manager_new\<rparr>))"
    by (simp add: setup_contexts_def split: prod.split)
  show ?thesis unfolding eq by code_simp
qed


end
