(* ===== verification/XimFrontend.thy ===== *)
theory XimFrontend
  imports XcbModule FormatText Instance Utf8_Strings
begin

text \<open>
  The frontend for the X input method protocol, \<open>src/frontend/xim/xim.c\<close>: a server for each connection of
  the X module, whose state it extends, a context for each input context of a client, and the events of
  contexts that are passed back.  The protocol library is an argument; what it keeps for an input context of
  a client is the store \<open>xim_data\<close>.  \<open>None\<close> is the use of \<open>NULL\<close> or of a freed object.
\<close>

section \<open>State\<close>

record xim_server =
  sv_window :: u32
  sv_im :: nat
  sv_id :: int
  sv_conn :: "nat option"
  sv_group :: "nat option"
  sv_name :: cstr
  sv_root :: u32

record xim_ic_data =
  xd_ic :: nat
  xd_server :: nat
  preeditStarted :: bool
  lastPreeditLength :: u32

text \<open>An event as it is forwarded to a client, and the calls of the protocol library.\<close>

record xcb_key_event =
  xk_type :: byte
  xk_detail :: byte
  xk_state :: "16 word"
  xk_time :: u32

record preedit_frame =
  chg_length :: u32
  preedit_string :: "byte list option"
  feedback :: "u32 list"
  frame_status :: nat

datatype xim_call =
    ImForward nat nat xcb_key_event u32 u32
  | ImCommit nat nat cstr
  | ImPreeditStart nat nat
  | ImPreeditDraw nat nat preedit_frame
  | ImPreeditDone nat nat
  | ImClose nat
  | ImDestroy nat
  | ImDestroyWindow nat u32

record fcitx_xim = fcitx_xcb +
  connFilterId :: "nat dict"
  connCreatedId :: int
  connClosedId :: int
  feedbackBuffer :: "(u32, unit) ut_array"
  xi_frontendDataId :: int
  xi_frontendId :: u32
  xim_servers :: "nat \<Rightarrow> xim_server option"
  next_server :: nat
  xim_data :: "nat \<Rightarrow> xim_ic_data option"
  xim_calls :: "xim_call list"

record xim_world =
  xm_modifiers :: "cstr option"
  xm_generate_id :: "nat \<Rightarrow> u32"
  xm_root :: "nat \<Rightarrow> int \<Rightarrow> u32"
  xm_create :: "nat \<Rightarrow> cstr \<Rightarrow> nat"
  xm_open :: "nat \<Rightarrow> bool"
  xm_key_sym :: "nat \<Rightarrow> byte \<Rightarrow> u32"
  xm_focus_window :: "nat \<Rightarrow> u32"
  xm_client_window :: "nat \<Rightarrow> u32"
  xm_compound_text :: "cstr \<Rightarrow> byte list option"

definition XCB_KEY_PRESS :: byte where "XCB_KEY_PRESS = 2"
definition XCB_KEY_RELEASE :: byte where "XCB_KEY_RELEASE = 3"
definition XCB_XIM_REVERSE :: u32 where "XCB_XIM_REVERSE = 1"
definition XCB_XIM_UNDERLINE :: u32 where "XCB_XIM_UNDERLINE = 2"
definition FTFF_UnderLine :: u32 where "FTFF_UnderLine = 1"
definition FTFF_HighLight :: u32 where "FTFF_HighLight = 2"

definition xim_created_id :: nat where "xim_created_id = 5"
definition xim_closed_id :: nat where "xim_closed_id = 6"
definition xim_filter_id :: nat where "xim_filter_id = 7"

definition xim_log :: "xim_call \<Rightarrow> fcitx_xim \<Rightarrow> fcitx_xim" where
  "xim_log c s = s\<lparr>xim_calls := xim_calls s @ [c]\<rparr>"

definition guess_server_name :: "cstr option \<Rightarrow> cstr" where
  "guess_server_name env =
     (case env of
        Some e \<Rightarrow> if fcitx_utils_string_starts_with e (bytes ''@im='') then drop 4 e else bytes ''fcitx''
      | None \<Rightarrow> bytes ''fcitx'')"

section \<open>Requests of clients\<close>

datatype xim_request =
    XIM_CREATE_IC
  | XIM_DESTROY_IC
  | XIM_SET_IC_VALUES
  | XIM_FORWARD_EVENT xcb_key_event
  | XIM_RESET_IC
  | XIM_SET_IC_FOCUS
  | XIM_UNSET_IC_FOCUS
  | XIM_OTHER

definition xim_key_event :: "xim_world \<Rightarrow> nat \<Rightarrow> xcb_key_event \<Rightarrow> key_event" where
  "xim_key_event w xkbState xevent =
     (let k = \<lparr>sym = xm_key_sym w xkbState (xk_detail xevent), state = ucast (xk_state xevent)\<rparr>
      in \<lparr>ke_key = k, rawKey = k, keyCode = uint (xk_detail xevent),
          isRelease = (xk_type xevent AND NOT 0x80 \<noteq> XCB_KEY_RELEASE), ke_time = unat (xk_time xevent)\<rparr>)"

definition with_ic_manager :: "(manager \<Rightarrow> manager) \<Rightarrow> fcitx_xim \<Rightarrow> fcitx_xim" where
  "with_ic_manager f s = s\<lparr>x_icManager := f (x_icManager s)\<rparr>"

text \<open>\<open>v\<close> is the server, \<open>xic\<close> the input context of the client, \<open>answer\<close> that of the dispatcher of the manager
  to a key event, and \<open>u\<close> a new unique id.\<close>

definition xim_callback ::
  "xim_world \<Rightarrow> (ic_event \<Rightarrow> bool) \<Rightarrow> byte list \<Rightarrow> nat \<Rightarrow> nat option \<Rightarrow> xim_request \<Rightarrow> fcitx_xim \<Rightarrow> fcitx_xim option" where
  "xim_callback w answer u v xic req s =
     (case xic of
        None \<Rightarrow> Some s
      | Some xic \<Rightarrow>
          if req = XIM_CREATE_IC then do {
            let (r, m) = fcitx_input_context_new (xi_frontendId s) False u (x_icManager s);
            ic \<leftarrow> r;
            sv \<leftarrow> xim_servers s v;
            let s = s\<lparr>x_icManager := m,
                      xim_data := (xim_data s)(xic \<mapsto> \<lparr>xd_ic = ic, xd_server = v, preeditStarted = False, lastPreeditLength = 0\<rparr>)\<rparr>;
            (_, m) \<leftarrow> fcitx_input_context_set_property ic (xi_frontendDataId s) xic (x_icManager s);
            Some (s\<lparr>x_icManager := fcitx_input_context_set_focus_group ic FICFG_Local (sv_group sv) m\<rparr>) }
          else do {
            icData \<leftarrow> xim_data s xic;
            let ic = xd_ic icData;
            (case req of
               XIM_DESTROY_IC \<Rightarrow> do {
                 m \<leftarrow> fcitx_input_context_destroy ic (x_icManager s);
                 Some (s\<lparr>x_icManager := m\<rparr>) }
             | XIM_FORWARD_EVENT xevent \<Rightarrow> do {
                 sv \<leftarrow> xim_servers s v;
                 st \<leftarrow> fcitx_xcb_get_xkb_state (sv_name sv) s;
                 (case st of
                    None \<Rightarrow> Some s
                  | Some xkbState \<Rightarrow>
                      let (handled, m) = fcitx_input_context_process_key_event answer ic (xim_key_event w xkbState xevent)
                                           (x_icManager s);
                          s = s\<lparr>x_icManager := m\<rparr>
                      in Some (if \<not> handled then xim_log (ImForward (sv_im sv) xic xevent 0 0) s else s)) }
             | XIM_RESET_IC \<Rightarrow> Some (with_ic_manager (fcitx_input_context_reset ic) s)
             | XIM_SET_IC_FOCUS \<Rightarrow> Some (with_ic_manager (fcitx_input_context_focus_in ic) s)
             | XIM_UNSET_IC_FOCUS \<Rightarrow> Some (with_ic_manager (fcitx_input_context_focus_out ic) s)
             | _ \<Rightarrow> Some s) })"

section \<open>Connections\<close>

definition fcitx_xim_on_xcb_connection_created ::
  "xim_world \<Rightarrow> cstr \<Rightarrow> nat \<Rightarrow> int \<Rightarrow> nat option \<Rightarrow> fcitx_xim \<Rightarrow> fcitx_xim option" where
  "fcitx_xim_on_xcb_connection_created w name conn defaultScreen g s =
     (let v = next_server s;
          win = xm_generate_id w conn;
          im = xm_create w conn (guess_server_name (xm_modifiers w));
          sv = \<lparr>sv_window = win, sv_im = im, sv_id = 0, sv_conn = Some conn, sv_group = g, sv_name = name,
                sv_root = xm_root w conn defaultScreen\<rparr>;
          s = s\<lparr>next_server := v + 1\<rparr>
      in if xm_open w im then do {
           (i, s) \<leftarrow> fcitx_xcb_add_event_filter name xim_filter_id v s;
           let s = s\<lparr>xim_servers := (xim_servers s)(v \<mapsto> sv\<lparr>sv_id := i\<rparr>)\<rparr>;
           Some (s\<lparr>connFilterId := snd (fcitx_dict_insert name v False (connFilterId s))\<rparr>) }
         else Some (xim_log (ImDestroyWindow conn win) (xim_log (ImDestroy im) s)))"

definition fcitx_xim_server_destroy :: "nat \<Rightarrow> fcitx_xim \<Rightarrow> fcitx_xim option" where
  "fcitx_xim_server_destroy v s = do {
     sv \<leftarrow> xim_servers s v;
     s \<leftarrow> fcitx_xcb_remove_watcher (sv_id sv) s;
     let s = xim_log (ImDestroy (sv_im sv)) (xim_log (ImClose (sv_im sv)) s);
     let s = (case sv_conn sv of Some conn \<Rightarrow> xim_log (ImDestroyWindow conn (sv_window sv)) s | None \<Rightarrow> s);
     Some (s\<lparr>xim_servers := (xim_servers s)(v := None)\<rparr>) }"

text \<open>An event is given to the protocol library, which calls the handler of requests.\<close>

definition fcitx_xim_xcb_event_fitler ::
  "(nat \<Rightarrow> xcb_event \<Rightarrow> fcitx_xim \<Rightarrow> (bool \<times> fcitx_xim) option) \<Rightarrow> xcb_event \<Rightarrow> nat \<Rightarrow> fcitx_xim \<Rightarrow>
    (bool \<times> fcitx_xim) option" where
  "fcitx_xim_xcb_event_fitler xcb_im_filter_event event v s = do {
     sv \<leftarrow> xim_servers s v;
     xcb_im_filter_event (sv_im sv) event s }"

text \<open>A connection that is found is left alone; for one that is not, the server is \<open>NULL\<close>.\<close>

definition fcitx_xim_on_xcb_connection_closed :: "cstr \<Rightarrow> fcitx_xim \<Rightarrow> fcitx_xim option" where
  "fcitx_xim_on_xcb_connection_closed name s =
     (case fcitx_dict_lookup name (connFilterId s) of Some _ \<Rightarrow> Some s | None \<Rightarrow> None)"

text \<open>The frontend's callbacks among those of the X module: none of the others is the frontend's.\<close>

definition xim_callbacks :: "xim_world \<Rightarrow> unit fcitx_xim_ext xcb_callbacks" where
  "xim_callbacks w =
     \<lparr>created_callback = (\<lambda>p name conn screen g s.
        if cc_callback p = xim_created_id then fcitx_xim_on_xcb_connection_created w name conn screen g s else Some s),
      closed_callback = (\<lambda>p name conn s.
        if cc_callback p = xim_closed_id then fcitx_xim_on_xcb_connection_closed name s else Some s)\<rparr>"

section \<open>Starting and stopping\<close>

definition ut_feedback_icd :: "(u32, unit) ut_icd" where
  "ut_feedback_icd = \<lparr>icd_init = None, icd_copy = None, icd_dtor = None\<rparr>"

text \<open>\<open>fe\<close> is the id of the frontend; the object itself is user data number 0.\<close>

definition fcitx_xim_init :: "xim_world \<Rightarrow> u32 \<Rightarrow> fcitx_xcb \<Rightarrow> fcitx_xim option" where
  "fcitx_xim_init w fe x = do {
     let s = fcitx_xcb.extend x
       \<lparr>connFilterId = fcitx_dict_new True, connCreatedId = 0, connClosedId = 0, feedbackBuffer = utarray_new ut_feedback_icd,
        xi_frontendDataId = fcitx_input_context_manager_lookup_property FCITX_FRONTEND_DATA_PROPERTY (x_icManager x),
        xi_frontendId = fe, xim_servers = (\<lambda>_. None), next_server = 1, xim_data = (\<lambda>_. None), xim_calls = []\<rparr>;
     (i, s) \<leftarrow> fcitx_xcb_on_connection_created (xim_callbacks w) xim_created_id 0 s;
     (j, s) \<leftarrow> fcitx_xcb_on_connection_closed xim_closed_id 0 (s\<lparr>connCreatedId := i\<rparr>);
     Some (s\<lparr>connClosedId := j\<rparr>) }"

text \<open>Freeing the dictionary destroys its servers.\<close>

fun destroy_servers :: "(cstr \<times> nat) list \<Rightarrow> fcitx_xim \<Rightarrow> fcitx_xim option" where
  "destroy_servers [] s = Some s"
| "destroy_servers ((k, v) # rest) s = do {
     d \<leftarrow> HASH_DEL k (connFilterId s);
     s \<leftarrow> fcitx_xim_server_destroy v (s\<lparr>connFilterId := d\<rparr>);
     destroy_servers rest s }"

definition fcitx_xim_destroy :: "fcitx_xim \<Rightarrow> fcitx_xim option" where
  "fcitx_xim_destroy s = do {
     s \<leftarrow> fcitx_xcb_remove_watcher (connCreatedId s) s;
     s \<leftarrow> fcitx_xcb_remove_watcher (connClosedId s) s;
     destroy_servers (items (connFilterId s)) s }"

section \<open>Events for clients\<close>

definition ET_InputContextForwardKey :: u32 where "ET_InputContextForwardKey = ET_InputMethodEventFlag OR 1"
definition ET_InputContextCommitString :: u32 where "ET_InputContextCommitString = ET_InputMethodEventFlag OR 2"
definition ET_InputContextUpdatePreedit :: u32 where "ET_InputContextUpdatePreedit = ET_InputMethodEventFlag OR 4"

text \<open>An event as its views; \<open>xe_preedit\<close> is the preedit text of its context.\<close>

record xim_event =
  xe_type :: u32
  xe_ic :: nat
  xe_key :: key_event
  xe_commit :: cstr
  xe_preedit :: fcitx_text

definition xim_forward_key :: "xim_world \<Rightarrow> nat \<Rightarrow> xim_server \<Rightarrow> key_event \<Rightarrow> fcitx_xim \<Rightarrow> fcitx_xim" where
  "xim_forward_key w xic sv k s =
     (let xcbEvent = \<lparr>xk_type = (if isRelease k then XCB_KEY_PRESS else XCB_KEY_RELEASE), xk_detail = word_of_int (keyCode k),
                      xk_state = ucast (state (rawKey k)), xk_time = word_of_nat (ke_time k)\<rparr>;
          window = (if xm_focus_window w xic = 0 then xm_client_window w xic else xm_focus_window w xic)
      in xim_log (ImForward (sv_im sv) xic xcbEvent (sv_root sv) window) s)"

text \<open>One piece of the preedit text adds its format for each of its characters.\<close>

definition feedback_of :: "u32 \<Rightarrow> u32" where
  "feedback_of fmt =
     (let fb = (if fmt AND FTFF_UnderLine \<noteq> 0 then 0 OR XCB_XIM_UNDERLINE else 0)
      in if fmt AND FTFF_HighLight \<noteq> 0 then fb OR XCB_XIM_REVERSE else fb)"

fun push_feedback :: "nat \<Rightarrow> u32 \<Rightarrow> (u32, unit) ut_array \<Rightarrow> (u32, unit) ut_array option" where
  "push_feedback 0 fb a = Some a"
| "push_feedback (Suc n) fb a = do { (a, _) \<leftarrow> utarray_push_back a fb (); push_feedback n fb a }"

fun feedback_loop :: "fcitx_text \<Rightarrow> nat list \<Rightarrow> (u32, unit) ut_array \<Rightarrow> (u32, unit) ut_array option" where
  "feedback_loop preedit [] a = Some a"
| "feedback_loop preedit (i # rest) a = do {
     fmt \<leftarrow> fcitx_text_get_format preedit i;
     str \<leftarrow> fcitx_text_get_string preedit i;
     strLen \<leftarrow> fcitx_utf8_strlen str;
     a \<leftarrow> push_feedback strLen (feedback_of fmt) a;
     feedback_loop preedit rest a }"

text \<open>The entries at the end that say nothing are removed; the first argument is the length.\<close>

fun trim_feedback :: "nat \<Rightarrow> (u32, unit) ut_array \<Rightarrow> (u32, unit) ut_array option" where
  "trim_feedback 0 a = Some a"
| "trim_feedback (Suc n) a = do {
     k \<leftarrow> utarray_back a;
     fb \<leftarrow> get_slot (ut_d a) k;
     if fb = 0 then do { (a, _) \<leftarrow> utarray_pop_back a (); trim_feedback n a } else Some a }"

definition xim_update_preedit :: "xim_world \<Rightarrow> nat \<Rightarrow> fcitx_text \<Rightarrow> fcitx_xim \<Rightarrow> fcitx_xim option" where
  "xim_update_preedit w xic preedit s = do {
     icData \<leftarrow> xim_data s xic;
     sv \<leftarrow> xim_servers s (xd_server icData);
     buf \<leftarrow> fcitx_text_to_string preedit;
     let str = takeWhile (\<lambda>c. c \<noteq> 0) buf;
     let im = sv_im sv;
     let (icData, s) =
       (if str = [] \<and> preeditStarted icData
        then (icData\<lparr>preeditStarted := False\<rparr>,
              xim_log (ImPreeditDone im xic)
                (xim_log (ImPreeditDraw im xic \<lparr>chg_length = lastPreeditLength icData, preedit_string = None,
                                                feedback = [], frame_status = 1\<rparr>) s))
        else (icData, s));
     let (icData, s) =
       (if str \<noteq> [] \<and> \<not> preeditStarted icData
        then (icData\<lparr>preeditStarted := True\<rparr>, xim_log (ImPreeditStart im xic) s) else (icData, s));
     let s = s\<lparr>xim_data := (xim_data s)(xic \<mapsto> icData)\<rparr>;
     if str = [] then Some s
     else do {
       utf8Length \<leftarrow> fcitx_utf8_strlen str;
       (a, _) \<leftarrow> utarray_clear (feedbackBuffer s) ();
       a \<leftarrow> feedback_loop preedit [0..<fcitx_text_size preedit] a;
       a \<leftarrow> trim_feedback (utarray_len a) a;
       let s = s\<lparr>feedbackBuffer := a\<rparr>;
       (case xm_compound_text w str of
          None \<Rightarrow> Some s
        | Some compoundText \<Rightarrow> do {
            fbs \<leftarrow> read_slots (ut_d a) [0..<utarray_len a];
            let frame = \<lparr>chg_length = lastPreeditLength icData, preedit_string = Some compoundText, feedback = fbs,
                         frame_status = (if utarray_len a \<noteq> 0 then 0 else 2)\<rparr>;
            let s = s\<lparr>xim_data := (xim_data s)(xic \<mapsto> icData\<lparr>lastPreeditLength := word_of_nat utf8Length\<rparr>)\<rparr>;
            Some (xim_log (ImPreeditDraw im xic frame) s) }) } }"

text \<open>The frontend's handler of events.\<close>

definition fcitx_xim_handle_event :: "xim_world \<Rightarrow> xim_event \<Rightarrow> fcitx_xim \<Rightarrow> (bool \<times> fcitx_xim) option" where
  "fcitx_xim_handle_event w e s =
     (if (xe_type e AND ET_EventTypeFlag) \<noteq> ET_InputMethodEventFlag then Some (False, s)
      else do {
        let xic = fcitx_input_context_get_property (xe_ic e) (xi_frontendDataId s) (x_icManager s);
        icData \<leftarrow> xim_data s xic;
        sv \<leftarrow> xim_servers s (xd_server icData);
        s \<leftarrow> (if xe_type e = ET_InputContextForwardKey then Some (xim_forward_key w xic sv (xe_key e) s)
              else if xe_type e = ET_InputContextCommitString then Some (xim_log (ImCommit (sv_im sv) xic (xe_commit e)) s)
              else if xe_type e = ET_InputContextUpdatePreedit then xim_update_preedit w xic (xe_preedit e) s
              else Some s);
        Some (True, s) })"

section \<open>The preedit text of a client\<close>

definition trimmed :: "u32 list \<Rightarrow> u32 list" where
  "trimmed xs = rev (dropWhile (\<lambda>x. x = 0) (rev xs))"

lemma trimmed_snoc [simp]: "trimmed (xs @ [x]) = (if x = 0 then trimmed xs else xs @ [x])" "trimmed [] = []"
  by (simp_all add: trimmed_def)

lemma feedback_icd [simp]:
  "copied ut_feedback_icd p w = (p, w)" "destroyed ut_feedback_icd xs w = w"
  by (simp_all add: copied_def destroyed_def ut_feedback_icd_def)

definition feedbacks :: "(u32, unit) ut_array \<Rightarrow> u32 list \<Rightarrow> bool" where
  "feedbacks a xs \<longleftrightarrow> holds a xs \<and> ut_icd a = ut_feedback_icd"

lemma push_feedback_holds:
  "feedbacks a xs \<Longrightarrow> \<exists>a'. push_feedback n fb a = Some a' \<and> feedbacks a' (xs @ replicate n fb)"
proof (induction n arbitrary: a xs)
  case (Suc n)
  then obtain a' where a': "utarray_push_back a fb () = Some (a', ())" "feedbacks a' (xs @ [fb])"
    using push_back_holds [of a xs fb "()" fb "()"] by (auto simp: feedbacks_def)
  then show ?case using Suc.IH [OF a'(2)] by auto
qed simp

lemma trim_feedback_holds:
  "feedbacks a xs \<Longrightarrow> \<exists>a'. trim_feedback (length xs) a = Some a' \<and> feedbacks a' (trimmed xs)"
proof (induction xs arbitrary: a rule: rev_induct)
  case (snoc x xs)
  then have k: "utarray_back a = Some (length xs)" "get_slot (ut_d a) (length xs) = Some x"
    using holds_get [of a "xs @ [x]" "length xs"] by (auto simp: utarray_back_def feedbacks_def holds_def)
  obtain a' where a': "utarray_pop_back a () = Some (a', ())" "feedbacks a' xs"
    using snoc.prems pop_back_holds [of a xs x "()"] by (auto simp: feedbacks_def)
  show ?case using k a'(1) snoc.IH [OF a'(2)] snoc.prems by simp
qed auto

text \<open>A text as the characters of its pieces with their formats.\<close>

type_synonym styled = "(u32 list \<times> u32) list"

definition pieces :: "styled \<Rightarrow> fcitx_text_string list" where
  "pieces ps = map (\<lambda>(cs, f). \<lparr>piece = utf8 cs, format = f\<rparr>) ps"

definition marks :: "styled \<Rightarrow> u32 list" where
  "marks ps = concat (map (\<lambda>(cs, f). replicate (length cs) (feedback_of f)) ps)"

definition chars :: "styled \<Rightarrow> u32 list" where
  "chars ps = concat (map fst ps)"

lemma length_styled [simp]: "length (pieces ps) = length ps"
  by (simp add: pieces_def)

lemma piece_string: "concat (map piece (pieces ps)) = utf8 (chars ps)"
  by (induction ps) (auto simp: pieces_def chars_def utf8_def)

lemma feedback_loop_holds:
  assumes t: "text_holds t (pieces (front @ ps))" and v: "\<forall>c\<in>set (chars ps). valid_cp c"
    and a: "feedbacks a xs"
  shows "\<exists>a'. feedback_loop t [length front..<length front + length ps] a = Some a' \<and> feedbacks a' (xs @ marks ps)"
  using assms
proof (induction ps arbitrary: front a xs)
  case Nil
  then show ?case by (simp add: marks_def)
next
  case (Cons p ps)
  obtain cs f where p: "p = (cs, f)" by (cases p)
  have at: "text_at t (length front) = Some \<lparr>piece = utf8 cs, format = f\<rparr>"
    using text_at_holds [OF Cons.prems(1), of "length front"] by (simp add: p pieces_def nth_append)
  obtain a' where a': "push_feedback (length cs) (feedback_of f) a = Some a'"
      "feedbacks a' (xs @ replicate (length cs) (feedback_of f))"
    using push_feedback_holds [OF Cons.prems(3)] by blast
  have "\<exists>a''. feedback_loop t [length (front @ [p])..<length (front @ [p]) + length ps] a' = Some a'' \<and>
      feedbacks a'' ((xs @ replicate (length cs) (feedback_of f)) @ marks ps)"
    using Cons.prems by (intro Cons.IH a'(2)) (auto simp: chars_def)
  moreover have "[length front..<length front + length (p # ps)] = length front # [Suc (length front)..<Suc (length front) + length ps]"
    using upt_conv_Cons [of "length front" "length front + length (p # ps)"] by (simp del: upt_Suc)
  moreover have "fcitx_utf8_strlen (utf8 cs) = Some (length cs)"
    using Cons.prems(2) by (intro strlen_utf8) (auto simp: chars_def p)
  ultimately show ?case
    using at a'(1) by (simp add: fcitx_text_get_format_def fcitx_text_get_string_def marks_def p del: upt_Suc)
qed

text \<open>A preedit text is shown to the client with one mark for each of its characters, the formats of the
  pieces, less the empty marks at the end; it is announced first when the client shows none.\<close>

lemma preedit_drawn:
  assumes d: "xim_data s xic = Some d" and sv: "xim_servers s (xd_server d) = Some sv"
    and t: "text_holds t (pieces ps)" and v: "\<forall>c\<in>set (chars ps). valid_cp c" and z: "c_string (utf8 (chars ps))"
    and ne: "chars ps \<noteq> []" and f: "feedbacks (feedbackBuffer s) old"
    and ct: "xm_compound_text w (utf8 (chars ps)) = Some ct"
  shows "\<exists>s'. xim_update_preedit w xic t s = Some s' \<and>
    xim_calls s' = xim_calls s @ (if preeditStarted d then [] else [ImPreeditStart (sv_im sv) xic]) @
      [ImPreeditDraw (sv_im sv) xic \<lparr>chg_length = lastPreeditLength d, preedit_string = Some ct,
         feedback = trimmed (marks ps), frame_status = (if trimmed (marks ps) = [] then 2 else 0)\<rparr>] \<and>
    xim_data s' xic = Some (d\<lparr>preeditStarted := True, lastPreeditLength := word_of_nat (length (chars ps))\<rparr>)"
proof -
  have str: "fcitx_text_to_string t = Some (utf8 (chars ps) @ [0])" "fcitx_text_size t = length ps"
    using text_to_string [OF t] by (simp_all add: piece_string)
  have tw: "takeWhile (\<lambda>c. c \<noteq> 0) (utf8 (chars ps) @ [0]) = utf8 (chars ps)"
    using z by (subst takeWhile_append2) (auto simp: c_string_def)
  obtain a1 where a1: "utarray_clear (feedbackBuffer s) () = Some (a1, ())" "feedbacks a1 []"
    using f clear_holds [of "feedbackBuffer s" old "()"] by (auto simp: feedbacks_def)
  obtain a2 where a2: "feedback_loop t [0..<length ps] a1 = Some a2" "feedbacks a2 (marks ps)"
    using feedback_loop_holds [of t "[]" ps a1 "[]"] t v a1(2) by auto
  have l2: "utarray_len a2 = length (marks ps)" using a2(2) by (simp add: feedbacks_def holds_def utarray_len_def)
  obtain a3 where a3: "trim_feedback (length (marks ps)) a2 = Some a3" "feedbacks a3 (trimmed (marks ps))"
    using trim_feedback_holds [OF a2(2)] by blast
  have l3: "utarray_len a3 = length (trimmed (marks ps))"
    using a3(2) by (simp add: feedbacks_def holds_def utarray_len_def)
  have r3: "read_slots (ut_d a3) [0..<length (trimmed (marks ps))] = Some (trimmed (marks ps))"
    using a3(2) by (auto simp: feedbacks_def holds_def read_slots_run map_nth)
  have n: "fcitx_utf8_strlen (utf8 (chars ps)) = Some (length (chars ps))" using v by (rule strlen_utf8)
  show ?thesis
    using ne by (cases "preeditStarted d")
      (simp_all add: xim_update_preedit_def d sv str tw n a1(1) a2(1) l2 a3(1) l3 r3 ct xim_log_def Let_def)
qed

text \<open>An empty text clears what the client shows, if it shows any.\<close>

lemma preedit_done:
  assumes "xim_data s xic = Some d" "xim_servers s (xd_server d) = Some sv" "text_holds t (pieces ps)" "chars ps = []"
  shows "\<exists>s'. xim_update_preedit w xic t s = Some s' \<and>
    xim_calls s' = xim_calls s @ (if preeditStarted d then
      [ImPreeditDraw (sv_im sv) xic \<lparr>chg_length = lastPreeditLength d, preedit_string = None, feedback = [], frame_status = 1\<rparr>,
       ImPreeditDone (sv_im sv) xic] else []) \<and>
    xim_data s' xic = Some (d\<lparr>preeditStarted := False\<rparr>)"
proof -
  have "fcitx_text_to_string t = Some [0]"
    using text_to_string [OF assms(3)] assms(4) by (simp add: piece_string)
  then show ?thesis using assms(1,2) by (cases d) (auto simp: xim_update_preedit_def xim_log_def Let_def)
qed

section \<open>What goes wrong\<close>

text \<open>The handler of events passes nothing on: the mask of categories has no bit of theirs.\<close>

lemma xim_passes_nothing: "fcitx_xim_handle_event w e s = Some (False, s)"
proof -
  have "xe_type e AND ET_EventTypeFlag \<noteq> ET_InputMethodEventFlag"
    using category_no_flag [of "xe_type e"] by (auto simp: ET_InputMethodEventFlag_def)
  then show ?thesis by (simp add: fcitx_xim_handle_event_def)
qed

text \<open>Presses reach the contexts as releases and the other way round; the way back inverts them again.\<close>

lemma press_is_release:
  "xk_type e = XCB_KEY_PRESS \<Longrightarrow> isRelease (xim_key_event w x e)"
  "xk_type e = XCB_KEY_RELEASE \<Longrightarrow> \<not> isRelease (xim_key_event w x e)"
  by (simp_all add: xim_key_event_def XCB_KEY_PRESS_def XCB_KEY_RELEASE_def Let_def)

text \<open>A closed connection that has a server leaves it registered; for one without, the handler goes through
  \<open>NULL\<close>.\<close>

lemma closed_keeps_server:
  "fcitx_dict_lookup name (connFilterId s) = Some v \<Longrightarrow> fcitx_xim_on_xcb_connection_closed name s = Some s"
  "fcitx_dict_lookup name (connFilterId s) = None \<Longrightarrow> fcitx_xim_on_xcb_connection_closed name s = None"
  by (simp_all add: fcitx_xim_on_xcb_connection_closed_def)

text \<open>The length to replace is kept when the preedit is done: the next one replaces characters of a text that
  was cleared.\<close>

lemma stale_length:
  assumes "xim_data s xic = Some d" "xim_servers s (xd_server d) = Some sv" "text_holds t (pieces ps)" "chars ps = []"
    "lastPreeditLength d \<noteq> 0" "preeditStarted d"
  shows "\<exists>s' d'. xim_update_preedit w xic t s = Some s' \<and> xim_data s' xic = Some d' \<and> \<not> preeditStarted d' \<and>
    lastPreeditLength d' \<noteq> 0"
  using preedit_done [OF assms(1-4), of w] assms(5) by auto

end
