(* ===== verification/DBusModule.thy ===== *)
theory DBusModule
  imports MainLoop CString
begin

text \<open>
  The message bus module, \<open>src/module/dbus/dbusmodule.c\<close>: the watches and timeouts of the bus library on
  the main loop, the requests for the connection and the name, and the names that are watched, with the
  match rules installed for them.  The bus library is an argument: what it asks for, what it answers, the
  messages it delivers.  \<open>None\<close> is the use of a freed or moved object.
\<close>

section \<open>State\<close>

record watch_notify =
  nt_data :: nat
  nt_destroy :: bool
  nt_func :: nat

record fcitx_dbus =
  db_loop :: mainloop
  db_shutdown :: bool
  wakeup_main :: "nat option"
  objectRegistered :: bool
  handler :: "(cstr, watch_notify) handler_table"
  match_rules :: "cstr list"
  watch_data :: "nat \<Rightarrow> (int \<times> nat) option"
  timeout_data :: "nat \<Rightarrow> nat option"
  instance_shutdown :: bool
  destroyed_data :: "nat list"
  notified :: "(nat \<times> cstr \<times> cstr \<times> cstr) list"

text \<open>A watch of the bus library.\<close>

record dbus_watch =
  w_enabled :: bool
  w_flags :: u32
  w_fd :: int

definition DBUS_WATCH_READABLE :: u32 where "DBUS_WATCH_READABLE = 1"
definition DBUS_WATCH_WRITABLE :: u32 where "DBUS_WATCH_WRITABLE = 2"
definition DBUS_WATCH_ERROR :: u32 where "DBUS_WATCH_ERROR = 4"
definition DBUS_WATCH_HANGUP :: u32 where "DBUS_WATCH_HANGUP = 8"

text \<open>The callbacks registered with the loop.\<close>

definition watch_callback :: nat where "watch_callback = 1"
definition timeout_callback :: nat where "timeout_callback = 2"
definition dispatch_callback :: nat where "dispatch_callback = 3"

section \<open>Watches and timeouts\<close>

definition fcitx_dbus_watch_callback :: "(nat \<Rightarrow> u32 \<Rightarrow> 's \<Rightarrow> 's) \<Rightarrow> u32 \<Rightarrow> nat \<Rightarrow> 's \<Rightarrow> 's" where
  "fcitx_dbus_watch_callback dbus_watch_handle flag watch =
     (let dflag = (if flag AND FIOEF_IN \<noteq> 0 then DBUS_WATCH_READABLE else 0)
           OR (if flag AND FIOEF_OUT \<noteq> 0 then DBUS_WATCH_WRITABLE else 0)
           OR (if flag AND FIOEF_ERR \<noteq> 0 then DBUS_WATCH_ERROR else 0)
           OR (if flag AND FIOEF_HUP \<noteq> 0 then DBUS_WATCH_HANGUP else 0)
      in dbus_watch_handle watch dflag)"

definition fcitx_dbus_watch_remove_notify :: "nat \<Rightarrow> 's fcitx_dbus_scheme \<Rightarrow> 's fcitx_dbus_scheme" where
  "fcitx_dbus_watch_remove_notify watch s = s\<lparr>watch_data := (watch_data s)(watch := None)\<rparr>"

text \<open>The notifies of a changed loop.\<close>

fun loop_notify :: "loop_call \<Rightarrow> 's fcitx_dbus_scheme \<Rightarrow> 's fcitx_dbus_scheme" where
  "loop_notify (Destroyed u) s = fcitx_dbus_watch_remove_notify u s"
| "loop_notify c s = s"

definition put_loop :: "mainloop \<Rightarrow> 's fcitx_dbus_scheme \<Rightarrow> 's fcitx_dbus_scheme" where
  "put_loop m s = (fold loop_notify (drop (length (calls (db_loop s))) (calls m)) s)\<lparr>db_loop := m\<rparr>"

definition io_flags :: "u32 \<Rightarrow> u32" where
  "io_flags flags =
     (let fflag = 0;
          fflag = (if flags AND DBUS_WATCH_READABLE \<noteq> 0 then fflag OR FIOEF_IN else fflag);
          fflag = (if flags AND DBUS_WATCH_WRITABLE \<noteq> 0 then fflag OR FIOEF_OUT else fflag)
      in fflag OR (FIOEF_ERR OR FIOEF_HUP))"

definition fcitx_dbus_add_dbus_watch :: "nat \<Rightarrow> dbus_watch \<Rightarrow> 's fcitx_dbus_scheme \<Rightarrow> (bool \<times> 's fcitx_dbus_scheme) option" where
  "fcitx_dbus_add_dbus_watch watch w s =
     (if \<not> w_enabled w then Some (True, s)
      else do {
        (event, m) \<leftarrow> fcitx_mainloop_register_io_event (w_fd w) (io_flags (w_flags w)) watch_callback True watch (db_loop s);
        let s = put_loop m s;
        Some (True, s\<lparr>watch_data := (watch_data s)(watch \<mapsto> event)\<rparr>) })"

definition fcitx_dbus_remove_dbus_watch :: "nat \<Rightarrow> 's fcitx_dbus_scheme \<Rightarrow> 's fcitx_dbus_scheme option" where
  "fcitx_dbus_remove_dbus_watch watch s =
     (case watch_data s watch of
        None \<Rightarrow> Some s
      | Some event \<Rightarrow> do {
          m \<leftarrow> fcitx_mainloop_remove_io_event event (db_loop s);
          Some (put_loop m s) })"

definition fcitx_dbus_toggle_dbus_watch :: "nat \<Rightarrow> dbus_watch \<Rightarrow> 's fcitx_dbus_scheme \<Rightarrow> 's fcitx_dbus_scheme option" where
  "fcitx_dbus_toggle_dbus_watch watch w s =
     (if w_enabled w then map_option snd (fcitx_dbus_add_dbus_watch watch w s)
      else fcitx_dbus_remove_dbus_watch watch s)"

text \<open>No notify is registered for the event of a timeout.\<close>

definition fcitx_dbus_add_timeout :: "nat \<Rightarrow> bool \<Rightarrow> u32 \<Rightarrow> 's fcitx_dbus_scheme \<Rightarrow> (bool \<times> 's fcitx_dbus_scheme) option" where
  "fcitx_dbus_add_timeout timeout enabled interval s =
     (if \<not> enabled then Some (True, s)
      else do {
        (event, m) \<leftarrow> fcitx_mainloop_register_timeout_event interval True timeout_callback False timeout (db_loop s);
        let s = put_loop m s;
        Some (True, s\<lparr>timeout_data := (timeout_data s)(timeout \<mapsto> event)\<rparr>) })"

definition fcitx_dbus_remove_timeout :: "nat \<Rightarrow> 's fcitx_dbus_scheme \<Rightarrow> 's fcitx_dbus_scheme option" where
  "fcitx_dbus_remove_timeout timeout s =
     (case timeout_data s timeout of
        None \<Rightarrow> Some s
      | Some event \<Rightarrow> do {
          m \<leftarrow> fcitx_mainloop_remove_timeout_event event (db_loop s);
          Some (put_loop m s) })"

definition fcitx_dbus_toggle_timeout :: "nat \<Rightarrow> bool \<Rightarrow> u32 \<Rightarrow> 's fcitx_dbus_scheme \<Rightarrow> 's fcitx_dbus_scheme option" where
  "fcitx_dbus_toggle_timeout timeout enabled interval s =
     (if enabled then map_option snd (fcitx_dbus_add_timeout timeout enabled interval s)
      else fcitx_dbus_remove_timeout timeout s)"

text \<open>A dispatch of the connection takes one message off its queue; it says that data remains while
  there are more.\<close>

fun dispatch_messages :: "('m \<Rightarrow> 's fcitx_dbus_scheme \<Rightarrow> 's fcitx_dbus_scheme option) \<Rightarrow> 'm list \<Rightarrow> 's fcitx_dbus_scheme \<Rightarrow> 's fcitx_dbus_scheme option" where
  "dispatch_messages deliver [] s = Some s"
| "dispatch_messages deliver (msg # queue) s = do { s \<leftarrow> deliver msg s; dispatch_messages deliver queue s }"

definition fcitx_dbus_dispatch :: "('m \<Rightarrow> 's fcitx_dbus_scheme \<Rightarrow> 's fcitx_dbus_scheme option) \<Rightarrow> 'm list \<Rightarrow> 's fcitx_dbus_scheme \<Rightarrow> 's fcitx_dbus_scheme option" where
  "fcitx_dbus_dispatch deliver queue s = dispatch_messages deliver queue (s\<lparr>wakeup_main := None\<rparr>)"

definition fcitx_dbus_wakeup_main :: "nat \<Rightarrow> 's fcitx_dbus_scheme \<Rightarrow> 's fcitx_dbus_scheme option" where
  "fcitx_dbus_wakeup_main data s =
     (if db_shutdown s then Some s
      else do {
        (event, m) \<leftarrow> fcitx_mainloop_register_timeout_event 0 False dispatch_callback False data (db_loop s);
        Some ((put_loop m s)\<lparr>wakeup_main := Some event\<rparr>) })"

text \<open>What the bus library answers to the filter and to the two sets of functions.\<close>

definition fcitx_dbus_setup_connection :: "bool \<Rightarrow> bool \<Rightarrow> bool \<Rightarrow> bool" where
  "fcitx_dbus_setup_connection add_filter set_watch_functions set_timeout_functions =
     (if \<not> add_filter then False
      else if \<not> set_watch_functions then False
      else if \<not> set_timeout_functions then False
      else True)"

section \<open>Watched names\<close>

definition quoted :: "cstr \<Rightarrow> cstr" where
  "quoted s = 39 # s @ [39]"

definition match_rule :: "cstr \<Rightarrow> cstr" where
  "match_rule name =
     bytes ''type='' @ quoted (bytes ''signal'') @
     bytes '',sender='' @ quoted (bytes ''org.freedesktop.DBus'') @
     bytes '',interface='' @ quoted (bytes ''org.freedesktop.DBus'') @
     bytes '',path='' @ quoted (bytes ''/org/freedesktop/DBus'') @
     bytes '',member='' @ quoted (bytes ''NameOwnerChanged'') @
     bytes '',arg0='' @ quoted name"

definition fcitx_dbus_add_match :: "cstr \<Rightarrow> 's fcitx_dbus_scheme \<Rightarrow> 's fcitx_dbus_scheme" where
  "fcitx_dbus_add_match name s = s\<lparr>match_rules := match_rules s @ [match_rule name]\<rparr>"

definition fcitx_dbus_remove_match :: "cstr \<Rightarrow> 's fcitx_dbus_scheme \<Rightarrow> 's fcitx_dbus_scheme" where
  "fcitx_dbus_remove_match name s = s\<lparr>match_rules := remove1 (match_rule name) (match_rules s)\<rparr>"

definition fcitx_dbus_watch_name_notify_free :: "watch_notify \<Rightarrow> 's fcitx_dbus_scheme \<Rightarrow> 's fcitx_dbus_scheme" where
  "fcitx_dbus_watch_name_notify_free notify s =
     (if nt_destroy notify then s\<lparr>destroyed_data := destroyed_data s @ [nt_data notify]\<rparr> else s)"

fun table_callback :: "(cstr, watch_notify) handler_event \<Rightarrow> 's fcitx_dbus_scheme \<Rightarrow> 's fcitx_dbus_scheme" where
  "table_callback (KeyInit k) s = fcitx_dbus_add_match k s"
| "table_callback (KeyFree k) s = fcitx_dbus_remove_match k s"
| "table_callback (ObjFree n) s = fcitx_dbus_watch_name_notify_free n s"

definition put_table :: "(cstr, watch_notify) handler_table \<Rightarrow> 's fcitx_dbus_scheme \<Rightarrow> 's fcitx_dbus_scheme" where
  "put_table t s = (fold table_callback (drop (length (events (handler s))) (events t)) s)\<lparr>handler := t\<rparr>"

definition fcitx_dbus_watch_name :: "cstr \<Rightarrow> nat \<Rightarrow> bool \<Rightarrow> nat \<Rightarrow> 's fcitx_dbus_scheme \<Rightarrow> (int \<times> 's fcitx_dbus_scheme) option" where
  "fcitx_dbus_watch_name name func destroy data s = do {
     (i, t) \<leftarrow> fcitx_handler_table_append name \<lparr>nt_data = data, nt_destroy = destroy, nt_func = func\<rparr> (handler s);
     Some (i, put_table t s) }"

definition fcitx_dbus_remove_watch :: "int \<Rightarrow> 's fcitx_dbus_scheme \<Rightarrow> 's fcitx_dbus_scheme option" where
  "fcitx_dbus_remove_watch i s = do {
     t \<leftarrow> fcitx_handler_table_remove_by_id_full i (handler s);
     Some (put_table t s) }"

section \<open>Messages\<close>

datatype bus_message =
    Disconnected
  | NameLost "cstr option"
  | NameOwnerChanged "(cstr \<times> cstr \<times> cstr) option"
  | OtherMessage

type_synonym 's name_callback = "watch_notify \<Rightarrow> cstr \<Rightarrow> cstr \<Rightarrow> cstr \<Rightarrow> 's fcitx_dbus_scheme \<Rightarrow> 's fcitx_dbus_scheme option"

text \<open>A pointer to a notify is its id with the capacity of the pool it lies in.\<close>

definition notify_pointer :: "int \<Rightarrow> 's fcitx_dbus_scheme \<Rightarrow> int \<times> nat" where
  "notify_pointer i s = (i, length (heads (objs (handler s))))"

definition notify_get :: "int \<times> nat \<Rightarrow> 's fcitx_dbus_scheme \<Rightarrow> watch_notify option" where
  "notify_get p s =
     (if snd p = length (heads (objs (handler s)))
      then map_option obj_data (fcitx_handler_table_get_obj (fst p) (handler s)) else None)"

definition notify_next :: "int \<times> nat \<Rightarrow> 's fcitx_dbus_scheme \<Rightarrow> (int \<times> nat) option option" where
  "notify_next p s =
     (if snd p = length (heads (objs (handler s)))
      then do {
        n \<leftarrow> fcitx_handler_table_next (fst p) (handler s);
        Some (map_option (\<lambda>i. notify_pointer i s) n) }
      else None)"

text \<open>The loop over the watches of a name; the fuel bounds them.\<close>

fun notify_loop :: "nat \<Rightarrow> 's name_callback \<Rightarrow> cstr \<Rightarrow> cstr \<Rightarrow> cstr \<Rightarrow> (int \<times> nat) option \<Rightarrow> 's fcitx_dbus_scheme \<Rightarrow> 's fcitx_dbus_scheme option" where
  "notify_loop 0 func service oldowner newowner notify s = None"
| "notify_loop (Suc n) func service oldowner newowner notify s =
     (case notify of
        None \<Rightarrow> Some s
      | Some p \<Rightarrow> do {
          nt \<leftarrow> notify_get p s;
          s \<leftarrow> func nt service oldowner newowner
                (s\<lparr>notified := notified s @ [(nt_data nt, service, oldowner, newowner)]\<rparr>);
          notify \<leftarrow> notify_next p s;
          notify_loop n func service oldowner newowner notify s })"

text \<open>With the bound for a table that does not grow.\<close>

definition fcitx_dbus_filter :: "'s name_callback \<Rightarrow> bus_message \<Rightarrow> 's fcitx_dbus_scheme \<Rightarrow> (bool \<times> 's fcitx_dbus_scheme) option" where
  "fcitx_dbus_filter func msg s =
     (case msg of
        Disconnected \<Rightarrow> Some (True, s\<lparr>instance_shutdown := True\<rparr>)
      | NameLost (Some name) \<Rightarrow>
          if strcmp name (bytes ''org.fcitx.Fcitx'') = 0 then Some (True, s\<lparr>instance_shutdown := True\<rparr>)
          else Some (False, s)
      | NameOwnerChanged (Some (service, oldowner, newowner)) \<Rightarrow>
          (case fcitx_handler_table_first service (handler s) of
             None \<Rightarrow> Some (False, s)
           | Some i \<Rightarrow> do {
               s \<leftarrow> notify_loop (chain_fuel (handler s)) func service oldowner newowner
                     (Some (notify_pointer i s)) s;
               Some (True, s) })
      | _ \<Rightarrow> Some (False, s))"

datatype controller_call = Introspect | Exit | OtherCall

text \<open>Whether a reply is sent, and the result.\<close>

definition fcitx_dbus_controller_handler :: "controller_call \<Rightarrow> 's fcitx_dbus_scheme \<Rightarrow> bool \<times> bool \<times> 's fcitx_dbus_scheme" where
  "fcitx_dbus_controller_handler msg s =
     (case msg of
        Introspect \<Rightarrow> (True, True, s)
      | Exit \<Rightarrow> (True, True, s\<lparr>instance_shutdown := True\<rparr>)
      | OtherCall \<Rightarrow> (False, False, s))"

section \<open>Starting and stopping\<close>

definition RETRY_INTERVAL :: nat where "RETRY_INTERVAL = 1"
definition MAX_RETRY_TIMES :: nat where "MAX_RETRY_TIMES = 5"

text \<open>The attempts to get the connection, by their number: whether there is one, and the pauses.\<close>

function connect_loop :: "(nat \<Rightarrow> bool) \<Rightarrow> nat \<Rightarrow> bool \<times> nat list" where
  "connect_loop bus_get retry =
     (if \<not> bus_get retry \<and> retry < MAX_RETRY_TIMES
      then let (conn, pauses) = connect_loop bus_get (retry + 1)
           in (conn, RETRY_INTERVAL * (retry + 1) # pauses)
      else (bus_get retry, []))"
  by pat_completeness auto
termination by (relation "measure (\<lambda>(f, retry). MAX_RETRY_TIMES - retry)") auto

declare connect_loop.simps [simp del]

text \<open>The requests for the name, by their number: whether it is owned, and the number of requests.\<close>

fun request_loop :: "(nat \<Rightarrow> bool) \<Rightarrow> nat \<Rightarrow> nat \<Rightarrow> bool \<times> nat" where
  "request_loop is_owner countdown n =
     (if is_owner n then (True, n + 1)
      else case countdown of 0 \<Rightarrow> (False, n + 1) | Suc k \<Rightarrow> request_loop is_owner k (n + 1))"

declare request_loop.simps [simp del]

text \<open>Closing the connection; what is left is the loop, the notifies and the rules.\<close>

definition fcitx_dbus_destroy :: "'s fcitx_dbus_scheme \<Rightarrow> 's fcitx_dbus_scheme option" where
  "fcitx_dbus_destroy s = do {
     let s = s\<lparr>db_shutdown := True\<rparr>;
     es \<leftarrow> fcitx_handler_table_free (handler s);
     let s = fold table_callback (drop (length (events (handler s))) es) s;
     let s = (if objectRegistered s then s\<lparr>objectRegistered := False\<rparr> else s);
     (case wakeup_main s of
        None \<Rightarrow> Some s
      | Some event \<Rightarrow> do {
          m \<leftarrow> fcitx_mainloop_remove_timeout_event event (db_loop s);
          Some (put_loop m s) }) }"

text \<open>What starting depends on.\<close>

record bus_world =
  display :: bool
  session_address :: bool
  bus_get_private :: "nat \<Rightarrow> bool"
  setup_answers :: "bool \<times> bool \<times> bool"
  try_replace :: bool
  owns_name :: "nat \<Rightarrow> bool"
  registers :: bool

text \<open>The module, if it starts, or what is left of it.\<close>

datatype start = Started fcitx_dbus | No_Connection | Failed fcitx_dbus

definition fcitx_dbus_init :: "bus_world \<Rightarrow> mainloop \<Rightarrow> start option" where
  "fcitx_dbus_init w m = do {
     t \<leftarrow> fcitx_handler_table_new_with_keydata 24 True True True;
     let s = \<lparr>db_loop = m, db_shutdown = False, wakeup_main = None, objectRegistered = False, handler = t,
              match_rules = [], watch_data = (\<lambda>_. None), timeout_data = (\<lambda>_. None), instance_shutdown = False,
              destroyed_data = [], notified = []\<rparr>;
     if \<not> display w \<and> \<not> session_address w then Some No_Connection
     else if \<not> fst (connect_loop (bus_get_private w) 0) then Some No_Connection
     else
       let (f, g, h) = setup_answers w in
       if \<not> fcitx_dbus_setup_connection f g h then map_option Failed (fcitx_dbus_destroy s)
       else if \<not> fst (request_loop (owns_name w) (if try_replace w then 3 else 0) 0)
       then map_option Failed (fcitx_dbus_destroy (s\<lparr>instance_shutdown := True\<rparr>))
       else Some (Started (s\<lparr>objectRegistered := registers w\<rparr>)) }"

section \<open>What removing an object leaves alone\<close>

definition leaves :: "int \<Rightarrow> ('k, 'a) handler_table \<Rightarrow> ('k, 'a) handler_table \<Rightarrow> bool" where
  "leaves i t t' \<longleftrightarrow> same_env t t' \<and> length (heads (objs t')) = length (heads (objs t)) \<and>
     data_of t' = data_of t \<and> map_option obj_next (cells t' i) = map_option obj_next (cells t i)"

lemma leaves_refl [simp]: "leaves i t t"
  by (simp add: leaves_def)

lemma leaves_trans: "leaves i t u \<Longrightarrow> leaves i u v \<Longrightarrow> leaves i t v"
  by (simp add: leaves_def same_env_def)

lemma get_obj_cell: "fcitx_handler_table_get_obj i t = Some ob \<Longrightarrow> cells t i = Some ob"
  by (simp add: fcitx_handler_table_get_obj_def split: if_splits)

lemma data_of_put: "cells t j = Some ob \<Longrightarrow> obj_data ob' = obj_data ob \<Longrightarrow> data_of (put_obj j ob' t) = data_of t"
  by (auto simp: data_of_def)

lemma leaves_put_key: "leaves i t (put_key k h t)"
  by (simp add: leaves_def data_of_def fun_eq_iff)

lemma leaves_simple:
  "set_next_id j v t = Some t' \<Longrightarrow> j \<noteq> i \<Longrightarrow> leaves i t t'" "set_prev_id j v t = Some t' \<Longrightarrow> leaves i t t'"
  "set_first_id k v t = Some t' \<Longrightarrow> leaves i t t'" "set_last_id k v t = Some t' \<Longrightarrow> leaves i t t'"
  by (auto simp: set_next_id_def set_prev_id_def set_first_id_def set_last_id_def bind_eq_Some_conv
      leaves_put_key intro: data_of_put dest!: get_obj_cell)
    (auto simp: leaves_def intro: data_of_put)

lemma leaves_log: "leaves i t (log_event b e t)"
  by (simp add: leaves_def data_of_def fun_eq_iff)

lemma free_id_length: "fcitx_obj_pool_free_id i p = Some (r, p') \<Longrightarrow> length (heads p') = length (heads p)"
  by (auto simp: fcitx_obj_pool_free_id_def Let_def split: if_splits)

lemma leaves_release: "pool_release j t = Some t' \<Longrightarrow> leaves i t t'"
  by (auto simp: pool_release_def bind_eq_Some_conv leaves_def data_of_def fun_eq_iff dest: free_id_length)

lemma leaves_remove:
  assumes "fcitx_handler_table_remove_by_id i t = Some t'" and "cells t i = Some ob" and "obj_prev ob \<noteq> i"
  shows "leaves i t t'"
proof (cases "i = INVALID")
  case True
  then show ?thesis using assms(1) by (simp add: fcitx_handler_table_remove_by_id_def)
next
  case False
  with assms obtain t1 t2 where
    t1: "(if obj_prev ob = INVALID then set_first_id (obj_key ob) (obj_next ob) t
          else set_next_id (obj_prev ob) (obj_next ob) t) = Some t1" and
    t2: "(if obj_next ob = INVALID then set_last_id (obj_key ob) (obj_prev ob) t1
          else set_prev_id (obj_next ob) (obj_prev ob) t1) = Some t2" and
    t': "pool_release i (log_event (has_free_func t2) (ObjFree (obj_data ob)) t2) = Some t'"
    by (auto simp: fcitx_handler_table_remove_by_id_def bind_eq_Some_conv Let_def dest!: get_obj_cell)
  have "leaves i t t1" using t1 assms(3) by (auto split: if_splits intro: leaves_simple)
  moreover have "leaves i t1 t2" using t2 by (auto split: if_splits intro: leaves_simple)
  ultimately show ?thesis using leaves_log leaves_release[OF t'] by (blast intro: leaves_trans)
qed

lemma leaves_chain:
  fixes t :: "('k, 'a) handler_table"
  shows "free_chain_loop n j t = Some t' \<Longrightarrow> leaves i t t'"
proof (induction n arbitrary: j t)
  case (Suc n)
  show ?case
  proof (cases "j = INVALID")
    case False
    with Suc.prems obtain ob :: "('k, 'a) handler_obj" and t1 where
      "pool_release j (log_event (has_free_func t) (ObjFree (obj_data ob)) t) = Some t1"
      "free_chain_loop n (obj_next ob) t1 = Some t'"
      by (fastforce simp: bind_eq_Some_conv Let_def)
    then show ?thesis using leaves_trans[OF leaves_log leaves_trans[OF leaves_release Suc.IH]] by blast
  qed (use Suc.prems in simp)
qed simp

lemma leaves_free_key: "fcitx_handler_table_free_key n k t = Some t' \<Longrightarrow> leaves i t t'"
proof -
  assume "fcitx_handler_table_free_key n k t = Some t'"
  then obtain j t1 where "free_chain_loop n j t = Some t1"
    "t' = log_event (has_key_free t1) (KeyFree k) (t1\<lparr>keys := AList.delete k (keys t1)\<rparr>)"
    by (auto simp: fcitx_handler_table_free_key_def bind_eq_Some_conv Let_def)
  moreover have "leaves i t1 (t1\<lparr>keys := AList.delete k (keys t1)\<rparr>)"
    by (simp add: leaves_def same_env_def data_of_def fun_eq_iff)
  moreover have "leaves i (t1\<lparr>keys := AList.delete k (keys t1)\<rparr>)
      (log_event (has_key_free t1) (KeyFree k) (t1\<lparr>keys := AList.delete k (keys t1)\<rparr>))" by (rule leaves_log)
  ultimately show ?thesis using leaves_chain by (blast intro: leaves_trans)
qed

lemma leaves_full:
  assumes "fcitx_handler_table_remove_by_id_full i t = Some t'" and "cells t i = Some ob" and "obj_prev ob \<noteq> i"
  shows "leaves i t t'"
proof -
  obtain kp where kp: "fcitx_handler_table_get_key_by_id i t = Some kp"
    using assms(1) by (cases "fcitx_handler_table_get_key_by_id i t") (simp_all add: fcitx_handler_table_remove_by_id_full_def)
  obtain t1 where t1: "fcitx_handler_table_remove_by_id i t = Some t1"
    using assms(1) kp by (cases "fcitx_handler_table_remove_by_id i t") (simp_all add: fcitx_handler_table_remove_by_id_full_def)
  obtain e where e: "fcitx_handler_key_is_empty kp t1 = Some e"
    using assms(1) kp t1 by (cases "fcitx_handler_key_is_empty kp t1") (simp_all add: fcitx_handler_table_remove_by_id_full_def)
  have "t' = t1 \<or> (\<exists>k. fcitx_handler_table_free_key (chain_fuel t1) k t1 = Some t')"
  proof -
    have "(if e then Option.bind kp (\<lambda>k. fcitx_handler_table_free_key (chain_fuel t1) k t1) else Some t1) = Some t'"
      using assms(1) by (simp add: fcitx_handler_table_remove_by_id_full_def kp t1 e)
    then show ?thesis by (cases kp; cases e) auto
  qed
  then show ?thesis
  proof
    assume "\<exists>k. fcitx_handler_table_free_key (chain_fuel t1) k t1 = Some t'"
    then obtain k where k: "fcitx_handler_table_free_key (chain_fuel t1) k t1 = Some t'" by blast
    show ?thesis by (rule leaves_trans[OF leaves_remove[OF t1 assms(2,3)] leaves_free_key[OF k]])
  qed (use leaves_remove[OF t1 assms(2,3)] in simp)
qed

section \<open>The rules of the watched names\<close>

definition watch_ok :: "'s fcitx_dbus_scheme \<Rightarrow> (cstr \<Rightarrow> int list) \<Rightarrow> bool" where
  "watch_ok s c \<longleftrightarrow> handler_ok (handler s) c \<and>
     has_free_func (handler s) \<and> has_key_init (handler s) \<and> has_key_free (handler s) \<and>
     match_rules s = map match_rule (map fst (keys (handler s))) \<and>
     (\<forall>k. k \<in> set (map fst (keys (handler s))) \<longleftrightarrow> c k \<noteq> [])"

lemma match_rule_inj: "match_rule a = match_rule b \<longleftrightarrow> a = b"
  by (simp add: match_rule_def quoted_def)

lemma table_callback_frame [simp]:
  "handler (fold table_callback es s) = handler s" "notified (fold table_callback es s) = notified s"
  "watch_data (fold table_callback es s) = watch_data s" "timeout_data (fold table_callback es s) = timeout_data s"
  "db_loop (fold table_callback es s) = db_loop s" "wakeup_main (fold table_callback es s) = wakeup_main s"
  "db_shutdown (fold table_callback es s) = db_shutdown s"
  "objectRegistered (fold table_callback es s) = objectRegistered s"
  "instance_shutdown (fold table_callback es s) = instance_shutdown s"
proof -
  have one: "handler (table_callback e s) = handler s \<and> notified (table_callback e s) = notified s \<and>
      watch_data (table_callback e s) = watch_data s \<and> timeout_data (table_callback e s) = timeout_data s \<and>
      db_loop (table_callback e s) = db_loop s \<and> wakeup_main (table_callback e s) = wakeup_main s \<and>
      db_shutdown (table_callback e s) = db_shutdown s \<and> objectRegistered (table_callback e s) = objectRegistered s \<and>
      instance_shutdown (table_callback e s) = instance_shutdown s" for e and s
    by (cases e) (auto simp: fcitx_dbus_add_match_def fcitx_dbus_remove_match_def fcitx_dbus_watch_name_notify_free_def)
  show "handler (fold table_callback es s) = handler s" "notified (fold table_callback es s) = notified s"
    "watch_data (fold table_callback es s) = watch_data s" "timeout_data (fold table_callback es s) = timeout_data s"
    "db_loop (fold table_callback es s) = db_loop s" "wakeup_main (fold table_callback es s) = wakeup_main s"
    "db_shutdown (fold table_callback es s) = db_shutdown s"
    "objectRegistered (fold table_callback es s) = objectRegistered s"
    "instance_shutdown (fold table_callback es s) = instance_shutdown s"
    by (induction es arbitrary: s) (simp_all add: one)
qed

text \<open>Appending, with the key and its callback.\<close>

lemma table_append_rules:
  assumes ok: "handler_ok t c" and room: "pool_room (objs t)" and ki: "has_key_init t"
    and live: "\<forall>k. k \<in> set (map fst (keys t)) \<longleftrightarrow> c k \<noteq> []"
  shows "\<exists>i t'. fcitx_handler_table_append k a t = Some (i, t') \<and> i \<notin> ids_live t \<and>
    handler_ok t' (c(k := c k @ [i])) \<and> same_env t t' \<and> data_of t' i = Some a \<and>
    (\<forall>j \<in> ids_live t. data_of t' j = data_of t j) \<and>
    map fst (keys t') = map fst (keys t) @ (if c k = [] then [k] else []) \<and>
    events t' = events t @ (if c k = [] then [KeyInit k] else [])"
proof -
  obtain t1 h where t1: "fcitx_handler_table_find_key k True t = (Some k, t1)" "handler_ok t1 c"
    "get_key k t1 = Some h" "objs t1 = objs t" "cells t1 = cells t" "same_env t t1"
    using find_key_ok [OF ok, of k] by blast
  have "get_key k t = None \<longleftrightarrow> c k = []"
    using live by (simp add: get_key_def map_of_eq_None_iff)
  then have new: "map fst (keys t1) = map fst (keys t) @ (if c k = [] then [k] else [])"
    "events t1 = events t @ (if c k = [] then [KeyInit k] else [])"
    using t1(1) ki by (auto simp: fcitx_handler_table_find_key_def split: if_splits)
  with key_append_ok [OF t1(2) _ t1(3), of a] room t1(4) obtain i t' where
    i: "fcitx_handler_key_append k a t1 = Some (i, t')" "inserted t1 c k i a (c(k := c k @ [i])) t'"
    by auto
  then show ?thesis using inserted_trans [OF i(2) t1(4,5,6)] t1(1) new
    by (auto simp: fcitx_handler_table_append_def inserted_def)
qed

lemma append_data:
  "fcitx_handler_table_append k a t = Some (i, t') \<Longrightarrow> j \<noteq> i \<Longrightarrow> data_of t' j = data_of t j"
  by (auto simp: fcitx_handler_table_append_def fcitx_handler_table_find_key_def fcitx_handler_key_append_def
      bind_eq_Some_conv Let_def data_of_def set_next_id_def set_last_id_def split: if_splits dest!: get_obj_cell)

lemma watch_name_run:
  assumes "watch_ok s c" and "pool_room (objs (handler s))"
  shows "\<exists>i s'. fcitx_dbus_watch_name name func dst data s = Some (i, s') \<and> (\<forall>k. i \<notin> set (c k)) \<and>
    watch_ok s' (c(name := c name @ [i])) \<and>
    data_of (handler s') i = Some \<lparr>nt_data = data, nt_destroy = dst, nt_func = func\<rparr> \<and>
    notified s' = notified s \<and> (\<forall>j. j \<noteq> i \<longrightarrow> data_of (handler s') j = data_of (handler s) j) \<and>
    match_rules s' = match_rules s @ (if c name = [] then [match_rule name] else [])"
proof -
  obtain i t' where t': "fcitx_handler_table_append name \<lparr>nt_data = data, nt_destroy = dst, nt_func = func\<rparr> (handler s) = Some (i, t')"
    "i \<notin> ids_live (handler s)" "handler_ok t' (c(name := c name @ [i]))" "same_env (handler s) t'"
    "data_of t' i = Some \<lparr>nt_data = data, nt_destroy = dst, nt_func = func\<rparr>"
    "map fst (keys t') = map fst (keys (handler s)) @ (if c name = [] then [name] else [])"
    "events t' = events (handler s) @ (if c name = [] then [KeyInit name] else [])"
    using table_append_rules [of "handler s" c name] assms unfolding watch_ok_def by blast
  let ?s = "put_table t' s"
  have r: "match_rules ?s = match_rules s @ (if c name = [] then [match_rule name] else [])"
    using t'(7) by (simp add: put_table_def fcitx_dbus_add_match_def)
  have "watch_ok ?s (c(name := c name @ [i]))"
    using assms(1) t'(3,4,6) r by (auto simp: watch_ok_def put_table_def same_env_def)
  moreover have "\<forall>k. i \<notin> set (c k)"
    using assms(1) t'(2) chain_live[of "handler s" c] by (auto simp: watch_ok_def)
  moreover have "notified ?s = notified s" by (simp add: put_table_def)
  moreover have "\<forall>j. j \<noteq> i \<longrightarrow> data_of t' j = data_of (handler s) j" using append_data [OF t'(1)] by blast
  ultimately show ?thesis using t'(1,5) r by (auto simp: fcitx_dbus_watch_name_def put_table_def)
qed

lemma map_removeAll_inj:
  "distinct xs \<Longrightarrow> (\<And>a b. f a = f b \<Longrightarrow> a = b) \<Longrightarrow> map f (removeAll k xs) = remove1 (f k) (map f xs)"
proof (induction xs)
  case (Cons x xs)
  show ?case
  proof (cases "x = k")
    case True
    then show ?thesis using Cons.prems(1) by (simp add: removeAll_id)
  next
    case False
    then have "f k \<noteq> f x" using Cons.prems(2) by blast
    then show ?thesis using Cons False by auto
  qed
qed simp

lemma remove_watch_run:
  assumes "watch_ok s c" and "c name = xs @ i # ys"
  shows "\<exists>s'. fcitx_dbus_remove_watch i s = Some s' \<and> watch_ok s' (c(name := xs @ ys)) \<and>
    notified s' = notified s \<and> leaves i (handler s) (handler s') \<and>
    match_rules s' = (if xs @ ys = [] then remove1 (match_rule name) (match_rules s) else match_rules s) \<and>
    destroyed_data s' = destroyed_data s @
      (case data_of (handler s) i of Some n \<Rightarrow> if nt_destroy n then [nt_data n] else [] | None \<Rightarrow> [])"
proof -
  let ?t = "handler s"
  have ok: "handler_ok ?t c" and env: "has_free_func ?t" "has_key_free ?t" using assms(1) by (auto simp: watch_ok_def)
  obtain t' where t': "fcitx_handler_table_remove_by_id_full i ?t = Some t'" "handler_ok t' (c(name := xs @ ys))"
    "map fst (keys t') = (if xs @ ys = [] then removeAll name (map fst (keys ?t)) else map fst (keys ?t))"
    "events t' = events ?t @ obj_events ?t [i] @ (if xs @ ys = [] \<and> has_key_free ?t then [KeyFree name] else [])"
    using remove_by_id_full_ok [OF ok assms(2)] by blast
  have i: "i \<in> set (c name)" using assms(2) by simp
  obtain ob where ob: "cells ?t i = Some ob" using chain_obj [OF ok i] by blast
  have "obj_prev ob \<noteq> i"
  proof -
    have "pv ?t i = last_of INVALID xs" using chain_dl [OF ok, of name] assms(2) by (auto dest: dl_at)
    moreover have "distinct (c name)" "INVALID \<notin> set (c name)"
      using ok chain_no_invalid [OF ok] by (auto simp: handler_ok_def key_ok_def)
    then have "last_of INVALID xs \<noteq> i" using assms(2) by (cases xs rule: rev_cases) auto
    ultimately show ?thesis using ob by (simp add: pv_def)
  qed
  with leaves_full [OF t'(1) ob] have l: "leaves i ?t t'" by blast
  let ?s = "put_table t' s"
  have new: "drop (length (events ?t)) (events t') =
      ObjFree (obj_data ob) # (if xs @ ys = [] then [KeyFree name] else [])"
    using t'(4) env ob by (simp add: obj_events_def data_of_def)
  have r: "match_rules ?s = (if xs @ ys = [] then remove1 (match_rule name) (match_rules s) else match_rules s)"
    unfolding put_table_def new by (simp add: fcitx_dbus_remove_match_def fcitx_dbus_watch_name_notify_free_def)
  have d: "destroyed_data ?s = destroyed_data s @ (if nt_destroy (obj_data ob) then [nt_data (obj_data ob)] else [])"
    unfolding put_table_def new by (simp add: fcitx_dbus_remove_match_def fcitx_dbus_watch_name_notify_free_def)
  have dist: "distinct (map fst (keys ?t))" using ok by (simp add: handler_ok_def)
  have "match_rules ?s = map match_rule (map fst (keys t'))"
    using assms(1) r t'(3) map_removeAll_inj[OF dist, of match_rule name] match_rule_inj
    by (auto simp: watch_ok_def)
  moreover have "k \<in> set (map fst (keys t')) \<longleftrightarrow> (c(name := xs @ ys)) k \<noteq> []" for k
    using assms t'(3) by (auto simp: watch_ok_def simp del: set_map)
  ultimately have "watch_ok ?s (c(name := xs @ ys))"
    using assms(1) t'(2) l unfolding watch_ok_def by (simp add: put_table_def leaves_def same_env_def)
  then show ?thesis using t'(1) r d l ob by (auto simp: fcitx_dbus_remove_watch_def put_table_def data_of_def)
qed

section \<open>Telling the watchers\<close>

text \<open>A callback of the watchers of a name: it keeps its watch, or it removes it and no other.  \<open>I\<close> is
  what else it relies on and keeps.\<close>

definition tame :: "('s fcitx_dbus_scheme \<Rightarrow> bool) \<Rightarrow> 's name_callback \<Rightarrow> cstr \<Rightarrow> cstr \<Rightarrow> cstr \<Rightarrow> bool" where
  "tame I func service oldowner newowner \<longleftrightarrow>
     (\<forall>s c xs i ys n. I s \<longrightarrow> watch_ok s c \<longrightarrow> c service = xs @ i # ys \<longrightarrow> data_of (handler s) i = Some n \<longrightarrow>
        (\<exists>s'. func n service oldowner newowner s = Some s' \<and> I s' \<and> notified s' = notified s \<and>
          leaves i (handler s) (handler s') \<and>
          (watch_ok s' c \<or> watch_ok s' (c(service := xs @ ys)))))"

lemma tameD:
  assumes "tame I func service oldowner newowner" and "I s" and "watch_ok s c" and "c service = xs @ i # ys"
    and "data_of (handler s) i = Some n"
  obtains s' c' xs' where "func n service oldowner newowner s = Some s'" "I s'" "notified s' = notified s"
    "leaves i (handler s) (handler s')" "watch_ok s' c'" "c' service = xs' @ ys"
proof -
  from assms obtain s' where s': "func n service oldowner newowner s = Some s'" "I s'" "notified s' = notified s"
    "leaves i (handler s) (handler s')" "watch_ok s' c \<or> watch_ok s' (c(service := xs @ ys))"
    unfolding tame_def by blast
  from s'(5) show ?thesis
  proof
    assume "watch_ok s' c"
    then show ?thesis using that[OF s'(1-4), of c "xs @ [i]"] assms(4) by simp
  next
    assume "watch_ok s' (c(service := xs @ ys))"
    then show ?thesis using that[OF s'(1-4), of "c(service := xs @ ys)" xs] by simp
  qed
qed

lemma watch_ok_data:
  assumes "watch_ok s c" and "i \<in> set (c k)"
  shows "\<exists>ob. fcitx_handler_table_get_obj i (handler s) = Some ob \<and> cells (handler s) i = Some ob"
  using chain_obj [of "handler s" c i k] assms by (auto simp: watch_ok_def)

lemma watch_ok_notified [simp]: "watch_ok (s\<lparr>notified := x\<rparr>) c = watch_ok s c"
  by (simp add: watch_ok_def)

lemma get_obj_leaves:
  assumes "leaves i t t'" and "fcitx_handler_table_get_obj i t = Some ob"
  shows "\<exists>ob'. fcitx_handler_table_get_obj i t' = Some ob' \<and> obj_next ob' = obj_next ob"
  using assms by (cases "cells t' i") (auto simp: leaves_def fcitx_handler_table_get_obj_def split: if_splits)

definition ignores_log :: "('s fcitx_dbus_scheme \<Rightarrow> bool) \<Rightarrow> bool" where
  "ignores_log I \<longleftrightarrow> (\<forall>s x. I s \<longrightarrow> I (s\<lparr>notified := x\<rparr>))"

text \<open>The notice each watcher of the rest of the chain gets.\<close>

definition notices :: "'s fcitx_dbus_scheme \<Rightarrow> int list \<Rightarrow> cstr \<Rightarrow> cstr \<Rightarrow> cstr \<Rightarrow> (nat \<times> cstr \<times> cstr \<times> cstr) list" where
  "notices s is service oldowner newowner =
     map (\<lambda>i. (nt_data (the (data_of (handler s) i)), service, oldowner, newowner)) is"

lemma notify_loop_run:
  assumes tame: "tame I func service oldowner newowner" and inv: "ignores_log I"
  shows "watch_ok s c \<Longrightarrow> I s \<Longrightarrow> c service = xs @ ys \<Longrightarrow> length ys < fuel \<Longrightarrow>
    p = map_option (\<lambda>i. notify_pointer i s) (fcitx_handler_table_get_by_id (first_of INVALID ys) (handler s)) \<Longrightarrow>
    \<exists>s' c'. notify_loop fuel func service oldowner newowner p s = Some s' \<and> watch_ok s' c' \<and> I s' \<and>
      notified s' = notified s @ notices s ys service oldowner newowner"
proof (induction ys arbitrary: s c xs fuel p)
  case Nil
  then obtain n where n: "fuel = Suc n" by (cases fuel) auto
  have "p = None" using Nil.prems(5) by (simp add: fcitx_handler_table_get_by_id_def)
  then show ?case using Nil.prems(1,2) n by (auto simp: notices_def)
next
  case (Cons y ys)
  then obtain n where n: "fuel = Suc n" by (cases fuel) auto
  let ?t = "handler s"
  have ok: "handler_ok ?t c" using Cons.prems(1) by (simp add: watch_ok_def)
  have y: "y \<in> set (c service)" using Cons.prems(3) by simp
  obtain ob where ob: "fcitx_handler_table_get_obj y ?t = Some ob" "cells ?t y = Some ob"
    using watch_ok_data [OF Cons.prems(1) y] by blast
  have "y \<noteq> INVALID" using chain_no_invalid [OF ok, of service] y by auto
  then have p: "p = Some (notify_pointer y s)"
    using Cons.prems(5) by (simp add: fcitx_handler_table_get_by_id_def)
  have d: "data_of ?t y = Some (obj_data ob)" using ob by (simp add: data_of_def)
  let ?e = "(nt_data (obj_data ob), service, oldowner, newowner)"
  let ?s = "s\<lparr>notified := notified s @ [?e]\<rparr>"
  obtain s1 c1 xs1 where s1: "func (obj_data ob) service oldowner newowner ?s = Some s1" "I s1"
    "notified s1 = notified ?s" "leaves y ?t (handler s1)" "watch_ok s1 c1" "c1 service = xs1 @ ys"
    using tameD [OF tame, of ?s c xs y ys "obj_data ob"] Cons.prems d inv by (auto simp: ignores_log_def)
  have nx: "obj_next ob = first_of INVALID ys"
    using chain_dl [OF ok, of service] Cons.prems(3) ob(2) by (auto simp: nx_def dest: dl_at)
  obtain ob1 where ob1: "fcitx_handler_table_get_obj y (handler s1) = Some ob1" "obj_next ob1 = first_of INVALID ys"
    using get_obj_leaves [OF s1(4) ob(1)] nx by auto
  let ?p = "map_option (\<lambda>i. notify_pointer i s1) (fcitx_handler_table_get_by_id (first_of INVALID ys) (handler s1))"
  have next_ok: "notify_next (notify_pointer y s) s1 = Some ?p"
    using ob1 s1(4) by (simp add: notify_next_def notify_pointer_def leaves_def fcitx_handler_table_next_def
        fcitx_handler_table_next_id_def)
  obtain s2 c2 where s2: "notify_loop n func service oldowner newowner ?p s1 = Some s2" "watch_ok s2 c2" "I s2"
    "notified s2 = notified s1 @ notices s1 ys service oldowner newowner"
    using Cons.IH [OF s1(5,2,6) _ refl, of n] Cons.prems(4) n by auto
  have "data_of (handler s1) = data_of ?t" using s1(4) by (simp add: leaves_def)
  then have "notified s2 = notified s @ notices s (y # ys) service oldowner newowner"
    using s2(4) s1(3) d by (simp add: notices_def)
  moreover have "notify_loop fuel func service oldowner newowner p s = Some s2"
    using s2(1) s1(1) next_ok ob by (simp add: n p notify_get_def notify_pointer_def)
  ultimately show ?case using s2(2,3) by blast
qed

lemma filter_owner_run:
  assumes tame: "tame I func service oldowner newowner" and inv: "ignores_log I"
    and ok: "watch_ok s c" and I: "I s"
  shows "\<exists>s' c'. fcitx_dbus_filter func (NameOwnerChanged (Some (service, oldowner, newowner))) s =
      Some (c service \<noteq> [], s') \<and> watch_ok s' c' \<and> I s' \<and>
    notified s' = notified s @ notices s (c service) service oldowner newowner"
proof -
  have h: "handler_ok (handler s) c" using ok by (simp add: watch_ok_def)
  have f: "fcitx_handler_table_first service (handler s) =
      fcitx_handler_table_get_by_id (first_of INVALID (c service)) (handler s)"
    using table_first_last [OF h] by (simp add: fcitx_handler_table_first_def)
  show ?thesis
  proof (cases "c service")
    case Nil
    then show ?thesis using f ok I by (auto simp: fcitx_dbus_filter_def fcitx_handler_table_get_by_id_def notices_def)
  next
    case (Cons i js)
    have "i \<noteq> INVALID" using chain_no_invalid [OF h, of service] Cons by auto
    then have first: "fcitx_handler_table_first service (handler s) = Some i"
      using f Cons by (simp add: fcitx_handler_table_get_by_id_def)
    have g: "fcitx_handler_table_get_by_id (first_of INVALID (c service)) (handler s) = Some i"
      using f first by simp
    obtain s' c' where "notify_loop (chain_fuel (handler s)) func service oldowner newowner (Some (notify_pointer i s)) s = Some s'"
      "watch_ok s' c'" "I s'" "notified s' = notified s @ notices s (c service) service oldowner newowner"
      using notify_loop_run [OF tame inv ok I, of "[]" "c service" "chain_fuel (handler s)", OF _ chain_length [OF h] refl]
      unfolding g by auto
    then show ?thesis using first Cons by (auto simp: fcitx_dbus_filter_def)
  qed
qed

text \<open>A callback that removes its own watch, whose id the user data leads to.\<close>

definition remove_own :: "(nat \<Rightarrow> int option) \<Rightarrow> 's name_callback" where
  "remove_own ids nt service oldowner newowner s =
     (case ids (nt_data nt) of Some i \<Rightarrow> fcitx_dbus_remove_watch i s | None \<Rightarrow> Some s)"

definition ids_right :: "(nat \<Rightarrow> int option) \<Rightarrow> 's fcitx_dbus_scheme \<Rightarrow> bool" where
  "ids_right ids s \<longleftrightarrow> (\<forall>i n j. data_of (handler s) i = Some n \<longrightarrow> ids (nt_data n) = Some j \<longrightarrow> j = i)"

lemma remove_own_tame: "tame (ids_right ids) (remove_own ids) service oldowner newowner"
  unfolding tame_def
proof (intro allI impI)
  fix s c xs i ys n
  assume I: "ids_right ids s" and ok: "watch_ok s c" "c service = xs @ i # ys" and d: "data_of (handler s) i = Some n"
  show "\<exists>s'. remove_own ids n service oldowner newowner s = Some s' \<and> ids_right ids s' \<and> notified s' = notified s \<and>
      leaves i (handler s) (handler s') \<and> (watch_ok s' c \<or> watch_ok s' (c(service := xs @ ys)))"
  proof (cases "ids (nt_data n)")
    case None
    then show ?thesis using I ok by (simp add: remove_own_def)
  next
    case (Some j)
    then have "j = i" using I d by (simp add: ids_right_def)
    obtain s' where s': "fcitx_dbus_remove_watch i s = Some s'" "watch_ok s' (c(service := xs @ ys))"
      "notified s' = notified s" "leaves i (handler s) (handler s')"
      using remove_watch_run [OF ok] by blast
    moreover have "ids_right ids s'" using I s'(4) by (simp add: ids_right_def leaves_def)
    ultimately show ?thesis using Some \<open>j = i\<close> by (auto simp: remove_own_def)
  qed
qed

lemma ids_right_notified: "ignores_log (ids_right ids)"
  by (simp add: ids_right_def ignores_log_def)

section \<open>Starting\<close>

lemma ex_from:
  fixes n :: nat
  shows "\<not> f n \<Longrightarrow> (\<exists>k. n + 1 \<le> k \<and> k \<le> m \<and> f k) \<longleftrightarrow> (\<exists>k. n \<le> k \<and> k \<le> m \<and> f k)"
  by (metis Suc_eq_plus1 Suc_leD Suc_leI le_neq_implies_less)

lemma connect_loop_run:
  "n \<le> 5 \<Longrightarrow> (fst (connect_loop f n) \<longleftrightarrow> (\<exists>k. n \<le> k \<and> k \<le> 5 \<and> f k)) \<and>
   (\<exists>m. snd (connect_loop f n) = map Suc [n..<m] \<and> n \<le> m \<and> m \<le> 5 \<and> (\<forall>k. n \<le> k \<and> k < m \<longrightarrow> \<not> f k))"
proof (induction f n rule: connect_loop.induct)
  case (1 f n)
  show ?case
  proof (cases "\<not> f n \<and> n < 5")
    case True
    then have eq: "connect_loop f n = (fst (connect_loop f (n + 1)), Suc n # snd (connect_loop f (n + 1)))"
      by (subst connect_loop.simps) (simp add: MAX_RETRY_TIMES_def RETRY_INTERVAL_def split_beta)
    obtain m where m: "snd (connect_loop f (n + 1)) = map Suc [n + 1..<m]" "n + 1 \<le> m" "m \<le> 5"
      "\<forall>k. n + 1 \<le> k \<and> k < m \<longrightarrow> \<not> f k"
      and b: "fst (connect_loop f (n + 1)) \<longleftrightarrow> (\<exists>k. n + 1 \<le> k \<and> k \<le> 5 \<and> f k)"
      using 1 True by (auto simp: MAX_RETRY_TIMES_def)
    have "(\<exists>k. n + 1 \<le> k \<and> k \<le> 5 \<and> f k) \<longleftrightarrow> (\<exists>k. n \<le> k \<and> k \<le> 5 \<and> f k)"
      using True ex_from by blast
    moreover have "map Suc [n..<m] = Suc n # map Suc [n + 1..<m]" using m(2) by (simp add: upt_conv_Cons)
    moreover have "\<forall>k. n \<le> k \<and> k < m \<longrightarrow> \<not> f k"
      using m(4) True by (metis Suc_eq_plus1 Suc_leI le_eq_less_or_eq)
    ultimately show ?thesis using eq b m(1-3) by (auto intro!: exI[of _ m])
  next
    case False
    then have "connect_loop f n = (f n, [])" by (subst connect_loop.simps) (auto simp: MAX_RETRY_TIMES_def)
    moreover have "f n \<longleftrightarrow> (\<exists>k. n \<le> k \<and> k \<le> 5 \<and> f k)" using False 1(2) by (metis le_antisym not_le order_refl)
    ultimately show ?thesis using 1(2) by (auto intro!: exI[of _ n])
  qed
qed

lemma request_loop_run:
  "fst (request_loop f c n) \<longleftrightarrow> (\<exists>k. n \<le> k \<and> k \<le> n + c \<and> f k)" "snd (request_loop f c n) \<le> n + c + 1"
proof (induction f c n rule: request_loop.induct)
  case (1 f c n)
  {
    case 1
    show ?case
    proof (cases "f n")
      case True
      then show ?thesis by (subst request_loop.simps) auto
    next
      case False
      show ?thesis
      proof (cases c)
        case 0
        then show ?thesis using False by (subst request_loop.simps) (auto dest: le_antisym)
      next
        case (Suc d)
        have "(\<exists>k. n \<le> k \<and> k \<le> n + Suc d \<and> f k) \<longleftrightarrow> (\<exists>k. n + 1 \<le> k \<and> k \<le> n + 1 + d \<and> f k)"
          using ex_from [of f n "n + Suc d"] False by simp
        then show ?thesis using "1.IH"(1) [OF False Suc] False Suc by (subst request_loop.simps) simp
      qed
    qed
  next
    case 2
    show ?case using "1.IH"(2) by (subst request_loop.simps) (auto split: nat.split)
  }
qed

lemma new_watch_table:
  "\<exists>t :: (cstr, watch_notify) handler_table. fcitx_handler_table_new_with_keydata 24 True True True = Some t \<and>
     handler_ok t (\<lambda>_. []) \<and> keys t = [] \<and> events t = [] \<and> pool_room (objs t) \<and>
     has_free_func t \<and> has_key_init t \<and> has_key_free t \<and> (\<forall>j. data_of t j = None)"
proof -
  obtain t :: "(cstr, watch_notify) handler_table" where
    t: "fcitx_handler_table_new_with_keydata 24 True True True = Some t" "handler_ok t (\<lambda>_. [])"
    "keys t = []" "events t = []" "pool_room (objs t)"
    using new_ok [of 24 True True True] by (auto simp: align_to_def)
  moreover have "has_free_func t \<and> has_key_init t \<and> has_key_free t \<and> (\<forall>j. data_of t j = None)"
    using t(1) by (auto simp: data_of_def fcitx_handler_table_new_with_keydata_def bind_eq_Some_conv)
  ultimately show ?thesis by blast
qed

section \<open>Properties\<close>

text \<open>C35: The bus has a match rule for exactly the names that are watched: watching a name adds its rule
  when it is the first watch of the name, removing a watch removes the rule when it was the last, calls
  the destroy function of the watch and no other, and leaves the other watches in their order.\<close>

theorem watched_names:
  assumes "watch_ok s c"
  shows "(pool_room (objs (handler s)) \<longrightarrow>
      (\<exists>i s'. fcitx_dbus_watch_name name func dst data s = Some (i, s') \<and> (\<forall>k. i \<notin> set (c k)) \<and>
        watch_ok s' (c(name := c name @ [i])) \<and>
        match_rules s' = match_rules s @ (if c name = [] then [match_rule name] else []))) \<and>
    (c name = xs @ i # ys \<longrightarrow>
      (\<exists>s'. fcitx_dbus_remove_watch i s = Some s' \<and> watch_ok s' (c(name := xs @ ys)) \<and>
        match_rules s' = (if xs @ ys = [] then remove1 (match_rule name) (match_rules s) else match_rules s) \<and>
        destroyed_data s' = destroyed_data s @
          (case data_of (handler s) i of Some n \<Rightarrow> if nt_destroy n then [nt_data n] else [] | None \<Rightarrow> []))) \<and>
    set (match_rules s) = {match_rule k |k. c k \<noteq> []} \<and> distinct (match_rules s)"
proof (intro conjI impI)
  show "\<exists>i s'. fcitx_dbus_watch_name name func dst data s = Some (i, s') \<and> (\<forall>k. i \<notin> set (c k)) \<and>
        watch_ok s' (c(name := c name @ [i])) \<and>
        match_rules s' = match_rules s @ (if c name = [] then [match_rule name] else [])"
    if "pool_room (objs (handler s))"
    using watch_name_run [OF assms that] by blast
  show "\<exists>s'. fcitx_dbus_remove_watch i s = Some s' \<and> watch_ok s' (c(name := xs @ ys)) \<and>
        match_rules s' = (if xs @ ys = [] then remove1 (match_rule name) (match_rules s) else match_rules s) \<and>
        destroyed_data s' = destroyed_data s @
          (case data_of (handler s) i of Some n \<Rightarrow> if nt_destroy n then [nt_data n] else [] | None \<Rightarrow> [])"
    if "c name = xs @ i # ys"
    using remove_watch_run [OF assms that] by blast
  have r: "match_rules s = map match_rule (map fst (keys (handler s)))"
    and k: "\<forall>k. k \<in> set (map fst (keys (handler s))) \<longleftrightarrow> c k \<noteq> []"
    and d: "distinct (map fst (keys (handler s)))"
    using assms by (auto simp: watch_ok_def handler_ok_def)
  have ks: "set (map fst (keys (handler s))) = {k. c k \<noteq> []}" using k by blast
  show "set (match_rules s) = {match_rule k |k. c k \<noteq> []}"
    unfolding r setcompr_eq_image ks[symmetric] by (rule list.set_map)
  show "distinct (match_rules s)" using d unfolding r by (simp add: distinct_map inj_on_def match_rule_inj)
qed

definition bus_up :: bus_world where
  "bus_up = \<lparr>display = True, session_address = False, bus_get_private = (\<lambda>k. k = 2), setup_answers = (True, True, True),
     try_replace = False, owns_name = (\<lambda>_. True), registers = True\<rparr>"

text \<open>A main loop without events.\<close>

definition idle_loop :: mainloop where
  "idle_loop = the (fcitx_mainloop_new int)"

lemma bus_up_starts:
  "\<exists>s. fcitx_dbus_init bus_up m = Some (Started s) \<and> watch_ok s (\<lambda>_. []) \<and> pool_room (objs (handler s)) \<and>
     match_rules s = [] \<and> notified s = [] \<and> (\<forall>j. data_of (handler s) j = None)"
proof -
  obtain t :: "(cstr, watch_notify) handler_table" where
    t: "fcitx_handler_table_new_with_keydata 24 True True True = Some t" "handler_ok t (\<lambda>_. [])"
    "keys t = []" "pool_room (objs t)" "has_free_func t" "has_key_init t" "has_key_free t" "\<forall>j. data_of t j = None"
    using new_watch_table by blast
  have "fst (connect_loop (\<lambda>k. k = 2) 0)" using connect_loop_run [of 0 "\<lambda>k. k = 2"] by auto
  moreover have "fst (request_loop (\<lambda>_. True) 0 0)" by (simp add: request_loop.simps)
  ultimately show ?thesis
    using t by (simp add: fcitx_dbus_init_def bus_up_def fcitx_dbus_setup_connection_def watch_ok_def)
qed

theorem watched_names_witness:
  "\<exists>s i s' s''. fcitx_dbus_init bus_up idle_loop = Some (Started s) \<and>
     fcitx_dbus_watch_name (bytes '':1.5'') 1 True 7 s = Some (i, s') \<and> match_rules s' = [match_rule (bytes '':1.5'')] \<and>
     fcitx_dbus_remove_watch i s' = Some s'' \<and> match_rules s'' = []"
proof -
  obtain s where s: "fcitx_dbus_init bus_up idle_loop = Some (Started s)" "watch_ok s (\<lambda>_. [])" "pool_room (objs (handler s))"
    "match_rules s = []"
    using bus_up_starts by blast
  let ?n = "bytes '':1.5''"
  obtain i s' where s': "fcitx_dbus_watch_name ?n 1 True 7 s = Some (i, s')" "watch_ok s' ((\<lambda>_. [])(?n := [i]))"
    "match_rules s' = [match_rule ?n]"
    using watched_names [OF s(2), of ?n 1 True 7] s(3,4) by auto
  obtain s'' where "fcitx_dbus_remove_watch i s' = Some s''" "match_rules s'' = []"
    using watched_names [OF s'(2), of ?n 0 False 0 "[]" i "[]"] s'(3) by auto
  with s(1) s'(1,3) show ?thesis by blast
qed

text \<open>C36: A change of the owner of a name is told to every watcher of the name, in the order in which
  they asked, although a watcher may remove its watch when it is told.\<close>

theorem owner_change_told:
  assumes "tame I func service oldowner newowner" and "ignores_log I" and "watch_ok s c" and "I s"
  shows "\<exists>s' c'. fcitx_dbus_filter func (NameOwnerChanged (Some (service, oldowner, newowner))) s =
      Some (c service \<noteq> [], s') \<and> watch_ok s' c' \<and> I s' \<and>
    notified s' = notified s @ notices s (c service) service oldowner newowner"
  by (rule filter_owner_run [OF assms])

theorem owner_change_told_witness:
  "\<exists>s i s' s''. fcitx_dbus_init bus_up idle_loop = Some (Started s) \<and>
     fcitx_dbus_watch_name (bytes '':1.5'') 1 True 7 s = Some (i, s') \<and>
     fcitx_dbus_filter (remove_own (\<lambda>d. if d = 7 then Some i else None))
       (NameOwnerChanged (Some (bytes '':1.5'', bytes '':1.5'', []))) s' = Some (True, s'') \<and>
     notified s'' = [(7, bytes '':1.5'', bytes '':1.5'', [])]"
proof -
  obtain s where s: "fcitx_dbus_init bus_up idle_loop = Some (Started s)" "watch_ok s (\<lambda>_. [])" "pool_room (objs (handler s))"
    "match_rules s = []" "notified s = []" "\<forall>j. data_of (handler s) j = None"
    using bus_up_starts by blast
  let ?n = "bytes '':1.5''"
  obtain i s' where s': "fcitx_dbus_watch_name ?n 1 True 7 s = Some (i, s')" "watch_ok s' ((\<lambda>_. [])(?n := [i]))"
    "data_of (handler s') i = Some \<lparr>nt_data = 7, nt_destroy = True, nt_func = 1\<rparr>" "notified s' = notified s"
    "\<forall>j. j \<noteq> i \<longrightarrow> data_of (handler s') j = data_of (handler s) j"
    using watch_name_run [OF s(2,3), of ?n 1 True 7] by auto
  let ?ids = "\<lambda>d. if d = (7 :: nat) then Some i else None"
  have "ids_right ?ids s'" using s'(3,5) s(6) by (auto simp: ids_right_def split: if_splits)
  then show ?thesis
    using owner_change_told [OF remove_own_tame ids_right_notified s'(2), of ?ids ?n ?n "[]"] s s'
    by (auto simp: notices_def)
qed

text \<open>Starting asks for the connection at most six times, with pauses of one to five seconds, and for the
  name once, or four times when it may replace another instance; it starts exactly when one of each
  succeeds and the connection is set up, and shuts the instance down when only the name is missing.\<close>

theorem bus_start:
  "\<exists>r. fcitx_dbus_init w m = Some r \<and>
     (\<exists>k. snd (connect_loop (bus_get_private w) 0) = map Suc [0..<k] \<and> k \<le> 5) \<and>
     snd (request_loop (owns_name w) (if try_replace w then 3 else 0) 0) \<le> (if try_replace w then 4 else 1) \<and>
     ((\<exists>s. r = Started s) \<longleftrightarrow>
        (display w \<or> session_address w) \<and> (\<exists>k \<le> 5. bus_get_private w k) \<and> setup_answers w = (True, True, True) \<and>
        (\<exists>k \<le> (if try_replace w then 3 else 0). owns_name w k)) \<and>
     (\<forall>s. r = Started s \<longrightarrow> watch_ok s (\<lambda>_. []) \<and> match_rules s = [] \<and> \<not> instance_shutdown s) \<and>
     (\<forall>s. r = Failed s \<longrightarrow> (instance_shutdown s \<longleftrightarrow> setup_answers w = (True, True, True)))"
proof -
  obtain t :: "(cstr, watch_notify) handler_table" where
    t: "fcitx_handler_table_new_with_keydata 24 True True True = Some t" "handler_ok t (\<lambda>_. [])"
    "keys t = []" "events t = []" "has_free_func t" "has_key_init t" "has_key_free t"
    using new_watch_table by blast
  obtain f g h where fgh: "setup_answers w = (f, g, h)" by (cases "setup_answers w")
  let ?n = "if try_replace w then 3 else 0 :: nat"
  have conn: "fst (connect_loop (bus_get_private w) 0) \<longleftrightarrow> (\<exists>k \<le> 5. bus_get_private w k)"
    "\<exists>k. snd (connect_loop (bus_get_private w) 0) = map Suc [0..<k] \<and> k \<le> 5"
    using connect_loop_run [of 0 "bus_get_private w"] by auto
  have own: "fst (request_loop (owns_name w) ?n 0) \<longleftrightarrow> (\<exists>k \<le> ?n. owns_name w k)"
    "snd (request_loop (owns_name w) ?n 0) \<le> (if try_replace w then 4 else 1)"
    using request_loop_run [of "owns_name w" ?n 0] by auto
  have d: "fcitx_dbus_destroy s = Some (s\<lparr>db_shutdown := True\<rparr>)"
    if "handler s = t" "\<not> objectRegistered s" "wakeup_main s = None" for s
    using that t by (simp add: fcitx_dbus_destroy_def fcitx_handler_table_free_def)
  let ?s = "\<lparr>db_loop = m, db_shutdown = False, wakeup_main = None, objectRegistered = False, handler = t,
      match_rules = [], watch_data = (\<lambda>_. None), timeout_data = (\<lambda>_. None), instance_shutdown = False,
      destroyed_data = [], notified = []\<rparr>"
  have "fcitx_dbus_init w m = Some
      (if \<not> display w \<and> \<not> session_address w then No_Connection
       else if \<not> fst (connect_loop (bus_get_private w) 0) then No_Connection
       else if \<not> (f \<and> g \<and> h) then Failed (?s\<lparr>db_shutdown := True\<rparr>)
       else if \<not> fst (request_loop (owns_name w) ?n 0) then Failed (?s\<lparr>instance_shutdown := True, db_shutdown := True\<rparr>)
       else Started (?s\<lparr>objectRegistered := registers w\<rparr>))"
    by (simp add: fcitx_dbus_init_def t(1) fgh d fcitx_dbus_setup_connection_def)
  then show ?thesis
    using conn own t(2-7) by (auto simp: watch_ok_def fgh)
qed

section \<open>What goes wrong\<close>

text \<open>Asking for the main loop twice before it runs forgets the first event, which is neither removed with
  the module nor reset when it is called.\<close>

lemma wakeup_forgets:
  "fcitx_dbus_wakeup_main d s = Some s' \<Longrightarrow> \<not> db_shutdown s \<Longrightarrow>
   \<exists>m. fcitx_mainloop_register_timeout_event 0 False dispatch_callback False d (db_loop s) = Some (the (wakeup_main s'), m)"
  by (auto simp: fcitx_dbus_wakeup_main_def bind_eq_Some_conv)

text \<open>Disabling a timeout frees its event and keeps the pointer to it; the next removal uses it.\<close>

lemma disabled_timeout_dangles:
  assumes "fcitx_dbus_toggle_timeout t False n s = Some s'" and "timeout_data s t = Some e"
    and "timeouts (db_loop s) e = Some ev" and "te_refcount ev = 1"
  shows "timeout_data s' t = Some e \<and> fcitx_dbus_remove_timeout t s' = None"
proof -
  have data: "timeout_data (fold loop_notify cs s) = timeout_data s" for cs and s
  proof (induction cs arbitrary: s)
    case (Cons c cs)
    have "timeout_data (loop_notify c s) = timeout_data s"
      by (cases c) (auto simp: fcitx_dbus_watch_remove_notify_def)
    with Cons show ?case by simp
  qed simp
  obtain m where m: "fcitx_mainloop_remove_timeout_event e (db_loop s) = Some m" "s' = put_loop m s"
    using assms(1,2) by (auto simp: fcitx_dbus_toggle_timeout_def fcitx_dbus_remove_timeout_def bind_eq_Some_conv)
  have "timeouts m e = None"
    using m(1) assms(3,4)
    by (auto simp: fcitx_mainloop_remove_timeout_event_def fcitx_timeout_event_unref_def bind_eq_Some_conv Let_def)
  then show ?thesis
    using assms(2) by (simp add: m(2) put_loop_def data fcitx_dbus_remove_timeout_def
        fcitx_mainloop_remove_timeout_event_def fcitx_timeout_event_unref_def)
qed

end
