(* ===== verification/IpcFrontend.thy ===== *)
theory IpcFrontend
  imports DBusModule InputContext_Policy Instance Utf8_Strings
begin

text \<open>
  The frontend for clients on the message bus, \<open>src/frontend/ipc/ipc.c\<close>: the object of each input context,
  the contexts of each client, which are destroyed when the client leaves the bus, and the signals sent
  for the events of a context.  Its state extends that of the message bus module, whose calls go through
  the addon interface; the contexts are those of the input context manager.

  The dictionary of the contexts of a client, keyed by their addresses, is the list of the addresses.  The
  copies of the names of clients are strings with an address; \<open>None\<close> is the use of a freed one, of a freed
  object, or of \<open>NULL\<close>.
\<close>

section \<open>State\<close>

record ipc_sender =
  watchId :: int
  sender_ics :: "nat list"

datatype ipc_signal =
    CommitString u32 cstr
  | DeleteSurroundingText u32 int u32
  | ForwardKey u32 u32 u32 int

record fcitx_ipc = fcitx_dbus +
  icManager :: manager
  object_paths :: "cstr list"
  senderToIC :: "ipc_sender dict"
  frontendDataId :: int
  appNameId :: int
  frontendId :: u32
  strings :: "nat \<Rightarrow> cstr option"
  next_string :: nat
  bus_signals :: "ipc_signal list"

definition ipc_path :: "u32 \<Rightarrow> cstr" where
  "ipc_path i = bytes ''/inputcontext/'' @ decimal_nat (unat i)"

definition fcitx_ipc_sender_new :: ipc_sender where
  "fcitx_ipc_sender_new = \<lparr>watchId = 0, sender_ics = []\<rparr>"

definition put_sender :: "cstr \<Rightarrow> ipc_sender \<Rightarrow> fcitx_ipc \<Rightarrow> fcitx_ipc" where
  "put_sender name d s = s\<lparr>senderToIC := (senderToIC s)\<lparr>items := AList.update name d (items (senderToIC s))\<rparr>\<rparr>"

text \<open>The number of \<open>fcitx_ipc_watch_name\<close> among the callbacks of watches.\<close>

definition ipc_watch_callback :: nat where
  "ipc_watch_callback = 1"

section \<open>Destroying contexts\<close>

definition fcitx_ipc_destroy_input_context :: "nat \<Rightarrow> fcitx_ipc \<Rightarrow> fcitx_ipc option" where
  "fcitx_ipc_destroy_input_context ic s = do {
     let m = icManager s;
     let s = s\<lparr>object_paths := remove1 (ipc_path (ic_id (contexts m ic))) (object_paths s)\<rparr>;
     let p = fcitx_input_context_get_property ic (frontendDataId s) m;
     sender \<leftarrow> strings s p;
     d \<leftarrow> fcitx_dict_lookup sender (senderToIC s);
     let d = d\<lparr>sender_ics := remove1 ic (sender_ics d)\<rparr>;
     let s = put_sender sender d s;
     s \<leftarrow> (if sender_ics d = []
        then do {
          s \<leftarrow> fcitx_dbus_remove_watch (watchId d) s;
          (_, _, t) \<leftarrow> fcitx_dict_remove sender False (senderToIC s);
          Some (s\<lparr>senderToIC := t\<rparr>) }
        else Some s);
     Some (s\<lparr>strings := (strings s)(p := None)\<rparr>) }"

text \<open>Destroying a context of the manager, which calls the frontend's function for a context of its own,
  before the properties of the context are freed.\<close>

definition destroy_context_of :: "nat \<Rightarrow> fcitx_ipc \<Rightarrow> fcitx_ipc option" where
  "destroy_context_of ic s =
     (let m = icManager s in
      if fcitx_input_context_manager_get_input_context (ic_id (contexts m ic)) m \<noteq> Some ic then Some s
      else do {
        s \<leftarrow> (if ic_destroyNotify (contexts m ic) \<and> frontend (contexts m ic) = frontendId s
              then fcitx_ipc_destroy_input_context ic s else Some s);
        m \<leftarrow> fcitx_input_context_destroy ic m;
        Some (s\<lparr>icManager := m\<rparr>) })"

text \<open>The loop over the contexts of a client that left; the last one frees what the loop runs over.\<close>

partial_function (option) destroy_sender :: "cstr \<Rightarrow> fcitx_ipc \<Rightarrow> fcitx_ipc option" where
  "destroy_sender service s = do {
     d \<leftarrow> fcitx_dict_lookup service (senderToIC s);
     case sender_ics d of
       [] \<Rightarrow> Some s
     | ic # rest \<Rightarrow> do {
         s \<leftarrow> destroy_context_of ic s;
         if rest = [] then Some s else destroy_sender service s } }"

definition fcitx_ipc_watch_name :: "watch_notify \<Rightarrow> cstr \<Rightarrow> cstr \<Rightarrow> cstr \<Rightarrow> fcitx_ipc \<Rightarrow> fcitx_ipc option" where
  "fcitx_ipc_watch_name nt serviceName oldName newName s =
     (if \<not> (length oldName > 0 \<and> length newName = 0) then Some s
      else case fcitx_dict_lookup serviceName (senderToIC s) of
          None \<Rightarrow> Some s
        | Some _ \<Rightarrow> destroy_sender serviceName s)"

section \<open>Creating contexts\<close>

text \<open>\<open>u\<close> is the unique id and \<open>memory\<close> whether the bus library has memory for the object; it refuses a path
  that is in use.\<close>

definition fcitx_ipc_new_input_context ::
  "cstr option \<Rightarrow> byte list \<Rightarrow> bool \<Rightarrow> fcitx_ipc \<Rightarrow> (nat option \<times> fcitx_ipc) option" where
  "fcitx_ipc_new_input_context sender u memory s =
     (case sender of
        None \<Rightarrow> Some (None, s)
      | Some name \<Rightarrow> do {
          let (r, m) = fcitx_input_context_new (frontendId s) True u (icManager s);
          let s = s\<lparr>icManager := m\<rparr>;
          ic \<leftarrow> r;
          let path = ipc_path (ic_id (contexts m ic));
          if \<not> memory \<or> path \<in> set (object_paths s)
          then do { s \<leftarrow> destroy_context_of ic s; Some (None, s) }
          else do {
            let s = s\<lparr>object_paths := object_paths s @ [path]\<rparr>;
            s \<leftarrow> (case fcitx_dict_lookup name (senderToIC s) of
                Some _ \<Rightarrow> Some s
              | None \<Rightarrow> do {
                  (i, s) \<leftarrow> fcitx_dbus_watch_name name ipc_watch_callback False 0 s;
                  Some (s\<lparr>senderToIC := snd (fcitx_dict_insert name (fcitx_ipc_sender_new\<lparr>watchId := i\<rparr>) False (senderToIC s))\<rparr>) });
            d \<leftarrow> fcitx_dict_lookup name (senderToIC s);
            let s = put_sender name (d\<lparr>sender_ics := (if ic \<in> set (sender_ics d) then sender_ics d else sender_ics d @ [ic])\<rparr>) s;
            let p = next_string s;
            let s = s\<lparr>strings := (strings s)(p \<mapsto> name), next_string := p + 1\<rparr>;
            (_, m) \<leftarrow> fcitx_input_context_set_property ic (frontendDataId s) p (icManager s);
            Some (Some ic, s\<lparr>icManager := m\<rparr>) } })"

section \<open>Calls\<close>

datatype ipc_reply =
    EmptyReply
  | HandledReply bool
  | IntrospectReply
  | CreatedReply cstr "byte list"
  | InvalidArgs
  | NoMemory

text \<open>The calls of a context, with the arguments if they have the right types.  \<open>int32_add\<close> has no result when
  the sum of two \<open>int32_t\<close> overflows, which C leaves undefined.\<close>

definition int32_add :: "int \<Rightarrow> int \<Rightarrow> int option" where
  "int32_add x y = (if - (2 ^ 31) \<le> x + y \<and> x + y < 2 ^ 31 then Some (x + y) else None)"

datatype ic_call =
    IC_Introspect
  | IC_FocusIn
  | IC_FocusOut
  | IC_Reset
  | IC_SetCursorRect "(int \<times> int \<times> int \<times> int) option"
  | IC_SetCapability "u32 option"
  | IC_SetSurroundingText "(cstr \<times> u32 \<times> u32) option"
  | IC_SetSurroundingTextPosition "(u32 \<times> u32) option"
  | IC_DestroyIC
  | IC_ProcessKeyEvent "(u32 \<times> u32 \<times> u32 \<times> int \<times> nat) option"
  | IC_Other

text \<open>The number at the end of a path, which has no blanks and no sign; \<open>strtoul\<close> stops at the largest
  64-bit number, and 32 bits of the result are kept.\<close>

definition path_id :: "cstr \<Rightarrow> u32 option" where
  "path_id path =
     (if \<not> fcitx_utils_string_starts_with path (bytes ''/inputcontext/'') then None
      else
        let idString = drop (length (bytes ''/inputcontext/'')) path in
        if idString \<noteq> [] \<and> list_all is_digit idString
        then Some (word_of_int (min (digits_value idString) (2 ^ 64 - 1))) else None)"

definition with_manager :: "(manager \<Rightarrow> manager) \<Rightarrow> fcitx_ipc \<Rightarrow> fcitx_ipc" where
  "with_manager f s = s\<lparr>icManager := f (icManager s)\<rparr>"

definition ipc_key_event :: "u32 \<Rightarrow> u32 \<Rightarrow> u32 \<Rightarrow> int \<Rightarrow> nat \<Rightarrow> key_event" where
  "ipc_key_event keyval keycode kstate itype time =
     \<lparr>ke_key = \<lparr>sym = keyval, state = kstate\<rparr>, rawKey = \<lparr>sym = keyval, state = kstate\<rparr>,
      keyCode = sint keycode, isRelease = (itype \<noteq> 0), ke_time = time mod 2 ^ 32\<rparr>"

text \<open>\<open>callback\<close> is the answer of the event dispatcher of the manager to a key event.\<close>

definition fcitx_ipc_inputcontext_handler ::
  "(ic_event \<Rightarrow> bool) \<Rightarrow> cstr \<Rightarrow> ic_call \<Rightarrow> fcitx_ipc \<Rightarrow> (ipc_reply option \<times> fcitx_ipc) option" where
  "fcitx_ipc_inputcontext_handler callback path msg s =
     (case path_id path of
        None \<Rightarrow> Some (None, s)
      | Some i \<Rightarrow>
          (case fcitx_input_context_manager_get_input_context i (icManager s) of
             None \<Rightarrow> Some (None, s)
           | Some ic \<Rightarrow>
               (case msg of
                  IC_Introspect \<Rightarrow> Some (Some IntrospectReply, s)
                | IC_FocusIn \<Rightarrow> Some (Some EmptyReply, with_manager (fcitx_input_context_focus_in ic) s)
                | IC_FocusOut \<Rightarrow> Some (Some EmptyReply, with_manager (fcitx_input_context_focus_out ic) s)
                | IC_Reset \<Rightarrow> Some (Some EmptyReply, with_manager (fcitx_input_context_reset ic) s)
                | IC_SetCursorRect args \<Rightarrow>
                    (case args of
                       Some (x, y, w, h) \<Rightarrow> do {
                         x' \<leftarrow> int32_add x w;
                         y' \<leftarrow> int32_add y h;
                         Some (Some EmptyReply,
                           with_manager (fcitx_input_context_set_cursor_rect ic \<lparr>x1 = x, y1 = y, x2 = x', y2 = y'\<rparr>) s) }
                     | None \<Rightarrow> Some (Some EmptyReply, s))
                | IC_SetCapability args \<Rightarrow>
                    Some (Some EmptyReply,
                      case args of
                        Some fl \<Rightarrow> with_manager (fcitx_input_context_set_capability_flags ic fl) s
                      | None \<Rightarrow> s)
                | IC_SetSurroundingText args \<Rightarrow>
                    Some (Some EmptyReply,
                      case args of
                        Some (str, cur, anc) \<Rightarrow>
                          with_manager (fcitx_input_context_set_surrounding_text ic (Some str) cur anc) s
                      | None \<Rightarrow> s)
                | IC_SetSurroundingTextPosition args \<Rightarrow>
                    Some (Some EmptyReply,
                      case args of
                        Some (cur, anc) \<Rightarrow>
                          with_manager (fcitx_input_context_set_surrounding_text ic None cur anc) s
                      | None \<Rightarrow> s)
                | IC_DestroyIC \<Rightarrow> do { s \<leftarrow> destroy_context_of ic s; Some (Some EmptyReply, s) }
                | IC_ProcessKeyEvent args \<Rightarrow>
                    (case args of
                       Some (keyval, keycode, keystate, itype, time) \<Rightarrow>
                         let (ret, m) = fcitx_input_context_process_key_event callback ic
                                (ipc_key_event keyval keycode keystate itype time) (icManager s)
                         in Some (Some (HandledReply ret), s\<lparr>icManager := m\<rparr>)
                     | None \<Rightarrow> Some (Some InvalidArgs, s))
                | IC_Other \<Rightarrow> Some (None, s))))"

text \<open>The parameters of a new context: the name of an entry, if it is a string, and its value, if it is a
  variant.\<close>

datatype variant = VBool bool | VString cstr | VOther

fun create_parameters ::
  "(cstr option \<times> variant option) list \<Rightarrow> bool \<Rightarrow> cstr option \<Rightarrow> bool \<times> cstr option" where
  "create_parameters [] independent appName = (independent, appName)"
| "create_parameters ((key, val) # rest) independent appName =
     (case (key, val) of
        (Some name, Some v) \<Rightarrow>
          (case v of
             VBool b \<Rightarrow> create_parameters rest (if name = bytes ''independent'' then b else independent) appName
           | VString t \<Rightarrow> create_parameters rest independent (if name = bytes ''appName'' then Some t else appName)
           | VOther \<Rightarrow> create_parameters rest independent appName)
      | _ \<Rightarrow> create_parameters rest independent appName)"

datatype im_call =
    IM_Introspect
  | IM_CreateIC "cstr option" "(cstr option \<times> variant option) list option"
  | IM_Other

text \<open>The name of the application is a string of the message, at the address \<open>text\<close>.\<close>

definition fcitx_ipc_inputmethod_handler ::
  "byte list \<Rightarrow> bool \<Rightarrow> nat \<Rightarrow> im_call \<Rightarrow> fcitx_ipc \<Rightarrow> (ipc_reply option \<times> fcitx_ipc) option" where
  "fcitx_ipc_inputmethod_handler u memory text msg s =
     (case msg of
        IM_Introspect \<Rightarrow> Some (Some IntrospectReply, s)
      | IM_CreateIC sender None \<Rightarrow> Some (Some NoMemory, s)
      | IM_CreateIC sender (Some entries) \<Rightarrow>
          let (independent, appName) = create_parameters entries False None in do {
            (ic, s) \<leftarrow> fcitx_ipc_new_input_context sender u memory s;
            case ic of
              None \<Rightarrow> Some (Some NoMemory, s)
            | Some ic \<Rightarrow> do {
                let s = with_manager (fcitx_input_context_set_focus_group ic
                     (if independent then FICFG_Independent else FICFG_Global) None) s;
                (_, m) \<leftarrow> fcitx_input_context_set_property ic (appNameId s)
                     (case appName of None \<Rightarrow> 0 | Some _ \<Rightarrow> text) (icManager s);
                let s = s\<lparr>icManager := m\<rparr>;
                Some (Some (CreatedReply (ipc_path (ic_id (contexts m ic))) (uuid (contexts m ic))), s) } }
      | IM_Other \<Rightarrow> Some (None, s))"

section \<open>Signals\<close>

definition fcitx_ipc_send_signal :: "ipc_signal \<Rightarrow> fcitx_ipc \<Rightarrow> fcitx_ipc" where
  "fcitx_ipc_send_signal sig s = s\<lparr>bus_signals := bus_signals s @ [sig]\<rparr>"

definition fcitx_ipc_commit_string :: "u32 \<Rightarrow> cstr \<Rightarrow> fcitx_ipc \<Rightarrow> fcitx_ipc option" where
  "fcitx_ipc_commit_string i str s = do {
     valid \<leftarrow> fcitx_utf8_check_string str;
     if \<not> valid then Some s else Some (fcitx_ipc_send_signal (CommitString i str) s) }"

definition fcitx_ipc_delete_surrounding_text :: "u32 \<Rightarrow> int \<Rightarrow> u32 \<Rightarrow> fcitx_ipc \<Rightarrow> fcitx_ipc" where
  "fcitx_ipc_delete_surrounding_text i offset len s = fcitx_ipc_send_signal (DeleteSurroundingText i offset len) s"

definition fcitx_ipc_forward_key :: "u32 \<Rightarrow> fcitx_key \<Rightarrow> int \<Rightarrow> fcitx_ipc \<Rightarrow> fcitx_ipc" where
  "fcitx_ipc_forward_key i k type s = fcitx_ipc_send_signal (ForwardKey i (sym k) (state k) type) s"

definition fcitx_ipc_handle_event :: "ic_event \<Rightarrow> fcitx_ipc \<Rightarrow> (bool \<times> fcitx_ipc) option" where
  "fcitx_ipc_handle_event e s =
     (case e of
        InputContextCommitString i a str \<Rightarrow> do { s \<leftarrow> fcitx_ipc_commit_string i str s; Some (True, s) }
      | InputContextDeleteSurroundingText i a offset len \<Rightarrow> Some (True, fcitx_ipc_delete_surrounding_text i offset len s)
      | InputContextForwardKey i a key \<Rightarrow>
          Some (True, fcitx_ipc_forward_key i (ke_key key) (if isRelease key then 1 else 0) s)
      | InputContextUpdatePreedit i a \<Rightarrow> Some (True, s)
      | _ \<Rightarrow> Some (False, s))"

section \<open>Starting and stopping\<close>

definition fcitx_ipc_init :: "u32 \<Rightarrow> manager \<Rightarrow> bool \<Rightarrow> fcitx_dbus \<Rightarrow> fcitx_ipc option" where
  "fcitx_ipc_init fe m registered bus =
     (let s = fcitx_dbus.extend bus
        \<lparr>icManager = m, object_paths = [], senderToIC = fcitx_dict_new True,
         frontendDataId = fcitx_input_context_manager_lookup_property FCITX_FRONTEND_DATA_PROPERTY m,
         appNameId = fcitx_input_context_manager_lookup_property FCITX_APPLICATION_NAME_PROPERTY m,
         frontendId = fe, strings = (\<lambda>_. None), next_string = 1, bus_signals = []\<rparr>
      in if \<not> registered then None else Some (s\<lparr>object_paths := [bytes ''/inputmethod'']\<rparr>))"

definition fcitx_ipc_destroy :: "fcitx_ipc \<Rightarrow> ipc_sender list option" where
  "fcitx_ipc_destroy s = do {
     t \<leftarrow> fcitx_dict_remove_all (senderToIC s);
     Some (destroyed t) }"

end
