(* ===== verification/InputContext_Kept.thy ===== *)
theory InputContext_Kept
  imports InputContext_Policy
begin

text \<open>
  What the operations of the input context manager keep of the contexts of a frontend: which there are,
  their ids and makers, and the property in the first slot, with what making and destroying one changes.
\<close>

section \<open>What the operations of the manager keep\<close>

text \<open>The contexts, who made them, and the property in the first slot.\<close>

definition kept :: "manager \<Rightarrow> manager \<Rightarrow> bool" where
  "kept m m' \<longleftrightarrow> ics m' = ics m \<and> propertySlots m' = propertySlots m \<and>
     (\<forall>a. ic_id (contexts m' a) = ic_id (contexts m a) \<and> frontend (contexts m' a) = frontend (contexts m a) \<and>
        ic_destroyNotify (contexts m' a) = ic_destroyNotify (contexts m a) \<and> property_at a 0 m' = property_at a 0 m)"

lemma kept_refl [simp]: "kept m m"
  by (simp add: kept_def)

lemma kept_trans: "kept m m' \<Longrightarrow> kept m' m'' \<Longrightarrow> kept m m''"
  by (simp add: kept_def)

lemma kept_eq: "kept m' m'' \<Longrightarrow> kept m m'' = kept m m'"
  by (auto simp: kept_def)

lemma update_kept:
  "kept m (log_call e m)" "kept m (post e m)" "kept m (upd_group g f m)"
  "kept m (upd_ic a (flags_update f1) m)" "kept m (upd_ic a (rect_update f2) m)"
  "kept m (upd_ic a (focused_update f3) m)" "kept m (upd_ic a (group_update f4) m)"
  "kept m (upd_ic a (surroundingText_update f5) m)"
  "kept m (upd_ic a (\<lambda>c. c\<lparr>cursor := x, anchor := y\<rparr>) m)"
  "kept m (upd_policy p f6 m)" "kept m (m\<lparr>heads := hs\<rparr>)" "kept m (m\<lparr>heads := hs, next_head := n\<rparr>)"
  by (auto simp: kept_def property_at_def upd_policy_def upd_group_def log_call_def post_def)

lemmas updates_kept [simp] = update_kept [THEN kept_eq]

lemma kept_fold: "(\<And>x m m'. kept m (f x m') = kept m m') \<Longrightarrow> kept m (fold f xs m') = kept m m'"
  by (induction xs arbitrary: m') simp_all

lemma set_focus_kept [simp]: "kept m (fcitx_input_context_group_set_focus g ic m') = kept m m'"
  by (simp add: fcitx_input_context_group_set_focus_def fcitx_input_context_focus_in_internal_def
      fcitx_input_context_focus_out_internal_def Let_def split: option.split)

lemma focus_kept [simp]:
  "kept m (fcitx_input_context_focus_in a m') = kept m m'" "kept m (fcitx_input_context_focus_out a m') = kept m m'"
  by (simp_all add: fcitx_input_context_focus_in_def fcitx_input_context_focus_out_def Let_def kept_fold
      fcitx_input_context_focus_in_internal_def fcitx_input_context_focus_out_internal_def split: option.split)

lemma set_focus_group_internal_kept [simp]:
  "kept m (fcitx_input_context_set_focus_group_internal a g m') = kept m m'"
  by (simp add: fcitx_input_context_set_focus_group_internal_def Let_def split: option.split)

lemma operations_kept [simp]:
  "kept m (fcitx_input_context_set_focus_group a ty g m') = kept m m'"
  "kept m (fcitx_input_context_reset a m') = kept m m'"
  "kept m (fcitx_input_context_set_cursor_rect a r m') = kept m m'"
  "kept m (fcitx_input_context_set_capability_flags a fl m') = kept m m'"
  "kept m (fcitx_input_context_set_surrounding_text a str cur anc m') = kept m m'"
  "kept m (snd (fcitx_input_context_process_key_event cb a ke m')) = kept m m'"
  by (simp_all add: fcitx_input_context_set_focus_group_def fcitx_input_context_reset_def
      fcitx_input_context_set_cursor_rect_def fcitx_input_context_set_capability_flags_def
      fcitx_input_context_set_surrounding_text_def fcitx_input_context_process_key_event_def Let_def
      split: option.split)

text \<open>The first slot is a plain one: its data is set as it is given, never shared and never copied.\<close>

definition plain_slot :: "property_slot list \<Rightarrow> bool" where
  "plain_slot slots \<longleftrightarrow> slots \<noteq> [] \<and> slot_policy (slots ! 0) = None \<and> copyProperty (slots ! 0) = None \<and>
     setProperty (slots ! 0) = None"

lemma pad_kept [simp]: "kept m (upd_ic a (properties_update (\<lambda>ps. ps @ replicate (n - length ps) None)) m') = kept m m'"
proof (rule kept_eq)
  have "upd_ic a (properties_update (\<lambda>ps. ps @ replicate (n - length ps) None)) m' =
      upd_ic a (properties_update (\<lambda>ps. ps @ replicate (n - length (properties (contexts m' a))) None)) m'"
    by (cases "contexts m' a") (simp add: upd_ic_def)
  then show "kept m' (upd_ic a (properties_update (\<lambda>ps. ps @ replicate (n - length ps) None)) m')"
    by (simp add: kept_def property_at_pad)
qed

lemma put_kept [simp]: "0 < i \<Longrightarrow> kept m (put_property a i q m') = kept m m'"
  by (rule kept_eq) (simp add: kept_def property_at_put, simp add: put_property_def)

lemma entry_kept: "0 < i \<Longrightarrow> fcitx_input_context_get_property_entry a i m' = (q, m'') \<Longrightarrow> kept m m'' = kept m m'"
  by (auto simp: fcitx_input_context_get_property_entry_def Let_def split: option.splits)

lemma copy_one_kept: "plain_slot (propertySlots m') \<Longrightarrow> kept m (copy_one a s i m') = kept m m'"
proof (cases i)
  case (Suc k)
  then have i: "0 < i" by simp
  then show ?thesis
    by (auto simp: copy_one_def Let_def entry_kept [OF i] split: option.split prod.split)
qed (simp add: copy_one_def plain_slot_def)

lemma copy_state_kept: "plain_slot (propertySlots m') \<Longrightarrow> kept m (fcitx_input_context_copy_state a s i m') = kept m m'"
proof -
  have "kept x (fold (copy_one a s) is x) \<and> propertySlots (fold (copy_one a s) is x) = propertySlots x"
    if "plain_slot (propertySlots x)" for "is" x
    using that
  proof (induction "is" arbitrary: x)
    case (Cons j js)
    have 1: "kept x (copy_one a s j x)" using Cons.prems by (simp add: copy_one_kept)
    then have "propertySlots (copy_one a s j x) = propertySlots x" by (simp add: kept_def)
    then have "kept (copy_one a s j x) (fold (copy_one a s) js (copy_one a s j x)) \<and>
        propertySlots (fold (copy_one a s) js (copy_one a s j x)) = propertySlots x" using Cons by simp
    then show ?case using kept_trans [OF 1] by simp
  qed simp
  then show "plain_slot (propertySlots m') \<Longrightarrow> kept m (fcitx_input_context_copy_state a s i m') = kept m m'"
    by (intro kept_eq) (simp add: fcitx_input_context_copy_state_def Let_def)
qed

lemma share_state_kept:
  assumes "plain_slot (propertySlots m)" and "share_state a i m = Some m'" shows "kept m m'"
proof -
  have f: "kept x (fold (\<lambda>b m. if b \<noteq> a then fcitx_input_context_copy_state b a j m else m) bs x)"
    if "plain_slot (propertySlots x)" for bs j x
    using that
  proof (induction bs arbitrary: x)
    case (Cons b bs)
    let ?y = "if b \<noteq> a then fcitx_input_context_copy_state b a j x else x"
    have 1: "kept x ?y" using Cons.prems by (simp add: copy_state_kept)
    then have "propertySlots ?y = propertySlots x" by (simp add: kept_def)
    then have "kept ?y (fold (\<lambda>b m. if b \<noteq> a then fcitx_input_context_copy_state b a j m else m) bs ?y)"
      using Cons by simp
    with kept_trans [OF 1] show ?case by simp
  qed simp
  show ?thesis
  proof (cases "policy m")
    case None
    then show ?thesis using assms by (simp add: share_state_def)
  next
    case (Some p)
    show ?thesis
      using assms Some unfolding share_state_def Let_def
      by (auto simp: bind_eq_Some_conv split: option.splits intro!: f)
  qed
qed

lemma policy_link_kept:
  assumes "0 < i" and "policy_link a i p m = Some m'" shows "kept m m'"
proof -
  obtain q where q: "property_at a i m = Some q" using assms by (auto simp: policy_link_def split: option.splits)
  show ?thesis
    using assms q
    by (cases "fcitx_dict_lookup (propertyKey (policies m ! p) (prop_data q)) (propertyDict (policies m ! p))")
       (auto simp: policy_link_def Let_def bind_eq_Some_conv split: if_splits)
qed

lemma same_contexts_kept: "same_contexts m m' \<Longrightarrow> kept m m'"
  by (simp add: same_contexts_def kept_def property_at_def)

text \<open>Setting a property of another slot keeps the first; setting the first changes that of the context.\<close>

lemma set_property_kept:
  assumes plain: "plain_slot (propertySlots m)" and set: "fcitx_input_context_set_property a pid d m = Some (r, m')"
    and that: "pid \<noteq> 0"
  shows "kept m m'"
proof (cases "pid < 0 \<or> nat pid \<ge> length (propertySlots m)")
  case True
  then show ?thesis using set by (auto simp: fcitx_input_context_set_property_def)
next
  case False
  let ?i = "nat pid"
  let ?slot = "propertySlots m ! ?i"
  have i: "0 < ?i" using False that by simp
  obtain q m1 where e: "fcitx_input_context_get_property_entry a ?i m = (q, m1)" by fastforce
  obtain m2 where m2: "(case slot_policy ?slot of None \<Rightarrow> Some m1 | Some p \<Rightarrow> policy_unlink a q (Some p) m1) = Some m2"
    using set False e by (auto simp: fcitx_input_context_set_property_def Let_def bind_eq_Some_conv)
  define q1 where "q1 = (if slot_policy ?slot \<noteq> None then q\<lparr>prop_head := None\<rparr> else q)"
  define q2 where "q2 = q1\<lparr>prop_data := (case setProperty ?slot of Some f \<Rightarrow> f (prop_data q1) d | None \<Rightarrow> d)\<rparr>"
  obtain m4 where m4: "(case slot_policy ?slot of None \<Rightarrow> Some (put_property a ?i q2 m2)
        | Some p \<Rightarrow> policy_link a ?i p (put_property a ?i q2 m2)) = Some m4"
    and m5: "share_state a ?i m4 = Some m'"
    using set False e m2 unfolding q2_def q1_def
    by (cases "slot_policy ?slot"; cases "setProperty ?slot")
       (auto simp: fcitx_input_context_set_property_def Let_def bind_eq_Some_conv)
  have "kept m m1" using entry_kept [OF i e, of m] by simp
  moreover have "kept m1 m2" using m2 by (auto split: option.splits intro: same_contexts_kept policy_unlink_frame)
  moreover have "kept m2 m4" 
    using m4 i policy_link_kept [OF i, of a _ "put_property a ?i q2 m2" m4] kept_trans [of m2 "put_property a ?i q2 m2" m4]
    by (cases "slot_policy ?slot") auto
  ultimately have k: "kept m m4" by (blast intro: kept_trans)
  then have "plain_slot (propertySlots m4)" using plain by (simp add: kept_def)
  from kept_trans [OF k share_state_kept [OF this m5]] show ?thesis .
qed

lemma set_first_property:
  assumes plain: "plain_slot (propertySlots m)" and set: "fcitx_input_context_set_property a 0 d m = Some (r, m')"
  shows "ics m' = ics m \<and> propertySlots m' = propertySlots m \<and>
    (\<forall>b. ic_id (contexts m' b) = ic_id (contexts m b) \<and> frontend (contexts m' b) = frontend (contexts m b) \<and>
       ic_destroyNotify (contexts m' b) = ic_destroyNotify (contexts m b) \<and>
       (b \<noteq> a \<longrightarrow> property_at b 0 m' = property_at b 0 m)) \<and>
    map_option prop_data (property_at a 0 m') = Some d"
proof -
  obtain q m1 where e: "fcitx_input_context_get_property_entry a 0 m = (q, m1)" by fastforce
  let ?m = "put_property a 0 (q\<lparr>prop_data := d\<rparr>) m1"
  have n: "0 < length (propertySlots m)" "slot_policy (propertySlots m ! 0) = None" "setProperty (propertySlots m ! 0) = None"
    using plain by (simp_all add: plain_slot_def)
  have m': "share_state a 0 ?m = Some m'"
    using set n e by (auto simp: fcitx_input_context_set_property_def Let_def bind_eq_Some_conv)
  note ok = get_entry_ok [OF e]
  have s: "propertySlots m1 = propertySlots m" using ok(2) by (simp add: same_links_def)
  then have "kept ?m m'" using plain by (intro share_state_kept [OF _ m']) simp
  moreover have "frontend (contexts ?m b) = frontend (contexts m b) \<and> ic_id (contexts ?m b) = ic_id (contexts m b) \<and>
      ic_destroyNotify (contexts ?m b) = ic_destroyNotify (contexts m b)" for b
    using e by (auto simp: fcitx_input_context_get_property_entry_def put_property_def Let_def split: option.splits)
  ultimately show ?thesis
    using s ok(1,4) ok(7) [of _ 0] by (auto simp: kept_def property_at_put)
qed

text \<open>Making and destroying contexts.\<close>

lemma new_context_kept:
  assumes inv: "ic_inv m" and new: "fcitx_input_context_new fe d u m = (Some a, m')"
  shows "a \<notin> set (ics m)" "ics m' = ics m @ [a]" "propertySlots m' = propertySlots m"
    "frontend (contexts m' a) = fe" "ic_destroyNotify (contexts m' a) = d" "property_at a 0 m' = None"
    "b \<noteq> a \<Longrightarrow> contexts m' b = contexts m b"
    "b \<in> set (ics m) \<Longrightarrow> ic_id (contexts m b) \<noteq> ic_id (contexts m' a)"
proof -
  note n = new_inv [OF inv new, simplified]
  show "a \<notin> set (ics m)" "ics m' = ics m @ [a]" "b \<noteq> a \<Longrightarrow> contexts m' b = contexts m b" using n by auto
  show "property_at a 0 m' = None" using n by (simp add: property_at_def)
  have "identity_ok m" using inv by (simp add: ic_inv_def)
  from get_input_context_iff [OF this, of "ic_id (contexts m' a)" b]
  show "b \<in> set (ics m) \<Longrightarrow> ic_id (contexts m b) \<noteq> ic_id (contexts m' a)" using n by auto
  show "propertySlots m' = propertySlots m" using new_links [OF new] by (simp add: same_links_def)
  have "frontend (contexts m' a) = fe \<and> ic_destroyNotify (contexts m' a) = d"
  proof (cases "freeList m")
    case (Cons b bs)
    then show ?thesis using new new_reuse [OF Cons, of fe d u] by auto
  next
    case Nil
    then show ?thesis
      using new new_fresh [OF Nil, of fe d u] new_taken [OF Nil, of _ fe d u]
      by (cases "fcitx_input_context_manager_get_input_context (next_icid (icid m)) m") auto
  qed
  then show "frontend (contexts m' a) = fe" "ic_destroyNotify (contexts m' a) = d" by simp_all
qed

lemma destroy_context_kept:
  assumes inv: "ic_inv m" and d: "fcitx_input_context_destroy a m = Some m'"
  shows "ics m' = remove1 a (ics m) \<and> propertySlots m' = propertySlots m \<and>
    (\<forall>b. ic_id (contexts m' b) = ic_id (contexts m b) \<and> frontend (contexts m' b) = frontend (contexts m b) \<and>
       ic_destroyNotify (contexts m' b) = ic_destroyNotify (contexts m b) \<and> property_at b 0 m' = property_at b 0 m)"
proof (cases "a \<in> set (ics m)")
  case False
  then show ?thesis using d inv by (simp add: destroy_eq ic_inv_def remove1_idem)
next
  case True
  obtain x where x: "fcitx_input_context_destroy_internal a (detached a m) = Some x"
    and m': "m' = x\<lparr>ics := remove1 a (ics x), ics_by_uuid := remove1 a (ics_by_uuid x), freeList := a # freeList x\<rparr>"
    using inv True d by (auto simp: destroy_eq ic_inv_def)
  have "kept m (detached a m)" by (simp add: detached_def Let_def)
  moreover have "kept (detached a m) x"
    using x by (auto simp: fcitx_input_context_destroy_internal_def Let_def split: if_splits
        dest!: free_properties_frame same_contexts_kept intro: kept_trans [rotated])
  ultimately have "kept m x" by (rule kept_trans)
  moreover have "property_at b 0 m' = property_at b 0 x" for b by (simp add: m' property_at_def)
  ultimately show ?thesis by (simp add: m' kept_def)
qed

end
