(* ===== verification/IpcFrontend_Safety.thy ===== *)
theory IpcFrontend_Safety
  imports IpcFrontend InputContext_Kept
begin

text \<open>
  The frontend for clients on the message bus: the invariant that ties the contexts of the manager to the
  objects, the clients and the watches of the frontend, that every call keeps it, and that the contexts of
  a client that leaves the bus are destroyed.
\<close>

section \<open>The invariant\<close>

text \<open>The contexts of the frontend, and those of a client.\<close>

definition contexts_of :: "fcitx_ipc \<Rightarrow> nat set" where
  "contexts_of s = {a \<in> set (ics (icManager s)). ic_destroyNotify (contexts (icManager s) a) \<and>
     frontend (contexts (icManager s) a) = frontendId s}"

definition name_string :: "fcitx_ipc \<Rightarrow> nat \<Rightarrow> nat" where
  "name_string s a = fcitx_input_context_get_property a (frontendDataId s) (icManager s)"

definition clients_of :: "fcitx_ipc \<Rightarrow> cstr \<Rightarrow> nat set" where
  "clients_of s name = {a \<in> contexts_of s. strings s (name_string s a) = Some name}"

definition watches :: "fcitx_ipc \<Rightarrow> cstr \<Rightarrow> int list" where
  "watches s name = (case fcitx_dict_lookup name (senderToIC s) of Some d \<Rightarrow> [watchId d] | None \<Rightarrow> [])"

definition manager_fine :: "fcitx_ipc \<Rightarrow> bool" where
  "manager_fine s \<longleftrightarrow> ic_reachable (icManager s) \<and> shared_uncopied (icManager s) \<and>
     plain_slot (propertySlots (icManager s)) \<and> frontendDataId s = 0"

definition names_ok :: "fcitx_ipc \<Rightarrow> bool" where
  "names_ok s \<longleftrightarrow> inj_on (name_string s) (contexts_of s) \<and>
     (\<forall>a \<in> contexts_of s. name_string s a < next_string s \<and>
        (\<exists>name d. strings s (name_string s a) = Some name \<and> fcitx_dict_lookup name (senderToIC s) = Some d))"

definition senders_ok :: "fcitx_ipc \<Rightarrow> bool" where
  "senders_ok s \<longleftrightarrow> dict_ok (senderToIC s) \<and>
     (\<forall>name d. fcitx_dict_lookup name (senderToIC s) = Some d \<longrightarrow>
        sender_ics d \<noteq> [] \<and> distinct (sender_ics d) \<and> set (sender_ics d) = clients_of s name)"

definition object_of :: "fcitx_ipc \<Rightarrow> nat \<Rightarrow> cstr" where
  "object_of s a = ipc_path (ic_id (contexts (icManager s) a))"

definition objects_ok :: "fcitx_ipc \<Rightarrow> bool" where
  "objects_ok s \<longleftrightarrow> distinct (object_paths s) \<and>
     set (object_paths s) = insert (bytes ''/inputmethod'') (object_of s ` contexts_of s)"

definition ipc_ok :: "fcitx_ipc \<Rightarrow> bool" where
  "ipc_ok s \<longleftrightarrow> manager_fine s \<and> names_ok s \<and> senders_ok s \<and> objects_ok s \<and> watch_ok s (watches s)"

lemmas ipc_defs = ipc_ok_def manager_fine_def names_ok_def senders_ok_def objects_ok_def

section \<open>The bus\<close>

lemma more_fold [simp]: "fcitx_dbus.more (fold table_callback es s) = fcitx_dbus.more s"
proof (induction es arbitrary: s)
  case (Cons e es)
  have "fcitx_dbus.more (table_callback e s) = fcitx_dbus.more s"
    by (cases e) (simp_all add: fcitx_dbus_add_match_def fcitx_dbus_remove_match_def fcitx_dbus_watch_name_notify_free_def)
  with Cons show ?case by simp
qed simp

text \<open>Calls of the bus module keep the state of the frontend.\<close>

definition same_ipc :: "fcitx_ipc \<Rightarrow> fcitx_ipc \<Rightarrow> bool" where
  "same_ipc s s' \<longleftrightarrow> icManager s' = icManager s \<and> object_paths s' = object_paths s \<and> senderToIC s' = senderToIC s \<and>
     frontendDataId s' = frontendDataId s \<and> appNameId s' = appNameId s \<and> frontendId s' = frontendId s \<and>
     strings s' = strings s \<and> next_string s' = next_string s \<and> bus_signals s' = bus_signals s"

lemma same_more: "fcitx_dbus.more s' = fcitx_dbus.more s \<Longrightarrow> same_ipc s s'"
  by (cases s; cases s') (simp add: same_ipc_def)

lemma bus_same:
  "fcitx_dbus_watch_name name func dst data s = Some (i, s') \<Longrightarrow> same_ipc s s'"
  "fcitx_dbus_remove_watch i s = Some s' \<Longrightarrow> same_ipc s s'"
  by (auto simp: fcitx_dbus_watch_name_def fcitx_dbus_remove_watch_def put_table_def bind_eq_Some_conv intro!: same_more)

lemma watch_ok_frame: "handler s' = handler s \<Longrightarrow> match_rules s' = match_rules s \<Longrightarrow> watch_ok s' c = watch_ok s c"
  by (simp add: watch_ok_def)

section \<open>Destroying\<close>

lemma dict_put:
  assumes "dict_ok t" and "fcitx_dict_lookup name t = Some d"
  shows "dict_ok (t\<lparr>items := AList.update name d' (items t)\<rparr>)"
    "fcitx_dict_lookup k (t\<lparr>items := AList.update name d' (items t)\<rparr>) = (if k = name then Some d' else fcitx_dict_lookup k t)"
proof -
  have "name \<in> fst ` set (items t)"
    using assms(2) by (auto simp: fcitx_dict_lookup_def HASH_FIND_def dest: map_of_SomeD intro: rev_image_eqI)
  then show "dict_ok (t\<lparr>items := AList.update name d' (items t)\<rparr>)"
    using assms(1) by (simp add: dict_ok_def length_update distinct_update)
  show "fcitx_dict_lookup k (t\<lparr>items := AList.update name d' (items t)\<rparr>) = (if k = name then Some d' else fcitx_dict_lookup k t)"
    by (simp add: fcitx_dict_lookup_def HASH_FIND_def update_conv')
qed

lemma dict_drop:
  assumes "dict_ok t" and "fcitx_dict_lookup name t = Some d"
  shows "\<exists>v t'. fcitx_dict_remove name False t = Some (True, v, t') \<and> dict_ok t' \<and>
    (\<forall>k. fcitx_dict_lookup k t' = (if k = name then None else fcitx_dict_lookup k t))"
proof -
  obtain t' where "fcitx_dict_remove name False t = Some (True, None, t')" "dict_ok t'"
    "items t' = AList.delete name (items t)"
    using remove_ok [OF assms(1), of name d False] assms(2) by (auto simp: fcitx_dict_lookup_def)
  then show ?thesis by (auto simp: fcitx_dict_lookup_def HASH_FIND_def delete_conv')
qed

lemma put_sender_fields [simp]:
  "icManager (put_sender name d s) = icManager s" "object_paths (put_sender name d s) = object_paths s"
  "frontendDataId (put_sender name d s) = frontendDataId s" "appNameId (put_sender name d s) = appNameId s"
  "frontendId (put_sender name d s) = frontendId s" "strings (put_sender name d s) = strings s"
  "next_string (put_sender name d s) = next_string s" "handler (put_sender name d s) = handler s"
  "match_rules (put_sender name d s) = match_rules s" "notified (put_sender name d s) = notified s"
  "watch_ok (put_sender name d s) c = watch_ok s c"
  by (simp_all add: put_sender_def watch_ok_def)

text \<open>The state of the bus after a context of the client is gone.\<close>

definition left_bus :: "fcitx_ipc \<Rightarrow> fcitx_ipc \<Rightarrow> ipc_sender \<Rightarrow> bool \<Rightarrow> bool" where
  "left_bus s s' d gone \<longleftrightarrow> notified s' = notified s \<and>
     (if gone then leaves (watchId d) (handler s) (handler s') else handler s' = handler s)"

lemma unlink_client:
  assumes ok: "ipc_ok s" and a: "a \<in> clients_of s name" and d: "fcitx_dict_lookup name (senderToIC s) = Some d"
  shows "\<exists>s'. fcitx_ipc_destroy_input_context a s = Some s' \<and> icManager s' = icManager s \<and>
    object_paths s' = remove1 (object_of s a) (object_paths s) \<and> frontendDataId s' = frontendDataId s \<and>
    frontendId s' = frontendId s \<and> next_string s' = next_string s \<and>
    strings s' = (strings s)(name_string s a := None) \<and> dict_ok (senderToIC s') \<and>
    (\<forall>k. fcitx_dict_lookup k (senderToIC s') =
       (if k = name then if remove1 a (sender_ics d) = [] then None else Some (d\<lparr>sender_ics := remove1 a (sender_ics d)\<rparr>)
        else fcitx_dict_lookup k (senderToIC s))) \<and>
    watch_ok s' (watches s') \<and> left_bus s s' d (remove1 a (sender_ics d) = [])"
proof -
  let ?l = "remove1 a (sender_ics d)"
  let ?s = "s\<lparr>object_paths := remove1 (object_of s a) (object_paths s)\<rparr>"
  let ?s1 = "put_sender name (d\<lparr>sender_ics := ?l\<rparr>) ?s"
  have t: "dict_ok (senderToIC s)" using ok by (simp add: ipc_defs)
  note put = dict_put [OF t d]
  have w: "watch_ok s (watches s)" "watches s name = [] @ watchId d # []" using ok d by (auto simp: ipc_ok_def watches_def)
  have str: "strings s (name_string s a) = Some name" using a by (simp add: clients_of_def)
  have dict1: "dict_ok (senderToIC ?s1)"
    "fcitx_dict_lookup k (senderToIC ?s1) = (if k = name then Some (d\<lparr>sender_ics := ?l\<rparr>) else fcitx_dict_lookup k (senderToIC s))" for k
    using put by (simp_all add: put_sender_def)
  have run: "fcitx_ipc_destroy_input_context a s = do {
      x \<leftarrow> (if ?l = [] then do {
             y \<leftarrow> fcitx_dbus_remove_watch (watchId d) ?s1;
             (_, _, t) \<leftarrow> fcitx_dict_remove name False (senderToIC y);
             Some (y\<lparr>senderToIC := t\<rparr>) } else Some ?s1);
      Some (x\<lparr>strings := (strings x)(name_string s a := None)\<rparr>) }"
    using d str by (simp add: fcitx_ipc_destroy_input_context_def Let_def name_string_def object_of_def)
  show ?thesis
  proof (cases "?l = []")
    case False
    let ?s' = "?s1\<lparr>strings := (strings ?s1)(name_string s a := None)\<rparr>"
    have "fcitx_ipc_destroy_input_context a s = Some ?s'" using run False by simp
    moreover have "watches ?s' = watches s" using dict1(2) d by (auto simp: watches_def fun_eq_iff)
    then have "watch_ok ?s' (watches ?s')" using w by (simp add: watch_ok_def)
    ultimately show ?thesis using dict1 False by (simp add: left_bus_def)
  next
    case True
    have w1: "watch_ok ?s1 (watches s)" using w(1) by (simp add: watch_ok_def)
    obtain s2 where s2: "fcitx_dbus_remove_watch (watchId d) ?s1 = Some s2" "watch_ok s2 ((watches s)(name := [] @ []))"
      "notified s2 = notified ?s1" "leaves (watchId d) (handler ?s1) (handler s2)"
      using remove_watch_run [OF w1 w(2)] by blast
    have same: "same_ipc ?s1 s2" using s2(1) by (rule bus_same)
    obtain v t' where t': "fcitx_dict_remove name False (senderToIC s2) = Some (True, v, t')" "dict_ok t'"
      "\<forall>k. fcitx_dict_lookup k t' = (if k = name then None else fcitx_dict_lookup k (senderToIC s2))"
      using dict_drop [of "senderToIC s2" name "d\<lparr>sender_ics := ?l\<rparr>"] dict1 same by (auto simp: same_ipc_def)
    let ?s' = "s2\<lparr>senderToIC := t', strings := (strings s2)(name_string s a := None)\<rparr>"
    have "fcitx_ipc_destroy_input_context a s = Some ?s'" using run True s2(1) t'(1) by simp
    moreover have lk: "fcitx_dict_lookup k t' = (if k = name then None else fcitx_dict_lookup k (senderToIC s))" for k
      using t'(3) dict1(2) same by (simp add: same_ipc_def)
    then have "watches ?s' = (watches s)(name := [])" by (auto simp: watches_def fun_eq_iff)
    then have "watch_ok ?s' (watches ?s')" using s2(2) by (simp add: watch_ok_def)
    ultimately show ?thesis
      using t'(2) True lk same s2(3,4) by (simp add: left_bus_def same_ipc_def)
  qed
qed

text \<open>The invariant depends on the manager through what its operations keep.\<close>

definition seen :: "fcitx_ipc \<Rightarrow> fcitx_ipc \<Rightarrow> bool" where
  "seen s s' \<longleftrightarrow> ipc_ok s' \<and> ics (icManager s') = ics (icManager s) \<and> contexts_of s' = contexts_of s \<and> (\<forall>k. clients_of s' k = clients_of s k)"

lemma manager_kept:
  assumes ok: "ipc_ok s" and kept: "kept (icManager s) m" and reach: "ic_reachable m"
  shows "seen s (s\<lparr>icManager := m\<rparr>)"
proof -
  let ?s = "s\<lparr>icManager := m\<rparr>"
  have c: "contexts_of ?s = contexts_of s" using kept by (auto simp: contexts_of_def kept_def)
  have n: "name_string ?s a = name_string s a" for a
    using kept ok by (simp add: name_string_def fcitx_input_context_get_property_def kept_def ipc_defs)
  have cl: "clients_of ?s k = clients_of s k" for k by (simp add: clients_of_def c n)
  have "manager_fine ?s" using ok kept reach by (simp add: ipc_defs kept_def shared_uncopied_def)
  moreover have "names_ok ?s" using ok by (simp add: ipc_ok_def names_ok_def c n inj_on_def)
  moreover have "senders_ok ?s" using ok by (simp add: ipc_ok_def senders_ok_def cl)
  moreover have "object_of ?s = object_of s" using kept by (simp add: object_of_def kept_def fun_eq_iff)
  then have "objects_ok ?s" using ok by (simp add: ipc_ok_def objects_ok_def c)
  moreover have "watches ?s = watches s" by (simp add: watches_def fun_eq_iff)
  then have "watch_ok ?s (watches ?s)" using ok by (simp add: ipc_ok_def watch_ok_def)
  ultimately show ?thesis using c cl kept by (simp add: seen_def ipc_ok_def kept_def)
qed

lemma path_inj: "ipc_path i = ipc_path j \<longleftrightarrow> i = j"
  by (simp add: ipc_path_def decimal_nat_inj flip: word_unat_eq_iff)

text \<open>Destroying a context of the manager, of the frontend or not.\<close>

definition without :: "nat \<Rightarrow> fcitx_ipc \<Rightarrow> fcitx_ipc \<Rightarrow> bool" where
  "without a s s' \<longleftrightarrow> ipc_ok s' \<and> ics (icManager s') = remove1 a (ics (icManager s)) \<and>
     contexts_of s' = contexts_of s - {a} \<and> (\<forall>k. clients_of s' k = clients_of s k - {a})"

lemma destroyed_part:
  assumes ok: "ipc_ok s" and d: "fcitx_input_context_destroy a (icManager s) = Some m" and a: "a \<in> set (ics (icManager s))"
    and s': "icManager s' = m" "frontendDataId s' = frontendDataId s" "frontendId s' = frontendId s"
  shows "manager_fine s'" "contexts_of s' = contexts_of s - {a}" "name_string s' b = name_string s b" "object_of s' b = object_of s b"
    "ics (icManager s') = remove1 a (ics (icManager s))"
proof -
  have r: "ic_reachable (icManager s)" "shared_uncopied (icManager s)" using ok by (simp_all add: ipc_defs)
  then have inv: "ic_inv (icManager s)" by (simp add: ic_reachable_inv)
  note dr = destroy_reachable [OF r d a]
  note dc = destroy_context_kept [OF inv d]
  show "manager_fine s'" using ok dr dc s' by (simp add: ipc_defs)
  have dist: "distinct (ics (icManager s))" using inv by (auto simp: ic_inv_def identity_ok_def)
  show "contexts_of s' = contexts_of s - {a}" using dc s' dist by (auto simp: contexts_of_def)
  show "name_string s' b = name_string s b"
    using ok dc s' by (simp add: name_string_def fcitx_input_context_get_property_def ipc_defs)
  show "object_of s' b = object_of s b" using dc s' by (simp add: object_of_def)
  show "ics (icManager s') = remove1 a (ics (icManager s))" using dc s' by simp
qed

lemma objects_without:
  assumes ok: "ipc_ok s" and a: "a \<in> contexts_of s"
    and s': "object_paths s' = remove1 (object_of s a) (object_paths s)" "contexts_of s' = contexts_of s - {a}"
      "\<And>b. object_of s' b = object_of s b"
  shows "objects_ok s'"
proof -
  have "ic_inv (icManager s)" using ok by (auto simp: ipc_defs intro: ic_reachable_inv)
  then have inj: "inj_on (object_of s) (contexts_of s)"
    by (auto simp: inj_on_def object_of_def contexts_of_def path_inj ic_inv_def identity_ok_def distinct_map dest: inj_onD)
  have ne: "object_of s a \<noteq> bytes ''/inputmethod''" by (simp add: object_of_def ipc_path_def bytes_def)
  have o: "distinct (object_paths s)" "set (object_paths s) = insert (bytes ''/inputmethod'') (object_of s ` contexts_of s)"
    using ok by (simp_all add: ipc_defs)
  have "object_of s ` (contexts_of s - {a}) = object_of s ` contexts_of s - {object_of s a}"
    using inj a by (auto dest: inj_onD)
  then show ?thesis using o ne s' by (auto simp: objects_ok_def)
qed

lemma destroy_own:
  assumes ok: "ipc_ok s" and a: "a \<in> clients_of s name" and d: "fcitx_dict_lookup name (senderToIC s) = Some d"
  shows "\<exists>s'. destroy_context_of a s = Some s' \<and> without a s s' \<and> left_bus s s' d (remove1 a (sender_ics d) = []) \<and>
    fcitx_dict_lookup name (senderToIC s') =
      (if remove1 a (sender_ics d) = [] then None else Some (d\<lparr>sender_ics := remove1 a (sender_ics d)\<rparr>))"
proof -
  let ?m = "icManager s"
  have r: "ic_reachable ?m" "shared_uncopied ?m" using ok by (simp_all add: ipc_defs)
  have inv: "ic_inv ?m" using r(1) by (rule ic_reachable_inv)
  have ac: "a \<in> contexts_of s" and str: "strings s (name_string s a) = Some name" using a by (simp_all add: clients_of_def)
  then have own: "a \<in> set (ics ?m)" "ic_destroyNotify (contexts ?m a)" "frontend (contexts ?m a) = frontendId s"
    by (simp_all add: contexts_of_def)
  have get: "fcitx_input_context_manager_get_input_context (ic_id (contexts ?m a)) ?m = Some a"
    using get_input_context_iff inv own(1) by (simp add: ic_inv_def)
  obtain s1 where s1: "fcitx_ipc_destroy_input_context a s = Some s1" "icManager s1 = ?m"
    "object_paths s1 = remove1 (object_of s a) (object_paths s)" "frontendDataId s1 = frontendDataId s"
    "frontendId s1 = frontendId s" "next_string s1 = next_string s"
    "strings s1 = (strings s)(name_string s a := None)" "dict_ok (senderToIC s1)"
    "\<forall>k. fcitx_dict_lookup k (senderToIC s1) =
       (if k = name then if remove1 a (sender_ics d) = [] then None else Some (d\<lparr>sender_ics := remove1 a (sender_ics d)\<rparr>)
        else fcitx_dict_lookup k (senderToIC s))"
    "watch_ok s1 (watches s1)" "left_bus s s1 d (remove1 a (sender_ics d) = [])"
    using unlink_client [OF ok a d] by blast
  obtain m where m: "fcitx_input_context_destroy a ?m = Some m"
    using destroy_ok [OF inv ic_reachable_props [OF r], of a] by blast
  let ?s = "s1\<lparr>icManager := m\<rparr>"
  have run: "destroy_context_of a s = Some ?s" using get own s1(1,2) m by (simp add: destroy_context_of_def)
  have f: "icManager ?s = m" "frontendDataId ?s = frontendDataId s" "frontendId ?s = frontendId s"
    using s1 by simp_all
  note part = destroyed_part [OF ok m own(1) f]
  have names: "inj_on (name_string s) (contexts_of s)"
    "\<forall>b \<in> contexts_of s. name_string s b < next_string s \<and>
        (\<exists>name d. strings s (name_string s b) = Some name \<and> fcitx_dict_lookup name (senderToIC s) = Some d)"
    using ok by (simp_all add: ipc_defs)
  have other: "name_string s b \<noteq> name_string s a" if "b \<in> contexts_of s" "b \<noteq> a" for b
    using inj_onD [OF names(1)] that ac by blast
  have cl: "clients_of ?s k = clients_of s k - {a}" for k
    using other by (auto simp: clients_of_def part(2,3) s1(7))
  have snd: "\<forall>k e. fcitx_dict_lookup k (senderToIC s) = Some e \<longrightarrow>
      sender_ics e \<noteq> [] \<and> distinct (sender_ics e) \<and> set (sender_ics e) = clients_of s k"
    using ok by (simp add: ipc_defs)
  have notin: "a \<notin> clients_of s k" if "k \<noteq> name" for k using str that by (simp add: clients_of_def)
  have mem: "a \<in> set (sender_ics d)" "distinct (sender_ics d)" "set (sender_ics d) = clients_of s name" using snd d a by auto
  have "names_ok ?s"
    unfolding names_ok_def
  proof (intro conjI ballI)
    show "inj_on (name_string ?s) (contexts_of ?s)" using names(1) by (simp add: part(2,3) inj_on_def)
    fix b assume "b \<in> contexts_of ?s"
    then have b: "b \<in> contexts_of s" "b \<noteq> a" by (simp_all add: part(2))
    then obtain n e where ne: "strings s (name_string s b) = Some n" "fcitx_dict_lookup n (senderToIC s) = Some e"
      using names(2) by blast
    show "name_string ?s b < next_string ?s" using names(2) b s1(6) by (simp add: part(3))
    have "n = name \<Longrightarrow> b \<in> set (sender_ics d)" using mem(3) b ne by (simp add: clients_of_def)
    then have "\<not> (n = name \<and> remove1 a (sender_ics d) = [])" using b(2) mem(1,2)
      by (metis in_set_remove1 list.set(1) empty_iff)
    then show "\<exists>n e. strings ?s (name_string ?s b) = Some n \<and> fcitx_dict_lookup n (senderToIC ?s) = Some e"
      using ne other [OF b] s1(9) by (auto simp: part(3) s1(7))
  qed
  moreover have "senders_ok ?s"
    unfolding senders_ok_def cl
  proof (intro conjI allI impI)
    show "dict_ok (senderToIC ?s)" using s1(8) by simp
    fix k e assume "fcitx_dict_lookup k (senderToIC ?s) = Some e"
    then have e: "k = name \<and> remove1 a (sender_ics d) \<noteq> [] \<and> e = d\<lparr>sender_ics := remove1 a (sender_ics d)\<rparr> \<or>
        k \<noteq> name \<and> fcitx_dict_lookup k (senderToIC s) = Some e"
      using s1(9) by (auto split: if_splits)
    then show "sender_ics e \<noteq> []" "distinct (sender_ics e)" "set (sender_ics e) = clients_of s k - {a}"
      using snd mem notin by (auto simp: distinct_remove1)
  qed
  moreover have "objects_ok ?s" using objects_without [OF ok ac, of ?s] s1(3) part(2,4) by simp
  moreover have "watches ?s = watches s1" by (simp add: watches_def fun_eq_iff)
  then have "watch_ok ?s (watches ?s)" using s1(10) by (simp add: watch_ok_def)
  ultimately have "without a s ?s" using part(1,2,5) cl by (simp add: without_def ipc_ok_def)
  moreover have "left_bus s ?s d (remove1 a (sender_ics d) = [])" using s1(11) by (simp add: left_bus_def)
  ultimately show ?thesis using run s1(9) by simp
qed

lemma destroy_other:
  assumes ok: "ipc_ok s" and a: "a \<notin> contexts_of s"
  shows "\<exists>s'. destroy_context_of a s = Some s' \<and> without a s s'"
proof -
  let ?m = "icManager s"
  have r: "ic_reachable ?m" "shared_uncopied ?m" using ok by (simp_all add: ipc_defs)
  have inv: "ic_inv ?m" using r(1) by (rule ic_reachable_inv)
  show ?thesis
  proof (cases "a \<in> set (ics ?m)")
    case False
    then have "fcitx_input_context_manager_get_input_context (ic_id (contexts ?m a)) ?m \<noteq> Some a"
      using get_input_context_iff inv by (simp add: ic_inv_def)
    moreover have "clients_of s k - {a} = clients_of s k" for k using a by (auto simp: clients_of_def)
    ultimately show ?thesis using ok False a by (simp add: destroy_context_of_def without_def remove1_idem)
  next
    case True
    obtain m where m: "fcitx_input_context_destroy a ?m = Some m"
      using destroy_ok [OF inv ic_reachable_props [OF r], of a] by blast
    let ?s = "s\<lparr>icManager := m\<rparr>"
    have run: "destroy_context_of a s = Some ?s"
      using a True m get_input_context_iff inv by (auto simp: destroy_context_of_def contexts_of_def Let_def ic_inv_def)
    note part = destroyed_part [OF ok m True, of ?s, simplified]
    have c: "contexts_of ?s = contexts_of s" using part(2) a by simp
    have cl: "clients_of ?s k = clients_of s k" for k by (simp add: clients_of_def c part(3))
    have "names_ok ?s" using ok by (simp add: ipc_ok_def names_ok_def c part(3) inj_on_def)
    moreover have "senders_ok ?s" using ok by (simp add: ipc_ok_def senders_ok_def cl)
    moreover have "objects_ok ?s" using ok part(4) by (simp add: ipc_ok_def objects_ok_def c image_def)
    moreover have "watches ?s = watches s" by (simp add: watches_def fun_eq_iff)
    then have "watch_ok ?s (watches ?s)" using ok by (simp add: ipc_ok_def watch_ok_def)
    moreover have "clients_of s k - {a} = clients_of s k" for k using a by (auto simp: clients_of_def)
    ultimately show ?thesis using run part(1,5) c cl a by (simp add: without_def ipc_ok_def)
  qed
qed

lemma destroy_context_run:
  assumes ok: "ipc_ok s" shows "\<exists>s'. destroy_context_of a s = Some s' \<and> without a s s'"
proof (cases "a \<in> contexts_of s")
  case True
  then obtain name d where "strings s (name_string s a) = Some name" "fcitx_dict_lookup name (senderToIC s) = Some d"
    using ok by (auto simp: ipc_defs)
  then show ?thesis using destroy_own [OF ok, of a name d] True by (auto simp: clients_of_def)
qed (rule destroy_other [OF ok])

section \<open>A client that leaves\<close>

lemma destroy_sender_run:
  "ipc_ok s \<Longrightarrow> fcitx_dict_lookup name (senderToIC s) = Some d \<Longrightarrow>
   \<exists>s'. destroy_sender name s = Some s' \<and> ipc_ok s' \<and> fcitx_dict_lookup name (senderToIC s') = None \<and>
     set (ics (icManager s')) = set (ics (icManager s)) - clients_of s name \<and>
     contexts_of s' = contexts_of s - clients_of s name \<and>
     (\<forall>k. clients_of s' k = (if k = name then {} else clients_of s k)) \<and>
     notified s' = notified s \<and> leaves (watchId d) (handler s) (handler s')"
proof (induction "sender_ics d" arbitrary: s d)
  case Nil
  then have "sender_ics d \<noteq> []" unfolding ipc_ok_def senders_ok_def by blast
  then show ?case using Nil.hyps by simp
next
  case (Cons a as)
  note ok = \<open>ipc_ok s\<close> and d = \<open>fcitx_dict_lookup name (senderToIC s) = Some d\<close>
  have snd: "distinct (sender_ics d)" "set (sender_ics d) = clients_of s name" using ok d by (simp_all add: ipc_defs)
  then have a: "a \<in> clients_of s name" using Cons.hyps(2) by (metis list.set_intros(1))
  have as: "remove1 a (sender_ics d) = as" by (simp flip: Cons.hyps(2))
  obtain s1 where s1: "destroy_context_of a s = Some s1" "without a s s1" "left_bus s s1 d (as = [])"
    "fcitx_dict_lookup name (senderToIC s1) = (if as = [] then None else Some (d\<lparr>sender_ics := as\<rparr>))"
    using destroy_own [OF ok a d] unfolding as by blast
  have run: "destroy_sender name s = (if as = [] then Some s1 else destroy_sender name s1)"
    using d s1(1) by (subst destroy_sender.simps) (simp flip: Cons.hyps(2))
  have dist: "distinct (ics (icManager s))"
    using ok ic_reachable_inv by (auto simp: ipc_defs ic_inv_def identity_ok_def)
  have other: "a \<notin> clients_of s k" if "k \<noteq> name" for k using a that by (simp add: clients_of_def)
  show ?case
  proof (cases "as = []")
    case True
    then have "clients_of s name = {a}" using snd(2) by (simp flip: Cons.hyps(2))
    then show ?thesis
      using True run s1 dist other by (auto simp: without_def left_bus_def)
  next
    case False
    let ?d = "d\<lparr>sender_ics := as\<rparr>"
    have "as = sender_ics ?d" by simp
    from Cons.hyps(1) [OF this, of s1] obtain s2 where s2: "destroy_sender name s1 = Some s2" "ipc_ok s2"
      "fcitx_dict_lookup name (senderToIC s2) = None"
      "set (ics (icManager s2)) = set (ics (icManager s1)) - clients_of s1 name"
      "contexts_of s2 = contexts_of s1 - clients_of s1 name"
      "\<forall>k. clients_of s2 k = (if k = name then {} else clients_of s1 k)"
      "notified s2 = notified s1" "leaves (watchId ?d) (handler s1) (handler s2)"
      using s1 False by (auto simp: without_def)
    then show ?thesis
      using False run s1(2,3) dist a other by (auto simp: without_def left_bus_def)
  qed
qed

text \<open>The watch of a client that has contexts is the only watch of its name.\<close>

lemma filter_single:
  assumes ok: "watch_ok s c" and c: "c service = [i]" and d: "data_of (handler s) i = Some nt"
    and func: "func nt service oldowner newowner (s\<lparr>notified := notified s @ [(nt_data nt, service, oldowner, newowner)]\<rparr>) = Some s'"
    and l: "leaves i (handler s) (handler s')"
  shows "fcitx_dbus_filter func (NameOwnerChanged (Some (service, oldowner, newowner))) s = Some (True, s')"
proof -
  have h: "handler_ok (handler s) c" using ok by (simp add: watch_ok_def)
  have i: "i \<in> set (c service)" using c by simp
  have inv: "i \<noteq> INVALID" using chain_no_invalid [OF h, of service] i by auto
  have first: "fcitx_handler_table_first service (handler s) = Some i"
    using table_first_last(1) [OF h, of service] c inv
    by (simp add: fcitx_handler_table_first_def fcitx_handler_table_get_by_id_def)
  obtain ob where ob: "fcitx_handler_table_get_obj i (handler s) = Some ob" "cells (handler s) i = Some ob"
    using watch_ok_data [OF ok i] by blast
  have nx: "obj_next ob = INVALID"
    using chain_dl [OF h, of service] c ob(2) by (auto simp: nx_def dest: dl_at [of _ _ "[]"])
  have nt: "obj_data ob = nt" using d ob(2) by (simp add: data_of_def)
  obtain ob1 where "fcitx_handler_table_get_obj i (handler s') = Some ob1" "obj_next ob1 = INVALID"
    using get_obj_leaves [OF l ob(1)] nx by auto
  then have n: "notify_next (notify_pointer i s) s' = Some None"
    using l by (simp add: notify_next_def notify_pointer_def leaves_def fcitx_handler_table_next_def
        fcitx_handler_table_next_id_def fcitx_handler_table_get_by_id_def)
  obtain k where k: "chain_fuel (handler s) = Suc (Suc k)"
    using chain_length [OF h, of service] c by (cases "chain_fuel (handler s)"; cases "chain_fuel (handler s) - 1") auto
  have "notify_get (notify_pointer i s) s = Some nt" using ob nt by (simp add: notify_get_def notify_pointer_def)
  then show ?thesis using first func n by (simp add: fcitx_dbus_filter_def k)
qed

lemma ipc_ok_notified [simp]:
  "ipc_ok (s\<lparr>notified := x\<rparr>) = ipc_ok s" "contexts_of (s\<lparr>notified := x\<rparr>) = contexts_of s"
  "clients_of (s\<lparr>notified := x\<rparr>) k = clients_of s k"
proof -
  have f: "contexts_of (s\<lparr>notified := x\<rparr>) = contexts_of s" "name_string (s\<lparr>notified := x\<rparr>) = name_string s"
    "object_of (s\<lparr>notified := x\<rparr>) = object_of s" "watches (s\<lparr>notified := x\<rparr>) = watches s" for s :: fcitx_ipc
    by (simp_all add: contexts_of_def name_string_def object_of_def watches_def fun_eq_iff)
  show c: "clients_of (s\<lparr>notified := x\<rparr>) k = clients_of s k" for k by (simp add: clients_of_def f)
  show "contexts_of (s\<lparr>notified := x\<rparr>) = contexts_of s" by (rule f)
  show "ipc_ok (s\<lparr>notified := x\<rparr>) = ipc_ok s" by (simp add: ipc_defs f c)
qed

lemma client_left_run:
  assumes ok: "ipc_ok s" and old: "old \<noteq> []"
  shows "\<exists>s'. fcitx_dbus_filter fcitx_ipc_watch_name (NameOwnerChanged (Some (name, old, []))) s =
      Some (clients_of s name \<noteq> {}, s') \<and> ipc_ok s' \<and>
    set (ics (icManager s')) = set (ics (icManager s)) - clients_of s name \<and>
    contexts_of s' = contexts_of s - clients_of s name \<and>
    (\<forall>k. clients_of s' k = (if k = name then {} else clients_of s k))"
proof (cases "fcitx_dict_lookup name (senderToIC s)")
  case None
  then have w: "watches s name = []" by (simp add: watches_def)
  have h: "handler_ok (handler s) (watches s)" using ok by (simp add: ipc_ok_def watch_ok_def)
  have "fcitx_handler_table_first name (handler s) = None"
    using table_first_last(1) [OF h, of name] w
    by (simp add: fcitx_handler_table_first_def fcitx_handler_table_get_by_id_def)
  then have "fcitx_dbus_filter fcitx_ipc_watch_name (NameOwnerChanged (Some (name, old, []))) s = Some (False, s)"
    by (simp add: fcitx_dbus_filter_def)
  moreover have "clients_of s name = {}"
    using ok None by (fastforce simp: clients_of_def ipc_ok_def names_ok_def)
  ultimately show ?thesis using ok by auto
next
  case (Some d)
  have w: "watch_ok s (watches s)" "watches s name = [watchId d]" using ok Some by (simp_all add: ipc_ok_def watches_def)
  obtain nt where nt: "data_of (handler s) (watchId d) = Some nt"
    using watch_ok_data [OF w(1), of "watchId d" name] w(2) by (auto simp: data_of_def)
  let ?s = "s\<lparr>notified := notified s @ [(nt_data nt, name, old, [])]\<rparr>"
  obtain s' where s': "destroy_sender name ?s = Some s'" "ipc_ok s'"
    "set (ics (icManager s')) = set (ics (icManager s)) - clients_of s name"
    "contexts_of s' = contexts_of s - clients_of s name"
    "\<forall>k. clients_of s' k = (if k = name then {} else clients_of s k)" "leaves (watchId d) (handler s) (handler s')"
    using destroy_sender_run [of ?s name d] ok Some by auto
  have "fcitx_ipc_watch_name nt name old [] ?s = Some s'"
    using s'(1) old Some by (simp add: fcitx_ipc_watch_name_def)
  from filter_single [of s "watches s" name "watchId d" nt fcitx_ipc_watch_name old "[]" s', OF w nt this s'(6)]
  have "fcitx_dbus_filter fcitx_ipc_watch_name (NameOwnerChanged (Some (name, old, []))) s = Some (True, s')" .
  moreover have "sender_ics d \<noteq> [] \<and> set (sender_ics d) = clients_of s name"
    using ok Some by (simp add: ipc_ok_def senders_ok_def)
  then have "clients_of s name \<noteq> {}" by auto
  ultimately show ?thesis using s' by auto
qed

section \<open>A new context\<close>

text \<open>The entry of the client, which is made with its watch when it is its first context.\<close>

definition client_entry :: "cstr \<Rightarrow> fcitx_ipc \<Rightarrow> fcitx_ipc option" where
  "client_entry name s =
     (case fcitx_dict_lookup name (senderToIC s) of
        Some _ \<Rightarrow> Some s
      | None \<Rightarrow> do {
          (i, s) \<leftarrow> fcitx_dbus_watch_name name ipc_watch_callback False 0 s;
          Some (s\<lparr>senderToIC := snd (fcitx_dict_insert name (fcitx_ipc_sender_new\<lparr>watchId := i\<rparr>) False (senderToIC s))\<rparr>) })"

lemma client_entry_run:
  assumes t: "dict_ok (senderToIC s)" and w: "watch_ok s (watches s)" and room: "pool_room (objs (handler s))"
  shows "\<exists>s' d. client_entry name s = Some s' \<and> icManager s' = icManager s \<and> appNameId s' = appNameId s \<and> object_paths s' = object_paths s \<and>
    frontendDataId s' = frontendDataId s \<and> frontendId s' = frontendId s \<and> strings s' = strings s \<and>
    next_string s' = next_string s \<and> dict_ok (senderToIC s') \<and> watch_ok s' (watches s') \<and>
    fcitx_dict_lookup name (senderToIC s') = Some d \<and>
    sender_ics d = (case fcitx_dict_lookup name (senderToIC s) of Some e \<Rightarrow> sender_ics e | None \<Rightarrow> []) \<and>
    (\<forall>k. k \<noteq> name \<longrightarrow> fcitx_dict_lookup k (senderToIC s') = fcitx_dict_lookup k (senderToIC s))"
proof (cases "fcitx_dict_lookup name (senderToIC s)")
  case (Some d)
  then show ?thesis using t w by (simp add: client_entry_def)
next
  case None
  then have n: "watches s name = []" by (simp add: watches_def)
  obtain i s1 where s1: "fcitx_dbus_watch_name name ipc_watch_callback False 0 s = Some (i, s1)"
    "watch_ok s1 ((watches s)(name := watches s name @ [i]))"
    using watch_name_run [OF w room] by blast
  have same: "same_ipc s s1" using s1(1) by (rule bus_same)
  let ?d = "fcitx_ipc_sender_new\<lparr>watchId := i\<rparr>"
  let ?s = "s1\<lparr>senderToIC := snd (fcitx_dict_insert name ?d False (senderToIC s1))\<rparr>"
  have run: "client_entry name s = Some ?s" using None s1(1) by (simp add: client_entry_def)
  have lk: "dict_ok (senderToIC ?s)"
    "fcitx_dict_lookup k (senderToIC ?s) = (if k = name then Some ?d else fcitx_dict_lookup k (senderToIC s))" for k
    using insert_ok [OF t, of name ?d False] None same by (auto simp: same_ipc_def)
  then have "watches ?s = (watches s)(name := watches s name @ [i])" by (auto simp: watches_def n fun_eq_iff None)
  then have "watch_ok ?s (watches ?s)" using s1(2) by (simp add: watch_ok_def)
  then show ?thesis using run lk same None by (simp add: same_ipc_def fcitx_ipc_sender_new_def)
qed

definition with_context :: "nat \<Rightarrow> cstr \<Rightarrow> fcitx_ipc \<Rightarrow> fcitx_ipc \<Rightarrow> bool" where
  "with_context a name s s' \<longleftrightarrow> ipc_ok s' \<and> ics (icManager s') = ics (icManager s) @ [a] \<and> a \<notin> set (ics (icManager s)) \<and>
     contexts_of s' = insert a (contexts_of s) \<and>
     (\<forall>k. clients_of s' k = (if k = name then insert a (clients_of s k) else clients_of s k))"

lemma new_context_run:
  assumes ok: "ipc_ok s" and room: "pool_room (objs (handler s))"
    and new: "fcitx_input_context_new (frontendId s) True u (icManager s) = (Some a, m)"
  shows "\<exists>s'. fcitx_ipc_new_input_context (Some name) u True s = Some (Some a, s') \<and>
    with_context a name s s' \<and> appNameId s' = appNameId s"
proof -
  let ?m = "icManager s"
  have r: "ic_reachable ?m" "shared_uncopied ?m" "plain_slot (propertySlots ?m)" "frontendDataId s = 0" using ok by (simp_all add: ipc_defs)
  note n = new_context_kept [OF ic_reachable_inv [OF r(1)] new]
  have rm: "ic_reachable m" using r(1) new by (blast intro: ic_reachable.step ic_step.new)
  have um: "shared_uncopied m" "plain_slot (propertySlots m)" using r(2,3) n(3) by (simp_all add: shared_uncopied_def)
  have am: "a \<in> set (ics m)" using n(2) by simp
  let ?path = "ipc_path (ic_id (contexts m a))"
  have fresh: "?path \<notin> set (object_paths s)"
  proof -
    have "?path \<noteq> bytes ''/inputmethod''" by (simp add: ipc_path_def bytes_def)
    moreover have "object_of s b \<noteq> ?path" if "b \<in> contexts_of s" for b
      using n(8) that by (auto simp: object_of_def path_inj contexts_of_def)
    ultimately show ?thesis using ok by (auto simp: ipc_ok_def objects_ok_def)
  qed
  let ?s1 = "s\<lparr>icManager := m, object_paths := object_paths s @ [?path]\<rparr>"
  have w1: "watches ?s1 = watches s" by (simp add: watches_def fun_eq_iff)
  have "dict_ok (senderToIC ?s1)" "watch_ok ?s1 (watches ?s1)"
    using ok unfolding w1 by (simp_all add: ipc_ok_def senders_ok_def watch_ok_def)
  with room obtain s2 d where s2a: "appNameId s2 = appNameId s"
    and s2: "client_entry name ?s1 = Some s2" "icManager s2 = m" "object_paths s2 = object_paths s @ [?path]"
    "frontendDataId s2 = frontendDataId s" "frontendId s2 = frontendId s" "strings s2 = strings s" "next_string s2 = next_string s"
    "dict_ok (senderToIC s2)" "watch_ok s2 (watches s2)" "fcitx_dict_lookup name (senderToIC s2) = Some d"
    "sender_ics d = (case fcitx_dict_lookup name (senderToIC s) of Some e \<Rightarrow> sender_ics e | None \<Rightarrow> [])"
    "\<forall>k. k \<noteq> name \<longrightarrow> fcitx_dict_lookup k (senderToIC s2) = fcitx_dict_lookup k (senderToIC s)"
    using client_entry_run [of ?s1 name] by auto
  have snd: "sender_ics e \<noteq> [] \<and> distinct (sender_ics e) \<and> set (sender_ics e) = clients_of s k"
    if "fcitx_dict_lookup k (senderToIC s) = Some e" for k e
    using ok that by (simp add: ipc_ok_def senders_ok_def)
  have none: "clients_of s k = {}" if "fcitx_dict_lookup k (senderToIC s) = None" for k
    using ok that by (fastforce simp: clients_of_def ipc_ok_def names_ok_def)
  have dl: "distinct (sender_ics d)" "set (sender_ics d) = clients_of s name"
    using s2(11) snd none by (auto split: option.splits)
  have "clients_of s name \<subseteq> set (ics ?m)" by (auto simp: clients_of_def contexts_of_def)
  then have ad: "a \<notin> set (sender_ics d)" using n(1) dl(2) by blast
  let ?d = "d\<lparr>sender_ics := sender_ics d @ [a]\<rparr>"
  let ?s3 = "put_sender name ?d s2"
  let ?p = "next_string s"
  obtain x m2 where m2: "fcitx_input_context_set_property a 0 ?p m = Some (x, m2)"
    using set_property_ok [OF ic_reachable_props [OF rm um(1)] um(1) am, of 0 ?p] by auto
  note f = set_first_property [OF um(2) m2]
  have rm2: "ic_reachable m2" using rm am m2 by (blast intro: ic_reachable.step ic_step.set_property)
  let ?s' = "?s3\<lparr>strings := (strings s)(?p \<mapsto> name), next_string := Suc ?p, icManager := m2\<rparr>"
  have run: "fcitx_ipc_new_input_context (Some name) u True s = Some (Some a, ?s')"
    using new s2(1,2,4,6,7,10) fresh ad m2 r(4)
    by (simp add: fcitx_ipc_new_input_context_def client_entry_def [symmetric] Let_def)
  have old: "contexts m b = contexts ?m b" if "b \<in> set (ics ?m)" for b
    using n(1) n(7) [of b] that by (cases "b = a") simp_all
  have ctx: "contexts_of ?s' = insert a (contexts_of s)"
    using n(2,4,5) f s2(5) old by (auto simp: contexts_of_def)
  have b_ne: "b \<noteq> a" if "b \<in> contexts_of s" for b using n(1) that by (auto simp: contexts_of_def)
  have name_a: "name_string ?s' a = ?p"
    using f um(2) n(3) s2(4) r(4) by (auto simp: name_string_def fcitx_input_context_get_property_def plain_slot_def split: option.splits)
  have name_b: "name_string ?s' b = name_string s b" if "b \<in> contexts_of s" for b
  proof -
    have "property_at b 0 m2 = property_at b 0 ?m" using f n(7) b_ne [OF that] by (simp add: property_at_def)
    then show ?thesis using f n(3) s2(4) r(4) by (simp add: name_string_def fcitx_input_context_get_property_def)
  qed
  have less: "name_string s b < ?p" if "b \<in> contexts_of s" for b using ok that by (simp add: ipc_ok_def names_ok_def)
  have cl: "clients_of ?s' k = (if k = name then insert a (clients_of s k) else clients_of s k)" for k
  proof (rule set_eqI)
    fix b
    show "b \<in> clients_of ?s' k \<longleftrightarrow> b \<in> (if k = name then insert a (clients_of s k) else clients_of s k)"
    proof (cases "b \<in> contexts_of s")
      case True
      then show ?thesis using name_b [OF True] less [OF True] b_ne [OF True] by (simp add: clients_of_def ctx)
    next
      case False
      then show ?thesis using name_a by (auto simp: clients_of_def ctx)
    qed
  qed
  have lk: "fcitx_dict_lookup k (senderToIC ?s') = (if k = name then Some ?d else fcitx_dict_lookup k (senderToIC s))" for k
    using dict_put(2) [OF s2(8,10), of k ?d] s2(12) by (simp add: put_sender_def)
  have "manager_fine ?s'" using rm2 um f s2(4) r(4) by (simp add: manager_fine_def shared_uncopied_def)
  moreover have "names_ok ?s'"
    unfolding names_ok_def ctx
  proof (intro conjI ballI)
    have "inj_on (name_string s) (contexts_of s)" using ok by (simp add: ipc_ok_def names_ok_def)
    then have "inj_on (name_string ?s') (contexts_of s)"
      using inj_on_cong [of "contexts_of s" "name_string ?s'" "name_string s"] name_b by blast
    moreover have "?p \<noteq> name_string ?s' b" if "b \<in> contexts_of s" for b using name_b [OF that] less [OF that] by simp
    ultimately show "inj_on (name_string ?s') (insert a (contexts_of s))"
      unfolding inj_on_insert name_a by blast
    fix b assume b: "b \<in> insert a (contexts_of s)"
    show "name_string ?s' b < next_string ?s'" using b name_a name_b less by (auto simp: less_Suc_eq)
    show "\<exists>name d. strings ?s' (name_string ?s' b) = Some name \<and> fcitx_dict_lookup name (senderToIC ?s') = Some d"
    proof (cases "b = a")
      case True
      then show ?thesis using lk name_a by simp
    next
      case False
      then have bs: "b \<in> contexts_of s" using b by simp
      then obtain k e where "strings s (name_string s b) = Some k" "fcitx_dict_lookup k (senderToIC s) = Some e"
        using ok by (auto simp: ipc_ok_def names_ok_def)
      then show ?thesis using lk name_b [OF bs] less [OF bs] by auto
    qed
  qed
  moreover have "senders_ok ?s'"
    unfolding senders_ok_def cl lk
  proof (intro conjI allI impI)
    show "dict_ok (senderToIC ?s')" using dict_put(1) [OF s2(8,10), of ?d] by (simp add: put_sender_def)
    fix k e assume "(if k = name then Some ?d else fcitx_dict_lookup k (senderToIC s)) = Some e"
    then show "sender_ics e \<noteq> []" "distinct (sender_ics e)"
      "set (sender_ics e) = (if k = name then insert a (clients_of s k) else clients_of s k)"
      using snd dl ad by (auto split: if_splits)
  qed
  moreover have "objects_ok ?s'"
  proof -
    have "object_of ?s' a = ?path" using f by (simp add: object_of_def)
    moreover have "object_of ?s' b = object_of s b" if "b \<in> contexts_of s" for b
      using f n(7) b_ne [OF that] by (simp add: object_of_def)
    ultimately show ?thesis using ok fresh s2(3) by (auto simp: objects_ok_def ctx ipc_ok_def)
  qed
  moreover have "watches ?s' = watches s2" using lk s2(10,12) by (auto simp: watches_def fun_eq_iff)
  then have "watch_ok ?s' (watches ?s')" using s2(9) by (simp add: watch_ok_def)
  ultimately have "ipc_ok ?s'" by (simp add: ipc_ok_def)
  then show ?thesis using run f n(1,2) ctx cl s2a by (simp add: with_context_def)
qed

section \<open>Calls of a client\<close>

text \<open>The path of a context leads back to its id.\<close>

lemma path_id_ipc_path: "path_id (ipc_path i) = Some i"
proof -
  let ?p = "bytes ''/inputcontext/''"
  have d: "list_all is_digit (decimal_nat (unat i)) \<and> decimal_nat (unat i) \<noteq> []" by (rule decimal_nat_digits)
  have v: "digits_value (decimal_nat (unat i)) = int (unat i)" using digits_value_decimal [of "[]" "unat i"] by simp
  have "uint i < 2 ^ 32" using uint_lt2p [of i] by simp
  then have "min (int (unat i)) (2 ^ 64 - 1) = uint i" by simp
  moreover have "fcitx_utils_string_starts_with (?p @ x) ?p" for x
    by (simp add: fcitx_utils_string_starts_with_def strncmp_def)
  ultimately show ?thesis using d v by (simp add: path_id_def ipc_path_def)
qed

definition rect_fits :: "ic_call \<Rightarrow> bool" where
  "rect_fits msg = (case msg of IC_SetCursorRect (Some (x, y, w, h)) \<Rightarrow> int32_add x w \<noteq> None \<and> int32_add y h \<noteq> None | _ \<Rightarrow> True)"

lemma with_manager_kept:
  assumes "ipc_ok s" and "ic_step (icManager s) (f (icManager s))" and "kept (icManager s) (f (icManager s))"
  shows "seen s (with_manager f s)"
  unfolding with_manager_def using assms by (intro manager_kept) (auto simp: ipc_defs intro: ic_reachable.step)

lemma call_run:
  assumes ok: "ipc_ok s" and fits: "rect_fits msg"
  shows "\<exists>r s'. fcitx_ipc_inputcontext_handler callback path msg s = Some (r, s') \<and> ipc_ok s' \<and>
    (seen s s' \<or> (\<exists>i a. msg = IC_DestroyIC \<and> path_id path = Some i \<and>
        fcitx_input_context_manager_get_input_context i (icManager s) = Some a \<and> without a s s'))"
proof -
  have self: "seen s s" using ok by (simp add: seen_def)
  show ?thesis
  proof (cases "path_id path")
    case None
    then show ?thesis using ok self by (simp add: fcitx_ipc_inputcontext_handler_def)
  next
    case (Some i)
    show ?thesis
    proof (cases "fcitx_input_context_manager_get_input_context i (icManager s)")
      case None
      then show ?thesis using Some ok self by (simp add: fcitx_ipc_inputcontext_handler_def)
    next
      case (Some a)
      have "identity_ok (icManager s)" using ok ic_reachable_inv by (simp add: ipc_defs ic_inv_def)
      then have a: "a \<in> set (ics (icManager s))" using Some get_input_context_iff by blast
      note k = with_manager_kept [OF ok, of "fcitx_input_context_focus_in a", OF ic_step.focus_in [OF a]]
        with_manager_kept [OF ok, of "fcitx_input_context_focus_out a", OF ic_step.focus_out [OF a]]
        with_manager_kept [OF ok, of "fcitx_input_context_reset a", OF ic_step.reset [OF a]]
        with_manager_kept [OF ok, of "fcitx_input_context_set_capability_flags a fl" for fl, OF ic_step.set_capability [OF a]]
        with_manager_kept [OF ok, of "fcitx_input_context_set_surrounding_text a t c n" for t c n, OF ic_step.set_surrounding [OF a]]
        with_manager_kept [OF ok, of "fcitx_input_context_set_cursor_rect a rc" for rc, OF ic_step.set_rect [OF a]]
      show ?thesis
      proof (cases msg)
        case IC_DestroyIC
        obtain s' where "destroy_context_of a s = Some s'" "without a s s'" using destroy_context_run [OF ok] by blast
        then show ?thesis using \<open>path_id path = Some i\<close> Some IC_DestroyIC
          by (auto simp: fcitx_ipc_inputcontext_handler_def without_def)
      next
        case (IC_SetCursorRect args)
        then show ?thesis
          using \<open>path_id path = Some i\<close> Some fits self ok k(6)
          by (cases args) (auto simp: fcitx_ipc_inputcontext_handler_def rect_fits_def seen_def)
      next
        case (IC_ProcessKeyEvent args)
        have "seen s (s\<lparr>icManager := snd (fcitx_input_context_process_key_event callback a e (icManager s))\<rparr>)" for e
          using with_manager_kept [OF ok, of "\<lambda>m. snd (fcitx_input_context_process_key_event callback a e m)",
              OF ic_step.key_event [OF a]]
          by (simp add: with_manager_def)
        then show ?thesis
          using \<open>path_id path = Some i\<close> Some IC_ProcessKeyEvent self ok
          by (cases args) (auto simp: fcitx_ipc_inputcontext_handler_def seen_def split_beta Let_def)
      qed (use \<open>path_id path = Some i\<close> Some self ok k in
          \<open>auto simp: fcitx_ipc_inputcontext_handler_def seen_def split: option.split\<close>)
    qed
  qed
qed

lemma with_context_seen: "with_context a name s s' \<Longrightarrow> seen s' s'' \<Longrightarrow> with_context a name s s''"
  by (simp add: with_context_def seen_def)

lemma create_run:
  assumes ok: "ipc_ok s" and room: "pool_room (objs (handler s))" and app: "appNameId s \<noteq> 0"
    and new: "fcitx_input_context_new (frontendId s) True u (icManager s) = (Some a, m)"
  shows "\<exists>s'. fcitx_ipc_inputmethod_handler u True text (IM_CreateIC (Some name) (Some entries)) s =
      Some (Some (CreatedReply (object_of s' a) (uuid (contexts (icManager s') a))), s') \<and> with_context a name s s'"
proof -
  obtain independent appName where p: "create_parameters entries False None = (independent, appName)" by fastforce
  obtain s1 where s1: "fcitx_ipc_new_input_context (Some name) u True s = Some (Some a, s1)" "with_context a name s s1"
    "appNameId s1 = appNameId s"
    using new_context_run [OF ok room new, of name] by blast
  define m1 where "m1 = fcitx_input_context_set_focus_group a (if independent then FICFG_Independent else FICFG_Global) None (icManager s1)"
  have a1: "a \<in> set (ics (icManager s1))" and ok1: "ipc_ok s1" using s1(2) by (simp_all add: with_context_def)
  have step1: "ic_step (icManager s1) m1" unfolding m1_def by (rule ic_step.set_focus_group [OF a1]) simp
  then have r1: "ic_reachable m1" using ok1 by (auto simp: ipc_defs intro: ic_reachable.step)
  have k1: "kept (icManager s1) m1" by (simp add: m1_def)
  then have f1: "a \<in> set (ics m1)" "shared_uncopied m1" "plain_slot (propertySlots m1)"
    using a1 ok1 by (simp_all add: kept_def ipc_defs shared_uncopied_def)
  define v where "v = (case appName of None \<Rightarrow> 0 | Some _ \<Rightarrow> text)"
  obtain x m2 where m2: "fcitx_input_context_set_property a (appNameId s) v m1 = Some (x, m2)"
    using set_property_ok [OF ic_reachable_props [OF r1 f1(2)] f1(2,1), of "appNameId s" v] by auto
  have k2: "kept (icManager s1) m2" using set_property_kept [OF f1(3) m2 app] k1 by (blast intro: kept_trans)
  have r2: "ic_reachable m2" using r1 f1(1) m2 by (blast intro: ic_reachable.step ic_step.set_property)
  let ?s = "s1\<lparr>icManager := m2\<rparr>"
  have "with_context a name s ?s" using with_context_seen [OF s1(2) manager_kept [OF ok1 k2 r2]] .
  moreover have "fcitx_ipc_inputmethod_handler u True text (IM_CreateIC (Some name) (Some entries)) s =
      Some (Some (CreatedReply (object_of ?s a) (uuid (contexts (icManager ?s) a))), ?s)"
    using s1(1,3) m2 by (simp add: fcitx_ipc_inputmethod_handler_def p with_manager_def object_of_def m1_def v_def)
  ultimately show ?thesis by blast
qed

section \<open>Starting\<close>

lemma init_ok:
  assumes bus: "watch_ok bus (\<lambda>_. [])" and m: "ic_reachable m" "shared_uncopied m" "plain_slot (propertySlots m)"
    and id: "fcitx_input_context_manager_lookup_property FCITX_FRONTEND_DATA_PROPERTY m = 0"
    and none: "\<forall>a \<in> set (ics m). frontend (contexts m a) \<noteq> fe"
  shows "\<exists>s. fcitx_ipc_init fe m True bus = Some s \<and> ipc_ok s \<and> contexts_of s = {} \<and> icManager s = m \<and> frontendId s = fe \<and>
    handler s = handler bus \<and> appNameId s = fcitx_input_context_manager_lookup_property FCITX_APPLICATION_NAME_PROPERTY m"
proof -
  obtain s where s: "fcitx_ipc_init fe m True bus = Some s" by (simp add: fcitx_ipc_init_def)
  then have f: "icManager s = m" "object_paths s = [bytes ''/inputmethod'']" "senderToIC s = fcitx_dict_new True"
    "frontendDataId s = 0" "frontendId s = fe" "handler s = handler bus" "match_rules s = match_rules bus"
    "appNameId s = fcitx_input_context_manager_lookup_property FCITX_APPLICATION_NAME_PROPERTY m"
    using id by (auto simp: fcitx_ipc_init_def fcitx_dbus.defs)
  have c: "contexts_of s = {}" using none f by (auto simp: contexts_of_def)
  have lk: "fcitx_dict_lookup k (senderToIC s) = None" for k by (simp add: f fcitx_dict_new_def fcitx_dict_lookup_def HASH_FIND_def)
  have "dict_ok (senderToIC s)" by (simp add: f dict_ok_def fcitx_dict_new_def)
  moreover have "watches s = (\<lambda>_. [])" by (simp add: watches_def lk fun_eq_iff)
  then have "watch_ok s (watches s)" using bus f by (simp add: watch_ok_def)
  ultimately have "ipc_ok s" using m f c lk
    by (simp add: ipc_ok_def manager_fine_def names_ok_def senders_ok_def objects_ok_def)
  then show ?thesis using s c f by blast
qed

lemma new_manager_fine:
  "shared_uncopied fcitx_input_context_manager_new" "plain_slot (propertySlots fcitx_input_context_manager_new)"
  "fcitx_input_context_manager_lookup_property FCITX_FRONTEND_DATA_PROPERTY fcitx_input_context_manager_new = 0"
  "fcitx_input_context_manager_lookup_property FCITX_APPLICATION_NAME_PROPERTY fcitx_input_context_manager_new = - 1"
  "ics fcitx_input_context_manager_new = []"
  "fst (fcitx_input_context_new fe True u fcitx_input_context_manager_new) = Some 0"
  by (simp_all add: fcitx_input_context_manager_new_def fcitx_input_context_focus_group_new_internal_def
      fcitx_input_context_manager_register_property_def Let_def upd_group_def upd_ic_def fcitx_input_context_new_def
      fcitx_input_context_manager_get_input_context_def next_icid_def post_def shared_uncopied_def plain_slot_def
      fcitx_input_context_manager_lookup_property_def fcitx_dict_lookup_def HASH_FIND_def fcitx_dict_insert_def
      fcitx_dict_new_def HASH_ADD_def FCITX_FRONTEND_DATA_PROPERTY_def FCITX_APPLICATION_NAME_PROPERTY_def bytes_def)

definition first_client :: cstr where
  "first_client = bytes '':1.5''"

lemma first_context:
  "\<exists>bus s s'. fcitx_dbus_init bus_up ml = Some (Started bus) \<and>
     fcitx_ipc_init 1 fcitx_input_context_manager_new True bus = Some s \<and> ipc_ok s \<and> pool_room (objs (handler s)) \<and>
     fcitx_input_context_new (frontendId s) True (replicate 16 1) (icManager s) = (Some 0, s') \<and> appNameId s \<noteq> 0 \<and> contexts_of s = {} \<and>
     ics (icManager s) = []"
proof -
  obtain bus where bus: "fcitx_dbus_init bus_up ml = Some (Started bus)" "watch_ok bus (\<lambda>_. [])" "pool_room (objs (handler bus))"
    using bus_up_starts by blast
  obtain s where s: "fcitx_ipc_init 1 fcitx_input_context_manager_new True bus = Some s" "ipc_ok s" "contexts_of s = {}"
    "icManager s = fcitx_input_context_manager_new" "frontendId s = 1" "handler s = handler bus" "appNameId s = - 1"
    using init_ok [OF bus(2) ic_reachable.start new_manager_fine(1-3), of 1] new_manager_fine(4,5) by auto
  have "fcitx_input_context_new 1 True (replicate 16 1) fcitx_input_context_manager_new =
      (Some 0, snd (fcitx_input_context_new 1 True (replicate 16 1) fcitx_input_context_manager_new))"
    using new_manager_fine(6) by (simp add: prod_eq_iff)
  then show ?thesis using bus s new_manager_fine(5) by auto
qed

section \<open>Properties\<close>

text \<open>C38: The contexts of the manager, the objects on the bus, the clients and their watches stay in step:
  a client that asks for a context gets the path and the unique id of a new one, which is its own, and no
  other context changes hands, as long as the table of handlers has room, the property for application names
  is registered and the new context is made; and a call on the object of a context, whatever its path and with
  a rectangle that fits, returns, with a reply or none, and keeps all of them unless it is the call that
  destroys the context of its path.\<close>

theorem client_calls:
  assumes "ipc_ok s"
  shows "(pool_room (objs (handler s)) \<and> appNameId s \<noteq> 0 \<and>
      fcitx_input_context_new (frontendId s) True u (icManager s) = (Some a, m) \<longrightarrow>
      (\<exists>s'. fcitx_ipc_inputmethod_handler u True text (IM_CreateIC (Some name) (Some entries)) s =
          Some (Some (CreatedReply (object_of s' a) (uuid (contexts (icManager s') a))), s') \<and> with_context a name s s')) \<and>
    (rect_fits msg \<longrightarrow>
      (\<exists>r s'. fcitx_ipc_inputcontext_handler callback path msg s = Some (r, s') \<and> ipc_ok s' \<and>
        (seen s s' \<or> (\<exists>i b. msg = IC_DestroyIC \<and> path_id path = Some i \<and>
          fcitx_input_context_manager_get_input_context i (icManager s) = Some b \<and> without b s s'))))"
  using create_run [OF assms] call_run [OF assms] by blast

theorem client_calls_witness:
  "\<exists>bus s s' r s''. fcitx_dbus_init bus_up idle_loop = Some (Started bus) \<and>
     fcitx_ipc_init 1 fcitx_input_context_manager_new True bus = Some s \<and>
     fcitx_ipc_inputmethod_handler (replicate 16 1) True 0 (IM_CreateIC (Some first_client) (Some [])) s = Some (r, s') \<and>
     clients_of s' first_client = {0} \<and>
     fcitx_ipc_inputcontext_handler (\<lambda>_. True) (bytes ''/inputcontext/1'') IC_FocusIn s' = Some s''"
proof -
  obtain bus s m where b: "fcitx_dbus_init bus_up idle_loop = Some (Started bus)"
    "fcitx_ipc_init 1 fcitx_input_context_manager_new True bus = Some s" "ipc_ok s" "pool_room (objs (handler s))"
    "fcitx_input_context_new (frontendId s) True (replicate 16 1) (icManager s) = (Some 0, m)" "appNameId s \<noteq> 0" "contexts_of s = {}"
    using first_context by blast
  obtain r s' where s': "fcitx_ipc_inputmethod_handler (replicate 16 1) True 0 (IM_CreateIC (Some first_client) (Some [])) s = Some (r, s')"
    "with_context 0 first_client s s'"
    using client_calls [OF b(3)] b(4-6) by blast
  have "clients_of s first_client = {}" using b(7) by (simp add: clients_of_def)
  then have "ipc_ok s'" "clients_of s' first_client = {0}" using s'(2) by (simp_all add: with_context_def)
  moreover obtain s'' where "fcitx_ipc_inputcontext_handler (\<lambda>_. True) (bytes ''/inputcontext/1'') IC_FocusIn s' = Some s''"
    using client_calls [OF \<open>ipc_ok s'\<close>, where msg = IC_FocusIn] by (force simp: rect_fits_def)
  ultimately show ?thesis using b(1,2) s'(1) by blast
qed

text \<open>C37: When the bus tells that a client left, all its contexts are destroyed and no other: their objects,
  the entry of the client and its watch go with them, although the last of them frees the list the loop
  runs over.\<close>

theorem client_left:
  assumes "ipc_ok s" and "old \<noteq> []"
  shows "\<exists>s'. fcitx_dbus_filter fcitx_ipc_watch_name (NameOwnerChanged (Some (name, old, []))) s =
      Some (clients_of s name \<noteq> {}, s') \<and> ipc_ok s' \<and>
    set (ics (icManager s')) = set (ics (icManager s)) - clients_of s name \<and>
    contexts_of s' = contexts_of s - clients_of s name \<and>
    (\<forall>k. clients_of s' k = (if k = name then {} else clients_of s k))"
  using client_left_run [OF assms] .

theorem client_left_witness:
  "\<exists>bus s s' r s''. fcitx_dbus_init bus_up idle_loop = Some (Started bus) \<and>
     fcitx_ipc_init 1 fcitx_input_context_manager_new True bus = Some s \<and>
     fcitx_ipc_inputmethod_handler (replicate 16 1) True 0 (IM_CreateIC (Some first_client) (Some [])) s = Some (r, s') \<and>
     set (ics (icManager s')) = {0} \<and>
     fcitx_dbus_filter fcitx_ipc_watch_name (NameOwnerChanged (Some (first_client, first_client, []))) s' = Some (True, s'') \<and>
     set (ics (icManager s'')) = {}"
proof -
  obtain bus s m where b: "fcitx_dbus_init bus_up idle_loop = Some (Started bus)"
    "fcitx_ipc_init 1 fcitx_input_context_manager_new True bus = Some s" "ipc_ok s" "pool_room (objs (handler s))"
    "fcitx_input_context_new (frontendId s) True (replicate 16 1) (icManager s) = (Some 0, m)" "appNameId s \<noteq> 0"
    "contexts_of s = {}" "ics (icManager s) = []"
    using first_context by blast
  obtain r s' where s': "fcitx_ipc_inputmethod_handler (replicate 16 1) True 0 (IM_CreateIC (Some first_client) (Some [])) s = Some (r, s')"
    "with_context 0 first_client s s'"
    using create_run [OF b(3,4,6,5)] by blast
  have "clients_of s first_client = {}" using b(7) by (simp add: clients_of_def)
  then have c: "ipc_ok s'" "clients_of s' first_client = {0}" "set (ics (icManager s')) = {0}"
    using s'(2) b(8) by (simp_all add: with_context_def)
  then show ?thesis
    using client_left [OF c(1), of first_client first_client] b(1,2) s'(1) by (auto simp: first_client_def bytes_def)
qed

section \<open>Signals\<close>

text \<open>The frontend answers four kinds of events, and sends a text only when it is valid UTF-8.\<close>

lemma handled_events:
  "\<exists>r s'. fcitx_ipc_handle_event e s = Some (r, s') \<and> senderToIC s' = senderToIC s \<and> icManager s' = icManager s \<and>
     bus_signals s' = bus_signals s @
       (case e of
          InputContextCommitString i a str \<Rightarrow> if fcitx_utf8_check_string str = Some True then [CommitString i str] else []
        | InputContextDeleteSurroundingText i a off len \<Rightarrow> [DeleteSurroundingText i off len]
        | InputContextForwardKey i a key \<Rightarrow> [ForwardKey i (sym (ke_key key)) (state (ke_key key)) (if isRelease key then 1 else 0)]
        | _ \<Rightarrow> [])"
proof (cases e)
  case (InputContextCommitString i a str)
  then show ?thesis using check_string_total [of str]
    by (auto simp: fcitx_ipc_handle_event_def fcitx_ipc_commit_string_def fcitx_ipc_send_signal_def)
qed (auto simp: fcitx_ipc_handle_event_def fcitx_ipc_delete_surrounding_text_def fcitx_ipc_forward_key_def
      fcitx_ipc_send_signal_def)

section \<open>What goes wrong\<close>

text \<open>When the object of a new context cannot be registered, the context is destroyed before it has the
  name of its client, which is then read through \<open>NULL\<close>.\<close>

lemma failed_registration_crashes:
  assumes ok: "ipc_ok s" and null: "strings s 0 = None"
    and new: "fcitx_input_context_new (frontendId s) True u (icManager s) = (Some a, m)"
  shows "fcitx_ipc_new_input_context (Some name) u False s = None"
proof -
  let ?s = "s\<lparr>icManager := m\<rparr>"
  have inv: "ic_inv (icManager s)" using ok ic_reachable_inv by (simp add: ipc_defs)
  note n = new_context_kept [OF inv new]
  have "ic_inv m" using new_inv [OF inv new] by simp
  then have "fcitx_input_context_manager_get_input_context (ic_id (contexts m a)) m = Some a"
    using get_input_context_iff n(2) by (simp add: ic_inv_def)
  moreover have "fcitx_ipc_destroy_input_context a ?s = None"
    using n(6) null ok by (simp add: fcitx_ipc_destroy_input_context_def Let_def fcitx_input_context_get_property_def ipc_defs)
  ultimately have "destroy_context_of a ?s = None"
    using n(4,5) by (simp add: destroy_context_of_def Let_def)
  then show ?thesis using new by (simp add: fcitx_ipc_new_input_context_def Let_def)
qed

text \<open>When the id of a new context is taken, there is no context, and its id is read through \<open>NULL\<close>.\<close>

lemma taken_id_crashes:
  "fcitx_input_context_new (frontendId s) True u (icManager s) = (None, m) \<Longrightarrow>
   fcitx_ipc_new_input_context (Some name) u memory s = None"
  by (simp add: fcitx_ipc_new_input_context_def Let_def)

text \<open>A client can make the sums of the cursor rectangle overflow.\<close>

lemma cursor_rect_overflows:
  "ipc_ok s \<Longrightarrow> fcitx_input_context_manager_get_input_context i (icManager s) = Some a \<Longrightarrow>
   fcitx_ipc_inputcontext_handler callback (ipc_path i) (IC_SetCursorRect (Some (2 ^ 31 - 1, 0, 1, 0))) s = None"
  by (simp add: fcitx_ipc_inputcontext_handler_def path_id_ipc_path int32_add_def)

end
