(* ===== verification/XkbRules.thy ===== *)
theory XkbRules
  imports StringList
begin

text \<open>
  The keyboard layouts of \<open>src/lib/fcitx/rules.c\<close>: the handlers of the XML parser, which build the
  rules from the elements and texts of a file, and the merge with the rules of the extra file.  An
  array of infos is the list it holds.  The parser is an argument: for each file the sequence of its
  calls.  A function is \<open>None\<close> when it works on a NULL string or on the last element of an empty array.
\<close>

section \<open>Rules\<close>

record variant_info =
  v_name :: "cstr option"
  v_description :: "cstr option"
  v_languages :: "cstr list"

record layout_info =
  variantInfos :: "variant_info list"
  l_name :: "cstr option"
  l_description :: "cstr option"
  l_languages :: "cstr list"

record model_info =
  m_name :: "cstr option"
  m_description :: "cstr option"
  m_vendor :: "cstr option"

record option_info =
  o_name :: "cstr option"
  o_description :: "cstr option"

record option_group_info =
  optionInfos :: "option_info list"
  g_name :: "cstr option"
  g_description :: "cstr option"
  exclusive :: bool

record xkb_rules =
  layoutInfos :: "layout_info list"
  modelInfos :: "model_info list"
  optionGroupInfos :: "option_group_info list"
  version :: "cstr option"

record rules_handler =
  h_path :: "cstr list"
  h_rules :: xkb_rules

definition new_variant :: variant_info where
  "new_variant = \<lparr>v_name = None, v_description = None, v_languages = []\<rparr>"

definition new_layout :: layout_info where
  "new_layout = \<lparr>variantInfos = [], l_name = None, l_description = None, l_languages = []\<rparr>"

definition new_model :: model_info where
  "new_model = \<lparr>m_name = None, m_description = None, m_vendor = None\<rparr>"

definition new_option :: option_info where
  "new_option = \<lparr>o_name = None, o_description = None\<rparr>"

definition new_group :: option_group_info where
  "new_group = \<lparr>optionInfos = [], g_name = None, g_description = None, exclusive = False\<rparr>"

definition no_rules :: xkb_rules where
  "no_rules = \<lparr>layoutInfos = [], modelInfos = [], optionGroupInfos = [], version = None\<rparr>"

text \<open>A change of the last element.\<close>

definition on_last :: "('a \<Rightarrow> 'a option) \<Rightarrow> 'a list \<Rightarrow> 'a list option" where
  "on_last f xs = (if xs = [] then None else do { x \<leftarrow> f (last xs); Some (butlast xs @ [x]) })"

definition on_layout :: "(layout_info \<Rightarrow> layout_info option) \<Rightarrow> xkb_rules \<Rightarrow> xkb_rules option" where
  "on_layout f r = do { xs \<leftarrow> on_last f (layoutInfos r); Some (r\<lparr>layoutInfos := xs\<rparr>) }"

definition on_variant :: "(variant_info \<Rightarrow> variant_info option) \<Rightarrow> xkb_rules \<Rightarrow> xkb_rules option" where
  "on_variant f = on_layout (\<lambda>l. do { vs \<leftarrow> on_last f (variantInfos l); Some (l\<lparr>variantInfos := vs\<rparr>) })"

definition on_model :: "(model_info \<Rightarrow> model_info option) \<Rightarrow> xkb_rules \<Rightarrow> xkb_rules option" where
  "on_model f r = do { xs \<leftarrow> on_last f (modelInfos r); Some (r\<lparr>modelInfos := xs\<rparr>) }"

definition on_group :: "(option_group_info \<Rightarrow> option_group_info option) \<Rightarrow> xkb_rules \<Rightarrow> xkb_rules option" where
  "on_group f r = do { xs \<leftarrow> on_last f (optionGroupInfos r); Some (r\<lparr>optionGroupInfos := xs\<rparr>) }"

definition on_option :: "(option_info \<Rightarrow> option_info option) \<Rightarrow> xkb_rules \<Rightarrow> xkb_rules option" where
  "on_option f = on_group (\<lambda>g. do { os \<leftarrow> on_last f (optionInfos g); Some (g\<lparr>optionInfos := os\<rparr>) })"

section \<open>The handlers\<close>

definition path_string :: "rules_handler \<Rightarrow> cstr" where
  "path_string h = the (fcitx_utils_string_list_join (Some (h_path h)) (of_char CHR ''/''))"

definition at_path :: "cstr \<Rightarrow> string \<Rightarrow> bool" where
  "at_path strPath s = fcitx_utils_string_ends_with strPath (bytes s)"

fun set_exclusive :: "(cstr \<times> cstr) list \<Rightarrow> option_group_info \<Rightarrow> option_group_info" where
  "set_exclusive [] g = g"
| "set_exclusive ((k, v) # atts) g =
     set_exclusive atts (if k = bytes ''allowMultipleSelection'' then g\<lparr>exclusive := v \<noteq> bytes ''true''\<rparr> else g)"

fun set_version :: "(cstr \<times> cstr) list \<Rightarrow> xkb_rules \<Rightarrow> xkb_rules" where
  "set_version [] r = r"
| "set_version ((k, v) # atts) r =
     set_version atts (if k = bytes ''version'' \<and> v \<noteq> [] then r\<lparr>version := Some v\<rparr> else r)"

definition RulesHandlerStartElement ::
  "cstr \<Rightarrow> (cstr \<times> cstr) list \<Rightarrow> rules_handler \<Rightarrow> rules_handler option" where
  "RulesHandlerStartElement name atts h =
     (let h = h\<lparr>h_path := h_path h @ [name]\<rparr>; r = h_rules h; p = path_string h in do {
        r \<leftarrow>
          (if at_path p ''layoutList/layout/configItem''
           then Some (r\<lparr>layoutInfos := layoutInfos r @ [new_layout]\<rparr>)
           else if at_path p ''layoutList/layout/variantList/variant''
           then on_layout (\<lambda>l. Some (l\<lparr>variantInfos := variantInfos l @ [new_variant]\<rparr>)) r
           else if at_path p ''modelList/model''
           then Some (r\<lparr>modelInfos := modelInfos r @ [new_model]\<rparr>)
           else if at_path p ''optionList/group''
           then Some (r\<lparr>optionGroupInfos := optionGroupInfos r @ [set_exclusive atts new_group]\<rparr>)
           else if at_path p ''optionList/group/option''
           then on_group (\<lambda>g. Some (g\<lparr>optionInfos := optionInfos g @ [new_option]\<rparr>)) r
           else if p = bytes ''xkbConfigRegistry''
           then Some (set_version atts r)
           else Some r);
        Some (h\<lparr>h_rules := r\<rparr>) })"

definition RulesHandlerEndElement :: "rules_handler \<Rightarrow> rules_handler option" where
  "RulesHandlerEndElement h = (if h_path h = [] then None else Some (h\<lparr>h_path := butlast (h_path h)\<rparr>))"

definition RulesHandlerCharacters :: "cstr \<Rightarrow> rules_handler \<Rightarrow> rules_handler option" where
  "RulesHandlerCharacters ch h =
     (let t = fcitx_utils_trim ch; r = h_rules h; p = path_string h in
      if t = [] then Some h
      else do {
        r \<leftarrow>
          (if at_path p ''layoutList/layout/configItem/name''
           then (if layoutInfos r = [] then Some r else on_layout (\<lambda>l. Some (l\<lparr>l_name := Some t\<rparr>)) r)
           else if at_path p ''layoutList/layout/configItem/description''
           then on_layout (\<lambda>l. Some (l\<lparr>l_description := Some t\<rparr>)) r
           else if at_path p ''layoutList/layout/configItem/languageList/iso639Id''
           then on_layout (\<lambda>l. Some (l\<lparr>l_languages := l_languages l @ [t]\<rparr>)) r
           else if at_path p ''layoutList/layout/variantList/variant/configItem/name''
           then on_variant (\<lambda>v. Some (v\<lparr>v_name := Some t\<rparr>)) r
           else if at_path p ''layoutList/layout/variantList/variant/configItem/description''
           then on_variant (\<lambda>v. Some (v\<lparr>v_description := Some t\<rparr>)) r
           else if at_path p ''layoutList/layout/variantList/variant/configItem/languageList/iso639Id''
           then on_variant (\<lambda>v. Some (v\<lparr>v_languages := v_languages v @ [t]\<rparr>)) r
           else if at_path p ''modelList/model/configItem/name''
           then on_model (\<lambda>m. Some (m\<lparr>m_name := Some t\<rparr>)) r
           else if at_path p ''modelList/model/configItem/description''
           then on_model (\<lambda>m. Some (m\<lparr>m_description := Some t\<rparr>)) r
           else if at_path p ''modelList/model/configItem/vendor''
           then on_model (\<lambda>m. Some (m\<lparr>m_vendor := Some t\<rparr>)) r
           else if at_path p ''optionList/group/configItem/name''
           then on_group (\<lambda>g. Some (g\<lparr>g_name := Some t\<rparr>)) r
           else if at_path p ''optionList/group/configItem/description''
           then on_group (\<lambda>g. Some (g\<lparr>g_description := Some t\<rparr>)) r
           else if at_path p ''optionList/group/option/configItem/name''
           then on_option (\<lambda>x. Some (x\<lparr>o_name := Some t\<rparr>)) r
           else if at_path p ''optionList/group/option/configItem/description''
           then on_option (\<lambda>x. Some (x\<lparr>o_description := Some t\<rparr>)) r
           else Some r);
        Some (h\<lparr>h_rules := r\<rparr>) })"

datatype xml_event = StartElement cstr "(cstr \<times> cstr) list" | EndElement | Characters cstr

fun handle :: "xml_event \<Rightarrow> rules_handler \<Rightarrow> rules_handler option" where
  "handle (StartElement name atts) h = RulesHandlerStartElement name atts h"
| "handle EndElement h = RulesHandlerEndElement h"
| "handle (Characters ch) h = RulesHandlerCharacters ch h"

fun handle_all :: "xml_event list \<Rightarrow> rules_handler \<Rightarrow> rules_handler option" where
  "handle_all [] h = Some h"
| "handle_all (e # es) h = do { h \<leftarrow> handle e h; handle_all es h }"

section \<open>Merging\<close>

fun FindByName :: "layout_info list \<Rightarrow> cstr option \<Rightarrow> nat option option" where
  "FindByName [] name = Some None"
| "FindByName (l # ls) name = do {
     n \<leftarrow> l_name l;
     m \<leftarrow> name;
     if strcmp n m = 0 then Some (Some 0)
     else do { k \<leftarrow> FindByName ls name; Some (map_option Suc k) } }"

definition add_info :: "layout_info \<Rightarrow> layout_info \<Rightarrow> layout_info" where
  "add_info x l = l\<lparr>l_languages := l_languages l @ l_languages x, variantInfos := variantInfos l @ variantInfos x\<rparr>"

fun merge_layouts ::
  "layout_info list \<Rightarrow> layout_info list \<Rightarrow> layout_info list \<Rightarrow> (layout_info list \<times> layout_info list) option" where
  "merge_layouts ls [] toAdd = Some (ls, toAdd)"
| "merge_layouts ls (x # xs) toAdd = do {
     k \<leftarrow> FindByName ls (l_name x);
     case k of
       Some i \<Rightarrow> merge_layouts (ls[i := add_info x (ls ! i)]) xs toAdd
     | None \<Rightarrow> merge_layouts ls xs (toAdd @ [x]) }"

definition MergeRules :: "xkb_rules \<Rightarrow> xkb_rules \<Rightarrow> xkb_rules option" where
  "MergeRules r e = do {
     (ls, toAdd) \<leftarrow> merge_layouts (layoutInfos r) (layoutInfos e) [];
     Some (r\<lparr>modelInfos := modelInfos r @ modelInfos e,
             optionGroupInfos := optionGroupInfos r @ optionGroupInfos e,
             layoutInfos := ls @ toAdd\<rparr>) }"

text \<open>A file name of less than four bytes makes the length of the stem wrap around.\<close>

definition fcitx_xkb_rules_new :: "(cstr \<Rightarrow> xml_event list) \<Rightarrow> cstr \<Rightarrow> xkb_rules option" where
  "fcitx_xkb_rules_new parse file = do {
     h \<leftarrow> handle_all (parse file) \<lparr>h_path = [], h_rules = no_rules\<rparr>;
     if length file < 4 then None
     else if strcmp (drop (length file - 4) file) (bytes ''.xml'') = 0
     then do {
       e \<leftarrow> handle_all (parse (take (length file - 4) file @ bytes ''.extras.xml''))
          \<lparr>h_path = [], h_rules = no_rules\<rparr>;
       MergeRules (h_rules h) (h_rules e) }
     else Some (h_rules h) }"

section \<open>Properties\<close>

definition named :: "layout_info \<Rightarrow> bool" where
  "named l \<longleftrightarrow> (case l_name l of Some n \<Rightarrow> c_string n | None \<Rightarrow> False)"

text \<open>What the merge adds to a layout.\<close>

definition gathered :: "layout_info list \<Rightarrow> layout_info \<Rightarrow> layout_info" where
  "gathered xs l = fold add_info (filter (\<lambda>x. l_name x = l_name l) xs) l"

lemma add_info_name [simp]: "l_name (add_info x l) = l_name l"
  by (simp add: add_info_def)

lemma named_add_info [simp]: "named (add_info x l) = named l"
  by (simp add: named_def)

lemma FindByName_run:
  "\<forall>l \<in> set ls. named l \<Longrightarrow> named x \<Longrightarrow>
   (\<exists>i < length ls. FindByName ls (l_name x) = Some (Some i) \<and> l_name (ls ! i) = l_name x) \<or>
   (FindByName ls (l_name x) = Some None \<and> l_name x \<notin> l_name ` set ls)"
proof (induction ls)
  case (Cons l ls)
  obtain n m where n: "l_name l = Some n" "c_string n" and m: "l_name x = Some m" "c_string m"
    using Cons.prems by (auto simp: named_def split: option.splits)
  show ?case
  proof (cases "n = m")
    case True
    then show ?thesis using n m by simp
  next
    case False
    then have "strcmp n m \<noteq> 0" using n m by simp
    then show ?thesis using Cons n m False by auto
  qed
qed simp

lemma gathered_Cons:
  "gathered (x # xs) l = gathered xs (if l_name x = l_name l then add_info x l else l)"
  by (simp add: gathered_def)

lemma map_gathered_found:
  assumes "distinct (map l_name ls)" and "i < length ls" and "l_name (ls ! i) = l_name x"
  shows "map (gathered (x # xs)) ls = map (gathered xs) (ls[i := add_info x (ls ! i)])"
proof (rule nth_equalityI)
  fix j assume "j < length (map (gathered (x # xs)) ls)"
  then have j: "j < length ls" by simp
  have "l_name (ls ! j) = l_name x \<longleftrightarrow> j = i"
    using assms j nth_eq_iff_index_eq[OF assms(1), of j i] by simp
  then show "map (gathered (x # xs)) ls ! j = map (gathered xs) (ls[i := add_info x (ls ! i)]) ! j"
    using j assms(2) by (auto simp: gathered_Cons nth_list_update)
qed simp

lemma merge_layouts_run:
  "distinct (map l_name ls) \<Longrightarrow> \<forall>l \<in> set ls. named l \<Longrightarrow> \<forall>x \<in> set xs. named x \<Longrightarrow>
   merge_layouts ls xs toAdd =
     Some (map (gathered xs) ls, toAdd @ filter (\<lambda>x. l_name x \<notin> l_name ` set ls) xs)"
proof (induction xs arbitrary: ls toAdd)
  case Nil
  then show ?case by (simp add: gathered_def)
next
  case (Cons x xs)
  from FindByName_run[OF Cons.prems(2), of x] Cons.prems(3)
  consider i where "i < length ls" "FindByName ls (l_name x) = Some (Some i)" "l_name (ls ! i) = l_name x"
    | "FindByName ls (l_name x) = Some None" "l_name x \<notin> l_name ` set ls"
    by auto
  then show ?case
  proof cases
    case 1
    let ?ls = "ls[i := add_info x (ls ! i)]"
    have names: "map l_name ?ls = map l_name ls"
      using 1(1) by (simp add: map_update list_update_same_conv)
    have set_names: "l_name ` set ?ls = l_name ` set ls" by (metis names set_map)
    have "\<forall>l \<in> set ?ls. named l"
      using Cons.prems(2) 1(1) by (auto dest: set_update_subset_insert[THEN subsetD])
    then have "merge_layouts ?ls xs toAdd =
        Some (map (gathered xs) ?ls, toAdd @ filter (\<lambda>x. l_name x \<notin> l_name ` set ls) xs)"
      using Cons.IH[of ?ls toAdd] Cons.prems(1,3) names set_names by simp
    moreover have "l_name x \<in> l_name ` set ls" using 1(1,3) by (metis image_eqI nth_mem)
    ultimately show ?thesis
      using 1 map_gathered_found[OF Cons.prems(1) 1(1,3), of xs] by simp
  next
    case 2
    have "map (gathered (x # xs)) ls = map (gathered xs) ls"
      using 2(2) by (auto simp: gathered_Cons)
    then show ?thesis using 2 Cons by simp
  qed
qed

text \<open>C31: Merging the extra rules appends its models and option groups, adds the languages and variants
  of each of its layouts to the layout of the same name, and appends the layouts that have none, in
  their order.\<close>

theorem merge_rules:
  assumes "distinct (map l_name (layoutInfos r))"
    and "list_all named (layoutInfos r)" and "list_all named (layoutInfos e)"
  shows "\<exists>r'. MergeRules r e = Some r' \<and> modelInfos r' = modelInfos r @ modelInfos e \<and>
    optionGroupInfos r' = optionGroupInfos r @ optionGroupInfos e \<and> version r' = version r \<and>
    layoutInfos r' = map (gathered (layoutInfos e)) (layoutInfos r) @
      filter (\<lambda>x. l_name x \<notin> l_name ` set (layoutInfos r)) (layoutInfos e)"
  using merge_layouts_run[OF assms(1), of "layoutInfos e" "[]"] assms(2,3)
  by (simp add: MergeRules_def list_all_iff)

theorem merge_rules_witness:
  "\<exists>r'. MergeRules (no_rules\<lparr>layoutInfos := [new_layout\<lparr>l_name := Some [117], l_languages := [[1]]\<rparr>]\<rparr>)
       (no_rules\<lparr>layoutInfos := [new_layout\<lparr>l_name := Some [117], l_languages := [[2]]\<rparr>,
          new_layout\<lparr>l_name := Some [100]\<rparr>]\<rparr>) = Some r' \<and>
     map l_languages (layoutInfos r') = [[[1], [2]], []]"
  using merge_rules[of "no_rules\<lparr>layoutInfos := [new_layout\<lparr>l_name := Some [117], l_languages := [[1]]\<rparr>]\<rparr>"
      "no_rules\<lparr>layoutInfos := [new_layout\<lparr>l_name := Some [117], l_languages := [[2]]\<rparr>,
          new_layout\<lparr>l_name := Some [100]\<rparr>]\<rparr>"]
  by (auto simp: no_rules_def new_layout_def named_def gathered_def add_info_def)

text \<open>The parser may hand over a text in several pieces, around an entity for one; each replaces the
  one before.\<close>

lemma on_layout_total:
  "on_layout (\<lambda>l. Some (f l)) r =
     (if layoutInfos r = [] then None
      else Some (r\<lparr>layoutInfos := butlast (layoutInfos r) @ [f (last (layoutInfos r))]\<rparr>))"
  by (simp add: on_layout_def on_last_def)

lemma text_pieces_lost:
  assumes "at_path (path_string h) ''layoutList/layout/configItem/name''"
    and "RulesHandlerCharacters a h = Some h'" and "fcitx_utils_trim b \<noteq> []"
  shows "RulesHandlerCharacters b h' = RulesHandlerCharacters b h"
proof (cases "fcitx_utils_trim a = [] \<or> layoutInfos (h_rules h) = []")
  case True
  then have "h' = h" using assms(1,2) by (auto simp: RulesHandlerCharacters_def Let_def split: if_splits)
  then show ?thesis by simp
next
  case False
  let ?r = "h_rules h" and ?t = "fcitx_utils_trim a"
  have h': "h' = h\<lparr>h_rules := ?r\<lparr>layoutInfos :=
      butlast (layoutInfos ?r) @ [(last (layoutInfos ?r))\<lparr>l_name := Some ?t\<rparr>]\<rparr>\<rparr>"
    using assms(1,2) False by (simp add: RulesHandlerCharacters_def on_layout_total Let_def)
  then have "path_string h' = path_string h" by (simp add: path_string_def)
  then show ?thesis
    using assms(1,3) False by (simp add: RulesHandlerCharacters_def on_layout_total Let_def h')
qed

text \<open>A variant that comes before the first layout has no layout to go to.\<close>

lemma variant_before_layout:
  assumes "at_path (path_string (h\<lparr>h_path := h_path h @ [name]\<rparr>)) ''layoutList/layout/variantList/variant''"
    and "layoutInfos (h_rules h) = []"
    and "\<not> at_path (path_string (h\<lparr>h_path := h_path h @ [name]\<rparr>)) ''layoutList/layout/configItem''"
  shows "RulesHandlerStartElement name atts h = None"
  using assms by (simp add: RulesHandlerStartElement_def Let_def on_layout_total)

end
