(* ===== verification/Configuration.thy ===== *)
theory Configuration imports Dict StringUtils begin

text \<open>
  The configuration tree, \<open>src/lib/fcitx-config/configuration.c\<close> and \<open>configuration.h\<close>.

  A node is addressed by the list of the segments of its path.  What a caller does through the pointer
  that \<open>fcitx_configuration_get\<close> returns is the function that is applied to the node; nodes are not
  shared between trees.  The table of the children is an insertion-ordered dictionary.
\<close>

section \<open>The tree\<close>

datatype config = Config
  (cfg_name: "cstr option") (cfg_value: "cstr option") (cfg_comment: "cstr option")
  (subitems: "(cstr \<times> config) list option")

definition kids :: "config \<Rightarrow> (cstr \<times> config) list" where
  "kids c = (case subitems c of None \<Rightarrow> [] | Some xs \<Rightarrow> xs)"

definition dict_of :: "(cstr \<times> 'a) list \<Rightarrow> 'a dict" where
  "dict_of xs = \<lparr>items = xs, num_items = of_nat (length xs), has_notify = True, destroyed = []\<rparr>"

definition fcitx_configuration_new :: "cstr option \<Rightarrow> config" where
  "fcitx_configuration_new name = Config name None None None"

lemma kids_size [termination_simp]: "size_list (size_prod (\<lambda>_. 0) size) (kids c) < size c"
  by (cases c) (auto simp: kids_def split: option.split)

text \<open>The segments of a path: a slash at the front of what is left is skipped, then the text up to the
  next slash is a segment, which may be empty.\<close>

function path_segments :: "cstr \<Rightarrow> cstr list" where
  "path_segments path =
     (if path = [] then []
      else
        let path = (if hd path = 47 then tl path else path)
        in takeWhile (\<lambda>c. c \<noteq> 47) path # path_segments (dropWhile (\<lambda>c. c \<noteq> 47) path))"
  by pat_completeness auto
termination
proof (relation "measure length")
  fix path x :: cstr assume "path \<noteq> []" and x: "x = (if hd path = 47 then tl path else path)"
  then show "(dropWhile (\<lambda>c. c \<noteq> 47) x, path) \<in> measure length"
    using length_dropWhile_le [of "\<lambda>c. c \<noteq> 47" "tl path"] by (cases path) auto
qed simp

declare path_segments.simps [simp del]

text \<open>The walk to a node that exists; a change of such a node; and the walk that makes what is missing.\<close>

fun config_node :: "cstr list \<Rightarrow> config \<Rightarrow> config option" where
  "config_node [] c = Some c"
| "config_node (s # ss) c = do {
     d \<leftarrow> fcitx_dict_lookup s (dict_of (kids c));
     config_node ss d }"

fun config_change :: "cstr list \<Rightarrow> (config \<Rightarrow> config) \<Rightarrow> config \<Rightarrow> config" where
  "config_change [] f c = f c"
| "config_change (s # ss) f (Config n v m xs) =
     Config n v m (map_option (map (\<lambda>(k, d). (k, if k = s then config_change ss f d else d))) xs)"

fun config_create :: "cstr list \<Rightarrow> (config \<Rightarrow> config) \<Rightarrow> config \<Rightarrow> config" where
  "config_create [] f c = f c"
| "config_create (s # ss) f (Config n v m xs) =
     (let items = (case xs of None \<Rightarrow> [] | Some xs \<Rightarrow> xs) in
      case fcitx_dict_lookup s (dict_of items) of
        Some d \<Rightarrow> Config n v m (Some (map (\<lambda>(k, d). (k, if k = s then config_create ss f d else d)) items))
      | None \<Rightarrow>
          let new = Config (Some s) None None None
          in Config n v m (Some (items @ [(s, config_create ss f new)])))"

definition fcitx_configuration_get ::
  "config \<Rightarrow> cstr \<Rightarrow> bool \<Rightarrow> (config \<Rightarrow> config) \<Rightarrow> config option \<times> config" where
  "fcitx_configuration_get c path createPath f =
     (let ss = path_segments path;
          c' = (if createPath then config_create ss f c
                else if config_node ss c = None then c else config_change ss f c)
      in (config_node ss c', c'))"

text \<open>\<open>None\<close> is a use of the missing parent of the root.\<close>

definition fcitx_configuration_remove :: "config \<Rightarrow> cstr \<Rightarrow> config option" where
  "fcitx_configuration_remove c path =
     (let ss = path_segments path in
      case config_node ss c of
        None \<Rightarrow> Some c
      | Some _ \<Rightarrow>
          if ss = [] then None
          else Some (config_change (butlast ss)
            (\<lambda>p. case fcitx_dict_remove (last ss) False (dict_of (kids p)) of
                Some (_, _, d) \<Rightarrow> Config (cfg_name p) (cfg_value p) (cfg_comment p) (Some (items d))
              | None \<Rightarrow> p) c))"

definition fcitx_configuration_get_comment :: "config \<Rightarrow> cstr option" where
  "fcitx_configuration_get_comment c = cfg_comment c"

definition fcitx_configuration_get_name :: "config \<Rightarrow> cstr option" where
  "fcitx_configuration_get_name c = cfg_name c"

definition fcitx_configuration_get_value :: "config \<Rightarrow> cstr option" where
  "fcitx_configuration_get_value c = cfg_value c"

definition fcitx_configuration_set_comment :: "cstr option \<Rightarrow> config \<Rightarrow> config" where
  "fcitx_configuration_set_comment comment c =
     Config (cfg_name c) (cfg_value c) (fcitx_utils_string_swap (cfg_comment c) comment) (subitems c)"

definition fcitx_configuration_set_value :: "cstr option \<Rightarrow> config \<Rightarrow> config" where
  "fcitx_configuration_set_value value c =
     Config (cfg_name c) (fcitx_utils_string_swap (cfg_value c) value) (cfg_comment c) (subitems c)"

definition fcitx_configuration_set_value_by_path :: "config \<Rightarrow> cstr \<Rightarrow> cstr option \<Rightarrow> config" where
  "fcitx_configuration_set_value_by_path c path value =
     snd (fcitx_configuration_get c path True (fcitx_configuration_set_value value))"

definition fcitx_configuration_get_value_by_path :: "config option \<Rightarrow> cstr \<Rightarrow> cstr option" where
  "fcitx_configuration_get_value_by_path c path = do {
     c \<leftarrow> c;
     d \<leftarrow> config_node (path_segments path) c;
     fcitx_configuration_get_value d }"

text \<open>It sets the value.\<close>

definition fcitx_configuration_set_comment_by_path :: "config \<Rightarrow> cstr \<Rightarrow> cstr option \<Rightarrow> config" where
  "fcitx_configuration_set_comment_by_path c path value =
     snd (fcitx_configuration_get c path True (fcitx_configuration_set_value value))"

definition fcitx_configuration_has_sub_items :: "config \<Rightarrow> bool" where
  "fcitx_configuration_has_sub_items c \<longleftrightarrow> subitems c \<noteq> None \<and> fcitx_dict_size (dict_of (kids c)) \<noteq> 0"

section \<open>Traversal\<close>

text \<open>
  The buffer for the paths grows to the longest one so far, \<open>bufLen\<close>; while it is still missing, writing
  the terminator of an empty path is a write through \<open>NULL\<close>: \<open>None\<close>.  The callback does not change the
  tree.
\<close>

function configuration_subitems_foreach ::
  "cstr \<Rightarrow> bool \<Rightarrow> (config \<Rightarrow> cstr \<Rightarrow> 's \<Rightarrow> 's option) \<Rightarrow> nat \<Rightarrow> (cstr \<times> config) list \<Rightarrow> 's \<Rightarrow> 's option"
where
  "configuration_subitems_foreach path recursive callback bufLen [] s = Some s"
| "configuration_subitems_foreach path recursive callback bufLen ((key, c) # rest) s =
     (let newPathLen = length path + length key + (if path = [] then 0 else 1);
          bufLen = (if newPathLen > bufLen then newPathLen else bufLen);
          newPath = (if path = [] then key else path @ 47 # key)
      in if bufLen = 0 then None
         else do {
           s \<leftarrow> callback c newPath s;
           s \<leftarrow> (if recursive then configuration_subitems_foreach newPath recursive callback 0 (kids c) s else Some s);
           configuration_subitems_foreach path recursive callback bufLen rest s })"
  by pat_completeness auto
termination
  by (relation "measure (\<lambda>(path, r, f, n, xs, s). size_list (size_prod (\<lambda>_. 0) size) xs)")
    (auto intro: less_SucI order.strict_trans2 [OF kids_size])

definition fcitx_configuration_foreach ::
  "config \<Rightarrow> cstr \<Rightarrow> bool \<Rightarrow> cstr option \<Rightarrow> (config \<Rightarrow> cstr \<Rightarrow> 's \<Rightarrow> 's option) \<Rightarrow> 's \<Rightarrow> 's option" where
  "fcitx_configuration_foreach c path recursive pathPrefix callback s =
     (case config_node (path_segments path) c of
        None \<Rightarrow> Some s
      | Some d \<Rightarrow>
          configuration_subitems_foreach (case pathPrefix of Some p \<Rightarrow> p | None \<Rightarrow> []) recursive callback 0 (kids d) s)"

text \<open>Sorting the children of a node; \<open>None\<close> is a use of a missing table.\<close>

definition configuration_compare ::
  "(config \<Rightarrow> config \<Rightarrow> int) \<Rightarrow> cstr \<times> config \<Rightarrow> cstr \<times> config \<Rightarrow> int" where
  "configuration_compare callback a b = callback (snd a) (snd b)"

definition fcitx_configuration_sort ::
  "config \<Rightarrow> cstr \<Rightarrow> (config \<Rightarrow> config \<Rightarrow> int) option \<Rightarrow> config option" where
  "fcitx_configuration_sort c path compare =
     (let ss = path_segments path in
      case config_node ss c of
        None \<Rightarrow> Some c
      | Some d \<Rightarrow>
          if subitems d = None then None
          else
            let xs = (case compare of
                  None \<Rightarrow> items (fcitx_dict_sort None (dict_of (kids d)))
                | Some callback \<Rightarrow> HASH_SORT (configuration_compare callback) (kids d))
            in Some (config_change ss
                 (\<lambda>p. Config (cfg_name p) (cfg_value p) (cfg_comment p) (Some xs)) c))"

section \<open>Lookup after a change\<close>

definition value_at :: "cstr list \<Rightarrow> config \<Rightarrow> cstr option" where
  "value_at ss c = Option.bind (config_node ss c) cfg_value"

lemma find_kids: "fcitx_dict_lookup s (dict_of xs) = map_of xs s"
  by (simp add: fcitx_dict_lookup_def HASH_FIND_def dict_of_def)

lemma map_of_change: "map_of (map (\<lambda>(k, d). (k, if k = s then f d else d)) xs) j =
    (if j = s then map_option f (map_of xs j) else map_of xs j)"
  by (induction xs) auto

lemma value_at_simps [simp]:
  "value_at [] c = cfg_value c"
  "value_at (s # ss) c = Option.bind (map_of (kids c) s) (value_at ss)"
  by (simp_all add: value_at_def find_kids) (simp add: value_at_def [abs_def])

lemma kids_simps [simp]:
  "kids (Config n v m (Some xs)) = xs" "kids (Config n v m None) = []"
  "kids (fcitx_configuration_set_value w c) = kids c"
  "cfg_value (fcitx_configuration_set_value w c) = w"
  by (simp_all add: kids_def fcitx_configuration_set_value_def fcitx_utils_string_swap_def split: option.split)

lemma value_at_new [simp]: "value_at ss (Config n None m None) = None"
  by (cases ss) auto

lemma value_at_set: "value_at tt (config_create ss (fcitx_configuration_set_value w) c) =
    (if tt = ss then w else value_at tt c)"
proof (induction ss arbitrary: c tt)
  case Nil
  then show ?case by (cases tt) simp_all
next
  case (Cons s ss)
  obtain n v m xs where c: "c = Config n v m xs" by (cases c)
  define items where "items = (case xs of None \<Rightarrow> [] | Some xs \<Rightarrow> xs)"
  have k: "kids c = items" by (simp add: c items_def kids_def)
  show ?case
  proof (cases tt)
    case Nil
    then show ?thesis by (simp add: c Let_def split: option.split)
  next
    case tt: (Cons t tts)
    show ?thesis
    proof (cases "map_of items s")
      case None
      then have "kids (config_create (s # ss) (fcitx_configuration_set_value w) c) =
          items @ [(s, config_create ss (fcitx_configuration_set_value w) (Config (Some s) None None None))]"
        by (simp add: c items_def [symmetric] find_kids Let_def)
      then show ?thesis using None Cons.IH [of tts "Config (Some s) None None None"]
        by (auto simp: tt k map_add_def bind_eq_None_conv split: option.split bind_split)
    next
      case (Some d)
      then have "kids (config_create (s # ss) (fcitx_configuration_set_value w) c) =
          map (\<lambda>(k, d). (k, if k = s then config_create ss (fcitx_configuration_set_value w) d else d)) items"
        by (simp add: c items_def [symmetric] find_kids Let_def)
      then show ?thesis using Some Cons.IH [of tts d]
        by (auto simp: tt k map_of_change)
    qed
  qed
qed

text \<open>A path that is the segments joined by slashes is split into them again.\<close>

definition path_of :: "cstr list \<Rightarrow> cstr" where
  "path_of ss = tl (concat (map (\<lambda>s. 47 # s) ss))"

definition segment_ok :: "cstr \<Rightarrow> bool" where
  "segment_ok s \<longleftrightarrow> s \<noteq> [] \<and> 47 \<notin> set s"

lemma segments_run:
  "47 \<notin> set s \<Longrightarrow> p = [] \<or> hd p = 47 \<Longrightarrow> path_segments (47 # s @ p) = s # path_segments p"
proof -
  assume s: "47 \<notin> set s" and p: "p = [] \<or> hd p = 47"
  have "takeWhile (\<lambda>c. c \<noteq> 47) (s @ p) = s \<and> dropWhile (\<lambda>c. c \<noteq> 47) (s @ p) = p"
    using s p by (cases p) (auto simp: takeWhile_append dropWhile_append)
  then show ?thesis by (subst path_segments.simps) (simp add: Let_def)
qed

lemma segments_slash: "list_all segment_ok ss \<Longrightarrow> path_segments (concat (map (\<lambda>s. 47 # s) ss)) = ss"
proof (induction ss)
  case Nil
  show ?case by (simp add: path_segments.simps)
next
  case (Cons s ss)
  then have "47 \<notin> set s" by (simp add: segment_ok_def)
  moreover have "concat (map (\<lambda>s. 47 # s) ss) = [] \<or> hd (concat (map (\<lambda>s. 47 # s) ss)) = 47" by (cases ss) auto
  ultimately show ?case using segments_run [of s "concat (map (\<lambda>s. 47 # s) ss)"] Cons by simp
qed

lemma segments_tl: "p \<noteq> [] \<Longrightarrow> hd p = 47 \<Longrightarrow> tl p \<noteq> [] \<Longrightarrow> hd (tl p) \<noteq> 47 \<Longrightarrow> path_segments (tl p) = path_segments p"
  by (subst (1 2) path_segments.simps) simp

lemma segments_path [simp]: "list_all segment_ok ss \<Longrightarrow> path_segments (path_of ss) = ss"
proof (cases ss)
  case Nil
  then show ?thesis by (simp add: path_of_def path_segments.simps)
next
  case (Cons s tt)
  assume ok: "list_all segment_ok ss"
  then have "s \<noteq> []" "hd s \<noteq> 47" using Cons by (cases s; auto simp: segment_ok_def)+
  then have "path_segments (path_of ss) = path_segments (concat (map (\<lambda>s. 47 # s) ss))"
    unfolding path_of_def by (intro segments_tl) (auto simp: Cons)
  then show ?thesis using segments_slash [OF ok] by simp
qed

end
