(* ===== verification/Description.thy ===== *)
theory Description
  imports Configuration StringSets
begin

text \<open>
  The description of a configuration, \<open>src/lib/fcitx-config/description.c\<close>: the structures a
  description file declares, the check of their attributes, and the structures that no list refers to.
  A pointer that is \<open>NULL\<close> until it is set is an option; using it before is \<open>None\<close>.
\<close>

record description =
  desc_error :: bool
  errorMessage :: "cstr option"
  localeDomain :: "cstr option"
  rootConfig :: config
  structs :: "unit dict option"
  topLevelStructs :: "unit dict option"

definition is_builtin_type :: "cstr \<Rightarrow> bool" where
  "is_builtin_type str \<longleftrightarrow>
     (str = bytes ''Integer'' \<or>
      str = bytes ''String'' \<or> str = bytes ''File'' \<or> str = bytes ''Font'' \<or>
      str = bytes ''Boolean'' \<or>
      str = bytes ''Char'' \<or>
      str = bytes ''Enum'' \<or>
      str = bytes ''I18NString'' \<or>
      str = bytes ''Hotkey'' \<or>
      str = bytes ''Color'' \<or>
      str = bytes ''List'')"

definition find_structs_callback :: "config \<Rightarrow> cstr \<Rightarrow> description \<Rightarrow> description option" where
  "find_structs_callback c path desc =
     (if path = bytes ''DescriptionFile'' then Some desc
      else do {
        s \<leftarrow> structs desc;
        Some (desc\<lparr>structs := Some (snd (fcitx_string_hashset_insert s path))\<rparr>) })"

definition find_structs :: "config \<Rightarrow> description \<Rightarrow> description option" where
  "find_structs c desc =
     fcitx_configuration_foreach c [] False None find_structs_callback
       (desc\<lparr>structs := Some fcitx_string_hashset_new\<rparr>)"

definition report :: "cstr \<Rightarrow> description \<Rightarrow> description" where
  "report message desc = desc\<lparr>errorMessage := Some message, desc_error := True\<rparr>"

definition struct_attribute_foreach :: "config \<Rightarrow> cstr \<Rightarrow> description \<Rightarrow> description option" where
  "struct_attribute_foreach c path desc =
     (if desc_error desc then Some desc
      else
        case fcitx_configuration_get_value_by_path (Some c) (bytes ''Type'') of
          None \<Rightarrow> Some (report (path @ bytes '' misses Type.'') desc)
        | Some type \<Rightarrow>
            if \<not> is_builtin_type type then Some (report (bytes ''Invalide Type.'') desc)
            else if type = bytes ''List'' then
              (case fcitx_configuration_get_value_by_path (Some c) (bytes ''SubType'') of
                 None \<Rightarrow> Some (report (path @ bytes '' misses SubType.'') desc)
               | Some subType \<Rightarrow>
                   if subType = bytes ''List''
                   then Some (report (bytes ''Recursive List is not allowed.'') desc)
                   else do {
                     known \<leftarrow> (if is_builtin_type subType then Some True
                       else do { s \<leftarrow> structs desc; Some (fcitx_string_hashset_contains s subType) });
                     if \<not> known then Some (report (bytes ''Invalide SubType.'') desc)
                     else do {
                       t \<leftarrow> topLevelStructs desc;
                       (_, t) \<leftarrow> fcitx_string_hashset_remove t subType;
                       Some (desc\<lparr>topLevelStructs := Some t\<rparr>) } })
            else Some desc)"

definition structs_foreach :: "(unit, description option) foreach_func" where
  "structs_foreach key data st =
     (False, data, do {
        desc \<leftarrow> st;
        fcitx_configuration_foreach (rootConfig desc) key False (Some []) struct_attribute_foreach desc })"

definition find_top_level_structs :: "description \<Rightarrow> description option" where
  "find_top_level_structs desc = do {
     s \<leftarrow> structs desc;
     snd (fcitx_dict_foreach structs_foreach s (Some (desc\<lparr>topLevelStructs := Some (fcitx_string_hashset_clone s)\<rparr>))) }"

definition fcitx_description_parse :: "config \<Rightarrow> description option" where
  "fcitx_description_parse c =
     (let domain = fcitx_configuration_get_value_by_path (Some c) (bytes ''DescriptionFile/LocaleDomain'');
          desc = \<lparr>desc_error = False, errorMessage = None, localeDomain = domain, rootConfig = c,
                  structs = None, topLevelStructs = None\<rparr>
      in do {
        desc \<leftarrow> find_structs c desc;
        if desc_error desc then Some desc else find_top_level_structs desc })"

section \<open>What a description declares\<close>

definition declared :: "config \<Rightarrow> cstr list" where
  "declared c = filter (\<lambda>k. k \<noteq> bytes ''DescriptionFile'') (map fst (kids c))"

definition attributes :: "config \<Rightarrow> cstr list \<Rightarrow> config list" where
  "attributes c names = concat (map (\<lambda>s. map snd (kids (the (map_of (kids c) s)))) names)"

abbreviation type_of :: "config \<Rightarrow> cstr option" where
  "type_of a \<equiv> fcitx_configuration_get_value_by_path (Some a) (bytes ''Type'')"

abbreviation element_type :: "config \<Rightarrow> cstr option" where
  "element_type a \<equiv> fcitx_configuration_get_value_by_path (Some a) (bytes ''SubType'')"

definition attribute_ok :: "cstr list \<Rightarrow> config \<Rightarrow> bool" where
  "attribute_ok names a \<longleftrightarrow>
     (\<exists>t. type_of a = Some t \<and> is_builtin_type t \<and>
        (t = bytes ''List'' \<longrightarrow>
         (\<exists>s. element_type a = Some s \<and> s \<noteq> bytes ''List'' \<and> (is_builtin_type s \<or> s \<in> set names))))"

definition list_of :: "cstr \<Rightarrow> config \<Rightarrow> bool" where
  "list_of s a \<longleftrightarrow> type_of a = Some (bytes ''List'') \<and> element_type a = Some s"

definition named_parts :: "config \<Rightarrow> bool" where
  "named_parts c \<longleftrightarrow> distinct (map fst (kids c)) \<and>
     (\<forall>(k, d) \<in> set (kids c). segment_ok k \<and> (\<forall>(j, e) \<in> set (kids d). j \<noteq> []))"

section \<open>The traversals\<close>

lemma list_builtin: "is_builtin_type (bytes ''List'')"
  by (simp add: is_builtin_type_def)

lemmas list_builtin_numerals [simp] = list_builtin[simplified]

lemma foreach_flat:
  "\<forall>(k, d) \<in> set xs. k \<noteq> [] \<Longrightarrow>
   configuration_subitems_foreach [] False f n xs s = fold (\<lambda>(k, d) s. Option.bind s (f d k)) xs (Some s)"
proof (induction xs arbitrary: n s)
  case (Cons x xs)
  have none: "fold (\<lambda>(k, d) s. Option.bind s (f d k)) ys None = None" for ys
    by (induction ys) auto
  obtain k d where x: "x = (k, d)" by (cases x)
  then show ?case using Cons by (cases "f d k s") (auto simp: Let_def none)
qed simp

lemma hashset_insert_new:
  "dict_ok s \<Longrightarrow> k \<notin> set (map fst (items s)) \<Longrightarrow>
   dict_ok (snd (fcitx_string_hashset_insert s k)) \<and>
   map fst (items (snd (fcitx_string_hashset_insert s k))) = map fst (items s) @ [k]"
  using fold_add_piece[of s "[k]"] by (simp add: add_piece_def)

lemma find_structs_run:
  "distinct (map fst xs) \<Longrightarrow> structs desc = Some s \<Longrightarrow> dict_ok s \<Longrightarrow>
   set (map fst (items s)) \<inter> set (map fst xs) = {} \<Longrightarrow>
   \<exists>t. fold (\<lambda>(k, d) s. Option.bind s (find_structs_callback d k)) xs (Some desc) =
       Some (desc\<lparr>structs := Some t\<rparr>) \<and> dict_ok t \<and>
     map fst (items t) = map fst (items s) @ filter (\<lambda>k. k \<noteq> bytes ''DescriptionFile'') (map fst xs)"
proof (induction xs arbitrary: desc s)
  case Nil
  then show ?case by (intro exI[of _ s]) simp
next
  case (Cons x xs)
  obtain k d where x: "x = (k, d)" by (cases x)
  show ?case
  proof (cases "k = bytes ''DescriptionFile''")
    case True
    then have "find_structs_callback d k desc = Some desc" by (simp add: find_structs_callback_def)
    then show ?thesis using Cons.IH[of desc s] Cons.prems x True by simp
  next
    case False
    let ?s = "snd (fcitx_string_hashset_insert s k)"
    have i: "dict_ok ?s" "map fst (items ?s) = map fst (items s) @ [k]"
      using hashset_insert_new[of s k] Cons.prems x by auto
    have "find_structs_callback d k desc = Some (desc\<lparr>structs := Some ?s\<rparr>)"
      using False Cons.prems by (simp add: find_structs_callback_def)
    moreover have "set (map fst (items ?s)) \<inter> set (map fst xs) = {}"
      using Cons.prems x i(2) by auto
    ultimately show ?thesis
      using Cons.IH[of "desc\<lparr>structs := Some ?s\<rparr>" ?s] Cons.prems x i False by auto
  qed
qed

lemma hashset_remove_run:
  assumes "dict_ok t"
  shows "\<exists>r t'. fcitx_string_hashset_remove t k = Some (r, t') \<and> dict_ok t' \<and>
    map fst (items t') = filter (\<lambda>x. x \<noteq> k) (map fst (items t))"
proof (cases "HASH_FIND k t")
  case None
  then have "filter (\<lambda>x. x \<noteq> k) (map fst (items t)) = map fst (items t)"
    by (auto simp: HASH_FIND_def map_of_eq_None_iff filter_id_conv)
  with None assms show ?thesis
    by (intro exI[of _ False] exI[of _ t]) (simp add: fcitx_string_hashset_remove_def fcitx_dict_remove_def)
next
  case (Some v)
  have "map fst (AList.delete k xs) = filter (\<lambda>x. x \<noteq> k) (map fst xs)" for xs :: "(cstr \<times> unit) list"
    by (induction xs) auto
  with remove_ok[OF assms Some, of False] show ?thesis
    by (auto simp: fcitx_string_hashset_remove_def)
qed

text \<open>What holds after the attributes \<open>xs\<close> have been seen.\<close>

definition seen :: "cstr list \<Rightarrow> config list \<Rightarrow> description \<Rightarrow> bool" where
  "seen names xs desc \<longleftrightarrow>
     (\<exists>s t. structs desc = Some s \<and> map fst (items s) = names \<and> topLevelStructs desc = Some t \<and> dict_ok t \<and>
        (\<not> desc_error desc \<longrightarrow> map fst (items t) = filter (\<lambda>n. \<not> list_ex (list_of n) xs) names)) \<and>
     (desc_error desc \<longleftrightarrow> \<not> list_all (attribute_ok names) xs) \<and> (desc_error desc \<longleftrightarrow> errorMessage desc \<noteq> None)"

definition same_input :: "description \<Rightarrow> description \<Rightarrow> bool" where
  "same_input a b \<longleftrightarrow> rootConfig a = rootConfig b \<and> localeDomain a = localeDomain b \<and> structs a = structs b"

lemma same_input_refl [simp]: "same_input a a"
  by (simp add: same_input_def)

lemma same_input_trans: "same_input a b \<Longrightarrow> same_input b c \<Longrightarrow> same_input a c"
  by (simp add: same_input_def)

lemma seen_report:
  assumes "seen names xs desc" and "\<not> attribute_ok names a"
  shows "seen names (xs @ [a]) (report m desc) \<and> same_input desc (report m desc)"
  using assms by (auto simp: seen_def report_def same_input_def)

lemma hashset_contains: "fcitx_string_hashset_contains s k \<longleftrightarrow> k \<in> set (map fst (items s))"
  by (simp add: fcitx_string_hashset_contains_def fcitx_dict_lookup_def HASH_FIND_def map_of_eq_None_iff del: not_None_eq)

lemma seen_skip:
  assumes "seen names xs desc" and "attribute_ok names a" and "type_of a \<noteq> Some (bytes ''List'')"
  shows "seen names (xs @ [a]) desc"
  using assms by (auto simp: seen_def list_of_def)

lemma seen_removed:
  assumes "seen names xs desc" and "attribute_ok names a" and "list_of k a" and "\<not> desc_error desc"
    and "topLevelStructs desc = Some t" and "dict_ok t'"
    and "map fst (items t') = filter (\<lambda>x. x \<noteq> k) (map fst (items t))"
  shows "seen names (xs @ [a]) (desc\<lparr>topLevelStructs := Some t'\<rparr>)"
proof -
  have "list_of n a \<longleftrightarrow> n = k" for n using assms(3) by (auto simp: list_of_def)
  then have f: "filter (\<lambda>n. \<not> list_ex (list_of n) (xs @ [a])) names =
      filter (\<lambda>x. x \<noteq> k) (filter (\<lambda>n. \<not> list_ex (list_of n) xs) names)"
    by (simp add: conj_commute)
  from assms(1,4,5) have "map fst (items t) = filter (\<lambda>n. \<not> list_ex (list_of n) xs) names"
    by (simp add: seen_def) blast
  then have "map fst (items t') = filter (\<lambda>n. \<not> list_ex (list_of n) (xs @ [a])) names"
    unfolding f assms(7) by (rule arg_cong)
  then show ?thesis using assms(1,2,4,6) unfolding seen_def by simp blast
qed

lemma attribute_run:
  assumes "seen names xs desc"
  shows "\<exists>desc'. struct_attribute_foreach a path desc = Some desc' \<and> seen names (xs @ [a]) desc' \<and>
    same_input desc desc'"
proof (cases "desc_error desc")
  case True
  then show ?thesis using assms by (auto simp: seen_def struct_attribute_foreach_def)
next
  case False
  from assms obtain s t where s: "structs desc = Some s" "map fst (items s) = names"
      and t: "topLevelStructs desc = Some t" "dict_ok t"
    by (auto simp: seen_def)
  have contains: "fcitx_string_hashset_contains s k \<longleftrightarrow> k \<in> set names" for k
    by (simp add: hashset_contains s(2) del: set_map)
  show ?thesis
  proof (cases "attribute_ok names a")
    case bad: False
    note r = seen_report[OF assms bad]
    have "\<exists>m. struct_attribute_foreach a path desc = Some (report m desc)"
      using bad False s(1) by (auto simp: struct_attribute_foreach_def attribute_ok_def contains split: option.split)
    with r show ?thesis by blast
  next
    case True
    show ?thesis
    proof (cases "type_of a = Some (bytes ''List'')")
      case list: True
      with True obtain k where k: "element_type a = Some k" "k \<noteq> bytes ''List''"
          "is_builtin_type k \<or> k \<in> set names"
        by (auto simp: attribute_ok_def)
      obtain r t' where t': "fcitx_string_hashset_remove t k = Some (r, t')" "dict_ok t'"
          "map fst (items t') = filter (\<lambda>x. x \<noteq> k) (map fst (items t))"
        using hashset_remove_run[OF t(2)] by blast
      have "struct_attribute_foreach a path desc = Some (desc\<lparr>topLevelStructs := Some t'\<rparr>)"
        using False list k s(1) t(1) t'(1) by (auto simp: struct_attribute_foreach_def contains)
      then show ?thesis
        using seen_removed[OF assms True _ False t(1) t'(2,3)] list k(1) by (auto simp: list_of_def same_input_def)
    next
      case other: False
      with True obtain ty where ty: "type_of a = Some ty" "is_builtin_type ty" "ty \<noteq> bytes ''List''"
        by (auto simp: attribute_ok_def)
      then have "struct_attribute_foreach a path desc = Some desc"
        using False by (simp add: struct_attribute_foreach_def)
      then show ?thesis using seen_skip[OF assms True other] by auto
    qed
  qed
qed

lemma attributes_run:
  "seen names xs desc \<Longrightarrow>
   \<exists>desc'. fold (\<lambda>(k, d) s. Option.bind s (struct_attribute_foreach d k)) ys (Some desc) = Some desc' \<and>
     seen names (xs @ map snd ys) desc' \<and> same_input desc desc'"
proof (induction ys arbitrary: xs desc)
  case (Cons y ys)
  obtain k a where y: "y = (k, a)" by (cases y)
  from attribute_run[OF Cons.prems] obtain d where d: "struct_attribute_foreach a k desc = Some d"
      "seen names (xs @ [a]) d" "same_input desc d"
    by blast
  from Cons.IH[OF d(2)] d(1,3) show ?case by (auto simp: y intro: same_input_trans)
qed simp

lemma structs_run:
  assumes parts: "named_parts c"
  shows "\<forall>x \<in> set xs. fst x \<in> set (map fst (kids c)) \<Longrightarrow> seen names as desc \<Longrightarrow> rootConfig desc = c \<Longrightarrow>
    \<exists>desc'. snd (foreach_loop structs_foreach xs (Some desc)) = Some desc' \<and>
      seen names (as @ attributes c (map fst xs)) desc' \<and> same_input desc desc'"
proof (induction xs arbitrary: "as" desc)
  case Nil
  then show ?case by (auto simp: attributes_def)
next
  case (Cons x xs)
  obtain k where x: "x = (k, ())" by (cases x) simp
  from Cons.prems(1) x obtain d where d: "map_of (kids c) k = Some d"
    by (metis domD domIff fst_conv list.set_intros(1) list.set_map map_of_eq_None_iff)
  then have "(k, d) \<in> set (kids c)" by (rule map_of_SomeD)
  then have k: "segment_ok k" and ne: "\<forall>(j, e) \<in> set (kids d). j \<noteq> []"
    using parts by (auto simp: named_parts_def)
  have "path_segments k = [k]"
    using segments_path[of "[k]"] k by (simp add: path_of_def)
  then have "config_node (path_segments k) c = Some d" using d by (simp add: find_kids)
  then have "fcitx_configuration_foreach c k False (Some []) struct_attribute_foreach desc =
      fold (\<lambda>(k, d) s. Option.bind s (struct_attribute_foreach d k)) (kids d) (Some desc)"
    using foreach_flat[OF ne] by (simp add: fcitx_configuration_foreach_def)
  moreover obtain e where e: "fold (\<lambda>(k, d) s. Option.bind s (struct_attribute_foreach d k)) (kids d) (Some desc) = Some e"
      "seen names (as @ map snd (kids d)) e" "same_input desc e"
    using attributes_run[OF Cons.prems(2)] by blast
  ultimately have f: "structs_foreach k () (Some desc) = (False, (), Some e)"
    using Cons.prems(3) by (simp add: structs_foreach_def)
  have "rootConfig e = c" using e(3) Cons.prems(3) by (simp add: same_input_def)
  from Cons.IH[OF _ e(2) this] Cons.prems(1) obtain z where
    "snd (foreach_loop structs_foreach xs (Some e)) = Some z"
    "seen names (as @ map snd (kids d) @ attributes c (map fst xs)) z" "same_input e z"
    by auto
  then show ?case using e(3) d
    by (auto simp: x f split_beta attributes_def intro: same_input_trans)
qed

lemma clone_keys:
  assumes "dict_ok s"
  shows "dict_ok (fcitx_string_hashset_clone s) \<and> map fst (items (fcitx_string_hashset_clone s)) = map fst (items s)"
proof -
  have "fold (\<lambda>(k, v) d. snd (fcitx_dict_insert k v False d)) xs t = fold add_piece (map fst xs) t"
    for xs :: "(cstr \<times> unit) list" and t :: "unit dict"
    by (induction xs arbitrary: t) (auto simp: add_piece_def fcitx_string_hashset_insert_def)
  then have c: "fcitx_string_hashset_clone s = fold add_piece (map fst (items s)) (fcitx_dict_new (has_notify s))"
    by (simp add: fcitx_string_hashset_clone_def fcitx_dict_clone_def Let_def)
  have "dict_ok (fcitx_dict_new (has_notify s) :: unit dict)" "items (fcitx_dict_new (has_notify s) :: unit dict) = []"
    by (simp_all add: fcitx_dict_new_def dict_ok_def)
  from fold_add_piece[OF this(1), of "map fst (items s)"] this(2) show ?thesis
    using fold_firsts[of "map fst (items s)"] dict_okD[OF assms] by (simp add: c)
qed

text \<open>C33: Parsing a description records an error exactly when an attribute of a declared structure has
  no type, an unknown type, or is a list without an element type that is known and not a list; if there
  is none, the structures at the top are the declared ones that are the element type of no list.\<close>

theorem description_parse:
  assumes "named_parts c"
  shows "\<exists>desc s t. fcitx_description_parse c = Some desc \<and>
    structs desc = Some s \<and> map fst (items s) = declared c \<and>
    desc_error desc = (\<not> list_all (attribute_ok (declared c)) (attributes c (declared c))) \<and>
    desc_error desc = (errorMessage desc \<noteq> None) \<and>
    topLevelStructs desc = Some t \<and>
    (\<not> desc_error desc \<longrightarrow>
      map fst (items t) = filter (\<lambda>n. \<not> list_ex (list_of n) (attributes c (declared c))) (declared c))"
proof -
  let ?d = "\<lparr>desc_error = False, errorMessage = None,
      localeDomain = fcitx_configuration_get_value_by_path (Some c) (bytes ''DescriptionFile/LocaleDomain''),
      rootConfig = c, structs = None, topLevelStructs = None\<rparr>"
  have new: "dict_ok fcitx_string_hashset_new" "items fcitx_string_hashset_new = []"
    by (simp_all add: fcitx_string_hashset_new_def fcitx_dict_new_def dict_ok_def)
  have ne: "\<forall>(k, d) \<in> set (kids c). k \<noteq> []" and dist: "distinct (map fst (kids c))"
    using assms by (auto simp: named_parts_def segment_ok_def)
  obtain s where s: "find_structs c ?d = Some (?d\<lparr>structs := Some s\<rparr>)" "dict_ok s" "map fst (items s) = declared c"
    using find_structs_run[OF dist _ new(1), of "?d\<lparr>structs := Some fcitx_string_hashset_new\<rparr>"] new(2)
    by (auto simp: find_structs_def fcitx_configuration_foreach_def path_segments.simps foreach_flat[OF ne] declared_def)
  let ?e = "?d\<lparr>structs := Some s, topLevelStructs := Some (fcitx_string_hashset_clone s)\<rparr>"
  have "seen (declared c) [] ?e"
    using clone_keys[OF s(2)] s(3) by (simp add: seen_def)
  moreover have "\<forall>x \<in> set (items s). fst x \<in> set (map fst (kids c))"
    using arg_cong[OF s(3), of set] by (auto simp: declared_def)
  ultimately obtain z where z: "snd (foreach_loop structs_foreach (items s) (Some ?e)) = Some z"
      "seen (declared c) (attributes c (declared c)) z" "same_input ?e z"
    using structs_run[OF assms, of "items s" "declared c" "[]" ?e] s(3) by auto
  have "fcitx_description_parse c = Some z"
    using s(1) z(1) by (simp add: fcitx_description_parse_def Let_def find_top_level_structs_def
        fcitx_dict_foreach_def split_beta)
  moreover have "structs z = Some s" using z(3) by (simp add: same_input_def)
  ultimately show ?thesis using z(2) s(3) by (auto simp: seen_def)
qed

definition example_field :: "string \<Rightarrow> string \<Rightarrow> config" where
  "example_field k v = Config (Some (bytes k)) (Some (bytes v)) None None"

definition example_description :: config where
  "example_description = Config None None None (Some
     [([65], Config (Some [65]) None None (Some [([120], Config (Some [120]) None None (Some
        [(bytes ''Type'', example_field ''Type'' ''Integer'')]))])),
      ([66], Config (Some [66]) None None (Some [([108], Config (Some [108]) None None (Some
        [(bytes ''Type'', example_field ''Type'' ''List''), (bytes ''SubType'', Config None (Some [65]) None None)]))]))])"

theorem description_parse_witness:
  "\<exists>desc t. fcitx_description_parse example_description = Some desc \<and> \<not> desc_error desc \<and>
     topLevelStructs desc = Some t \<and> map fst (items t) = [[66]]"
proof -
  have seg: "path_segments (bytes ''Type'') = [bytes ''Type'']" "path_segments (bytes ''SubType'') = [bytes ''SubType'']"
    using segments_path[of "[bytes ''Type'']"] segments_path[of "[bytes ''SubType'']"]
    by (simp_all add: path_of_def segment_ok_def)
  note facts = example_description_def example_field_def kids_def named_parts_def segment_ok_def declared_def
    attributes_def attribute_ok_def list_of_def fcitx_configuration_get_value_by_path_def
    fcitx_configuration_get_value_def find_kids is_builtin_type_def seg[simplified]
  have "named_parts example_description" by (simp add: facts)
  from description_parse[OF this] show ?thesis by (auto simp: facts)
qed

end
