(* ===== verification/IsoCodes.thy ===== *)
theory IsoCodes
  imports StringUtils
begin

text \<open>
  The codes of languages and countries, \<open>src/lib/fcitx/isocodes.c\<close>: the handlers of the XML parser that
  fill the tables, and the choice of the best language for a hint.  A table is the list of its entries
  in the order they were added, keyed by a code; of two entries with one code the newer is found, until
  the growth of the table turns their order, so what is said of lookup assumes that codes are distinct.
  The parser is an argument: for each file its elements with their attributes.
\<close>

record iso639_entry =
  iso_639_2B_code :: "cstr option"
  iso_639_2T_code :: "cstr option"
  iso_639_1_code :: "cstr option"
  iso639_name :: "cstr option"

record iso3166_entry =
  alpha_2_code :: "cstr option"
  iso3166_name :: "cstr option"

record iso_codes =
  iso6392B :: "iso639_entry list"
  iso6392T :: "iso639_entry list"
  iso3166 :: "iso3166_entry list"

type_synonym xml_element = "cstr \<times> (cstr \<times> cstr) list"

fun read_639 :: "(cstr \<times> cstr) list \<Rightarrow> iso639_entry \<Rightarrow> iso639_entry" where
  "read_639 [] entry = entry"
| "read_639 ((k, v) # atts) entry =
     read_639 atts
       (if k = bytes ''iso_639_2B_code'' then entry\<lparr>iso_639_2B_code := Some v\<rparr>
        else if k = bytes ''iso_639_2T_code'' then entry\<lparr>iso_639_2T_code := Some v\<rparr>
        else if k = bytes ''iso_639_1_code'' then entry\<lparr>iso_639_1_code := Some v\<rparr>
        else if k = bytes ''name'' then entry\<lparr>iso639_name := Some v\<rparr>
        else entry)"

definition IsoCodes639HandlerStartElement :: "xml_element \<Rightarrow> iso_codes \<Rightarrow> iso_codes" where
  "IsoCodes639HandlerStartElement = (\<lambda>(name, atts) isocodes.
     if name = bytes ''iso_639_entry'' then
       let entry = read_639 atts \<lparr>iso_639_2B_code = None, iso_639_2T_code = None, iso_639_1_code = None, iso639_name = None\<rparr>
       in if iso_639_2B_code entry = None \<or> iso_639_2T_code entry = None \<or> iso639_name entry = None then isocodes
          else isocodes\<lparr>iso6392B := iso6392B isocodes @ [entry], iso6392T := iso6392T isocodes @ [entry]\<rparr>
     else isocodes)"

fun read_3166 :: "(cstr \<times> cstr) list \<Rightarrow> iso3166_entry \<Rightarrow> iso3166_entry" where
  "read_3166 [] entry = entry"
| "read_3166 ((k, v) # atts) entry =
     read_3166 atts
       (if k = bytes ''alpha_2_code'' then entry\<lparr>alpha_2_code := Some v\<rparr>
        else if k = bytes ''name'' then entry\<lparr>iso3166_name := Some v\<rparr>
        else entry)"

definition IsoCodes3166HandlerStartElement :: "xml_element \<Rightarrow> iso_codes \<Rightarrow> iso_codes" where
  "IsoCodes3166HandlerStartElement = (\<lambda>(name, atts) isocodes.
     if name = bytes ''iso_3166_entry'' then
       let entry = read_3166 atts \<lparr>alpha_2_code = None, iso3166_name = None\<rparr>
       in if iso3166_name entry = None \<or> alpha_2_code entry = None then isocodes
          else isocodes\<lparr>iso3166 := iso3166 isocodes @ [entry]\<rparr>
     else isocodes)"

definition fcitx_isocodes_new :: "(cstr \<Rightarrow> xml_element list) \<Rightarrow> cstr \<Rightarrow> cstr \<Rightarrow> iso_codes" where
  "fcitx_isocodes_new parse file639 file3166 =
     fold IsoCodes3166HandlerStartElement (parse file3166)
       (fold IsoCodes639HandlerStartElement (parse file639) \<lparr>iso6392B = [], iso6392T = [], iso3166 = []\<rparr>)"

definition FcitxIsoCodesGetEntry :: "iso_codes \<Rightarrow> cstr \<Rightarrow> iso639_entry option" where
  "FcitxIsoCodesGetEntry isocodes lang =
     (case find (\<lambda>e. iso_639_2B_code e = Some lang) (rev (iso6392B isocodes)) of
        Some entry \<Rightarrow> Some entry
      | None \<Rightarrow> find (\<lambda>e. iso_639_2T_code e = Some lang) (rev (iso6392T isocodes)))"

text \<open>\<open>strncasecmp\<close> of the C library, in the C locale.\<close>

fun strncasecmp :: "cstr \<Rightarrow> cstr \<Rightarrow> nat \<Rightarrow> int" where
  "strncasecmp s t 0 = 0"
| "strncasecmp [] [] (Suc n) = 0"
| "strncasecmp [] (b # t) (Suc n) = - uint (fcitx_utils_tolower b)"
| "strncasecmp (a # s) [] (Suc n) = uint (fcitx_utils_tolower a)"
| "strncasecmp (a # s) (b # t) (Suc n) =
     (if fcitx_utils_tolower a = fcitx_utils_tolower b then strncasecmp s t n
      else uint (fcitx_utils_tolower a) - uint (fcitx_utils_tolower b))"

fun score_loop :: "cstr \<Rightarrow> cstr \<Rightarrow> nat \<Rightarrow> nat" where
  "score_loop hint lang len =
     (if len \<ge> 2 then if strncasecmp hint lang len = 0 then len else score_loop hint lang (len - 1) else 1)"

declare score_loop.simps [simp del]

definition entry_code :: "iso639_entry \<Rightarrow> cstr option" where
  "entry_code entry =
     (case iso_639_1_code entry of
        Some lang \<Rightarrow> Some lang
      | None \<Rightarrow> (case iso_639_2T_code entry of Some lang \<Rightarrow> Some lang | None \<Rightarrow> iso_639_2B_code entry))"

fun find_best_loop ::
  "iso_codes \<Rightarrow> cstr \<Rightarrow> cstr list \<Rightarrow> iso639_entry option \<Rightarrow> nat \<Rightarrow> iso639_entry option" where
  "find_best_loop isocodes hint [] bestEntry bestScore = bestEntry"
| "find_best_loop isocodes hint (plang # languages) bestEntry bestScore =
     (case FcitxIsoCodesGetEntry isocodes plang of
        None \<Rightarrow> find_best_loop isocodes hint languages bestEntry bestScore
      | Some entry \<Rightarrow>
          (case entry_code entry of
             None \<Rightarrow> find_best_loop isocodes hint languages bestEntry bestScore
           | Some lang \<Rightarrow>
               if length lang \<noteq> 2 \<and> length lang \<noteq> 3 then find_best_loop isocodes hint languages bestEntry bestScore
               else
                 let score = score_loop hint lang (length lang)
                 in if bestScore < score then find_best_loop isocodes hint languages (Some entry) score
                    else find_best_loop isocodes hint languages bestEntry bestScore))"

definition fcitx_isocodes_find_best :: "iso_codes \<Rightarrow> cstr \<Rightarrow> cstr list \<Rightarrow> cstr option" where
  "fcitx_isocodes_find_best isocodes hint languages =
     (case find_best_loop isocodes hint languages None 0 of
        Some bestEntry \<Rightarrow> entry_code bestEntry
      | None \<Rightarrow> None)"

section \<open>The best language\<close>

definition lower :: "cstr \<Rightarrow> cstr" where
  "lower = map fcitx_utils_tolower"

definition same_start :: "nat \<Rightarrow> cstr \<Rightarrow> cstr \<Rightarrow> bool" where
  "same_start n s t \<longleftrightarrow> take n (lower s) = take n (lower t)"

definition score :: "cstr \<Rightarrow> cstr \<Rightarrow> nat" where
  "score hint lang =
     (if length lang = 3 \<and> same_start 3 hint lang then 3 else if same_start 2 hint lang then 2 else 1)"

text \<open>The codes of the languages that are known, of two or three letters.\<close>

definition codes_of :: "iso_codes \<Rightarrow> cstr list \<Rightarrow> cstr list" where
  "codes_of isocodes languages =
     filter (\<lambda>c. length c = 2 \<or> length c = 3)
       (List.map_filter (\<lambda>l. Option.bind (FcitxIsoCodesGetEntry isocodes l) entry_code) languages)"

lemma tolower_nonzero: "c \<noteq> 0 \<Longrightarrow> fcitx_utils_tolower c \<noteq> 0"
proof (cases "fcitx_utils_isupper c")
  case True
  have "c \<noteq> - 32" using True by (auto simp: fcitx_utils_isupper_def)
  then show ?thesis using True by (simp add: fcitx_utils_tolower_def) (metis add.commute eq_neg_iff_add_eq_0)
qed (simp add: fcitx_utils_tolower_def)

lemma strncasecmp_zero:
  "c_string s \<Longrightarrow> c_string t \<Longrightarrow> n \<le> length t \<Longrightarrow> strncasecmp s t n = 0 \<longleftrightarrow> same_start n s t"
proof (induction s t n rule: strncasecmp.induct)
  case (3 b t n)
  then show ?case using tolower_nonzero[of b] by (simp add: same_start_def lower_def c_string_def uint_0_iff)
next
  case (5 a s b t n)
  then show ?case by (simp add: same_start_def lower_def c_string_def flip: word_uint_eq_iff)
qed (simp_all add: same_start_def lower_def)

lemma score_loop_score:
  "c_string hint \<Longrightarrow> c_string lang \<Longrightarrow> length lang = 2 \<or> length lang = 3 \<Longrightarrow>
   score_loop hint lang (length lang) = score hint lang"
  using score_loop.simps[of hint lang 3] score_loop.simps[of hint lang 2] score_loop.simps[of hint lang 1]
  by (auto simp: strncasecmp_zero score_def)

definition best_code :: "cstr \<Rightarrow> cstr list \<Rightarrow> cstr option" where
  "best_code hint cs = (if cs = [] then None else find (\<lambda>c. score hint c = Max (score hint ` set cs)) cs)"

lemma best_code_snoc:
  "best_code hint (cs @ [c]) =
     (if cs = [] \<or> Max (score hint ` set cs) < score hint c then Some c else best_code hint cs)"
proof (cases "cs = []")
  case False
  define M where "M = Max (score hint ` set cs)"
  have fin: "finite (score hint ` set cs)" "score hint ` set cs \<noteq> {}" using False by auto
  have m: "Max (score hint ` set (cs @ [c])) = max (score hint c) M" using fin by (simp add: M_def)
  have hit: "\<exists>x \<in> set cs. score hint x = M" using Max_in[OF fin] by (auto simp: M_def)
  have le: "\<forall>x \<in> set cs. score hint x \<le> M" using Max_ge[OF fin(1)] by (auto simp: M_def)
  have app: "find P (xs @ ys) = (case find P xs of None \<Rightarrow> find P ys | r \<Rightarrow> r)" for P and xs ys :: "cstr list"
    by (induction xs) auto
  have "best_code hint (cs @ [c]) = (if M < score hint c then Some c else best_code hint cs)"
  proof (cases "M < score hint c")
    case True
    then have "find (\<lambda>x. score hint x = score hint c) cs = None" unfolding find_None_iff using le by (metis leD)
    then show ?thesis using True False by (simp add: best_code_def m app max_def del: set_append)
  next
    case less: False
    have "find (\<lambda>x. score hint x = M) cs \<noteq> None" using hit by (auto simp: find_None_iff)
    then show ?thesis using less False
      by (auto simp: best_code_def m app max_def simp del: set_append simp flip: M_def split: option.split)
  qed
  then show ?thesis using False by (simp add: M_def)
qed (simp add: best_code_def)

text \<open>After the languages whose codes are \<open>cs\<close>: the best entry and its score.\<close>

definition best_so_far :: "cstr \<Rightarrow> cstr list \<Rightarrow> iso639_entry option \<Rightarrow> nat \<Rightarrow> bool" where
  "best_so_far hint cs e n \<longleftrightarrow> Option.bind e entry_code = best_code hint cs \<and>
     n = (if cs = [] then 0 else Max (score hint ` set cs))"

lemma best_so_far_snoc:
  assumes "best_so_far hint cs e n" and "entry_code x = Some c"
  shows "best_so_far hint (cs @ [c]) (if n < score hint c then Some x else e) (max n (score hint c))"
proof -
  have pos: "0 < score hint c" by (simp add: score_def)
  show ?thesis
  proof (cases "cs = []")
    case False
    have m: "Max (score hint ` set (cs @ [c])) = max (score hint c) (Max (score hint ` set cs))" using False by simp
    from assms False show ?thesis by (auto simp: best_so_far_def best_code_snoc m simp del: set_append)
  qed (use assms pos in \<open>simp add: best_so_far_def best_code_def\<close>)
qed

definition codes_c_strings :: "iso_codes \<Rightarrow> cstr list \<Rightarrow> bool" where
  "codes_c_strings isocodes languages \<longleftrightarrow> (\<forall>c \<in> set (codes_of isocodes languages). c_string c)"

lemma codes_of_simps:
  "codes_of codes [] = []"
  "codes_of codes (l # ls) =
     (case Option.bind (FcitxIsoCodesGetEntry codes l) entry_code of
        None \<Rightarrow> codes_of codes ls
      | Some c \<Rightarrow> if length c = 2 \<or> length c = 3 then c # codes_of codes ls else codes_of codes ls)"
  by (simp_all add: codes_of_def List.map_filter_def split: option.split)

lemma find_best_run:
  "c_string hint \<Longrightarrow> codes_c_strings codes ls \<Longrightarrow> best_so_far hint cs e n \<Longrightarrow>
   \<exists>m. best_so_far hint (cs @ codes_of codes ls) (find_best_loop codes hint ls e n) m"
proof (induction ls arbitrary: cs e n)
  case Nil
  then show ?case by (auto simp: codes_of_simps)
next
  case (Cons l ls)
  show ?case
  proof (cases "Option.bind (FcitxIsoCodesGetEntry codes l) entry_code")
    case None
    then show ?thesis using Cons
      by (auto simp: codes_of_simps codes_c_strings_def bind_eq_None_conv split: option.splits)
  next
    case (Some c)
    then obtain x where x: "FcitxIsoCodesGetEntry codes l = Some x" "entry_code x = Some c"
      by (auto simp: bind_eq_Some_conv)
    show ?thesis
    proof (cases "length c = 2 \<or> length c = 3")
      case True
      then have all: "codes_of codes (l # ls) = c # codes_of codes ls" using x by (simp add: codes_of_simps)
      then have rest: "codes_c_strings codes ls" and c: "c_string c" using Cons.prems(2) by (auto simp: codes_c_strings_def)
      let ?e = "if n < score hint c then Some x else e"
      from Cons.IH[OF Cons.prems(1) rest best_so_far_snoc[OF Cons.prems(3) x(2)]]
      obtain m where "best_so_far hint (cs @ c # codes_of codes ls) (find_best_loop codes hint ls ?e (max n (score hint c))) m"
        by auto
      moreover have "find_best_loop codes hint (l # ls) e n = find_best_loop codes hint ls ?e (max n (score hint c))"
        using x True score_loop_score[OF Cons.prems(1) c True] by (auto simp: max_def Let_def)
      ultimately show ?thesis using all by auto
    next
      case False
      then show ?thesis using Cons x by (auto simp: codes_of_simps codes_c_strings_def)
    qed
  qed
qed

text \<open>C32: The best language for a hint is, of the codes of the known languages, the first one of the
  highest score: three equal letters, then two, without regard to case, then any; there is none only if no
  language is known.\<close>

theorem find_best_language:
  assumes "c_string hint" and "codes_c_strings isocodes languages"
  shows "fcitx_isocodes_find_best isocodes hint languages = best_code hint (codes_of isocodes languages)"
proof -
  have "best_so_far hint [] None 0" by (simp add: best_so_far_def best_code_def)
  from find_best_run[OF assms this] obtain m where
    "best_so_far hint (codes_of isocodes languages) (find_best_loop isocodes hint languages None 0) m"
    by auto
  then show ?thesis
    by (auto simp: fcitx_isocodes_find_best_def best_so_far_def bind_eq_None_conv split: option.splits)
qed

theorem find_best_language_witness:
  "fcitx_isocodes_find_best \<lparr>iso6392B =
       [\<lparr>iso_639_2B_code = Some [97, 98, 99], iso_639_2T_code = Some [97, 98, 99], iso_639_1_code = None, iso639_name = None\<rparr>,
        \<lparr>iso_639_2B_code = Some [120, 121, 122], iso_639_2T_code = Some [120, 121, 122], iso_639_1_code = Some [120, 121], iso639_name = None\<rparr>],
      iso6392T = [], iso3166 = []\<rparr> [88, 89, 95] [[97, 98, 99], [113], [120, 121, 122]] = Some [120, 121]"
  (is "fcitx_isocodes_find_best ?codes ?hint ?ls = _")
proof -
  have codes: "codes_of ?codes ?ls = [[97, 98, 99], [120, 121]]"
    by (simp add: codes_of_simps FcitxIsoCodesGetEntry_def entry_code_def)
  then have ok: "codes_c_strings ?codes ?ls" by (simp add: codes_c_strings_def c_string_def)
  have "best_code ?hint [[97, 98, 99], [120, 121]] = Some [120, 121]"
    by (simp add: best_code_def score_def same_start_def lower_def fcitx_utils_tolower_def fcitx_utils_isupper_def)
  then show ?thesis using find_best_language[OF _ ok, of ?hint] codes by (simp add: c_string_def)
qed

section \<open>The tables\<close>

definition complete :: "iso639_entry \<Rightarrow> bool" where
  "complete e \<longleftrightarrow> iso_639_2B_code e \<noteq> None \<and> iso_639_2T_code e \<noteq> None \<and> iso639_name e \<noteq> None"

text \<open>Every entry is in both tables, in the order of the file, and has both codes and a name.\<close>

lemma handler_639_tables:
  "iso6392B c = iso6392T c \<and> list_all complete (iso6392B c) \<Longrightarrow>
   iso6392B (fold IsoCodes639HandlerStartElement xs c) = iso6392T (fold IsoCodes639HandlerStartElement xs c) \<and>
   list_all complete (iso6392B (fold IsoCodes639HandlerStartElement xs c))"
proof (induction xs arbitrary: c)
  case (Cons x xs)
  have "iso6392B (IsoCodes639HandlerStartElement x c) = iso6392T (IsoCodes639HandlerStartElement x c) \<and>
      list_all complete (iso6392B (IsoCodes639HandlerStartElement x c))"
    using Cons.prems by (cases x) (simp add: IsoCodes639HandlerStartElement_def Let_def list_all_iff complete_def del: not_None_eq)
  then show ?case unfolding fold.simps comp_apply by (rule Cons.IH)
qed auto

lemma handler_3166_keeps:
  "iso6392B (fold IsoCodes3166HandlerStartElement xs c) = iso6392B c \<and>
   iso6392T (fold IsoCodes3166HandlerStartElement xs c) = iso6392T c"
  by (induction xs arbitrary: c) (auto simp: IsoCodes3166HandlerStartElement_def Let_def)

lemma isocodes_new_complete:
  "list_all complete (iso6392B (fcitx_isocodes_new parse a b)) \<and>
   iso6392B (fcitx_isocodes_new parse a b) = iso6392T (fcitx_isocodes_new parse a b)"
  using handler_639_tables[of "\<lparr>iso6392B = [], iso6392T = [], iso3166 = []\<rparr>" "parse a"]
  by (auto simp: fcitx_isocodes_new_def handler_3166_keeps)

text \<open>With distinct codes an entry is found by either of its codes.\<close>

lemma get_entry:
  assumes "distinct (map iso_639_2B_code (iso6392B c))" and "e \<in> set (iso6392B c)"
    and "iso_639_2B_code e = Some k"
  shows "FcitxIsoCodesGetEntry c k = Some e"
proof -
  have "find (\<lambda>e. iso_639_2B_code e = Some k) (rev xs) = Some e"
    if "distinct (map iso_639_2B_code xs)" "e \<in> set xs" for xs
  proof -
    have "x = e" if "x \<in> set xs" "iso_639_2B_code x = Some k" for x
      using that \<open>distinct (map iso_639_2B_code xs)\<close> \<open>e \<in> set xs\<close> assms(3)
      by (metis distinct_map inj_on_def)
    moreover have "\<exists>y \<in> set ys. find (\<lambda>e. iso_639_2B_code e = Some k) ys = Some y \<and> iso_639_2B_code y = Some k"
      if "e \<in> set ys" for ys
      using that assms(3) by (induction ys) auto
    ultimately show ?thesis using that(2) by (metis set_rev)
  qed
  from this[OF assms(1,2)] show ?thesis by (simp add: FcitxIsoCodesGetEntry_def)
qed

end
