(* ===== verification/KeyNames.thy ===== *)
theory KeyNames
  imports Key KeyNameTable
begin

text \<open>
  The tables of names against the functions that search them, \<open>src/lib/fcitx-utils/key.c\<close>: they are in the
  order the searches need and agree with each other, so that every key is read back from its textual form.
\<close>

section \<open>Searching an ordered array\<close>

lemma bsearch_at:
  assumes "k < length base" "cmp (base ! k) = 0"
    and "\<And>i. i < k \<Longrightarrow> cmp (base ! i) > 0" "\<And>i. k < i \<Longrightarrow> i < length base \<Longrightarrow> cmp (base ! i) < 0"
  shows "bsearch cmp base = Some k"
proof -
  have o: "cmp (base ! i) > 0 \<longleftrightarrow> i < k" "cmp (base ! i) < 0 \<longleftrightarrow> k < i" if "i < length base" for i
    using assms(2-4) that by (metis linorder_neqE_nat order_less_asym order_less_irrefl)+
  have "ordered_for cmp base"
    unfolding ordered_for_def using o assms(1) by (smt (verit) order_less_trans)
  from bsearch_complete [OF this assms(1,2)] obtain i where i: "bsearch cmp base = Some i" by blast
  from bsearch_sound [OF this] have "i < length base" "cmp (base ! i) = 0" by simp_all
  with o [of i] have "i = k" by linarith
  with i show ?thesis by simp
qed

section \<open>The order of the names\<close>

text \<open>The order of \<open>strcmp\<close> on literals without a NUL.\<close>

fun name_less :: "string \<Rightarrow> string \<Rightarrow> bool" where
  "name_less s [] = False"
| "name_less [] (d # t) = (d \<noteq> CHR 0x00)"
| "name_less (c # s) (d # t) = (if c = d then name_less s t else (of_char c :: nat) < of_char d)"

lemma of_char_byte: "uint (of_char c :: byte) = int (of_char c :: nat)"
  by (cases c) (simp add: of_char_def)

lemma of_char_byte_eq: "(of_char c :: byte) = of_char d \<longleftrightarrow> c = d"
  by (simp add: word_uint_eq_iff of_char_byte)

lemma name_less_strcmp: "name_less s t \<Longrightarrow> strcmp (bytes s) (bytes t) < 0 \<and> strcmp (bytes t) (bytes s) > 0"
proof (induction s t rule: name_less.induct)
  case (2 d t)
  moreover have "(of_char (CHR 0x00) :: nat) = 0" by simp
  ultimately have "(of_char d :: nat) \<noteq> 0" by (metis name_less.simps(2) of_char_eq_iff)
  then show ?case by (auto simp: of_char_byte)
qed (auto simp: of_char_byte of_char_byte_eq split: if_splits)

lemma name_less_trans: "name_less s t \<Longrightarrow> name_less t u \<Longrightarrow> name_less s u"
proof (induction s t arbitrary: u rule: name_less.induct)
  case (2 d t)
  then show ?case by (cases u) (auto split: if_splits)
next
  case (3 c s d t)
  then show ?case by (cases u) (auto split: if_splits)
qed simp

lemma successively_sorted: "transp P \<Longrightarrow> successively P xs \<Longrightarrow> sorted_wrt P xs"
  by (simp add: successively_conv_sorted_wrt)

lemma strcmp_self [simp]: "strcmp s s = 0"
  by (induction s) simp_all

lemma find_name:
  assumes "sorted_wrt name_less ns" "k < length ns"
  shows "bsearch (\<lambda>i. strcmp (bytes (ns ! k)) (map bytes ns ! i)) [0..<length ns] = Some k"
proof (rule bsearch_at)
  fix i assume "i < k"
  then show "0 < strcmp (bytes (ns ! k)) (map bytes ns ! ([0..<length ns] ! i))"
    using assms name_less_strcmp [of "ns ! i" "ns ! k"] by (simp add: sorted_wrt_iff_nth_less)
next
  fix i assume "k < i" "i < length [0..<length ns]"
  then show "strcmp (bytes (ns ! k)) (map bytes ns ! ([0..<length ns] ! i)) < 0"
    using assms name_less_strcmp [of "ns ! k" "ns ! i"] by (simp add: sorted_wrt_iff_nth_less)
qed (use assms in simp_all)

section \<open>The order of the key symbols\<close>

lemma find_symbol:
  assumes "sorted_wrt (<) (map fst tab)" "list_all (\<lambda>v. v < 0x80000000) (map fst tab)" "k < length tab"
  shows "bsearch (keysymCompare (word_of_nat (fst (tab ! k)))) (map (\<lambda>(v, o'). (word_of_nat v, o')) tab) = Some k"
proof -
  have c: "keysymCompare (word_of_nat a) (word_of_nat b, o') = int a - int b" if "a < 0x80000000" "b < 0x80000000" for a b o'
  proof -
    have k: "keysymCompare (word_of_nat a) (word_of_nat b, o') = sint (word_of_int (int a - int b) :: u32)"
      by (simp add: keysymCompare_def)
    show ?thesis unfolding k sint_sbintrunc' by (rule signed_take_bit_int_eq_self) (use that in simp_all)
  qed
  have v: "fst (tab ! i) < 0x80000000" if "i < length tab" for i
    using assms(2) that by (simp add: list_all_length)
  have l: "fst (tab ! i) < fst (tab ! j)" if "i < j" "j < length tab" for i j
    using assms(1) that by (simp add: sorted_wrt_iff_nth_less)
  show ?thesis
    by (rule bsearch_at) (use assms(3) in \<open>auto simp: c v case_prod_beta l\<close>)
qed

text \<open>A name without an occurrence of a modifier; the first arguments are the characters before it.\<close>

fun plain_name :: "char \<Rightarrow> char \<Rightarrow> string \<Rightarrow> bool" where
  "plain_name a b [] = True"
| "plain_name a b (c # s) =
     (if c = CHR ''+'' then False
      else if c = CHR ''_'' then
        (if b = CHR ''L'' then False else if b = CHR ''R'' then False
         else if b = CHR ''T'' then (if a = CHR ''L'' then False else if a = CHR ''F'' then False else plain_name b c s)
         else plain_name b c s)
      else plain_name b c s)"

lemma plain_name_append: "plain_name a b (s @ t) \<Longrightarrow> \<exists>a b. plain_name a b t"
  by (induction s arbitrary: a b) (auto split: if_splits)

lemma plain_name_free:
  assumes "plain_name a b s" shows "modifier_free (bytes s)"
proof -
  have "strstr (bytes s) (bytes m) = None" if "(m, st) \<in> set modifiers" for m st
  proof (rule ccontr)
    assume "strstr (bytes s) (bytes m) \<noteq> None"
    then obtain i where "take (length (bytes m)) (drop i (bytes s)) = bytes m" using strstr_Some by blast
    then have "map of_char (take (length m) (drop i s)) = (map of_char m :: cstr)"
      by (simp add: bytes_def drop_map take_map)
    then have "take (length m) (drop i s) = m"
      by (metis (no_types, lifting) of_char_byte_eq inj_map_eq_map injI)
    then have "s = take i s @ m @ drop (length m) (drop i s)" by (metis append_take_drop_id)
    with assms plain_name_append obtain a b t where "plain_name a b (m @ t)" by metis
    with that show False by (auto simp: modifiers_def split: if_splits)
  qed
  then show ?thesis by (auto simp: modifier_free_def)
qed

section \<open>The tables\<close>

definition key_tables :: key_names where
  "key_tables = \<lparr>keyNameList = map bytes keyNameStrings, keyValueByNameOffset = map word_of_nat keyValues,
     keyNameOffsetByValue = map (\<lambda>(v, o'). (word_of_nat v, o')) keyOffsets,
     keyNameListCompat = map (\<lambda>(n, v). (bytes n, word_of_nat v)) keyCompat\<rparr>"

text \<open>The checks run over the entries, and leave alone the rest of a table.\<close>

lemma table_congs:
  "successively P xs = successively P xs" "list_all Q ys = list_all Q ys" "name_less s t = name_less s t"
  "plain_name a b s = plain_name a b s"
  by (rule refl)+

lemma name_less_same: "name_less (c # s) (c # t) = name_less s t"
  by simp

lemma names_0: "successively name_less keyNameList_0"
  unfolding keyNameList_0_def by (simp cong: table_congs)

lemma names_1: "successively name_less keyNameList_1"
  unfolding keyNameList_1_def by (simp cong: table_congs)

lemma names_2: "successively name_less keyNameList_2"
  unfolding keyNameList_2_def by (simp cong: table_congs)

lemma names_3: "successively name_less keyNameList_3"
  unfolding keyNameList_3_def by (simp cong: table_congs)

lemma names_4: "successively name_less keyNameList_4"
  unfolding keyNameList_4_def by (simp cong: table_congs)

lemma names_5: "successively name_less keyNameList_5"
  unfolding keyNameList_5_def by (simp cong: table_congs)

lemma names_6: "successively name_less keyNameList_6"
  unfolding keyNameList_6_def by (simp cong: table_congs)

lemma names_7: "successively name_less keyNameList_7"
  unfolding keyNameList_7_def by (simp cong: table_congs)

lemma names_8: "successively name_less keyNameList_8"
  unfolding keyNameList_8_def by (simp cong: table_congs)

lemma names_9: "successively name_less keyNameList_9"
  unfolding keyNameList_9_def by (simp cong: table_congs)

lemma names_10: "successively name_less keyNameList_10"
  unfolding keyNameList_10_def by (simp cong: table_congs)

lemma names_11: "successively name_less keyNameList_11"
  unfolding keyNameList_11_def by (simp cong: table_congs)

lemma names_12: "successively name_less keyNameList_12"
  unfolding keyNameList_12_def by (simp cong: table_congs)

lemma names_13: "successively name_less keyNameList_13"
  unfolding keyNameList_13_def by (simp cong: table_congs)

lemma names_14: "successively name_less keyNameList_14"
  unfolding keyNameList_14_def by (simp cong: table_congs)

lemma names_15: "successively name_less keyNameList_15"
  unfolding keyNameList_15_def by (simp cong: table_congs)

lemma plain_0: "list_all (plain_name CHR 0x00 CHR 0x00) keyNameList_0"
  unfolding keyNameList_0_def by (simp cong: table_congs)

lemma plain_1: "list_all (plain_name CHR 0x00 CHR 0x00) keyNameList_1"
  unfolding keyNameList_1_def by (simp cong: table_congs)

lemma plain_2: "list_all (plain_name CHR 0x00 CHR 0x00) keyNameList_2"
  unfolding keyNameList_2_def by (simp cong: table_congs)

lemma plain_3: "list_all (plain_name CHR 0x00 CHR 0x00) keyNameList_3"
  unfolding keyNameList_3_def by (simp cong: table_congs)

lemma plain_4: "list_all (plain_name CHR 0x00 CHR 0x00) keyNameList_4"
  unfolding keyNameList_4_def by (simp cong: table_congs)

lemma plain_5: "list_all (plain_name CHR 0x00 CHR 0x00) keyNameList_5"
  unfolding keyNameList_5_def by (simp cong: table_congs)

lemma plain_6: "list_all (plain_name CHR 0x00 CHR 0x00) keyNameList_6"
  unfolding keyNameList_6_def by (simp cong: table_congs)

lemma plain_7: "list_all (plain_name CHR 0x00 CHR 0x00) keyNameList_7"
  unfolding keyNameList_7_def by (simp cong: table_congs)

lemma plain_8: "list_all (plain_name CHR 0x00 CHR 0x00) keyNameList_8"
  unfolding keyNameList_8_def by (simp cong: table_congs)

lemma plain_9: "list_all (plain_name CHR 0x00 CHR 0x00) keyNameList_9"
  unfolding keyNameList_9_def by (simp cong: table_congs)

lemma plain_10: "list_all (plain_name CHR 0x00 CHR 0x00) keyNameList_10"
  unfolding keyNameList_10_def by (simp cong: table_congs)

lemma plain_11: "list_all (plain_name CHR 0x00 CHR 0x00) keyNameList_11"
  unfolding keyNameList_11_def by (simp cong: table_congs)

lemma plain_12: "list_all (plain_name CHR 0x00 CHR 0x00) keyNameList_12"
  unfolding keyNameList_12_def by (simp cong: table_congs)

lemma plain_13: "list_all (plain_name CHR 0x00 CHR 0x00) keyNameList_13"
  unfolding keyNameList_13_def by (simp cong: table_congs)

lemma plain_14: "list_all (plain_name CHR 0x00 CHR 0x00) keyNameList_14"
  unfolding keyNameList_14_def by (simp cong: table_congs)

lemma plain_15: "list_all (plain_name CHR 0x00 CHR 0x00) keyNameList_15"
  unfolding keyNameList_15_def by (simp cong: table_congs)

lemma offsets_0: "successively (<) (map fst keyNameOffsetByValue_0)"
    "list_all (\<lambda>v. v < 0x80000000) (map fst keyNameOffsetByValue_0)"
  unfolding keyNameOffsetByValue_0_def list.map fst_conv by (simp_all cong: table_congs)

lemma offsets_1: "successively (<) (map fst keyNameOffsetByValue_1)"
    "list_all (\<lambda>v. v < 0x80000000) (map fst keyNameOffsetByValue_1)"
  unfolding keyNameOffsetByValue_1_def list.map fst_conv by (simp_all cong: table_congs)

lemma offsets_2: "successively (<) (map fst keyNameOffsetByValue_2)"
    "list_all (\<lambda>v. v < 0x80000000) (map fst keyNameOffsetByValue_2)"
  unfolding keyNameOffsetByValue_2_def list.map fst_conv by (simp_all cong: table_congs)

lemma offsets_3: "successively (<) (map fst keyNameOffsetByValue_3)"
    "list_all (\<lambda>v. v < 0x80000000) (map fst keyNameOffsetByValue_3)"
  unfolding keyNameOffsetByValue_3_def list.map fst_conv by (simp_all cong: table_congs)

lemma offsets_4: "successively (<) (map fst keyNameOffsetByValue_4)"
    "list_all (\<lambda>v. v < 0x80000000) (map fst keyNameOffsetByValue_4)"
  unfolding keyNameOffsetByValue_4_def list.map fst_conv by (simp_all cong: table_congs)

lemma offsets_5: "successively (<) (map fst keyNameOffsetByValue_5)"
    "list_all (\<lambda>v. v < 0x80000000) (map fst keyNameOffsetByValue_5)"
  unfolding keyNameOffsetByValue_5_def list.map fst_conv by (simp_all cong: table_congs)

lemma offsets_6: "successively (<) (map fst keyNameOffsetByValue_6)"
    "list_all (\<lambda>v. v < 0x80000000) (map fst keyNameOffsetByValue_6)"
  unfolding keyNameOffsetByValue_6_def list.map fst_conv by (simp_all cong: table_congs)

lemma offsets_7: "successively (<) (map fst keyNameOffsetByValue_7)"
    "list_all (\<lambda>v. v < 0x80000000) (map fst keyNameOffsetByValue_7)"
  unfolding keyNameOffsetByValue_7_def list.map fst_conv by (simp_all cong: table_congs)

lemma offsets_8: "successively (<) (map fst keyNameOffsetByValue_8)"
    "list_all (\<lambda>v. v < 0x80000000) (map fst keyNameOffsetByValue_8)"
  unfolding keyNameOffsetByValue_8_def list.map fst_conv by (simp_all cong: table_congs)

lemma offsets_9: "successively (<) (map fst keyNameOffsetByValue_9)"
    "list_all (\<lambda>v. v < 0x80000000) (map fst keyNameOffsetByValue_9)"
  unfolding keyNameOffsetByValue_9_def list.map fst_conv by (simp_all cong: table_congs)

lemma offsets_10: "successively (<) (map fst keyNameOffsetByValue_10)"
    "list_all (\<lambda>v. v < 0x80000000) (map fst keyNameOffsetByValue_10)"
  unfolding keyNameOffsetByValue_10_def list.map fst_conv by (simp_all cong: table_congs)

lemma offsets_11: "successively (<) (map fst keyNameOffsetByValue_11)"
    "list_all (\<lambda>v. v < 0x80000000) (map fst keyNameOffsetByValue_11)"
  unfolding keyNameOffsetByValue_11_def list.map fst_conv by (simp_all cong: table_congs)

lemma offsets_12: "successively (<) (map fst keyNameOffsetByValue_12)"
    "list_all (\<lambda>v. v < 0x80000000) (map fst keyNameOffsetByValue_12)"
  unfolding keyNameOffsetByValue_12_def list.map fst_conv by (simp_all cong: table_congs)

lemma offsets_13: "successively (<) (map fst keyNameOffsetByValue_13)"
    "list_all (\<lambda>v. v < 0x80000000) (map fst keyNameOffsetByValue_13)"
  unfolding keyNameOffsetByValue_13_def list.map fst_conv by (simp_all cong: table_congs)

lemma offsets_14: "successively (<) (map fst keyNameOffsetByValue_14)"
    "list_all (\<lambda>v. v < 0x80000000) (map fst keyNameOffsetByValue_14)"
  unfolding keyNameOffsetByValue_14_def list.map fst_conv by (simp_all cong: table_congs)

text \<open>The whole tables, from the pieces and where they meet.\<close>

lemma ends_congs: "last xs = last xs" "length xs = length xs" "hd xs = hd xs"
  by (rule refl)+

lemma last_two: "last (x # y # zs) = last (y # zs)" "last [x] = x"
  by simp_all

lemma name_ends_0 [simp]: "keyNameList_0 \<noteq> []" "hd keyNameList_0 = ''0''" "last keyNameList_0 = ''Armenian_AT''"
    "length keyNameList_0 = 150"
  unfolding keyNameList_0_def by (simp_all add: last_two del: last.simps cong: ends_congs)

lemma name_ends_1 [simp]: "keyNameList_1 \<noteq> []" "hd keyNameList_1 = ''Armenian_AYB''" "last keyNameList_1 = ''CycleAngle''"
    "length keyNameList_1 = 150"
  unfolding keyNameList_1_def by (simp_all add: last_two del: last.simps cong: ends_congs)

lemma name_ends_2 [simp]: "keyNameList_2 \<noteq> []" "hd keyNameList_2 = ''Cyrillic_A''" "last keyNameList_2 = ''F12''"
    "length keyNameList_2 = 150"
  unfolding keyNameList_2_def by (simp_all add: last_two del: last.simps cong: ends_congs)

lemma name_ends_3 [simp]: "keyNameList_3 \<noteq> []" "hd keyNameList_3 = ''F13''" "last keyNameList_3 = ''Greek_iotadieresis''"
    "length keyNameList_3 = 150"
  unfolding keyNameList_3_def by (simp_all add: last_two del: last.simps cong: ends_congs)

lemma name_ends_4 [simp]: "keyNameList_4 \<noteq> []" "hd keyNameList_4 = ''Greek_kappa''" "last keyNameList_4 = ''ISO_Continuous_Underline''"
    "length keyNameList_4 = 150"
  unfolding keyNameList_4_def by (simp_all add: last_two del: last.simps cong: ends_congs)

lemma name_ends_5 [simp]: "keyNameList_5 \<noteq> []" "hd keyNameList_5 = ''ISO_Discontinuous_Underline''" "last keyNameList_5 = ''Mail''"
    "length keyNameList_5 = 150"
  unfolding keyNameList_5_def by (simp_all add: last_two del: last.simps cong: ends_congs)

lemma name_ends_6 [simp]: "keyNameList_6 \<noteq> []" "hd keyNameList_6 = ''MailForward''" "last keyNameList_6 = ''RotationPB''"
    "length keyNameList_6 = 150"
  unfolding keyNameList_6_def by (simp_all add: last_two del: last.simps cong: ends_congs)

lemma name_ends_7 [simp]: "keyNameList_7 \<noteq> []" "hd keyNameList_7 = ''RupeeSign''" "last keyNameList_7 = ''Terminate_Server''"
    "length keyNameList_7 = 150"
  unfolding keyNameList_7_def by (simp_all add: last_two del: last.simps cong: ends_congs)

lemma name_ends_8 [simp]: "keyNameList_8 \<noteq> []" "hd keyNameList_8 = ''Thai_baht''" "last keyNameList_8 = ''WindowClear''"
    "length keyNameList_8 = 150"
  unfolding keyNameList_8_def by (simp_all add: last_two del: last.simps cong: ends_congs)

lemma name_ends_9 [simp]: "keyNameList_9 \<noteq> []" "hd keyNameList_9 = ''WindowClearGrab''" "last keyNameList_9 = ''braille_dots_12678''"
    "length keyNameList_9 = 150"
  unfolding keyNameList_9_def by (simp_all add: last_two del: last.simps cong: ends_congs)

lemma name_ends_10 [simp]: "keyNameList_10 \<noteq> []" "hd keyNameList_10 = ''braille_dots_1268''" "last keyNameList_10 = ''braille_dots_356''"
    "length keyNameList_10 = 150"
  unfolding keyNameList_10_def by (simp_all add: last_two del: last.simps cong: ends_congs)

lemma name_ends_11 [simp]: "keyNameList_11 \<noteq> []" "hd keyNameList_11 = ''braille_dots_3567''" "last keyNameList_11 = ''ebelowdot''"
    "length keyNameList_11 = 150"
  unfolding keyNameList_11_def by (simp_all add: last_two del: last.simps cong: ends_congs)

lemma name_ends_12 [simp]: "keyNameList_12 \<noteq> []" "hd keyNameList_12 = ''ecaron''" "last keyNameList_12 = ''kana_FU''"
    "length keyNameList_12 = 150"
  unfolding keyNameList_12_def by (simp_all add: last_two del: last.simps cong: ends_congs)

lemma name_ends_13 [simp]: "keyNameList_13 \<noteq> []" "hd keyNameList_13 = ''kana_HA''" "last keyNameList_13 = ''onesixth''"
    "length keyNameList_13 = 150"
  unfolding keyNameList_13_def by (simp_all add: last_two del: last.simps cong: ends_congs)

lemma name_ends_14 [simp]: "keyNameList_14 \<noteq> []" "hd keyNameList_14 = ''onesubscript''" "last keyNameList_14 = ''vt''"
    "length keyNameList_14 = 150"
  unfolding keyNameList_14_def by (simp_all add: last_two del: last.simps cong: ends_congs)

lemma name_ends_15 [simp]: "keyNameList_15 \<noteq> []" "hd keyNameList_15 = ''w''" "last keyNameList_15 = ''zstroke''"
    "length keyNameList_15 = 23"
  unfolding keyNameList_15_def by (simp_all add: last_two del: last.simps cong: ends_congs)

lemma offset_ends_0 [simp]: "keyNameOffsetByValue_0 \<noteq> []" "fst (hd keyNameOffsetByValue_0) = 0x0"
    "fst (last keyNameOffsetByValue_0) = 0x00d5"
  unfolding keyNameOffsetByValue_0_def by (simp_all add: last_two del: last.simps cong: ends_congs)

lemma offset_ends_1 [simp]: "keyNameOffsetByValue_1 \<noteq> []" "fst (hd keyNameOffsetByValue_1) = 0x00d6"
    "fst (last keyNameOffsetByValue_1) = 0x03ef"
  unfolding keyNameOffsetByValue_1_def by (simp_all add: last_two del: last.simps cong: ends_congs)

lemma offset_ends_2 [simp]: "keyNameOffsetByValue_2 \<noteq> []" "fst (hd keyNameOffsetByValue_2) = 0x03f1"
    "fst (last keyNameOffsetByValue_2) = 0x06c0"
  unfolding keyNameOffsetByValue_2_def by (simp_all add: last_two del: last.simps cong: ends_congs)

lemma offset_ends_3 [simp]: "keyNameOffsetByValue_3 \<noteq> []" "fst (hd keyNameOffsetByValue_3) = 0x06c1"
    "fst (last keyNameOffsetByValue_3) = 0x08b0"
  unfolding keyNameOffsetByValue_3_def by (simp_all add: last_two del: last.simps cong: ends_congs)

lemma offset_ends_4 [simp]: "keyNameOffsetByValue_4 \<noteq> []" "fst (hd keyNameOffsetByValue_4) = 0x08b1"
    "fst (last keyNameOffsetByValue_4) = 0x0bc6"
  unfolding keyNameOffsetByValue_4_def by (simp_all add: last_two del: last.simps cong: ends_congs)

lemma offset_ends_5 [simp]: "keyNameOffsetByValue_5 \<noteq> []" "fst (hd keyNameOffsetByValue_5) = 0x0bca"
    "fst (last keyNameOffsetByValue_5) = 0x0ebc"
  unfolding keyNameOffsetByValue_5_def by (simp_all add: last_two del: last.simps cong: ends_congs)

lemma offset_ends_6 [simp]: "keyNameOffsetByValue_6 \<noteq> []" "fst (hd keyNameOffsetByValue_6) = 0x0ebd"
    "fst (last keyNameOffsetByValue_6) = 0xfe5d"
  unfolding keyNameOffsetByValue_6_def by (simp_all add: last_two del: last.simps cong: ends_congs)

lemma offset_ends_7 [simp]: "keyNameOffsetByValue_7 \<noteq> []" "fst (hd keyNameOffsetByValue_7) = 0xfe5e"
    "fst (last keyNameOffsetByValue_7) = 0xff7f"
  unfolding keyNameOffsetByValue_7_def by (simp_all add: last_two del: last.simps cong: ends_congs)

lemma offset_ends_8 [simp]: "keyNameOffsetByValue_8 \<noteq> []" "fst (hd keyNameOffsetByValue_8) = 0xff80"
    "fst (last keyNameOffsetByValue_8) = 0x1000532"
  unfolding keyNameOffsetByValue_8_def by (simp_all add: last_two del: last.simps cong: ends_congs)

lemma offset_ends_9 [simp]: "keyNameOffsetByValue_9 \<noteq> []" "fst (hd keyNameOffsetByValue_9) = 0x1000533"
    "fst (last keyNameOffsetByValue_9) = 0x1000da1"
  unfolding keyNameOffsetByValue_9_def by (simp_all add: last_two del: last.simps cong: ends_congs)

lemma offset_ends_10 [simp]: "keyNameOffsetByValue_10 \<noteq> []" "fst (hd keyNameOffsetByValue_10) = 0x1000da2"
    "fst (last keyNameOffsetByValue_10) = 0x1001ec2"
  unfolding keyNameOffsetByValue_10_def by (simp_all add: last_two del: last.simps cong: ends_congs)

lemma offset_ends_11 [simp]: "keyNameOffsetByValue_11 \<noteq> []" "fst (hd keyNameOffsetByValue_11) = 0x1001ec3"
    "fst (last keyNameOffsetByValue_11) = 0x1002832"
  unfolding keyNameOffsetByValue_11_def by (simp_all add: last_two del: last.simps cong: ends_congs)

lemma offset_ends_12 [simp]: "keyNameOffsetByValue_12 \<noteq> []" "fst (hd keyNameOffsetByValue_12) = 0x1002833"
    "fst (last keyNameOffsetByValue_12) = 0x10028c8"
  unfolding keyNameOffsetByValue_12_def by (simp_all add: last_two del: last.simps cong: ends_congs)

lemma offset_ends_13 [simp]: "keyNameOffsetByValue_13 \<noteq> []" "fst (hd keyNameOffsetByValue_13) = 0x10028c9"
    "fst (last keyNameOffsetByValue_13) = 0x1008ff58"
  unfolding keyNameOffsetByValue_13_def by (simp_all add: last_two del: last.simps cong: ends_congs)

lemma offset_ends_14 [simp]: "keyNameOffsetByValue_14 \<noteq> []" "fst (hd keyNameOffsetByValue_14) = 0x1008ff59"
    "fst (last keyNameOffsetByValue_14) = 0x1008ffb2"
  unfolding keyNameOffsetByValue_14_def by (simp_all add: last_two del: last.simps cong: ends_congs)

lemma names_sorted: "sorted_wrt name_less keyNameStrings"
proof (rule successively_sorted)
  show "transp name_less" by (rule transpI) (rule name_less_trans)
  show "successively name_less keyNameStrings"
    by (simp add: keyNameStrings_def successively_append_iff
      names_0 names_1 names_2 names_3 names_4 names_5 names_6 names_7 names_8 names_9 names_10 names_11
      names_12 names_13 names_14 names_15)
qed

lemma names_plain: "list_all (plain_name CHR 0x00 CHR 0x00) keyNameStrings"
  by (simp add: keyNameStrings_def
      plain_0 plain_1 plain_2 plain_3 plain_4 plain_5 plain_6 plain_7 plain_8 plain_9 plain_10 plain_11
      plain_12 plain_13 plain_14 plain_15)

lemma names_length: "length keyNameStrings = 2273"
  by (simp add: keyNameStrings_def)

lemma offsets_sorted: "sorted_wrt (<) (map fst keyOffsets)" "list_all (\<lambda>v. v < 0x80000000) (map fst keyOffsets)"
proof -
  show "list_all (\<lambda>v. v < 0x80000000) (map fst keyOffsets)"
    unfolding keyOffsets_def map_append list_all_append
    by (intro conjI) (rule
      offsets_0 offsets_1 offsets_2 offsets_3 offsets_4 offsets_5 offsets_6 offsets_7 offsets_8 offsets_9
      offsets_10 offsets_11 offsets_12 offsets_13 offsets_14)+
  have "successively (<) (map fst keyOffsets)"
    by (simp add: keyOffsets_def successively_append_iff hd_map last_map
      offsets_0 offsets_1 offsets_2 offsets_3 offsets_4 offsets_5 offsets_6 offsets_7 offsets_8 offsets_9
      offsets_10 offsets_11 offsets_12 offsets_13 offsets_14)
  then show "sorted_wrt (<) (map fst keyOffsets)" by (rule successively_sorted [rotated]) simp
qed

section \<open>The two tables agree\<close>

text \<open>The values are picked from their pieces of fifty, ten at a time.\<close>

definition pick :: "nat \<Rightarrow> nat \<Rightarrow> nat" where
  "pick q m =
    [keyValueByNameOffset_0, keyValueByNameOffset_1, keyValueByNameOffset_2, keyValueByNameOffset_3,
     keyValueByNameOffset_4, keyValueByNameOffset_5, keyValueByNameOffset_6, keyValueByNameOffset_7,
     keyValueByNameOffset_8, keyValueByNameOffset_9, keyValueByNameOffset_10, keyValueByNameOffset_11,
     keyValueByNameOffset_12, keyValueByNameOffset_13, keyValueByNameOffset_14, keyValueByNameOffset_15,
     keyValueByNameOffset_16, keyValueByNameOffset_17, keyValueByNameOffset_18, keyValueByNameOffset_19,
     keyValueByNameOffset_20, keyValueByNameOffset_21, keyValueByNameOffset_22, keyValueByNameOffset_23,
     keyValueByNameOffset_24, keyValueByNameOffset_25, keyValueByNameOffset_26, keyValueByNameOffset_27,
     keyValueByNameOffset_28, keyValueByNameOffset_29, keyValueByNameOffset_30, keyValueByNameOffset_31,
     keyValueByNameOffset_32, keyValueByNameOffset_33, keyValueByNameOffset_34, keyValueByNameOffset_35,
     keyValueByNameOffset_36, keyValueByNameOffset_37, keyValueByNameOffset_38, keyValueByNameOffset_39,
     keyValueByNameOffset_40, keyValueByNameOffset_41, keyValueByNameOffset_42, keyValueByNameOffset_43,
     keyValueByNameOffset_44, keyValueByNameOffset_45] ! q ! m"

lemmas pick_piece =
  pick_def [of 0, simplified, unfolded keyValueByNameOffset_0_def]
  pick_def [of 1, simplified, unfolded keyValueByNameOffset_1_def]
  pick_def [of 2, simplified, unfolded keyValueByNameOffset_2_def]
  pick_def [of 3, simplified, unfolded keyValueByNameOffset_3_def]
  pick_def [of 4, simplified, unfolded keyValueByNameOffset_4_def]
  pick_def [of 5, simplified, unfolded keyValueByNameOffset_5_def]
  pick_def [of 6, simplified, unfolded keyValueByNameOffset_6_def]
  pick_def [of 7, simplified, unfolded keyValueByNameOffset_7_def]
  pick_def [of 8, simplified, unfolded keyValueByNameOffset_8_def]
  pick_def [of 9, simplified, unfolded keyValueByNameOffset_9_def]
  pick_def [of 10, simplified, unfolded keyValueByNameOffset_10_def]
  pick_def [of 11, simplified, unfolded keyValueByNameOffset_11_def]
  pick_def [of 12, simplified, unfolded keyValueByNameOffset_12_def]
  pick_def [of 13, simplified, unfolded keyValueByNameOffset_13_def]
  pick_def [of 14, simplified, unfolded keyValueByNameOffset_14_def]
  pick_def [of 15, simplified, unfolded keyValueByNameOffset_15_def]
  pick_def [of 16, simplified, unfolded keyValueByNameOffset_16_def]
  pick_def [of 17, simplified, unfolded keyValueByNameOffset_17_def]
  pick_def [of 18, simplified, unfolded keyValueByNameOffset_18_def]
  pick_def [of 19, simplified, unfolded keyValueByNameOffset_19_def]
  pick_def [of 20, simplified, unfolded keyValueByNameOffset_20_def]
  pick_def [of 21, simplified, unfolded keyValueByNameOffset_21_def]
  pick_def [of 22, simplified, unfolded keyValueByNameOffset_22_def]
  pick_def [of 23, simplified, unfolded keyValueByNameOffset_23_def]
  pick_def [of 24, simplified, unfolded keyValueByNameOffset_24_def]
  pick_def [of 25, simplified, unfolded keyValueByNameOffset_25_def]
  pick_def [of 26, simplified, unfolded keyValueByNameOffset_26_def]
  pick_def [of 27, simplified, unfolded keyValueByNameOffset_27_def]
  pick_def [of 28, simplified, unfolded keyValueByNameOffset_28_def]
  pick_def [of 29, simplified, unfolded keyValueByNameOffset_29_def]
  pick_def [of 30, simplified, unfolded keyValueByNameOffset_30_def]
  pick_def [of 31, simplified, unfolded keyValueByNameOffset_31_def]
  pick_def [of 32, simplified, unfolded keyValueByNameOffset_32_def]
  pick_def [of 33, simplified, unfolded keyValueByNameOffset_33_def]
  pick_def [of 34, simplified, unfolded keyValueByNameOffset_34_def]
  pick_def [of 35, simplified, unfolded keyValueByNameOffset_35_def]
  pick_def [of 36, simplified, unfolded keyValueByNameOffset_36_def]
  pick_def [of 37, simplified, unfolded keyValueByNameOffset_37_def]
  pick_def [of 38, simplified, unfolded keyValueByNameOffset_38_def]
  pick_def [of 39, simplified, unfolded keyValueByNameOffset_39_def]
  pick_def [of 40, simplified, unfolded keyValueByNameOffset_40_def]
  pick_def [of 41, simplified, unfolded keyValueByNameOffset_41_def]
  pick_def [of 42, simplified, unfolded keyValueByNameOffset_42_def]
  pick_def [of 43, simplified, unfolded keyValueByNameOffset_43_def]
  pick_def [of 44, simplified, unfolded keyValueByNameOffset_44_def]
  pick_def [of 45, simplified, unfolded keyValueByNameOffset_45_def]

definition short :: "nat list \<Rightarrow> nat \<Rightarrow> nat" where
  "short xs n = xs ! n"

lemma short_simps:
  "short (x # xs) 0 = x" "short (x # xs) (Suc 0) = short xs 0" "short (x # xs) (numeral k) = short xs (pred_numeral k)"
  "[a, b, c] ! n = short [a, b, c] n"
  by (simp_all add: short_def nth_Cons_numeral)

lemma skip_ten:
  "(a0 # a1 # a2 # a3 # a4 # a5 # a6 # a7 # a8 # a9 # xs) ! n =
   (if n < 10 then short [a0, a1, a2, a3, a4, a5, a6, a7, a8, a9] n else xs ! (n - 10))"
proof (cases "n < 10")
  case False
  then obtain m where "n = 10 + m" using le_Suc_ex [of 10 n] by auto
  then show ?thesis by (simp add: eval_nat_numeral)
qed (auto simp: short_def nth_Cons')

lemma pick_congs: "i = j \<Longrightarrow> xs ! i = xs ! j" "i = j \<Longrightarrow> short xs i = short xs j" "list_all P ps = list_all P ps"
  by simp_all

definition agrees :: "nat \<times> nat \<Rightarrow> bool" where
  "agrees p \<longleftrightarrow> snd p < 2273 \<and> pick (snd p div 50) (snd p mod 50) = fst p"

lemmas agrees_simps = agrees_def pick_piece skip_ten short_simps

lemma agree_0: "list_all agrees keyNameOffsetByValue_0"
  unfolding keyNameOffsetByValue_0_def
  by (simp add: agrees_simps del: nth_Cons_numeral nth_Cons_Suc nth_Cons_0 nth_Cons_pos cong: pick_congs)

lemma agree_1: "list_all agrees keyNameOffsetByValue_1"
  unfolding keyNameOffsetByValue_1_def
  by (simp add: agrees_simps del: nth_Cons_numeral nth_Cons_Suc nth_Cons_0 nth_Cons_pos cong: pick_congs)

lemma agree_2: "list_all agrees keyNameOffsetByValue_2"
  unfolding keyNameOffsetByValue_2_def
  by (simp add: agrees_simps del: nth_Cons_numeral nth_Cons_Suc nth_Cons_0 nth_Cons_pos cong: pick_congs)

lemma agree_3: "list_all agrees keyNameOffsetByValue_3"
  unfolding keyNameOffsetByValue_3_def
  by (simp add: agrees_simps del: nth_Cons_numeral nth_Cons_Suc nth_Cons_0 nth_Cons_pos cong: pick_congs)

lemma agree_4: "list_all agrees keyNameOffsetByValue_4"
  unfolding keyNameOffsetByValue_4_def
  by (simp add: agrees_simps del: nth_Cons_numeral nth_Cons_Suc nth_Cons_0 nth_Cons_pos cong: pick_congs)

lemma agree_5: "list_all agrees keyNameOffsetByValue_5"
  unfolding keyNameOffsetByValue_5_def
  by (simp add: agrees_simps del: nth_Cons_numeral nth_Cons_Suc nth_Cons_0 nth_Cons_pos cong: pick_congs)

lemma agree_6: "list_all agrees keyNameOffsetByValue_6"
  unfolding keyNameOffsetByValue_6_def
  by (simp add: agrees_simps del: nth_Cons_numeral nth_Cons_Suc nth_Cons_0 nth_Cons_pos cong: pick_congs)

lemma agree_7: "list_all agrees keyNameOffsetByValue_7"
  unfolding keyNameOffsetByValue_7_def
  by (simp add: agrees_simps del: nth_Cons_numeral nth_Cons_Suc nth_Cons_0 nth_Cons_pos cong: pick_congs)

lemma agree_8: "list_all agrees keyNameOffsetByValue_8"
  unfolding keyNameOffsetByValue_8_def
  by (simp add: agrees_simps del: nth_Cons_numeral nth_Cons_Suc nth_Cons_0 nth_Cons_pos cong: pick_congs)

lemma agree_9: "list_all agrees keyNameOffsetByValue_9"
  unfolding keyNameOffsetByValue_9_def
  by (simp add: agrees_simps del: nth_Cons_numeral nth_Cons_Suc nth_Cons_0 nth_Cons_pos cong: pick_congs)

lemma agree_10: "list_all agrees keyNameOffsetByValue_10"
  unfolding keyNameOffsetByValue_10_def
  by (simp add: agrees_simps del: nth_Cons_numeral nth_Cons_Suc nth_Cons_0 nth_Cons_pos cong: pick_congs)

lemma agree_11: "list_all agrees keyNameOffsetByValue_11"
  unfolding keyNameOffsetByValue_11_def
  by (simp add: agrees_simps del: nth_Cons_numeral nth_Cons_Suc nth_Cons_0 nth_Cons_pos cong: pick_congs)

lemma agree_12: "list_all agrees keyNameOffsetByValue_12"
  unfolding keyNameOffsetByValue_12_def
  by (simp add: agrees_simps del: nth_Cons_numeral nth_Cons_Suc nth_Cons_0 nth_Cons_pos cong: pick_congs)

lemma agree_13: "list_all agrees keyNameOffsetByValue_13"
  unfolding keyNameOffsetByValue_13_def
  by (simp add: agrees_simps del: nth_Cons_numeral nth_Cons_Suc nth_Cons_0 nth_Cons_pos cong: pick_congs)

lemma agree_14: "list_all agrees keyNameOffsetByValue_14"
  unfolding keyNameOffsetByValue_14_def
  by (simp add: agrees_simps del: nth_Cons_numeral nth_Cons_Suc nth_Cons_0 nth_Cons_pos cong: pick_congs)

lemma value_ends:
  "length keyValueByNameOffset_0 = 50" "length keyValueByNameOffset_1 = 50"
  "length keyValueByNameOffset_2 = 50" "length keyValueByNameOffset_3 = 50"
  "length keyValueByNameOffset_4 = 50" "length keyValueByNameOffset_5 = 50"
  "length keyValueByNameOffset_6 = 50" "length keyValueByNameOffset_7 = 50"
  "length keyValueByNameOffset_8 = 50" "length keyValueByNameOffset_9 = 50"
  "length keyValueByNameOffset_10 = 50" "length keyValueByNameOffset_11 = 50"
  "length keyValueByNameOffset_12 = 50" "length keyValueByNameOffset_13 = 50"
  "length keyValueByNameOffset_14 = 50" "length keyValueByNameOffset_15 = 50"
  "length keyValueByNameOffset_16 = 50" "length keyValueByNameOffset_17 = 50"
  "length keyValueByNameOffset_18 = 50" "length keyValueByNameOffset_19 = 50"
  "length keyValueByNameOffset_20 = 50" "length keyValueByNameOffset_21 = 50"
  "length keyValueByNameOffset_22 = 50" "length keyValueByNameOffset_23 = 50"
  "length keyValueByNameOffset_24 = 50" "length keyValueByNameOffset_25 = 50"
  "length keyValueByNameOffset_26 = 50" "length keyValueByNameOffset_27 = 50"
  "length keyValueByNameOffset_28 = 50" "length keyValueByNameOffset_29 = 50"
  "length keyValueByNameOffset_30 = 50" "length keyValueByNameOffset_31 = 50"
  "length keyValueByNameOffset_32 = 50" "length keyValueByNameOffset_33 = 50"
  "length keyValueByNameOffset_34 = 50" "length keyValueByNameOffset_35 = 50"
  "length keyValueByNameOffset_36 = 50" "length keyValueByNameOffset_37 = 50"
  "length keyValueByNameOffset_38 = 50" "length keyValueByNameOffset_39 = 50"
  "length keyValueByNameOffset_40 = 50" "length keyValueByNameOffset_41 = 50"
  "length keyValueByNameOffset_42 = 50" "length keyValueByNameOffset_43 = 50"
  "length keyValueByNameOffset_44 = 50" "length keyValueByNameOffset_45 = 23"
  by (simp_all add:
      keyValueByNameOffset_0_def keyValueByNameOffset_1_def keyValueByNameOffset_2_def
      keyValueByNameOffset_3_def keyValueByNameOffset_4_def keyValueByNameOffset_5_def
      keyValueByNameOffset_6_def keyValueByNameOffset_7_def keyValueByNameOffset_8_def
      keyValueByNameOffset_9_def keyValueByNameOffset_10_def keyValueByNameOffset_11_def
      keyValueByNameOffset_12_def keyValueByNameOffset_13_def keyValueByNameOffset_14_def
      keyValueByNameOffset_15_def keyValueByNameOffset_16_def keyValueByNameOffset_17_def
      keyValueByNameOffset_18_def keyValueByNameOffset_19_def keyValueByNameOffset_20_def
      keyValueByNameOffset_21_def keyValueByNameOffset_22_def keyValueByNameOffset_23_def
      keyValueByNameOffset_24_def keyValueByNameOffset_25_def keyValueByNameOffset_26_def
      keyValueByNameOffset_27_def keyValueByNameOffset_28_def keyValueByNameOffset_29_def
      keyValueByNameOffset_30_def keyValueByNameOffset_31_def keyValueByNameOffset_32_def
      keyValueByNameOffset_33_def keyValueByNameOffset_34_def keyValueByNameOffset_35_def
      keyValueByNameOffset_36_def keyValueByNameOffset_37_def keyValueByNameOffset_38_def
      keyValueByNameOffset_39_def keyValueByNameOffset_40_def keyValueByNameOffset_41_def
      keyValueByNameOffset_42_def keyValueByNameOffset_43_def keyValueByNameOffset_44_def
      keyValueByNameOffset_45_def)

lemma piece_nth:
  "list_all (\<lambda>c. length c = k) cs \<Longrightarrow> n < k * length cs + length r \<Longrightarrow> length r \<le> k \<Longrightarrow>
   (concat cs @ r) ! n = (cs @ [r]) ! (n div k) ! (n mod k)"
proof (induction cs arbitrary: n)
  case (Cons c cs)
  show ?case
  proof (cases "n < k")
    case False
    then have "0 < k" using Cons.prems by (cases k) auto
    then have "n div k = Suc ((n - k) div k)" "n mod k = (n - k) mod k"
      using False by (simp_all add: le_div_geq le_mod_geq)
    then show ?thesis using Cons False by (simp add: nth_append)
  qed (use Cons in \<open>simp add: nth_append\<close>)
qed (auto simp: nth_append)

lemma pick_value: "n < 2273 \<Longrightarrow> keyValues ! n = pick (n div 50) (n mod 50)"
  using piece_nth [of 50 "[keyValueByNameOffset_0, keyValueByNameOffset_1, keyValueByNameOffset_2, keyValueByNameOffset_3,
     keyValueByNameOffset_4, keyValueByNameOffset_5, keyValueByNameOffset_6, keyValueByNameOffset_7,
     keyValueByNameOffset_8, keyValueByNameOffset_9, keyValueByNameOffset_10, keyValueByNameOffset_11,
     keyValueByNameOffset_12, keyValueByNameOffset_13, keyValueByNameOffset_14, keyValueByNameOffset_15,
     keyValueByNameOffset_16, keyValueByNameOffset_17, keyValueByNameOffset_18, keyValueByNameOffset_19,
     keyValueByNameOffset_20, keyValueByNameOffset_21, keyValueByNameOffset_22, keyValueByNameOffset_23,
     keyValueByNameOffset_24, keyValueByNameOffset_25, keyValueByNameOffset_26, keyValueByNameOffset_27,
     keyValueByNameOffset_28, keyValueByNameOffset_29, keyValueByNameOffset_30, keyValueByNameOffset_31,
     keyValueByNameOffset_32, keyValueByNameOffset_33, keyValueByNameOffset_34, keyValueByNameOffset_35,
     keyValueByNameOffset_36, keyValueByNameOffset_37, keyValueByNameOffset_38, keyValueByNameOffset_39,
     keyValueByNameOffset_40, keyValueByNameOffset_41, keyValueByNameOffset_42, keyValueByNameOffset_43,
     keyValueByNameOffset_44]"
    n "keyValueByNameOffset_45"] by (simp add: value_ends pick_def keyValues_def)

lemma values_length: "length keyValues = 2273"
  by (simp add: keyValues_def value_ends)

lemma offsets_agree: "p \<in> set keyOffsets \<Longrightarrow> snd p < 2273 \<and> keyValues ! snd p = fst p"
proof -
  have "list_all agrees keyOffsets"
    by (simp add: keyOffsets_def
      agree_0 agree_1 agree_2 agree_3 agree_4 agree_5 agree_6 agree_7 agree_8 agree_9 agree_10 agree_11
      agree_12 agree_13 agree_14)
  then show "p \<in> set keyOffsets \<Longrightarrow> snd p < 2273 \<and> keyValues ! snd p = fst p"
    by (auto simp: list_all_iff agrees_def pick_value)
qed

section \<open>Names and symbols\<close>

lemma table_names:
  assumes "p \<in> set keyOffsets"
  shows "fcitx_keysym_to_string key_tables (word_of_nat (fst p)) = Some (bytes (keyNameStrings ! snd p)) \<and>
    fcitx_keysym_from_string key_tables (bytes (keyNameStrings ! snd p)) = Some (word_of_nat (fst p)) \<and>
    modifier_free (bytes (keyNameStrings ! snd p))"
proof -
  obtain k where k: "k < length keyOffsets" "keyOffsets ! k = p" using assms by (auto simp: in_set_conv_nth)
  note a = offsets_agree [OF assms]
  have "bsearch (keysymCompare (word_of_nat (fst p))) (keyNameOffsetByValue key_tables) = Some k"
    using find_symbol [OF offsets_sorted k(1)] k(2) by (simp add: key_tables_def)
  moreover have "keyNameOffsetByValue key_tables ! k = (word_of_nat (fst p), snd p)"
    using k by (simp add: key_tables_def case_prod_beta)
  moreover have "keyNameList key_tables ! snd p = bytes (keyNameStrings ! snd p)"
    using a by (simp add: key_tables_def names_length)
  ultimately have to: "fcitx_keysym_to_string key_tables (word_of_nat (fst p)) = Some (bytes (keyNameStrings ! snd p))"
    by (simp add: fcitx_keysym_to_string_def)
  have "bsearch (\<lambda>i. strcmp (bytes (keyNameStrings ! snd p)) (keyNameList key_tables ! i))
      [0..<length (keyValueByNameOffset key_tables)] = Some (snd p)"
    using find_name [OF names_sorted, of "snd p"] a by (simp add: key_tables_def names_length values_length)
  then have "fcitx_keysym_from_string key_tables (bytes (keyNameStrings ! snd p)) = Some (word_of_nat (fst p))"
    using a by (simp add: fcitx_keysym_from_string_def key_tables_def values_length)
  moreover have "modifier_free (bytes (keyNameStrings ! snd p))"
    using names_plain a by (intro plain_name_free [of "CHR 0x00" "CHR 0x00"]) (simp add: list_all_length names_length)
  ultimately show ?thesis using to by blast
qed

text \<open>C10: With the tables of \<open>keynametable.h\<close>, each key symbol that has an entry has a name from which it is
  read back; and a key with such a symbol, other than \<open>None\<close> and the left tab, and a state of Control, Alt,
  Shift and Super is read back from its textual form.\<close>

theorem key_string_roundtrip:
  assumes "sym key \<in> fst ` set (keyNameOffsetByValue key_tables)"
  shows "(\<exists>n. fcitx_keysym_to_string key_tables (sym key) = Some n \<and>
      fcitx_keysym_from_string key_tables n = Some (sym key)) \<and>
    (state key AND NOT (FcitxKeyState_Ctrl_Alt_Shift OR FcitxKeyState_Super) = 0 \<and>
     sym key \<noteq> FcitxKey_None \<and> sym key \<noteq> FcitxKey_ISO_Left_Tab \<longrightarrow>
      (\<exists>s. fcitx_key_to_string key_tables key = Some s \<and> fcitx_key_parse key_tables s = Some key))"
proof -
  obtain p where p: "p \<in> set keyOffsets" "sym key = word_of_nat (fst p)"
    using assms by (auto simp: key_tables_def)
  note n = table_names [OF p(1), folded p(2)]
  show ?thesis using n key_parse_to_string [of key_tables key "bytes (keyNameStrings ! snd p)"] by auto
qed

theorem key_string_roundtrip_witness:
  "\<exists>s. fcitx_key_to_string key_tables \<lparr>sym = 0xff0d, state = 12\<rparr> = Some s \<and>
       fcitx_key_parse key_tables s = Some \<lparr>sym = 0xff0d, state = 12\<rparr>"
proof -
  have "(0xff0d, 1041) \<in> set keyNameOffsetByValue_7" by (simp add: keyNameOffsetByValue_7_def)
  then have "0xff0d \<in> fst ` set (keyNameOffsetByValue key_tables)"
    by (force simp: key_tables_def keyOffsets_def image_image)
  then show ?thesis using key_string_roundtrip [of "\<lparr>sym = 0xff0d, state = 12\<rparr>"] by simp
qed

end
