(* ===== verification/Library.thy ===== *)
theory Library
  imports StringUtils
begin

text \<open>
  Shared libraries, \<open>src/lib/fcitx-utils/library.c\<close>: opening and closing them, their symbols, and the
  search of one that is not open for the data behind a magic string.  The dynamic loader and the files
  are arguments; a pointer to data is the bytes that can be read from it, and \<open>None\<close> is a crash.
\<close>

section \<open>The loader\<close>

record 'h library =
  lib_path :: "cstr option"
  errorString :: "cstr option"
  handle :: "'h option"

datatype open_flag = RTLD_NOW | RTLD_LAZY | RTLD_NODELETE | RTLD_GLOBAL

text \<open>What the loader answers, with the text of \<open>dlerror\<close> for a failure.\<close>

record 'h loader =
  dlopen :: "cstr option \<Rightarrow> open_flag set \<Rightarrow> cstr + 'h"
  dlclose :: "'h \<Rightarrow> cstr option"
  dlsym :: "'h \<Rightarrow> cstr \<Rightarrow> cstr + byte list"

definition FLLH_ResolveAllSymbolsHint :: u32 where
  "FLLH_ResolveAllSymbolsHint = 1"

definition FLLH_PreventUnloadHint :: u32 where
  "FLLH_PreventUnloadHint = 2"

definition FLLH_ExportExternalSymbolsHint :: u32 where
  "FLLH_ExportExternalSymbolsHint = 4"

definition hint_has :: "u32 \<Rightarrow> u32 \<Rightarrow> bool" where
  "hint_has hint f \<longleftrightarrow> and hint f \<noteq> 0"

definition fcitx_library_new :: "cstr option \<Rightarrow> 'h library" where
  "fcitx_library_new path = \<lparr>lib_path = path, errorString = None, handle = None\<rparr>"

definition load_flags :: "u32 \<Rightarrow> open_flag set" where
  "load_flags hint =
     {if hint_has hint FLLH_ResolveAllSymbolsHint then RTLD_NOW else RTLD_LAZY} \<union>
     (if hint_has hint FLLH_PreventUnloadHint then {RTLD_NODELETE} else {}) \<union>
     (if hint_has hint FLLH_ExportExternalSymbolsHint then {RTLD_GLOBAL} else {})"

definition fcitx_library_load :: "'h loader \<Rightarrow> 'h library \<Rightarrow> u32 \<Rightarrow> bool \<times> 'h library" where
  "fcitx_library_load dl lib hint =
     (case dlopen dl (lib_path lib) (load_flags hint) of
        Inl err \<Rightarrow> (False, lib\<lparr>handle := None, errorString := Some err\<rparr>)
      | Inr h \<Rightarrow> (True, lib\<lparr>handle := Some h\<rparr>))"

definition fcitx_library_unload :: "'h loader \<Rightarrow> 'h library \<Rightarrow> bool \<times> 'h library" where
  "fcitx_library_unload dl lib =
     (case handle lib of
        None \<Rightarrow> (False, lib)
      | Some h \<Rightarrow>
          (case dlclose dl h of
             Some err \<Rightarrow> (False, lib\<lparr>errorString := Some err\<rparr>)
           | None \<Rightarrow> (True, lib\<lparr>handle := None\<rparr>)))"

definition fcitx_library_resolve :: "'h loader \<Rightarrow> 'h library \<Rightarrow> cstr \<Rightarrow> byte list option \<times> 'h library" where
  "fcitx_library_resolve dl lib symbol =
     (case handle lib of
        None \<Rightarrow> (None, lib)
      | Some h \<Rightarrow>
          (case dlsym dl h symbol of
             Inl err \<Rightarrow> (None, lib\<lparr>errorString := Some err\<rparr>)
           | Inr p \<Rightarrow> (Some p, lib)))"

definition fcitx_library_error :: "'h library \<Rightarrow> cstr option" where
  "fcitx_library_error lib = errorString lib"

section \<open>Data in a library\<close>

text \<open>
  What happens to a file: it cannot be opened or examined; it is mapped; mapping fails, which is an address
  that cannot be read, not a NULL; or it is NULL, and the file is read into memory, if there is some and
  all of it can be read.
\<close>

datatype opened =
    OpenError cstr
  | StatError cstr
  | Mapped "byte list"
  | MapFailed nat
  | MappedNull "byte list option"

text \<open>What the parser gets: the bytes from a place in the file, or an address near zero.\<close>

datatype parsed = FromFile "byte list" | NearNull nat

definition found_at :: "byte list \<Rightarrow> byte list \<Rightarrow> nat option \<Rightarrow> parsed" where
  "found_at data magic pos =
     (case pos of Some p \<Rightarrow> FromFile (drop (p + length magic) data) | None \<Rightarrow> NearNull (length magic))"

definition fcitx_library_find_data ::
  "'h loader \<Rightarrow> (cstr option \<Rightarrow> opened) \<Rightarrow> 'h library \<Rightarrow> cstr \<Rightarrow> byte list \<Rightarrow>
     (bool \<times> parsed option \<times> 'h library) option" where
  "fcitx_library_find_data dl files lib slug magic =
     (if handle lib \<noteq> None then
        (case fcitx_library_resolve dl lib slug of
           (None, lib) \<Rightarrow> Some (False, None, lib)
         | (Some data, lib) \<Rightarrow>
             if length data < length magic then None
             else if take (length magic) data \<noteq> magic then Some (False, None, lib)
             else Some (True, Some (FromFile (drop (length magic) data)), lib))
      else
        (case files (lib_path lib) of
           OpenError err \<Rightarrow> Some (False, None, lib\<lparr>errorString := Some err\<rparr>)
         | StatError err \<Rightarrow> Some (False, None, lib\<lparr>errorString := Some err\<rparr>)
         | Mapped data \<Rightarrow>
             Some (True, Some (found_at data magic (fcitx_utils_backward_search data magic 0)), lib)
         | MapFailed len \<Rightarrow>
             if length magic > len then Some (True, Some (NearNull (length magic)), lib) else None
         | MappedNull None \<Rightarrow> Some (False, None, lib)
         | MappedNull (Some data) \<Rightarrow>
             Some (True, Some (found_at data magic (fcitx_utils_backward_search data magic 0)), lib)))"

section \<open>Properties\<close>

text \<open>The error is kept exactly when the loader refuses, and a library that was loaded can be unloaded.\<close>

lemma load_result:
  "fcitx_library_load dl lib hint = (ok, lib') \<Longrightarrow>
   ok = (handle lib' \<noteq> None) \<and> lib_path lib' = lib_path lib \<and> (ok \<longrightarrow> errorString lib' = errorString lib)"
  by (auto simp: fcitx_library_load_def split: sum.splits)

lemma unload_result:
  "fcitx_library_unload dl lib = (ok, lib') \<Longrightarrow>
   ok = (\<exists>h. handle lib = Some h \<and> dlclose dl h = None) \<and> handle lib' = (if ok then None else handle lib)"
  by (auto simp: fcitx_library_unload_def split: option.splits)

lemma search_from_start:
  assumes "magic \<noteq> []"
  shows "fcitx_utils_backward_search data magic 0 = (if take (length magic) data = magic then Some 0 else None)"
proof -
  have "(GREATEST i. i \<le> 0 \<and> take (length magic) (drop i data) = magic) = (0 :: nat)"
    if "take (length magic) data = magic"
    using that by (intro Greatest_equality) auto
  then show ?thesis using backward_search[OF assms, of 0 data] by (simp del: le_zero_eq) simp
qed

text \<open>C34: The search of a file for the data behind a magic string, which starts at the beginning of
  the file and goes backwards, finds it only there; with any other file it reports success too, and
  gives the parser an address as many bytes above NULL as the magic string has.\<close>

theorem find_data_only_at_start:
  assumes "handle lib = None" and "files (lib_path lib) = Mapped data" and "magic \<noteq> []"
  shows "fcitx_library_find_data dl files lib slug magic =
    Some (True, Some (if take (length magic) data = magic then FromFile (drop (length magic) data)
                      else NearNull (length magic)), lib)"
  using assms by (simp add: fcitx_library_find_data_def search_from_start found_at_def)

theorem find_data_only_at_start_witness:
  "fcitx_library_find_data
     \<lparr>dlopen = (\<lambda>p f. Inr ()), dlclose = (\<lambda>h. None), dlsym = (\<lambda>h s. Inl [])\<rparr> (\<lambda>p. Mapped [7, 1, 2, 3])
     (fcitx_library_new (Some [97])) [98] [1, 2] =
   Some (True, Some (NearNull 2), fcitx_library_new (Some [97]))"
  using find_data_only_at_start[of "fcitx_library_new (Some [97])" "\<lambda>p. Mapped [7, 1, 2, 3]" "[7, 1, 2, 3]" "[1, 2]"
      "\<lparr>dlopen = (\<lambda>p f. Inr ()), dlclose = (\<lambda>h. None), dlsym = (\<lambda>h s. Inl [])\<rparr>" "[98]"]
  by (simp add: fcitx_library_new_def)

text \<open>A file that is empty cannot be mapped, and is searched all the same.\<close>

lemma find_data_empty_file:
  assumes "handle lib = None" and "files (lib_path lib) = MapFailed 0" and "magic \<noteq> []"
  shows "fcitx_library_find_data dl files lib slug magic = Some (True, Some (NearNull (length magic)), lib)"
  using assms by (simp add: fcitx_library_find_data_def)

end
