(* ===== verification/Fs.thy ===== *)
theory Fs
  imports CString
begin

text \<open>
  \<open>src/lib/fcitx-utils/fs.c\<close>: cleaning a path and creating directories.  The path and the buffer of
  \<open>fcitx_utils_clean_path\<close> lie in one memory, at the addresses \<open>p\<close> and \<open>b\<close>, because a caller passes
  the same pointer for both; a function is \<open>None\<close> when it leaves the memory.  Paths are shorter than
  \<open>2 ^ 31\<close>, so the \<open>int\<close> index of the backward scan does not wrap around.
\<close>

definition SLASH :: byte where "SLASH = 0x2F"
definition DOT :: byte where "DOT = 0x2E"

section \<open>Cleaning a path\<close>

definition peek :: "byte list \<Rightarrow> nat \<Rightarrow> byte option" where
  "peek mem a = (if a < length mem then Some (mem ! a) else None)"

definition poke :: "byte list \<Rightarrow> nat \<Rightarrow> byte \<Rightarrow> byte list option" where
  "poke mem a v = (if a < length mem then Some (mem[a := v]) else None)"

lemma poke_length: "poke mem a v = Some mem' \<Longrightarrow> length mem' = length mem"
  by (auto simp: poke_def split: if_splits)

lemma peek_bound: "peek mem a = Some c \<Longrightarrow> a < length mem"
  by (simp add: peek_def split: if_splits)

text \<open>The first group of slashes.\<close>

function clean_root :: "byte list \<Rightarrow> nat \<Rightarrow> nat \<Rightarrow> nat \<Rightarrow> (byte list \<times> nat) option" where
  "clean_root mem p b i =
     (case peek mem (p + i) of
        None \<Rightarrow> None
      | Some c \<Rightarrow>
          if c = SLASH
          then (case poke mem (b + i) c of None \<Rightarrow> None | Some mem' \<Rightarrow> clean_root mem' p b (i + 1))
          else Some (mem, i))"
  by pat_completeness auto
termination
  by (relation "measure (\<lambda>(mem, p, b, i). length mem - (p + i))") (auto dest!: peek_bound poke_length)

text \<open>One component, with the number of its dots.\<close>

function clean_copy ::
  "byte list \<Rightarrow> nat \<Rightarrow> nat \<Rightarrow> nat \<Rightarrow> nat \<Rightarrow> nat \<Rightarrow> (byte list \<times> nat \<times> nat \<times> nat) option" where
  "clean_copy mem p b i j dots =
     (case peek mem (p + i) of
        None \<Rightarrow> None
      | Some c \<Rightarrow>
          if c \<noteq> 0 \<and> c \<noteq> SLASH
          then (case poke mem (b + j) c of
                  None \<Rightarrow> None
                | Some mem' \<Rightarrow> clean_copy mem' p b (i + 1) (j + 1) (if c = DOT then dots + 1 else dots))
          else Some (mem, i, j, dots))"
  by pat_completeness auto
termination
  by (relation "measure (\<lambda>(mem, p, b, i, j, d). length mem - (p + i))") (auto dest!: peek_bound poke_length)

text \<open>The scan for the slash before: \<open>n\<close> is the index \<open>k\<close> plus one.\<close>

fun clean_back :: "byte list \<Rightarrow> nat \<Rightarrow> nat \<Rightarrow> nat option option" where
  "clean_back mem b 0 = Some None"
| "clean_back mem b (Suc k) = do {
     c \<leftarrow> peek mem (b + k);
     if c = SLASH then Some (Some k) else clean_back mem b k }"

function clean_skip :: "byte list \<Rightarrow> nat \<Rightarrow> nat \<Rightarrow> nat option" where
  "clean_skip mem p i =
     (case peek mem (p + i) of
        None \<Rightarrow> None
      | Some c \<Rightarrow> if c = SLASH then clean_skip mem p (i + 1) else Some i)"
  by pat_completeness auto
termination
  by (relation "measure (\<lambda>(mem, p, i). length mem - (p + i))") (auto dest!: peek_bound poke_length)

declare clean_root.simps [simp del] clean_copy.simps [simp del] clean_skip.simps [simp del]

text \<open>
  What is done with a component of \<open>len\<close> bytes that starts at \<open>start\<close> in the buffer and ends at \<open>j\<close>:
  the memory, the new end, whether it was eaten, and the level.
\<close>

definition clean_component ::
  "byte list \<Rightarrow> nat \<Rightarrow> nat \<Rightarrow> nat \<Rightarrow> nat \<Rightarrow> nat \<Rightarrow> nat \<Rightarrow> (byte list \<times> nat \<times> bool \<times> nat) option" where
  "clean_component mem b start j len dots levels =
     (if dots = len
      then if dots = 1 then do { mem \<leftarrow> poke mem (b + start) 0; Some (mem, start, True, levels) }
        else if dots = 2 then
          if levels > 0 then do {
            k \<leftarrow> clean_back mem b (start - 1);
            case k of
              None \<Rightarrow> Some (mem, j, False, levels)
            | Some k \<Rightarrow> do { mem \<leftarrow> poke mem (b + (k + 1)) 0; Some (mem, k + 1, True, levels) } }
          else Some (mem, j, False, levels)
        else Some (mem, j, False, levels + 1)
      else Some (mem, j, False, levels + 1))"

lemma clean_copy_grows:
  "clean_copy mem p b i j dots = Some (mem', i', j', dots') \<Longrightarrow>
   length mem' = length mem \<and> i \<le> i' \<and> p + i' < length mem \<and> mem' ! (p + i') \<in> {0, SLASH}"
proof (induction mem p b i j dots rule: clean_copy.induct)
  case (1 mem p b i j dots)
  obtain c where c: "peek mem (p + i) = Some c"
    using 1(2) by (subst (asm) clean_copy.simps) (auto split: option.splits)
  show ?case
  proof (cases "c \<noteq> 0 \<and> c \<noteq> SLASH")
    case True
    then obtain m where m: "poke mem (b + j) c = Some m"
        "clean_copy m p b (i + 1) (j + 1) (if c = DOT then dots + 1 else dots) = Some (mem', i', j', dots')"
      using 1(2) c by (subst (asm) clean_copy.simps) (auto split: option.splits)
    then show ?thesis using 1(1)[OF c True m] poke_length[OF m(1)] by simp
  next
    case False
    then show ?thesis
      using 1(2) c peek_bound[OF c] by (subst (asm) clean_copy.simps) (auto simp: peek_def)
  qed
qed

lemma poke_zero: "poke mem a 0 = Some mem' \<Longrightarrow> \<exists>x. mem' = mem[x := 0]"
  by (metis option.discI option.inject poke_def)

lemma clean_component_mem:
  "clean_component mem b start j len dots levels = Some (mem', j', eaten, levels') \<Longrightarrow>
   mem' = mem \<or> (\<exists>x. mem' = mem[x := 0])"
  by (auto simp: clean_component_def bind_eq_Some_conv dest: poke_zero split: if_splits option.splits)

lemma clean_component_length:
  assumes "clean_component mem b start j len dots levels = Some (mem', j', eaten, levels')"
  shows "length mem' = length mem" and "a < length mem \<Longrightarrow> mem' ! a \<in> {0, mem ! a}"
proof -
  have u: "mem[x := 0] ! a \<in> {0, mem ! a}" if "a < length mem" for x
    by (cases "x = a") (use that in auto)
  show "length mem' = length mem" and "a < length mem \<Longrightarrow> mem' ! a \<in> {0, mem ! a}"
    using clean_component_mem[OF assms] u by auto
qed

lemma clean_skip_grows: "clean_skip mem p i = Some i' \<Longrightarrow> i \<le> i'"
proof (induction mem p i rule: clean_skip.induct)
  case (1 mem p i)
  show ?case
    using 1(2) by (subst (asm) clean_skip.simps) (auto split: option.splits if_splits dest: 1(1))
qed

lemma clean_skip_slash: "peek mem (p + i) = Some SLASH \<Longrightarrow> clean_skip mem p i = Some i' \<Longrightarrow> i < i'"
  by (subst (asm) clean_skip.simps) (auto dest: clean_skip_grows)

lemma clean_loop_step:
  assumes "clean_copy mem p b i j 0 = Some (mem1, i1, j1, dots)"
    and "clean_component mem1 b j j1 (i1 - i) dots levels = Some (mem2, j2, eaten, levels2)"
    and "peek mem2 (p + i1) = Some c" and "c \<noteq> 0" and "clean_skip mem2 p i1 = Some i2"
  shows "length mem2 = length mem" and "i < i2" and "p + i < length mem"
proof -
  have g: "length mem1 = length mem" "i \<le> i1" "p + i1 < length mem" "mem1 ! (p + i1) \<in> {0, SLASH}"
    using clean_copy_grows[OF assms(1)] by auto
  have m: "length mem2 = length mem1" "mem2 ! (p + i1) \<in> {0, mem1 ! (p + i1)}"
    using clean_component_length[OF assms(2)] g by auto
  have "c = SLASH" using g m assms(3,4) by (auto simp: peek_def split: if_splits)
  then have "i1 < i2" using clean_skip_slash assms(3,5) by blast
  then show "length mem2 = length mem" "i < i2" "p + i < length mem" using g m by auto
qed

text \<open>The loop over the components; every round ends behind a slash, or at the end.\<close>

function clean_loop ::
  "byte list \<Rightarrow> nat \<Rightarrow> nat \<Rightarrow> nat \<Rightarrow> nat \<Rightarrow> nat \<Rightarrow> (nat \<times> byte list) option" where
  "clean_loop mem p b i j levels =
     (case clean_copy mem p b i j 0 of
        None \<Rightarrow> None
      | Some (mem1, i1, j1, dots) \<Rightarrow>
      (case clean_component mem1 b j j1 (i1 - i) dots levels of
        None \<Rightarrow> None
      | Some (mem2, j2, eaten, levels2) \<Rightarrow>
      (case peek mem2 (p + i1) of
        None \<Rightarrow> None
      | Some c \<Rightarrow>
          if c = 0 then map_option (\<lambda>mem. (j2, mem)) (poke mem2 (b + j2) 0)
          else
      (case clean_skip mem2 p i1 of
        None \<Rightarrow> None
      | Some i2 \<Rightarrow>
          if eaten then clean_loop mem2 p b i2 j2 levels2
          else
      (case poke mem2 (b + j2) SLASH of
        None \<Rightarrow> None
      | Some mem3 \<Rightarrow> clean_loop mem3 p b i2 (j2 + 1) levels2)))))"
  by pat_completeness auto
termination
proof (relation "measure (\<lambda>(mem, p, b, i, j, l). length mem - (p + i))", goal_cases)
  case 1
  show ?case by simp
next
  case (2 mem p b i j l x mem1 y i1 z j1 dots x2 mem2 y2 j2 z2 eaten l2 c i2)
  then show ?case
    using clean_loop_step[of mem p b i j mem1 i1 j1 dots l mem2 j2 eaten l2 c i2] by auto
next
  case (3 mem p b i j l x mem1 y i1 z j1 dots x2 mem2 y2 j2 z2 eaten l2 c i2 mem3)
  then show ?case
    using clean_loop_step[of mem p b i j mem1 i1 j1 dots l mem2 j2 eaten l2 c i2]
      poke_length[of mem2 "b + j2" SLASH mem3] by auto
qed

declare clean_loop.simps [simp del]

definition fcitx_utils_clean_path :: "byte list \<Rightarrow> nat \<Rightarrow> nat \<Rightarrow> (nat \<times> byte list) option" where
  "fcitx_utils_clean_path mem p b = do {
     c \<leftarrow> peek mem p;
     if c = 0 then Some (0, mem)
     else do {
       (mem, i) \<leftarrow> clean_root mem p b 0;
       (j, mem) \<leftarrow> clean_loop mem p b i i 0;
       mem \<leftarrow> poke mem (b + j) 0;
       Some (j, mem) } }"

section \<open>What cleaning does to the components\<close>

text \<open>
  The components of a path behind its first slashes; a path that ends in a slash has an empty last
  component.  The specification keeps the number of slashes at the start, the components kept so far,
  and the number of names met.
\<close>

function components :: "cstr \<Rightarrow> cstr list" where
  "components s =
     (let c = takeWhile (\<lambda>x. x \<noteq> SLASH) s; t = dropWhile (\<lambda>x. x \<noteq> SLASH) s in
      if t = [] then [c] else c # components (dropWhile (\<lambda>x. x = SLASH) t))"
  by pat_completeness auto
termination
proof (relation "measure length", goal_cases)
  case (2 s c t)
  then have "hd t = SLASH" using hd_dropWhile[of "\<lambda>x. x \<noteq> SLASH" s] by simp
  then obtain u where "t = SLASH # u" using 2 by (metis list.exhaust_sel)
  then have "length (dropWhile (\<lambda>x. x = SLASH) t) < length t"
    by (simp add: le_imp_less_Suc length_dropWhile_le)
  also have "length t \<le> length s" unfolding 2(2) by (rule length_dropWhile_le)
  finally show ?case by simp
qed simp

declare components.simps [simp del]

definition render :: "nat \<Rightarrow> cstr list \<Rightarrow> cstr" where
  "render root st = replicate root SLASH @ concat (map (\<lambda>c. c @ [SLASH]) st)"

text \<open>The step back of a \<open>..\<close>: over the last component, or over one of several slashes at the start.\<close>

definition step_back :: "nat \<Rightarrow> cstr list \<Rightarrow> (nat \<times> cstr list) option" where
  "step_back root st =
     (if st \<noteq> [] then (if root > 0 \<or> length st > 1 then Some (root, butlast st) else None)
      else if root > 1 then Some (root - 1, []) else None)"

definition clean_one :: "cstr \<Rightarrow> nat \<Rightarrow> cstr list \<Rightarrow> nat \<Rightarrow> (nat \<times> cstr list) option \<times> nat" where
  "clean_one c root st levels =
     (if c = [DOT] then (Some (root, st), levels)
      else if c = [DOT, DOT] then (if levels > 0 then step_back root st else None, levels)
      else (None, levels + 1))"

fun clean_spec :: "cstr list \<Rightarrow> nat \<Rightarrow> cstr list \<Rightarrow> nat \<Rightarrow> cstr" where
  "clean_spec [] root st levels = render root st"
| "clean_spec (c # cs) root st levels =
     (case clean_one c root st levels of
        (Some (root, st), levels) \<Rightarrow> clean_spec cs root st levels
      | (None, levels) \<Rightarrow>
          if cs = [] then render root st @ c else clean_spec cs root (st @ [c]) levels)"

definition cleaned :: "cstr \<Rightarrow> cstr" where
  "cleaned s = clean_spec (components (dropWhile (\<lambda>x. x = SLASH) s))
     (length (takeWhile (\<lambda>x. x = SLASH) s)) [] 0"

section \<open>The memory while a path is cleaned\<close>

text \<open>
  The rest of the path \<open>s\<close> from \<open>i\<close> on is still in place, the buffer holds \<open>out\<close>, and nothing else
  than the buffer has changed.  Path and buffer are apart, or the same.
\<close>

definition layout :: "byte list \<Rightarrow> nat \<Rightarrow> nat \<Rightarrow> cstr \<Rightarrow> bool" where
  "layout mem p b s \<longleftrightarrow> p + length s < length mem \<and> b + length s < length mem \<and>
     (b = p \<or> p + length s < b \<or> b + length s < p)"

definition cleaning :: "byte list \<Rightarrow> nat \<Rightarrow> nat \<Rightarrow> cstr \<Rightarrow> byte list \<Rightarrow> nat \<Rightarrow> cstr \<Rightarrow> bool" where
  "cleaning mem0 p b s mem i out \<longleftrightarrow> length mem = length mem0 \<and> i \<le> length s \<and> length out \<le> i \<and>
     (\<forall>x < length out. mem ! (b + x) = out ! x) \<and>
     (\<forall>x. i \<le> x \<and> x \<le> length s \<longrightarrow> mem ! (p + x) = (s @ [0]) ! x) \<and>
     (\<forall>a. a < b \<or> b + length s < a \<longrightarrow> mem ! a = mem0 ! a)"

lemma cleaningD:
  assumes "cleaning mem0 p b s mem i out"
  shows "length mem = length mem0" and "i \<le> length s" and "length out \<le> i"
    and "x < length out \<Longrightarrow> mem ! (b + x) = out ! x"
    and "i \<le> x \<Longrightarrow> x \<le> length s \<Longrightarrow> mem ! (p + x) = (s @ [0]) ! x"
    and "a < b \<or> b + length s < a \<Longrightarrow> mem ! a = mem0 ! a"
  using assms unfolding cleaning_def by blast+

lemma layoutD:
  assumes "layout mem0 p b s"
  shows "x \<le> length s \<Longrightarrow> p + x < length mem0" and "x \<le> length s \<Longrightarrow> b + x < length mem0"
    and "x \<le> length s \<Longrightarrow> y \<le> length s \<Longrightarrow> b + x = p + y \<Longrightarrow> x = y"
  using assms unfolding layout_def by arith+

lemma cleaning_peek:
  assumes "layout mem0 p b s" and "cleaning mem0 p b s mem i out" and "i \<le> x" and "x \<le> length s"
  shows "peek mem (p + x) = Some ((s @ [0]) ! x)"
  unfolding peek_def cleaningD(5)[OF assms(2-4)] cleaningD(1)[OF assms(2)]
  using layoutD(1)[OF assms(1,4)] by simp

lemma cleaning_back:
  assumes "layout mem0 p b s" and "cleaning mem0 p b s mem i out" and "x < length out"
  shows "peek mem (b + x) = Some (out ! x)"
  unfolding peek_def cleaningD(4)[OF assms(2,3)] cleaningD(1)[OF assms(2)]
  using layoutD(2)[OF assms(1), of x] cleaningD(2,3)[OF assms(2)] assms(3) by simp

text \<open>A write at or before the end of the buffer, and before the rest of the path.\<close>

lemma cleaning_poke:
  assumes l: "layout mem0 p b s" and c: "cleaning mem0 p b s mem i out"
    and "n \<le> length out" and "i \<le> i'" and "i' \<le> length s" and "n < i' \<or> i' = length s \<and> v = 0"
  shows "poke mem (b + n) v = Some (mem[b + n := v])"
    and "cleaning mem0 p b s (mem[b + n := v]) i' (take n out)"
    and "n < i' \<Longrightarrow> cleaning mem0 p b s (mem[b + n := v]) i' (take n out @ [v])"
proof -
  let ?mem = "mem[b + n := v]"
  note c' = cleaningD[OF c]
  have n: "n \<le> length s" using assms(3-5) c'(2,3) by linarith
  then have bn: "b + n < length mem" using layoutD(2)[OF l n] c'(1) by simp
  then show "poke mem (b + n) v = Some ?mem" by (simp add: poke_def)
  have path: "?mem ! (p + x) = (s @ [0]) ! x" if x: "i' \<le> x" "x \<le> length s" for x
  proof (cases "b + n = p + x")
    case True
    have "n = x" using layoutD(3)[OF l n x(2) True] .
    then have "x = length s" "v = 0" using assms(6) x by auto
    then have "(s @ [0]) ! x = v" by simp
    moreover have "?mem ! (b + n) = v" using bn by simp
    ultimately show ?thesis using True by metis
  next
    case False
    then have "?mem ! (p + x) = mem ! (p + x)" by (rule nth_list_update_neq)
    then show ?thesis using c'(5)[OF _ x(2)] x(1) assms(4) by (metis le_trans)
  qed
  have frame: "?mem ! a = mem0 ! a" if "a < b \<or> b + length s < a" for a
  proof -
    have "b + n \<noteq> a" using that n by linarith
    then show ?thesis using c'(6)[OF that] by simp
  qed
  have buf: "?mem ! (b + x) = out ! x" if "x < n" for x
    using that c'(4)[of x] assms(3) by simp
  show "cleaning mem0 p b s ?mem i' (take n out)"
    unfolding cleaning_def
    using path frame buf assms(3-6) c'(1,2,3) by (intro conjI allI impI) auto
  show "cleaning mem0 p b s ?mem i' (take n out @ [v])" if "n < i'"
    unfolding cleaning_def
    using path frame buf bn that assms(3-6) c'(1)
    by (intro conjI allI impI) (auto simp: nth_append less_Suc_eq)
qed

lemma cleaning_skip: "cleaning mem0 p b s mem i out \<Longrightarrow> i \<le> i' \<Longrightarrow> i' \<le> length s \<Longrightarrow>
  cleaning mem0 p b s mem i' out"
  by (simp add: cleaning_def)

section \<open>The loops\<close>

lemma path_byte:
  assumes "drop i s = x # t"
  shows "i < length s \<and> (s @ [0]) ! i = x \<and> drop (Suc i) s = t"
proof -
  have i: "i < length s" using assms by (cases "i < length s") auto
  then have "drop i s = s ! i # drop (Suc i) s" by (simp add: Cons_nth_drop_Suc)
  then show ?thesis using i assms by (simp add: nth_append)
qed

lemma clean_root_run:
  assumes l: "layout mem0 p b s"
  shows "cleaning mem0 p b s mem i (replicate i SLASH) \<Longrightarrow> drop i s = replicate n SLASH @ t \<Longrightarrow>
    t = [] \<or> hd t \<noteq> SLASH \<Longrightarrow> c_string s \<Longrightarrow>
    \<exists>mem'. clean_root mem p b i = Some (mem', i + n) \<and> cleaning mem0 p b s mem' (i + n) (replicate (i + n) SLASH)"
proof (induction n arbitrary: mem i)
  case 0
  have i: "i \<le> length s" using cleaningD(2)[OF 0(1)] .
  have pk: "peek mem (p + i) = Some ((s @ [0]) ! i)" by (rule cleaning_peek[OF l 0(1) order.refl i])
  have "(s @ [0]) ! i \<noteq> SLASH"
  proof (cases t)
    case Nil
    then have "i = length s" using 0(2) i by simp
    then show ?thesis by (simp add: SLASH_def)
  next
    case (Cons x u)
    then show ?thesis using 0(2,3) path_byte[of i s x u] by simp
  qed
  then show ?case using pk 0(1) by (subst clean_root.simps) simp
next
  case (Suc n)
  have b: "i < length s" "(s @ [0]) ! i = SLASH" "drop (Suc i) s = replicate n SLASH @ t"
    using path_byte[of i s SLASH "replicate n SLASH @ t"] Suc(3) by auto
  have pk: "peek mem (p + i) = Some SLASH"
    using cleaning_peek[OF l Suc(2) order.refl, of] b by simp
  have w: "poke mem (b + i) SLASH = Some (mem[b + i := SLASH])"
      "cleaning mem0 p b s (mem[b + i := SLASH]) (Suc i) (replicate (Suc i) SLASH)"
    using cleaning_poke[OF l Suc(2), of i "Suc i" SLASH] b by (simp_all add: replicate_append_same)
  show ?case
    using Suc.IH[OF w(2) b(3) Suc(4,5)] pk w(1) by (subst clean_root.simps) simp
qed

lemma clean_copy_run:
  assumes l: "layout mem0 p b s"
  shows "cleaning mem0 p b s mem i out \<Longrightarrow> drop i s = c @ t \<Longrightarrow> SLASH \<notin> set c \<Longrightarrow>
    t = [] \<or> hd t = SLASH \<Longrightarrow> c_string s \<Longrightarrow> j = length out \<Longrightarrow>
    \<exists>mem'. clean_copy mem p b i j dots =
      Some (mem', i + length c, length (out @ c), dots + count_list c DOT) \<and>
      cleaning mem0 p b s mem' (i + length c) (out @ c)"
proof (induction c arbitrary: mem i out j dots)
  case Nil
  have i: "i \<le> length s" using cleaningD(2)[OF Nil(1)] .
  have pk: "peek mem (p + i) = Some ((s @ [0]) ! i)" by (rule cleaning_peek[OF l Nil(1) order.refl i])
  have "(s @ [0]) ! i = 0 \<or> (s @ [0]) ! i = SLASH"
  proof (cases t)
    case Nil
    then have "i = length s" using \<open>drop i s = [] @ t\<close> i by simp
    then show ?thesis by simp
  next
    case (Cons x u)
    then show ?thesis using Nil(2,4) path_byte[of i s x u] by simp
  qed
  then show ?case using pk Nil(1,6) by (subst clean_copy.simps) auto
next
  case (Cons x c)
  have b: "i < length s" "(s @ [0]) ! i = x" "drop (Suc i) s = c @ t"
    using path_byte[of i s x "c @ t"] Cons(3) by auto
  have x: "x \<noteq> SLASH" "x \<noteq> 0"
    using Cons(4,6) b(1,2) by (auto simp: c_string_def nth_append dest: nth_mem)
  have pk: "peek mem (p + i) = Some x"
    using cleaning_peek[OF l Cons(2) order.refl] b by simp
  have o: "length out \<le> i" using cleaningD(3)[OF Cons(2)] .
  have w: "poke mem (b + j) x = Some (mem[b + j := x])"
      "cleaning mem0 p b s (mem[b + j := x]) (Suc i) (out @ [x])"
    using cleaning_poke[OF l Cons(2), of j "Suc i" x] b o Cons(7) by simp_all
  have sl: "SLASH \<notin> set c" using Cons(4) by simp
  show ?case
    using Cons.IH[OF w(2) b(3) sl Cons(5,6), of "Suc j" "if x = DOT then dots + 1 else dots"] pk w(1) x Cons(7)
    by (subst clean_copy.simps) auto
qed

lemma clean_skip_run:
  assumes l: "layout mem0 p b s" and c: "cleaning mem0 p b s mem i0 out"
  shows "i0 \<le> i \<Longrightarrow> drop i s = replicate n SLASH @ t \<Longrightarrow> t = [] \<or> hd t \<noteq> SLASH \<Longrightarrow> i \<le> length s \<Longrightarrow>
    clean_skip mem p i = Some (i + n)"
proof (induction n arbitrary: i)
  case 0
  have pk: "peek mem (p + i) = Some ((s @ [0]) ! i)" by (rule cleaning_peek[OF l c 0(1,4)])
  have "(s @ [0]) ! i \<noteq> SLASH"
  proof (cases t)
    case Nil
    then have "i = length s" using 0(2,4) by simp
    then show ?thesis by (simp add: SLASH_def)
  next
    case (Cons x u)
    then show ?thesis using 0(2,3) path_byte[of i s x u] by simp
  qed
  then show ?case using pk by (subst clean_skip.simps) simp
next
  case (Suc n)
  have b: "i < length s" "(s @ [0]) ! i = SLASH" "drop (Suc i) s = replicate n SLASH @ t"
    using path_byte[of i s SLASH "replicate n SLASH @ t"] Suc(3) by auto
  have pk: "peek mem (p + i) = Some SLASH" using cleaning_peek[OF l c Suc(2,5)] b by simp
  show ?case using Suc.IH[OF _ b(3) Suc(4)] Suc(2) pk b(1) by (subst clean_skip.simps) simp
qed

text \<open>The scan finds the last slash.\<close>

lemma clean_back_none:
  assumes l: "layout mem0 p b s" and c: "cleaning mem0 p b s mem i out"
  shows "take n out = u \<Longrightarrow> SLASH \<notin> set u \<Longrightarrow> n \<le> length out \<Longrightarrow> clean_back mem b n = Some None"
proof (induction n arbitrary: u)
  case (Suc n)
  have "peek mem (b + n) = Some (out ! n)" using cleaning_back[OF l c] Suc(4) by simp
  moreover have "u = take n out @ [out ! n]" using Suc(2,4) take_Suc_conv_app_nth[of n out] by simp
  ultimately show ?case using Suc.IH[of "take n out"] Suc(3,4) by auto
qed simp

lemma clean_back_some:
  assumes l: "layout mem0 p b s" and c: "cleaning mem0 p b s mem i out"
  shows "take n out = u @ SLASH # v \<Longrightarrow> SLASH \<notin> set v \<Longrightarrow> n \<le> length out \<Longrightarrow>
    clean_back mem b n = Some (Some (length u))"
proof (induction n arbitrary: v)
  case (Suc n)
  have pk: "peek mem (b + n) = Some (out ! n)" using cleaning_back[OF l c] Suc(4) by simp
  have e: "u @ SLASH # v = take n out @ [out ! n]"
    using Suc(2,4) take_Suc_conv_app_nth[of n out] by simp
  show ?case
  proof (cases v rule: rev_cases)
    case Nil
    then have "out ! n = SLASH" "u = take n out" using e by auto
    then show ?thesis using pk Suc(4) by simp
  next
    case (snoc w x)
    then have "out ! n = x" "take n out = u @ SLASH # w" using e by auto
    then show ?thesis using pk Suc.IH[of w] Suc(3,4) snoc by auto
  qed
qed simp

lemma count_dots:
  "count_list c DOT \<le> length c" "count_list c DOT = length c \<longleftrightarrow> set c \<subseteq> {DOT}"
proof -
  show "count_list c DOT \<le> length c" by (rule count_le_length)
  show "count_list c DOT = length c \<longleftrightarrow> set c \<subseteq> {DOT}"
  proof (induction c)
    case (Cons x c)
    then show ?case using count_le_length[of c DOT] by auto
  qed simp
qed

lemma all_dots: "set c \<subseteq> {x} \<Longrightarrow> c = replicate (length c) x"
  by (induction c) auto

lemma render_snoc: "render root (st @ [c]) = render root st @ c @ [SLASH]"
  by (simp add: render_def)

lemma render_split:
  "render root st = [] \<longleftrightarrow> root = 0 \<and> st = []"
  "render root st \<noteq> [] \<Longrightarrow> \<exists>u. render root st = u @ [SLASH]"
proof -
  show "render root st = [] \<longleftrightarrow> root = 0 \<and> st = []" by (auto simp: render_def)
  show "\<exists>u. render root st = u @ [SLASH]" if "render root st \<noteq> []"
  proof (cases st rule: rev_cases)
    case Nil
    then show ?thesis using that
      by (cases root) (simp_all add: render_def, metis replicate_append_same)
  next
    case (snoc ss x)
    then show ?thesis by (simp add: render_snoc)
  qed
qed

text \<open>What the scan finds behind a component that is kept.\<close>

lemma clean_back_render:
  assumes l: "layout mem0 p b s" and c: "cleaning mem0 p b s mem i (render root st @ c)"
    and st: "\<forall>x \<in> set st. SLASH \<notin> set x"
  shows "\<exists>k. clean_back mem b (length (render root st) - 1) = Some k \<and>
    (case step_back root st of
       None \<Rightarrow> k = None
     | Some (root', st') \<Rightarrow> \<exists>k'. k = Some k' \<and> k' + 1 = length (render root' st') \<and>
         length (render root' st') \<le> length (render root st) \<and>
         take (length (render root' st')) (render root st @ c) = render root' st')"
proof (cases st rule: rev_cases)
  case Nil
  show ?thesis
  proof (cases "root > 1")
    case True
    then have "root = Suc (Suc (root - 2))" by simp
    then obtain n where n: "root = Suc (Suc n)" ..
    have r1: "render (root - 1) [] = replicate n SLASH @ [SLASH]"
      unfolding render_def n by (simp add: replicate_append_same)
    have r: "render root st = replicate n SLASH @ [SLASH, SLASH]"
      unfolding render_def Nil n by (simp add: replicate_append_same replicate_app_Cons_same)
    have "clean_back mem b (length (render root st) - 1) = Some (Some (length (replicate n SLASH)))"
      by (rule clean_back_some[OF l c, of _ _ "[]"]) (simp_all add: r)
    then show ?thesis
      using True Nil r r1 by (simp add: step_back_def)
  next
    case False
    have "clean_back mem b (length (render root st) - 1) = Some None"
      by (rule clean_back_none[OF l c, of _ "[]"]) (use False in \<open>auto simp: Nil render_def\<close>)
    then show ?thesis using False Nil by (simp add: step_back_def)
  qed
next
  case (snoc ss x)
  have r: "render root st = render root ss @ x @ [SLASH]" by (simp add: snoc render_snoc)
  have x: "SLASH \<notin> set x" using st snoc by simp
  have t: "take (length (render root st) - 1) (render root st @ c) = render root ss @ x"
    by (simp add: r)
  show ?thesis
  proof (cases "render root ss = []")
    case True
    have "clean_back mem b (length (render root st) - 1) = Some None"
      by (rule clean_back_none[OF l c t]) (use True x in auto)
    moreover have "step_back root st = None" using True snoc by (simp add: step_back_def render_split(1))
    ultimately show ?thesis by simp
  next
    case False
    then obtain u where u: "render root ss = u @ [SLASH]" using render_split(2) by blast
    have "clean_back mem b (length (render root st) - 1) = Some (Some (length u))"
      by (rule clean_back_some[OF l c, of _ _ x]) (use t u x in auto)
    moreover have "step_back root st = Some (root, ss)"
      using False snoc by (auto simp: step_back_def render_split(1))
    ultimately show ?thesis using r u by simp
  qed
qed

lemma clean_component_run:
  assumes l: "layout mem0 p b s" and c: "cleaning mem0 p b s mem i (render root st @ c)"
    and st: "\<forall>x \<in> set st. SLASH \<notin> set x"
    and j: "j = length (render root st)" "j1 = length (render root st @ c)"
  shows "case clean_one c root st levels of
      (Some (root', st'), levels') \<Rightarrow>
        \<exists>mem'. clean_component mem b j j1 (length c) (count_list c DOT) levels =
          Some (mem', length (render root' st'), True, levels') \<and>
          cleaning mem0 p b s mem' i (render root' st')
    | (None, levels') \<Rightarrow>
        clean_component mem b j j1 (length c) (count_list c DOT) levels = Some (mem, j1, False, levels')"
proof -
  have i: "length (render root st @ c) \<le> i" "i \<le> length s" using cleaningD(2,3)[OF c] by auto
  have zero: "\<exists>mem'. poke mem (b + n) 0 = Some mem' \<and> cleaning mem0 p b s mem' i (take n (render root st @ c))"
    if "n \<le> length (render root st @ c)" "n < i" for n
    using cleaning_poke(1,2)[OF l c that(1) order.refl i(2), of 0] that(2) by blast
  have len: "length (render root st @ c) = length (render root st) + length c" by simp
  show ?thesis
  proof (cases "count_list c DOT = length c")
    case False
    then have "c \<noteq> [DOT]" "c \<noteq> [DOT, DOT]" by auto
    then show ?thesis using False by (simp add: clean_one_def clean_component_def)
  next
    case True
    then have "set c \<subseteq> {DOT}" by (simp only: count_dots(2))
    then have c': "c = replicate (length c) DOT" by (rule all_dots)
    consider "length c = 1" | "length c = 2" | "length c \<noteq> 1" "length c \<noteq> 2" by blast
    then show ?thesis
    proof cases
      case 1
      then have cd: "c = [DOT]" using c' by simp
      obtain mem' where "poke mem (b + j) 0 = Some mem'" "cleaning mem0 p b s mem' i (render root st)"
        using zero[of j] i(1) 1 j(1) by auto
      then show ?thesis using cd True j by (auto simp: clean_one_def clean_component_def)
    next
      case 2
      then have cd: "c = [DOT, DOT]" using c' by (simp add: numeral_2_eq_2)
      show ?thesis
      proof (cases "levels > 0")
        case False
        then show ?thesis using cd True by (simp add: clean_one_def clean_component_def)
      next
        case lv: True
        obtain k where k: "clean_back mem b (j - 1) = Some k"
          "case step_back root st of
             None \<Rightarrow> k = None
           | Some (root', st') \<Rightarrow> \<exists>k'. k = Some k' \<and> k' + 1 = length (render root' st') \<and>
               length (render root' st') \<le> length (render root st) \<and>
               take (length (render root' st')) (render root st @ c) = render root' st'"
          using clean_back_render[OF l c st] j(1) by blast
        show ?thesis
        proof (cases "step_back root st")
          case None
          then show ?thesis using k lv cd True by (simp add: clean_one_def clean_component_def)
        next
          case (Some r)
          obtain root' st' where r: "r = (root', st')" by (cases r)
          let ?n = "length (render root' st')"
          obtain k' where k': "k = Some k'" "k' + 1 = ?n" "?n \<le> length (render root st)"
              "take ?n (render root st @ c) = render root' st'"
            using k(2) Some r by auto
          obtain mem' where "poke mem (b + ?n) 0 = Some mem'" "cleaning mem0 p b s mem' i (render root' st')"
            using zero[of ?n] k'(3,4) i(1) 2 by auto
          then show ?thesis
            using Some r k(1) k'(1) lv cd True
            by (auto simp: clean_one_def clean_component_def simp flip: k'(2))
        qed
      qed
    next
      case 3
      then have "c \<noteq> [DOT]" "c \<noteq> [DOT, DOT]" by auto
      then show ?thesis using 3 True by (simp add: clean_one_def clean_component_def)
    qed
  qed
qed

section \<open>Cleaning refines its specification\<close>

lemma slash_split:
  obtains n t where "s = replicate n SLASH @ t" and "t = [] \<or> hd t \<noteq> SLASH"
    and "takeWhile (\<lambda>x. x = SLASH) s = replicate n SLASH" and "dropWhile (\<lambda>x. x = SLASH) s = t"
proof
  let ?u = "takeWhile (\<lambda>x. x = SLASH) s" and ?t = "dropWhile (\<lambda>x. x = SLASH) s"
  have "set ?u \<subseteq> {SLASH}" by (auto dest: set_takeWhileD)
  then have u: "?u = replicate (length ?u) SLASH" by (rule all_dots)
  then show "s = replicate (length ?u) SLASH @ ?t" by (metis takeWhile_dropWhile_id)
  show "?t = [] \<or> hd ?t \<noteq> SLASH" using hd_dropWhile[of "\<lambda>x. x = SLASH" s] by auto
  show "takeWhile (\<lambda>x. x = SLASH) s = replicate (length ?u) SLASH" by (rule u)
qed simp

lemma clean_one_slashes:
  "clean_one c root st levels = (Some (root', st'), levels') \<Longrightarrow> \<forall>x \<in> set st. SLASH \<notin> set x \<Longrightarrow>
   \<forall>x \<in> set st'. SLASH \<notin> set x"
  by (auto simp: clean_one_def step_back_def split: if_splits dest: in_set_butlastD)

lemma clean_loop_run:
  assumes l: "layout mem0 p b s" and cs: "c_string s"
  shows "cleaning mem0 p b s mem i (render root st) \<Longrightarrow> drop i s = t \<Longrightarrow>
    j = length (render root st) \<Longrightarrow> \<forall>x \<in> set st. SLASH \<notin> set x \<Longrightarrow>
    \<exists>mem'. clean_loop mem p b i j levels = Some (length (clean_spec (components t) root st levels), mem') \<and>
      cleaning mem0 p b s mem' (length s) (clean_spec (components t) root st levels)"
proof (induction t arbitrary: mem i j root st levels rule: components.induct)
  case (1 t)
  define c where "c = takeWhile (\<lambda>x. x \<noteq> SLASH) t"
  define u where "u = dropWhile (\<lambda>x. x \<noteq> SLASH) t"
  have t: "drop i s = c @ u" by (simp add: 1(3) c_def u_def)
  have c: "SLASH \<notin> set c" unfolding c_def by (auto dest: set_takeWhileD)
  have u: "u = [] \<or> hd u = SLASH" unfolding u_def using hd_dropWhile[of "\<lambda>x. x \<noteq> SLASH" t] by metis
  have comp: "components t = (if u = [] then [c] else c # components (dropWhile (\<lambda>x. x = SLASH) u))"
    by (simp only: components.simps[of t] Let_def c_def u_def)
  obtain mem1 where m1: "clean_copy mem p b i j 0 =
        Some (mem1, i + length c, length (render root st @ c), count_list c DOT)"
      "cleaning mem0 p b s mem1 (i + length c) (render root st @ c)"
    using clean_copy_run[OF l 1(2) t c u cs 1(4), of 0] by auto
  let ?i1 = "i + length c" and ?j1 = "length (render root st @ c)"
  obtain r levels' where one: "clean_one c root st levels = (r, levels')" by (cases "clean_one c root st levels")
  note run = clean_component_run[OF l m1(2) 1(5) 1(4) refl, of levels]
  obtain mem2 out2 where m2: "clean_component mem1 b j ?j1 (?i1 - i) (count_list c DOT) levels =
        Some (mem2, length out2, r \<noteq> None, levels')"
      "cleaning mem0 p b s mem2 ?i1 out2"
      "out2 = (case r of None \<Rightarrow> render root st @ c | Some (root', st') \<Rightarrow> render root' st')"
    using run one m1(2) by (auto split: option.splits)
  have i1: "?i1 \<le> length s" using cleaningD(2)[OF m2(2)] .
  have j2: "length out2 \<le> ?i1" using cleaningD(3)[OF m2(2)] .
  have du: "drop ?i1 s = u" using t by (metis add.commute append_eq_conv_conj drop_drop)
  show ?case
  proof (cases "u = []")
    case True
    then have ie: "?i1 = length s" using du i1 by simp
    have pk: "peek mem2 (p + ?i1) = Some 0" using cleaning_peek[OF l m2(2) order.refl i1] ie by simp
    have w: "poke mem2 (b + length out2) 0 = Some (mem2[b + length out2 := 0])"
        "cleaning mem0 p b s (mem2[b + length out2 := 0]) (length s) out2"
      using cleaning_poke[OF l m2(2) order.refl i1, of 0] i1 ie by auto
    have spec: "clean_spec (components t) root st levels = out2"
      using one m2(3) by (auto simp: comp True split: option.splits)
    show ?thesis
      using m1(1) m2(1) pk w by (subst clean_loop.simps) (simp add: spec)
  next
    case False
    obtain n v where v: "u = replicate n SLASH @ v" "v = [] \<or> hd v \<noteq> SLASH" "dropWhile (\<lambda>x. x = SLASH) u = v"
      using slash_split[of u] by metis
    have n: "n > 0" using False u v(1,2) by (cases n) auto
    obtain w where "u = SLASH # w" using False u by (cases u) auto
    then have pb: "?i1 < length s" "(s @ [0]) ! ?i1 = SLASH" using path_byte[of ?i1 s SLASH w] du by auto
    have pk: "peek mem2 (p + ?i1) = Some SLASH" using cleaning_peek[OF l m2(2) order.refl i1] pb by simp
    have sk: "clean_skip mem2 p ?i1 = Some (?i1 + n)"
      using clean_skip_run[OF l m2(2) order.refl _ v(2) i1, of n] du v(1) by simp
    have i2: "?i1 + n \<le> length s" using du v(1) i1
      by (metis le_add1 length_append length_drop length_replicate Nat.le_diff_conv2 add.commute)
    have dv: "drop (?i1 + n) s = v" using du v(1)
      by (metis add.commute append_eq_conv_conj drop_drop length_replicate)
    have S: "SLASH \<noteq> 0" by (simp add: SLASH_def)
    have IH: "\<exists>mem'. clean_loop mem3 p b (?i1 + n) (length (render rt ss)) lv =
          Some (length (clean_spec (components v) rt ss lv), mem') \<and>
          cleaning mem0 p b s mem' (length s) (clean_spec (components v) rt ss lv)"
      if "cleaning mem0 p b s mem3 (?i1 + n) (render rt ss)" "\<forall>x \<in> set ss. SLASH \<notin> set x" for mem3 rt ss lv
      using 1(1)[OF c_def u_def False that(1) _ refl that(2)] dv v(3) by simp
    show ?thesis
    proof (cases r)
      case None
      have w: "poke mem2 (b + length out2) SLASH = Some (mem2[b + length out2 := SLASH])"
          "cleaning mem0 p b s (mem2[b + length out2 := SLASH]) (?i1 + n) (render root (st @ [c]))"
        using cleaning_poke[OF l m2(2) order.refl _ i2, of SLASH] j2 n m2(3) None by (auto simp: render_snoc)
      have st: "\<forall>x \<in> set (st @ [c]). SLASH \<notin> set x" using 1(5) c by auto
      have len: "length (render root (st @ [c])) = length out2 + 1" using m2(3) None by (simp add: render_snoc)
      have ne: "components v \<noteq> []" by (subst components.simps) (simp add: Let_def)
      have spec: "clean_spec (components t) root st levels = clean_spec (components v) root (st @ [c]) levels'"
        using one None ne by (simp add: comp False v(3))
      show ?thesis
        using IH[OF w(2) st, of levels'] m1(1) m2(1) pk w(1) sk S None
        by (subst clean_loop.simps) (simp add: spec len)
    next
      case (Some r')
      obtain root' st' where r': "r' = (root', st')" by (cases r')
      have k: "cleaning mem0 p b s mem2 (?i1 + n) (render root' st')"
        using cleaning_skip[OF m2(2) _ i2] m2(3) Some r' by simp
      have st: "\<forall>x \<in> set st'. SLASH \<notin> set x"
        using clean_one_slashes[of c root st levels root' st' levels'] one Some r' 1(5) by simp
      have spec: "clean_spec (components t) root st levels = clean_spec (components v) root' st' levels'"
        using one Some r' by (simp add: comp False v(3))
      show ?thesis
        using IH[OF k st, of levels'] m1(1) m2(1,3) pk sk S Some r'
        by (subst clean_loop.simps) (simp add: spec)
    qed
  qed
qed

lemma clean_path_run:
  assumes "layout mem p b s" and "c_string s" and "s \<noteq> []" and "take (length s + 1) (drop p mem) = s @ [0]"
  shows "\<exists>mem'. fcitx_utils_clean_path mem p b = Some (length (cleaned s), mem') \<and>
    length mem' = length mem \<and> length (cleaned s) \<le> length s \<and>
    take (length (cleaned s) + 1) (drop b mem') = cleaned s @ [0] \<and>
    take b mem' = take b mem \<and> drop (b + length s + 1) mem' = drop (b + length s + 1) mem"
proof -
  note l = assms(1)
  have byte: "mem ! (p + x) = (s @ [0]) ! x" if "x \<le> length s" for x
  proof -
    have "(s @ [0]) ! x = take (length s + 1) (drop p mem) ! x" by (simp only: assms(4))
    then show ?thesis using layoutD(1)[OF l that] that by (simp add: add.commute)
  qed
  have c0: "cleaning mem p b s mem 0 (replicate 0 SLASH)" using byte by (simp add: cleaning_def)
  obtain n t where s: "s = replicate n SLASH @ t" "t = [] \<or> hd t \<noteq> SLASH"
      "takeWhile (\<lambda>x. x = SLASH) s = replicate n SLASH" "dropWhile (\<lambda>x. x = SLASH) s = t"
    using slash_split .
  obtain mem1 where m1: "clean_root mem p b 0 = Some (mem1, n)"
      "cleaning mem p b s mem1 n (replicate n SLASH)"
    using clean_root_run[OF l c0 _ s(2) assms(2), of n] s(1) by auto
  have d: "drop n s = t" using s(1) by simp
  obtain mem2 where m2: "clean_loop mem1 p b n n 0 = Some (length (cleaned s), mem2)"
      "cleaning mem p b s mem2 (length s) (cleaned s)"
    using clean_loop_run[OF l assms(2), of mem1 n n "[]" t n 0] m1(2) d
    by (auto simp: render_def cleaned_def s(3,4))
  have le: "length (cleaned s) \<le> length s" using cleaningD(3)[OF m2(2)] .
  let ?mem = "mem2[b + length (cleaned s) := 0]"
  have w: "poke mem2 (b + length (cleaned s)) 0 = Some ?mem" "cleaning mem p b s ?mem (length s) (cleaned s)"
    using cleaning_poke[OF l m2(2) order.refl order.refl order.refl, of 0] le by auto
  have len: "length ?mem = length mem" using cleaningD(1)[OF w(2)] .
  have z: "?mem ! (b + length (cleaned s)) = 0" using layoutD(2)[OF l le] len by simp
  have pk: "peek mem p = Some (s ! 0)" "s ! 0 \<noteq> 0"
    using cleaning_peek[OF l c0, of 0] assms(2,3) by (auto simp: nth_append c_string_def) (metis length_greater_0_conv nth_mem)
  have "take (length (cleaned s) + 1) (drop b ?mem) = cleaned s @ [0]"
  proof (rule nth_equalityI)
    show "length (take (length (cleaned s) + 1) (drop b ?mem)) = length (cleaned s @ [0])"
      using layoutD(2)[OF l le] len by simp
    fix x assume "x < length (take (length (cleaned s) + 1) (drop b ?mem))"
    then have "x \<le> length (cleaned s)" by simp
    then show "take (length (cleaned s) + 1) (drop b ?mem) ! x = (cleaned s @ [0]) ! x"
      using cleaningD(4)[OF w(2), of x] z layoutD(2)[OF l le] len
      by (cases "x = length (cleaned s)") (simp_all add: nth_append)
  qed
  moreover have "take b ?mem = take b mem"
  proof (rule nth_equalityI)
    fix x assume "x < length (take b ?mem)"
    then have "x < b" by simp
    then show "take b ?mem ! x = take b mem ! x" using cleaningD(6)[OF w(2), of x] by simp
  qed (simp only: length_take len)
  moreover have "drop (b + length s + 1) ?mem = drop (b + length s + 1) mem"
  proof (rule nth_equalityI)
    fix x assume "x < length (drop (b + length s + 1) ?mem)"
    then have x: "b + length s + 1 + x < length mem" using len by simp
    have "?mem ! (b + length s + 1 + x) = mem ! (b + length s + 1 + x)"
      by (rule cleaningD(6)[OF w(2)]) linarith
    moreover have "b + length s + 1 \<le> length mem" "b + length s + 1 \<le> length ?mem"
      using x len by linarith+
    ultimately show "drop (b + length s + 1) ?mem ! x = drop (b + length s + 1) mem ! x"
      by (simp only: nth_drop)
  qed (simp only: length_drop len)
  moreover have "fcitx_utils_clean_path mem p b = Some (length (cleaned s), ?mem)"
    using pk m1(1) m2(1) w(1) by (simp add: fcitx_utils_clean_path_def)
  ultimately show ?thesis using le len by blast
qed

text \<open>C28: Cleaning leaves the path that its specification computes on the components in the buffer, with its
  terminator, also when the buffer is the path itself; the result is never longer than the path, the
  returned length is its length, and nothing outside of the buffer changes.\<close>

theorem clean_path_refines:
  assumes "layout mem p b s" and "c_string s" and "s \<noteq> []" and "take (length s + 1) (drop p mem) = s @ [0]"
  shows "\<exists>mem'. fcitx_utils_clean_path mem p b = Some (length (cleaned s), mem') \<and>
    length mem' = length mem \<and> length (cleaned s) \<le> length s \<and>
    take (length (cleaned s) + 1) (drop b mem') = cleaned s @ [0] \<and>
    take b mem' = take b mem \<and> drop (b + length s + 1) mem' = drop (b + length s + 1) mem"
  using clean_path_run[OF assms] .

section \<open>The meaning of an absolute path\<close>

text \<open>
  Where a path leads from the root when there are no symbolic links: the names of the directories.
  \<open>..\<close> of the root is the root.
\<close>

fun resolve :: "cstr list \<Rightarrow> cstr list \<Rightarrow> cstr list" where
  "resolve st [] = st"
| "resolve st (c # cs) =
     resolve (if c = [] \<or> c = [DOT] then st else if c = [DOT, DOT] then butlast st else st @ [c]) cs"

definition leads_to :: "cstr \<Rightarrow> cstr list" where
  "leads_to s = resolve [] (components (dropWhile (\<lambda>x. x = SLASH) s))"

definition is_name :: "cstr \<Rightarrow> bool" where
  "is_name c \<longleftrightarrow> c \<noteq> [] \<and> c \<noteq> [DOT] \<and> c \<noteq> [DOT, DOT] \<and> SLASH \<notin> set c"

fun parts_ok :: "cstr list \<Rightarrow> bool" where
  "parts_ok [] \<longleftrightarrow> True"
| "parts_ok (c # cs) \<longleftrightarrow> SLASH \<notin> set c \<and> (cs \<noteq> [] \<longrightarrow> c \<noteq> []) \<and> parts_ok cs"

lemma resolve_append: "resolve st (cs @ ds) = resolve (resolve st cs) ds"
  by (induction cs arbitrary: st) auto

lemma resolve_ups: "resolve [] (replicate m [DOT, DOT]) = []"
  by (induction m) auto

lemma resolve_names: "\<forall>c \<in> set cs. is_name c \<Longrightarrow> resolve st cs = st @ cs"
  by (induction cs arbitrary: st) (auto simp: is_name_def)

lemma components_ok: "hd s \<noteq> SLASH \<or> s = [] \<Longrightarrow> parts_ok (components s)"
proof (induction s rule: components.induct)
  case (1 s)
  define c where "c = takeWhile (\<lambda>x. x \<noteq> SLASH) s"
  define u where "u = dropWhile (\<lambda>x. x \<noteq> SLASH) s"
  have comp: "components s = (if u = [] then [c] else c # components (dropWhile (\<lambda>x. x = SLASH) u))"
    by (simp only: components.simps[of s] Let_def c_def u_def)
  have c: "SLASH \<notin> set c" unfolding c_def by (auto dest: set_takeWhileD)
  have v: "hd (dropWhile (\<lambda>x. x = SLASH) u) \<noteq> SLASH \<or> dropWhile (\<lambda>x. x = SLASH) u = []"
    using hd_dropWhile[of "\<lambda>x. x = SLASH" u] by metis
  have ne: "c \<noteq> []" if "u \<noteq> []" using that 1(2) unfolding c_def u_def by (cases s) auto
  show ?case using comp c ne 1(1)[OF c_def u_def _ v] by simp
qed

lemma components_render:
  assumes "\<forall>c \<in> set st. c \<noteq> [] \<and> SLASH \<notin> set c" and "SLASH \<notin> set c"
  shows "components (concat (map (\<lambda>c. c @ [SLASH]) st) @ c) = st @ [c]"
  using assms(1)
proof (induction st)
  case Nil
  have "takeWhile (\<lambda>x. x \<noteq> SLASH) c = c" "dropWhile (\<lambda>x. x \<noteq> SLASH) c = []"
    using assms(2) by (auto simp: takeWhile_eq_all_conv)
  then show ?case by (simp add: components.simps[of c])
next
  case (Cons x st)
  let ?r = "concat (map (\<lambda>c. c @ [SLASH]) st) @ c"
  have x: "takeWhile (\<lambda>x. x \<noteq> SLASH) (x @ SLASH # ?r) = x"
      "dropWhile (\<lambda>x. x \<noteq> SLASH) (x @ SLASH # ?r) = SLASH # ?r"
    using Cons(2) by (auto simp: takeWhile_tail dropWhile_append3)
  have "dropWhile (\<lambda>x. x = SLASH) ?r = ?r"
    using Cons(2) assms(2) by (cases st; cases c; cases "hd st") auto
  then have "components (x @ SLASH # ?r) = x # components ?r"
    by (simp only: components.simps[of "x @ SLASH # ?r"] Let_def x) simp
  then show ?case using Cons by simp
qed

lemma leads_to_render:
  assumes "\<forall>c \<in> set st. c \<noteq> [] \<and> SLASH \<notin> set c" and "SLASH \<notin> set c"
  shows "leads_to (render root st @ c) = resolve [] (st @ [c])"
proof -
  let ?r = "concat (map (\<lambda>c. c @ [SLASH]) st) @ c"
  have "dropWhile (\<lambda>x. x = SLASH) ?r = ?r"
    using assms by (cases st; cases c; cases "hd st") auto
  then have "dropWhile (\<lambda>x. x = SLASH) (render root st @ c) = ?r"
    by (induction root) (simp_all add: render_def)
  then show ?thesis using components_render[OF assms] by (simp add: leads_to_def)
qed

text \<open>What is kept of an absolute path: some \<open>..\<close> at the root, and names.\<close>

definition kept :: "nat \<Rightarrow> cstr list \<Rightarrow> cstr list \<Rightarrow> nat \<Rightarrow> bool" where
  "kept root st names levels \<longleftrightarrow> root > 0 \<and> (\<forall>c \<in> set names. is_name c) \<and>
     (levels = 0 \<longrightarrow> names = []) \<and> (\<exists>m. st = replicate m [DOT, DOT] @ names)"

lemma kept_parts:
  assumes "kept root st names levels" and "c \<in> set st"
  shows "c \<noteq> [] \<and> SLASH \<notin> set c"
proof -
  have "c = [DOT, DOT] \<or> is_name c" using assms by (auto simp: kept_def split: if_splits)
  then show ?thesis by (auto simp: is_name_def DOT_def SLASH_def)
qed

lemma kept_resolve: "kept root st names levels \<Longrightarrow> resolve [] (st @ cs) = resolve names cs"
proof -
  assume "kept root st names levels"
  then obtain m where m: "st = replicate m [DOT, DOT] @ names" "\<forall>c \<in> set names. is_name c"
    by (auto simp: kept_def)
  show ?thesis unfolding m(1) resolve_append resolve_ups resolve_names[OF m(2)] by simp
qed

lemma kept_back:
  assumes "kept root st names levels" and "step_back root st = Some (root', st')"
  shows "kept root' st' (butlast names) levels"
proof -
  obtain m where m: "st = replicate m [DOT, DOT] @ names" using assms(1) by (auto simp: kept_def)
  show ?thesis
  proof (cases names rule: rev_cases)
    case Nil
    have k: "butlast (replicate m [DOT, DOT]) = replicate (m - 1) [DOT, DOT]"
      by (cases m) (simp_all flip: replicate_append_same)
    have "kept r (replicate (m - 1) [DOT, DOT]) [] levels" if "r > 0" for r
      using that by (auto simp: kept_def)
    moreover have "root' > 0 \<and> (st' = replicate (m - 1) [DOT, DOT] \<or> st' = replicate 0 [DOT, DOT])"
      using assms m Nil k by (auto simp: kept_def step_back_def split: if_splits)
    moreover have "kept r (replicate 0 [DOT, DOT]) [] levels" if "r > 0" for r
      using that by (auto simp: kept_def)
    ultimately show ?thesis using Nil by auto
  next
    case (snoc ns n)
    then show ?thesis using assms m by (auto simp: kept_def step_back_def butlast_append split: if_splits)
  qed
qed

lemma clean_spec_leads:
  "kept root st names levels \<Longrightarrow> parts_ok cs \<Longrightarrow>
   \<exists>root' st' c'. clean_spec cs root st levels = render root' st' @ c' \<and> root' > 0 \<and>
     (\<forall>c \<in> set st'. c \<noteq> [] \<and> SLASH \<notin> set c) \<and> SLASH \<notin> set c' \<and>
     resolve [] (st' @ [c']) = resolve names cs"
proof (induction cs arbitrary: root st names levels)
  case Nil
  have "resolve [] (st @ [[]]) = names" using kept_resolve[OF Nil(1), of "[[]]"] by simp
  then show ?case using Nil kept_parts[OF Nil(1)]
    by (intro exI[of _ root] exI[of _ st] exI[of _ "[]"]) (auto simp: kept_def)
next
  case (Cons c cs)
  have c: "SLASH \<notin> set c" "cs \<noteq> [] \<Longrightarrow> c \<noteq> []" "parts_ok cs" using Cons(3) by auto
  have root: "root > 0" using Cons(2) by (simp add: kept_def)
  let ?names = "if c = [] \<or> c = [DOT] then names else if c = [DOT, DOT] then butlast names else names @ [c]"
  have res: "resolve names (c # cs) = resolve ?names cs" by simp
  have last: ?case if n: "clean_one c root st levels = (None, levels')" and e: "cs = []" for levels'
    using n e c(1) root kept_parts[OF Cons(2)] kept_resolve[OF Cons(2), of "[c]"]
    by (intro exI[of _ root] exI[of _ st] exI[of _ c]) simp
  consider "c = [DOT]" | "c = [DOT, DOT]" "levels > 0" "step_back root st \<noteq> None"
    | "c = [DOT, DOT]" "levels = 0 \<or> step_back root st = None" | "c \<noteq> [DOT]" "c \<noteq> [DOT, DOT]"
    by blast
  then show ?case
  proof cases
    case 1
    then show ?thesis using Cons.IH[OF Cons(2) c(3)] by (simp add: clean_one_def DOT_def)
  next
    case 2
    then obtain root' st' where b: "step_back root st = Some (root', st')" by auto
    show ?thesis
      using 2 b Cons.IH[OF kept_back[OF Cons(2) b] c(3)] by (simp add: clean_one_def)
  next
    case 3
    have one: "clean_one c root st levels = (None, levels)" using 3 by (auto simp: clean_one_def)
    have "names = []"
    proof (cases "levels = 0")
      case True
      then show ?thesis using Cons(2) by (simp add: kept_def)
    next
      case False
      then have "st = []" using 3 root by (auto simp: step_back_def split: if_splits)
      then show ?thesis using Cons(2) by (simp add: kept_def)
    qed
    then have k: "kept root (st @ [c]) [] levels"
      using Cons(2) 3(1) by (auto simp: kept_def replicate_append_same intro: exI[of _ "Suc m" for m])
    show ?thesis
    proof (cases "cs = []")
      case False
      then show ?thesis using one Cons.IH[OF k c(3)] 3(1) \<open>names = []\<close> by simp
    qed (use last one in blast)
  next
    case 4
    have one: "clean_one c root st levels = (None, levels + 1)" using 4 by (simp add: clean_one_def)
    show ?thesis
    proof (cases "cs = []")
      case False
      then have "kept root (st @ [c]) (names @ [c]) (levels + 1)"
        using Cons(2) c(1,2) 4 by (auto simp: kept_def is_name_def)
      from Cons.IH[OF this c(3)] show ?thesis using one False 4 c(2) by simp
    qed (use last one in blast)
  qed
qed

lemma cleaned_absolute:
  assumes "s \<noteq> []" and "hd s = SLASH"
  shows "hd (cleaned s) = SLASH \<and> leads_to (cleaned s) = leads_to s"
proof -
  let ?t = "dropWhile (\<lambda>x. x = SLASH) s" and ?n = "length (takeWhile (\<lambda>x. x = SLASH) s)"
  have n: "?n > 0" using assms by (cases s) auto
  then have k: "kept ?n [] [] 0" by (simp add: kept_def)
  have "parts_ok (components ?t)"
    using hd_dropWhile[of "\<lambda>x. x = SLASH" s] by (intro components_ok) metis
  from clean_spec_leads[OF k this]
  obtain root st c where out: "cleaned s = render root st @ c" "root > 0"
      "\<forall>c \<in> set st. c \<noteq> [] \<and> SLASH \<notin> set c" "SLASH \<notin> set c"
      "resolve [] (st @ [c]) = resolve [] (components ?t)"
    unfolding cleaned_def by blast
  have "hd (cleaned s) = SLASH" using out(1,2) by (cases root) (auto simp: render_def)
  moreover have "leads_to (cleaned s) = leads_to s"
    using leads_to_render[OF out(3,4), of root] out(1,5) by (simp add: leads_to_def)
  ultimately show ?thesis ..
qed

text \<open>The cleaned form of an absolute path is absolute and leads to the same directory.\<close>

theorem clean_path_absolute:
  assumes "layout mem p b s" and "c_string s" and "s \<noteq> []" and "hd s = SLASH"
    and "take (length s + 1) (drop p mem) = s @ [0]"
  shows "\<exists>n mem'. fcitx_utils_clean_path mem p b = Some (n, mem') \<and>
    hd (take n (drop b mem')) = SLASH \<and> leads_to (take n (drop b mem')) = leads_to s"
proof -
  obtain mem' where m: "fcitx_utils_clean_path mem p b = Some (length (cleaned s), mem')"
      "take (length (cleaned s) + 1) (drop b mem') = cleaned s @ [0]"
    using clean_path_run[OF assms(1-3,5)] by blast
  have "take (length (cleaned s)) (drop b mem') = cleaned s"
    using arg_cong[OF m(2), of "take (length (cleaned s))"] by simp
  then show ?thesis using m(1) cleaned_absolute[OF assms(3,4)] by auto
qed

theorem clean_path_absolute_witness:
  "\<exists>n mem'. fcitx_utils_clean_path (map of_char ''/a/./b/..//c'' @ [0]) 0 0 = Some (n, mem') \<and>
     leads_to (take n mem') = [map of_char ''a'', map of_char ''c'']"
  using clean_path_absolute[of "map of_char ''/a/./b/..//c'' @ [0]" 0 0 "map of_char ''/a/./b/..//c''"]
  by (auto simp: layout_def c_string_def SLASH_def DOT_def leads_to_def components.simps)

text \<open>
  A relative path may lead elsewhere: a \<open>..\<close> that was kept, because there is nothing above the first
  name to step back to, is taken for a name by the next one.
\<close>

lemma clean_relative_wrong:
  "cleaned (map of_char ''x/a/../../..'') = map of_char ''x/''"
  by (simp add: cleaned_def components.simps clean_one_def step_back_def render_def SLASH_def DOT_def
      of_char_def)

theorem clean_path_refines_witness:
  "\<exists>mem'. fcitx_utils_clean_path (map of_char ''/a/../b'' @ [0]) 0 0 = Some (2, mem') \<and>
     take 3 mem' = map of_char ''/b'' @ [0]"
proof -
  have e: "cleaned (map of_char ''/a/../b'') = map of_char ''/b''"
    by (simp add: cleaned_def components.simps clean_one_def step_back_def render_def SLASH_def DOT_def)
  show ?thesis
    using clean_path_refines[of "map of_char ''/a/../b'' @ [0]" 0 0 "map of_char ''/a/../b''"]
    by (auto simp: layout_def c_string_def e [simplified] numeral_3_eq_3)
qed

section \<open>Files and directories\<close>

text \<open>
  The system calls are arguments; they act on a state of type \<open>'w\<close>.  \<open>stat\<close> and \<open>access\<close> only read
  it, \<open>mkdir\<close> answers 0 or the value of \<open>errno\<close>.
\<close>

record file_stat =
  st_mode :: nat
  st_uid :: nat

record 'w fs_calls =
  sys_stat :: "cstr \<Rightarrow> 'w \<Rightarrow> file_stat option"
  sys_access :: "cstr \<Rightarrow> nat \<Rightarrow> 'w \<Rightarrow> bool"
  sys_mkdir :: "cstr \<Rightarrow> nat \<Rightarrow> 'w \<Rightarrow> nat \<times> 'w"

definition file_type :: "file_stat \<Rightarrow> nat" where
  "file_type st = st_mode st div 4096 mod 16"

definition S_ISDIR :: "file_stat \<Rightarrow> bool" where "S_ISDIR st \<longleftrightarrow> file_type st = 4"
definition S_ISREG :: "file_stat \<Rightarrow> bool" where "S_ISREG st \<longleftrightarrow> file_type st = 8"
definition S_ISLNK :: "file_stat \<Rightarrow> bool" where "S_ISLNK st \<longleftrightarrow> file_type st = 10"

definition EEXIST :: nat where "EEXIST = 17"
definition ENOENT :: nat where "ENOENT = 2"
definition EACCES :: nat where "EACCES = 13"

definition fcitx_utils_isdir :: "'w fs_calls \<Rightarrow> cstr \<Rightarrow> 'w \<Rightarrow> bool" where
  "fcitx_utils_isdir sys path w \<longleftrightarrow>
     (case sys_stat sys path w of None \<Rightarrow> False | Some st \<Rightarrow> S_ISDIR st \<and> sys_access sys path 5 w)"

definition fcitx_utils_isreg :: "'w fs_calls \<Rightarrow> cstr \<Rightarrow> 'w \<Rightarrow> bool" where
  "fcitx_utils_isreg sys path w \<longleftrightarrow>
     (case sys_stat sys path w of None \<Rightarrow> False | Some st \<Rightarrow> S_ISREG st \<and> sys_access sys path 4 w)"

definition fcitx_utils_islnk :: "'w fs_calls \<Rightarrow> cstr \<Rightarrow> 'w \<Rightarrow> bool" where
  "fcitx_utils_islnk sys path w \<longleftrightarrow>
     (case sys_stat sys path w of None \<Rightarrow> False | Some st \<Rightarrow> S_ISLNK st)"

text \<open>\<open>stat\<close> follows links, so the last function never finds one.\<close>

lemma islnk_never:
  "(\<And>st. sys_stat sys path w = Some st \<Longrightarrow> \<not> S_ISLNK st) \<Longrightarrow> \<not> fcitx_utils_islnk sys path w"
  by (auto simp: fcitx_utils_islnk_def split: option.split)

text \<open>
  Creating a directory with its parents.  \<open>opath\<close> is the string in the buffer; writing the terminator
  at \<open>p\<close> and putting the byte back is taking the first \<open>p\<close> bytes.  An error of \<open>mkdir\<close> other than
  \<open>EEXIST\<close> is not looked at.
\<close>

fun strip_slashes :: "cstr \<Rightarrow> nat \<Rightarrow> cstr" where
  "strip_slashes opath 0 = opath"
| "strip_slashes opath (Suc n) =
     (if n < length opath \<and> opath ! n = SLASH then strip_slashes (take n opath) n else opath)"

fun skip_slashes :: "cstr \<Rightarrow> nat" where
  "skip_slashes [] = 0"
| "skip_slashes (c # s) = (if c = SLASH then Suc (skip_slashes s) else 0)"

definition make_one :: "'w fs_calls \<Rightarrow> cstr \<Rightarrow> 'w \<Rightarrow> bool \<times> 'w" where
  "make_one sys d w =
     (case sys_mkdir sys d 448 w of (err, w) \<Rightarrow>
        (if err = EEXIST
         then (case sys_stat sys d w of None \<Rightarrow> False | Some st \<Rightarrow> S_ISDIR st) else True, w))"

function make_loop :: "'w fs_calls \<Rightarrow> cstr \<Rightarrow> nat \<Rightarrow> 'w \<Rightarrow> (bool \<times> 'w) option" where
  "make_loop sys opath p w =
     (case rd opath p of
        None \<Rightarrow> None
      | Some c \<Rightarrow>
          (case (if c = SLASH \<or> c = 0 then make_one sys (take p opath) w else (True, w)) of
             (ok, w) \<Rightarrow>
               if \<not> ok then Some (False, w)
               else if c \<noteq> 0 then make_loop sys opath (p + 1) w
               else Some (True, w)))"
  by pat_completeness auto
termination
  by (relation "measure (\<lambda>(sys, opath, p, w). Suc (length opath) - p)")
    (auto dest: rd_nonzero simp: rd_def split: if_splits)

declare make_loop.simps [simp del]

definition fcitx_utils_make_path :: "'w fs_calls \<Rightarrow> cstr \<Rightarrow> 'w \<Rightarrow> (bool \<times> 'w) option" where
  "fcitx_utils_make_path sys path w =
     (if fcitx_utils_isdir sys path w then Some (True, w)
      else do {
        (len, mem) \<leftarrow> fcitx_utils_clean_path
          (path @ [0] @ replicate (length path + 1) 0) 0 (length path + 1);
        let opath = strip_slashes (take len (drop (length path + 1) mem)) len;
        if opath = [] then Some (True, w)
        else make_loop sys opath (skip_slashes opath) w })"

text \<open>The directories of a path, outermost first, without the root.\<close>

definition ancestors :: "cstr \<Rightarrow> cstr list" where
  "ancestors s = map (\<lambda>n. take n s)
     (filter (\<lambda>n. n = length s \<or> s ! n = SLASH) [skip_slashes s..<Suc (length s)])"

fun make_all :: "'w fs_calls \<Rightarrow> cstr list \<Rightarrow> 'w \<Rightarrow> bool \<times> 'w" where
  "make_all sys [] w = (True, w)"
| "make_all sys (d # ds) w =
     (case make_one sys d w of (ok, w) \<Rightarrow> if ok then make_all sys ds w else (False, w))"

lemma make_loop_run:
  assumes "c_string s"
  shows "p \<le> length s \<Longrightarrow> make_loop sys s p w =
    Some (make_all sys (map (\<lambda>n. take n s) (filter (\<lambda>n. n = length s \<or> s ! n = SLASH) [p..<Suc (length s)])) w)"
proof (induction "length s - p" arbitrary: p w)
  case 0
  then have "p = length s" by simp
  then show ?case by (subst make_loop.simps) (simp add: rd_end SLASH_def split: prod.split)
next
  case (Suc n)
  then have p: "p < length s" by simp
  then have nz: "s ! p \<noteq> 0" using assms by (metis c_string_def nth_mem)
  have IH: "make_loop sys s (Suc p) w' = Some (make_all sys (map (\<lambda>n. take n s)
      (filter (\<lambda>n. n = length s \<or> s ! n = SLASH) [Suc p..<Suc (length s)])) w')" for w'
    using Suc.hyps(1)[of "Suc p" w'] Suc.hyps(2) p by simp
  have up: "[p..<Suc (length s)] = p # [Suc p..<Suc (length s)]" using p by (simp add: upt_conv_Cons)
  show ?case
    unfolding up using p nz IH
    by (subst make_loop.simps) (auto simp: rd_in simp del: upt_Suc split: prod.split)
qed

lemma strip_slashes_c_string: "c_string s \<Longrightarrow> c_string (strip_slashes s n)"
  by (induction s n rule: strip_slashes.induct) auto

lemma skip_slashes_le: "skip_slashes s \<le> length s"
  by (induction s) auto

lemma components_bytes: "c \<in> set (components s) \<Longrightarrow> set c \<subseteq> set s"
proof (induction s rule: components.induct)
  case (1 s)
  define c' where "c' = takeWhile (\<lambda>x. x \<noteq> SLASH) s"
  define u where "u = dropWhile (\<lambda>x. x \<noteq> SLASH) s"
  have comp: "components s = (if u = [] then [c'] else c' # components (dropWhile (\<lambda>x. x = SLASH) u))"
    by (simp only: components.simps[of s] Let_def c'_def u_def)
  have c': "set c' \<subseteq> set s" unfolding c'_def by (auto dest: set_takeWhileD)
  have u: "set (dropWhile (\<lambda>x. x = SLASH) u) \<subseteq> set s"
    unfolding u_def by (meson set_dropWhileD subset_eq)
  show ?case
  proof (cases "c = c'")
    case True
    then show ?thesis using c' by simp
  next
    case False
    then have ne: "u \<noteq> []" "c \<in> set (components (dropWhile (\<lambda>x. x = SLASH) u))"
      using 1(2) comp by (auto split: if_splits)
    show ?thesis using 1(1)[OF c'_def u_def ne] u by blast
  qed
qed

lemma render_bytes: "set (render root st) \<subseteq> insert SLASH (\<Union> (set ` set st))"
  by (auto simp: render_def)

lemma clean_spec_bytes:
  "set (clean_spec cs root st levels) \<subseteq> insert SLASH (\<Union> (set ` (set cs \<union> set st)))"
proof (induction cs arbitrary: root st levels)
  case Nil
  then show ?case using render_bytes by simp
next
  case (Cons c cs)
  obtain r levels' where one: "clean_one c root st levels = (r, levels')" by (cases "clean_one c root st levels")
  show ?case
  proof (cases r)
    case None
    then show ?thesis
      using one Cons.IH[of root "st @ [c]" levels'] render_bytes[of root st] by auto
  next
    case (Some r')
    obtain root' st' where r': "r' = (root', st')" by (cases r')
    have "set st' \<subseteq> set st"
      using one Some r' by (auto simp: clean_one_def step_back_def split: if_splits dest: in_set_butlastD)
    then have "insert SLASH (\<Union> (set ` (set cs \<union> set st'))) \<subseteq> insert SLASH (\<Union> (set ` (set (c # cs) \<union> set st)))"
      by (intro insert_mono Union_mono image_mono Un_mono) auto
    moreover have "clean_spec (c # cs) root st levels = clean_spec cs root' st' levels'"
      using one Some r' by simp
    ultimately show ?thesis using Cons.IH[of root' st' levels'] by (simp only: order.trans)
  qed
qed

lemma cleaned_c_string:
  assumes "c_string s" shows "c_string (cleaned s)"
proof -
  let ?t = "dropWhile (\<lambda>x. x = SLASH) s"
  have "set (cleaned s) \<subseteq> insert SLASH (\<Union> (set ` set (components ?t)))"
    unfolding cleaned_def using clean_spec_bytes[of "components ?t" _ "[]"] by simp
  also have "\<dots> \<subseteq> insert SLASH (set s)" using components_bytes set_dropWhileD by fastforce
  finally show ?thesis using assms by (auto simp: c_string_def SLASH_def)
qed

lemma make_path_run:
  assumes "c_string path"
  shows "fcitx_utils_make_path sys path w = Some
    (let opath = strip_slashes (cleaned path) (length (cleaned path)) in
     if fcitx_utils_isdir sys path w \<or> opath = [] then (True, w) else make_all sys (ancestors opath) w)"
proof (cases "path = []")
  case True
  have "cleaned [] = []" by (simp add: cleaned_def components.simps clean_one_def render_def)
  then show ?thesis
    using True by (simp add: fcitx_utils_make_path_def fcitx_utils_clean_path_def peek_def Let_def)
next
  case False
  let ?n = "length path" let ?mem = "path @ [0] @ replicate (?n + 1) 0"
  have lay: "layout ?mem 0 (?n + 1) path" by (simp add: layout_def)
  obtain mem where m: "fcitx_utils_clean_path ?mem 0 (?n + 1) = Some (length (cleaned path), mem)"
      "take (length (cleaned path) + 1) (drop (?n + 1) mem) = cleaned path @ [0]"
    using clean_path_run[OF lay assms False] by auto
  let ?o = "strip_slashes (cleaned path) (length (cleaned path))"
  have o: "take (length (cleaned path)) (drop (?n + 1) mem) = cleaned path"
    using arg_cong[OF m(2), of "take (length (cleaned path))"] by simp
  have loop: "make_loop sys ?o (skip_slashes ?o) w = Some (make_all sys (ancestors ?o) w)"
    unfolding ancestors_def
    by (intro make_loop_run strip_slashes_c_string cleaned_c_string assms skip_slashes_le)
  show ?thesis
    using m(1) o loop by (simp add: fcitx_utils_make_path_def Let_def)
qed

text \<open>Creating a path that is not there yet calls \<open>mkdir\<close> on each of its directories in turn, from the
  outermost one on, and fails as soon as one exists already and is not a directory.\<close>

theorem make_path_dirs:
  assumes "c_string path"
  shows "fcitx_utils_make_path sys path w = Some
    (let opath = strip_slashes (cleaned path) (length (cleaned path)) in
     if fcitx_utils_isdir sys path w \<or> opath = [] then (True, w) else make_all sys (ancestors opath) w)"
  using make_path_run[OF assms] .

theorem make_path_dirs_witness:
  "fcitx_utils_make_path
     \<lparr>sys_stat = \<lambda>p w. None, sys_access = \<lambda>p m w. False, sys_mkdir = \<lambda>p m w. (0, w @ [p])\<rparr>
     (map of_char ''/a//b/'') [] = Some (True, [map of_char ''/a'', map of_char ''/a/b''])"
  by (subst make_path_dirs)
    (simp_all add: cleaned_def components.simps clean_one_def render_def SLASH_def DOT_def
      fcitx_utils_isdir_def ancestors_def upt_rec make_one_def EEXIST_def)

text \<open>
  An error other than \<open>EEXIST\<close> does not stop it: without the right to create a directory, the answer
  is still that the path has been made.
\<close>

lemma make_path_ignores_errors:
  assumes "c_string path" and "\<And>d w. fst (sys_mkdir sys d 448 w) = EACCES"
  shows "\<exists>w'. fcitx_utils_make_path sys path w = Some (True, w')"
proof -
  have one: "fst (make_one sys d w)" for d w
    using assms(2)[of d w] by (auto simp: make_one_def EACCES_def EEXIST_def split: prod.split)
  have "fst (make_all sys ds w)" for ds w
  proof (induction ds arbitrary: w)
    case (Cons d ds)
    then show ?case using one[of d w] by (cases "make_one sys d w") simp
  qed simp
  then show ?thesis
    by (simp add: make_path_run[OF assms(1)] Let_def) (metis prod.collapse)
qed

end
