(* ===== verification/Misc.thy ===== *)
theory Misc
  imports StringUtils
begin

text \<open>
  \<open>src/lib/fcitx-utils/misc.c\<close>: installation paths, replacing an owned string, the binary search that
  answers the next element when there is no equal one, and integers in files, little end first.
\<close>

section \<open>Installation paths\<close>

text \<open>
  The directories are fixed when the program is built, the environment variable \<open>FCITXDIR\<close>, when it
  is set, takes their place.  An unknown type is NULL.
\<close>

record install_dirs =
  datadir :: cstr
  pkgdatadir :: cstr
  bindir :: cstr
  libdir :: cstr
  localedir :: cstr

definition under :: "cstr option \<Rightarrow> string \<Rightarrow> cstr \<Rightarrow> cstr" where
  "under fcitxdir sub installed =
     (case fcitxdir of Some d \<Rightarrow> d @ bytes sub | None \<Rightarrow> installed)"

definition fcitx_utils_get_fcitx_path :: "install_dirs \<Rightarrow> cstr option \<Rightarrow> cstr \<Rightarrow> cstr option" where
  "fcitx_utils_get_fcitx_path inst fcitxdir typ =
     (if typ = bytes ''datadir'' then Some (under fcitxdir ''/share'' (datadir inst))
      else if typ = bytes ''pkgdatadir'' then Some (under fcitxdir ''/share/fcitx'' (pkgdatadir inst))
      else if typ = bytes ''bindir'' then Some (under fcitxdir ''/bin'' (bindir inst))
      else if typ = bytes ''libdir'' then Some (under fcitxdir ''/lib'' (libdir inst))
      else if typ = bytes ''localedir'' then Some (under fcitxdir ''/share/locale'' (localedir inst))
      else None)"

definition fcitx_utils_get_fcitx_path_with_filename ::
  "install_dirs \<Rightarrow> cstr option \<Rightarrow> cstr \<Rightarrow> cstr \<Rightarrow> cstr option" where
  "fcitx_utils_get_fcitx_path_with_filename inst fcitxdir typ filename =
     (case fcitx_utils_get_fcitx_path inst fcitxdir typ of
        None \<Rightarrow> None
      | Some path \<Rightarrow> Some (path @ bytes ''/'' @ filename))"

section \<open>Replacing an owned string\<close>

text \<open>
  \<open>same\<close> tells that the two pointers are equal.  The result is what the variable holds afterwards; the
  string it held before is gone.
\<close>

definition fcitx_utils_string_swap :: "bool \<Rightarrow> cstr option \<Rightarrow> cstr option \<Rightarrow> cstr option" where
  "fcitx_utils_string_swap same obj str =
     (if same then obj else case str of Some s \<Rightarrow> Some s | None \<Rightarrow> None)"

definition fcitx_utils_string_swap_with_len :: "cstr option \<Rightarrow> cstr option \<Rightarrow> nat \<Rightarrow> cstr option option" where
  "fcitx_utils_string_swap_with_len obj str len =
     (case str of
        Some s \<Rightarrow> (case fcitx_utils_set_str_with_len s len of None \<Rightarrow> None | Some r \<Rightarrow> Some (Some r))
      | None \<Rightarrow> Some None)"

section \<open>Binary search\<close>

text \<open>\<open>cmp\<close> compares the key with an element; the result is an index.\<close>

function search_loop :: "('a \<Rightarrow> int) \<Rightarrow> 'a list \<Rightarrow> nat \<Rightarrow> nat \<Rightarrow> nat \<times> nat" where
  "search_loop cmp base l u =
     (if l < u
      then (let idx = (l + u) div 2 in
            if cmp (base ! idx) \<le> 0 then search_loop cmp base l idx
            else search_loop cmp base (idx + 1) u)
      else (l, u))"
  by auto
termination
  by (relation "measure (\<lambda>(cmp, base, l, u). u - l)") auto

declare search_loop.simps [simp del]

definition fcitx_utils_custom_bsearch :: "bool \<Rightarrow> ('a \<Rightarrow> int) \<Rightarrow> 'a list \<Rightarrow> nat option" where
  "fcitx_utils_custom_bsearch accurate cmp base =
     (if accurate then bsearch cmp base
      else (case search_loop cmp base 0 (length base) of
              (l, u) \<Rightarrow> if u \<ge> length base then None else Some l))"

section \<open>Integers in files\<close>

text \<open>
  A file is the list of the bytes that are left to read, or that have been written.  A read of fewer
  bytes than asked for gives 0, and an unspecified value, which is \<open>None\<close>; it takes what there is.
  The bytes are those of the little-endian representation, on every machine.
\<close>

fun le_bytes :: "nat \<Rightarrow> nat \<Rightarrow> byte list" where
  "le_bytes 0 n = []"
| "le_bytes (Suc k) n = of_nat n # le_bytes k (n div 256)"

fun le_value :: "byte list \<Rightarrow> nat" where
  "le_value [] = 0"
| "le_value (b # bs) = unat b + 256 * le_value bs"

definition fread_int :: "nat \<Rightarrow> byte list \<Rightarrow> nat \<times> nat option \<times> byte list" where
  "fread_int k fp =
     (if k \<le> length fp then (1, Some (le_value (take k fp)), drop k fp) else (0, None, []))"

definition fcitx_utils_read_uint32 :: "byte list \<Rightarrow> nat \<times> 32 word option \<times> byte list" where
  "fcitx_utils_read_uint32 fp = (case fread_int 4 fp of (r, v, fp) \<Rightarrow> (r, map_option of_nat v, fp))"

definition fcitx_utils_read_uint16 :: "byte list \<Rightarrow> nat \<times> 16 word option \<times> byte list" where
  "fcitx_utils_read_uint16 fp = (case fread_int 2 fp of (r, v, fp) \<Rightarrow> (r, map_option of_nat v, fp))"

definition fcitx_utils_read_uint64 :: "byte list \<Rightarrow> nat \<times> 64 word option \<times> byte list" where
  "fcitx_utils_read_uint64 fp = (case fread_int 8 fp of (r, v, fp) \<Rightarrow> (r, map_option of_nat v, fp))"

text \<open>\<open>room\<close> is what the C library can still write; a short write gives 0.\<close>

definition fwrite_int :: "nat \<Rightarrow> nat \<Rightarrow> byte list \<Rightarrow> nat \<Rightarrow> nat \<times> byte list" where
  "fwrite_int k room fp n =
     (if k \<le> room then (1, fp @ le_bytes k n) else (0, fp @ take room (le_bytes k n)))"

definition fcitx_utils_write_uint32 :: "nat \<Rightarrow> byte list \<Rightarrow> 32 word \<Rightarrow> nat \<times> byte list" where
  "fcitx_utils_write_uint32 room fp i = fwrite_int 4 room fp (unat i)"

definition fcitx_utils_write_uint16 :: "nat \<Rightarrow> byte list \<Rightarrow> 16 word \<Rightarrow> nat \<times> byte list" where
  "fcitx_utils_write_uint16 room fp i = fwrite_int 2 room fp (unat i)"

definition fcitx_utils_write_uint64 :: "nat \<Rightarrow> byte list \<Rightarrow> 64 word \<Rightarrow> nat \<times> byte list" where
  "fcitx_utils_write_uint64 room fp i = fwrite_int 8 room fp (unat i)"

section \<open>Properties\<close>

lemma length_le_bytes [simp]: "length (le_bytes k n) = k"
  by (induction k n rule: le_bytes.induct) auto

lemma le_value_bytes: "le_value (le_bytes k n) = n mod 256 ^ k"
proof (induction k arbitrary: n)
  case (Suc k)
  have "n mod (256 * 256 ^ k) = n mod 256 + 256 * (n div 256 mod 256 ^ k)"
    by (simp add: mod_mult2_eq)
  then show ?case using Suc by (simp add: unat_of_nat)
qed simp

lemma read_written:
  "fread_int k (le_bytes k n @ rest) = (1, Some (n mod 256 ^ k), rest)"
  by (simp add: fread_int_def le_value_bytes)

lemma uint32_roundtrip:
  "4 \<le> room \<Longrightarrow> fcitx_utils_write_uint32 room [] i = (1, out) \<Longrightarrow>
   fcitx_utils_read_uint32 (out @ rest) = (1, Some i, rest)"
  using unsigned_less[of i, where 'a = nat]
  by (auto simp: fcitx_utils_write_uint32_def fcitx_utils_read_uint32_def fwrite_int_def read_written)

lemma uint16_roundtrip:
  "2 \<le> room \<Longrightarrow> fcitx_utils_write_uint16 room [] i = (1, out) \<Longrightarrow>
   fcitx_utils_read_uint16 (out @ rest) = (1, Some i, rest)"
  using unsigned_less[of i, where 'a = nat]
  by (auto simp: fcitx_utils_write_uint16_def fcitx_utils_read_uint16_def fwrite_int_def read_written)

lemma uint64_roundtrip:
  "8 \<le> room \<Longrightarrow> fcitx_utils_write_uint64 room [] i = (1, out) \<Longrightarrow>
   fcitx_utils_read_uint64 (out @ rest) = (1, Some i, rest)"
  using unsigned_less[of i, where 'a = nat]
  by (auto simp: fcitx_utils_write_uint64_def fcitx_utils_read_uint64_def fwrite_int_def read_written)

text \<open>Everything below the range is before the key, and nothing from its end on is.\<close>

lemma search_loop_run:
  assumes srt: "sorted_wrt (\<lambda>x y. cmp x \<le> 0 \<longrightarrow> cmp y \<le> 0) base"
  shows "l \<le> u \<Longrightarrow> u \<le> length base \<Longrightarrow> (\<And>i. i < l \<Longrightarrow> cmp (base ! i) > 0) \<Longrightarrow>
    (\<And>i. u \<le> i \<Longrightarrow> i < length base \<Longrightarrow> cmp (base ! i) \<le> 0) \<Longrightarrow>
    \<exists>k. search_loop cmp base l u = (k, k) \<and> k \<le> length base \<and>
      (\<forall>i < k. cmp (base ! i) > 0) \<and> (\<forall>i. k \<le> i \<and> i < length base \<longrightarrow> cmp (base ! i) \<le> 0)"
proof (induction "u - l" arbitrary: l u rule: less_induct)
  have sorted: "cmp (base ! j) \<le> 0" if "i < j" "j < length base" "cmp (base ! i) \<le> 0" for i j
    using sorted_wrt_nth_less[OF srt that(1,2)] that(3) by simp
  case less
  show ?case
  proof (cases "l < u")
    case False
    then have "l = u" using less.prems(1) by simp
    then show ?thesis using less.prems by (subst search_loop.simps) auto
  next
    case True
    let ?m = "(l + u) div 2"
    have m: "l \<le> ?m" "?m < u" "?m < length base" using True less.prems(2) by auto
    show ?thesis
    proof (cases "cmp (base ! ?m) \<le> 0")
      case le: True
      have up: "cmp (base ! i) \<le> 0" if "?m \<le> i" "i < length base" for i
        using le sorted[of ?m i] that by (cases "i = ?m") auto
      have "search_loop cmp base l u = search_loop cmp base l ?m"
        using True le by (subst search_loop.simps) (simp add: Let_def)
      then show ?thesis
        using less.hyps[of ?m l] m less.prems(2,3) up by auto
    next
      case gt: False
      have down: "cmp (base ! i) > 0" if "i < ?m + 1" for i
      proof (cases "i = ?m")
        case False
        then have "i < ?m" using that by simp
        then show ?thesis using sorted[OF _ m(3)] gt by (metis not_le)
      qed (use gt in simp)
      have "search_loop cmp base l u = search_loop cmp base (?m + 1) u"
        using True gt by (subst search_loop.simps) (simp add: Let_def)
      then show ?thesis
        using less.hyps[of u "?m + 1"] m less.prems(2,4) down True by auto
    qed
  qed
qed

text \<open>C29: Over a sorted array the inaccurate search answers the first element that is not before the
  key, and NULL when there is none.\<close>

theorem custom_bsearch_lower_bound:
  assumes "sorted_wrt (\<lambda>x y. cmp x \<le> 0 \<longrightarrow> cmp y \<le> 0) base"
  shows "case fcitx_utils_custom_bsearch False cmp base of
      Some k \<Rightarrow> k < length base \<and> cmp (base ! k) \<le> 0 \<and> (\<forall>i < k. cmp (base ! i) > 0)
    | None \<Rightarrow> \<forall>i < length base. cmp (base ! i) > 0"
proof -
  obtain k where k: "search_loop cmp base 0 (length base) = (k, k)" "k \<le> length base"
      "\<forall>i < k. cmp (base ! i) > 0" "\<forall>i. k \<le> i \<and> i < length base \<longrightarrow> cmp (base ! i) \<le> 0"
    using search_loop_run[OF assms, of 0 "length base"] by auto
  show ?thesis
  proof (cases "k < length base")
    case True
    then show ?thesis using k by (simp add: fcitx_utils_custom_bsearch_def)
  next
    case False
    then show ?thesis using k by (simp add: fcitx_utils_custom_bsearch_def)
  qed
qed

theorem custom_bsearch_lower_bound_witness:
  "(\<exists>k. fcitx_utils_custom_bsearch False (\<lambda>x. 4 - x) [1, 3, 5, 7] = Some k \<and> (4 :: int) \<le> [1, 3, 5, 7] ! k) \<and>
   sorted_wrt (\<lambda>x y. 4 - x \<le> (0 :: int) \<longrightarrow> 4 - y \<le> 0) [1, 3, 5, 7]"
proof -
  have s: "sorted_wrt (\<lambda>x y. 4 - x \<le> (0 :: int) \<longrightarrow> 4 - y \<le> 0) [1, 3, 5, 7]" by simp
  have "fcitx_utils_custom_bsearch False (\<lambda>x. 4 - x) [1, 3, 5, 7 :: int] \<noteq> None"
    by (simp add: fcitx_utils_custom_bsearch_def search_loop.simps nth_Cons')
  then show ?thesis using custom_bsearch_lower_bound[OF s] s by (auto split: option.splits)
qed

end
