(* ===== verification/StandardPath.thy ===== *)
theory StandardPath
  imports Fs Misc StringList Dict
begin

text \<open>
  \<open>src/lib/fcitx-utils/standardpath.c\<close>: the directories of the base directory specification, and
  locating, creating and listing files in them.  The environment, the user and the system calls are
  arguments; the calls act on a state of type \<open>'w\<close>.  An array of located files is the list of its
  slots, \<open>None\<close> one whose \<open>fp\<close> is NULL; a function is \<open>None\<close> when it leaves an array or passes NULL where
  the C library needs a string.
\<close>

section \<open>The directories\<close>

record standard_path =
  configHome :: "cstr option"
  configDirs :: "cstr list"
  dataHome :: "cstr option"
  dataDirs :: "cstr list"
  cacheHome :: "cstr option"
  runtimeDir :: "cstr option"
  refcount :: "32 word"
  addonDirs :: "cstr list"

datatype path_type = FSPT_Config | FSPT_Data | FSPT_Cache | FSPT_Runtime | FSPT_Addon

definition FSPFT_Writable :: u32 where "FSPFT_Writable = 1"
definition FSPFT_Append :: u32 where "FSPFT_Append = 2"
definition FSPFT_Prefix :: u32 where "FSPFT_Prefix = 4"
definition FSPFT_Suffix :: u32 where "FSPFT_Suffix = 8"
definition FSPFT_Callback :: u32 where "FSPFT_Callback = 16"
definition FSPFT_Sort :: u32 where "FSPFT_Sort = 32"
definition FSPFT_LocateAll :: u32 where "FSPFT_LocateAll = 64"
definition FSPFT_Write :: u32 where "FSPFT_Write = (FSPFT_Writable OR FSPFT_Append)"

definition has_flag :: "u32 \<Rightarrow> u32 \<Rightarrow> bool" where
  "has_flag flag f \<longleftrightarrow> flag AND f \<noteq> 0"

datatype open_mode = Mode_a | Mode_w | Mode_r

text \<open>\<open>fopen\<close> answers the stream or the error number.  \<open>readdir\<close> is the listing of a directory.\<close>

record 'w path_calls =
  fs :: "'w fs_calls"
  sys_fopen :: "cstr \<Rightarrow> open_mode \<Rightarrow> 'w \<Rightarrow> (nat + nat) \<times> 'w"
  sys_mkstemp :: "cstr \<Rightarrow> 'w \<Rightarrow> (cstr \<times> nat) option \<times> 'w"
  sys_fdopen :: "nat \<Rightarrow> 'w \<Rightarrow> nat option \<times> 'w"
  sys_close :: "nat \<Rightarrow> 'w \<Rightarrow> 'w"
  sys_readdir :: "cstr \<Rightarrow> 'w \<Rightarrow> cstr list option"

record surroundings =
  getenv :: "cstr \<Rightarrow> cstr option"
  geteuid :: nat
  inst :: install_dirs
  addondir :: cstr

definition is_set :: "cstr option \<Rightarrow> bool" where
  "is_set s \<longleftrightarrow> (case s of Some (c # _) \<Rightarrow> True | _ \<Rightarrow> False)"

text \<open>
  A home directory, or NULL.  \<open>HOME\<close> must be set.  The runtime directory has to exist, to belong to the
  user, and to have the mode 0700, which is 448.
\<close>

definition default_dir ::
  "surroundings \<Rightarrow> 'w fs_calls \<Rightarrow> cstr \<Rightarrow> cstr \<Rightarrow> 'w \<Rightarrow> (cstr option \<times> 'w) option" where
  "default_dir su sys env defaultPath w =
     (if is_set (getenv su env) then Some (getenv su env, w)
      else if defaultPath = [] \<or> hd defaultPath \<noteq> SLASH
      then (case getenv su (bytes ''HOME'') of
              None \<Rightarrow> None
            | Some home \<Rightarrow> Some (Some (home @ [SLASH] @ defaultPath), w))
      else if env = bytes ''XDG_RUNTIME_DIR''
      then (let dir = defaultPath @ bytes ''/fcitx-runtime-'' @ decimal_nat (geteuid su) in
            if fcitx_utils_isdir sys dir w then Some (Some dir, w)
            else (case sys_mkdir sys dir 448 w of
                    (err, w) \<Rightarrow> Some (if err \<noteq> 0 then None else Some dir, w)))
      else Some (Some defaultPath, w))"

definition fcitx_standard_default_path_construct ::
  "surroundings \<Rightarrow> 'w fs_calls \<Rightarrow> cstr \<Rightarrow> cstr \<Rightarrow> 'w \<Rightarrow> (cstr option \<times> 'w) option" where
  "fcitx_standard_default_path_construct su sys env defaultPath w = do {
     (dir, w) \<leftarrow> default_dir su sys env defaultPath w;
     case dir of
       None \<Rightarrow> Some (None, w)
     | Some d \<Rightarrow>
         if env = bytes ''XDG_RUNTIME_DIR''
         then (case sys_stat sys d w of
                 None \<Rightarrow> Some (None, w)
               | Some st \<Rightarrow>
                   if st_uid st \<noteq> geteuid su \<or> st_mode st \<noteq> 448 then Some (None, w) else Some (dir, w))
         else Some (dir, w) }"

text \<open>A list of directories; the installation path of \<open>fcitxPath\<close>, when given, comes first.\<close>

definition fcitx_standard_default_paths_construct ::
  "surroundings \<Rightarrow> cstr \<Rightarrow> cstr \<Rightarrow> cstr option \<Rightarrow> cstr list option" where
  "fcitx_standard_default_paths_construct su env defaultPath fcitxPath = do {
     let dirs = fcitx_utils_string_list_new;
     dirs \<leftarrow> (case fcitxPath of
        None \<Rightarrow> Some dirs
      | Some typ \<Rightarrow> do {
          path \<leftarrow> fcitx_utils_get_fcitx_path (inst su) (getenv su (bytes ''FCITXDIR'')) typ;
          Some (fcitx_utils_string_list_append_no_copy dirs path) });
     let dir = (case getenv su env of Some d \<Rightarrow> d | None \<Rightarrow> defaultPath);
     fcitx_utils_string_list_append_split_full dirs dir (bytes '':'') False }"

definition fcitx_standard_path_new ::
  "surroundings \<Rightarrow> 'w fs_calls \<Rightarrow> 'w \<Rightarrow> (standard_path \<times> 'w) option" where
  "fcitx_standard_path_new su sys w = do {
     (ch, w) \<leftarrow> fcitx_standard_default_path_construct su sys (bytes ''XDG_CONFIG_HOME'') (bytes ''.config'') w;
     cd \<leftarrow> fcitx_standard_default_paths_construct su (bytes ''XDG_CONFIG_DIRS'') (bytes ''/etc/xdg'') None;
     (dh, w) \<leftarrow> fcitx_standard_default_path_construct su sys (bytes ''XDG_DATA_HOME'') (bytes ''.local/share'') w;
     dd \<leftarrow> fcitx_standard_default_paths_construct su (bytes ''XDG_DATA_DIRS'')
        (bytes ''/usr/local/share:/usr/share'') (Some (bytes ''datadir''));
     (ca, w) \<leftarrow> fcitx_standard_default_path_construct su sys (bytes ''XDG_CACHE_HOME'') (bytes ''.cache'') w;
     let tmpdir = getenv su (bytes ''TMPDIR'');
     (rt, w) \<leftarrow> fcitx_standard_default_path_construct su sys (bytes ''XDG_RUNTIME_DIR'')
        (case tmpdir of Some (c # t) \<Rightarrow> c # t | _ \<Rightarrow> bytes ''/tmp'') w;
     ad \<leftarrow> fcitx_standard_default_paths_construct su (bytes ''FCITX_ADDON_DIRS'') (addondir su) None;
     Some (\<lparr>configHome = ch, configDirs = cd, dataHome = dh, dataDirs = dd, cacheHome = ca,
             runtimeDir = rt, refcount = 1, addonDirs = ad\<rparr>, w) }"

definition fcitx_standard_path_get :: "standard_path \<Rightarrow> path_type \<Rightarrow> cstr option \<times> cstr list option" where
  "fcitx_standard_path_get sp typ =
     (case typ of
        FSPT_Config \<Rightarrow> (configHome sp, Some (dataDirs sp))
      | FSPT_Data \<Rightarrow> (dataHome sp, Some (dataDirs sp))
      | FSPT_Cache \<Rightarrow> (cacheHome sp, None)
      | FSPT_Runtime \<Rightarrow> (runtimeDir sp, None)
      | FSPT_Addon \<Rightarrow> (None, Some (addonDirs sp)))"

text \<open>The path is cleaned in place; the outer option is for leaving the string.\<close>

definition fcitx_standard_path_construct_path :: "cstr option \<Rightarrow> cstr \<Rightarrow> cstr option option" where
  "fcitx_standard_path_construct_path basepath path =
     (if is_set basepath
      then (let result = the basepath @ [SLASH] @ path in
            do { (n, mem) \<leftarrow> fcitx_utils_clean_path (result @ [0]) 0 0; Some (Some (take n mem)) })
      else Some None)"

section \<open>Opening files\<close>

definition open_flags :: "u32 \<Rightarrow> open_mode" where
  "open_flags flag =
     (if has_flag flag FSPFT_Append then Mode_a else if has_flag flag FSPFT_Writable then Mode_w else Mode_r)"

text \<open>The directory part of a path, as \<open>dirname\<close> of the C library.\<close>

definition chop_slashes :: "cstr \<Rightarrow> cstr" where
  "chop_slashes s = rev (dropWhile (\<lambda>c. c = SLASH) (rev s))"

definition dirname :: "cstr \<Rightarrow> cstr" where
  "dirname s =
     (let t = chop_slashes s in
      if t = [] then (if s = [] then [DOT] else [SLASH])
      else if SLASH \<notin> set t then [DOT]
      else (let d = chop_slashes (rev (dropWhile (\<lambda>c. c \<noteq> SLASH) (rev t))) in
            if d = [] then [SLASH] else d))"

definition fcitx_standard_path_try_open ::
  "'w path_calls \<Rightarrow> cstr option \<Rightarrow> cstr \<Rightarrow> u32 \<Rightarrow> 'w \<Rightarrow> ((nat \<times> cstr) option \<times> 'w) option" where
  "fcitx_standard_path_try_open sys basepath path flag w = do {
     fullPath \<leftarrow> fcitx_standard_path_construct_path basepath path;
     case fullPath of
       None \<Rightarrow> Some (None, w)
     | Some full \<Rightarrow>
         (case sys_fopen sys full (open_flags flag) w of
            (Inr fp, w) \<Rightarrow> Some (Some (fp, full), w)
          | (Inl err, w) \<Rightarrow>
              if err = ENOENT \<and> has_flag flag FSPFT_Write
              then do {
                (made, w) \<leftarrow> fcitx_utils_make_path (fs sys) (dirname full) w;
                if made
                then (case sys_fopen sys full (open_flags flag) w of
                        (Inr fp, w) \<Rightarrow> Some (Some (fp, full), w)
                      | (Inl err, w) \<Rightarrow> Some (None, w))
                else Some (None, w) }
              else Some (None, w)) }"

text \<open>Storing a file at an index of the array.\<close>

type_synonym file_slots = "(nat \<times> cstr) option list"

definition put_file :: "file_slots \<Rightarrow> nat \<Rightarrow> nat \<times> cstr \<Rightarrow> file_slots option" where
  "put_file r idx f = (if idx < length r then Some (r[idx := Some f]) else None)"

text \<open>The directories of the list; the array is allocated with the first file that is found.\<close>

fun locate_dirs ::
  "'w path_calls \<Rightarrow> cstr list \<Rightarrow> cstr \<Rightarrow> u32 \<Rightarrow> nat \<Rightarrow> file_slots option \<Rightarrow> nat \<Rightarrow> 'w \<Rightarrow>
   (file_slots option \<times> 'w) option" where
  "locate_dirs sys [] path flag resultSize result idx w = Some (result, w)"
| "locate_dirs sys (dir # dirs) path flag resultSize result idx w =
     (if idx = 1 \<and> \<not> has_flag flag FSPFT_LocateAll then Some (result, w)
      else do {
        (file, w) \<leftarrow> fcitx_standard_path_try_open sys (Some dir) path flag w;
        case file of
          None \<Rightarrow> locate_dirs sys dirs path flag resultSize result idx w
        | Some f \<Rightarrow> do {
            r \<leftarrow> put_file (case result of Some r \<Rightarrow> r | None \<Rightarrow> replicate resultSize None) idx f;
            locate_dirs sys dirs path flag resultSize (Some r) (idx + 1) w } })"

definition fcitx_standard_path_locate ::
  "'w path_calls \<Rightarrow> standard_path \<Rightarrow> path_type \<Rightarrow> cstr \<Rightarrow> u32 \<Rightarrow> 'w \<Rightarrow> (file_slots option \<times> 'w) option"
where
  "fcitx_standard_path_locate sys sp typ path flag w =
     (if path \<noteq> [] \<and> hd path = SLASH
      then (case sys_fopen sys path (open_flags flag) w of
              (Inl err, w) \<Rightarrow> Some (None, w)
            | (Inr fp, w) \<Rightarrow> Some (Some [Some (fp, path), None], w))
      else (case fcitx_standard_path_get sp typ of
        (firstDir, lst) \<Rightarrow>
          if firstDir = None \<and> lst = None then Some (None, w)
          else do {
            (fileFirst, w) \<leftarrow> (if firstDir \<noteq> None
                              then fcitx_standard_path_try_open sys firstDir path flag w
                              else Some (None, w));
            case (if has_flag flag FSPFT_Write then None else lst) of
              None \<Rightarrow>
                (case fileFirst of
                   None \<Rightarrow> Some (None, w)
                 | Some f \<Rightarrow> Some (Some [Some f, None], w))
            | Some dirs \<Rightarrow>
                (let resultSize = (if has_flag flag FSPFT_LocateAll
                       then 1 + (if fileFirst \<noteq> None then 1 else 0) + length dirs else 2) in
                 case fileFirst of
                   None \<Rightarrow> locate_dirs sys dirs path flag resultSize None 0 w
                 | Some f \<Rightarrow> do {
                     r \<leftarrow> put_file (replicate resultSize None) 0 f;
                     locate_dirs sys dirs path flag resultSize (Some r) 1 w }) }))"

text \<open>Closing: the files up to the first NULL; the closed streams are the result.\<close>

fun close_files :: "file_slots \<Rightarrow> nat list option" where
  "close_files [] = None"
| "close_files (None # r) = Some []"
| "close_files (Some f # r) = map_option ((#) (fst f)) (close_files r)"

definition fcitx_standard_path_file_close :: "file_slots option \<Rightarrow> nat list option" where
  "fcitx_standard_path_file_close file = (case file of None \<Rightarrow> Some [] | Some r \<Rightarrow> close_files r)"

section \<open>Temporary files\<close>

definition fcitx_standard_path_mktemp ::
  "'w path_calls \<Rightarrow> cstr option \<Rightarrow> 'w \<Rightarrow> ((nat \<times> cstr) option \<times> 'w) option" where
  "fcitx_standard_path_mktemp sys newPath w =
     (case newPath of
        None \<Rightarrow> None
      | Some p \<Rightarrow>
          (case sys_mkstemp sys p w of
             (None, w) \<Rightarrow> Some (None, w)
           | (Some (p, fd), w) \<Rightarrow>
               (case sys_fdopen sys fd w of
                  (None, w) \<Rightarrow> Some (None, sys_close sys fd w)
                | (Some fp, w) \<Rightarrow> Some (Some (fp, p), w))))"

definition fcitx_standard_path_create_tempfile ::
  "'w path_calls \<Rightarrow> standard_path \<Rightarrow> path_type \<Rightarrow> cstr \<Rightarrow> 'w \<Rightarrow> ((nat \<times> cstr) option \<times> 'w) option" where
  "fcitx_standard_path_create_tempfile sys sp typ path w =
     (if \<not> fcitx_utils_string_ends_with path (bytes ''XXXXXX'') then Some (None, w)
      else if hd path = SLASH then fcitx_standard_path_mktemp sys (Some path) w
      else (case fcitx_standard_path_get sp typ of
        (firstDir, lst) \<Rightarrow>
          if firstDir \<noteq> None
          then do {
            fullPath \<leftarrow> fcitx_standard_path_construct_path firstDir path;
            fcitx_standard_path_mktemp sys fullPath w }
          else Some (None, w)))"

section \<open>Listing files\<close>

record path_filter =
  filter_flag :: u32
  callback :: "cstr \<Rightarrow> bool"
  suffix :: cstr
  prefix :: cstr

text \<open>Whether the name of an entry passes.\<close>

definition name_passes :: "path_filter \<Rightarrow> cstr \<Rightarrow> bool" where
  "name_passes f name =
     (let prefixlen = (if has_flag (filter_flag f) FSPFT_Prefix then length (prefix f) else 0);
          suffixlen = (if has_flag (filter_flag f) FSPFT_Suffix then length (suffix f) else 0) in
      if length name \<le> suffixlen + prefixlen then False
      else if has_flag (filter_flag f) FSPFT_Suffix \<and> strcmp (drop (length name - suffixlen) name) (suffix f) \<noteq> 0
        then False
      else if has_flag (filter_flag f) FSPFT_Prefix \<and> strncmp name (prefix f) prefixlen \<noteq> 0 then False
      else if has_flag (filter_flag f) FSPFT_Callback \<and> \<not> callback f name then False
      else True)"

fun collect_names ::
  "path_filter \<Rightarrow> cstr list \<Rightarrow> file_slots option dict \<Rightarrow> file_slots option dict" where
  "collect_names f [] d = d"
| "collect_names f (name # names) d =
     collect_names f names
       (if name_passes f name \<and> fcitx_dict_lookup name d = None
        then snd (fcitx_dict_insert name None False d) else d)"

fun collect_dirs ::
  "'w path_calls \<Rightarrow> cstr list \<Rightarrow> cstr \<Rightarrow> path_filter \<Rightarrow> 'w \<Rightarrow> file_slots option dict \<Rightarrow>
   file_slots option dict option" where
  "collect_dirs sys [] path f w d = Some d"
| "collect_dirs sys (dir # dirs) path f w d = do {
     fullPath \<leftarrow> fcitx_standard_path_construct_path (Some dir) path;
     full \<leftarrow> fullPath;
     collect_dirs sys dirs path f w
       (case sys_readdir sys full w of None \<Rightarrow> d | Some names \<Rightarrow> collect_names f names d) }"

text \<open>The callbacks of the two passes over the dictionary; the first threads the state along.\<close>

definition fcitx_standard_path_foreach_func ::
  "'w path_calls \<Rightarrow> standard_path \<Rightarrow> path_type \<Rightarrow> cstr \<Rightarrow> u32 \<Rightarrow> (file_slots option, 'w option) foreach_func"
where
  "fcitx_standard_path_foreach_func sys sp typ path fl key data s =
     (case s of
        None \<Rightarrow> (False, data, None)
      | Some w \<Rightarrow>
          (case fcitx_standard_path_locate sys sp typ
                  (path @ (if path \<noteq> [] then [SLASH] else []) @ key) fl w of
             None \<Rightarrow> (False, data, None)
           | Some (r, w) \<Rightarrow> (False, r, Some w)))"

definition fcitx_standard_path_remove_if_empty_func :: "(file_slots option, unit) foreach_func" where
  "fcitx_standard_path_remove_if_empty_func key data s = (data = None, data, s)"

definition fcitx_standard_path_match ::
  "'w path_calls \<Rightarrow> standard_path \<Rightarrow> path_type \<Rightarrow> cstr \<Rightarrow> path_filter \<Rightarrow> 'w \<Rightarrow>
   (file_slots option dict option \<times> 'w) option" where
  "fcitx_standard_path_match sys sp typ path f w =
     (case fcitx_standard_path_get sp typ of
        (firstDir, lst) \<Rightarrow>
          if firstDir = None \<and> lst = None then Some (None, w)
          else do {
            d \<leftarrow> collect_dirs sys
              ((case firstDir of Some dir \<Rightarrow> [dir] | None \<Rightarrow> []) @ (case lst of Some dirs \<Rightarrow> dirs | None \<Rightarrow> []))
              path f w (fcitx_dict_new True);
            let (d, s) = fcitx_dict_foreach
              (fcitx_standard_path_foreach_func sys sp typ path (filter_flag f)) d (Some w);
            w \<leftarrow> s;
            (d, _) \<leftarrow> fcitx_dict_remove_if fcitx_standard_path_remove_if_empty_func d ();
            Some (Some (if has_flag (filter_flag f) FSPFT_Sort then fcitx_dict_sort None d else d), w) })"

section \<open>Properties of the directories\<close>

text \<open>\<open>stat\<close> answers a mode with the type of the file in it.\<close>

definition typed_modes :: "'w fs_calls \<Rightarrow> bool" where
  "typed_modes sys \<longleftrightarrow> (\<forall>p w st. sys_stat sys p w = Some st \<longrightarrow> file_type st \<noteq> 0)"

lemma runtime_dir_mode:
  assumes "typed_modes sys"
    and "fcitx_standard_default_path_construct su sys (bytes ''XDG_RUNTIME_DIR'') d w = Some (r, w')"
  shows "r = None"
proof -
  have "st_mode st \<noteq> 448" if "sys_stat sys p w = Some st" for p w st
  proof
    assume "st_mode st = 448"
    then have "file_type st = 0" by (simp add: file_type_def)
    then show False using assms(1) that unfolding typed_modes_def by metis
  qed
  then show ?thesis
    using assms(2) unfolding fcitx_standard_default_path_construct_def
    by (auto simp: bind_eq_Some_conv split: option.splits if_splits)
qed

lemma new_fields:
  assumes "fcitx_standard_path_new su sys w = Some (sp, w')"
  shows "\<exists>w1 w2 d. fcitx_standard_default_path_construct su sys (bytes ''XDG_RUNTIME_DIR'') d w1 = Some (runtimeDir sp, w2)"
  using assms unfolding fcitx_standard_path_new_def Let_def
  by (auto simp: bind_eq_Some_conv simp del: bytes_simps split: prod.splits) blast+

text \<open>The runtime directory is always NULL, because its mode is compared with the permissions alone:
  a mode that \<open>stat\<close> answers says the type of the file, too.  So no file is ever located there.\<close>

theorem runtime_dir_never:
  assumes "typed_modes sys"
    and "fcitx_standard_path_new su sys w = Some (sp, w')"
    and "path = [] \<or> hd path \<noteq> SLASH"
  shows "runtimeDir sp = None \<and> fcitx_standard_path_locate c sp FSPT_Runtime path flag w2 = Some (None, w2)"
proof -
  have "runtimeDir sp = None" using new_fields[OF assms(2)] runtime_dir_mode[OF assms(1)] by blast
  then show ?thesis
    using assms(3) by (auto simp: fcitx_standard_path_locate_def fcitx_standard_path_get_def)
qed

definition env1 :: surroundings where
  "env1 = \<lparr>getenv = (\<lambda>e. if e = bytes ''HOME'' then Some (bytes ''/h'')
      else if e = bytes ''XDG_RUNTIME_DIR'' then Some (bytes ''/run'') else None), geteuid = 7,
    inst = \<lparr>datadir = bytes ''/d'', pkgdatadir = [], bindir = [], libdir = [], localedir = []\<rparr>,
    addondir = bytes ''/a''\<rparr>"

definition fs1 :: "unit fs_calls" where
  "fs1 = \<lparr>sys_stat = (\<lambda>p w. Some \<lparr>st_mode = 16384 + 448, st_uid = 7\<rparr>), sys_access = (\<lambda>p m w. True),
    sys_mkdir = (\<lambda>p m w. (EEXIST, w))\<rparr>"

lemma env1_new: "\<exists>sp. fcitx_standard_path_new env1 fs1 () = Some (sp, ())"
  by (simp add: fcitx_standard_path_new_def fcitx_standard_default_path_construct_def default_dir_def
      fcitx_standard_default_paths_construct_def env1_def fs1_def is_set_def
      fcitx_utils_get_fcitx_path_def under_def fcitx_utils_string_list_new_def
      fcitx_utils_string_list_append_no_copy_def fcitx_utils_string_list_append_split_full.simps
      fcitx_utils_string_list_append_len_def fcitx_utils_set_str_with_len_def strcspn_def SLASH_def
      bytes_def Let_def)

theorem runtime_dir_never_witness:
  "\<exists>sp. fcitx_standard_path_new env1 fs1 () = Some (sp, ()) \<and> runtimeDir sp = None"
proof -
  have t: "typed_modes fs1" by (auto simp: typed_modes_def fs1_def file_type_def)
  obtain sp where sp: "fcitx_standard_path_new env1 fs1 () = Some (sp, ())" using env1_new by blast
  have "runtimeDir sp = None"
    by (rule runtime_dir_never[OF t sp, of "[]", OF disjI1[OF refl], THEN conjunct1])
  then show ?thesis using sp by blast
qed

text \<open>The directories of the system configuration are never looked at.\<close>

lemma config_searches_data:
  "fcitx_standard_path_get sp FSPT_Config = (configHome sp, Some (dataDirs sp))"
  by (simp add: fcitx_standard_path_get_def)

section \<open>Properties of locating\<close>

lemma construct_path_run:
  assumes "is_set base" and "c_string (the base)" and "c_string path"
  shows "fcitx_standard_path_construct_path base path = Some (Some (cleaned (the base @ [SLASH] @ path)))"
proof -
  let ?s = "the base @ [SLASH] @ path"
  have s: "c_string ?s" "?s \<noteq> []" using assms(2,3) by (simp_all add: SLASH_def)
  have l: "layout (?s @ [0]) 0 0 ?s" by (simp add: layout_def)
  obtain mem where m: "fcitx_utils_clean_path (?s @ [0]) 0 0 = Some (length (cleaned ?s), mem)"
      "take (length (cleaned ?s) + 1) (drop 0 mem) = cleaned ?s @ [0]"
    using clean_path_run[OF l s] by auto
  have "take (length (cleaned ?s)) mem = cleaned ?s"
    using arg_cong[OF m(2), of "take (length (cleaned ?s))"] by simp
  then show ?thesis using assms(1) m(1) by (simp add: fcitx_standard_path_construct_path_def)
qed

lemma construct_path_unset: "\<not> is_set base \<Longrightarrow> fcitx_standard_path_construct_path base path = Some None"
  by (simp add: fcitx_standard_path_construct_path_def)

text \<open>What reading finds in a directory, when opening a file for reading changes nothing.\<close>

definition hit :: "(cstr \<Rightarrow> nat + nat) \<Rightarrow> cstr \<Rightarrow> cstr \<Rightarrow> (nat \<times> cstr) option" where
  "hit opened path dir =
     (if dir = [] then None
      else let full = cleaned (dir @ [SLASH] @ path) in
        case opened full of Inl err \<Rightarrow> None | Inr fp \<Rightarrow> Some (fp, full))"

definition hits :: "(cstr \<Rightarrow> nat + nat) \<Rightarrow> cstr \<Rightarrow> u32 \<Rightarrow> cstr list \<Rightarrow> (nat \<times> cstr) list" where
  "hits opened path fl dirs =
     (let all = List.map_filter (hit opened path) dirs in
      if has_flag fl FSPFT_LocateAll then all else take 1 all)"

definition reads :: "'w path_calls \<Rightarrow> (cstr \<Rightarrow> nat + nat) \<Rightarrow> bool" where
  "reads c opened \<longleftrightarrow> (\<forall>p w. sys_fopen c p Mode_r w = (opened p, w))"

lemma not_write:
  assumes "\<not> has_flag fl FSPFT_Write"
  shows "open_flags fl = Mode_r"
proof -
  have "fl AND FSPFT_Writable = 0 \<and> fl AND FSPFT_Append = 0"
    using assms by (simp add: has_flag_def FSPFT_Write_def bit.conj_disj_distrib)
      (metis or_eq_0_iff)
  then show ?thesis by (simp add: open_flags_def has_flag_def)
qed

lemma try_open_reads:
  assumes "reads c opened" and "\<not> has_flag fl FSPFT_Write" and "c_string path" and "c_string dir"
  shows "fcitx_standard_path_try_open c (Some dir) path fl w = Some (hit opened path dir, w)"
proof (cases dir)
  case Nil
  then show ?thesis
    by (simp add: fcitx_standard_path_try_open_def construct_path_unset is_set_def hit_def)
next
  case (Cons x xs)
  then have "is_set (Some dir)" by (simp add: is_set_def)
  then have "fcitx_standard_path_construct_path (Some dir) path = Some (Some (cleaned (dir @ [SLASH] @ path)))"
    using construct_path_run[of "Some dir" path] assms(3,4) by simp
  then show ?thesis
    using assms(1,2) Cons not_write[OF assms(2)]
    by (auto simp: fcitx_standard_path_try_open_def hit_def reads_def Let_def split: sum.split)
qed


text \<open>
  The loop over the list, with \<open>n\<close> files found before it: there is room for all it finds, and a slot
  is left for the terminator.
\<close>

definition slots_of :: "nat \<Rightarrow> (nat \<times> cstr) list \<Rightarrow> file_slots" where
  "slots_of k found = map Some found @ replicate (k - length found) None"

lemma put_slots:
  assumes "length found < k"
  shows "put_file (slots_of k found) (length found) f = Some (slots_of k (found @ [f]))"
proof -
  obtain m where k: "k = Suc (length found + m)" using assms less_imp_Suc_add by blast
  have "slots_of k found = map Some found @ None # replicate m None" by (simp add: slots_of_def k)
  moreover have "slots_of k (found @ [f]) = map Some found @ Some f # replicate m None"
    by (simp add: slots_of_def k)
  ultimately show ?thesis by (simp add: put_file_def list_update_append)
qed

lemma locate_dirs_reads:
  assumes "reads c opened" and "\<not> has_flag fl FSPFT_Write" and "c_string path"
  shows "\<forall>d \<in> set dirs. c_string d \<Longrightarrow>
    (if has_flag fl FSPFT_LocateAll then length found + length dirs < k else k = 2 \<and> length found \<le> 1) \<Longrightarrow>
    result = (if found = [] then None else Some (slots_of k found)) \<Longrightarrow>
    locate_dirs c dirs path fl k result (length found) w =
      Some (let all = (if has_flag fl FSPFT_LocateAll then found @ List.map_filter (hit opened path) dirs
                       else take 1 (found @ List.map_filter (hit opened path) dirs))
            in if all = [] then None else Some (slots_of k all), w)"
proof (induction dirs arbitrary: found result)
  case Nil
  then show ?case by (auto simp: map_filter_def)
next
  case (Cons d dirs)
  show ?case
  proof (cases "length found = 1 \<and> \<not> has_flag fl FSPFT_LocateAll")
    case True
    then obtain f where "found = [f]" by (auto simp: length_Suc_conv)
    then show ?thesis using True Cons.prems(3) by simp
  next
    case False
    have op: "fcitx_standard_path_try_open c (Some d) path fl w = Some (hit opened path d, w)"
      using try_open_reads[OF assms] Cons.prems(1) by simp
    show ?thesis
    proof (cases "hit opened path d")
      case None
      then show ?thesis
        using False op Cons.IH[OF _ _ Cons.prems(3)] Cons.prems(1,2)
        by (auto simp: map_filter_simps)
    next
      case (Some f)
      have k: "length found < k" using Cons.prems(2) by (auto split: if_splits)
      have s0: "slots_of k [] = replicate k None" by (simp add: slots_of_def)
      have "put_file (case result of Some r \<Rightarrow> r | None \<Rightarrow> replicate k None) (length found) f =
          Some (slots_of k (found @ [f]))"
        using put_slots[OF k] Cons.prems(3) s0 by (auto split: if_splits)
      moreover have "if has_flag fl FSPFT_LocateAll then length (found @ [f]) + length dirs < k
          else k = 2 \<and> length (found @ [f]) \<le> 1"
        using Cons.prems(2) False by (auto simp: le_Suc_eq split: if_splits)
      ultimately show ?thesis
        using False op Some Cons.IH[of "found @ [f]" "Some (slots_of k (found @ [f]))"] Cons.prems(1)
        by (auto simp: map_filter_simps)
    qed
  qed
qed

lemma locate_run:
  assumes "reads c opened" and "\<not> has_flag fl FSPFT_Write" and "c_string path"
    and "path = [] \<or> hd path \<noteq> SLASH"
    and "fcitx_standard_path_get sp typ = (first, Some dirs)"
    and "list_all c_string (case first of Some d \<Rightarrow> d # dirs | None \<Rightarrow> dirs)"
  shows "\<exists>k. fcitx_standard_path_locate c sp typ path fl w =
      (let found = hits opened path fl (case first of Some d \<Rightarrow> d # dirs | None \<Rightarrow> dirs) in
       Some (if found = [] then None else Some (map Some found @ replicate (Suc k) None), w))"
proof -
  let ?all = "case first of Some d \<Rightarrow> d # dirs | None \<Rightarrow> dirs"
  let ?found = "hits opened path fl ?all"
  define hf where "hf = (case first of Some d \<Rightarrow> hit opened path d | None \<Rightarrow> None)"
  define k where "k = (if has_flag fl FSPFT_LocateAll then 1 + (if hf \<noteq> None then 1 else 0) + length dirs else 2)"
  have cs: "\<forall>d \<in> set dirs. c_string d" using assms(6) by (auto simp: list_all_iff split: option.splits)
  have op: "(if first \<noteq> None then fcitx_standard_path_try_open c first path fl w else Some (None, w)) =
      Some (hf, w)"
    using try_open_reads[OF assms(1-3)] assms(6) by (auto simp: hf_def list_all_iff split: option.splits)
  have fnd: "?found = (let all = (case hf of Some f \<Rightarrow> [f] | None \<Rightarrow> []) @ List.map_filter (hit opened path) dirs
      in if has_flag fl FSPFT_LocateAll then all else take 1 all)"
    by (auto simp: hits_def hf_def map_filter_simps split: option.splits)
  have len: "length ?found < k"
  proof -
    have "length (List.map_filter (hit opened path) dirs) \<le> length dirs"
      by (simp add: map_filter_def)
    then show ?thesis by (auto simp: fnd k_def Let_def split: option.split)
  qed
  have run: "fcitx_standard_path_locate c sp typ path fl w =
      Some (if ?found = [] then None else Some (slots_of k ?found), w)"
  proof (cases hf)
    case None
    have l: "if has_flag fl FSPFT_LocateAll then length [] + length dirs < k else k = 2 \<and> length [] \<le> 1"
      using None by (auto simp: k_def)
    have "fcitx_standard_path_locate c sp typ path fl w = locate_dirs c dirs path fl k None 0 w"
      using assms(2,4) op None unfolding fcitx_standard_path_locate_def assms(5)
      by (auto simp: k_def Let_def)
    also have "\<dots> = Some (if ?found = [] then None else Some (slots_of k ?found), w)"
      using locate_dirs_reads[OF assms(1-3) cs l, of None w] None by (simp add: fnd Let_def)
    finally show ?thesis .
  next
    case (Some f)
    have l: "if has_flag fl FSPFT_LocateAll then length [f] + length dirs < k else k = 2 \<and> length [f] \<le> 1"
      using Some by (auto simp: k_def)
    have p: "put_file (replicate k None) 0 f = Some (slots_of k [f])"
      using put_slots[of "[]" k f] l by (simp add: slots_of_def k_def)
    have "fcitx_standard_path_locate c sp typ path fl w =
        locate_dirs c dirs path fl k (Some (slots_of k [f])) 1 w"
      using assms(2,4) op Some p unfolding fcitx_standard_path_locate_def assms(5)
      by (auto simp: k_def Let_def)
    also have "\<dots> = Some (if ?found = [] then None else Some (slots_of k ?found), w)"
      using locate_dirs_reads[OF assms(1-3) cs l, of "Some (slots_of k [f])" w] Some by (simp add: fnd Let_def)
    finally show ?thesis .
  qed
  have "k - length ?found = Suc (k - length ?found - 1)" using len by simp
  then have "slots_of k ?found = map Some ?found @ replicate (Suc (k - length ?found - 1)) None"
    unfolding slots_of_def by metis
  then show ?thesis using run by (auto simp: Let_def)
qed


text \<open>C30: Locating a file to read answers the first one that can be opened, or all of them when asked to,
  in the order of the home directory and the list, and NULL when there is none; the array always ends
  in a NULL file, so it can be closed.\<close>

theorem locate_reads:
  assumes "reads c opened" and "\<not> has_flag fl FSPFT_Write" and "c_string path"
    and "path = [] \<or> hd path \<noteq> SLASH"
    and "fcitx_standard_path_get sp typ = (first, Some dirs)"
    and "list_all c_string (case first of Some d \<Rightarrow> d # dirs | None \<Rightarrow> dirs)"
  shows "\<exists>k. fcitx_standard_path_locate c sp typ path fl w =
      (let found = hits opened path fl (case first of Some d \<Rightarrow> d # dirs | None \<Rightarrow> dirs) in
       Some (if found = [] then None else Some (map Some found @ replicate (Suc k) None), w))"
  using locate_run[OF assms] .

definition calls1 :: "unit path_calls" where
  "calls1 = \<lparr>fs = fs1,
    sys_fopen = (\<lambda>p m w. (if p = bytes ''/d/x'' \<or> p = bytes ''/e/x'' then Inr 3 else Inl ENOENT, w)),
    sys_mkstemp = (\<lambda>p w. (None, w)), sys_fdopen = (\<lambda>fd w. (None, w)), sys_close = (\<lambda>fd w. w),
    sys_readdir = (\<lambda>p w. if p = bytes ''/d/'' then Some [bytes ''x'', bytes ''y''] else None)\<rparr>"

definition sp1 :: standard_path where
  "sp1 = \<lparr>configHome = None, configDirs = [], dataHome = Some (bytes ''/h''),
    dataDirs = [bytes ''/d'', bytes ''/e''], cacheHome = None, runtimeDir = None, refcount = 1, addonDirs = []\<rparr>"

lemma calls1_reads:
  "reads calls1 (\<lambda>p. if p = bytes ''/d/x'' \<or> p = bytes ''/e/x'' then Inr 3 else Inl ENOENT)"
  by (simp add: reads_def calls1_def)

theorem locate_reads_witness:
  "\<exists>k. fcitx_standard_path_locate calls1 sp1 FSPT_Data (bytes ''x'') 0 () =
     Some (Some (Some (3, bytes ''/d/x'') # replicate (Suc k) None), ())"
  using locate_reads[OF calls1_reads, of 0 "bytes ''x''" sp1 FSPT_Data "Some (bytes ''/h'')"
      "[bytes ''/d'', bytes ''/e'']" "()"]
  by (simp add: has_flag_def hits_def map_filter_simps hit_def sp1_def fcitx_standard_path_get_def
      SLASH_def cleaned_def components.simps clean_one_def render_def DOT_def)

section \<open>Properties of listing\<close>

text \<open>The names, in the order in which they are met first.\<close>

fun add_names :: "path_filter \<Rightarrow> cstr list \<Rightarrow> cstr list \<Rightarrow> cstr list" where
  "add_names f [] acc = acc"
| "add_names f (n # ns) acc = add_names f ns (if name_passes f n \<and> n \<notin> set acc then acc @ [n] else acc)"

lemma add_names_set: "set (add_names f ns acc) = set acc \<union> {n \<in> set ns. name_passes f n}"
  by (induction f ns acc rule: add_names.induct) auto

lemma add_names_distinct: "distinct acc \<Longrightarrow> distinct (add_names f ns acc)"
  by (induction f ns acc rule: add_names.induct) auto

definition blank :: "cstr list \<Rightarrow> (cstr \<times> file_slots option) list" where
  "blank ns = map (\<lambda>n. (n, None)) ns"

lemma blank_find: "items d = blank acc \<Longrightarrow> fcitx_dict_lookup n d = None \<longleftrightarrow> n \<notin> set acc"
  by (auto simp: fcitx_dict_lookup_def HASH_FIND_def blank_def map_of_eq_None_iff image_image)

lemma collect_names_run:
  "dict_ok d \<Longrightarrow> items d = blank acc \<Longrightarrow>
   dict_ok (collect_names f ns d) \<and> items (collect_names f ns d) = blank (add_names f ns acc)"
proof (induction ns arbitrary: d acc)
  case Nil
  then show ?case by simp
next
  case (Cons n ns)
  show ?case
  proof (cases "name_passes f n \<and> n \<notin> set acc")
    case True
    let ?d = "snd (fcitx_dict_insert n None False d)"
    have look: "fcitx_dict_lookup n d = None" using blank_find[OF Cons.prems(2)] True by simp
    have "items ?d = blank (acc @ [n])"
      using look Cons.prems(2)
      by (simp add: fcitx_dict_insert_def fcitx_dict_lookup_def HASH_ADD_def blank_def)
    moreover have "dict_ok ?d" using insert_ok[OF Cons.prems(1)] by blast
    ultimately show ?thesis using Cons.IH True look by simp
  next
    case False
    then show ?thesis using Cons.IH[OF Cons.prems] blank_find[OF Cons.prems(2), of n] by auto
  qed
qed

text \<open>The entries of all directories.\<close>

definition listed :: "'w path_calls \<Rightarrow> 'w \<Rightarrow> cstr \<Rightarrow> cstr list \<Rightarrow> cstr list" where
  "listed c w path dirs =
     concat (map (\<lambda>d. case sys_readdir c (cleaned (d @ [SLASH] @ path)) w of None \<Rightarrow> [] | Some ns \<Rightarrow> ns) dirs)"

lemma add_names_append: "add_names f (xs @ ys) acc = add_names f ys (add_names f xs acc)"
  by (induction xs arbitrary: acc) auto

lemma collect_dirs_run:
  assumes "c_string path"
  shows "\<forall>d \<in> set dirs. c_string d \<and> d \<noteq> [] \<Longrightarrow> dict_ok d \<Longrightarrow> items d = blank acc \<Longrightarrow>
    \<exists>d'. collect_dirs c dirs path f w d = Some d' \<and> dict_ok d' \<and>
      items d' = blank (add_names f (listed c w path dirs) acc)"
proof (induction dirs arbitrary: d acc)
  case Nil
  then show ?case by (simp add: listed_def)
next
  case (Cons x dirs)
  have "is_set (Some x)" using Cons.prems(1) by (cases x) (auto simp: is_set_def)
  then have p: "fcitx_standard_path_construct_path (Some x) path = Some (Some (cleaned (x @ [SLASH] @ path)))"
    using construct_path_run[of "Some x" path] assms Cons.prems(1) by simp
  let ?full = "cleaned (x @ [SLASH] @ path)"
  let ?d = "case sys_readdir c ?full w of None \<Rightarrow> d | Some names \<Rightarrow> collect_names f names d"
  let ?acc = "case sys_readdir c ?full w of None \<Rightarrow> acc | Some names \<Rightarrow> add_names f names acc"
  have "dict_ok ?d \<and> items ?d = blank ?acc"
    using collect_names_run[OF Cons.prems(2,3)] Cons.prems(2,3) by (auto split: option.split)
  then obtain d' where "collect_dirs c dirs path f w ?d = Some d'" "dict_ok d'"
      "items d' = blank (add_names f (listed c w path dirs) ?acc)"
    using Cons.IH[of ?d ?acc] Cons.prems(1) by auto
  then show ?case
    using p by (auto simp: listed_def add_names_append split: option.splits)
qed


definition join_path :: "cstr \<Rightarrow> cstr \<Rightarrow> cstr" where
  "join_path path n = path @ (if path \<noteq> [] then [SLASH] else []) @ n"

lemma locate_keeps_state:
  assumes "reads c opened" and "\<not> has_flag fl FSPFT_Write" and "c_string path"
    and "fcitx_standard_path_get sp typ = (first, lst)"
    and "case first of Some d \<Rightarrow> c_string d | None \<Rightarrow> True"
    and "case lst of Some ds \<Rightarrow> list_all c_string ds | None \<Rightarrow> True"
  shows "\<exists>r. fcitx_standard_path_locate c sp typ path fl w = Some (r, w)"
proof (cases "path \<noteq> [] \<and> hd path = SLASH")
  case True
  then show ?thesis
    using assms(1) not_write[OF assms(2)]
    by (auto simp: fcitx_standard_path_locate_def reads_def split: sum.split)
next
  case False
  show ?thesis
  proof (cases lst)
    case None
    have "\<exists>f. (if first \<noteq> None then fcitx_standard_path_try_open c first path fl w else Some (None, w)) =
        Some (f, w)"
      using try_open_reads[OF assms(1-3)] assms(5) by (cases first) auto
    then show ?thesis
      using False None assms(4) by (auto simp: fcitx_standard_path_locate_def split: option.split)
  next
    case (Some dirs)
    have "list_all c_string (case first of Some d \<Rightarrow> d # dirs | None \<Rightarrow> dirs)"
      using assms(5,6) Some by (simp split: option.splits)
    then show ?thesis
      using locate_run[OF assms(1-3) _ assms(4)[unfolded Some], of w] False by (auto simp: Let_def)
  qed
qed

lemma foreach_run:
  assumes "\<And>n. n \<in> set ns \<Longrightarrow>
    \<exists>r. fcitx_standard_path_locate c sp typ (join_path path n) fl w = Some (r, w)"
  shows "foreach_loop (fcitx_standard_path_foreach_func c sp typ path fl) (blank ns) (Some w) =
    (map (\<lambda>n. (n, fst (the (fcitx_standard_path_locate c sp typ (join_path path n) fl w)))) ns, Some w)"
  using assms
proof (induction ns)
  case Nil
  then show ?case by (simp add: blank_def)
next
  case (Cons n ns)
  obtain r where "fcitx_standard_path_locate c sp typ (join_path path n) fl w = Some (r, w)"
    using Cons.prems by fastforce
  then show ?case
    using Cons by (simp add: blank_def fcitx_standard_path_foreach_func_def join_path_def)
qed

lemma remove_empty_spec:
  "\<exists>gone. remove_if_spec fcitx_standard_path_remove_if_empty_func xs () =
    (filter (\<lambda>(k, v). v \<noteq> None) xs, gone, ())"
  by (induction xs) (auto simp: fcitx_standard_path_remove_if_empty_func_def)

lemma map_of_filter_map:
  "map_of (filter (\<lambda>(k, v). v \<noteq> None) (map (\<lambda>n. (n, g n)) ns)) n =
    (if n \<in> set ns \<and> g n \<noteq> None then Some (g n) else None)"
  by (induction ns) auto

lemma sort_lookup:
  assumes "dict_ok d"
  shows "dict_ok (fcitx_dict_sort None d) \<and>
    fcitx_dict_lookup n (fcitx_dict_sort None d) = fcitx_dict_lookup n d"
proof -
  have m: "mset (items (fcitx_dict_sort None d)) = mset (items d)"
    using dict_order.stable_HASH_SORT[of "items d"]
    by (simp add: stably_sorts_def sorts_def fcitx_dict_sort_def)
  then have k: "mset (map fst (items (fcitx_dict_sort None d))) = mset (map fst (items d))"
    by (metis mset_map)
  have "distinct (map fst (items (fcitx_dict_sort None d)))"
    using assms k by (metis dict_ok_def mset_eq_imp_distinct_iff)
  moreover have "num_items (fcitx_dict_sort None d) = num_items d" by (simp add: fcitx_dict_sort_def)
  moreover have "length (items (fcitx_dict_sort None d)) = length (items d)" by (metis m size_mset)
  moreover have "map_of (items (fcitx_dict_sort None d)) = map_of (items d)"
    using assms k calculation(1) m unfolding dict_ok_def
    by (metis map_of_inject_set mset_eq_setD)
  ultimately show ?thesis
    using assms by (simp add: dict_ok_def fcitx_dict_lookup_def HASH_FIND_def)
qed

text \<open>Listing answers the files of all directories whose names pass the filter, each under its name
  with what locating it answers; the names that cannot be located are left out.\<close>

theorem match_lists:
  assumes "reads c opened" and "\<not> has_flag (filter_flag f) FSPFT_Write" and "c_string path"
    and "fcitx_standard_path_get sp typ = (first, lst)" and "first \<noteq> None \<or> lst \<noteq> None"
    and "dirs = (case first of Some d \<Rightarrow> [d] | None \<Rightarrow> []) @ (case lst of Some ds \<Rightarrow> ds | None \<Rightarrow> [])"
    and "list_all (\<lambda>d. c_string d \<and> d \<noteq> []) dirs" and "list_all c_string (listed c w path dirs)"
  shows "\<exists>d. fcitx_standard_path_match c sp typ path f w = Some (Some d, w) \<and> dict_ok d \<and>
    (\<forall>n. fcitx_dict_lookup n d =
       (if n \<in> set (listed c w path dirs) \<and> name_passes f n
        then (case fcitx_standard_path_locate c sp typ (join_path path n) (filter_flag f) w of
                Some (Some r, _) \<Rightarrow> Some (Some r) | _ \<Rightarrow> None)
        else None))"
proof -
  let ?ns = "add_names f (listed c w path dirs) []"
  let ?loc = "\<lambda>n. fcitx_standard_path_locate c sp typ (join_path path n) (filter_flag f) w"
  have ns: "set ?ns = {n \<in> set (listed c w path dirs). name_passes f n}" by (simp add: add_names_set)
  have cs: "case first of Some d \<Rightarrow> c_string d | None \<Rightarrow> True" "case lst of Some ds \<Rightarrow> list_all c_string ds | None \<Rightarrow> True"
    using assms(6,7) by (auto simp: list_all_iff split: option.splits)
  have loc: "\<exists>r. ?loc n = Some (r, w)" if "n \<in> set ?ns" for n
  proof -
    have "c_string (join_path path n)"
      using that ns assms(3,8) by (auto simp: join_path_def list_all_iff SLASH_def)
    then show ?thesis by (rule locate_keeps_state[OF assms(1,2) _ assms(4) cs])
  qed
  obtain d1 where d1: "collect_dirs c dirs path f w (fcitx_dict_new True) = Some d1" "dict_ok d1"
      "items d1 = blank ?ns"
    using collect_dirs_run[OF assms(3), of dirs "fcitx_dict_new True" "[]" c f w] assms(7)
    by (auto simp: list_all_iff dict_ok_def fcitx_dict_new_def blank_def)
  define d2 where "d2 = d1\<lparr>items := map (\<lambda>n. (n, fst (the (?loc n)))) ?ns\<rparr>"
  have it2: "items d2 = map (\<lambda>n. (n, fst (the (?loc n)))) ?ns" by (simp add: d2_def)
  have fe: "fcitx_dict_foreach (fcitx_standard_path_foreach_func c sp typ path (filter_flag f)) d1 (Some w) =
      (d2, Some w)"
    using foreach_run[of ?ns c sp "typ" path "filter_flag f" w] loc
    by (simp add: fcitx_dict_foreach_def d1(3) d2_def)
  have d2: "dict_ok d2" using d1(2,3) by (simp add: dict_ok_def d2_def blank_def comp_def)
  obtain gone where g: "remove_if_spec fcitx_standard_path_remove_if_empty_func (items d2) () =
      (filter (\<lambda>(k, v). v \<noteq> None) (items d2), gone, ())"
    using remove_empty_spec by blast
  obtain d3 where d3: "fcitx_dict_remove_if fcitx_standard_path_remove_if_empty_func d2 () = Some (d3, ())"
      "dict_ok d3" "items d3 = filter (\<lambda>(k, v). v \<noteq> None) (items d2)"
    using remove_if_loop_ok[OF d2 _ g, of "[]"] by (auto simp: fcitx_dict_remove_if_def)
  have l3: "fcitx_dict_lookup n d3 = (if n \<in> set ?ns \<and> fst (the (?loc n)) \<noteq> None then Some (fst (the (?loc n))) else None)" for n
    unfolding fcitx_dict_lookup_def HASH_FIND_def d3(3) it2
    by (rule map_of_filter_map)
  let ?d = "if has_flag (filter_flag f) FSPFT_Sort then fcitx_dict_sort None d3 else d3"
  have "fcitx_standard_path_match c sp typ path f w = Some (Some ?d, w)"
    using assms(4,5) d1(1) fe d3(1) unfolding fcitx_standard_path_match_def
    by (auto simp: assms(6)[symmetric])
  moreover have "dict_ok ?d" using d3(2) sort_lookup by auto
  moreover have "fcitx_dict_lookup n ?d =
       (if n \<in> set (listed c w path dirs) \<and> name_passes f n
        then (case ?loc n of Some (Some r, _) \<Rightarrow> Some (Some r) | _ \<Rightarrow> None) else None)" for n
  proof -
    have "fcitx_dict_lookup n ?d = fcitx_dict_lookup n d3" using sort_lookup[OF d3(2)] by simp
    then show ?thesis using l3[of n] loc[of n] ns by (auto split: option.splits)
  qed
  ultimately show ?thesis by blast
qed


lemma listed1: "listed calls1 () [] [bytes ''/h'', bytes ''/d'', bytes ''/e''] = [bytes ''x'', bytes ''y'']"
  by (simp add: listed_def calls1_def cleaned_def components.simps clean_one_def render_def SLASH_def DOT_def)

theorem match_lists_witness:
  "\<exists>d. fcitx_standard_path_match calls1 sp1 FSPT_Data []
       \<lparr>filter_flag = 0, callback = (\<lambda>n. True), suffix = [], prefix = []\<rparr> () = Some (Some d, ()) \<and>
     fcitx_dict_lookup (bytes ''x'') d \<noteq> None \<and> fcitx_dict_lookup (bytes ''y'') d = None"
proof -
  let ?f = "\<lparr>filter_flag = 0, callback = (\<lambda>n. True), suffix = [], prefix = []\<rparr>"
  obtain d where d: "fcitx_standard_path_match calls1 sp1 FSPT_Data [] ?f () = Some (Some d, ())"
    "\<And>n. fcitx_dict_lookup n d =
       (if n \<in> set [bytes ''x'', bytes ''y''] \<and> name_passes ?f n
        then (case fcitx_standard_path_locate calls1 sp1 FSPT_Data (join_path [] n) 0 () of
                Some (Some r, _) \<Rightarrow> Some (Some r) | _ \<Rightarrow> None)
        else None)"
  proof -
    let ?dirs = "[bytes ''/h'', bytes ''/d'', bytes ''/e'']"
    have nw: "\<not> has_flag (filter_flag ?f) FSPFT_Write" and g: "fcitx_standard_path_get sp1 FSPT_Data =
        (Some (bytes ''/h''), Some [bytes ''/d'', bytes ''/e''])"
      by (simp_all add: has_flag_def sp1_def fcitx_standard_path_get_def)
    have ok: "list_all (\<lambda>d. c_string d \<and> d \<noteq> []) ?dirs" "list_all c_string (listed calls1 () [] ?dirs)"
      unfolding listed1 by simp_all
    have "\<exists>d. fcitx_standard_path_match calls1 sp1 FSPT_Data [] ?f () = Some (Some d, ()) \<and> dict_ok d \<and>
      (\<forall>n. fcitx_dict_lookup n d =
        (if n \<in> set (listed calls1 () [] ?dirs) \<and> name_passes ?f n
         then (case fcitx_standard_path_locate calls1 sp1 FSPT_Data (join_path [] n) (filter_flag ?f) () of
                 Some (Some r, _) \<Rightarrow> Some (Some r) | _ \<Rightarrow> None)
         else None))"
      by (rule match_lists[OF calls1_reads nw _ g _ _ ok]) simp_all
    then show ?thesis using that unfolding listed1 path_filter.select_convs by blast
  qed
  have x: "\<exists>r. fcitx_standard_path_locate calls1 sp1 FSPT_Data (bytes ''x'') 0 () = Some (Some r, ())"
    and y: "fcitx_standard_path_locate calls1 sp1 FSPT_Data (bytes ''y'') 0 () = Some (None, ())"
    using locate_run[OF calls1_reads, of 0 "bytes ''x''" sp1 FSPT_Data "Some (bytes ''/h'')"
        "[bytes ''/d'', bytes ''/e'']" "()"]
      locate_run[OF calls1_reads, of 0 "bytes ''y''" sp1 FSPT_Data "Some (bytes ''/h'')"
        "[bytes ''/d'', bytes ''/e'']" "()"]
    by (auto simp: has_flag_def hits_def map_filter_simps hit_def sp1_def fcitx_standard_path_get_def
        SLASH_def cleaned_def components.simps clean_one_def render_def DOT_def)
  have p: "name_passes ?f (bytes ''x'')" by (simp add: name_passes_def has_flag_def)
  have "fcitx_dict_lookup (bytes ''x'') d \<noteq> None"
    using x p by (auto simp: d(2) join_path_def simp del: bytes_simps)
  moreover have "fcitx_dict_lookup (bytes ''y'') d = None"
    using y by (auto simp: d(2) join_path_def simp del: bytes_simps)
  ultimately show ?thesis using d(1) by blast
qed

text \<open>A temporary file under an empty home directory asks \<open>mkstemp\<close> to work on NULL.\<close>

lemma tempfile_null:
  assumes "fcitx_standard_path_get sp typ = (Some [], lst)" and "hd path \<noteq> SLASH"
    and "fcitx_utils_string_ends_with path (bytes ''XXXXXX'')"
  shows "fcitx_standard_path_create_tempfile c sp typ path w = None"
  using assms
  by (simp add: fcitx_standard_path_create_tempfile_def fcitx_standard_path_mktemp_def
      construct_path_unset is_set_def)

end
