(* ===== verification/MemoryPool.thy ===== *)
theory MemoryPool
  imports UtArray ObjPool "HOL-Library.Multiset"
begin

text \<open>
  The memory pool of \<open>src/lib/fcitx-utils/memory-pool.c\<close>: chunks of pages handed out from the
  bottom, the full ones kept apart, all released together.  Both lists of chunks are the arrays of
  \<open>UtArray\<close>; a chunk's destructor gives its memory back to the heap.  The heap is the list of the
  live blocks, base and size; \<open>calloc\<close> is a parameter, which answers the base of the new block, or
  \<open>None\<close> when there is no memory (the program aborts then, and the model's result is \<open>None\<close>).
  Addresses and sizes are 64 bits wide and wrap around.
\<close>

section \<open>Heap, chunks and pool\<close>

record heap =
  blocks :: "(nat \<times> nat) list"
  bad_free :: bool

record chunk =
  cur :: nat
  end_ptr :: nat
  memory :: nat

record memory_pool =
  fullchunks :: "(chunk, heap) ut_array"
  chunks :: "(chunk, heap) ut_array"

definition PAGE_SIZE :: nat where
  "PAGE_SIZE = 8 * 1024"

definition CHUNK_FULL_SIZE :: int where
  "CHUNK_FULL_SIZE = 16"

definition add_ptr :: "nat \<Rightarrow> nat \<Rightarrow> nat" where
  "add_ptr p n = (p + n) mod 2 ^ 64"

definition heap_free :: "nat \<Rightarrow> heap \<Rightarrow> heap" where
  "heap_free m h =
     (if m \<in> fst ` set (blocks h) then h\<lparr>blocks := filter (\<lambda>b. fst b \<noteq> m) (blocks h)\<rparr>
      else h\<lparr>bad_free := True\<rparr>)"

definition heap_calloc :: "(heap \<Rightarrow> nat \<Rightarrow> nat option) \<Rightarrow> nat \<Rightarrow> heap \<Rightarrow> (nat \<times> heap) option" where
  "heap_calloc calloc n h =
     (case calloc h n of None \<Rightarrow> None | Some b \<Rightarrow> Some (b, h\<lparr>blocks := (b, n) # blocks h\<rparr>))"

definition fcitx_memory_chunk_free :: "chunk \<Rightarrow> heap \<Rightarrow> heap" where
  "fcitx_memory_chunk_free c h = (if memory c \<noteq> 0 then heap_free (memory c) h else h)"

definition chunk_icd :: "(chunk, heap) ut_icd" where
  "chunk_icd = \<lparr>icd_init = None, icd_copy = None, icd_dtor = Some fcitx_memory_chunk_free\<rparr>"

definition fcitx_memory_pool_new :: memory_pool where
  "fcitx_memory_pool_new = \<lparr>fullchunks = utarray_new chunk_icd, chunks = utarray_new chunk_icd\<rparr>"

definition memory_align_ptr :: "nat \<Rightarrow> nat" where
  "memory_align_ptr p = align_to p 4 mod 2 ^ 64"

text \<open>The search for a chunk with room: the result is the element and the address handed out.\<close>

function find_chunk ::
  "nat \<Rightarrow> int \<Rightarrow> (chunk, heap) ut_array \<Rightarrow> nat option \<Rightarrow>
   ((nat \<times> nat) option \<times> (chunk, heap) ut_array) option" where
  "find_chunk sz align a e =
     (case e of
        None \<Rightarrow> Some (None, a)
      | Some k \<Rightarrow> do {
          c \<leftarrow> get_slot (ut_d a) k;
          let result = (if align \<noteq> 0 then memory_align_ptr (cur c) else cur c);
          let new = add_ptr result sz;
          if new \<le> end_ptr c
          then do {
            d \<leftarrow> put_slot (ut_d a) k (c\<lparr>cur := new\<rparr>);
            Some (Some (k, result), a\<lparr>ut_d := d\<rparr>) }
          else find_chunk sz align a (utarray_next a (Some k)) })"
  by pat_completeness auto
termination
  by (relation "measure (\<lambda>(s, l, a, e). case e of None \<Rightarrow> 0 | Some k \<Rightarrow> Suc (ut_i a - k))")
    (auto simp: utarray_next_def)

declare find_chunk.simps [simp del]

definition chunk_size :: "nat \<Rightarrow> nat" where
  "chunk_size sz = ((sz + PAGE_SIZE - 1) mod 2 ^ 64 div PAGE_SIZE) * PAGE_SIZE"

definition new_chunk ::
  "(heap \<Rightarrow> nat \<Rightarrow> nat option) \<Rightarrow> nat \<Rightarrow> (chunk, heap) ut_array \<Rightarrow> heap \<Rightarrow>
   (nat \<times> nat \<times> (chunk, heap) ut_array \<times> heap) option" where
  "new_chunk calloc sz a h = do {
     (result, h) \<leftarrow> heap_calloc calloc (chunk_size sz) h;
     let c = \<lparr>cur = add_ptr result sz, end_ptr = add_ptr result (chunk_size sz), memory = result\<rparr>;
     (a, h) \<leftarrow> utarray_push_back a c h;
     k \<leftarrow> utarray_back a;
     Some (k, result, a, h) }"

definition fcitx_memory_pool_alloc_align ::
  "(heap \<Rightarrow> nat \<Rightarrow> nat option) \<Rightarrow> memory_pool \<Rightarrow> nat \<Rightarrow> int \<Rightarrow> heap \<Rightarrow>
   (nat \<times> memory_pool \<times> heap) option" where
  "fcitx_memory_pool_alloc_align calloc p sz align h = do {
     (found, a) \<leftarrow> find_chunk sz align (chunks p) (utarray_front (chunks p));
     (k, result, a, h) \<leftarrow>
       (case found of
          Some (k, result) \<Rightarrow> Some (k, result, a, h)
        | None \<Rightarrow> new_chunk calloc sz a h);
     c \<leftarrow> get_slot (ut_d a) k;
     if int (end_ptr c) - int (cur c) \<le> CHUNK_FULL_SIZE
     then do {
       (f, h) \<leftarrow> utarray_push_back (fullchunks p) c h;
       a \<leftarrow> utarray_remove_quick a k;
       Some (result, \<lparr>fullchunks = f, chunks = a\<rparr>, h) }
     else Some (result, p\<lparr>chunks := a\<rparr>, h) }"

definition fcitx_memory_pool_alloc ::
  "(heap \<Rightarrow> nat \<Rightarrow> nat option) \<Rightarrow> memory_pool \<Rightarrow> nat \<Rightarrow> heap \<Rightarrow> (nat \<times> memory_pool \<times> heap) option" where
  "fcitx_memory_pool_alloc calloc p sz h = fcitx_memory_pool_alloc_align calloc p sz 0 h"

definition fcitx_memory_pool_free :: "memory_pool \<Rightarrow> heap \<Rightarrow> heap option" where
  "fcitx_memory_pool_free p h = do {
     h \<leftarrow> utarray_free (Some (fullchunks p)) h;
     utarray_free (Some (chunks p)) h }"

definition fcitx_memory_pool_clear :: "memory_pool \<Rightarrow> heap \<Rightarrow> (memory_pool \<times> heap) option" where
  "fcitx_memory_pool_clear p h = do {
     (f, h) \<leftarrow> utarray_clear (fullchunks p) h;
     (a, h) \<leftarrow> utarray_clear (chunks p) h;
     Some (\<lparr>fullchunks = f, chunks = a\<rparr>, h) }"

text \<open>A sequence of requests, size and alignment; the answers are kept with their sizes, last first.\<close>

fun serve ::
  "(heap \<Rightarrow> nat \<Rightarrow> nat option) \<Rightarrow> (nat \<times> int) list \<Rightarrow> memory_pool \<Rightarrow> heap \<Rightarrow> (nat \<times> nat) list \<Rightarrow>
   ((nat \<times> nat) list \<times> memory_pool \<times> heap) option" where
  "serve calloc [] p h al = Some (al, p, h)"
| "serve calloc ((sz, align) # rs) p h al = do {
     (r, p, h) \<leftarrow> fcitx_memory_pool_alloc_align calloc p sz align h;
     serve calloc rs p h ((r, sz) # al) }"

section \<open>What calloc promises\<close>

definition apart :: "nat \<times> nat \<Rightarrow> nat \<times> nat \<Rightarrow> bool" where
  "apart a b \<longleftrightarrow> fst a + snd a \<le> fst b \<or> fst b + snd b \<le> fst a"

text \<open>
  A new block is not at NULL, aligned for an \<open>int\<close>, in the lower half of the address space, at an address no live
  block has, and shares no byte with one.
\<close>

definition good_calloc :: "(heap \<Rightarrow> nat \<Rightarrow> nat option) \<Rightarrow> bool" where
  "good_calloc calloc \<longleftrightarrow>
     (\<forall>h n b. calloc h n = Some b \<longrightarrow>
        b \<noteq> 0 \<and> b mod 4 = 0 \<and> b + n < 2 ^ 63 \<and>
        (\<forall>x \<in> set (blocks h). fst x \<noteq> b \<and> apart x (b, n)))"

definition bump_calloc :: "heap \<Rightarrow> nat \<Rightarrow> nat option" where
  "bump_calloc h n =
     (let b = foldr (\<lambda>x m. max m (align_to (fst x + snd x) 4 + 4)) (blocks h) 4096 in
      if b + n < 2 ^ 63 then Some b else None)"

section \<open>Chunks, blocks and the memory handed out\<close>

definition blocks_ok :: "heap \<Rightarrow> bool" where
  "blocks_ok h \<longleftrightarrow> distinct (map fst (blocks h)) \<and>
     (\<forall>x \<in> set (blocks h). \<forall>y \<in> set (blocks h). x \<noteq> y \<longrightarrow> apart x y)"

definition chunk_block :: "chunk \<Rightarrow> nat \<times> nat" where
  "chunk_block c = (memory c, end_ptr c - memory c)"

definition chunk_ok :: "heap \<Rightarrow> chunk \<Rightarrow> bool" where
  "chunk_ok h c \<longleftrightarrow> chunk_block c \<in> set (blocks h) \<and> memory c \<noteq> 0 \<and> memory c mod 4 = 0 \<and>
     memory c \<le> cur c \<and> cur c \<le> end_ptr c \<and> end_ptr c < 2 ^ 63"

text \<open>\<open>h0\<close> is the heap the pool started from: what is live besides the chunks.\<close>

definition chunks_ok :: "heap \<Rightarrow> chunk list \<Rightarrow> heap \<Rightarrow> (nat \<times> nat) list \<Rightarrow> bool" where
  "chunks_ok h0 C h al \<longleftrightarrow>
     blocks_ok h \<and> bad_free h = bad_free h0 \<and> distinct (map memory C) \<and> (\<forall>c \<in> set C. chunk_ok h c) \<and>
     filter (\<lambda>b. fst b \<notin> memory ` set C) (blocks h) = blocks h0 \<and>
     (\<forall>a \<in> set al. \<exists>c \<in> set C. memory c \<le> fst a \<and> fst a + snd a \<le> cur c) \<and>
     sorted_wrt apart al"

definition pool_inv :: "heap \<Rightarrow> memory_pool \<Rightarrow> heap \<Rightarrow> (nat \<times> nat) list \<Rightarrow> bool" where
  "pool_inv h0 p h al \<longleftrightarrow>
     (\<exists>cs fs. holds (chunks p) cs \<and> holds (fullchunks p) fs \<and> ut_icd (chunks p) = chunk_icd \<and>
        ut_icd (fullchunks p) = chunk_icd \<and> chunks_ok h0 (cs @ fs) h al)"

lemma apart_sym: "apart a b \<longleftrightarrow> apart b a"
  by (auto simp: apart_def)

lemma chunks_ok_perm:
  assumes "mset C = mset C'" shows "chunks_ok h0 C h al \<longleftrightarrow> chunks_ok h0 C' h al"
proof -
  have "set C = set C'" using assms by (metis set_mset_mset)
  moreover have "distinct (map memory C) \<longleftrightarrow> distinct (map memory C')"
    using assms by (metis mset_eq_imp_distinct_iff mset_map)
  ultimately show ?thesis by (simp add: chunks_ok_def)
qed

text \<open>Memory above a chunk's \<open>cur\<close> is apart from everything handed out.\<close>

lemma fresh_part:
  assumes "chunks_ok h0 C h al" and "c \<in> set C" and "a \<in> set al"
    and "cur c \<le> r" and "r + n \<le> end_ptr c"
  shows "apart (r, n) a"
proof -
  obtain c' where c': "c' \<in> set C" "memory c' \<le> fst a" "fst a + snd a \<le> cur c'"
    using assms(1,3) by (auto simp: chunks_ok_def)
  show ?thesis
  proof (cases "c' = c")
    case True
    then show ?thesis using c' assms(4) by (simp add: apart_def)
  next
    case False
    then have "memory c \<noteq> memory c'"
      using assms(1,2) c'(1) by (metis chunks_ok_def distinct_map inj_onD)
    then have "apart (chunk_block c) (chunk_block c')"
      using assms(1,2) c'(1) by (auto simp: chunks_ok_def chunk_ok_def blocks_ok_def chunk_block_def)
    moreover have "chunk_ok h c" "chunk_ok h c'" using assms(1,2) c'(1) by (auto simp: chunks_ok_def)
    ultimately show ?thesis
      using c' assms(4,5) by (auto simp: apart_def chunk_block_def chunk_ok_def)
  qed
qed

lemma chunks_ok_al:
  "chunks_ok h0 C h al \<Longrightarrow> a \<in> set al \<Longrightarrow> \<exists>c \<in> set C. memory c \<le> fst a \<and> fst a + snd a \<le> cur c"
  by (simp add: chunks_ok_def)

lemma take_chunk:
  assumes inv: "chunks_ok h0 (us @ c # vs) h al" and "cur c \<le> r" and "r + n \<le> end_ptr c"
  shows "chunks_ok h0 (us @ c\<lparr>cur := r + n\<rparr> # vs) h ((r, n) # al)"
proof -
  have fresh: "apart (r, n) a" if "a \<in> set al" for a
    using fresh_part[OF inv _ that assms(2,3)] by simp
  let ?c = "c\<lparr>cur := r + n\<rparr>" let ?C = "us @ ?c # vs"
  have c: "chunk_ok h c" using inv by (simp add: chunks_ok_def)
  have ok: "\<forall>x \<in> set ?C. chunk_ok h x"
    using inv c assms(2,3) by (auto simp: chunks_ok_def chunk_ok_def chunk_block_def)
  have m: "map memory ?C = map memory (us @ c # vs)" "memory ` set ?C = memory ` set (us @ c # vs)"
    by simp_all
  have al: "\<exists>x \<in> set ?C. memory x \<le> fst a \<and> fst a + snd a \<le> cur x" if a: "a \<in> set ((r, n) # al)" for a
  proof (cases "a = (r, n)")
    case True
    then show ?thesis using c assms(2) by (auto simp: chunk_ok_def)
  next
    case False
    then obtain x where x: "x \<in> set (us @ c # vs)" "memory x \<le> fst a" "fst a + snd a \<le> cur x"
      using chunks_ok_al[OF inv] a by (metis set_ConsD)
    show ?thesis
    proof (cases "x = c")
      case True
      then have "memory ?c \<le> fst a" "fst a + snd a \<le> cur ?c" using x assms(2) by auto
      moreover have "?c \<in> set ?C" by simp
      ultimately show ?thesis by blast
    next
      case False
      then have "x \<in> set ?C" using x(1) by simp
      then show ?thesis using x by blast
    qed
  qed
  have s: "sorted_wrt apart ((r, n) # al)" using inv fresh by (simp add: chunks_ok_def)
  have p: "blocks_ok h" "bad_free h = bad_free h0" "distinct (map memory (us @ c # vs))"
      "filter (\<lambda>b. fst b \<notin> memory ` set (us @ c # vs)) (blocks h) = blocks h0"
    using inv unfolding chunks_ok_def by - (elim conjE, assumption)+
  show ?thesis unfolding chunks_ok_def m by (intro conjI ok s ballI al p)
qed

lemma chunk_size_room:
  assumes "n \<le> 2 ^ 62"
  shows "n \<le> chunk_size n" and "chunk_size n \<le> n + 8191"
proof -
  have "(n + PAGE_SIZE - 1) mod 2 ^ 64 = n + 8191"
    using assms by (simp add: PAGE_SIZE_def)
  then have e: "chunk_size n = (n + 8191) div 8192 * 8192" by (simp add: chunk_size_def PAGE_SIZE_def)
  have "n + 8191 = (n + 8191) div 8192 * 8192 + (n + 8191) mod 8192" "(n + 8191) mod 8192 < 8192"
    by (simp_all only: div_mult_mod_eq mod_less_divisor)
  then show "n \<le> chunk_size n" "chunk_size n \<le> n + 8191" unfolding e by linarith+
qed

lemma add_chunk:
  assumes inv: "chunks_ok h0 C h al" and gc: "good_calloc calloc"
    and b: "calloc h (chunk_size n) = Some b" and n: "n \<le> 2 ^ 62"
  shows "chunks_ok h0 (C @ [\<lparr>cur = b + n, end_ptr = b + chunk_size n, memory = b\<rparr>])
    (h\<lparr>blocks := (b, chunk_size n) # blocks h\<rparr>) ((b, n) # al)"
proof -
  define c where "c = \<lparr>cur = b + n, end_ptr = b + chunk_size n, memory = b\<rparr>"
  let ?h = "h\<lparr>blocks := (b, chunk_size n) # blocks h\<rparr>"
  have g: "b \<noteq> 0" "b mod 4 = 0" "b + chunk_size n < 2 ^ 63"
      "\<And>x. x \<in> set (blocks h) \<Longrightarrow> fst x \<noteq> b \<and> apart x (b, chunk_size n)"
    using gc b by (auto simp: good_calloc_def)
  have cb: "chunk_block x \<in> set (blocks h)" if "x \<in> set C" for x
    using inv that by (auto simp: chunks_ok_def chunk_ok_def)
  then have nb: "b \<notin> memory ` set C" using g(4) by (force simp: chunk_block_def)
  have new: "chunk_ok ?h c"
    using g chunk_size_room(1)[OF n] by (auto simp: chunk_ok_def chunk_block_def c_def)
  have old: "chunk_ok ?h x" if "x \<in> set C" for x
    using inv that by (auto simp: chunks_ok_def chunk_ok_def)
  have bk: "blocks_ok ?h"
    using inv g(4) by (auto simp: chunks_ok_def blocks_ok_def apart_sym)
  have away: "apart (b, n) a" if a: "a \<in> set al" for a
  proof -
    obtain c' where c': "c' \<in> set C" "memory c' \<le> fst a" "fst a + snd a \<le> cur c'"
      using inv a by (auto simp: chunks_ok_def)
    have "apart (chunk_block c') (b, chunk_size n)" using g(4) cb c'(1) by blast
    moreover have "chunk_ok h c'" using inv c'(1) by (auto simp: chunks_ok_def)
    ultimately show ?thesis
      using c' chunk_size_room(1)[OF n] by (auto simp: apart_def chunk_block_def chunk_ok_def)
  qed
  have rest: "filter (\<lambda>x. fst x \<notin> memory ` set (C @ [c])) (blocks ?h) = blocks h0"
  proof -
    have "filter (\<lambda>x. fst x \<notin> memory ` set (C @ [c])) (blocks h) =
        filter (\<lambda>x. fst x \<notin> memory ` set C) (blocks h)"
      using g(4) by (intro filter_cong) (auto simp: c_def)
    then show ?thesis using inv by (simp add: c_def chunks_ok_def)
  qed
  have al: "\<exists>x \<in> set (C @ [c]). memory x \<le> fst a \<and> fst a + snd a \<le> cur x" if "a \<in> set ((b, n) # al)" for a
    using inv that by (auto simp: chunks_ok_def c_def)
  have d: "distinct (map memory (C @ [c]))" using inv nb by (auto simp: chunks_ok_def c_def)
  have s: "sorted_wrt apart ((b, n) # al)" using inv away by (simp add: chunks_ok_def)
  have f: "bad_free ?h = bad_free h0" using inv by (simp add: chunks_ok_def)
  have ck: "\<forall>x \<in> set (C @ [c]). chunk_ok ?h x" using old new by auto
  show ?thesis unfolding c_def[symmetric] chunks_ok_def
    by (intro conjI bk f d ck rest ballI al s)
qed

section \<open>Allocation\<close>

lemma align_to_4: "p \<le> align_to p 4" "align_to p 4 mod 4 = 0" "align_to p 4 < p + 4"
proof -
  have "(p + 4 - p mod 4) mod 4 = 0" by presburger
  then show "align_to p 4 mod 4 = 0" by (simp add: align_to_def Let_def)
qed (auto simp: align_to_def Let_def)

definition start_in :: "int \<Rightarrow> chunk \<Rightarrow> nat" where
  "start_in align c = (if align \<noteq> 0 then memory_align_ptr (cur c) else cur c)"

lemma start_in_range:
  assumes "chunk_ok h c"
  shows "cur c \<le> start_in align c" and "start_in align c < 2 ^ 63 + 4"
    and "align \<noteq> 0 \<Longrightarrow> start_in align c mod 4 = 0"
  using assms align_to_4[of "cur c"] by (auto simp: start_in_def memory_align_ptr_def chunk_ok_def)

lemma find_chunk_result:
  assumes "holds a cs" and "k < length cs"
  shows "(\<exists>j a'. find_chunk n align a (Some k) = Some (Some (j, start_in align (cs ! j)), a') \<and>
      j < length cs \<and> add_ptr (start_in align (cs ! j)) n \<le> end_ptr (cs ! j) \<and>
      holds a' (cs[j := (cs ! j)\<lparr>cur := add_ptr (start_in align (cs ! j)) n\<rparr>]) \<and> ut_icd a' = ut_icd a) \<or>
    find_chunk n align a (Some k) = Some (None, a)"
  using assms(2)
proof (induction "length cs - k" arbitrary: k)
  case 0
  then show ?case by simp
next
  case (Suc m)
  let ?c = "cs ! k" let ?r = "start_in align ?c"
  obtain rest where r: "ut_i a = length cs" "ut_d a = map Some cs @ rest"
    using assms(1) by (auto simp: holds_def)
  have g: "get_slot (ut_d a) k = Some ?c" using holds_get[OF assms(1) Suc.prems] .
  have st: "find_chunk n align a (Some k) =
     (if add_ptr ?r n \<le> end_ptr ?c
      then do { d \<leftarrow> put_slot (ut_d a) k (?c\<lparr>cur := add_ptr ?r n\<rparr>); Some (Some (k, ?r), a\<lparr>ut_d := d\<rparr>) }
      else find_chunk n align a (utarray_next a (Some k)))"
    by (subst find_chunk.simps) (simp add: g start_in_def Let_def)
  show ?case
  proof (cases "add_ptr ?r n \<le> end_ptr ?c")
    case True
    let ?c' = "?c\<lparr>cur := add_ptr ?r n\<rparr>"
    have "put_slot (ut_d a) k ?c' = Some (map Some (cs[k := ?c']) @ rest)"
      using Suc.prems by (simp add: put_slot_def r(2) list_update_append map_update)
    then show ?thesis
      using True Suc.prems r(1) st by (intro disjI1 exI[of _ k]) (auto simp: holds_def)
  next
    case False
    show ?thesis
    proof (cases "Suc k < length cs")
      case True
      then show ?thesis using Suc.hyps(1)[of "Suc k"] Suc.hyps(2) False st r(1)
        by (simp add: utarray_next_def)
    next
      case False
      then show ?thesis using st \<open>\<not> add_ptr ?r n \<le> end_ptr ?c\<close> r(1)
        by (simp add: utarray_next_def find_chunk.simps[of _ _ _ None])
    qed
  qed
qed


lemma room_no_wrap:
  assumes "chunk_ok h c" and "n \<le> 2 ^ 62"
  shows "add_ptr (start_in align c) n = start_in align c + n"
  using start_in_range(2)[OF assms(1), of align] assms(2) by (simp add: add_ptr_def)

lemma chunk_icd_simps [simp]:
  "icd_copy chunk_icd = None" "icd_init chunk_icd = None"
  "icd_dtor chunk_icd = Some fcitx_memory_chunk_free"
  by (simp_all add: chunk_icd_def)

text \<open>Moving a full chunk to the other list, or leaving it where it is.\<close>

definition settle ::
  "memory_pool \<Rightarrow> nat \<times> nat \<times> (chunk, heap) ut_array \<times> heap \<Rightarrow> (nat \<times> memory_pool \<times> heap) option" where
  "settle p x = (case x of (k, result, a, h) \<Rightarrow> do {
     c \<leftarrow> get_slot (ut_d a) k;
     if int (end_ptr c) - int (cur c) \<le> CHUNK_FULL_SIZE
     then do {
       (f, h) \<leftarrow> utarray_push_back (fullchunks p) c h;
       a \<leftarrow> utarray_remove_quick a k;
       Some (result, \<lparr>fullchunks = f, chunks = a\<rparr>, h) }
     else Some (result, p\<lparr>chunks := a\<rparr>, h) })"

lemma alloc_settle:
  "fcitx_memory_pool_alloc_align calloc p n align h = do {
     (found, a) \<leftarrow> find_chunk n align (chunks p) (utarray_front (chunks p));
     x \<leftarrow> (case found of Some (k, result) \<Rightarrow> Some (k, result, a, h) | None \<Rightarrow> new_chunk calloc n a h);
     settle p x }"
  by (simp add: fcitx_memory_pool_alloc_align_def settle_def [abs_def])

lemma mset_remove_quick:
  assumes "cs = xs @ [v]" and "k < length cs"
  shows "mset (cs ! k # (if k = length xs then xs else xs[k := v])) = mset cs"
proof (cases "k = length xs")
  case True
  then show ?thesis using assms(1) by simp
next
  case False
  then have k: "k < length xs" using assms by simp
  have "mset (xs[k := v]) = add_mset v (mset xs - {#xs ! k#})" by (rule mset_update[OF k])
  moreover have "xs ! k \<in># mset xs" using k by simp
  ultimately show ?thesis using False assms(1) k by (simp add: nth_append)
qed

lemma settle_inv:
  assumes a: "holds a cs" "ut_icd a = chunk_icd" and f: "holds (fullchunks p) fs" "ut_icd (fullchunks p) = chunk_icd"
    and k: "k < length cs" and ok: "chunks_ok h0 (cs @ fs) h al"
  shows "\<exists>p'. settle p (k, r, a, h) = Some (r, p', h) \<and> pool_inv h0 p' h al"
proof -
  have g: "get_slot (ut_d a) k = Some (cs ! k)" using holds_get[OF a(1) k] .
  show ?thesis
  proof (cases "int (end_ptr (cs ! k)) - int (cur (cs ! k)) \<le> CHUNK_FULL_SIZE")
    case False
    then show ?thesis using g a f ok by (auto simp: settle_def pool_inv_def)
  next
    case True
    obtain xs v where cs: "cs = xs @ [v]" using k by (cases cs rule: rev_cases) auto
    obtain f' where f': "utarray_push_back (fullchunks p) (cs ! k) h = Some (f', h)"
        "holds f' (fs @ [cs ! k])" "ut_icd f' = chunk_icd"
      using push_back_holds[OF f(1), of "cs ! k" h "cs ! k" h] f(2) by (auto simp: copied_def)
    let ?ys = "if k = length xs then xs else xs[k := v]"
    obtain a' where a': "utarray_remove_quick a k = Some a'" "ut_icd a' = chunk_icd" "holds a' ?ys"
      using remove_quick_holds[of a xs v k] a k unfolding cs by auto
    have "mset (?ys @ fs @ [cs ! k]) = mset (cs @ fs)"
      using mset_remove_quick[OF cs k] by (simp add: ac_simps)
    then have "chunks_ok h0 (?ys @ fs @ [cs ! k]) h al" using ok chunks_ok_perm by blast
    then have "pool_inv h0 \<lparr>fullchunks = f', chunks = a'\<rparr> h al"
      unfolding pool_inv_def using a' f' by (intro exI[of _ ?ys] exI[of _ "fs @ [cs ! k]"]) simp
    then show ?thesis using True g f' a' by (simp add: settle_def)
  qed
qed

text \<open>What one request does: it is answered unless a new chunk is needed and there is no memory for it.\<close>

lemma alloc_inv:
  assumes inv: "pool_inv h0 p h al" and gc: "good_calloc calloc" and n: "n \<le> 2 ^ 62"
  shows "(fcitx_memory_pool_alloc_align calloc p n align h = None \<and> calloc h (chunk_size n) = None) \<or>
    (\<exists>r p' h'. fcitx_memory_pool_alloc_align calloc p n align h = Some (r, p', h') \<and>
       pool_inv h0 p' h' ((r, n) # al) \<and> (align \<noteq> 0 \<longrightarrow> r mod 4 = 0))"
proof -
  obtain cs fs where holds: "holds (chunks p) cs" "holds (fullchunks p) fs"
      and icd: "ut_icd (chunks p) = chunk_icd" "ut_icd (fullchunks p) = chunk_icd"
      and ok: "chunks_ok h0 (cs @ fs) h al"
    using inv by (auto simp: pool_inv_def)
  let ?find = "find_chunk n align (chunks p) (utarray_front (chunks p))"
  have none: "?find = Some (None, chunks p)" if "cs = []"
    using that holds(1) by (simp add: utarray_front_def holds_def find_chunk.simps[of _ _ _ None])
  have some: "utarray_front (chunks p) = Some 0" if "cs \<noteq> []"
    using that holds(1) by (simp add: utarray_front_def holds_def)
  consider (new) "?find = Some (None, chunks p)"
    | (old) j a' where "?find = Some (Some (j, start_in align (cs ! j)), a')" "j < length cs"
        "add_ptr (start_in align (cs ! j)) n \<le> end_ptr (cs ! j)"
        "holds a' (cs[j := (cs ! j)\<lparr>cur := add_ptr (start_in align (cs ! j)) n\<rparr>])"
        "ut_icd a' = chunk_icd"
    using none some find_chunk_result[OF holds(1), of 0 n align] icd(1) by (cases "cs = []") auto
  then show ?thesis
  proof cases
    case old
    let ?c = "cs ! j" let ?r = "start_in align ?c" let ?cs = "cs[j := ?c\<lparr>cur := ?r + n\<rparr>]"
    have c: "chunk_ok h ?c" using ok old(2) by (simp add: chunks_ok_def)
    have w: "add_ptr ?r n = ?r + n" by (rule room_no_wrap[OF c n])
    have split: "cs @ fs = take j cs @ ?c # drop (Suc j) cs @ fs"
      "?cs @ fs = take j cs @ ?c\<lparr>cur := ?r + n\<rparr> # drop (Suc j) cs @ fs"
      using old(2) id_take_nth_drop[OF old(2)] by (simp_all add: upd_conv_take_nth_drop)
    have "chunks_ok h0 (?cs @ fs) h ((?r, n) # al)"
      unfolding split(2) using ok old(3) start_in_range(1)[OF c] unfolding split(1) w
      by (intro take_chunk) auto
    from settle_inv[OF old(4)[unfolded w] old(5) holds(2) icd(2) _ this, of j ?r]
    obtain p' where "settle p (j, ?r, a', h) = Some (?r, p', h)" "pool_inv h0 p' h ((?r, n) # al)"
      using old(2) by auto
    then show ?thesis
      using old(1) start_in_range(3)[OF c] by (auto simp: alloc_settle)
  next
    case new
    show ?thesis
    proof (cases "calloc h (chunk_size n)")
      case None
      then show ?thesis using new by (simp add: alloc_settle new_chunk_def heap_calloc_def)
    next
      case (Some b)
      let ?c = "\<lparr>cur = b + n, end_ptr = b + chunk_size n, memory = b\<rparr>"
      let ?h = "h\<lparr>blocks := (b, chunk_size n) # blocks h\<rparr>"
      have b: "b mod 4 = 0" "b + chunk_size n < 2 ^ 63" using gc Some by (auto simp: good_calloc_def)
      then have w: "add_ptr b n = b + n" "add_ptr b (chunk_size n) = b + chunk_size n"
        using chunk_size_room[OF n] by (simp_all add: add_ptr_def)
      obtain a' where a': "utarray_push_back (chunks p) ?c ?h = Some (a', ?h)"
          "holds a' (cs @ [?c])" "ut_icd a' = chunk_icd"
        using push_back_holds[OF holds(1), of ?c ?h ?c ?h] icd(1) by (auto simp: copied_def)
      have nw: "new_chunk calloc n (chunks p) h = Some (length cs, b, a', ?h)"
        using Some a'(1,2) by (auto simp: new_chunk_def heap_calloc_def w utarray_back_def holds_def Let_def)
      have "mset ((cs @ fs) @ [?c]) = mset ((cs @ [?c]) @ fs)" by simp
      then have "chunks_ok h0 ((cs @ [?c]) @ fs) ?h ((b, n) # al)"
        using add_chunk[OF ok gc Some n] chunks_ok_perm by blast
      from settle_inv[OF a'(2,3) holds(2) icd(2) _ this, of "length cs" b]
      obtain p' where "settle p (length cs, b, a', ?h) = Some (b, p', ?h)"
          "pool_inv h0 p' ?h ((b, n) # al)"
        by auto
      then show ?thesis using new nw b(1) by (auto simp: alloc_settle)
    qed
  qed
qed

lemma new_pool_inv: "blocks_ok h \<Longrightarrow> pool_inv h fcitx_memory_pool_new h []"
  by (auto simp: pool_inv_def fcitx_memory_pool_new_def chunks_ok_def utarray_new_def holds_def)

definition answers :: "nat \<times> int \<Rightarrow> nat \<times> nat \<Rightarrow> bool" where
  "answers q a \<longleftrightarrow> snd a = fst q \<and> (snd q \<noteq> 0 \<longrightarrow> fst a mod 4 = 0)"

text \<open>The requests up to one are served, and there is no memory for the chunk that one needs.\<close>

definition starved ::
  "(heap \<Rightarrow> nat \<Rightarrow> nat option) \<Rightarrow> (nat \<times> int) list \<Rightarrow> memory_pool \<Rightarrow> heap \<Rightarrow> (nat \<times> nat) list \<Rightarrow> bool"
where
  "starved calloc rs p h al \<longleftrightarrow>
     (\<exists>rs1 q rs2 al1 p1 h1. rs = rs1 @ q # rs2 \<and> serve calloc rs1 p h al = Some (al1, p1, h1) \<and>
        calloc h1 (chunk_size (fst q)) = None)"

lemma serve_inv:
  assumes "good_calloc calloc" and "\<forall>q \<in> set rs. fst q \<le> 2 ^ 62" and "pool_inv h0 p h al"
  shows "(serve calloc rs p h al = None \<and> starved calloc rs p h al) \<or>
    (\<exists>new p' h'. serve calloc rs p h al = Some (new @ al, p', h') \<and> pool_inv h0 p' h' (new @ al) \<and>
      list_all2 answers (rev rs) new)"
  using assms(2,3)
proof (induction rs arbitrary: p h al)
  case Nil
  then show ?case by auto
next
  case (Cons q rs)
  obtain n align where q: "q = (n, align)" by (cases q)
  consider "fcitx_memory_pool_alloc_align calloc p n align h = None" "calloc h (chunk_size n) = None"
    | r p' h' where "fcitx_memory_pool_alloc_align calloc p n align h = Some (r, p', h')"
        "pool_inv h0 p' h' ((r, n) # al)" "align \<noteq> 0 \<longrightarrow> r mod 4 = 0"
    using alloc_inv[OF Cons.prems(2) assms(1), of n align] Cons.prems(1) q by auto
  then show ?case
  proof cases
    case 1
    then show ?thesis
      using q by (auto simp: starved_def intro!: exI[of _ "[]"])
  next
    case 2
    have st: "serve calloc (q # rs) p h al = serve calloc rs p' h' ((r, n) # al)" by (simp add: q 2(1))
    have a: "answers q (r, n)" using q 2(3) by (simp add: answers_def)
    from Cons.IH[OF _ 2(2)] Cons.prems(1)
    consider "serve calloc rs p' h' ((r, n) # al) = None" "starved calloc rs p' h' ((r, n) # al)"
      | new p'' h'' where "serve calloc rs p' h' ((r, n) # al) = Some (new @ (r, n) # al, p'', h'')"
          "pool_inv h0 p'' h'' (new @ (r, n) # al)" "list_all2 answers (rev rs) new"
      by auto
    then show ?thesis
    proof cases
      case 1
      then obtain rs1 q' rs2 al1 p1 h1 where "rs = rs1 @ q' # rs2"
          "serve calloc rs1 p' h' ((r, n) # al) = Some (al1, p1, h1)"
          "calloc h1 (chunk_size (fst q')) = None"
        by (auto simp: starved_def)
      then have "starved calloc (q # rs) p h al"
        unfolding starved_def using 2(1) q by (intro exI[of _ "q # rs1"]) auto
      then show ?thesis using st 1 by simp
    next
      case 2
      then show ?thesis
        using st a by (intro disjI2 exI[of _ "new @ [(r, n)]"]) (auto intro: list_all2_appendI)
    qed
  qed
qed

section \<open>Release\<close>

lemma free_chunks:
  assumes "distinct (map memory C)" and "\<forall>c \<in> set C. memory c \<noteq> 0 \<and> memory c \<in> fst ` set (blocks h)"
  shows "destroyed chunk_icd C h = h\<lparr>blocks := filter (\<lambda>b. fst b \<notin> memory ` set C) (blocks h)\<rparr>"
proof -
  have "fold fcitx_memory_chunk_free C h =
      h\<lparr>blocks := filter (\<lambda>b. fst b \<notin> memory ` set C) (blocks h)\<rparr>"
    using assms
  proof (induction C arbitrary: h)
    case Nil
    then show ?case by simp
  next
    case (Cons c C)
    let ?h = "h\<lparr>blocks := filter (\<lambda>b. fst b \<noteq> memory c) (blocks h)\<rparr>"
    have "fcitx_memory_chunk_free c h = ?h"
      using Cons.prems(2) by (simp add: fcitx_memory_chunk_free_def heap_free_def)
    moreover have "\<forall>d \<in> set C. memory d \<noteq> 0 \<and> memory d \<in> fst ` set (blocks ?h)"
      using Cons.prems by (force simp: image_iff)
    ultimately show ?case
      using Cons.IH[of ?h] Cons.prems(1) by (simp add: conj_commute)
  qed
  then show ?thesis by (simp add: destroyed_def)
qed

lemma release_chunks:
  assumes "chunks_ok h0 (cs @ fs) h al"
  shows "blocks (destroyed chunk_icd cs (destroyed chunk_icd fs h)) = blocks h0"
    and "bad_free (destroyed chunk_icd cs (destroyed chunk_icd fs h)) = bad_free h0"
proof -
  have m: "mset (fs @ cs) = mset (cs @ fs)" by simp
  have ok: "chunks_ok h0 (fs @ cs) h al" using assms chunks_ok_perm[OF m] by blast
  then have in_blocks: "\<forall>c \<in> set (fs @ cs). memory c \<noteq> 0 \<and> memory c \<in> fst ` set (blocks h)"
  proof (intro ballI conjI)
    fix c assume "c \<in> set (fs @ cs)"
    then have "chunk_ok h c" using ok unfolding chunks_ok_def by blast
    then show "memory c \<noteq> 0" "memory c \<in> fst ` set (blocks h)"
      by (auto simp: chunk_ok_def chunk_block_def image_iff intro!: bexI)
  qed
  have "destroyed chunk_icd cs (destroyed chunk_icd fs h) = destroyed chunk_icd (fs @ cs) h"
    by (simp add: destroyed_def)
  also have "\<dots> = h\<lparr>blocks := blocks h0\<rparr>"
    using ok free_chunks[OF _ in_blocks] by (simp add: chunks_ok_def)
  finally show "blocks (destroyed chunk_icd cs (destroyed chunk_icd fs h)) = blocks h0"
    and "bad_free (destroyed chunk_icd cs (destroyed chunk_icd fs h)) = bad_free h0"
    using ok by (simp_all add: chunks_ok_def)
qed

lemma clear_inv:
  assumes "pool_inv h0 p h al"
  shows "\<exists>p' h'. fcitx_memory_pool_clear p h = Some (p', h') \<and> blocks h' = blocks h0 \<and>
    bad_free h' = bad_free h0 \<and> (blocks_ok h' \<longrightarrow> pool_inv h' p' h' [])"
proof -
  obtain cs fs where holds: "holds (chunks p) cs" "holds (fullchunks p) fs"
      and icd: "ut_icd (chunks p) = chunk_icd" "ut_icd (fullchunks p) = chunk_icd"
      and ok: "chunks_ok h0 (cs @ fs) h al"
    using assms by (auto simp: pool_inv_def)
  let ?h = "destroyed chunk_icd fs h"
  obtain f where f: "utarray_clear (fullchunks p) h = Some (f, ?h)" "holds f []" "ut_icd f = chunk_icd"
    using clear_holds[OF holds(2), of h] icd by auto
  obtain a where a: "utarray_clear (chunks p) ?h = Some (a, destroyed chunk_icd cs ?h)" "holds a []"
      "ut_icd a = chunk_icd"
    using clear_holds[OF holds(1), of ?h] icd by auto
  have "pool_inv h' \<lparr>fullchunks = f, chunks = a\<rparr> h' []" if "blocks_ok h'" for h'
    using that f a by (auto simp: pool_inv_def chunks_ok_def intro!: exI[of _ "[]"])
  then show ?thesis using f a release_chunks[OF ok] by (auto simp: fcitx_memory_pool_clear_def)
qed

lemma free_inv:
  assumes "pool_inv h0 p h al"
  shows "\<exists>h'. fcitx_memory_pool_free p h = Some h' \<and> blocks h' = blocks h0 \<and> bad_free h' = bad_free h0"
proof -
  obtain cs fs where holds: "holds (chunks p) cs" "holds (fullchunks p) fs"
      and icd: "ut_icd (chunks p) = chunk_icd" "ut_icd (fullchunks p) = chunk_icd"
      and ok: "chunks_ok h0 (cs @ fs) h al"
    using assms by (auto simp: pool_inv_def)
  show ?thesis
    using release_chunks[OF ok] icd
    by (simp add: fcitx_memory_pool_free_def free_holds[OF holds(1)] free_holds[OF holds(2)])
qed

lemma handed_out:
  assumes "pool_inv h0 p h al" and "a \<in> set al"
  shows "\<exists>b \<in> set (blocks h). b \<notin> set (blocks h0) \<and> fst b \<le> fst a \<and> fst a + snd a \<le> fst b + snd b"
proof -
  obtain C where ok: "chunks_ok h0 C h al" using assms(1) by (auto simp: pool_inv_def)
  obtain c where c: "c \<in> set C" "memory c \<le> fst a" "fst a + snd a \<le> cur c"
    using chunks_ok_al[OF ok assms(2)] by blast
  have co: "chunk_ok h c" using ok c(1) by (simp add: chunks_ok_def)
  have f: "filter (\<lambda>b. fst b \<notin> memory ` set C) (blocks h) = blocks h0" using ok by (simp add: chunks_ok_def)
  have "chunk_block c \<notin> set (blocks h0)" unfolding f[symmetric] using c(1) by (simp add: chunk_block_def)
  then show ?thesis using co c by (intro bexI[of _ "chunk_block c"]) (auto simp: chunk_ok_def chunk_block_def)
qed

section \<open>The pool as its callers see it\<close>

lemma bump_calloc_good: "good_calloc bump_calloc"
proof -
  let ?f = "\<lambda>x m. max m (align_to (fst x + snd x) 4 + 4)"
  have top: "0 < foldr ?f bs 4096 \<and> foldr ?f bs 4096 mod 4 = (0 :: nat) \<and>
      (\<forall>x \<in> set bs. fst x + snd x + 4 \<le> foldr ?f bs 4096)" for bs :: "(nat \<times> nat) list"
  proof (induction bs)
    case (Cons b bs)
    then show ?case
      using align_to_4(1,2)[of "fst b + snd b"]
      by (auto simp: max_def)
  qed simp
  show ?thesis
    unfolding good_calloc_def bump_calloc_def Let_def
  proof (intro allI impI)
    fix h :: heap and n b
    let ?b = "foldr ?f (blocks h) 4096"
    assume "(if ?b + n < 2 ^ 63 then Some ?b else None) = Some b"
    then have b: "b = ?b" "b + n < 2 ^ 63" by (simp_all split: if_splits)
    have "fst x \<noteq> b \<and> apart x (b, n)" if "x \<in> set (blocks h)" for x
      using top[of "blocks h"] that unfolding b(1) apart_def by fastforce
    then show "b \<noteq> 0 \<and> b mod 4 = 0 \<and> b + n < 2 ^ 63 \<and> (\<forall>x \<in> set (blocks h). fst x \<noteq> b \<and> apart x (b, n))"
      using top[of "blocks h"] b by simp
  qed
qed

text \<open>C27: A pool answers its requests, unless the C library has no memory for a chunk, with pieces of memory
  of the sizes asked for, aligned for an \<open>int\<close> where that was asked, that share no byte with each
  other or with what was live before; clearing the pool gives back exactly the memory it took, each
  block once.
\<close>

theorem pool_requests:
  assumes "good_calloc calloc" and "blocks_ok h" and "\<forall>q \<in> set rs. fst q \<le> 2 ^ 62"
  shows "(serve calloc rs fcitx_memory_pool_new h [] = None \<and> starved calloc rs fcitx_memory_pool_new h []) \<or>
    (\<exists>al p h'. serve calloc rs fcitx_memory_pool_new h [] = Some (al, p, h') \<and>
       list_all2 answers (rev rs) al \<and> sorted_wrt apart al \<and>
       (\<forall>a \<in> set al. \<exists>b \<in> set (blocks h').
          b \<notin> set (blocks h) \<and> fst b \<le> fst a \<and> fst a + snd a \<le> fst b + snd b) \<and>
       (\<exists>p' h''. fcitx_memory_pool_clear p h' = Some (p', h'') \<and> blocks h'' = blocks h \<and>
          bad_free h'' = bad_free h))"
proof -
  from serve_inv[OF assms(1,3) new_pool_inv[OF assms(2)]]
  consider "serve calloc rs fcitx_memory_pool_new h [] = None" "starved calloc rs fcitx_memory_pool_new h []"
    | al p h' where "serve calloc rs fcitx_memory_pool_new h [] = Some (al, p, h')" "pool_inv h p h' al"
        "list_all2 answers (rev rs) al"
    by auto
  then show ?thesis
  proof cases
    case 2
    have "sorted_wrt apart al" using 2(2) by (auto simp: pool_inv_def chunks_ok_def)
    then show ?thesis using 2 handed_out[OF 2(2)] clear_inv[OF 2(2)] by blast
  qed simp
qed

theorem pool_requests_witness:
  "\<exists>al p h'. serve bump_calloc [(10, 0), (8180, 0), (3, 1)] fcitx_memory_pool_new
       \<lparr>blocks = [(4096, 100)], bad_free = False\<rparr> [] = Some (al, p, h') \<and> sorted_wrt apart al \<and>
     length al = 3"
proof -
  let ?h = "\<lparr>blocks = [(4096, 100)], bad_free = False\<rparr>"
  let ?rs = "[(10, 0), (8180, 0), (3, 1)] :: (nat \<times> int) list"
  have "serve bump_calloc ?rs fcitx_memory_pool_new ?h [] \<noteq> None"
    by (simp add: fcitx_memory_pool_alloc_align_def fcitx_memory_pool_new_def find_chunk.simps
        new_chunk_def heap_calloc_def bump_calloc_def chunk_size_def PAGE_SIZE_def align_to_def
        utarray_front_def utarray_new_def utarray_push_back_def utarray_reserve_def reserve_loop.simps
        store_elt_def put_slot_def get_slot_def add_ptr_def utarray_back_def CHUNK_FULL_SIZE_def
        utarray_remove_quick_def utarray_next_def memory_align_ptr_def)
  then show ?thesis
    using pool_requests[OF bump_calloc_good, of ?h ?rs]
    by (auto simp: blocks_ok_def dest: list_all2_lengthD)
qed

end
