(* ===== verification/Color.thy ===== *)
theory Color
  imports StringUtils Complex_Main
begin

text \<open>
  Colours, \<open>src/lib/fcitx-utils/color.c\<close>: four doubles, their text form and back.

  A finite double is its significand and exponent; the arithmetic rounds to 53 bits, to nearest and ties to
  even.  The range of exponents is left open, which the functions of this file cannot tell: a product that
  underflows is cut to zero, one that overflows has no conversion to \<open>int\<close>.
\<close>

section \<open>Doubles\<close>

datatype double = Double (significand: int) (exponent: int)

function bit_length :: "int \<Rightarrow> int" where
  "bit_length n = (if n \<le> 0 then 0 else 1 + bit_length (n div 2))"
  by pat_completeness auto
termination by (relation "measure nat") auto

declare bit_length.simps [simp del]

text \<open>The double next to \<open>n / d\<close>, for \<open>n\<close> not negative and \<open>d\<close> positive.\<close>

definition round_at :: "int \<Rightarrow> int \<Rightarrow> int \<Rightarrow> int \<times> int \<times> int" where
  "round_at n d k = (let n = n * 2 ^ nat k; d = d * 2 ^ nat (- k) in (n div d, n mod d, d))"

definition round_ratio :: "int \<Rightarrow> int \<Rightarrow> double" where
  "round_ratio n d =
     (if n = 0 then Double 0 0
      else
        let k = 53 + bit_length d - bit_length n;
            k = (if fst (round_at n d k) \<ge> 2 ^ 53 then k - 1 else k);
            (q, r, e) = round_at n d k
        in Double (if 2 * r > e \<or> (2 * r = e \<and> odd q) then q + 1 else q) (- k))"

definition double_ratio :: "int \<Rightarrow> int \<Rightarrow> double" where
  "double_ratio n d = (if n < 0 then Double (- significand (round_ratio (- n) d)) (exponent (round_ratio (- n) d))
     else round_ratio n d)"

text \<open>The product with a number that is an integer, and the conversion to \<open>int\<close>, which is undefined
  when the integer part does not fit.\<close>

definition double_times :: "double \<Rightarrow> int \<Rightarrow> double" where
  "double_times x c = double_ratio (significand x * c * 2 ^ nat (exponent x)) (2 ^ nat (- exponent x))"

definition double_to_int :: "double \<Rightarrow> int option" where
  "double_to_int x =
     (let n = \<bar>significand x\<bar> * 2 ^ nat (exponent x) div 2 ^ nat (- exponent x);
          i = (if significand x < 0 then - n else n)
      in if - (2 ^ 31) \<le> i \<and> i < 2 ^ 31 then Some i else None)"

lemma bit_length_bounds: "0 < n \<Longrightarrow> 1 \<le> bit_length n \<and> 2 powi (bit_length n - 1) \<le> real_of_int n \<and> real_of_int n < 2 powi bit_length n"
proof (induction n rule: bit_length.induct)
  case (1 n)
  show ?case
  proof (cases "n = 1")
    case True
    then show ?thesis by (simp add: bit_length.simps)
  next
    case False
    then have IH: "1 \<le> bit_length (n div 2)" "2 powi (bit_length (n div 2) - 1) \<le> real_of_int (n div 2)"
      "real_of_int (n div 2) < 2 powi bit_length (n div 2)"
      using 1 by auto
    have b: "bit_length n = 1 + bit_length (n div 2)" using 1(2) by (simp add: bit_length.simps)
    have "2 powi (bit_length (n div 2) - 1) * 2 = (2 :: real) powi bit_length (n div 2)"
      by (simp flip: power_int_add_1)
    moreover have "real_of_int (2 ^ nat m) = 2 powi m" if "0 \<le> m" for m :: int
      using that by (simp add: power_int_def)
    then have "n div 2 < 2 ^ nat (bit_length (n div 2))"
      using IH(1,3) by (metis of_int_less_iff order_trans zero_le_one)
    then have "n < 2 * 2 ^ nat (bit_length (n div 2))" by linarith
    then have "real_of_int n < real_of_int (2 * 2 ^ nat (bit_length (n div 2)))" by (simp only: of_int_less_iff)
    then have "real_of_int n < 2 * 2 powi bit_length (n div 2)" using IH(1) by (simp add: power_int_def)
    moreover have "2 * real_of_int (n div 2) \<le> real_of_int n" by linarith
    ultimately show ?thesis using IH b by (simp add: power_int_add)
  qed
qed

lemma round_at_real:
  assumes "0 < d"
  shows "fst (round_at n d k) = floor (real_of_int n / real_of_int d * 2 powi k)"
proof -
  have "real_of_int (n * 2 ^ nat k) / real_of_int (d * 2 ^ nat (- k)) = real_of_int n / real_of_int d * 2 powi k"
    using assms by (simp add: power_int_def divide_simps)
  then show ?thesis
    using floor_divide_of_int_eq [where 'a = real, of "n * 2 ^ nat k" "d * 2 ^ nat (- k)"]
    by (simp add: round_at_def Let_def)
qed

lemma power_int_window:
  fixes x :: real
  assumes "c \<le> x * 2 powi j" "x * 2 powi j < 2 * c" "c \<le> x * 2 powi k" "x * 2 powi k < 2 * c"
  shows "j = k"
proof -
  have less: False if "i < j" "c \<le> x * 2 powi i" "x * 2 powi j < 2 * c" for i j :: int
  proof -
    have "0 < x * 2 powi i" using that assms by linarith
    moreover have "x * 2 powi j = x * 2 powi i * 2 powi (j - i)" using power_int_add [of "2 :: real" i "j - i"] by simp
    moreover have "(2 :: real) powi 1 \<le> 2 powi (j - i)" using that by (intro power_int_increasing) auto
    ultimately have "x * 2 powi i * 2 \<le> x * 2 powi j"
      using mult_left_mono [of 2 "2 powi (j - i)" "x * 2 powi i"] by (metis less_imp_le power_int_1_right)
    then show False using that by linarith
  qed
  show ?thesis using less [of j k] less [of k j] assms by (cases j k rule: linorder_cases) auto
qed

text \<open>The significand is the nearest integer at the exponent that gives it 53 bits.\<close>

lemma round_ratio_eq:
  assumes n: "0 < n" "0 < d" and x: "n' = n * 2 ^ nat k" "d' = d * 2 ^ nat (- k)"
    and w: "2 ^ 52 * d' \<le> n'" "n' < 2 ^ 53 * d'" and q: "\<bar>2 * (n' - q * d')\<bar> < d'"
  shows "round_ratio n d = Double q (- k)"
proof -
  let ?x = "real_of_int n / real_of_int d" and ?k = "53 + bit_length d - bit_length n"
  have x0: "0 < ?x" using n by simp
  have b: "2 powi (bit_length n - 1) \<le> real_of_int n" "real_of_int n < 2 powi bit_length n"
    "2 powi (bit_length d - 1) \<le> real_of_int d" "real_of_int d < 2 powi bit_length d"
    using bit_length_bounds n by auto
  have lo: "2 ^ 52 \<le> ?x * 2 powi ?k"
  proof -
    have "2 ^ 52 * real_of_int d \<le> 2 ^ 52 * 2 powi bit_length d" using b(4) by simp
    also have "\<dots> = 2 powi (bit_length n - 1) * 2 powi ?k" by (simp add: power_int_add power_int_diff)
    also have "\<dots> \<le> real_of_int n * 2 powi ?k" using b(1) by (simp add: mult_right_mono)
    finally show ?thesis using n by (simp add: field_simps)
  qed
  have hi: "?x * 2 powi ?k < 2 ^ 54"
  proof -
    have "real_of_int n * 2 powi ?k < 2 powi bit_length n * 2 powi ?k" using b(2) by simp
    also have "\<dots> = 2 ^ 54 * 2 powi (bit_length d - 1)" by (simp add: power_int_add power_int_diff)
    also have "\<dots> \<le> 2 ^ 54 * real_of_int d" using b(3) by simp
    finally show ?thesis using n by (simp add: field_simps)
  qed
  let ?j = "if fst (round_at n d ?k) \<ge> 2 ^ 53 then ?k - 1 else ?k"
  have "fst (round_at n d ?k) \<ge> 2 ^ 53 \<longleftrightarrow> ?x * 2 powi ?k \<ge> 2 ^ 53"
    using n by (simp add: round_at_real le_floor_iff)
  moreover have "?x * 2 powi (?k - 1) = ?x * 2 powi ?k / 2" by (subst power_int_diff) simp_all
  moreover have "2 ^ 52 \<le> (if P then z else y) \<and> (if P then z else y) < 2 * 2 ^ 52"
    if "P \<longleftrightarrow> y \<ge> 2 ^ 53" "z = y / 2" "2 ^ 52 \<le> y" "y < 2 ^ 54" for P and y z :: real
    using that by auto
  ultimately have j: "2 ^ 52 \<le> ?x * 2 powi ?j \<and> ?x * 2 powi ?j < 2 * 2 ^ 52"
    unfolding if_distrib [of "\<lambda>k. ?x * 2 powi k"] using lo hi by blast
  have r: "real_of_int n' / real_of_int d' = ?x * 2 powi k"
    unfolding x using n by (simp add: power_int_def divide_simps)
  have d': "0 < d'" using n x by simp
  have "real_of_int (2 ^ 52 * d') \<le> real_of_int n'" "real_of_int n' < real_of_int (2 ^ 53 * d')"
    using w by (simp_all only: of_int_le_iff of_int_less_iff)
  then have "2 ^ 52 \<le> real_of_int n' / real_of_int d'" "real_of_int n' / real_of_int d' < 2 * 2 ^ 52"
    using d' by (simp_all add: field_simps)
  then have jk: "?j = k" using j power_int_window [of "2 ^ 52" ?x ?j k] by (simp add: r)
  have "(if 2 * (n' mod d') > d' \<or> (2 * (n' mod d') = d' \<and> odd (n' div d')) then n' div d' + 1 else n' div d') = q"
  proof -
    have "n' mod d' = n' - n' div d' * d'" by (simp add: minus_div_mult_eq_mod)
    moreover have "0 \<le> n' mod d'" "n' mod d' < d'" using d' by simp_all
    moreover have "n' div d' = q \<or> n' div d' = q - 1"
    proof -
      have "\<bar>e\<bar> < d'" if "\<bar>2 * e\<bar> < d'" for e using that by arith
      then have "\<bar>n' - q * d'\<bar> < d'" using q .
      then have "- d' < n' - q * d'" "n' - q * d' < d'" by (simp_all only: abs_less_iff, linarith)
      then have "(n' - q * d') div d' = 0 \<or> (n' - q * d') div d' = - 1"
        using d' div_pos_pos_trivial [of "n' - q * d'" d'] div_pos_pos_trivial [of "n' - q * d' + d'" d']
          div_add_self2 [of d' "n' - q * d'"] by (cases "0 \<le> n' - q * d'") auto
      moreover have "n' div d' = q + (n' - q * d') div d'"
        using d' div_mult_self1 [of d' "n' - q * d'" q] by simp
      ultimately show ?thesis by linarith
    qed
    ultimately consider "n' - q * d' = n' mod d'" "q = n' div d'" | "n' - q * d' = n' mod d' - d'" "q = n' div d' + 1"
      by (auto simp: algebra_simps)
    then show ?thesis
    proof cases
      case 1
      then have "\<bar>2 * (n' mod d')\<bar> < d'" using q by metis
      then have "\<not> 2 * (n' mod d') > d'" "2 * (n' mod d') \<noteq> d'" by arith+
      then show ?thesis using 1 by simp
    next
      case 2
      then have "\<bar>2 * (n' mod d' - d')\<bar> < d'" using q by metis
      moreover have "d' < 2 * e" if "\<bar>2 * (e - d')\<bar> < d'" for e using that by arith
      ultimately have "2 * (n' mod d') > d'" by blast
      then show ?thesis using 2 by simp
    qed
  qed
  moreover have "round_at n d k = (n' div d', n' mod d', d')" by (simp add: round_at_def x Let_def)
  ultimately show ?thesis using n jk by (simp add: round_ratio_def Let_def)
qed

section \<open>Colours\<close>

record color =
  red :: double
  green :: double
  blue :: double
  alpha :: double

definition IsColorValid :: "int \<Rightarrow> bool" where
  "IsColorValid c \<longleftrightarrow> c \<ge> 0 \<and> c \<le> 255"

definition RoundColor :: "int \<Rightarrow> int" where
  "RoundColor c = (if c \<ge> 0 then if c \<le> 255 then c else 255 else 0)"

definition to_hex_char :: "int \<Rightarrow> byte" where
  "to_hex_char v = (if v \<ge> 0 \<and> v < 10 then word_of_int (v + 48) else word_of_int (v - 10 + 97))"

text \<open>A byte as the value of a \<open>char\<close>, which is signed.\<close>

definition hex_value :: "byte \<Rightarrow> int" where
  "hex_value c = (if c \<ge> 48 \<and> c \<le> 57 then sint c - 48 else sint c - 97 + 10)"

definition to_hex_digit :: "byte \<Rightarrow> byte \<Rightarrow> int" where
  "to_hex_digit hi lo = hex_value (fcitx_utils_tolower hi) * 16 + hex_value (fcitx_utils_tolower lo)"

definition is_hex :: "byte \<Rightarrow> bool" where
  "is_hex c \<longleftrightarrow> fcitx_utils_isdigit c \<or> (65 \<le> c \<and> c \<le> 70) \<or> (97 \<le> c \<and> c \<le> 102)"

text \<open>\<open>sscanf\<close> with \<open>%d %d %d\<close>, when it stores three numbers.\<close>

definition scan_three :: "cstr \<Rightarrow> (int \<times> int \<times> int) option" where
  "scan_three s = do {
     (r, s) \<leftarrow> scan_int s;
     (g, s) \<leftarrow> scan_int s;
     (b, s) \<leftarrow> scan_int s;
     Some (r, g, b) }"

text \<open>\<open>None\<close> is the answer false, with the colour left as it is.\<close>

definition fcitx_color_parse :: "cstr \<Rightarrow> color option" where
  "fcitx_color_parse str =
     (let rest = dropWhile fcitx_utils_isspace str in
      if rest \<noteq> [] \<and> hd rest = 35
      then
        let digits = takeWhile is_hex (tl rest) in
        if length digits \<noteq> 8 then None
        else
          let r = to_hex_digit (digits ! 0) (digits ! 1);
              g = to_hex_digit (digits ! 2) (digits ! 3);
              b = to_hex_digit (digits ! 4) (digits ! 5);
              a = to_hex_digit (digits ! 6) (digits ! 7)
          in if IsColorValid r \<and> IsColorValid g \<and> IsColorValid b \<and> IsColorValid a
             then Some \<lparr>red = double_ratio r 255, green = double_ratio g 255, blue = double_ratio b 255,
                        alpha = double_ratio a 255\<rparr>
             else None
      else
        case scan_three str of
          None \<Rightarrow> None
        | Some (r, g, b) \<Rightarrow>
            if IsColorValid r \<and> IsColorValid g \<and> IsColorValid b
            then Some \<lparr>red = double_ratio r 255, green = double_ratio g 255, blue = double_ratio b 255,
                       alpha = Double 1 0\<rparr>
            else None)"

definition color_byte :: "double \<Rightarrow> cstr option" where
  "color_byte x = map_option
     (\<lambda>v. let value = RoundColor v in [to_hex_char (value div 16), to_hex_char (value mod 16)])
     (double_to_int (double_times x 255))"

definition fcitx_color_to_string :: "color \<Rightarrow> cstr option" where
  "fcitx_color_to_string color = do {
     r \<leftarrow> color_byte (red color);
     g \<leftarrow> color_byte (green color);
     b \<leftarrow> color_byte (blue color);
     a \<leftarrow> color_byte (alpha color);
     Some (35 # r @ g @ b @ a) }"

section \<open>The round trip\<close>

text \<open>A byte over 255 and times 255: with \<open>m\<close> the significand of the quotient, the product is \<open>w\<close> scaled by
  a power of two, up to less than half of a unit.\<close>

lemma quotient_step:
  assumes "255 \<le> w" "w \<le> 509" "v * 2 ^ nat k = w * 2 ^ 52" "0 < v" "0 \<le> k"
  shows "double_ratio v 255 = Double ((w * 2 ^ 52 + 127) div 255) (- k)"
  using assms round_ratio_eq [of v 255 "w * 2 ^ 52" k 255 "(w * 2 ^ 52 + 127) div 255"]
  by (simp add: double_ratio_def)

lemma product_step:
  assumes "257 \<le> w" "w \<le> 509" "8 \<le> k"
  shows "double_times (Double ((w * 2 ^ 52 + 127) div 255) (- k)) 255 = Double (w * 2 ^ 44) (8 - k)"
proof -
  define m where "m = (w * 2 ^ 52 + 127) div 255"
  define p :: int where "p = 2 ^ nat (k - 8)"
  have m: "w * 2 ^ 52 - 127 \<le> m * 255" "m * 255 \<le> w * 2 ^ 52 + 127" by (simp_all add: m_def)
  have p: "0 < p" by (simp add: p_def)
  have "nat k = nat (k - 8) + 8" using assms by simp
  then have k: "2 ^ nat k = p * 256" by (simp add: p_def power_add)
  have "round_ratio (m * 255) (p * 256) = Double (w * 2 ^ 44) (- (k - 8))"
  proof (rule round_ratio_eq)
    show "0 < m * 255" "0 < p * 256" using m assms p by simp_all
    show "m * 255 * p = m * 255 * 2 ^ nat (k - 8)" "p * 256 = p * 256 * 2 ^ nat (- (k - 8))"
      using assms by (simp_all add: p_def)
    have "2 ^ 60 * p \<le> m * 255 * p" "m * 255 * p < 2 ^ 61 * p"
      using m assms p by (auto intro!: mult_right_mono mult_strict_right_mono)
    then show "2 ^ 52 * (p * 256) \<le> m * 255 * p" "m * 255 * p < 2 ^ 53 * (p * 256)" by simp_all
    have "m * 255 * p - w * 2 ^ 44 * (p * 256) = (m * 255 - w * 2 ^ 52) * p" by (simp add: algebra_simps)
    moreover have "\<bar>m * 255 - w * 2 ^ 52\<bar> * p \<le> 127 * p" using m p by (intro mult_right_mono) auto
    ultimately show "\<bar>2 * (m * 255 * p - w * 2 ^ 44 * (p * 256))\<bar> < p * 256"
      using p by (simp add: abs_mult)
  qed
  then show ?thesis unfolding m_def [symmetric] using m assms p by (simp add: double_times_def double_ratio_def k)
qed

lemma channel_power: 
  "v \<in> {1, 2, 4, 8, 16, 32, 64, 128} \<Longrightarrow> double_to_int (double_times (double_ratio v 255) 255) = Some v"
proof -
  assume v: "v \<in> {1, 2, 4, 8, 16, 32, 64, 128}"
  have step: "round_ratio 1152921504606846960 (2 ^ nat k) = Double (2 ^ 53) (7 - k)" if "k \<in> {53..60}" for k
  proof -
    have "k \<in> set [53..60]" using that by (simp, presburger)
    then show ?thesis
      using round_ratio_eq [of 1152921504606846960 "2 ^ nat k" "1152921504606846960 * 2 ^ nat (k - 7)" "k - 7" "2 ^ nat k" "2 ^ 53"]
      by (auto simp: upto_rec_numeral)
  qed
  have "double_to_int (double_times (double_ratio v 255) 255) = Some v"
    if "v * 2 ^ nat k = 256 * 2 ^ 52" "k \<in> {53..60}" "2 ^ 53 div 2 ^ nat (k - 7) = v" "v < 256" "0 < v" for v k
    using quotient_step [of 256 v k] step [OF that(2)] that
    by (auto simp: double_times_def double_ratio_def double_to_int_def)
  from this [of _ 60] this [of _ 59] this [of _ 58] this [of _ 57] this [of _ 56] this [of _ 55] this [of _ 54] this [of _ 53] v
  show ?thesis by auto
qed

lemma channel_exact:
  assumes "0 \<le> v" "v \<le> 255"
  shows "double_to_int (double_times (double_ratio v 255) 255) = Some v"
proof -
  have run: ?thesis if "257 \<le> v * 2 ^ j" "v * 2 ^ j \<le> 509" "j \<le> 7" for j
  proof -
    have "0 < v" using that assms by (cases "v = 0") auto
    then have q: "double_ratio v 255 = Double ((v * 2 ^ j * 2 ^ 52 + 127) div 255) (- (52 + int j))"
      using that assms by (intro quotient_step) (auto simp: nat_add_distrib power_add)
    have "v * 2 ^ j * 2 ^ 44 div 2 ^ (44 + j) = v * 2 ^ (44 + j) div 2 ^ (44 + j)" by (simp only: power_add ac_simps)
    then have "v * 2 ^ j * 17592186044416 div 2 ^ (j + 44) = v" by (simp add: add.commute)
    then show ?thesis using assms that
      unfolding q by (subst product_step) (auto simp: double_to_int_def nat_add_distrib abs_mult)
  qed
  consider "v = 0" | "v \<in> {1, 2, 4, 8, 16, 32, 64, 128}" | "v = 255" | "v = 3"
    | "257 \<le> v * 2 ^ 1" "v < 255" | "257 \<le> v * 2 ^ 2" "v < 128" | "257 \<le> v * 2 ^ 3" "v < 64"
    | "257 \<le> v * 2 ^ 4" "v < 32" | "257 \<le> v * 2 ^ 5" "v < 16" | "257 \<le> v * 2 ^ 6" "v < 8"
  proof -
    have "v = 0 \<or> v \<in> {1, 2, 4, 8, 16, 32, 64, 128} \<or> v = 255 \<or> v = 3 \<or> 257 \<le> v * 2 ^ 1 \<and> v < 255 \<or>
      257 \<le> v * 2 ^ 2 \<and> v < 128 \<or> 257 \<le> v * 2 ^ 3 \<and> v < 64 \<or> 257 \<le> v * 2 ^ 4 \<and> v < 32 \<or>
      257 \<le> v * 2 ^ 5 \<and> v < 16 \<or> 257 \<le> v * 2 ^ 6 \<and> v < 8"
      using assms by simp presburger
    then show thesis using that by blast
  qed
  then show ?thesis
  proof cases
    case 1 then show ?thesis by (simp add: double_ratio_def round_ratio_def double_times_def double_to_int_def)
  next
    case 2 then show ?thesis by (rule channel_power)
  next
    case 3
    have "round_ratio (255 * 2 ^ 52) (2 ^ 52) = Double (255 * 2 ^ 45) (- 45)"
      using round_ratio_eq [of "255 * 2 ^ 52" "2 ^ 52" "255 * 2 ^ 97" 45 "2 ^ 52" "255 * 2 ^ 45"] by simp
    then show ?thesis using 3 quotient_step [of 255 255 52] by (simp add: double_times_def double_ratio_def double_to_int_def)
  next
    case 4 then show ?thesis by (intro run [of 7]) simp_all
  next
    case 5 then show ?thesis by (intro run [of 1]) simp_all
  next
    case 6 then show ?thesis by (intro run [of 2]) simp_all
  next
    case 7 then show ?thesis by (intro run [of 3]) simp_all
  next
    case 8 then show ?thesis by (intro run [of 4]) simp_all
  next
    case 9 then show ?thesis by (intro run [of 5]) simp_all
  next
    case 10 then show ?thesis by (intro run [of 6]) simp_all
  qed
qed

lemma alpha_exact: "double_to_int (double_times (Double 1 0) 255) = Some 255"
  using round_ratio_eq [of 255 1 "255 * 2 ^ 45" 45 1 "255 * 2 ^ 45"]
  by (simp add: double_times_def double_ratio_def double_to_int_def)

definition hex_pair :: "int \<Rightarrow> cstr" where
  "hex_pair v = [to_hex_char (v div 16), to_hex_char (v mod 16)]"

lemma color_byte_ratio: "0 \<le> v \<Longrightarrow> v \<le> 255 \<Longrightarrow> color_byte (double_ratio v 255) = Some (hex_pair v)"
  by (simp add: color_byte_def channel_exact hex_pair_def RoundColor_def)

lemma color_byte_alpha: "color_byte (Double 1 0) = Some (hex_pair 255)"
  by (simp add: color_byte_def alpha_exact hex_pair_def RoundColor_def)

lemma is_hex_cases: "is_hex c \<longleftrightarrow> c \<in> set (map word_of_nat ([48..<58] @ [65..<71] @ [97..<103]))"
proof -
  have range: "lo \<le> c \<and> c \<le> hi \<longleftrightarrow> c \<in> word_of_nat ` {unat lo..<Suc (unat hi)}" for lo hi :: byte
  proof
    assume "lo \<le> c \<and> c \<le> hi"
    then have "unat c \<in> {unat lo..<Suc (unat hi)}" by (simp add: word_le_nat_alt less_Suc_eq_le)
    then show "c \<in> word_of_nat ` {unat lo..<Suc (unat hi)}" by (intro image_eqI [where x = "unat c"]) simp_all
  next
    assume "c \<in> word_of_nat ` {unat lo..<Suc (unat hi)}"
    then obtain n where n: "c = word_of_nat n" "unat lo \<le> n" "n \<le> unat hi" by auto
    moreover have "unat c = n" using n unsigned_less [of hi, where 'a = nat] by (simp add: unat_of_nat)
    ultimately show "lo \<le> c \<and> c \<le> hi" by (simp add: word_le_nat_alt)
  qed
  show ?thesis
    unfolding is_hex_def fcitx_utils_isdigit_def range
    by (simp only: set_map set_append image_Un set_upt Un_iff) simp
qed

lemma nibble:
  "is_hex c \<Longrightarrow> 0 \<le> hex_value (fcitx_utils_tolower c) \<and> hex_value (fcitx_utils_tolower c) \<le> 15 \<and>
     to_hex_char (hex_value (fcitx_utils_tolower c)) = fcitx_utils_tolower c \<and> is_hex (fcitx_utils_tolower c) \<and>
     fcitx_utils_tolower (fcitx_utils_tolower c) = fcitx_utils_tolower c"
  unfolding is_hex_cases [of c]
  by (simp, elim disjE; simp add: is_hex_def fcitx_utils_isdigit_def hex_value_def to_hex_char_def fcitx_utils_tolower_def fcitx_utils_isupper_def)

lemma hex_digit:
  assumes "is_hex h" "is_hex l"
  shows "IsColorValid (to_hex_digit h l)" "hex_pair (to_hex_digit h l) = [fcitx_utils_tolower h, fcitx_utils_tolower l]"
proof -
  have pair: "(a * 16 + b) div 16 = a \<and> (a * 16 + b) mod 16 = b" if "0 \<le> b" "b \<le> 15" for a b :: int
    using that by auto
  show "IsColorValid (to_hex_digit h l)" using nibble [OF assms(1)] nibble [OF assms(2)]
    by (simp add: to_hex_digit_def IsColorValid_def)
  show "hex_pair (to_hex_digit h l) = [fcitx_utils_tolower h, fcitx_utils_tolower l]"
    using nibble [OF assms(1)] nibble [OF assms(2)] pair
    by (simp add: to_hex_digit_def hex_pair_def)
qed

lemma parse_hex:
  assumes "list_all fcitx_utils_isspace ws" "ds = [a, b, c, d, e, f, g, h]" "list_all is_hex ds"
    "rest = [] \<or> \<not> is_hex (hd rest)"
  shows "fcitx_color_parse (ws @ 35 # ds @ rest) =
    Some \<lparr>red = double_ratio (to_hex_digit a b) 255, green = double_ratio (to_hex_digit c d) 255,
      blue = double_ratio (to_hex_digit e f) 255, alpha = double_ratio (to_hex_digit g h) 255\<rparr>"
proof -
  have "dropWhile fcitx_utils_isspace (ws @ 35 # ds @ rest) = 35 # ds @ rest"
    using assms(1) by (simp add: dropWhile_append list_all_iff fcitx_utils_isspace_def)
  moreover have "takeWhile is_hex (ds @ rest) = ds"
    using assms(3,4) by (cases rest) (auto simp: takeWhile_append list_all_iff)
  ultimately show ?thesis using assms(2,3) by (simp add: fcitx_color_parse_def hex_digit Let_def)
qed

text \<open>C22: White space, a hash and eight hexadecimal digits, with no digit behind them, are read as a colour
  whose text is the hash and the digits in lower case, and that text is read as the same colour: the division
  by 255 and the product with 255 lose nothing, whatever the rounding of the doubles.\<close>

theorem color_roundtrip:
  assumes "list_all fcitx_utils_isspace ws" "length ds = 8" "list_all is_hex ds" "rest = [] \<or> \<not> is_hex (hd rest)"
  shows "\<exists>c. fcitx_color_parse (ws @ 35 # ds @ rest) = Some c \<and>
    fcitx_color_to_string c = Some (35 # map fcitx_utils_tolower ds) \<and>
    fcitx_color_parse (35 # map fcitx_utils_tolower ds) = Some c"
proof -
  obtain a b c d e f g h where ds: "ds = [a, b, c, d, e, f, g, h]"
    using assms(2) by (auto simp: numeral_eq_Suc length_Suc_conv)
  have hex: "is_hex a" "is_hex b" "is_hex c" "is_hex d" "is_hex e" "is_hex f" "is_hex g" "is_hex h"
    using assms(3) ds by simp_all
  have low: "list_all is_hex (map fcitx_utils_tolower ds)" using hex by (simp add: ds nibble)
  have "to_hex_digit (fcitx_utils_tolower x) (fcitx_utils_tolower y) = to_hex_digit x y" if "is_hex x" "is_hex y" for x y
    using that by (simp add: to_hex_digit_def nibble)
  then show ?thesis
    using parse_hex [OF assms(1) ds assms(3,4)] parse_hex [of "[]" _ _ _ _ _ _ _ _ _ "[]", OF _ _ low] hex
    by (simp add: ds fcitx_color_to_string_def color_byte_ratio hex_digit [unfolded IsColorValid_def])
qed

theorem color_roundtrip_witness:
  "\<exists>c. fcitx_color_parse (bytes '' #FFA500c0;'') = Some c \<and> fcitx_color_to_string c = Some (bytes ''#ffa500c0'')"
  using color_roundtrip [of "bytes '' ''" "bytes ''FFA500c0''" "bytes '';''"]
  by (auto simp: of_char_def is_hex_def fcitx_utils_isdigit_def fcitx_utils_isspace_def fcitx_utils_tolower_def
      fcitx_utils_isupper_def)

text \<open>Three decimal numbers of a byte are read as an opaque colour.\<close>

lemma scan_int_decimal:
  assumes "0 \<le> i" "rest = [] \<or> \<not> is_digit (hd rest)"
  shows "scan_int (decimal i @ rest) = Some (i, rest)" "scan_int (32 # decimal i @ rest) = Some (i, rest)"
proof -
  obtain c t where c: "decimal_nat (nat i) = c # t" "is_digit c" "list_all is_digit t"
    using decimal_nat_digits [of "nat i"] by (cases "decimal_nat (nat i)") auto
  have d: "dropWhile is_digit (decimal_nat (nat i) @ rest) = rest"
    using c assms(2) by (cases rest) (auto simp: dropWhile_append list_all_iff)
  have v: "digits_value (decimal_nat (nat i) @ rest) = i" using digits_value_decimal assms by auto
  show "scan_int (decimal i @ rest) = Some (i, rest)"
    using c d v assms(1) digit_not_space [OF c(2)] by (simp add: scan_int_def decimal_def Let_def)
  then show "scan_int (32 # decimal i @ rest) = Some (i, rest)"
    by (simp add: scan_int_def c_isspace_def Let_def)
qed

lemma color_decimal:
  assumes "0 \<le> r" "r \<le> 255" "0 \<le> g" "g \<le> 255" "0 \<le> b" "b \<le> 255" "rest = [] \<or> \<not> is_digit (hd rest)"
  shows "\<exists>c. fcitx_color_parse (decimal r @ 32 # decimal g @ 32 # decimal b @ rest) = Some c \<and>
    fcitx_color_to_string c = Some (35 # hex_pair r @ hex_pair g @ hex_pair b @ [102, 102])"
proof -
  have "scan_three (decimal r @ 32 # decimal g @ 32 # decimal b @ rest) = Some (r, g, b)"
    using assms by (simp add: scan_three_def scan_int_decimal is_digit_def)
  moreover obtain c t where c: "decimal_nat (nat r) = c # t" "is_digit c"
    using decimal_nat_digits [of "nat r"] by (cases "decimal_nat (nat r)") auto
  moreover have "\<not> fcitx_utils_isspace c" "c \<noteq> 35"
    using digit_not_space [OF c(2)] c(2) by (auto simp: fcitx_utils_isspace_def c_isspace_def is_digit_def)
  moreover have "hex_pair 255 = [102, 102]" by (simp add: hex_pair_def to_hex_char_def)
  ultimately show ?thesis using assms
    by (simp add: fcitx_color_parse_def decimal_def IsColorValid_def fcitx_color_to_string_def color_byte_ratio color_byte_alpha Let_def)
qed

end
