(* ===== verification/I18nString.thy ===== *)
theory I18nString
  imports Dict StringUtils
begin

text \<open>
  Strings with translations, \<open>src/lib/fcitx-utils/i18nstring.c\<close>: a dictionary from locales to strings,
  the empty locale for the default, and the choice of the best one for a locale.
\<close>

definition fcitx_i18n_string_new :: "cstr dict" where
  "fcitx_i18n_string_new = fcitx_dict_new True"

text \<open>The byte at an offset, the terminator included, and the run of bytes that a loop copies.\<close>

definition byte_at :: "cstr \<Rightarrow> nat \<Rightarrow> byte" where
  "byte_at s i = (if i < length s then s ! i else 0)"

definition locale_run :: "(byte \<Rightarrow> bool) \<Rightarrow> cstr \<Rightarrow> nat \<Rightarrow> cstr" where
  "locale_run ok s i = takeWhile ok (take (64 - i) (drop i s))"

definition language_char :: "byte \<Rightarrow> bool" where
  "language_char c \<longleftrightarrow> \<not> fcitx_utils_isspace c \<and> c \<noteq> 95 \<and> c \<noteq> 46 \<and> c \<noteq> 64"

definition codeset_char :: "byte \<Rightarrow> bool" where
  "codeset_char c \<longleftrightarrow> fcitx_utils_isupper c \<or> fcitx_utils_islower c \<or> fcitx_utils_isdigit c \<or> c = 95 \<or> c = 45"

text \<open>The normalized locale with the lengths of its three prefixes; \<open>None\<close> is the failure.\<close>

definition normalize_locale :: "cstr \<Rightarrow> (cstr \<times> nat \<times> nat \<times> nat) option" where
  "normalize_locale s =
     (let lang = locale_run language_char s 0; i = length lang in
      if i = 0 \<or> i = 64 then None
      else
        let languageLength = i;
            (buf, i) = (if byte_at s i = 95
              then let t = locale_run fcitx_utils_isupper s (i + 1) in (lang @ 95 # t, i + 1 + length t)
              else (lang, i));
            territoryLength = (if byte_at s languageLength = 95 then length buf else 0)
        in if byte_at s languageLength = 95 \<and> i = 64 then None
           else
             let i = (if byte_at s i = 46 then i + 1 + length (locale_run codeset_char s (i + 1)) else i) in
             if byte_at s i = 64
             then
               let m = locale_run (\<lambda>c. True) s (i + 1); j = i + 1 + length m; buf = buf @ 64 # m
               in if j = 64 then None else Some (buf, languageLength, territoryLength, length buf)
             else Some (buf, languageLength, territoryLength, 0))"

text \<open>\<open>current\<close> is what \<open>setlocale\<close> answers.\<close>

definition fcitx_i18n_string_match :: "cstr dict \<Rightarrow> cstr option \<Rightarrow> cstr option \<Rightarrow> cstr option" where
  "fcitx_i18n_string_match s locl current =
     (let locl = (case locl of Some l \<Rightarrow> l | None \<Rightarrow> (case current of Some l \<Rightarrow> l | None \<Rightarrow> []));
          (buf, l, t, m) = (case normalize_locale locl of Some r \<Rightarrow> r | None \<Rightarrow> ([], 0, 0, 0));
          look = (\<lambda>n. fcitx_dict_lookup (take n buf) s)
      in if m \<noteq> 0 \<and> look m \<noteq> None then look m
         else if t \<noteq> 0 \<and> look t \<noteq> None then look t
         else if look l \<noteq> None then look l
         else fcitx_dict_lookup [] s)"

section \<open>The choice\<close>

text \<open>The parts of a locale, each of the last three behind its separator when it is there.\<close>

definition part :: "byte \<Rightarrow> cstr option \<Rightarrow> cstr" where
  "part c p = (case p of Some x \<Rightarrow> c # x | None \<Rightarrow> [])"

definition locale_name :: "cstr \<Rightarrow> cstr option \<Rightarrow> cstr option \<Rightarrow> cstr option \<Rightarrow> cstr" where
  "locale_name lang terr code modi = lang @ part 95 terr @ part 46 code @ part 64 modi"

definition locale_ok :: "cstr \<Rightarrow> cstr option \<Rightarrow> cstr option \<Rightarrow> cstr option \<Rightarrow> bool" where
  "locale_ok lang terr code modi \<longleftrightarrow> lang \<noteq> [] \<and> list_all language_char lang \<and>
     (case terr of Some t \<Rightarrow> list_all fcitx_utils_isupper t | None \<Rightarrow> True) \<and>
     (case code of Some c \<Rightarrow> list_all codeset_char c | None \<Rightarrow> True) \<and>
     length (locale_name lang terr code modi) < 64"

lemma run_prefix:
  "list_all ok run \<Longrightarrow> rest = [] \<or> \<not> ok (hd rest) \<Longrightarrow> length pre = i \<Longrightarrow> length pre + length run + length rest \<le> 64 \<Longrightarrow>
   locale_run ok (pre @ run @ rest) i = run"
  by (cases rest) (auto simp: locale_run_def takeWhile_append list_all_iff)

lemma byte_at_part:
  "length pre = i \<Longrightarrow> byte_at (pre @ rest) i = (case rest of [] \<Rightarrow> 0 | x # _ \<Rightarrow> x)"
  by (auto simp: byte_at_def nth_append split: list.split)

lemma part_simps [simp]: "part c None = []" "part c (Some x) = c # x"
  by (simp_all add: part_def)

lemma separators [simp]:
  "\<not> language_char 95" "\<not> language_char 46" "\<not> language_char 64"
  "\<not> fcitx_utils_isupper 46" "\<not> fcitx_utils_isupper 64" "\<not> codeset_char 64"
  by (simp_all add: language_char_def fcitx_utils_isspace_def fcitx_utils_isupper_def codeset_char_def fcitx_utils_islower_def
      fcitx_utils_isdigit_def)

text \<open>The steps of the loop, when each run is the part of the locale at its place.\<close>

lemma normalize_steps:
  fixes s :: cstr
  assumes "locale_run language_char s 0 = l" "l \<noteq> []" "list_all language_char l"
    "length l + length (part 95 t) + length (part 46 c) + length (part 64 m) < 64"
    "byte_at s (length l) = 95 \<longleftrightarrow> t \<noteq> None"
    "\<And>x. t = Some x \<Longrightarrow> locale_run fcitx_utils_isupper s (length l + 1) = x"
    "byte_at s (length l + length (part 95 t)) = 46 \<longleftrightarrow> c \<noteq> None"
    "\<And>x. c = Some x \<Longrightarrow> locale_run codeset_char s (length l + length (part 95 t) + 1) = x"
    "byte_at s (length l + length (part 95 t) + length (part 46 c)) = 64 \<longleftrightarrow> m \<noteq> None"
    "\<And>x. m = Some x \<Longrightarrow> locale_run (\<lambda>c. True) s (length l + length (part 95 t) + length (part 46 c) + 1) = x"
  shows "normalize_locale s =
    Some (l @ part 95 t @ part 64 m, length l, if t = None then 0 else length (l @ part 95 t),
      if m = None then 0 else length (l @ part 95 t @ part 64 m))"
  using assms by (cases t; cases c; cases m) (simp_all add: normalize_locale_def Let_def)

text \<open>The territory step and the codeset step, with what is left of the locale.\<close>

lemma normalize_parts:
  assumes "locale_ok l t c m"
  shows "normalize_locale (locale_name l t c m) =
    Some (l @ part 95 t @ part 64 m, length l, if t = None then 0 else length (l @ part 95 t),
      if m = None then 0 else length (l @ part 95 t @ part 64 m))"
proof -
  let ?s = "locale_name l t c m"
  have l: "l \<noteq> []" "list_all language_char l" and n: "length l + length (part 95 t) + length (part 46 c) + length (part 64 m) < 64"
    and t: "\<And>x. t = Some x \<Longrightarrow> list_all fcitx_utils_isupper x" and c: "\<And>x. c = Some x \<Longrightarrow> list_all codeset_char x"
    using assms by (auto simp: locale_ok_def locale_name_def)
  have lang: "locale_run language_char ?s 0 = l"
    using run_prefix [of language_char l "part 95 t @ part 46 c @ part 64 m" "[]" 0] l n
    by (cases t; cases c; cases m) (simp_all add: locale_name_def)
  define i where "i = length l + length (part 95 t)"
  have terr: "byte_at ?s (length l) = 95 \<longleftrightarrow> t \<noteq> None"
    using byte_at_part [of l "length l" "part 95 t @ part 46 c @ part 64 m"]
    by (cases t; cases c; cases m) (simp_all add: locale_name_def)
  have terr_run: "locale_run fcitx_utils_isupper ?s (length l + 1) = x" if "t = Some x" for x
    using run_prefix [of fcitx_utils_isupper x "part 46 c @ part 64 m" "l @ [95]" "length l + 1"] t [OF that] n that
    by (cases c; cases m) (simp_all add: locale_name_def)
  have code: "byte_at ?s i = 46 \<longleftrightarrow> c \<noteq> None"
    using byte_at_part [of "l @ part 95 t" i "part 46 c @ part 64 m"]
    by (cases c; cases m) (simp_all add: locale_name_def i_def)
  have code_run: "locale_run codeset_char ?s (i + 1) = x" if "c = Some x" for x
    using run_prefix [of codeset_char x "part 64 m" "(l @ part 95 t) @ [46]" "i + 1"] c [OF that] n that
    by (cases m) (simp_all add: locale_name_def i_def)
  define j where "j = i + length (part 46 c)"
  have modi: "byte_at ?s j = 64 \<longleftrightarrow> m \<noteq> None"
    using byte_at_part [of "l @ part 95 t @ part 46 c" j "part 64 m"]
    by (cases m) (simp_all add: locale_name_def i_def j_def)
  have modi_run: "locale_run (\<lambda>c. True) ?s (j + 1) = x" if "m = Some x" for x
    using run_prefix [of "\<lambda>c. True" x "[]" "(l @ part 95 t @ part 46 c) @ [64]" "j + 1"] n that
    by (simp add: locale_name_def i_def j_def list_all_iff)
  note facts = lang l n terr terr_run code [unfolded i_def] code_run [unfolded i_def]
    modi [unfolded i_def j_def] modi_run [unfolded i_def j_def]
  show ?thesis
    by (rule normalize_steps [OF facts])
qed

text \<open>C21: For every locale of the form language, territory, codeset and modifier, the last three optional,
  that is shorter than 64 bytes, the match is the string of the first of these locales that has one:
  without its codeset, if it has a modifier; language and territory, if it has a territory; the language;
  the empty locale.\<close>

theorem i18n_match_order:
  assumes "locale_ok l t c m"
  shows "fcitx_i18n_string_match s (Some (locale_name l t c m)) current =
    (case List.find (\<lambda>k. fcitx_dict_lookup k s \<noteq> None)
        ((if m = None then [] else [l @ part 95 t @ part 64 m]) @ (if t = None then [] else [l @ part 95 t]) @ [l, []]) of
       Some k \<Rightarrow> fcitx_dict_lookup k s
     | None \<Rightarrow> None)"
proof -
  have "l \<noteq> []" using assms by (simp add: locale_ok_def)
  then show ?thesis
    unfolding fcitx_i18n_string_match_def Let_def option.case normalize_parts [OF assms] prod.case
    by (cases m; cases t) auto
qed

theorem i18n_match_order_witness:
  "let s = snd (fcitx_dict_insert (bytes ''zh'') (bytes ''x'') False
       (snd (fcitx_dict_insert (bytes ''zh_CN'') (bytes ''y'') False fcitx_i18n_string_new))) in
   fcitx_i18n_string_match s (Some (locale_name (bytes ''zh'') (Some (bytes ''CN'')) (Some (bytes ''UTF-8'')) (Some (bytes ''pinyin'')))) None
     = Some (bytes ''y'')"
proof -
  have "locale_ok (bytes ''zh'') (Some (bytes ''CN'')) (Some (bytes ''UTF-8'')) (Some (bytes ''pinyin''))"
    by (simp add: locale_ok_def locale_name_def of_char_def language_char_def fcitx_utils_isspace_def codeset_char_def
        fcitx_utils_isupper_def fcitx_utils_islower_def fcitx_utils_isdigit_def)
  from i18n_match_order [OF this] show ?thesis
    by (simp add: fcitx_i18n_string_new_def fcitx_dict_new_def fcitx_dict_insert_def HASH_FIND_def HASH_ADD_def
        fcitx_dict_lookup_def of_char_def Let_def)
qed

end
