(* ===== verification/Options.thy ===== *)
theory Options
  imports Configuration Color I18nString Key
begin

text \<open>
  Typed options over the configuration tree, \<open>src/lib/fcitx-config/helper.c\<close>: strings, integers, booleans,
  characters, colours, keys, strings with translations, enumerations and lists.

  A missing configuration is \<open>None\<close> and reads as one without values.  The functions that load and store one
  element of a list are arguments, and what they store is a value of their own type.
\<close>

section \<open>Operations\<close>

record option_info =
  defaultValue :: "cstr option"
  enumStrings :: "cstr list"
  enumDefault :: u32
  int_min :: int
  int_max :: int
  maxLength :: nat

definition get_value_by_path_with_default ::
  "config option \<Rightarrow> cstr \<Rightarrow> cstr option \<Rightarrow> cstr \<Rightarrow> cstr" where
  "get_value_by_path_with_default c path defaultValueUsr defaultValueSys =
     (case fcitx_configuration_get_value_by_path c path of
        Some value \<Rightarrow> value
      | None \<Rightarrow> (case defaultValueUsr of Some value \<Rightarrow> value | None \<Rightarrow> defaultValueSys))"

definition fcitx_configuration_get_string :: "config option \<Rightarrow> cstr \<Rightarrow> option_info \<Rightarrow> cstr" where
  "fcitx_configuration_get_string c path info =
     (let value = get_value_by_path_with_default c path (defaultValue info) [] in
      if maxLength info \<noteq> 0 \<and> length value > maxLength info
      then get_value_by_path_with_default None path (defaultValue info) []
      else value)"

definition fcitx_configuration_set_string :: "config \<Rightarrow> cstr \<Rightarrow> cstr option \<Rightarrow> config" where
  "fcitx_configuration_set_string c path str =
     (case str of None \<Rightarrow> c | Some s \<Rightarrow> fcitx_configuration_set_value_by_path c path (Some s))"

definition fcitx_configuration_get_integer :: "config option \<Rightarrow> cstr \<Rightarrow> option_info \<Rightarrow> int" where
  "fcitx_configuration_get_integer c path info =
     (let value = get_value_by_path_with_default c path (defaultValue info) (bytes ''0'');
          integerValue = atoi value
      in if integerValue < int_min info \<or> integerValue > int_max info
         then atoi (get_value_by_path_with_default None path (defaultValue info) (bytes ''0''))
         else integerValue)"

definition fcitx_configuration_set_integer :: "config \<Rightarrow> cstr \<Rightarrow> int \<Rightarrow> config" where
  "fcitx_configuration_set_integer c path i = fcitx_configuration_set_value_by_path c path (Some (decimal i))"

definition fcitx_configuration_get_boolean :: "config option \<Rightarrow> cstr \<Rightarrow> option_info \<Rightarrow> bool" where
  "fcitx_configuration_get_boolean c path info \<longleftrightarrow>
     strcmp (get_value_by_path_with_default c path (defaultValue info) (bytes ''False'')) (bytes ''True'') = 0"

definition fcitx_configuration_set_boolean :: "config \<Rightarrow> cstr \<Rightarrow> bool \<Rightarrow> config" where
  "fcitx_configuration_set_boolean c path b =
     fcitx_configuration_set_value_by_path c path (Some (if b then bytes ''True'' else bytes ''False''))"

text \<open>The first byte, the terminator of an empty value included.\<close>

definition fcitx_configuration_get_char :: "config option \<Rightarrow> cstr \<Rightarrow> option_info \<Rightarrow> byte" where
  "fcitx_configuration_get_char c path info =
     byte_at (get_value_by_path_with_default c path (defaultValue info) []) 0"

definition fcitx_configuration_set_char :: "config \<Rightarrow> cstr \<Rightarrow> byte \<Rightarrow> config" where
  "fcitx_configuration_set_char c path chr =
     fcitx_configuration_set_value_by_path c path (Some (if chr = 0 then [] else [chr]))"

text \<open>\<open>None\<close> is the parse of a missing default.\<close>

definition fcitx_configuration_get_color :: "config option \<Rightarrow> cstr \<Rightarrow> option_info \<Rightarrow> color option" where
  "fcitx_configuration_get_color c path info =
     (case fcitx_color_parse (get_value_by_path_with_default c path (defaultValue info) (bytes ''#000000ff'')) of
        Some color \<Rightarrow> Some color
      | None \<Rightarrow> do {
          d \<leftarrow> defaultValue info;
          case fcitx_color_parse d of
            Some color \<Rightarrow> Some color
          | None \<Rightarrow> fcitx_color_parse (bytes ''#000000ff'') })"

definition fcitx_configuration_set_color :: "config \<Rightarrow> cstr \<Rightarrow> color \<Rightarrow> config option" where
  "fcitx_configuration_set_color c path color = do {
     buf \<leftarrow> fcitx_color_to_string color;
     Some (fcitx_configuration_set_value_by_path c path (Some buf)) }"

definition fcitx_configuration_get_key ::
  "key_names \<Rightarrow> config option \<Rightarrow> cstr \<Rightarrow> option_info \<Rightarrow> fcitx_key list option \<Rightarrow> fcitx_key list option" where
  "fcitx_configuration_get_key names c path info keyList =
     (let keyList = fcitx_key_list_clear (case keyList of Some ks \<Rightarrow> ks | None \<Rightarrow> fcitx_key_list_new) in
      fcitx_key_list_parse names keyList (get_value_by_path_with_default c path (defaultValue info) []))"

definition fcitx_configuration_set_key ::
  "key_names \<Rightarrow> config \<Rightarrow> cstr \<Rightarrow> fcitx_key list option \<Rightarrow> config" where
  "fcitx_configuration_set_key names c path keyList =
     (case keyList of
        None \<Rightarrow> c
      | Some ks \<Rightarrow> fcitx_configuration_set_value_by_path c path (fcitx_key_list_to_string names ks))"

definition get_i18n_string_foreach :: "cstr \<Rightarrow> config \<Rightarrow> cstr \<Rightarrow> cstr dict \<Rightarrow> cstr dict option" where
  "get_i18n_string_foreach prefix c path str =
     (case fcitx_configuration_get_value c of
        None \<Rightarrow> Some str
      | Some value \<Rightarrow>
          if \<not> fcitx_utils_string_starts_with path prefix then Some str
          else if byte_at path (length prefix) \<noteq> 91 then Some str
          else if byte_at path (length path - 1) \<noteq> 93 then Some str
          else Some (snd (fcitx_dict_insert
            (take (length path - length prefix - 2) (drop (length prefix + 1) path)) value True str)))"

definition fcitx_configuration_get_i18n_string ::
  "config \<Rightarrow> cstr \<Rightarrow> option_info \<Rightarrow> cstr dict option \<Rightarrow> cstr dict option" where
  "fcitx_configuration_get_i18n_string c path info pStr = do {
     str \<leftarrow> fcitx_dict_remove_all (case pStr of Some s \<Rightarrow> s | None \<Rightarrow> fcitx_i18n_string_new);
     let value = get_value_by_path_with_default (Some c) path (defaultValue info) [];
     fcitx_configuration_foreach c [] False (Some []) (get_i18n_string_foreach path)
       (snd (fcitx_dict_insert [] value False str)) }"

definition set_i18n_string_foreach :: "cstr \<Rightarrow> cstr \<Rightarrow> cstr \<Rightarrow> config \<Rightarrow> bool \<times> cstr \<times> config" where
  "set_i18n_string_foreach path key data c =
     (if key \<noteq> []
      then (False, data, fcitx_configuration_set_value_by_path c (path @ 91 # key @ [93]) (Some data))
      else (False, data, fcitx_configuration_set_value_by_path c path (Some data)))"

definition fcitx_configuration_set_i18n_string :: "config \<Rightarrow> cstr \<Rightarrow> cstr dict option \<Rightarrow> config" where
  "fcitx_configuration_set_i18n_string c path str =
     (case str of
        None \<Rightarrow> c
      | Some s \<Rightarrow> snd (fcitx_dict_foreach (set_i18n_string_foreach path) s c))"

text \<open>The index of the first name that is the value.\<close>

fun enum_index :: "cstr \<Rightarrow> cstr list \<Rightarrow> nat \<Rightarrow> nat" where
  "enum_index value [] i = i"
| "enum_index value (s # rest) i = (if strcmp value s = 0 then i else enum_index value rest (Suc i))"

definition fcitx_configuration_get_enum :: "config option \<Rightarrow> cstr \<Rightarrow> option_info \<Rightarrow> u32" where
  "fcitx_configuration_get_enum c path info =
     (case fcitx_configuration_get_value_by_path c path of
        None \<Rightarrow> enumDefault info
      | Some value \<Rightarrow>
          let i = enum_index value (enumStrings info) 0
          in if i = length (enumStrings info) then enumDefault info else of_nat i)"

definition fcitx_configuration_set_enum :: "config \<Rightarrow> cstr \<Rightarrow> option_info \<Rightarrow> u32 \<Rightarrow> config" where
  "fcitx_configuration_set_enum c path info enumValue =
     (if unat enumValue \<ge> length (enumStrings info) then c
      else fcitx_configuration_set_value_by_path c path (Some (enumStrings info ! unat enumValue)))"

text \<open>Lists, as the values of the elements.  The first argument bounds the loop, which ends at the first
  index that is no child; \<open>None\<close> is that the bound was too small.\<close>

fun get_list_loop :: "nat \<Rightarrow> (config \<Rightarrow> cstr \<Rightarrow> 'a) \<Rightarrow> config \<Rightarrow> nat \<Rightarrow> 'a list \<Rightarrow> 'a list option" where
  "get_list_loop 0 loadFunc c i xs = None"
| "get_list_loop (Suc n) loadFunc c i xs =
     (case fst (fcitx_configuration_get c (decimal_nat i) False id) of
        None \<Rightarrow> Some xs
      | Some subConfig \<Rightarrow> get_list_loop n loadFunc c (Suc i) (xs @ [loadFunc subConfig []]))"

definition fcitx_configuration_get_list :: "(config \<Rightarrow> cstr \<Rightarrow> 'a) \<Rightarrow> config \<Rightarrow> cstr \<Rightarrow> 'a list option" where
  "fcitx_configuration_get_list loadFunc c path =
     (case fst (fcitx_configuration_get c path False id) of
        None \<Rightarrow> Some []
      | Some c \<Rightarrow> get_list_loop (Suc (length (kids c))) loadFunc c 0 [])"

fun set_list_elements :: "(config \<Rightarrow> cstr \<Rightarrow> 'a \<Rightarrow> config) \<Rightarrow> nat \<Rightarrow> 'a list \<Rightarrow> config \<Rightarrow> config" where
  "set_list_elements storeFunc i [] c = c"
| "set_list_elements storeFunc i (x # rest) c =
     set_list_elements storeFunc (Suc i) rest
       (snd (fcitx_configuration_get c (decimal_nat i) True (\<lambda>subConfig. storeFunc subConfig [] x)))"

definition fcitx_configuration_set_list ::
  "(config \<Rightarrow> cstr \<Rightarrow> 'a \<Rightarrow> config) \<Rightarrow> config \<Rightarrow> cstr \<Rightarrow> 'a list \<Rightarrow> config" where
  "fcitx_configuration_set_list storeFunc c path xs =
     snd (fcitx_configuration_get c path True (set_list_elements storeFunc 0 xs))"

section \<open>Values read back\<close>

lemma value_set:
  "fcitx_configuration_get_value_by_path (Some (fcitx_configuration_set_value_by_path c path v)) path' =
     (if path_segments path' = path_segments path then v else fcitx_configuration_get_value_by_path (Some c) path')"
  using value_at_set [of "path_segments path'" "path_segments path" v c]
  by (simp add: fcitx_configuration_get_value_by_path_def fcitx_configuration_set_value_by_path_def
      fcitx_configuration_get_def fcitx_configuration_get_value_def value_at_def Let_def bind_eq_Some_conv)

lemma default_set [simp]:
  "get_value_by_path_with_default (Some (fcitx_configuration_set_value_by_path c path (Some v))) path a b = v"
  by (simp add: get_value_by_path_with_default_def value_set)

lemma change_id [simp]: "config_change ss id c = c"
proof (induction ss arbitrary: c)
  case (Cons s ss)
  obtain n v m xs where c: "c = Config n v m xs" by (cases c)
  have "map (\<lambda>(k, d). (k, if k = s then config_change ss id d else d)) ys = ys" for ys
    by (induction ys) (auto simp: Cons.IH)
  then show ?case unfolding c config_change.simps by (cases xs) simp_all
qed simp

lemma get_id [simp]: "fst (fcitx_configuration_get c path False id) = config_node (path_segments path) c"
  by (simp add: fcitx_configuration_get_def Let_def)

lemma enum_index_nth: "list_all c_string ss \<Longrightarrow> distinct ss \<Longrightarrow> n < length ss \<Longrightarrow> enum_index (ss ! n) ss i = i + n"
proof (induction ss arbitrary: n i)
  case (Cons s ss)
  then show ?case by (cases n) (auto simp: list_all_iff)
qed simp

definition others_kept :: "config \<Rightarrow> cstr \<Rightarrow> config \<Rightarrow> bool" where
  "others_kept c p d \<longleftrightarrow> (\<forall>q. path_segments q \<noteq> path_segments p \<longrightarrow>
     fcitx_configuration_get_value_by_path (Some d) q = fcitx_configuration_get_value_by_path (Some c) q)"

lemma set_keeps_others: "others_kept c p (fcitx_configuration_set_value_by_path c p v)"
  by (simp add: others_kept_def value_set)

text \<open>C23: What is stored is loaded again, for a string within the length limit, an integer within its range,
  a boolean, a character and a value of an enumeration with distinct names, which are C strings; and each of
  the five stores changes no value at any path with other segments.\<close>

theorem option_roundtrip:
  assumes "maxLength info = 0 \<or> length s \<le> maxLength info" "int_min info \<le> i" "i \<le> int_max info"
    "unat e < length (enumStrings info)" "distinct (enumStrings info)" "list_all c_string (enumStrings info)"
  shows "fcitx_configuration_get_string (Some (fcitx_configuration_set_string c p (Some s))) p info = s \<and>
    fcitx_configuration_get_integer (Some (fcitx_configuration_set_integer c p i)) p info = i \<and>
    fcitx_configuration_get_boolean (Some (fcitx_configuration_set_boolean c p b)) p info = b \<and>
    fcitx_configuration_get_char (Some (fcitx_configuration_set_char c p chr)) p info = chr \<and>
    fcitx_configuration_get_enum (Some (fcitx_configuration_set_enum c p info e)) p info = e \<and>
    others_kept c p (fcitx_configuration_set_string c p (Some s)) \<and>
    others_kept c p (fcitx_configuration_set_integer c p i) \<and>
    others_kept c p (fcitx_configuration_set_boolean c p b) \<and>
    others_kept c p (fcitx_configuration_set_char c p chr) \<and>
    others_kept c p (fcitx_configuration_set_enum c p info e)"
proof -
  have "length (enumStrings info) \<noteq> unat e" "enum_index (enumStrings info ! unat e) (enumStrings info) 0 = unat e"
    using assms enum_index_nth [of "enumStrings info" "unat e" 0] by auto
  then show ?thesis using assms
    by (auto simp: fcitx_configuration_get_string_def fcitx_configuration_set_string_def
      fcitx_configuration_get_integer_def fcitx_configuration_set_integer_def atoi_decimal
      fcitx_configuration_get_boolean_def fcitx_configuration_set_boolean_def
      fcitx_configuration_get_char_def fcitx_configuration_set_char_def byte_at_def
      fcitx_configuration_get_enum_def fcitx_configuration_set_enum_def value_set set_keeps_others Let_def of_char_def)
qed

theorem option_roundtrip_witness:
  "let info = \<lparr>defaultValue = Some (bytes ''x''), enumStrings = [bytes ''Up'', bytes ''Down''], enumDefault = 0, int_min = - 20,
         int_max = 20, maxLength = 3\<rparr>; c = fcitx_configuration_new None; p = bytes ''Group/Option'' in
   fcitx_configuration_get_string (Some (fcitx_configuration_set_string c p (Some (bytes ''abc'')))) p info = bytes ''abc'' \<and>
   fcitx_configuration_get_integer (Some (fcitx_configuration_set_integer c p (- 12))) p info = - 12 \<and>
   fcitx_configuration_get_enum (Some (fcitx_configuration_set_enum c p info 1)) p info = 1"
proof -
  let ?info = "\<lparr>defaultValue = Some (bytes ''x''), enumStrings = [bytes ''Up'', bytes ''Down''], enumDefault = 0, int_min = - 20,
         int_max = 20, maxLength = 3\<rparr>"
  have "c_string (bytes ''Up'')" "c_string (bytes ''Down'')" by (simp_all add: of_char_def c_string_def)
  then show ?thesis
    using option_roundtrip [of ?info "bytes ''abc''" "- 12" 1 "fcitx_configuration_new None" "bytes ''Group/Option''" True 65]
    unfolding Let_def by (simp add: of_char_def)
qed

section \<open>Lists\<close>

lemma node_create:
  "\<exists>d. config_node ss (config_create ss f c) = Some (f d) \<and>
     kids d = (case config_node ss c of Some d \<Rightarrow> kids d | None \<Rightarrow> [])"
proof (induction ss arbitrary: c)
  case Nil
  show ?case by (intro exI [of _ c]) simp
next
  case (Cons s ss)
  obtain n v m xs where c: "c = Config n v m xs" by (cases c)
  define items where "items = (case xs of None \<Rightarrow> [] | Some xs \<Rightarrow> xs)"
  have k: "kids c = items" by (simp add: c items_def kids_def)
  show ?case
  proof (cases "map_of items s")
    case None
    have "config_node ss (Config (Some s) None None None) = None \<or> ss = []" by (cases ss) (simp_all add: find_kids)
    then show ?thesis using None Cons.IH [of "Config (Some s) None None None"]
      by (auto simp: c find_kids Let_def k [unfolded c] items_def [symmetric] map_add_def)
  next
    case (Some d)
    then show ?thesis using Cons.IH [of d]
      by (simp add: c find_kids Let_def k [unfolded c] items_def [symmetric] map_of_change)
  qed
qed

lemma create_child:
  "map_of (kids (config_create [s] f c)) j =
    (if j = s then Some (f (case map_of (kids c) s of Some d \<Rightarrow> d | None \<Rightarrow> Config (Some s) None None None))
     else map_of (kids c) j)"
  by (cases c) (auto simp: find_kids Let_def map_of_change kids_def map_add_def split: option.split)

lemma decimal_segments: "path_segments (decimal_nat i) = [decimal_nat i]"
proof -
  have "47 \<notin> set (decimal_nat i)"
    using decimal_nat_digits [of i] digit_not_space [of 47] by (auto simp: list_all_iff)
  then have "segment_ok (decimal_nat i)" using decimal_nat_digits [of i] by (simp add: segment_ok_def)
  then show ?thesis using segments_path [of "[decimal_nat i]"] by (simp add: path_of_def)
qed

definition element :: "config \<Rightarrow> nat \<Rightarrow> config option" where
  "element c i = map_of (kids c) (decimal_nat i)"

lemma get_element: "fst (fcitx_configuration_get c (decimal_nat i) False id) = element c i"
  by (cases "element c i") (simp_all add: decimal_segments find_kids element_def)

lemma set_element:
  "element (snd (fcitx_configuration_get c (decimal_nat i) True f)) j =
    (if j = i then Some (f (case element c i of Some d \<Rightarrow> d | None \<Rightarrow> Config (Some (decimal_nat i)) None None None))
     else element c j)"
  unfolding fcitx_configuration_get_def decimal_segments Let_def
  by (simp del: config_create.simps add: create_child element_def decimal_nat_inj)

lemma set_elements:
  assumes "\<And>node x. load (store node [] x) [] = x"
  shows "map_option (\<lambda>d. load d []) (element (set_list_elements store i xs c) j) =
    (if i \<le> j \<and> j < i + length xs then Some (xs ! (j - i)) else map_option (\<lambda>d. load d []) (element c j))"
proof (induction xs arbitrary: i c)
  case (Cons x xs)
  show ?case
    by (auto simp: Cons.IH set_element assms nth_Cons' Suc_le_eq split: option.split)
qed auto

lemma get_list_loop_spec:
  assumes "\<And>m. m < l \<Longrightarrow> element c (i + m) \<noteq> None" "element c (i + l) = None" "l < n"
  shows "get_list_loop n load c i xs = Some (xs @ map (\<lambda>m. load (the (element c (i + m))) []) [0..<l])"
  using assms
proof (induction l arbitrary: n i xs)
  case 0
  then show ?case by (cases n) (simp_all add: get_element del: get_id)
next
  case (Suc l)
  obtain k where n: "n = Suc k" "l < k" using Suc.prems(3) by (cases n) auto
  obtain d where d: "element c i = Some d" using Suc.prems(1) [of 0] by auto
  have "get_list_loop k load c (Suc i) (xs @ [load d []]) =
      Some ((xs @ [load d []]) @ map (\<lambda>m. load (the (element c (Suc i + m))) []) [0..<l])"
    using Suc.prems(1) [of "Suc m" for m] Suc.prems(2) n by (intro Suc.IH) auto
  then show ?case using d by (simp add: n get_element upt_conv_Cons map_Suc_upt [symmetric] del: upt_Suc get_id)
qed

lemma element_bound: "\<exists>l \<le> length (kids c). (\<forall>m < l. element c m \<noteq> None) \<and> element c l = None"
proof -
  have "\<exists>l. element c l = None \<and> l \<le> length (kids c)"
  proof (rule ccontr)
    assume "\<nexists>l. element c l = None \<and> l \<le> length (kids c)"
    then have "decimal_nat ` {..length (kids c)} \<subseteq> dom (map_of (kids c))" by (auto simp: element_def)
    then have "card (decimal_nat ` {..length (kids c)}) \<le> card (dom (map_of (kids c)))"
      by (intro card_mono finite_dom_map_of)
    moreover have "card (decimal_nat ` {..length (kids c)}) = Suc (length (kids c))"
      by (subst card_image) (auto simp: inj_on_def decimal_nat_inj)
    moreover have "card (dom (map_of (kids c))) \<le> length (kids c)"
      by (metis card_length dom_map_of_conv_image_fst length_map list.set_map)
    ultimately show False by simp
  qed
  then obtain l where l: "element c l = None" "l \<le> length (kids c)" by blast
  let ?l = "LEAST l. element c l = None"
  have "element c ?l = None" "?l \<le> l" using l by (auto intro: LeastI Least_le)
  moreover have "element c m \<noteq> None" if "m < ?l" for m using that not_less_Least by blast
  ultimately show ?thesis using l(2) by (meson order_trans)
qed

lemma get_list_node:
  "\<exists>l. get_list_loop (Suc (length (kids c))) load c 0 [] = Some (map (\<lambda>m. load (the (element c m)) []) [0..<l]) \<and>
     (\<forall>m < l. element c m \<noteq> None) \<and> element c l = None"
proof -
  obtain l where "l \<le> length (kids c)" "\<And>m. m < l \<Longrightarrow> element c m \<noteq> None" "element c l = None"
    using element_bound by blast
  then show ?thesis using get_list_loop_spec [of l c 0 "Suc (length (kids c))" load "[]"] by (intro exI [of _ l]) simp
qed

text \<open>Loading a list ends, also when there is none.  When an element that is stored is loaded again, a list
  that is stored is loaded with all of its elements, and behind them come elements that were there before:
  those that an earlier list, at least as long, had at the higher indices, and none only when the node of
  the list has no child of the next index.\<close>

theorem list_set_get:
  assumes "\<And>node x. load (store node [] x) [] = x"
  shows "\<exists>ys zs. fcitx_configuration_get_list load c p = Some ys \<and>
    fcitx_configuration_get_list load (fcitx_configuration_set_list store c p xs) p = Some (xs @ zs) \<and>
    (length xs \<le> length ys \<longrightarrow> zs = drop (length xs) ys) \<and>
    (Option.bind (config_node (path_segments p) c) (\<lambda>d. element d (length xs)) = None \<longrightarrow> zs = [])"
proof -
  let ?ss = "path_segments p"
  obtain d where d: "config_node ?ss (config_create ?ss (set_list_elements store 0 xs) c) =
        Some (set_list_elements store 0 xs d)"
      "kids d = (case config_node ?ss c of Some d \<Rightarrow> kids d | None \<Rightarrow> [])"
    using node_create by blast
  define e where "e = set_list_elements store 0 xs d"
  obtain l where l: "get_list_loop (Suc (length (kids d))) load d 0 [] = Some (map (\<lambda>m. load (the (element d m)) []) [0..<l])"
      "\<And>m. m < l \<Longrightarrow> element d m \<noteq> None" "element d l = None"
    using get_list_node [of d load] by blast
  define ys where "ys = map (\<lambda>m. load (the (element d m)) []) [0..<l]"
  have loop: "get_list_loop n load d' 0 [] = get_list_loop n load d 0 []" if "kids d' = kids d" for n d'
  proof -
    have "element d' i = element d i" for i using that by (simp add: element_def)
    then have "get_list_loop n load d' i zs = get_list_loop n load d i zs" for i zs
      by (induction n arbitrary: i zs) (simp_all add: get_element del: get_id split: option.split)
    then show ?thesis .
  qed
  have "fcitx_configuration_get_list load c p = Some ys"
  proof (cases "config_node ?ss c")
    case None
    then have "l = 0" using l(2) [of 0] d(2) by (cases l) (auto simp: element_def)
    then show ?thesis using None by (simp add: fcitx_configuration_get_list_def ys_def)
  next
    case (Some d')
    then show ?thesis using loop [of d'] d(2) l(1) by (simp add: fcitx_configuration_get_list_def ys_def)
  qed
  moreover obtain k where k: "get_list_loop (Suc (length (kids e))) load e 0 [] = Some (map (\<lambda>m. load (the (element e m)) []) [0..<k])"
      "\<And>m. m < k \<Longrightarrow> element e m \<noteq> None" "element e k = None"
    using get_list_node [of e load] by blast
  have val: "map_option (\<lambda>d. load d []) (element e j) =
      (if j < length xs then Some (xs ! j) else map_option (\<lambda>d. load d []) (element d j))" for j
    using set_elements [of load store 0 xs d j, OF assms] by (simp add: e_def)
  have here: "element e j = None \<longleftrightarrow> length xs \<le> j \<and> element d j = None" for j
    using val [of j] by (cases "element e j"; cases "element d j") (auto split: if_splits)
  define zs where "zs = map (\<lambda>m. load (the (element d m)) []) [length xs..<k]"
  have xk: "length xs \<le> k" using k(3) here by blast
  have "map (\<lambda>m. load (the (element e m)) []) [0..<k] = xs @ zs"
  proof (rule nth_equalityI)
    show "length (map (\<lambda>m. load (the (element e m)) []) [0..<k]) = length (xs @ zs)" using xk by (simp add: zs_def)
    fix j assume "j < length (map (\<lambda>m. load (the (element e m)) []) [0..<k])"
    then have j: "j < k" by simp
    then show "map (\<lambda>m. load (the (element e m)) []) [0..<k] ! j = (xs @ zs) ! j"
      using val [of j] k(2) [OF j] by (cases "element d j") (auto simp: nth_append zs_def split: if_splits)
  qed
  then have "fcitx_configuration_get_list load (fcitx_configuration_set_list store c p xs) p = Some (xs @ zs)"
    using d(1) k(1)
    by (simp add: fcitx_configuration_get_list_def fcitx_configuration_set_list_def e_def
        fcitx_configuration_get_def [of _ _ True] Let_def del: get_list_loop.simps)
  moreover have "zs = drop (length xs) ys" if "length xs \<le> length ys"
  proof -
    have "element e l = None" "element d k = None" using that here l(3) k(3) by (simp_all add: ys_def)
    then have "k = l" using k(2) l(2) by (metis linorder_neqE_nat)
    then show ?thesis by (simp add: zs_def ys_def drop_map)
  qed
  moreover have "zs = []" if "Option.bind (config_node ?ss c) (\<lambda>d. element d (length xs)) = None"
  proof -
    have "element d (length xs) = None" using that d(2) by (auto simp: element_def split: option.splits)
    then have "element e (length xs) = None" using here by blast
    then show ?thesis using k(2) [of "length xs"] by (auto simp: zs_def)
  qed
  ultimately show ?thesis by (intro exI [of _ ys] exI [of _ zs] conjI impI; simp)
qed

theorem list_set_get_witness:
  "let info = \<lparr>defaultValue = None, enumStrings = [], enumDefault = 0, int_min = 0, int_max = 9, maxLength = 0\<rparr>;
       load = (\<lambda>c path. fcitx_configuration_get_string (Some c) path info);
       store = (\<lambda>c path s. fcitx_configuration_set_string c path (Some s));
       c = fcitx_configuration_set_list store (fcitx_configuration_new None) (bytes ''List'') [bytes ''a'', bytes ''b'', bytes ''c'']
   in fcitx_configuration_get_list load (fcitx_configuration_set_list store c (bytes ''List'') [bytes ''x'']) (bytes ''List'') =
        Some [bytes ''x'', bytes ''b'', bytes ''c'']"
proof -
  let ?info = "\<lparr>defaultValue = None, enumStrings = [], enumDefault = 0, int_min = 0, int_max = 9, maxLength = 0\<rparr>"
  let ?load = "\<lambda>c path. fcitx_configuration_get_string (Some c) path ?info"
  let ?store = "\<lambda>c path s. fcitx_configuration_set_string c path (Some s)"
  have law: "?load (?store node [] x) [] = x" for node x
    by (simp add: fcitx_configuration_get_string_def fcitx_configuration_set_string_def)
  let ?c = "fcitx_configuration_set_list ?store (fcitx_configuration_new None) (bytes ''List'') [bytes ''a'', bytes ''b'', bytes ''c'']"
  have c: "fcitx_configuration_get_list ?load ?c (bytes ''List'') = Some [bytes ''a'', bytes ''b'', bytes ''c'']"
    using list_set_get [of ?load ?store "fcitx_configuration_new None" "bytes ''List''" "[bytes ''a'', bytes ''b'', bytes ''c'']", OF law]
    by (auto simp: fcitx_configuration_new_def kids_def dict_of_def path_segments.simps fcitx_dict_lookup_def
        HASH_FIND_def of_char_def element_def)
  obtain ys zs where "fcitx_configuration_get_list ?load ?c (bytes ''List'') = Some ys"
      "fcitx_configuration_get_list ?load (fcitx_configuration_set_list ?store ?c (bytes ''List'') [bytes ''x'']) (bytes ''List'') =
        Some ([bytes ''x''] @ zs)" "length [bytes ''x''] \<le> length ys \<longrightarrow> zs = drop (length [bytes ''x'']) ys"
    using list_set_get [of ?load ?store ?c "bytes ''List''" "[bytes ''x'']", OF law] by blast
  moreover from this c have "ys = [bytes ''a'', bytes ''b'', bytes ''c'']" by (metis option.inject)
  ultimately show ?thesis unfolding Let_def by simp
qed

section \<open>Strings with translations\<close>

lemma create_kids:
  "map fst (kids (config_create [s] f c)) = map fst (kids c) @ (if s \<in> fst ` set (kids c) then [] else [s])"
proof -
  obtain n v m xs where c: "c = Config n v m xs" by (cases c)
  define items where "items = (case xs of None \<Rightarrow> [] | Some xs \<Rightarrow> xs)"
  have k: "kids (Config n v m xs) = items" by (simp add: items_def kids_def)
  have "map_of items s = None \<longleftrightarrow> s \<notin> fst ` set items" by (auto simp: map_of_eq_None_iff)
  then show ?thesis
    by (auto simp: c k Let_def find_kids items_def [symmetric] comp_def case_prod_beta split: option.split)
qed

lemma single_segment: "s \<noteq> [] \<Longrightarrow> 47 \<notin> set s \<Longrightarrow> path_segments s = [s]"
  using segments_path [of "[s]"] by (simp add: path_of_def segment_ok_def)

lemma set_single:
  assumes "s \<noteq> []" "47 \<notin> set s"
  shows "fcitx_configuration_set_value_by_path c s v = config_create [s] (fcitx_configuration_set_value v) c"
  by (simp add: fcitx_configuration_set_value_by_path_def fcitx_configuration_get_def single_segment [OF assms] Let_def
      del: config_create.simps)

definition translated :: "cstr \<Rightarrow> cstr \<Rightarrow> cstr" where
  "translated path k = path @ 91 # k @ [93]"

lemma translated_inj [simp]: "translated path k = translated path j \<longleftrightarrow> k = j"
  by (simp add: translated_def)

lemma translated_path [simp]: "translated path k \<noteq> path" "path \<noteq> translated path k"
  by (simp_all add: translated_def)

lemma starts_with:
  assumes "c_string s" "c_string t"
  shows "fcitx_utils_string_starts_with s t \<longleftrightarrow> take (length t) s = t"
proof -
  have "c_string (take (length t) s)" using assms(1) by (auto simp: c_string_def dest: in_set_takeD)
  then show ?thesis using assms(2) by (simp add: fcitx_utils_string_starts_with_def strncmp_def)
qed

text \<open>The callback takes the value of a name that is a translation of the path.\<close>

lemma foreach_name:
  assumes "c_string n" "c_string path"
  shows "get_i18n_string_foreach path d n t =
    Some (case cfg_value d of
        Some v \<Rightarrow> if \<exists>k. n = translated path k
          then snd (fcitx_dict_insert (THE k. n = translated path k) v True t) else t
      | None \<Rightarrow> t)"
proof (cases "\<exists>k. n = translated path k")
  case True
  then obtain k where k: "n = translated path k" by blast
  then have "(THE k. n = translated path k) = k" by (auto intro: the_equality)
  moreover have "byte_at n (length path) = 91" "byte_at n (length n - 1) = 93"
    by (simp_all add: k translated_def byte_at_def nth_append)
  moreover have "fcitx_utils_string_starts_with n path" using assms by (simp add: starts_with k translated_def)
  moreover have "take (length n - length path - 2) (drop (length path + 1) n) = k" by (simp add: k translated_def)
  ultimately show ?thesis using True
    by (auto simp: get_i18n_string_foreach_def fcitx_configuration_get_value_def split: option.split)
next
  case False
  have "n = translated path k"
    if "take (length path) n = path" "byte_at n (length path) = 91" "byte_at n (length n - 1) = 93"
      "k = take (length n - length path - 2) (drop (length path + 1) n)" for k
  proof -
    note h = that
    have "length path < length n" "n ! length path = 91" using h(2) by (auto simp: byte_at_def split: if_splits)
    then have "n = take (length path) n @ 91 # drop (Suc (length path)) n" by (metis append_take_drop_id Cons_nth_drop_Suc)
    then obtain r where n: "n = path @ 91 # r" unfolding h(1) by blast
    moreover obtain q where "r = q @ [93]" using h(3) n
      by (cases r rule: rev_cases) (auto simp: byte_at_def nth_append split: if_splits)
    ultimately show ?thesis using h(4) by (simp add: translated_def)
  qed
  then show ?thesis using False assms
    by (auto simp: get_i18n_string_foreach_def fcitx_configuration_get_value_def starts_with split: option.split)
qed

lemma insert_lookup: "fcitx_dict_lookup j (snd (fcitx_dict_insert k v True d)) = (if j = k then Some v else fcitx_dict_lookup j d)"
  by (auto simp: fcitx_dict_lookup_def fcitx_dict_insert_def HASH_FIND_def HASH_ADD_def update_conv' map_add_def notify_def
      Let_def split: option.split)

lemma foreach_names:
  assumes "c_string path" "list_all (\<lambda>(n, d). c_string n \<and> n \<noteq> []) xs" "distinct (map fst xs)"
  shows "\<exists>t'. configuration_subitems_foreach [] False (get_i18n_string_foreach path) bufLen xs t = Some t' \<and>
    (\<forall>k. fcitx_dict_lookup k t' = (case Option.bind (map_of xs (translated path k)) cfg_value of
        Some v \<Rightarrow> Some v | None \<Rightarrow> fcitx_dict_lookup k t))"
  using assms(2,3)
proof (induction xs arbitrary: bufLen t)
  case (Cons x xs)
  obtain n d where x: "x = (n, d)" by (cases x)
  have n: "c_string n" "n \<noteq> []" using Cons.prems x by simp_all
  obtain t1 where t1: "get_i18n_string_foreach path d n t = Some t1"
      "\<And>k. fcitx_dict_lookup k t1 = (if n = translated path k \<and> cfg_value d \<noteq> None then cfg_value d else fcitx_dict_lookup k t)"
  proof (cases "cfg_value d")
    case None
    then show thesis using foreach_name [OF n(1) assms(1), of d t] by (intro that) simp_all
  next
    case (Some v)
    show thesis
    proof (cases "\<exists>k. n = translated path k")
      case True
      then obtain k where k: "n = translated path k" by blast
      then have "(THE k. n = translated path k) = k" by (auto intro: the_equality)
      then show thesis using foreach_name [OF n(1) assms(1), of d t] Some k by (intro that) (auto simp: insert_lookup)
    next
      case False
      then show thesis using foreach_name [OF n(1) assms(1), of d t] Some by (intro that) auto
    qed
  qed
  define b where "b = (if length n > bufLen then length n else bufLen)"
  have b: "b \<noteq> 0" using n(2) by (cases n) (auto simp: b_def)
  obtain t' where t': "configuration_subitems_foreach [] False (get_i18n_string_foreach path) b xs t1 = Some t'"
      "\<And>k. fcitx_dict_lookup k t' = (case Option.bind (map_of xs (translated path k)) cfg_value of
        Some v \<Rightarrow> Some v | None \<Rightarrow> fcitx_dict_lookup k t1)"
    using Cons.IH [of b t1] Cons.prems by auto
  have "configuration_subitems_foreach [] False (get_i18n_string_foreach path) bufLen (x # xs) t = Some t'"
    using b t1(1) t'(1) by (simp add: x b_def [symmetric] Let_def)
  moreover have "map_of xs n = None" using Cons.prems(2) by (simp add: x map_of_eq_None_iff)
  ultimately show ?case using t1(2) t'(2) by (auto simp: x split: option.split)
qed simp

lemma value_at_Nil [simp]: "value_at [] = cfg_value"
  by (simp add: fun_eq_iff)

definition option_name :: "cstr \<Rightarrow> cstr \<Rightarrow> cstr" where
  "option_name path k = (if k = [] then path else translated path k)"

lemma option_name_inj [simp]: "option_name path k = option_name path j \<longleftrightarrow> k = j"
  by (simp add: option_name_def)

text \<open>The value of a path once the entries are stored.\<close>

fun stored :: "cstr \<Rightarrow> cstr list \<Rightarrow> (cstr \<times> cstr) list \<Rightarrow> cstr option \<Rightarrow> cstr option" where
  "stored path tt [] r = r"
| "stored path tt ((k, v) # xs) r = (if tt = [option_name path k] then Some v else stored path tt xs r)"

lemma stored_name: "stored path [option_name path k] xs r = (case map_of xs k of Some v \<Rightarrow> Some v | None \<Rightarrow> r)"
  by (induction xs) auto

lemma stored_other: "(\<And>k. tt \<noteq> [option_name path k]) \<Longrightarrow> stored path tt xs r = r"
  by (induction xs) auto

text \<open>The names that storing adds are C strings of one segment.\<close>

lemma set_names:
  assumes "path \<noteq> []" "47 \<notin> set path" "c_string path" "distinct (map fst xs)"
    "list_all (\<lambda>(k, v). 47 \<notin> set k \<and> c_string k) xs"
    "list_all (\<lambda>(n, d). c_string n \<and> n \<noteq> []) (kids c)" "distinct (map fst (kids c))"
  shows "let c' = snd (foreach_loop (set_i18n_string_foreach path) xs c) in
    list_all (\<lambda>(n, d). c_string n \<and> n \<noteq> []) (kids c') \<and> distinct (map fst (kids c')) \<and>
    (\<forall>tt. value_at tt c' = stored path tt xs (value_at tt c))"
  using assms(4-)
proof (induction xs arbitrary: c)
  case (Cons x xs)
  obtain k v where x: "x = (k, v)" by (cases x)
  let ?n = "option_name path k"
  let ?c = "config_create [?n] (fcitx_configuration_set_value (Some v)) c"
  have name: "?n \<noteq> []" "47 \<notin> set ?n" "c_string ?n"
    using assms(1-3) Cons.prems(2) by (auto simp: x option_name_def translated_def c_string_def)
  have step: "set_i18n_string_foreach path k v c = (False, v, ?c)"
    unfolding set_i18n_string_foreach_def option_name_def translated_def
    using assms(1,2) Cons.prems(2) by (simp add: x set_single del: config_create.simps)
  have kids: "map fst (kids ?c) = map fst (kids c) @ (if ?n \<in> fst ` set (kids c) then [] else [?n])" by (rule create_kids)
  then have "distinct (map fst (kids ?c))" using Cons.prems(4) by auto
  moreover have "list_all (\<lambda>n. c_string n \<and> n \<noteq> []) (map fst (kids ?c))"
    using Cons.prems(3) name unfolding kids by (auto simp: list_all_iff)
  then have "list_all (\<lambda>(n, d). c_string n \<and> n \<noteq> []) (kids ?c)" by (auto simp: list_all_iff)
  ultimately have IH: "let c' = snd (foreach_loop (set_i18n_string_foreach path) xs ?c) in
      list_all (\<lambda>(n, d). c_string n \<and> n \<noteq> []) (kids c') \<and> distinct (map fst (kids c')) \<and>
      (\<forall>tt. value_at tt c' = stored path tt xs (value_at tt ?c))"
    using Cons.prems by (intro Cons.IH) (simp_all add: x del: config_create.simps)
  have "map_of xs k = None" using Cons.prems(1) by (simp add: x map_of_eq_None_iff)
  then have "stored path [?n] xs r = r" for r by (simp add: stored_name)
  then show ?case using IH
    by (cases "foreach_loop (set_i18n_string_foreach path) xs ?c")
      (auto simp: x step Let_def value_at_set simp del: config_create.simps value_at_simps)
qed (simp add: Let_def)

text \<open>A string with translations that is stored under a name and loaded again has the string of each of its
  locales; it gets the strings of the other locales that the configuration had before, and the default when
  it had none itself.\<close>

theorem i18n_set_get:
  assumes "path \<noteq> []" "47 \<notin> set path" "c_string path" "distinct (map fst (items s))"
    "list_all (\<lambda>(k, v). 47 \<notin> set k \<and> c_string k) (items s)"
    "list_all (\<lambda>(n, d). c_string n \<and> n \<noteq> []) (kids c)" "distinct (map fst (kids c))"
    "map_of (kids c) (translated path []) = None"
  shows "\<exists>t. fcitx_configuration_get_i18n_string (fcitx_configuration_set_i18n_string c path (Some s)) path info None = Some t \<and>
    (\<forall>k. fcitx_dict_lookup k t =
      (case fcitx_dict_lookup k s of
         Some v \<Rightarrow> Some v
       | None \<Rightarrow> if k = [] then Some (get_value_by_path_with_default (Some c) path (defaultValue info) [])
                else Option.bind (map_of (kids c) (translated path k)) cfg_value))"
proof -
  let ?c = "fcitx_configuration_set_i18n_string c path (Some s)"
  have c': "?c = snd (foreach_loop (set_i18n_string_foreach path) (items s) c)"
    by (simp add: fcitx_configuration_set_i18n_string_def fcitx_dict_foreach_def case_prod_beta)
  have names: "list_all (\<lambda>(n, d). c_string n \<and> n \<noteq> []) (kids ?c)" "distinct (map fst (kids ?c))"
    and vals: "\<And>tt. value_at tt ?c = stored path tt (items s) (value_at tt c)"
    using set_names [OF assms(1-7)] unfolding c' Let_def by blast+
  have val: "value_at [option_name path k] ?c = (case fcitx_dict_lookup k s of Some v \<Rightarrow> Some v | None \<Rightarrow> value_at [option_name path k] c)" for k
    unfolding vals stored_name fcitx_dict_lookup_def HASH_FIND_def by simp
  have tr: "Option.bind (map_of (kids ?c) (translated path k)) cfg_value = (if k = [] then None else
      (case fcitx_dict_lookup k s of Some v \<Rightarrow> Some v | None \<Rightarrow> Option.bind (map_of (kids c) (translated path k)) cfg_value))" for k
  proof (cases "k = []")
    case True
    have "stored path [translated path []] xs r = r" for xs r
      by (intro stored_other) (simp add: option_name_def)
    then show ?thesis using vals [of "[translated path []]"] True assms(8) by simp
  next
    case False
    then show ?thesis using val [of k] by (cases "fcitx_dict_lookup k s") (simp_all add: option_name_def)
  qed
  have here: "get_value_by_path_with_default (Some ?c) path (defaultValue info) [] =
      (case fcitx_dict_lookup [] s of Some v \<Rightarrow> v | None \<Rightarrow> get_value_by_path_with_default (Some c) path (defaultValue info) [])"
  proof -
    have "fcitx_configuration_get_value_by_path (Some d) path = value_at [path] d" for d
      by (simp add: fcitx_configuration_get_value_by_path_def single_segment [OF assms(1,2)] fcitx_configuration_get_value_def
          value_at_def)
    then show ?thesis using val [of "[]"]
      by (simp add: get_value_by_path_with_default_def option_name_def del: value_at_simps split: option.split)
  qed
  define t0 where "t0 = snd (fcitx_dict_insert [] (get_value_by_path_with_default (Some ?c) path (defaultValue info) []) False
    fcitx_i18n_string_new)"
  have t0: "fcitx_dict_lookup k t0 = (if k = [] then Some (get_value_by_path_with_default (Some ?c) path (defaultValue info) []) else None)" for k
    by (simp add: t0_def fcitx_dict_lookup_def fcitx_dict_insert_def HASH_FIND_def HASH_ADD_def fcitx_i18n_string_new_def
        fcitx_dict_new_def)
  obtain t where t: "configuration_subitems_foreach [] False (get_i18n_string_foreach path) 0 (kids ?c) t0 = Some t"
      "\<And>k. fcitx_dict_lookup k t = (case Option.bind (map_of (kids ?c) (translated path k)) cfg_value of
        Some v \<Rightarrow> Some v | None \<Rightarrow> fcitx_dict_lookup k t0)"
    using foreach_names [OF assms(3) names, of 0 t0] by blast
  have "fcitx_dict_remove_all fcitx_i18n_string_new = Some fcitx_i18n_string_new"
    by (simp add: fcitx_dict_remove_all_def fcitx_i18n_string_new_def fcitx_dict_new_def)
  then have "fcitx_configuration_get_i18n_string ?c path info None = Some t"
    using t(1) by (simp add: fcitx_configuration_get_i18n_string_def fcitx_configuration_foreach_def path_segments.simps t0_def Let_def)
  then show ?thesis using t(2) by (auto simp: tr t0 here split: option.split)
qed

theorem i18n_set_get_witness:
  "let info = \<lparr>defaultValue = None, enumStrings = [], enumDefault = 0, int_min = 0, int_max = 9, maxLength = 0\<rparr>;
       s = snd (fcitx_dict_insert (bytes ''de'') (bytes ''Eins'') False (snd (fcitx_dict_insert [] (bytes ''One'') False fcitx_i18n_string_new)))
   in \<exists>t. fcitx_configuration_get_i18n_string
          (fcitx_configuration_set_i18n_string (fcitx_configuration_new None) (bytes ''Name'') (Some s)) (bytes ''Name'') info None = Some t \<and>
        fcitx_i18n_string_match t (Some (bytes ''de_AT'')) None = Some (bytes ''Eins'')"
proof -
  let ?info = "\<lparr>defaultValue = None, enumStrings = [], enumDefault = 0, int_min = 0, int_max = 9, maxLength = 0\<rparr>"
  let ?s = "snd (fcitx_dict_insert (bytes ''de'') (bytes ''Eins'') False (snd (fcitx_dict_insert [] (bytes ''One'') False fcitx_i18n_string_new)))"
  have s: "items ?s = [([], bytes ''One''), (bytes ''de'', bytes ''Eins'')]"
    by (simp add: fcitx_dict_insert_def HASH_FIND_def HASH_ADD_def fcitx_i18n_string_new_def fcitx_dict_new_def)
  have "\<exists>t. fcitx_configuration_get_i18n_string
          (fcitx_configuration_set_i18n_string (fcitx_configuration_new None) (bytes ''Name'') (Some ?s)) (bytes ''Name'') ?info None = Some t \<and>
        (\<forall>k. fcitx_dict_lookup k t = (case fcitx_dict_lookup k ?s of Some v \<Rightarrow> Some v
          | None \<Rightarrow> if k = [] then Some (get_value_by_path_with_default (Some (fcitx_configuration_new None)) (bytes ''Name'') (defaultValue ?info) [])
                else Option.bind (map_of (kids (fcitx_configuration_new None)) (translated (bytes ''Name'') k)) cfg_value))"
    by (rule i18n_set_get; (unfold s)?) (simp_all add: fcitx_configuration_new_def kids_def of_char_def c_string_def)
  then obtain t where t: "fcitx_configuration_get_i18n_string
          (fcitx_configuration_set_i18n_string (fcitx_configuration_new None) (bytes ''Name'') (Some ?s)) (bytes ''Name'') ?info None = Some t"
        "\<And>k. fcitx_dict_lookup k ?s = Some v \<Longrightarrow> fcitx_dict_lookup k t = Some v"
        "\<And>k. k \<noteq> [] \<Longrightarrow> fcitx_dict_lookup k ?s = None \<Longrightarrow> fcitx_dict_lookup k t = None" for v
    by (fastforce simp: fcitx_configuration_new_def kids_def)
  have "locale_ok (bytes ''de'') (Some (bytes ''AT'')) None None"
    by (simp add: locale_ok_def locale_name_def of_char_def language_char_def fcitx_utils_isspace_def fcitx_utils_isupper_def)
  then have "normalize_locale (bytes ''de_AT'') = Some (bytes ''de_AT'', 2, 5, 0)"
    using normalize_parts [of "bytes ''de''" "Some (bytes ''AT'')" None None] by (simp add: locale_name_def of_char_def)
  moreover have "fcitx_dict_lookup (bytes ''de'') t = Some (bytes ''Eins'')" "fcitx_dict_lookup (bytes ''de_AT'') t = None"
    by (rule t; (simp only: fcitx_dict_lookup_def HASH_FIND_def s)?; simp add: of_char_def)+
  ultimately have "fcitx_i18n_string_match t (Some (bytes ''de_AT'')) None = Some (bytes ''Eins'')"
    by (simp add: fcitx_i18n_string_match_def of_char_def)
  then show ?thesis using t(1) unfolding Let_def by blast
qed

end
