(* ===== verification/ListSort.thy ===== *)
theory ListSort
  imports LinkedList Sorting
begin

text \<open>
  \<open>fcitx_list_sort_r\<close> of \<open>src/lib/fcitx-utils/list.c\<close>: a merge sort that cuts the ring in two,
  sorts the halves as rings under the same head, and merges the two open chains.  Recursion depth
  is bounded by fuel; more fuel than the length of the list is enough (\<open>sort_r_ok\<close>).
\<close>

section \<open>Sorting\<close>

text \<open>
  \<open>list.c\<close>.  The comparison takes the two nodes; the C code passes it the objects that contain
  them, at a fixed offset.  The merge returns the head of the merged chain, its end, and the store.
\<close>

fun fcitx_list_sorted_merge ::
  "nat \<Rightarrow> (nat \<Rightarrow> nat \<Rightarrow> int) \<Rightarrow> nat \<Rightarrow> nat \<Rightarrow> nat \<Rightarrow> nat \<Rightarrow> links \<Rightarrow> (nat \<times> nat \<times> links) option" where
  "fcitx_list_sorted_merge 0 cmp heada enda headb endb s = None"
| "fcitx_list_sorted_merge (Suc n) cmp heada enda headb endb s =
     (if heada = 0 then Some (headb, endb, s)
      else if headb = 0 then Some (heada, enda, s)
      else do {
        (result, rest, ende, s) \<leftarrow>
          (if cmp heada headb \<le> 0 then do {
             na \<leftarrow> get_next heada s;
             (r, e, s) \<leftarrow> fcitx_list_sorted_merge n cmp na enda headb endb s;
             Some (heada, r, e, s) }
           else do {
             nb \<leftarrow> get_next headb s;
             (r, e, s) \<leftarrow> fcitx_list_sorted_merge n cmp heada enda nb endb s;
             Some (headb, r, e, s) });
        s \<leftarrow> set_next result rest s;
        if rest \<noteq> 0 then do { s \<leftarrow> set_prev rest result s; Some (result, ende, s) }
        else Some (result, result, s) })"

text \<open>The loop with the slow and the fast pointer; it returns the last node of the first half.\<close>

fun sort_split :: "nat \<Rightarrow> nat \<Rightarrow> nat \<Rightarrow> nat \<Rightarrow> links \<Rightarrow> nat option" where
  "sort_split 0 list slow fast s = None"
| "sort_split (Suc n) list slow fast s =
     (if fast = list then Some slow
      else do {
        fast \<leftarrow> get_next fast s;
        if fast \<noteq> list then do {
          slow \<leftarrow> get_next slow s;
          fast \<leftarrow> get_next fast s;
          sort_split n list slow fast s }
        else sort_split n list slow fast s })"

fun fcitx_list_sort_r :: "nat \<Rightarrow> (nat \<Rightarrow> nat \<Rightarrow> int) \<Rightarrow> nat \<Rightarrow> links \<Rightarrow> links option" where
  "fcitx_list_sort_r 0 cmp list s = None"
| "fcitx_list_sort_r (Suc n) cmp list s = do {
     empty \<leftarrow> fcitx_list_is_empty list s;
     if empty then Some s else do {
       lp \<leftarrow> get_prev list s;
       slow \<leftarrow> get_next list s;
       if lp = slow then Some s else do {
         fast \<leftarrow> get_next slow s;
         slow \<leftarrow> sort_split n list slow fast s;
         headb \<leftarrow> get_next slow s;
         endb \<leftarrow> get_prev list s;
         s \<leftarrow> set_prev list slow s;
         s \<leftarrow> set_next slow list s;
         s \<leftarrow> fcitx_list_sort_r n cmp list s;
         heada \<leftarrow> get_next list s;
         s \<leftarrow> set_prev heada 0 s;
         enda \<leftarrow> get_prev list s;
         s \<leftarrow> set_next enda 0 s;
         s \<leftarrow> set_next list headb s;
         s \<leftarrow> set_prev headb list s;
         s \<leftarrow> set_prev list endb s;
         s \<leftarrow> set_next endb list s;
         s \<leftarrow> fcitx_list_sort_r n cmp list s;
         headb \<leftarrow> get_next list s;
         s \<leftarrow> set_prev headb 0 s;
         endb \<leftarrow> get_prev list s;
         s \<leftarrow> set_next endb 0 s;
         (head, ende, s) \<leftarrow> fcitx_list_sorted_merge n cmp heada enda headb endb s;
         s \<leftarrow> set_next list head s;
         s \<leftarrow> set_prev head list s;
         s \<leftarrow> set_prev list ende s;
         set_next ende list s }}}"

text \<open>The merge leaves the \<open>prev\<close> field of the resulting head alone, so only the links inside the
  merged chain are claimed: \<open>dl\<close> from the head's own predecessor.\<close>

lemma first_of_merge:
  "xs \<noteq> [] \<Longrightarrow> ys \<noteq> [] \<Longrightarrow>
   first_of q (merge_runs cmp xs ys) = (if cmp (hd xs) (hd ys) \<le> 0 then hd xs else hd ys)"
  by (cases xs; cases ys) auto

lemma merge_runs_eq_Nil [simp]: "merge_runs cmp xs ys = [] \<longleftrightarrow> xs = [] \<and> ys = []"
  by (cases xs; cases ys) auto

lemma distinct_merge_runs [simp]:
  "distinct (merge_runs cmp xs ys) \<longleftrightarrow> distinct xs \<and> distinct ys \<and> set xs \<inter> set ys = {}"
  by (induction cmp xs ys rule: merge_runs.induct) auto

text \<open>One step of the merge: node \<open>x\<close> goes in front of the chain merged so far.\<close>

lemma dl_push:
  assumes "dl (nxt s) (prv s) (prv s (hd zs)) zs 0" and "zs \<noteq> []" and "distinct (x # zs)"
    and "0 \<notin> set (x # zs)"
  shows "\<exists>s'. do { s \<leftarrow> set_next x (hd zs) s;
        if hd zs \<noteq> 0 then do { s \<leftarrow> set_prev (hd zs) x s; Some (x, e, s) } else Some (x, x, s) }
      = Some (x, e, s') \<and>
     dl (nxt s') (prv s') (prv s' x) (x # zs) 0 \<and>
     (\<forall>i. i \<notin> set (x # zs) \<longrightarrow> nxt s' i = nxt s i \<and> prv s' i = prv s i)"
proof -
  let ?s = "s\<lparr>nxt := (nxt s)(x := hd zs), prv := (prv s)(hd zs := x)\<rparr>"
  obtain z' zs' where "zs = z' # zs'" using assms(2) by (cases zs) auto
  with assms have z: "hd zs \<in> set zs" "hd zs \<noteq> 0" "x \<noteq> 0" "hd zs \<noteq> x" "first_of 0 zs = hd zs"
    by auto
  have "dl (nxt ?s) (prv ?s) x zs 0"
    using assms z by (intro dl_relink_start [OF assms(1)]) (auto simp: first_of_def)
  with z assms(2) have "dl (nxt ?s) (prv ?s) (prv ?s x) (x # zs) 0"
    by simp
  moreover have "do { s \<leftarrow> set_next x (hd zs) s;
        if hd zs \<noteq> 0 then do { s \<leftarrow> set_prev (hd zs) x s; Some (x, e, s) } else Some (x, x, s) }
      = Some (x, e, ?s)"
    using z by (simp add: link_access)
  moreover have "\<forall>i. i \<notin> set (x # zs) \<longrightarrow> nxt ?s i = nxt s i \<and> prv ?s i = prv s i"
    using z by auto
  ultimately show ?thesis by blast
qed

lemma merge_ok:
  assumes "length xs + length ys < n" and "distinct (xs @ ys)" and "0 \<notin> set (xs @ ys)"
    and "dl (nxt s) (prv s) pa xs 0" and "dl (nxt s) (prv s) pb ys 0"
    and "xs @ ys \<noteq> []" and "xs \<noteq> [] \<longrightarrow> ea = last xs" and "ys \<noteq> [] \<longrightarrow> eb = last ys"
  shows "\<exists>s'. fcitx_list_sorted_merge n cmp (first_of 0 xs) ea (first_of 0 ys) eb s =
       Some (hd (merge_runs cmp xs ys), last (merge_runs cmp xs ys), s') \<and>
     dl (nxt s') (prv s') (prv s' (hd (merge_runs cmp xs ys))) (merge_runs cmp xs ys) 0 \<and>
     (\<forall>i. i \<notin> set (xs @ ys) \<longrightarrow> nxt s' i = nxt s i \<and> prv s' i = prv s i)"
  using assms
proof (induction n arbitrary: xs ys s pa pb)
  case (Suc n)
  show ?case
  proof (cases "xs = [] \<or> ys = []")
    case True
    with Suc.prems show ?thesis
      by (cases xs; cases ys) auto
  next
    case False
    then obtain x xs' y ys' where xy: "xs = x # xs'" "ys = y # ys'"
      by (meson neq_Nil_conv)
    with Suc.prems have nz: "x \<noteq> 0" "y \<noteq> 0" by auto
    show ?thesis
    proof (cases "cmp x y \<le> 0")
      case True
      let ?zs = "merge_runs cmp xs' ys"
      have "\<exists>s'. fcitx_list_sorted_merge n cmp (first_of 0 xs') ea (first_of 0 ys) eb s =
          Some (hd ?zs, last ?zs, s') \<and> dl (nxt s') (prv s') (prv s' (hd ?zs)) ?zs 0 \<and>
          (\<forall>i. i \<notin> set (xs' @ ys) \<longrightarrow> nxt s' i = nxt s i \<and> prv s' i = prv s i)"
        using Suc.prems xy by (intro Suc.IH [where pa = x and pb = pb]) auto
      then obtain s1 where s1:
        "fcitx_list_sorted_merge n cmp (first_of 0 xs') ea (first_of 0 ys) eb s =
          Some (hd ?zs, last ?zs, s1)" "dl (nxt s1) (prv s1) (prv s1 (hd ?zs)) ?zs 0"
        "\<forall>i. i \<notin> set (xs' @ ys) \<longrightarrow> nxt s1 i = nxt s i \<and> prv s1 i = prv s i" by blast
      from dl_push [OF s1(2), of x "last ?zs"] Suc.prems xy s1 True nz show ?thesis
        by (auto simp: get_next_def)
    next
      case False
      let ?zs = "merge_runs cmp xs ys'"
      have "\<exists>s'. fcitx_list_sorted_merge n cmp (first_of 0 xs) ea (first_of 0 ys') eb s =
          Some (hd ?zs, last ?zs, s') \<and> dl (nxt s') (prv s') (prv s' (hd ?zs)) ?zs 0 \<and>
          (\<forall>i. i \<notin> set (xs @ ys') \<longrightarrow> nxt s' i = nxt s i \<and> prv s' i = prv s i)"
        using Suc.prems xy by (intro Suc.IH [where pa = pa and pb = y]) auto
      then obtain s1 where s1:
        "fcitx_list_sorted_merge n cmp (first_of 0 xs) ea (first_of 0 ys') eb s =
          Some (hd ?zs, last ?zs, s1)" "dl (nxt s1) (prv s1) (prv s1 (hd ?zs)) ?zs 0"
        "\<forall>i. i \<notin> set (xs @ ys') \<longrightarrow> nxt s1 i = nxt s i \<and> prv s1 i = prv s i" by blast
      from dl_push [OF s1(2), of y "last ?zs"] Suc.prems xy s1 False nz show ?thesis
        by (auto simp: get_next_def)
    qed
  qed
qed simp

lemma dl_nth:
  "dl nx pv p xs q \<Longrightarrow> i < length xs \<Longrightarrow> nx (xs ! i) = (xs @ [q]) ! Suc i"
proof (induction xs arbitrary: p i)
  case (Cons x xs)
  then show ?case
    by (cases i; cases xs) (auto simp: nth_append)
qed simp

lemma sort_split_ok:
  assumes r: "ring s h xs"
  shows "i = 2 * j + 1 \<Longrightarrow> i \<le> length xs \<Longrightarrow> length xs - i < k \<Longrightarrow>
    sort_split k h (xs ! j) ((xs @ [h]) ! i) s = Some (xs ! ((length xs - 1) div 2))"
proof (induction k arbitrary: i j)
  case (Suc k)
  let ?n = "length xs"
  have nx: "get_next (xs ! l) s = Some ((xs @ [h]) ! Suc l)" if "l < ?n" for l
  proof -
    have "xs ! l \<noteq> 0" using r nth_mem [OF that] unfolding ring_def by (metis list.set_intros(2))
    with r dl_nth [of "nxt s" "prv s" h xs h l] that show ?thesis
      by (simp add: ring_def get_next_def)
  qed
  have node: "(xs @ [h]) ! l = h \<longleftrightarrow> l = ?n" if "l \<le> ?n" for l
    using r that nth_mem [of l xs] by (cases "l = ?n") (auto simp: ring_def nth_append)
  show ?case
  proof (cases "i = ?n")
    case True
    with Suc.prems show ?thesis by (simp add: nth_append)
  next
    case False
    with Suc.prems have i: "i < ?n" "j < ?n" by auto
    from i node [of i] have ne: "(xs @ [h]) ! i \<noteq> h" "(xs @ [h]) ! i = xs ! i"
      by (auto simp: nth_append)
    show ?thesis
    proof (cases "Suc i = ?n")
      case True
      then have "j = (?n - 1) div 2" using Suc.prems(1) by auto
      moreover have "0 < k" using Suc.prems True by auto
      then obtain k' where "k = Suc k'" by (cases k) auto
      ultimately show ?thesis
        using ne i True by (simp add: nx nth_append)
    next
      case False
      with i have Si: "Suc i < ?n" by simp
      then have ne': "(xs @ [h]) ! Suc i \<noteq> h" "(xs @ [h]) ! Suc i = xs ! Suc i"
        using node [of "Suc i"] by (auto simp: nth_append)
      have "sort_split (Suc k) h (xs ! j) ((xs @ [h]) ! i) s =
          sort_split k h (xs ! Suc j) ((xs @ [h]) ! Suc (Suc i)) s"
        using ne ne' i Si Suc.prems(1) by (simp add: nx) (simp add: nth_append)
      also have "\<dots> = Some (xs ! ((?n - 1) div 2))"
        using Suc.prems Si by (intro Suc.IH) auto
      finally show ?thesis .
    qed
  qed
qed simp

lemma ring_cut:
  assumes "ring s h xs" and "xs \<noteq> []"
  shows "dl ((nxt s)(last xs := 0)) ((prv s)(hd xs := 0)) 0 xs 0"
proof -
  from assms have d: "dl (nxt s) (prv s) h xs h" "distinct xs" by (auto simp: ring_def)
  have "dl (nxt s) ((prv s)(hd xs := 0)) 0 xs h"
    by (rule dl_relink_start [OF d]) (use assms(2) in \<open>auto simp: first_of_def\<close>)
  from dl_relink_end [OF this d(2)] show ?thesis
    using assms(2) by (auto simp: last_of_def)
qed

definition closed_ring :: "nat \<Rightarrow> nat list \<Rightarrow> links \<Rightarrow> links" where
  "closed_ring h xs s = s\<lparr>nxt := (nxt s)(h := hd xs, last xs := h),
     prv := (prv s)(hd xs := h, h := last xs)\<rparr>"

lemma ring_close:
  assumes "dl (nxt s) (prv s) p xs q" and "xs \<noteq> []" and "distinct (h # xs)" and "0 \<notin> set (h # xs)"
  shows "ring (closed_ring h xs s) h xs"
proof -
  have "dl (nxt s) (prv (closed_ring h xs s)) h xs q"
    using assms by (intro dl_relink_start [OF assms(1)]) (auto simp: closed_ring_def first_of_def)
  then have "dl (nxt (closed_ring h xs s)) (prv (closed_ring h xs s)) h xs h"
    by (rule dl_relink_end) (use assms in \<open>auto simp: closed_ring_def last_of_def\<close>)
  with assms show ?thesis
    by (auto simp: ring_def closed_ring_def first_of_def last_of_def)
qed

lemma closed_ring_frame:
  "i \<notin> set (h # xs) \<Longrightarrow> xs \<noteq> [] \<Longrightarrow>
   nxt (closed_ring h xs s) i = nxt s i \<and> prv (closed_ring h xs s) i = prv s i"
  by (auto simp: closed_ring_def)

lemma closed_ring_do:
  assumes "xs \<noteq> []" and "distinct (h # xs)" and "0 \<notin> set (h # xs)"
  shows "do { s \<leftarrow> set_next h (hd xs) s; s \<leftarrow> set_prev (hd xs) h s; s \<leftarrow> set_prev h (last xs) s;
     s \<leftarrow> set_next (last xs) h s; f s } = f (closed_ring h xs s)"
  and "do { s \<leftarrow> set_next h (hd xs) s; s \<leftarrow> set_prev (hd xs) h s; s \<leftarrow> set_prev h (last xs) s;
     set_next (last xs) h s } = Some (closed_ring h xs s)"
proof -
  have "hd xs \<noteq> 0" "last xs \<noteq> 0" "hd xs \<in> set xs"
    using assms by (metis hd_in_set last_in_set list.set_intros(2))+
  with assms show "do { s \<leftarrow> set_next h (hd xs) s; s \<leftarrow> set_prev (hd xs) h s;
     s \<leftarrow> set_prev h (last xs) s; s \<leftarrow> set_next (last xs) h s; f s } = f (closed_ring h xs s)"
    and "do { s \<leftarrow> set_next h (hd xs) s; s \<leftarrow> set_prev (hd xs) h s; s \<leftarrow> set_prev h (last xs) s;
     set_next (last xs) h s } = Some (closed_ring h xs s)"
    by (cases s; simp add: link_access closed_ring_def)+
qed

definition cut_ring :: "nat list \<Rightarrow> links \<Rightarrow> links" where
  "cut_ring xs s = s\<lparr>nxt := (nxt s)(last xs := 0), prv := (prv s)(hd xs := 0)\<rparr>"

lemma cut_ring_do:
  assumes "ring s h xs" and "xs \<noteq> []"
  shows "do { a \<leftarrow> get_next h s; s \<leftarrow> set_prev a 0 s; e \<leftarrow> get_prev h s; s \<leftarrow> set_next e 0 s; f a e s }
     = f (hd xs) (last xs) (cut_ring xs s)"
proof -
  have "hd xs \<noteq> 0" "last xs \<noteq> 0" "hd xs \<noteq> h"
    using assms by (metis ring_def hd_in_set last_in_set list.set_intros(2) distinct.simps(2))+
  with assms show ?thesis
    by (cases s) (simp add: link_access ring_def cut_ring_def first_of_def last_of_def)
qed

lemma dl_cut_ring: "ring s h xs \<Longrightarrow> xs \<noteq> [] \<Longrightarrow> dl (nxt (cut_ring xs s)) (prv (cut_ring xs s)) 0 xs 0"
  using ring_cut [of s h xs] by (simp add: cut_ring_def)

lemma cut_ring_frame:
  "i \<notin> set xs \<Longrightarrow> xs \<noteq> [] \<Longrightarrow> nxt (cut_ring xs s) i = nxt s i \<and> prv (cut_ring xs s) i = prv s i"
  by (auto simp: cut_ring_def)

text \<open>The first half becomes a ring of its own under the same head.\<close>

definition half_ring :: "nat \<Rightarrow> nat list \<Rightarrow> links \<Rightarrow> links" where
  "half_ring h as s = s\<lparr>prv := (prv s)(h := last as), nxt := (nxt s)(last as := h)\<rparr>"

lemma ring_half:
  assumes r: "ring s h (as @ bs)" and ne: "as \<noteq> []"
  shows "ring (half_ring h as s) h as"
    and "dl (nxt (half_ring h as s)) (prv (half_ring h as s)) (last as) bs h"
proof -
  from r have d: "dl (nxt s) (prv s) h as (first_of h bs)" "dl (nxt s) (prv s) (last_of h as) bs h"
    "distinct (h # as @ bs)"
    by (auto simp: ring_def dl_append)
  have la: "last as \<in> set as" using ne by simp
  have "dl (nxt (half_ring h as s)) (prv (half_ring h as s)) h as h"
    by (rule dl_relink_end [OF d(1)]) (use d(3) ne in \<open>auto simp: half_ring_def last_of_def\<close>)
  with r ne la show "ring (half_ring h as s) h as"
    by (auto simp: ring_def half_ring_def last_of_def first_of_def)
  have "dl (nxt (half_ring h as s)) (prv (half_ring h as s)) (last_of h as) bs h =
      dl (nxt s) (prv s) (last_of h as) bs h"
    using d(3) la by (intro dl_cong) (auto simp: half_ring_def)
  with d ne show "dl (nxt (half_ring h as s)) (prv (half_ring h as s)) (last as) bs h"
    by (simp add: last_of_def)
qed

lemma half_ring_frame:
  "i \<notin> set (h # as) \<Longrightarrow> as \<noteq> [] \<Longrightarrow>
   nxt (half_ring h as s) i = nxt s i \<and> prv (half_ring h as s) i = prv s i"
  by (auto simp: half_ring_def)

lemma dl_frame:
  "dl (nxt s) (prv s) p xs q \<Longrightarrow> (\<And>i. i \<in> set xs \<Longrightarrow> nxt s' i = nxt s i \<and> prv s' i = prv s i) \<Longrightarrow>
   dl (nxt s') (prv s') p xs q"
  using dl_cong [of xs "nxt s'" "nxt s" "prv s'" "prv s" p q] by simp

lemma sort_r_unfold:
  assumes r: "ring s h (as @ bs)" and ab: "as \<noteq> []" "bs \<noteq> []"
    and half: "length as = (length (as @ bs) - 1) div 2 + 1" and n: "length (as @ bs) < n"
  shows "fcitx_list_sort_r (Suc n) cmp h s = do {
     s \<leftarrow> fcitx_list_sort_r n cmp h (half_ring h as s);
     heada \<leftarrow> get_next h s;
     s \<leftarrow> set_prev heada 0 s;
     enda \<leftarrow> get_prev h s;
     s \<leftarrow> set_next enda 0 s;
     s \<leftarrow> set_next h (hd bs) s;
     s \<leftarrow> set_prev (hd bs) h s;
     s \<leftarrow> set_prev h (last bs) s;
     s \<leftarrow> set_next (last bs) h s;
     s \<leftarrow> fcitx_list_sort_r n cmp h s;
     headb \<leftarrow> get_next h s;
     s \<leftarrow> set_prev headb 0 s;
     endb \<leftarrow> get_prev h s;
     s \<leftarrow> set_next endb 0 s;
     (head, ende, s) \<leftarrow> fcitx_list_sorted_merge n cmp heada enda headb endb s;
     s \<leftarrow> set_next h head s;
     s \<leftarrow> set_prev head h s;
     s \<leftarrow> set_prev h ende s;
     set_next ende h s }"
proof -
  let ?xs = "as @ bs"
  obtain a as' where a: "as = a # as'" using ab by (cases as) auto
  have la: "last as \<noteq> 0" "last bs \<noteq> 0" "h \<noteq> 0" "a \<noteq> 0"
    using r ab a unfolding ring_def by (metis Un_iff last_in_set list.set_intros set_append)+
  have "distinct ?xs" "prv s h = last bs" "nxt s h = a"
    using r ab a by (auto simp: ring_def last_of_def first_of_def)
  moreover have "last bs \<in> set bs" using ab by simp
  ultimately have ends: "get_prev h s = Some (last bs)" "get_next h s = Some a" "last bs \<noteq> a"
    using la a by (auto simp: link_access)
  have mid: "?xs ! ((length ?xs - 1) div 2) = last as"
  proof -
    have "(length ?xs - 1) div 2 = length as - 1" using half by linarith
    then show ?thesis using ab by (simp add: nth_append last_conv_nth)
  qed
  have "get_next a s = Some ((?xs @ [h]) ! 1)"
    using r a dl_nth [of "nxt s" "prv s" h ?xs h 0] la by (simp add: ring_def link_access)
  moreover have "sort_split n h (?xs ! 0) ((?xs @ [h]) ! 1) s = Some (last as)"
    using sort_split_ok [OF r, of 1 0 n] n a mid by simp
  moreover have "get_next (last as) s = Some (hd bs)"
  proof -
    have "nxt s (last as) = hd bs"
      using r ab by (cases as rule: rev_cases) (auto simp: ring_def dl_append first_of_def)
    then show ?thesis using la by (simp add: link_access)
  qed
  ultimately have "fcitx_list_sort_r (Suc n) cmp h s = do {
     s \<leftarrow> set_prev h (last as) s; s \<leftarrow> set_next (last as) h s;
     s \<leftarrow> fcitx_list_sort_r n cmp h s;
     heada \<leftarrow> get_next h s;
     s \<leftarrow> set_prev heada 0 s;
     enda \<leftarrow> get_prev h s;
     s \<leftarrow> set_next enda 0 s;
     s \<leftarrow> set_next h (hd bs) s;
     s \<leftarrow> set_prev (hd bs) h s;
     s \<leftarrow> set_prev h (last bs) s;
     s \<leftarrow> set_next (last bs) h s;
     s \<leftarrow> fcitx_list_sort_r n cmp h s;
     headb \<leftarrow> get_next h s;
     s \<leftarrow> set_prev headb 0 s;
     endb \<leftarrow> get_prev h s;
     s \<leftarrow> set_next endb 0 s;
     (head, ende, s) \<leftarrow> fcitx_list_sorted_merge n cmp heada enda headb endb s;
     s \<leftarrow> set_next h head s;
     s \<leftarrow> set_prev head h s;
     s \<leftarrow> set_prev h ende s;
     set_next ende h s }"
    using ends a r ring_is_empty [OF r] by simp
  then show ?thesis
    using la by (simp add: link_access half_ring_def)
qed

lemma sort_r_ok:
  assumes "comparator cmp"
  shows "ring s h xs \<Longrightarrow> length xs + 1 < n \<Longrightarrow>
    \<exists>s' zs. fcitx_list_sort_r n cmp h s = Some s' \<and> ring s' h zs \<and> stably_sorts cmp xs zs \<and>
      (\<forall>i. i \<notin> set (h # xs) \<longrightarrow> nxt s' i = nxt s i \<and> prv s' i = prv s i)"
proof (induction n arbitrary: xs s)
  case (Suc n)
  note r = Suc.prems(1)
  show ?case
  proof (cases "length xs < 2")
    case True
    then have "xs = [] \<or> (\<exists>x. xs = [x])" by (cases xs; cases "tl xs") auto
    then have "fcitx_list_sort_r (Suc n) cmp h s = Some s"
      using ring_is_empty [OF r] r by (auto simp: ring_def link_access)
    moreover have "stably_sorts cmp xs xs"
      using \<open>xs = [] \<or> (\<exists>x. xs = [x])\<close> by (auto simp: stably_sorts_def sorts_def)
    ultimately show ?thesis using r by blast
  next
    case False
    define as bs where "as = take ((length xs - 1) div 2 + 1) xs"
      and "bs = drop ((length xs - 1) div 2 + 1) xs"
    then have xs: "xs = as @ bs" by simp
    have half: "length as = (length (as @ bs) - 1) div 2 + 1" and ab: "as \<noteq> []" "bs \<noteq> []"
      using False by (auto simp: as_def bs_def)
    have rab: "ring s h (as @ bs)" using r xs by simp
    have n: "length (as @ bs) < n" using Suc.prems xs by simp
    have lab: "length as + 1 < n" "length bs + 1 < n"
      using n ab by (cases as; cases bs; simp)+
    have dist: "distinct (h # as @ bs)" "0 \<notin> set (h # as @ bs)" using rab by (auto simp: ring_def)
    let ?s1 = "half_ring h as s"
    obtain s2 as' where s2: "fcitx_list_sort_r n cmp h ?s1 = Some s2" "ring s2 h as'"
      "stably_sorts cmp as as'"
      "\<forall>i. i \<notin> set (h # as) \<longrightarrow> nxt s2 i = nxt ?s1 i \<and> prv s2 i = prv ?s1 i"
      using Suc.IH [OF ring_half(1) [OF rab ab(1)] lab(1)] by blast
    then have as': "set as' = set as" "as' \<noteq> []" "distinct as'"
      using ab by (auto simp: stably_sorts_def sorts_def ring_def dest: mset_eq_setD)
    let ?s3 = "cut_ring as' s2" and ?s4 = "closed_ring h bs (cut_ring as' s2)"
    have chA: "dl (nxt ?s4) (prv ?s4) 0 as' 0"
      by (rule dl_frame [OF dl_cut_ring [OF s2(2) as'(2)]])
        (use dist as' ab in \<open>auto intro!: closed_ring_frame\<close>)
    have "dl (nxt ?s3) (prv ?s3) (last as) bs h"
    proof (rule dl_frame [OF ring_half(2) [OF rab ab(1)]])
      fix i assume "i \<in> set bs"
      then have "i \<notin> set as'" "i \<notin> set (h # as)" using dist as' by auto
      then show "nxt ?s3 i = nxt ?s1 i \<and> prv ?s3 i = prv ?s1 i"
        using s2(4) cut_ring_frame [OF _ as'(2)] by simp
    qed
    then have "ring ?s4 h bs" using dist ab by (intro ring_close) auto
    then obtain s5 bs' where s5: "fcitx_list_sort_r n cmp h ?s4 = Some s5" "ring s5 h bs'"
      "stably_sorts cmp bs bs'"
      "\<forall>i. i \<notin> set (h # bs) \<longrightarrow> nxt s5 i = nxt ?s4 i \<and> prv s5 i = prv ?s4 i"
      using Suc.IH [OF _ lab(2)] by blast
    then have bs': "set bs' = set bs" "bs' \<noteq> []" "distinct bs'"
      using ab by (auto simp: stably_sorts_def sorts_def ring_def dest: mset_eq_setD)
    let ?s6 = "cut_ring bs' s5" and ?zs = "merge_runs cmp as' bs'"
    have chA': "dl (nxt ?s6) (prv ?s6) 0 as' 0"
    proof (rule dl_frame [OF chA])
      fix i assume "i \<in> set as'"
      then have "i \<notin> set bs'" "i \<notin> set (h # bs)" using dist as' bs' by auto
      then show "nxt ?s6 i = nxt ?s4 i \<and> prv ?s6 i = prv ?s4 i"
        using s5(4) cut_ring_frame [OF _ bs'(2)] by simp
    qed
    have "mset as' = mset as" "mset bs' = mset bs"
      using s2(3) s5(3) by (auto simp: stably_sorts_def sorts_def)
    then have "length as' = length as" "length bs' = length bs" by (auto dest: mset_eq_length)
    then obtain s7 where s7: "fcitx_list_sorted_merge n cmp (first_of 0 as') (last as')
          (first_of 0 bs') (last bs') ?s6 = Some (hd ?zs, last ?zs, s7)"
        "dl (nxt s7) (prv s7) (prv s7 (hd ?zs)) ?zs 0"
        "\<forall>i. i \<notin> set (as' @ bs') \<longrightarrow> nxt s7 i = nxt ?s6 i \<and> prv s7 i = prv ?s6 i"
      using merge_ok [of as' bs' n ?s6 0 0 "last as'" "last bs'" cmp]
        chA' dl_cut_ring [OF s5(2) bs'(2)] n as' bs' dist by auto
    have z: "?zs \<noteq> []" "distinct (h # ?zs)" "0 \<notin> set (h # ?zs)"
      using as' bs' dist by auto
    let ?s8 = "closed_ring h ?zs s7"
    have "fcitx_list_sort_r (Suc n) cmp h s = Some ?s8"
      unfolding xs sort_r_unfold [OF rab ab half n]
      using s2(1) s5(1) s7(1) as'(2) bs'(2) dist ab
      by (simp add: cut_ring_do [OF s2(2) as'(2)] closed_ring_do cut_ring_do [OF s5(2) bs'(2)]
          first_of_def closed_ring_do(2) [OF z])
    moreover have "ring ?s8 h ?zs" using s7(2) z by (intro ring_close) auto
    moreover have "stably_sorts cmp xs ?zs"
      unfolding xs using comparator.stable_merge [OF assms s2(3) s5(3)] .
    moreover have "nxt ?s8 i = nxt s i \<and> prv ?s8 i = prv s i" if "i \<notin> set (h # xs)" for i
    proof -
      have i: "i \<notin> set (h # ?zs)" "i \<notin> set bs'" "i \<notin> set as'" "i \<notin> set (h # bs)"
        "i \<notin> set (h # as)" using that as' bs' xs by auto
      then have "i \<notin> set (as' @ bs')" by simp
      with i show ?thesis
        using s7(3) s5(4) s2(4) z(1) ab as' bs'
        by (metis closed_ring_frame cut_ring_frame half_ring_frame)
    qed
    ultimately show ?thesis by blast
  qed
qed simp

text \<open>\<open>fcitx_list_sort\<close> wraps a comparison without closure data.\<close>

definition fcitx_list_sort :: "nat \<Rightarrow> (nat \<Rightarrow> nat \<Rightarrow> int) \<Rightarrow> nat \<Rightarrow> links \<Rightarrow> links option" where
  "fcitx_list_sort n compare list s = fcitx_list_sort_r n (\<lambda>a b. compare a b) list s"

section \<open>Properties\<close>

text \<open>C5: With fuel above its length, sorting a well-formed list never dereferences NULL, terminates,
  and leaves a well-formed list of the same nodes in stable sorted order; the links of all other
  nodes are untouched.\<close>

theorem list_sort_correct:
  assumes "\<And>a b. cmp a b \<le> 0 \<or> cmp b a \<le> 0"
    and "\<And>a b c. cmp a b \<le> 0 \<Longrightarrow> cmp b c \<le> 0 \<Longrightarrow> cmp a c \<le> 0"
    and "ring s h xs" and "length xs + 1 < n"
  shows "\<exists>s' zs. fcitx_list_sort n cmp h s = Some s' \<and> ring s' h zs \<and> stably_sorts cmp xs zs \<and>
      (\<forall>i. i \<in> set (h # xs) \<or> nxt s' i = nxt s i \<and> prv s' i = prv s i)"
proof -
  have "comparator cmp" using assms(1,2) by unfold_locales
  from sort_r_ok [OF this assms(3,4)] show ?thesis
    unfolding fcitx_list_sort_def by blast
qed

text \<open>A ring of three nodes for the witness.\<close>

definition ring3 :: links where
  "ring3 = \<lparr>nxt = (\<lambda>_. 0)(1 := 4, 4 := 2, 2 := 3, 3 := 1), prv = (\<lambda>_. 0)(1 := 3, 3 := 2, 2 := 4, 4 := 1)\<rparr>"

lemma ring3: "ring ring3 1 [4, 2, 3]"
  by (simp add: ring_def ring3_def)

theorem list_sort_correct_witness:
  "\<exists>s' zs. fcitx_list_sort 5 (\<lambda>a b. int a - int b) 1 ring3 = Some s' \<and> ring s' 1 zs \<and>
      stably_sorts (\<lambda>a b. int a - int b) [4, 2, 3] zs \<and>
      (\<forall>i. i \<in> set (1 # [4, 2, 3]) \<or> nxt s' i = nxt ring3 i \<and> prv s' i = prv ring3 i)"
  by (rule list_sort_correct [OF _ _ ring3]) auto

end
