(* ===== verification/PtrArray.thy ===== *)
theory PtrArray
  imports Sorting
begin

text \<open>
  \<open>FcitxPtrArray\<close> of \<open>src/lib/fcitx-utils/array.c\<close>: a growable array of pointers.  Pointers are
  addresses, 0 is NULL.  \<open>slots\<close> is the allocated block, \<open>None\<close> a slot never written; its length is
  the capacity \<open>priv->size\<close>.  An operation is \<open>None\<close> when it reads an unwritten slot or leaves the
  block.  Calls of the two destroy functions are logged.
\<close>

datatype array_event = Notify2 nat | Free nat

record ptr_array =
  slots :: "nat option list"
  len :: nat
  size_grow :: "(nat \<Rightarrow> nat) option"
  has_free :: bool
  has_notify2 :: bool
  array_log :: "array_event list"

definition aget :: "nat option list \<Rightarrow> nat \<Rightarrow> nat option" where
  "aget d i = (if i < length d then d ! i else None)"

definition aset :: "nat option list \<Rightarrow> nat \<Rightarrow> nat \<Rightarrow> nat option list option" where
  "aset d i v = (if i < length d then Some (d[i := Some v]) else None)"

definition fcitx_ptr_array_new_full :: "(nat \<Rightarrow> nat) option \<Rightarrow> bool \<Rightarrow> bool \<Rightarrow> ptr_array" where
  "fcitx_ptr_array_new_full grow ff n2 =
     \<lparr>slots = [], len = 0, size_grow = grow, has_free = ff, has_notify2 = n2, array_log = []\<rparr>"

definition fcitx_ptr_array_new :: "bool \<Rightarrow> ptr_array" where
  "fcitx_ptr_array_new ff = fcitx_ptr_array_new_full None ff False"

text \<open>The destroy functions, the one with user data first.\<close>

definition destroy :: "nat \<Rightarrow> ptr_array \<Rightarrow> ptr_array" where
  "destroy v a = a\<lparr>array_log := array_log a @ (if has_notify2 a then [Notify2 v] else []) @
                              (if has_free a then [Free v] else [])\<rparr>"

text \<open>The growth loop; a caller's growth function may make it run forever, which is \<open>None\<close>.\<close>

partial_function (option) grow_loop :: "(nat \<Rightarrow> nat) option \<Rightarrow> nat \<Rightarrow> nat \<Rightarrow> nat option" where
  "grow_loop g sz target =
     (if sz < target
      then grow_loop g (case g of Some f \<Rightarrow> f sz | None \<Rightarrow> if sz \<noteq> 0 then sz * 2 else 1) target
      else Some sz)"

definition fcitx_ptr_array_grow :: "ptr_array \<Rightarrow> nat \<Rightarrow> ptr_array option" where
  "fcitx_ptr_array_grow a target = do {
     sz \<leftarrow> grow_loop (size_grow a) (length (slots a)) target;
     Some (a\<lparr>slots := take sz (slots a) @ replicate (sz - length (slots a)) None\<rparr>) }"

text \<open>Moving the elements from \<open>pos\<close> one up, the index counting down from \<open>i\<close>; and one down.\<close>

fun shift_up :: "nat option list \<Rightarrow> nat \<Rightarrow> nat \<Rightarrow> nat option list option" where
  "shift_up d pos 0 = Some d"
| "shift_up d pos (Suc i) =
     (if pos < Suc i then do { v \<leftarrow> aget d i; d \<leftarrow> aset d (Suc i) v; shift_up d pos i } else Some d)"

fun shift_down :: "nat option list \<Rightarrow> nat list \<Rightarrow> nat option list option" where
  "shift_down d [] = Some d"
| "shift_down d (i # is) = do { v \<leftarrow> aget d (i + 1); d \<leftarrow> aset d i v; shift_down d is }"

definition fcitx_ptr_array_insert :: "ptr_array \<Rightarrow> nat \<Rightarrow> nat \<Rightarrow> ptr_array option" where
  "fcitx_ptr_array_insert a data position =
     (if position > len a then Some a
      else do {
        a \<leftarrow> (if length (slots a) < len a + 1 then fcitx_ptr_array_grow a (len a + 1) else Some a);
        d \<leftarrow> shift_up (slots a) position (len a);
        d \<leftarrow> aset d position data;
        Some (a\<lparr>slots := d, len := len a + 1\<rparr>) })"

text \<open>
  Removal.  \<open>steal\<close> is the address to store the element at, 0 when none is given; the first result is
  what was stored.  Removing from the empty array wraps the length around.
\<close>

definition fcitx_ptr_array_remove :: "ptr_array \<Rightarrow> nat \<Rightarrow> nat \<Rightarrow> (nat option \<times> ptr_array) option"
where
  "fcitx_ptr_array_remove a position steal =
     (if position > len a then Some (None, a)
      else if len a = 0 then None
      else do {
        data \<leftarrow> aget (slots a) position;
        d \<leftarrow> shift_down (slots a) [position..<len a - 1];
        let a = a\<lparr>slots := d, len := len a - 1\<rparr>;
        if steal \<noteq> 0 then Some (Some data, a) else Some (None, destroy data a) })"

definition fcitx_ptr_array_remove_fast ::
  "ptr_array \<Rightarrow> nat \<Rightarrow> nat \<Rightarrow> (nat option \<times> ptr_array) option" where
  "fcitx_ptr_array_remove_fast a position steal =
     (if position > len a then Some (None, a)
      else if len a = 0 then None
      else do {
        data \<leftarrow> aget (slots a) position;
        lst \<leftarrow> aget (slots a) (len a - 1);
        d \<leftarrow> aset (slots a) position lst;
        let a = a\<lparr>slots := d, len := len a - 1\<rparr>;
        if steal = data then (if steal = 0 then None else Some (Some data, a))
        else Some (None, destroy data a) })"

definition contents :: "ptr_array \<Rightarrow> nat list" where
  "contents a = map the (take (len a) (slots a))"

definition fcitx_ptr_array_sort_r :: "ptr_array \<Rightarrow> (nat \<Rightarrow> nat \<Rightarrow> int) \<Rightarrow> ptr_array" where
  "fcitx_ptr_array_sort_r a compare =
     a\<lparr>slots := map Some (fcitx_qsort_r compare (contents a)) @ drop (len a) (slots a)\<rparr>"

text \<open>\<open>fcitx_ptr_array_sort\<close> calls the C library's \<open>qsort\<close>, a parameter.\<close>

definition fcitx_ptr_array_sort ::
  "((nat \<Rightarrow> nat \<Rightarrow> int) \<Rightarrow> nat list \<Rightarrow> nat list) \<Rightarrow> ptr_array \<Rightarrow> (nat \<Rightarrow> nat \<Rightarrow> int) \<Rightarrow> ptr_array"
where
  "fcitx_ptr_array_sort qsort a compare =
     a\<lparr>slots := map Some (qsort compare (contents a)) @ drop (len a) (slots a)\<rparr>"

definition fcitx_ptr_array_set :: "ptr_array \<Rightarrow> nat \<Rightarrow> nat \<Rightarrow> ptr_array option" where
  "fcitx_ptr_array_set a index data =
     (if len a \<le> index then Some a
      else do {
        old \<leftarrow> aget (slots a) index;
        let a = destroy old a;
        d \<leftarrow> aset (slots a) index data;
        Some (a\<lparr>slots := d\<rparr>) })"

definition fcitx_ptr_array_index :: "ptr_array \<Rightarrow> nat \<Rightarrow> nat option" where
  "fcitx_ptr_array_index a index = (if len a \<le> index then Some 0 else aget (slots a) index)"

definition fcitx_ptr_array_prepend :: "ptr_array \<Rightarrow> nat \<Rightarrow> ptr_array option" where
  "fcitx_ptr_array_prepend a data = fcitx_ptr_array_insert a data 0"

definition fcitx_ptr_array_append :: "ptr_array \<Rightarrow> nat \<Rightarrow> ptr_array option" where
  "fcitx_ptr_array_append a data = fcitx_ptr_array_insert a data (len a)"

text \<open>Popping the empty array asks for position \<open>SIZE_MAX\<close> and does nothing.\<close>

definition fcitx_ptr_array_pop :: "ptr_array \<Rightarrow> nat \<Rightarrow> (nat option \<times> ptr_array) option" where
  "fcitx_ptr_array_pop a steal =
     (if len a = 0 then Some (None, a) else fcitx_ptr_array_remove a (len a - 1) steal)"

text \<open>The two loops of \<open>fcitx_ptr_array_resize\<close>, over the number of steps they take.\<close>

fun pop_loop :: "nat \<Rightarrow> ptr_array \<Rightarrow> ptr_array option" where
  "pop_loop 0 a = Some a"
| "pop_loop (Suc n) a = do { (_, a) \<leftarrow> fcitx_ptr_array_pop a 0; pop_loop n a }"

fun append_loop :: "nat \<Rightarrow> (nat \<Rightarrow> nat) option \<Rightarrow> ptr_array \<Rightarrow> ptr_array option" where
  "append_loop 0 callback a = Some a"
| "append_loop (Suc n) callback a = do {
     a \<leftarrow> fcitx_ptr_array_append a (case callback of Some f \<Rightarrow> f (len a) | None \<Rightarrow> 0);
     append_loop n callback a }"

definition fcitx_ptr_array_resize :: "ptr_array \<Rightarrow> nat \<Rightarrow> (nat \<Rightarrow> nat) option \<Rightarrow> ptr_array option"
where
  "fcitx_ptr_array_resize a sz callback = do {
     a \<leftarrow> pop_loop (len a - sz) a;
     a \<leftarrow> fcitx_ptr_array_grow a sz;
     append_loop (sz - len a) callback a }"

definition fcitx_ptr_array_clear :: "ptr_array \<Rightarrow> ptr_array option" where
  "fcitx_ptr_array_clear a = fcitx_ptr_array_resize a 0 None"

definition fcitx_ptr_array_free :: "ptr_array option \<Rightarrow> array_event list option" where
  "fcitx_ptr_array_free a =
     (case a of None \<Rightarrow> Some [] | Some a \<Rightarrow> map_option array_log (fcitx_ptr_array_clear a))"

section \<open>Invariant\<close>

definition array_ok :: "ptr_array \<Rightarrow> bool" where
  "array_ok a \<longleftrightarrow> len a \<le> length (slots a) \<and> (\<forall>i < len a. slots a ! i \<noteq> None) \<and>
     (case size_grow a of Some f \<Rightarrow> (\<forall>n. n < f n) | None \<Rightarrow> True)"

definition destroy_events :: "ptr_array \<Rightarrow> nat \<Rightarrow> array_event list" where
  "destroy_events a v =
     (if has_notify2 a then [Notify2 v] else []) @ (if has_free a then [Free v] else [])"

lemma grow_loop_ok:
  assumes "case g of Some f \<Rightarrow> (\<forall>n. n < f n) | None \<Rightarrow> True"
  shows "\<exists>s. grow_loop g sz target = Some s \<and> target \<le> s \<and> sz \<le> s"
proof (induction "target - sz" arbitrary: sz rule: less_induct)
  case less
  show ?case
  proof (cases "sz < target")
    case True
    let ?n = "case g of Some f \<Rightarrow> f sz | None \<Rightarrow> if sz \<noteq> 0 then sz * 2 else 1"
    have "sz < ?n" using assms by (auto split: option.splits)
    moreover have "grow_loop g sz target = grow_loop g ?n target"
      by (subst grow_loop.simps) (simp only: True if_True)
    moreover obtain s where "grow_loop g ?n target = Some s" "target \<le> s" "?n \<le> s"
      using less [of ?n] True calculation(1) by (meson diff_less_mono2)
    ultimately show ?thesis by (metis less_imp_le order_trans)
  next
    case False
    then show ?thesis by (subst grow_loop.simps) simp
  qed
qed

lemma grow_ok:
  assumes "array_ok a"
  shows "\<exists>xs. fcitx_ptr_array_grow a n = Some (a\<lparr>slots := slots a @ xs\<rparr>) \<and>
    n \<le> length (slots a @ xs)"
proof -
  obtain s where "grow_loop (size_grow a) (length (slots a)) n = Some s" "n \<le> s" "length (slots a) \<le> s"
    using grow_loop_ok assms unfolding array_ok_def by blast
  then show ?thesis
    by (auto simp: fcitx_ptr_array_grow_def)
qed

lemma length_aset: "aset d i v = Some d' \<Longrightarrow> length d' = length d"
  by (auto simp: aset_def split: if_splits)

lemma shift_up_ok:
  "i < length d \<Longrightarrow> pos \<le> i \<Longrightarrow> (\<And>j. j < i \<Longrightarrow> d ! j \<noteq> None) \<Longrightarrow>
   shift_up d pos i = Some (take (Suc pos) d @ drop pos (take i d) @ drop (Suc i) d)"
proof (induction i arbitrary: d)
  case (Suc i)
  show ?case
  proof (cases "pos = Suc i")
    case True
    with Suc.prems show ?thesis by (simp add: id_take_nth_drop [symmetric])
  next
    case False
    obtain v where v: "d ! i = Some v" using Suc.prems(3) [of i] by auto
    have dec: "d = take i d @ d ! i # d ! Suc i # drop (Suc (Suc i)) d"
      using Suc.prems(1) by (simp add: Cons_nth_drop_Suc Suc_lessD)
    let ?d = "d[Suc i := Some v]"
    have "shift_up ?d pos i = Some (take (Suc pos) ?d @ drop pos (take i ?d) @ drop (Suc i) ?d)"
      using Suc.prems False by (intro Suc.IH) auto
    also have "take (Suc pos) ?d @ drop pos (take i ?d) @ drop (Suc i) ?d =
        take (Suc pos) d @ drop pos (take (Suc i) d) @ drop (Suc (Suc i)) d"
      using Suc.prems False v
      by (simp add: take_Suc_conv_app_nth drop_update_swap Cons_nth_drop_Suc [symmetric])
    finally show ?thesis
      using Suc.prems False v by (simp add: aget_def aset_def)
  qed
qed simp

lemma shift_down_ok:
  "Suc (pos + n) \<le> length d \<Longrightarrow> (\<And>j. j \<le> pos + n \<Longrightarrow> d ! j \<noteq> None) \<Longrightarrow>
   shift_down d [pos..<pos + n] =
     Some (take pos d @ take n (drop (Suc pos) d) @ drop (pos + n) d)"
proof (induction n arbitrary: d pos)
  case (Suc n)
  obtain v where v: "d ! Suc pos = Some v" using Suc.prems(2) [of "Suc pos"] by auto
  let ?d = "d[pos := Some v]"
  have "shift_down ?d [Suc pos..<Suc pos + n] =
      Some (take (Suc pos) ?d @ take n (drop (Suc (Suc pos)) ?d) @ drop (Suc pos + n) ?d)"
    using Suc.prems by (intro Suc.IH) (auto simp: nth_list_update)
  also have "take (Suc pos) ?d @ take n (drop (Suc (Suc pos)) ?d) @ drop (Suc pos + n) ?d =
      take pos d @ take (Suc n) (drop (Suc pos) d) @ drop (pos + Suc n) d"
    using Suc.prems(1) v by (simp add: take_Suc_conv_app_nth Cons_nth_drop_Suc [symmetric])
  finally have step: "shift_down ?d [Suc pos..<Suc pos + n] = Some (take pos d @
      take (Suc n) (drop (Suc pos) d) @ drop (pos + Suc n) d)" .
  have "[pos..<pos + Suc n] = pos # [Suc pos..<Suc pos + n]"
    using upt_conv_Cons [of pos "pos + Suc n"] by (simp del: upt_Suc)
  then show ?case
    using Suc.prems(1) v step by (simp add: aget_def aset_def del: upt_Suc)
qed simp

lemma length_contents [simp]: "array_ok a \<Longrightarrow> length (contents a) = len a"
  by (simp add: contents_def array_ok_def)

lemma nth_contents: "array_ok a \<Longrightarrow> i < len a \<Longrightarrow> slots a ! i = Some (contents a ! i)"
  by (simp add: contents_def array_ok_def)

lemma aget_contents: "array_ok a \<Longrightarrow> i < len a \<Longrightarrow> aget (slots a) i = Some (contents a ! i)"
  using nth_contents [of a i] by (simp add: aget_def array_ok_def)

text \<open>A state whose live slots hold exactly \<open>xs\<close>.\<close>

lemma array_okI:
  assumes "slots a = map Some xs @ rest" and "len a = length xs"
    and "case size_grow a of Some f \<Rightarrow> (\<forall>n. n < f n) | None \<Rightarrow> True"
  shows "array_ok a \<and> contents a = xs"
  using assms by (auto simp: array_ok_def contents_def nth_append comp_def)

lemma array_okE:
  assumes "array_ok a"
  shows "\<exists>rest. slots a = map Some (contents a) @ rest"
proof -
  have "take (len a) (slots a) = map Some (contents a)"
    using assms nth_contents [OF assms]
    by (intro nth_equalityI) (auto simp: array_ok_def)
  then show ?thesis by (metis append_take_drop_id)
qed

lemma array_insert_ok:
  assumes ok: "array_ok a" and pos: "pos \<le> len a"
  shows "\<exists>a'. fcitx_ptr_array_insert a v pos = Some a' \<and> array_ok a' \<and>
    contents a' = take pos (contents a) @ v # drop pos (contents a) \<and>
    array_log a' = array_log a \<and> has_free a' = has_free a \<and> has_notify2 a' = has_notify2 a \<and>
    size_grow a' = size_grow a"
proof -
  let ?c = "contents a"
  obtain xs where grow: "(if length (slots a) < len a + 1 then fcitx_ptr_array_grow a (len a + 1)
      else Some a) = Some (a\<lparr>slots := slots a @ xs\<rparr>)" "len a + 1 \<le> length (slots a @ xs)"
  proof (cases "length (slots a) < len a + 1")
    case True
    with grow_ok [OF ok, of "len a + 1"] that show ?thesis by auto
  next
    case False
    with that [of "[]"] show ?thesis by simp
  qed
  obtain rest where r: "slots a @ xs = map Some ?c @ rest"
    using array_okE [OF ok] by fastforce
  have l: "length ?c = len a" using ok by simp
  then obtain z rest' where rest: "rest = z # rest'"
    using grow(2) unfolding r by (cases rest) auto
  have "shift_up (slots a @ xs) pos (len a) = Some (take (Suc pos) (slots a @ xs) @
      drop pos (take (len a) (slots a @ xs)) @ drop (Suc (len a)) (slots a @ xs))"
    unfolding r rest using pos l by (intro shift_up_ok) (auto simp: nth_append)
  also have "take (Suc pos) (slots a @ xs) @ drop pos (take (len a) (slots a @ xs)) @
      drop (Suc (len a)) (slots a @ xs) =
      map Some (take pos ?c) @ hd (map Some (drop pos ?c) @ [z]) # map Some (drop pos ?c) @ rest'"
    unfolding r rest using pos l
    by (cases "pos = len a")
      (auto simp: take_map drop_map take_Suc_conv_app_nth hd_drop_conv_nth hd_append hd_map)
  finally have "shift_up (slots a @ xs) pos (len a) =
      Some (map Some (take pos ?c) @ hd (map Some (drop pos ?c) @ [z]) # map Some (drop pos ?c) @ rest')" .
  moreover have "aset (map Some (take pos ?c) @ hd (map Some (drop pos ?c) @ [z]) #
      map Some (drop pos ?c) @ rest') pos v = Some (map Some (take pos ?c @ v # drop pos ?c) @ rest')"
    using pos l by (simp add: aset_def list_update_append min_def)
  ultimately have "fcitx_ptr_array_insert a v pos =
      Some (a\<lparr>slots := map Some (take pos ?c @ v # drop pos ?c) @ rest', len := len a + 1\<rparr>)"
    unfolding fcitx_ptr_array_insert_def grow(1) using pos by (simp del: map_append list.map)
  moreover have "array_ok (a\<lparr>slots := map Some (take pos ?c @ v # drop pos ?c) @ rest', len := len a + 1\<rparr>) \<and>
      contents (a\<lparr>slots := map Some (take pos ?c @ v # drop pos ?c) @ rest', len := len a + 1\<rparr>) =
        take pos ?c @ v # drop pos ?c"
    using l pos ok by (intro array_okI [where rest = rest']) (auto simp: array_ok_def)
  ultimately show ?thesis by simp
qed

lemma array_remove_ok:
  assumes ok: "array_ok a" and pos: "pos < len a"
  shows "\<exists>a'. fcitx_ptr_array_remove a pos st =
      Some (if st \<noteq> 0 then Some (contents a ! pos) else None, a') \<and> array_ok a' \<and>
    contents a' = take pos (contents a) @ drop (Suc pos) (contents a) \<and>
    array_log a' = array_log a @ (if st \<noteq> 0 then [] else destroy_events a (contents a ! pos)) \<and>
    has_free a' = has_free a \<and> has_notify2 a' = has_notify2 a \<and> size_grow a' = size_grow a"
proof -
  let ?c = "contents a"
  obtain rest where r: "slots a = map Some ?c @ rest" using array_okE [OF ok] by blast
  have l: "length ?c = len a" using ok by simp
  let ?n = "len a - 1 - pos"
  have n: "pos + ?n = len a - 1" "Suc (pos + ?n) = len a" using pos by auto
  have "shift_down (slots a) [pos..<pos + ?n] =
      Some (take pos (slots a) @ take ?n (drop (Suc pos) (slots a)) @ drop (pos + ?n) (slots a))"
    using pos ok nth_contents [OF ok] n by (intro shift_down_ok) (auto simp: array_ok_def)
  also have "take pos (slots a) @ take ?n (drop (Suc pos) (slots a)) @ drop (pos + ?n) (slots a) =
      map Some (take pos ?c @ drop (Suc pos) ?c) @ drop (len a - 1) (slots a)"
    using pos l n unfolding r by (simp add: take_map drop_map)
  finally have sd: "shift_down (slots a) [pos..<len a - 1] =
      Some (map Some (take pos ?c @ drop (Suc pos) ?c) @ drop (len a - 1) (slots a))"
    using n by simp
  let ?a = "a\<lparr>slots := map Some (take pos ?c @ drop (Suc pos) ?c) @ drop (len a - 1) (slots a),
      len := len a - 1\<rparr>"
  have "array_ok ?a \<and> contents ?a = take pos ?c @ drop (Suc pos) ?c"
    using l pos ok by (intro array_okI [where rest = "drop (len a - 1) (slots a)"]) (auto simp: array_ok_def)
  moreover have "array_ok (destroy v ?a) = array_ok ?a" "contents (destroy v ?a) = contents ?a" for v
    by (simp_all add: destroy_def array_ok_def contents_def)
  ultimately show ?thesis
    using pos sd aget_contents [OF ok pos]
    by (auto simp: fcitx_ptr_array_remove_def destroy_def destroy_events_def)
qed

lemma remove_fast_ok:
  assumes ok: "array_ok a" and pos: "pos < len a"
    and null: "st = contents a ! pos \<longrightarrow> st \<noteq> 0"
  shows "\<exists>a'. fcitx_ptr_array_remove_fast a pos st =
      Some (if st = contents a ! pos then Some (contents a ! pos) else None, a') \<and> array_ok a' \<and>
    contents a' = butlast ((contents a)[pos := last (contents a)]) \<and>
    array_log a' = array_log a @
      (if st = contents a ! pos then [] else destroy_events a (contents a ! pos))"
proof -
  let ?c = "contents a"
  obtain rest where r: "slots a = map Some ?c @ rest" using array_okE [OF ok] by blast
  have l: "length ?c = len a" "?c \<noteq> []" using ok pos by (auto simp flip: length_greater_0_conv)
  have lst: "aget (slots a) (len a - 1) = Some (last ?c)"
    using aget_contents [OF ok, of "len a - 1"] pos l by (simp add: last_conv_nth)
  define xs where "xs = butlast (?c[pos := last ?c])"
  have set: "aset (slots a) pos (last ?c) = Some (map Some xs @ drop (len a - 1) ((slots a)[pos := Some (last ?c)]))"
  proof -
    have "take (len a - 1) ((slots a)[pos := Some (last ?c)]) = map Some xs"
      unfolding xs_def r using pos l
      by (simp add: list_update_append butlast_conv_take take_map flip: map_update)
    then show ?thesis
      using pos ok unfolding aset_def by (metis append_take_drop_id array_ok_def less_le_trans)
  qed
  let ?a = "a\<lparr>slots := map Some xs @ drop (len a - 1) ((slots a)[pos := Some (last ?c)]), len := len a - 1\<rparr>"
  have "array_ok ?a \<and> contents ?a = xs"
    using l pos ok by (intro array_okI) (auto simp: array_ok_def xs_def)
  moreover have "array_ok (destroy v ?a) = array_ok ?a" "contents (destroy v ?a) = contents ?a" for v
    by (simp_all add: destroy_def array_ok_def contents_def)
  ultimately show ?thesis
    using pos set lst aget_contents [OF ok pos] null
    by (auto simp: fcitx_ptr_array_remove_fast_def destroy_def destroy_events_def xs_def)
qed

lemma pop_loop_ok:
  "array_ok a \<Longrightarrow> n \<le> len a \<Longrightarrow> \<exists>a'. pop_loop n a = Some a' \<and> array_ok a' \<and>
     contents a' = take (len a - n) (contents a) \<and>
     array_log a' = array_log a @ concat (map (destroy_events a) (rev (drop (len a - n) (contents a)))) \<and>
     has_free a' = has_free a \<and> has_notify2 a' = has_notify2 a"
proof (induction n arbitrary: a)
  case (Suc n)
  then have pos: "len a - 1 < len a" by simp
  obtain a1 where a1: "fcitx_ptr_array_remove a (len a - 1) 0 = Some (None, a1)" "array_ok a1"
    "contents a1 = take (len a - 1) (contents a) @ drop (Suc (len a - 1)) (contents a)"
    "array_log a1 = array_log a @ destroy_events a (contents a ! (len a - 1))"
    "has_free a1 = has_free a" "has_notify2 a1 = has_notify2 a"
    using array_remove_ok [OF Suc.prems(1) pos, of 0] by auto
  have l: "length (contents a) = len a" using Suc.prems by simp
  have c1: "contents a1 = take (len a - 1) (contents a)" using a1(3) l by simp
  then have l1: "len a1 = len a - 1" using a1(2) l length_contents [OF a1(2)] by simp
  have nle: "n \<le> len a1" using Suc.prems(2) l1 by simp
  obtain a' where a': "pop_loop n a1 = Some a'" "array_ok a'"
    "contents a' = take (len a1 - n) (contents a1)"
    "array_log a' = array_log a1 @ concat (map (destroy_events a1) (rev (drop (len a1 - n) (contents a1))))"
    "has_free a' = has_free a" "has_notify2 a' = has_notify2 a"
    using Suc.IH [OF a1(2) nle] unfolding a1(5,6) by blast
  have ev: "destroy_events a1 = destroy_events a" using a1(5,6) by (simp add: destroy_events_def fun_eq_iff)
  have "drop (len a - Suc n) (contents a) = drop (len a1 - n) (contents a1) @ [contents a ! (len a - 1)]"
  proof -
    have "contents a = contents a1 @ [contents a ! (len a - 1)]"
      unfolding c1 using l Suc.prems(2)
      by (metis Suc_diff_1 less_eq_Suc_le pos take_Suc_conv_app_nth take_all_iff order.refl zero_less_Suc
          order_less_le_trans)
    moreover have "len a - Suc n \<le> length (contents a1)" using l1 length_contents [OF a1(2)] by simp
    ultimately show ?thesis using l1 by (metis diff_Suc_eq_diff_pred drop_append diff_is_0_eq drop_0)
  qed
  with Suc.prems a1 a' l1 c1 ev show ?case
    by (auto simp: fcitx_ptr_array_pop_def)
qed auto

lemma append_loop_ok:
  "array_ok a \<Longrightarrow> \<exists>a'. append_loop n cb a = Some a' \<and> array_ok a' \<and>
     contents a' = contents a @ map (\<lambda>i. case cb of Some f \<Rightarrow> f i | None \<Rightarrow> 0) [len a..<len a + n] \<and>
     array_log a' = array_log a"
proof (induction n arbitrary: a)
  case (Suc n)
  let ?v = "\<lambda>i. case cb of Some f \<Rightarrow> f i | None \<Rightarrow> 0"
  obtain a1 where a1: "fcitx_ptr_array_insert a (?v (len a)) (len a) = Some a1" "array_ok a1"
    "contents a1 = contents a @ [?v (len a)]" "array_log a1 = array_log a"
    using array_insert_ok [OF Suc.prems order.refl, of "?v (len a)"] Suc.prems by auto
  then have "len a1 = Suc (len a)" using length_contents [OF a1(2)] Suc.prems by simp
  moreover have "[len a..<len a + Suc n] = len a # [Suc (len a)..<Suc (len a) + n]"
    using upt_conv_Cons [of "len a" "len a + Suc n"] by (simp del: upt_Suc)
  ultimately show ?case
    using Suc.IH [OF a1(2)] a1 by (auto simp: fcitx_ptr_array_append_def simp del: upt_Suc)
qed simp

lemma array_grow_contents:
  "array_ok a \<Longrightarrow> \<exists>a'. fcitx_ptr_array_grow a n = Some a' \<and> array_ok a' \<and> contents a' = contents a \<and>
     len a' = len a \<and> array_log a' = array_log a"
  using grow_ok [of a n] by (auto simp: array_ok_def contents_def nth_append)

section \<open>Properties\<close>

text \<open>On a well-formed array whose growth function grows, inserting at a position up to the length
  and removing below it act as on lists, whatever reallocation happens; a removed element is handed
  out or destroyed, and positions past the length change nothing.\<close>

theorem ptr_array_insert_remove:
  assumes "array_ok a" and "i \<le> len a" and "j < len a" and "len a < k"
  shows "(\<exists>a'. fcitx_ptr_array_insert a v i = Some a' \<and> array_ok a' \<and>
      contents a' = take i (contents a) @ v # drop i (contents a) \<and> array_log a' = array_log a) \<and>
    (\<exists>a'. fcitx_ptr_array_remove a j st =
        Some (if st \<noteq> 0 then Some (contents a ! j) else None, a') \<and> array_ok a' \<and>
      contents a' = take j (contents a) @ drop (Suc j) (contents a) \<and>
      array_log a' = array_log a @ (if st \<noteq> 0 then [] else destroy_events a (contents a ! j))) \<and>
    fcitx_ptr_array_insert a v k = Some a \<and> fcitx_ptr_array_remove a k st = Some (None, a)"
proof -
  have "fcitx_ptr_array_insert a v k = Some a \<and> fcitx_ptr_array_remove a k st = Some (None, a)"
    using assms(4) by (simp add: fcitx_ptr_array_insert_def fcitx_ptr_array_remove_def)
  then show ?thesis
    using array_insert_ok [OF assms(1,2), of v] array_remove_ok [OF assms(1,3), of st] by blast
qed

definition array2 :: ptr_array where
  "array2 = \<lparr>slots = [Some 11, Some 12], len = 2, size_grow = None, has_free = True,
     has_notify2 = False, array_log = []\<rparr>"

lemma array2_ok: "array_ok array2"
  by (simp add: array_ok_def array2_def less_2_cases_iff)

theorem ptr_array_insert_remove_witness:
  "(\<exists>a'. fcitx_ptr_array_insert array2 13 1 = Some a' \<and> array_ok a' \<and>
      contents a' = take 1 (contents array2) @ 13 # drop 1 (contents array2) \<and>
      array_log a' = array_log array2) \<and>
    (\<exists>a'. fcitx_ptr_array_remove array2 0 5 =
        Some (if 5 \<noteq> (0 :: nat) then Some (contents array2 ! 0) else None, a') \<and> array_ok a' \<and>
      contents a' = take 0 (contents array2) @ drop (Suc 0) (contents array2) \<and>
      array_log a' = array_log array2 @
        (if 5 \<noteq> (0 :: nat) then [] else destroy_events array2 (contents array2 ! 0))) \<and>
    fcitx_ptr_array_insert array2 13 3 = Some array2 \<and>
    fcitx_ptr_array_remove array2 3 5 = Some (None, array2)"
  by (rule ptr_array_insert_remove [OF array2_ok]) (simp_all add: array2_def)

text \<open>Resizing keeps a prefix of the elements, destroys the dropped ones from the last to the
  first, and appends what the callback gives for each new index, or NULL.\<close>

theorem ptr_array_resize:
  assumes "array_ok a"
  shows "\<exists>a'. fcitx_ptr_array_resize a n cb = Some a' \<and> array_ok a' \<and>
    contents a' = take n (contents a) @
      map (\<lambda>i. case cb of Some f \<Rightarrow> f i | None \<Rightarrow> 0) [len a..<n] \<and>
    array_log a' = array_log a @ concat (map (destroy_events a) (rev (drop n (contents a))))"
proof -
  obtain a1 where a1: "pop_loop (len a - n) a = Some a1" "array_ok a1"
    "contents a1 = take (len a - (len a - n)) (contents a)"
    "array_log a1 = array_log a @
       concat (map (destroy_events a) (rev (drop (len a - (len a - n)) (contents a))))"
    using pop_loop_ok [OF assms, of "len a - n"] by auto
  have cut: "take (len a - (len a - n)) (contents a) = take n (contents a)"
    "drop (len a - (len a - n)) (contents a) = drop n (contents a)"
    using assms by (cases "len a \<le> n"; simp)+
  obtain a2 where a2: "fcitx_ptr_array_grow a1 n = Some a2" "array_ok a2" "contents a2 = contents a1"
    "len a2 = len a1" "array_log a2 = array_log a1"
    using array_grow_contents [OF a1(2)] by blast
  have l: "len a2 = min (len a) n"
    using a2(3,4) a1(3) cut length_contents [OF a1(2)] assms by simp
  have r: "[len a2..<len a2 + (n - len a2)] = [len a..<n]"
    by (cases "len a \<le> n") (auto simp: l min_def)
  obtain a3 where a3: "append_loop (n - len a2) cb a2 = Some a3" "array_ok a3"
    "contents a3 = contents a2 @ map (\<lambda>i. case cb of Some f \<Rightarrow> f i | None \<Rightarrow> 0) [len a..<n]"
    "array_log a3 = array_log a2"
    using append_loop_ok [OF a2(2), of "n - len a2" cb] unfolding r by blast
  with a1 a2 cut show ?thesis by (auto simp: fcitx_ptr_array_resize_def)
qed

theorem ptr_array_resize_witness:
  "\<exists>a'. fcitx_ptr_array_resize array2 3 (Some (\<lambda>i. i)) = Some a' \<and> array_ok a' \<and>
    contents a' = take 3 (contents array2) @
      map (\<lambda>i. case Some (\<lambda>i. i) of Some f \<Rightarrow> f i | None \<Rightarrow> 0) [len array2..<3] \<and>
    array_log a' = array_log array2 @
      concat (map (destroy_events array2) (rev (drop 3 (contents array2))))"
  by (rule ptr_array_resize [OF array2_ok])

text \<open>The fast removal moves the last element into the gap.  It compares the address it should
  store through with the element itself: given any other address it stores nothing and destroys the
  element the caller asked to keep.\<close>

theorem ptr_array_remove_fast:
  assumes "array_ok a" and "i < len a" and "st \<noteq> contents a ! i"
  shows "\<exists>a'. fcitx_ptr_array_remove_fast a i st = Some (None, a') \<and> array_ok a' \<and>
    contents a' = butlast ((contents a)[i := last (contents a)]) \<and>
    array_log a' = array_log a @ destroy_events a (contents a ! i)"
  using remove_fast_ok [OF assms(1,2), of st] assms(3) by auto

theorem ptr_array_remove_fast_witness:
  "\<exists>a'. fcitx_ptr_array_remove_fast array2 0 5 = Some (None, a') \<and> array_ok a' \<and>
    contents a' = butlast ((contents array2)[0 := last (contents array2)]) \<and>
    array_log a' = array_log array2 @ destroy_events array2 (contents array2 ! 0)"
  by (rule ptr_array_remove_fast [OF array2_ok]) (simp_all add: array2_def contents_def)

end
