(* ===== verification/BitSet.thy ===== *)
theory BitSet
  imports Bits
begin

text \<open>
  The bit set of \<open>src/lib/fcitx-utils/bitset.h\<close>: a bit count and the bytes, eight bits to each.
  Access outside the bytes is \<open>None\<close>.
\<close>

record bitset =
  nbits :: nat
  bytes :: "byte list"

definition fcitx_bitset_datasize :: "nat \<Rightarrow> nat" where
  "fcitx_bitset_datasize bits = (bits + 7) div 8"

definition fcitx_bitset_new :: "nat \<Rightarrow> bitset" where
  "fcitx_bitset_new bits = \<lparr>nbits = bits, bytes = replicate (fcitx_bitset_datasize bits) 0\<rparr>"

definition fcitx_bitset_copy :: "bitset \<Rightarrow> bitset \<Rightarrow> bitset" where
  "fcitx_bitset_copy dst src =
     (if nbits dst \<noteq> nbits src then dst
      else dst\<lparr>bytes := take (fcitx_bitset_datasize (nbits dst)) (bytes src) @
                       drop (fcitx_bitset_datasize (nbits dst)) (bytes dst)\<rparr>)"

definition fcitx_bitset_clear :: "bitset \<Rightarrow> bitset" where
  "fcitx_bitset_clear b =
     b\<lparr>bytes := replicate (fcitx_bitset_datasize (nbits b)) 0 @
               drop (fcitx_bitset_datasize (nbits b)) (bytes b)\<rparr>"

definition fcitx_bitset_isset :: "bitset \<Rightarrow> nat \<Rightarrow> byte option" where
  "fcitx_bitset_isset b offset =
     (if offset div 8 < length (bytes b)
      then Some (bytes b ! (offset div 8) AND push_bit (offset mod 8) 1) else None)"

definition fcitx_bitset_set :: "bitset \<Rightarrow> nat \<Rightarrow> bitset option" where
  "fcitx_bitset_set b offset =
     (if offset div 8 < length (bytes b)
      then Some (b\<lparr>bytes := (bytes b)[offset div 8 :=
                     bytes b ! (offset div 8) OR push_bit (offset mod 8) 1]\<rparr>) else None)"

definition fcitx_bitset_unset :: "bitset \<Rightarrow> nat \<Rightarrow> bitset option" where
  "fcitx_bitset_unset b offset =
     (if offset div 8 < length (bytes b)
      then Some (b\<lparr>bytes := (bytes b)[offset div 8 :=
                     bytes b ! (offset div 8) AND NOT (push_bit (offset mod 8) 1)]\<rparr>) else None)"

text \<open>The set of bits a bit set represents.\<close>

definition bits_of :: "bitset \<Rightarrow> nat set" where
  "bits_of b = {i. i < nbits b \<and> bit (bytes b ! (i div 8)) (i mod 8)}"

definition bitset_ok :: "bitset \<Rightarrow> bool" where
  "bitset_ok b \<longleftrightarrow> length (bytes b) = fcitx_bitset_datasize (nbits b)"

lemma in_range: "bitset_ok b \<Longrightarrow> i < nbits b \<Longrightarrow> i div 8 < length (bytes b)"
  by (auto simp: bitset_ok_def fcitx_bitset_datasize_def)

lemma single_bit: "k < 8 \<Longrightarrow> bit (2 ^ k :: byte) n \<longleftrightarrow> n = k"
  by (auto simp: bit_exp_iff)

lemma test_bit: "k < 8 \<Longrightarrow> (w :: byte) AND 2 ^ k \<noteq> 0 \<longleftrightarrow> bit w k"
  unfolding bit_eq_iff [of "w AND 2 ^ k" 0] bit_and_iff
  by (auto simp: single_bit)

lemma same_cell: "i div 8 = j div 8 \<Longrightarrow> i mod 8 = j mod (8 :: nat) \<longleftrightarrow> i = j"
  by (metis div_mult_mod_eq)

lemma bitset_new_ok: "bitset_ok (fcitx_bitset_new n) \<and> bits_of (fcitx_bitset_new n) = {}"
  by (auto simp: bitset_ok_def fcitx_bitset_new_def bits_of_def fcitx_bitset_datasize_def)

lemma set_ok:
  assumes "bitset_ok b" and "i < nbits b"
  shows "\<exists>b'. fcitx_bitset_set b i = Some b' \<and> bitset_ok b' \<and> nbits b' = nbits b \<and>
    bits_of b' = insert i (bits_of b)"
  using assms in_range [OF assms]
  by (auto simp: fcitx_bitset_set_def bitset_ok_def bits_of_def nth_list_update bit_or_iff single_bit
      same_cell in_range split: if_splits)

lemma unset_ok:
  assumes "bitset_ok b" and "i < nbits b"
  shows "\<exists>b'. fcitx_bitset_unset b i = Some b' \<and> bitset_ok b' \<and> nbits b' = nbits b \<and>
    bits_of b' = bits_of b - {i}"
  using assms in_range [OF assms]
  by (auto simp: fcitx_bitset_unset_def bitset_ok_def bits_of_def nth_list_update bit_and_iff
      bit_not_iff single_bit same_cell split: if_splits)

section \<open>Properties\<close>

text \<open>A bit set of \<open>n\<close> bits is a subset of the numbers below \<open>n\<close>: every offset below \<open>n\<close> is inside
  its bytes, \<open>isset\<close> tests membership, \<open>set\<close> and \<open>unset\<close> insert and delete that offset only, \<open>clear\<close>
  empties it.\<close>

theorem bitset_is_a_set:
  assumes "bitset_ok b" and "i < nbits b"
  shows "(\<exists>w. fcitx_bitset_isset b i = Some w \<and> (w \<noteq> 0) = (i \<in> bits_of b)) \<and>
    (\<exists>b'. fcitx_bitset_set b i = Some b' \<and> bitset_ok b' \<and> bits_of b' = insert i (bits_of b)) \<and>
    (\<exists>b'. fcitx_bitset_unset b i = Some b' \<and> bitset_ok b' \<and> bits_of b' = bits_of b - {i}) \<and>
    bitset_ok (fcitx_bitset_clear b) \<and> bits_of (fcitx_bitset_clear b) = {}"
proof -
  have "bitset_ok (fcitx_bitset_clear b)" "bits_of (fcitx_bitset_clear b) = {}"
    using assms(1) in_range by (auto simp: bitset_ok_def fcitx_bitset_clear_def bits_of_def
        fcitx_bitset_datasize_def)
  moreover have "\<exists>w. fcitx_bitset_isset b i = Some w \<and> (w \<noteq> 0) = (i \<in> bits_of b)"
    using assms(2) in_range [OF assms] test_bit [of "i mod 8"]
    by (simp add: fcitx_bitset_isset_def bits_of_def)
  ultimately show ?thesis
    using set_ok [OF assms] unset_ok [OF assms] by blast
qed

theorem bitset_is_a_set_witness:
  "(\<exists>w. fcitx_bitset_isset (fcitx_bitset_new 9) 8 = Some w \<and>
      (w \<noteq> 0) = (8 \<in> bits_of (fcitx_bitset_new 9))) \<and>
    (\<exists>b'. fcitx_bitset_set (fcitx_bitset_new 9) 8 = Some b' \<and> bitset_ok b' \<and>
      bits_of b' = insert 8 (bits_of (fcitx_bitset_new 9))) \<and>
    (\<exists>b'. fcitx_bitset_unset (fcitx_bitset_new 9) 8 = Some b' \<and> bitset_ok b' \<and>
      bits_of b' = bits_of (fcitx_bitset_new 9) - {8}) \<and>
    bitset_ok (fcitx_bitset_clear (fcitx_bitset_new 9)) \<and>
    bits_of (fcitx_bitset_clear (fcitx_bitset_new 9)) = {}"
  by (rule bitset_is_a_set) (simp_all add: bitset_new_ok, simp add: fcitx_bitset_new_def)

end
