(* ===== verification/IniFile.thy ===== *)
theory IniFile imports Configuration begin

text \<open>
  Reading and printing configuration files, \<open>src/lib/fcitx-config/iniparser.c\<close>.  A stream is the bytes
  that are left of it, or that were written to it.  \<open>None\<close> is the failure of a called function.
\<close>

section \<open>Parsing\<close>

text \<open>The states and the result of the loop: the text so far and whether the next byte is escaped; a
  backslash before the terminator fails as any other byte that has no meaning does.\<close>

fun unescape_string :: "cstr \<Rightarrow> bool \<Rightarrow> bool \<Rightarrow> cstr option" where
  "unescape_string [] unescapeQuote escape = (if escape then None else Some [])"
| "unescape_string (c # s) unescapeQuote escape =
     (if \<not> escape then
        if c = 92 then unescape_string s unescapeQuote True
        else map_option ((#) c) (unescape_string s unescapeQuote False)
      else if c = 92 \<or> c = 110 \<or> (c = 34 \<and> unescapeQuote)
      then map_option ((#) (if c = 110 then 10 else c)) (unescape_string s unescapeQuote False)
      else None)"

text \<open>The first line of what is left, with its newline, and the rest.\<close>

definition getline :: "cstr \<Rightarrow> cstr \<times> cstr" where
  "getline s =
     (let line = takeWhile (\<lambda>c. c \<noteq> 10) s; rest = dropWhile (\<lambda>c. c \<noteq> 10) s
      in case rest of [] \<Rightarrow> (line, []) | c # rest \<Rightarrow> (line @ [c], rest))"

definition ini_value :: "cstr \<Rightarrow> cstr option" where
  "ini_value value =
     (if length value \<ge> 2 \<and> hd value = 34 \<and> last value = 34
      then unescape_string (butlast (tl value)) True False
      else unescape_string value False False)"

definition parse_line :: "cstr \<Rightarrow> cstr option \<times> config \<Rightarrow> cstr option \<times> config" where
  "parse_line line = (\<lambda>(currentGroup, c).
     let (buf, start) = fcitx_utils_inplace_trim (strend line); trimmedLine = drop start buf in
     if trimmedLine \<noteq> [] \<and> hd trimmedLine = 35 then (currentGroup, c)
     else if trimmedLine \<noteq> [] \<and> hd trimmedLine = 91 \<and> last trimmedLine = 93
     then (fcitx_utils_string_swap currentGroup (Some (tl (butlast trimmedLine))), c)
     else if 61 \<in> set trimmedLine
     then
       let name = takeWhile (\<lambda>c. c \<noteq> 61) trimmedLine;
           value = tl (dropWhile (\<lambda>c. c \<noteq> 61) trimmedLine)
       in case ini_value value of
            None \<Rightarrow> (currentGroup, c)
          | Some v \<Rightarrow>
              (case currentGroup of
                 Some g \<Rightarrow> (currentGroup, fcitx_configuration_set_value_by_path c (g @ 47 # name) (Some v))
               | None \<Rightarrow> (currentGroup, fcitx_configuration_set_value_by_path c name (Some v)))
     else (currentGroup, c))"

function parse_lines :: "cstr \<Rightarrow> cstr option \<times> config \<Rightarrow> cstr option \<times> config" where
  "parse_lines s st =
     (if s = [] then st else let (line, rest) = getline s in parse_lines rest (parse_line line st))"
  by pat_completeness auto
termination
proof (relation "measure (length \<circ> fst)")
  fix s :: cstr and st :: "cstr option \<times> config" and x line rest
  assume "s \<noteq> []" "x = getline s" "(line, rest) = x"
  then show "((rest, parse_line line st), s, st) \<in> measure (length \<circ> fst)"
    using length_dropWhile_le [of "\<lambda>c. c \<noteq> 10" s]
    by (auto simp: getline_def Let_def split: list.splits)
qed simp

declare parse_lines.simps [simp del]

definition fcitx_ini_parse :: "cstr \<Rightarrow> config option \<Rightarrow> config" where
  "fcitx_ini_parse fp c =
     snd (parse_lines fp (None, case c of None \<Rightarrow> fcitx_configuration_new None | Some c \<Rightarrow> c))"

definition fcitx_ini_parse_string :: "cstr \<Rightarrow> nat \<Rightarrow> config option \<Rightarrow> config" where
  "fcitx_ini_parse_string str len c = fcitx_ini_parse (take len str) c"

section \<open>Printing\<close>

definition ini_has_sub_value_callback :: "config \<Rightarrow> cstr \<Rightarrow> bool \<Rightarrow> bool option" where
  "ini_has_sub_value_callback c path hasSubValue =
     Some (if fcitx_configuration_get_value c \<noteq> None then True else hasSubValue)"

definition replaced :: "cstr \<Rightarrow> cstr \<Rightarrow> cstr \<Rightarrow> cstr option" where
  "replaced value before after = do {
     temp \<leftarrow> fcitx_utils_string_replace value before after True;
     Some (case temp of Some t \<Rightarrow> t | None \<Rightarrow> value) }"

definition needs_quote :: "cstr \<Rightarrow> bool" where
  "needs_quote value \<longleftrightarrow> list_ex (\<lambda>c. c \<in> set [12, 13, 9, 11, 32]) value"

definition print_value :: "cstr \<Rightarrow> cstr option" where
  "print_value value = do {
     value \<leftarrow> replaced value [92] [92, 92];
     value \<leftarrow> replaced value [10] [92, 110];
     if needs_quote value
     then do { value \<leftarrow> replaced value [34] [92, 34]; Some (34 # value @ [34]) }
     else Some value }"

text \<open>A name must be there to be printed.\<close>

definition ini_foreach_option_callback :: "config \<Rightarrow> cstr \<Rightarrow> cstr \<Rightarrow> cstr option" where
  "ini_foreach_option_callback c path fp =
     (case fcitx_configuration_get_value c of
        None \<Rightarrow> Some fp
      | Some value \<Rightarrow> do {
          let comment = (case fcitx_configuration_get_comment c of
              Some m \<Rightarrow> if 10 \<in> set m then [] else [35, 32] @ m @ [10] | None \<Rightarrow> []);
          name \<leftarrow> fcitx_configuration_get_name c;
          value \<leftarrow> print_value value;
          Some (fp @ comment @ name @ 61 # value @ [10]) })"

text \<open>The congruence of the traversal for the recursion through its callback.\<close>

lemma foreach_cong [fundef_cong]:
  assumes "path = path'" "b = b'" "xs = xs'" "s = s'"
    and "\<And>k c p s. (k, c) \<in> set xs' \<Longrightarrow> f c p s = g c p s"
  shows "configuration_subitems_foreach path False f b xs s = configuration_subitems_foreach path' False g b' xs' s'"
  unfolding assms(1-4) using assms(5)
proof (induction xs' arbitrary: b' s')
  case (Cons x xs)
  obtain k c where x: "x = (k, c)" by fastforce
  have "f c p t = g c p t" for p t using Cons.prems [of k c] by (simp add: x)
  moreover have "configuration_subitems_foreach path' False f b xs t = configuration_subitems_foreach path' False g b xs t" for b t
    by (rule Cons.IH) (use Cons.prems in auto)
  ultimately show ?case by (simp add: x Let_def)
qed simp

lemma kid_size: "(k, d) \<in> set (kids c) \<Longrightarrow> size d < size c"
  using size_list_estimation' [of "(k, d)" "kids c" "size d" "size_prod (\<lambda>_. 0) size"] kids_size [of c]
  by simp

function ini_foreach_callback :: "config \<Rightarrow> cstr \<Rightarrow> cstr \<Rightarrow> cstr option" where
  "ini_foreach_callback c path fp = do {
     hasSubValue \<leftarrow> fcitx_configuration_foreach c [] False None ini_has_sub_value_callback False;
     fp \<leftarrow> (if hasSubValue
            then fcitx_configuration_foreach c [] False None ini_foreach_option_callback
              (if path \<noteq> [] then fp @ [91] @ path @ [93, 10] else fp)
            else Some fp);
     configuration_subitems_foreach path False ini_foreach_callback 0 (kids c) fp }"
  by pat_completeness auto
termination
  by (relation "measure (\<lambda>(c, p, fp). size c)") (auto simp: kid_size)

declare ini_foreach_callback.simps [simp del]

definition fcitx_ini_print :: "config \<Rightarrow> cstr \<Rightarrow> cstr option" where
  "fcitx_ini_print c fp = ini_foreach_callback c [] fp"

definition fcitx_ini_to_string :: "config \<Rightarrow> (cstr \<times> nat) option" where
  "fcitx_ini_to_string c = do {
     buf \<leftarrow> fcitx_ini_print c [];
     let buf = buf @ [0];
     Some (buf, length buf) }"
section \<open>Values\<close>

definition replace_byte :: "byte \<Rightarrow> cstr \<Rightarrow> cstr \<Rightarrow> cstr" where
  "replace_byte x w v = concat (map (\<lambda>y. if y = x then w else [y]) v)"

lemma replace_byte_simps [simp]:
  "replace_byte x w [] = []"
  "replace_byte x w (y # v) = (if y = x then w else [y]) @ replace_byte x w v"
  "replace_byte x w (u @ v) = replace_byte x w u @ replace_byte x w v"
  "x \<notin> set v \<Longrightarrow> replace_byte x w v = v"
proof -
  show "x \<notin> set v \<Longrightarrow> replace_byte x w v = v" by (induction v) (auto simp: replace_byte_def)
qed (simp_all add: replace_byte_def)

lemma strstr_byte: "x \<notin> set p \<Longrightarrow> strstr (p @ x # q) [x] = Some (length p)"
  by (induction p) auto

lemma strstr_no_byte: "x \<notin> set p \<Longrightarrow> strstr p [x] = None"
  by (induction p) auto

lemma replaced_once:
  assumes "c_string v" "c_string w" "count_list v x \<le> 1"
  shows "replaced v [x] w = Some (replace_byte x w v)"
proof (cases "x \<in> set v")
  case False
  then show ?thesis by (simp add: replaced_def string_replace_none strstr_no_byte)
next
  case True
  then obtain p q where v: "v = p @ x # q" "x \<notin> set p" by (meson split_list_first)
  then have "x \<notin> set q" using assms(3) by (simp add: count_list_0_iff)
  with v string_replace_one [of "[x]" v w "length p" True] assms(1,2) show ?thesis
    by (simp add: replaced_def strstr_byte strstr_no_byte)
qed

text \<open>The text of a value, and the values the printer treats right.\<close>

definition escape_text :: "bool \<Rightarrow> cstr \<Rightarrow> cstr" where
  "escape_text q v =
     (let e = replace_byte 10 [92, 110] (replace_byte 92 [92, 92] v) in if q then replace_byte 34 [92, 34] e else e)"

definition value_text :: "cstr \<Rightarrow> cstr" where
  "value_text v = (if needs_quote v then 34 # escape_text True v @ [34] else escape_text False v)"

definition ini_safe :: "cstr \<Rightarrow> bool" where
  "ini_safe v \<longleftrightarrow> c_string v \<and> count_list v 92 \<le> 1 \<and> count_list v 10 \<le> 1 \<and>
     (if needs_quote v then count_list v 34 \<le> 1 else \<not> (2 \<le> length v \<and> hd v = 34 \<and> last v = 34))"

lemma escape_text_simps [simp]:
  "escape_text q [] = []"
  "escape_text q (c # v) =
     (if c = 92 then [92, 92] else if c = 10 then [92, 110] else if q \<and> c = 34 then [92, 34] else [c]) @ escape_text q v"
  "escape_text q (u @ v) = escape_text q u @ escape_text q v"
  by (simp_all add: escape_text_def Let_def)

lemma unescape_escape: "unescape_string (escape_text q v) q False = Some v"
  by (induction v) auto

lemma set_escape_text: "set (escape_text q v) \<subseteq> (set v - {10}) \<union> {92, 110, 34}"
  by (induction v) auto

lemma count_replace_byte: "x \<notin> set w \<Longrightarrow> y \<noteq> x \<Longrightarrow> count_list (replace_byte y w v) x = count_list v x"
  by (induction v) (auto simp: count_list_0_iff)

lemma needs_quote_replace: "needs_quote (replace_byte 10 [92, 110] (replace_byte 92 [92, 92] v)) = needs_quote v"
  by (induction v) (auto simp: needs_quote_def)

lemma c_string_replace: "c_string v \<Longrightarrow> c_string w \<Longrightarrow> c_string (replace_byte x w v)"
  by (induction v) auto

lemma print_value_text: "ini_safe v \<Longrightarrow> print_value v = Some (value_text v)"
proof -
  assume "ini_safe v"
  then have v: "c_string v" "count_list v 92 \<le> 1" "count_list v 10 \<le> 1" "needs_quote v \<Longrightarrow> count_list v 34 \<le> 1"
    by (auto simp: ini_safe_def split: if_splits)
  let ?a = "replace_byte 92 [92, 92] v"
  let ?b = "replace_byte 10 [92, 110] ?a"
  have a: "c_string ?a" "count_list ?a 10 \<le> 1" using v by (simp_all add: c_string_replace count_replace_byte)
  have b: "c_string ?b" "count_list ?b 34 = count_list v 34"
    using a by (simp_all add: c_string_replace count_replace_byte)
  show ?thesis using replaced_once [OF v(1) _ v(2)] replaced_once [OF a(1) _ a(2)] replaced_once [OF b(1)] b(2) v(4)
    by (simp add: print_value_def value_text_def escape_text_def needs_quote_replace Let_def)
qed

lemma last_escape_text: "v \<noteq> [] \<Longrightarrow> last (escape_text False v) = 34 \<longleftrightarrow> last v = 34"
  by (cases v rule: rev_cases) auto

lemma escape_text_Nil [simp]: "escape_text q v = [] \<longleftrightarrow> v = []"
  by (cases v) auto

lemma ini_value_text: "ini_safe v \<Longrightarrow> ini_value (value_text v) = Some v"
proof (cases "needs_quote v")
  case True
  then show ?thesis by (simp add: ini_value_def value_text_def butlast_append unescape_escape)
next
  case False
  assume "ini_safe v"
  then have n: "\<not> (2 \<le> length v \<and> hd v = 34 \<and> last v = 34)" using False by (simp add: ini_safe_def)
  have "\<not> (2 \<le> length (escape_text False v) \<and> hd (escape_text False v) = 34 \<and> last (escape_text False v) = 34)"
  proof (cases v)
    case (Cons c u)
    show ?thesis
    proof (cases "u = []")
      case True
      then show ?thesis by (simp add: Cons)
    next
      case u: False
      then have "2 \<le> length v" by (cases u) (simp_all add: Cons)
      then show ?thesis using n last_escape_text [of v] by (auto simp: Cons)
    qed
  qed simp
  then show ?thesis using False by (auto simp: ini_value_def value_text_def unescape_escape)
qed

lemma value_text_set: "ini_safe v \<Longrightarrow> c_string (value_text v) \<and> 10 \<notin> set (value_text v)"
  using set_escape_text [of True v] set_escape_text [of False v]
  by (auto simp: value_text_def c_string_def ini_safe_def)

lemma value_text_last: "value_text v \<noteq> [] \<Longrightarrow> \<not> fcitx_utils_isspace (last (value_text v))"
proof (cases "needs_quote v")
  case True
  then show ?thesis by (simp add: value_text_def fcitx_utils_isspace_def)
next
  case False
  assume "value_text v \<noteq> []"
  then have "last (value_text v) \<in> set (escape_text False v)" using False by (simp add: value_text_def)
  then have "last (value_text v) \<in> (set v - {10}) \<union> {92, 110, 34}" using set_escape_text by blast
  moreover have "x \<notin> {12, 13, 9, 11, 32}" if "x \<in> set v" for x
    using False that by (auto simp: needs_quote_def list_ex_iff)
  ultimately have "last (value_text v) \<notin> {12, 10, 13, 9, 11, 32}" by auto
  then show ?thesis unfolding fcitx_utils_isspace_def by blast
qed

section \<open>Lines\<close>

definition name_ok :: "cstr \<Rightarrow> bool" where
  "name_ok k \<longleftrightarrow> k \<noteq> [] \<and> c_string k \<and> 10 \<notin> set k \<and> 61 \<notin> set k \<and> 47 \<notin> set k \<and>
     hd k \<noteq> 91 \<and> hd k \<noteq> 35 \<and> \<not> fcitx_utils_isspace (hd k)"

lemma strip_line: "s \<noteq> [] \<Longrightarrow> \<not> fcitx_utils_isspace (hd s) \<Longrightarrow> \<not> fcitx_utils_isspace (last s) \<Longrightarrow>
    strip (s @ [10]) = s"
proof -
  assume s: "s \<noteq> []" "\<not> fcitx_utils_isspace (hd s)" "\<not> fcitx_utils_isspace (last s)"
  have "dropWhile fcitx_utils_isspace (s @ [10]) = s @ [10]" using s(1,2) by (cases s) auto
  moreover have "dropWhile fcitx_utils_isspace (rev s) = rev s" using s(1,3) by (cases s rule: rev_cases) auto
  ultimately show ?thesis by (simp add: strip_def fcitx_utils_isspace_def)
qed

lemma parse_line_trimmed:
  assumes "c_string s" "s \<noteq> []" "\<not> fcitx_utils_isspace (hd s)" "\<not> fcitx_utils_isspace (last s)"
  shows "parse_line (s @ [10]) (g, c) =
    (if hd s = 35 then (g, c)
     else if hd s = 91 \<and> last s = 93 then (Some (tl (butlast s)), c)
     else if 61 \<in> set s
     then case ini_value (tl (dropWhile (\<lambda>c. c \<noteq> 61) s)) of
         None \<Rightarrow> (g, c)
       | Some v \<Rightarrow> (g, fcitx_configuration_set_value_by_path c
           (case g of Some g \<Rightarrow> g @ 47 # takeWhile (\<lambda>c. c \<noteq> 61) s | None \<Rightarrow> takeWhile (\<lambda>c. c \<noteq> 61) s) (Some v))
     else (g, c))"
proof -
  have "strend (s @ [10]) = s @ [10]" using assms(1) by simp
  moreover have "fcitx_utils_inplace_trim (s @ [10]) =
      (takeWhile fcitx_utils_isspace (s @ [10]) @ s, length (takeWhile fcitx_utils_isspace (s @ [10])))"
    by (simp add: inplace_trim_eq strip_line assms)
  ultimately show ?thesis using assms(2)
    by (simp add: parse_line_def Let_def fcitx_utils_string_swap_def split: option.split)
qed

lemma parse_lines_line:
  "10 \<notin> set s \<Longrightarrow> parse_lines (s @ 10 # rest) st = parse_lines rest (parse_line (s @ [10]) st)"
proof -
  assume "10 \<notin> set s"
  then have "takeWhile (\<lambda>c. c \<noteq> 10) (s @ 10 # rest) = s" "dropWhile (\<lambda>c. c \<noteq> 10) (s @ 10 # rest) = 10 # rest"
    by (auto simp: takeWhile_append dropWhile_append)
  then show ?thesis by (subst parse_lines.simps) (simp add: getline_def)
qed

lemma parse_option:
  assumes "name_ok k" "ini_safe v"
  shows "parse_lines (k @ 61 # value_text v @ 10 # rest) (g, c) =
    parse_lines rest (g, fcitx_configuration_set_value_by_path c (case g of Some g \<Rightarrow> g @ 47 # k | None \<Rightarrow> k) (Some v))"
proof -
  let ?s = "k @ 61 # value_text v"
  have k: "k \<noteq> []" "c_string k" "10 \<notin> set k" "61 \<notin> set k" "hd k \<noteq> 91" "hd k \<noteq> 35" "\<not> fcitx_utils_isspace (hd k)"
    using assms(1) by (simp_all add: name_ok_def)
  have "takeWhile (\<lambda>c. c \<noteq> 61) ?s = k" "dropWhile (\<lambda>c. c \<noteq> 61) ?s = 61 # value_text v"
    using k(4) by (auto simp: takeWhile_append dropWhile_append)
  moreover have "\<not> fcitx_utils_isspace (last ?s)"
    using value_text_last [of v] by (auto simp: fcitx_utils_isspace_def)
  moreover have "c_string ?s" "10 \<notin> set ?s" using k value_text_set [OF assms(2)] by auto
  ultimately have "parse_line (?s @ [10]) (g, c) =
      (g, fcitx_configuration_set_value_by_path c (case g of Some g \<Rightarrow> g @ 47 # k | None \<Rightarrow> k) (Some v))"
    using k by (subst parse_line_trimmed) (simp_all add: ini_value_text [OF assms(2)] split: option.split)
  then show ?thesis using parse_lines_line [OF \<open>10 \<notin> set ?s\<close>, of rest] by simp
qed

lemma parse_group:
  assumes "c_string p" "10 \<notin> set p"
  shows "parse_lines (91 # p @ 93 # 10 # rest) (g, c) = parse_lines rest (Some p, c)"
proof -
  have "parse_line ((91 # p @ [93]) @ [10]) (g, c) = (Some p, c)"
    using assms by (subst parse_line_trimmed) (simp_all add: fcitx_utils_isspace_def)
  then show ?thesis using parse_lines_line [of "91 # p @ [93]" rest] assms(2) by simp
qed

lemma parse_comment:
  assumes "c_string m" "10 \<notin> set m"
  shows "parse_lines (35 # 32 # m @ 10 # rest) (g, c) = parse_lines rest (g, c)"
proof -
  let ?s = "strip (35 # 32 # m @ [10])"
  have "hd ?s = 35 \<and> ?s \<noteq> []"
    by (simp add: strip_def fcitx_utils_isspace_def dropWhile_append hd_append)
  then have "parse_line (35 # 32 # m @ [10]) (g, c) = (g, c)" using assms
    by (simp add: parse_line_def inplace_trim_eq Let_def)
  then show ?thesis using parse_lines_line [of "35 # 32 # m" rest] assms(2) by simp
qed
section \<open>Trees\<close>

text \<open>The assignments that the text of a tree makes, in their order.\<close>

function assigns :: "cstr list \<Rightarrow> config \<Rightarrow> (cstr list \<times> cstr) list" where
  "assigns ss c =
     concat (map (\<lambda>(k, d). case cfg_value d of Some v \<Rightarrow> [(ss @ [k], v)] | None \<Rightarrow> []) (kids c)) @
     concat (map (\<lambda>(k, d). assigns (ss @ [k]) d) (kids c))"
  by pat_completeness auto
termination
  by (relation "measure (\<lambda>(ss, c). size c)") (auto simp: kid_size)

declare assigns.simps [simp del]

definition assign :: "cstr list \<times> cstr \<Rightarrow> config \<Rightarrow> config" where
  "assign = (\<lambda>(ss, v). config_create ss (fcitx_configuration_set_value (Some v)))"

definition entry_ok :: "cstr \<Rightarrow> config \<Rightarrow> bool" where
  "entry_ok k d \<longleftrightarrow> name_ok k \<and> cfg_name d = Some k \<and>
     (case cfg_value d of Some v \<Rightarrow> ini_safe v | None \<Rightarrow> True) \<and>
     (case cfg_comment d of Some m \<Rightarrow> c_string m | None \<Rightarrow> True)"

text \<open>Trees whose keys and values survive the format.\<close>

function tree_ok :: "config \<Rightarrow> bool" where
  "tree_ok c \<longleftrightarrow> distinct (map fst (kids c)) \<and> list_all (\<lambda>(k, d). entry_ok k d \<and> tree_ok d) (kids c)"
  by pat_completeness auto
termination
  by (relation "measure size") (auto simp: kid_size)

declare tree_ok.simps [simp del]

lemma tree_okD: "tree_ok c \<Longrightarrow> (k, d) \<in> set (kids c) \<Longrightarrow> entry_ok k d \<and> tree_ok d"
  by (subst (asm) tree_ok.simps) (auto simp: list_all_iff)

lemma in_values: "(tt, v) \<in> set (concat (map (\<lambda>(k, d). case cfg_value d of Some v \<Rightarrow> [(ss @ [k], v)] | None \<Rightarrow> []) xs)) \<longleftrightarrow>
    (\<exists>k d. (k, d) \<in> set xs \<and> tt = ss @ [k] \<and> cfg_value d = Some v)"
  by (induction xs) (auto split: option.splits)

lemma in_concat: "x \<in> set (concat (map (\<lambda>(k, d). F k d) xs)) \<longleftrightarrow> (\<exists>k d. (k, d) \<in> set xs \<and> x \<in> set (F k d))"
  by (induction xs) auto

lemma assigns_iff:
  "tree_ok c \<Longrightarrow> (tt, v) \<in> set (assigns ss c) \<longleftrightarrow> (\<exists>us. us \<noteq> [] \<and> tt = ss @ us \<and> value_at us c = Some v)"
proof (induction "size c" arbitrary: c ss rule: less_induct)
  case less
  have dist: "distinct (map fst (kids c))" using less.prems unfolding tree_ok.simps [of c] ..
  have mem: "(k, d) \<in> set (kids c) \<longleftrightarrow> map_of (kids c) k = Some d" for k d
    using dist by (simp add: map_of_eq_Some_iff)
  have IH: "(tt, v) \<in> set (assigns (ss @ [k]) d) \<longleftrightarrow> (\<exists>us. us \<noteq> [] \<and> tt = (ss @ [k]) @ us \<and> value_at us d = Some v)"
    if "(k, d) \<in> set (kids c)" for k d
    by (rule less.hyps [OF kid_size [OF that]]) (use tree_okD [OF less.prems that] in simp)
  have "(tt, v) \<in> set (assigns ss c) \<longleftrightarrow>
      (\<exists>k d. (k, d) \<in> set (kids c) \<and> tt = ss @ [k] \<and> cfg_value d = Some v) \<or>
      (\<exists>k d. (k, d) \<in> set (kids c) \<and> (tt, v) \<in> set (assigns (ss @ [k]) d))"
    unfolding assigns.simps [of ss c] set_append Un_iff in_values by (simp only: in_concat)
  also have "\<dots> \<longleftrightarrow> (\<exists>k d us. (k, d) \<in> set (kids c) \<and> tt = ss @ k # us \<and> value_at us d = Some v)"
  proof (intro iffI; (elim disjE exE conjE)?)
    fix k d assume "(k, d) \<in> set (kids c)" "tt = ss @ [k]" "cfg_value d = Some v"
    then show "\<exists>k d us. (k, d) \<in> set (kids c) \<and> tt = ss @ k # us \<and> value_at us d = Some v"
      by (intro exI [of _ k] exI [of _ d] exI [of _ "[]"]) simp
  next
    fix k d assume "(k, d) \<in> set (kids c)" "(tt, v) \<in> set (assigns (ss @ [k]) d)"
    then show "\<exists>k d us. (k, d) \<in> set (kids c) \<and> tt = ss @ k # us \<and> value_at us d = Some v"
      using IH by fastforce
  next
    fix k d us assume a: "(k, d) \<in> set (kids c)" "tt = ss @ k # us" "value_at us d = Some v"
    show "(\<exists>k d. (k, d) \<in> set (kids c) \<and> tt = ss @ [k] \<and> cfg_value d = Some v) \<or>
      (\<exists>k d. (k, d) \<in> set (kids c) \<and> (tt, v) \<in> set (assigns (ss @ [k]) d))"
    proof (cases "us = []")
      case True
      with a show ?thesis by auto
    next
      case False
      with a IH [OF a(1)] show ?thesis by auto
    qed
  qed
  also have "\<dots> \<longleftrightarrow> (\<exists>us. us \<noteq> [] \<and> tt = ss @ us \<and> value_at us c = Some v)"
    by (auto simp: mem neq_Nil_conv bind_eq_Some_conv)
  finally show ?case .
qed

lemma value_at_assigns:
  "value_at ss (fold assign es c) = (case map_of (rev es) ss of Some v \<Rightarrow> Some v | None \<Rightarrow> value_at ss c)"
  by (induction es arbitrary: c)
    (auto simp: assign_def value_at_set map_add_def split: option.split)

lemma value_at_parsed:
  assumes "tree_ok c"
  shows "value_at ss (fold assign (assigns [] c) base) =
    (if ss \<noteq> [] \<and> value_at ss c \<noteq> None then value_at ss c else value_at ss base)"
proof -
  have iff: "(tt, v) \<in> set (assigns [] c) \<longleftrightarrow> tt \<noteq> [] \<and> value_at tt c = Some v" for tt v
    using assigns_iff [OF assms, of tt v "[]"] by auto
  show ?thesis
  proof (cases "map_of (rev (assigns [] c)) ss")
    case None
    then have "(ss, v) \<notin> set (assigns [] c)" for v by (force simp: map_of_eq_None_iff)
    then have "ss = [] \<or> value_at ss c = None" unfolding iff by (cases "value_at ss c") auto
    then show ?thesis using None by (auto simp: value_at_assigns)
  next
    case (Some v)
    then show ?thesis using map_of_SomeD [OF Some] iff [of ss v] by (simp add: value_at_assigns)
  qed
qed

section \<open>Printing and parsing a tree\<close>

lemma path_of_snoc: "path_of (ss @ [k]) = (if ss = [] then k else path_of ss @ 47 # k)"
  by (cases ss) (simp_all add: path_of_def)

lemma path_of_Nil [simp]: "list_all name_ok ss \<Longrightarrow> path_of ss = [] \<longleftrightarrow> ss = []"
  by (cases ss) (auto simp: path_of_def name_ok_def)

lemma name_segment: "name_ok k \<Longrightarrow> segment_ok k"
  by (simp add: name_ok_def segment_ok_def)

lemma path_of_clean: "list_all name_ok ss \<Longrightarrow> c_string (path_of ss) \<and> 10 \<notin> set (path_of ss)"
proof (induction ss rule: rev_induct)
  case (snoc k ss)
  then show ?case by (auto simp: path_of_snoc name_ok_def)
qed (simp add: path_of_def)

lemma set_value_path:
  assumes "list_all name_ok ss" "name_ok k" "ss = [] \<longleftrightarrow> g = None" "\<And>p. g = Some p \<Longrightarrow> p = path_of ss"
  shows "fcitx_configuration_set_value_by_path c (case g of Some g \<Rightarrow> g @ 47 # k | None \<Rightarrow> k) (Some v) =
    assign (ss @ [k], v) c"
proof -
  have "(case g of Some g \<Rightarrow> g @ 47 # k | None \<Rightarrow> k) = path_of (ss @ [k])"
    using assms(3,4) by (auto simp: path_of_snoc split: option.split)
  moreover have "list_all segment_ok (ss @ [k])" using assms(1,2) by (auto simp: name_segment list_all_iff)
  ultimately show ?thesis
    by (simp add: fcitx_configuration_set_value_by_path_def fcitx_configuration_get_def assign_def Let_def del: list_all_append)
qed

lemma foreach_step:
  "k \<noteq> [] \<Longrightarrow> configuration_subitems_foreach [] False f b ((k, d) # xs) s =
     Option.bind (f d k s) (configuration_subitems_foreach [] False f (if length k > b then length k else b) xs)"
  by (auto simp: Let_def)

lemma has_value_ok:
  "(\<And>k d. (k, d) \<in> set xs \<Longrightarrow> k \<noteq> []) \<Longrightarrow>
   configuration_subitems_foreach [] False ini_has_sub_value_callback b xs h =
   Some (h \<or> list_ex (\<lambda>(k, d). cfg_value d \<noteq> None) xs)"
proof (induction xs arbitrary: b h)
  case (Cons x xs)
  obtain k d where x: "x = (k, d)" by fastforce
  have "k \<noteq> []" using Cons.prems [of k d] by (simp add: x)
  then have "configuration_subitems_foreach [] False ini_has_sub_value_callback b (x # xs) h =
      configuration_subitems_foreach [] False ini_has_sub_value_callback (if length k > b then length k else b) xs
        (h \<or> cfg_value d \<noteq> None)"
    by (simp only: x foreach_step) (simp add: ini_has_sub_value_callback_def fcitx_configuration_get_value_def)
  moreover have "configuration_subitems_foreach [] False ini_has_sub_value_callback b xs h =
      Some (h \<or> list_ex (\<lambda>(k, d). cfg_value d \<noteq> None) xs)" for b h
    by (rule Cons.IH) (use Cons.prems in auto)
  ultimately show ?case by (auto simp: x)
qed simp

lemma options_ok:
  assumes "\<And>k d. (k, d) \<in> set xs \<Longrightarrow> entry_ok k d" "list_all name_ok ss"
  shows "\<exists>t. configuration_subitems_foreach [] False ini_foreach_option_callback b xs fp = Some (fp @ t) \<and>
    (\<forall>rest g c. (ss = [] \<longleftrightarrow> g = None) \<and> (\<forall>p. g = Some p \<longrightarrow> p = path_of ss) \<longrightarrow>
      parse_lines (t @ rest) (g, c) = parse_lines rest (g, fold assign
        (concat (map (\<lambda>(k, d). case cfg_value d of Some v \<Rightarrow> [(ss @ [k], v)] | None \<Rightarrow> []) xs)) c))"
  using assms(1)
proof (induction xs arbitrary: b fp)
  case (Cons x xs)
  obtain k d where x: "x = (k, d)" by fastforce
  have ok: "entry_ok k d" using Cons.prems [of k d] by (simp add: x)
  then have k: "name_ok k" "k \<noteq> []" "cfg_name d = Some k" by (auto simp: entry_ok_def name_ok_def)
  have IH: "\<exists>t. configuration_subitems_foreach [] False ini_foreach_option_callback b xs fp = Some (fp @ t) \<and>
    (\<forall>rest g c. (ss = [] \<longleftrightarrow> g = None) \<and> (\<forall>p. g = Some p \<longrightarrow> p = path_of ss) \<longrightarrow>
      parse_lines (t @ rest) (g, c) = parse_lines rest (g, fold assign
        (concat (map (\<lambda>(k, d). case cfg_value d of Some v \<Rightarrow> [(ss @ [k], v)] | None \<Rightarrow> []) xs)) c))" for b fp
    using Cons.IH Cons.prems by simp
  have step: "configuration_subitems_foreach [] False ini_foreach_option_callback b (x # xs) fp =
      Option.bind (ini_foreach_option_callback d k fp)
        (configuration_subitems_foreach [] False ini_foreach_option_callback (if length k > b then length k else b) xs)"
    using k(2) by (simp only: x foreach_step not_False_eq_True)
  show ?case
  proof (cases "cfg_value d")
    case None
    then have "ini_foreach_option_callback d k fp = Some fp"
      by (simp add: ini_foreach_option_callback_def fcitx_configuration_get_value_def)
    then show ?thesis using IH [of "if length k > b then length k else b" fp] None unfolding step by (simp add: x)
  next
    case (Some v)
    define m where "m = (case cfg_comment d of Some m \<Rightarrow> if 10 \<in> set m then [] else [35, 32] @ m @ [10] | None \<Rightarrow> [])"
    have safe: "ini_safe v" using ok Some by (simp add: entry_ok_def)
    have m: "parse_lines (m @ rest) st = parse_lines rest st" for rest st
      using parse_comment [of _ rest "fst st" "snd st"] ok
      by (auto simp: m_def entry_ok_def split: option.split)
    let ?l = "m @ k @ 61 # value_text v @ [10]"
    have "ini_foreach_option_callback d k fp = Some (fp @ ?l)"
      using Some k(3) print_value_text [OF safe]
      by (simp add: ini_foreach_option_callback_def fcitx_configuration_get_value_def m_def
          fcitx_configuration_get_comment_def fcitx_configuration_get_name_def cong: option.case_cong)
    moreover obtain t where t: "configuration_subitems_foreach [] False ini_foreach_option_callback
        (if length k > b then length k else b) xs (fp @ ?l) = Some ((fp @ ?l) @ t)"
      "\<And>rest g c. (ss = [] \<longleftrightarrow> g = None) \<and> (\<forall>p. g = Some p \<longrightarrow> p = path_of ss) \<Longrightarrow>
      parse_lines (t @ rest) (g, c) = parse_lines rest (g, fold assign
        (concat (map (\<lambda>(k, d). case cfg_value d of Some v \<Rightarrow> [(ss @ [k], v)] | None \<Rightarrow> []) xs)) c)"
      using IH [of "if length k > b then length k else b" "fp @ ?l"] by blast
    moreover have "parse_lines ((?l @ t) @ rest) (g, c) = parse_lines rest (g, fold assign
        (concat (map (\<lambda>(k, d). case cfg_value d of Some v \<Rightarrow> [(ss @ [k], v)] | None \<Rightarrow> []) (x # xs))) c)"
      if "(ss = [] \<longleftrightarrow> g = None) \<and> (\<forall>p. g = Some p \<longrightarrow> p = path_of ss)" for rest g c
      using t(2) [OF that] parse_option [OF k(1) safe, of "t @ rest" g c] set_value_path [OF assms(2) k(1), of g c v] that
      by (simp add: m x Some)
    ultimately show ?thesis unfolding step by (intro exI [of _ "?l @ t"]) simp
  qed
qed simp
text \<open>What an appended text does to the parser: it makes the assignments, whatever the group was, unless
  they belong to no group.\<close>

definition writes :: "cstr list \<Rightarrow> (cstr list \<times> cstr) list \<Rightarrow> cstr \<Rightarrow> bool" where
  "writes ss es t \<longleftrightarrow>
     (\<forall>rest g c. (ss = [] \<longrightarrow> g = None) \<longrightarrow>
        (\<exists>g'. parse_lines (t @ rest) (g, c) = parse_lines rest (g', fold assign es c)))"

lemma node_ok:
  "tree_ok c \<Longrightarrow> list_all name_ok ss \<Longrightarrow>
   \<exists>t. ini_foreach_callback c (path_of ss) fp = Some (fp @ t) \<and> writes ss (assigns ss c) t"
proof (induction "size c" arbitrary: c ss fp rule: less_induct)
  case less
  let ?p = "path_of ss" and ?xs = "kids c"
  let ?vs = "concat (map (\<lambda>(k, d). case cfg_value d of Some v \<Rightarrow> [(ss @ [k], v)] | None \<Rightarrow> []) ?xs)"
  have ok: "entry_ok k d \<and> tree_ok d \<and> k \<noteq> []" if "(k, d) \<in> set ?xs" for k d
    using tree_okD [OF less.prems(1) that] by (auto simp: entry_ok_def name_ok_def)
  have seg: "path_segments [] = []" by (simp add: path_segments.simps)
  define has where "has = list_ex (\<lambda>(k, d). cfg_value d \<noteq> None) ?xs"
  have has: "fcitx_configuration_foreach c [] False None ini_has_sub_value_callback False = Some has"
    using has_value_ok [of ?xs 0 False] ok by (simp add: fcitx_configuration_foreach_def seg has_def)
  have vs: "?vs = []" if "\<not> has"
  proof -
    have "(case cfg_value d of Some v \<Rightarrow> [(ss @ [k], v)] | None \<Rightarrow> []) = []" if "(k, d) \<in> set ?xs" for k d
      using \<open>\<not> has\<close> that by (fastforce simp: has_def list_ex_iff split: option.split)
    then show ?thesis by auto
  qed
  have own: "\<exists>t. (if has then fcitx_configuration_foreach c [] False None ini_foreach_option_callback
        (if ?p \<noteq> [] then fp @ [91] @ ?p @ [93, 10] else fp) else Some fp) = Some (fp @ t) \<and>
      (\<forall>rest g c. (ss = [] \<longrightarrow> g = None) \<longrightarrow>
        (\<exists>g'. (ss = [] \<longrightarrow> g' = None) \<and> parse_lines (t @ rest) (g, c) = parse_lines rest (g', fold assign ?vs c)))"
  proof (cases has)
    case False
    show ?thesis unfolding vs [OF False] using False by (intro exI [of _ "[]"]) auto
  next
    case True
    define h where "h = (if ?p \<noteq> [] then [91] @ ?p @ [93, 10] else [])"
    have h: "parse_lines (h @ rest) (g, c) = parse_lines rest (if ss = [] then g else Some ?p, c)" for rest g c
      using parse_group [of ?p rest g c] path_of_clean [OF less.prems(2)] less.prems(2) by (auto simp: h_def)
    obtain t where t: "configuration_subitems_foreach [] False ini_foreach_option_callback 0 ?xs (fp @ h) = Some ((fp @ h) @ t)"
      "\<And>rest g c. (ss = [] \<longleftrightarrow> g = None) \<and> (\<forall>p. g = Some p \<longrightarrow> p = ?p) \<Longrightarrow>
         parse_lines (t @ rest) (g, c) = parse_lines rest (g, fold assign ?vs c)"
      using options_ok [of ?xs ss 0 "fp @ h"] ok less.prems(2) by blast
    have "parse_lines ((h @ t) @ rest) (g, c) =
        parse_lines rest (if ss = [] then g else Some ?p, fold assign ?vs c)" if "ss = [] \<longrightarrow> g = None" for rest g c
      using that t(2) [of "if ss = [] then g else Some ?p" rest c] by (simp add: h)
    moreover have "(if ?p \<noteq> [] then fp @ [91] @ ?p @ [93, 10] else fp) = fp @ h" by (simp add: h_def)
    ultimately show ?thesis using t(1) True
      by (intro exI [of _ "h @ t"]) (auto simp: fcitx_configuration_foreach_def seg)
  qed
  have sub: "\<exists>t. configuration_subitems_foreach ?p False ini_foreach_callback b xs fp = Some (fp @ t) \<and>
      (\<forall>rest g c. \<exists>g'. parse_lines (t @ rest) (g, c) =
         parse_lines rest (g', fold assign (concat (map (\<lambda>(k, d). assigns (ss @ [k]) d) xs)) c))"
    if "set xs \<subseteq> set ?xs" for xs b fp
    using that
  proof (induction xs arbitrary: b fp)
    case Nil
    show ?case by (intro exI [of _ "[]"]) auto
  next
    case (Cons x xs)
    obtain k d where x: "x = (k, d)" by fastforce
    have mem: "(k, d) \<in> set ?xs" using Cons.prems by (simp add: x)
    have k: "k \<noteq> []" "name_ok k" "tree_ok d" using ok [OF mem] by (auto simp: entry_ok_def)
    have path: "(if ?p = [] then k else ?p @ 47 # k) = path_of (ss @ [k])"
      using less.prems(2) by (simp add: path_of_snoc)
    have names: "list_all name_ok (ss @ [k])" using less.prems(2) k(2) by simp
    obtain t where t: "ini_foreach_callback d (path_of (ss @ [k])) fp = Some (fp @ t)"
      and w: "writes (ss @ [k]) (assigns (ss @ [k]) d) t"
      using less.hyps [OF kid_size [OF mem] k(3) names] by blast
    define b' where "b' = (let n = length ?p + length k + (if ?p = [] then 0 else 1) in if n > b then n else b)"
    obtain u where u: "configuration_subitems_foreach ?p False ini_foreach_callback b' xs (fp @ t) = Some ((fp @ t) @ u)"
      and w': "\<And>rest g c. \<exists>g'. parse_lines (u @ rest) (g, c) =
         parse_lines rest (g', fold assign (concat (map (\<lambda>(k, d). assigns (ss @ [k]) d) xs)) c)"
      using Cons.IH [of b' "fp @ t"] Cons.prems by auto
    have "b' \<noteq> 0" using k(1) by (cases k) (auto simp: b'_def Let_def)
    then have "configuration_subitems_foreach ?p False ini_foreach_callback b (x # xs) fp = Some (fp @ t @ u)"
      using t u unfolding x configuration_subitems_foreach.simps b'_def Let_def path by simp
    moreover have "\<exists>g'. parse_lines ((t @ u) @ rest) (g, c) =
        parse_lines rest (g', fold assign (concat (map (\<lambda>(k, d). assigns (ss @ [k]) d) (x # xs))) c)" for rest g c
    proof -
      obtain g1 where g1: "parse_lines (t @ u @ rest) (g, c) = parse_lines (u @ rest) (g1, fold assign (assigns (ss @ [k]) d) c)"
        using w unfolding writes_def by blast
      with w' [of rest g1 "fold assign (assigns (ss @ [k]) d) c"] show ?thesis by (simp add: x)
    qed
    ultimately show ?case by (intro exI [of _ "t @ u"]) blast
  qed
  obtain t where t: "(if has then fcitx_configuration_foreach c [] False None ini_foreach_option_callback
        (if ?p \<noteq> [] then fp @ [91] @ ?p @ [93, 10] else fp) else Some fp) = Some (fp @ t)"
    and w: "\<And>rest g c. (ss = [] \<longrightarrow> g = None) \<Longrightarrow>
        (\<exists>g'. (ss = [] \<longrightarrow> g' = None) \<and> parse_lines (t @ rest) (g, c) = parse_lines rest (g', fold assign ?vs c))"
    using own by blast
  obtain u where u: "configuration_subitems_foreach ?p False ini_foreach_callback 0 ?xs (fp @ t) = Some ((fp @ t) @ u)"
    and w': "\<And>rest g c. \<exists>g'. parse_lines (u @ rest) (g, c) =
         parse_lines rest (g', fold assign (concat (map (\<lambda>(k, d). assigns (ss @ [k]) d) ?xs)) c)"
    using sub [of ?xs 0 "fp @ t"] by blast
  have "ini_foreach_callback c ?p fp = Some (fp @ t @ u)"
    by (subst ini_foreach_callback.simps) (simp only: has bind.bind_lunit t u append_assoc)
  moreover have "writes ss (assigns ss c) (t @ u)"
    unfolding writes_def
  proof (intro allI impI)
    fix rest :: cstr and g :: "cstr option" and cc :: config
    assume "ss = [] \<longrightarrow> g = None"
    from w [OF this, of "u @ rest" cc] obtain g1 where
      "parse_lines (t @ u @ rest) (g, cc) = parse_lines (u @ rest) (g1, fold assign ?vs cc)" by blast
    with w' [of rest g1 "fold assign ?vs cc"]
    show "\<exists>g'. parse_lines ((t @ u) @ rest) (g, cc) = parse_lines rest (g', fold assign (assigns ss c) cc)"
      by (simp add: assigns.simps [of ss c])
  qed
  ultimately show ?case by blast
qed

text \<open>C20: A configuration tree survives being printed and parsed: for every tree whose names and values
  the format can hold, printing succeeds, and parsing the printed text into any tree gives that tree
  overlaid with the values of the printed one, at every path, whatever the depth, and changes no other
  value.  The value of the root itself is not printed.\<close>

theorem ini_roundtrip:
  assumes "tree_ok c"
  shows "\<exists>buf n. fcitx_ini_to_string c = Some (buf, n) \<and>
    (\<forall>ss base. value_at ss (fcitx_ini_parse_string buf n (Some base)) =
       (if ss \<noteq> [] \<and> value_at ss c \<noteq> None then value_at ss c else value_at ss base))"
proof -
  obtain t where t: "ini_foreach_callback c [] [] = Some t" "writes [] (assigns [] c) t"
    using node_ok [OF assms, of "[]" "[]"] by (auto simp: path_of_def)
  have "fcitx_ini_parse_string (t @ [0]) (length (t @ [0])) (Some base) = fold assign (assigns [] c) base" for base
  proof -
    obtain g where "parse_lines (t @ [0]) (None, base) = parse_lines [0] (g, fold assign (assigns [] c) base)"
      using t(2) unfolding writes_def by blast
    moreover have "parse_lines [0] (g, d) = (g, d)" for d
      by (subst parse_lines.simps, subst parse_lines.simps)
        (simp add: getline_def parse_line_def strend_def inplace_trim_eq strip_def)
    ultimately show ?thesis by (simp add: fcitx_ini_parse_string_def fcitx_ini_parse_def)
  qed
  then show ?thesis using t(1)
    by (auto simp: fcitx_ini_to_string_def fcitx_ini_print_def value_at_parsed [OF assms] Let_def)
qed

lemma tree_ok_simps:
  "tree_ok (Config n v m None)"
  "tree_ok (Config n v m (Some xs)) \<longleftrightarrow> distinct (map fst xs) \<and> list_all (\<lambda>(k, d). entry_ok k d \<and> tree_ok d) xs"
  by (subst tree_ok.simps, simp)+

definition ex_config_tree :: config where
  "ex_config_tree = Config None None None (Some
     [(bytes ''k'', Config (Some (bytes ''k'')) (Some (bytes ''a b'')) None None),
      (bytes ''g'', Config (Some (bytes ''g'')) None None (Some
        [(bytes ''n'', Config (Some (bytes ''n'')) (Some [10, 34]) (Some (bytes ''x'')) None)]))])"

theorem ini_roundtrip_witness:
  "\<exists>buf n. fcitx_ini_to_string ex_config_tree = Some (buf, n) \<and>
     value_at [bytes ''g'', bytes ''n''] (fcitx_ini_parse_string buf n (Some (Config None None None None))) = Some [10, 34] \<and>
     value_at [bytes ''k''] (fcitx_ini_parse_string buf n (Some (Config None None None None))) = Some (bytes ''a b'')"
proof -
  have "tree_ok ex_config_tree"
    by (simp add: ex_config_tree_def tree_ok_simps entry_ok_def name_ok_def ini_safe_def needs_quote_def of_char_def
        fcitx_utils_isspace_def)
  from ini_roundtrip [OF this] obtain buf n where b: "fcitx_ini_to_string ex_config_tree = Some (buf, n)"
    and r: "\<And>ss base. value_at ss (fcitx_ini_parse_string buf n (Some base)) =
       (if ss \<noteq> [] \<and> value_at ss ex_config_tree \<noteq> None then value_at ss ex_config_tree else value_at ss base)"
    by blast
  have "value_at [bytes ''g'', bytes ''n''] ex_config_tree = Some [10, 34]"
    "value_at [bytes ''k''] ex_config_tree = Some (bytes ''a b'')"
    by (simp_all add: ex_config_tree_def of_char_def)
  with b r show ?thesis by (intro exI [of _ buf] exI [of _ n]) simp
qed
text \<open>What is read back after one value was printed under the name \<open>k\<close>.\<close>

definition reread :: "cstr \<Rightarrow> cstr option option" where
  "reread v = map_option (\<lambda>(buf, n). value_at [bytes ''k''] (fcitx_ini_parse_string buf n None))
     (fcitx_ini_to_string (Config None None None (Some [(bytes ''k'', Config (Some (bytes ''k'')) (Some v) None None)])))"

text \<open>Values that do not survive: of one between quotes and without spaces the quotes are taken off; of
  one with two backslashes, \<open>a\bc\d\<close>, the part between them is lost; and one with two adjacent
  backslashes and text after them, \<open>a\\bc\<close>, survives.\<close>

theorem ini_values_lost:
  "reread [34, 97, 34] = Some (Some [97]) \<and>
   reread [97, 92, 98, 99, 92, 100] = Some (Some [97, 92, 100]) \<and>
   reread [97, 92, 92, 98, 99] = Some (Some [97, 92, 92, 98, 99])"
  by code_simp

end
