(* ===== verification/Spec2Isabelle.thy ===== *)
theory Spec2Isabelle
  imports XimFrontend XcbModule IpcFrontend_Safety DBusModule FormatText XkbRules Description IsoCodes KeyNames Library StandardPath MemoryPool MainLoop Options Color I18nString Utf8_Strings ListSort HandlerTable Dict PtrArray BitSet StringList InputContext_Policy Instance IniFile
begin

text \<open>
  Verification development for fcitx-ng, an input method framework written in C.  Paths are those of the
  repository, under \<open>src/\<close>: \<open>utils/\<close> is \<open>lib/fcitx-utils/\<close>, \<open>config/\<close> is \<open>lib/fcitx-config/\<close> and
  \<open>fcitx/\<close> is \<open>lib/fcitx/\<close>.

  The program.  An instance (\<open>fcitx/instance.c\<close>) owns a main loop (\<open>utils/mainloop.c\<close>), an addon
  manager (\<open>fcitx/addon.c\<close>), an input context manager (\<open>fcitx/inputcontext.c\<close>) and an input method
  manager (\<open>fcitx/ime.c\<close>).  Addons are frontends, which make input contexts for their clients and pass
  on what happens to them, input methods, and modules: the module of the message bus
  (\<open>module/dbus/dbusmodule.c\<close>) puts the connection on the main loop and watches names, and the frontend
  of the message bus (\<open>frontend/ipc/ipc.c\<close>) makes an object for each context and drops the contexts of a
  client that leaves.  A key event goes from the frontend through the context to the dispatcher of the
  instance, which gives it to the input method of the context; commits and forwarded keys go back the same
  way as events.  Below this are the configuration library (a tree, its files, its descriptions, typed
  options) and the utility library (strings, containers, allocators, sorting, files).

  How C is modelled.
  \<^item> A C string is the list of its bytes up to the NUL, a read outside it is \<open>None\<close>; unsigned integers are
    words of their width, so that they wrap around, and signed ones are integers with the overflow written
    out where it matters.
  \<^item> \<open>None\<close> is what C leaves undefined: reading through \<open>NULL\<close>, using freed or moved memory, leaving an
    array.  A theorem that says \<open>Some\<close> therefore also says that none of this happens, and that the
    loops end.
  \<^item> A structure is a record, with its fields in the order of the code; objects that are shared are
    addressed by numbers in a store, owned ones are values.  Callbacks are arguments, or calls in a log in
    their order.
  \<^item> The operating system, the dynamic loader, the XML parser, the bus library, the clock and the random
    numbers are arguments of the definitions that use them.

  The theories, from the bottom, with the files they model.
  \<^item> Shared vocabulary: \<open>Prelude\<close> (bytes, reads, the option monad), \<open>Bits\<close> (lemmas on words),
    \<open>CString\<close> (the functions of the C library on strings, decimal numbers), \<open>Links\<close> (doubly linked
    chains).
  \<^item> Text: \<open>Utf8\<close>, \<open>Utf8_Codec\<close>, \<open>Utf8_Validated\<close> and \<open>Utf8_Strings\<close> (\<open>utils/utf8.c\<close>,
    \<open>utf8.h\<close>): the decoder inverts the encoder, the validator accepts exactly the encodings of valid code
    points, the walkers agree with the list of characters, the bounded copy keeps its bound.
    \<open>StringUtils\<close> (\<open>stringutils.c\<close>): escaping, searching, replacing, joining; the rolling-hash search is
    the naive one.  \<open>StringList\<close> (\<open>stringlist.c\<close>) and \<open>StringSets\<close> (\<open>stringhashset.c\<close>,
    \<open>stringmap.c\<close>): splitting and joining.
  \<^item> Containers: \<open>LinkedList\<close> and \<open>ListSort\<close> (\<open>list.h\<close>, \<open>list.c\<close>): rings in a store, each operation
    against the list it stands for, traversals that survive removals, the merge sort on links.
    \<open>Sorting\<close> (\<open>msort_r.c\<close>, \<open>qsort_r.c\<close>), \<open>UtArray\<close> (\<open>utarray.h\<close>), \<open>PtrArray\<close> (\<open>array.c\<close>),
    \<open>BitSet\<close> (\<open>bitset.h\<close>), \<open>Dict\<close> (\<open>dict.c\<close> on \<open>uthash.h\<close>).  \<open>ObjPool\<close> (\<open>objpool.c\<close>) and
    \<open>MemoryPool\<close> (\<open>memory-pool.c\<close>): what is handed out is fresh, disjoint and given back.
    \<open>HandlerTable\<close> (\<open>handler-table.c\<close>), on the pool and the linked chains: each operation is the one on
    a list of handlers for each key.
  \<^item> System: \<open>MainLoop\<close> (\<open>mainloop.c\<close>): dispatching ends and uses no freed event, whatever the callbacks
    do through the interface, and which events are called in which order.  \<open>Fs\<close> (\<open>fs.c\<close>), \<open>Misc\<close>
    (\<open>misc.c\<close>), \<open>StandardPath\<close> (\<open>standardpath.c\<close>), \<open>Library\<close> (\<open>library.c\<close>), \<open>Color\<close>
    (\<open>color.c\<close>), \<open>I18nString\<close> (\<open>i18nstring.c\<close>), \<open>KeyData\<close> and \<open>Key\<close> (\<open>keydata.h\<close>, \<open>key.c\<close>): key
    symbols and code points, the textual form of keys over any tables of names.  \<open>KeyNameTable\<close>
    (\<open>keynametable.h\<close>, \<open>keynametable-compat.h\<close>) and \<open>KeyNames\<close>: these tables are in order and agree, so
    that each key with an entry is read back from its name.
  \<^item> Configuration: \<open>Configuration\<close> (\<open>config/configuration.c\<close>), \<open>IniFile\<close> (\<open>iniparser.c\<close>): a printed
    tree is read back.  \<open>Options\<close> (\<open>helper.c\<close>): a stored option is loaded again and leaves the others.
    \<open>Description\<close> (\<open>description.c\<close>): when a description is in error.
  \<^item> The framework: \<open>InputContext\<close> holds the model of \<open>fcitx/inputcontext.c\<close>;
    \<open>InputContext_Focus\<close> the invariant of identity and focus, \<open>InputContext_Steps\<close> the operations as a
    step relation with its reachable states, \<open>InputContext_Events\<close> the events and their order,
    \<open>InputContext_Policy\<close> the shared properties, \<open>InputContext_Kept\<close> what a frontend can rely on.
    \<open>AddonManager\<close> (\<open>addon.c\<close>): dependencies are loaded first, and loading ends.  \<open>InputMethod\<close>
    (\<open>ime.c\<close>), \<open>Instance\<close> (\<open>instance.c\<close>), over the models of the main loop and the managers: the life of
    an instance.  \<open>FormatText\<close> (\<open>ui.c\<close>),
    \<open>XkbRules\<close> (\<open>rules.c\<close>), \<open>IsoCodes\<close> (\<open>isocodes.c\<close>).
  \<^item> Addons: \<open>DBusModule\<close> (\<open>module/dbus/dbusmodule.c\<close>), over the models of the main loop and the handler
    table; \<open>IpcFrontend\<close> and \<open>IpcFrontend_Safety\<close> (\<open>frontend/ipc/ipc.c\<close>), over the models of that
    module, the input context manager, the dictionary and the UTF-8 validator: the calls of clients keep
    contexts, objects, clients and watches in step.  \<open>XcbModule\<close> (\<open>module/xcb/xcbmodule.c\<close>), over the
    models of the main loop, the manager, the dictionary and the handler table: which context a display
    takes, the order of the filters, and which rules of a display can be read.  \<open>XimFrontend\<close>
    (\<open>frontend/xim/xim.c\<close>), over the model of that module: what a client is shown of a preedit text.

  Interfaces.  A contract that several components rely on is a locale: its laws are proved for the model of
  the provider by an interpretation beside it, and the clients use the facts of the interpretation.

  Loops.  A loop that runs over its data is structural recursion, or has a measure.  Loops over a store
  that need not be finite for an arbitrary store have fuel, or are partial functions whose value \<open>None\<close> is
  also that they do not end.  The fuel is bounded by the size of what the loop runs over: the length of the
  ring for the sort of a list, the capacity of the pool of objects (\<open>chain_fuel\<close>) for the chain of a key,
  the number of events for the lists of the main loop.  That it is enough is part of the theorems, whose
  conclusion is a result \<open>Some\<close> for well-formed states.  \<open>destroy_sender\<close> and the destruction of all
  contexts end because each step removes one.

  Errors in the code.  Where the code goes wrong the model follows it: a section \<open>What goes wrong\<close> of the
  theory shows the run, and the theorems about the correct behaviour name the condition that excludes it.

  Not modelled.
  \<^item> The preedit text of a context, the reference counts that only count, and the freeing of owned values.
  \<^item> The buckets of \<open>uthash.h\<close>: its table is the list in insertion order that it also keeps.
  \<^item> The generated list of key symbols (\<open>keysymgen.h\<close>), of which the numbers in use are written out, and the
    generated parsers of configurations, which are arguments of what uses them.
  \<^item> The module for Wayland, which the build leaves out and whose handlers of input are empty.
  \<^item> The start of the program and its signal handlers (\<open>core/\<close>), the keyboard engine, which is a stub
    at this commit, the atomic operations, which are those of the compiler, the developer tools, which print
    generated C, and the tests.
\<close>

end
